(* ===== verification/Prelude.thy ===== *)
theory Prelude
  imports Main "HOL-Library.Word"
begin

section \<open>Prelude: C values, error numbers, shared lemmas\<close>

text \<open>
  What every component of the development shares: the error numbers the kernel stores in
  \<open>errno\<close>, the C integer conversions the kernel performs implicitly (stores into an
  \<open>int8_t\<close>, \<open>uint8_t\<close>, \<open>uint16_t\<close> or \<open>unsigned\<close> field), bit masks on flag words, and a few facts on
  lists and on functions updated at one point. A C value is an \<open>int\<close> where the code keeps it in
  \<open>int\<close> and its range is not an issue, a word of the code's width where bits or wrap-around
  are, and a \<open>nat\<close> for an index the code only increments and resets.
\<close>

unbundle bit_operations_syntax

type_synonym byte = "8 word"
type_synonym u16 = "16 word"
type_synonym u32 = "32 word"

text \<open>The error numbers the modelled functions store; \<open>ENOERR\<close> is an \<open>errno\<close> of zero.\<close>

datatype errno = ENOERR | EINVAL | EAGAIN | EACCES | EBADF | EEXIST | ENOENT | ENAMETOOLONG
  | ENOMEM | EMSGSIZE | EIO | ETIMEDOUT | ENOTSUP | EDEADLK | EBUSY | EPERM | ESRCH
  | ENOSPC | ENOTDIR | EFBIG | ENXIO | ENOEXEC | EMFILE | EINTR | ENODATA | EINPROGRESS
  | ERRNO int

named_theorems wf_intros \<open>introduction rules for well-formedness invariants\<close>
named_theorems step_simps \<open>effect of one operation on one part of the state\<close>

subsection \<open>Implicit conversions of C\<close>

definition to_i8 :: "int \<Rightarrow> int" where
  "to_i8 x = (x + 128) mod 256 - 128"

definition to_u16 :: "int \<Rightarrow> int" where
  "to_u16 x = x mod 65536"

lemma to_i8_id [simp]: "-128 \<le> x \<Longrightarrow> x < 128 \<Longrightarrow> to_i8 x = x"
  by (simp add: to_i8_def)

lemma to_u16_id [simp]: "0 \<le> x \<Longrightarrow> x < 65536 \<Longrightarrow> to_u16 x = x"
  by (simp add: to_u16_def)

subsection \<open>Flag words\<close>

text \<open>
  \<open>flags |= (1<<n)\<close>, \<open>flags &= ~(1<<n)\<close>, the test \<open>flags & (1<<n)\<close> taken as a truth value, and the
  test \<open>(flags & (1<<n)) == (1<<n)\<close>.
\<close>

definition flag_set :: "'a::len word \<Rightarrow> nat \<Rightarrow> 'a word" where
  "flag_set f n = f OR push_bit n 1"

definition flag_clear :: "'a::len word \<Rightarrow> nat \<Rightarrow> 'a word" where
  "flag_clear f n = f AND NOT (push_bit n 1)"

definition flag_test :: "'a::len word \<Rightarrow> nat \<Rightarrow> bool" where
  "flag_test f n = (f AND push_bit n 1 \<noteq> 0)"

definition flag_has :: "'a::len word \<Rightarrow> nat \<Rightarrow> bool" where
  "flag_has f n = (f AND push_bit n 1 = push_bit n 1)"

lemma flag_test_bit [simp]: "flag_test (f :: 'a::len word) n = bit f n"
  by (auto simp: flag_test_def bit_eq_iff [of "_ :: 'a word"] bit_simps dest: bit_imp_le_length)

lemma flag_has_bit [simp]: "n < LENGTH('a) \<Longrightarrow> flag_has (f :: 'a::len word) n = bit f n"
  by (auto simp: flag_has_def bit_eq_iff [of "_ :: 'a word"] bit_simps)

lemma bit_flag_set [simp]: "bit (flag_set (f :: 'a::len word) n) m \<longleftrightarrow> bit f m \<or> m = n \<and> n < LENGTH('a)"
  by (auto simp: flag_set_def bit_simps)

lemma bit_flag_clear [simp]: "bit (flag_clear (f :: 'a::len word) n) m \<longleftrightarrow> bit f m \<and> m \<noteq> n"
  by (auto simp: flag_clear_def bit_simps dest: bit_imp_le_length)

subsection \<open>Lists and updated functions\<close>

lemma fun_upd_idem_iff [simp]: "(f(a := b)) a = b"
  by simp

lemma nth_append_left' [simp]: "i < length xs \<Longrightarrow> (xs @ ys) ! i = xs ! i"
  by (simp add: nth_append)

lemma tl_append_single: "xs \<noteq> [] \<Longrightarrow> tl (xs @ ys) = tl xs @ ys"
  by (cases xs) auto

lemma drop_Suc_conv_tl: "drop (Suc n) xs = drop n (tl xs)"
  by (simp add: drop_Suc)

lemma take_update_ge: "n \<le> i \<Longrightarrow> take n (xs[i := v]) = take n xs"
  by (simp add: take_update_swap list_update_beyond)

lemma take_Suc_update: "i < length xs \<Longrightarrow> take (Suc i) (xs[i := v]) = take i xs @ [v]"
  by (simp add: take_Suc_conv_app_nth take_update_ge)

subsection \<open>Table scans\<close>

text \<open>
  The kernel's searches run over a table from a low index upwards and keep the best entry seen so
  far: the greatest value, or the first index that has it.
\<close>

lemma foldl_invariant:
  "P s \<Longrightarrow> (\<And>s x. x \<in> set xs \<Longrightarrow> P s \<Longrightarrow> P (f s x)) \<Longrightarrow> P (foldl f s xs)"
  by (induction xs arbitrary: s) auto

definition scan_max :: "('i \<Rightarrow> bool) \<Rightarrow> ('i \<Rightarrow> int) \<Rightarrow> int \<Rightarrow> 'i list \<Rightarrow> int" where
  "scan_max P f b xs = foldl (\<lambda>p i. if P i \<and> f i > p then f i else p) b xs"

lemma scan_max_Nil [simp]: "scan_max P f b [] = b"
  and scan_max_Cons [simp]: "scan_max P f b (x # xs) = scan_max P f (if P x \<and> f x > b then f x else b) xs"
  by (simp_all add: scan_max_def)

lemma scan_max_spec:
  "(\<forall>i\<in>set xs. P i \<longrightarrow> f i \<le> scan_max P f b xs)
   \<and> (scan_max P f b xs = b \<or> (\<exists>i\<in>set xs. P i \<and> f i = scan_max P f b xs)) \<and> b \<le> scan_max P f b xs"
proof (induction xs arbitrary: b)
  case Nil
  then show ?case by (simp add: scan_max_def)
next
  case (Cons x xs)
  let ?b = "if P x \<and> f x > b then f x else b"
  have "scan_max P f b (x # xs) = scan_max P f ?b xs" by (simp add: scan_max_def)
  then show ?case using Cons [of ?b] by (auto split: if_splits)
qed

lemma scan_max_unique:
  assumes "\<And>i. i \<in> set xs \<Longrightarrow> P i \<Longrightarrow> f i \<le> m" and "b \<le> m" and "m = b \<or> (\<exists>i\<in>set xs. P i \<and> f i = m)"
  shows "scan_max P f b xs = m"
proof (rule antisym)
  show "scan_max P f b xs \<le> m" using scan_max_spec [of xs P f b] assms(1,2) by metis
  show "m \<le> scan_max P f b xs" using scan_max_spec [of xs P f b] assms(3) by metis
qed

lemma scan_max_start: "a \<le> b \<Longrightarrow> scan_max P f b xs = max (scan_max P f a xs) b"
proof (rule scan_max_unique)
  assume ab: "a \<le> b"
  note q = scan_max_spec [of xs P f a]
  show "f i \<le> max (scan_max P f a xs) b" if "i \<in> set xs" "P i" for i
    using q that by (metis max.coboundedI1)
  show "b \<le> max (scan_max P f a xs) b" by simp
  show "max (scan_max P f a xs) b = b \<or> (\<exists>i\<in>set xs. P i \<and> f i = max (scan_max P f a xs) b)"
    using q ab by (metis max_absorb2 max_def)
qed

lemma scan_max_cong:
  "(\<And>i. i \<in> set xs \<Longrightarrow> P i = Q i) \<Longrightarrow> (\<And>i. i \<in> set xs \<Longrightarrow> Q i \<Longrightarrow> f i = g i)
    \<Longrightarrow> scan_max P f b xs = scan_max Q g b xs"
  unfolding scan_max_def by (induction xs arbitrary: b) auto

definition scan_first :: "('i \<Rightarrow> bool) \<Rightarrow> ('i \<Rightarrow> int) \<Rightarrow> int \<Rightarrow> 'i list \<Rightarrow> 'i option \<times> int" where
  "scan_first P f b xs =
     foldl (\<lambda>(best, p) i. if P i \<and> f i > p then (Some i, f i) else (best, p)) (None, b) xs"

lemma scan_first_from:
  "foldl (\<lambda>(best, p) i. if P i \<and> f i > p then (Some i, f i) else (best, p)) (r, b) xs
   = (if scan_max P f b xs = b then r
      else find (\<lambda>i. P i \<and> f i = scan_max P f b xs) xs, scan_max P f b xs)"
proof (induction xs arbitrary: r b)
  case Nil
  then show ?case by (simp add: scan_max_def)
next
  case (Cons x xs)
  let ?b = "if P x \<and> f x > b then f x else b"
  have m: "scan_max P f b (x # xs) = scan_max P f ?b xs" by (simp add: scan_max_def)
  have b: "?b \<le> scan_max P f ?b xs" using scan_max_spec [of xs P f ?b] by blast
  show ?case using b by (auto simp: Cons m)
qed

lemma scan_first_spec:
  "scan_first P f b xs = (if scan_max P f b xs = b then None
     else find (\<lambda>i. P i \<and> f i = scan_max P f b xs) xs, scan_max P f b xs)"
  by (simp add: scan_first_def scan_first_from)

subsection \<open>Byte sequences\<close>

text \<open>A sequence with \<open>bs\<close> written over it from \<open>loc\<close> on; it grows when \<open>bs\<close> goes beyond its end.\<close>

definition overwritten :: "nat \<Rightarrow> 'a list \<Rightarrow> 'a list \<Rightarrow> 'a list" where
  "overwritten loc bs xs = take loc xs @ bs @ drop (loc + length bs) xs"

subsection \<open>C strings\<close>

text \<open>
  A character array and the C library's functions on it. A string argument is its characters without
  the terminator (none of them is \<open>NUL\<close>); \<open>strncmp_eq\<close> is \<open>strncmp(a, s, n) == 0\<close> for an array and a string.
\<close>

abbreviation NUL :: char where "NUL \<equiv> CHR 0x00"

definition c_str :: "char list \<Rightarrow> string" where
  "c_str a = takeWhile (\<lambda>c. c \<noteq> NUL) a"

definition strnlen :: "string \<Rightarrow> nat \<Rightarrow> nat" where
  "strnlen s n = min (length s) n"

definition strncmp_eq :: "nat \<Rightarrow> char list \<Rightarrow> string \<Rightarrow> bool" where
  "strncmp_eq n a s \<longleftrightarrow> c_str (take n a) = take n s"

definition memset :: "nat \<Rightarrow> 'a \<Rightarrow> 'a list \<Rightarrow> 'a list" where
  "memset n c a = replicate n c @ drop n a"

definition strncpy :: "nat \<Rightarrow> char list \<Rightarrow> string \<Rightarrow> char list" where
  "strncpy n a s = take n (s @ replicate n NUL) @ drop n a"

definition strcpy :: "char list \<Rightarrow> string \<Rightarrow> char list" where
  "strcpy a s = s @ NUL # drop (Suc (length s)) a"

lemma c_str_append_NUL: "NUL \<notin> set s \<Longrightarrow> c_str (s @ NUL # r) = s"
  by (simp add: c_str_def) (induction s, auto)

lemma c_str_id: "NUL \<notin> set s \<Longrightarrow> c_str s = s"
  by (auto simp: c_str_def)

lemma length_strncpy [simp]: "n \<le> length a \<Longrightarrow> length (strncpy n a s) = length a"
  by (simp add: strncpy_def)

text \<open>A string shorter than the array is found again after it has been copied.\<close>

lemma strncmp_strncpy:
  assumes "NUL \<notin> set s" "length s < n" "n \<le> m" "length t \<le> m"
  shows "strncmp_eq m (strncpy n a s) t \<longleftrightarrow> s = t"
proof -
  obtain d where n: "n = Suc (length s + d)" using assms(2) less_iff_Suc_add by auto
  then have "strncpy n a s = s @ NUL # replicate d NUL @ drop n a"
    by (simp add: strncpy_def)
  moreover obtain e where "m = Suc (length s + e)" using assms(2,3) less_iff_Suc_add [of "length s" m] by auto
  ultimately show ?thesis using assms by (simp add: strncmp_eq_def c_str_append_NUL)
qed

lemma strncmp_strcpy:
  assumes "NUL \<notin> set s" "length s < n" "length t \<le> n"
  shows "strncmp_eq n (strcpy a s) t \<longleftrightarrow> s = t"
proof -
  obtain d where "n = Suc (length s + d)" using assms(2) less_iff_Suc_add by auto
  then show ?thesis using assms by (simp add: strncmp_eq_def strcpy_def c_str_append_NUL)
qed

end
