(* ===== verification/Ring.thy ===== *)
theory Ring
  imports Prelude
begin

section \<open>Byte rings: the interface and the index arithmetic shared by the FIFO drivers\<close>

text \<open>
  The drivers \<open>fifo.c\<close>, \<open>usbfifo.c\<close>, \<open>uartfifo.c\<close> and \<open>devfifo.c\<close> of
  \<open>src/CoActionOS/src/hwdl/sys\<close> all keep their bytes in a ring: a buffer of \<open>size\<close>
  bytes, a \<open>head\<close> where the next byte is stored and a \<open>tail\<close> where the next one is read.
  This theory holds the record of these three fields, the loop that empties a ring into a
  caller's buffer (\<open>read_buffer\<close>, the same text in all four files), the list a ring stands for,
  and two interfaces: a queue that can be drained byte by byte, and a queue that drops its
  oldest byte when a new one does not fit.
\<close>

record ring =
  rg_head :: nat
  rg_tail :: nat
  rg_buf :: "byte list"

text \<open>
  A transfer descriptor (\<open>device_transfer_t\<close>): the caller's buffer, the byte count the caller asks
  for and the driver returns, and the \<open>O_NONBLOCK\<close> bit of its flags.
\<close>

record transfer =
  t_buf :: "byte list"
  t_nbyte :: int
  t_nonblock :: bool

subsection \<open>Draining loop\<close>

text \<open>
  \<open>for(i = 0; i < len; i++)\<close>: stop when the ring is empty, otherwise store the byte at index
  \<open>i\<close> of the destination. The result is the index reached (the return value), the ring and
  the destination.
\<close>

function drain_loop :: "('s \<Rightarrow> ('b \<times> 's) option) \<Rightarrow> int \<Rightarrow> nat \<Rightarrow> 's \<Rightarrow> 'b list \<Rightarrow> nat \<times> 's \<times> 'b list" where
  "drain_loop get len i s out =
     (if int i < len then
        (case get s of
           None \<Rightarrow> (i, s, out)
         | Some (b, s') \<Rightarrow> drain_loop get len (Suc i) s' (out[i := b]))
      else (i, s, out))"
  by pat_completeness auto
termination
  by (relation "measure (\<lambda>(get, len, i, s, out). nat (len - int i))") auto

declare drain_loop.simps [simp del]

lemma drain_loop_invariant:
  "drain_loop get len i s out = (n, s', out') \<Longrightarrow> P s
    \<Longrightarrow> (\<And>t b t'. P t \<Longrightarrow> get t = Some (b, t') \<Longrightarrow> P t') \<Longrightarrow> P s'"
proof (induction get len i s out rule: drain_loop.induct)
  case (1 get len i s out)
  show ?case
  proof (cases "int i < len")
    case True
    then show ?thesis
      using "1.prems" "1.IH" [OF True]
      by (cases "get s") (auto simp: drain_loop.simps [of get len i])
  next
    case False
    then show ?thesis using "1.prems" by (simp add: drain_loop.simps [of get len i])
  qed
qed

locale drainable_queue =
  fixes inv :: "'s \<Rightarrow> bool"
    and cont :: "'s \<Rightarrow> 'b list"
    and get :: "'s \<Rightarrow> ('b \<times> 's) option"
  assumes get_empty: "inv s \<Longrightarrow> cont s = [] \<Longrightarrow> get s = None"
    and get_some: "inv s \<Longrightarrow> cont s = x # xs \<Longrightarrow> \<exists>s'. get s = Some (x, s') \<and> inv s' \<and> cont s' = xs"
begin

lemma drain_loop_from:
  assumes "inv s" and "k = min (nat len - i) (length (cont s))" and "i + k \<le> length out"
  shows "\<exists>s' out'. drain_loop get len i s out = (i + k, s', out') \<and> inv s'
    \<and> cont s' = drop k (cont s) \<and> length out' = length out
    \<and> take i out' = take i out \<and> take k (drop i out') = take k (cont s)"
  using assms
proof (induction k arbitrary: i s out)
  case 0
  then consider "nat len \<le> i" | "cont s = []"
    by (cases "nat len \<le> i") (auto simp: min_def split: if_splits)
  then show ?case
  proof cases
    case 1
    then have "\<not> int i < len" by linarith
    then show ?thesis using 0 by (simp add: drain_loop.simps [of get len i])
  next
    case 2
    then show ?thesis using 0 get_empty by (simp add: drain_loop.simps [of get len i])
  qed
next
  case (Suc k)
  from Suc.prems(2) have i: "int i < len" by (metis diff_is_0_eq' le_zero_eq min.bounded_iff nat.distinct(1) nat_less_iff not_less of_nat_0_le_iff order_refl zless_nat_eq_int_zless)
  obtain x xs where c: "cont s = x # xs"
    using Suc.prems(2) by (cases "cont s") auto
  obtain s1 where s1: "get s = Some (x, s1)" "inv s1" "cont s1 = xs"
    using get_some Suc.prems(1) c by blast
  have k: "k = min (nat len - Suc i) (length (cont s1))" using Suc.prems(2) c s1(3) by simp
  have b: "Suc i + k \<le> length (out[i := x])" using Suc.prems(3) by simp
  from Suc.IH [OF s1(2) k b] obtain s' out' where IH:
    "drain_loop get len (Suc i) s1 (out[i := x]) = (Suc i + k, s', out')" "inv s'"
    "cont s' = drop k xs" "length out' = length out"
    "take (Suc i) out' = take (Suc i) (out[i := x])" "take k (drop (Suc i) out') = take k xs"
    using s1(3) by auto
  have il: "i < length out" using Suc.prems(3) by simp
  have t: "take (Suc i) out' = take i out @ [x]" using IH(5) il by (simp add: take_Suc_update)
  have ti: "take i out' = take i out" and oi: "out' ! i = x"
    using t il IH(4) by (simp_all add: take_Suc_conv_app_nth)
  have "take (Suc k) (drop i out') = x # take k xs"
    using oi IH(6) il IH(4) by (simp add: Cons_nth_drop_Suc [symmetric])
  then show ?case
    using IH s1(1) i c ti by (auto simp: drain_loop.simps [of get len i])
qed

text \<open>
  What the callers of \<open>read_buffer\<close> rely on: it returns the number of bytes moved, those are the
  oldest ones, in order, at the front of the destination, and they have left the queue.
\<close>

lemma drain_loop_correct:
  assumes "inv s" and "nat len \<le> length out"
  obtains s' out' where
    "drain_loop get len 0 s out = (min (nat len) (length (cont s)), s', out')"
    "inv s'" "cont s' = drop (nat len) (cont s)"
    "take (min (nat len) (length (cont s))) out' = take (nat len) (cont s)"
    "length out' = length out"
proof -
  let ?k = "min (nat len) (length (cont s))"
  have "?k = min (nat len - 0) (length (cont s))" "0 + ?k \<le> length out" using assms(2) by auto
  from drain_loop_from [OF assms(1) this] obtain s' out' where
    "drain_loop get len 0 s out = (?k, s', out')" "inv s'" "cont s' = drop ?k (cont s)"
    "length out' = length out" "take ?k out' = take ?k (cont s)" by auto
  moreover have "drop ?k (cont s) = drop (nat len) (cont s)" "take ?k (cont s) = take (nat len) (cont s)"
    by (simp_all add: min_def)
  ultimately show thesis by (intro that [of s' out']) auto
qed

end

subsection \<open>Queues that overwrite\<close>

locale overwriting_queue =
  fixes inv :: "'s \<Rightarrow> bool"
    and cont :: "'s \<Rightarrow> 'b list"
    and cap :: nat
    and put :: "'b \<Rightarrow> 's \<Rightarrow> 's"
  assumes cont_bound: "inv s \<Longrightarrow> length (cont s) \<le> cap"
    and put_inv: "inv s \<Longrightarrow> inv (put x s)"
    and put_cont: "inv s \<Longrightarrow> cont (put x s) = drop (Suc (length (cont s)) - cap) (cont s @ [x])"
begin

lemma fold_put_inv: "inv s \<Longrightarrow> inv (fold put xs s)"
  by (induction xs arbitrary: s) (auto intro: put_inv)

text \<open>Whatever is stored, the queue holds the newest \<open>cap\<close> bytes of what it held and received.\<close>

lemma fold_put_cont:
  "inv s \<Longrightarrow> cont (fold put xs s) = drop (length (cont s) + length xs - cap) (cont s @ xs)"
proof (induction xs arbitrary: s)
  case Nil
  then show ?case using cont_bound by simp
next
  case (Cons x xs)
  have b: "length (cont s) \<le> cap" using Cons.prems by (rule cont_bound)
  have "cont (fold put (x # xs) s)
      = drop (length (cont (put x s)) + length xs - cap) (cont (put x s) @ xs)"
    using Cons put_inv by simp
  also have "\<dots> = drop (length (cont s) + length (x # xs) - cap) (cont s @ x # xs)"
  proof (cases "length (cont s) = cap")
    case True
    then show ?thesis using put_cont [OF Cons.prems]
      by (cases "cap") (auto simp: drop_Suc tl_append split: list.split)
  next
    case False
    then show ?thesis using put_cont [OF Cons.prems] b by simp
  qed
  finally show ?case .
qed

end

subsection \<open>The list a ring holds\<close>

definition ring_wf :: "nat \<Rightarrow> 'z ring_scheme \<Rightarrow> bool" where
  "ring_wf n s \<longleftrightarrow> rg_head s < n \<and> rg_tail s < n \<and> length (rg_buf s) = n"

definition ring_used :: "nat \<Rightarrow> 'z ring_scheme \<Rightarrow> nat" where
  "ring_used n s = (if rg_tail s \<le> rg_head s then rg_head s - rg_tail s else n - rg_tail s + rg_head s)"

definition ring_list :: "nat \<Rightarrow> 'z ring_scheme \<Rightarrow> byte list" where
  "ring_list n s = map (\<lambda>i. rg_buf s ! ((rg_tail s + i) mod n)) [0..<ring_used n s]"

lemma length_ring_list [simp]: "length (ring_list n s) = ring_used n s"
  by (simp add: ring_list_def)

lemma ring_list_Nil_iff: "ring_list n s = [] \<longleftrightarrow> ring_used n s = 0"
  by (simp add: ring_list_def)

lemma ring_used_bound: "ring_wf n s \<Longrightarrow> ring_used n s \<le> n - 1"
  by (auto simp: ring_wf_def ring_used_def)

lemma ring_used_0_iff: "ring_wf n s \<Longrightarrow> ring_used n s = 0 \<longleftrightarrow> rg_head s = rg_tail s"
  by (auto simp: ring_wf_def ring_used_def)

lemma ring_index: "t < (n::nat) \<Longrightarrow> i < n \<Longrightarrow> (t + i) mod n = (if t + i < n then t + i else t + i - n)"
  by (simp add: mod_if)

lemma ring_next: "t < (n::nat) \<Longrightarrow> (if t + 1 = n then 0 else t + 1) = (t + 1) mod n"
  by auto

text \<open>Advancing the tail of a non-empty ring removes the oldest byte.\<close>

lemma ring_list_advance:
  assumes "ring_wf n s" and "rg_head s \<noteq> rg_tail s"
  shows "ring_list n s = rg_buf s ! rg_tail s # ring_list n (s\<lparr>rg_tail := (rg_tail s + 1) mod n\<rparr>)"
    and "ring_wf n (s\<lparr>rg_tail := (rg_tail s + 1) mod n\<rparr>)"
proof -
  let ?s = "s\<lparr>rg_tail := (rg_tail s + 1) mod n\<rparr>"
  have u: "ring_used n s = Suc (ring_used n ?s)"
    using assms unfolding ring_wf_def ring_used_def
    by (cases "rg_tail s + 1 = n") auto
  have "(rg_tail s + Suc i) mod n = ((rg_tail s + 1) mod n + i) mod n" for i
    by (simp add: mod_add_left_eq)
  then show "ring_list n s = rg_buf s ! rg_tail s # ring_list n ?s"
    using assms(1) u by (simp add: ring_list_def ring_wf_def map_upt_Suc del: upt_Suc)
  show "ring_wf n ?s" using assms(1) by (auto simp: ring_wf_def)
qed

text \<open>Storing at the head of a ring that is not full appends a byte.\<close>

lemma ring_list_store:
  fixes b :: byte
  assumes wf: "ring_wf n s" and room: "ring_used n s < n - 1"
  defines "s' \<equiv> s\<lparr>rg_buf := (rg_buf s)[rg_head s := b], rg_head := (rg_head s + 1) mod n\<rparr>"
  shows "ring_list n s' = ring_list n s @ [b]" and "ring_wf n s'"
proof -
  have h: "rg_head s < n" and t: "rg_tail s < n" and l: "length (rg_buf s) = n"
    using wf by (auto simp: ring_wf_def)
  have u: "ring_used n s' = Suc (ring_used n s)"
    using h t room by (auto simp: s'_def ring_used_def mod_if)
  have hd: "(rg_tail s + ring_used n s) mod n = rg_head s"
    using h t by (auto simp: ring_used_def)
  have ne: "rg_head s \<noteq> (rg_tail s + i) mod n" if "i < ring_used n s" for i
    using that h t room by (auto simp: ring_index ring_used_def split: if_splits)
  show "ring_list n s' = ring_list n s @ [b]"
    using u hd ne h l by (auto simp: ring_list_def) (auto simp: s'_def)
  show "ring_wf n s'" using wf by (auto simp: ring_wf_def s'_def)
qed

lemma ring_list_cong:
  "rg_head s = rg_head s' \<Longrightarrow> rg_tail s = rg_tail s' \<Longrightarrow> rg_buf s = rg_buf s' \<Longrightarrow> ring_list n s = ring_list n s'"
  by (simp add: ring_list_def ring_used_def)

end
