(* ===== verification/Fifo.thy ===== *)
theory Fifo
  imports Ring
begin

section \<open>The FIFO device (hwdl/sys/fifo.c)\<close>

text \<open>
  A RAM buffer that looks like a character device. A write stores bytes, a read takes them out;
  with \<open>write_block\<close> set a full buffer refuses bytes, otherwise the oldest ones are overwritten.
  A blocking transfer that can move nothing is remembered (\<open>rop\<close>, \<open>wop\<close>) and finished by the
  next transfer in the other direction, through its callback.

  The state is \<open>fifo_state_t\<close>; the bytes of \<open>cfgp->buffer\<close> are part of it, \<open>cfgp->size\<close> is
  the argument \<open>sz\<close>. \<open>head\<close> and \<open>tail\<close> are never negative. The callback of a transfer is a
  function pointer set by the file layer: it is the argument \<open>cb\<close>, which yields its return
  value, and \<open>f_calls\<close> records the transfers it was called with.
\<close>

record fifo_state = ring +
  f_rop :: "transfer option"
  f_rop_len :: int
  f_wop :: "transfer option"
  f_wop_len :: int
  f_write_block :: bool
  f_calls :: "transfer list"

text \<open>The ring does not depend on the other fields.\<close>

lemma ring_used_fifo_fields [simp]:
  "ring_used sz (s\<lparr>f_rop := x0\<rparr>) = ring_used sz s"
  "ring_used sz (s\<lparr>f_rop_len := x1\<rparr>) = ring_used sz s"
  "ring_used sz (s\<lparr>f_wop := x2\<rparr>) = ring_used sz s"
  "ring_used sz (s\<lparr>f_wop_len := x3\<rparr>) = ring_used sz s"
  "ring_used sz (s\<lparr>f_write_block := x4\<rparr>) = ring_used sz s"
  "ring_used sz (s\<lparr>f_calls := x5\<rparr>) = ring_used sz s"
  by (simp_all add: ring_used_def)

lemma ring_wf_fifo_fields [simp]:
  "ring_wf sz (s\<lparr>f_rop := x0\<rparr>) = ring_wf sz s"
  "ring_wf sz (s\<lparr>f_rop_len := x1\<rparr>) = ring_wf sz s"
  "ring_wf sz (s\<lparr>f_wop := x2\<rparr>) = ring_wf sz s"
  "ring_wf sz (s\<lparr>f_wop_len := x3\<rparr>) = ring_wf sz s"
  "ring_wf sz (s\<lparr>f_write_block := x4\<rparr>) = ring_wf sz s"
  "ring_wf sz (s\<lparr>f_calls := x5\<rparr>) = ring_wf sz s"
  by (simp_all add: ring_wf_def)

lemma ring_list_fifo_fields [simp]:
  "ring_list sz (s\<lparr>f_rop := x0\<rparr>) = ring_list sz s"
  "ring_list sz (s\<lparr>f_rop_len := x1\<rparr>) = ring_list sz s"
  "ring_list sz (s\<lparr>f_wop := x2\<rparr>) = ring_list sz s"
  "ring_list sz (s\<lparr>f_wop_len := x3\<rparr>) = ring_list sz s"
  "ring_list sz (s\<lparr>f_write_block := x4\<rparr>) = ring_list sz s"
  "ring_list sz (s\<lparr>f_calls := x5\<rparr>) = ring_list sz s"
  by (simp_all add: ring_list_def ring_used_def)

subsection \<open>Definitions\<close>

text \<open>The body of the loop of \<open>read_buffer\<close>: \<open>None\<close> is the \<open>break\<close> of an empty ring.\<close>

definition ring_get :: "nat \<Rightarrow> 'z ring_scheme \<Rightarrow> (byte \<times> 'z ring_scheme) option" where
  "ring_get sz s =
     (if rg_head s = rg_tail s then None
      else Some (rg_buf s ! rg_tail s,
                 s\<lparr>rg_tail := (if rg_tail s + 1 = sz then 0 else rg_tail s + 1)\<rparr>))"

definition read_buffer :: "nat \<Rightarrow> fifo_state \<Rightarrow> transfer \<Rightarrow> nat \<times> fifo_state \<times> byte list" where
  "read_buffer sz s rop = drain_loop (ring_get sz) (f_rop_len s) 0 s (t_buf rop)"

text \<open>
  The body of the loop of \<open>write_buffer\<close>: make room (\<open>None\<close> is the \<open>break\<close> of a full ring that
  blocks), wrap the tail, store, advance the head.
\<close>

definition write_room :: "nat \<Rightarrow> fifo_state \<Rightarrow> nat option" where
  "write_room sz s =
     (if rg_tail s = 0 then
        (if rg_head s + 1 = sz then
           (if f_write_block s then None else Some (rg_tail s + 1))
         else Some (rg_tail s))
      else if rg_head s + 1 = rg_tail s then
        (if f_write_block s then None else Some (rg_tail s + 1))
      else Some (rg_tail s))"

definition fifo_put :: "nat \<Rightarrow> byte \<Rightarrow> fifo_state \<Rightarrow> fifo_state option" where
  "fifo_put sz b s =
     (case write_room sz s of
        None \<Rightarrow> None
      | Some t \<Rightarrow> Some (s\<lparr>rg_tail := (if t = sz then 0 else t),
                          rg_buf := (rg_buf s)[rg_head s := b],
                          rg_head := (if rg_head s + 1 = sz then 0 else rg_head s + 1)\<rparr>))"

function write_loop :: "nat \<Rightarrow> int \<Rightarrow> nat \<Rightarrow> fifo_state \<Rightarrow> byte list \<Rightarrow> nat \<times> fifo_state" where
  "write_loop sz len i s src =
     (if int i < len then
        (case fifo_put sz (src ! i) s of
           None \<Rightarrow> (i, s)
         | Some s' \<Rightarrow> write_loop sz len (Suc i) s' src)
      else (i, s))"
  by pat_completeness auto
termination
  by (relation "measure (\<lambda>(sz, len, i, s, src). nat (len - int i))") auto

declare write_loop.simps [simp del]

definition write_buffer :: "nat \<Rightarrow> fifo_state \<Rightarrow> transfer \<Rightarrow> nat \<times> fifo_state" where
  "write_buffer sz s wop = write_loop sz (f_wop_len s) 0 s (t_buf wop)"

definition data_received :: "(transfer \<Rightarrow> int) \<Rightarrow> nat \<Rightarrow> fifo_state \<Rightarrow> fifo_state" where
  "data_received cb sz s =
     (case f_rop s of
        None \<Rightarrow> s
      | Some rop \<Rightarrow>
          (case read_buffer sz s rop of (n, s1, out) \<Rightarrow>
             if n > 0 then
               (let rop1 = rop\<lparr>t_buf := out, t_nbyte := int n\<rparr>;
                    s2 = s1\<lparr>f_calls := f_calls s1 @ [rop1]\<rparr>
                in if cb rop1 = 0 then s2\<lparr>f_rop := None\<rparr> else s2\<lparr>f_rop := Some rop1\<rparr>)
             else s1))"

definition data_transmitted :: "(transfer \<Rightarrow> int) \<Rightarrow> nat \<Rightarrow> fifo_state \<Rightarrow> fifo_state" where
  "data_transmitted cb sz s =
     (case f_wop s of
        None \<Rightarrow> s
      | Some wop \<Rightarrow>
          (case write_buffer sz s wop of (n, s1) \<Rightarrow>
             if n > 0 then
               (let wop1 = wop\<lparr>t_nbyte := int n\<rparr>;
                    s2 = s1\<lparr>f_calls := f_calls s1 @ [wop1]\<rparr>
                in if cb wop1 = 0 then s2\<lparr>f_wop := None\<rparr> else s2\<lparr>f_wop := Some wop1\<rparr>)
             else s1))"

datatype fifo_req = I_FIFO_GETATTR | I_FIFO_FLUSH | I_FIFO_INIT | I_FIFO_EXIT
  | I_FIFO_SETWRITEBLOCK bool

text \<open>
  \<open>I_FIFO_INIT\<close> falls through to \<open>I_FIFO_FLUSH\<close>, as in the source. The attributes are the pair of
  \<open>attr->size\<close> and \<open>attr->used\<close>. Anything else is \<open>EINVAL\<close> (\<open>I_FIFO_EXIT\<close> has no case).
\<close>

definition fifo_flush :: "(transfer \<Rightarrow> int) \<Rightarrow> nat \<Rightarrow> fifo_state \<Rightarrow> fifo_state" where
  "fifo_flush cb sz s = data_transmitted cb sz (s\<lparr>rg_head := 0, rg_tail := 0\<rparr>)"

fun fifo_ioctl :: "(transfer \<Rightarrow> int) \<Rightarrow> nat \<Rightarrow> fifo_req \<Rightarrow> fifo_state
    \<Rightarrow> (errno + (nat \<times> nat) option) \<times> fifo_state" where
  "fifo_ioctl cb sz I_FIFO_GETATTR s =
     (Inr (Some (sz - 1,
        if rg_tail s \<le> rg_head s then rg_head s - rg_tail s else sz - rg_tail s + rg_head s)), s)"
| "fifo_ioctl cb sz I_FIFO_INIT s =
     (Inr None, fifo_flush cb sz (s\<lparr>f_rop := None, f_wop := None\<rparr>))"
| "fifo_ioctl cb sz I_FIFO_FLUSH s = (Inr None, fifo_flush cb sz s)"
| "fifo_ioctl cb sz (I_FIFO_SETWRITEBLOCK b) s =
     (Inr None, if b then s\<lparr>f_write_block := b\<rparr>
                else data_transmitted cb sz (s\<lparr>f_write_block := b\<rparr>))"
| "fifo_ioctl cb sz I_FIFO_EXIT s = (Inl EINVAL, s)"

text \<open>A read or write yields its return value (or \<open>errno\<close>), the caller's transfer and the state.\<close>

definition fifo_read :: "(transfer \<Rightarrow> int) \<Rightarrow> nat \<Rightarrow> transfer \<Rightarrow> fifo_state
    \<Rightarrow> (errno + int) \<times> transfer \<times> fifo_state" where
  "fifo_read cb sz rop s =
     (if f_rop s \<noteq> None then (Inr 0, rop\<lparr>t_nbyte := 0\<rparr>, s)
      else case read_buffer sz (s\<lparr>f_rop_len := t_nbyte rop\<rparr>) rop of (n, s1, out) \<Rightarrow>
        if n = 0 then
          (if t_nonblock rop then (Inl EAGAIN, rop, s1)
           else (let rop1 = rop\<lparr>t_nbyte := 0\<rparr>
                 in (Inr 0, rop1, s1\<lparr>f_rop := Some rop1, f_rop_len := t_nbyte rop\<rparr>)))
        else (Inr (int n), rop\<lparr>t_buf := out\<rparr>, data_transmitted cb sz s1))"

definition fifo_write :: "(transfer \<Rightarrow> int) \<Rightarrow> nat \<Rightarrow> transfer \<Rightarrow> fifo_state
    \<Rightarrow> (errno + int) \<times> transfer \<times> fifo_state" where
  "fifo_write cb sz wop s =
     (if f_wop s \<noteq> None then (Inr 0, wop\<lparr>t_nbyte := 0\<rparr>, s)
      else case write_buffer sz (s\<lparr>f_wop_len := t_nbyte wop\<rparr>) wop of (n, s1) \<Rightarrow>
        if n = 0 then
          (if t_nonblock wop then (Inl EAGAIN, wop, s1)
           else (let wop1 = wop\<lparr>t_nbyte := 0\<rparr>
                 in (Inr 0, wop1, s1\<lparr>f_wop := Some wop1, f_wop_len := t_nbyte wop\<rparr>)))
        else (Inr (int n), wop, data_received cb sz s1))"

subsection \<open>The ring as a queue\<close>

lemma ring_get_queue: "drainable_queue (ring_wf sz) (ring_list sz) (ring_get sz)"
proof
  fix s :: "'a ring_scheme" assume "ring_wf sz s" "ring_list sz s = []"
  then show "ring_get sz s = None"
    by (simp add: ring_get_def ring_list_Nil_iff ring_used_0_iff)
next
  fix s :: "'a ring_scheme" and x xs assume wf: "ring_wf sz s" and c: "ring_list sz s = x # xs"
  then have ne: "rg_head s \<noteq> rg_tail s"
    using ring_used_0_iff [OF wf] by (auto simp: ring_list_def)
  have nx: "(if rg_tail s + 1 = sz then 0 else rg_tail s + 1) = (rg_tail s + 1) mod sz"
    using wf by (intro ring_next) (simp add: ring_wf_def)
  show "\<exists>s'. ring_get sz s = Some (x, s') \<and> ring_wf sz s' \<and> ring_list sz s' = xs"
    using ring_list_advance [OF wf ne] c ne unfolding ring_get_def nx by simp
qed

interpretation ringq: drainable_queue "ring_wf sz" "ring_list sz" "ring_get sz" for sz
  by (rule ring_get_queue)

text \<open>Storing one byte: refused exactly when full and blocking, overwriting otherwise.\<close>

lemma ring_full_iff:
  "ring_wf sz s \<Longrightarrow> ring_used sz s = sz - Suc 0 \<longleftrightarrow>
     rg_tail s = 0 \<and> Suc (rg_head s) = sz \<or> Suc (rg_head s) = rg_tail s"
  by (auto simp: ring_wf_def ring_used_def)

lemma fifo_put_None_iff:
  "ring_wf sz s \<Longrightarrow> fifo_put sz b s = None \<longleftrightarrow> f_write_block s \<and> ring_used sz s = sz - 1"
  using ring_full_iff [of sz s] by (auto simp: fifo_put_def write_room_def ring_wf_def)

lemma fifo_put_room:
  assumes "ring_wf sz s" and "ring_used sz s < sz - 1"
  shows "\<exists>s'. fifo_put sz b s = Some s' \<and> ring_wf sz s' \<and> ring_list sz s' = ring_list sz s @ [b]"
proof -
  have t: "write_room sz s = Some (rg_tail s)" and tn: "rg_tail s \<noteq> sz"
    using assms ring_full_iff [OF assms(1)] by (auto simp: write_room_def ring_wf_def)
  have nx: "(if rg_head s + 1 = sz then 0 else rg_head s + 1) = (rg_head s + 1) mod sz"
    using assms by (intro ring_next) (simp add: ring_wf_def)
  show ?thesis
    using ring_list_store [OF assms, of b] t tn by (simp add: fifo_put_def nx del: One_nat_def)
qed

lemma fifo_put_overwrite:
  assumes wf: "ring_wf sz s" and full: "ring_used sz s = sz - 1" and nb: "\<not> f_write_block s"
  shows "\<exists>s'. fifo_put sz b s = Some s' \<and> ring_wf sz s' \<and> ring_list sz s' = drop 1 (ring_list sz s @ [b])"
proof (cases "sz = 1")
  case True
  then show ?thesis using wf nb
    by (auto simp: ring_wf_def fifo_put_def write_room_def ring_list_def ring_used_def)
next
  case False
  have sz: "1 < sz" using wf False by (auto simp: ring_wf_def)
  then have ne: "rg_head s \<noteq> rg_tail s" using full ring_used_0_iff [OF wf] by auto
  let ?s1 = "s\<lparr>rg_tail := (rg_tail s + 1) mod sz\<rparr>"
  have adv: "ring_list sz s = rg_buf s ! rg_tail s # ring_list sz ?s1" "ring_wf sz ?s1"
    using ring_list_advance [OF wf ne] by auto
  then have room: "ring_used sz ?s1 < sz - 1"
    using full sz by (metis One_nat_def length_Cons length_ring_list lessI)
  have h: "(if rg_head s + 1 = sz then 0 else rg_head s + 1) = (rg_head s + 1) mod sz"
    using wf by (intro ring_next) (simp add: ring_wf_def)
  have t: "(if rg_tail s + 1 = sz then 0 else rg_tail s + 1) = (rg_tail s + 1) mod sz"
    using wf by (intro ring_next) (simp add: ring_wf_def)
  have "write_room sz s = Some (rg_tail s + 1)"
    using full ring_full_iff [OF wf] nb by (auto simp: write_room_def)
  then show ?thesis
    using ring_list_store [OF adv(2) room, of b] adv(1) h t by (simp add: fifo_put_def del: One_nat_def) simp
qed

text \<open>Moving bytes changes nothing but the ring.\<close>

definition same_frame :: "fifo_state \<Rightarrow> fifo_state \<Rightarrow> bool" where
  "same_frame s' s \<longleftrightarrow> f_write_block s' = f_write_block s \<and> f_rop s' = f_rop s
     \<and> f_rop_len s' = f_rop_len s \<and> f_wop s' = f_wop s \<and> f_wop_len s' = f_wop_len s
     \<and> f_calls s' = f_calls s"

lemma same_frame_refl [simp]: "same_frame s s"
  by (simp add: same_frame_def)

lemma same_frame_trans: "same_frame s2 s1 \<Longrightarrow> same_frame s1 s0 \<Longrightarrow> same_frame s2 s0"
  by (simp add: same_frame_def)

lemma fifo_put_frame: "fifo_put sz b s = Some s' \<Longrightarrow> same_frame s' s"
  by (auto simp: fifo_put_def same_frame_def split: option.splits)

lemma ring_get_frame: "ring_get sz (s :: fifo_state) = Some (b, s') \<Longrightarrow> same_frame s' s"
  by (auto simp: ring_get_def same_frame_def split: if_splits)

definition fifo_put_ow :: "nat \<Rightarrow> byte \<Rightarrow> fifo_state \<Rightarrow> fifo_state" where
  "fifo_put_ow sz b s = the (fifo_put sz b s)"

definition ow_wf :: "nat \<Rightarrow> fifo_state \<Rightarrow> bool" where
  "ow_wf sz s \<longleftrightarrow> ring_wf sz s \<and> \<not> f_write_block s"

lemma fifo_put_ow:
  assumes "ow_wf sz s"
  shows "fifo_put sz b s = Some (fifo_put_ow sz b s) \<and> ow_wf sz (fifo_put_ow sz b s)
    \<and> ring_list sz (fifo_put_ow sz b s) = drop (Suc (ring_used sz s) - (sz - 1)) (ring_list sz s @ [b])"
proof (cases "ring_used sz s = sz - 1")
  case True
  then obtain s' where "fifo_put sz b s = Some s'" "ring_wf sz s'"
      "ring_list sz s' = drop 1 (ring_list sz s @ [b])"
    using fifo_put_overwrite assms unfolding ow_wf_def by blast
  then show ?thesis using assms fifo_put_frame [of sz b s s'] True
    by (simp add: fifo_put_ow_def ow_wf_def same_frame_def)
next
  case False
  then have "ring_used sz s < sz - 1"
    using assms ring_used_bound [of sz s] by (simp add: ow_wf_def)
  then obtain s' where "fifo_put sz b s = Some s'" "ring_wf sz s'"
      "ring_list sz s' = ring_list sz s @ [b]"
    using fifo_put_room assms unfolding ow_wf_def by blast
  moreover have "Suc (ring_used sz s) - (sz - 1) = 0" using \<open>ring_used sz s < sz - 1\<close> by simp
  ultimately show ?thesis using assms fifo_put_frame [of sz b s s']
    by (simp add: fifo_put_ow_def ow_wf_def same_frame_def)
qed

interpretation fifo_ow: overwriting_queue "ow_wf sz" "ring_list sz" "sz - 1" "fifo_put_ow sz" for sz
  by unfold_locales (use ring_used_bound fifo_put_ow in \<open>auto simp: ow_wf_def simp del: One_nat_def\<close>)

subsection \<open>The two write loops\<close>

lemma write_loop_blocking:
  assumes "ring_wf sz s" and "f_write_block s" and "k = min (nat len - i) (sz - 1 - ring_used sz s)"
    and "i + k \<le> length src"
  shows "\<exists>s'. write_loop sz len i s src = (i + k, s') \<and> ring_wf sz s'
    \<and> ring_list sz s' = ring_list sz s @ take k (drop i src) \<and> same_frame s' s"
  using assms
proof (induction k arbitrary: i s)
  case 0
  then consider "\<not> int i < len" | "ring_used sz s = sz - 1"
    using ring_used_bound [OF "0.prems"(1)] by (auto simp: min_def split: if_splits)
  then show ?case
  proof cases
    case 1
    then show ?thesis using 0 by (simp add: write_loop.simps [of sz len i])
  next
    case 2
    then have "fifo_put sz (src ! i) s = None"
      using 0 fifo_put_None_iff by simp
    then show ?thesis using 0 by (simp add: write_loop.simps [of sz len i])
  qed
next
  case (Suc k)
  from Suc.prems(3) have i: "int i < len" and room: "ring_used sz s < sz - 1" by auto
  obtain s1 where s1: "fifo_put sz (src ! i) s = Some s1" "ring_wf sz s1"
      "ring_list sz s1 = ring_list sz s @ [src ! i]"
    using fifo_put_room [OF Suc.prems(1) room] by blast
  note fr = fifo_put_frame [OF s1(1)]
  have "ring_used sz s1 = Suc (ring_used sz s)" using s1(3) by (metis length_append_singleton length_ring_list)
  then have k: "k = min (nat len - Suc i) (sz - 1 - ring_used sz s1)" using Suc.prems(3) by simp
  have b: "Suc i + k \<le> length src" using Suc.prems(4) by simp
  have "f_write_block s1" using Suc.prems(2) fr by (simp add: same_frame_def)
  from Suc.IH [OF s1(2) this k b] obtain s' where
    IH: "write_loop sz len (Suc i) s1 src = (Suc i + k, s')" "ring_wf sz s'"
      "ring_list sz s' = ring_list sz s1 @ take k (drop (Suc i) src)"
      "same_frame s' s1"
    by blast
  have "take (Suc k) (drop i src) = src ! i # take k (drop (Suc i) src)"
    using Suc.prems(4) by (simp add: Cons_nth_drop_Suc [symmetric])
  then show ?case
    using IH s1 i same_frame_trans [OF IH(4) fr] by (simp add: write_loop.simps [of sz len i])
qed

lemma write_loop_overwriting:
  assumes "ow_wf sz s" and "nat len \<le> length src" and "i \<le> nat len"
  shows "write_loop sz len i s src
      = (nat len, fold (fifo_put_ow sz) (take (nat len - i) (drop i src)) s)
    \<and> same_frame (fold (fifo_put_ow sz) (take (nat len - i) (drop i src)) s) s"
  using assms
proof (induction "nat len - i" arbitrary: i s)
  case 0
  then have "\<not> int i < len" by linarith
  then show ?case using 0 by (simp add: write_loop.simps [of sz len i])
next
  case (Suc k)
  from Suc.hyps(2) have i: "int i < len" by linarith
  let ?s1 = "fifo_put_ow sz (src ! i) s"
  have s1: "fifo_put sz (src ! i) s = Some ?s1" "ow_wf sz ?s1"
    using fifo_put_ow [OF Suc.prems(1)] by auto
  have k: "k = nat len - Suc i" and il: "Suc i \<le> nat len" using Suc.hyps(2) by simp_all
  note IH = Suc.hyps(1) [OF k s1(2) Suc.prems(2) il]
  have "take (nat len - i) (drop i src) = src ! i # take (nat len - Suc i) (drop (Suc i) src)"
    using Suc.hyps(2) Suc.prems(2) k by (subst Cons_nth_drop_Suc [symmetric]) (simp_all add: take_Cons')
  then show ?case using IH s1(1) i same_frame_trans [OF _ fifo_put_frame [OF s1(1)]]
    by (simp add: write_loop.simps [of sz len i])
qed

text \<open>What a call of \<open>write_buffer\<close> does, in either mode.\<close>

definition accepted :: "nat \<Rightarrow> fifo_state \<Rightarrow> nat \<Rightarrow> nat" where
  "accepted sz s n = (if f_write_block s then min n (sz - 1 - ring_used sz s) else n)"

definition stored :: "nat \<Rightarrow> fifo_state \<Rightarrow> byte list \<Rightarrow> byte list" where
  "stored sz s bs = (if f_write_block s then ring_list sz s @ take (sz - 1 - ring_used sz s) bs
     else drop (ring_used sz s + length bs - (sz - 1)) (ring_list sz s @ bs))"

lemma write_buffer_spec:
  assumes wf: "ring_wf sz s" and len: "nat (f_wop_len s) \<le> length (t_buf w)"
  obtains s' where "write_buffer sz s w = (accepted sz s (nat (f_wop_len s)), s')" "ring_wf sz s'"
    "ring_list sz s' = stored sz s (take (nat (f_wop_len s)) (t_buf w))" "same_frame s' s"
proof (cases "f_write_block s")
  case True
  let ?k = "min (nat (f_wop_len s) - 0) (sz - 1 - ring_used sz s)"
  have "0 + ?k \<le> length (t_buf w)" using len by simp
  from write_loop_blocking [OF wf True refl this] obtain s' where
    "write_loop sz (f_wop_len s) 0 s (t_buf w) = (?k, s')" "ring_wf sz s'"
    "ring_list sz s' = ring_list sz s @ take ?k (t_buf w)" "same_frame s' s"
    by (auto simp del: One_nat_def)
  then show thesis using True
    by (intro that [of s']) (auto simp: write_buffer_def accepted_def stored_def min.commute)
next
  case False
  then have ow: "ow_wf sz s" using wf by (simp add: ow_wf_def)
  let ?bs = "take (nat (f_wop_len s)) (t_buf w)"
  let ?s = "fold (fifo_put_ow sz) ?bs s"
  have "write_loop sz (f_wop_len s) 0 s (t_buf w) = (nat (f_wop_len s), ?s)" "same_frame ?s s"
    using write_loop_overwriting [OF ow len, of 0] by auto
  moreover have "ring_list sz ?s = stored sz s ?bs" "ring_wf sz ?s"
    using fifo_ow.fold_put_cont [OF ow, of ?bs] fifo_ow.fold_put_inv [OF ow, of ?bs] False
    by (auto simp: stored_def ow_wf_def)
  ultimately show thesis using False
    by (intro that [of ?s]) (auto simp: write_buffer_def accepted_def)
qed

text \<open>What a call of \<open>read_buffer\<close> does.\<close>

lemma drain_loop_frame:
  "drain_loop (ring_get sz) len i (s :: fifo_state) out = (n, s', out') \<Longrightarrow> same_frame s' s"
  by (erule drain_loop_invariant [where P = "\<lambda>t. same_frame t s"])
    (auto intro: same_frame_trans ring_get_frame)

lemma read_buffer_spec:
  assumes wf: "ring_wf sz s" and len: "nat (f_rop_len s) \<le> length (t_buf r)"
  obtains s' out where
    "read_buffer sz s r = (min (nat (f_rop_len s)) (ring_used sz s), s', out)" "ring_wf sz s'"
    "ring_list sz s' = drop (nat (f_rop_len s)) (ring_list sz s)"
    "take (min (nat (f_rop_len s)) (ring_used sz s)) out = take (nat (f_rop_len s)) (ring_list sz s)"
    "length out = length (t_buf r)" "same_frame s' s"
proof -
  obtain s' out where d:
    "drain_loop (ring_get sz) (f_rop_len s) 0 s (t_buf r) = (min (nat (f_rop_len s)) (ring_used sz s), s', out)"
    "ring_wf sz s'" "ring_list sz s' = drop (nat (f_rop_len s)) (ring_list sz s)"
    "take (min (nat (f_rop_len s)) (ring_used sz s)) out = take (nat (f_rop_len s)) (ring_list sz s)"
    "length out = length (t_buf r)"
    using ringq.drain_loop_correct [OF wf len] by (metis length_ring_list)
  then show thesis using drain_loop_frame [OF d(1)] by (intro that [of s' out]) (auto simp: read_buffer_def)
qed

subsection \<open>Pending transfers are served: the reachable states\<close>

text \<open>
  The invariant of a FIFO whose callbacks complete their transfer (\<open>cb\<close> yields 0): the ring is
  well formed, a waiting reader (that asked for something) waits on an empty ring, a waiting writer
  on a full ring in blocking mode, and the buffers of both are as long as they promised.
\<close>

definition rop_ok :: "nat \<Rightarrow> fifo_state \<Rightarrow> bool" where
  "rop_ok sz s = (case f_rop s of None \<Rightarrow> True
     | Some r \<Rightarrow> nat (f_rop_len s) \<le> length (t_buf r) \<and> (f_rop_len s > 0 \<longrightarrow> ring_used sz s = 0))"

definition wop_ok :: "nat \<Rightarrow> fifo_state \<Rightarrow> bool" where
  "wop_ok sz s = (case f_wop s of None \<Rightarrow> True
     | Some w \<Rightarrow> nat (f_wop_len s) \<le> length (t_buf w)
         \<and> (f_wop_len s > 0 \<longrightarrow> f_write_block s \<and> ring_used sz s = sz - 1))"

definition fifo_inv :: "nat \<Rightarrow> fifo_state \<Rightarrow> bool" where
  "fifo_inv sz s \<longleftrightarrow> ring_wf sz s \<and> rop_ok sz s \<and> wop_ok sz s"

lemma rop_ok_cong:
  "f_rop s' = f_rop s \<Longrightarrow> f_rop_len s' = f_rop_len s \<Longrightarrow> ring_used sz s' = ring_used sz s
    \<Longrightarrow> rop_ok sz s \<Longrightarrow> rop_ok sz s'"
  by (auto simp: rop_ok_def split: option.splits)

lemma wop_ok_cong:
  "f_wop s' = f_wop s \<Longrightarrow> f_wop_len s' = f_wop_len s \<Longrightarrow> f_write_block s' = f_write_block s
    \<Longrightarrow> ring_used sz s' = ring_used sz s \<Longrightarrow> wop_ok sz s \<Longrightarrow> wop_ok sz s'"
  by (auto simp: wop_ok_def split: option.splits)

abbreviation finishes :: "transfer \<Rightarrow> int" where
  "finishes \<equiv> \<lambda>_. 0"

lemma accepted_pos:
  "ring_wf sz s \<Longrightarrow> n > 0 \<Longrightarrow> (f_write_block s \<longrightarrow> ring_used sz s \<noteq> sz - 1) \<Longrightarrow> accepted sz s n > 0"
  using ring_used_bound [of sz s] by (auto simp: accepted_def)

lemma stored_used:
  assumes "ring_wf sz s" and "ring_wf sz s'" and "ring_list sz s' = stored sz s bs"
  shows "ring_used sz s' = min (sz - 1) (ring_used sz s + length bs)"
  using ring_used_bound [OF assms(1)]
  by (subst length_ring_list [symmetric], subst assms(3)) (auto simp: stored_def)

text \<open>A pending write is retried whenever there is, or may be, room for it.\<close>

lemma data_transmitted_inv:
  assumes wf: "ring_wf sz s" and r: "rop_ok sz s"
    and len: "\<And>w. f_wop s = Some w \<Longrightarrow> nat (f_wop_len s) \<le> length (t_buf w)"
    and room: "f_wop s \<noteq> None \<Longrightarrow> f_wop_len s > 0
      \<Longrightarrow> (f_write_block s \<longrightarrow> ring_used sz s \<noteq> sz - 1) \<and> (f_rop s = None \<or> f_rop_len s \<le> 0)"
  shows "fifo_inv sz (data_transmitted finishes sz s)"
proof (cases "f_wop s")
  case None
  then show ?thesis using wf r by (simp add: data_transmitted_def fifo_inv_def wop_ok_def)
next
  case (Some w)
  obtain s' where s': "write_buffer sz s w = (accepted sz s (nat (f_wop_len s)), s')" "ring_wf sz s'"
    "ring_list sz s' = stored sz s (take (nat (f_wop_len s)) (t_buf w))" "same_frame s' s"
    using write_buffer_spec [OF wf len [OF Some]] by blast
  show ?thesis
  proof (cases "f_wop_len s > 0")
    case True
    have "accepted sz s (nat (f_wop_len s)) > 0"
      using accepted_pos [OF wf] True room Some by auto
    moreover have "rop_ok sz s'" "f_rop s' = f_rop s" "f_rop_len s' = f_rop_len s"
      using s'(4) r True room Some by (auto simp: rop_ok_def same_frame_def split: option.splits)
    ultimately show ?thesis using s' Some
      by (auto simp: data_transmitted_def fifo_inv_def rop_ok_def wop_ok_def Let_def
        ring_wf_def ring_used_def split: option.splits)
  next
    case False
    then have "accepted sz s (nat (f_wop_len s)) = 0" by (simp add: accepted_def)
    moreover have "ring_used sz s' = ring_used sz s"
      using stored_used [OF wf s'(2,3)] False ring_used_bound [OF wf] by auto
    ultimately show ?thesis using s' Some r len False
      by (auto simp: data_transmitted_def fifo_inv_def rop_ok_def wop_ok_def same_frame_def
        split: option.splits)
  qed
qed

text \<open>A pending read is served as soon as there is a byte.\<close>

lemma data_received_inv:
  assumes wf: "ring_wf sz s" and w: "f_wop s = None"
    and len: "\<And>r. f_rop s = Some r \<Longrightarrow> nat (f_rop_len s) \<le> length (t_buf r)"
    and some: "f_rop s \<noteq> None \<Longrightarrow> f_rop_len s > 0 \<Longrightarrow> ring_used sz s > 0"
  shows "fifo_inv sz (data_received finishes sz s)"
proof (cases "f_rop s")
  case None
  then show ?thesis using wf w by (simp add: data_received_def fifo_inv_def wop_ok_def rop_ok_def)
next
  case (Some r)
  obtain s' out where s': "read_buffer sz s r = (min (nat (f_rop_len s)) (ring_used sz s), s', out)"
    "ring_wf sz s'" "same_frame s' s"
    using read_buffer_spec [OF wf len [OF Some]] by metis
  show ?thesis using s' Some w len some
    by (auto simp: data_received_def fifo_inv_def rop_ok_def wop_ok_def Let_def
      ring_wf_def same_frame_def ring_used_def split: option.splits)
qed

text \<open>The steps a client can take, and the states they reach from a quiet, well-formed FIFO.\<close>

datatype fifo_op = Read transfer | Write transfer | Ioctl fifo_req

fun fifo_op_ok :: "fifo_op \<Rightarrow> bool" where
  "fifo_op_ok (Read r) = (nat (t_nbyte r) \<le> length (t_buf r))"
| "fifo_op_ok (Write w) = (nat (t_nbyte w) \<le> length (t_buf w))"
| "fifo_op_ok (Ioctl _) = True"

fun fifo_step :: "nat \<Rightarrow> fifo_op \<Rightarrow> fifo_state \<Rightarrow> fifo_state" where
  "fifo_step sz (Read r) s = snd (snd (fifo_read finishes sz r s))"
| "fifo_step sz (Write w) s = snd (snd (fifo_write finishes sz w s))"
| "fifo_step sz (Ioctl q) s = snd (fifo_ioctl finishes sz q s)"

inductive fifo_reach :: "nat \<Rightarrow> fifo_state \<Rightarrow> bool" for sz :: nat where
  fr_init: "ring_wf sz s \<Longrightarrow> f_rop s = None \<Longrightarrow> f_wop s = None \<Longrightarrow> fifo_reach sz s"
| fr_step: "fifo_reach sz s \<Longrightarrow> fifo_op_ok p \<Longrightarrow> fifo_reach sz (fifo_step sz p s)"

lemma fifo_read_inv:
  assumes inv: "fifo_inv sz s" and len: "nat (t_nbyte r) \<le> length (t_buf r)" and sz: "2 \<le> sz"
  shows "fifo_inv sz (snd (snd (fifo_read finishes sz r s)))"
proof (cases "f_rop s")
  case (Some r')
  then show ?thesis using inv by (simp add: fifo_read_def)
next
  case None
  let ?s0 = "s\<lparr>f_rop_len := t_nbyte r\<rparr>"
  have wf0: "ring_wf sz ?s0" using inv by (simp add: fifo_inv_def ring_wf_def)
  have u0: "ring_used sz ?s0 = ring_used sz s" by (simp add: ring_used_def)
  obtain s1 out where s1: "read_buffer sz ?s0 r = (min (nat (t_nbyte r)) (ring_used sz s), s1, out)"
    "ring_wf sz s1" "ring_list sz s1 = drop (nat (t_nbyte r)) (ring_list sz ?s0)" "same_frame s1 ?s0"
    by (rule read_buffer_spec [OF wf0, of r]) (use len u0 that in auto)
  have u1: "ring_used sz s1 = ring_used sz s - nat (t_nbyte r)"
    using arg_cong [OF s1(3), of length] u0 by simp
  let ?n = "min (nat (t_nbyte r)) (ring_used sz s)"
  have f1: "f_rop s1 = None" "f_wop s1 = f_wop s" "f_wop_len s1 = f_wop_len s"
    "f_write_block s1 = f_write_block s" "f_rop_len s1 = t_nbyte r"
    using s1(4) None by (auto simp: same_frame_def)
  have wop: "wop_ok sz s" using inv by (simp add: fifo_inv_def)
  show ?thesis
  proof (cases "?n = 0")
    case True
    then have u: "ring_used sz s1 = ring_used sz s" using u1 by auto
    have wop1: "wop_ok sz s1" using wop f1 u by (auto intro: wop_ok_cong)
    then have "fifo_inv sz s1" using s1(2) f1 by (simp add: fifo_inv_def rop_ok_def)
    moreover have "fifo_inv sz (s1\<lparr>f_rop := Some (r\<lparr>t_nbyte := 0\<rparr>), f_rop_len := t_nbyte r\<rparr>)"
    proof -
      have "t_nbyte r > 0 \<Longrightarrow> ring_used sz s1 = 0" using True u by auto
      moreover have "wop_ok sz (s1\<lparr>f_rop := Some (r\<lparr>t_nbyte := 0\<rparr>), f_rop_len := t_nbyte r\<rparr>)"
        using wop1 by (rule wop_ok_cong [rotated -1]) (simp_all add: ring_used_def)
      ultimately show ?thesis using s1(2) len unfolding fifo_inv_def rop_ok_def
        by simp
    qed
    ultimately show ?thesis using s1(1) None True by (simp add: fifo_read_def Let_def)
  next
    case False
    have "fifo_inv sz (data_transmitted finishes sz s1)"
    proof (rule data_transmitted_inv)
      show "(f_write_block s1 \<longrightarrow> ring_used sz s1 \<noteq> sz - 1) \<and> (f_rop s1 = None \<or> f_rop_len s1 \<le> 0)"
        using u1 False ring_used_bound [OF wf0] u0 f1 sz by auto
    qed (use s1(2) wop f1 in \<open>auto simp: rop_ok_def wop_ok_def\<close>)
    then show ?thesis using s1(1) None False by (auto simp: fifo_read_def min_def)
  qed
qed

lemma fifo_write_inv:
  assumes inv: "fifo_inv sz s" and len: "nat (t_nbyte w) \<le> length (t_buf w)" and sz: "2 \<le> sz"
  shows "fifo_inv sz (snd (snd (fifo_write finishes sz w s)))"
proof (cases "f_wop s")
  case (Some w')
  then show ?thesis using inv by (simp add: fifo_write_def)
next
  case None
  let ?s0 = "s\<lparr>f_wop_len := t_nbyte w\<rparr>"
  let ?bs = "take (nat (t_nbyte w)) (t_buf w)"
  have wf0: "ring_wf sz ?s0" using inv by (simp add: fifo_inv_def ring_wf_def)
  have u0: "ring_used sz ?s0 = ring_used sz s" by (simp add: ring_used_def)
  let ?n = "accepted sz ?s0 (nat (t_nbyte w))"
  obtain s1 where s1: "write_buffer sz ?s0 w = (?n, s1)" "ring_wf sz s1"
    "ring_list sz s1 = stored sz ?s0 ?bs" "same_frame s1 ?s0"
    using write_buffer_spec [OF wf0, of w] len by auto
  have u1: "ring_used sz s1 = min (sz - 1) (ring_used sz s + nat (t_nbyte w))"
    using stored_used [OF wf0 s1(2,3)] len u0 by simp
  have f1: "f_wop s1 = None" "f_rop s1 = f_rop s" "f_rop_len s1 = f_rop_len s"
    "f_write_block s1 = f_write_block s" "f_wop_len s1 = t_nbyte w"
    using s1(4) None by (auto simp: same_frame_def)
  have rop: "rop_ok sz s" using inv by (simp add: fifo_inv_def)
  show ?thesis
  proof (cases "?n = 0")
    case True
    then have full: "t_nbyte w > 0 \<longrightarrow> f_write_block s \<and> ring_used sz s = sz - 1"
      using u0 ring_used_bound [OF wf0] by (auto simp: accepted_def split: if_splits)
    have u: "ring_used sz s1 = ring_used sz s" using full u1 ring_used_bound [OF wf0] u0 by (cases "t_nbyte w > 0") auto
    have rop1: "rop_ok sz s1" using rop f1 u by (auto intro: rop_ok_cong)
    then have "fifo_inv sz s1" using s1(2) f1 by (simp add: fifo_inv_def wop_ok_def)
    moreover have "rop_ok sz (s1\<lparr>f_wop := Some (w\<lparr>t_nbyte := 0\<rparr>), f_wop_len := t_nbyte w\<rparr>)"
      using rop1 by (rule rop_ok_cong [rotated -1]) (simp_all add: ring_used_def)
    then have "fifo_inv sz (s1\<lparr>f_wop := Some (w\<lparr>t_nbyte := 0\<rparr>), f_wop_len := t_nbyte w\<rparr>)"
      using full s1(2) f1 u len unfolding fifo_inv_def wop_ok_def
      by simp
    ultimately show ?thesis using s1(1) None True by (simp add: fifo_write_def Let_def)
  next
    case False
    have "fifo_inv sz (data_received finishes sz s1)"
    proof (rule data_received_inv)
      show "0 < ring_used sz s1" using u1 False sz by (auto simp: accepted_def split: if_splits)
    qed (use s1(2) f1 inv in \<open>auto simp: fifo_inv_def rop_ok_def\<close>)
    then show ?thesis using s1(1) None False by (simp add: fifo_write_def)
  qed
qed

lemma fifo_flush_inv:
  assumes inv: "fifo_inv sz s" and sz: "2 \<le> sz"
  shows "fifo_inv sz (fifo_flush finishes sz s)"
  unfolding fifo_flush_def
  using assms by (intro data_transmitted_inv)
    (auto simp: fifo_inv_def ring_wf_def rop_ok_def wop_ok_def ring_used_def split: option.splits if_splits)

lemma fifo_ioctl_inv:
  assumes inv: "fifo_inv sz s" and sz: "2 \<le> sz"
  shows "fifo_inv sz (snd (fifo_ioctl finishes sz q s))"
proof (cases q)
  case I_FIFO_INIT
  have "fifo_inv sz (s\<lparr>f_rop := None, f_wop := None\<rparr>)"
    using inv by (simp add: fifo_inv_def ring_wf_def rop_ok_def wop_ok_def)
  then show ?thesis using fifo_flush_inv sz I_FIFO_INIT by simp
next
  case (I_FIFO_SETWRITEBLOCK b)
  have "fifo_inv sz (s\<lparr>f_write_block := True\<rparr>)"
    using inv by (auto simp: fifo_inv_def ring_wf_def rop_ok_def wop_ok_def ring_used_def split: option.splits)
  moreover have "fifo_inv sz (data_transmitted finishes sz (s\<lparr>f_write_block := False\<rparr>))"
    using assms by (intro data_transmitted_inv)
      (auto simp: fifo_inv_def ring_wf_def rop_ok_def wop_ok_def ring_used_def split: option.splits if_splits)
  ultimately show ?thesis using I_FIFO_SETWRITEBLOCK by (cases b) auto
qed (use assms fifo_flush_inv in auto)

lemma fifo_reach_inv: "fifo_reach sz s \<Longrightarrow> 2 \<le> sz \<Longrightarrow> fifo_inv sz s"
proof (induction rule: fifo_reach.induct)
  case (fr_init s)
  then show ?case by (simp add: fifo_inv_def rop_ok_def wop_ok_def)
next
  case (fr_step s p)
  then show ?case by (cases p) (auto intro: fifo_read_inv fifo_write_inv fifo_ioctl_inv)
qed

subsection \<open>Properties\<close>

text \<open>
  C11: a write to a FIFO in blocking mode, with no writer and no reader waiting, stores as many of
  the caller's bytes as there is room for behind the bytes already there and returns that number;
  when there is no room it changes no byte and is refused with \<open>EAGAIN\<close> (non-blocking) or
  remembered as the waiting writer.
\<close>

theorem fifo_write_blocking_mode:
  assumes "ring_wf sz s" and "f_write_block s" and "f_wop s = None" and "f_rop s = None"
    and "nat (t_nbyte w) \<le> length (t_buf w)"
    and "m = min (nat (t_nbyte w)) (sz - 1 - length (ring_list sz s))"
  shows "\<exists>s'. ring_wf sz s' \<and> ring_list sz s' = ring_list sz s @ take m (t_buf w)
    \<and> fifo_write cb sz w s =
        (if m > 0 then (Inr (int m), w, s')
         else if t_nonblock w then (Inl EAGAIN, w, s')
         else (Inr 0, w\<lparr>t_nbyte := 0\<rparr>, s'))
    \<and> f_wop s' = (if m = 0 \<and> \<not> t_nonblock w then Some (w\<lparr>t_nbyte := 0\<rparr>) else None)"
proof -
  let ?s0 = "s\<lparr>f_wop_len := t_nbyte w\<rparr>"
  obtain s1 where s1: "write_buffer sz ?s0 w = (m, s1)" "ring_wf sz s1"
    "ring_list sz s1 = ring_list sz s @ take m (t_buf w)" "same_frame s1 ?s0"
    by (rule write_buffer_spec [of sz ?s0 w])
      (use assms that in \<open>auto simp: accepted_def stored_def min.commute\<close>)
  then have f: "f_wop s1 = None" "f_rop s1 = None" using assms by (auto simp: same_frame_def)
  show ?thesis
  proof (cases "m = 0 \<and> \<not> t_nonblock w")
    case True
    then show ?thesis using s1 assms(3)
      by (intro exI [of _ "s1\<lparr>f_wop := Some (w\<lparr>t_nbyte := 0\<rparr>), f_wop_len := t_nbyte w\<rparr>"])
        (simp add: fifo_write_def Let_def)
  next
    case False
    then show ?thesis using s1 assms(3) f
      by (intro exI [of _ s1]) (auto simp: fifo_write_def data_received_def)
  qed
qed

definition demo_fifo :: fifo_state where
  "demo_fifo = \<lparr>rg_head = 1, rg_tail = 2, rg_buf = [7, 8, 9, 10], f_rop = None, f_rop_len = 0,
     f_wop = None, f_wop_len = 0, f_write_block = True, f_calls = []\<rparr>"

definition demo_transfer :: transfer where
  "demo_transfer = \<lparr>t_buf = [1, 2, 3], t_nbyte = 3, t_nonblock = True\<rparr>"

theorem fifo_write_blocking_mode_witness:
  "\<exists>s'. ring_wf 4 s' \<and> ring_list 4 s' = ring_list 4 (demo_fifo\<lparr>rg_tail := 0\<rparr>) @ take 2 (t_buf demo_transfer)
    \<and> fifo_write finishes 4 demo_transfer (demo_fifo\<lparr>rg_tail := 0\<rparr>) =
        (if (2::nat) > 0 then (Inr (int 2), demo_transfer, s')
         else if t_nonblock demo_transfer then (Inl EAGAIN, demo_transfer, s')
         else (Inr 0, demo_transfer\<lparr>t_nbyte := 0\<rparr>, s'))
    \<and> f_wop s' = (if 2 = (0::nat) \<and> \<not> t_nonblock demo_transfer then Some (demo_transfer\<lparr>t_nbyte := 0\<rparr>) else None)"
  by (rule fifo_write_blocking_mode) code_simp+

text \<open>
  a write to a FIFO that does not block always takes all the caller's bytes; afterwards the FIFO
  holds the newest \<open>size - 1\<close> bytes of what it held followed by what was written.
\<close>

theorem fifo_write_overwriting_mode:
  assumes "ring_wf sz s" and "\<not> f_write_block s" and "f_wop s = None" and "f_rop s = None"
    and "0 < t_nbyte w" and "nat (t_nbyte w) \<le> length (t_buf w)"
    and "all = ring_list sz s @ take (nat (t_nbyte w)) (t_buf w)"
  shows "\<exists>s'. fifo_write cb sz w s = (Inr (t_nbyte w), w, s') \<and> ring_wf sz s'
    \<and> ring_list sz s' = drop (length all - (sz - 1)) all"
proof -
  let ?s0 = "s\<lparr>f_wop_len := t_nbyte w\<rparr>"
  obtain s1 where s1: "write_buffer sz ?s0 w = (nat (t_nbyte w), s1)" "ring_wf sz s1"
    "ring_list sz s1 = drop (length all - (sz - 1)) all" "same_frame s1 ?s0"
    by (rule write_buffer_spec [of sz ?s0 w])
      (use assms that in \<open>auto simp: accepted_def stored_def min_absorb2\<close>)
  then have "f_rop s1 = None" using assms by (auto simp: same_frame_def)
  then show ?thesis using s1 assms
    by (intro exI [of _ s1]) (simp add: fifo_write_def data_received_def)
qed

theorem fifo_write_overwriting_mode_witness:
  "\<exists>s'. fifo_write finishes 4 demo_transfer (demo_fifo\<lparr>f_write_block := False\<rparr>) = (Inr 3, demo_transfer, s')
      \<and> ring_list 4 s' = [1, 2, 3]"
proof -
  have "drop (length [9 :: byte, 10, 7, 1, 2, 3] - (4 - 1)) [9, 10, 7, 1, 2, 3] = [1, 2, 3 :: byte]" by simp
  moreover have "t_nbyte demo_transfer = 3" by code_simp
  moreover have "\<exists>s'. fifo_write finishes 4 demo_transfer (demo_fifo\<lparr>f_write_block := False\<rparr>)
      = (Inr (t_nbyte demo_transfer), demo_transfer, s') \<and> ring_wf 4 s'
    \<and> ring_list 4 s' = drop (length [9 :: byte, 10, 7, 1, 2, 3] - (4 - 1)) [9, 10, 7, 1, 2, 3]"
    by (rule fifo_write_overwriting_mode) code_simp+
  ultimately show ?thesis by metis
qed

text \<open>
  C12: a read with no reader and no writer waiting returns the oldest bytes, in order, at the front of
  the caller's buffer, as many as were asked for and present, and leaves the others; on an empty
  FIFO it fails with \<open>EAGAIN\<close> (non-blocking) or becomes the waiting reader.
\<close>

theorem fifo_read_oldest_first:
  assumes "ring_wf sz s" and "f_rop s = None" and "f_wop s = None"
    and "nat (t_nbyte r) \<le> length (t_buf r)"
    and "n = min (nat (t_nbyte r)) (length (ring_list sz s))"
  shows "\<exists>s' out. ring_wf sz s' \<and> ring_list sz s' = drop n (ring_list sz s)
    \<and> take n out = take n (ring_list sz s)
    \<and> fifo_read cb sz r s =
        (if n > 0 then (Inr (int n), r\<lparr>t_buf := out\<rparr>, s')
         else if t_nonblock r then (Inl EAGAIN, r, s')
         else (Inr 0, r\<lparr>t_nbyte := 0\<rparr>, s'))
    \<and> f_rop s' = (if n = 0 \<and> \<not> t_nonblock r then Some (r\<lparr>t_nbyte := 0\<rparr>) else None)"
proof -
  let ?s0 = "s\<lparr>f_rop_len := t_nbyte r\<rparr>"
  obtain s1 out where s1: "read_buffer sz ?s0 r = (n, s1, out)" "ring_wf sz s1"
    "ring_list sz s1 = drop n (ring_list sz s)" "take n out = take n (ring_list sz s)" "same_frame s1 ?s0"
    by (rule read_buffer_spec [of sz ?s0 r]) (use assms that in \<open>auto simp: min_def split: if_splits\<close>)
  then have f: "f_wop s1 = None" "f_rop s1 = None" using assms by (auto simp: same_frame_def)
  show ?thesis
  proof (cases "n = 0 \<and> \<not> t_nonblock r")
    case True
    then show ?thesis using s1 assms(2)
      by (intro exI [of _ "s1\<lparr>f_rop := Some (r\<lparr>t_nbyte := 0\<rparr>), f_rop_len := t_nbyte r\<rparr>"] exI [of _ out])
        (simp add: fifo_read_def Let_def)
  next
    case False
    then show ?thesis using s1 assms(2) f
      by (intro exI [of _ s1] exI [of _ out]) (auto simp: fifo_read_def data_transmitted_def)
  qed
qed

theorem fifo_read_oldest_first_witness:
  "\<exists>s' out. ring_wf 4 s' \<and> ring_list 4 s' = drop 2 (ring_list 4 demo_fifo)
    \<and> take 2 out = take 2 (ring_list 4 demo_fifo)
    \<and> fifo_read finishes 4 (demo_transfer\<lparr>t_nbyte := 2\<rparr>) demo_fifo =
        (if (2::nat) > 0 then (Inr (int 2), demo_transfer\<lparr>t_nbyte := 2, t_buf := out\<rparr>, s')
         else if t_nonblock (demo_transfer\<lparr>t_nbyte := 2\<rparr>) then (Inl EAGAIN, demo_transfer\<lparr>t_nbyte := 2\<rparr>, s')
         else (Inr 0, demo_transfer\<lparr>t_nbyte := 2, t_nbyte := 0\<rparr>, s'))
    \<and> f_rop s' = (if 2 = (0::nat) \<and> \<not> t_nonblock (demo_transfer\<lparr>t_nbyte := 2\<rparr>)
        then Some (demo_transfer\<lparr>t_nbyte := 2, t_nbyte := 0\<rparr>) else None)"
  by (rule fifo_read_oldest_first) code_simp+

text \<open>
  C13: no lost wake-up. In every state that reads, writes and control requests can reach, a reader
  that waits for bytes waits on an empty FIFO, and a writer that waits waits on a full one in
  blocking mode; in particular there are never both.
\<close>

theorem fifo_no_lost_wakeup:
  assumes "fifo_reach sz s" and "2 \<le> sz"
  shows "ring_wf sz s
    \<and> (f_rop s \<noteq> None \<and> f_rop_len s > 0 \<longrightarrow> ring_list sz s = [])
    \<and> (f_wop s \<noteq> None \<and> f_wop_len s > 0 \<longrightarrow> f_write_block s \<and> length (ring_list sz s) = sz - 1)
    \<and> \<not> (f_rop s \<noteq> None \<and> f_rop_len s > 0 \<and> f_wop s \<noteq> None \<and> f_wop_len s > 0)"
  using fifo_reach_inv [OF assms] assms(2)
  by (auto simp: fifo_inv_def rop_ok_def wop_ok_def ring_list_Nil_iff)

definition demo_waiting :: fifo_state where
  "demo_waiting = fifo_step 4 (Write (demo_transfer\<lparr>t_nonblock := False\<rparr>)) demo_fifo"

theorem fifo_no_lost_wakeup_witness:
  "f_wop demo_waiting \<noteq> None \<and> f_wop_len demo_waiting = 3 \<and> length (ring_list 4 demo_waiting) = 3"
proof -
  have "ring_wf 4 demo_fifo" "f_rop demo_fifo = None" "f_wop demo_fifo = None"
    "fifo_op_ok (Write (demo_transfer\<lparr>t_nonblock := False\<rparr>))" by code_simp+
  then have "fifo_reach 4 demo_waiting" unfolding demo_waiting_def by (intro fr_step fr_init)
  moreover have "f_wop demo_waiting \<noteq> None" "f_wop_len demo_waiting = 3" by code_simp+
  ultimately show ?thesis using fifo_no_lost_wakeup [of 4 demo_waiting] by simp
qed

text \<open>
  what is written to an empty FIFO comes back: in either mode, a write of at most \<open>size - 1\<close>
  bytes followed by a read of as many bytes yields the bytes written and leaves the FIFO empty.
\<close>

theorem fifo_write_read_roundtrip:
  assumes "ring_wf sz s" and "ring_list sz s = []" and "f_wop s = None" and "f_rop s = None"
    and "0 < t_nbyte w" and "t_nbyte w \<le> int (sz - 1)" and "nat (t_nbyte w) \<le> length (t_buf w)"
    and "t_nbyte r = t_nbyte w" and "nat (t_nbyte r) \<le> length (t_buf r)"
  shows "case fifo_write cb sz w s of (n, _, s1) \<Rightarrow> n = Inr (t_nbyte w) \<and>
    (case fifo_read cb sz r s1 of (n', r', s2) \<Rightarrow> n' = Inr (t_nbyte w)
       \<and> take (nat (t_nbyte w)) (t_buf r') = take (nat (t_nbyte w)) (t_buf w) \<and> ring_list sz s2 = [])"
proof -
  let ?s0 = "s\<lparr>f_wop_len := t_nbyte w\<rparr>" and ?k = "nat (t_nbyte w)"
  obtain s1 where s1: "write_buffer sz ?s0 w = (?k, s1)" "ring_wf sz s1"
    "ring_list sz s1 = take ?k (t_buf w)" "same_frame s1 ?s0"
    by (rule write_buffer_spec [of sz ?s0 w])
      (use assms that in \<open>auto simp: accepted_def stored_def min_absorb2 ring_list_Nil_iff split: if_splits\<close>)
  let ?s1 = "s1\<lparr>f_rop_len := t_nbyte r\<rparr>"
  have u: "ring_used sz s1 = ?k" using arg_cong [OF s1(3), of length] assms by simp
  obtain s2 out where s2: "read_buffer sz ?s1 r = (?k, s2, out)" "ring_wf sz s2"
    "ring_list sz s2 = []" "take ?k out = take ?k (t_buf w)" "same_frame s2 ?s1"
    by (rule read_buffer_spec [of sz ?s1 r]) (use assms s1 u that in \<open>auto simp del: length_ring_list\<close>)
  show ?thesis using s1 s2 assms
    by (simp add: fifo_write_def fifo_read_def data_received_def data_transmitted_def same_frame_def)
qed

theorem fifo_write_read_roundtrip_witness:
  "case fifo_write finishes 4 demo_transfer (demo_fifo\<lparr>rg_tail := 1\<rparr>) of (n, _, s1) \<Rightarrow> n = Inr 3 \<and>
    (case fifo_read finishes 4 demo_transfer s1 of (n', r', s2) \<Rightarrow> n' = Inr 3
       \<and> take 3 (t_buf r') = [1, 2, 3] \<and> ring_list 4 s2 = [])"
proof -
  let ?s = "demo_fifo\<lparr>rg_tail := 1\<rparr>" and ?w = demo_transfer
  have "ring_wf 4 ?s" "ring_list 4 ?s = []" "f_wop ?s = None" "f_rop ?s = None" "0 < t_nbyte ?w"
    "t_nbyte ?w \<le> int (4 - 1)" "nat (t_nbyte ?w) \<le> length (t_buf ?w)" "t_nbyte ?w = 3" "t_buf ?w = [1, 2, 3]"
    by code_simp+
  with fifo_write_read_roundtrip [of 4 ?s ?w ?w finishes] show ?thesis by simp
qed

end
