(* ===== verification/RxFifo.thy ===== *)
theory RxFifo
  imports Ring
begin

section \<open>Receive FIFOs behind a port: usbfifo.c, uartfifo.c and devfifo.c\<close>

text \<open>
  Three drivers of \<open>src/CoActionOS/src/hwdl/sys\<close> collect the bytes a port receives in a ring, from
  an interrupt callback \<open>data_received\<close>, and hand them to readers. The ring never refuses a byte: it
  drops the oldest one and sets \<open>overflow\<close>. The state (\<open>usbfifo_state_t\<close>, \<open>uartfifo_state_t\<close>,
  \<open>devfifo_state_t\<close>) has the same fields in all three; \<open>inc_head\<close> and \<open>read_buffer\<close> are the same
  text in all three (\<open>usbfifo.c\<close> takes the count from the transfer instead of the state) and are
  modelled once. \<open>sz\<close> is \<open>cfgp->size\<close>.

  The port drivers below are other components: the bytes \<open>hwpl_uart_getbyte\<close>,
  \<open>hwpl_usb_rd_ep\<close> or the device's get-byte request yield before they fail are the argument \<open>bs\<close> of
  \<open>data_received\<close>, and the return values of the other port calls are the fields of \<open>port_answers\<close>.
  The transfer's callback is \<open>cb\<close>: it is told the transfer and whether it was cancelled;
  \<open>x_calls\<close> records its calls.
\<close>

record rx_fifo = ring +
  x_overflow :: bool
  x_rop :: "transfer option"
  x_len :: int
  x_calls :: "(transfer \<times> bool) list"

record port_answers =
  p_open :: int
  p_close :: int
  p_setaction :: int
  p_setattr :: int
  p_flush :: int
  p_ioctl :: int

datatype rx_req = R_GETATTR | R_SETACTION bool | R_FLUSH | R_SETATTR | R_INIT | R_EXIT | R_OTHER

record rx_attr =
  a_size :: nat
  a_used :: nat
  a_overflow :: bool

subsection \<open>The ring operations\<close>

definition inc_head :: "nat \<Rightarrow> rx_fifo \<Rightarrow> rx_fifo" where
  "inc_head sz s =
     (let s1 = s\<lparr>rg_head := (if rg_head s + 1 = sz then 0 else rg_head s + 1)\<rparr>
      in if rg_head s1 = rg_tail s1 then
           s1\<lparr>rg_tail := (if rg_tail s1 + 1 = sz then 0 else rg_tail s1 + 1), x_overflow := True\<rparr>
         else s1)"

definition rx_store :: "nat \<Rightarrow> byte \<Rightarrow> rx_fifo \<Rightarrow> rx_fifo" where
  "rx_store sz b s = inc_head sz (s\<lparr>rg_buf := (rg_buf s)[rg_head s := b]\<rparr>)"

definition rx_get :: "nat \<Rightarrow> rx_fifo \<Rightarrow> (byte \<times> rx_fifo) option" where
  "rx_get sz s =
     (if rg_head s = rg_tail s then None
      else Some (rg_buf s ! rg_tail s,
                 s\<lparr>rg_tail := (if rg_tail s + 1 = sz then 0 else rg_tail s + 1)\<rparr>))"

definition rx_read_buffer :: "nat \<Rightarrow> int \<Rightarrow> rx_fifo \<Rightarrow> transfer \<Rightarrow> nat \<times> rx_fifo \<times> byte list" where
  "rx_read_buffer sz len s rop = drain_loop (rx_get sz) len 0 s (t_buf rop)"

subsection \<open>Serving the waiting reader\<close>

definition rx_serve :: "(transfer \<Rightarrow> bool \<Rightarrow> int) \<Rightarrow> nat \<Rightarrow> rx_fifo \<Rightarrow> rx_fifo" where
  "rx_serve cb sz s =
     (case x_rop s of
        None \<Rightarrow> s
      | Some rop \<Rightarrow>
          (case rx_read_buffer sz (x_len s) s rop of (n, s1, out) \<Rightarrow>
             if n > 0 then
               (let rop1 = rop\<lparr>t_buf := out, t_nbyte := int n\<rparr>;
                    s2 = s1\<lparr>x_calls := x_calls s1 @ [(rop1, False)]\<rparr>
                in if cb rop1 False = 0 then s2\<lparr>x_rop := None\<rparr> else s2\<lparr>x_rop := Some rop1\<rparr>)
             else s1))"

definition rx_cancel :: "(transfer \<Rightarrow> bool \<Rightarrow> int) \<Rightarrow> rx_fifo \<Rightarrow> rx_fifo" where
  "rx_cancel cb s =
     (case x_rop s of
        None \<Rightarrow> s
      | Some rop \<Rightarrow>
          (let rop1 = rop\<lparr>t_nbyte := -1\<rparr>;
               s1 = s\<lparr>x_calls := x_calls s @ [(rop1, True)]\<rparr>
           in if cb rop1 True = 0 then s1\<lparr>x_rop := None\<rparr> else s1\<lparr>x_rop := Some rop1\<rparr>))"

definition rx_used :: "nat \<Rightarrow> rx_fifo \<Rightarrow> nat" where
  "rx_used sz s =
     (if rg_tail s \<le> rg_head s then rg_head s - rg_tail s else sz - rg_tail s + rg_head s)"

definition rx_reset :: "rx_fifo \<Rightarrow> rx_fifo" where
  "rx_reset s = s\<lparr>rg_head := 0, rg_tail := 0, x_overflow := False\<rparr>"

subsection \<open>uartfifo.c\<close>

definition uart_data_received :: "(transfer \<Rightarrow> bool \<Rightarrow> int) \<Rightarrow> nat \<Rightarrow> byte list \<Rightarrow> rx_fifo \<Rightarrow> int \<times> rx_fifo" where
  "uart_data_received cb sz bs s = (1, rx_serve cb sz (fold (rx_store sz) bs s))"

definition uartfifo_open :: "port_answers \<Rightarrow> rx_fifo \<Rightarrow> int \<times> rx_fifo" where
  "uartfifo_open p s =
     (let s1 = (rx_reset s)\<lparr>x_rop := None\<rparr> in if p_open p < 0 then (-1, s1) else (0, s1))"

fun uartfifo_ioctl :: "(transfer \<Rightarrow> bool \<Rightarrow> int) \<Rightarrow> port_answers \<Rightarrow> nat \<Rightarrow> rx_req \<Rightarrow> rx_fifo
    \<Rightarrow> (errno option + int) \<times> rx_attr option \<times> rx_fifo" where
  "uartfifo_ioctl cb p sz R_GETATTR s =
     (Inr 0, Some \<lparr>a_size = sz, a_used = rx_used sz s, a_overflow = x_overflow s\<rparr>,
      s\<lparr>x_overflow := False\<rparr>)"
| "uartfifo_ioctl cb p sz (R_SETACTION has_cb) s =
     (if \<not> has_cb then (Inr 0, None, rx_cancel cb s) else (Inl (Some ENOTSUP), None, s))"
| "uartfifo_ioctl cb p sz R_FLUSH s = (Inr (p_flush p), None, rx_reset s)"
| "uartfifo_ioctl cb p sz R_SETATTR s =
     (if p_setattr p < 0 then (Inl None, None, s)
      else if p_setaction p < 0 then (Inl None, None, rx_reset s) else (Inr 0, None, rx_reset s))"
| "uartfifo_ioctl cb p sz R_INIT s =
     (if p_setaction p < 0 then (Inl None, None, rx_reset s) else (Inr 0, None, rx_reset s))"
| "uartfifo_ioctl cb p sz R_EXIT s = (Inr (p_ioctl p), None, s)"
| "uartfifo_ioctl cb p sz R_OTHER s = (Inr (p_ioctl p), None, s)"

definition uartfifo_read :: "nat \<Rightarrow> transfer \<Rightarrow> rx_fifo \<Rightarrow> (errno + int) \<times> transfer \<times> rx_fifo" where
  "uartfifo_read sz rop s =
     (if x_rop s \<noteq> None then (Inl EAGAIN, rop, s)
      else case rx_read_buffer sz (t_nbyte rop) (s\<lparr>x_len := t_nbyte rop\<rparr>) rop of (n, s1, out) \<Rightarrow>
        if n = 0 then
          (if t_nonblock rop then (Inl EAGAIN, rop, s1)
           else (let rop1 = rop\<lparr>t_nbyte := 0\<rparr>
                 in (Inr 0, rop1, s1\<lparr>x_rop := Some rop1, x_len := t_nbyte rop\<rparr>)))
        else (Inr (int n), rop\<lparr>t_buf := out\<rparr>, s1))"

definition uartfifo_close :: "port_answers \<Rightarrow> int" where
  "uartfifo_close p = (if p_setaction p < 0 then -1 else p_close p)"

subsection \<open>usbfifo.c\<close>

text \<open>\<open>connected\<close> is the answer of \<open>hwpl_usb_isconnected\<close>.\<close>

definition usb_data_received :: "(transfer \<Rightarrow> bool \<Rightarrow> int) \<Rightarrow> nat \<Rightarrow> bool \<Rightarrow> byte list \<Rightarrow> rx_fifo \<Rightarrow> int \<times> rx_fifo" where
  "usb_data_received cb sz connected bs s =
     (if \<not> connected then (1, s)
      else let s1 = fold (rx_store sz) bs s
           in (1, rx_serve cb sz
                (s1\<lparr>x_rop := map_option (\<lambda>rop. rop\<lparr>t_nbyte := x_len s1\<rparr>) (x_rop s1)\<rparr>)))"

fun usbfifo_ioctl :: "(transfer \<Rightarrow> bool \<Rightarrow> int) \<Rightarrow> port_answers \<Rightarrow> nat \<Rightarrow> rx_req \<Rightarrow> rx_fifo
    \<Rightarrow> int \<times> rx_attr option \<times> rx_fifo" where
  "usbfifo_ioctl cb p sz R_GETATTR s =
     (0, Some \<lparr>a_size = sz, a_used = rx_used sz s, a_overflow = x_overflow s\<rparr>, s\<lparr>x_overflow := False\<rparr>)"
| "usbfifo_ioctl cb p sz (R_SETACTION has_cb) s =
     (if \<not> has_cb then (0, None, rx_cancel cb s) else (p_setaction p, None, s))"
| "usbfifo_ioctl cb p sz R_FLUSH s = (0, None, (rx_reset s)\<lparr>x_rop := None\<rparr>)"
| "usbfifo_ioctl cb p sz R_SETATTR s =
     (let s1 = (rx_reset s)\<lparr>x_rop := None\<rparr>
      in if p_setattr p < 0 then (-1, None, s1)
         else if p_setaction p < 0 then (-1, None, rx_reset s1) else (0, None, rx_reset s1))"
| "usbfifo_ioctl cb p sz R_INIT s =
     (if p_setaction p < 0 then (-1, None, rx_reset s) else (0, None, rx_reset s))"
| "usbfifo_ioctl cb p sz R_EXIT s =
     (if p_setaction p < 0 then (-1, None, s) else (p_close p, None, s))"
| "usbfifo_ioctl cb p sz R_OTHER s = (p_ioctl p, None, s)"

definition usbfifo_read :: "nat \<Rightarrow> transfer \<Rightarrow> rx_fifo \<Rightarrow> (errno + int) \<times> transfer \<times> rx_fifo" where
  "usbfifo_read sz rop s =
     (if x_rop s \<noteq> None then (Inl EAGAIN, rop, s)
      else case rx_read_buffer sz (t_nbyte rop) s rop of (n, s1, out) \<Rightarrow>
        if n = 0 then
          (if \<not> t_nonblock rop then
             (let rop1 = rop\<lparr>t_nbyte := 0\<rparr>
              in (Inr 0, rop1, s1\<lparr>x_rop := Some rop1, x_len := t_nbyte rop\<rparr>))
           else (Inl EAGAIN, rop, s1))
        else (Inr (int n), rop\<lparr>t_buf := out\<rparr>, s1))"

subsection \<open>devfifo.c\<close>

definition dev_data_received :: "(transfer \<Rightarrow> bool \<Rightarrow> int) \<Rightarrow> nat \<Rightarrow> byte list \<Rightarrow> rx_fifo \<Rightarrow> int \<times> rx_fifo" where
  "dev_data_received cb sz bs s = (1, rx_serve cb sz (fold (rx_store sz) bs s))"

definition devfifo_open :: "port_answers \<Rightarrow> rx_fifo \<Rightarrow> int \<times> rx_fifo" where
  "devfifo_open p s =
     (let s1 = (rx_reset s)\<lparr>x_rop := None\<rparr>
      in if p_open p < 0 then (-1, s1) else if p_setaction p < 0 then (-1, s1) else (0, s1))"

text \<open>The byte count of the attribute request compares with \<open>>\<close>, not \<open>>=\<close> as the other drivers do.\<close>

definition devfifo_ioctl :: "port_answers \<Rightarrow> nat \<Rightarrow> rx_req \<Rightarrow> rx_fifo \<Rightarrow> int \<times> rx_attr option \<times> rx_fifo" where
  "devfifo_ioctl p sz req s =
     (if req = R_GETATTR then
        (0, Some \<lparr>a_size = sz,
                  a_used = (if rg_tail s < rg_head s then rg_head s - rg_tail s
                            else sz - rg_tail s + rg_head s),
                  a_overflow = x_overflow s\<rparr>,
         s\<lparr>x_overflow := False\<rparr>)
      else (p_ioctl p, None, s))"

definition devfifo_read :: "nat \<Rightarrow> transfer \<Rightarrow> rx_fifo \<Rightarrow> (errno + int) \<times> transfer \<times> rx_fifo" where
  "devfifo_read sz rop s =
     (if x_rop s \<noteq> None then (Inr 0, rop\<lparr>t_nbyte := 0\<rparr>, s)
      else case rx_read_buffer sz (t_nbyte rop) (s\<lparr>x_len := t_nbyte rop\<rparr>) rop of (n, s1, out) \<Rightarrow>
        if n = 0 then
          (if t_nonblock rop then (Inl EAGAIN, rop, s1)
           else (let rop1 = rop\<lparr>t_nbyte := 0\<rparr>
                 in (Inr 0, rop1, s1\<lparr>x_rop := Some rop1, x_len := t_nbyte rop\<rparr>)))
        else (Inr (int n), rop\<lparr>t_buf := out\<rparr>, s1))"

definition devfifo_close :: "port_answers \<Rightarrow> int" where
  "devfifo_close p = (if p_setaction p < 0 then -1 else p_close p)"

subsection \<open>The ring as a queue that overwrites\<close>

lemma rx_fields [simp]:
  "ring_wf sz (s\<lparr>x_overflow := a\<rparr>) = ring_wf sz s" "ring_list sz (s\<lparr>x_overflow := a\<rparr>) = ring_list sz s"
  "ring_wf sz (s\<lparr>x_rop := b\<rparr>) = ring_wf sz s" "ring_list sz (s\<lparr>x_rop := b\<rparr>) = ring_list sz s"
  "ring_wf sz (s\<lparr>x_len := c\<rparr>) = ring_wf sz s" "ring_list sz (s\<lparr>x_len := c\<rparr>) = ring_list sz s"
  "ring_wf sz (s\<lparr>x_calls := d\<rparr>) = ring_wf sz s" "ring_list sz (s\<lparr>x_calls := d\<rparr>) = ring_list sz s"
  by (simp_all add: ring_wf_def ring_list_def ring_used_def)

lemma rx_get_queue: "drainable_queue (ring_wf sz) (ring_list sz) (rx_get sz)"
proof
  fix s :: rx_fifo assume "ring_wf sz s" "ring_list sz s = []"
  then show "rx_get sz s = None"
    by (simp add: rx_get_def ring_list_Nil_iff ring_used_0_iff)
next
  fix s :: rx_fifo and x xs assume wf: "ring_wf sz s" and c: "ring_list sz s = x # xs"
  then have ne: "rg_head s \<noteq> rg_tail s"
    using ring_used_0_iff [OF wf] by (auto simp: ring_list_def)
  have nx: "(if rg_tail s + 1 = sz then 0 else rg_tail s + 1) = (rg_tail s + 1) mod sz"
    using wf by (intro ring_next) (simp add: ring_wf_def)
  show "\<exists>s'. rx_get sz s = Some (x, s') \<and> ring_wf sz s' \<and> ring_list sz s' = xs"
    using ring_list_advance [OF wf ne] c ne unfolding rx_get_def nx by simp
qed

interpretation rxq: drainable_queue "ring_wf sz" "ring_list sz" "rx_get sz" for sz
  by (rule rx_get_queue)

lemma rx_store_mod:
  assumes "ring_wf sz s"
  shows "rx_store sz b s =
    (let h = (rg_head s + 1) mod sz
     in if h = rg_tail s
        then s\<lparr>rg_tail := (rg_tail s + 1) mod sz, rg_buf := (rg_buf s)[rg_head s := b], rg_head := h,
               x_overflow := True\<rparr>
        else s\<lparr>rg_buf := (rg_buf s)[rg_head s := b], rg_head := h\<rparr>)"
  using assms by (auto simp: rx_store_def inc_head_def Let_def ring_wf_def)

lemma rx_store_room:
  assumes wf: "ring_wf sz s" and room: "ring_used sz s < sz - 1"
  shows "ring_list sz (rx_store sz b s) = ring_list sz s @ [b]" "ring_wf sz (rx_store sz b s)"
    "x_overflow (rx_store sz b s) = x_overflow s"
proof -
  have "(rg_head s + 1) mod sz \<noteq> rg_tail s"
    using wf room by (auto simp: ring_wf_def ring_used_def mod_if)
  then have "rx_store sz b s = s\<lparr>rg_buf := (rg_buf s)[rg_head s := b], rg_head := (rg_head s + 1) mod sz\<rparr>"
    by (simp add: rx_store_mod [OF wf] Let_def)
  then show "ring_list sz (rx_store sz b s) = ring_list sz s @ [b]" "ring_wf sz (rx_store sz b s)"
    "x_overflow (rx_store sz b s) = x_overflow s"
    using ring_list_store [OF wf room, of b] by simp_all
qed

lemma rx_store_full:
  assumes wf: "ring_wf sz s" and full: "ring_used sz s = sz - 1"
  shows "ring_list sz (rx_store sz b s) = drop 1 (ring_list sz s @ [b])" "ring_wf sz (rx_store sz b s)"
    "x_overflow (rx_store sz b s)"
proof -
  let ?s1 = "s\<lparr>rg_tail := (rg_tail s + 1) mod sz\<rparr>"
  have meet: "(rg_head s + 1) mod sz = rg_tail s"
    using wf full by (auto simp: ring_wf_def ring_used_def mod_if split: if_splits)
  then have st: "rx_store sz b s
      = (?s1\<lparr>rg_buf := (rg_buf s)[rg_head s := b], rg_head := (rg_head s + 1) mod sz\<rparr>)\<lparr>x_overflow := True\<rparr>"
    by (simp add: rx_store_mod [OF wf] Let_def)
  then show "x_overflow (rx_store sz b s)" by simp
  show "ring_list sz (rx_store sz b s) = drop 1 (ring_list sz s @ [b])" "ring_wf sz (rx_store sz b s)"
  proof (atomize (full), cases "sz = 1")
    case True
    then show "ring_list sz (rx_store sz b s) = drop 1 (ring_list sz s @ [b]) \<and> ring_wf sz (rx_store sz b s)"
      using wf st by (auto simp: ring_wf_def ring_list_def ring_used_def)
  next
    case False
    have sz: "1 < sz" using wf False by (auto simp: ring_wf_def)
    then have ne: "rg_head s \<noteq> rg_tail s" using full ring_used_0_iff [OF wf] by auto
    note adv = ring_list_advance [OF wf ne]
    have room: "ring_used sz ?s1 < sz - 1"
      using arg_cong [OF adv(1), of length] full sz by simp
    show "ring_list sz (rx_store sz b s) = drop 1 (ring_list sz s @ [b]) \<and> ring_wf sz (rx_store sz b s)"
      using ring_list_store [OF adv(2) room, of b] adv(1) st by simp
  qed
qed

interpretation rx_ow: overwriting_queue "ring_wf sz" "ring_list sz" "sz - 1" "rx_store sz" for sz
proof
  fix s :: rx_fifo and x assume wf: "ring_wf sz s"
  show "length (ring_list sz s) \<le> sz - 1" using ring_used_bound [OF wf] by simp
  show "ring_wf sz (rx_store sz x s)"
    using rx_store_room [OF wf] rx_store_full [OF wf] ring_used_bound [OF wf] by (metis le_neq_implies_less)
  show "ring_list sz (rx_store sz x s) = drop (Suc (length (ring_list sz s)) - (sz - 1)) (ring_list sz s @ [x])"
  proof (cases "ring_used sz s = sz - 1")
    case True
    then show ?thesis using rx_store_full(1) [OF wf True] by simp
  next
    case False
    then have "ring_used sz s < sz - 1" using ring_used_bound [OF wf] by simp
    then show ?thesis using rx_store_room(1) [OF wf] by simp
  qed
qed

text \<open>The overflow flag goes up exactly when a byte is lost.\<close>

lemma rx_fold_overflow:
  "ring_wf sz s \<Longrightarrow> x_overflow (fold (rx_store sz) bs s)
     \<longleftrightarrow> x_overflow s \<or> length (ring_list sz s) + length bs > sz - 1"
proof (induction bs arbitrary: s)
  case Nil
  then show ?case using ring_used_bound [OF Nil] by simp
next
  case (Cons b bs)
  note wf = \<open>ring_wf sz s\<close>
  have wf1: "ring_wf sz (rx_store sz b s)" by (rule rx_ow.put_inv [OF wf])
  show ?case
  proof (cases "ring_used sz s = sz - 1")
    case True
    then show ?thesis using Cons.IH [OF wf1] rx_store_full(3) [OF wf True] by simp
  next
    case False
    then have room: "ring_used sz s < sz - 1" using ring_used_bound [OF wf] by simp
    show ?thesis using Cons.IH [OF wf1] rx_store_room [OF wf room, of b]
      by (simp del: length_ring_list)
  qed
qed

lemma rx_store_frame:
  "x_rop (rx_store sz b s) = x_rop s" "x_len (rx_store sz b s) = x_len s"
  "x_calls (rx_store sz b s) = x_calls s"
  by (simp_all add: rx_store_def inc_head_def Let_def)

lemma rx_fold_frame:
  "x_rop (fold (rx_store sz) bs s) = x_rop s" "x_len (fold (rx_store sz) bs s) = x_len s"
  "x_calls (fold (rx_store sz) bs s) = x_calls s"
  by (induction bs arbitrary: s) (simp_all add: rx_store_frame)

lemma rx_used_list: "rx_used sz s = length (ring_list sz s)"
  by (simp add: rx_used_def ring_used_def)

lemma rx_drain_frame:
  "drain_loop (rx_get sz) len i s out = (n, s', out')
    \<Longrightarrow> x_rop s' = x_rop s \<and> x_len s' = x_len s \<and> x_calls s' = x_calls s \<and> x_overflow s' = x_overflow s"
  by (erule drain_loop_invariant [where P = "\<lambda>t. x_rop t = x_rop s \<and> x_len t = x_len s \<and> x_calls t = x_calls s
    \<and> x_overflow t = x_overflow s"]) (auto simp: rx_get_def split: if_splits)

lemma rx_read_buffer_spec:
  assumes wf: "ring_wf sz s" and len: "nat len \<le> length (t_buf r)"
  obtains s' out where
    "rx_read_buffer sz len s r = (min (nat len) (length (ring_list sz s)), s', out)" "ring_wf sz s'"
    "ring_list sz s' = drop (nat len) (ring_list sz s)"
    "take (min (nat len) (length (ring_list sz s))) out = take (nat len) (ring_list sz s)"
    "x_rop s' = x_rop s" "x_len s' = x_len s" "x_calls s' = x_calls s" "x_overflow s' = x_overflow s"
proof -
  obtain s' out where d:
    "drain_loop (rx_get sz) len 0 s (t_buf r) = (min (nat len) (length (ring_list sz s)), s', out)"
    "ring_wf sz s'" "ring_list sz s' = drop (nat len) (ring_list sz s)"
    "take (min (nat len) (length (ring_list sz s))) out = take (nat len) (ring_list sz s)"
    using rxq.drain_loop_correct [OF wf len] by metis
  then show thesis using rx_drain_frame [OF d(1)] by (intro that [of s' out]) (auto simp: rx_read_buffer_def)
qed

lemma rx_serve_spec:
  assumes wf: "ring_wf sz s" and r: "x_rop s = Some r" and len: "nat (x_len s) \<le> length (t_buf r)"
    and n: "n = min (nat (x_len s)) (length (ring_list sz s))" "0 < n"
    and cb: "\<And>t. cb t False = 0"
  shows "\<exists>out. take n out = take n (ring_list sz s) \<and> x_rop (rx_serve cb sz s) = None
    \<and> x_calls (rx_serve cb sz s) = x_calls s @ [(r\<lparr>t_buf := out, t_nbyte := int n\<rparr>, False)]
    \<and> ring_list sz (rx_serve cb sz s) = drop n (ring_list sz s) \<and> ring_wf sz (rx_serve cb sz s)"
proof -
  obtain s' out where "rx_read_buffer sz (x_len s) s r = (n, s', out)" "ring_wf sz s'"
    "ring_list sz s' = drop n (ring_list sz s)" "take n out = take n (ring_list sz s)" "x_calls s' = x_calls s"
    by (rule rx_read_buffer_spec [OF wf len]) (use that n in \<open>auto simp: min_def split: if_splits\<close>)
  then show ?thesis using r n cb by (intro exI [of _ out]) (simp add: rx_serve_def Let_def)
qed

subsection \<open>Properties\<close>

abbreviation done_cb :: "transfer \<Rightarrow> bool \<Rightarrow> int" where
  "done_cb \<equiv> \<lambda>_ _. 0"

definition demo_rx :: rx_fifo where
  "demo_rx = \<lparr>rg_head = 3, rg_tail = 1, rg_buf = [7, 8, 9, 10], x_overflow = False, x_rop = None,
     x_len = 0, x_calls = []\<rparr>"

definition demo_port :: port_answers where
  "demo_port = \<lparr>p_open = 0, p_close = 0, p_setaction = 0, p_setattr = 0, p_flush = 0, p_ioctl = 0\<rparr>"

definition demo_read :: transfer where
  "demo_read = \<lparr>t_buf = [0, 0, 0], t_nbyte = 2, t_nonblock = False\<rparr>"

text \<open>
  C14: whatever arrives, each of the three receive FIFOs (the USB one while it is connected) with no reader
  waiting holds the newest \<open>size - 1\<close> bytes of what it held followed by what arrived, and its overflow
  flag is up afterwards exactly when it was up before or at least one byte was dropped. A USB FIFO that is
  not connected takes nothing and stays as it is. The callback asks to be called again.
\<close>

theorem rx_newest_bytes_and_overflow:
  assumes "ring_wf sz s" and "x_rop s = None" and "all = ring_list sz s @ bs"
    and "res \<in> {uart_data_received cb sz bs s, dev_data_received cb sz bs s, usb_data_received cb sz True bs s}"
  shows "(\<exists>s'. res = (1, s') \<and> ring_wf sz s' \<and> ring_list sz s' = drop (length all - (sz - 1)) all
      \<and> (x_overflow s' \<longleftrightarrow> x_overflow s \<or> length all > sz - 1))
    \<and> usb_data_received cb sz False bs s = (1, s)"
proof -
  have none: "f\<lparr>x_rop := None\<rparr> = f" if "x_rop f = None" for f :: rx_fifo using that by simp
  have "res = (1, fold (rx_store sz) bs s)"
    using assms(2,4) none [of "fold (rx_store sz) bs s"]
    by (auto simp: uart_data_received_def dev_data_received_def usb_data_received_def rx_serve_def rx_fold_frame Let_def)
  then show ?thesis
    using rx_ow.fold_put_inv [OF assms(1), of bs] rx_ow.fold_put_cont [OF assms(1), of bs]
      rx_fold_overflow [OF assms(1), of bs] assms(3) by (simp add: usb_data_received_def)
qed

theorem rx_newest_bytes_and_overflow_witness:
  "ring_list 4 (snd (usb_data_received done_cb 4 True [1, 2] demo_rx)) = drop (length [8 :: byte, 9, 1, 2] - (4 - 1)) [8, 9, 1, 2]
    \<and> x_overflow (snd (usb_data_received done_cb 4 True [1, 2] demo_rx))"
proof -
  have "ring_wf 4 demo_rx" "x_rop demo_rx = None" "[8, 9, 1, 2] = ring_list 4 demo_rx @ [1, 2]" by code_simp+
  from rx_newest_bytes_and_overflow [OF this, of "usb_data_received done_cb 4 True [1, 2] demo_rx" done_cb]
  show ?thesis by auto
qed

text \<open>
  a read of an empty FIFO that may block is served by the next bytes to arrive: its callback is
  called once, with the first of these bytes and their number, no reader is left waiting, and the
  other bytes stay in the FIFO for later reads.
\<close>

theorem rx_blocked_read_served:
  assumes "ring_wf sz s" and "ring_list sz s = []" and "x_rop s = None"
    and "\<not> t_nonblock r" and "0 < t_nbyte r" and "nat (t_nbyte r) \<le> length (t_buf r)"
    and "bs \<noteq> []" and "length bs \<le> sz - 1"
    and "uartfifo_read sz r s = (res, r', s1)" and "uart_data_received done_cb sz bs s1 = (keep, s2)"
  shows "res = Inr 0 \<and> x_rop s1 = Some (r\<lparr>t_nbyte := 0\<rparr>) \<and> x_rop s2 = None
    \<and> (\<exists>out. x_calls s2 = x_calls s @ [(r\<lparr>t_buf := out, t_nbyte := min (t_nbyte r) (int (length bs))\<rparr>, False)]
          \<and> take (nat (t_nbyte r)) (take (length bs) out) = take (nat (t_nbyte r)) bs)
    \<and> ring_list sz s2 = drop (nat (t_nbyte r)) bs"
proof -
  let ?s0 = "s\<lparr>x_len := t_nbyte r\<rparr>"
  have wf0: "ring_wf sz ?s0" using assms by simp
  obtain t out where t: "rx_read_buffer sz (t_nbyte r) ?s0 r = (0, t, out)" "ring_wf sz t"
    "ring_list sz t = []" "x_rop t = None" "x_calls t = x_calls s"
    by (rule rx_read_buffer_spec [OF wf0 assms(6)]) (use assms that in \<open>auto simp del: length_ring_list\<close>)
  have s1: "res = Inr 0" "s1 = t\<lparr>x_rop := Some (r\<lparr>t_nbyte := 0\<rparr>), x_len := t_nbyte r\<rparr>"
    using assms t by (auto simp: uartfifo_read_def Let_def)
  let ?f = "fold (rx_store sz) bs s1"
  have f: "ring_wf sz ?f" "ring_list sz ?f = bs" "x_rop ?f = Some (r\<lparr>t_nbyte := 0\<rparr>)"
    "x_len ?f = t_nbyte r" "x_calls ?f = x_calls s"
    using rx_ow.fold_put_inv [of sz s1 bs] rx_ow.fold_put_cont [of sz s1 bs] t s1 assms(8)
    by (auto simp: rx_fold_frame ring_list_Nil_iff)
  let ?n = "min (nat (t_nbyte r)) (length bs)"
  have s2: "s2 = rx_serve done_cb sz ?f" using assms(10) by (simp add: uart_data_received_def)
  have n: "?n = min (nat (x_len ?f)) (length (ring_list sz ?f))" "0 < ?n"
    using f(2,4) assms(5,7) by (auto simp del: length_ring_list)
  have len: "nat (x_len ?f) \<le> length (t_buf (r\<lparr>t_nbyte := 0\<rparr>))" using f(4) assms(6) by simp
  from rx_serve_spec [OF f(1,3) len n, of done_cb] obtain out' where o:
    "take ?n out' = take ?n bs" "x_rop s2 = None" "ring_list sz s2 = drop ?n bs"
    "x_calls s2 = x_calls s @ [(r\<lparr>t_buf := out', t_nbyte := int ?n\<rparr>, False)]"
    using s2 f(2,5) by auto
  have "int ?n = min (t_nbyte r) (int (length bs))" using assms(5) by linarith
  moreover have "drop ?n bs = drop (nat (t_nbyte r)) bs" "take ?n bs = take (nat (t_nbyte r)) bs"
    "take (nat (t_nbyte r)) (take (length bs) out') = take ?n out'"
    by (simp_all add: min_def)
  ultimately show ?thesis using s1 o by auto
qed

theorem rx_blocked_read_served_witness:
  "x_rop (snd (uart_data_received done_cb 4 [5, 6, 4] (snd (snd (uartfifo_read 4 demo_read (demo_rx\<lparr>rg_tail := 3\<rparr>)))))) = None
   \<and> ring_list 4 (snd (uart_data_received done_cb 4 [5, 6, 4] (snd (snd (uartfifo_read 4 demo_read (demo_rx\<lparr>rg_tail := 3\<rparr>)))))) = [4]"
proof -
  let ?s = "demo_rx\<lparr>rg_tail := 3\<rparr>"
  have p: "ring_wf 4 ?s" "ring_list 4 ?s = []" "x_rop ?s = None" "\<not> t_nonblock demo_read" "0 < t_nbyte demo_read"
    "nat (t_nbyte demo_read) \<le> length (t_buf demo_read)" "[5, 6, 4 :: byte] \<noteq> []" "length [5, 6, 4 :: byte] \<le> 4 - 1"
    by code_simp+
  obtain res r' s1 where s1: "uartfifo_read 4 demo_read ?s = (res, r', s1)" by (metis prod_cases3)
  obtain k s2 where s2: "uart_data_received done_cb 4 [5, 6, 4] s1 = (k, s2)" by fastforce
  have "t_nbyte demo_read = 2" by code_simp
  then show ?thesis using rx_blocked_read_served [OF p s1 s2] s1 s2 by simp
qed

text \<open>
  the byte count of the attribute requests: \<open>uartfifo\<close> and \<open>usbfifo\<close> report the number of bytes
  in the FIFO; \<open>devfifo\<close> reports it too, except that it reports \<open>size\<close> for an empty FIFO.
\<close>

theorem rx_getattr_used:
  assumes "ring_wf sz s"
  shows "map_option a_used (fst (snd (uartfifo_ioctl cb p sz R_GETATTR s))) = Some (length (ring_list sz s))
    \<and> map_option a_used (fst (snd (usbfifo_ioctl cb p sz R_GETATTR s))) = Some (length (ring_list sz s))
    \<and> map_option a_used (fst (snd (devfifo_ioctl p sz R_GETATTR s)))
        = Some (if ring_list sz s = [] then sz else length (ring_list sz s))"
proof -
  have "rg_tail s < sz" "rg_head s < sz" using assms by (auto simp: ring_wf_def)
  then show ?thesis
    using ring_used_0_iff [OF assms] by (auto simp: devfifo_ioctl_def rx_used_list ring_list_Nil_iff ring_used_def)
qed

theorem rx_getattr_used_witness:
  "map_option a_used (fst (snd (devfifo_ioctl demo_port 4 R_GETATTR (demo_rx\<lparr>rg_tail := 3\<rparr>)))) = Some 4"
proof -
  have "ring_wf 4 (demo_rx\<lparr>rg_tail := 3\<rparr>)" "ring_list 4 (demo_rx\<lparr>rg_tail := 3\<rparr>) = []" by code_simp+
  then show ?thesis using rx_getattr_used [of 4 "demo_rx\<lparr>rg_tail := 3\<rparr>" done_cb demo_port] by simp
qed

end
