(* ===== verification/Kernel.thy ===== *)
theory Kernel
  imports Prelude
begin

section \<open>Kernel state: the task table and the scheduler table\<close>

text \<open>
  The state that the scheduler and every blocking primitive share: \<open>task_table\<close> (\<open>task_t\<close>,
  \<open>include/hwpl/task.h\<close>), \<open>sched_table\<close> (\<open>sched_task_t\<close>, \<open>sys/sched/sched_flags.h\<close>), the current
  task, the priority being executed, and the hardware the scheduler drives (the pending context
  switch, the tick timer, the microsecond timer). Tables are functions of the task number; only
  the numbers below \<open>task_total\<close> are used. The fields of the structures that the modelled operations do not use (stack pointers, memory
  regions, reentrancy structures) are left out.

  Code that runs as a privileged call cannot be interrupted: \<open>task_priv_switch_context\<close> only
  pends the switch, and the rest of the handler runs before it happens.
\<close>

record task_t =
  t_pid :: int
  t_flags :: u32
  t_rr_time :: int
  t_timer :: "64 word"

text \<open>
  What a task can block on, as a pointer: nothing, an object of the program (a semaphore, a mutex, a
  device handle) by its address, the entry of a task in \<open>sched_table\<close> (a thread that is joined), or
  the \<open>block_object\<close> field of an entry (a thread that waits to be joined blocks on its own).
\<close>

datatype ptr = Null | Addr nat | Tcb nat | TcbBlock nat

text \<open>
  The scheduling policies and the detach state are constants of the C library's headers; only their
  being distinct matters. \<open>SCHED_UNKNOWN\<close> is any other value of a policy argument.
\<close>

datatype sched_policy = SCHED_OTHER | SCHED_FIFO | SCHED_RR | SCHED_UNKNOWN

record sched_task_t =
  st_policy :: sched_policy
  st_joinable :: bool
  st_sched_priority :: int
  st_block_object :: ptr
  st_exit_status :: int
  st_wake_sec :: u32
  st_wake_usec :: u32
  st_flags :: u16
  st_priority :: int

record kernel =
  task_total :: nat
  task_current :: nat
  task_table :: "nat \<Rightarrow> task_t"
  sched_table :: "nat \<Rightarrow> sched_task_t"
  sched_current_priority :: int
  sched_status_changed :: bool
  pendsv :: bool
  rr_reload :: int
  systick_val :: int
  systick_load :: int
  systick_irq :: bool
  usecond_counter :: u32
  tmr_val :: u32
  tmr_oc :: u32
  tmr_on :: bool

definition upd_task :: "nat \<Rightarrow> (task_t \<Rightarrow> task_t) \<Rightarrow> 'z kernel_scheme \<Rightarrow> 'z kernel_scheme" where
  "upd_task i f k = k\<lparr>task_table := (task_table k)(i := f (task_table k i))\<rparr>"

definition upd_sched :: "nat \<Rightarrow> (sched_task_t \<Rightarrow> sched_task_t) \<Rightarrow> 'z kernel_scheme \<Rightarrow> 'z kernel_scheme" where
  "upd_sched i f k = k\<lparr>sched_table := (sched_table k)(i := f (sched_table k i))\<rparr>"

subsection \<open>Flags of the task table (include/hwpl/task_table.h)\<close>

text \<open>The flags are kept as bit numbers: \<open>TASK_FLAGS_USED\<close> is \<open>1<<8\<close>, and so on.\<close>

abbreviation TASK_USED :: nat where "TASK_USED \<equiv> 8"
abbreviation TASK_EXEC :: nat where "TASK_EXEC \<equiv> 9"
abbreviation TASK_IS_THREAD :: nat where "TASK_IS_THREAD \<equiv> 11"
abbreviation TASK_IS_FIFO :: nat where "TASK_IS_FIFO \<equiv> 12"
abbreviation TASK_ROOT :: nat where "TASK_ROOT \<equiv> 14"

definition task_deassert_exec :: "nat \<Rightarrow> 'z kernel_scheme \<Rightarrow> 'z kernel_scheme" where
  "task_deassert_exec i = upd_task i (\<lambda>t. t\<lparr>t_flags := flag_clear (t_flags t) TASK_EXEC\<rparr>)"

definition task_assert_exec :: "nat \<Rightarrow> 'z kernel_scheme \<Rightarrow> 'z kernel_scheme" where
  "task_assert_exec i = upd_task i (\<lambda>t. t\<lparr>t_flags := flag_set (t_flags t) TASK_EXEC\<rparr>)"

definition task_exec_asserted :: "'z kernel_scheme \<Rightarrow> nat \<Rightarrow> bool" where
  "task_exec_asserted k i = flag_has (t_flags (task_table k i)) TASK_EXEC"

definition task_isthread_asserted :: "'z kernel_scheme \<Rightarrow> nat \<Rightarrow> bool" where
  "task_isthread_asserted k i = flag_has (t_flags (task_table k i)) TASK_IS_THREAD"

definition task_deassert_isfifo :: "nat \<Rightarrow> 'z kernel_scheme \<Rightarrow> 'z kernel_scheme" where
  "task_deassert_isfifo i = upd_task i (\<lambda>t. t\<lparr>t_flags := flag_clear (t_flags t) TASK_IS_FIFO\<rparr>)"

definition task_assert_isfifo :: "nat \<Rightarrow> 'z kernel_scheme \<Rightarrow> 'z kernel_scheme" where
  "task_assert_isfifo i = upd_task i (\<lambda>t. t\<lparr>t_flags := flag_set (t_flags t) TASK_IS_FIFO\<rparr>)"

definition task_isfifo_asserted :: "'z kernel_scheme \<Rightarrow> nat \<Rightarrow> bool" where
  "task_isfifo_asserted k i = flag_has (t_flags (task_table k i)) TASK_IS_FIFO"

definition task_assert_used :: "nat \<Rightarrow> 'z kernel_scheme \<Rightarrow> 'z kernel_scheme" where
  "task_assert_used i = upd_task i (\<lambda>t. t\<lparr>t_flags := flag_set (t_flags t) TASK_USED\<rparr>)"

definition task_deassert_used :: "nat \<Rightarrow> 'z kernel_scheme \<Rightarrow> 'z kernel_scheme" where
  "task_deassert_used i = upd_task i (\<lambda>t. t\<lparr>t_flags := flag_clear (t_flags t) TASK_USED\<rparr>)"

definition task_enabled :: "'z kernel_scheme \<Rightarrow> nat \<Rightarrow> bool" where
  "task_enabled k i = flag_has (t_flags (task_table k i)) TASK_USED"

definition task_get_pid :: "'z kernel_scheme \<Rightarrow> nat \<Rightarrow> int" where
  "task_get_pid k i = t_pid (task_table k i)"

subsection \<open>Flags of the scheduler table (sys/sched/sched_flags.h, sched_priv.c)\<close>

abbreviation SCHED_ACTIVE :: nat where "SCHED_ACTIVE \<equiv> 4"
abbreviation SCHED_INUSE :: nat where "SCHED_INUSE \<equiv> 5"
abbreviation SCHED_WAITCHILD :: nat where "SCHED_WAITCHILD \<equiv> 6"
abbreviation SCHED_SIGCAUGHT :: nat where "SCHED_SIGCAUGHT \<equiv> 7"
abbreviation SCHED_AIOSUSPEND :: nat where "SCHED_AIOSUSPEND \<equiv> 8"
abbreviation SCHED_ZOMBIE :: nat where "SCHED_ZOMBIE \<equiv> 9"
abbreviation SCHED_LISTIOSUSPEND :: nat where "SCHED_LISTIOSUSPEND \<equiv> 10"
abbreviation SCHED_STOPPED :: nat where "SCHED_STOPPED \<equiv> 11"

datatype unblock_type = UNBLOCK_NONE | UNBLOCK_MUTEX | UNBLOCK_SEMAPHORE | UNBLOCK_RWLOCK
  | UNBLOCK_COND | UNBLOCK_SLEEP | UNBLOCK_WAIT | UNBLOCK_SIGNAL | UNBLOCK_TRANSFER | UNBLOCK_MQ
  | UNBLOCK_PTHREAD_JOINED | UNBLOCK_PTHREAD_JOINED_THREAD_COMPLETE | UNBLOCK_AIO

fun unblock_code :: "unblock_type \<Rightarrow> u16" where
  "unblock_code UNBLOCK_NONE = 0"
| "unblock_code UNBLOCK_MUTEX = 1"
| "unblock_code UNBLOCK_SEMAPHORE = 2"
| "unblock_code UNBLOCK_RWLOCK = 3"
| "unblock_code UNBLOCK_COND = 4"
| "unblock_code UNBLOCK_SLEEP = 5"
| "unblock_code UNBLOCK_WAIT = 6"
| "unblock_code UNBLOCK_SIGNAL = 7"
| "unblock_code UNBLOCK_TRANSFER = 8"
| "unblock_code UNBLOCK_MQ = 9"
| "unblock_code UNBLOCK_PTHREAD_JOINED = 10"
| "unblock_code UNBLOCK_PTHREAD_JOINED_THREAD_COMPLETE = 11"
| "unblock_code UNBLOCK_AIO = 12"

definition sched_asserted :: "nat \<Rightarrow> 'z kernel_scheme \<Rightarrow> nat \<Rightarrow> bool" where
  "sched_asserted flag k i = flag_test (st_flags (sched_table k i)) flag"

abbreviation sched_active_asserted :: "'z kernel_scheme \<Rightarrow> nat \<Rightarrow> bool" where
  "sched_active_asserted \<equiv> sched_asserted SCHED_ACTIVE"
abbreviation sched_inuse_asserted :: "'z kernel_scheme \<Rightarrow> nat \<Rightarrow> bool" where
  "sched_inuse_asserted \<equiv> sched_asserted SCHED_INUSE"
abbreviation sched_stopped_asserted :: "'z kernel_scheme \<Rightarrow> nat \<Rightarrow> bool" where
  "sched_stopped_asserted \<equiv> sched_asserted SCHED_STOPPED"
abbreviation sched_zombie_asserted :: "'z kernel_scheme \<Rightarrow> nat \<Rightarrow> bool" where
  "sched_zombie_asserted \<equiv> sched_asserted SCHED_ZOMBIE"

definition sched_get_priority :: "'z kernel_scheme \<Rightarrow> nat \<Rightarrow> int" where
  "sched_get_priority k i = st_priority (sched_table k i)"

definition UNBLOCK_MASK :: u16 where
  "UNBLOCK_MASK = 0x0F"

definition sched_get_unblock_type :: "'z kernel_scheme \<Rightarrow> nat \<Rightarrow> u16" where
  "sched_get_unblock_type k i = st_flags (sched_table k i) AND UNBLOCK_MASK"

definition sched_priv_set_unblock_type :: "nat \<Rightarrow> unblock_type \<Rightarrow> 'z kernel_scheme \<Rightarrow> 'z kernel_scheme" where
  "sched_priv_set_unblock_type i ty =
     upd_sched i (\<lambda>t. t\<lparr>st_flags := (st_flags t AND NOT UNBLOCK_MASK) OR unblock_code ty\<rparr>)"

definition sched_priv_assert :: "nat \<Rightarrow> nat \<Rightarrow> 'z kernel_scheme \<Rightarrow> 'z kernel_scheme" where
  "sched_priv_assert i flag = upd_sched i (\<lambda>t. t\<lparr>st_flags := flag_set (st_flags t) flag\<rparr>)"

definition sched_priv_deassert :: "nat \<Rightarrow> nat \<Rightarrow> 'z kernel_scheme \<Rightarrow> 'z kernel_scheme" where
  "sched_priv_deassert i flag = upd_sched i (\<lambda>t. t\<lparr>st_flags := flag_clear (st_flags t) flag\<rparr>)"

definition sched_priv_assert_status_change :: "'z kernel_scheme \<Rightarrow> 'z kernel_scheme" where
  "sched_priv_assert_status_change k = k\<lparr>sched_status_changed := True\<rparr>"

abbreviation SEC_INVALID :: u32 where "SEC_INVALID \<equiv> 0xFFFFFFFF"

definition sched_priv_assert_active :: "nat \<Rightarrow> unblock_type \<Rightarrow> 'z kernel_scheme \<Rightarrow> 'z kernel_scheme" where
  "sched_priv_assert_active i ty k =
     (let k1 = sched_priv_assert i SCHED_ACTIVE k;
          k2 = sched_priv_set_unblock_type i ty k1;
          k3 = sched_priv_deassert i SCHED_AIOSUSPEND k2
      in upd_sched i (\<lambda>t. t\<lparr>st_block_object := Null, st_wake_sec := SEC_INVALID, st_wake_usec := 0\<rparr>) k3)"

definition sched_priv_deassert_active :: "nat \<Rightarrow> 'z kernel_scheme \<Rightarrow> 'z kernel_scheme" where
  "sched_priv_deassert_active i k =
     sched_priv_assert_status_change (task_deassert_exec i (sched_priv_deassert i SCHED_ACTIVE k))"

subsection \<open>Task control (hwpl/core_cm3/task.c)\<close>

text \<open>
  \<open>task_priv_switch_context\<close> saves the rest of the time slice and pends the switch, which the
  hardware performs, by \<open>task_context_switcher\<close>, when the privileged code is left.
\<close>

definition task_priv_switch_context :: "'z kernel_scheme \<Rightarrow> 'z kernel_scheme" where
  "task_priv_switch_context k =
     (upd_task (task_current k) (\<lambda>t. t\<lparr>t_rr_time := systick_val k\<rparr>) k)\<lparr>pendsv := True\<rparr>"

abbreviation SYSTICK_MIN_CYCLES :: int where "SYSTICK_MIN_CYCLES \<equiv> 10000"

text \<open>
  The scan of \<open>task_context_switcher\<close> for the next task: the first executing task after the current
  one that has time left or is a FIFO task, and task 0 (the scheduler) when the end of the table is
  reached. \<open>task_current\<close> is below \<open>task_total\<close>, so the comparison is the \<open>==\<close> of the source.
\<close>

definition may_run :: "'z kernel_scheme \<Rightarrow> nat \<Rightarrow> bool" where
  "may_run k i \<longleftrightarrow> task_exec_asserted k i
     \<and> (t_rr_time (task_table k i) \<ge> SYSTICK_MIN_CYCLES \<or> task_isfifo_asserted k i)"

function next_task :: "'z kernel_scheme \<Rightarrow> nat \<Rightarrow> nat" where
  "next_task k i =
     (if task_total k \<le> Suc i then 0
      else if may_run k (Suc i) then Suc i
      else next_task k (Suc i))"
  by pat_completeness auto
termination
  by (relation "measure (\<lambda>(k, i). task_total k - i)") auto

declare next_task.simps [simp del]

text \<open>What happens when the scan wraps to task 0: the time slices of the executing tasks are
  renewed once all of them are used up.\<close>

definition reload_zero :: "'z kernel_scheme \<Rightarrow> 'z kernel_scheme" where
  "reload_zero k =
     (if t_rr_time (task_table k 0) < SYSTICK_MIN_CYCLES
      then upd_task 0 (\<lambda>t. t\<lparr>t_rr_time := rr_reload k, t_timer := t_timer t + word_of_int (rr_reload k)\<rparr>) k
      else k)"

definition all_used_up :: "'z kernel_scheme \<Rightarrow> bool" where
  "all_used_up k \<longleftrightarrow>
     \<not> list_ex (\<lambda>i. task_exec_asserted k i \<and> t_rr_time (task_table k i) \<ge> SYSTICK_MIN_CYCLES) [1..<task_total k]"

definition reload_task :: "'z kernel_scheme \<Rightarrow> nat \<Rightarrow> 'z kernel_scheme" where
  "reload_task k i =
     (if task_exec_asserted k i
      then upd_task i (\<lambda>t. t\<lparr>t_timer := t_timer t + word_of_int (rr_reload k - t_rr_time t),
                            t_rr_time := rr_reload k\<rparr>) k
      else k)"

definition wrap_around :: "'z kernel_scheme \<Rightarrow> 'z kernel_scheme" where
  "wrap_around k =
     (let k1 = reload_zero k
      in if all_used_up k1 then foldl reload_task k1 [1..<task_total k1] else k1)"

definition task_context_switcher :: "'z kernel_scheme \<Rightarrow> 'z kernel_scheme" where
  "task_context_switcher k =
     (let n = next_task k (task_current k);
          k1 = (if n = 0 then wrap_around k else k)\<lparr>task_current := n, pendsv := False\<rparr>
      in if task_isfifo_asserted k1 n then k1\<lparr>systick_irq := False\<rparr>
         else k1\<lparr>systick_load := t_rr_time (task_table k1 n), systick_val := 0, systick_irq := True\<rparr>)"

text \<open>The tick interrupt at the end of a time slice.\<close>

definition task_check_countflag :: "bool \<Rightarrow> 'z kernel_scheme \<Rightarrow> 'z kernel_scheme" where
  "task_check_countflag countflag k =
     (if countflag
      then task_context_switcher (upd_task (task_current k) (\<lambda>t. t\<lparr>t_rr_time := 0\<rparr>) k)
      else k)"

record new_task_t =
  nt_pid :: int
  nt_flags :: u32

function find_unused :: "'z kernel_scheme \<Rightarrow> nat \<Rightarrow> nat option" where
  "find_unused k i =
     (if task_total k \<le> i then None
      else if \<not> task_enabled k i then Some i
      else find_unused k (Suc i))"
  by pat_completeness auto
termination
  by (relation "measure (\<lambda>(k, i). task_total k - i)") auto

declare find_unused.simps [simp del]

text \<open>\<open>task_priv_new_task\<close>: the task number it writes into its argument (0 when the table is full).\<close>

definition task_priv_new_task :: "new_task_t \<Rightarrow> 'z kernel_scheme \<Rightarrow> nat \<times> 'z kernel_scheme" where
  "task_priv_new_task nt k =
     (case find_unused k 1 of
        None \<Rightarrow> (0, k)
      | Some i \<Rightarrow> (i, upd_task i (\<lambda>t. t\<lparr>t_pid := nt_pid nt, t_flags := nt_flags nt, t_timer := 0,
                                       t_rr_time := rr_reload k\<rparr>) k))"

definition task_priv_del :: "nat \<Rightarrow> 'z kernel_scheme \<Rightarrow> 'z kernel_scheme" where
  "task_priv_del i k =
     (if i < task_total k \<and> i \<ge> 1 then task_deassert_exec i (task_deassert_used i k) else k)"

definition task_gettime :: "nat \<Rightarrow> 'z kernel_scheme \<Rightarrow> 64 word" where
  "task_gettime tid k =
     (if tid \<noteq> task_current k
      then t_timer (task_table k tid) + word_of_int (rr_reload k - t_rr_time (task_table k tid))
      else t_timer (task_table k tid) + word_of_int (rr_reload k - systick_val k))"

subsection \<open>A concrete kernel\<close>

text \<open>Three entries, only the scheduler's own in use, as after \<open>sched_init\<close> and \<open>task_init\<close>.\<close>

definition idle_entry :: sched_task_t where
  "idle_entry = \<lparr>st_policy = SCHED_OTHER, st_joinable = False, st_sched_priority = 0, st_block_object = Null,
     st_exit_status = 0, st_wake_sec = 0, st_wake_usec = 0, st_flags = 0, st_priority = 0\<rparr>"

definition demo_start :: kernel where
  "demo_start = \<lparr>task_total = 3, task_current = 0,
     task_table = (\<lambda>i. \<lparr>t_pid = 0, t_flags = (if i = 0 then 0x4300 else 0), t_rr_time = 0, t_timer = 0\<rparr>),
     sched_table = (\<lambda>_. idle_entry), sched_current_priority = -1, sched_status_changed = False,
     pendsv = False, rr_reload = 720000, systick_val = 0, systick_load = 0, systick_irq = True,
     usecond_counter = 0, tmr_val = 0, tmr_oc = 2048000001, tmr_on = True\<rparr>"

text \<open>Tasks 1 and 2 are enabled and wait for the object at address 100, task 2 with the higher priority.\<close>

definition demo_blocked :: kernel where
  "demo_blocked = demo_start\<lparr>task_table := (\<lambda>i. \<lparr>t_pid = 0, t_flags = 0x900, t_rr_time = 0, t_timer = 0\<rparr>),
     sched_table := (\<lambda>i. idle_entry\<lparr>st_block_object := Addr 100, st_sched_priority := int i,
       st_priority := int i, st_wake_sec := SEC_INVALID, st_flags := 0x20\<rparr>)\<rparr>"

end
