(* ===== verification/Sched.thy ===== *)
theory Sched
  imports Kernel
begin

section \<open>The scheduler (sys/sched)\<close>

text \<open>
  The priority scheduler of \<open>sched.c\<close>: it marks as executing exactly the runnable tasks of the
  highest priority, and the context switcher of \<open>hwpl/core_cm3/task.c\<close> shares the processor among
  those. The priorities are \<open>int\<close> as the code compares them; \<open>sched_current_priority\<close> is an \<open>int8_t\<close>
  and the store converts. \<open>SCHED_LOWEST_PRIORITY\<close> is 0 and \<open>SCHED_HIGHEST_PRIORITY\<close> 31
  (\<open>src/CoActionOS/src/config.h\<close>).
\<close>

abbreviation SCHED_LOWEST_PRIORITY :: int where "SCHED_LOWEST_PRIORITY \<equiv> 0"
abbreviation SCHED_HIGHEST_PRIORITY :: int where "SCHED_HIGHEST_PRIORITY \<equiv> 31"

subsection \<open>Definitions (sched.c)\<close>

definition sched_check_tid :: "'z kernel_scheme \<Rightarrow> nat \<Rightarrow> bool" where
  "sched_check_tid k tid = (tid < task_total k \<and> task_enabled k tid)"

definition priv_check_sleep_mode :: "'z kernel_scheme \<Rightarrow> bool" where
  "priv_check_sleep_mode k =
     (\<not> list_ex (\<lambda>i. task_enabled k i \<and> sched_active_asserted k i) [1..<task_total k])"

text \<open>The condition of both loops on the tables: enabled, active and not stopped.\<close>

definition runnable :: "'z kernel_scheme \<Rightarrow> nat \<Rightarrow> bool" where
  "runnable k i \<longleftrightarrow> task_enabled k i \<and> sched_active_asserted k i \<and> \<not> sched_stopped_asserted k i"

definition exec_update :: "'z kernel_scheme \<Rightarrow> nat \<Rightarrow> 'z kernel_scheme" where
  "exec_update k i =
     (if runnable k i \<and> sched_get_priority k i = sched_current_priority k
      then task_assert_exec i k else task_deassert_exec i k)"

definition sched_priv_update_on_wake :: "int \<Rightarrow> 'z kernel_scheme \<Rightarrow> 'z kernel_scheme" where
  "sched_priv_update_on_wake new_priority k =
     (if new_priority > sched_current_priority k then
        (let k1 = k\<lparr>sched_current_priority := to_i8 new_priority\<rparr>
         in task_priv_switch_context (foldl exec_update k1 [1..<task_total k1]))
      else if new_priority = sched_current_priority k then
        foldl exec_update k [1..<task_total k]
      else sched_priv_assert_status_change k)"

definition top_priority :: "'z kernel_scheme \<Rightarrow> int" where
  "top_priority k =
     foldl (\<lambda>p i. if runnable k i \<and> sched_get_priority k i > p then sched_get_priority k i else p)
       (SCHED_LOWEST_PRIORITY - 1) [1..<task_total k]"

definition sched_priv_update_on_stopped :: "'z kernel_scheme \<Rightarrow> 'z kernel_scheme" where
  "sched_priv_update_on_stopped k =
     (let k1 = k\<lparr>sched_current_priority := SCHED_LOWEST_PRIORITY - 1\<rparr>;
          new_priority = top_priority k1
      in if new_priority \<ge> SCHED_LOWEST_PRIORITY then sched_priv_update_on_wake new_priority k1
         else task_priv_switch_context k1)"

definition sched_priv_update_on_sleep :: "'z kernel_scheme \<Rightarrow> 'z kernel_scheme" where
  "sched_priv_update_on_sleep k = sched_priv_update_on_stopped (sched_priv_deassert_active (task_current k) k)"

text \<open>A task that waits for \<open>obj\<close>; the searches below start at task 1 and \<open>None\<close> is the \<open>-1\<close> of the code.\<close>

definition blocked_on :: "'z kernel_scheme \<Rightarrow> ptr \<Rightarrow> nat \<Rightarrow> bool" where
  "blocked_on k obj i \<longleftrightarrow> task_enabled k i \<and> st_block_object (sched_table k i) = obj
     \<and> \<not> sched_active_asserted k i"

definition sched_get_highest_priority_blocked :: "ptr \<Rightarrow> 'z kernel_scheme \<Rightarrow> nat option" where
  "sched_get_highest_priority_blocked obj k =
     fst (foldl (\<lambda>(new_thread, priority) i.
            if blocked_on k obj i \<and> st_sched_priority (sched_table k i) > priority
            then (Some i, st_sched_priority (sched_table k i)) else (new_thread, priority))
          (None, SCHED_LOWEST_PRIORITY - 1) [1..<task_total k])"

definition sched_priv_unblock_all :: "ptr \<Rightarrow> unblock_type \<Rightarrow> 'z kernel_scheme \<Rightarrow> int \<times> 'z kernel_scheme" where
  "sched_priv_unblock_all obj ty k =
     foldl (\<lambda>(priority, k) i.
         if blocked_on k obj i
         then (max priority (st_sched_priority (sched_table k i)), sched_priv_assert_active i ty k)
         else (priority, k))
       (SCHED_LOWEST_PRIORITY - 1, k) [1..<task_total k]"

subsection \<open>Reading the tables after an update\<close>

lemma upd_task_sel [simp]:
  "task_total (upd_task i f k) = task_total k" "task_current (upd_task i f k) = task_current k"
  "sched_table (upd_task i f k) = sched_table k"
  "sched_current_priority (upd_task i f k) = sched_current_priority k"
  "task_table (upd_task i f k) j = (if j = i then f (task_table k i) else task_table k j)"
  by (simp_all add: upd_task_def)

lemma upd_sched_sel [simp]:
  "task_total (upd_sched i f k) = task_total k" "task_current (upd_sched i f k) = task_current k"
  "task_table (upd_sched i f k) = task_table k"
  "sched_current_priority (upd_sched i f k) = sched_current_priority k"
  "sched_table (upd_sched i f k) j = (if j = i then f (sched_table k i) else sched_table k j)"
  by (simp_all add: upd_sched_def)

lemma upd_sched_task [simp]:
  "task_exec_asserted (upd_sched i f k) j = task_exec_asserted k j"
  "task_enabled (upd_sched i f k) j = task_enabled k j"
  "task_get_pid (upd_sched i f k) j = task_get_pid k j"
  "task_isfifo_asserted (upd_sched i f k) j = task_isfifo_asserted k j"
  "pendsv (upd_sched i f k) = pendsv k"
  by (simp_all add: task_exec_asserted_def task_enabled_def task_get_pid_def task_isfifo_asserted_def upd_sched_def)

lemma switch_sel [simp]:
  "task_total (task_priv_switch_context k) = task_total k"
  "task_current (task_priv_switch_context k) = task_current k"
  "sched_table (task_priv_switch_context k) = sched_table k"
  "sched_current_priority (task_priv_switch_context k) = sched_current_priority k"
  "t_flags (task_table (task_priv_switch_context k) j) = t_flags (task_table k j)"
  "t_pid (task_table (task_priv_switch_context k) j) = t_pid (task_table k j)"
  "pendsv (task_priv_switch_context k)"
  by (simp_all add: task_priv_switch_context_def)

lemma status_change_sel [simp]:
  "task_total (sched_priv_assert_status_change k) = task_total k"
  "task_current (sched_priv_assert_status_change k) = task_current k"
  "sched_table (sched_priv_assert_status_change k) = sched_table k"
  "task_table (sched_priv_assert_status_change k) = task_table k"
  "sched_current_priority (sched_priv_assert_status_change k) = sched_current_priority k"
  by (simp_all add: sched_priv_assert_status_change_def)

text \<open>
  Everything the scheduler's decisions depend on is read from the flags and priorities: two states
  that agree on them are equally \<open>runnable\<close>.
\<close>

lemma runnable_cong:
  "t_flags (task_table k i) = t_flags (task_table k' i) \<Longrightarrow> sched_table k i = sched_table k' i
    \<Longrightarrow> runnable k i = runnable k' i"
  by (simp add: runnable_def task_enabled_def sched_asserted_def)

lemma exec_assert [simp]:
  "task_exec_asserted (task_assert_exec i k) j = (j = i \<or> task_exec_asserted k j)"
  "task_exec_asserted (task_deassert_exec i k) j = (j \<noteq> i \<and> task_exec_asserted k j)"
  "task_enabled (task_assert_exec i k) j = task_enabled k j"
  "task_enabled (task_deassert_exec i k) j = task_enabled k j"
  by (auto simp: task_exec_asserted_def task_assert_exec_def task_deassert_exec_def task_enabled_def)

lemma exec_sel [simp]:
  "task_total (task_assert_exec i k) = task_total k" "task_total (task_deassert_exec i k) = task_total k"
  "task_current (task_assert_exec i k) = task_current k" "task_current (task_deassert_exec i k) = task_current k"
  "sched_table (task_assert_exec i k) = sched_table k" "sched_table (task_deassert_exec i k) = sched_table k"
  "sched_current_priority (task_assert_exec i k) = sched_current_priority k"
  "sched_current_priority (task_deassert_exec i k) = sched_current_priority k"
  by (simp_all add: task_assert_exec_def task_deassert_exec_def)

lemma asserted_sel [simp]:
  "sched_asserted f (task_assert_exec i k) j = sched_asserted f k j"
  "sched_asserted f (task_deassert_exec i k) j = sched_asserted f k j"
  "sched_asserted f (task_priv_switch_context k) j = sched_asserted f k j"
  "sched_asserted f (sched_priv_assert_status_change k) j = sched_asserted f k j"
  "sched_get_priority (task_assert_exec i k) j = sched_get_priority k j"
  "sched_get_priority (task_deassert_exec i k) j = sched_get_priority k j"
  "sched_get_priority (task_priv_switch_context k) j = sched_get_priority k j"
  "sched_get_priority (sched_priv_assert_status_change k) j = sched_get_priority k j"
  "task_exec_asserted (task_priv_switch_context k) j = task_exec_asserted k j"
  "task_exec_asserted (sched_priv_assert_status_change k) j = task_exec_asserted k j"
  "task_enabled (task_priv_switch_context k) j = task_enabled k j"
  "task_enabled (sched_priv_assert_status_change k) j = task_enabled k j"
  by (simp_all add: sched_asserted_def sched_get_priority_def task_exec_asserted_def task_enabled_def)

lemma runnable_sel [simp]:
  "runnable (task_assert_exec i k) j = runnable k j" "runnable (task_deassert_exec i k) j = runnable k j"
  "runnable (task_priv_switch_context k) j = runnable k j"
  "runnable (sched_priv_assert_status_change k) j = runnable k j"
  by (simp_all add: runnable_def)

lemma cur_prio_sel [simp]:
  "runnable (k\<lparr>sched_current_priority := p\<rparr>) j = runnable k j"
  "sched_get_priority (k\<lparr>sched_current_priority := p\<rparr>) j = sched_get_priority k j"
  "task_exec_asserted (k\<lparr>sched_current_priority := p\<rparr>) j = task_exec_asserted k j"
  by (simp_all add: runnable_def sched_asserted_def sched_get_priority_def task_exec_asserted_def task_enabled_def)

lemma exec_update_sel [simp]:
  "task_total (exec_update k i) = task_total k" "task_current (exec_update k i) = task_current k"
  "sched_table (exec_update k i) = sched_table k"
  "sched_current_priority (exec_update k i) = sched_current_priority k"
  "sched_get_priority (exec_update k i) j = sched_get_priority k j"
  "runnable (exec_update k i) j = runnable k j"
  "task_exec_asserted (exec_update k i) j =
     (if j = i then runnable k i \<and> sched_get_priority k i = sched_current_priority k
      else task_exec_asserted k j)"
  by (auto simp: exec_update_def)

lemma exec_updates_sel [simp]:
  "task_total (foldl exec_update k is) = task_total k" "task_current (foldl exec_update k is) = task_current k"
  "sched_table (foldl exec_update k is) = sched_table k"
  "sched_current_priority (foldl exec_update k is) = sched_current_priority k"
  "sched_get_priority (foldl exec_update k is) j = sched_get_priority k j"
  "runnable (foldl exec_update k is) j = runnable k j"
  "task_exec_asserted (foldl exec_update k is) j =
     (if j \<in> set is then runnable k j \<and> sched_get_priority k j = sched_current_priority k
      else task_exec_asserted k j)"
  by (induction "is" arbitrary: k) auto

subsection \<open>The searches\<close>

lemma top_priority_scan:
  "top_priority k = scan_max (runnable k) (sched_get_priority k) (-1) [1..<task_total k]"
  by (simp add: top_priority_def scan_max_def)

lemma top_priority_upper:
  "runnable k i \<Longrightarrow> 1 \<le> i \<Longrightarrow> i < task_total k \<Longrightarrow> sched_get_priority k i \<le> top_priority k"
  using scan_max_spec [of "[1..<task_total k]" "runnable k" "sched_get_priority k" "-1"]
  by (auto simp: top_priority_scan)

lemma top_priority_cases:
  obtains "top_priority k = -1" | i where "1 \<le> i" "i < task_total k" "runnable k i"
    "sched_get_priority k i = top_priority k"
  using scan_max_spec [of "[1..<task_total k]" "runnable k" "sched_get_priority k" "-1"]
  by (auto simp: top_priority_scan)

lemma top_priority_ge: "-1 \<le> top_priority k"
  using scan_max_spec [of "[1..<task_total k]" "runnable k" "sched_get_priority k" "-1"]
  by (simp add: top_priority_scan)

lemma top_priority_cong:
  assumes "task_total k = task_total k'" and "\<And>i. runnable k i = runnable k' i"
    and "\<And>i. runnable k' i \<Longrightarrow> sched_get_priority k i = sched_get_priority k' i"
  shows "top_priority k = top_priority k'"
  unfolding top_priority_scan assms(1) by (rule scan_max_cong) (use assms in auto)

lemma highest_blocked_scan:
  "sched_get_highest_priority_blocked obj k =
     fst (scan_first (blocked_on k obj) (\<lambda>i. st_sched_priority (sched_table k i)) (-1) [1..<task_total k])"
  by (simp add: sched_get_highest_priority_blocked_def scan_first_def)

subsection \<open>The scheduling invariant\<close>

text \<open>
  Priorities stay in the range of the policies (and so in that of \<open>int8_t\<close>). The scheduler is in
  order when the priority it executes is the highest of a runnable task (-1 when there is none) and
  the executing tasks are exactly the runnable ones of this priority. The processor is in order
  when, unless a switch is pending, it executes one of them or the scheduler's own task 0.
\<close>

definition prios_ok :: "'z kernel_scheme \<Rightarrow> bool" where
  "prios_ok k \<longleftrightarrow> (\<forall>i\<in>{1..<task_total k}. 0 \<le> sched_get_priority k i \<and> sched_get_priority k i < 128)"

definition exec_ok :: "'z kernel_scheme \<Rightarrow> bool" where
  "exec_ok k \<longleftrightarrow> (\<forall>i\<in>{1..<task_total k}. task_exec_asserted k i
     \<longleftrightarrow> runnable k i \<and> sched_get_priority k i = sched_current_priority k)"

definition sched_ok :: "'z kernel_scheme \<Rightarrow> bool" where
  "sched_ok k \<longleftrightarrow> prios_ok k \<and> sched_current_priority k = top_priority k \<and> exec_ok k"

definition cpu_ok :: "'z kernel_scheme \<Rightarrow> bool" where
  "cpu_ok k \<longleftrightarrow> task_current k < task_total k
     \<and> (pendsv k \<or> task_current k = 0 \<or> task_exec_asserted k (task_current k))"

lemma prios_okD:
  "prios_ok k \<Longrightarrow> 1 \<le> i \<Longrightarrow> i < task_total k \<Longrightarrow> 0 \<le> sched_get_priority k i \<and> sched_get_priority k i < 128"
  by (simp add: prios_ok_def)

lemma top_priority_bound: "prios_ok k \<Longrightarrow> top_priority k < 128"
  by (cases k rule: top_priority_cases) (use prios_okD in fastforce)+

lemma top_priority_none:
  "prios_ok k \<Longrightarrow> top_priority k = -1 \<Longrightarrow> 1 \<le> i \<Longrightarrow> i < task_total k \<Longrightarrow> \<not> runnable k i"
  using top_priority_upper [of k i] prios_okD [of k i] by linarith

text \<open>
  \<open>sched_priv_update_on_wake\<close> restores the invariant when the priority it is given accounts for the
  difference between the current priority and the highest runnable one.
\<close>

lemma update_on_wake_sel [simp]:
  "task_total (sched_priv_update_on_wake p k) = task_total k"
  "task_current (sched_priv_update_on_wake p k) = task_current k"
  "sched_table (sched_priv_update_on_wake p k) = sched_table k"
  "runnable (sched_priv_update_on_wake p k) i = runnable k i"
  "sched_get_priority (sched_priv_update_on_wake p k) i = sched_get_priority k i"
  by (auto simp: sched_priv_update_on_wake_def Let_def)

lemma update_on_wake_top [simp]: "top_priority (sched_priv_update_on_wake p k) = top_priority k"
  by (rule top_priority_cong) simp_all

lemma update_on_wake_ok:
  assumes "prios_ok k" and top: "top_priority k = max (sched_current_priority k) p"
    and low: "p < sched_current_priority k \<Longrightarrow> exec_ok k"
  shows "sched_ok (sched_priv_update_on_wake p k)"
proof -
  have "top_priority k < 128" using assms(1) by (rule top_priority_bound)
  then have p: "to_i8 p = p" if "p > sched_current_priority k"
    using that top top_priority_ge [of k] by simp
  have "prios_ok (sched_priv_update_on_wake p k)"
    using assms(1) by (simp add: prios_ok_def)
  moreover have "sched_current_priority (sched_priv_update_on_wake p k) = top_priority k"
    using top p by (auto simp: sched_priv_update_on_wake_def Let_def)
  moreover have "exec_ok (sched_priv_update_on_wake p k)"
    using low p by (auto simp: exec_ok_def sched_priv_update_on_wake_def Let_def)
  ultimately show ?thesis by (simp add: sched_ok_def)
qed

lemma exec_updates_pend [simp]: "pendsv (foldl exec_update k is) = pendsv k"
  by (induction "is" arbitrary: k) (auto simp: exec_update_def task_assert_exec_def
    task_deassert_exec_def upd_task_def)

lemma update_on_wake_cpu:
  assumes "cpu_ok k" and "\<not> pendsv k \<Longrightarrow> task_current k \<noteq> 0
    \<Longrightarrow> runnable k (task_current k) \<and> sched_get_priority k (task_current k) = sched_current_priority k"
  shows "cpu_ok (sched_priv_update_on_wake p k)"
proof -
  have "pendsv (sched_priv_assert_status_change k) = pendsv k"
    by (simp add: sched_priv_assert_status_change_def)
  then show ?thesis using assms
    by (auto simp: cpu_ok_def sched_priv_update_on_wake_def Let_def)
qed

lemma running_runnable:
  "sched_ok k \<Longrightarrow> cpu_ok k \<Longrightarrow> \<not> pendsv k \<Longrightarrow> task_current k \<noteq> 0
    \<Longrightarrow> runnable k (task_current k) \<and> sched_get_priority k (task_current k) = sched_current_priority k"
  by (auto simp: sched_ok_def cpu_ok_def exec_ok_def)

lemma update_on_stopped_sel [simp]:
  "task_total (sched_priv_update_on_stopped k) = task_total k"
  "task_current (sched_priv_update_on_stopped k) = task_current k"
  "sched_table (sched_priv_update_on_stopped k) = sched_table k"
  "runnable (sched_priv_update_on_stopped k) i = runnable k i"
  "sched_get_priority (sched_priv_update_on_stopped k) i = sched_get_priority k i"
  by (auto simp: sched_priv_update_on_stopped_def Let_def)

lemma update_on_stopped_pend: "pendsv (sched_priv_update_on_stopped k)"
  by (auto simp: sched_priv_update_on_stopped_def sched_priv_update_on_wake_def Let_def)

lemma update_on_stopped_ok:
  assumes "prios_ok k"
    and idle: "\<And>i. 1 \<le> i \<Longrightarrow> i < task_total k \<Longrightarrow> task_exec_asserted k i \<Longrightarrow> top_priority k = -1 \<Longrightarrow> False"
  shows "sched_ok (sched_priv_update_on_stopped k)"
proof -
  let ?k = "k\<lparr>sched_current_priority := -1\<rparr>"
  have top: "top_priority ?k = top_priority k" by (rule top_priority_cong) simp_all
  have pr: "prios_ok ?k" using assms(1) by (simp add: prios_ok_def)
  show ?thesis
  proof (cases "top_priority k \<ge> 0")
    case True
    have "sched_ok (sched_priv_update_on_wake (top_priority k) ?k)"
      by (rule update_on_wake_ok [OF pr]) (use top True in auto)
    then show ?thesis using True top by (simp add: sched_priv_update_on_stopped_def Let_def)
  next
    case False
    then have t: "top_priority k = -1" using top_priority_ge [of k] by simp
    have none: "\<not> runnable k i" if "1 \<le> i" "i < task_total k" for i
      using top_priority_none [OF assms(1) t] that by blast
    let ?r = "task_priv_switch_context ?k"
    have "top_priority ?r = -1" using t top by (subst top_priority_cong [of _ k]) simp_all
    moreover have "exec_ok ?r"
      using idle t none by (auto simp: exec_ok_def)
    ultimately have "sched_ok ?r" using assms(1) by (simp add: sched_ok_def prios_ok_def)
    then show ?thesis using False top by (simp add: sched_priv_update_on_stopped_def Let_def)
  qed
qed

subsection \<open>Waking and blocking one task\<close>

lemma unblock_code_bit: "4 \<le> n \<Longrightarrow> \<not> bit (unblock_code ty) n"
proof -
  have "unblock_code ty = take_bit 4 (unblock_code ty)" by (cases ty) (simp_all add: take_bit_eq_mask mask_eq_exp_minus_1)
  then show "4 \<le> n \<Longrightarrow> \<not> bit (unblock_code ty) n" by (metis bit_take_bit_iff not_le)
qed

lemma bit_unblock_mask: "bit UNBLOCK_MASK n \<longleftrightarrow> n < 4"
proof -
  have "UNBLOCK_MASK = mask 4" by (simp add: mask_eq_exp_minus_1 UNBLOCK_MASK_def)
  then have "bit UNBLOCK_MASK n = bit (mask 4 :: u16) n" by (rule arg_cong)
  also have "\<dots> \<longleftrightarrow> n < 4" unfolding bit_mask_iff by auto
  finally show ?thesis .
qed

lemma bit_unblock_set:
  "bit ((f AND NOT UNBLOCK_MASK) OR unblock_code ty :: u16) n \<longleftrightarrow> (if n < 4 then bit (unblock_code ty) n else bit f n)"
proof (cases "n < 4")
  case True
  then show ?thesis by (auto simp: bit_or_iff bit_and_iff bit_not_iff bit_unblock_mask)
next
  case False
  then show ?thesis using unblock_code_bit [of n ty] bit_imp_le_length [of f n]
    by (auto simp: bit_or_iff bit_and_iff bit_not_iff bit_unblock_mask)
qed

lemma unblock_get: "((f AND NOT UNBLOCK_MASK) OR unblock_code ty :: u16) AND UNBLOCK_MASK = unblock_code ty"
  by (rule bit_eqI) (use unblock_code_bit in \<open>auto simp: bit_unblock_set bit_and_iff bit_unblock_mask\<close>)

lemma unblock_get_aio:
  "flag_clear ((f AND NOT UNBLOCK_MASK) OR unblock_code ty :: u16) SCHED_AIOSUSPEND AND UNBLOCK_MASK = unblock_code ty"
  by (rule bit_eqI) (use unblock_code_bit in \<open>auto simp: bit_unblock_set bit_and_iff bit_unblock_mask\<close>)

lemma assert_active_sel [simp]:
  "task_total (sched_priv_assert_active i ty k) = task_total k"
  "task_current (sched_priv_assert_active i ty k) = task_current k"
  "task_table (sched_priv_assert_active i ty k) = task_table k"
  "sched_current_priority (sched_priv_assert_active i ty k) = sched_current_priority k"
  "pendsv (sched_priv_assert_active i ty k) = pendsv k"
  "st_priority (sched_table (sched_priv_assert_active i ty k) j) = st_priority (sched_table k j)"
  "st_sched_priority (sched_table (sched_priv_assert_active i ty k) j) = st_sched_priority (sched_table k j)"
  "st_block_object (sched_table (sched_priv_assert_active i ty k) j)
     = (if j = i then Null else st_block_object (sched_table k j))"
  "j \<noteq> i \<Longrightarrow> sched_table (sched_priv_assert_active i ty k) j = sched_table k j"
  by (simp_all add: sched_priv_assert_active_def sched_priv_assert_def sched_priv_set_unblock_type_def
    sched_priv_deassert_def Let_def)

lemma assert_active_asserted [simp]:
  "sched_asserted f (sched_priv_assert_active i ty k) j =
     (if j = i \<and> f < 16 then (if f < 4 then bit (unblock_code ty) f else if f = SCHED_ACTIVE then True
        else if f = SCHED_AIOSUSPEND then False else sched_asserted f k i)
      else sched_asserted f k j)"
  using bit_imp_le_length [of "st_flags (sched_table k i)" f] unblock_code_bit [of f ty]
  by (auto simp: sched_priv_assert_active_def sched_priv_assert_def sched_priv_set_unblock_type_def
    sched_priv_deassert_def Let_def sched_asserted_def bit_unblock_set)

lemma assert_active_unblock [simp]:
  "sched_get_unblock_type (sched_priv_assert_active i ty k) i = unblock_code ty"
  by (simp add: sched_get_unblock_type_def sched_priv_assert_active_def sched_priv_assert_def
    sched_priv_set_unblock_type_def sched_priv_deassert_def Let_def unblock_get_aio)

lemma assert_active_runnable [simp]:
  "runnable (sched_priv_assert_active i ty k) j =
     (if j = i then task_enabled k i \<and> \<not> sched_stopped_asserted k i else runnable k j)"
  "sched_get_priority (sched_priv_assert_active i ty k) j = sched_get_priority k j"
  "task_exec_asserted (sched_priv_assert_active i ty k) j = task_exec_asserted k j"
  "task_enabled (sched_priv_assert_active i ty k) j = task_enabled k j"
  by (auto simp: runnable_def sched_get_priority_def task_exec_asserted_def task_enabled_def)

text \<open>Waking a task that is not stopped, and rescheduling for its priority, keeps the invariant.\<close>

lemma wake_top_priority:
  assumes "1 \<le> i" "i < task_total k" "task_enabled k i" "\<not> sched_stopped_asserted k i"
  shows "top_priority (sched_priv_assert_active i ty k) = max (top_priority k) (sched_get_priority k i)"
  unfolding top_priority_scan [of "sched_priv_assert_active i ty k"]
proof (rule scan_max_unique)
  let ?k = "sched_priv_assert_active i ty k"
  show "sched_get_priority ?k j \<le> max (top_priority k) (sched_get_priority k i)"
    if "j \<in> set [1..<task_total ?k]" "runnable ?k j" for j
    using that top_priority_upper [of k j] by (auto split: if_splits)
  show "- 1 \<le> max (top_priority k) (sched_get_priority k i)" using top_priority_ge [of k] by simp
  show "max (top_priority k) (sched_get_priority k i) = - 1 \<or>
    (\<exists>j\<in>set [1..<task_total ?k]. runnable ?k j \<and> sched_get_priority ?k j = max (top_priority k) (sched_get_priority k i))"
  proof (cases "sched_get_priority k i \<ge> top_priority k")
    case True
    then show ?thesis using assms by (intro disjI2 bexI [of _ i]) auto
  next
    case False
    show ?thesis
    proof (cases k rule: top_priority_cases)
      case 1
      then show ?thesis using False by simp
    next
      case (2 j)
      then show ?thesis using False assms(3,4) by (intro disjI2 bexI [of _ j]) auto
    qed
  qed
qed

lemma wake_ok:
  assumes ok: "sched_ok k" and i: "1 \<le> i" "i < task_total k" "task_enabled k i" "\<not> sched_stopped_asserted k i"
  shows "sched_ok (sched_priv_update_on_wake (sched_get_priority k i) (sched_priv_assert_active i ty k))"
proof (rule update_on_wake_ok)
  let ?k = "sched_priv_assert_active i ty k"
  show "prios_ok ?k" using ok by (simp add: sched_ok_def prios_ok_def)
  show "top_priority ?k = max (sched_current_priority ?k) (sched_get_priority k i)"
    using wake_top_priority [OF i] ok by (simp add: sched_ok_def)
  show "exec_ok ?k" if "sched_get_priority k i < sched_current_priority ?k"
    using ok that by (auto simp: exec_ok_def sched_ok_def runnable_def)
qed

lemma deassert_active_sel [simp]:
  "task_total (sched_priv_deassert_active i k) = task_total k"
  "task_current (sched_priv_deassert_active i k) = task_current k"
  "sched_current_priority (sched_priv_deassert_active i k) = sched_current_priority k"
  "sched_get_priority (sched_priv_deassert_active i k) j = sched_get_priority k j"
  "task_exec_asserted (sched_priv_deassert_active i k) j = (j \<noteq> i \<and> task_exec_asserted k j)"
  "task_enabled (sched_priv_deassert_active i k) j = task_enabled k j"
  "runnable (sched_priv_deassert_active i k) j = (j \<noteq> i \<and> runnable k j)"
  "st_block_object (sched_table (sched_priv_deassert_active i k) j) = st_block_object (sched_table k j)"
  "st_sched_priority (sched_table (sched_priv_deassert_active i k) j) = st_sched_priority (sched_table k j)"
  "sched_asserted f (sched_priv_deassert_active i k) j = (sched_asserted f k j \<and> (j \<noteq> i \<or> f \<noteq> SCHED_ACTIVE))"
  by (auto simp: sched_priv_deassert_active_def sched_priv_deassert_def sched_get_priority_def runnable_def
    sched_asserted_def task_enabled_def task_exec_asserted_def task_deassert_exec_def)

lemma sleep_ok:
  assumes "prios_ok k" and ok: "exec_ok k" and "1 \<le> task_current k"
  shows "sched_ok (sched_priv_update_on_sleep k)"
  unfolding sched_priv_update_on_sleep_def
proof (rule update_on_stopped_ok)
  let ?k = "sched_priv_deassert_active (task_current k) k"
  show pr: "prios_ok ?k" using assms(1) by (simp add: prios_ok_def)
  fix i assume i: "1 \<le> i" "i < task_total ?k" "task_exec_asserted ?k i" "top_priority ?k = -1"
  then have "runnable ?k i" using ok by (auto simp: exec_ok_def)
  with top_priority_none [OF pr i(4,1,2)] show False by blast
qed

subsection \<open>Waking a set of tasks\<close>

text \<open>
  The interrupt handlers and broadcasts wake every task of a table scan that meets a condition on
  its own entry. \<open>wake_set\<close> is what these loops compute.
\<close>

definition wake_set :: "(nat \<Rightarrow> bool) \<Rightarrow> unblock_type \<Rightarrow> nat list \<Rightarrow> 'z kernel_scheme \<Rightarrow> 'z kernel_scheme" where
  "wake_set P ty is k = foldl (\<lambda>k i. if P i then sched_priv_assert_active i ty k else k) k is"

lemma wake_set_Nil [simp]: "wake_set P ty [] k = k"
  and wake_set_Cons [simp]:
    "wake_set P ty (i # is) k = wake_set P ty is (if P i then sched_priv_assert_active i ty k else k)"
  by (simp_all add: wake_set_def)

lemma wake_set_cong: "(\<And>i. i \<in> set is \<Longrightarrow> P i = Q i) \<Longrightarrow> wake_set P ty is k = wake_set Q ty is k"
  by (induction "is" arbitrary: k) auto

lemma wake_set_sel [simp]:
  "task_total (wake_set P ty is k) = task_total k" "task_current (wake_set P ty is k) = task_current k"
  "task_table (wake_set P ty is k) = task_table k" "pendsv (wake_set P ty is k) = pendsv k"
  "sched_current_priority (wake_set P ty is k) = sched_current_priority k"
  "sched_get_priority (wake_set P ty is k) j = sched_get_priority k j"
  "task_exec_asserted (wake_set P ty is k) j = task_exec_asserted k j"
  "task_enabled (wake_set P ty is k) j = task_enabled k j"
  "st_sched_priority (sched_table (wake_set P ty is k) j) = st_sched_priority (sched_table k j)"
  by (induction "is" arbitrary: k) auto

lemma wake_set_stopped [simp]:
  "sched_stopped_asserted (wake_set P ty is k) j = sched_stopped_asserted k j"
  by (induction "is" arbitrary: k) auto

lemma wake_set_runnable [simp]:
  "runnable (wake_set P ty is k) j =
     (if j \<in> set is \<and> P j then task_enabled k j \<and> \<not> sched_stopped_asserted k j else runnable k j)"
  by (induction "is" arbitrary: k) (auto simp: runnable_def)

lemma wake_set_other: "\<not> (j \<in> set is \<and> P j) \<Longrightarrow> sched_table (wake_set P ty is k) j = sched_table k j"
proof (induction "is" arbitrary: k)
  case (Cons i "is")
  then show ?case by (cases "P i"; cases "i = j") auto
qed simp

lemma wake_set_woken:
  "j \<in> set is \<Longrightarrow> P j \<Longrightarrow> sched_active_asserted (wake_set P ty is k) j
     \<and> sched_get_unblock_type (wake_set P ty is k) j = unblock_code ty
     \<and> st_block_object (sched_table (wake_set P ty is k) j) = Null"
proof (induction "is" arbitrary: k)
  case (Cons i "is")
  show ?case
  proof (cases "j \<in> set is")
    case True
    then show ?thesis using Cons by simp
  next
    case False
    then have "j = i" using Cons.prems by simp
    moreover from False have "sched_table (wake_set P ty is (sched_priv_assert_active i ty k)) j
        = sched_table (sched_priv_assert_active i ty k) j"
      by (intro wake_set_other) simp
    ultimately show ?thesis
      using Cons.prems assert_active_unblock [of i ty k] assert_active_asserted [of SCHED_ACTIVE i ty k i]
        assert_active_sel(8) [of i ty k i]
      by (simp add: sched_asserted_def sched_get_unblock_type_def)
  qed
qed simp

lemma wake_set_top:
  assumes "\<And>i. 1 \<le> i \<Longrightarrow> i < task_total k \<Longrightarrow> P i \<Longrightarrow> task_enabled k i \<and> \<not> sched_stopped_asserted k i"
  shows "top_priority (wake_set P ty [1..<task_total k] k)
    = max (top_priority k) (scan_max P (sched_get_priority k) (-1) [1..<task_total k])"
proof -
  let ?xs = "[1..<task_total k]" and ?k = "wake_set P ty [1..<task_total k] k"
  let ?p = "scan_max P (sched_get_priority k) (-1) [1..<task_total k]"
  note p = scan_max_spec [of ?xs P "sched_get_priority k" "-1"]
  have "scan_max (runnable ?k) (sched_get_priority ?k) (-1) ?xs = max (top_priority k) ?p"
  proof (rule scan_max_unique)
    fix i assume i: "i \<in> set ?xs" "runnable ?k i"
    show "sched_get_priority ?k i \<le> max (top_priority k) ?p"
    proof (cases "P i")
      case True
      then show ?thesis using p i by (metis le_max_iff_disj wake_set_sel(6))
    next
      case False
      then show ?thesis using i top_priority_upper [of k i] by auto
    qed
  next
    show "-1 \<le> max (top_priority k) ?p" using top_priority_ge [of k] by simp
    show "max (top_priority k) ?p = -1 \<or>
      (\<exists>i\<in>set ?xs. runnable ?k i \<and> sched_get_priority ?k i = max (top_priority k) ?p)"
    proof (cases "?p \<ge> top_priority k")
      case True
      then show ?thesis using p assms by (auto simp: max_def)
    next
      case False
      show ?thesis
      proof (cases k rule: top_priority_cases)
        case 1
        then show ?thesis using False p by simp
      next
        case (2 j)
        then have "runnable ?k j" using assms by auto
        then show ?thesis using 2 False by (intro disjI2 bexI [of _ j]) auto
      qed
    qed
  qed
  then show ?thesis by (simp add: top_priority_scan)
qed

lemma wake_set_ok:
  assumes ok: "sched_ok k"
    and P: "\<And>i. 1 \<le> i \<Longrightarrow> i < task_total k \<Longrightarrow> P i
      \<Longrightarrow> task_enabled k i \<and> \<not> sched_stopped_asserted k i"
    and p: "p = scan_max P (sched_get_priority k) (-1) [1..<task_total k]"
  shows "sched_ok (sched_priv_update_on_wake p (wake_set P ty [1..<task_total k] k))"
proof (rule update_on_wake_ok)
  let ?k = "wake_set P ty [1..<task_total k] k"
  show "prios_ok ?k" using ok by (simp add: sched_ok_def prios_ok_def)
  show "top_priority ?k = max (sched_current_priority ?k) p"
    using wake_set_top [of k P ty] P ok p by (auto simp: sched_ok_def)
  assume low: "p < sched_current_priority ?k"
  have "sched_get_priority k i \<le> p" if "1 \<le> i" "i < task_total k" "P i" for i
    using scan_max_spec [of "[1..<task_total k]" P "sched_get_priority k" "-1"] that p by auto
  then have "runnable ?k i \<and> sched_get_priority k i = sched_current_priority k
      \<longleftrightarrow> runnable k i \<and> sched_get_priority k i = sched_current_priority k"
    if "1 \<le> i" "i < task_total k" for i
    using that low P [of i] by (cases "P i") fastforce+
  then show "exec_ok ?k" using ok by (simp add: exec_ok_def sched_ok_def)
qed

text \<open>The scans that wake the tasks of a set and compute their highest priority on the way.\<close>

lemma wake_fold:
  assumes Q: "\<And>k i j. i \<noteq> j \<Longrightarrow> Q (sched_priv_assert_active i ty k) j = Q k j"
    and f: "\<And>k i j. f (sched_priv_assert_active i ty k) j = f k j"
    and "distinct is"
  shows "foldl (\<lambda>(p, k) i. if Q k i then (if f k i > p then f k i else p, sched_priv_assert_active i ty k) else (p, k)) (p, k) is
     = (scan_max (Q k) (f k) p is, wake_set (Q k) ty is k)"
  using assms(3)
proof (induction "is" arbitrary: p k)
  case Nil
  then show ?case by (simp add: scan_max_def)
next
  case (Cons i "is")
  let ?k = "sched_priv_assert_active i ty k"
  have ne: "Q ?k j = Q k j" if "j \<in> set is" for j using that Cons.prems by (intro Q) auto
  have fe: "f ?k = f k" using f by (intro ext)
  have "scan_max (Q ?k) (f k) q is = scan_max (Q k) (f k) q is" for q
    by (rule scan_max_cong) (use ne in auto)
  moreover have "wake_set (Q ?k) ty is ?k = wake_set (Q k) ty is ?k"
    by (rule wake_set_cong) (use ne in auto)
  ultimately show ?case using Cons by (simp add: fe)
qed

lemma blocked_on_other:
  "i \<noteq> j \<Longrightarrow> blocked_on (sched_priv_assert_active i ty k) obj j = blocked_on k obj j"
  by (simp add: blocked_on_def)

lemma unblock_all_eq:
  "sched_priv_unblock_all obj ty k =
     (scan_max (blocked_on k obj) (\<lambda>i. st_sched_priority (sched_table k i)) (-1) [1..<task_total k],
      wake_set (blocked_on k obj) ty [1..<task_total k] k)"
proof -
  have m: "max p x = (if x > p then x else p)" for p x :: int by simp
  have Q: "blocked_on (sched_priv_assert_active i ty k) obj j = blocked_on k obj j" if "i \<noteq> j" for k :: "'a kernel_scheme" and i j
    using that by (rule blocked_on_other)
  have "foldl (\<lambda>(p, k) i. if blocked_on k obj i
         then (if st_sched_priority (sched_table k i) > p then st_sched_priority (sched_table k i) else p,
               sched_priv_assert_active i ty k) else (p, k)) (-1, k) [1..<task_total k]
     = (scan_max (blocked_on k obj) (\<lambda>i. st_sched_priority (sched_table k i)) (-1) [1..<task_total k],
      wake_set (blocked_on k obj) ty [1..<task_total k] k)"
    by (rule wake_fold [where Q = "\<lambda>k. blocked_on k obj" and f = "\<lambda>k i. st_sched_priority (sched_table k i)"])
      (simp_all add: Q)
  then show ?thesis by (simp add: sched_priv_unblock_all_def m cong: if_cong)
qed

text \<open>The clock is changed by none of the scheduler's operations.\<close>

lemma clock_upd [simp]:
  "usecond_counter (upd_task i f k) = usecond_counter k"
  "tmr_val (upd_task i f k) = tmr_val k"
  "tmr_oc (upd_task i f k) = tmr_oc k"
  "usecond_counter (upd_sched i g k) = usecond_counter k"
  "tmr_val (upd_sched i g k) = tmr_val k"
  "tmr_oc (upd_sched i g k) = tmr_oc k"
  by (simp_all add: upd_task_def upd_sched_def)

lemma clock_exec [simp]:
  "usecond_counter (exec_update k i) = usecond_counter k"
  "tmr_val (exec_update k i) = tmr_val k"
  "tmr_oc (exec_update k i) = tmr_oc k"
  "usecond_counter (task_priv_switch_context k) = usecond_counter k"
  "tmr_val (task_priv_switch_context k) = tmr_val k"
  "tmr_oc (task_priv_switch_context k) = tmr_oc k"
  "usecond_counter (sched_priv_assert_status_change k) = usecond_counter k"
  "tmr_val (sched_priv_assert_status_change k) = tmr_val k"
  "tmr_oc (sched_priv_assert_status_change k) = tmr_oc k"
  by (simp_all add: exec_update_def task_assert_exec_def task_deassert_exec_def task_priv_switch_context_def
    sched_priv_assert_status_change_def)

lemma clock_execs [simp]:
  "usecond_counter (foldl exec_update k is) = usecond_counter k"
  "tmr_val (foldl exec_update k is) = tmr_val k"
  "tmr_oc (foldl exec_update k is) = tmr_oc k"
  by (induction "is" arbitrary: k) simp_all

lemma clock_wake [simp]:
  "usecond_counter (sched_priv_update_on_wake p k) = usecond_counter k"
  "tmr_val (sched_priv_update_on_wake p k) = tmr_val k"
  "tmr_oc (sched_priv_update_on_wake p k) = tmr_oc k"
  by (simp_all add: sched_priv_update_on_wake_def Let_def)

lemma clock_stopped [simp]:
  "usecond_counter (sched_priv_update_on_stopped k) = usecond_counter k"
  "tmr_val (sched_priv_update_on_stopped k) = tmr_val k"
  "tmr_oc (sched_priv_update_on_stopped k) = tmr_oc k"
  by (simp_all add: sched_priv_update_on_stopped_def Let_def)

lemma clock_active [simp]:
  "usecond_counter (sched_priv_assert_active i ty k) = usecond_counter k"
  "tmr_val (sched_priv_assert_active i ty k) = tmr_val k"
  "tmr_oc (sched_priv_assert_active i ty k) = tmr_oc k"
  "usecond_counter (sched_priv_deassert_active i k) = usecond_counter k"
  "tmr_val (sched_priv_deassert_active i k) = tmr_val k"
  "tmr_oc (sched_priv_deassert_active i k) = tmr_oc k"
  by (simp_all add: sched_priv_assert_active_def sched_priv_assert_def sched_priv_set_unblock_type_def
    sched_priv_deassert_def sched_priv_deassert_active_def task_deassert_exec_def Let_def)

lemma enabled_execs [simp]:
  "task_enabled (exec_update k i) j = task_enabled k j"
  by (simp add: exec_update_def)

lemma enabled_fold [simp]: "task_enabled (foldl exec_update k is) j = task_enabled k j"
  by (induction "is" arbitrary: k) simp_all

lemma enabled_cur [simp]: "task_enabled (k\<lparr>sched_current_priority := p\<rparr>) j = task_enabled k j"
  by (simp add: task_enabled_def)

lemma enabled_wake [simp]: "task_enabled (sched_priv_update_on_wake p k) j = task_enabled k j"
  by (simp add: sched_priv_update_on_wake_def Let_def)

lemma enabled_stopped [simp]: "task_enabled (sched_priv_update_on_stopped k) j = task_enabled k j"
  by (simp add: sched_priv_update_on_stopped_def Let_def)

subsection \<open>Properties\<close>

lemma find_upt_Some:
  "find P [a..<b] = Some n \<Longrightarrow> a \<le> n \<and> n < b \<and> P n \<and> (\<forall>i\<in>{a..<b}. P i \<longrightarrow> n \<le> i)"
proof -
  assume "find P [a..<b] = Some n"
  then obtain j where j: "j < b - a" "P (a + j)" "n = a + j" "\<forall>l<j. \<not> P (a + l)"
    by (auto simp: find_Some_iff nth_upt)
  have "n \<le> i" if "a \<le> i" "P i" for i
  proof (rule ccontr)
    assume "\<not> n \<le> i"
    then have "i - a < j" "a + (i - a) = i" using j(3) that(1) by auto
    then show False using j(4) that(2) by metis
  qed
  then show ?thesis using j by auto
qed

text \<open>
  when an object becomes free, the task chosen to get it waits for it, has the highest base
  priority of all tasks that wait for it, and the lowest number among those; no task is chosen only
  when none waits (with a priority that is not negative).
\<close>

theorem highest_priority_blocked_choice:
  "case sched_get_highest_priority_blocked obj k of
     None \<Rightarrow> \<forall>i\<in>{1..<task_total k}. blocked_on k obj i \<longrightarrow> st_sched_priority (sched_table k i) < 0
   | Some n \<Rightarrow> n \<in> {1..<task_total k} \<and> blocked_on k obj n
       \<and> (\<forall>i\<in>{1..<task_total k}. blocked_on k obj i \<longrightarrow>
            st_sched_priority (sched_table k i) < st_sched_priority (sched_table k n)
            \<or> st_sched_priority (sched_table k i) = st_sched_priority (sched_table k n) \<and> n \<le> i)"
proof -
  let ?f = "\<lambda>i. st_sched_priority (sched_table k i)" and ?B = "blocked_on k obj" and ?xs = "[1..<task_total k]"
  let ?m = "scan_max ?B ?f (-1) ?xs"
  note m = scan_max_spec [of ?xs ?B ?f "-1"]
  have r: "sched_get_highest_priority_blocked obj k = (if ?m = -1 then None else find (\<lambda>i. ?B i \<and> ?f i = ?m) ?xs)"
    by (simp add: highest_blocked_scan scan_first_spec)
  show ?thesis
  proof (cases "?m = -1")
    case True
    then show ?thesis using m by (auto simp: r)
  next
    case False
    then obtain n where "find (\<lambda>i. ?B i \<and> ?f i = ?m) ?xs = Some n"
      using m by (cases "find (\<lambda>i. ?B i \<and> ?f i = ?m) ?xs") (auto simp: find_None_iff)
    moreover note find_upt_Some [OF this]
    ultimately show ?thesis using False m by (fastforce simp: r)
  qed
qed

theorem highest_priority_blocked_choice_witness:
  "sched_get_highest_priority_blocked (Addr 100) demo_blocked = Some 2"
proof -
  have b: "blocked_on demo_blocked (Addr 100) i" and p: "st_sched_priority (sched_table demo_blocked i) = int i"
    and t: "task_total demo_blocked = 3" for i
    by (simp_all add: blocked_on_def demo_blocked_def demo_start_def idle_entry_def task_enabled_def sched_asserted_def)
  have "{1..<3} = {1, 2 :: nat}" by auto
  then show ?thesis
    using highest_priority_blocked_choice [where obj = "Addr 100" and k = demo_blocked] b
    by (cases "sched_get_highest_priority_blocked (Addr 100) demo_blocked") (auto simp: p t)
qed

end
