(* ===== verification/Timing.thy ===== *)
theory Timing
  imports Sched "HOL-Library.Signed_Division"
begin

section \<open>Timed blocking (sys/sched/sched_timing.c, unistd/sleep.c, unistd/usleep.c)\<close>

text \<open>
  Time is a pair: \<open>usecond_counter\<close> counts periods of 2048 seconds and the microsecond timer counts
  within the period. A task that blocks with a deadline stores it in its \<open>wake\<close> field; the timer
  interrupt \<open>priv_usecond_match_event\<close> wakes the tasks whose deadline is reached and programs the
  next one. The timer is stopped while either code reads and programs it, so one value of the
  timer (\<open>tmr_val\<close>) is read in each.
\<close>

type_synonym sched_timeval = "u32 \<times> u32"

abbreviation PERIOD_USEC :: nat where "PERIOD_USEC \<equiv> 2048000000"

text \<open>
  Block on \<open>obj\<close> (\<open>NULL\<close> for a plain sleep) until \<open>abs_time\<close>: \<open>timedblock_prepare\<close> stores the object and
  the deadline and yields whether the timer will wake the task.
\<close>

definition timedblock_prepare :: "ptr \<Rightarrow> sched_timeval \<Rightarrow> 'z kernel_scheme \<Rightarrow> bool \<times> 'z kernel_scheme" where
  "timedblock_prepare obj abs_time k =
     (let me = task_current k;
          k1 = upd_sched me (\<lambda>t. t\<lparr>st_block_object := obj\<rparr>) k
      in if fst abs_time \<ge> usecond_counter k1 then
           (let k2 = upd_sched me (\<lambda>t. t\<lparr>st_wake_sec := fst abs_time, st_wake_usec := snd abs_time\<rparr>) k1 in
            if fst abs_time = usecond_counter k1 then
              (let oc = (if snd abs_time < tmr_oc k2 then snd abs_time else tmr_oc k2) in
               if snd abs_time > tmr_val k2 + 40
               then (True, k2\<lparr>tmr_oc := oc, tmr_on := True\<rparr>)
               else (False, k2\<lparr>tmr_on := True\<rparr>))
            else (True, k2))
         else (False, k1))"

definition sched_priv_timedblock :: "ptr \<Rightarrow> sched_timeval \<Rightarrow> 'z kernel_scheme \<Rightarrow> 'z kernel_scheme" where
  "sched_priv_timedblock obj abs_time k =
     (case timedblock_prepare obj abs_time k of (time_sleep, k2) \<Rightarrow>
        if obj = Null \<and> \<not> time_sleep then k2 else sched_priv_update_on_sleep k2)"

definition sched_convert_timespec :: "(int \<times> int) option \<Rightarrow> sched_timeval" where
  "sched_convert_timespec ts =
     (case ts of
        None \<Rightarrow> (SEC_INVALID, 0)
      | Some (sec, nsec) \<Rightarrow> (word_of_int (sec sdiv 2048), word_of_int (sec smod 2048 * 1000000 + (nsec + 500) sdiv 1000)))"

definition sched_priv_get_realtime :: "'z kernel_scheme \<Rightarrow> sched_timeval" where
  "sched_priv_get_realtime k = (usecond_counter k, tmr_val k)"

text \<open>One task of the scan of \<open>priv_usecond_match_event\<close>.\<close>

definition wake_due :: "'z kernel_scheme \<Rightarrow> u32 \<Rightarrow> nat \<Rightarrow> bool" where
  "wake_due k current_match i \<longleftrightarrow>
     st_wake_sec (sched_table k i) < usecond_counter k
     \<or> st_wake_sec (sched_table k i) = usecond_counter k \<and> st_wake_usec (sched_table k i) \<le> current_match"

definition match_task :: "u32 \<Rightarrow> int \<times> u32 \<times> 'z kernel_scheme \<Rightarrow> nat \<Rightarrow> int \<times> u32 \<times> 'z kernel_scheme" where
  "match_task current_match st i =
     (case st of (new_priority, next, k) \<Rightarrow>
        if task_enabled k i \<and> \<not> sched_active_asserted k i then
          (if wake_due k current_match i then
             (let k1 = sched_priv_assert_active i UNBLOCK_SLEEP
                         (upd_sched i (\<lambda>t. t\<lparr>st_wake_sec := SEC_INVALID\<rparr>) k)
              in (if sched_get_priority k1 i > new_priority then sched_get_priority k1 i else new_priority,
                  next, k1))
           else if st_wake_sec (sched_table k i) = usecond_counter k \<and> st_wake_usec (sched_table k i) < next
           then (new_priority, st_wake_usec (sched_table k i), k)
           else (new_priority, next, k))
        else (new_priority, next, k))"

definition priv_usecond_match_event :: "'z kernel_scheme \<Rightarrow> 'z kernel_scheme" where
  "priv_usecond_match_event k =
     (case foldl (match_task (tmr_val k)) (SCHED_LOWEST_PRIORITY - 1, 2048000000, k\<lparr>tmr_on := False\<rparr>)
             [1..<task_total k] of
        (new_priority, next, k1) \<Rightarrow>
          (sched_priv_update_on_wake new_priority
             (k1\<lparr>tmr_oc := (if next < 2048000000 then next else 2048000001)\<rparr>))\<lparr>tmr_on := True\<rparr>)"

definition usecond_overflow_event :: "'z kernel_scheme \<Rightarrow> 'z kernel_scheme" where
  "usecond_overflow_event k = priv_usecond_match_event (k\<lparr>usecond_counter := usecond_counter k + 1\<rparr>)"

subsection \<open>sleep() and usleep()\<close>

definition sleep_interval :: "u32 \<Rightarrow> sched_timeval" where
  "sleep_interval seconds =
     (if seconds < 2048 then (0, seconds * 1000000) else (word_of_int (sint seconds sdiv 2048), word_of_int (sint seconds smod 2048)))"

definition sleep_deadline :: "sched_timeval \<Rightarrow> sched_timeval \<Rightarrow> sched_timeval" where
  "sleep_deadline now p =
     (let sec = fst now + fst p; usec = snd now + snd p
      in if usec > 2048000000 then (sec + 1, usec - 2048000000) else (sec, usec))"

definition priv_sleep :: "sched_timeval \<Rightarrow> 'z kernel_scheme \<Rightarrow> 'z kernel_scheme" where
  "priv_sleep p k = sched_priv_timedblock Null (sleep_deadline (sched_priv_get_realtime k) p) k"

definition sleep :: "u32 \<Rightarrow> 'z kernel_scheme \<Rightarrow> 'z kernel_scheme" where
  "sleep seconds k = (if task_current k \<noteq> 0 then priv_sleep (sleep_interval seconds) k else k)"

definition sched_useconds_to_clocks :: "u32 \<Rightarrow> u32 \<Rightarrow> u32" where
  "sched_useconds_to_clocks clk_usec_mult useconds = clk_usec_mult * useconds"

definition priv_usleep :: "u32 \<Rightarrow> 'z kernel_scheme \<Rightarrow> 'z kernel_scheme" where
  "priv_usleep useconds k = sched_priv_timedblock Null (sleep_deadline (sched_priv_get_realtime k) (0, useconds)) k"

text \<open>A short sleep, or one of task 0, is a delay loop and does not touch the kernel's state.\<close>

definition usleep :: "u32 \<Rightarrow> u32 \<Rightarrow> 'z kernel_scheme \<Rightarrow> (errno + int) \<times> 'z kernel_scheme" where
  "usleep clk_usec_mult useconds k =
     (if useconds = 0 then (Inr 0, k)
      else if useconds \<le> 1000000 then
        (let clocks = sched_useconds_to_clocks clk_usec_mult useconds;
             tmp = sched_useconds_to_clocks clk_usec_mult 1
         in if task_current k = 0 \<or> clocks < 8000 then (Inr 0, k)
            else (Inr 0, priv_usleep (useconds - 600 div tmp) k))
      else (Inl EINVAL, k))"

subsection \<open>Conversions\<close>

definition usecs :: "sched_timeval \<Rightarrow> nat" where
  "usecs tv = unat (fst tv) * PERIOD_USEC + unat (snd tv)"

text \<open>A deadline built from a \<open>timespec\<close> is that time, rounded to microseconds.\<close>

lemma unat_word_of_int: "0 \<le> x \<Longrightarrow> x < 2 ^ 32 \<Longrightarrow> unat (word_of_int x :: u32) = nat x"
  by (simp add: unat_eq_nat_uint uint_word_of_int_eq take_bit_int_eq_self)

lemma convert_timespec_usecs:
  assumes "0 \<le> sec" "sec < 2 ^ 31" "0 \<le> nsec" "nsec < 1000000000"
  shows "int (usecs (sched_convert_timespec (Some (sec, nsec)))) = sec * 1000000 + (nsec + 500) div 1000"
    and "snd (sched_convert_timespec (Some (sec, nsec))) \<le> 2048000000"
proof -
  let ?u = "sec mod 2048 * 1000000 + (nsec + 500) div 1000"
  have q: "sec sdiv 2048 = sec div 2048" "sec smod 2048 = sec mod 2048"
    "(nsec + 500) sdiv 1000 = (nsec + 500) div 1000"
    using assms by (auto simp: signed_divide_int_def signed_modulo_int_def sgn_if)
  have r: "0 \<le> (nsec + 500) div 1000" "(nsec + 500) div 1000 \<le> 1000000" "sec mod 2048 \<le> 2047" "0 \<le> sec mod 2048"
    using assms by auto
  then have u: "0 \<le> ?u" "?u \<le> 2048000000" by auto
  have s: "0 \<le> sec div 2048" "sec div 2048 < 2 ^ 31" using assms by auto
  have s32: "sec div 2048 < 2 ^ 32" using s by simp
  have w1: "unat (word_of_int (sec div 2048) :: u32) = nat (sec div 2048)"
    by (rule unat_word_of_int [OF s(1) s32])
  have w2: "unat (word_of_int ?u :: u32) = nat ?u"
    by (rule unat_word_of_int [OF u(1)]) (use u(2) in simp)
  show "int (usecs (sched_convert_timespec (Some (sec, nsec)))) = sec * 1000000 + (nsec + 500) div 1000"
  proof -
    have "sec div 2048 * 2048000000 + sec mod 2048 * 1000000 = sec * 1000000"
      using mult_div_mod_eq [of 2048 sec] by linarith
    then show ?thesis using w1 w2 s u by (simp add: usecs_def sched_convert_timespec_def q)
  qed
  show "snd (sched_convert_timespec (Some (sec, nsec))) \<le> 2048000000"
  proof -
    have "nat ?u \<le> 2048000000" using u by linarith
    then show ?thesis using w2 by (simp add: sched_convert_timespec_def q word_le_nat_alt)
  qed
qed

subsection \<open>What the timer interrupt wakes\<close>

definition due :: "'z kernel_scheme \<Rightarrow> u32 \<Rightarrow> nat \<Rightarrow> bool" where
  "due k m i \<longleftrightarrow> task_enabled k i \<and> \<not> sched_active_asserted k i \<and> wake_due k m i"

text \<open>The earliest deadline of the current period among the tasks that stay asleep.\<close>

definition later :: "'z kernel_scheme \<Rightarrow> u32 \<Rightarrow> nat \<Rightarrow> bool" where
  "later k m i \<longleftrightarrow> task_enabled k i \<and> \<not> sched_active_asserted k i \<and> \<not> wake_due k m i
     \<and> st_wake_sec (sched_table k i) = usecond_counter k"

definition next_deadline :: "'z kernel_scheme \<Rightarrow> u32 \<Rightarrow> u32 \<Rightarrow> nat list \<Rightarrow> u32" where
  "next_deadline k m b is =
     foldl (\<lambda>n i. if later k m i \<and> st_wake_usec (sched_table k i) < n then st_wake_usec (sched_table k i) else n) b is"

lemma wake_sec_redundant:
  "sched_priv_assert_active i ty (upd_sched i (\<lambda>t. t\<lparr>st_wake_sec := s\<rparr>) k) = sched_priv_assert_active i ty k"
  by (simp add: sched_priv_assert_active_def sched_priv_assert_def sched_priv_set_unblock_type_def
    sched_priv_deassert_def upd_sched_def Let_def)

lemma match_fold:
  "distinct is \<Longrightarrow> foldl (match_task m) (p, n, k) is =
     (scan_max (due k m) (sched_get_priority k) p is, next_deadline k m n is, wake_set (due k m) UNBLOCK_SLEEP is k)"
proof (induction "is" arbitrary: p n k)
  case Nil
  then show ?case by (simp add: scan_max_def next_deadline_def)
next
  case (Cons i "is")
  let ?k = "sched_priv_assert_active i UNBLOCK_SLEEP k"
  have same: "due ?k m j = due k m j" "later ?k m j = later k m j" "sched_table ?k j = sched_table k j"
    if "j \<in> set is" for j
  proof -
    have "i \<noteq> j" using that Cons.prems by auto
    then show "due ?k m j = due k m j" "later ?k m j = later k m j" "sched_table ?k j = sched_table k j"
      by (auto simp: due_def later_def wake_due_def)
  qed
  have pr: "sched_get_priority ?k = sched_get_priority k" by (rule ext) simp
  have sm: "scan_max (due ?k m) (sched_get_priority k) q is = scan_max (due k m) (sched_get_priority k) q is" for q
    by (rule scan_max_cong) (use same in auto)
  have nd: "next_deadline ?k m b is = next_deadline k m b is" for b
    unfolding next_deadline_def using same
    by (intro foldl_cong) (auto simp del: assert_active_sel)
  have ws: "wake_set (due ?k m) UNBLOCK_SLEEP is ?k = wake_set (due k m) UNBLOCK_SLEEP is ?k"
    by (rule wake_set_cong) (use same in auto)
  have d: "distinct is" using Cons.prems by simp
  show ?case
  proof (cases "due k m i")
    case True
    then have "match_task m (p, n, k) i
        = (if sched_get_priority k i > p then sched_get_priority k i else p, n, ?k)"
      by (auto simp: match_task_def due_def wake_sec_redundant Let_def)
    moreover have "\<not> later k m i" using True by (simp add: due_def later_def)
    then have "next_deadline k m n (i # is) = next_deadline k m n is" by (simp add: next_deadline_def)
    moreover have "scan_max (due k m) (sched_get_priority k) p (i # is)
        = scan_max (due k m) (sched_get_priority k) (if sched_get_priority k i > p then sched_get_priority k i else p) is"
      using True by (simp add: scan_max_def)
    ultimately show ?thesis
      using Cons.IH [OF d] True by (simp add: pr sm nd ws)
  next
    case False
    then have "match_task m (p, n, k) i
        = (p, if later k m i \<and> st_wake_usec (sched_table k i) < n then st_wake_usec (sched_table k i) else n, k)"
      by (auto simp: match_task_def due_def later_def)
    then show ?thesis
      using Cons.IH [OF d] False by (simp add: scan_max_def next_deadline_def)
  qed
qed

lemma match_event_eq:
  "priv_usecond_match_event k =
     (let is = [1..<task_total k]; k0 = k\<lparr>tmr_on := False\<rparr>; next = next_deadline k0 (tmr_val k) 2048000000 is
      in (sched_priv_update_on_wake (scan_max (due k0 (tmr_val k)) (sched_get_priority k0) (-1) is)
           ((wake_set (due k0 (tmr_val k)) UNBLOCK_SLEEP is k0)
              \<lparr>tmr_oc := (if next < 2048000000 then next else 2048000001)\<rparr>))\<lparr>tmr_on := True\<rparr>)"
  by (simp add: priv_usecond_match_event_def match_fold Let_def)

subsection \<open>Effects on the scheduling invariant\<close>

lemma clock_fields [simp]:
  "runnable (k\<lparr>tmr_on := b\<rparr>) i = runnable k i" "runnable (k\<lparr>tmr_oc := v\<rparr>) i = runnable k i"
  "runnable (k\<lparr>usecond_counter := c\<rparr>) i = runnable k i"
  "sched_get_priority (k\<lparr>tmr_on := b\<rparr>) i = sched_get_priority k i"
  "sched_get_priority (k\<lparr>tmr_oc := v\<rparr>) i = sched_get_priority k i"
  "sched_get_priority (k\<lparr>usecond_counter := c\<rparr>) i = sched_get_priority k i"
  "task_exec_asserted (k\<lparr>tmr_on := b\<rparr>) i = task_exec_asserted k i"
  "task_exec_asserted (k\<lparr>tmr_oc := v\<rparr>) i = task_exec_asserted k i"
  "task_exec_asserted (k\<lparr>usecond_counter := c\<rparr>) i = task_exec_asserted k i"
  "task_enabled (k\<lparr>tmr_on := b\<rparr>) i = task_enabled k i"
  "task_enabled (k\<lparr>usecond_counter := c\<rparr>) i = task_enabled k i"
  "sched_asserted f (k\<lparr>tmr_on := b\<rparr>) i = sched_asserted f k i"
  "sched_asserted f (k\<lparr>tmr_oc := v\<rparr>) i = sched_asserted f k i"
  "task_enabled (k\<lparr>tmr_oc := v\<rparr>) i = task_enabled k i"
  "sched_asserted f (k\<lparr>usecond_counter := c\<rparr>) i = sched_asserted f k i"
  by (simp_all add: runnable_def sched_get_priority_def task_exec_asserted_def task_enabled_def sched_asserted_def)

text \<open>The invariant reads only what the scheduler decides on.\<close>

lemma sched_ok_cong:
  assumes "task_total k' = task_total k" "sched_current_priority k' = sched_current_priority k"
    and "\<And>i. runnable k' i = runnable k i" "\<And>i. sched_get_priority k' i = sched_get_priority k i"
    and "\<And>i. task_exec_asserted k' i = task_exec_asserted k i"
  shows "sched_ok k' = sched_ok k"
proof -
  have "top_priority k' = top_priority k" by (rule top_priority_cong) (use assms in auto)
  then show ?thesis using assms by (simp add: sched_ok_def prios_ok_def exec_ok_def)
qed

lemma due_on [simp]: "due (k\<lparr>tmr_on := b\<rparr>) m = due k m"
  by (rule ext) (simp add: due_def wake_due_def)

lemma match_event_ok:
  assumes ok: "sched_ok k"
    and ns: "\<And>i. 1 \<le> i \<Longrightarrow> i < task_total k \<Longrightarrow> due k (tmr_val k) i \<Longrightarrow> \<not> sched_stopped_asserted k i"
  shows "sched_ok (priv_usecond_match_event k)"
proof -
  let ?k0 = "k\<lparr>tmr_on := False\<rparr>" and ?is = "[1..<task_total k]"
  let ?w = "wake_set (due k (tmr_val k)) UNBLOCK_SLEEP ?is ?k0"
  let ?p = "scan_max (due k (tmr_val k)) (sched_get_priority k) (-1) ?is"
  have ok0: "sched_ok ?k0" using ok by (subst sched_ok_cong [of _ k]) simp_all
  have pe: "sched_get_priority ?k0 = sched_get_priority k" by (rule ext) simp
  have w: "sched_ok (sched_priv_update_on_wake ?p ?w)"
    using wake_set_ok [OF ok0, of "due k (tmr_val k)" ?p UNBLOCK_SLEEP] ns
    by (auto simp: pe due_def)
  obtain v where e: "priv_usecond_match_event k = (sched_priv_update_on_wake ?p (?w\<lparr>tmr_oc := v\<rparr>))\<lparr>tmr_on := True\<rparr>"
    by (simp add: match_event_eq Let_def pe)
  have top: "top_priority ?w = max (sched_current_priority ?w) ?p"
    using wake_set_top [of ?k0 "due k (tmr_val k)" UNBLOCK_SLEEP] ns ok0 by (auto simp: pe due_def sched_ok_def)
  have "sched_ok (sched_priv_update_on_wake ?p (?w\<lparr>tmr_oc := v\<rparr>))"
  proof (rule update_on_wake_ok)
    show "prios_ok (?w\<lparr>tmr_oc := v\<rparr>)" using ok by (simp add: sched_ok_def prios_ok_def)
    have "top_priority (?w\<lparr>tmr_oc := v\<rparr>) = top_priority ?w" by (rule top_priority_cong) simp_all
    then show "top_priority (?w\<lparr>tmr_oc := v\<rparr>) = max (sched_current_priority (?w\<lparr>tmr_oc := v\<rparr>)) ?p"
      using top by simp
    assume "?p < sched_current_priority (?w\<lparr>tmr_oc := v\<rparr>)"
    then have "sched_priv_update_on_wake ?p ?w = sched_priv_assert_status_change ?w"
      by (simp add: sched_priv_update_on_wake_def)
    then show "exec_ok (?w\<lparr>tmr_oc := v\<rparr>)" using w by (simp add: sched_ok_def exec_ok_def)
  qed
  then show ?thesis unfolding e by (subst sched_ok_cong) simp_all
qed

lemma prepare_sel [simp]:
  "task_total (snd (timedblock_prepare obj tv k)) = task_total k"
  "task_current (snd (timedblock_prepare obj tv k)) = task_current k"
  "task_table (snd (timedblock_prepare obj tv k)) = task_table k"
  "sched_current_priority (snd (timedblock_prepare obj tv k)) = sched_current_priority k"
  "pendsv (snd (timedblock_prepare obj tv k)) = pendsv k"
  "usecond_counter (snd (timedblock_prepare obj tv k)) = usecond_counter k"
  "j \<noteq> task_current k \<Longrightarrow> sched_table (snd (timedblock_prepare obj tv k)) j = sched_table k j"
  "st_flags (sched_table (snd (timedblock_prepare obj tv k)) j) = st_flags (sched_table k j)"
  "st_priority (sched_table (snd (timedblock_prepare obj tv k)) j) = st_priority (sched_table k j)"
  "st_block_object (sched_table (snd (timedblock_prepare obj tv k)) (task_current k)) = obj"
  by (simp_all add: timedblock_prepare_def Let_def upd_sched_def)

lemma prepare_same [simp]:
  "runnable (snd (timedblock_prepare obj tv k)) i = runnable k i"
  "sched_get_priority (snd (timedblock_prepare obj tv k)) i = sched_get_priority k i"
  "task_exec_asserted (snd (timedblock_prepare obj tv k)) i = task_exec_asserted k i"
  "task_enabled (snd (timedblock_prepare obj tv k)) i = task_enabled k i"
  by (simp_all add: runnable_def sched_get_priority_def task_exec_asserted_def task_enabled_def sched_asserted_def)

lemma timedblock_ok:
  assumes ok: "sched_ok k" and c: "1 \<le> task_current k"
  shows "sched_ok (sched_priv_timedblock obj tv k)"
proof -
  let ?k = "snd (timedblock_prepare obj tv k)"
  have "sched_ok ?k" using ok by (subst sched_ok_cong [of _ k]) simp_all
  moreover from this have "sched_ok (sched_priv_update_on_sleep ?k)"
    using sleep_ok [of ?k] c by (simp add: sched_ok_def)
  ultimately show ?thesis by (auto simp: sched_priv_timedblock_def split_beta)
qed

lemma next_deadline_Cons [simp]:
  "next_deadline k m b (i # is) =
     next_deadline k m (if later k m i \<and> st_wake_usec (sched_table k i) < b then st_wake_usec (sched_table k i) else b) is"
  and next_deadline_Nil [simp]: "next_deadline k m b [] = b"
  by (simp_all add: next_deadline_def)

lemma next_deadline_spec:
  "next_deadline k m b is \<le> b
   \<and> (\<forall>i\<in>set is. later k m i \<longrightarrow> next_deadline k m b is \<le> st_wake_usec (sched_table k i))
   \<and> (next_deadline k m b is = b
        \<or> (\<exists>i\<in>set is. later k m i \<and> next_deadline k m b is = st_wake_usec (sched_table k i)))"
proof (induction "is" arbitrary: b)
  case (Cons i "is")
  let ?b = "if later k m i \<and> st_wake_usec (sched_table k i) < b then st_wake_usec (sched_table k i) else b"
  obtain c where c: "c = ?b" by simp
  obtain n where n: "n = next_deadline k m c is" by simp
  have e: "next_deadline k m b (i # is) = n" using c n by simp
  have IH: "n \<le> c" "\<forall>i\<in>set is. later k m i \<longrightarrow> n \<le> st_wake_usec (sched_table k i)"
    "n = c \<or> (\<exists>i\<in>set is. later k m i \<and> n = st_wake_usec (sched_table k i))"
    using Cons [of c] n by auto
  have cb: "c \<le> b" using c by (simp add: less_imp_le)
  have ci: "later k m i \<Longrightarrow> c \<le> st_wake_usec (sched_table k i)" using c by (simp add: not_less)
  have cc: "c = b \<or> later k m i \<and> c = st_wake_usec (sched_table k i)" using c by auto
  have 1: "n \<le> b" using IH(1) cb by (rule order_trans)
  have 2: "later k m i \<Longrightarrow> n \<le> st_wake_usec (sched_table k i)" using IH(1) ci by (blast intro: order_trans)
  show ?case unfolding e using 1 2 IH(2,3) cc by auto
qed simp

lemma match_event_sel:
  fixes k :: "'z kernel_scheme"
  defines "next \<equiv> next_deadline k (tmr_val k) 2048000000 [1..<task_total k]"
  shows "sched_table (priv_usecond_match_event k)
      = sched_table (wake_set (due k (tmr_val k)) UNBLOCK_SLEEP [1..<task_total k] k)"
    and "tmr_oc (priv_usecond_match_event k) = (if next < 2048000000 then next else 2048000001)"
proof -
  have c: "sched_table (wake_set P ty is (k\<lparr>tmr_on := False\<rparr>)) = sched_table (wake_set P ty is k)" for P ty "is"
  proof -
    have g: "sched_table (wake_set P ty is k2) = sched_table (wake_set P ty is k1)"
      if "sched_table k2 = sched_table k1" for k1 k2 :: "'z kernel_scheme"
      using that
    proof (induction "is" arbitrary: k1 k2)
      case (Cons i "is")
      have a: "sched_table (sched_priv_assert_active i ty k2) = sched_table (sched_priv_assert_active i ty k1)"
        using Cons.prems by (simp add: sched_priv_assert_active_def sched_priv_assert_def
          sched_priv_set_unblock_type_def sched_priv_deassert_def upd_sched_def Let_def)
      show ?case using Cons.IH [OF a] Cons.IH [OF Cons.prems] by simp
    qed simp
    show ?thesis by (rule g) simp
  qed
  have l: "later (k\<lparr>tmr_on := False\<rparr>) m = later k m" for m
    by (rule ext) (simp add: later_def wake_due_def)
  have n: "next_deadline (k\<lparr>tmr_on := False\<rparr>) m b is = next_deadline k m b is" for m b "is"
    by (simp add: next_deadline_def l cong: if_cong)
  show "sched_table (priv_usecond_match_event k)
      = sched_table (wake_set (due k (tmr_val k)) UNBLOCK_SLEEP [1..<task_total k] k)"
    by (simp add: match_event_eq Let_def c)
  show "tmr_oc (priv_usecond_match_event k) = (if next < 2048000000 then next else 2048000001)"
    by (simp add: match_event_eq Let_def n next_def)
qed

lemma match_event_active:
  assumes "1 \<le> i" and "i < task_total k"
  shows "sched_active_asserted (priv_usecond_match_event k) i
    \<longleftrightarrow> sched_active_asserted k i \<or> due k (tmr_val k) i"
proof -
  have i: "i \<in> set [1..<task_total k]" using assms by simp
  show ?thesis
    using wake_set_woken [OF i, of "due k (tmr_val k)" UNBLOCK_SLEEP k]
      wake_set_other [of i "[1..<task_total k]" "due k (tmr_val k)" UNBLOCK_SLEEP k]
    by (cases "due k (tmr_val k) i") (auto simp: sched_asserted_def match_event_sel(1))
qed

subsection \<open>Properties\<close>

text \<open>
  C16: the timer interrupt wakes exactly the inactive tasks whose deadline is reached, as timed out,
  and leaves the entry of every other task alone; it programs the earliest deadline of the others
  in the current period, and one past the period when there is none.
\<close>

theorem timer_wakes_due_tasks:
  assumes "i \<in> {1..<task_total k}" and "k' = priv_usecond_match_event k"
  shows "(if task_enabled k i \<and> \<not> sched_active_asserted k i \<and> wake_due k (tmr_val k) i
      then sched_active_asserted k' i \<and> sched_get_unblock_type k' i = unblock_code UNBLOCK_SLEEP
         \<and> st_block_object (sched_table k' i) = Null
      else sched_table k' i = sched_table k i)
    \<and> (later k (tmr_val k) i \<and> st_wake_usec (sched_table k i) < 2048000000
         \<longrightarrow> tmr_oc k' \<le> st_wake_usec (sched_table k i))
    \<and> (tmr_oc k' = 2048000001 \<or> (\<exists>j\<in>{1..<task_total k}. later k (tmr_val k) j
         \<and> tmr_oc k' = st_wake_usec (sched_table k j)))"
proof -
  let ?xs = "[1..<task_total k]" and ?D = "due k (tmr_val k)"
  note t = match_event_sel [of k, folded assms(2)]
  note n = next_deadline_spec [of k "tmr_val k" 2048000000 ?xs]
  have i: "i \<in> set ?xs" using assms(1) by simp
  have 1: "?D i \<Longrightarrow> sched_active_asserted k' i \<and> sched_get_unblock_type k' i = unblock_code UNBLOCK_SLEEP
         \<and> st_block_object (sched_table k' i) = Null"
    using wake_set_woken [OF i, of ?D UNBLOCK_SLEEP k] by (simp add: sched_asserted_def sched_get_unblock_type_def t(1))
  have 2: "\<not> ?D i \<Longrightarrow> sched_table k' i = sched_table k i"
    using wake_set_other [of i ?xs ?D UNBLOCK_SLEEP k] by (simp add: t(1))
  have 3: "later k (tmr_val k) i \<and> st_wake_usec (sched_table k i) < 2048000000
         \<longrightarrow> tmr_oc k' \<le> st_wake_usec (sched_table k i)"
    using n i by (auto simp: t(2) dest: le_less_trans)
  have 4: "tmr_oc k' = 2048000001 \<or> (\<exists>j\<in>{1..<task_total k}. later k (tmr_val k) j
         \<and> tmr_oc k' = st_wake_usec (sched_table k j))"
    using n by (auto simp: t(2))
  show ?thesis using 1 2 3 4 by (auto simp: due_def)
qed

definition demo_asleep :: kernel where
  "demo_asleep = demo_blocked\<lparr>tmr_val := 500, sched_table := (\<lambda>i. (sched_table demo_blocked i)
     \<lparr>st_wake_sec := 0, st_wake_usec := of_nat (400 * i)\<rparr>)\<rparr>"

lemma demo_asleep_sel:
  "task_total demo_asleep = 3" "task_enabled demo_asleep i" "\<not> sched_active_asserted demo_asleep i"
  "usecond_counter demo_asleep = 0" "tmr_val demo_asleep = 500"
  "st_wake_sec (sched_table demo_asleep i) = 0" "st_wake_usec (sched_table demo_asleep i) = of_nat (400 * i)"
  by (simp_all add: demo_asleep_def demo_blocked_def demo_start_def task_enabled_def sched_asserted_def idle_entry_def)

theorem timer_wakes_due_tasks_witness:
  "sched_active_asserted (priv_usecond_match_event demo_asleep) 1
   \<and> sched_table (priv_usecond_match_event demo_asleep) 2 = sched_table demo_asleep 2
   \<and> tmr_oc (priv_usecond_match_event demo_asleep) \<le> 800"
  using timer_wakes_due_tasks [of 1 demo_asleep, OF _ refl] timer_wakes_due_tasks [of 2 demo_asleep, OF _ refl]
  by (simp add: demo_asleep_sel wake_due_def later_def)

lemma usecs_mono:
  "unat (snd a) < PERIOD_USEC \<Longrightarrow> unat (snd b) < PERIOD_USEC \<Longrightarrow> usecs a \<le> usecs b
    \<longleftrightarrow> fst a < fst b \<or> fst a = fst b \<and> snd a \<le> snd b"
proof -
  assume a: "unat (snd a) < PERIOD_USEC" "unat (snd b) < PERIOD_USEC"
  consider "unat (fst a) < unat (fst b)" | "unat (fst a) = unat (fst b)" | "unat (fst b) < unat (fst a)" by linarith
  then show ?thesis
  proof cases
    case 1
    then have "unat (fst a) * PERIOD_USEC + PERIOD_USEC \<le> unat (fst b) * PERIOD_USEC" by simp
    then have "usecs a \<le> usecs b" using a by (simp add: usecs_def)
    then show ?thesis using 1 by (simp add: word_less_nat_alt)
  next
    case 2
    then show ?thesis by (simp add: usecs_def word_le_nat_alt word_less_nat_alt word_unat_eq_iff)
  next
    case 3
    then have "unat (fst b) * PERIOD_USEC + PERIOD_USEC \<le> unat (fst a) * PERIOD_USEC" by simp
    then have "\<not> usecs a \<le> usecs b" using a by (simp add: usecs_def)
    then show ?thesis using 3 by (simp add: word_less_nat_alt word_unat_eq_iff)
  qed
qed

lemma sleep_sel:
  assumes c: "1 \<le> task_current k"
  shows "sched_table (sched_priv_update_on_sleep k) (task_current k)
      = sched_table (sched_priv_deassert_active (task_current k) k) (task_current k)"
    and "task_total (sched_priv_update_on_sleep k) = task_total k"
    and "task_enabled (sched_priv_update_on_sleep k) i = task_enabled k i"
proof -
  show "sched_table (sched_priv_update_on_sleep k) (task_current k)
      = sched_table (sched_priv_deassert_active (task_current k) k) (task_current k)"
    by (simp add: sched_priv_update_on_sleep_def)
  show "task_total (sched_priv_update_on_sleep k) = task_total k" by (simp add: sched_priv_update_on_sleep_def)
  show "task_enabled (sched_priv_update_on_sleep k) i = task_enabled k i"
    by (simp add: sched_priv_update_on_sleep_def)
qed

text \<open>
  a task that blocks with a deadline in the future sleeps, and the timer interrupt at any
  later time wakes it, if nothing else has, exactly when this time is at or after the deadline.
\<close>

theorem timed_sleep_wakes_on_time:
  fixes k :: "'z kernel_scheme"
  assumes c: "1 \<le> task_current k" "task_current k < task_total k" "task_enabled k (task_current k)"
    and future: "fst deadline > usecond_counter k
      \<or> fst deadline = usecond_counter k \<and> snd deadline > tmr_val k + 40"
    and bounds: "unat (snd deadline) < PERIOD_USEC" "unat (snd now) < PERIOD_USEC"
    and later: "k' = (sched_priv_timedblock obj deadline k)\<lparr>usecond_counter := fst now, tmr_val := snd now\<rparr>"
  shows "\<not> sched_active_asserted k' (task_current k)
    \<and> (sched_active_asserted (priv_usecond_match_event k') (task_current k) \<longleftrightarrow> usecs deadline \<le> usecs now)"
proof -
  let ?me = "task_current k" and ?p = "snd (timedblock_prepare obj deadline k)"
  have f: "fst (timedblock_prepare obj deadline k)"
    using future by (auto simp: timedblock_prepare_def Let_def)
  have tb: "sched_priv_timedblock obj deadline k = sched_priv_update_on_sleep ?p"
    using f by (simp add: sched_priv_timedblock_def split_beta)
  have w: "st_wake_sec (sched_table ?p ?me) = fst deadline" "st_wake_usec (sched_table ?p ?me) = snd deadline"
    using future by (auto simp: timedblock_prepare_def Let_def)
  have d: "sched_table k' ?me = sched_table (sched_priv_deassert_active ?me ?p) ?me"
    using sleep_sel(1) [of ?p] c(1) by (simp add: later tb)
  have wake: "st_wake_sec (sched_table k' ?me) = fst deadline" "st_wake_usec (sched_table k' ?me) = snd deadline"
    using w by (simp_all add: d sched_priv_deassert_active_def sched_priv_deassert_def)
  have off: "\<not> sched_active_asserted k' ?me"
    using deassert_active_sel(10) [of SCHED_ACTIVE ?me ?p ?me] by (simp add: sched_asserted_def d)
  have en: "task_enabled k' ?me" using c(3) sleep_sel(3) [of ?p] c(1) by (simp add: later tb) (simp add: task_enabled_def)
  have tot: "?me < task_total k'" using c sleep_sel(2) [of ?p] by (simp add: later tb)
  have "wake_due k' (tmr_val k') ?me \<longleftrightarrow> usecs deadline \<le> usecs now"
    using usecs_mono [OF bounds] by (auto simp: wake_due_def wake) (auto simp: later)
  then show ?thesis using off en match_event_active [OF c(1) tot] by (simp add: due_def)
qed

definition demo_running :: kernel where
  "demo_running = demo_blocked\<lparr>task_current := 1, tmr_val := 100,
     sched_table := (\<lambda>i. (sched_table demo_blocked i)\<lparr>st_flags := 0x30\<rparr>)\<rparr>"

lemma demo_running_sel:
  "task_current demo_running = 1" "task_total demo_running = 3" "task_enabled demo_running i"
  "usecond_counter demo_running = 0" "tmr_val demo_running = 100"
  "st_wake_sec (sched_table demo_running i) = SEC_INVALID"
  by (simp_all add: demo_running_def demo_blocked_def demo_start_def task_enabled_def idle_entry_def)

theorem timed_sleep_wakes_on_time_witness:
  "\<not> sched_active_asserted (priv_usecond_match_event
      ((sched_priv_timedblock Null (0, 500) demo_running)\<lparr>usecond_counter := 0, tmr_val := 499\<rparr>)) 1
   \<and> sched_active_asserted (priv_usecond_match_event
      ((sched_priv_timedblock Null (0, 500) demo_running)\<lparr>usecond_counter := 1, tmr_val := 3\<rparr>)) 1"
proof -
  have p: "1 \<le> task_current demo_running" "task_current demo_running < task_total demo_running"
    "task_enabled demo_running (task_current demo_running)"
    "fst (0 :: u32, 500 :: u32) > usecond_counter demo_running
      \<or> fst (0 :: u32, 500 :: u32) = usecond_counter demo_running \<and> snd (0 :: u32, 500 :: u32) > tmr_val demo_running + 40"
    by (simp_all add: demo_running_sel)
  show ?thesis
    using timed_sleep_wakes_on_time [OF p, of "(0, 499)" _ Null, OF _ _ refl]
      timed_sleep_wakes_on_time [OF p, of "(1, 3)" _ Null, OF _ _ refl]
    by (simp add: demo_running_sel usecs_def)
qed

text \<open>
  C17: a timed wait on an object whose deadline lies in an earlier period of the clock does not time
  out: the task blocks, its wake time is left as it was, and if that is the idle value (which every
  wake-up stores) no later timer interrupt wakes it.
\<close>

theorem expired_wait_never_times_out:
  fixes k :: "'z kernel_scheme"
  assumes c: "1 \<le> task_current k" "task_current k < task_total k"
    and past: "fst deadline < usecond_counter k" and obj: "obj \<noteq> Null"
    and idle: "st_wake_sec (sched_table k (task_current k)) = SEC_INVALID"
    and later: "k' = (sched_priv_timedblock obj deadline k)\<lparr>usecond_counter := fst now, tmr_val := snd now\<rparr>"
    and now: "fst now < SEC_INVALID"
  shows "\<not> sched_active_asserted (priv_usecond_match_event k') (task_current k)"
proof -
  let ?me = "task_current k" and ?p = "snd (timedblock_prepare obj deadline k)"
  have tb: "sched_priv_timedblock obj deadline k = sched_priv_update_on_sleep ?p"
    using obj by (simp add: sched_priv_timedblock_def split_beta)
  have w: "st_wake_sec (sched_table ?p ?me) = SEC_INVALID"
    using past idle by (auto simp: timedblock_prepare_def Let_def)
  have d: "sched_table k' ?me = sched_table (sched_priv_deassert_active ?me ?p) ?me"
    using sleep_sel(1) [of ?p] c(1) by (simp add: later tb)
  have wake: "st_wake_sec (sched_table k' ?me) = SEC_INVALID"
    using w by (simp add: d sched_priv_deassert_active_def sched_priv_deassert_def)
  have off: "\<not> sched_active_asserted k' ?me"
    using deassert_active_sel(10) [of SCHED_ACTIVE ?me ?p ?me] by (simp add: sched_asserted_def d)
  have tot: "?me < task_total k'" using c sleep_sel(2) [of ?p] by (simp add: later tb)
  have "usecond_counter k' = fst now" by (simp add: later)
  then have "\<not> wake_due k' (tmr_val k') ?me" using now wake by (auto simp: wake_due_def)
  then show ?thesis using off match_event_active [OF c(1) tot] by (simp add: due_def)
qed

theorem expired_wait_never_times_out_witness:
  "\<not> sched_active_asserted (priv_usecond_match_event
      ((sched_priv_timedblock (Addr 100) (0, 500) (demo_running\<lparr>usecond_counter := 1\<rparr>))
        \<lparr>usecond_counter := 7, tmr_val := 0\<rparr>)) 1"
proof -
  let ?k = "demo_running\<lparr>usecond_counter := 1\<rparr>"
  have "1 \<le> task_current ?k" "task_current ?k < task_total ?k" "fst (0 :: u32, 500 :: u32) < usecond_counter ?k"
    "Addr 100 \<noteq> Null" "st_wake_sec (sched_table ?k (task_current ?k)) = SEC_INVALID"
    by (simp_all add: demo_running_sel)
  from expired_wait_never_times_out [OF this refl, of "(7, 0)"] show ?thesis by (simp add: demo_running_sel)
qed

text \<open>
  a \<open>timespec\<close> with a second count below \<open>2^31\<close> becomes the clock value of the same time, rounded to
  the nearest microsecond, without overflow.
\<close>

theorem convert_timespec_exact:
  assumes "0 \<le> sec" and "sec < 2 ^ 31" and "0 \<le> nsec" and "nsec < 1000000000"
  shows "int (usecs (sched_convert_timespec (Some (sec, nsec)))) = sec * 1000000 + (nsec + 500) div 1000
    \<and> unat (snd (sched_convert_timespec (Some (sec, nsec)))) \<le> PERIOD_USEC"
  using convert_timespec_usecs [OF assms] by (simp add: word_le_nat_alt)

theorem convert_timespec_exact_witness:
  "usecs (sched_convert_timespec (Some (5000, 1999))) = 5000000002"
  using convert_timespec_exact [of 5000 1999] by simp

lemma sleep_deadline_usecs:
  assumes "unat (snd now) \<le> PERIOD_USEC" and "unat (snd p) < PERIOD_USEC"
    and "unat (fst now) + unat (fst p) + 1 < 2 ^ 32"
  shows "usecs (sleep_deadline now p) = usecs now + usecs p"
proof -
  have u: "unat (snd now + snd p) = unat (snd now) + unat (snd p)"
    using assms by (simp add: unat_plus_if_size word_size)
  have s: "unat (fst now + fst p) = unat (fst now) + unat (fst p)"
    using assms by (simp add: unat_plus_if_size word_size)
  have s1: "unat (fst now + fst p + 1) = unat (fst now) + unat (fst p) + 1"
    using assms s by (simp add: unat_plus_if_size [of "fst now + fst p"] word_size)
  have d: "unat (snd now + snd p - 2048000000) = unat (snd now) + unat (snd p) - 2048000000"
    if "2048000000 < snd now + snd p"
    using that u by (simp add: unat_sub word_less_nat_alt less_imp_le word_le_nat_alt)
  have g: "2048000000 < snd now + snd p \<longleftrightarrow> 2048000000 < unat (snd now) + unat (snd p)"
    using u by (simp add: word_less_nat_alt)
  show ?thesis using u s s1 d g by (auto simp: sleep_deadline_def usecs_def Let_def)
qed

text \<open>
  \<open>sleep(seconds)\<close> computes the deadline \<open>seconds\<close> from now when \<open>seconds\<close> is below 2048; from 2048
  on, the remainder of the division by 2048 counts microseconds instead of seconds, so the sleep is
  short by almost all of the remainder.
\<close>

theorem sleep_deadline_exact:
  assumes "unat (snd now) \<le> PERIOD_USEC" and "unat (fst now) < 2 ^ 31" and "seconds < 2 ^ 31"
  shows "usecs (sleep_deadline now (sleep_interval (of_nat seconds))) = usecs now +
    (if seconds < 2048 then seconds * 1000000
     else seconds div 2048 * PERIOD_USEC + seconds mod 2048)"
proof -
  have us: "unat (of_nat seconds :: u32) = seconds" using assms(3) by (simp add: unat_of_nat take_bit_nat_eq_self)
  show ?thesis
  proof (cases "seconds < 2048")
    case True
    have "unat (of_nat seconds * 1000000 :: u32) = seconds * 1000000"
      using True us by (simp add: unat_mult_lem [THEN iffD1])
    moreover have "sleep_interval (of_nat seconds) = (0, of_nat seconds * 1000000)"
      using True us by (simp add: sleep_interval_def word_less_nat_alt)
    ultimately show ?thesis using sleep_deadline_usecs [of now "sleep_interval (of_nat seconds)"] assms True
      by (simp add: usecs_def)
  next
    case False
    have si: "sint (of_nat seconds :: u32) = int seconds"
      using assms(3) by (simp add: sint_uint word_size signed_take_bit_int_eq_self uint_nat us)
    have i: "sleep_interval (of_nat seconds) = (word_of_int (int seconds div 2048), word_of_int (int seconds mod 2048))"
      using False us by (auto simp: sleep_interval_def word_less_nat_alt si signed_divide_int_def signed_modulo_int_def sgn_if)
    have q: "unat (word_of_int (int seconds div 2048) :: u32) = seconds div 2048"
      "unat (word_of_int (int seconds mod 2048) :: u32) = seconds mod 2048"
      using assms(3) by (simp_all add: unat_word_of_int nat_div_distrib nat_mod_distrib)
    show ?thesis using sleep_deadline_usecs [of now "sleep_interval (of_nat seconds)"] assms False
      by (simp add: usecs_def i q)
  qed
qed

theorem sleep_deadline_exact_witness:
  "usecs (sleep_deadline (0, 0) (sleep_interval 5)) = 5000000
   \<and> usecs (sleep_deadline (0, 0) (sleep_interval 4095)) = 2048002047"
  using sleep_deadline_exact [of "(0, 0)" 5] sleep_deadline_exact [of "(0, 0)" 4095]
  by (simp add: usecs_def)

end
