(* ===== verification/Thread.thy ===== *)
theory Thread
  imports Timing
begin

section \<open>Threads, stop signals and device transfers\<close>

text \<open>
  The operations that create, join, stop and end tasks (\<open>sys/sched/sched_thread.c\<close>,
  \<open>sys/pthread/pthread_create.c\<close>, \<open>sys/unistd/_exit.c\<close>, \<open>sys/signal/_wait.c\<close>,
  \<open>sys/signal/signal_handler.c\<close>, \<open>sys/signal/pthread_kill.c\<close>) and those that block a task on a device
  and wake it when its transfer is done (\<open>sys/unistd/unistd_data_transfer.c\<close>), as far as they change
  the kernel's tables; and the proof that none of them breaks the scheduling invariant.
\<close>

subsection \<open>Starting a thread (sched_thread.c)\<close>

text \<open>The attributes the scheduler uses: policy, detach state and priority.\<close>

record thread_attr =
  at_policy :: sched_policy
  at_joinable :: bool
  at_priority :: int

definition priv_activate_thread :: "nat \<Rightarrow> thread_attr \<Rightarrow> 'z kernel_scheme \<Rightarrow> 'z kernel_scheme" where
  "priv_activate_thread i attr k =
     (let k1 = upd_sched i (\<lambda>_. \<lparr>st_policy = at_policy attr, st_joinable = at_joinable attr,
                 st_sched_priority = at_priority attr, st_block_object = Null, st_exit_status = 0,
                 st_wake_sec = 0, st_wake_usec = 0, st_flags = 0, st_priority = to_u16 (at_priority attr)\<rparr>) k;
          k2 = (if at_policy attr = SCHED_FIFO then task_assert_isfifo i k1 else task_deassert_isfifo i k1);
          k3 = upd_sched i (\<lambda>t. t\<lparr>st_wake_sec := SEC_INVALID, st_wake_usec := 0\<rparr>) k2;
          k4 = sched_priv_assert i SCHED_INUSE (sched_priv_assert_active i UNBLOCK_NONE k3)
      in sched_priv_update_on_wake (st_priority (sched_table k4 i)) k4)"

text \<open>
  \<open>sched_new_thread\<close> for the process of the current task: 0 when the process or a free entry is
  missing. The stack is aligned (the -1 of \<open>task_new_thread\<close> for an unaligned one is not reached by
  the callers, whose stacks come from the allocator).
\<close>

definition task_get_thread_zero :: "int \<Rightarrow> 'z kernel_scheme \<Rightarrow> nat option" where
  "task_get_thread_zero pid k =
     find (\<lambda>i. task_enabled k i \<and> pid = task_get_pid k i \<and> \<not> task_isthread_asserted k i) [0..<task_total k]"

definition task_get_parent :: "'z kernel_scheme \<Rightarrow> nat \<Rightarrow> nat" where
  "task_get_parent k i = unat (drop_bit 16 (t_flags (task_table k i)))"

definition thread_flags :: "nat \<Rightarrow> u32" where
  "thread_flags parent =
     push_bit TASK_USED 1 OR push_bit 16 (word_of_nat parent AND 0xFFFF) OR push_bit TASK_IS_THREAD 1"

definition sched_new_thread :: "thread_attr \<Rightarrow> 'z kernel_scheme \<Rightarrow> nat \<times> 'z kernel_scheme" where
  "sched_new_thread attr k =
     (case task_get_thread_zero (task_get_pid k (task_current k)) k of
        None \<Rightarrow> (0, k)
      | Some z \<Rightarrow>
          (case task_priv_new_task \<lparr>nt_pid = task_get_pid k (task_current k),
                    nt_flags = thread_flags (task_get_parent k z)\<rparr> k of
             (i, k1) \<Rightarrow> if i > 0 then (i, priv_activate_thread i attr k1) else (i, k1)))"

subsection \<open>Ending and joining a thread (sched_thread.c, pthread_create.c)\<close>

text \<open>\<open>sched_table[i].flags = 0; task_priv_del(i)\<close>: how the tables forget a task.\<close>

definition kill :: "nat \<Rightarrow> 'z kernel_scheme \<Rightarrow> 'z kernel_scheme" where
  "kill i k = task_priv_del i (upd_sched i (\<lambda>t. t\<lparr>st_flags := 0\<rparr>) k)"

text \<open>The first task joined to the current one, if any.\<close>

definition joined_to :: "'z kernel_scheme \<Rightarrow> nat option" where
  "joined_to k = find (\<lambda>j. st_block_object (sched_table k j) = Tcb (task_current k)) [1..<task_total k]"

text \<open>One turn of the loop of \<open>cleanup_thread\<close>: \<open>args.joined\<close> and the state.\<close>

definition priv_wait_joined :: "int \<Rightarrow> 'z kernel_scheme \<Rightarrow> nat \<times> 'z kernel_scheme" where
  "priv_wait_joined status k =
     (case joined_to k of
        None \<Rightarrow> (0, sched_priv_update_on_sleep
                 (upd_sched (task_current k) (\<lambda>t. t\<lparr>st_block_object := TcbBlock (task_current k)\<rparr>) k))
      | Some j \<Rightarrow> (j, upd_sched (task_current k) (\<lambda>t. t\<lparr>st_exit_status := status\<rparr>) k))"

definition cleanup_joined :: "'z kernel_scheme \<Rightarrow> 'z kernel_scheme" where
  "cleanup_joined k =
     foldl (\<lambda>k j. if st_block_object (sched_table k j) = Tcb (task_current k)
        then sched_priv_assert_active j UNBLOCK_PTHREAD_JOINED_THREAD_COMPLETE
               (upd_sched j (\<lambda>t. t\<lparr>st_exit_status := st_exit_status (sched_table k (task_current k))\<rparr>) k)
        else k) k [1..<task_total k]"

definition priv_cleanup :: "'z kernel_scheme \<Rightarrow> 'z kernel_scheme" where
  "priv_cleanup k =
     (let k1 = cleanup_joined k
      in sched_priv_update_on_sleep (kill (task_current k1) k1))"

text \<open>\<open>priv_join_thread\<close>: \<open>None\<close> is the thread that no longer exists (\<open>*p = -1\<close>).\<close>

definition priv_join_thread :: "nat \<Rightarrow> 'z kernel_scheme \<Rightarrow> 'z kernel_scheme option" where
  "priv_join_thread i k =
     (if task_enabled k i then
        (let k1 = upd_sched (task_current k) (\<lambda>t. t\<lparr>st_block_object := Tcb i\<rparr>) k;
             k2 = (if st_block_object (sched_table k1 i) = TcbBlock i
                   then sched_priv_assert_active i UNBLOCK_PTHREAD_JOINED k1 else k1)
         in Some (sched_priv_update_on_sleep k2))
      else None)"

text \<open>The checks of \<open>pthread_join\<close> before it blocks.\<close>

definition pthread_join_check :: "int \<Rightarrow> 'z kernel_scheme \<Rightarrow> errno option" where
  "pthread_join_check thread k =
     (if thread < int (task_total k) \<and> thread \<ge> 0 then
        (if task_enabled k (nat thread) then
           (if \<not> st_joinable (sched_table k (nat thread)) then Some EINVAL
            else if st_block_object (sched_table k (nat thread)) = Tcb (task_current k)
              \<or> nat thread = task_current k then Some EDEADLK
            else None)
         else Some ESRCH)
      else Some ESRCH)"

subsection \<open>Stop and continue (signal_handler.c), wake by a signal (pthread_kill.c)\<close>

definition priv_stoppid :: "'z kernel_scheme \<Rightarrow> 'z kernel_scheme" where
  "priv_stoppid k =
     (let me = task_current k; pid = task_get_pid k me
      in sched_priv_update_on_stopped
           (if task_isthread_asserted k me then sched_priv_assert me SCHED_STOPPED k
            else foldl (\<lambda>k i. if task_get_pid k i = pid then sched_priv_assert i SCHED_STOPPED k else k)
                   k [1..<task_total k]))"

definition priv_contpid :: "'z kernel_scheme \<Rightarrow> 'z kernel_scheme" where
  "priv_contpid k =
     (let me = task_current k; pid = task_get_pid k me
      in if task_isthread_asserted k me then
           (let k1 = sched_priv_deassert me SCHED_STOPPED k
            in sched_priv_update_on_wake (sched_get_priority k1 me) k1)
         else (case foldl (\<lambda>(highest, k) i. if task_get_pid k i = pid
                     then (let k1 = sched_priv_deassert i SCHED_STOPPED k
                           in (max highest (sched_get_priority k1 i), k1))
                     else (highest, k)) (0, k) [1..<task_total k] of
                 (highest, k1) \<Rightarrow> sched_priv_update_on_wake highest k1))"

definition signal_priv_activate :: "nat \<Rightarrow> 'z kernel_scheme \<Rightarrow> 'z kernel_scheme" where
  "signal_priv_activate i k =
     (let k1 = sched_priv_assert_active i UNBLOCK_SIGNAL (sched_priv_deassert i SCHED_STOPPED k)
      in sched_priv_update_on_wake (sched_get_priority k1 i) k1)"

subsection \<open>Ending a process (_exit.c) and collecting its status (_wait.c)\<close>

text \<open>
  \<open>nocldwait\<close> is whether the parent's SIGCHLD action has SA_NOCLDWAIT or is SIG_IGN; the first result
  is \<open>*send_signal\<close>.
\<close>

definition priv_stop_threads :: "bool \<Rightarrow> int \<Rightarrow> 'z kernel_scheme \<Rightarrow> bool \<times> 'z kernel_scheme" where
  "priv_stop_threads nocldwait status k =
     (let me = task_current k;
          k1 = upd_sched me (\<lambda>t. t\<lparr>st_exit_status := status\<rparr>) k;
          pid = task_get_pid k1 me;
          k2 = foldl (\<lambda>k i. if task_get_pid k i = pid \<and> i \<noteq> me
                 then kill i k else k) k1 [1..<task_total k1];
          send = (task_get_pid k2 (task_get_parent k2 me) \<noteq> 0 \<and> \<not> nocldwait)
      in if sched_zombie_asserted k2 me then (False, k2)
         else (send, sched_priv_assert me SCHED_ZOMBIE k2))"

definition priv_zombie_process :: "bool \<Rightarrow> 'z kernel_scheme \<Rightarrow> 'z kernel_scheme" where
  "priv_zombie_process signal_sent k =
     (let me = task_current k
      in sched_priv_update_on_sleep
           (if \<not> signal_sent then kill me k
            else sched_priv_deassert me SCHED_INUSE k))"

datatype wait_result = Child nat int | NoZombie | NoChildren

definition is_child :: "'z kernel_scheme \<Rightarrow> nat \<Rightarrow> bool" where
  "is_child k i \<longleftrightarrow> task_get_pid k (task_get_parent k i) = task_get_pid k (task_current k)"

definition priv_check_for_zombie_child :: "int \<Rightarrow> 'z kernel_scheme \<Rightarrow> wait_result \<times> 'z kernel_scheme" where
  "priv_check_for_zombie_child pid k =
     (case find (\<lambda>i. is_child k i \<and> sched_zombie_asserted k i \<and> (task_get_pid k i = pid \<or> pid = -1))
             [1..<task_total k] of
        Some i \<Rightarrow> (Child i (st_exit_status (sched_table k i)),
                   kill i k)
      | None \<Rightarrow> (if list_ex (is_child k) [1..<task_total k] then NoZombie else NoChildren, k))"

subsection \<open>Device transfers (unistd_data_transfer.c)\<close>

text \<open>
  \<open>obj\<close> is the address \<open>handle + read\<close> the task blocks on, \<open>tid\<close> the task that started the transfer.
  \<open>op_ret\<close> and \<open>op_nbyte\<close> are what the driver's read or write returned and left in \<open>op.nbyte\<close>.
\<close>

definition waits_for :: "'z kernel_scheme \<Rightarrow> ptr \<Rightarrow> nat \<Rightarrow> bool" where
  "waits_for k obj i \<longleftrightarrow> task_enabled k i \<and> sched_inuse_asserted k i \<and> st_block_object (sched_table k i) = obj"

definition priv_data_transfer_callback :: "ptr \<Rightarrow> nat \<Rightarrow> bool \<Rightarrow> int \<Rightarrow> 'z kernel_scheme \<Rightarrow> int \<times> 'z kernel_scheme" where
  "priv_data_transfer_callback obj tid cancelled op_nbyte k =
     (let p0 = (if tid < task_total k \<and> sched_inuse_asserted k tid then sched_get_priority k tid else -1)
      in (if cancelled then -1 else op_nbyte,
          case foldl (\<lambda>(p, k) i. if waits_for k obj i
                then (if sched_get_priority k i > p then sched_get_priority k i else p,
                      sched_priv_assert_active i UNBLOCK_TRANSFER k)
                else (p, k)) (p0, k) [1..<task_total k] of
           (p, k1) \<Rightarrow> sched_priv_update_on_wake p k1))"

definition priv_device_data_transfer :: "ptr \<Rightarrow> int \<Rightarrow> int \<Rightarrow> 'z kernel_scheme \<Rightarrow> 'z kernel_scheme" where
  "priv_device_data_transfer obj op_ret op_nbyte k =
     (if op_ret = 0 \<and> op_nbyte \<ge> 0
      then sched_priv_update_on_sleep (upd_sched (task_current k) (\<lambda>t. t\<lparr>st_block_object := obj\<rparr>) k)
      else k)"

text \<open>
  One turn of the loop of \<open>device_data_transfer\<close>, after the privileged call: interrupted by a signal,
  done with a byte count, failed, or tried again (nothing was transferred).
\<close>

datatype transfer_turn = TT_Done int | TT_Error "errno option" | TT_Interrupted | TT_NoData | TT_Again

definition device_transfer_turn :: "bool \<Rightarrow> bool \<Rightarrow> int \<Rightarrow> int \<Rightarrow> transfer_turn" where
  "device_transfer_turn by_signal nonblock ret nbyte =
     (if by_signal then TT_Interrupted
      else if ret > 0 then TT_Done ret
      else if ret = 0 then
        (if nbyte > 0 then TT_Done nbyte
         else if nbyte = 0 then (if nonblock then TT_NoData else TT_Again)
         else TT_Error None)
      else TT_Error (if ret = -101010 then Some ENXIO else None))"

subsection \<open>The kernel invariant\<close>

text \<open>Scheduler and processor in order, and no task stopped by a signal.\<close>

definition kinv :: "'z kernel_scheme \<Rightarrow> bool" where
  "kinv k \<longleftrightarrow> sched_ok k \<and> cpu_ok k \<and> (\<forall>i\<in>{1..<task_total k}. \<not> sched_stopped_asserted k i)"

lemma kinvD:
  "kinv k \<Longrightarrow> sched_ok k" "kinv k \<Longrightarrow> cpu_ok k"
  "kinv k \<Longrightarrow> 1 \<le> i \<Longrightarrow> i < task_total k \<Longrightarrow> \<not> sched_stopped_asserted k i"
  by (auto simp: kinv_def)

lemma stopped_sel [simp]:
  "sched_asserted f (sched_priv_update_on_wake p k) i = sched_asserted f k i"
  "sched_asserted f (sched_priv_update_on_stopped k) i = sched_asserted f k i"
  by (simp_all add: sched_asserted_def)

text \<open>
  \<open>grows k k'\<close>: \<open>k'\<close> differs from \<open>k\<close> in fields the scheduler does not read, or in more tasks being
  active. Blocking afterwards restores the invariant.
\<close>

definition grows :: "'z kernel_scheme \<Rightarrow> 'z kernel_scheme \<Rightarrow> bool" where
  "grows k k' \<longleftrightarrow> task_total k' = task_total k \<and> task_current k' = task_current k
     \<and> sched_current_priority k' = sched_current_priority k \<and> pendsv k' = pendsv k
     \<and> (\<forall>i. sched_get_priority k' i = sched_get_priority k i
          \<and> task_exec_asserted k' i = task_exec_asserted k i
          \<and> sched_stopped_asserted k' i = sched_stopped_asserted k i
          \<and> (runnable k i \<longrightarrow> runnable k' i))"

lemma grows_refl [simp, intro]: "grows k k"
  by (simp add: grows_def)

lemma grows_trans: "grows k k' \<Longrightarrow> grows k' k'' \<Longrightarrow> grows k k''"
  by (simp add: grows_def)

lemma grows_upd_sched:
  "(\<And>t. st_flags (f t) = st_flags t) \<Longrightarrow> (\<And>t. st_priority (f t) = st_priority t) \<Longrightarrow> grows k (upd_sched i f k)"
  by (auto simp: grows_def runnable_def sched_get_priority_def task_exec_asserted_def task_enabled_def
    sched_asserted_def upd_sched_def)

lemma grows_active: "grows k (sched_priv_assert_active i ty k)"
  by (auto simp: grows_def runnable_def)

lemma grows_foldl: "(\<And>k i. grows k (f k i)) \<Longrightarrow> grows k (foldl f k is)"
  by (induction "is" arbitrary: k) (auto intro: grows_trans)

lemma grows_sleep_ok:
  assumes ok: "sched_ok k" and g: "grows k k'" and c: "1 \<le> task_current k"
  shows "sched_ok (sched_priv_update_on_sleep k')"
  unfolding sched_priv_update_on_sleep_def
proof (rule update_on_stopped_ok)
  let ?k = "sched_priv_deassert_active (task_current k') k'"
  show pr: "prios_ok ?k" using ok g by (simp add: prios_ok_def sched_ok_def grows_def)
  fix i assume i: "1 \<le> i" "i < task_total ?k" "task_exec_asserted ?k i" "top_priority ?k = -1"
  then have "runnable ?k i" using ok g by (auto simp: sched_ok_def exec_ok_def grows_def)
  with top_priority_none [OF pr i(4,1,2)] show False by blast
qed

lemma sleep_kinv:
  assumes inv: "kinv k" and g: "grows k k'" and c: "1 \<le> task_current k"
  shows "kinv (sched_priv_update_on_sleep k')"
proof -
  have "sched_ok (sched_priv_update_on_sleep k')" using grows_sleep_ok [OF kinvD(1) [OF inv] g c] .
  moreover have "cpu_ok (sched_priv_update_on_sleep k')"
    using kinvD(2) [OF inv] g by (simp add: cpu_ok_def grows_def sched_priv_update_on_sleep_def update_on_stopped_pend)
  moreover have "\<forall>i\<in>{1..<task_total k}. \<not> sched_stopped_asserted (sched_priv_update_on_sleep k') i"
    using inv g by (simp add: kinv_def sched_priv_update_on_sleep_def grows_def)
  ultimately show ?thesis using g by (simp add: kinv_def grows_def sched_priv_update_on_sleep_def)
qed

text \<open>Waking a set of tasks.\<close>

lemma wake_set_kinv:
  assumes inv: "kinv k" and P: "\<And>i. P i \<Longrightarrow> task_enabled k i"
    and p: "p = scan_max P (sched_get_priority k) (-1) [1..<task_total k]"
  shows "kinv (sched_priv_update_on_wake p (wake_set P ty [1..<task_total k] k))"
proof -
  let ?k = "wake_set P ty [1..<task_total k] k"
  have c: "task_current k < task_total k" using kinvD(2) [OF inv] by (simp add: cpu_ok_def)
  have "sched_ok (sched_priv_update_on_wake p ?k)"
    using wake_set_ok [OF kinvD(1) [OF inv] _ p] P kinvD(3) [OF inv] by blast
  moreover have "cpu_ok (sched_priv_update_on_wake p ?k)"
  proof (rule update_on_wake_cpu)
    show "cpu_ok ?k" using kinvD(2) [OF inv] by (simp add: cpu_ok_def)
    assume a: "\<not> pendsv ?k" "task_current ?k \<noteq> 0"
    then have "runnable k (task_current k) \<and> sched_get_priority k (task_current k) = sched_current_priority k"
      using running_runnable [OF kinvD(1,2) [OF inv]] by simp
    then show "runnable ?k (task_current ?k) \<and> sched_get_priority ?k (task_current ?k) = sched_current_priority ?k"
      using kinvD(3) [OF inv] c by (auto simp: runnable_def [of k])
  qed
  ultimately show ?thesis using inv by (simp add: kinv_def)
qed

lemma wake_set_single:
  "1 \<le> i \<Longrightarrow> i < n \<Longrightarrow> wake_set (\<lambda>j. j = i) ty [1..<n] k = sched_priv_assert_active i ty k"
proof -
  assume i: "1 \<le> i" "i < n"
  have e: "wake_set (\<lambda>j. j = i) ty xs k' = k'" if "i \<notin> set xs" for xs and k' :: "'a kernel_scheme"
    using that by (induction xs arbitrary: k') auto
  have "[1..<n] = [1..<i] @ i # [Suc i..<n]"
    using i by (metis le_add_diff_inverse less_or_eq_imp_le upt_add_eq_append upt_conv_Cons)
  then show ?thesis by (simp add: wake_set_def) (simp add: wake_set_def [symmetric] e)
qed

lemma scan_max_single:
  "1 \<le> i \<Longrightarrow> i < n \<Longrightarrow> -1 \<le> f i \<Longrightarrow> scan_max (\<lambda>j. j = i) f (-1) [1..<n] = f i"
  by (rule scan_max_unique) (auto intro!: bexI [of _ i])

lemma wake_kinv:
  assumes inv: "kinv k" and i: "1 \<le> i" "i < task_total k" "task_enabled k i"
  shows "kinv (sched_priv_update_on_wake (sched_get_priority k i) (sched_priv_assert_active i ty k))"
proof -
  have "prios_ok k" using kinvD(1) [OF inv] by (simp add: sched_ok_def)
  then have "-1 \<le> sched_get_priority k i" using prios_okD [of k i] i by linarith
  then have "sched_get_priority k i = scan_max (\<lambda>j. j = i) (sched_get_priority k) (-1) [1..<task_total k]"
    using scan_max_single [of i "task_total k" "sched_get_priority k"] i by simp
  from wake_set_kinv [OF inv _ this, of ty] show ?thesis using i wake_set_single [OF i(1,2), of ty k] by simp
qed

text \<open>Removing other tasks while the current one goes on running.\<close>

lemma remove_kinv:
  assumes inv: "kinv k" and run: "\<not> pendsv k" "1 \<le> task_current k"
    and same: "task_total k' = task_total k" "task_current k' = task_current k"
      "sched_current_priority k' = sched_current_priority k" "pendsv k' = pendsv k"
      "\<And>i. sched_get_priority k' i = sched_get_priority k i"
      "\<And>i. sched_stopped_asserted k' i \<Longrightarrow> sched_stopped_asserted k i"
    and fewer: "\<And>i. 1 \<le> i \<Longrightarrow> i < task_total k \<Longrightarrow> runnable k' i \<Longrightarrow> runnable k i"
      "\<And>i. 1 \<le> i \<Longrightarrow> i < task_total k \<Longrightarrow> task_exec_asserted k' i \<longleftrightarrow> task_exec_asserted k i \<and> runnable k' i"
    and me: "runnable k (task_current k) \<Longrightarrow> runnable k' (task_current k)"
  shows "kinv k'"
proof -
  have ok: "sched_ok k" "cpu_ok k" using inv by (auto simp: kinv_def)
  have c: "task_current k < task_total k" using ok(2) by (simp add: cpu_ok_def)
  have r: "runnable k (task_current k)" "sched_get_priority k (task_current k) = top_priority k"
    using running_runnable [OF ok run(1)] run(2) ok(1) by (auto simp: sched_ok_def)
  have "top_priority k' = top_priority k"
    unfolding top_priority_scan [of k']
  proof (rule scan_max_unique)
    show "sched_get_priority k' i \<le> top_priority k" if "i \<in> set [1..<task_total k']" "runnable k' i" for i
      using that same(1,5) fewer(1) [of i] top_priority_upper [of k i] by auto
    show "- 1 \<le> top_priority k" by (rule top_priority_ge)
    show "top_priority k = - 1 \<or> (\<exists>i\<in>set [1..<task_total k']. runnable k' i \<and> sched_get_priority k' i = top_priority k)"
      using r me same(1,5) run(2) c by (intro disjI2 bexI [of _ "task_current k"]) auto
  qed
  moreover have "exec_ok k'" using ok(1) fewer same by (auto simp: exec_ok_def sched_ok_def)
  moreover have "prios_ok k'" using ok(1) same by (simp add: prios_ok_def sched_ok_def)
  ultimately have "sched_ok k'" using ok(1) same by (simp add: sched_ok_def)
  moreover have "cpu_ok k'"
    using ok(2) same fewer(2) [of "task_current k"] me r run c by (auto simp: cpu_ok_def)
  ultimately show ?thesis using inv same by (auto simp: kinv_def)
qed

lemma task_del_sel [simp]:
  "task_total (task_priv_del i k) = task_total k" "task_current (task_priv_del i k) = task_current k"
  "sched_table (task_priv_del i k) = sched_table k"
  "sched_current_priority (task_priv_del i k) = sched_current_priority k"
  "pendsv (task_priv_del i k) = pendsv k"
  "sched_get_priority (task_priv_del i k) j = sched_get_priority k j"
  "sched_asserted f (task_priv_del i k) j = sched_asserted f k j"
  "task_exec_asserted (task_priv_del i k) j
     = (task_exec_asserted k j \<and> \<not> (j = i \<and> 1 \<le> i \<and> i < task_total k))"
  "task_enabled (task_priv_del i k) j = (task_enabled k j \<and> \<not> (j = i \<and> 1 \<le> i \<and> i < task_total k))"
  "task_get_pid (task_priv_del i k) j = task_get_pid k j"
  by (auto simp: task_priv_del_def task_deassert_used_def task_deassert_exec_def sched_get_priority_def
    sched_asserted_def task_exec_asserted_def task_enabled_def task_get_pid_def upd_task_def)

lemma kill_sel [simp]:
  "task_total (kill i k) = task_total k" "task_current (kill i k) = task_current k"
  "sched_current_priority (kill i k) = sched_current_priority k" "pendsv (kill i k) = pendsv k"
  "sched_get_priority (kill i k) j = sched_get_priority k j"
  "sched_asserted f (kill i k) j = (j \<noteq> i \<and> sched_asserted f k j)"
  "task_exec_asserted (kill i k) j = (task_exec_asserted k j \<and> \<not> (j = i \<and> 1 \<le> i \<and> i < task_total k))"
  "task_get_pid (kill i k) j = task_get_pid k j"
  by (auto simp: kill_def sched_get_priority_def sched_asserted_def)

lemma kill_runnable [simp]:
  "1 \<le> i \<Longrightarrow> i < task_total k \<Longrightarrow> runnable (kill i k) j = (j \<noteq> i \<and> runnable k j)"
  by (auto simp: runnable_def) (simp_all add: kill_def)

lemma kill_kinv:
  assumes "kinv k" "\<not> pendsv k" "1 \<le> task_current k" "i \<noteq> task_current k" "1 \<le> i" "i < task_total k"
  shows "kinv (kill i k)"
  by (rule remove_kinv [OF assms(1-3)])
    (use assms kinvD(1) [OF assms(1)] in \<open>auto simp: sched_ok_def exec_ok_def\<close>)

lemma kinv_cong:
  assumes "kinv k" and "task_total k' = task_total k" "task_current k' = task_current k"
    "sched_current_priority k' = sched_current_priority k" "pendsv k' = pendsv k"
    and "\<And>i. runnable k' i = runnable k i" "\<And>i. sched_get_priority k' i = sched_get_priority k i"
    and "\<And>i. task_exec_asserted k' i = task_exec_asserted k i"
    and "\<And>i. sched_stopped_asserted k' i = sched_stopped_asserted k i"
  shows "kinv k'"
  using assms sched_ok_cong [of k' k] by (auto simp: kinv_def cpu_ok_def)

subsection \<open>The context switch\<close>

lemma next_task_spec:
  "next_task k i = 0 \<and> (\<forall>j. i < j \<and> j < task_total k \<longrightarrow> \<not> may_run k j)
   \<or> i < next_task k i \<and> next_task k i < task_total k \<and> may_run k (next_task k i)
     \<and> (\<forall>j. i < j \<and> j < next_task k i \<longrightarrow> \<not> may_run k j)"
proof (induction k i rule: next_task.induct)
  case (1 k i)
  consider "task_total k \<le> Suc i" | "\<not> task_total k \<le> Suc i" "may_run k (Suc i)"
    | "\<not> task_total k \<le> Suc i" "\<not> may_run k (Suc i)" by blast
  then show ?case
  proof cases
    case 1
    then show ?thesis by (auto simp: next_task.simps [of k i])
  next
    case 2
    then show ?thesis by (auto simp: next_task.simps [of k i])
  next
    case 3
    then have e: "next_task k i = next_task k (Suc i)" by (simp add: next_task.simps [of k i])
    show ?thesis using "1.IH" [OF 3] 3(2) unfolding e by (metis Suc_lessI Suc_lessD)
  qed
qed

lemma reload_sel [simp]:
  "task_total (reload_task k i) = task_total k" "task_current (reload_task k i) = task_current k"
  "sched_table (reload_task k i) = sched_table k" "pendsv (reload_task k i) = pendsv k"
  "sched_current_priority (reload_task k i) = sched_current_priority k"
  "t_flags (task_table (reload_task k i) j) = t_flags (task_table k j)"
  "rr_reload (reload_task k i) = rr_reload k"
  by (simp_all add: reload_task_def upd_task_def)

lemma wrap_sel [simp]:
  "task_total (wrap_around k) = task_total k" "sched_table (wrap_around k) = sched_table k"
  "sched_current_priority (wrap_around k) = sched_current_priority k"
  "t_flags (task_table (wrap_around k) j) = t_flags (task_table k j)"
  "rr_reload (wrap_around k) = rr_reload k"
proof -
  have z: "task_total (reload_zero k) = task_total k" "sched_table (reload_zero k) = sched_table k"
    "sched_current_priority (reload_zero k) = sched_current_priority k"
    "t_flags (task_table (reload_zero k) j) = t_flags (task_table k j)" "rr_reload (reload_zero k) = rr_reload k"
    by (simp_all add: reload_zero_def upd_task_def)
  have f: "task_total (foldl reload_task k' is) = task_total k'" "sched_table (foldl reload_task k' is) = sched_table k'"
    "sched_current_priority (foldl reload_task k' is) = sched_current_priority k'"
    "t_flags (task_table (foldl reload_task k' is) j) = t_flags (task_table k' j)"
    "rr_reload (foldl reload_task k' is) = rr_reload k'" for k' :: "'a kernel_scheme" and "is"
    by (induction "is" arbitrary: k') simp_all
  show "task_total (wrap_around k) = task_total k" "sched_table (wrap_around k) = sched_table k"
    "sched_current_priority (wrap_around k) = sched_current_priority k"
    "t_flags (task_table (wrap_around k) j) = t_flags (task_table k j)" "rr_reload (wrap_around k) = rr_reload k"
    by (simp_all add: wrap_around_def Let_def f z)
qed

lemma switcher_sel [simp]:
  "task_total (task_context_switcher k) = task_total k" "sched_table (task_context_switcher k) = sched_table k"
  "task_current (task_context_switcher k) = next_task k (task_current k)"
  "\<not> pendsv (task_context_switcher k)"
  "sched_current_priority (task_context_switcher k) = sched_current_priority k"
  "t_flags (task_table (task_context_switcher k) j) = t_flags (task_table k j)"
  by (simp_all add: task_context_switcher_def Let_def)

lemma switcher_same [simp]:
  "runnable (task_context_switcher k) i = runnable k i"
  "sched_get_priority (task_context_switcher k) i = sched_get_priority k i"
  "task_exec_asserted (task_context_switcher k) i = task_exec_asserted k i"
  "sched_asserted f (task_context_switcher k) i = sched_asserted f k i"
  by (simp_all add: runnable_def sched_get_priority_def task_exec_asserted_def task_enabled_def sched_asserted_def)

lemma switch_kinv:
  assumes inv: "kinv k"
  shows "kinv (task_context_switcher k)"
proof -
  have "sched_ok (task_context_switcher k)"
    using kinvD(1) [OF inv] by (subst sched_ok_cong [of _ k]) simp_all
  moreover have "cpu_ok (task_context_switcher k)"
    using next_task_spec [of k "task_current k"] kinvD(2) [OF inv] by (auto simp: cpu_ok_def may_run_def)
  ultimately show ?thesis using inv by (simp add: kinv_def)
qed

subsection \<open>Starting and ending tasks\<close>

lemma find_unused_spec:
  "find_unused k i = Some j \<Longrightarrow> i \<le> j \<and> j < task_total k \<and> \<not> task_enabled k j"
proof (induction k i rule: find_unused.induct)
  case (1 k i)
  then show ?case by (auto simp: find_unused.simps [of k i] split: if_splits)
qed

lemma thread_flags_bits:
  "bit (thread_flags p) TASK_USED" "\<not> bit (thread_flags p) TASK_EXEC"
  by (simp_all add: thread_flags_def bit_simps)

lemma isfifo_sel [simp]:
  "sched_table (task_assert_isfifo i k) = sched_table k" "sched_table (task_deassert_isfifo i k) = sched_table k"
  "task_total (task_assert_isfifo i k) = task_total k" "task_total (task_deassert_isfifo i k) = task_total k"
  "task_current (task_assert_isfifo i k) = task_current k" "task_current (task_deassert_isfifo i k) = task_current k"
  "sched_current_priority (task_assert_isfifo i k) = sched_current_priority k"
  "sched_current_priority (task_deassert_isfifo i k) = sched_current_priority k"
  "pendsv (task_assert_isfifo i k) = pendsv k" "pendsv (task_deassert_isfifo i k) = pendsv k"
  "task_enabled (task_assert_isfifo i k) j = task_enabled k j"
  "task_enabled (task_deassert_isfifo i k) j = task_enabled k j"
  "task_exec_asserted (task_assert_isfifo i k) j = task_exec_asserted k j"
  "task_exec_asserted (task_deassert_isfifo i k) j = task_exec_asserted k j"
  by (auto simp: task_assert_isfifo_def task_deassert_isfifo_def upd_task_def task_enabled_def task_exec_asserted_def)

text \<open>
  The entry of a new task: enabled, not executing and not active, with its priority set. Giving a
  free slot such an entry keeps the invariant.
\<close>

lemma fresh_kinv:
  assumes inv: "kinv k" and i: "1 \<le> i" "i < task_total k" "\<not> task_enabled k i"
    and same: "task_total k' = task_total k" "task_current k' = task_current k"
      "sched_current_priority k' = sched_current_priority k" "pendsv k' = pendsv k"
      "\<And>j. j \<noteq> i \<Longrightarrow> runnable k' j = runnable k j"
      "\<And>j. j \<noteq> i \<Longrightarrow> sched_get_priority k' j = sched_get_priority k j"
      "\<And>j. j \<noteq> i \<Longrightarrow> task_exec_asserted k' j = task_exec_asserted k j"
      "\<And>j. j \<noteq> i \<Longrightarrow> sched_stopped_asserted k' j = sched_stopped_asserted k j"
    and new: "\<not> runnable k' i" "\<not> task_exec_asserted k' i" "\<not> sched_stopped_asserted k' i"
      "0 \<le> sched_get_priority k' i" "sched_get_priority k' i < 128"
  shows "kinv k'"
proof -
  have old: "\<not> runnable k i" using i(3) by (simp add: runnable_def)
  have r: "runnable k' j = runnable k j" for j using old new(1) same(5) by (cases "j = i") auto
  have ok: "sched_ok k" using inv by (rule kinvD)
  have e: "\<not> task_exec_asserted k i" using ok old i by (auto simp: sched_ok_def exec_ok_def)
  have x: "task_exec_asserted k' j = task_exec_asserted k j" for j using e new(2) same(7) by (cases "j = i") auto
  have "top_priority k' = top_priority k"
  proof (rule top_priority_cong)
    show "sched_get_priority k' j = sched_get_priority k j" if "runnable k j" for j
      using that old same(6) [of j] by (cases "j = i") auto
  qed (use same r in auto)
  moreover have "prios_ok k'"
    unfolding prios_ok_def
  proof
    fix j assume "j \<in> {1..<task_total k'}"
    then show "0 \<le> sched_get_priority k' j \<and> sched_get_priority k' j < 128"
      using ok prios_okD [of k j] same(1) same(6) [of j] new(4,5) by (cases "j = i") (auto simp: sched_ok_def)
  qed
  moreover have "exec_ok k'"
    using ok same(1,3,6) r x old unfolding exec_ok_def sched_ok_def by metis
  ultimately have "sched_ok k'" using ok same by (simp add: sched_ok_def)
  moreover have "cpu_ok k'" using kinvD(2) [OF inv] same x by (simp add: cpu_ok_def)
  moreover have "\<forall>j\<in>{1..<task_total k'}. \<not> sched_stopped_asserted k' j"
    using kinvD(3) [OF inv] same(1,8) new(3) by (metis atLeastLessThan_iff)
  ultimately show ?thesis by (simp add: kinv_def)
qed

lemma inuse_flags:
  "flag_set (flag_clear ((f AND NOT UNBLOCK_MASK) OR unblock_code ty) SCHED_AIOSUSPEND) SCHED_INUSE
   = flag_clear ((flag_set f SCHED_INUSE AND NOT UNBLOCK_MASK) OR unblock_code ty) SCHED_AIOSUSPEND"
  by (rule bit_eqI) (auto simp: bit_unblock_set unblock_code_bit)

lemma flag_set_commute: "flag_set (flag_set f m) n = flag_set (flag_set f n) m"
  by (simp add: flag_set_def or.assoc or.commute or.left_commute)

lemma entry_commute:
  "t\<lparr>st_block_object := a, st_wake_sec := b, st_wake_usec := c, st_flags := d\<rparr>
   = (t :: sched_task_t)\<lparr>st_flags := d, st_block_object := a, st_wake_sec := b, st_wake_usec := c\<rparr>"
  by (cases t) simp

lemma inuse_active_commute:
  "sched_priv_assert i SCHED_INUSE (sched_priv_assert_active i ty k)
   = sched_priv_assert_active i ty (sched_priv_assert i SCHED_INUSE k)"
  by (simp add: sched_priv_assert_active_def sched_priv_assert_def sched_priv_set_unblock_type_def
    sched_priv_deassert_def upd_sched_def Let_def inuse_flags flag_set_commute entry_commute)

lemma assert_sel [simp]:
  "task_total (sched_priv_assert i f k) = task_total k" "task_current (sched_priv_assert i f k) = task_current k"
  "task_table (sched_priv_assert i f k) = task_table k" "pendsv (sched_priv_assert i f k) = pendsv k"
  "sched_current_priority (sched_priv_assert i f k) = sched_current_priority k"
  "task_enabled (sched_priv_assert i f k) j = task_enabled k j"
  "task_exec_asserted (sched_priv_assert i f k) j = task_exec_asserted k j"
  "sched_get_priority (sched_priv_assert i f k) j = sched_get_priority k j"
  "st_priority (sched_table (sched_priv_assert i f k) j) = st_priority (sched_table k j)"
  "sched_asserted g (sched_priv_assert i f k) j = (sched_asserted g k j \<or> j = i \<and> g = f \<and> f < 16)"
  by (auto simp: sched_priv_assert_def sched_get_priority_def sched_asserted_def)

lemma assert_runnable [simp]:
  "f \<noteq> SCHED_ACTIVE \<Longrightarrow> f \<noteq> SCHED_STOPPED \<Longrightarrow> runnable (sched_priv_assert i f k) j = runnable k j"
  by (auto simp: runnable_def)

text \<open>The entry a new thread \<open>i\<close> starts from, before it is made active.\<close>

definition fresh_entry :: "thread_attr \<Rightarrow> nat \<Rightarrow> int \<Rightarrow> nat \<Rightarrow> 'z kernel_scheme \<Rightarrow> 'z kernel_scheme" where
  "fresh_entry attr i pid parent k =
     sched_priv_assert i SCHED_INUSE (upd_sched i (\<lambda>t. t\<lparr>st_wake_sec := SEC_INVALID, st_wake_usec := 0\<rparr>)
       ((if at_policy attr = SCHED_FIFO then task_assert_isfifo i else task_deassert_isfifo i)
         (upd_sched i (\<lambda>_. \<lparr>st_policy = at_policy attr, st_joinable = at_joinable attr,
                 st_sched_priority = at_priority attr, st_block_object = Null, st_exit_status = 0,
                 st_wake_sec = 0, st_wake_usec = 0, st_flags = 0, st_priority = to_u16 (at_priority attr)\<rparr>)
           (upd_task i (\<lambda>t. t\<lparr>t_pid := pid, t_flags := thread_flags parent, t_timer := 0, t_rr_time := rr_reload k\<rparr>) k))))"

lemma fresh_sel [simp]:
  "task_total (fresh_entry attr i pid p k) = task_total k" "task_current (fresh_entry attr i pid p k) = task_current k"
  "sched_current_priority (fresh_entry attr i pid p k) = sched_current_priority k"
  "pendsv (fresh_entry attr i pid p k) = pendsv k"
  "j \<noteq> i \<Longrightarrow> sched_table (fresh_entry attr i pid p k) j = sched_table k j"
  "j \<noteq> i \<Longrightarrow> task_table (fresh_entry attr i pid p k) j = task_table k j"
  "task_enabled (fresh_entry attr i pid p k) i" "\<not> task_exec_asserted (fresh_entry attr i pid p k) i"
  "sched_get_priority (fresh_entry attr i pid p k) i = to_u16 (at_priority attr)"
  "\<not> sched_active_asserted (fresh_entry attr i pid p k) i" "\<not> sched_stopped_asserted (fresh_entry attr i pid p k) i"
  "sched_inuse_asserted (fresh_entry attr i pid p k) i"
  using thread_flags_bits [of p]
  by (auto simp: fresh_entry_def sched_get_priority_def sched_asserted_def task_enabled_def task_exec_asserted_def
    task_assert_isfifo_def task_deassert_isfifo_def upd_task_def sched_priv_assert_def)

lemma fresh_other [simp]:
  "j \<noteq> i \<Longrightarrow> runnable (fresh_entry attr i pid p k) j = runnable k j"
  "j \<noteq> i \<Longrightarrow> sched_get_priority (fresh_entry attr i pid p k) j = sched_get_priority k j"
  "j \<noteq> i \<Longrightarrow> task_exec_asserted (fresh_entry attr i pid p k) j = task_exec_asserted k j"
  "j \<noteq> i \<Longrightarrow> sched_asserted f (fresh_entry attr i pid p k) j = sched_asserted f k j"
  by (simp_all add: runnable_def sched_get_priority_def task_exec_asserted_def sched_asserted_def task_enabled_def)

lemma fresh_idle [simp]: "\<not> runnable (fresh_entry attr i pid p k) i"
  by (simp add: runnable_def)

text \<open>What \<open>sched_new_thread\<close> does: the entry, and a wake-up at its priority.\<close>

lemma new_thread_cases:
  obtains "sched_new_thread attr k = (0, k)"
  | z i where "task_get_thread_zero (task_get_pid k (task_current k)) k = Some z"
    "1 \<le> i" "i < task_total k" "\<not> task_enabled k i" "find_unused k 1 = Some i"
    "sched_new_thread attr k = (i, sched_priv_update_on_wake (to_u16 (at_priority attr))
       (sched_priv_assert_active i UNBLOCK_NONE
         (fresh_entry attr i (task_get_pid k (task_current k)) (task_get_parent k z) k)))"
proof (cases "task_get_thread_zero (task_get_pid k (task_current k)) k")
  case None
  then show ?thesis using that(1) by (simp add: sched_new_thread_def)
next
  case z: (Some z)
  show ?thesis
  proof (cases "find_unused k 1")
    case None
    then show ?thesis using that(1) z by (simp add: sched_new_thread_def task_priv_new_task_def)
  next
    case (Some i)
    let ?f = "fresh_entry attr i (task_get_pid k (task_current k)) (task_get_parent k z) k"
    have i: "1 \<le> i" "i < task_total k" "\<not> task_enabled k i" using find_unused_spec [OF Some] by auto
    have "priv_activate_thread i attr (upd_task i (\<lambda>t. t\<lparr>t_pid := task_get_pid k (task_current k),
        t_flags := thread_flags (task_get_parent k z), t_timer := 0, t_rr_time := rr_reload k\<rparr>) k)
      = sched_priv_update_on_wake (sched_get_priority ?f i) (sched_priv_assert_active i UNBLOCK_NONE ?f)"
      unfolding priv_activate_thread_def Let_def inuse_active_commute assert_active_sel(6) sched_get_priority_def fresh_entry_def
      by simp
    then have "sched_new_thread attr k = (i, sched_priv_update_on_wake (to_u16 (at_priority attr))
       (sched_priv_assert_active i UNBLOCK_NONE ?f))"
      using z Some i by (simp add: sched_new_thread_def task_priv_new_task_def)
    then show ?thesis using that(2) z i Some by blast
  qed
qed

lemma new_thread_kinv:
  assumes inv: "kinv k" and pr: "0 \<le> at_priority attr" "at_priority attr \<le> SCHED_HIGHEST_PRIORITY"
  shows "kinv (snd (sched_new_thread attr k))"
proof (cases attr k rule: new_thread_cases)
  case 1
  then show ?thesis using inv by simp
next
  case (2 z i)
  let ?f = "fresh_entry attr i (task_get_pid k (task_current k)) (task_get_parent k z) k"
  have "kinv ?f" by (rule fresh_kinv [OF inv 2(2-4)]) (use pr in auto)
  from wake_kinv [OF this 2(2), of UNBLOCK_NONE] show ?thesis using 2 by simp
qed

text \<open>Ending: the joined tasks are woken, the task's entry is freed and another task is chosen.\<close>

lemma cleanup_grows: "grows k (cleanup_joined k)"
  unfolding cleanup_joined_def
  by (rule grows_foldl) (auto intro: grows_trans [OF grows_upd_sched grows_active])

lemma gone_kinv:
  assumes inv: "kinv k" and g: "grows k k1" and c: "1 \<le> task_current k"
    and e: "\<And>i. task_exec_asserted k' i \<Longrightarrow> task_exec_asserted k1 i"
    and same: "task_total k' = task_total k1" "task_current k' = task_current k1"
      "\<And>i. sched_get_priority k' i = sched_get_priority k1 i"
      "\<And>i. sched_stopped_asserted k' i \<Longrightarrow> sched_stopped_asserted k1 i"
      "\<And>i. i \<noteq> task_current k \<Longrightarrow> runnable k' i = runnable k1 i"
  shows "kinv (sched_priv_update_on_sleep k')"
proof -
  let ?k = "sched_priv_deassert_active (task_current k') k'"
  have pr: "prios_ok ?k" using kinvD(1) [OF inv] g same by (simp add: prios_ok_def sched_ok_def grows_def)
  have "sched_ok (sched_priv_update_on_sleep k')"
    unfolding sched_priv_update_on_sleep_def
  proof (rule update_on_stopped_ok [OF pr])
    fix i assume i: "1 \<le> i" "i < task_total ?k" "task_exec_asserted ?k i" "top_priority ?k = -1"
    then have "task_exec_asserted k i" "i \<noteq> task_current k" "i < task_total k"
      using e [of i] g same by (auto simp: grows_def)
    then have "runnable ?k i"
      using kinvD(1) [OF inv] i(1) g same by (auto simp: sched_ok_def exec_ok_def grows_def)
    with top_priority_none [OF pr i(4,1,2)] show False by blast
  qed
  moreover have "cpu_ok (sched_priv_update_on_sleep k')"
    using kinvD(2) [OF inv] g same by (simp add: cpu_ok_def grows_def sched_priv_update_on_sleep_def update_on_stopped_pend)
  moreover have "\<not> sched_stopped_asserted (sched_priv_update_on_sleep k') i"
    if "1 \<le> i" "i < task_total k" for i
    using kinvD(3) [OF inv that] g same(4) [of i] by (auto simp: sched_priv_update_on_sleep_def grows_def)
  ultimately show ?thesis using g same by (simp add: kinv_def grows_def sched_priv_update_on_sleep_def)
qed

lemma cleanup_kinv: "kinv k \<Longrightarrow> 1 \<le> task_current k \<Longrightarrow> kinv (priv_cleanup k)"
proof -
  assume inv: "kinv k" and c: "1 \<le> task_current k"
  note g = cleanup_grows [of k]
  have cur: "task_current (cleanup_joined k) = task_current k" "task_total (cleanup_joined k) = task_total k"
    using g by (auto simp: grows_def)
  have lt: "task_current k < task_total k" using kinvD(2) [OF inv] by (simp add: cpu_ok_def)
  have e: "priv_cleanup k = sched_priv_update_on_sleep (kill (task_current k) (cleanup_joined k))"
    by (simp add: priv_cleanup_def Let_def cur)
  show ?thesis unfolding e
    by (rule gone_kinv [OF inv g c]) (use lt c cur in auto)
qed

lemma zombie_kinv: "kinv k \<Longrightarrow> 1 \<le> task_current k \<Longrightarrow> kinv (priv_zombie_process b k)"
proof -
  assume inv: "kinv k" and c: "1 \<le> task_current k"
  have lt: "task_current k < task_total k" using kinvD(2) [OF inv] by (simp add: cpu_ok_def)
  show ?thesis
  proof (cases b)
    case True
    have "grows k (sched_priv_deassert (task_current k) SCHED_INUSE k)"
      by (auto simp: grows_def sched_priv_deassert_def runnable_def sched_get_priority_def sched_asserted_def)
    then show ?thesis using True sleep_kinv [OF inv _ c] by (simp add: priv_zombie_process_def Let_def)
  next
    case False
    have "kinv (sched_priv_update_on_sleep (kill (task_current k) k))"
      by (rule gone_kinv [OF inv grows_refl c]) (use lt c in auto)
    then show ?thesis using False by (simp add: priv_zombie_process_def Let_def)
  qed
qed

lemma kills_kinv:
  assumes "kinv k" "\<not> pendsv k" "1 \<le> task_current k" "\<And>i. i \<in> set is \<Longrightarrow> 1 \<le> i \<and> i < task_total k"
  shows "kinv (foldl (\<lambda>k' i. if task_get_pid k' i = pid \<and> i \<noteq> task_current k then kill i k' else k') k is)"
proof -
  let ?P = "\<lambda>k'. kinv k' \<and> \<not> pendsv k' \<and> task_current k' = task_current k \<and> task_total k' = task_total k"
  have "?P (foldl (\<lambda>k' i. if task_get_pid k' i = pid \<and> i \<noteq> task_current k then kill i k' else k') k is)"
  proof (rule foldl_invariant)
    show "?P k" using assms by simp
    fix k' i assume "i \<in> set is" and P: "?P k'"
    then have "i \<noteq> task_current k \<Longrightarrow> kinv (kill i k')"
      using kill_kinv [of k' i] assms(3) assms(4) [of i] by simp
    then show "?P (if task_get_pid k' i = pid \<and> i \<noteq> task_current k then kill i k' else k')" using P by simp
  qed
  then show ?thesis by simp
qed

lemma stop_threads_kinv:
  assumes inv: "kinv k" and run: "\<not> pendsv k" "1 \<le> task_current k"
  shows "kinv (snd (priv_stop_threads nocldwait status k))"
proof -
  let ?k1 = "upd_sched (task_current k) (\<lambda>t. t\<lparr>st_exit_status := status\<rparr>) k"
  let ?k2 = "foldl (\<lambda>k' i. if task_get_pid k' i = task_get_pid ?k1 (task_current k) \<and> i \<noteq> task_current k
      then kill i k' else k') ?k1 [1..<task_total ?k1]"
  have k1: "kinv ?k1"
    by (rule kinv_cong [OF inv]) (auto simp: runnable_def sched_get_priority_def sched_asserted_def)
  have k2: "kinv ?k2" using kills_kinv [OF k1, of "[1..<task_total ?k1]"] run by auto
  have "kinv (sched_priv_assert (task_current k) SCHED_ZOMBIE ?k2)" by (rule kinv_cong [OF k2]) simp_all
  then show ?thesis using k2 by (simp add: priv_stop_threads_def Let_def)
qed

lemma wait_kinv:
  assumes inv: "kinv k" and run: "\<not> pendsv k" "1 \<le> task_current k" "\<not> sched_zombie_asserted k (task_current k)"
  shows "kinv (snd (priv_check_for_zombie_child pid k))"
proof (cases "find (\<lambda>i. is_child k i \<and> sched_zombie_asserted k i \<and> (task_get_pid k i = pid \<or> pid = -1)) [1..<task_total k]")
  case None
  then show ?thesis using inv by (simp add: priv_check_for_zombie_child_def)
next
  case (Some i)
  then have "1 \<le> i" "i < task_total k" "sched_zombie_asserted k i"
    by (auto simp: find_Some_iff nth_upt)
  then have "kinv (kill i k)" using run by (intro kill_kinv [OF inv run(1,2)]) auto
  then show ?thesis using Some by (simp add: priv_check_for_zombie_child_def)
qed

subsection \<open>Blocking and waking\<close>

lemma block_kinv:
  "kinv k \<Longrightarrow> 1 \<le> task_current k
    \<Longrightarrow> kinv (sched_priv_update_on_sleep (upd_sched (task_current k) (\<lambda>t. t\<lparr>st_block_object := obj\<rparr>) k))"
  by (rule sleep_kinv) (auto intro: grows_upd_sched)

lemma wait_joined_kinv: "kinv k \<Longrightarrow> 1 \<le> task_current k \<Longrightarrow> kinv (snd (priv_wait_joined status k))"
proof -
  assume inv: "kinv k" and c: "1 \<le> task_current k"
  have "kinv (upd_sched (task_current k) (\<lambda>t. t\<lparr>st_exit_status := status\<rparr>) k)"
    by (rule kinv_cong [OF inv]) (auto simp: runnable_def sched_get_priority_def sched_asserted_def)
  then show ?thesis using block_kinv [OF inv c] by (auto simp: priv_wait_joined_def split: option.split)
qed

lemma join_kinv: "kinv k \<Longrightarrow> 1 \<le> task_current k \<Longrightarrow> priv_join_thread i k = Some k' \<Longrightarrow> kinv k'"
proof -
  assume inv: "kinv k" and c: "1 \<le> task_current k" and j: "priv_join_thread i k = Some k'"
  let ?k1 = "upd_sched (task_current k) (\<lambda>t. t\<lparr>st_block_object := Tcb i\<rparr>) k"
  let ?k2 = "if st_block_object (sched_table ?k1 i) = TcbBlock i
     then sched_priv_assert_active i UNBLOCK_PTHREAD_JOINED ?k1 else ?k1"
  have "grows k ?k1" by (rule grows_upd_sched) simp_all
  then have "grows k ?k2" using grows_active [of ?k1 i UNBLOCK_PTHREAD_JOINED] grows_trans by auto
  moreover have "k' = sched_priv_update_on_sleep ?k2"
    using j by (auto simp: priv_join_thread_def Let_def split: if_splits)
  ultimately show ?thesis using sleep_kinv [OF inv _ c] by simp
qed

lemma device_transfer_kinv:
  "kinv k \<Longrightarrow> 1 \<le> task_current k \<Longrightarrow> kinv (priv_device_data_transfer obj r n k)"
  using block_kinv by (auto simp: priv_device_data_transfer_def)

lemma waits_for_other:
  "i \<noteq> j \<Longrightarrow> waits_for (sched_priv_assert_active i ty k) obj j = waits_for k obj j"
  by (simp add: waits_for_def)

lemma transfer_fold:
  "foldl (\<lambda>(p, k) i. if waits_for k obj i
       then (if sched_get_priority k i > p then sched_get_priority k i else p, sched_priv_assert_active i ty k)
       else (p, k)) (p, k) [1..<n]
   = (scan_max (waits_for k obj) (sched_get_priority k) p [1..<n], wake_set (waits_for k obj) ty [1..<n] k)"
  by (rule wake_fold [where Q = "\<lambda>k. waits_for k obj" and f = sched_get_priority])
    (simp_all add: waits_for_other)

text \<open>
  The end of a transfer. The task that started it still waits for it, or runs (a signal ended its
  wait, and it cancels the transfer), or is gone.
\<close>

lemma transfer_done_kinv:
  assumes inv: "kinv k" and tid: "tid < task_total k \<Longrightarrow> sched_inuse_asserted k tid
    \<Longrightarrow> 1 \<le> tid \<and> (waits_for k obj tid \<or> runnable k tid)"
  shows "kinv (snd (priv_data_transfer_callback obj tid cancelled n k))"
proof -
  let ?own = "if tid < task_total k \<and> sched_inuse_asserted k tid then sched_get_priority k tid else -1"
  let ?W = "waits_for k obj" let ?P = "\<lambda>i. ?W i \<or> (i = tid \<and> tid < task_total k \<and> sched_inuse_asserted k tid)"
  let ?xs = "[1..<task_total k]"
  let ?p = "scan_max ?W (sched_get_priority k) ?own ?xs"
  let ?k = "wake_set ?W UNBLOCK_TRANSFER ?xs k"
  have c: "task_current k < task_total k" using kinvD(2) [OF inv] by (simp add: cpu_ok_def)
  have W: "\<And>i. ?W i \<Longrightarrow> task_enabled k i" by (simp add: waits_for_def)
  have e: "snd (priv_data_transfer_callback obj tid cancelled n k) = sched_priv_update_on_wake ?p ?k"
    by (simp only: priv_data_transfer_callback_def Let_def transfer_fold snd_conv case_prod_conv)
  have pr: "prios_ok k" and top: "sched_current_priority k = top_priority k"
    using kinvD(1) [OF inv] by (auto simp: sched_ok_def)
  let ?q = "scan_max ?W (sched_get_priority k) (-1) ?xs"
  have w: "kinv (sched_priv_update_on_wake ?q ?k)" by (rule wake_set_kinv [OF inv W refl])
  have topk: "top_priority ?k = max (top_priority k) ?q"
    using W kinvD(3) [OF inv] by (intro wake_set_top) auto
  have "-1 \<le> ?own"
  proof (cases "tid < task_total k \<and> sched_inuse_asserted k tid")
    case True
    then show ?thesis using prios_okD [OF pr, of tid] tid by simp
  qed auto
  then have p0: "?p = max ?q ?own" by (rule scan_max_start)
  have bound: "?own \<le> max (top_priority k) ?q"
  proof (cases "tid < task_total k \<and> sched_inuse_asserted k tid")
    case True
    then consider "?W tid" | "runnable k tid" using tid by blast
    then show ?thesis
    proof cases
      case 1
      then have "sched_get_priority k tid \<le> ?q"
        using True tid scan_max_spec [of ?xs ?W "sched_get_priority k" "-1"] by auto
      then show ?thesis using True by simp
    next
      case 2
      then show ?thesis using True tid top_priority_upper [of k tid] by auto
    qed
  qed (use top_priority_ge [of k] in auto)
  have ok: "sched_ok (sched_priv_update_on_wake ?p ?k)"
  proof (rule update_on_wake_ok)
    show "prios_ok ?k" using pr by (simp add: prios_ok_def)
    show "top_priority ?k = max (sched_current_priority ?k) ?p" using topk p0 bound top by simp
    assume "?p < sched_current_priority ?k"
    then have "sched_priv_update_on_wake ?q ?k = sched_priv_assert_status_change ?k"
      using p0 by (simp add: sched_priv_update_on_wake_def)
    then show "exec_ok ?k" using kinvD(1) [OF w] by (simp add: sched_ok_def exec_ok_def)
  qed
  have "cpu_ok (sched_priv_update_on_wake ?p ?k)"
  proof (rule update_on_wake_cpu)
    show "cpu_ok ?k" using kinvD(2) [OF inv] by (simp add: cpu_ok_def)
    assume "\<not> pendsv ?k" "task_current ?k \<noteq> 0"
    then show "runnable ?k (task_current ?k) \<and> sched_get_priority ?k (task_current ?k) = sched_current_priority ?k"
      using running_runnable [OF kinvD(1,2) [OF inv]] kinvD(3) [OF inv] c by (auto simp: runnable_def [of k])
  qed
  with ok show ?thesis using inv unfolding e by (simp add: kinv_def)
qed

lemma timedblock_kinv:
  assumes inv: "kinv k" and c: "1 \<le> task_current k"
  shows "kinv (sched_priv_timedblock obj tv k)"
proof -
  have "grows k (snd (timedblock_prepare obj tv k))"
    by (auto simp: grows_def sched_asserted_def)
  moreover have "kinv (snd (timedblock_prepare obj tv k))"
    by (rule kinv_cong [OF inv]) (simp_all add: sched_asserted_def)
  ultimately show ?thesis
    using sleep_kinv [OF inv _ c] by (auto simp: sched_priv_timedblock_def split_beta)
qed

lemma match_kinv:
  assumes inv: "kinv k"
  shows "kinv (priv_usecond_match_event k)"
proof -
  let ?k0 = "k\<lparr>tmr_on := False\<rparr>" and ?is = "[1..<task_total k]"
  let ?w = "wake_set (due k (tmr_val k)) UNBLOCK_SLEEP ?is ?k0"
  let ?p = "scan_max (due k (tmr_val k)) (sched_get_priority k) (-1) ?is"
  have pe: "sched_get_priority ?k0 = sched_get_priority k" by (rule ext) simp
  have c: "task_current k < task_total k" using kinvD(2) [OF inv] by (simp add: cpu_ok_def)
  obtain v where e: "priv_usecond_match_event k = (sched_priv_update_on_wake ?p (?w\<lparr>tmr_oc := v\<rparr>))\<lparr>tmr_on := True\<rparr>"
    by (simp add: match_event_eq Let_def pe)
  have "sched_ok (priv_usecond_match_event k)"
    using match_event_ok [OF kinvD(1) [OF inv]] kinvD(3) [OF inv] by blast
  moreover have "cpu_ok (sched_priv_update_on_wake ?p (?w\<lparr>tmr_oc := v\<rparr>))"
  proof (rule update_on_wake_cpu)
    show "cpu_ok (?w\<lparr>tmr_oc := v\<rparr>)" using kinvD(2) [OF inv] by (simp add: cpu_ok_def)
    assume "\<not> pendsv (?w\<lparr>tmr_oc := v\<rparr>)" "task_current (?w\<lparr>tmr_oc := v\<rparr>) \<noteq> 0"
    then show "runnable (?w\<lparr>tmr_oc := v\<rparr>) (task_current (?w\<lparr>tmr_oc := v\<rparr>))
      \<and> sched_get_priority (?w\<lparr>tmr_oc := v\<rparr>) (task_current (?w\<lparr>tmr_oc := v\<rparr>)) = sched_current_priority (?w\<lparr>tmr_oc := v\<rparr>)"
      using running_runnable [OF kinvD(1,2) [OF inv]] kinvD(3) [OF inv] c by (auto simp: runnable_def [of k])
  qed
  then have "cpu_ok (priv_usecond_match_event k)" unfolding e by (simp add: cpu_ok_def)
  moreover have "\<not> sched_stopped_asserted (priv_usecond_match_event k) i" if "1 \<le> i" "i < task_total k" for i
    using kinvD(3) [OF inv that] unfolding e by simp
  moreover have "task_total (priv_usecond_match_event k) = task_total k" unfolding e by simp
  ultimately show ?thesis by (simp add: kinv_def)
qed

subsection \<open>Reachable kernel states\<close>

text \<open>
  The steps of the kernel. The first group is what the running thread does by a privileged call,
  the second what interrupts do, and the last the processor itself: the pending switch, the end of
  a time slice, the passing of time. \<open>K_NewThread\<close> is the whole of \<open>sched_new_thread\<close>.
\<close>

datatype kstep = K_Block ptr | K_TimedBlock ptr sched_timeval | K_WaitJoined int | K_Join nat
  | K_Cleanup | K_NewThread thread_attr | K_Transfer ptr int int | K_StopThreads bool int
  | K_Zombie bool | K_WaitPid int | K_Yield
  | K_Wake nat unblock_type | K_Match u32 | K_Overflow | K_TransferDone ptr nat bool int
  | K_Switch | K_Tick | K_Time int

definition running :: "'z kernel_scheme \<Rightarrow> bool" where
  "running k \<longleftrightarrow> \<not> pendsv k \<and> 1 \<le> task_current k"

fun kstep_ok :: "kstep \<Rightarrow> kernel \<Rightarrow> bool" where
  "kstep_ok (K_NewThread a) k = (running k \<and> 0 \<le> at_priority a \<and> at_priority a \<le> SCHED_HIGHEST_PRIORITY)"
| "kstep_ok (K_WaitPid _) k = (running k \<and> \<not> sched_zombie_asserted k (task_current k))"
| "kstep_ok (K_Wake i _) k = (1 \<le> i \<and> i < task_total k \<and> task_enabled k i)"
| "kstep_ok (K_TransferDone obj tid _ _) k = (tid < task_total k \<and> sched_inuse_asserted k tid
     \<longrightarrow> 1 \<le> tid \<and> (waits_for k obj tid \<or> runnable k tid))"
| "kstep_ok (K_Match _) k = True"
| "kstep_ok K_Overflow k = True"
| "kstep_ok K_Switch k = pendsv k"
| "kstep_ok K_Tick k = True"
| "kstep_ok (K_Time _) k = True"
| "kstep_ok _ k = running k"

fun kstep_do :: "kstep \<Rightarrow> kernel \<Rightarrow> kernel" where
  "kstep_do (K_Block obj) k = sched_priv_update_on_sleep (upd_sched (task_current k) (\<lambda>t. t\<lparr>st_block_object := obj\<rparr>) k)"
| "kstep_do (K_TimedBlock obj tv) k = sched_priv_timedblock obj tv k"
| "kstep_do (K_WaitJoined status) k = snd (priv_wait_joined status k)"
| "kstep_do (K_Join i) k = (case priv_join_thread i k of None \<Rightarrow> k | Some k' \<Rightarrow> k')"
| "kstep_do K_Cleanup k = priv_cleanup k"
| "kstep_do (K_NewThread a) k = snd (sched_new_thread a k)"
| "kstep_do (K_Transfer obj r n) k = priv_device_data_transfer obj r n k"
| "kstep_do (K_StopThreads b st) k = snd (priv_stop_threads b st k)"
| "kstep_do (K_Zombie b) k = priv_zombie_process b k"
| "kstep_do (K_WaitPid pid) k = snd (priv_check_for_zombie_child pid k)"
| "kstep_do K_Yield k = task_priv_switch_context k"
| "kstep_do (K_Wake i ty) k = sched_priv_update_on_wake (sched_get_priority k i) (sched_priv_assert_active i ty k)"
| "kstep_do (K_Match v) k = priv_usecond_match_event (k\<lparr>tmr_val := v\<rparr>)"
| "kstep_do K_Overflow k = usecond_overflow_event k"
| "kstep_do (K_TransferDone obj tid c n) k = snd (priv_data_transfer_callback obj tid c n k)"
| "kstep_do K_Switch k = task_context_switcher k"
| "kstep_do K_Tick k = task_check_countflag True k"
| "kstep_do (K_Time v) k = k\<lparr>systick_val := v\<rparr>"

text \<open>
  \<open>sched_init\<close> and the start of the first thread: no task but the scheduler's is in use.
\<close>

definition kernel_start :: "kernel \<Rightarrow> bool" where
  "kernel_start k \<longleftrightarrow> 0 < task_total k \<and> task_current k = 0 \<and> sched_current_priority k = -1
     \<and> (\<forall>i\<in>{1..<task_total k}. t_flags (task_table k i) = 0 \<and> st_flags (sched_table k i) = 0
          \<and> st_priority (sched_table k i) = 0)"

inductive kernel_reach :: "kernel \<Rightarrow> bool" where
  kr_start: "kernel_start k \<Longrightarrow> kernel_reach k"
| kr_first: "kernel_start k \<Longrightarrow> 0 \<le> at_priority a \<Longrightarrow> at_priority a \<le> SCHED_HIGHEST_PRIORITY
    \<Longrightarrow> kernel_reach (snd (sched_new_thread a k))"
| kr_step: "kernel_reach k \<Longrightarrow> kstep_ok s k \<Longrightarrow> kernel_reach (kstep_do s k)"

lemma start_kinv: "kernel_start k \<Longrightarrow> kinv k"
proof -
  assume st: "kernel_start k"
  have nr: "\<not> runnable k i" if "1 \<le> i" "i < task_total k" for i
    using st that by (auto simp: kernel_start_def runnable_def task_enabled_def)
  have "top_priority k = -1"
    by (cases k rule: top_priority_cases) (use nr in auto)
  moreover have "exec_ok k" using st nr by (auto simp: exec_ok_def kernel_start_def task_exec_asserted_def)
  moreover have "prios_ok k" using st by (auto simp: prios_ok_def kernel_start_def sched_get_priority_def)
  ultimately show "kinv k"
    using st by (auto simp: kinv_def sched_ok_def cpu_ok_def kernel_start_def sched_asserted_def)
qed

lemma tick_kinv: "kinv k \<Longrightarrow> kinv (task_check_countflag b k)"
proof -
  assume inv: "kinv k"
  have "kinv (upd_task (task_current k) (\<lambda>t. t\<lparr>t_rr_time := 0\<rparr>) k)"
    by (rule kinv_cong [OF inv])
      (simp_all add: upd_task_def runnable_def task_enabled_def task_exec_asserted_def sched_get_priority_def sched_asserted_def)
  then show ?thesis using inv switch_kinv by (auto simp: task_check_countflag_def)
qed

lemma kstep_kinv:
  assumes inv: "kinv k" and ok: "kstep_ok s k"
  shows "kinv (kstep_do s k)"
proof (cases s)
  case (K_Block obj)
  then show ?thesis using block_kinv [OF inv] ok by (simp add: running_def)
next
  case (K_TimedBlock obj tv)
  then show ?thesis using timedblock_kinv [OF inv] ok by (simp add: running_def)
next
  case (K_WaitJoined st)
  then show ?thesis using wait_joined_kinv [OF inv] ok by (simp add: running_def)
next
  case (K_Join i)
  then show ?thesis using join_kinv [OF inv] inv ok by (auto simp: running_def split: option.split)
next
  case K_Cleanup
  then show ?thesis using cleanup_kinv [OF inv] ok by (simp add: running_def)
next
  case (K_NewThread a)
  then show ?thesis using new_thread_kinv [OF inv] ok by simp
next
  case (K_Transfer obj r n)
  then show ?thesis using device_transfer_kinv [OF inv] ok by (simp add: running_def)
next
  case (K_StopThreads b st)
  then show ?thesis using stop_threads_kinv [OF inv] ok by (simp add: running_def)
next
  case (K_Zombie b)
  then show ?thesis using zombie_kinv [OF inv] ok by (simp add: running_def)
next
  case (K_WaitPid p)
  then show ?thesis using wait_kinv [OF inv] ok by (simp add: running_def)
next
  case K_Yield
  have "kinv (task_priv_switch_context k)"
  proof -
    have "sched_ok (task_priv_switch_context k)" using kinvD(1) [OF inv] by (subst sched_ok_cong [of _ k]) simp_all
    then show ?thesis using inv by (simp add: kinv_def cpu_ok_def)
  qed
  then show ?thesis using K_Yield by simp
next
  case (K_Wake i ty)
  then show ?thesis using wake_kinv [OF inv] ok by simp
next
  case (K_Match v)
  have "kinv (k\<lparr>tmr_val := v\<rparr>)"
    by (rule kinv_cong [OF inv]) (simp_all add: runnable_def task_enabled_def task_exec_asserted_def sched_get_priority_def sched_asserted_def)
  then show ?thesis using match_kinv K_Match by simp
next
  case K_Overflow
  have "kinv (k\<lparr>usecond_counter := usecond_counter k + 1\<rparr>)" by (rule kinv_cong [OF inv]) simp_all
  then show ?thesis using match_kinv K_Overflow by (simp add: usecond_overflow_event_def)
next
  case (K_TransferDone obj tid c n)
  then show ?thesis using transfer_done_kinv [OF inv] ok by auto
next
  case K_Switch
  then show ?thesis using switch_kinv [OF inv] by simp
next
  case K_Tick
  then show ?thesis using tick_kinv [OF inv] by simp
next
  case (K_Time v)
  have "kinv (k\<lparr>systick_val := v\<rparr>)"
    by (rule kinv_cong [OF inv]) (simp_all add: runnable_def task_enabled_def task_exec_asserted_def sched_get_priority_def sched_asserted_def)
  then show ?thesis using K_Time by simp
qed

lemma reach_kinv: "kernel_reach k \<Longrightarrow> kinv k"
  by (induction rule: kernel_reach.induct) (auto intro: start_kinv new_thread_kinv kstep_kinv)

subsection \<open>Properties\<close>

definition demo_thread :: "int \<Rightarrow> thread_attr" where
  "demo_thread p = \<lparr>at_policy = SCHED_RR, at_joinable = True, at_priority = p\<rparr>"

definition demo_kernel :: kernel where
  "demo_kernel = snd (sched_new_thread (demo_thread 2) demo_start)"


lemma demo_reach: "kernel_reach demo_kernel"
proof -
  have "kernel_start demo_start" by (auto simp: kernel_start_def demo_start_def idle_entry_def)
  then show ?thesis unfolding demo_kernel_def by (rule kr_first) (simp_all add: demo_thread_def)
qed

lemma demo_kernel_sel:
  "task_total demo_kernel = 3" "runnable demo_kernel 1" "\<not> runnable demo_kernel 2"
  "sched_get_priority demo_kernel 1 = 2" "pendsv demo_kernel"
proof -
  have u: "find_unused demo_start 1 = Some 1"
    by (simp add: find_unused.simps demo_start_def task_enabled_def)
  have z: "task_get_thread_zero (task_get_pid demo_start (task_current demo_start)) demo_start = Some 0"
    by (simp add: task_get_thread_zero_def demo_start_def upt_rec task_enabled_def task_get_pid_def
      task_isthread_asserted_def flag_has_def)
  have e: "\<not> runnable demo_start 2" by code_simp
  have c: "sched_current_priority demo_start = -1" "task_total demo_start = 3" by code_simp+
  have "task_total demo_kernel = 3 \<and> runnable demo_kernel 1 \<and> \<not> runnable demo_kernel 2
    \<and> sched_get_priority demo_kernel 1 = 2 \<and> pendsv demo_kernel"
  proof (cases "demo_thread 2" demo_start rule: new_thread_cases)
    case 1
    then show ?thesis using u z by (auto simp: sched_new_thread_def task_priv_new_task_def split: if_splits)
  next
    case (2 z i)
    then show ?thesis using u e c
      by (simp add: demo_kernel_def demo_thread_def sched_priv_update_on_wake_def Let_def)
  qed
  then show "task_total demo_kernel = 3" "runnable demo_kernel 1" "\<not> runnable demo_kernel 2"
    "sched_get_priority demo_kernel 1 = 2" "pendsv demo_kernel" by auto
qed


text \<open>The time slices after a wrap-around.\<close>

lemma reload_exec [simp]: "task_exec_asserted (reload_task k i) j = task_exec_asserted k j"
  by (simp add: task_exec_asserted_def)

lemma reload_rr:
  "t_rr_time (task_table (foldl reload_task k is) j)
    = (if j \<in> set is \<and> task_exec_asserted k j then rr_reload k else t_rr_time (task_table k j))"
  by (induction "is" arbitrary: k) (auto simp: reload_task_def upd_task_def task_exec_asserted_def)

lemma reload_zero_sel:
  "task_total (reload_zero k) = task_total k" "rr_reload (reload_zero k) = rr_reload k"
  "j \<noteq> 0 \<Longrightarrow> task_table (reload_zero k) j = task_table k j"
  by (simp_all add: reload_zero_def upd_task_def)

lemma wrap_rr:
  assumes "\<And>i. 1 \<le> i \<Longrightarrow> i < task_total k \<Longrightarrow> task_exec_asserted k i
      \<Longrightarrow> t_rr_time (task_table k i) < SYSTICK_MIN_CYCLES"
    and "1 \<le> j" "j < task_total k" "task_exec_asserted k j"
  shows "t_rr_time (task_table (wrap_around k) j) = rr_reload k"
proof -
  have e: "task_exec_asserted (reload_zero k) i = task_exec_asserted k i" if "i \<noteq> 0" for i
    using reload_zero_sel(3) [OF that, of k] by (simp add: task_exec_asserted_def)
  have "all_used_up (reload_zero k)"
    unfolding all_used_up_def list_ex_iff
    using assms(1) e by (auto simp: reload_zero_sel) (metis One_nat_def Suc_le_eq gr_implies_not0 not_le reload_zero_sel(3))
  then show ?thesis
    using assms(2-4) e [of j] by (simp add: wrap_around_def Let_def reload_rr reload_zero_sel)
qed

text \<open>
  the context switch gives the processor to the next executing task, in the order of the table,
  that has time left (or is a FIFO task), and to the scheduler at the end of the table; when it
  reaches the scheduler and no executing task has time left, each gets a full time slice again.
\<close>

theorem context_switch_round_robin:
  assumes "k' = task_context_switcher k"
  shows "(task_current k' = 0 \<and> (\<forall>j\<in>{task_current k<..<task_total k}. \<not> may_run k j)
      \<or> task_current k' \<in> {task_current k<..<task_total k} \<and> may_run k (task_current k')
        \<and> (\<forall>j\<in>{task_current k<..<task_current k'}. \<not> may_run k j))
    \<and> (task_current k' = 0
        \<and> (\<forall>i\<in>{1..<task_total k}. task_exec_asserted k i \<longrightarrow> t_rr_time (task_table k i) < SYSTICK_MIN_CYCLES)
        \<longrightarrow> (\<forall>i\<in>{1..<task_total k}. task_exec_asserted k i \<longrightarrow> t_rr_time (task_table k' i) = rr_reload k))"
proof -
  have 1: "next_task k (task_current k) = 0 \<Longrightarrow> task_table k' = task_table (wrap_around k)"
    by (simp add: assms task_context_switcher_def Let_def)
  show ?thesis
    using next_task_spec [of k "task_current k"] wrap_rr [of k] 1 by (auto simp: assms)
qed

definition demo_slices :: "int \<Rightarrow> int \<Rightarrow> kernel" where
  "demo_slices a b = demo_start\<lparr>task_current := 1, task_table := (\<lambda>i. \<lparr>t_pid = 0, t_flags = 0x300,
     t_rr_time = (if i = 1 then a else b), t_timer = 0\<rparr>)\<rparr>"

lemma demo_slices_sel:
  "task_total (demo_slices a b) = 3" "task_current (demo_slices a b) = 1"
  "task_exec_asserted (demo_slices a b) i" "rr_reload (demo_slices a b) = 720000"
  "t_rr_time (task_table (demo_slices a b) i) = (if i = 1 then a else b)"
  "\<not> task_isfifo_asserted (demo_slices a b) i"
  by (simp_all add: demo_slices_def demo_start_def task_exec_asserted_def task_isfifo_asserted_def)

theorem context_switch_round_robin_witness:
  "task_current (task_context_switcher (demo_slices 0 20000)) = 2
   \<and> task_current (task_context_switcher (demo_slices 0 500)) = 0
   \<and> t_rr_time (task_table (task_context_switcher (demo_slices 0 500)) 1) = 720000"
proof -
  have i: "{1<..<3} = {2 :: nat}" "{1..<3} = {1, 2 :: nat}" by auto
  show ?thesis
    using context_switch_round_robin [of _ "demo_slices 0 20000", OF refl]
      context_switch_round_robin [of _ "demo_slices 0 500", OF refl]
    by (simp only: demo_slices_sel may_run_def i) auto
qed

text \<open>
  waking a task that a signal has stopped, with a priority above the current one, takes the
  processor from every task: the current priority becomes that of the stopped task, and none is
  left executing, although there may be runnable tasks.
\<close>

theorem waking_stopped_task_stops_all:
  assumes "sched_ok k" and "i \<in> {1..<task_total k}" and "sched_stopped_asserted k i"
    and "sched_get_priority k i > sched_current_priority k"
    and "k' = sched_priv_update_on_wake (sched_get_priority k i) (sched_priv_assert_active i ty k)"
    and "j \<in> {1..<task_total k}"
  shows "\<not> task_exec_asserted k' j \<and> runnable k' j = runnable k j
    \<and> sched_current_priority k' = sched_get_priority k i"
proof -
  let ?p = "sched_get_priority k i" and ?k = "sched_priv_assert_active i ty k"
  have p: "to_i8 ?p = ?p" using prios_okD [of k i] assms(1,2) by (simp add: sched_ok_def)
  have r: "runnable ?k j = runnable k j" using assms(3) by (auto simp: runnable_def)
  have "sched_get_priority k j < ?p" if "runnable k j"
    using that top_priority_upper [of k j] assms(1,4,6) by (auto simp: sched_ok_def)
  then show ?thesis using assms p r by (auto simp: sched_priv_update_on_wake_def Let_def)
qed

text \<open>Task 1 runs with priority 1; task 2, with priority 2, is stopped and inactive.\<close>

definition demo_stopped :: kernel where
  "demo_stopped = demo_start\<lparr>task_current := 1, sched_current_priority := 1,
     task_table := (\<lambda>i. \<lparr>t_pid = 0, t_flags = (if i = 1 then 0x300 else 0x100), t_rr_time = 0, t_timer = 0\<rparr>),
     sched_table := (\<lambda>i. idle_entry\<lparr>st_priority := int i, st_flags := (if i = 1 then 0x30 else 0x820)\<rparr>)\<rparr>"

theorem waking_stopped_task_stops_all_witness:
  "\<not> task_exec_asserted (sched_priv_update_on_wake 2 (sched_priv_assert_active 2 UNBLOCK_SEMAPHORE demo_stopped)) 1
   \<and> runnable demo_stopped 1"
proof -
  have s: "task_total demo_stopped = 3" "sched_current_priority demo_stopped = 1"
    "sched_get_priority demo_stopped 2 = 2" "sched_stopped_asserted demo_stopped 2" "runnable demo_stopped 1"
    by (simp_all add: demo_stopped_def demo_start_def sched_get_priority_def sched_asserted_def runnable_def task_enabled_def)
  have nr: "\<not> runnable demo_stopped 2" using s(4) by (simp add: runnable_def)
  have pr: "sched_get_priority demo_stopped i = int i" for i by (simp add: demo_stopped_def sched_get_priority_def)
  have ex: "task_exec_asserted demo_stopped 1" "\<not> task_exec_asserted demo_stopped 2"
    by (simp_all add: demo_stopped_def task_exec_asserted_def)
  have i: "{1..<3} = {1, 2 :: nat}" "[1..<3] = [1, 2 :: nat]" by (auto simp: upt_rec)
  have "sched_ok demo_stopped"
    unfolding sched_ok_def prios_ok_def exec_ok_def top_priority_def s(1) i
    using ex nr s(2,5) by (simp add: pr)
  from waking_stopped_task_stops_all [OF this _ s(4) _ refl, of 1 UNBLOCK_SEMAPHORE]
  show ?thesis using s by simp
qed

lemma cleanup_joined_entry:
  assumes "distinct is" and "j \<in> set is" and "j \<noteq> c" and "st_block_object (sched_table k j) = Tcb c" and "c = task_current k"
    and "c \<notin> set is \<or> st_block_object (sched_table k c) \<noteq> Tcb c"
  defines "f \<equiv> \<lambda>k j. if st_block_object (sched_table k j) = Tcb (task_current k)
        then sched_priv_assert_active j UNBLOCK_PTHREAD_JOINED_THREAD_COMPLETE
               (upd_sched j (\<lambda>t. t\<lparr>st_exit_status := st_exit_status (sched_table k (task_current k))\<rparr>) k)
        else k"
  shows "st_exit_status (sched_table (foldl f k is) j) = st_exit_status (sched_table k c)
    \<and> sched_active_asserted (foldl f k is) j
    \<and> sched_get_unblock_type (foldl f k is) j = unblock_code UNBLOCK_PTHREAD_JOINED_THREAD_COMPLETE
    \<and> task_current (foldl f k is) = c"
  using assms(1-6)
proof (induction "is" arbitrary: k)
  case (Cons i "is")
  have cur: "task_current (f k i) = task_current k" for k i by (simp add: f_def)
  have oth: "sched_table (f k i) x = sched_table k x" if "x \<noteq> i" for k i x
    using that by (simp add: f_def)
  show ?case
  proof (cases "i = j")
    case False
    have "st_block_object (sched_table (f k i) c) \<noteq> Tcb c \<or> c \<notin> set is"
      using Cons.prems oth [of c i k] by (cases "i = c") (auto simp: f_def)
    moreover have "st_exit_status (sched_table (f k i) c) = st_exit_status (sched_table k c)"
      using oth [of c i k] Cons.prems by (cases "i = c") (auto simp: f_def)
    ultimately show ?thesis
      using Cons.IH [of "f k i"] Cons.prems False oth [of j i k] by (auto simp: cur)
  next
    case True
    let ?k = "f k j"
    have k1: "st_exit_status (sched_table ?k j) = st_exit_status (sched_table k c)"
      "sched_active_asserted ?k j" "sched_get_unblock_type ?k j = unblock_code UNBLOCK_PTHREAD_JOINED_THREAD_COMPLETE"
      "task_current ?k = c"
      using Cons.prems(4,5) by (simp_all add: f_def)
        (simp add: sched_priv_assert_active_def sched_priv_assert_def sched_priv_set_unblock_type_def
          sched_priv_deassert_def Let_def)
    have rest: "sched_table (foldl f k' is) j = sched_table k' j \<and> task_current (foldl f k' is) = task_current k'" for k' :: "'a kernel_scheme"
      using Cons.prems(1) True by (induction "is" arbitrary: k') (auto simp: cur oth)
    show ?thesis using k1 rest [of ?k] True by (simp add: sched_asserted_def sched_get_unblock_type_def)
  qed
qed simp

lemma cleanup_joined_spec:
  assumes "j \<in> {1..<task_total k}" and "j \<noteq> task_current k" and "st_block_object (sched_table k j) = Tcb (task_current k)"
    and "st_block_object (sched_table k (task_current k)) \<noteq> Tcb (task_current k)"
  shows "st_exit_status (sched_table (cleanup_joined k) j) = st_exit_status (sched_table k (task_current k))
    \<and> sched_active_asserted (cleanup_joined k) j
    \<and> sched_get_unblock_type (cleanup_joined k) j = unblock_code UNBLOCK_PTHREAD_JOINED_THREAD_COMPLETE
    \<and> task_current (cleanup_joined k) = task_current k"
  unfolding cleanup_joined_def
  by (rule cleanup_joined_entry) (use assms in auto)

text \<open>
  C18: joining hands over the exit status. When a thread ends with a status while another one is
  joined to it, the first call finds the joined thread and stores the status, and the clean-up
  gives the status to that thread, wakes it as having seen the thread complete, and frees the entry
  of the thread that ended.
\<close>

theorem join_hands_over_exit_status:
  assumes "1 \<le> task_current k" and "task_current k < task_total k"
    and "j \<in> {1..<task_total k}" and "j \<noteq> task_current k" and "st_block_object (sched_table k j) = Tcb (task_current k)"
    and "st_block_object (sched_table k (task_current k)) \<noteq> Tcb (task_current k)"
    and "priv_wait_joined status k = (n, k1)" and "k2 = priv_cleanup k1"
  shows "n \<noteq> 0 \<and> st_exit_status (sched_table k2 j) = status \<and> sched_active_asserted k2 j
    \<and> sched_get_unblock_type k2 j = unblock_code UNBLOCK_PTHREAD_JOINED_THREAD_COMPLETE
    \<and> \<not> task_enabled k2 (task_current k)"
proof -
  let ?c = "task_current k" and ?xs = "[1..<task_total k]"
  obtain m where m: "joined_to k = Some m"
    using assms(3,5) by (cases "joined_to k") (auto simp: joined_to_def find_None_iff)
  then have "m \<in> set ?xs" by (auto simp: joined_to_def find_Some_iff)
  then have n: "n = m" "n \<noteq> 0" and k1: "k1 = upd_sched ?c (\<lambda>t. t\<lparr>st_exit_status := status\<rparr>) k"
    using m assms(7) by (auto simp: priv_wait_joined_def)
  have sel: "task_current k1 = ?c" "task_total k1 = task_total k" "st_exit_status (sched_table k1 ?c) = status"
    "st_block_object (sched_table k1 i) = st_block_object (sched_table k i)" for i
    by (simp_all add: k1)
  have e: "st_exit_status (sched_table (cleanup_joined k1) j) = status" "sched_active_asserted (cleanup_joined k1) j"
    "sched_get_unblock_type (cleanup_joined k1) j = unblock_code UNBLOCK_PTHREAD_JOINED_THREAD_COMPLETE"
    "task_current (cleanup_joined k1) = ?c"
    using cleanup_joined_spec [of j k1] assms(3-6) by (auto simp: sel)
  have tot: "task_total (cleanup_joined k1) = task_total k" using cleanup_grows [of k1] by (simp add: grows_def k1)
  have k2: "k2 = sched_priv_update_on_stopped (sched_priv_deassert_active ?c (kill ?c (cleanup_joined k1)))"
    by (simp add: assms(8) priv_cleanup_def Let_def sched_priv_update_on_sleep_def e(4))
  have "sched_table k2 j = sched_table (cleanup_joined k1) j"
    using assms(4) by (simp add: k2 sched_priv_deassert_active_def sched_priv_deassert_def kill_def)
  moreover have "\<not> task_enabled k2 ?c"
    using assms(1,2) tot by (simp add: k2 kill_def)
  ultimately show ?thesis using e n by (simp add: sched_asserted_def sched_get_unblock_type_def)
qed

text \<open>Task 1 ends; task 2 is joined to it.\<close>

definition demo_joined :: kernel where
  "demo_joined = demo_running\<lparr>sched_table := (\<lambda>i. (sched_table demo_running i)
     \<lparr>st_block_object := (if i = 2 then Tcb 1 else Null)\<rparr>)\<rparr>"

theorem join_hands_over_exit_status_witness:
  "st_exit_status (sched_table (priv_cleanup (snd (priv_wait_joined 42 demo_joined))) 2) = 42"
proof -
  have "1 \<le> task_current demo_joined" "task_current demo_joined < task_total demo_joined"
    "2 \<in> {1..<task_total demo_joined}" "2 \<noteq> task_current demo_joined"
    "st_block_object (sched_table demo_joined 2) = Tcb (task_current demo_joined)"
    "st_block_object (sched_table demo_joined (task_current demo_joined)) \<noteq> Tcb (task_current demo_joined)"
    by (simp_all add: demo_joined_def demo_running_sel)
  from join_hands_over_exit_status [OF this surjective_pairing refl] show ?thesis by simp
qed

end
