(* ===== verification/Objects.thy ===== *)
theory Objects
  imports Thread
begin

section \<open>What the blocking objects share\<close>

text \<open>
  Semaphores, mutexes, condition variables and message queues use the scheduler in the same way: a
  task that cannot go on blocks with the object's address in its entry, and whoever frees the
  object looks for the waiting task of the highest priority and wakes it in a privileged call.
  Here are the facts about this use: the set of the tasks that wait for an object and how the
  scheduler's operations change it, the frame of the scheduler (it does not touch the objects), and
  the interface \<open>waker\<close> of the privileged wake-up calls.
\<close>

subsection \<open>The scheduler leaves the objects alone\<close>

text \<open>
  The states of the objects extend the kernel record, so they are a function of its \<open>more\<close> part.
\<close>

lemma more_exec_update [simp]: "kernel.more (exec_update k i) = kernel.more k"
  by (simp add: exec_update_def task_assert_exec_def task_deassert_exec_def upd_task_def)

lemma more_execs [simp]: "kernel.more (foldl exec_update k is) = kernel.more k"
  by (induction "is" arbitrary: k) simp_all

lemma more_upd [simp]:
  "kernel.more (upd_task i f k) = kernel.more k" "kernel.more (upd_sched i g k) = kernel.more k"
  by (simp_all add: upd_task_def upd_sched_def)

lemma more_wake [simp]: "kernel.more (sched_priv_update_on_wake p k) = kernel.more k"
  by (simp add: sched_priv_update_on_wake_def task_priv_switch_context_def sched_priv_assert_status_change_def Let_def)

lemma more_sleep [simp]:
  "kernel.more (sched_priv_update_on_stopped k) = kernel.more k"
  "kernel.more (sched_priv_deassert_active i k) = kernel.more k"
  "kernel.more (sched_priv_update_on_sleep k) = kernel.more k"
  by (simp_all add: sched_priv_update_on_stopped_def sched_priv_update_on_sleep_def sched_priv_deassert_active_def
    sched_priv_deassert_def task_deassert_exec_def sched_priv_assert_status_change_def
    task_priv_switch_context_def Let_def)

lemma more_active [simp]: "kernel.more (sched_priv_assert_active i ty k) = kernel.more k"
  by (simp add: sched_priv_assert_active_def sched_priv_assert_def sched_priv_deassert_def
    sched_priv_set_unblock_type_def Let_def)

lemma more_timedblock [simp]: "kernel.more (sched_priv_timedblock obj tv k) = kernel.more k"
  by (auto simp: sched_priv_timedblock_def timedblock_prepare_def Let_def)

lemma more_wake_set [simp]: "kernel.more (wake_set P ty is k) = kernel.more k"
  unfolding wake_set_def by (induction "is" arbitrary: k) simp_all

text \<open>
  Two states with the same kernel part agree on everything the scheduler is about, whatever the
  objects beside it are.
\<close>

lemma trunc_fields:
  assumes "kernel.truncate k' = kernel.truncate k"
  shows "task_total k' = task_total k" "task_current k' = task_current k" "task_table k' = task_table k"
    "sched_table k' = sched_table k" "sched_current_priority k' = sched_current_priority k"
    "pendsv k' = pendsv k"
  using assms by (simp_all add: kernel.truncate_def)

lemma trunc_same:
  assumes t: "kernel.truncate k' = kernel.truncate k"
  shows "task_enabled k' i = task_enabled k i" "sched_asserted f k' i = sched_asserted f k i"
    "runnable k' i = runnable k i" "sched_get_priority k' i = sched_get_priority k i"
    "task_exec_asserted k' i = task_exec_asserted k i" "task_get_pid k' i = task_get_pid k i"
    "sched_get_unblock_type k' i = sched_get_unblock_type k i" "running k' = running k"
    "blocked_on k' obj i = blocked_on k obj i"
  by (simp_all add: trunc_fields [OF t] task_enabled_def sched_asserted_def runnable_def sched_get_priority_def
    task_exec_asserted_def task_get_pid_def sched_get_unblock_type_def running_def blocked_on_def)

lemma trunc_kinv:
  assumes t: "kernel.truncate k' = kernel.truncate k"
  shows "kinv k' = kinv k"
proof -
  have "top_priority k' = top_priority k" by (simp add: top_priority_def trunc_fields [OF t] trunc_same [OF t] cong: if_cong)
  then show ?thesis
    by (simp add: kinv_def sched_ok_def cpu_ok_def prios_ok_def exec_ok_def trunc_fields [OF t] trunc_same [OF t])
qed

lemma trunc_extend [simp]: "kernel.truncate (kernel.extend k e) = kernel.truncate k"
  by (simp add: kernel.truncate_def kernel.extend_def)

subsection \<open>The tasks that wait for an object\<close>

definition waiters :: "ptr \<Rightarrow> 'z kernel_scheme \<Rightarrow> nat set" where
  "waiters obj k = {i. 1 \<le> i \<and> i < task_total k \<and> blocked_on k obj i}"

lemma finite_waiters [simp, intro]: "finite (waiters obj k)"
  by (rule finite_subset [of _ "{..<task_total k}"]) (auto simp: waiters_def)

lemma waitersD: "i \<in> waiters obj k \<Longrightarrow> 1 \<le> i \<and> i < task_total k \<and> task_enabled k i \<and> blocked_on k obj i"
  by (auto simp: waiters_def blocked_on_def)

lemma waiters_cong:
  assumes "task_total k' = task_total k" and "\<And>i. task_enabled k' i = task_enabled k i"
    and "\<And>i. st_block_object (sched_table k' i) = st_block_object (sched_table k i)"
    and "\<And>i. sched_active_asserted k' i = sched_active_asserted k i"
  shows "waiters obj k' = waiters obj k"
  using assms by (simp add: waiters_def blocked_on_def)

lemma waiters_wake [simp]: "waiters obj (sched_priv_update_on_wake p k) = waiters obj k"
  by (rule waiters_cong) (simp_all add: sched_asserted_def)

lemma waiters_active [simp]: "waiters obj (sched_priv_assert_active i ty k) = waiters obj k - {i}"
  by (auto simp: waiters_def blocked_on_def task_enabled_def)

lemma deassert_active_idem [simp]:
  "sched_priv_deassert_active i (sched_priv_deassert_active i k) = sched_priv_deassert_active i k"
proof -
  have f: "flag_clear (flag_clear w n) n = flag_clear w n" for w :: "'b::len word" and n
    by (rule bit_eqI) auto
  show ?thesis
    by (simp add: sched_priv_deassert_active_def sched_priv_assert_status_change_def sched_priv_deassert_def
      task_deassert_exec_def upd_sched_def upd_task_def f)
qed

lemma waiters_sleep:
  assumes "1 \<le> task_current k" "task_current k < task_total k" "task_enabled k (task_current k)"
    and "sched_active_asserted k (task_current k)"
  shows "waiters obj (sched_priv_update_on_sleep k) =
    (if st_block_object (sched_table k (task_current k)) = obj then insert (task_current k) (waiters obj k)
     else waiters obj k)"
  using assms
  by (auto simp: waiters_def blocked_on_def sched_priv_update_on_sleep_def)

lemma waiters_upd_other [simp]:
  assumes "\<And>t. st_block_object (f t) = st_block_object t" "\<And>t. st_flags (f t) = st_flags t"
  shows "waiters obj (upd_sched i f k) = waiters obj k"
  by (rule waiters_cong) (simp_all add: assms task_enabled_def sched_asserted_def upd_sched_def)

lemma waiters_block [simp]:
  "sched_active_asserted k i \<Longrightarrow> waiters obj (upd_sched i (\<lambda>t. t\<lparr>st_block_object := p\<rparr>) k) = waiters obj k"
  by (auto simp: waiters_def blocked_on_def sched_asserted_def task_enabled_def upd_sched_def)

text \<open>A running task blocks on \<open>obj\<close>.\<close>

definition can_block :: "'z kernel_scheme \<Rightarrow> bool" where
  "can_block k \<longleftrightarrow> 1 \<le> task_current k \<and> task_current k < task_total k
     \<and> task_enabled k (task_current k) \<and> sched_active_asserted k (task_current k)"

lemma running_can_block: "kinv k \<Longrightarrow> running k \<Longrightarrow> can_block k"
  using running_runnable [of k] by (auto simp: kinv_def can_block_def running_def runnable_def cpu_ok_def)

lemma block_waiters:
  assumes "can_block k"
  shows "waiters obj (sched_priv_update_on_sleep (upd_sched (task_current k) (\<lambda>t. t\<lparr>st_block_object := p\<rparr>) k)) =
    (if p = obj then insert (task_current k) (waiters obj k) else waiters obj k)"
proof -
  let ?k = "upd_sched (task_current k) (\<lambda>t. t\<lparr>st_block_object := p\<rparr>) k"
  have "waiters obj (sched_priv_update_on_sleep ?k) =
    (if st_block_object (sched_table ?k (task_current ?k)) = obj then insert (task_current ?k) (waiters obj ?k)
     else waiters obj ?k)"
    by (rule waiters_sleep) (use assms in \<open>simp_all add: can_block_def sched_asserted_def task_enabled_def\<close>)
  then show ?thesis using assms by (simp add: can_block_def)
qed

lemma prepare_waiters:
  "can_block k \<Longrightarrow> waiters obj (snd (timedblock_prepare p tv k)) = waiters obj k"
proof -
  assume a: "can_block k"
  have "blocked_on (snd (timedblock_prepare p tv k)) obj i = blocked_on k obj i" for i
  proof (cases "i = task_current k")
    case True
    then show ?thesis using a by (simp add: blocked_on_def can_block_def sched_asserted_def)
  qed (simp add: blocked_on_def sched_asserted_def)
  then show ?thesis by (simp add: waiters_def)
qed

lemma timedblock_waiters:
  assumes "can_block k" and "p \<noteq> Null"
  shows "waiters obj (sched_priv_timedblock p tv k) =
    (if p = obj then insert (task_current k) (waiters obj k) else waiters obj k)"
proof -
  let ?k = "snd (timedblock_prepare p tv k)"
  have "waiters obj (sched_priv_update_on_sleep ?k) =
    (if st_block_object (sched_table ?k (task_current ?k)) = obj then insert (task_current ?k) (waiters obj ?k)
     else waiters obj ?k)"
    by (rule waiters_sleep) (use assms(1) in \<open>simp_all add: can_block_def sched_asserted_def\<close>)
  then show ?thesis using assms by (simp add: sched_priv_timedblock_def split_beta prepare_waiters)
qed

subsection \<open>The search for the next task\<close>

text \<open>Base priorities are not negative: they come from \<open>sched_param\<close>s the policies allow.\<close>

definition bases_ok :: "'z kernel_scheme \<Rightarrow> bool" where
  "bases_ok k \<longleftrightarrow> (\<forall>i. 0 \<le> st_sched_priority (sched_table k i))"

lemma bases_cong:
  "(\<And>i. st_sched_priority (sched_table k' i) = st_sched_priority (sched_table k i)) \<Longrightarrow> bases_ok k' = bases_ok k"
  by (simp add: bases_ok_def)

lemma bases_timedblock [simp]: "bases_ok (sched_priv_timedblock obj tv k) = bases_ok k"
  by (rule bases_cong) (auto simp: sched_priv_timedblock_def timedblock_prepare_def Let_def upd_sched_def
    sched_priv_update_on_sleep_def)

lemma trunc_objects:
  assumes t: "kernel.truncate k' = kernel.truncate k"
  shows "waiters obj k' = waiters obj k" "can_block k' = can_block k" "bases_ok k' = bases_ok k"
    "sched_get_highest_priority_blocked obj k' = sched_get_highest_priority_blocked obj k"
  by (simp_all add: waiters_def can_block_def bases_ok_def sched_get_highest_priority_blocked_def
    trunc_fields [OF t] trunc_same [OF t] cong: if_cong)

definition best_waiter :: "ptr \<Rightarrow> 'z kernel_scheme \<Rightarrow> nat \<Rightarrow> bool" where
  "best_waiter obj k n \<longleftrightarrow> n \<in> waiters obj k
     \<and> (\<forall>i\<in>waiters obj k. st_sched_priority (sched_table k i) < st_sched_priority (sched_table k n)
          \<or> st_sched_priority (sched_table k i) = st_sched_priority (sched_table k n) \<and> n \<le> i)"

lemma highest_blocked_Some:
  assumes "sched_get_highest_priority_blocked obj k = Some n"
  shows "best_waiter obj k n"
proof -
  let ?f = "\<lambda>i. st_sched_priority (sched_table k i)" and ?B = "blocked_on k obj" and ?xs = "[1..<task_total k]"
  let ?m = "scan_max ?B ?f (-1) ?xs"
  note m = scan_max_spec [of ?xs ?B ?f "-1"]
  have f: "?m \<noteq> -1" "find (\<lambda>i. ?B i \<and> ?f i = ?m) ?xs = Some n"
    using assms by (simp_all add: highest_blocked_scan scan_first_spec split: if_splits)
  note find_upt_Some [OF f(2)]
  then show ?thesis using f(1) m by (fastforce simp: best_waiter_def waiters_def)
qed

lemma highest_blocked_None:
  assumes "bases_ok k"
  shows "sched_get_highest_priority_blocked obj k = None \<longleftrightarrow> waiters obj k = {}"
proof
  assume N: "sched_get_highest_priority_blocked obj k = None"
  let ?f = "\<lambda>i. st_sched_priority (sched_table k i)" and ?B = "blocked_on k obj" and ?xs = "[1..<task_total k]"
  let ?m = "scan_max ?B ?f (-1) ?xs"
  note m = scan_max_spec [of ?xs ?B ?f "-1"]
  have r: "sched_get_highest_priority_blocked obj k = (if ?m = -1 then None else find (\<lambda>i. ?B i \<and> ?f i = ?m) ?xs)"
    by (simp add: highest_blocked_scan scan_first_spec)
  show "waiters obj k = {}"
  proof (rule ccontr)
    assume "waiters obj k \<noteq> {}"
    then obtain i where i: "i \<in> set ?xs" "?B i" by (auto simp: waiters_def)
    then have "?f i \<le> ?m" using m by blast
    moreover have "0 \<le> ?f i" using assms by (simp add: bases_ok_def)
    ultimately have "?m \<noteq> -1" by linarith
    then show False using N r m by (auto simp: find_None_iff)
  qed
next
  assume "waiters obj k = {}"
  then show "sched_get_highest_priority_blocked obj k = None"
    using highest_blocked_Some [of obj k] by (cases "sched_get_highest_priority_blocked obj k") (auto simp: best_waiter_def)
qed

subsection \<open>Waking one task\<close>

text \<open>
  The contract of the privileged wake-up calls (\<open>priv_sem_post\<close>, \<open>priv_cond_signal\<close>,
  \<open>priv_wake_blocked\<close>): the task becomes active for the given reason, and the scheduler is told its
  priority.
\<close>

locale waker =
  fixes wake :: "nat \<Rightarrow> 'z kernel_scheme \<Rightarrow> 'z kernel_scheme" and ty :: unblock_type
  assumes wake_eq: "wake i k = sched_priv_update_on_wake (sched_get_priority k i) (sched_priv_assert_active i ty k)"
begin

lemma waker_kinv: "kinv k \<Longrightarrow> i \<in> waiters obj k \<Longrightarrow> kinv (wake i k)"
  using waitersD [of i obj k] wake_kinv [of k i ty] by (simp add: wake_eq)

lemma wake_more [simp]: "kernel.more (wake i k) = kernel.more k"
  by (simp add: wake_eq)

lemma wake_frame [simp]:
  "task_total (wake i k) = task_total k" "task_current (wake i k) = task_current k"
  "task_enabled (wake i k) j = task_enabled k j"
  "st_sched_priority (sched_table (wake i k) j) = st_sched_priority (sched_table k j)"
  "j \<noteq> i \<Longrightarrow> sched_table (wake i k) j = sched_table k j"
  by (simp_all add: wake_eq)

lemma wake_waiters: "waiters obj (wake i k) = waiters obj k - {i}"
  by (simp add: wake_eq)

lemma wake_entry [simp]:
  "sched_active_asserted (wake i k) i" "sched_get_unblock_type (wake i k) i = unblock_code ty"
  "st_block_object (sched_table (wake i k) i) = Null"
  using assert_active_unblock [of i ty k] by (simp_all add: wake_eq sched_get_unblock_type_def)

text \<open>Waking the task the search yields serves exactly one waiter, the best one, if there is any.\<close>

lemma serve_spec:
  assumes "bases_ok k" and "k' = (case sched_get_highest_priority_blocked obj k of None \<Rightarrow> k | Some i \<Rightarrow> wake i k)"
  obtains "waiters obj k = {}" "k' = k"
  | n where "best_waiter obj k n" "k' = wake n k" "waiters obj k' = waiters obj k - {n}"
proof (cases "sched_get_highest_priority_blocked obj k")
  case None
  then show ?thesis using assms highest_blocked_None [OF assms(1), of obj] by (intro that(1)) simp_all
next
  case (Some n)
  then show ?thesis using that(2) [OF highest_blocked_Some [OF Some]] assms by (simp add: wake_waiters)
qed

lemma serve_kinv:
  "kinv k \<Longrightarrow> kinv (case sched_get_highest_priority_blocked obj k of None \<Rightarrow> k | Some i \<Rightarrow> wake i k)"
  by (auto split: option.split dest!: highest_blocked_Some simp: best_waiter_def intro: waker_kinv)

end

subsection \<open>A concrete kernel state\<close>

text \<open>Tasks 1 and 2 of the process 7 run with priority 2; task 1 is executing.\<close>

definition demo_pair :: kernel where
  "demo_pair = demo_start\<lparr>task_current := 1, sched_current_priority := 2,
     task_table := (\<lambda>i. \<lparr>t_pid = 7, t_flags = 0x300, t_rr_time = 9, t_timer = 0\<rparr>),
     sched_table := (\<lambda>i. idle_entry\<lparr>st_priority := 2, st_sched_priority := 2, st_flags := 0x30\<rparr>)\<rparr>"

lemma demo_pair_sel:
  "task_total demo_pair = 3" "task_current demo_pair = 1" "\<not> pendsv demo_pair" "sched_current_priority demo_pair = 2"
  "task_enabled demo_pair i" "task_exec_asserted demo_pair i" "sched_active_asserted demo_pair i"
  "\<not> sched_stopped_asserted demo_pair i" "sched_get_priority demo_pair i = 2" "task_get_pid demo_pair i = 7"
  "sched_get_unblock_type demo_pair i = 0" "st_sched_priority (sched_table demo_pair i) = 2"
  "st_block_object (sched_table demo_pair i) = Null"
  unfolding demo_pair_def demo_start_def idle_entry_def
  by (simp_all add: task_enabled_def task_exec_asserted_def sched_asserted_def sched_get_priority_def
    task_get_pid_def sched_get_unblock_type_def UNBLOCK_MASK_def bit_numeral_rec)

lemma demo_pair_facts: "kinv demo_pair" "running demo_pair" "bases_ok demo_pair" "waiters obj demo_pair = {}"
proof -
  have r: "runnable demo_pair i" for i by (simp add: runnable_def demo_pair_sel)
  have "top_priority demo_pair = 2"
    unfolding top_priority_def by (simp add: r demo_pair_sel upt_rec numeral_eq_Suc)
  then show "kinv demo_pair"
    by (simp add: kinv_def sched_ok_def prios_ok_def exec_ok_def cpu_ok_def r demo_pair_sel)
  show "running demo_pair" "bases_ok demo_pair" "waiters obj demo_pair = {}"
    by (simp_all add: running_def bases_ok_def waiters_def blocked_on_def demo_pair_sel)
qed

end
