(* ===== verification/Sem.thy ===== *)
theory Sem
  imports Objects
begin

section \<open>POSIX semaphores (sys/semaphore/sem.c, include/semaphore.h)\<close>

text \<open>
  The kernel record extended by the memory that holds the semaphores, by address, and by the list of
  the named ones (the addresses of its entries, in the order of the links). A pointer is an optional
  address; memory that the allocator returns keeps what it held. \<open>NAME_MAX\<close>, a constant of the C
  library, is the parameter \<open>nmax\<close>. A name that a caller passes is its characters without the
  terminator; the name field of a semaphore is the whole array.

  A call that blocks is split where the task is switched out: the definition gives the state in
  which the processor is left to other tasks, and what remains to be done when the task runs again
  is a definition of its own (\<open>sem_timedwait_resume\<close>); \<open>sem_wait\<close> has nothing left to do but return.
\<close>

record sem_t =
  sem_is_initialized :: int
  sem_value :: u32
  sem_pshared :: int
  sem_pid :: int
  sem_references :: int
  sem_name :: string
  sem_mode :: int

record sem_kernel = kernel +
  sem_mem :: "nat \<Rightarrow> sem_t"
  sem_entries :: "nat list"

definition upd_sem :: "nat \<Rightarrow> (sem_t \<Rightarrow> sem_t) \<Rightarrow> 'z sem_kernel_scheme \<Rightarrow> 'z sem_kernel_scheme" where
  "upd_sem a f k = k\<lparr>sem_mem := (sem_mem k)(a := f (sem_mem k a))\<rparr>"

definition getpid :: "'z kernel_scheme \<Rightarrow> int" where
  "getpid k = task_get_pid k (task_current k)"

subsection \<open>Named semaphores\<close>

definition sem_find_named :: "nat \<Rightarrow> string \<Rightarrow> 'z sem_kernel_scheme \<Rightarrow> nat option" where
  "sem_find_named nmax nm k =
     find (\<lambda>a. sem_is_initialized (sem_mem k a) \<noteq> 0 \<and> strncmp_eq nmax (sem_name (sem_mem k a)) nm) (sem_entries k)"

text \<open>\<open>malloc\<close> is the result of the allocator if it is asked; a new entry goes to the end of the list.\<close>

definition sem_find_free :: "nat option \<Rightarrow> 'z sem_kernel_scheme \<Rightarrow> nat option \<times> 'z sem_kernel_scheme" where
  "sem_find_free malloc k =
     (case find (\<lambda>a. sem_is_initialized (sem_mem k a) = 0) (sem_entries k) of
        Some a \<Rightarrow> (Some a, k)
      | None \<Rightarrow> (case malloc of
            None \<Rightarrow> (None, k)
          | Some a \<Rightarrow> (Some a, k\<lparr>sem_entries := sem_entries k @ [a]\<rparr>)))"

definition check_initialized :: "nat option \<Rightarrow> 'z sem_kernel_scheme \<Rightarrow> errno option" where
  "check_initialized sem k =
     (case sem of
        None \<Rightarrow> Some EINVAL
      | Some a \<Rightarrow>
          if sem_is_initialized (sem_mem k a) = 0 then Some EINVAL
          else if sem_pshared (sem_mem k a) = 0 \<and> task_get_pid k (task_current k) \<noteq> sem_pid (sem_mem k a)
          then Some EACCES else None)"

text \<open>A function that checks its semaphore first; the rest may rely on the pointer.\<close>

definition checked :: "nat option \<Rightarrow> (nat \<Rightarrow> 'z sem_kernel_scheme \<Rightarrow> (errno + int) \<times> 'z sem_kernel_scheme)
    \<Rightarrow> 'z sem_kernel_scheme \<Rightarrow> (errno + int) \<times> 'z sem_kernel_scheme" where
  "checked sem body k = (case check_initialized sem k of Some e \<Rightarrow> (Inl e, k) | None \<Rightarrow> body (the sem) k)"

definition sem_init :: "nat \<Rightarrow> nat option \<Rightarrow> int \<Rightarrow> u32 \<Rightarrow> 'z sem_kernel_scheme \<Rightarrow> (errno + int) \<times> 'z sem_kernel_scheme" where
  "sem_init nmax sem pshared v k =
     (case sem of
        None \<Rightarrow> (Inl EINVAL, k)
      | Some a \<Rightarrow> (Inr 0, upd_sem a (\<lambda>s. s\<lparr>sem_is_initialized := 1, sem_value := v, sem_pshared := pshared,
           sem_pid := getpid k, sem_name := memset nmax NUL (sem_name s)\<rparr>) k))"

definition sem_destroy :: "nat option \<Rightarrow> 'z sem_kernel_scheme \<Rightarrow> (errno + int) \<times> 'z sem_kernel_scheme" where
  "sem_destroy sem = checked sem (\<lambda>a k. (Inr 0, upd_sem a (\<lambda>s. s\<lparr>sem_is_initialized := 0\<rparr>) k))"

text \<open>The value is stored through an \<open>int\<close> pointer: it is read as a signed number.\<close>

definition sem_getvalue :: "nat option \<Rightarrow> 'z sem_kernel_scheme \<Rightarrow> errno + int" where
  "sem_getvalue sem k =
     (case check_initialized sem k of Some e \<Rightarrow> Inl e | None \<Rightarrow> Inr (sint (sem_value (sem_mem k (the sem)))))"

text \<open>The flags of \<open>sem_open\<close> are \<open>O_CREAT\<close> and \<open>O_EXCL\<close>; the others are not read.\<close>

definition sem_open :: "nat \<Rightarrow> nat option \<Rightarrow> string \<Rightarrow> bool \<Rightarrow> bool \<Rightarrow> int \<Rightarrow> u32 \<Rightarrow> 'z sem_kernel_scheme
    \<Rightarrow> (errno option + nat) \<times> 'z sem_kernel_scheme" where
  "sem_open nmax malloc nm creat excl mode v k =
     (if strnlen nm nmax = nmax then (Inl (Some ENAMETOOLONG), k)
      else
        (case sem_find_named nmax nm k of
           Some a \<Rightarrow>
             if creat \<and> excl then (Inl (Some EEXIST), k)
             else (Inr a, upd_sem a (\<lambda>s. s\<lparr>sem_references := sem_references s + 1\<rparr>) k)
         | None \<Rightarrow>
             if \<not> creat then (Inl (Some ENOENT), k)
             else
               (case sem_find_free malloc k of
                  (None, k1) \<Rightarrow> (Inl None, k1)
                | (Some a, k1) \<Rightarrow>
                    (Inr a, upd_sem a (\<lambda>s. s\<lparr>sem_is_initialized := 1, sem_value := v, sem_references := 1,
                       sem_mode := mode, sem_name := strncpy (nmax - 1) (sem_name s) nm\<rparr>) k1))))"

definition sem_close :: "nat option \<Rightarrow> 'z sem_kernel_scheme \<Rightarrow> (errno + int) \<times> 'z sem_kernel_scheme" where
  "sem_close sem = checked sem (\<lambda>a k.
     (let k1 = (if sem_references (sem_mem k a) > 0 then upd_sem a (\<lambda>s. s\<lparr>sem_references := sem_references s - 1\<rparr>) k else k)
      in if sem_references (sem_mem k1 a) = 0 \<and> sem_is_initialized (sem_mem k1 a) = 2
         then (Inr 0, upd_sem a (\<lambda>s. s\<lparr>sem_is_initialized := 0\<rparr>) k1) else (Inr 0, k1)))"

definition sem_unlink :: "nat \<Rightarrow> string \<Rightarrow> 'z sem_kernel_scheme \<Rightarrow> (errno + int) \<times> 'z sem_kernel_scheme" where
  "sem_unlink nmax nm k =
     (if strnlen nm nmax = nmax then (Inl ENAMETOOLONG, k)
      else
        (case sem_find_named nmax nm k of
           None \<Rightarrow> (Inl ENOENT, k)
         | Some a \<Rightarrow> checked (Some a) (\<lambda>a k.
             if sem_references (sem_mem k a) = 0 then (Inr 0, upd_sem a (\<lambda>s. s\<lparr>sem_is_initialized := 0\<rparr>) k)
             else (Inr 0, upd_sem a (\<lambda>s. s\<lparr>sem_is_initialized := 2\<rparr>) k)) k))"

subsection \<open>Waiting and posting\<close>

definition priv_sem_post :: "nat \<Rightarrow> 'z kernel_scheme \<Rightarrow> 'z kernel_scheme" where
  "priv_sem_post i k =
     (let k1 = upd_sched i (\<lambda>t. t\<lparr>st_block_object := Null\<rparr>) k;
          k2 = sched_priv_assert_active i UNBLOCK_SEMAPHORE k1
      in sched_priv_update_on_wake (st_priority (sched_table k2 i)) k2)"

text \<open>
  A post counts and looks for a waiting task in user code, where it can be preempted; only the wake-up is privileged.
  \<open>sem_post\<close> is the call when no other task runs between its steps; what happens otherwise is
  \<open>sem_post_overtaken\<close>.
\<close>

definition sem_post_count :: "nat \<Rightarrow> 'z sem_kernel_scheme \<Rightarrow> 'z sem_kernel_scheme" where
  "sem_post_count a k = upd_sem a (\<lambda>s. s\<lparr>sem_value := sem_value s + 1\<rparr>) k"

definition sem_post_search :: "nat \<Rightarrow> 'z kernel_scheme \<Rightarrow> nat option" where
  "sem_post_search a k = sched_get_highest_priority_blocked (Addr a) k"

definition sem_post_wake :: "nat option \<Rightarrow> 'z kernel_scheme \<Rightarrow> 'z kernel_scheme" where
  "sem_post_wake new_thread k = (case new_thread of None \<Rightarrow> k | Some i \<Rightarrow> priv_sem_post i k)"

definition sem_post :: "nat option \<Rightarrow> 'z sem_kernel_scheme \<Rightarrow> (errno + int) \<times> 'z sem_kernel_scheme" where
  "sem_post sem = checked sem (\<lambda>a k.
     (let k1 = sem_post_count a k in (Inr 0, sem_post_wake (sem_post_search a k1) k1)))"

lemmas sem_post_steps = sem_post_count_def sem_post_search_def sem_post_wake_def

text \<open>\<open>value\<close> is \<open>unsigned\<close>, so \<open>value <= 0\<close> is \<open>value == 0\<close>.\<close>

definition priv_sem_timedwait :: "nat \<Rightarrow> sched_timeval \<Rightarrow> 'z sem_kernel_scheme \<Rightarrow> 'z sem_kernel_scheme" where
  "priv_sem_timedwait a interval k =
     upd_sem a (\<lambda>s. s\<lparr>sem_value := sem_value s - 1\<rparr>)
       (if sem_value (sem_mem k a) \<le> 0 then sched_priv_timedblock (Addr a) interval k else k)"

definition sem_timedwait :: "nat option \<Rightarrow> (int \<times> int) option \<Rightarrow> 'z sem_kernel_scheme \<Rightarrow> (errno + int) \<times> 'z sem_kernel_scheme" where
  "sem_timedwait sem abs_timeout =
     checked sem (\<lambda>a k. (Inr 0, priv_sem_timedwait a (sched_convert_timespec abs_timeout) k))"

definition sem_timedwait_resume :: "nat \<Rightarrow> 'z sem_kernel_scheme \<Rightarrow> (errno + int) \<times> 'z sem_kernel_scheme" where
  "sem_timedwait_resume a k =
     (if sched_get_unblock_type k (task_current k) = unblock_code UNBLOCK_SLEEP
      then (Inl ETIMEDOUT, upd_sem a (\<lambda>s. s\<lparr>sem_value := sem_value s + 1\<rparr>) k)
      else (Inr 0, k))"

definition priv_sem_trywait :: "nat \<Rightarrow> 'z sem_kernel_scheme \<Rightarrow> (errno + int) \<times> 'z sem_kernel_scheme" where
  "priv_sem_trywait a k =
     (if sem_value (sem_mem k a) > 0 then (Inr 0, upd_sem a (\<lambda>s. s\<lparr>sem_value := sem_value s - 1\<rparr>) k)
      else (Inl EAGAIN, k))"

definition sem_trywait :: "nat option \<Rightarrow> 'z sem_kernel_scheme \<Rightarrow> (errno + int) \<times> 'z sem_kernel_scheme" where
  "sem_trywait sem = checked sem priv_sem_trywait"

definition priv_sem_wait :: "nat \<Rightarrow> 'z sem_kernel_scheme \<Rightarrow> 'z sem_kernel_scheme" where
  "priv_sem_wait a k =
     (let k1 = upd_sched (task_current k) (\<lambda>t. t\<lparr>st_block_object := Addr a\<rparr>) k;
          k2 = (if sem_value (sem_mem k1 a) \<le> 0
                then sched_priv_update_on_sleep (sched_priv_deassert_active (task_current k1) k1) else k1)
      in upd_sem a (\<lambda>s. s\<lparr>sem_value := sem_value s - 1\<rparr>) k2)"

definition sem_wait :: "nat option \<Rightarrow> 'z sem_kernel_scheme \<Rightarrow> (errno + int) \<times> 'z sem_kernel_scheme" where
  "sem_wait sem = checked sem (\<lambda>a k. (Inr 0, priv_sem_wait a k))"

subsection \<open>Frames\<close>

lemma trunc_upd_sem [simp]: "kernel.truncate (upd_sem a f k) = kernel.truncate k"
  by (simp add: upd_sem_def kernel.truncate_def)

lemmas upd_sem_kernel [simp] =
  trunc_fields [OF trunc_upd_sem] trunc_same [OF trunc_upd_sem] trunc_kinv [OF trunc_upd_sem]
  trunc_objects [OF trunc_upd_sem]

lemma upd_sem_sel [simp]:
  "sem_mem (upd_sem a f k) b = (if b = a then f (sem_mem k a) else sem_mem k b)"
  "sem_entries (upd_sem a f k) = sem_entries k"
  by (simp_all add: upd_sem_def)

lemma sem_more:
  "kernel.more k' = kernel.more k \<Longrightarrow> sem_mem k' = sem_mem k"
  "kernel.more k' = kernel.more k \<Longrightarrow> sem_entries k' = sem_entries k"
  by (cases k, cases k', simp)+

lemma sched_sem [simp]:
  "sem_mem (sched_priv_update_on_wake p k) = sem_mem k"
  "sem_mem (sched_priv_update_on_sleep k) = sem_mem k"
  "sem_mem (sched_priv_deassert_active i k) = sem_mem k"
  "sem_mem (sched_priv_assert_active i ty k) = sem_mem k"
  "sem_mem (sched_priv_timedblock obj tv k) = sem_mem k"
  "sem_mem (upd_sched i f k) = sem_mem k"
  by (rule sem_more(1); simp)+

lemma check_initialized_cong:
  assumes "sem_mem k' = sem_mem k" and "task_get_pid k' (task_current k') = task_get_pid k (task_current k)"
  shows "check_initialized sem k' = check_initialized sem k"
  using assms by (auto simp: check_initialized_def split: option.split)

text \<open>The privileged half of a post is a wake-up call.\<close>

interpretation sem_wake: waker priv_sem_post UNBLOCK_SEMAPHORE
proof
  fix i and k :: "'a kernel_scheme"
  have "sched_priv_assert_active i UNBLOCK_SEMAPHORE (upd_sched i (\<lambda>t. t\<lparr>st_block_object := Null\<rparr>) k)
      = sched_priv_assert_active i UNBLOCK_SEMAPHORE k"
    by (simp add: sched_priv_assert_active_def sched_priv_assert_def sched_priv_deassert_def
      sched_priv_set_unblock_type_def upd_sched_def Let_def)
  then show "priv_sem_post i k =
      sched_priv_update_on_wake (sched_get_priority k i) (sched_priv_assert_active i UNBLOCK_SEMAPHORE k)"
    by (simp add: priv_sem_post_def Let_def sched_get_priority_def)
qed

lemma sem_post_mem [simp]: "sem_mem (priv_sem_post i k) = sem_mem k"
  by (rule sem_more(1)) simp

subsection \<open>The counter and its waiters\<close>

text \<open>Waiting, as seen by the counter and the set of waiters.\<close>

lemma priv_sem_wait_cases:
  assumes c: "can_block k"
  shows "sem_mem (priv_sem_wait a k) a = (sem_mem k a)\<lparr>sem_value := sem_value (sem_mem k a) - 1\<rparr>"
    and "waiters (Addr a) (priv_sem_wait a k) =
       (if sem_value (sem_mem k a) = 0 then insert (task_current k) (waiters (Addr a) k) else waiters (Addr a) k)"
    and "kinv k \<Longrightarrow> kinv (priv_sem_wait a k)"
    and "bases_ok (priv_sem_wait a k) = bases_ok k"
proof -
  let ?k = "upd_sched (task_current k) (\<lambda>t. t\<lparr>st_block_object := Addr a\<rparr>) k"
  have sl: "sched_priv_update_on_sleep (sched_priv_deassert_active (task_current k) ?k) = sched_priv_update_on_sleep ?k"
    by (simp add: sched_priv_update_on_sleep_def)
  have e: "priv_sem_wait a k = upd_sem a (\<lambda>s. s\<lparr>sem_value := sem_value s - 1\<rparr>)
      (if sem_value (sem_mem k a) = 0 then sched_priv_update_on_sleep ?k else ?k)"
    by (simp add: priv_sem_wait_def Let_def sl)
  show "sem_mem (priv_sem_wait a k) a = (sem_mem k a)\<lparr>sem_value := sem_value (sem_mem k a) - 1\<rparr>"
    by (simp add: e)
  show "waiters (Addr a) (priv_sem_wait a k) =
       (if sem_value (sem_mem k a) = 0 then insert (task_current k) (waiters (Addr a) k) else waiters (Addr a) k)"
    using block_waiters [OF c, of "Addr a" "Addr a"] c by (simp add: e can_block_def)
  show "kinv (priv_sem_wait a k)" if "kinv k"
  proof -
    have "kinv ?k"
      by (rule kinv_cong [OF that]) (simp_all add: runnable_def task_enabled_def sched_asserted_def
        sched_get_priority_def task_exec_asserted_def upd_sched_def)
    then show ?thesis using block_kinv [OF that, of "Addr a"] c by (simp add: e can_block_def)
  qed
  show "bases_ok (priv_sem_wait a k) = bases_ok k"
    by (rule bases_cong) (simp add: e sched_priv_update_on_sleep_def upd_sched_def)
qed

text \<open>A timed wait does the same to both.\<close>

lemma priv_sem_timedwait_cases:
  assumes c: "can_block k"
  shows "sem_mem (priv_sem_timedwait a tv k) a = (sem_mem k a)\<lparr>sem_value := sem_value (sem_mem k a) - 1\<rparr>"
    and "waiters (Addr a) (priv_sem_timedwait a tv k) =
       (if sem_value (sem_mem k a) = 0 then insert (task_current k) (waiters (Addr a) k) else waiters (Addr a) k)"
    and "kinv k \<Longrightarrow> kinv (priv_sem_timedwait a tv k)"
    and "bases_ok (priv_sem_timedwait a tv k) = bases_ok k"
  using c timedblock_waiters [OF c, of "Addr a" "Addr a" tv] timedblock_kinv [of k "Addr a" tv]
  by (simp_all add: priv_sem_timedwait_def can_block_def)

lemma checked_Inr:
  "checked sem body k = (Inr r, k') \<longleftrightarrow> (\<exists>a. sem = Some a \<and> check_initialized sem k = None \<and> body a k = (Inr r, k'))"
  by (auto simp: checked_def check_initialized_def split: option.splits if_splits)

lemma sem_post_cases:
  assumes "sem_post (Some a) k = (Inr r, k')" and b: "bases_ok k" and inv: "kinv k"
  obtains "waiters (Addr a) k = {}" "waiters (Addr a) k' = {}"
      "sem_value (sem_mem k' a) = sem_value (sem_mem k a) + 1" "kinv k'" "bases_ok k'"
  | n where "best_waiter (Addr a) k n" "waiters (Addr a) k' = waiters (Addr a) k - {n}"
      "sem_value (sem_mem k' a) = sem_value (sem_mem k a) + 1" "kinv k'" "bases_ok k'"
      "sched_active_asserted k' n" "sched_get_unblock_type k' n = unblock_code UNBLOCK_SEMAPHORE"
proof -
  let ?k = "upd_sem a (\<lambda>s. s\<lparr>sem_value := sem_value s + 1\<rparr>) k"
  have k': "k' = (case sched_get_highest_priority_blocked (Addr a) ?k of None \<Rightarrow> ?k | Some i \<Rightarrow> priv_sem_post i ?k)"
    using assms(1) by (auto simp: sem_post_def sem_post_steps checked_Inr Let_def)
  have k: "bases_ok ?k" "kinv ?k" using b inv by simp_all
  have kk: "kinv k'" unfolding k' by (rule sem_wake.serve_kinv [OF k(2)])
  show ?thesis
  proof (rule sem_wake.serve_spec [OF k(1) k'])
    assume "waiters (Addr a) ?k = {}" "k' = ?k"
    then show ?thesis using that(1) k by simp
  next
    fix n assume n: "best_waiter (Addr a) ?k n" "k' = priv_sem_post n ?k" "waiters (Addr a) k' = waiters (Addr a) ?k - {n}"
    have "bases_ok k'" unfolding n(2) using k(1) by (subst bases_cong [of _ ?k]) simp_all
    moreover have "best_waiter (Addr a) k n" using n(1) by (simp add: best_waiter_def)
    ultimately show ?thesis using that(2) [of n] n(2,3) kk by simp
  qed
qed

text \<open>
  The histories of one semaphore: \<open>p\<close> posts and \<open>w\<close> calls of \<open>sem_wait\<close>, \<open>sem_trywait\<close> or \<open>sem_timedwait\<close> that
  took a unit and have not given it back, none of them called while a task waits. A timed wait that ends with ETIMEDOUT,
  after the time-out or at once, gives its unit back before the next call: \<open>k1\<close> is the state when its task runs again. Between the calls anything may happen
  that leaves the value and the waiting tasks as they are; a signal that releases a waiting task does not.
\<close>

inductive sem_hist :: "nat \<Rightarrow> nat \<Rightarrow> 'z sem_kernel_scheme \<Rightarrow> nat \<Rightarrow> nat \<Rightarrow> bool" for a v where
  sh_start: "sem_value (sem_mem k a) = of_nat v \<Longrightarrow> waiters (Addr a) k = {} \<Longrightarrow> kinv k \<Longrightarrow> bases_ok k
    \<Longrightarrow> sem_hist a v k 0 0"
| sh_wait: "sem_hist a v k p w \<Longrightarrow> running k \<Longrightarrow> waiters (Addr a) k = {}
    \<Longrightarrow> sem_wait (Some a) k = (Inr r, k') \<Longrightarrow> sem_hist a v k' p (w + 1)"
| sh_timedwait: "sem_hist a v k p w \<Longrightarrow> running k \<Longrightarrow> waiters (Addr a) k = {}
    \<Longrightarrow> sem_timedwait (Some a) t k = (Inr r, k') \<Longrightarrow> sem_hist a v k' p (w + 1)"
| sh_timeout: "sem_hist a v k p w \<Longrightarrow> 0 < w \<Longrightarrow> waiters (Addr a) k \<subseteq> {i} \<Longrightarrow> waiters (Addr a) k1 = {}
    \<Longrightarrow> sem_value (sem_mem k1 a) = sem_value (sem_mem k a) \<Longrightarrow> kinv k1 \<Longrightarrow> bases_ok k1 \<Longrightarrow> task_current k1 = i
    \<Longrightarrow> sem_timedwait_resume a k1 = (Inl ETIMEDOUT, k') \<Longrightarrow> sem_hist a v k' p (w - 1)"
| sh_trywait: "sem_hist a v k p w \<Longrightarrow> sem_trywait (Some a) k = (Inr r, k') \<Longrightarrow> waiters (Addr a) k = {}
    \<Longrightarrow> sem_hist a v k' p (w + 1)"
| sh_post: "sem_hist a v k p w \<Longrightarrow> sem_post (Some a) k = (Inr r, k') \<Longrightarrow> sem_hist a v k' (p + 1) w"
| sh_other: "sem_hist a v k p w \<Longrightarrow> kinv k' \<Longrightarrow> bases_ok k' \<Longrightarrow> sem_value (sem_mem k' a) = sem_value (sem_mem k a)
    \<Longrightarrow> waiters (Addr a) k' = waiters (Addr a) k \<Longrightarrow> sem_hist a v k' p w"

lemma unit_left:
  assumes "w \<le> n" "n < 2 ^ 32" "x = (of_nat n - of_nat w :: u32)"
  shows "x = 0 \<longleftrightarrow> w = n"
proof -
  have "x = of_nat (n - w)" using assms by (simp add: of_nat_diff)
  then have "unat x = n - w" using assms(2) by (simp add: unat_of_nat take_bit_nat_eq_self)
  then show ?thesis using assms(1) by (auto simp: unat_eq_0 [symmetric])
qed

lemma sem_hist_inv:
  assumes "sem_hist a v k p w" and "v + p < 2 ^ 32"
  shows "kinv k \<and> bases_ok k \<and> w \<le> v + p + 1 \<and> card (waiters (Addr a) k) = w - (v + p)
    \<and> sem_value (sem_mem k a) = of_nat (v + p) - of_nat w"
  using assms
proof (induction rule: sem_hist.induct)
  case (sh_wait k p w r k')
  then have ih: "kinv k" "bases_ok k" "w \<le> v + p" "sem_value (sem_mem k a) = of_nat (v + p) - of_nat w" by auto
  have k': "k' = priv_sem_wait a k" using sh_wait.hyps by (auto simp: sem_wait_def checked_Inr)
  note c = priv_sem_wait_cases [OF running_can_block [OF ih(1) sh_wait.hyps(2)], of a]
  show ?case using c ih unit_left [OF ih(3) sh_wait.prems ih(4)] sh_wait.hyps(3) by (auto simp: k')
next
  case (sh_timedwait k p w t r k')
  then have ih: "kinv k" "bases_ok k" "w \<le> v + p" "sem_value (sem_mem k a) = of_nat (v + p) - of_nat w" by auto
  have k': "k' = priv_sem_timedwait a (sched_convert_timespec t) k"
    using sh_timedwait.hyps by (auto simp: sem_timedwait_def checked_Inr)
  note c = priv_sem_timedwait_cases [OF running_can_block [OF ih(1) sh_timedwait.hyps(2)], of a "sched_convert_timespec t"]
  show ?case using c ih unit_left [OF ih(3) sh_timedwait.prems ih(4)] sh_timedwait.hyps(3) by (auto simp: k')
next
  case (sh_timeout k p w i k1 k')
  then have ih: "w \<le> v + p + 1" "card (waiters (Addr a) k) = w - (v + p)"
    "sem_value (sem_mem k a) = of_nat (v + p) - of_nat w" by auto
  have k': "k' = upd_sem a (\<lambda>s. s\<lparr>sem_value := sem_value s + 1\<rparr>) k1"
    using sh_timeout.hyps(9) by (auto simp: sem_timedwait_resume_def split: if_splits)
  have "card (waiters (Addr a) k) \<le> 1" using card_mono [OF _ sh_timeout.hyps(3)] by simp
  then have "w - 1 \<le> v + p" using ih(2) by simp
  then show ?case using sh_timeout.hyps(2,4-7) ih(3) by (simp add: k' of_nat_diff)
next
  case (sh_trywait k p w r k')
  then have ih: "kinv k" "bases_ok k" "w \<le> v + p" "sem_value (sem_mem k a) = of_nat (v + p) - of_nat w" by auto
  have k': "k' = upd_sem a (\<lambda>s. s\<lparr>sem_value := sem_value s - 1\<rparr>) k" "sem_value (sem_mem k a) > 0"
    using sh_trywait.hyps by (auto simp: sem_trywait_def checked_Inr priv_sem_trywait_def split: if_splits)
  have "w \<noteq> v + p" using k'(2) ih by auto
  then show ?case using ih sh_trywait.hyps(3) by (auto simp: k')
next
  case (sh_post k p w r k')
  then have ih: "kinv k" "bases_ok k" "w \<le> v + p + 1" "card (waiters (Addr a) k) = w - (v + p)"
    "sem_value (sem_mem k a) = of_nat (v + p) - of_nat w" by auto
  show ?case
  proof (rule sem_post_cases [OF sh_post.hyps(2) ih(2,1)])
    assume "waiters (Addr a) k = {}" "waiters (Addr a) k' = {}"
      "sem_value (sem_mem k' a) = sem_value (sem_mem k a) + 1" "kinv k'" "bases_ok k'"
    then show ?thesis using ih by auto
  next
    fix n assume "best_waiter (Addr a) k n" "waiters (Addr a) k' = waiters (Addr a) k - {n}"
      "sem_value (sem_mem k' a) = sem_value (sem_mem k a) + 1" "kinv k'" "bases_ok k'"
    then show ?thesis using ih by (auto simp: best_waiter_def)
  qed
qed auto

subsection \<open>Properties\<close>

definition demo_sem :: "u32 \<Rightarrow> sem_kernel" where
  "demo_sem v = kernel.extend demo_pair
     \<lparr>sem_mem = (\<lambda>_. \<lparr>sem_is_initialized = 0, sem_value = v, sem_pshared = 0, sem_pid = 7,
        sem_references = 0, sem_name = replicate 8 NUL, sem_mode = 0\<rparr>)(64 := \<lparr>sem_is_initialized = 1,
        sem_value = v, sem_pshared = 0, sem_pid = 7, sem_references = 0, sem_name = replicate 8 NUL, sem_mode = 0\<rparr>),
      sem_entries = []\<rparr>"

lemma demo_sem_trunc [simp]: "kernel.truncate (demo_sem v) = kernel.truncate demo_pair"
  by (simp add: demo_sem_def kernel.truncate_def kernel.extend_def)

lemmas demo_sem_kernel = trunc_fields [OF demo_sem_trunc] trunc_same [OF demo_sem_trunc] trunc_kinv [OF demo_sem_trunc]
  trunc_objects [OF demo_sem_trunc]

lemma demo_sem_sel:
  "sem_mem (demo_sem v) 64 = \<lparr>sem_is_initialized = 1, sem_value = v, sem_pshared = 0, sem_pid = 7,
     sem_references = 0, sem_name = replicate 8 NUL, sem_mode = 0\<rparr>"
  "check_initialized (Some 64) (demo_sem v) = None"
  by (simp_all add: demo_sem_def kernel.extend_def check_initialized_def task_get_pid_def demo_pair_def
    demo_start_def)

text \<open>
  C19: a semaphore counts: after any history of \<open>sem_wait\<close>, \<open>sem_trywait\<close>, \<open>sem_timedwait\<close> and \<open>sem_post\<close>
  calls with \<open>p\<close> posts and \<open>w\<close> waits that took a unit and have not given it back, exactly the waits that exceed the
  initial value and the posts are still waiting, so that never more tasks are past the semaphore than units were available,
  and no task waits while a unit is left. The histories are those in which no wait is called while a task waits, no post
  is preempted between its steps, no signal releases a waiting task, and a timed wait that ends with ETIMEDOUT gives its
  unit back before the next call.
\<close>

theorem sem_counts:
  assumes "sem_hist a v k p w" and "v + p < 2 ^ 32"
  shows "card (waiters (Addr a) k) = w - (v + p)
    \<and> w - card (waiters (Addr a) k) = min w (v + p)
    \<and> (w \<le> v + p \<longrightarrow> unat (sem_value (sem_mem k a)) = v + p - w)"
proof -
  note i = sem_hist_inv [OF assms]
  have "unat (sem_value (sem_mem k a)) = v + p - w" if "w \<le> v + p"
  proof -
    have "sem_value (sem_mem k a) = of_nat (v + p - w)" using i that by (simp add: of_nat_diff)
    then show ?thesis using assms(2) by (simp add: unat_of_nat take_bit_nat_eq_self)
  qed
  then show ?thesis using i by auto
qed

lemma demo_sem_wait: "sem_wait (Some 64) (demo_sem 0) = (Inr 0, priv_sem_wait 64 (demo_sem 0))"
  by (simp add: sem_wait_def checked_def demo_sem_sel)

theorem sem_counts_witness: "card (waiters (Addr 64) (snd (sem_wait (Some 64) (demo_sem 0)))) = 1"
proof -
  have "sem_hist 64 0 (demo_sem 0) 0 0"
    by (rule sh_start) (simp_all add: demo_sem_kernel demo_pair_facts demo_sem_sel)
  from sh_wait [OF this _ _ demo_sem_wait] have "sem_hist 64 0 (priv_sem_wait 64 (demo_sem 0)) 0 1"
    by (simp add: demo_sem_kernel demo_pair_facts)
  from sem_counts [OF this] show ?thesis by (simp add: demo_sem_wait)
qed

text \<open>
  Two posts that are both preempted after their search wake the same task twice. Task \<open>n\<close> waits on a semaphore
  that began with no unit; both posts count and find it, and the first wakes it. It takes the other unit and waits once
  more: the second post then wakes it from this wait, for which there is no unit, since the wake-up step looks neither at
  the value nor at what the task waits for.
\<close>

theorem sem_post_overtaken:
  fixes k :: "'z sem_kernel_scheme"
  assumes "sem_value (sem_mem k a) = -1" and "sem_post_search a k = Some n"
    and "k1 = sem_post_count a (sem_post_count a k)" and "sem_mem k2 = sem_mem (sem_post_wake (sem_post_search a k1) k1)"
    and "can_block k2" and "task_current k2 = n" and "waiters (Addr a) k2 = {}"
    and "sem_mem k3 = sem_mem (priv_sem_wait a k2)" and "can_block k3" and "task_current k3 = n" and "waiters (Addr a) k3 = {}"
    and "k4 = priv_sem_wait a k3" and "k5 = sem_post_wake (sem_post_search a k1) k4"
  shows "n \<in> waiters (Addr a) k4 \<and> n \<notin> waiters (Addr a) k5 \<and> sched_active_asserted k5 n
    \<and> sched_get_unblock_type k5 n = unblock_code UNBLOCK_SEMAPHORE \<and> unat (sem_value (sem_mem k5 a)) = 2 ^ 32 - 1"
proof -
  have s: "sem_post_search a k1 = Some n" using assms(2) by (simp add: assms(3) sem_post_steps)
  have v2: "sem_value (sem_mem k2 a) = 1" using assms(1) unfolding assms(4) s by (simp add: assms(3) sem_post_wake_def sem_post_count_def)
  have v3: "sem_value (sem_mem k3 a) = 0" using priv_sem_wait_cases(1) [OF assms(5), of a] v2 by (simp add: assms(8))
  note w = priv_sem_wait_cases(1,2) [OF assms(9), of a]
  have n4: "n \<in> waiters (Addr a) k4" "sem_value (sem_mem k4 a) = -1" using w v3 assms(10) by (simp_all add: assms(12))
  have k5: "k5 = priv_sem_post n k4" by (simp add: assms(13) s sem_post_wake_def)
  have "n \<notin> waiters (Addr a) k5" "sched_active_asserted k5 n" "sched_get_unblock_type k5 n = unblock_code UNBLOCK_SEMAPHORE"
    by (simp_all add: k5 sem_wake.wake_waiters)
  moreover have "unat (- 1 :: u32) = 2 ^ 32 - 1" by (simp add: unsigned_minus_1_eq_mask mask_eq_exp_minus_1)
  ultimately show ?thesis using n4 by (simp add: k5)
qed

text \<open>
  C20: a second task that waits is let through. The value is unsigned and is decremented by a wait
  that blocks, so after it the value is \<open>2^32 - 1\<close>, not negative; whatever happens meanwhile to the
  scheduler, the next task to wait on the same semaphore stays active, though no unit was posted.
\<close>

theorem sem_second_waiter_passes:
  fixes k k2 :: "'z sem_kernel_scheme"
  assumes "sem_value (sem_mem k a) = 0" and "1 \<le> task_current k"
    and "sem_mem k2 = sem_mem (priv_sem_wait a k)" and "sched_active_asserted k2 (task_current k2)"
  shows "\<not> sched_active_asserted (priv_sem_wait a k) (task_current k)
    \<and> unat (sem_value (sem_mem k2 a)) = 2 ^ 32 - 1
    \<and> sched_active_asserted (priv_sem_wait a k2) (task_current k2)
    \<and> fst (priv_sem_trywait a k2) = Inr 0"
proof -
  let ?k = "upd_sched (task_current k) (\<lambda>t. t\<lparr>st_block_object := Addr a\<rparr>) k"
  have v: "sem_value (sem_mem k2 a) = - 1"
    using assms(1,3) by (simp add: priv_sem_wait_def Let_def)
  have "\<not> sched_active_asserted (priv_sem_wait a k) (task_current k)"
    using assms(1) by (simp add: priv_sem_wait_def Let_def sched_priv_update_on_sleep_def)
  moreover have "sched_active_asserted (priv_sem_wait a k2) (task_current k2)"
    using assms(4) v by (simp add: priv_sem_wait_def Let_def sched_asserted_def upd_sched_def)
  moreover have "unat (- 1 :: u32) = 2 ^ 32 - 1"
    by (simp add: unsigned_minus_1_eq_mask mask_eq_exp_minus_1)
  ultimately show ?thesis
    using v by (simp add: priv_sem_trywait_def word_gt_0)
qed

theorem sem_second_waiter_passes_witness:
  "sched_active_asserted (priv_sem_wait 64 ((priv_sem_wait 64 (demo_sem 0))\<lparr>task_current := 2\<rparr>)) 2"
proof -
  let ?k2 = "(priv_sem_wait 64 (demo_sem 0))\<lparr>task_current := 2\<rparr>"
  have "sched_active_asserted (priv_sem_wait 64 (demo_sem 0)) 2"
    using demo_sem_kernel demo_pair_sel
    by (simp add: priv_sem_wait_def Let_def demo_sem_sel sched_priv_update_on_sleep_def)
      (simp add: sched_asserted_def upd_sched_def demo_sem_kernel)
  then have "sched_active_asserted ?k2 (task_current ?k2)" by (simp add: sched_asserted_def)
  then show ?thesis
    using sem_second_waiter_passes [of "demo_sem 0" 64 ?k2] by (simp add: demo_sem_kernel demo_pair_sel demo_sem_sel)
qed

text \<open>
  \<open>sem_timedwait\<close> on a semaphore with a unit left does not block; it takes the unit and returns 0,
  except that it gives the unit back and fails with \<open>ETIMEDOUT\<close>, without having waited, when the
  timer was what last woke the calling task (any earlier sleep will do).
\<close>

theorem sem_timedwait_available:
  assumes "check_initialized (Some a) k = None" and "0 < sem_value (sem_mem k a)"
    and "sem_timedwait (Some a) t k = (r1, k1)" and "sem_timedwait_resume a k1 = (r2, k2)"
  shows "sched_table k2 = sched_table k \<and> task_table k2 = task_table k
    \<and> (if sched_get_unblock_type k (task_current k) = unblock_code UNBLOCK_SLEEP
       then r2 = Inl ETIMEDOUT \<and> sem_value (sem_mem k2 a) = sem_value (sem_mem k a)
       else r2 = Inr 0 \<and> unat (sem_value (sem_mem k2 a)) = unat (sem_value (sem_mem k a)) - 1)"
proof -
  have k1: "k1 = upd_sem a (\<lambda>s. s\<lparr>sem_value := sem_value s - 1\<rparr>) k"
    using assms(1-3) by (auto simp: sem_timedwait_def checked_def priv_sem_timedwait_def)
  have "unat (sem_value (sem_mem k a) - 1) = unat (sem_value (sem_mem k a)) - 1"
    using assms(2) by (simp add: unat_minus_one word_gt_0)
  then show ?thesis using assms(4) by (auto simp: k1 sem_timedwait_resume_def split: if_splits)
qed

theorem sem_timedwait_available_witness:
  "fst (sem_timedwait_resume 64 (snd (sem_timedwait (Some 64) None (demo_sem 3)))) = Inr 0"
proof -
  let ?r = "sem_timedwait (Some 64) None (demo_sem 3)"
  have "fst (sem_timedwait_resume 64 (snd ?r)) = Inr 0"
    using sem_timedwait_available [of 64 "demo_sem 3" None "fst ?r" "snd ?r"
        "fst (sem_timedwait_resume 64 (snd ?r))" "snd (sem_timedwait_resume 64 (snd ?r))"]
    by (simp add: demo_sem_sel demo_sem_kernel demo_pair_sel)
  then show ?thesis .
qed

lemma find_map_upd:
  assumes "find P xs = None" and "a \<in> set xs" and "\<And>b. b \<in> set xs \<Longrightarrow> b \<noteq> a \<Longrightarrow> Q b = P b" and "Q a"
  shows "find Q xs = Some a"
proof -
  have n: "\<not> P b" if "b \<in> set xs" for b using assms(1) that by (auto simp: find_None_iff)
  have "find Q xs \<noteq> None" using assms(2,4) by (auto simp: find_None_iff)
  then obtain b where "find Q xs = Some b" by auto
  moreover from this have "b \<in> set xs" "Q b" by (auto simp: find_Some_iff)
  ultimately show ?thesis using n assms(3) by (metis)
qed

lemma sem_find_free_spec:
  assumes "sem_find_free malloc k = (Some a, k1)"
  shows "sem_mem k1 = sem_mem k" "a \<in> set (sem_entries k1)" "set (sem_entries k) \<subseteq> set (sem_entries k1)"
    "set (sem_entries k1) \<subseteq> insert a (set (sem_entries k))" "kernel.truncate k1 = kernel.truncate k"
    "sem_is_initialized (sem_mem k a) = 0 \<or> malloc = Some a"
  using assms
  by (auto simp: sem_find_free_def kernel.truncate_def find_Some_iff split: option.splits)

lemma sem_find_named_new:
  assumes "sem_find_named nmax nm k = None" "sem_find_free malloc k = (Some a, k1)"
    and "malloc = Some a \<longrightarrow> a \<notin> set (sem_entries k)"
    and "\<And>b. b \<noteq> a \<Longrightarrow> sem_mem k2 b = sem_mem k b" "sem_entries k2 = sem_entries k1"
    and "sem_is_initialized (sem_mem k2 a) \<noteq> 0" "strncmp_eq nmax (sem_name (sem_mem k2 a)) nm"
  shows "sem_find_named nmax nm k2 = Some a"
proof -
  note f = sem_find_free_spec [OF assms(2)]
  let ?P = "\<lambda>m b. sem_is_initialized (m b) \<noteq> 0 \<and> strncmp_eq nmax (sem_name (m b)) nm"
  have "find (\<lambda>b. b \<noteq> a \<and> ?P (sem_mem k) b) (sem_entries k1) = None"
    using assms(1) f(4) by (auto simp: sem_find_named_def find_None_iff)
  then have "find (?P (sem_mem k2)) (sem_entries k1) = Some a"
    by (rule find_map_upd) (use f(2) assms(4,6,7) in auto)
  then show ?thesis by (simp add: sem_find_named_def assms(5))
qed

text \<open>
  named semaphores: creating one that does not exist yields an address under which the name
  is found again, with the given value and one reference; opening the name again, with or without
  \<open>O_CREAT\<close>, yields the same semaphore with one reference more, and with \<open>O_EXCL\<close> it is refused. The
  owner (\<open>pid\<close>) and the \<open>pshared\<close> field are whatever the memory held before.
\<close>

theorem sem_open_named:
  assumes "NUL \<notin> set nm" "length nm < nmax - 1" and "sem_find_named nmax nm k = None"
    and "sem_find_free malloc k = (Some a, k0)" and "malloc = Some a \<longrightarrow> a \<notin> set (sem_entries k)"
    and "sem_open nmax malloc nm True excl mode v k = (r1, k1)"
    and "sem_open nmax malloc2 nm creat False mode2 v2 k1 = (r2, k2)"
  shows "r1 = Inr a \<and> sem_find_named nmax nm k1 = Some a \<and> sem_value (sem_mem k1 a) = v
    \<and> r2 = Inr a \<and> sem_find_named nmax nm k2 = Some a \<and> sem_value (sem_mem k2 a) = v
    \<and> sem_references (sem_mem k2 a) = 2
    \<and> fst (sem_open nmax malloc2 nm True True mode2 v2 k1) = Inl (Some EEXIST)
    \<and> sem_pid (sem_mem k2 a) = sem_pid (sem_mem k a) \<and> sem_pshared (sem_mem k2 a) = sem_pshared (sem_mem k a)"
proof -
  note f = sem_find_free_spec [OF assms(4)]
  let ?new = "\<lambda>s. s\<lparr>sem_is_initialized := 1, sem_value := v, sem_references := 1,
                       sem_mode := mode, sem_name := strncpy (nmax - 1) (sem_name s) nm\<rparr>"
  have len: "strnlen nm nmax \<noteq> nmax" using assms(2) by (simp add: strnlen_def)
  have k1: "r1 = Inr a" "k1 = upd_sem a ?new k0"
    using assms(3,4,6) len by (auto simp: sem_open_def)
  have cmp: "strncmp_eq nmax (strncpy (nmax - 1) x nm) nm" for x
    using assms(1,2) by (subst strncmp_strncpy) auto
  have n1: "sem_find_named nmax nm k1 = Some a"
    by (rule sem_find_named_new [OF assms(3-5)]) (simp_all add: k1 f(1) cmp [simplified])
  have k2: "r2 = Inr a" "k2 = upd_sem a (\<lambda>s. s\<lparr>sem_references := sem_references s + 1\<rparr>) k1"
    using assms(7) len n1 by (auto simp: sem_open_def)
  have n2: "sem_find_named nmax nm k2 = Some a"
    by (rule sem_find_named_new [OF assms(3-5)]) (simp_all add: k2 k1 f(1) cmp [simplified])
  have "fst (sem_open nmax malloc2 nm True True mode2 v2 k1) = Inl (Some EEXIST)"
    using len n1 by (simp add: sem_open_def)
  then show ?thesis using n1 n2 f(1) by (simp add: k1 k2)
qed

theorem sem_open_named_witness:
  "sem_find_named 8 ''lock'' (snd (sem_open 8 (Some 80) ''lock'' True False 0 1 (demo_sem 0))) = Some 80"
proof -
  have f: "sem_find_named 8 ''lock'' (demo_sem 0) = None"
    "sem_find_free (Some 80) (demo_sem 0) = (Some 80, (demo_sem 0)\<lparr>sem_entries := [80]\<rparr>)"
    "sem_entries (demo_sem 0) = []"
    by (simp_all add: sem_find_named_def sem_find_free_def demo_sem_def kernel.extend_def)
  let ?r = "sem_open 8 (Some 80) ''lock'' True False 0 1 (demo_sem 0)"
  let ?q = "sem_open 8 None ''lock'' False False 0 0 (snd ?r)"
  show ?thesis
    using sem_open_named [OF _ _ f(1,2), of False 0 1 "fst ?r" "snd ?r" None False 0 0 "fst ?q" "snd ?q"]
    by (simp add: f(3))
qed

lemma sem_close_step:
  assumes "check_initialized (Some a) k = None" "sem_references (sem_mem k a) = int (Suc n)"
    "sem_is_initialized (sem_mem k a) = 2"
  shows "snd (sem_close (Some a) k) = upd_sem a (\<lambda>s. s\<lparr>sem_references := int n,
    sem_is_initialized := (if n = 0 then 0 else 2)\<rparr>) k"
  using assms
  by (cases "sem_mem k a") (simp add: sem_close_def checked_def Let_def upd_sem_def)

lemma sem_close_many:
  assumes "check_initialized (Some a) k = None" "sem_references (sem_mem k a) = int n" "m \<le> n"
    "sem_is_initialized (sem_mem k a) = 2" "0 < n"
  shows "sem_mem (((\<lambda>k. snd (sem_close (Some a) k)) ^^ m) k) a =
    (sem_mem k a)\<lparr>sem_references := int (n - m), sem_is_initialized := (if m = n then 0 else 2)\<rparr>"
  using assms
proof (induction m arbitrary: k n)
  case (Suc m)
  let ?k = "upd_sem a (\<lambda>s. s\<lparr>sem_references := int (n - 1), sem_is_initialized := (if n - 1 = 0 then 0 else 2)\<rparr>) k"
  have s: "snd (sem_close (Some a) k) = ?k" by (rule sem_close_step) (use Suc.prems in auto)
  show ?case
  proof (cases "m = 0")
    case False
    then have "sem_mem (((\<lambda>k. snd (sem_close (Some a) k)) ^^ m) ?k) a =
      (sem_mem ?k a)\<lparr>sem_references := int (n - 1 - m), sem_is_initialized := (if m = n - 1 then 0 else 2)\<rparr>"
      by (intro Suc.IH) (use Suc.prems in \<open>auto simp: check_initialized_def split: if_splits\<close>)
    then show ?thesis using Suc.prems by (auto simp: funpow_Suc_right s simp del: funpow.simps)
  qed (use Suc.prems in \<open>auto simp: s\<close>)
qed auto

text \<open>
  unlinking a named semaphore that is open keeps it until its last reference is closed: with
  \<open>n > 0\<close> references it stays initialised through \<open>n - 1\<close> closes, and the \<open>n\<close>th close frees it; with
  none it is freed at once.
\<close>

theorem sem_unlink_lifecycle:
  assumes "check_initialized (Some a) k = None" and "sem_find_named nmax nm k = Some a" and "length nm < nmax"
    and "sem_references (sem_mem k a) = int n" and "m \<le> n"
  shows "fst (sem_unlink nmax nm k) = Inr 0
    \<and> sem_is_initialized (sem_mem (((\<lambda>k. snd (sem_close (Some a) k)) ^^ m) (snd (sem_unlink nmax nm k))) a)
        = (if m = n then 0 else 2)"
proof -
  have u: "sem_unlink nmax nm k = (Inr 0, upd_sem a (\<lambda>s. s\<lparr>sem_is_initialized := (if n = 0 then 0 else 2)\<rparr>) k)"
    using assms by (simp add: sem_unlink_def strnlen_def checked_def)
  show ?thesis
  proof (cases "n = 0")
    case False
    let ?k = "upd_sem a (\<lambda>s. s\<lparr>sem_is_initialized := 2\<rparr>) k"
    have "sem_mem (((\<lambda>k. snd (sem_close (Some a) k)) ^^ m) ?k) a =
      (sem_mem ?k a)\<lparr>sem_references := int (n - m), sem_is_initialized := (if m = n then 0 else 2)\<rparr>"
      by (rule sem_close_many)
        (use assms False in \<open>auto simp: check_initialized_def split: if_splits\<close>)
    then show ?thesis using False by (simp add: u)
  qed (use assms(5) in \<open>simp add: u\<close>)
qed

definition demo_named :: sem_kernel where
  "demo_named = (demo_sem 1)\<lparr>sem_mem := (\<lambda>_. \<lparr>sem_is_initialized = 1, sem_value = 1, sem_pshared = 0, sem_pid = 7,
        sem_references = 2, sem_name = ''lock'' @ replicate 4 NUL, sem_mode = 0\<rparr>), sem_entries := [64]\<rparr>"

theorem sem_unlink_lifecycle_witness:
  "sem_is_initialized (sem_mem (((\<lambda>k. snd (sem_close (Some 64) k)) ^^ 2) (snd (sem_unlink 8 ''lock'' demo_named))) 64) = 0
   \<and> sem_is_initialized (sem_mem (((\<lambda>k. snd (sem_close (Some 64) k)) ^^ 1) (snd (sem_unlink 8 ''lock'' demo_named))) 64) = 2"
proof -
  have k: "kernel.truncate demo_named = kernel.truncate demo_pair"
    by (simp add: demo_named_def demo_sem_def kernel.truncate_def kernel.extend_def)
  have f: "check_initialized (Some 64) demo_named = None"
    by (simp add: check_initialized_def trunc_fields [OF k] trunc_same [OF k] demo_pair_sel) (simp add: demo_named_def)
  have g: "sem_find_named 8 ''lock'' demo_named = Some 64" "sem_references (sem_mem demo_named 64) = int 2"
    by (simp_all add: sem_find_named_def demo_named_def strncmp_eq_def c_str_def)
  show ?thesis
    using sem_unlink_lifecycle [OF f g(1) _ g(2), of 2] sem_unlink_lifecycle [OF f g(1) _ g(2), of 1] by simp
qed

end
