(* ===== verification/Mutex.thy ===== *)
theory Mutex
  imports Objects
begin

section \<open>Mutexes (sys/pthread/pthread_mutex.c)\<close>

text \<open>
  The kernel record extended by the mutexes, by address. The three bits of \<open>flags\<close> are booleans; the
  structure itself is declared by the C library. \<open>mx_pthread\<close> is the task that owns the mutex, -1 when
  it is free. The constants \<open>PTHREAD_MAX_LOCKS\<close> and \<open>PTHREAD_MUTEX_PRIO_CEILING\<close> are those of
  \<open>src/config.h\<close>.

  A call that blocks is split where the task is switched out; only \<open>pthread_mutex_timedlock\<close> has
  something left to do when the task runs again (\<open>timedlock_resume\<close>).
\<close>

record pthread_mutex =
  mx_initialized :: bool
  mx_pshared :: bool
  mx_recursive :: bool
  mx_prio_ceiling :: int
  mx_pid :: int
  mx_lock :: int
  mx_pthread :: int

record mutexattr =
  ma_process_shared :: bool
  ma_recursive :: bool
  ma_prio_ceiling :: int

record mutex_kernel = kernel +
  mutexes :: "nat \<Rightarrow> pthread_mutex"

abbreviation PTHREAD_MAX_LOCKS :: int where "PTHREAD_MAX_LOCKS \<equiv> 1024"
abbreviation PTHREAD_MUTEX_PRIO_CEILING :: int where "PTHREAD_MUTEX_PRIO_CEILING \<equiv> 0"

definition upd_mutex :: "nat \<Rightarrow> (pthread_mutex \<Rightarrow> pthread_mutex) \<Rightarrow> 'z mutex_kernel_scheme \<Rightarrow> 'z mutex_kernel_scheme" where
  "upd_mutex a f k = k\<lparr>mutexes := (mutexes k)(a := f (mutexes k a))\<rparr>"

definition check_initialized :: "nat option \<Rightarrow> 'z mutex_kernel_scheme \<Rightarrow> errno option" where
  "check_initialized mutex k =
     (case mutex of
        None \<Rightarrow> Some EINVAL
      | Some a \<Rightarrow> if \<not> mx_initialized (mutexes k a) then Some EINVAL else None)"

definition pthread_mutex_init :: "nat option \<Rightarrow> mutexattr option \<Rightarrow> 'z mutex_kernel_scheme \<Rightarrow> (errno + int) \<times> 'z mutex_kernel_scheme" where
  "pthread_mutex_init mutex attr k =
     (case mutex of
        None \<Rightarrow> (Inl EINVAL, k)
      | Some a \<Rightarrow>
          (case attr of
             None \<Rightarrow> (Inr 0, upd_mutex a (\<lambda>_. \<lparr>mx_initialized = True, mx_pshared = False, mx_recursive = False,
                mx_prio_ceiling = PTHREAD_MUTEX_PRIO_CEILING,
                mx_pid = (if task_current k = 0 then 0 else task_get_pid k (task_current k)),
                mx_lock = 0, mx_pthread = -1\<rparr>) k)
           | Some at \<Rightarrow> (Inr 0, upd_mutex a (\<lambda>_. \<lparr>mx_initialized = True, mx_pshared = ma_process_shared at,
                mx_recursive = ma_recursive at, mx_prio_ceiling = ma_prio_ceiling at,
                mx_pid = task_get_pid k (task_current k), mx_lock = 0, mx_pthread = -1\<rparr>) k)))"

subsection \<open>Locking\<close>

text \<open>The results 0, 1, -2 and -1 with an error number of \<open>mutex_trylock\<close>.\<close>

datatype lock_ret = L_Got | L_Owner | L_Busy | L_Error errno

definition priv_mutex_trylock :: "nat \<Rightarrow> nat \<Rightarrow> bool \<Rightarrow> sched_timeval \<Rightarrow> 'z mutex_kernel_scheme \<Rightarrow> lock_ret \<times> 'z mutex_kernel_scheme" where
  "priv_mutex_trylock i a trylock abs_timeout k =
     (if mx_pthread (mutexes k a) = -1 then
        (let k1 = upd_mutex a (\<lambda>m. m\<lparr>mx_pthread := int i, mx_pid := task_get_pid k i\<rparr>) k;
             k2 = (if mx_prio_ceiling (mutexes k1 a) > st_priority (sched_table k1 i)
                   then upd_sched i (\<lambda>t. t\<lparr>st_priority := to_u16 (mx_prio_ceiling (mutexes k1 a))\<rparr>) k1 else k1)
         in (L_Got, upd_mutex a (\<lambda>m. m\<lparr>mx_lock := 1\<rparr>) k2))
      else
        (L_Busy, if \<not> trylock
                 then sched_priv_timedblock (Addr a) abs_timeout (upd_sched i (\<lambda>t. t\<lparr>st_block_object := Addr a\<rparr>) k)
                 else k))"

definition mutex_trylock :: "nat option \<Rightarrow> bool \<Rightarrow> (int \<times> int) option \<Rightarrow> 'z mutex_kernel_scheme \<Rightarrow> lock_ret \<times> 'z mutex_kernel_scheme" where
  "mutex_trylock mutex trylock abs_timeout k =
     (case mutex of
        None \<Rightarrow> (L_Error EINVAL, k)
      | Some a \<Rightarrow>
          (let m = mutexes k a; i = task_current k in
           if \<not> mx_initialized m then (L_Error EINVAL, k)
           else if \<not> mx_pshared m \<and> mx_pid m \<noteq> task_get_pid k i then (L_Error EACCES, k)
           else if mx_pthread m = int i then
             (if mx_recursive m then
                (if mx_lock m < PTHREAD_MAX_LOCKS then (L_Got, upd_mutex a (\<lambda>m. m\<lparr>mx_lock := mx_lock m + 1\<rparr>) k)
                 else (L_Error EAGAIN, k))
              else (L_Owner, k))
           else priv_mutex_trylock i a trylock (sched_convert_timespec abs_timeout) k))"

definition pthread_mutex_lock :: "nat option \<Rightarrow> 'z mutex_kernel_scheme \<Rightarrow> (errno + int) \<times> 'z mutex_kernel_scheme" where
  "pthread_mutex_lock mutex k =
     (if task_current k = 0 then (Inr 0, k)
      else
        (case check_initialized mutex k of
           Some e \<Rightarrow> (Inl e, k)
         | None \<Rightarrow>
             (case mutex_trylock mutex False None k of
                (L_Owner, k') \<Rightarrow> (Inl EDEADLK, k')
              | (L_Error e, k') \<Rightarrow> (Inl e, k')
              | (_, k') \<Rightarrow> (Inr 0, k'))))"

definition pthread_mutex_trylock :: "nat option \<Rightarrow> 'z mutex_kernel_scheme \<Rightarrow> (errno + int) \<times> 'z mutex_kernel_scheme" where
  "pthread_mutex_trylock mutex k =
     (if task_current k = 0 then (Inr 0, k)
      else
        (case check_initialized mutex k of
           Some e \<Rightarrow> (Inl e, k)
         | None \<Rightarrow>
             (case mutex_trylock mutex True None k of
                (L_Got, k') \<Rightarrow> (Inr 0, k')
              | (L_Owner, k') \<Rightarrow> (Inr 0, k')
              | (L_Busy, k') \<Rightarrow> (Inl EBUSY, k')
              | (L_Error e, k') \<Rightarrow> (Inl e, k'))))"

text \<open>\<open>None\<close>: the call blocks, and goes on with \<open>timedlock_resume\<close>.\<close>

definition pthread_mutex_timedlock :: "nat option \<Rightarrow> (int \<times> int) option \<Rightarrow> 'z mutex_kernel_scheme
    \<Rightarrow> (errno + int) option \<times> 'z mutex_kernel_scheme" where
  "pthread_mutex_timedlock mutex abs_timeout k =
     (if task_current k = 0 then (Some (Inr 0), k)
      else
        (case check_initialized mutex k of
           Some e \<Rightarrow> (Some (Inl e), k)
         | None \<Rightarrow>
             (case mutex_trylock mutex False abs_timeout k of
                (L_Owner, k') \<Rightarrow> (Some (Inl EDEADLK), k')
              | (L_Busy, k') \<Rightarrow> (None, k')
              | (L_Error e, k') \<Rightarrow> (Some (Inl e), k')
              | (L_Got, k') \<Rightarrow> (Some (Inr 0), k'))))"

definition timedlock_resume :: "nat \<Rightarrow> 'z mutex_kernel_scheme \<Rightarrow> errno + int" where
  "timedlock_resume a k =
     (if mx_pthread (mutexes k a) = int (task_current k) then Inr 0 else Inl ETIMEDOUT)"

subsection \<open>Unlocking\<close>

definition priv_mutex_unlock :: "nat \<Rightarrow> nat \<Rightarrow> 'z mutex_kernel_scheme \<Rightarrow> 'z mutex_kernel_scheme" where
  "priv_mutex_unlock i a k =
     (let k1 = upd_sched i (\<lambda>t. t\<lparr>st_priority := to_u16 (st_sched_priority t)\<rparr>) k;
          last_prio = sched_current_priority k1;
          k2 = k1\<lparr>sched_current_priority := to_i8 (st_priority (sched_table k1 i))\<rparr>;
          k3 = upd_sched i (\<lambda>t. t\<lparr>st_block_object := Null\<rparr>) k2
      in case sched_get_highest_priority_blocked (Addr a) k3 of
           Some n \<Rightarrow>
             (let k4 = upd_mutex a (\<lambda>m. m\<lparr>mx_pthread := int n, mx_pid := task_get_pid k3 n, mx_lock := 1\<rparr>) k3;
                  k5 = upd_sched n (\<lambda>t. t\<lparr>st_priority := to_u16 (mx_prio_ceiling (mutexes k4 a))\<rparr>) k4;
                  k6 = sched_priv_assert_active n UNBLOCK_MUTEX k5
              in sched_priv_update_on_wake (st_priority (sched_table k6 n)) k6)
         | None \<Rightarrow>
             (let k4 = upd_mutex a (\<lambda>m. m\<lparr>mx_lock := 0, mx_pthread := -1\<rparr>) k3
              in if last_prio > sched_current_priority k4
                 then sched_priv_update_on_wake (st_priority (sched_table k4 i)) k4 else k4))"

definition pthread_mutex_unlock :: "nat option \<Rightarrow> 'z mutex_kernel_scheme \<Rightarrow> (errno + int) \<times> 'z mutex_kernel_scheme" where
  "pthread_mutex_unlock mutex k =
     (if task_current k = 0 then (Inr 0, k)
      else
        (case check_initialized mutex k of
           Some e \<Rightarrow> (Inl e, k)
         | None \<Rightarrow>
             (let a = the mutex; i = task_current k; m = mutexes k a in
              if mx_pthread m = int i then
                (let k1 = (if mx_recursive m then upd_mutex a (\<lambda>m. m\<lparr>mx_lock := mx_lock m - 1\<rparr>) k else k) in
                 if mx_recursive m \<and> mx_lock (mutexes k1 a) \<noteq> 0 then (Inr 0, k1)
                 else (Inr 0, priv_mutex_unlock i a k1))
              else (Inl EACCES, k))))"

definition pthread_mutex_force_unlock :: "nat \<Rightarrow> 'z mutex_kernel_scheme \<Rightarrow> 'z mutex_kernel_scheme" where
  "pthread_mutex_force_unlock a k =
     (let m = mutexes k a in
      if mx_pshared m \<and> mx_pid m = task_get_pid k (task_current k) \<and> mx_lock m \<noteq> 0
      then priv_mutex_unlock (nat (mx_pthread m)) a k else k)"

definition pthread_mutex_destroy :: "nat option \<Rightarrow> 'z mutex_kernel_scheme \<Rightarrow> (errno + int) \<times> 'z mutex_kernel_scheme" where
  "pthread_mutex_destroy mutex k =
     (case check_initialized mutex k of
        Some e \<Rightarrow> (Inl e, k)
      | None \<Rightarrow> (Inr 0, upd_mutex (the mutex) (\<lambda>_. \<lparr>mx_initialized = False, mx_pshared = False,
          mx_recursive = False, mx_prio_ceiling = 0, mx_pid = 0, mx_lock = 0, mx_pthread = -1\<rparr>) k))"

definition pthread_mutex_getprioceiling :: "nat option \<Rightarrow> 'z mutex_kernel_scheme \<Rightarrow> errno + int" where
  "pthread_mutex_getprioceiling mutex k =
     (case check_initialized mutex k of Some e \<Rightarrow> Inl e | None \<Rightarrow> Inr (mx_prio_ceiling (mutexes k (the mutex))))"

text \<open>The value is the old ceiling, which the caller gets when it passes a pointer.\<close>

definition pthread_mutex_setprioceiling :: "nat option \<Rightarrow> int \<Rightarrow> 'z mutex_kernel_scheme \<Rightarrow> (errno + int) \<times> 'z mutex_kernel_scheme" where
  "pthread_mutex_setprioceiling mutex ceiling k =
     (case check_initialized mutex k of
        Some e \<Rightarrow> (Inl e, k)
      | None \<Rightarrow> (Inr (mx_prio_ceiling (mutexes k (the mutex))),
                 upd_mutex (the mutex) (\<lambda>m. m\<lparr>mx_prio_ceiling := ceiling\<rparr>) k))"

subsection \<open>Frames\<close>

lemma trunc_upd_mutex [simp]: "kernel.truncate (upd_mutex a f k) = kernel.truncate k"
  by (simp add: upd_mutex_def kernel.truncate_def)

lemmas upd_mutex_kernel [simp] =
  trunc_fields [OF trunc_upd_mutex] trunc_same [OF trunc_upd_mutex] trunc_kinv [OF trunc_upd_mutex]
  trunc_objects [OF trunc_upd_mutex]

lemma upd_mutex_sel [simp]:
  "mutexes (upd_mutex a f k) b = (if b = a then f (mutexes k a) else mutexes k b)"
  by (simp add: upd_mutex_def)

lemma mutex_more: "kernel.more k' = kernel.more k \<Longrightarrow> mutexes k' = mutexes k"
  by (cases k, cases k', simp)

lemma sched_mutexes [simp]:
  "mutexes (sched_priv_update_on_wake p k) = mutexes k"
  "mutexes (sched_priv_update_on_sleep k) = mutexes k"
  "mutexes (sched_priv_assert_active i ty k) = mutexes k"
  "mutexes (sched_priv_timedblock obj tv k) = mutexes k"
  "mutexes (upd_sched i f k) = mutexes k"
  "mutexes (wake_set P ty is k) = mutexes k"
  by (rule mutex_more; simp)+

subsection \<open>Handing over\<close>

text \<open>The state in which \<open>priv_mutex_unlock\<close> looks for the next owner.\<close>

definition unlock_base :: "nat \<Rightarrow> 'z kernel_scheme \<Rightarrow> 'z kernel_scheme" where
  "unlock_base i k =
     (let k1 = upd_sched i (\<lambda>t. t\<lparr>st_priority := to_u16 (st_sched_priority t)\<rparr>) k
      in upd_sched i (\<lambda>t. t\<lparr>st_block_object := Null\<rparr>)
           (k1\<lparr>sched_current_priority := to_i8 (st_priority (sched_table k1 i))\<rparr>))"

lemma unlock_base_sel [simp]:
  "task_total (unlock_base i k) = task_total k" "task_current (unlock_base i k) = task_current k"
  "task_table (unlock_base i k) = task_table k" "pendsv (unlock_base i k) = pendsv k"
  "sched_current_priority (unlock_base i k) = to_i8 (to_u16 (st_sched_priority (sched_table k i)))"
  "st_sched_priority (sched_table (unlock_base i k) j) = st_sched_priority (sched_table k j)"
  "st_flags (sched_table (unlock_base i k) j) = st_flags (sched_table k j)"
  "st_block_object (sched_table (unlock_base i k) j) = (if j = i then Null else st_block_object (sched_table k j))"
  "st_priority (sched_table (unlock_base i k) j)
     = (if j = i then to_u16 (st_sched_priority (sched_table k i)) else st_priority (sched_table k j))"
  "kernel.more (unlock_base i k) = kernel.more k"
  by (simp_all add: unlock_base_def Let_def upd_sched_def)

lemma unlock_base_same [simp]:
  "task_enabled (unlock_base i k) j = task_enabled k j" "sched_asserted f (unlock_base i k) j = sched_asserted f k j"
  "task_get_pid (unlock_base i k) j = task_get_pid k j" "bases_ok (unlock_base i k) = bases_ok k"
  "runnable (unlock_base i k) j = runnable k j" "task_exec_asserted (unlock_base i k) j = task_exec_asserted k j"
  "mutexes (unlock_base i m) = mutexes m"
  by (simp_all add: task_enabled_def sched_asserted_def task_get_pid_def bases_ok_def runnable_def
    task_exec_asserted_def) (rule mutex_more, simp)

lemma unlock_base_waiters [simp]:
  "sched_active_asserted k i \<Longrightarrow> waiters obj (unlock_base i k) = waiters obj k"
  by (auto simp: waiters_def blocked_on_def)

lemma unlock_base_best [simp]:
  "sched_active_asserted k i \<Longrightarrow> best_waiter obj (unlock_base i k) n = best_waiter obj k n"
  by (simp add: best_waiter_def)

lemma priv_mutex_unlock_eq:
  "priv_mutex_unlock i a k =
     (case sched_get_highest_priority_blocked (Addr a) (unlock_base i k) of
        Some n \<Rightarrow>
          sched_priv_update_on_wake (to_u16 (mx_prio_ceiling (mutexes k a)))
            (sched_priv_assert_active n UNBLOCK_MUTEX
              (upd_sched n (\<lambda>t. t\<lparr>st_priority := to_u16 (mx_prio_ceiling (mutexes k a))\<rparr>)
                (upd_mutex a (\<lambda>m. m\<lparr>mx_pthread := int n, mx_pid := task_get_pid k n, mx_lock := 1\<rparr>) (unlock_base i k))))
      | None \<Rightarrow>
          (let k4 = upd_mutex a (\<lambda>m. m\<lparr>mx_lock := 0, mx_pthread := -1\<rparr>) (unlock_base i k)
           in if sched_current_priority k > sched_current_priority k4
              then sched_priv_update_on_wake (to_u16 (st_sched_priority (sched_table k i))) k4 else k4))"
proof -
  have b: "upd_sched i (\<lambda>t. t\<lparr>st_block_object := Null\<rparr>)
      ((upd_sched i (\<lambda>t. t\<lparr>st_priority := to_u16 (st_sched_priority t)\<rparr>) k)
        \<lparr>sched_current_priority := to_i8 (st_priority (sched_table
           (upd_sched i (\<lambda>t. t\<lparr>st_priority := to_u16 (st_sched_priority t)\<rparr>) k) i))\<rparr>) = unlock_base i k"
    by (simp add: unlock_base_def Let_def)
  show ?thesis
    unfolding priv_mutex_unlock_def Let_def b
    by (simp split: option.split)
qed

lemma mutex_unlock_cases:
  assumes act: "sched_active_asserted k i" and b: "bases_ok k"
  obtains "waiters (Addr a) k = {}" "waiters (Addr a) (priv_mutex_unlock i a k) = {}"
      "mutexes (priv_mutex_unlock i a k) a = (mutexes k a)\<lparr>mx_lock := 0, mx_pthread := -1\<rparr>"
      "bases_ok (priv_mutex_unlock i a k)"
  | n where "best_waiter (Addr a) k n" "waiters (Addr a) (priv_mutex_unlock i a k) = waiters (Addr a) k - {n}"
      "mutexes (priv_mutex_unlock i a k) a = (mutexes k a)\<lparr>mx_pthread := int n, mx_pid := task_get_pid k n, mx_lock := 1\<rparr>"
      "bases_ok (priv_mutex_unlock i a k)"
      "sched_active_asserted (priv_mutex_unlock i a k) n"
      "sched_get_unblock_type (priv_mutex_unlock i a k) n = unblock_code UNBLOCK_MUTEX"
      "sched_get_priority (priv_mutex_unlock i a k) n = to_u16 (mx_prio_ceiling (mutexes k a))"
proof (cases "sched_get_highest_priority_blocked (Addr a) (unlock_base i k)")
  case None
  then have "waiters (Addr a) k = {}" using highest_blocked_None [of "unlock_base i k"] act b by simp
  moreover have "bases_ok (priv_mutex_unlock i a k)"
    using None b by (simp add: priv_mutex_unlock_eq Let_def bases_ok_def)
  ultimately show ?thesis
    using None act by (intro that(1)) (simp_all add: priv_mutex_unlock_eq Let_def)
next
  case (Some n)
  let ?c = "to_u16 (mx_prio_ceiling (mutexes k a))"
  let ?k = "upd_sched n (\<lambda>t. t\<lparr>st_priority := ?c\<rparr>)
                (upd_mutex a (\<lambda>m. m\<lparr>mx_pthread := int n, mx_pid := task_get_pid k n, mx_lock := 1\<rparr>) (unlock_base i k))"
  have e: "priv_mutex_unlock i a k = sched_priv_update_on_wake ?c (sched_priv_assert_active n UNBLOCK_MUTEX ?k)"
    using Some by (simp add: priv_mutex_unlock_eq)
  have best: "best_waiter (Addr a) k n" using highest_blocked_Some [OF Some] act by simp
  have w: "waiters (Addr a) ?k = waiters (Addr a) k" using act by simp
  show ?thesis
  proof (rule that(2) [OF best])
    show "waiters (Addr a) (priv_mutex_unlock i a k) = waiters (Addr a) k - {n}" by (simp add: e w)
    show "bases_ok (priv_mutex_unlock i a k)" using b by (simp add: e bases_ok_def upd_sched_def)
    show "sched_get_unblock_type (priv_mutex_unlock i a k) n = unblock_code UNBLOCK_MUTEX"
      using assert_active_unblock [of n UNBLOCK_MUTEX ?k] by (simp add: e sched_get_unblock_type_def)
    show "sched_get_priority (priv_mutex_unlock i a k) n = ?c" by (simp add: e) (simp add: sched_get_priority_def)
  qed (simp_all add: e)
qed

subsection \<open>Locking, on every branch\<close>

lemma lock_block_waiters:
  assumes c: "can_block k"
  shows "waiters obj (sched_priv_timedblock (Addr a) tv (upd_sched (task_current k) (\<lambda>t. t\<lparr>st_block_object := Addr a\<rparr>) k)) =
    (if Addr a = obj then insert (task_current k) (waiters obj k) else waiters obj k)"
proof -
  let ?k = "upd_sched (task_current k) (\<lambda>t. t\<lparr>st_block_object := Addr a\<rparr>) k"
  have "can_block ?k" using c by (simp add: can_block_def task_enabled_def sched_asserted_def upd_sched_def)
  from timedblock_waiters [OF this, of "Addr a" obj tv] show ?thesis using c by (simp add: can_block_def)
qed

lemma bases_upd_sched:
  "(\<And>t. st_sched_priority (f t) = st_sched_priority t) \<Longrightarrow> bases_ok (upd_sched i f k) = bases_ok k"
  by (rule bases_cong) simp

lemma priv_mutex_trylock_cases:
  assumes c: "can_block k" and b: "bases_ok k"
    and r: "priv_mutex_trylock (task_current k) a tr tv k = (ret, k')"
  shows "bases_ok k' \<and> (if mx_pthread (mutexes k a) = -1
    then ret = L_Got \<and> waiters (Addr a) k' = waiters (Addr a) k
      \<and> mutexes k' a = (mutexes k a)\<lparr>mx_pthread := int (task_current k), mx_pid := task_get_pid k (task_current k), mx_lock := 1\<rparr>
    else ret = L_Busy \<and> mutexes k' a = mutexes k a
      \<and> waiters (Addr a) k' = (if tr then waiters (Addr a) k else insert (task_current k) (waiters (Addr a) k)))"
  using r b lock_block_waiters [OF c, of "Addr a" a tv]
  by (auto simp: priv_mutex_trylock_def Let_def bases_upd_sched split: if_splits)

definition mutex_accessible :: "nat \<Rightarrow> 'z mutex_kernel_scheme \<Rightarrow> bool" where
  "mutex_accessible a k \<longleftrightarrow> mx_initialized (mutexes k a)
     \<and> (mx_pshared (mutexes k a) \<or> mx_pid (mutexes k a) = task_get_pid k (task_current k))"

lemma mutex_trylock_cases:
  assumes c: "can_block k" and b: "bases_ok k" and r: "mutex_trylock (Some a) tr ts k = (ret, k')"
  shows "bases_ok k' \<and> (let m = mutexes k a; me = task_current k; W = waiters (Addr a) in
     if \<not> mx_initialized m then ret = L_Error EINVAL \<and> k' = k
     else if \<not> mutex_accessible a k then ret = L_Error EACCES \<and> k' = k
     else if mx_pthread m = int me then
       (if \<not> mx_recursive m then ret = L_Owner \<and> k' = k
        else if mx_lock m < PTHREAD_MAX_LOCKS
        then ret = L_Got \<and> mutexes k' a = m\<lparr>mx_lock := mx_lock m + 1\<rparr> \<and> W k' = W k
        else ret = L_Error EAGAIN \<and> k' = k)
     else if mx_pthread m = -1
     then ret = L_Got \<and> mutexes k' a = m\<lparr>mx_pthread := int me, mx_pid := task_get_pid k me, mx_lock := 1\<rparr> \<and> W k' = W k
     else ret = L_Busy \<and> mutexes k' a = m \<and> W k' = (if tr then W k else insert me (W k)))"
  using r b priv_mutex_trylock_cases [OF c b, of a tr "sched_convert_timespec ts" ret k']
  by (auto simp: mutex_trylock_def mutex_accessible_def Let_def split: if_splits)

lemma lock_eq:
  assumes "1 \<le> task_current k"
  shows "pthread_mutex_lock (Some a) k =
    (case mutex_trylock (Some a) False None k of
       (L_Owner, k') \<Rightarrow> (Inl EDEADLK, k') | (L_Error e, k') \<Rightarrow> (Inl e, k') | (_, k') \<Rightarrow> (Inr 0, k'))"
  using assms by (auto simp: pthread_mutex_lock_def check_initialized_def mutex_trylock_def)

lemma unlock_eq:
  assumes "1 \<le> task_current k"
  shows "pthread_mutex_unlock (Some a) k =
    (let m = mutexes k a; k1 = upd_mutex a (\<lambda>m. m\<lparr>mx_lock := mx_lock m - 1\<rparr>) k in
     if \<not> mx_initialized m then (Inl EINVAL, k)
     else if mx_pthread m \<noteq> int (task_current k) then (Inl EACCES, k)
     else if \<not> mx_recursive m then (Inr 0, priv_mutex_unlock (task_current k) a k)
     else if mx_lock m \<noteq> 1 then (Inr 0, k1)
     else (Inr 0, priv_mutex_unlock (task_current k) a k1))"
  using assms by (auto simp: pthread_mutex_unlock_def check_initialized_def Let_def)

subsection \<open>The invariant of a mutex\<close>

text \<open>
  It has an owner exactly when its count is positive, and nobody waits for it while it is free. That every call keeps it is
  shown here, and for all histories in \<open>Cond\<close>, since a wait for a condition releases the mutex too.
\<close>

definition mutex_inv :: "nat \<Rightarrow> 'z mutex_kernel_scheme \<Rightarrow> bool" where
  "mutex_inv a k \<longleftrightarrow> bases_ok k \<and> (mx_pthread (mutexes k a) = -1 \<longleftrightarrow> mx_lock (mutexes k a) = 0)
     \<and> (mx_pthread (mutexes k a) = -1 \<longrightarrow> waiters (Addr a) k = {})
     \<and> 0 \<le> mx_lock (mutexes k a) \<and> mx_lock (mutexes k a) \<le> PTHREAD_MAX_LOCKS
     \<and> (mx_lock (mutexes k a) > 1 \<longrightarrow> mx_recursive (mutexes k a)) \<and> -1 \<le> mx_pthread (mutexes k a)"

lemma mutex_inv_cong:
  "mutexes k' a = mutexes k a \<Longrightarrow> waiters (Addr a) k' \<subseteq> waiters (Addr a) k \<Longrightarrow> bases_ok k' \<Longrightarrow> mutex_inv a k \<Longrightarrow> mutex_inv a k'"
  by (auto simp: mutex_inv_def)

lemma mutex_inv_trylock:
  assumes "mutex_inv a k" "can_block k" "mutex_trylock (Some a) tr ts k = (ret, k')"
  shows "mutex_inv a k'"
proof -
  have b: "bases_ok k" and i: "mutex_inv a k" using assms(1) by (simp_all add: mutex_inv_def)
  note m = mutex_trylock_cases [OF assms(2) b assms(3)]
  show ?thesis
  proof (cases "k' = k")
    case False
    then show ?thesis using m i by (auto simp: mutex_inv_def Let_def split: if_splits)
  qed (use i in simp)
qed

text \<open>
  Releasing keeps it whatever the state was before, and also when the owner is not the caller and waits for something itself, as in
  \<open>pthread_mutex_force_unlock\<close>.
\<close>

lemma mutex_inv_priv_unlock:
  assumes "bases_ok k"
  shows "mutex_inv a (priv_mutex_unlock i a k)"
proof (cases "sched_get_highest_priority_blocked (Addr a) (unlock_base i k)")
  case None
  then have "waiters (Addr a) (unlock_base i k) = {}" using highest_blocked_None [of "unlock_base i k"] assms by simp
  moreover have "bases_ok (priv_mutex_unlock i a k)" using None assms by (simp add: priv_mutex_unlock_eq Let_def bases_ok_def)
  ultimately show ?thesis using None by (simp add: priv_mutex_unlock_eq Let_def mutex_inv_def)
next
  case (Some n)
  have "bases_ok (priv_mutex_unlock i a k)" using Some assms by (simp add: priv_mutex_unlock_eq bases_ok_def upd_sched_def)
  then show ?thesis using Some by (simp add: priv_mutex_unlock_eq mutex_inv_def)
qed

lemma mutex_inv_lock:
  assumes "mutex_inv a k" "can_block k" "pthread_mutex_lock (Some a) k = (r, k')"
  shows "mutex_inv a k'"
proof -
  obtain ret where "mutex_trylock (Some a) False None k = (ret, k')"
    using assms by (auto simp: lock_eq can_block_def split: prod.splits lock_ret.splits)
  then show ?thesis using mutex_inv_trylock assms by blast
qed

lemma mutex_inv_trylock_call:
  assumes "mutex_inv a k" "can_block k" "pthread_mutex_trylock (Some a) k = (r, k')"
  shows "mutex_inv a k'"
proof -
  have "k' = k \<or> (\<exists>ret. mutex_trylock (Some a) True None k = (ret, k'))"
    using assms by (auto simp: pthread_mutex_trylock_def split: prod.splits lock_ret.splits option.splits if_splits)
  then show ?thesis using mutex_inv_trylock assms by blast
qed

lemma mutex_inv_timedlock:
  assumes "mutex_inv a k" "can_block k" "pthread_mutex_timedlock (Some a) ts k = (r', k')"
  shows "mutex_inv a k'"
proof -
  have "k' = k \<or> (\<exists>ret. mutex_trylock (Some a) False ts k = (ret, k'))"
    using assms by (auto simp: pthread_mutex_timedlock_def split: prod.splits lock_ret.splits option.splits if_splits)
  then show ?thesis using mutex_inv_trylock assms by blast
qed

lemma mutex_inv_unlock:
  assumes "mutex_inv a k" "can_block k" "pthread_mutex_unlock (Some a) k = (r, k')"
  shows "mutex_inv a k'"
proof -
  let ?k1 = "upd_mutex a (\<lambda>m. m\<lparr>mx_lock := mx_lock m - 1\<rparr>) k"
  have b: "bases_ok k" using assms(1) by (simp add: mutex_inv_def)
  have "mutex_inv a (priv_mutex_unlock (task_current k) a k)" "mutex_inv a (priv_mutex_unlock (task_current k) a ?k1)"
    using b by (simp_all add: mutex_inv_priv_unlock)
  moreover have "mx_recursive (mutexes k a) \<Longrightarrow> mx_pthread (mutexes k a) \<noteq> -1 \<Longrightarrow> mx_lock (mutexes k a) \<noteq> 1 \<Longrightarrow> mutex_inv a ?k1"
    using assms(1) by (auto simp: mutex_inv_def)
  ultimately show ?thesis using assms
    by (auto simp: unlock_eq can_block_def Let_def split: if_splits)
qed

lemma mutex_inv_ceiling: "mutex_inv a k \<Longrightarrow> pthread_mutex_setprioceiling (Some a) c k = (r, k') \<Longrightarrow> mutex_inv a k'"
  by (auto simp: pthread_mutex_setprioceiling_def check_initialized_def mutex_inv_def split: if_splits)

lemma mutex_inv_init:
  "pthread_mutex_init (Some a) attr k = (r, k') \<Longrightarrow> waiters (Addr a) k = {} \<Longrightarrow> bases_ok k \<Longrightarrow> mutex_inv a k'"
  by (auto simp: pthread_mutex_init_def mutex_inv_def split: option.splits)

lemma mutex_inv_force_unlock: "mutex_inv a k \<Longrightarrow> mutex_inv a (pthread_mutex_force_unlock a k)"
proof -
  assume i: "mutex_inv a k"
  then have b: "bases_ok k" by (simp add: mutex_inv_def)
  show ?thesis using i mutex_inv_priv_unlock [OF b] by (simp add: pthread_mutex_force_unlock_def Let_def)
qed

lemma mutex_inv_destroy:
  "mutex_inv a k \<Longrightarrow> waiters (Addr a) k = {} \<Longrightarrow> pthread_mutex_destroy (Some a) k = (r, k') \<Longrightarrow> mutex_inv a k'"
  by (auto simp: pthread_mutex_destroy_def check_initialized_def mutex_inv_def split: if_splits)

subsection \<open>Properties\<close>

definition demo_mutex :: "pthread_mutex \<Rightarrow> mutex_kernel" where
  "demo_mutex m = kernel.extend demo_pair \<lparr>mutexes = (\<lambda>_. m)\<rparr>"

definition demo_free :: "bool \<Rightarrow> int \<Rightarrow> pthread_mutex" where
  "demo_free r c = \<lparr>mx_initialized = True, mx_pshared = False, mx_recursive = r, mx_prio_ceiling = c,
     mx_pid = 7, mx_lock = 0, mx_pthread = -1\<rparr>"

lemma demo_mutex_trunc [simp]: "kernel.truncate (demo_mutex m) = kernel.truncate demo_pair"
  by (simp add: demo_mutex_def)

lemmas demo_mutex_kernel = trunc_fields [OF demo_mutex_trunc] trunc_same [OF demo_mutex_trunc]
  trunc_kinv [OF demo_mutex_trunc] trunc_objects [OF demo_mutex_trunc]

lemma demo_mutex_sel: "mutexes (demo_mutex m) a = m"
  by (simp add: demo_mutex_def kernel.extend_def)

lemma demo_mutex_facts:
  "can_block (demo_mutex m)" "bases_ok (demo_mutex m)" "kinv (demo_mutex m)" "running (demo_mutex m)"
  "waiters obj (demo_mutex m) = {}"
  using running_can_block [OF demo_pair_facts(1,2)] demo_pair_facts by (simp_all add: demo_mutex_kernel)

text \<open>
  \<open>pthread_mutex_lock\<close> on a mutex the task may use: the owner counts up on a recursive mutex, to
  at most 1024 (then \<open>EAGAIN\<close>), and gets \<open>EDEADLK\<close> on another; on a free mutex the caller becomes the
  owner with one lock; on a mutex of another task the caller stops executing and joins those that
  wait, and the mutex is left alone.
\<close>

theorem mutex_lock_outcomes:
  assumes "can_block k" and "bases_ok k" and "mutex_accessible a k"
    and "pthread_mutex_lock (Some a) k = (r, k')" and "m = mutexes k a" and "me = task_current k"
  shows "if mx_pthread m = int me then
      (if \<not> mx_recursive m then r = Inl EDEADLK \<and> k' = k
       else if mx_lock m < PTHREAD_MAX_LOCKS then r = Inr 0 \<and> mutexes k' a = m\<lparr>mx_lock := mx_lock m + 1\<rparr>
       else r = Inl EAGAIN \<and> k' = k)
    else if mx_pthread m = -1 then
      r = Inr 0 \<and> mutexes k' a = m\<lparr>mx_pthread := int me, mx_pid := task_get_pid k me, mx_lock := 1\<rparr>
        \<and> waiters (Addr a) k' = waiters (Addr a) k
    else r = Inr 0 \<and> mutexes k' a = m \<and> waiters (Addr a) k' = insert me (waiters (Addr a) k)
        \<and> \<not> sched_active_asserted k' me"
proof -
  obtain ret where t: "mutex_trylock (Some a) False None k = (ret, k')"
    and r: "r = (case ret of L_Owner \<Rightarrow> Inl EDEADLK | L_Error e \<Rightarrow> Inl e | _ \<Rightarrow> Inr 0)"
    using assms by (auto simp: lock_eq can_block_def split: prod.splits lock_ret.splits)
  have w: "me \<in> waiters (Addr a) k' \<Longrightarrow> \<not> sched_active_asserted k' me"
    using waitersD [of me "Addr a" k'] by (auto simp: blocked_on_def)
  show ?thesis
    using mutex_trylock_cases [OF assms(1,2) t] assms(3) w
    by (auto simp: r assms(5,6) mutex_accessible_def Let_def split: if_splits)
qed

theorem mutex_lock_outcomes_witness:
  "mx_pthread (mutexes (snd (pthread_mutex_lock (Some 9) (demo_mutex (demo_free False 0)))) 9) = 1"
proof -
  let ?k = "demo_mutex (demo_free False 0)"
  have "mutex_accessible 9 ?k"
    by (simp add: mutex_accessible_def demo_mutex_sel demo_free_def demo_mutex_kernel demo_pair_sel)
  from mutex_lock_outcomes [OF demo_mutex_facts(1,2) this surjective_pairing refl refl]
  show ?thesis by (simp add: demo_mutex_sel demo_mutex_kernel demo_pair_sel demo_free_def)
qed

text \<open>
  C21: the last unlock by the owner gives the mutex, locked once, to the waiting task that the search
  prefers (the highest base priority, the lowest number among equals) and wakes this task alone,
  with the ceiling as its priority, even where that is lower than its own; with no task waiting the
  mutex becomes free. A caller that does not own the mutex gets \<open>EACCES\<close> and changes nothing.
\<close>

theorem mutex_unlock_hands_over:
  assumes "can_block k" and "bases_ok k" and "mx_initialized (mutexes k a)"
    and "mx_recursive (mutexes k a) \<longrightarrow> mx_lock (mutexes k a) = 1"
    and "pthread_mutex_unlock (Some a) k = (r, k')" and "m = mutexes k a"
  shows "if mx_pthread m \<noteq> int (task_current k) then r = Inl EACCES \<and> k' = k
    else r = Inr 0 \<and>
      (if waiters (Addr a) k = {} then mx_pthread (mutexes k' a) = -1 \<and> mx_lock (mutexes k' a) = 0
       else \<exists>n. best_waiter (Addr a) k n \<and> mx_pthread (mutexes k' a) = int n \<and> mx_lock (mutexes k' a) = 1
          \<and> waiters (Addr a) k' = waiters (Addr a) k - {n} \<and> sched_active_asserted k' n
          \<and> sched_get_priority k' n = to_u16 (mx_prio_ceiling m))"
proof -
  let ?k = "if mx_recursive m then upd_mutex a (\<lambda>m. m\<lparr>mx_lock := mx_lock m - 1\<rparr>) k else k"
  have k: "sched_active_asserted ?k (task_current k)" "bases_ok ?k" "waiters (Addr a) ?k = waiters (Addr a) k"
    "best_waiter (Addr a) ?k n = best_waiter (Addr a) k n" "mx_prio_ceiling (mutexes ?k a) = mx_prio_ceiling m" for n
    using assms(1,2,6) by (auto simp: can_block_def best_waiter_def)
  show ?thesis
  proof (cases "mx_pthread m = int (task_current k)")
    case True
    then have k': "r = Inr 0" "k' = priv_mutex_unlock (task_current k) a ?k"
      using assms by (auto simp: unlock_eq can_block_def Let_def split: if_splits)
    show ?thesis
    proof (rule mutex_unlock_cases [OF k(1,2), of a])
      fix n assume n: "best_waiter (Addr a) ?k n"
        "waiters (Addr a) (priv_mutex_unlock (task_current k) a ?k) = waiters (Addr a) ?k - {n}"
        "mutexes (priv_mutex_unlock (task_current k) a ?k) a
           = (mutexes ?k a)\<lparr>mx_pthread := int n, mx_pid := task_get_pid ?k n, mx_lock := 1\<rparr>"
        "sched_active_asserted (priv_mutex_unlock (task_current k) a ?k) n"
        "sched_get_priority (priv_mutex_unlock (task_current k) a ?k) n = to_u16 (mx_prio_ceiling (mutexes ?k a))"
      have "waiters (Addr a) k \<noteq> {}" using n(1) k by (auto simp: best_waiter_def)
      moreover have "best_waiter (Addr a) k n" using n(1) k(4) by simp
      ultimately show ?thesis using n True k(3,5) by (auto simp: k')
    next
      assume "waiters (Addr a) ?k = {}"
        "mutexes (priv_mutex_unlock (task_current k) a ?k) a = (mutexes ?k a)\<lparr>mx_lock := 0, mx_pthread := -1\<rparr>"
      then show ?thesis using True k(3) by (simp add: k')
    qed
  qed (use assms in \<open>auto simp: unlock_eq can_block_def Let_def split: if_splits\<close>)
qed

theorem mutex_unlock_hands_over_witness:
  "mx_pthread (mutexes (snd (pthread_mutex_unlock (Some 9) (demo_mutex ((demo_free False 0)\<lparr>mx_pthread := 1, mx_lock := 1\<rparr>)))) 9) = -1"
proof -
  let ?k = "demo_mutex ((demo_free False 0)\<lparr>mx_pthread := 1, mx_lock := 1\<rparr>)"
  have "mx_initialized (mutexes ?k 9)" "mx_recursive (mutexes ?k 9) \<longrightarrow> mx_lock (mutexes ?k 9) = 1"
    by (simp_all add: demo_mutex_sel demo_free_def)
  from mutex_unlock_hands_over [OF demo_mutex_facts(1,2) this surjective_pairing refl]
  show ?thesis by (simp add: demo_mutex_sel demo_mutex_kernel demo_pair_sel demo_pair_facts)
qed

text \<open>Locking and unlocking a recursive mutex, step by step.\<close>

lemma can_block_cong:
  assumes "task_current k' = task_current k" "task_total k' = task_total k" "task_table k' = task_table k"
    "\<And>i. st_flags (sched_table k' i) = st_flags (sched_table k i)"
  shows "can_block k' = can_block k"
  using assms by (simp add: can_block_def task_enabled_def sched_asserted_def)

text \<open>The current task owns the recursive mutex with \<open>n\<close> locks, and nobody waits for it.\<close>

definition holds :: "nat \<Rightarrow> nat \<Rightarrow> nat \<Rightarrow> 'z mutex_kernel_scheme \<Rightarrow> bool" where
  "holds a me n k \<longleftrightarrow> can_block k \<and> bases_ok k \<and> task_current k = me \<and> waiters (Addr a) k = {}
     \<and> mx_initialized (mutexes k a) \<and> mx_recursive (mutexes k a) \<and> mutex_accessible a k
     \<and> mx_lock (mutexes k a) = int n \<and> mx_pthread (mutexes k a) = (if n = 0 then -1 else int me)"

lemma holds_lock:
  assumes h: "holds a me n k" and n: "n < 1024"
  shows "holds a me (Suc n) (snd (pthread_mutex_lock (Some a) k))"
proof -
  let ?c = "mx_prio_ceiling (mutexes k a)"
  let ?own = "upd_mutex a (\<lambda>m. m\<lparr>mx_pthread := int me, mx_pid := task_get_pid k me\<rparr>) k"
  let ?k = "if n = 0 then upd_mutex a (\<lambda>m. m\<lparr>mx_lock := 1\<rparr>)
       (if ?c > st_priority (sched_table k me) then upd_sched me (\<lambda>t. t\<lparr>st_priority := to_u16 ?c\<rparr>) ?own else ?own)
     else upd_mutex a (\<lambda>m. m\<lparr>mx_lock := mx_lock m + 1\<rparr>) k"
  have k': "snd (pthread_mutex_lock (Some a) k) = ?k"
    using h n by (auto simp: holds_def lock_eq can_block_def mutex_trylock_def mutex_accessible_def
      priv_mutex_trylock_def Let_def)
  have "can_block ?k" using h by (subst can_block_cong [of _ k]) (simp_all add: holds_def upd_sched_def)
  moreover have "bases_ok ?k" using h by (subst bases_cong [of _ k]) (simp_all add: holds_def)
  moreover have "waiters (Addr a) ?k = {}" using h by (simp add: holds_def)
  moreover have "task_get_pid ?k me = task_get_pid k me" by (simp add: task_get_pid_def)
  ultimately show ?thesis unfolding k' using h by (auto simp: holds_def mutex_accessible_def)
qed

lemma holds_unlock:
  assumes h: "holds a me (Suc n) k"
  shows "mx_lock (mutexes (snd (pthread_mutex_unlock (Some a) k)) a) = int n
    \<and> mx_pthread (mutexes (snd (pthread_mutex_unlock (Some a) k)) a) = (if n = 0 then -1 else int me)
    \<and> (n \<noteq> 0 \<longrightarrow> holds a me n (snd (pthread_mutex_unlock (Some a) k)))"
proof -
  let ?k1 = "upd_mutex a (\<lambda>m. m\<lparr>mx_lock := mx_lock m - 1\<rparr>) k"
  have "snd (pthread_mutex_unlock (Some a) k) = (if n = 0 then priv_mutex_unlock me a ?k1 else ?k1)"
    using h by (auto simp: holds_def unlock_eq can_block_def Let_def)
  moreover have "holds a me n ?k1" if "n \<noteq> 0" using h that by (auto simp: holds_def mutex_accessible_def)
  moreover have "mx_lock (mutexes (priv_mutex_unlock me a ?k1) a) = 0
      \<and> mx_pthread (mutexes (priv_mutex_unlock me a ?k1) a) = -1"
  proof -
    have k1: "sched_active_asserted ?k1 me" "bases_ok ?k1" "waiters (Addr a) ?k1 = {}"
      using h by (auto simp: holds_def can_block_def)
    show ?thesis
    proof (rule mutex_unlock_cases [OF k1(1,2), of a])
      fix n assume "best_waiter (Addr a) ?k1 n"
      then show ?thesis using k1(3) by (simp add: best_waiter_def)
    qed simp
  qed
  ultimately show ?thesis by (auto simp: holds_def)
qed

text \<open>
  a recursive mutex balances: from a free one, \<open>n\<close> calls of \<open>pthread_mutex_lock\<close> (at most 1024) and
  \<open>j\<close> calls of \<open>pthread_mutex_unlock\<close> by the same task leave \<open>n - j\<close> locks, and the task gives the mutex up
  with the \<open>n\<close>th unlock and not before.
\<close>

theorem mutex_recursive_balance:
  assumes "holds a me 0 k" and "n \<le> 1024" and "j \<le> n"
  shows "let k' = ((\<lambda>k. snd (pthread_mutex_unlock (Some a) k)) ^^ j) (((\<lambda>k. snd (pthread_mutex_lock (Some a) k)) ^^ n) k)
    in mx_lock (mutexes k' a) = int (n - j) \<and> mx_pthread (mutexes k' a) = (if j = n then -1 else int me)"
proof -
  have l: "holds a me m (((\<lambda>k. snd (pthread_mutex_lock (Some a) k)) ^^ m) k)" if "m \<le> 1024" for m
    using that by (induction m) (auto simp: assms(1) intro: holds_lock)
  have u: "mx_lock (mutexes (((\<lambda>k. snd (pthread_mutex_unlock (Some a) k)) ^^ i) s) a) = int (n - i)
    \<and> mx_pthread (mutexes (((\<lambda>k. snd (pthread_mutex_unlock (Some a) k)) ^^ i) s) a) = (if i = n then -1 else int me)
    \<and> (i < n \<longrightarrow> holds a me (n - i) (((\<lambda>k. snd (pthread_mutex_unlock (Some a) k)) ^^ i) s))"
    if "holds a me n s" "i \<le> n" for i and s :: "'a mutex_kernel_scheme"
    using that(2)
  proof (induction i)
    case 0
    then show ?case using that(1) by (auto simp: holds_def)
  next
    case (Suc i)
    then have "holds a me (Suc (n - Suc i)) (((\<lambda>k. snd (pthread_mutex_unlock (Some a) k)) ^^ i) s)"
      by (simp add: Suc_diff_Suc)
    from holds_unlock [OF this] show ?case using Suc.prems by auto
  qed
  show ?thesis using u [OF l [OF assms(2)] assms(3)] by (simp add: Let_def)
qed

theorem mutex_recursive_balance_witness:
  "mx_lock (mutexes (((\<lambda>k. snd (pthread_mutex_unlock (Some 9) k)) ^^ 2)
     (((\<lambda>k. snd (pthread_mutex_lock (Some 9) k)) ^^ 3) (demo_mutex (demo_free True 0)))) 9) = 1"
proof -
  have "holds 9 1 0 (demo_mutex (demo_free True 0))"
    using demo_mutex_facts by (auto simp: holds_def mutex_accessible_def demo_mutex_sel demo_free_def demo_mutex_kernel demo_pair_sel)
  from mutex_recursive_balance [OF this, of 3 2] show ?thesis by (simp add: Let_def)
qed

text \<open>
  the priority ceiling costs the owner the processor. Locking a free mutex whose ceiling is above
  the caller's priority raises the priority of the caller, but not the priority the scheduler
  executes; when another task of the caller's former priority is woken then, the owner, now the
  runnable task of the highest priority, loses its executing flag and the woken task gets one.
\<close>

theorem mutex_ceiling_stops_owner:
  assumes "kinv k" and "running k" and "bases_ok k" and "me = task_current k"
    and "mutex_accessible a k" and "mx_pthread (mutexes k a) = -1"
    and "sched_get_priority k me < mx_prio_ceiling (mutexes k a)" and "mx_prio_ceiling (mutexes k a) < 128"
    and "pthread_mutex_lock (Some a) k = (r, k1)"
    and "j \<in> {1..<task_total k}" and "j \<noteq> me" and "task_enabled k j"
    and "sched_get_priority k j = sched_get_priority k me"
    and "k2 = sched_priv_update_on_wake (sched_get_priority k1 j) (sched_priv_assert_active j ty k1)"
  shows "r = Inr 0 \<and> mx_pthread (mutexes k1 a) = int me
    \<and> runnable k2 me \<and> \<not> task_exec_asserted k2 me
    \<and> runnable k2 j \<and> task_exec_asserted k2 j \<and> sched_get_priority k2 j < sched_get_priority k2 me"
proof -
  let ?c = "mx_prio_ceiling (mutexes k a)"
  let ?own = "upd_mutex a (\<lambda>m. m\<lparr>mx_pthread := int me, mx_pid := task_get_pid k me\<rparr>) k"
  have me: "1 \<le> me" "me < task_total k" "runnable k me" "sched_get_priority k me = sched_current_priority k"
    using assms(1,2,4) running_runnable [of k] by (auto simp: kinv_def cpu_ok_def running_def)
  have "0 \<le> sched_get_priority k me" using assms(1) me(1,2) by (auto simp: kinv_def sched_ok_def prios_ok_def)
  then have c: "to_u16 ?c = ?c" using assms(7,8) by simp
  have k1: "r = Inr 0" "k1 = upd_mutex a (\<lambda>m. m\<lparr>mx_lock := 1\<rparr>) (upd_sched me (\<lambda>t. t\<lparr>st_priority := ?c\<rparr>) ?own)"
    using assms(4-7,9) me(1) c
    by (auto simp: lock_eq mutex_trylock_def mutex_accessible_def priv_mutex_trylock_def Let_def
      sched_get_priority_def split: if_splits)
  have s: "runnable k1 i = runnable k i" "task_total k1 = task_total k" "sched_stopped_asserted k1 i = sched_stopped_asserted k i"
    "task_enabled k1 i = task_enabled k i" "sched_current_priority k1 = sched_current_priority k"
    "sched_get_priority k1 i = (if i = me then ?c else sched_get_priority k i)" for i
    by (simp_all add: k1 runnable_def sched_asserted_def task_enabled_def sched_get_priority_def upd_sched_def)
  let ?w = "sched_priv_assert_active j ty k1"
  have ns: "\<not> sched_stopped_asserted k j" using assms(1,10) by (simp add: kinv_def)
  have pj: "sched_get_priority k1 j = sched_current_priority ?w" using s(5,6) assms(11,13) me(4) by simp
  have e: "task_exec_asserted k2 i \<longleftrightarrow> runnable ?w i \<and> sched_get_priority ?w i = sched_current_priority k"
    if "i \<in> {1..<task_total k}" for i
    using that pj s(2,5) by (simp add: assms(14) sched_priv_update_on_wake_def)
  have g: "sched_get_priority ?w i = sched_get_priority k1 i" for i by (simp add: sched_get_priority_def)
  have o: "mx_pthread (mutexes k1 a) = int me" by (simp add: k1)
  have r: "runnable ?w me" "runnable ?w j" using me(3) s(1,3,4) assms(11,12) ns by auto
  have "task_exec_asserted k2 j" "\<not> task_exec_asserted k2 me"
    using e [of j] e [of me] r g s(6) assms(7,10,11,13) me by auto
  moreover have "runnable k2 me" "runnable k2 j" "sched_get_priority k2 j < sched_get_priority k2 me"
    using r g s(6) assms(7,11,13,14) by simp_all
  ultimately show ?thesis using k1(1) o by simp
qed

theorem mutex_ceiling_stops_owner_witness:
  "\<not> task_exec_asserted (sched_priv_update_on_wake 2 (sched_priv_assert_active 2 UNBLOCK_SEMAPHORE
       (snd (pthread_mutex_lock (Some 9) (demo_mutex (demo_free False 5)))))) 1"
proof -
  let ?k = "demo_mutex (demo_free False 5)"
  have m: "mutex_accessible 9 ?k" "mx_pthread (mutexes ?k 9) = -1" "mx_prio_ceiling (mutexes ?k 9) = 5"
    by (simp_all add: mutex_accessible_def demo_mutex_sel demo_free_def demo_mutex_kernel demo_pair_sel)
  have p: "sched_get_priority (snd (pthread_mutex_lock (Some 9) ?k)) 2 = 2"
    by (simp add: lock_eq demo_mutex_kernel demo_pair_sel mutex_trylock_def priv_mutex_trylock_def
      demo_mutex_sel demo_free_def Let_def)
      (simp add: sched_get_priority_def upd_sched_def demo_mutex_kernel demo_pair_sel(9) [unfolded sched_get_priority_def])
  show ?thesis
    using mutex_ceiling_stops_owner [OF demo_mutex_facts(3,4,2) refl m(1,2) _ _ surjective_pairing _ _ _ _ refl,
        of 2 UNBLOCK_SEMAPHORE] p
    by (simp add: demo_mutex_kernel demo_pair_sel m)
qed

end
