(* ===== verification/Cond.thy ===== *)
theory Cond
  imports Mutex
begin

section \<open>Condition variables (sys/pthread/pthread_cond.c)\<close>

text \<open>
  A condition variable is a word: the process in the low 30 bits, bit 30 when it is initialised, bit
  31 when it is shared. Errors come in two kinds: -1 with an error number, and the error number
  itself as the (positive) result of the call. A wait is split where the task is switched out:
  \<open>cond_timedwait_resume\<close> is what is left of a timed wait when its task runs again, and a plain wait
  has nothing left to do.
\<close>

record cond_kernel = mutex_kernel +
  conds :: "nat \<Rightarrow> u32"

abbreviation PSHARED_FLAG :: nat where "PSHARED_FLAG \<equiv> 31"
abbreviation INIT_FLAG :: nat where "INIT_FLAG \<equiv> 30"
abbreviation PID_MASK :: u32 where "PID_MASK \<equiv> 0x3FFFFFFF"

datatype cond_ret = C_Ok | C_Fail errno | C_Returns errno

definition set_cond :: "nat \<Rightarrow> u32 \<Rightarrow> 'z cond_kernel_scheme \<Rightarrow> 'z cond_kernel_scheme" where
  "set_cond c w k = k\<lparr>conds := (conds k)(c := w)\<rparr>"

text \<open>\<open>attr\<close> is its \<open>process_shared\<close> field.\<close>

definition pthread_cond_init :: "nat option \<Rightarrow> int option \<Rightarrow> 'z cond_kernel_scheme \<Rightarrow> cond_ret \<times> 'z cond_kernel_scheme" where
  "pthread_cond_init cond attr k =
     (case (cond, attr) of
        (Some c, Some shared) \<Rightarrow>
          (let w = flag_set (word_of_int (task_get_pid k (task_current k)) :: u32) INIT_FLAG
           in (C_Ok, set_cond c (if shared \<noteq> 0 then flag_set w PSHARED_FLAG else w) k))
      | _ \<Rightarrow> (C_Fail EINVAL, k))"

definition pthread_cond_destroy :: "nat option \<Rightarrow> 'z cond_kernel_scheme \<Rightarrow> cond_ret \<times> 'z cond_kernel_scheme" where
  "pthread_cond_destroy cond k =
     (case cond of
        None \<Rightarrow> (C_Fail EINVAL, k)
      | Some c \<Rightarrow> if \<not> flag_test (conds k c) INIT_FLAG then (C_Returns EINVAL, k) else (C_Ok, set_cond c 0 k))"

subsection \<open>Waking\<close>

definition priv_cond_broadcast :: "nat \<Rightarrow> 'z kernel_scheme \<Rightarrow> 'z kernel_scheme" where
  "priv_cond_broadcast c k =
     (case sched_priv_unblock_all (Addr c) UNBLOCK_COND k of (prio, k1) \<Rightarrow> sched_priv_update_on_wake prio k1)"

definition pthread_cond_broadcast :: "nat option \<Rightarrow> 'z cond_kernel_scheme \<Rightarrow> cond_ret \<times> 'z cond_kernel_scheme" where
  "pthread_cond_broadcast cond k =
     (case cond of
        None \<Rightarrow> (C_Fail EINVAL, k)
      | Some c \<Rightarrow> if \<not> flag_test (conds k c) INIT_FLAG then (C_Fail EINVAL, k) else (C_Ok, priv_cond_broadcast c k))"

definition priv_cond_signal :: "nat \<Rightarrow> 'z kernel_scheme \<Rightarrow> 'z kernel_scheme" where
  "priv_cond_signal i k =
     (let k1 = sched_priv_assert_active i UNBLOCK_COND k
      in sched_priv_update_on_wake (st_priority (sched_table k1 i)) k1)"

definition pthread_cond_signal :: "nat option \<Rightarrow> 'z cond_kernel_scheme \<Rightarrow> cond_ret \<times> 'z cond_kernel_scheme" where
  "pthread_cond_signal cond k =
     (case cond of
        None \<Rightarrow> (C_Fail EINVAL, k)
      | Some c \<Rightarrow>
          if \<not> flag_test (conds k c) INIT_FLAG then (C_Returns EINVAL, k)
          else (C_Ok, case sched_get_highest_priority_blocked (Addr c) k of
                        None \<Rightarrow> k
                      | Some i \<Rightarrow> priv_cond_signal i k))"

subsection \<open>Waiting\<close>

text \<open>\<open>None\<close> is the \<open>ret\<close> of -1: the caller does not hold the mutex.\<close>

definition priv_cond_wait :: "nat \<Rightarrow> nat \<Rightarrow> nat option \<Rightarrow> sched_timeval \<Rightarrow> 'z cond_kernel_scheme \<Rightarrow> 'z cond_kernel_scheme option" where
  "priv_cond_wait c a new_thread interval k =
     (if mx_pthread (mutexes k a) = int (task_current k) then
        (let k1 = upd_sched (task_current k) (\<lambda>t. t\<lparr>st_priority := to_u16 (st_sched_priority t)\<rparr>) k;
             k2 = (case new_thread of
                     Some n \<Rightarrow>
                       sched_priv_assert_active n UNBLOCK_MUTEX
                         (upd_sched n (\<lambda>t. t\<lparr>st_priority := to_u16 (mx_prio_ceiling (mutexes k1 a))\<rparr>)
                           (upd_mutex a (\<lambda>m. m\<lparr>mx_pthread := int n, mx_pid := task_get_pid k1 n, mx_lock := 1\<rparr>) k1))
                   | None \<Rightarrow> upd_mutex a (\<lambda>m. m\<lparr>mx_lock := 0, mx_pthread := -1\<rparr>) k1)
         in Some (sched_priv_timedblock (Addr c) interval k2))
      else None)"

text \<open>
  The part that both waits share; the process of the caller is compared with the low 30 bits. The next owner of the
  mutex is looked for in user code, where the caller can be preempted, and handed over to the privileged call.
  \<open>cond_wait_until\<close> is the wait when no other task runs between the two; what happens otherwise is
  \<open>cond_wait_overtaken\<close>. The search of \<open>pthread_cond_signal\<close> is in user code as well.
\<close>

definition cond_wait_search :: "nat \<Rightarrow> 'z kernel_scheme \<Rightarrow> nat option" where
  "cond_wait_search a k = sched_get_highest_priority_blocked (Addr a) k"

definition cond_wait_release :: "nat \<Rightarrow> nat \<Rightarrow> nat option \<Rightarrow> sched_timeval \<Rightarrow> 'z cond_kernel_scheme \<Rightarrow> cond_ret \<times> 'z cond_kernel_scheme" where
  "cond_wait_release c a new_thread interval k =
     (case priv_cond_wait c a new_thread interval k of None \<Rightarrow> (C_Fail EPERM, k) | Some k' \<Rightarrow> (C_Ok, k'))"

definition cond_wait_until :: "nat option \<Rightarrow> nat \<Rightarrow> sched_timeval \<Rightarrow> 'z cond_kernel_scheme \<Rightarrow> cond_ret \<times> 'z cond_kernel_scheme" where
  "cond_wait_until cond a interval k =
     (case cond of
        None \<Rightarrow> (C_Fail EINVAL, k)
      | Some c \<Rightarrow>
          if \<not> flag_test (conds k c) INIT_FLAG then (C_Returns EINVAL, k)
          else if \<not> flag_test (conds k c) PSHARED_FLAG
            \<and> uint (conds k c AND PID_MASK) \<noteq> task_get_pid k (task_current k) then (C_Fail EACCES, k)
          else cond_wait_release c a (cond_wait_search a k) interval k)"

definition pthread_cond_wait :: "nat option \<Rightarrow> nat \<Rightarrow> 'z cond_kernel_scheme \<Rightarrow> cond_ret \<times> 'z cond_kernel_scheme" where
  "pthread_cond_wait cond a k = cond_wait_until cond a (SEC_INVALID, 0) k"

definition pthread_cond_timedwait :: "nat option \<Rightarrow> nat \<Rightarrow> (int \<times> int) option \<Rightarrow> 'z cond_kernel_scheme \<Rightarrow> cond_ret \<times> 'z cond_kernel_scheme" where
  "pthread_cond_timedwait cond a abstime k = cond_wait_until cond a (sched_convert_timespec abstime) k"

definition cond_timedwait_resume :: "'z kernel_scheme \<Rightarrow> cond_ret" where
  "cond_timedwait_resume k =
     (if sched_get_unblock_type k (task_current k) = unblock_code UNBLOCK_SLEEP then C_Fail ETIMEDOUT else C_Ok)"

subsection \<open>Frames\<close>

lemma cond_more: "kernel.more k' = kernel.more k \<Longrightarrow> conds k' = conds k"
  by (cases k, cases k', simp)

lemma sched_conds [simp]:
  "conds (sched_priv_update_on_wake p k) = conds k" "conds (sched_priv_timedblock obj tv k) = conds k"
  "conds (sched_priv_assert_active i ty k) = conds k" "conds (upd_sched i f k) = conds k"
  by (rule cond_more; simp)+

lemma upd_mutex_conds [simp]: "conds (upd_mutex a f k) = conds k"
  by (simp add: upd_mutex_def)

interpretation cond_wake: waker priv_cond_signal UNBLOCK_COND
  by unfold_locales (simp add: priv_cond_signal_def Let_def sched_get_priority_def)

lemma cond_signal_mutexes [simp]:
  "mutexes (priv_cond_signal i k) = mutexes k" "mutexes (priv_cond_broadcast c k) = mutexes k"
  by (rule mutex_more; simp add: priv_cond_broadcast_def unblock_all_eq)+

lemma broadcast_eq:
  "priv_cond_broadcast c k =
     sched_priv_update_on_wake (scan_max (blocked_on k (Addr c)) (\<lambda>i. st_sched_priority (sched_table k i)) (-1) [1..<task_total k])
       (wake_set (blocked_on k (Addr c)) UNBLOCK_COND [1..<task_total k] k)"
  by (simp add: priv_cond_broadcast_def unblock_all_eq)

subsection \<open>Blocking restores the scheduler\<close>

text \<open>
  A task that goes to sleep makes the scheduler look at all priorities again, so the invariant holds
  afterwards whatever was changed before, as long as every executing task could run.
\<close>

lemma sleep_restores:
  assumes "prios_ok k" and "\<And>i. 1 \<le> i \<Longrightarrow> i < task_total k \<Longrightarrow> task_exec_asserted k i \<Longrightarrow> runnable k i"
    and "task_current k < task_total k" and "\<And>i. 1 \<le> i \<Longrightarrow> i < task_total k \<Longrightarrow> \<not> sched_stopped_asserted k i"
  shows "kinv (sched_priv_update_on_sleep k)"
proof -
  let ?k = "sched_priv_deassert_active (task_current k) k"
  have pr: "prios_ok ?k" using assms(1) by (simp add: prios_ok_def)
  have "sched_ok (sched_priv_update_on_stopped ?k)"
  proof (rule update_on_stopped_ok [OF pr])
    fix i assume i: "1 \<le> i" "i < task_total ?k" "task_exec_asserted ?k i" "top_priority ?k = -1"
    then have "runnable ?k i" using assms(2) by auto
    with top_priority_none [OF pr i(4,1,2)] show False by blast
  qed
  then show ?thesis
    using assms(3,4) by (simp add: kinv_def cpu_ok_def sched_priv_update_on_sleep_def update_on_stopped_pend)
qed

text \<open>The state in which \<open>priv_cond_wait\<close> has released the mutex and blocks.\<close>

definition released :: "nat \<Rightarrow> nat option \<Rightarrow> 'z mutex_kernel_scheme \<Rightarrow> 'z mutex_kernel_scheme" where
  "released a new_thread k =
     (let k1 = upd_sched (task_current k) (\<lambda>t. t\<lparr>st_priority := to_u16 (st_sched_priority t)\<rparr>) k
      in case new_thread of
           Some n \<Rightarrow>
             sched_priv_assert_active n UNBLOCK_MUTEX
               (upd_sched n (\<lambda>t. t\<lparr>st_priority := to_u16 (mx_prio_ceiling (mutexes k1 a))\<rparr>)
                 (upd_mutex a (\<lambda>m. m\<lparr>mx_pthread := int n, mx_pid := task_get_pid k1 n, mx_lock := 1\<rparr>) k1))
         | None \<Rightarrow> upd_mutex a (\<lambda>m. m\<lparr>mx_lock := 0, mx_pthread := -1\<rparr>) k1)"

lemma priv_cond_wait_released:
  "priv_cond_wait c a nt tv k =
     (if mx_pthread (mutexes k a) = int (task_current k)
      then Some (sched_priv_timedblock (Addr c) tv (released a nt k)) else None)"
  by (simp add: priv_cond_wait_def released_def Let_def)

lemma upd_priority [simp]:
  "sched_asserted f (upd_sched i (\<lambda>t. t\<lparr>st_priority := p t\<rparr>) k) j = sched_asserted f k j"
  by (simp add: sched_asserted_def)

lemma released_sel [simp]:
  "task_total (released a nt k) = task_total k" "task_current (released a nt k) = task_current k"
  "task_table (released a nt k) = task_table k" "sched_current_priority (released a nt k) = sched_current_priority k"
  "st_sched_priority (sched_table (released a nt k) i) = st_sched_priority (sched_table k i)"
  "task_enabled (released a nt k) i = task_enabled k i" "task_exec_asserted (released a nt k) i = task_exec_asserted k i"
  "sched_stopped_asserted (released a nt k) i = sched_stopped_asserted k i"
  "sched_active_asserted (released a nt k) i = (sched_active_asserted k i \<or> nt = Some i)"
  by (auto simp: released_def Let_def task_enabled_def task_exec_asserted_def split: option.split)

lemma released_bases [simp]: "bases_ok (released a nt k) = bases_ok k"
  by (rule bases_cong) simp

lemma released_waiters:
  "waiters obj (released a nt k) = waiters obj k - set_option nt"
  by (simp add: released_def Let_def split: option.split)

lemma released_mutex:
  "mutexes (released a nt k) a = (case nt of
      Some n \<Rightarrow> (mutexes k a)\<lparr>mx_pthread := int n, mx_pid := task_get_pid k n, mx_lock := 1\<rparr>
    | None \<Rightarrow> (mutexes k a)\<lparr>mx_lock := 0, mx_pthread := -1\<rparr>)"
  by (simp add: released_def Let_def task_get_pid_def split: option.split)

lemma released_priority:
  "sched_get_priority (released a nt k) i = (if nt = Some i then to_u16 (mx_prio_ceiling (mutexes k a))
     else if i = task_current k then to_u16 (st_sched_priority (sched_table k i)) else sched_get_priority k i)"
  by (auto simp: released_def Let_def sched_get_priority_def upd_sched_def split: option.split)

lemma can_block_released: "can_block k \<Longrightarrow> can_block (released a nt k)"
  by (simp add: can_block_def)

lemma released_block_kinv:
  assumes inv: "kinv k" and cb: "can_block k"
    and pr: "0 \<le> mx_prio_ceiling (mutexes k a)" "mx_prio_ceiling (mutexes k a) < 128"
      "0 \<le> st_sched_priority (sched_table k (task_current k))" "st_sched_priority (sched_table k (task_current k)) < 128"
  shows "kinv (sched_priv_timedblock (Addr c) tv (released a nt k))"
proof -
  let ?k = "snd (timedblock_prepare (Addr c) tv (released a nt k))"
  have f: "sched_asserted f ?k i = sched_asserted f (released a nt k) i" for f i by (simp add: sched_asserted_def)
  have "kinv (sched_priv_update_on_sleep ?k)"
  proof (rule sleep_restores)
    show "prios_ok ?k" using inv pr by (auto simp: prios_ok_def released_priority kinv_def sched_ok_def)
    show "runnable ?k i" if "1 \<le> i" "i < task_total ?k" "task_exec_asserted ?k i" for i
      using inv that by (auto simp: runnable_def f kinv_def sched_ok_def exec_ok_def)
    show "task_current ?k < task_total ?k" using cb by (simp add: can_block_def)
    show "\<not> sched_stopped_asserted ?k i" if "1 \<le> i" "i < task_total ?k" for i
      using inv that by (simp add: f kinv_def)
  qed
  then show ?thesis by (simp add: sched_priv_timedblock_def split_beta)
qed

lemma released_block_waiters:
  assumes "can_block k"
  shows "waiters obj (sched_priv_timedblock (Addr c) tv (released a nt k)) =
    (if Addr c = obj then insert (task_current k) (waiters obj k - set_option nt) else waiters obj k - set_option nt)"
  using timedblock_waiters [OF can_block_released [OF assms], of "Addr c"] by (simp add: released_waiters)

lemma timedblock_others:
  "n \<noteq> task_current k \<Longrightarrow> sched_active_asserted (sched_priv_timedblock (Addr c) tv k) n = sched_active_asserted k n"
  by (simp add: sched_priv_timedblock_def split_beta sched_priv_update_on_sleep_def) (simp add: sched_asserted_def)

lemma timedblock_tasks:
  "task_total (sched_priv_timedblock obj tv k) = task_total k"
  "task_enabled (sched_priv_timedblock obj tv k) i = task_enabled k i"
  by (auto simp: sched_priv_timedblock_def sched_priv_update_on_sleep_def split_beta sched_priv_deassert_active_def
    sched_priv_deassert_def)

subsection \<open>The histories of a mutex\<close>

text \<open>
  Any number of tasks use the mutex at \<open>a\<close>, each call from the task that is executing, and as seen when it returns or
  switches the task out. Between the calls anything may happen that leaves the mutex as it is and adds no task to those that
  wait for it (tasks may leave: a wait can time out). A mutex is initialised and destroyed only while no task waits for it, and
  no call is preempted in user code between what it has looked up or counted there and its privileged step: between
  \<open>mutex->lock--\<close> and the release of a recursive mutex the count is 0 and the mutex still has its owner, and
  a wait for a condition that is overtaken after its search is \<open>cond_wait_overtaken\<close>.
\<close>

inductive mutex_hist :: "nat \<Rightarrow> 'z cond_kernel_scheme \<Rightarrow> bool" for a where
  mh_init: "pthread_mutex_init (Some a) attr k = (r, k') \<Longrightarrow> waiters (Addr a) k = {} \<Longrightarrow> bases_ok k \<Longrightarrow> mutex_hist a k'"
| mh_lock: "mutex_hist a k \<Longrightarrow> can_block k \<Longrightarrow> pthread_mutex_lock (Some a) k = (r, k') \<Longrightarrow> mutex_hist a k'"
| mh_trylock: "mutex_hist a k \<Longrightarrow> can_block k \<Longrightarrow> pthread_mutex_trylock (Some a) k = (r, k') \<Longrightarrow> mutex_hist a k'"
| mh_timedlock: "mutex_hist a k \<Longrightarrow> can_block k \<Longrightarrow> pthread_mutex_timedlock (Some a) ts k = (r', k') \<Longrightarrow> mutex_hist a k'"
| mh_unlock: "mutex_hist a k \<Longrightarrow> can_block k \<Longrightarrow> pthread_mutex_unlock (Some a) k = (r, k') \<Longrightarrow> mutex_hist a k'"
| mh_ceiling: "mutex_hist a k \<Longrightarrow> pthread_mutex_setprioceiling (Some a) p k = (r, k') \<Longrightarrow> mutex_hist a k'"
| mh_force_unlock: "mutex_hist a k \<Longrightarrow> mutex_hist a (pthread_mutex_force_unlock a k)"
| mh_destroy: "mutex_hist a k \<Longrightarrow> waiters (Addr a) k = {} \<Longrightarrow> pthread_mutex_destroy (Some a) k = (r, k') \<Longrightarrow> mutex_hist a k'"
| mh_cond_wait: "mutex_hist a k \<Longrightarrow> can_block k \<Longrightarrow> cond \<noteq> Some a \<Longrightarrow> pthread_cond_wait cond a k = (rc, k') \<Longrightarrow> mutex_hist a k'"
| mh_cond_timedwait: "mutex_hist a k \<Longrightarrow> can_block k \<Longrightarrow> cond \<noteq> Some a \<Longrightarrow> pthread_cond_timedwait cond a ts k = (rc, k')
    \<Longrightarrow> mutex_hist a k'"
| mh_other: "mutex_hist a k \<Longrightarrow> mutexes k' a = mutexes k a \<Longrightarrow> waiters (Addr a) k' \<subseteq> waiters (Addr a) k
    \<Longrightarrow> bases_ok k' \<Longrightarrow> mutex_hist a k'"

lemma mutex_inv_cond_wait:
  assumes inv: "mutex_inv a k" and cb: "can_block k" and c: "cond \<noteq> Some a" and r: "cond_wait_until cond a tv k = (r, k')"
  shows "mutex_inv a k'"
proof (cases "k' = k")
  case False
  have b: "bases_ok k" using inv by (simp add: mutex_inv_def)
  let ?nt = "cond_wait_search a k"
  obtain c' where c': "cond = Some c'" "c' \<noteq> a" and k': "k' = sched_priv_timedblock (Addr c') tv (released a ?nt k)"
    using r c False by (auto simp: cond_wait_until_def cond_wait_release_def priv_cond_wait_released split: option.splits if_splits)
  have w: "waiters (Addr a) k' = waiters (Addr a) k - set_option ?nt"
    using released_block_waiters [OF cb, of "Addr a" c' tv a ?nt] c'(2) by (simp add: k')
  have m: "mutexes k' a = mutexes (released a ?nt k) a" and bb: "bases_ok k'" using b by (simp_all add: k')
  show ?thesis
  proof (cases ?nt)
    case None
    then have "waiters (Addr a) k = {}" using highest_blocked_None [OF b] by (simp add: cond_wait_search_def)
    then show ?thesis using None w m bb by (simp add: mutex_inv_def released_mutex)
  next
    case (Some n)
    then show ?thesis using m bb by (simp add: mutex_inv_def released_mutex)
  qed
qed (use inv in simp)

lemma mutex_hist_inv: "mutex_hist a k \<Longrightarrow> mutex_inv a k"
proof (induction rule: mutex_hist.induct)
  case (mh_other k k')
  then show ?case using mutex_inv_cong by blast
qed (auto simp: pthread_cond_wait_def pthread_cond_timedwait_def intro: mutex_inv_init mutex_inv_lock mutex_inv_trylock_call
  mutex_inv_timedlock mutex_inv_unlock mutex_inv_ceiling mutex_inv_force_unlock mutex_inv_destroy mutex_inv_cond_wait)

subsection \<open>Properties\<close>

definition demo_cond :: "pthread_mutex \<Rightarrow> cond_kernel" where
  "demo_cond m = mutex_kernel.extend (demo_mutex m) \<lparr>conds = (\<lambda>_. 0x40000007)\<rparr>"

lemma demo_cond_trunc [simp]: "kernel.truncate (demo_cond m) = kernel.truncate demo_pair"
  by (simp add: demo_cond_def demo_mutex_def kernel.truncate_def mutex_kernel.extend_def kernel.extend_def)

lemmas demo_cond_kernel = trunc_fields [OF demo_cond_trunc] trunc_same [OF demo_cond_trunc]
  trunc_kinv [OF demo_cond_trunc] trunc_objects [OF demo_cond_trunc]

lemma demo_cond_sel: "mutexes (demo_cond m) a = m" "conds (demo_cond m) c = 0x40000007"
  by (simp_all add: demo_cond_def mutex_kernel.extend_def demo_mutex_def kernel.extend_def)

lemma demo_cond_facts: "can_block (demo_cond m)" "kinv (demo_cond m)" "bases_ok (demo_cond m)" "waiters obj (demo_cond m) = {}"
  using running_can_block [OF demo_pair_facts(1,2)] demo_pair_facts by (simp_all add: demo_cond_kernel)

text \<open>
  C22: in every history of a mutex of calls to init and destroy (while no task waits for it), lock, trylock, timedlock, unlock,
  setprioceiling, force_unlock and \<open>pthread_cond_wait\<close> or \<open>pthread_cond_timedwait\<close>, whatever the tasks, the counts and
  the time-outs, no call being preempted in user code before its privileged step: after each call it has an owner
  exactly when its count is positive, the count stays between 0 and 1024 and exceeds 1 only on a recursive mutex, and no task
  waits for a mutex that is free.
\<close>

theorem mutex_no_lost_waiter:
  assumes "mutex_hist a k"
  shows "(mx_pthread (mutexes k a) = -1 \<longleftrightarrow> mx_lock (mutexes k a) = 0)
    \<and> 0 \<le> mx_lock (mutexes k a) \<and> mx_lock (mutexes k a) \<le> PTHREAD_MAX_LOCKS
    \<and> (mx_lock (mutexes k a) > 1 \<longrightarrow> mx_recursive (mutexes k a))
    \<and> (waiters (Addr a) k \<noteq> {} \<longrightarrow> mx_pthread (mutexes k a) \<noteq> -1)"
  using mutex_hist_inv [OF assms] by (auto simp: mutex_inv_def)

theorem mutex_no_lost_waiter_witness:
  "mx_lock (mutexes (snd (pthread_mutex_lock (Some 9) (snd (pthread_mutex_init (Some 9) None (demo_cond (demo_free True 3)))))) 9) \<le> 1024"
proof -
  let ?k = "snd (pthread_mutex_init (Some 9) None (demo_cond (demo_free True 3)))"
  have "mutex_hist 9 ?k"
    by (rule mh_init [OF surjective_pairing]) (simp_all add: demo_cond_facts)
  moreover have "can_block ?k" by (simp add: pthread_mutex_init_def demo_cond_facts)
  ultimately have "mutex_hist 9 (snd (pthread_mutex_lock (Some 9) ?k))" by (rule mh_lock) (rule surjective_pairing)
  from mutex_no_lost_waiter [OF this] show ?thesis by simp
qed

text \<open>
  C23: the privileged step of a wait by the owner of the mutex, given the next owner that the search before it found and
  that is still the best waiter, or none if none waits: in this one step the best task that waits for the mutex gets it and
  runs on, or it becomes free, and the caller is not active and waits for the condition; the scheduler's invariant holds
  afterwards. The ceiling and the caller's base priority are below 128. A caller that does not own the mutex gets
  \<open>EPERM\<close> and nothing changes.
\<close>

theorem cond_wait_releases:
  assumes "kinv k" and "can_block k" and "bases_ok k" and "c \<noteq> a"
    and "0 \<le> mx_prio_ceiling (mutexes k a)" "mx_prio_ceiling (mutexes k a) < 128"
    and "st_sched_priority (sched_table k (task_current k)) < 128"
    and "nt = cond_wait_search a k" and "cond_wait_release c a nt tv k = (r, k')"
  shows "if mx_pthread (mutexes k a) \<noteq> int (task_current k) then r = C_Fail EPERM \<and> k' = k
    else r = C_Ok \<and> kinv k' \<and> \<not> sched_active_asserted k' (task_current k)
      \<and> waiters (Addr c) k' = insert (task_current k) (waiters (Addr c) k)
      \<and> (if waiters (Addr a) k = {} then mx_pthread (mutexes k' a) = -1 \<and> mx_lock (mutexes k' a) = 0
         else \<exists>n. best_waiter (Addr a) k n \<and> waiters (Addr a) k' = waiters (Addr a) k - {n}
            \<and> mx_pthread (mutexes k' a) = int n \<and> mx_lock (mutexes k' a) = 1 \<and> sched_active_asserted k' n)"
proof -
  let ?k = "sched_priv_timedblock (Addr c) tv (released a nt k)"
  have b: "cond_wait_release c a nt tv k = (if mx_pthread (mutexes k a) = int (task_current k) then (C_Ok, ?k) else (C_Fail EPERM, k))"
    by (simp add: cond_wait_release_def priv_cond_wait_released)
  note w = released_block_waiters [OF assms(2), of obj c tv a nt for obj]
  have bl: "task_current k \<in> waiters (Addr c) ?k" by (simp add: w)
  have d: "waiters (Addr c) k \<inter> set_option nt = {}"
    using highest_blocked_Some [of "Addr a" k] assms(4,8)
    by (cases nt) (auto simp: cond_wait_search_def best_waiter_def waiters_def blocked_on_def)
  have inv: "kinv ?k"
    by (rule released_block_kinv) (use assms in \<open>auto simp: bases_ok_def\<close>)
  show ?thesis
  proof (cases "mx_pthread (mutexes k a) = int (task_current k)")
    case True
    then have k': "r = C_Ok" "k' = ?k" using b assms(9) by auto
    have wc: "waiters (Addr c) k' = insert (task_current k) (waiters (Addr c) k)" using d by (auto simp: k' w)
    have na: "\<not> sched_active_asserted k' (task_current k)" using waitersD [OF bl] by (simp add: blocked_on_def k')
    have "if waiters (Addr a) k = {} then mx_pthread (mutexes k' a) = -1 \<and> mx_lock (mutexes k' a) = 0
         else \<exists>n. best_waiter (Addr a) k n \<and> waiters (Addr a) k' = waiters (Addr a) k - {n}
            \<and> mx_pthread (mutexes k' a) = int n \<and> mx_lock (mutexes k' a) = 1 \<and> sched_active_asserted k' n"
    proof (cases nt)
      case None
      then have "waiters (Addr a) k = {}" using highest_blocked_None [OF assms(3)] assms(8) by (simp add: cond_wait_search_def)
      then show ?thesis using None by (simp add: k' released_mutex)
    next
      case (Some n)
      have best: "best_waiter (Addr a) k n" using highest_blocked_Some [of "Addr a" k n] assms(8) Some by (simp add: cond_wait_search_def)
      then have "waiters (Addr a) k \<noteq> {}" by (auto simp: best_waiter_def)
      moreover have "n \<noteq> task_current k" using best assms(2) by (auto simp: best_waiter_def can_block_def dest!: waitersD simp: blocked_on_def)
      ultimately show ?thesis using best Some assms(4) w [of "Addr a"] timedblock_others [of n "released a nt k" c tv] by (auto simp: k' released_mutex)
    qed
    then show ?thesis using True k'(1) wc na inv by (simp add: k')
  qed (use b assms(9) in auto)
qed

theorem cond_wait_releases_witness:
  "mx_pthread (mutexes (snd (cond_wait_release 8 9 None (SEC_INVALID, 0) (demo_cond ((demo_free False 0)\<lparr>mx_pthread := 1, mx_lock := 1\<rparr>)))) 9) = -1"
proof -
  let ?k = "demo_cond ((demo_free False 0)\<lparr>mx_pthread := 1, mx_lock := 1\<rparr>)"
  have p: "0 \<le> mx_prio_ceiling (mutexes ?k 9)" "mx_prio_ceiling (mutexes ?k 9) < 128"
    "st_sched_priority (sched_table ?k (task_current ?k)) < 128" "None = cond_wait_search 9 ?k"
    using highest_blocked_None [OF demo_cond_facts(3)] demo_cond_facts(4)
    by (simp_all add: demo_cond_sel demo_cond_kernel demo_pair_sel demo_free_def cond_wait_search_def)
  from cond_wait_releases [OF demo_cond_facts(2,1,3) _ p surjective_pairing, of 8]
  show ?thesis by (simp add: demo_cond_sel demo_cond_kernel demo_pair_sel demo_pair_facts)
qed

text \<open>
  C24: the search of \<open>pthread_cond_wait\<close> can be overtaken. The owner of the mutex has found no waiting task and is
  preempted before the privileged call; another task calls \<open>pthread_mutex_lock\<close> and blocks on the mutex. The owner goes
  on with the old result: the mutex becomes free although a task waits for it, and that task stays blocked.
\<close>

theorem cond_wait_overtaken:
  fixes k k1 k2 :: "'z cond_kernel_scheme"
  assumes "bases_ok k" and "waiters (Addr a) k = {}" and "mx_pthread (mutexes k a) = int me" and "c \<noteq> a"
    and "mutexes k1 a = mutexes k a" and "waiters (Addr a) k1 = {}" and "can_block k1" and "bases_ok k1" and "task_current k1 = n"
    and "n \<noteq> me" and "mutex_accessible a k1" and "pthread_mutex_lock (Some a) k1 = (r, k2)"
    and "mutexes k3 a = mutexes k2 a" and "waiters (Addr a) k3 = waiters (Addr a) k2" and "can_block k3" and "task_current k3 = me"
    and "cond_wait_release c a (cond_wait_search a k) tv k3 = (r', k4)"
  shows "r' = C_Ok \<and> mx_pthread (mutexes k4 a) = -1 \<and> mx_lock (mutexes k4 a) = 0
    \<and> waiters (Addr a) k4 = {n} \<and> \<not> sched_active_asserted k4 n"
proof -
  have none: "cond_wait_search a k = None" using highest_blocked_None [OF assms(1)] assms(2) by (simp add: cond_wait_search_def)
  have l: "mutexes k2 a = mutexes k a" "waiters (Addr a) k2 = {n}"
    using mutex_lock_outcomes [OF assms(7,8,11,12) refl refl] assms(3,5,6,9,10) by auto
  have k4: "r' = C_Ok" "k4 = sched_priv_timedblock (Addr c) tv (released a None k3)"
    using assms(17) assms(3,13,16) l(1) by (simp_all add: none cond_wait_release_def priv_cond_wait_released)
  have w: "waiters (Addr a) k4 = {n}"
    using released_block_waiters [OF assms(15), of "Addr a" c tv a None] assms(4,14) l(2) by (simp add: k4)
  then have "\<not> sched_active_asserted k4 n" using waitersD [of n "Addr a" k4] by (simp add: blocked_on_def)
  then show ?thesis using k4 w by (simp add: released_mutex)
qed

lemma switch_facts [simp]:
  fixes k :: "'z kernel_scheme"
  shows "waiters obj (k\<lparr>task_current := n\<rparr>) = waiters obj k" "bases_ok (k\<lparr>task_current := n\<rparr>) = bases_ok k"
    "can_block (k\<lparr>task_current := n\<rparr>) \<longleftrightarrow> 1 \<le> n \<and> n < task_total k \<and> task_enabled k n \<and> sched_active_asserted k n"
    "task_get_pid (k\<lparr>task_current := n\<rparr>) i = task_get_pid k i"
  by (auto simp: waiters_def blocked_on_def bases_ok_def can_block_def task_enabled_def sched_asserted_def task_get_pid_def)

theorem cond_wait_overtaken_witness:
  "\<exists>k k2 k4. k = demo_cond ((demo_free False 0)\<lparr>mx_pthread := 1, mx_lock := 1\<rparr>) \<and> k2 = snd (pthread_mutex_lock (Some 9) (k\<lparr>task_current := 2\<rparr>))
     \<and> k4 = snd (cond_wait_release 8 9 (cond_wait_search 9 k) (SEC_INVALID, 0) (k2\<lparr>task_current := 1\<rparr>))
     \<and> waiters (Addr 9) k4 = {2} \<and> mx_pthread (mutexes k4 9) = -1"
proof -
  let ?k = "demo_cond ((demo_free False 0)\<lparr>mx_pthread := 1, mx_lock := 1\<rparr>)"
  let ?k1 = "?k\<lparr>task_current := 2\<rparr>"
  let ?k2 = "snd (pthread_mutex_lock (Some 9) ?k1)"
  let ?k3 = "?k2\<lparr>task_current := 1\<rparr>"
  have c1: "can_block ?k1" by (simp add: demo_cond_kernel demo_pair_sel)
  have acc: "mutex_accessible 9 ?k1"
    by (simp add: mutex_accessible_def demo_cond_sel demo_cond_kernel demo_pair_sel demo_free_def)
  have k2: "?k2 = sched_priv_timedblock (Addr 9) (sched_convert_timespec None) (upd_sched 2 (\<lambda>t. t\<lparr>st_block_object := Addr 9\<rparr>) ?k1)"
    by (simp add: lock_eq mutex_trylock_def priv_mutex_trylock_def demo_cond_sel demo_free_def demo_cond_kernel demo_pair_sel)
  let ?kb = "upd_sched 2 (\<lambda>t. t\<lparr>st_block_object := Addr 9\<rparr>) ?k1"
  have b: "task_total ?kb = 3" "task_enabled ?kb 1" "sched_active_asserted ?kb 1" "task_current ?kb = 2"
    using demo_cond_facts(1) [of "(demo_free False 0)\<lparr>mx_pthread := 1, mx_lock := 1\<rparr>"]
    by (auto simp: demo_cond_kernel demo_pair_sel can_block_def task_enabled_def sched_asserted_def upd_sched_def)
  have c3: "can_block ?k3"
    unfolding k2 using b timedblock_others [of 1 ?kb 9 "sched_convert_timespec None"] by (simp add: timedblock_tasks)
  from cond_wait_overtaken [where me = 1 and c = 8 and k = ?k, OF demo_cond_facts(3,4) _ _ _ _ c1 _ refl _ acc surjective_pairing _ _ c3 _ surjective_pairing]
  show ?thesis by (simp add: demo_cond_sel demo_cond_facts demo_free_def)
qed

lemma broadcast_active:
  "sched_asserted f (priv_cond_broadcast c k) i
     = sched_asserted f (wake_set (blocked_on k (Addr c)) UNBLOCK_COND [1..<task_total k] k) i"
  by (simp add: broadcast_eq)

lemma broadcast_waiters: "waiters (Addr c) (priv_cond_broadcast c k) = {}"
proof -
  have "\<not> blocked_on (wake_set (blocked_on k (Addr c)) UNBLOCK_COND [1..<task_total k] k) (Addr c) i"
    if i: "1 \<le> i" "i < task_total k" for i
  proof (cases "blocked_on k (Addr c) i")
    case True
    then show ?thesis using i wake_set_woken [of i "[1..<task_total k]" "blocked_on k (Addr c)" UNBLOCK_COND k]
      by (simp add: blocked_on_def)
  next
    case False
    then have "sched_table (wake_set (blocked_on k (Addr c)) UNBLOCK_COND [1..<task_total k] k) i = sched_table k i"
      by (intro wake_set_other) simp
    then show ?thesis using False by (simp add: blocked_on_def sched_asserted_def)
  qed
  then show ?thesis by (auto simp: waiters_def broadcast_eq blocked_on_def sched_asserted_def)
qed

lemma broadcast_wakes: "i \<in> waiters (Addr c) k \<Longrightarrow> sched_active_asserted (priv_cond_broadcast c k) i"
  using wake_set_woken [of i "[1..<task_total k]" "blocked_on k (Addr c)" UNBLOCK_COND k]
  by (simp add: broadcast_active waiters_def)

lemma broadcast_kinv:
  assumes "kinv k" and "\<forall>i\<in>waiters (Addr c) k. sched_get_priority k i = st_sched_priority (sched_table k i)"
  shows "kinv (priv_cond_broadcast c k)"
  unfolding broadcast_eq
proof (rule wake_set_kinv [OF assms(1)])
  show "blocked_on k (Addr c) i \<Longrightarrow> task_enabled k i" for i by (simp add: blocked_on_def)
  show "scan_max (blocked_on k (Addr c)) (\<lambda>i. st_sched_priority (sched_table k i)) (-1) [1..<task_total k]
      = scan_max (blocked_on k (Addr c)) (sched_get_priority k) (-1) [1..<task_total k]"
    by (rule scan_max_cong) (use assms(2) in \<open>auto simp: waiters_def\<close>)
qed

text \<open>
  \<open>pthread_cond_signal\<close> wakes exactly the best task that waits for the condition, if there is one,
  and \<open>pthread_cond_broadcast\<close> wakes all of them; both keep the scheduler's invariant (a broadcast
  where the woken tasks have their base priorities), and a condition without the initialised bit
  is refused: by a signal with the positive result \<open>EINVAL\<close>, by a broadcast with -1.
\<close>

theorem cond_wakes:
  assumes "kinv k" and "bases_ok k"
    and "\<forall>i\<in>waiters (Addr c) k. sched_get_priority k i = st_sched_priority (sched_table k i)"
    and "pthread_cond_signal (Some c) k = (r1, k1)" and "pthread_cond_broadcast (Some c) k = (r2, k2)"
  shows "if \<not> flag_test (conds k c) INIT_FLAG
    then r1 = C_Returns EINVAL \<and> k1 = k \<and> r2 = C_Fail EINVAL \<and> k2 = k
    else r1 = C_Ok \<and> r2 = C_Ok \<and> kinv k1 \<and> kinv k2
      \<and> (if waiters (Addr c) k = {} then k1 = k
         else \<exists>n. best_waiter (Addr c) k n \<and> sched_active_asserted k1 n
            \<and> waiters (Addr c) k1 = waiters (Addr c) k - {n})
      \<and> waiters (Addr c) k2 = {} \<and> (\<forall>i\<in>waiters (Addr c) k. sched_active_asserted k2 i)"
proof (cases "flag_test (conds k c) INIT_FLAG")
  case True
  let ?k1 = "case sched_get_highest_priority_blocked (Addr c) k of None \<Rightarrow> k | Some i \<Rightarrow> priv_cond_signal i k"
  have k: "r1 = C_Ok" "k1 = ?k1" "r2 = C_Ok" "k2 = priv_cond_broadcast c k"
    using True assms(4,5) by (auto simp: pthread_cond_signal_def pthread_cond_broadcast_def)
  have i1: "kinv k1" unfolding k by (rule cond_wake.serve_kinv [OF assms(1)])
  have s: "if waiters (Addr c) k = {} then k1 = k
         else \<exists>n. best_waiter (Addr c) k n \<and> sched_active_asserted k1 n
            \<and> waiters (Addr c) k1 = waiters (Addr c) k - {n}"
  proof (rule cond_wake.serve_spec [OF assms(2) k(2)])
    fix n assume n: "best_waiter (Addr c) k n" "k1 = priv_cond_signal n k" "waiters (Addr c) k1 = waiters (Addr c) k - {n}"
    then have "waiters (Addr c) k \<noteq> {}" by (auto simp: best_waiter_def)
    then show ?thesis using n by auto
  qed simp
  show ?thesis
    using True k i1 s broadcast_waiters [of c k] broadcast_wakes [of _ c k] broadcast_kinv [OF assms(1,3)] by simp
qed (use assms(4,5) in \<open>auto simp: pthread_cond_signal_def pthread_cond_broadcast_def\<close>)

theorem cond_wakes_witness: "fst (pthread_cond_signal (Some 8) (demo_cond (demo_free True 0))) = C_Ok"
proof -
  have "flag_test (conds (demo_cond (demo_free True 0)) 8) INIT_FLAG" by (simp add: demo_cond_sel bit_numeral_rec)
  then show ?thesis
    using cond_wakes [OF demo_cond_facts(2,3) _ surjective_pairing surjective_pairing, of 8 "demo_free True 0"]
    by (simp add: demo_cond_facts)
qed

end
