(* ===== verification/Mqueue.thy ===== *)
theory Mqueue
  imports Objects "HOL-Library.Product_Lexorder" "HOL-Library.Multiset"
begin

section \<open>POSIX message queues (sys/mqueue/mqueue.c, include/mqueue.h)\<close>

text \<open>
  The kernel record extended by the queues, by address, and the list of their addresses. The
  message table of a queue is a list of slots, each a message header with its \<open>max_size\<close> bytes of
  data; \<open>None\<close> is the null pointer of a queue that is not in use. A descriptor is a 32-bit word: the
  address with \<open>MSG_RDWR\<close> and \<open>MSG_NONBLOCK\<close> in the two low bits. Sizes are \<open>int\<close>; priorities are \<open>unsigned\<close>
  at the interface and stored as \<open>int\<close>. The running age, which every message sent counts up and nothing resets, is
  an \<open>int\<close> of 32 bits: a word that wraps around, compared by \<open>sint\<close>. The allocator's answers are arguments.

  Only the parts between the privileged calls can be interrupted, so sending and receiving are
  each a privileged step on the table (\<open>priv_send\<close>, \<open>priv_receive\<close>) and a step that copies the message
  (\<open>send_copy\<close>, \<open>receive_copy\<close>); the composed turns are the loop bodies of \<open>mq_timedsend\<close> and
  \<open>mq_timedreceive\<close> without interruption between the two.
\<close>

record message =
  ms_prio :: int
  ms_size :: int
  ms_age :: u32
  ms_data :: "byte list"

record mq_t =
  mq_max_size :: int
  mq_max_msgs :: int
  mq_cur_msgs :: int
  mq_refs :: int
  mq_age :: u32
  mq_mode :: int
  mq_name :: "char list"
  mq_table :: "message list option"
  mq_unlink_on_close :: int

record mq_kernel = kernel +
  mq_mem :: "nat \<Rightarrow> mq_t"
  mq_entries :: "nat list"

abbreviation MSG_RDWR :: nat where "MSG_RDWR \<equiv> 0"
abbreviation MSG_NONBLOCK :: nat where "MSG_NONBLOCK \<equiv> 1"

definition upd_mq :: "nat \<Rightarrow> (mq_t \<Rightarrow> mq_t) \<Rightarrow> 'z mq_kernel_scheme \<Rightarrow> 'z mq_kernel_scheme" where
  "upd_mq a f k = k\<lparr>mq_mem := (mq_mem k)(a := f (mq_mem k a))\<rparr>"

subsection \<open>Opening, closing, unlinking\<close>

definition mq_find_named :: "nat \<Rightarrow> string \<Rightarrow> 'z mq_kernel_scheme \<Rightarrow> nat option" where
  "mq_find_named nmax nm k =
     find (\<lambda>a. mq_table (mq_mem k a) \<noteq> None \<and> strncmp_eq nmax (mq_name (mq_mem k a)) nm) (mq_entries k)"

definition mq_find_free :: "nat option \<Rightarrow> 'z mq_kernel_scheme \<Rightarrow> nat option \<times> 'z mq_kernel_scheme" where
  "mq_find_free malloc k =
     (case find (\<lambda>a. mq_table (mq_mem k a) = None) (mq_entries k) of
        Some a \<Rightarrow> (Some a, k)
      | None \<Rightarrow> (case malloc of
            None \<Rightarrow> (None, k)
          | Some a \<Rightarrow> (Some a, k\<lparr>mq_entries := mq_entries k @ [a]\<rparr>)))"

definition GET_MQ_PTR :: "u32 \<Rightarrow> nat" where
  "GET_MQ_PTR mqdes = unat (mqdes AND NOT 3)"

definition mq_descriptor :: "bool \<Rightarrow> bool \<Rightarrow> nat \<Rightarrow> u32" where
  "mq_descriptor nonblock wr a =
     (let e = (if nonblock then flag_set 0 MSG_NONBLOCK else 0) in
      let e' = (if wr then flag_set e MSG_RDWR else e) in e' OR of_nat a)"

record mq_attr =
  ma_nonblock :: bool
  ma_rdwr :: bool
  ma_maxmsg :: int
  ma_msgsize :: int
  ma_curmsgs :: int

definition mq_getattr :: "u32 \<Rightarrow> 'z mq_kernel_scheme \<Rightarrow> errno + mq_attr" where
  "mq_getattr mqdes k =
     (if GET_MQ_PTR mqdes = 0 then Inl EBADF
      else (let q = mq_mem k (GET_MQ_PTR mqdes) in
        Inr \<lparr>ma_nonblock = flag_test mqdes MSG_NONBLOCK, ma_rdwr = flag_test mqdes MSG_RDWR,
          ma_maxmsg = mq_max_msgs q, ma_msgsize = mq_max_size q, ma_curmsgs = mq_cur_msgs q\<rparr>))"

definition empty_slot :: "nat \<Rightarrow> message" where
  "empty_slot n = \<lparr>ms_prio = 0, ms_size = 0, ms_age = 0, ms_data = replicate n 0\<rparr>"

text \<open>
  \<open>malloc\<close> answers for the list entry, \<open>calloc\<close> says whether there is memory for the table. The error
  \<open>None\<close> is a -1 whose error number the allocator has set.
\<close>

definition mq_open :: "nat \<Rightarrow> nat option \<Rightarrow> bool \<Rightarrow> string \<Rightarrow> bool \<Rightarrow> bool \<Rightarrow> bool \<Rightarrow> bool \<Rightarrow> int \<Rightarrow> int \<times> int
    \<Rightarrow> 'z mq_kernel_scheme \<Rightarrow> (errno option + u32) \<times> 'z mq_kernel_scheme" where
  "mq_open nmax malloc calloc nm creat excl nonblock wr mode attr k =
     (if strnlen nm nmax = nmax then (Inl (Some ENAMETOOLONG), k)
      else
        (case mq_find_named nmax nm k of
           Some a \<Rightarrow>
             if creat \<and> excl then (Inl (Some EEXIST), k)
             else (Inr (mq_descriptor nonblock wr a), upd_mq a (\<lambda>q. q\<lparr>mq_refs := mq_refs q + 1\<rparr>) k)
         | None \<Rightarrow>
             if \<not> creat then (Inl (Some ENOENT), k)
             else if fst attr \<le> 0 \<or> snd attr \<le> 0 then (Inl (Some EINVAL), k)
             else
               (case mq_find_free malloc k of
                  (None, k1) \<Rightarrow> (Inl None, k1)
                | (Some a, k1) \<Rightarrow>
                    (let max_size = snd attr - snd attr mod 4;
                         table = (if calloc then Some (replicate (nat (fst attr)) (empty_slot (nat max_size))) else None);
                         k2 = upd_mq a (\<lambda>q. \<lparr>mq_max_size = max_size, mq_max_msgs = fst attr, mq_cur_msgs = 0,
                           mq_refs = 1, mq_age = 0, mq_mode = mode, mq_name = strcpy (mq_name q) nm,
                           mq_table = table, mq_unlink_on_close = 0\<rparr>) k1
                     in if table = None then (Inl None, k2) else (Inr (mq_descriptor nonblock wr a), k2)))))"

definition mq_close :: "u32 \<Rightarrow> 'z mq_kernel_scheme \<Rightarrow> (errno + int) \<times> 'z mq_kernel_scheme" where
  "mq_close mqdes k =
     (if mqdes = -1 then (Inl EBADF, k)
      else
        (let a = GET_MQ_PTR mqdes;
             k1 = (if mq_refs (mq_mem k a) > 0 then upd_mq a (\<lambda>q. q\<lparr>mq_refs := mq_refs q - 1\<rparr>) k else k)
         in (Inr 0, if mq_refs (mq_mem k1 a) = 0 \<and> mq_unlink_on_close (mq_mem k1 a) = 1
                    then upd_mq a (\<lambda>q. q\<lparr>mq_table := None\<rparr>) k1 else k1)))"

definition mq_unlink :: "nat \<Rightarrow> string \<Rightarrow> 'z mq_kernel_scheme \<Rightarrow> (errno + int) \<times> 'z mq_kernel_scheme" where
  "mq_unlink nmax nm k =
     (if strnlen nm nmax = nmax then (Inl ENAMETOOLONG, k)
      else
        (case mq_find_named nmax nm k of
           None \<Rightarrow> (Inl ENOENT, k)
         | Some a \<Rightarrow>
             (Inr 0, if mq_refs (mq_mem k a) = 0 then upd_mq a (\<lambda>q. q\<lparr>mq_table := None\<rparr>) k
                     else upd_mq a (\<lambda>q. q\<lparr>mq_unlink_on_close := 1\<rparr>) k)))"

text \<open>The two calls that are not supported.\<close>

definition mq_setattr :: "u32 \<Rightarrow> errno + int" where "mq_setattr mqdes = Inl ENOTSUP"
definition mq_notify :: "u32 \<Rightarrow> errno + int" where "mq_notify mqdes = Inl ENOTSUP"

subsection \<open>Receiving\<close>

abbreviation slots :: "mq_t \<Rightarrow> message list" where "slots q \<equiv> the (mq_table q)"

text \<open>One turn of the search for the oldest message of the highest priority: \<open>max_prio\<close>, \<open>max_age\<close>, \<open>current\<close>.\<close>

definition better :: "message \<Rightarrow> int \<times> int \<times> nat option \<Rightarrow> bool" where
  "better m st = (case st of (max_prio, max_age, _) \<Rightarrow>
     ms_size m \<noteq> 0 \<and> (ms_prio m > max_prio \<or> ms_prio m = max_prio \<and> sint (ms_age m) < max_age))"

definition select_msg :: "int \<Rightarrow> message list \<Rightarrow> nat option" where
  "select_msg int_max ms =
     snd (snd (foldl (\<lambda>st i. if better (ms ! i) st then (ms_prio (ms ! i), sint (ms_age (ms ! i)), Some i) else st)
       (-1, int_max, None) [0..<length ms]))"

abbreviation INT_MAX :: int where "INT_MAX \<equiv> 2147483647"

text \<open>What \<open>priv_receive\<close> leaves in \<open>size\<close>: a slot with a message, nothing (0), or an error (-1).\<close>

datatype taken = T_Slot nat int | T_Empty | T_Error errno

definition priv_receive :: "int \<Rightarrow> mq_t \<Rightarrow> taken \<times> mq_t" where
  "priv_receive msg_len q =
     (if mq_cur_msgs q \<noteq> 0 then
        (case select_msg INT_MAX (take (nat (mq_max_msgs q)) (slots q)) of
           Some i \<Rightarrow>
             (if msg_len < ms_size (slots q ! i) then (T_Error EMSGSIZE, q)
              else (T_Slot i (ms_size (slots q ! i)),
                    q\<lparr>mq_cur_msgs := mq_cur_msgs q - 1, mq_table := Some ((slots q)[i := (slots q ! i)\<lparr>ms_size := 0\<rparr>])\<rparr>))
         | None \<Rightarrow> (T_Error EIO, q))
      else (T_Empty, q))"

definition receive_copy :: "nat \<Rightarrow> int \<Rightarrow> mq_t \<Rightarrow> u32 \<times> byte list" where
  "receive_copy i sz q = (word_of_int (ms_prio (slots q ! i)), take (nat sz) (ms_data (slots q ! i)))"

subsection \<open>Sending\<close>

definition priv_send :: "int \<Rightarrow> mq_t \<Rightarrow> (nat \<times> int) option \<times> mq_t" where
  "priv_send msg_len q =
     (if mq_cur_msgs q < mq_max_msgs q then
        (case find (\<lambda>i. ms_size (slots q ! i) = 0) [0..<nat (mq_max_msgs q)] of
           Some i \<Rightarrow> (Some (i, msg_len),
             q\<lparr>mq_table := Some ((slots q)[i := (slots q ! i)\<lparr>ms_size := msg_len\<rparr>]), mq_cur_msgs := mq_cur_msgs q + 1\<rparr>)
         | None \<Rightarrow> (None, q))
      else (None, q))"

definition send_copy :: "nat \<Rightarrow> int \<Rightarrow> byte list \<Rightarrow> u32 \<Rightarrow> mq_t \<Rightarrow> mq_t" where
  "send_copy i sz msg prio q =
     q\<lparr>mq_table := Some ((slots q)[i := (slots q ! i)
         \<lparr>ms_data := take (nat sz) msg @ drop (nat sz) (ms_data (slots q ! i)),
          ms_prio := sint prio, ms_age := mq_age q\<rparr>]),
       mq_age := mq_age q + 1\<rparr>"

subsection \<open>Blocking and waking\<close>

definition priv_wake_blocked :: "nat \<Rightarrow> 'z kernel_scheme \<Rightarrow> 'z kernel_scheme" where
  "priv_wake_blocked i k =
     (let k1 = sched_priv_assert_active i UNBLOCK_MQ k
      in sched_priv_update_on_wake (st_priority (sched_table k1 i)) k1)"

definition check_for_blocked_task :: "nat \<Rightarrow> 'z kernel_scheme \<Rightarrow> 'z kernel_scheme" where
  "check_for_blocked_task a k =
     (case sched_get_highest_priority_blocked (Addr a) k of None \<Rightarrow> k | Some i \<Rightarrow> priv_wake_blocked i k)"

definition block_on_mq :: "nat \<Rightarrow> (int \<times> int) option \<Rightarrow> 'z kernel_scheme \<Rightarrow> 'z kernel_scheme" where
  "block_on_mq a abs_timeout k = sched_priv_timedblock (Addr a) (sched_convert_timespec abs_timeout) k"

definition block_on_mq_resume :: "'z kernel_scheme \<Rightarrow> errno + int" where
  "block_on_mq_resume k =
     (if sched_get_unblock_type k (task_current k) = unblock_code UNBLOCK_SLEEP then Inl ETIMEDOUT else Inr 0)"

text \<open>
  One turn of the loops: the call is done with a value, fails, or blocks; after a block that did not time
  out (\<open>block_on_mq_resume\<close>) the loop takes another turn.
\<close>

datatype 'a mq_turn = M_Done 'a | M_Fail errno | M_Blocked

definition receive_turn :: "u32 \<Rightarrow> int \<Rightarrow> (int \<times> int) option \<Rightarrow> 'z mq_kernel_scheme
    \<Rightarrow> (u32 \<times> byte list) mq_turn \<times> 'z mq_kernel_scheme" where
  "receive_turn mqdes msg_len abs_timeout k =
     (if mqdes = -1 then (M_Fail EBADF, k)
      else
        (let a = GET_MQ_PTR mqdes in
         case priv_receive msg_len (mq_mem k a) of
           (T_Slot i sz, q) \<Rightarrow>
             (M_Done (receive_copy i sz q), check_for_blocked_task a (upd_mq a (\<lambda>_. q) k))
         | (T_Error e, q) \<Rightarrow> (M_Fail e, upd_mq a (\<lambda>_. q) k)
         | (T_Empty, q) \<Rightarrow>
             (if flag_test mqdes MSG_NONBLOCK then (M_Fail EAGAIN, upd_mq a (\<lambda>_. q) k)
              else (M_Blocked, block_on_mq a abs_timeout (upd_mq a (\<lambda>_. q) k)))))"

definition send_turn :: "u32 \<Rightarrow> byte list \<Rightarrow> int \<Rightarrow> u32 \<Rightarrow> (int \<times> int) option \<Rightarrow> 'z mq_kernel_scheme
    \<Rightarrow> int mq_turn \<times> 'z mq_kernel_scheme" where
  "send_turn mqdes msg msg_len prio abs_timeout k =
     (if mqdes = -1 then (M_Fail EBADF, k)
      else if flag_test mqdes MSG_RDWR then
        (let a = GET_MQ_PTR mqdes in
         if mq_max_size (mq_mem k a) < msg_len then (M_Fail EMSGSIZE, k)
         else
           (case priv_send msg_len (mq_mem k a) of
              (r, q) \<Rightarrow>
                let k1 = upd_mq a (\<lambda>_. q) k in
                if (case r of Some (i, sz) \<Rightarrow> sz > 0 | None \<Rightarrow> False)
                then (M_Done msg_len, check_for_blocked_task a
                        (upd_mq a (send_copy (fst (the r)) msg_len msg prio) k1))
                else if flag_test mqdes MSG_NONBLOCK then (M_Fail EAGAIN, k1)
                else (M_Blocked, block_on_mq a abs_timeout k1)))
      else (M_Fail EACCES, k))"

text \<open>
  \<open>mq_send\<close> and \<open>mq_receive\<close> are the timed calls without a time-out.
\<close>

definition mq_send_turn :: "u32 \<Rightarrow> byte list \<Rightarrow> int \<Rightarrow> u32 \<Rightarrow> 'z mq_kernel_scheme \<Rightarrow> int mq_turn \<times> 'z mq_kernel_scheme" where
  "mq_send_turn mqdes msg msg_len prio = send_turn mqdes msg msg_len prio None"

definition mq_receive_turn :: "u32 \<Rightarrow> int \<Rightarrow> 'z mq_kernel_scheme \<Rightarrow> (u32 \<times> byte list) mq_turn \<times> 'z mq_kernel_scheme" where
  "mq_receive_turn mqdes msg_len = receive_turn mqdes msg_len None"

subsection \<open>Specification: a stable priority queue\<close>

text \<open>
  What a queue holds, in the order in which it is received: pairs of priority and bytes, a new one
  behind all that have at least its priority.
\<close>

type_synonym pq_message = "int \<times> byte list"

primrec pq_insert :: "pq_message \<Rightarrow> pq_message list \<Rightarrow> pq_message list" where
  "pq_insert m [] = [m]"
| "pq_insert m (x # xs) = (if fst x < fst m then m # x # xs else x # pq_insert m xs)"

lemma length_pq_insert [simp]: "length (pq_insert m xs) = Suc (length xs)"
  by (induction xs) auto

lemma mset_pq_insert [simp]: "mset (pq_insert m xs) = add_mset m (mset xs)"
  by (induction xs) auto

lemma set_pq_insert [simp]: "set (pq_insert m xs) = insert m (set xs)"
  by (induction xs) auto

lemma sorted_pq_insert:
  "sorted (map (\<lambda>x. - fst x) xs) \<Longrightarrow> sorted (map (\<lambda>x. - fst x) (pq_insert m xs))"
  by (induction xs) auto

lemma filter_pq_insert:
  "sorted (map (\<lambda>x. - fst x) xs) \<Longrightarrow> filter (\<lambda>x. c = - fst x) (pq_insert m xs) =
     filter (\<lambda>x. c = - fst x) xs @ (if c = - fst m then [m] else [])"
proof (induction xs)
  case (Cons x xs)
  have "filter (\<lambda>y. c = - fst y) (x # xs) = []" if "fst x < fst m" "c = - fst m"
    using Cons.prems that by (auto simp: filter_empty_conv)
  then show ?case using Cons by auto
qed simp

text \<open>Inserting one by one is a stable sort by decreasing priority.\<close>

lemma fold_pq_insert: "fold pq_insert ms [] = sort_key (\<lambda>x. - fst x) ms"
proof -
  have "sorted (map (\<lambda>x. - fst x) (fold pq_insert ms [])) \<and> mset (fold pq_insert ms []) = mset ms
    \<and> (\<forall>c. filter (\<lambda>x. c = - fst x) (fold pq_insert ms []) = filter (\<lambda>x. c = - fst x) ms)"
    by (induction ms rule: rev_induct) (auto simp: sorted_pq_insert filter_pq_insert)
  then show ?thesis
    using properties_for_sort_key [of "fold pq_insert ms []" ms "\<lambda>x. - fst x"] by metis
qed

text \<open>
  The interface of a bounded queue with this content: what a client of it may rely on. \<open>left\<close> is the number of messages it
  still takes before its order breaks.
\<close>

locale message_queue =
  fixes inv :: "'q \<Rightarrow> bool" and cont :: "'q \<Rightarrow> pq_message list" and cap :: "'q \<Rightarrow> nat"
    and ok :: "'q \<Rightarrow> pq_message \<Rightarrow> bool"
    and left :: "'q \<Rightarrow> nat" and put :: "pq_message \<Rightarrow> 'q \<Rightarrow> 'q" and get :: "'q \<Rightarrow> (pq_message \<times> 'q) option"
  assumes put: "inv q \<Longrightarrow> ok q m \<Longrightarrow> length (cont q) < cap q \<Longrightarrow> 0 < left q \<Longrightarrow>
      inv (put m q) \<and> cont (put m q) = pq_insert m (cont q) \<and> cap (put m q) = cap q \<and> ok (put m q) = ok q
        \<and> Suc (left (put m q)) = left q"
    and get_None: "inv q \<Longrightarrow> get q = None \<longleftrightarrow> cont q = []"
    and get_Some: "inv q \<Longrightarrow> get q = Some (m, q') \<Longrightarrow> inv q' \<and> cont q = m # cont q'"
begin

lemma put_all:
  assumes "inv q" "\<forall>m\<in>set ms. ok q m" "length (cont q) + length ms \<le> cap q" "length ms \<le> left q"
  shows "inv (fold put ms q) \<and> cont (fold put ms q) = fold pq_insert ms (cont q)"
  using assms
proof (induction ms arbitrary: q)
  case (Cons m ms)
  then have p: "inv (put m q) \<and> cont (put m q) = pq_insert m (cont q) \<and> cap (put m q) = cap q \<and> ok (put m q) = ok q
      \<and> Suc (left (put m q)) = left q"
    by (intro put) auto
  then show ?case using Cons.IH [of "put m q"] Cons.prems by simp
qed simp

end

primrec drain :: "('q \<Rightarrow> ('m \<times> 'q) option) \<Rightarrow> nat \<Rightarrow> 'q \<Rightarrow> 'm list" where
  "drain get 0 q = []"
| "drain get (Suc n) q = (case get q of None \<Rightarrow> [] | Some (m, q') \<Rightarrow> m # drain get n q')"

context message_queue
begin

lemma drain_take: "inv q \<Longrightarrow> drain get n q = take n (cont q)"
proof (induction n arbitrary: q)
  case (Suc n)
  show ?case
  proof (cases "get q")
    case None
    then have "cont q = []" using Suc.prems get_None by simp
    then show ?thesis using None by simp
  next
    case (Some r)
    then show ?thesis using Suc get_Some [of q "fst r" "snd r"] by (auto split: prod.split)
  qed
qed simp

lemma drain_sorted:
  assumes "inv q" "cont q = []" "\<forall>m\<in>set ms. ok q m" "length ms \<le> cap q" "length ms \<le> left q"
  shows "drain get (length ms) (fold put ms q) = sort_key (\<lambda>x. - fst x) ms"
  using put_all [OF assms(1,3)] drain_take [of "fold put ms q" "length ms"] assms fold_pq_insert [of ms]
    length_sort [of "\<lambda>x. - fst x" ms]
  by simp

end

subsection \<open>The table as a priority queue\<close>

definition used_msgs :: "mq_t \<Rightarrow> message list" where
  "used_msgs q = filter (\<lambda>m. ms_size m \<noteq> 0) (slots q)"

definition mkey :: "message \<Rightarrow> int \<times> int" where
  "mkey m = (- ms_prio m, sint (ms_age m))"

definition content :: "message \<Rightarrow> pq_message" where
  "content m = (ms_prio m, take (nat (ms_size m)) (ms_data m))"

definition queue_of :: "mq_t \<Rightarrow> pq_message list" where
  "queue_of q = map content (sort_key mkey (used_msgs q))"

definition mq_shape :: "mq_t \<Rightarrow> bool" where
  "mq_shape q \<longleftrightarrow> mq_table q \<noteq> None \<and> 0 < mq_max_msgs q \<and> length (slots q) = nat (mq_max_msgs q)
     \<and> mq_cur_msgs q = int (length (used_msgs q)) \<and> distinct (map ms_age (used_msgs q))
     \<and> (\<forall>m\<in>set (slots q). length (ms_data m) = nat (mq_max_size q))
     \<and> (\<forall>m\<in>set (used_msgs q). 0 \<le> ms_prio m \<and> ms_prio m < 2 ^ 31 \<and> 0 < ms_size m \<and> ms_size m \<le> mq_max_size q)"

text \<open>As long as the age has not wrapped around, it is above that of every message.\<close>

definition mq_wf :: "mq_t \<Rightarrow> bool" where
  "mq_wf q \<longleftrightarrow> mq_shape q \<and> (\<forall>m\<in>set (used_msgs q). sint (ms_age m) < sint (mq_age q))"

lemmas mq_wf_defs = mq_wf_def mq_shape_def

text \<open>How many messages can still be sent before the age wraps around.\<close>

definition sends_left :: "mq_t \<Rightarrow> nat" where
  "sends_left q = nat (INT_MAX - sint (mq_age q))"

lemma sint_add_one: "sint a < INT_MAX \<Longrightarrow> sint (a + 1) = sint a + 1" for a :: u32
  using sint_ge [of a] by (simp add: sint_word_ariths signed_take_bit_int_eq_self)

lemma length_queue_of [simp]: "length (queue_of q) = length (used_msgs q)"
  by (simp add: queue_of_def)

lemma mkey_inj: "distinct (map ms_age xs) \<Longrightarrow> inj_on mkey (set xs)"
  by (auto simp: inj_on_def mkey_def distinct_map dest: signed_word_eqI)

lemma sort_key_unique:
  assumes "mset ys = mset xs" "sorted (map f ys)" "inj_on f (set xs)"
  shows "sort_key f xs = ys"
proof (rule properties_for_sort_key [OF assms(1) _ assms(2)])
  fix k assume k: "k \<in> set ys"
  have e: "filter (\<lambda>x. f k = f x) zs = filter (HOL.eq k) zs" if "set zs = set xs" for zs
    by (rule filter_cong) (use assms(3) k that mset_eq_setD [OF assms(1)] in \<open>auto simp: inj_on_def\<close>)
  show "filter (\<lambda>x. f k = f x) ys = filter (\<lambda>x. f k = f x) xs"
    using e [of ys] e [of xs] mset_eq_setD [OF assms(1)] assms(1)
    by (simp flip: replicate_count_mset_eq_filter_eq)
qed

lemma mset_filter_update:
  "i < length xs \<Longrightarrow> mset (filter P (xs[i := y])) + (if P (xs ! i) then {#xs ! i#} else {#})
     = mset (filter P xs) + (if P y then {#y#} else {#})"
proof -
  assume "i < length xs"
  then have m: "mset xs = add_mset (xs ! i) (mset xs - {#xs ! i#})" by simp
  have a: "filter_mset P (mset xs) = filter_mset P (mset xs - {#xs ! i#}) + (if P (xs ! i) then {#xs ! i#} else {#})"
    by (subst m) simp
  have b: "filter_mset P (mset (xs[i := y])) = filter_mset P (mset xs - {#xs ! i#}) + (if P y then {#y#} else {#})"
    using \<open>i < length xs\<close> by (simp add: mset_update)
  show ?thesis by (simp only: mset_filter a b ac_simps)
qed

text \<open>The search.\<close>

lemma select_spec:
  assumes "\<forall>m\<in>set ms. ms_size m \<noteq> 0 \<longrightarrow> 0 \<le> ms_prio m"
  shows "case select_msg mx ms of
      None \<Rightarrow> \<forall>m\<in>set ms. ms_size m = 0
    | Some i \<Rightarrow> i < length ms \<and> ms_size (ms ! i) \<noteq> 0 \<and> (\<forall>m\<in>set ms. ms_size m \<noteq> 0 \<longrightarrow> mkey (ms ! i) \<le> mkey m)"
proof -
  let ?step = "\<lambda>st i. if better (ms ! i) st then (ms_prio (ms ! i), sint (ms_age (ms ! i)), Some i) else st"
  have "case foldl ?step (-1, mx, None) [0..<n] of (p, a, c) \<Rightarrow>
      (case c of None \<Rightarrow> p = -1 \<and> (\<forall>j<n. ms_size (ms ! j) = 0)
       | Some i \<Rightarrow> i < n \<and> ms_size (ms ! i) \<noteq> 0 \<and> p = ms_prio (ms ! i) \<and> a = sint (ms_age (ms ! i))
           \<and> (\<forall>j<n. ms_size (ms ! j) \<noteq> 0 \<longrightarrow> mkey (ms ! i) \<le> mkey (ms ! j)))"
    if "n \<le> length ms" for n
    using that
  proof (induction n)
    case (Suc n)
    then have "ms_size (ms ! n) \<noteq> 0 \<longrightarrow> 0 \<le> ms_prio (ms ! n)" using assms by simp
    with Suc show ?case
      by (force simp: better_def mkey_def less_Suc_eq split: option.splits if_splits)
  qed simp
  from this [of "length ms"] show ?thesis
    by (auto simp: select_msg_def in_set_conv_nth split: option.splits)
qed

text \<open>Both operations on the table, complete: what the turns do to the queue.\<close>

definition put_msg :: "pq_message \<Rightarrow> mq_t \<Rightarrow> mq_t" where
  "put_msg m q =
     (case priv_send (int (length (snd m))) q of
        (Some (i, sz), q') \<Rightarrow> send_copy i sz (snd m) (word_of_int (fst m)) q'
      | (None, q') \<Rightarrow> q')"

definition get_msg :: "mq_t \<Rightarrow> (pq_message \<times> mq_t) option" where
  "get_msg q =
     (case priv_receive (mq_max_size q) q of
        (T_Slot i sz, q') \<Rightarrow> (case receive_copy i sz q' of (p, d) \<Rightarrow> Some ((sint p, d), q'))
      | _ \<Rightarrow> None)"

definition msg_ok :: "mq_t \<Rightarrow> pq_message \<Rightarrow> bool" where
  "msg_ok q m \<longleftrightarrow> 0 \<le> fst m \<and> fst m < 2 ^ 31 \<and> snd m \<noteq> [] \<and> int (length (snd m)) \<le> mq_max_size q"

lemma sint_word_of_int31: "0 \<le> p \<Longrightarrow> p < 2 ^ 31 \<Longrightarrow> sint (word_of_int p :: u32) = p"
  by (simp add: sint_uint word_size signed_take_bit_int_eq_self uint_word_of_int take_bit_int_eq_self)

lemma map_insort_content:
  "\<forall>y\<in>set xs. mkey m \<le> mkey y \<longleftrightarrow> ms_prio y < ms_prio m
    \<Longrightarrow> map content (insort_key mkey m xs) = pq_insert (content m) (map content xs)"
  by (induction xs) (auto simp: content_def)

text \<open>A new message with the running age: it goes behind those of at least its priority.\<close>

lemma queue_of_add:
  assumes wf: "mq_wf q" and m: "ms_age m = mq_age q" and e: "mset (used_msgs q') = add_mset m (mset (used_msgs q))"
  shows "queue_of q' = pq_insert (content m) (queue_of q)"
proof -
  have lt: "\<forall>y\<in>set (used_msgs q). sint (ms_age y) < sint (ms_age m)" using wf m by (simp add: mq_wf_defs)
  have d: "distinct (map ms_age (m # used_msgs q))"
    using wf lt by (auto simp: mq_wf_defs)
  have "sort_key mkey (used_msgs q') = sort_key mkey (m # used_msgs q)"
  proof (rule sort_key_unique)
    show "mset (sort_key mkey (m # used_msgs q)) = mset (used_msgs q')" using e by simp
    have "set (used_msgs q') = set (m # used_msgs q)" using mset_eq_setD [of "used_msgs q'" "m # used_msgs q"] e by simp
    then show "inj_on mkey (set (used_msgs q'))" using mkey_inj [OF d] by simp
    show "sorted (map mkey (sort_key mkey (m # used_msgs q)))" by (rule sorted_sort_key)
  qed
  then have "queue_of q' = map content (insort_key mkey m (sort_key mkey (used_msgs q)))" by (simp add: queue_of_def)
  also have "\<dots> = pq_insert (content m) (queue_of q)"
    unfolding queue_of_def by (rule map_insort_content) (use lt in \<open>auto simp: mkey_def less_eq_prod_def\<close>)
  finally show ?thesis .
qed

text \<open>The best message leaves: it was the first.\<close>

lemma queue_of_remove:
  assumes wf: "mq_wf q" and e: "mset (used_msgs q) = add_mset m (mset (used_msgs q'))"
    and best: "\<forall>y\<in>set (used_msgs q). mkey m \<le> mkey y"
  shows "queue_of q = content m # queue_of q'"
proof -
  have "sort_key mkey (used_msgs q) = m # sort_key mkey (used_msgs q')"
  proof (rule sort_key_unique)
    show "mset (m # sort_key mkey (used_msgs q')) = mset (used_msgs q)" using e by simp
    have "set (used_msgs q') \<subseteq> set (used_msgs q)" using arg_cong [OF e, of set_mset] by auto
    then show "sorted (map mkey (m # sort_key mkey (used_msgs q')))" using best by auto
    show "inj_on mkey (set (used_msgs q))" using wf by (auto simp: mq_wf_defs intro: mkey_inj)
  qed
  then show ?thesis by (simp add: queue_of_def)
qed

lemma distinct_ages_mset:
  "mset xs = mset ys \<Longrightarrow> distinct (map ms_age xs) = distinct (map ms_age ys)"
  by (metis mset_eq_imp_distinct_iff mset_map)

lemma priv_send_room:
  assumes wf: "mq_wf q" and room: "length (queue_of q) < nat (mq_max_msgs q)"
  obtains i where "priv_send len q = (Some (i, len), q\<lparr>mq_table := Some ((slots q)[i := (slots q ! i)\<lparr>ms_size := len\<rparr>]),
      mq_cur_msgs := mq_cur_msgs q + 1\<rparr>)" "i < length (slots q)" "ms_size (slots q ! i) = 0"
proof -
  have l: "length (slots q) = nat (mq_max_msgs q)" using wf by (simp add: mq_wf_defs)
  have "\<exists>m\<in>set (slots q). ms_size m = 0"
  proof (rule ccontr)
    assume "\<not> (\<exists>m\<in>set (slots q). ms_size m = 0)"
    then have "used_msgs q = slots q" by (simp add: used_msgs_def filter_id_conv)
    then show False using room l by simp
  qed
  then have "find (\<lambda>i. ms_size (slots q ! i) = 0) [0..<nat (mq_max_msgs q)] \<noteq> None"
    using l by (auto simp: find_None_iff in_set_conv_nth)
  then obtain i where i: "find (\<lambda>i. ms_size (slots q ! i) = 0) [0..<nat (mq_max_msgs q)] = Some i" by auto
  moreover from find_upt_Some [OF this] have "i < length (slots q)" "ms_size (slots q ! i) = 0" using l by auto
  moreover have "mq_cur_msgs q < mq_max_msgs q" using wf room by (simp add: mq_wf_defs)
  ultimately show ?thesis using that [of i] by (simp add: priv_send_def)
qed

lemma send_step:
  assumes wf: "mq_wf q" and ok: "msg_ok q (p, d)" and room: "length (queue_of q) < nat (mq_max_msgs q)"
    and w: "sint prio = p" and len: "len = int (length d)"
  shows "\<exists>i q1. priv_send len q = (Some (i, len), q1)
    \<and> (sint (mq_age q) < INT_MAX \<longrightarrow> mq_wf (send_copy i len d prio q1)) \<and> mq_shape (send_copy i len d prio q1)
    \<and> mq_age (send_copy i len d prio q1) = mq_age q + 1
    \<and> queue_of (send_copy i len d prio q1) = pq_insert (p, d) (queue_of q)
    \<and> mq_max_msgs (send_copy i len d prio q1) = mq_max_msgs q
    \<and> mq_max_size (send_copy i len d prio q1) = mq_max_size q"
proof (rule priv_send_room [OF wf room, of len])
  fix i
  let ?q1 = "q\<lparr>mq_table := Some ((slots q)[i := (slots q ! i)\<lparr>ms_size := len\<rparr>]), mq_cur_msgs := mq_cur_msgs q + 1\<rparr>"
  let ?m = "(slots q ! i)\<lparr>ms_size := len, ms_data := d @ drop (length d) (ms_data (slots q ! i)),
     ms_prio := p, ms_age := mq_age q\<rparr>"
  let ?q2 = "send_copy i len d prio ?q1"
  assume i: "priv_send len q = (Some (i, len), ?q1)" "i < length (slots q)" "ms_size (slots q ! i) = 0"
  have s2: "mq_table ?q2 = Some ((slots q)[i := ?m])" "mq_max_msgs ?q2 = mq_max_msgs q" "mq_max_size ?q2 = mq_max_size q"
    "mq_age ?q2 = mq_age q + 1" "mq_cur_msgs ?q2 = mq_cur_msgs q + 1"
    using i(2) w by (simp_all add: send_copy_def len)
  have lp: "0 < len" "len \<le> mq_max_size q" using ok len by (auto simp: msg_ok_def)
  have u: "mset (used_msgs ?q2) = add_mset ?m (mset (used_msgs q))"
    using mset_filter_update [OF i(2), of "\<lambda>m. ms_size m \<noteq> 0" ?m] i(3) lp
    by (simp add: used_msgs_def s2(1))
  have c: "content ?m = (p, d)" by (simp add: content_def len)
  have qo: "queue_of ?q2 = pq_insert (p, d) (queue_of q)"
    using queue_of_add [OF wf _ u] c by simp
  have su: "set (used_msgs ?q2) = insert ?m (set (used_msgs q))" using arg_cong [OF u, of set_mset] by simp
  have lu: "length (used_msgs ?q2) = Suc (length (used_msgs q))" using arg_cong [OF u, of size] by simp
  have d2: "distinct (map ms_age (used_msgs ?q2)) = distinct (map ms_age (?m # used_msgs q))"
    by (rule distinct_ages_mset) (simp add: u)
  have slot: "slots q ! i \<in> set (slots q)" using i(2) by simp
  have sh: "mq_shape ?q2"
    unfolding mq_shape_def su lu d2
    unfolding s2
    using wf ok slot lp set_update_subset_insert [of "slots q" i ?m]
    by (auto simp: mq_wf_defs msg_ok_def len less_imp_neq)
  have "mq_wf ?q2" if "sint (mq_age q) < INT_MAX"
    using sh wf sint_add_one [OF that] unfolding mq_wf_def su s2 by force
  then show ?thesis using i(1) qo s2 sh by blast
qed

lemma receive_step:
  assumes wf: "mq_wf q"
  shows "if queue_of q = [] then priv_receive len q = (T_Empty, q)
    else if len < int (length (snd (hd (queue_of q)))) then priv_receive len q = (T_Error EMSGSIZE, q)
    else \<exists>i sz q'. priv_receive len q = (T_Slot i sz, q') \<and> mq_wf q' \<and> queue_of q = hd (queue_of q) # queue_of q'
      \<and> receive_copy i sz q' = (word_of_int (fst (hd (queue_of q))), snd (hd (queue_of q)))
      \<and> 0 \<le> fst (hd (queue_of q)) \<and> fst (hd (queue_of q)) < 2 ^ 31
      \<and> mq_max_msgs q' = mq_max_msgs q \<and> mq_max_size q' = mq_max_size q
      \<and> int (length (snd (hd (queue_of q)))) \<le> mq_max_size q"
proof (cases "used_msgs q = []")
  case True
  then have "mq_cur_msgs q = 0" using wf by (simp add: mq_wf_defs)
  then show ?thesis using True by (simp add: priv_receive_def queue_of_def)
next
  case False
  have t: "take (nat (mq_max_msgs q)) (slots q) = slots q" using wf by (simp add: mq_wf_defs)
  have pr: "\<forall>m\<in>set (slots q). ms_size m \<noteq> 0 \<longrightarrow> 0 \<le> ms_prio m" using wf by (auto simp: mq_wf_defs used_msgs_def)
  obtain i where i: "select_msg INT_MAX (slots q) = Some i" "i < length (slots q)" "ms_size (slots q ! i) \<noteq> 0"
    "\<forall>m\<in>set (used_msgs q). mkey (slots q ! i) \<le> mkey m"
    using select_spec [OF pr, of INT_MAX] False by (auto simp: used_msgs_def filter_empty_conv split: option.splits)
  let ?m = "slots q ! i"
  let ?q' = "q\<lparr>mq_cur_msgs := mq_cur_msgs q - 1, mq_table := Some ((slots q)[i := ?m\<lparr>ms_size := 0\<rparr>])\<rparr>"
  have mu: "?m \<in> set (used_msgs q)" using i(2,3) by (simp add: used_msgs_def)
  have u: "mset (used_msgs q) = add_mset ?m (mset (used_msgs ?q'))"
    using mset_filter_update [OF i(2), of "\<lambda>m. ms_size m \<noteq> 0" "?m\<lparr>ms_size := 0\<rparr>"] i(3) by (simp add: used_msgs_def)
  have q: "queue_of q = content ?m # queue_of ?q'" by (rule queue_of_remove [OF wf u i(4)])
  have mf: "0 \<le> ms_prio ?m" "ms_prio ?m < 2 ^ 31" "0 < ms_size ?m" "ms_size ?m \<le> mq_max_size q"
    "length (ms_data ?m) = nat (mq_max_size q)"
    using wf mu i(2) by (auto simp: mq_wf_defs)
  have lc: "int (length (snd (content ?m))) = ms_size ?m" using mf by (simp add: content_def)
  have d2: "distinct (map ms_age (?m # used_msgs ?q')) = distinct (map ms_age (used_msgs q))"
    by (rule distinct_ages_mset) (simp add: u)
  have "set (used_msgs ?q') \<subseteq> set (used_msgs q)" using arg_cong [OF u, of set_mset] by auto
  moreover have "length (used_msgs q) = Suc (length (used_msgs ?q'))" using arg_cong [OF u, of size] by simp
  moreover have "distinct (map ms_age (used_msgs ?q'))" using d2 wf by (simp add: mq_wf_defs)
  ultimately have wf': "mq_wf ?q'"
    using wf i(2) set_update_subset_insert [of "slots q" i "?m\<lparr>ms_size := 0\<rparr>"] mf(5) by (auto simp: mq_wf_defs)
  have "mq_cur_msgs q \<noteq> 0" using wf False by (simp add: mq_wf_defs)
  then have r: "priv_receive len q = (if len < ms_size ?m then (T_Error EMSGSIZE, q) else (T_Slot i (ms_size ?m), ?q'))"
    using i(1) by (simp add: priv_receive_def t)
  have rc: "receive_copy i (ms_size ?m) ?q' = (word_of_int (ms_prio ?m), snd (content ?m))"
    using i(2) by (simp add: receive_copy_def content_def)
  have hd: "hd (queue_of q) = content ?m" "queue_of q \<noteq> []" "fst (content ?m) = ms_prio ?m"
    using q by (simp_all add: content_def)
  show ?thesis unfolding hd if_not_P [OF hd(2)] lc r
    using wf' q rc mf by auto
qed

lemma put_msg_spec:
  assumes "mq_wf q" "msg_ok q m" "length (queue_of q) < nat (mq_max_msgs q)"
  shows "(sint (mq_age q) < INT_MAX \<longrightarrow> mq_wf (put_msg m q)) \<and> mq_age (put_msg m q) = mq_age q + 1 \<and> queue_of (put_msg m q) = pq_insert m (queue_of q)
    \<and> mq_max_msgs (put_msg m q) = mq_max_msgs q \<and> mq_max_size (put_msg m q) = mq_max_size q"
proof -
  obtain p d where m: "m = (p, d)" by (cases m)
  have "sint (word_of_int p :: u32) = p" using assms(2) by (intro sint_word_of_int31) (simp_all add: m msg_ok_def)
  from send_step [OF assms(1) assms(2) [unfolded m] assms(3) this refl]
  show ?thesis by (auto simp: put_msg_def m)
qed

interpretation mq: message_queue mq_wf queue_of "\<lambda>q. nat (mq_max_msgs q)" msg_ok sends_left put_msg get_msg
proof
  fix q m
  assume a: "mq_wf q" "msg_ok q m" "length (queue_of q) < nat (mq_max_msgs q)" "0 < sends_left q"
  then have l: "sint (mq_age q) < INT_MAX" by (simp add: sends_left_def)
  from put_msg_spec [OF a(1-3)] l
  show "mq_wf (put_msg m q) \<and> queue_of (put_msg m q) = pq_insert m (queue_of q)
      \<and> nat (mq_max_msgs (put_msg m q)) = nat (mq_max_msgs q) \<and> msg_ok (put_msg m q) = msg_ok q
      \<and> Suc (sends_left (put_msg m q)) = sends_left q"
    by (simp add: msg_ok_def fun_eq_iff sends_left_def sint_add_one Suc_nat_eq_nat_zadd1)
next
  fix q assume wf: "mq_wf q"
  show "get_msg q = None \<longleftrightarrow> queue_of q = []"
    using receive_step [OF wf, of "mq_max_size q"] receive_step [OF wf, of "int (length (snd (hd (queue_of q))))"]
    by (auto simp: get_msg_def split: if_splits)
next
  fix q m q' assume wf: "mq_wf q" and g: "get_msg q = Some (m, q')"
  show "mq_wf q' \<and> queue_of q = m # queue_of q'"
    using receive_step [OF wf, of "mq_max_size q"] g sint_word_of_int31 [of "fst (hd (queue_of q))"]
    by (auto simp: get_msg_def split: if_splits)
qed

subsection \<open>The turns\<close>

lemma mq_more: "kernel.more k' = kernel.more k \<Longrightarrow> mq_mem k' = mq_mem k"
  by (cases k, cases k', simp)

interpretation mq_wake: waker priv_wake_blocked UNBLOCK_MQ
  by unfold_locales (simp add: priv_wake_blocked_def Let_def sched_get_priority_def)

lemma mq_frames [simp]:
  "mq_mem (check_for_blocked_task a k) = mq_mem k" "mq_mem (block_on_mq a t k) = mq_mem k"
  "mq_mem (upd_mq a f k) b = (if b = a then f (mq_mem k a) else mq_mem k b)"
  by (rule mq_more; simp add: check_for_blocked_task_def block_on_mq_def split: option.split)+
    (simp add: upd_mq_def)

subsection \<open>Properties\<close>

definition demo_queue :: mq_t where
  "demo_queue = \<lparr>mq_max_size = 4, mq_max_msgs = 2, mq_cur_msgs = 0, mq_refs = 1, mq_age = 0, mq_mode = 0,
     mq_name = replicate 8 NUL, mq_table = Some (replicate 2 (empty_slot 4)), mq_unlink_on_close = 0\<rparr>"

definition demo_mq :: mq_kernel where
  "demo_mq = kernel.extend demo_pair \<lparr>mq_mem = (\<lambda>_. demo_queue), mq_entries = [64]\<rparr>"

lemma demo_mq_sel: "mq_mem demo_mq a = demo_queue"
  by (simp add: demo_mq_def kernel.extend_def)

lemma demo_queue_wf: "mq_wf demo_queue" "queue_of demo_queue = []"
  by (simp_all add: mq_wf_defs queue_of_def used_msgs_def demo_queue_def empty_slot_def numeral_2_eq_2)

text \<open>
  C25: sending refines the specification for messages of at least one byte, no longer than the queue's size, with a
  priority below 2^31: with room, the message goes behind those of at least its priority and the call returns its length;
  without room nothing changes and the call fails with \<open>EAGAIN\<close> or blocks. The queue stays well-formed, its running age
  above that of every message, as long as that age has not reached the largest int.
\<close>

theorem mq_send_refines:
  assumes "mqdes \<noteq> -1" and "flag_test mqdes MSG_RDWR" and "a = GET_MQ_PTR mqdes" and "mq_wf (mq_mem k a)"
    and "msg_ok (mq_mem k a) (sint prio, msg)"
    and "send_turn mqdes msg (int (length msg)) prio ts k = (r, k')"
  shows "(sint (mq_age (mq_mem k a)) < INT_MAX \<longrightarrow> mq_wf (mq_mem k' a)) \<and>
    (if length (queue_of (mq_mem k a)) < nat (mq_max_msgs (mq_mem k a))
     then r = M_Done (int (length msg)) \<and> queue_of (mq_mem k' a) = pq_insert (sint prio, msg) (queue_of (mq_mem k a))
       \<and> mq_age (mq_mem k' a) = mq_age (mq_mem k a) + 1
     else mq_mem k' a = mq_mem k a \<and> r = (if flag_test mqdes MSG_NONBLOCK then M_Fail EAGAIN else M_Blocked))"
proof (cases "length (queue_of (mq_mem k a)) < nat (mq_max_msgs (mq_mem k a))")
  case True
  from send_step [OF assms(4,5) this refl refl] show ?thesis
    using True assms by (auto simp: send_turn_def msg_ok_def Let_def)
next
  case False
  then have "priv_send (int (length msg)) (mq_mem k a) = (None, mq_mem k a)"
    using assms(4) by (simp add: priv_send_def mq_wf_defs)
  then show ?thesis using False assms by (auto simp: send_turn_def msg_ok_def Let_def split: if_splits)
qed

theorem mq_send_refines_witness:
  "queue_of (mq_mem (snd (send_turn 0x41 [1, 2] 2 3 None demo_mq)) 64) = [(3, [1, 2])]"
proof -
  have a: "GET_MQ_PTR 0x41 = 64" "flag_test (0x41 :: u32) MSG_RDWR" by (simp_all add: GET_MQ_PTR_def bit_numeral_rec)
  have ok: "msg_ok (mq_mem demo_mq 64) (sint (3 :: u32), [1, 2])"
    by (simp add: demo_mq_sel msg_ok_def demo_queue_def)
  from mq_send_refines [OF _ a(2) a(1) [symmetric] _ ok surjective_pairing]
  moreover have "queue_of (mq_mem demo_mq 64) = []" "mq_wf (mq_mem demo_mq 64)" "mq_max_msgs (mq_mem demo_mq 64) = 2"
    using demo_queue_wf by (simp_all add: demo_mq_sel) (simp add: demo_queue_def)
  ultimately show ?thesis by simp
qed

text \<open>
  C26: receiving refines the specification: the first message of the specification is returned, with
  its priority, and removed; one that is longer than the caller's buffer stays (\<open>EMSGSIZE\<close>); on an
  empty queue nothing changes and the call fails with \<open>EAGAIN\<close> or blocks.
\<close>

theorem mq_receive_refines:
  assumes "mqdes \<noteq> -1" and "a = GET_MQ_PTR mqdes" and "mq_wf (mq_mem k a)"
    and "receive_turn mqdes len ts k = (r, k')"
  shows "mq_wf (mq_mem k' a) \<and>
    (case queue_of (mq_mem k a) of
       [] \<Rightarrow> mq_mem k' a = mq_mem k a \<and> r = (if flag_test mqdes MSG_NONBLOCK then M_Fail EAGAIN else M_Blocked)
     | (p, d) # rest \<Rightarrow>
         if len < int (length d) then r = M_Fail EMSGSIZE \<and> mq_mem k' a = mq_mem k a
         else r = M_Done (word_of_int p, d) \<and> queue_of (mq_mem k' a) = rest)"
proof (cases "queue_of (mq_mem k a)")
  case Nil
  then show ?thesis using receive_step [OF assms(3), of len] assms
    by (auto simp: receive_turn_def Let_def split: if_splits)
next
  case (Cons m rest)
  then show ?thesis using receive_step [OF assms(3), of len] assms
    by (cases m) (auto simp: receive_turn_def Let_def split: if_splits)
qed

theorem mq_receive_refines_witness:
  "fst (receive_turn 0x42 4 None demo_mq) = M_Fail EAGAIN"
proof -
  have a: "GET_MQ_PTR 0x42 = 64" "flag_test (0x42 :: u32) MSG_NONBLOCK" by (simp_all add: GET_MQ_PTR_def bit_numeral_rec)
  from mq_receive_refines [OF _ a(1) [symmetric] _ surjective_pairing, of demo_mq 4 None]
  show ?thesis using a(2) by (simp add: demo_mq_sel demo_queue_wf)
qed

text \<open>
  C27: messages of at least one byte that fit and have priorities below 2^31, sent to an empty queue, come out sorted by
  decreasing priority, in the order in which they were sent within a priority: receiving all of them yields the stable
  sort of what was sent. The queue's running age must not wrap around on the way: it counts every message sent since the
  queue was opened, so this holds for the first 2^31 - 1 of them.
\<close>

theorem mq_stable_priority_order:
  assumes "mq_wf q" and "queue_of q = []" and "\<forall>m\<in>set ms. msg_ok q m" and "int (length ms) \<le> mq_max_msgs q"
    and "sint (mq_age q) + int (length ms) \<le> INT_MAX"
  shows "drain get_msg (length ms) (fold put_msg ms q) = sort_key (\<lambda>m. - fst m) ms"
  using assms by (intro mq.drain_sorted) (auto simp: sends_left_def)

theorem mq_stable_priority_order_witness:
  "drain get_msg 2 (fold put_msg [(1, [5]), (9, [6, 7])] demo_queue) = [(9, [6, 7]), (1, [5])]"
proof -
  let ?ms = "[(1 :: int, [5 :: byte]), (9, [6, 7])]"
  have "\<forall>m\<in>set ?ms. msg_ok demo_queue m" by (simp add: msg_ok_def demo_queue_def)
  moreover have "int (length ?ms) \<le> mq_max_msgs demo_queue" "sint (mq_age demo_queue) + int (length ?ms) \<le> INT_MAX"
    by (simp_all add: demo_queue_def)
  ultimately have "drain get_msg (length ?ms) (fold put_msg ?ms demo_queue) = sort_key (\<lambda>m. - fst m) ?ms"
    by (rule mq_stable_priority_order [OF demo_queue_wf])
  moreover have "length ?ms = 2" "sort_key (\<lambda>m. - fst m) ?ms = [(9, [6, 7]), (1, [5])]" by simp_all
  ultimately show ?thesis by (simp only:)
qed

text \<open>
  Behind the largest age the order breaks: of two messages of the same priority, the first of which gets the last age
  before the wrap-around, the second is received first.
\<close>

lemma mq_age_wraps:
  "drain get_msg 2 (fold put_msg [(3, [1]), (3, [2])] (demo_queue\<lparr>mq_age := 0x7FFFFFFF\<rparr>)) = [(3, [2]), (3, [1])]"
  by code_simp

text \<open>
  an empty message is lost and counted: sending no bytes to an empty queue takes a slot in
  \<open>cur_msgs\<close> without filling one and reports a full queue, and the next receive finds a message
  counted that is not there and fails with \<open>EIO\<close>.
\<close>

theorem mq_empty_message_leaks:
  assumes "mqdes \<noteq> -1" and "flag_test mqdes MSG_RDWR" and "flag_test mqdes MSG_NONBLOCK" and "a = GET_MQ_PTR mqdes"
    and "mq_wf (mq_mem k a)" and "queue_of (mq_mem k a) = []" and "0 \<le> mq_max_size (mq_mem k a)"
    and "send_turn mqdes msg 0 prio ts k = (r, k1)" and "receive_turn mqdes len ts' k1 = (r', k2)"
  shows "r = M_Fail EAGAIN \<and> mq_cur_msgs (mq_mem k1 a) = 1 \<and> used_msgs (mq_mem k1 a) = []
    \<and> r' = M_Fail EIO \<and> mq_mem k2 a = mq_mem k1 a"
proof -
  let ?q = "mq_mem k a"
  have e: "used_msgs ?q = []" using length_queue_of [of ?q] assms(6) by simp
  have wf: "length (slots ?q) = nat (mq_max_msgs ?q)" "0 < mq_max_msgs ?q" "mq_cur_msgs ?q = 0"
    using assms(5) e by (simp_all add: mq_wf_defs)
  then have "length (queue_of ?q) < nat (mq_max_msgs ?q)" using assms(6) by simp
  from priv_send_room [OF assms(5) this, of 0]
  obtain i where i: "priv_send 0 ?q = (Some (i, 0), ?q\<lparr>mq_table := Some ((slots ?q)[i := (slots ?q ! i)\<lparr>ms_size := 0\<rparr>]),
      mq_cur_msgs := mq_cur_msgs ?q + 1\<rparr>)" "i < length (slots ?q)" "ms_size (slots ?q ! i) = 0" by blast
  have "(slots ?q)[i := (slots ?q ! i)\<lparr>ms_size := 0\<rparr>] = slots ?q"
  proof -
    have "(slots ?q ! i)\<lparr>ms_size := 0\<rparr> = slots ?q ! i" using i(3) by (cases "slots ?q ! i") simp
    then show ?thesis by simp
  qed
  then have k1: "r = M_Fail EAGAIN" "mq_mem k1 a = ?q\<lparr>mq_table := Some (slots ?q), mq_cur_msgs := 1\<rparr>"
    using assms(1-4,7,8) i(1) wf(3) by (auto simp: send_turn_def Let_def)
  have "\<forall>m\<in>set (slots ?q). ms_size m = 0" using e by (simp add: used_msgs_def filter_empty_conv)
  then have "select_msg INT_MAX (slots ?q) = None"
    using select_spec [of "slots ?q" INT_MAX] by (auto split: option.splits)
  then have "priv_receive len (mq_mem k1 a) = (T_Error EIO, mq_mem k1 a)"
    using wf by (simp add: priv_receive_def k1)
  then show ?thesis using k1 e assms(1,4,9) by (auto simp: receive_turn_def Let_def used_msgs_def)
qed

theorem mq_empty_message_leaks_witness:
  "fst (receive_turn 0x43 4 None (snd (send_turn 0x43 [] 0 3 None demo_mq))) = M_Fail EIO"
proof -
  have a: "GET_MQ_PTR 0x43 = 64" "flag_test (0x43 :: u32) MSG_RDWR" "flag_test (0x43 :: u32) MSG_NONBLOCK"
    by (simp_all add: GET_MQ_PTR_def bit_numeral_rec)
  have q: "mq_wf (mq_mem demo_mq 64)" "queue_of (mq_mem demo_mq 64) = []" "0 \<le> mq_max_size (mq_mem demo_mq 64)"
    using demo_queue_wf by (simp_all add: demo_mq_sel) (simp add: demo_queue_def)
  from mq_empty_message_leaks [OF _ a(2,3) a(1) [symmetric] q surjective_pairing surjective_pairing]
  show ?thesis by simp
qed

text \<open>
  C28: a receive can return another message than the one it took: the slot is free as soon as the
  privileged step has taken the message from a full queue, and the copy comes after it; a message sent between the
  two goes into this slot, is what the receiver copies, and is still in the queue afterwards, while the
  message that was taken is gone.
\<close>

theorem mq_receive_copy_race:
  assumes "mq_wf q" and "int (length (queue_of q)) = mq_max_msgs q" and "queue_of q = (p, d) # rest"
    and "length d = length (snd m)" and "msg_ok q m"
    and "priv_receive (mq_max_size q) q = (T_Slot i sz, q1)" and "q2 = put_msg m q1"
  shows "queue_of q2 = pq_insert m rest \<and> receive_copy i sz q2 = (word_of_int (fst m), snd m)"
proof -
  have len: "int (length d) \<le> mq_max_size q" using assms(4,5) by (simp add: msg_ok_def)
  have r: "mq_wf q1" "queue_of q1 = rest" "mq_max_msgs q1 = mq_max_msgs q" "mq_max_size q1 = mq_max_size q"
    using receive_step [OF assms(1), of "mq_max_size q"] assms(3,6) len by (auto split: if_splits)
  have ok: "msg_ok q1 m" using assms(5) r(4) by (simp add: msg_ok_def)
  have lq: "length (slots q) = nat (mq_max_msgs q)" using assms(1) by (simp add: mq_wf_defs)
  have "length (used_msgs q) = length (slots q)" using assms(2) lq by simp
  then have full: "ms_size (slots q ! j) \<noteq> 0" if "j < length (slots q)" for j
    using that length_filter_less [of "slots q ! j" "slots q" "\<lambda>m. ms_size m \<noteq> 0"] by (auto simp: used_msgs_def)
  have q1: "sz = ms_size (slots q ! i)" "slots q1 = (slots q)[i := (slots q ! i)\<lparr>ms_size := 0\<rparr>]"
    "select_msg INT_MAX (slots q) = Some i"
    using assms(6) lq by (auto simp: priv_receive_def split: if_splits option.splits)
  have "\<forall>m\<in>set (slots q). ms_size m \<noteq> 0 \<longrightarrow> 0 \<le> ms_prio m" using assms(1) by (auto simp: mq_wf_defs used_msgs_def)
  from select_spec [OF this, of INT_MAX] have i: "i < length (slots q)"
    "\<forall>x\<in>set (slots q). ms_size x \<noteq> 0 \<longrightarrow> mkey (slots q ! i) \<le> mkey x" by (simp_all add: q1(3))
  have room: "length (queue_of q1) < nat (mq_max_msgs q1)" using assms(2,3) r(2,3) by simp
  obtain j where j: "priv_send (int (length (snd m))) q1 = (Some (j, int (length (snd m))), q1\<lparr>mq_table := Some ((slots q1)[j := (slots q1 ! j)\<lparr>ms_size := int (length (snd m))\<rparr>]),
      mq_cur_msgs := mq_cur_msgs q1 + 1\<rparr>)" "j < length (slots q1)" "ms_size (slots q1 ! j) = 0"
    using priv_send_room [OF r(1) room] by blast
  have ji: "j = i"
  proof (rule ccontr)
    assume "j \<noteq> i"
    then show False using j(2,3) full [of j] by (simp add: q1(2))
  qed
  have "sz = int (length d)"
  proof -
    have mf: "0 < ms_size (slots q ! i)" "length (ms_data (slots q ! i)) = nat (mq_max_size q)" "ms_size (slots q ! i) \<le> mq_max_size q"
      using assms(1) i(1) full [OF i(1)] by (auto simp: mq_wf_defs used_msgs_def)
    have "receive_copy i sz q1 = (word_of_int p, d)"
      using receive_step [OF assms(1), of "mq_max_size q"] assms(3,6) len by (auto split: if_splits)
    then have "d = take (nat sz) (ms_data (slots q ! i))" using i(1) by (simp add: receive_copy_def q1(2))
    then show ?thesis using mf by (simp add: q1(1))
  qed
  then have "receive_copy i sz q2 = (word_of_int (fst m), snd m)"
    using j ji assms(4,5,7) i(1) sint_word_of_int31 [of "fst m"]
    by (simp add: put_msg_def send_copy_def receive_copy_def q1(2) msg_ok_def split: prod.split)
  then show ?thesis using put_msg_spec [OF r(1) ok room] by (simp add: assms(7) r(2))
qed

definition demo_full :: mq_t where
  "demo_full = demo_queue\<lparr>mq_cur_msgs := 2, mq_age := 2, mq_table := Some
     [\<lparr>ms_prio = 1, ms_size = 1, ms_age = 0, ms_data = [5, 0, 0, 0]\<rparr>,
      \<lparr>ms_prio = 9, ms_size = 2, ms_age = 1, ms_data = [6, 7, 0, 0]\<rparr>]\<rparr>"

theorem mq_receive_copy_race_witness:
  "receive_copy 1 2 (put_msg (4, [8, 8]) (snd (priv_receive 4 demo_full))) = (4, [8, 8])"
proof -
  have wf: "mq_wf demo_full" "int (length (queue_of demo_full)) = mq_max_msgs demo_full"
    "queue_of demo_full = (9, [6, 7]) # [(1, [5])]" "msg_ok demo_full (4, [8, 8])"
    "mq_max_size demo_full = 4"
    by (simp_all add: mq_wf_defs queue_of_def used_msgs_def mkey_def content_def msg_ok_def demo_full_def demo_queue_def)
  have "priv_receive (mq_max_size demo_full) demo_full = (T_Slot 1 2, snd (priv_receive 4 demo_full))"
    by (simp add: priv_receive_def select_msg_def better_def demo_full_def demo_queue_def numeral_2_eq_2)
  from mq_receive_copy_race [OF wf(1-3) _ wf(4) this refl] show ?thesis by simp
qed

end
