(* ===== verification/Aio.thy ===== *)
theory Aio
  imports Objects "HOL-Library.Monad_Syntax"
begin

section \<open>Asynchronous I/O (sys/aio/aio.c, include/dev_sys/aio.h)\<close>

text \<open>
  The kernel record extended by the control blocks of the transfers and the arguments of suspended calls,
  both by address, the error number, and the handlers that signals have put on the stacks of tasks. A
  transfer is in progress while the buffer pointer of its \<open>op\<close> is not NULL; a null entry of a list of transfers is
  \<open>None\<close>. The driver that a transfer is handed to is a parameter: its answer and what it leaves in \<open>op\<close>. The
  members of \<open>op\<close> that are always the same (flags, callback, context) are left out.

  \<open>aio_suspend\<close> is split where its task is switched out, as the blocking calls in \<open>Sem\<close>. What it passes to the
  privileged call lies on its stack, at \<open>p\<close>, and is read by the completion callback while the task is suspended.
\<close>

datatype notify = SIGEV_NONE | SIGEV_SIGNAL | SIGEV_OTHER

record aio_op =
  op_tid :: nat
  op_loc :: int
  op_buf :: u32
  op_nbyte :: int

record aiocb =
  aio_fildes :: int
  aio_offset :: int
  aio_buf :: u32
  aio_nbytes :: u32
  sigev_notify :: notify
  sigev_signo :: int
  sigev_value :: int
  aio_lio_opcode :: int
  aio_opr :: aio_op

record suspend_args =
  sp_list :: "nat option list"
  sp_block_on_all :: bool

datatype handler = SIGNAL_HANDLER | SIGNAL_FORWARD_HANDLER
datatype si_code = SI_USER | SI_ASYNCIO

record frame =
  fr_tid :: nat
  fr_handler :: handler
  fr_sender :: nat
  fr_signo :: int
  fr_code :: si_code
  fr_value :: int

record aio_kernel = kernel +
  ak_cb :: "nat \<Rightarrow> aiocb"
  ak_args :: "nat \<Rightarrow> suspend_args"
  ak_errno :: errno
  ak_frames :: "frame list"

abbreviation LIO_NOP :: int where "LIO_NOP \<equiv> 4"
abbreviation LIO_NOWAIT :: int where "LIO_NOWAIT \<equiv> 5"
abbreviation LIO_READ :: int where "LIO_READ \<equiv> 6"
abbreviation LIO_WAIT :: int where "LIO_WAIT \<equiv> 7"
abbreviation LIO_WRITE :: int where "LIO_WRITE \<equiv> 8"

definition upd_cb :: "nat \<Rightarrow> (aiocb \<Rightarrow> aiocb) \<Rightarrow> 'z aio_kernel_scheme \<Rightarrow> 'z aio_kernel_scheme" where
  "upd_cb a f k = k\<lparr>ak_cb := (ak_cb k)(a := f (ak_cb k a))\<rparr>"

definition upd_op :: "nat \<Rightarrow> (aio_op \<Rightarrow> aio_op) \<Rightarrow> 'z aio_kernel_scheme \<Rightarrow> 'z aio_kernel_scheme" where
  "upd_op a f = upd_cb a (\<lambda>c. c\<lparr>aio_opr := f (aio_opr c)\<rparr>)"

definition aio_err :: "errno \<Rightarrow> 'z aio_kernel_scheme \<Rightarrow> int \<times> 'z aio_kernel_scheme" where
  "aio_err e k = (-1, k\<lparr>ak_errno := e\<rparr>)"

definition in_progress :: "'z aio_kernel_scheme \<Rightarrow> nat \<Rightarrow> bool" where
  "in_progress k a \<longleftrightarrow> op_buf (aio_opr (ak_cb k a)) \<noteq> 0"

subsection \<open>State of a transfer\<close>

definition aio_cancel :: "'z aio_kernel_scheme \<Rightarrow> int \<times> 'z aio_kernel_scheme" where
  "aio_cancel = aio_err ENOTSUP"

definition aio_fsync :: "'z aio_kernel_scheme \<Rightarrow> int \<times> 'z aio_kernel_scheme" where
  "aio_fsync = aio_err ENOTSUP"

definition aio_error :: "'z aio_kernel_scheme \<Rightarrow> nat \<Rightarrow> errno + int" where
  "aio_error k a = (if in_progress k a then Inl EINPROGRESS else Inr (op_nbyte (aio_opr (ak_cb k a))))"

definition aio_return :: "'z aio_kernel_scheme \<Rightarrow> nat \<Rightarrow> int" where
  "aio_return k a = (if in_progress k a then -1 else sint (aio_nbytes (ak_cb k a)))"

subsection \<open>Sending a signal from privileged code (sys/signal/pthread_kill.c)\<close>

text \<open>
  \<open>stack\<close> says for which tasks \<open>signal_priv_check_stack\<close> finds room for a frame. A frame is pushed if the task is
  enabled; the task is activated in any case.
\<close>

definition task_priv_interrupt_call :: "frame \<Rightarrow> 'z aio_kernel_scheme \<Rightarrow> 'z aio_kernel_scheme" where
  "task_priv_interrupt_call f k =
     signal_priv_activate (fr_tid f) (if task_enabled k (fr_tid f) then k\<lparr>ak_frames := ak_frames k @ [f]\<rparr> else k)"

definition signal_frame :: "(nat \<Rightarrow> bool) \<Rightarrow> frame \<Rightarrow> 'z aio_kernel_scheme \<Rightarrow> int \<times> 'z aio_kernel_scheme" where
  "signal_frame stack f k =
     (if fr_tid f < task_total k then
        if fr_signo f \<noteq> 0 then
          if fr_signo f < 32 then
            if \<not> stack (fr_tid f) then aio_err ENOMEM k else (0, task_priv_interrupt_call f k)
          else (-1, k)
        else (0, k)
      else (-1, k))"

definition signal_priv_forward :: "(nat \<Rightarrow> bool) \<Rightarrow> nat \<Rightarrow> nat \<Rightarrow> int \<Rightarrow> si_code \<Rightarrow> int \<Rightarrow> 'z aio_kernel_scheme
    \<Rightarrow> int \<times> 'z aio_kernel_scheme" where
  "signal_priv_forward stack send_tid tid signo code value = signal_frame stack
     \<lparr>fr_tid = tid, fr_handler = SIGNAL_FORWARD_HANDLER, fr_sender = send_tid, fr_signo = signo, fr_code = code, fr_value = value\<rparr>"

definition signal_priv_send :: "(nat \<Rightarrow> bool) \<Rightarrow> nat \<Rightarrow> nat \<Rightarrow> int \<Rightarrow> si_code \<Rightarrow> int \<Rightarrow> bool \<Rightarrow> 'z aio_kernel_scheme
    \<Rightarrow> int \<times> 'z aio_kernel_scheme" where
  "signal_priv_send stack send_tid tid signo code value forward k =
     (if tid = task_current k \<and> forward then signal_priv_forward stack tid 0 signo code value k
      else signal_frame stack
        \<lparr>fr_tid = tid, fr_handler = SIGNAL_HANDLER, fr_sender = send_tid, fr_signo = signo, fr_code = code, fr_value = value\<rparr> k)"

subsection \<open>Completion\<close>

text \<open>
  The loop of \<open>block_on_all\<close> reads every entry of the list, a null pointer included, which is the value \<open>None\<close> of
  the callback.
\<close>

fun all_complete :: "'z aio_kernel_scheme \<Rightarrow> nat option list \<Rightarrow> bool \<Rightarrow> bool option" where
  "all_complete k [] wakeup = Some wakeup"
| "all_complete k (None # es) wakeup = None"
| "all_complete k (Some a # es) wakeup = all_complete k es (if in_progress k a then False else wakeup)"

definition callback_wakes :: "nat \<Rightarrow> nat \<Rightarrow> 'z aio_kernel_scheme \<Rightarrow> bool option" where
  "callback_wakes tid a k =
     (case st_block_object (sched_table k tid) of
       Addr p \<Rightarrow> if \<not> sp_block_on_all (ak_args k p) then Some (Some a \<in> set (sp_list (ak_args k p)))
                else all_complete k (sp_list (ak_args k p)) True
     | _ \<Rightarrow> None)"

definition wake_aio :: "nat \<Rightarrow> 'z kernel_scheme \<Rightarrow> 'z kernel_scheme" where
  "wake_aio tid k =
     (let k1 = sched_priv_assert_active tid UNBLOCK_AIO k
      in sched_priv_update_on_wake (st_priority (sched_table k1 tid)) k1)"

definition aio_data_transfer_callback :: "(nat \<Rightarrow> bool) \<Rightarrow> nat \<Rightarrow> 'z aio_kernel_scheme \<Rightarrow> 'z aio_kernel_scheme option" where
  "aio_data_transfer_callback stack a k =
     (let k1 = upd_cb a (\<lambda>c. c\<lparr>aio_nbytes := word_of_int (op_nbyte (aio_opr c)),
            aio_opr := (aio_opr c)\<lparr>op_buf := 0, op_nbyte := 0\<rparr>\<rparr>) k;
          c = ak_cb k1 a; tid = op_tid (aio_opr c)
      in if tid \<ge> task_total k1 then Some k1
         else if task_enabled k1 tid then do {
           k2 \<leftarrow> (if sched_asserted SCHED_AIOSUSPEND k1 tid then do {
                     w \<leftarrow> callback_wakes tid a k1;
                     Some (if w then wake_aio tid k1 else k1)
                   } else Some k1);
           Some (if sigev_notify c = SIGEV_SIGNAL
                 then snd (signal_priv_send stack 0 tid (sigev_signo c) SI_ASYNCIO (sigev_value c) True k2) else k2)
         } else Some k1)"

subsection \<open>Starting a transfer\<close>

text \<open>\<open>drv\<close> takes whether the transfer is a read, the descriptor and \<open>op\<close>.\<close>

type_synonym driver = "bool \<Rightarrow> int \<Rightarrow> aio_op \<Rightarrow> int \<times> aio_op"

definition priv_device_data_transfer :: "(nat \<Rightarrow> bool) \<Rightarrow> driver \<Rightarrow> bool \<Rightarrow> nat \<Rightarrow> 'z aio_kernel_scheme
    \<Rightarrow> (int \<times> 'z aio_kernel_scheme) option" where
  "priv_device_data_transfer stack drv rd a k =
     (case drv rd (aio_fildes (ak_cb k a)) (aio_opr (ak_cb k a)) of (ret, opr) \<Rightarrow>
       let k1 = upd_sched (task_current k) (\<lambda>t. t\<lparr>st_block_object := Null\<rparr>) (upd_op a (\<lambda>_. opr) k)
       in if ret = 0 then Some (0, k1)
          else if ret < 0 then Some (aio_err EIO k1)
          else do {
            k2 \<leftarrow> aio_data_transfer_callback stack a k1;
            Some (0, k2)
          })"

definition aio_data_transfer :: "(nat \<Rightarrow> bool) \<Rightarrow> driver \<Rightarrow> nat \<Rightarrow> 'z aio_kernel_scheme \<Rightarrow> (int \<times> 'z aio_kernel_scheme) option" where
  "aio_data_transfer stack drv a k =
     priv_device_data_transfer stack drv (aio_lio_opcode (ak_cb k a) = LIO_READ) a
       (upd_cb a (\<lambda>c. c\<lparr>aio_nbytes := -1,
          aio_opr := \<lparr>op_tid = task_current k, op_loc = aio_offset c, op_buf = aio_buf c, op_nbyte = sint (aio_nbytes c)\<rparr>\<rparr>) k)"

definition aio_read :: "(nat \<Rightarrow> bool) \<Rightarrow> driver \<Rightarrow> nat \<Rightarrow> 'z aio_kernel_scheme \<Rightarrow> (int \<times> 'z aio_kernel_scheme) option" where
  "aio_read stack drv a k = aio_data_transfer stack drv a (upd_cb a (\<lambda>c. c\<lparr>aio_lio_opcode := LIO_READ\<rparr>) k)"

definition aio_write :: "(nat \<Rightarrow> bool) \<Rightarrow> driver \<Rightarrow> nat \<Rightarrow> 'z aio_kernel_scheme \<Rightarrow> (int \<times> 'z aio_kernel_scheme) option" where
  "aio_write stack drv a k = aio_data_transfer stack drv a (upd_cb a (\<lambda>c. c\<lparr>aio_lio_opcode := LIO_WRITE\<rparr>) k)"

subsection \<open>Waiting\<close>

fun suspend_loop :: "'z aio_kernel_scheme \<Rightarrow> bool \<Rightarrow> nat option list \<Rightarrow> bool \<Rightarrow> bool" where
  "suspend_loop k on_all [] susp = susp"
| "suspend_loop k on_all (None # es) susp = suspend_loop k on_all es susp"
| "suspend_loop k on_all (Some a # es) susp =
     (if \<not> in_progress k a \<and> \<not> on_all then False
      else suspend_loop k on_all es (if in_progress k a \<and> on_all then True else susp))"

text \<open>The first result says whether the task is switched out; if not, the code stores -1 in \<open>nent\<close>.\<close>

definition priv_suspend :: "nat \<Rightarrow> suspend_args \<Rightarrow> sched_timeval \<Rightarrow> 'z aio_kernel_scheme \<Rightarrow> bool \<times> 'z aio_kernel_scheme" where
  "priv_suspend p x abs_timeout k =
     (let k1 = k\<lparr>ak_args := (ak_args k)(p := x)\<rparr>
      in if suspend_loop k (sp_block_on_all x) (sp_list x) (\<not> sp_block_on_all x)
         then (True, sched_priv_timedblock (Addr p) abs_timeout (sched_priv_assert (task_current k1) SCHED_AIOSUSPEND k1))
         else (False, k1))"

definition suspend :: "nat \<Rightarrow> nat option list \<Rightarrow> (int \<times> int) option \<Rightarrow> bool \<Rightarrow> 'z aio_kernel_scheme \<Rightarrow> int option \<times> 'z aio_kernel_scheme" where
  "suspend p es timeout on_all k =
     (case priv_suspend p \<lparr>sp_list = es, sp_block_on_all = on_all\<rparr> (sched_convert_timespec timeout) k of
       (True, k1) \<Rightarrow> (None, k1) | (False, k1) \<Rightarrow> (Some 0, k1))"

text \<open>After the task has run again; \<open>ret\<close> is what the member \<open>ret\<close> of the arguments holds, which nothing sets.\<close>

definition suspend_resume :: "int \<Rightarrow> 'z aio_kernel_scheme \<Rightarrow> int \<times> 'z aio_kernel_scheme" where
  "suspend_resume ret k =
     (if sched_get_unblock_type k (task_current k) = unblock_code UNBLOCK_SLEEP then aio_err EAGAIN k
      else if sched_get_unblock_type k (task_current k) = unblock_code UNBLOCK_SIGNAL then aio_err EINTR k
      else (ret, k))"

definition aio_suspend :: "nat \<Rightarrow> nat option list \<Rightarrow> (int \<times> int) option \<Rightarrow> 'z aio_kernel_scheme \<Rightarrow> int option \<times> 'z aio_kernel_scheme" where
  "aio_suspend p es timeout = suspend p es timeout False"

fun start_all :: "(nat \<Rightarrow> bool) \<Rightarrow> driver \<Rightarrow> nat option list \<Rightarrow> 'z aio_kernel_scheme \<Rightarrow> 'z aio_kernel_scheme option" where
  "start_all stack drv [] k = Some k"
| "start_all stack drv (None # es) k = start_all stack drv es k"
| "start_all stack drv (Some a # es) k = do {
     (r, k1) \<leftarrow> aio_data_transfer stack drv a k;
     start_all stack drv es k1
   }"

text \<open>\<open>sig\<close> is the \<open>sigev_notify\<close> of the event structure, if one is passed.\<close>

definition lio_listio :: "(nat \<Rightarrow> bool) \<Rightarrow> driver \<Rightarrow> nat \<Rightarrow> int \<Rightarrow> nat option list \<Rightarrow> notify option \<Rightarrow> 'z aio_kernel_scheme
    \<Rightarrow> (int option \<times> 'z aio_kernel_scheme) option" where
  "lio_listio stack drv p mode es sig k =
     (if mode = LIO_NOWAIT \<and> sig \<noteq> None \<and> sig \<noteq> Some SIGEV_NONE then Some (apfst Some (aio_err ENOTSUP k))
      else if mode \<noteq> LIO_NOWAIT \<and> mode \<noteq> LIO_WAIT then Some (apfst Some (aio_err EINVAL k))
      else do {
        k1 \<leftarrow> start_all stack drv es k;
        Some (if mode = LIO_WAIT then suspend p es None True k1 else (Some 0, k1))
      })"

subsection \<open>Frames\<close>

lemma aio_more:
  "kernel.more k' = kernel.more k \<Longrightarrow> ak_cb k' = ak_cb k"
  "kernel.more k' = kernel.more k \<Longrightarrow> ak_args k' = ak_args k"
  by (cases k, cases k', simp)+

lemma sched_aio [simp]:
  "ak_cb (sched_priv_update_on_wake p k) = ak_cb k" "ak_args (sched_priv_update_on_wake p k) = ak_args k"
  "ak_cb (sched_priv_assert_active i ty k) = ak_cb k" "ak_args (sched_priv_assert_active i ty k) = ak_args k"
  "ak_cb (sched_priv_timedblock obj tv k) = ak_cb k" "ak_args (sched_priv_timedblock obj tv k) = ak_args k"
  "ak_cb (upd_sched i f k) = ak_cb k" "ak_args (upd_sched i f k) = ak_args k"
  "ak_cb (wake_set P ty is k) = ak_cb k" "ak_args (wake_set P ty is k) = ak_args k"
  by ((rule aio_more(1) | rule aio_more(2)); simp)+

lemma trunc_upd_cb [simp]: "kernel.truncate (upd_cb a f k) = kernel.truncate k" "kernel.truncate (upd_op a g k) = kernel.truncate k"
  "kernel.truncate (k\<lparr>ak_args := x\<rparr>) = kernel.truncate k" "kernel.truncate (k\<lparr>ak_errno := e\<rparr>) = kernel.truncate k"
  "kernel.truncate (k\<lparr>ak_frames := fs\<rparr>) = kernel.truncate k"
  by (simp_all add: upd_op_def upd_cb_def kernel.truncate_def)

lemmas upd_cb_kernel [simp] =
  trunc_fields [OF trunc_upd_cb(1)] trunc_same [OF trunc_upd_cb(1)] trunc_fields [OF trunc_upd_cb(2)] trunc_same [OF trunc_upd_cb(2)]

lemmas aio_field_kernel [simp] =
  trunc_same [OF trunc_upd_cb(3)] trunc_same [OF trunc_upd_cb(4)] trunc_same [OF trunc_upd_cb(5)]

lemma upd_cb_sel [simp]:
  "ak_cb (upd_cb a f k) b = (if b = a then f (ak_cb k a) else ak_cb k b)" "ak_args (upd_cb a f k) = ak_args k"
  "ak_errno (upd_cb a f k) = ak_errno k" "ak_frames (upd_cb a f k) = ak_frames k"
  by (simp_all add: upd_cb_def)

lemma upd_op_sel [simp]:
  "ak_cb (upd_op a f k) b = (if b = a then (ak_cb k a)\<lparr>aio_opr := f (aio_opr (ak_cb k a))\<rparr> else ak_cb k b)"
  "ak_args (upd_op a f k) = ak_args k" "ak_errno (upd_op a f k) = ak_errno k"
  by (simp_all add: upd_op_def)

interpretation aio_wake: waker wake_aio UNBLOCK_AIO
  by unfold_locales (simp add: wake_aio_def Let_def sched_get_priority_def)

subsection \<open>Suspended tasks\<close>

definition suspended :: "'z aio_kernel_scheme \<Rightarrow> nat \<Rightarrow> bool" where
  "suspended k i \<longleftrightarrow> i < task_total k \<and> task_enabled k i \<and> sched_asserted SCHED_AIOSUSPEND k i"

text \<open>What the call waits for has not happened.\<close>

definition must_wait :: "'z aio_kernel_scheme \<Rightarrow> suspend_args \<Rightarrow> bool" where
  "must_wait k x \<longleftrightarrow>
     (if sp_block_on_all x then \<exists>a. Some a \<in> set (sp_list x) \<and> in_progress k a
      else \<forall>a. Some a \<in> set (sp_list x) \<longrightarrow> in_progress k a)"

text \<open>The transfers of the list that are in progress are those of the task.\<close>

definition owns :: "'z aio_kernel_scheme \<Rightarrow> nat \<Rightarrow> nat option list \<Rightarrow> bool" where
  "owns k i es \<longleftrightarrow> (\<forall>a. Some a \<in> set es \<and> in_progress k a \<longrightarrow> op_tid (aio_opr (ak_cb k a)) = i)"

definition waits :: "'z aio_kernel_scheme \<Rightarrow> nat \<Rightarrow> bool" where
  "waits k i \<longleftrightarrow> \<not> sched_active_asserted k i \<and> (\<exists>p. st_block_object (sched_table k i) = Addr p
     \<and> owns k i (sp_list (ak_args k p)) \<and> must_wait k (ak_args k p))"

definition aio_inv :: "'z aio_kernel_scheme \<Rightarrow> bool" where
  "aio_inv k \<longleftrightarrow> (\<forall>i. suspended k i \<longrightarrow> waits k i)"

text \<open>A step that wakes suspended tasks at most.\<close>

definition spares :: "'z aio_kernel_scheme \<Rightarrow> 'z aio_kernel_scheme \<Rightarrow> bool" where
  "spares k k' \<longleftrightarrow> ak_cb k' = ak_cb k \<and> ak_args k' = ak_args k
     \<and> (\<forall>i. suspended k' i \<longrightarrow> suspended k i \<and> sched_table k' i = sched_table k i)"

lemma in_progress_cong: "ak_cb k' = ak_cb k \<Longrightarrow> in_progress k' = in_progress k"
  by (rule ext) (simp add: in_progress_def)

lemma waits_cong:
  assumes "ak_cb k' = ak_cb k" "ak_args k' = ak_args k" "sched_table k' i = sched_table k i"
  shows "waits k' i = waits k i"
  using assms by (simp add: waits_def owns_def must_wait_def in_progress_cong [OF assms(1)] sched_asserted_def)

lemma spares_inv: "aio_inv k \<Longrightarrow> spares k k' \<Longrightarrow> aio_inv k'"
  using waits_cong [of k' k] by (simp add: aio_inv_def spares_def)

lemma spares_refl [simp]: "spares k k"
  by (simp add: spares_def)

lemma spares_trans: "spares k k1 \<Longrightarrow> spares k1 k2 \<Longrightarrow> spares k k2"
  by (simp add: spares_def)

lemma asserted_wake [simp]: "sched_asserted f (sched_priv_update_on_wake p k) i = sched_asserted f k i"
  by (simp add: sched_asserted_def)

lemma suspended_wake [simp]: "suspended (sched_priv_update_on_wake p k) i = suspended k i"
  by (simp add: suspended_def)

lemma suspended_active [simp]: "suspended (sched_priv_assert_active j ty k) i \<longleftrightarrow> i \<noteq> j \<and> suspended k i"
  by (simp add: suspended_def)

lemma spares_wake: "spares k (sched_priv_update_on_wake p (sched_priv_assert_active i ty k))"
  by (simp add: spares_def)

lemma wake_spares: "spares k (wake_aio i k)" "\<not> suspended (wake_aio i k) i"
  by (simp_all add: wake_aio_def Let_def spares_wake)

lemma suspended_trunc:
  assumes t: "kernel.truncate k' = kernel.truncate k"
  shows "suspended k' = suspended k"
  by (rule ext) (simp add: suspended_def trunc_fields [OF t] trunc_same [OF t])

lemma activate_spares: "spares k (signal_priv_activate i k)"
proof -
  have e: "sched_table (signal_priv_activate i k) j = sched_table k j" if "j \<noteq> i" for j
    using that by (simp add: signal_priv_activate_def Let_def sched_priv_deassert_def)
  have a: "suspended (signal_priv_activate i k) j \<Longrightarrow> j \<noteq> i \<and> suspended k j" for j
    by (simp add: signal_priv_activate_def Let_def) (auto simp: suspended_def sched_priv_deassert_def sched_asserted_def split: if_splits)
  show ?thesis using e a unfolding spares_def by (simp add: signal_priv_activate_def Let_def sched_priv_deassert_def)
qed

lemma spares_same:
  assumes t: "kernel.truncate k' = kernel.truncate k" and "ak_cb k' = ak_cb k" "ak_args k' = ak_args k"
  shows "spares k k'"
  using assms(2,3) by (simp add: spares_def suspended_trunc [OF t] trunc_fields [OF t])

lemma signal_spares: "spares k (snd (signal_priv_send stack s tid n c v fw k))"
proof -
  have "spares k (task_priv_interrupt_call f k)" for f
    unfolding task_priv_interrupt_call_def
    by (rule spares_trans [OF _ activate_spares]) (simp add: spares_same)
  then have "spares k (snd (signal_frame stack f k))" for f
    by (simp add: signal_frame_def aio_err_def spares_same)
  then show ?thesis by (simp add: signal_priv_send_def signal_priv_forward_def)
qed

lemma signal_keeps_active: "sched_active_asserted k i \<Longrightarrow> sched_active_asserted (snd (signal_priv_send stack s tid n c v fw k)) i"
proof -
  assume a: "sched_active_asserted k i"
  have "sched_active_asserted (signal_priv_activate j k') i" if "sched_active_asserted k' i" for j and k' :: "'a aio_kernel_scheme"
    using that by (simp add: signal_priv_activate_def Let_def) (simp add: sched_priv_deassert_def sched_asserted_def)
  with a show ?thesis
    by (simp add: signal_priv_send_def signal_priv_forward_def signal_frame_def task_priv_interrupt_call_def aio_err_def)
qed

lemma wake_set_suspended:
  "sched_asserted SCHED_AIOSUSPEND (wake_set P ty is k) j \<Longrightarrow> sched_asserted SCHED_AIOSUSPEND k j \<and> \<not> (j \<in> set is \<and> P j)"
proof (induction "is" arbitrary: k)
  case (Cons i "is")
  show ?case using Cons.prems Cons.IH [of "if P i then sched_priv_assert_active i ty k else k"] by (auto split: if_splits)
qed simp

lemma match_spares: "spares k (priv_usecond_match_event k)"
proof -
  let ?k = "priv_usecond_match_event k" and ?D = "due k (tmr_val k)" and ?xs = "[1..<task_total k]"
  have m: "kernel.more ?k = kernel.more k" by (simp add: match_event_eq Let_def)
  have tot: "task_total ?k = task_total k" "task_enabled ?k i = task_enabled k i" for i by (simp_all add: match_event_eq Let_def)
  have "suspended k i \<and> sched_table ?k i = sched_table k i" if s: "suspended ?k i" for i
  proof -
    have "\<not> (i \<in> set ?xs \<and> ?D i)"
    proof
      assume i: "i \<in> set ?xs \<and> ?D i"
      have "sched_asserted SCHED_AIOSUSPEND (wake_set ?D UNBLOCK_SLEEP ?xs k) i"
        using s by (simp add: suspended_def sched_asserted_def match_event_sel(1))
      with i show False using wake_set_suspended by blast
    qed
    then have e: "sched_table ?k i = sched_table k i" using wake_set_other [of i ?xs ?D UNBLOCK_SLEEP k] by (simp add: match_event_sel(1))
    with s tot show ?thesis by (simp add: suspended_def sched_asserted_def)
  qed
  then show ?thesis using aio_more [OF m] by (simp add: spares_def)
qed

subsection \<open>The loops\<close>

lemma suspend_loop_must_wait: "suspend_loop k on_all es (\<not> on_all) = must_wait k \<lparr>sp_list = es, sp_block_on_all = on_all\<rparr>"
proof -
  have "suspend_loop k True es s \<longleftrightarrow> s \<or> (\<exists>a. Some a \<in> set es \<and> in_progress k a)" for s
    by (induction k True es s rule: suspend_loop.induct) auto
  moreover have "suspend_loop k False es s \<longleftrightarrow> s \<and> (\<forall>a. Some a \<in> set es \<longrightarrow> in_progress k a)" for s
    by (induction k False es s rule: suspend_loop.induct) auto
  ultimately show ?thesis by (cases on_all) (simp_all add: must_wait_def)
qed

lemma all_complete_Some: "all_complete k es w = Some w' \<Longrightarrow> w' \<longleftrightarrow> w \<and> (\<forall>a. Some a \<in> set es \<longrightarrow> \<not> in_progress k a)"
  by (induction k es w rule: all_complete.induct) (auto split: if_splits)

lemma all_complete_value:
  "None \<notin> set es \<Longrightarrow> all_complete k es w = Some (w \<and> (\<forall>a. Some a \<in> set es \<longrightarrow> \<not> in_progress k a))"
  by (induction k es w rule: all_complete.induct) auto

lemma all_complete_None: "all_complete k es w = None \<longleftrightarrow> None \<in> set es"
  by (induction k es w rule: all_complete.induct) auto

subsection \<open>Completion\<close>

definition completed :: "nat \<Rightarrow> 'z aio_kernel_scheme \<Rightarrow> 'z aio_kernel_scheme" where
  "completed a = upd_cb a (\<lambda>c. c\<lparr>aio_nbytes := word_of_int (op_nbyte (aio_opr c)),
     aio_opr := (aio_opr c)\<lparr>op_buf := 0, op_nbyte := 0\<rparr>\<rparr>)"

lemma completed_sel [simp]:
  "in_progress (completed a k) b \<longleftrightarrow> b \<noteq> a \<and> in_progress k b" "op_tid (aio_opr (ak_cb (completed a k) b)) = op_tid (aio_opr (ak_cb k b))"
  "ak_args (completed a k) = ak_args k" "sched_table (completed a k) = sched_table k" "task_total (completed a k) = task_total k"
  "task_enabled (completed a k) i = task_enabled k i" "suspended (completed a k) = suspended k"
  "aio_nbytes (ak_cb (completed a k) a) = word_of_int (op_nbyte (aio_opr (ak_cb k a)))" "op_nbyte (aio_opr (ak_cb (completed a k) a)) = 0"
  "sched_active_asserted (completed a k) i = sched_active_asserted k i"
  by (simp_all add: completed_def in_progress_def suspended_trunc [OF trunc_upd_cb(1)])

lemma callback_eq:
  "aio_data_transfer_callback stack a k =
     (let k1 = completed a k; c = ak_cb k1 a; tid = op_tid (aio_opr c)
      in if tid \<ge> task_total k1 then Some k1
         else if task_enabled k1 tid then do {
           k2 \<leftarrow> (if sched_asserted SCHED_AIOSUSPEND k1 tid then do {
                     w \<leftarrow> callback_wakes tid a k1;
                     Some (if w then wake_aio tid k1 else k1)
                   } else Some k1);
           Some (if sigev_notify c = SIGEV_SIGNAL
                 then snd (signal_priv_send stack 0 tid (sigev_signo c) SI_ASYNCIO (sigev_value c) True k2) else k2)
         } else Some k1)"
  by (simp only: aio_data_transfer_callback_def completed_def)

text \<open>What the callback decides about the task that started the transfer.\<close>

lemma callback_effect:
  assumes "aio_data_transfer_callback stack a k = Some k'" and tid: "tid = op_tid (aio_opr (ak_cb k a))"
  shows "spares (completed a k) k'" "suspended k' tid \<Longrightarrow> callback_wakes tid a (completed a k) = Some False"
proof -
  let ?k = "completed a k"
  have r: "Some k' = (if tid \<ge> task_total ?k then Some ?k
         else if task_enabled ?k tid then do {
           k2 \<leftarrow> (if sched_asserted SCHED_AIOSUSPEND ?k tid then do {
                     w \<leftarrow> callback_wakes tid a ?k;
                     Some (if w then wake_aio tid ?k else ?k)
                   } else Some ?k);
           Some (if sigev_notify (ak_cb ?k a) = SIGEV_SIGNAL
                 then snd (signal_priv_send stack 0 tid (sigev_signo (ak_cb ?k a)) SI_ASYNCIO (sigev_value (ak_cb ?k a)) True k2) else k2)
         } else Some ?k)"
    using assms(1) [symmetric] unfolding callback_eq Let_def by (simp only: completed_sel(2) tid)
  have "spares ?k k' \<and> (suspended k' tid \<longrightarrow> callback_wakes tid a ?k = Some False)"
  proof (cases "tid < task_total ?k \<and> task_enabled ?k tid")
    case False
    then have "k' = ?k" using r by (auto split: if_splits)
    with False show ?thesis by (auto simp: suspended_def)
  next
    case True
    then obtain k2 where k2: "(if sched_asserted SCHED_AIOSUSPEND ?k tid then do {
        w \<leftarrow> callback_wakes tid a ?k; Some (if w then wake_aio tid ?k else ?k) } else Some ?k) = Some k2"
      "k' = (if sigev_notify (ak_cb ?k a) = SIGEV_SIGNAL
             then snd (signal_priv_send stack 0 tid (sigev_signo (ak_cb ?k a)) SI_ASYNCIO (sigev_value (ak_cb ?k a)) True k2) else k2)"
      using r by (auto split: Option.bind_splits)
    have 2: "spares k2 k'" unfolding k2(2) by (simp add: signal_spares)
    have 1: "spares ?k k2 \<and> (suspended k2 tid \<longrightarrow> callback_wakes tid a ?k = Some False)"
    proof (cases "sched_asserted SCHED_AIOSUSPEND ?k tid")
      case False
      then show ?thesis using k2(1) by (auto simp: suspended_def)
    next
      case True
      then obtain w where w: "callback_wakes tid a ?k = Some w" "k2 = (if w then wake_aio tid ?k else ?k)"
        using k2(1) by (auto split: Option.bind_splits)
      then show ?thesis using wake_spares by (cases w) auto
    qed
    from 2 have "suspended k' tid \<Longrightarrow> suspended k2 tid" by (simp add: spares_def)
    with 1 spares_trans [OF _ 2] show ?thesis by blast
  qed
  then show "spares ?k k'" "suspended k' tid \<Longrightarrow> callback_wakes tid a ?k = Some False" by blast+
qed

text \<open>Only the task that started a transfer may wait for it.\<close>

definition not_awaited :: "'z aio_kernel_scheme \<Rightarrow> nat \<Rightarrow> nat \<Rightarrow> bool" where
  "not_awaited k a tid \<longleftrightarrow> (\<forall>i p. suspended k i \<and> i \<noteq> tid \<and> st_block_object (sched_table k i) = Addr p
     \<longrightarrow> Some a \<notin> set (sp_list (ak_args k p)))"

lemma must_wait_completed: "Some a \<notin> set (sp_list x) \<Longrightarrow> must_wait (completed a k) x = must_wait k x"
  by (auto simp: must_wait_def)

lemma callback_inv:
  assumes inv: "aio_inv k" and run: "aio_data_transfer_callback stack a k = Some k'"
    and apart: "not_awaited k a (op_tid (aio_opr (ak_cb k a)))"
  shows "aio_inv k'"
  unfolding aio_inv_def
proof (intro allI impI)
  let ?k = "completed a k" and ?tid = "op_tid (aio_opr (ak_cb k a))"
  fix i assume s: "suspended k' i"
  note e = callback_effect [OF run refl]
  have sp: "ak_cb k' = ak_cb ?k" "ak_args k' = ak_args ?k" "sched_table k' i = sched_table ?k i" "suspended k i"
    using e(1) s by (simp_all add: spares_def)
  from inv sp(4) obtain p where p: "\<not> sched_active_asserted k i" "st_block_object (sched_table k i) = Addr p"
    "owns k i (sp_list (ak_args k p))" "must_wait k (ak_args k p)" by (auto simp: aio_inv_def waits_def)
  have "must_wait ?k (ak_args k p)"
  proof (cases "i = ?tid \<and> Some a \<in> set (sp_list (ak_args k p))")
    case False
    then have "Some a \<notin> set (sp_list (ak_args k p))" using apart sp(4) p(2) by (auto simp: not_awaited_def)
    with p(4) show ?thesis by (simp add: must_wait_completed)
  next
    case True
    then have w: "callback_wakes ?tid a ?k = Some False" "st_block_object (sched_table k ?tid) = Addr p" using e(2) s p(2) by simp_all
    then have all: "sp_block_on_all (ak_args k p)" "all_complete ?k (sp_list (ak_args k p)) True = Some False"
      using True by (auto simp: callback_wakes_def split: if_splits)
    from all_complete_Some [OF all(2)] all(1) show ?thesis by (auto simp: must_wait_def)
  qed
  moreover have "owns ?k i (sp_list (ak_args k p))" using p(3) by (simp add: owns_def)
  ultimately have "waits ?k i" using p(1,2) by (auto simp: waits_def)
  then show "waits k' i" using waits_cong [OF sp(1-3)] by simp
qed

subsection \<open>Starting a transfer\<close>

lemma upd_cb_inv:
  assumes inv: "aio_inv k" and apart: "\<And>i p. suspended k i \<Longrightarrow> st_block_object (sched_table k i) = Addr p \<Longrightarrow> Some a \<notin> set (sp_list (ak_args k p))"
  shows "aio_inv (upd_cb a f k)"
  unfolding aio_inv_def suspended_trunc [OF trunc_upd_cb(1)]
proof (intro allI impI)
  fix i assume s: "suspended k i"
  from inv s obtain p where p: "\<not> sched_active_asserted k i" "st_block_object (sched_table k i) = Addr p"
    "owns k i (sp_list (ak_args k p))" "must_wait k (ak_args k p)" by (auto simp: aio_inv_def waits_def)
  have a: "Some a \<notin> set (sp_list (ak_args k p))" by (rule apart [OF s p(2)])
  have same: "Some b \<in> set (sp_list (ak_args k p)) \<Longrightarrow> in_progress (upd_cb a f k) b = in_progress k b
      \<and> aio_opr (ak_cb (upd_cb a f k) b) = aio_opr (ak_cb k b)" for b
    using a by (auto simp: in_progress_def)
  show "waits (upd_cb a f k) i"
    using p same unfolding waits_def owns_def must_wait_def by (intro conjI exI [of _ p]) (auto split: if_splits)
qed

lemma transfer_inv:
  assumes inv: "aio_inv k" and me: "sched_active_asserted k (task_current k)"
    and apart: "\<And>i p. suspended k i \<Longrightarrow> st_block_object (sched_table k i) = Addr p \<Longrightarrow> Some a \<notin> set (sp_list (ak_args k p))"
    and run: "aio_data_transfer stack drv a k = Some (r, k')"
  shows "aio_inv k'"
proof -
  obtain f where f: "priv_device_data_transfer stack drv (aio_lio_opcode (ak_cb k a) = LIO_READ) a (upd_cb a f k) = Some (r, k')"
    using run unfolding aio_data_transfer_def by blast
  let ?k0 = "upd_cb a f k"
  obtain ret opr where d: "drv (aio_lio_opcode (ak_cb k a) = LIO_READ) (aio_fildes (ak_cb ?k0 a)) (aio_opr (ak_cb ?k0 a)) = (ret, opr)"
    by (metis prod.exhaust)
  let ?k1 = "upd_op a (\<lambda>_. opr) ?k0"
  let ?k2 = "upd_sched (task_current k) (\<lambda>t. t\<lparr>st_block_object := Null\<rparr>) ?k1"
  have i0: "aio_inv ?k0" by (rule upd_cb_inv [OF inv apart])
  have i1: "aio_inv ?k1" unfolding upd_op_def
    by (rule upd_cb_inv [OF i0]) (use apart in \<open>simp add: suspended_trunc [OF trunc_upd_cb(1)]\<close>)
  have s1: "suspended ?k1 = suspended k" by (simp only: suspended_trunc [OF trunc_upd_cb(1)] suspended_trunc [OF trunc_upd_cb(2)])
  have nc: "\<not> suspended k (task_current k)" using inv me by (auto simp: aio_inv_def waits_def)
  have s2: "suspended ?k2 i \<longleftrightarrow> suspended k i" for i
    unfolding s1 [symmetric] by (simp add: suspended_def sched_asserted_def)
  have sp: "spares ?k1 ?k2" unfolding spares_def s1 using s2 nc by auto
  have i2: "aio_inv ?k2" by (rule spares_inv [OF i1 sp])
  have na: "not_awaited ?k2 a t" for t using apart s2 nc by (auto simp: not_awaited_def)
  have cur: "task_current ?k0 = task_current k" by simp
  have e: "Some (r, k') = (if ret = 0 then Some (0, ?k2) else if ret < 0 then Some (aio_err EIO ?k2)
      else do { k3 \<leftarrow> aio_data_transfer_callback stack a ?k2; Some (0, k3) })"
    unfolding f [symmetric] priv_device_data_transfer_def d prod.case Let_def cur ..
  define k2 where "k2 = ?k2"
  note e = e [folded k2_def]
  consider "k' = k2" | "k' = k2\<lparr>ak_errno := EIO\<rparr>" | "aio_data_transfer_callback stack a k2 = Some k'"
  proof (cases ret "0 :: int" rule: linorder_cases)
    case less
    then have n: "(ret = 0) = False" "(ret < 0) = True" by auto
    from e [unfolded n if_True if_False] show thesis by (intro that(2)) (simp add: aio_err_def)
  next
    case equal
    from e [unfolded equal] show thesis by (intro that(1)) simp
  next
    case greater
    then have n: "(ret = 0) = False" "(ret < 0) = False" by auto
    show thesis using e [unfolded n if_False] that(3) by (cases "aio_data_transfer_callback stack a k2") simp_all
  qed
  then show ?thesis
  proof cases
    case 2
    show ?thesis unfolding 2 by (rule spares_inv [OF i2 [folded k2_def] spares_same]) simp_all
  next
    case 3
    from callback_inv [OF i2 [folded k2_def] this na [folded k2_def]] show ?thesis .
  qed (simp add: i2 [folded k2_def])
qed

subsection \<open>Suspending\<close>

lemma timedblock_entries:
  "sched_table (sched_priv_timedblock (Addr p) tv k) j
     = (if j = task_current k then sched_table (sched_priv_timedblock (Addr p) tv k) (task_current k) else sched_table k j)"
  "task_total (sched_priv_timedblock (Addr p) tv k) = task_total k"
  "task_enabled (sched_priv_timedblock (Addr p) tv k) i = task_enabled k i"
  "\<not> sched_active_asserted (sched_priv_timedblock (Addr p) tv k) (task_current k)"
  "st_block_object (sched_table (sched_priv_timedblock (Addr p) tv k) (task_current k)) = Addr p"
  by (auto simp: sched_priv_timedblock_def sched_priv_update_on_sleep_def split_beta sched_priv_deassert_active_def sched_priv_deassert_def
    sched_asserted_def)

lemma suspend_inv:
  assumes inv: "aio_inv k" and me: "sched_active_asserted k (task_current k)" and own: "owns k (task_current k) es"
    and fresh: "\<And>j. suspended k j \<Longrightarrow> st_block_object (sched_table k j) \<noteq> Addr p"
  shows "aio_inv (snd (suspend p es timeout on_all k))"
proof -
  let ?x = "\<lparr>sp_list = es, sp_block_on_all = on_all\<rparr>" and ?tv = "sched_convert_timespec timeout" and ?c = "task_current k"
  let ?k1 = "k\<lparr>ak_args := (ak_args k)(p := ?x)\<rparr>"
  let ?k2 = "sched_priv_assert ?c SCHED_AIOSUSPEND ?k1"
  let ?k3 = "sched_priv_timedblock (Addr p) ?tv ?k2"
  have nc: "\<not> suspended k ?c" using inv me by (auto simp: aio_inv_def waits_def)
  have w1: "waits k' i" if "suspended k i" "ak_cb k' = ak_cb k" "ak_args k' = (ak_args k)(p := ?x)" "sched_table k' i = sched_table k i" for k' i
  proof -
    from inv that(1) obtain q where q: "\<not> sched_active_asserted k i" "st_block_object (sched_table k i) = Addr q"
      "owns k i (sp_list (ak_args k q))" "must_wait k (ak_args k q)" by (auto simp: aio_inv_def waits_def)
    have "q \<noteq> p" using fresh [OF that(1)] q(2) by auto
    then show ?thesis using q that unfolding waits_def
      by (intro conjI exI [of _ q]) (simp_all add: sched_asserted_def owns_def must_wait_def in_progress_cong [OF that(2)])
  qed
  show ?thesis
  proof (cases "must_wait k ?x")
    case False
    then have "snd (suspend p es timeout on_all k) = ?k1"
      by (simp add: suspend_def priv_suspend_def Let_def suspend_loop_must_wait)
    then show ?thesis using w1 [of _ ?k1] by (simp add: aio_inv_def suspended_trunc [OF trunc_upd_cb(3)])
  next
    case True
    define k3 where "k3 = ?k3"
    have r: "snd (suspend p es timeout on_all k) = k3"
      using True by (simp add: suspend_def priv_suspend_def Let_def suspend_loop_must_wait k3_def)
    have c2: "task_current ?k2 = ?c" by (simp add: sched_priv_assert_def)
    have g: "ak_cb ?k2 = ak_cb k" "ak_args ?k2 = (ak_args k)(p := ?x)" by (simp_all add: sched_priv_assert_def)
    have f: "ak_cb k3 = ak_cb k" "ak_args k3 = (ak_args k)(p := ?x)" by (simp_all add: g k3_def)
    note t = timedblock_entries [of p ?tv ?k2, unfolded c2, folded k3_def]
    have o: "sched_table k3 i = sched_table k i" if "i \<noteq> ?c" for i using t(1) [of i] that by (simp add: sched_priv_assert_def)
    have "waits k3 i" if s: "suspended k3 i" for i
    proof (cases "i = ?c")
      case False
      then have "suspended k i" using s o [OF False] t(2,3) by (simp add: suspended_def sched_asserted_def sched_priv_assert_def)
      then show ?thesis by (rule w1 [OF _ f o [OF False]])
    next
      case True
      show ?thesis unfolding waits_def True
        using t(4,5) own \<open>must_wait k ?x\<close>
        by (intro conjI exI [of _ p]) (auto simp: f owns_def must_wait_def in_progress_cong [OF f(1)] split: if_splits)
    qed
    then show ?thesis unfolding r by (simp add: aio_inv_def)
  qed
qed

lemma timedblock_asserted:
  "sched_asserted SCHED_AIOSUSPEND (sched_priv_timedblock (Addr p) tv k) i = sched_asserted SCHED_AIOSUSPEND k i"
  by (simp add: sched_priv_timedblock_def sched_priv_update_on_sleep_def split_beta)
    (simp add: sched_priv_update_on_stopped_def sched_asserted_def Let_def)

lemma suspend_sleeps:
  assumes w: "must_wait k \<lparr>sp_list = es, sp_block_on_all = on_all\<rparr>" and c: "task_current k < task_total k" "task_enabled k (task_current k)"
  obtains k' where "suspend p es timeout on_all k = (None, k')" "suspended k' (task_current k)" "\<not> sched_active_asserted k' (task_current k)"
    "st_block_object (sched_table k' (task_current k)) = Addr p" "ak_args k' p = \<lparr>sp_list = es, sp_block_on_all = on_all\<rparr>" "ak_cb k' = ak_cb k"
proof -
  let ?x = "\<lparr>sp_list = es, sp_block_on_all = on_all\<rparr>" and ?tv = "sched_convert_timespec timeout" and ?c = "task_current k"
  let ?k2 = "sched_priv_assert ?c SCHED_AIOSUSPEND (k\<lparr>ak_args := (ak_args k)(p := ?x)\<rparr>)"
  have c2: "task_current ?k2 = ?c" "task_total ?k2 = task_total k" "task_enabled ?k2 ?c = task_enabled k ?c"
    "ak_cb ?k2 = ak_cb k" "ak_args ?k2 p = ?x" by (simp_all add: sched_priv_assert_def)
  have f: "sched_asserted SCHED_AIOSUSPEND ?k2 ?c" by (simp add: sched_priv_assert_def sched_asserted_def)
  note t = timedblock_entries [of p ?tv ?k2, unfolded c2(1)]
  have "suspend p es timeout on_all k = (None, sched_priv_timedblock (Addr p) ?tv ?k2)"
    using w by (simp add: suspend_def priv_suspend_def Let_def suspend_loop_must_wait)
  then show thesis
    by (rule that) (use t(2,4,5) t(3) [of ?c] c c2 f in \<open>simp_all add: suspended_def timedblock_asserted\<close>)
qed

subsection \<open>Reachable states\<close>

text \<open>
  A task that calls is active. It starts transfers no suspended task has in its list and suspends on its own, its arguments
  being apart from those of the suspended tasks. A driver that completes a transfer has stored the count in \<open>op\<close>. Anything else
  may wake suspended tasks but leaves the transfers alone.
\<close>

inductive aio_reach :: "'z aio_kernel_scheme \<Rightarrow> bool" where
  ar_init: "(\<And>i. \<not> suspended k i) \<Longrightarrow> aio_reach k"
| ar_transfer: "aio_reach k \<Longrightarrow> sched_active_asserted k (task_current k)
    \<Longrightarrow> (\<And>i p. suspended k i \<Longrightarrow> st_block_object (sched_table k i) = Addr p \<Longrightarrow> Some a \<notin> set (sp_list (ak_args k p)))
    \<Longrightarrow> aio_data_transfer stack drv a (upd_cb a (\<lambda>c. c\<lparr>aio_lio_opcode := op\<rparr>) k) = Some (r, k') \<Longrightarrow> aio_reach k'"
| ar_suspend: "aio_reach k \<Longrightarrow> sched_active_asserted k (task_current k) \<Longrightarrow> owns k (task_current k) es
    \<Longrightarrow> (\<And>j. suspended k j \<Longrightarrow> st_block_object (sched_table k j) \<noteq> Addr p)
    \<Longrightarrow> suspend p es timeout on_all k = (r, k') \<Longrightarrow> aio_reach k'"
| ar_complete: "aio_reach k \<Longrightarrow> in_progress k a
    \<Longrightarrow> aio_data_transfer_callback stack a (upd_op a (\<lambda>x. x\<lparr>op_nbyte := n\<rparr>) k) = Some k' \<Longrightarrow> aio_reach k'"
| ar_timer: "aio_reach k \<Longrightarrow> aio_reach (priv_usecond_match_event k)"
| ar_other: "aio_reach k \<Longrightarrow> spares k k' \<Longrightarrow> aio_reach k'"

lemma count_inv: "aio_inv k \<Longrightarrow> aio_inv (upd_op a (\<lambda>x. x\<lparr>op_nbyte := n\<rparr>) k)"
proof -
  let ?k = "upd_op a (\<lambda>x. x\<lparr>op_nbyte := n\<rparr>) k"
  assume inv: "aio_inv k"
  have ip: "in_progress ?k = in_progress k" by (rule ext) (simp add: in_progress_def)
  have tid: "op_tid (aio_opr (ak_cb ?k b)) = op_tid (aio_opr (ak_cb k b))" for b by simp
  have "owns ?k i es = owns k i es" "must_wait ?k x = must_wait k x" for i es x by (simp_all only: owns_def must_wait_def ip tid)
  then have "waits ?k i = waits k i" for i by (simp add: waits_def)
  then show ?thesis using inv by (simp add: aio_inv_def suspended_trunc [OF trunc_upd_cb(2)])
qed

lemma in_progress_awaited: "aio_inv k \<Longrightarrow> in_progress k a \<Longrightarrow> not_awaited k a (op_tid (aio_opr (ak_cb k a)))"
  by (auto simp: aio_inv_def waits_def owns_def not_awaited_def)

lemma aio_reach_inv: "aio_reach k \<Longrightarrow> aio_inv k"
proof (induction rule: aio_reach.induct)
  case (ar_transfer k a stack drv op r k')
  show ?case
    by (rule transfer_inv [OF upd_cb_inv [OF ar_transfer.IH ar_transfer.hyps(3)] _ _ ar_transfer.hyps(4)])
      (use ar_transfer.hyps(2,3) in \<open>simp_all add: suspended_trunc [OF trunc_upd_cb(1)]\<close>)
next
  case (ar_suspend k es p timeout on_all r k')
  from suspend_inv [OF ar_suspend.IH ar_suspend.hyps(2-4), of timeout on_all] ar_suspend.hyps(5) show ?case by simp
next
  case (ar_complete k a stack n k')
  have "not_awaited (upd_op a (\<lambda>x. x\<lparr>op_nbyte := n\<rparr>) k) a (op_tid (aio_opr (ak_cb (upd_op a (\<lambda>x. x\<lparr>op_nbyte := n\<rparr>) k) a)))"
    by (rule in_progress_awaited [OF count_inv [OF ar_complete.IH]]) (use ar_complete.hyps(2) in \<open>simp add: in_progress_def\<close>)
  from callback_inv [OF count_inv [OF ar_complete.IH] ar_complete.hyps(3) this] show ?case .
next
  case (ar_timer k)
  then show ?case by (blast intro: spares_inv match_spares)
next
  case (ar_other k k')
  then show ?case by (blast intro: spares_inv)
qed (simp add: aio_inv_def)

text \<open>A null entry in the list of a suspended \<open>lio_listio\<close> is read through by the first completion.\<close>

lemma null_entry_faults:
  assumes "suspended k (op_tid (aio_opr (ak_cb k a)))" "st_block_object (sched_table k (op_tid (aio_opr (ak_cb k a)))) = Addr p"
    and "sp_block_on_all (ak_args k p)" "None \<in> set (sp_list (ak_args k p))"
  shows "aio_data_transfer_callback stack a k = None"
proof -
  let ?i = "op_tid (aio_opr (ak_cb k a))"
  have "callback_wakes ?i a (completed a k) = None" using assms(2-4) by (simp add: callback_wakes_def all_complete_None)
  moreover have "?i < task_total k" "task_enabled k ?i" "sched_asserted SCHED_AIOSUSPEND (completed a k) ?i"
    using assms(1) by (simp_all add: suspended_def completed_def)
  ultimately show ?thesis by (simp add: callback_eq Let_def)
qed

subsection \<open>Properties\<close>

text \<open>Three tasks; task 1 runs. The driver leaves a transfer in progress.\<close>

definition demo_cb :: aiocb where
  "demo_cb = \<lparr>aio_fildes = 3, aio_offset = 0, aio_buf = 0x10000400, aio_nbytes = 16, sigev_notify = SIGEV_NONE, sigev_signo = 0,
     sigev_value = 0, aio_lio_opcode = 0, aio_opr = \<lparr>op_tid = 0, op_loc = 0, op_buf = 0, op_nbyte = 0\<rparr>\<rparr>"

definition demo_aio :: aio_kernel where
  "demo_aio = kernel.extend demo_pair \<lparr>ak_cb = (\<lambda>_. demo_cb), ak_args = (\<lambda>_. \<lparr>sp_list = [], sp_block_on_all = False\<rparr>),
     ak_errno = ENOERR, ak_frames = []\<rparr>"

lemma demo_aio_kernel: "kernel.truncate demo_aio = kernel.truncate demo_pair"
  by (simp add: demo_aio_def)

lemma demo_aio_sel:
  "task_total demo_aio = 3" "task_current demo_aio = 1" "task_enabled demo_aio i" "sched_active_asserted demo_aio i"
  "\<not> sched_asserted SCHED_AIOSUSPEND demo_aio i" "ak_cb demo_aio a = demo_cb"
proof -
  show "\<not> sched_asserted SCHED_AIOSUSPEND demo_aio i"
    unfolding trunc_same(2) [OF demo_aio_kernel]
    by (simp add: sched_asserted_def demo_pair_def demo_start_def idle_entry_def bit_numeral_rec)
  show "ak_cb demo_aio a = demo_cb" by (simp add: demo_aio_def kernel.extend_def)
qed (simp_all add: trunc_fields [OF demo_aio_kernel] trunc_same [OF demo_aio_kernel] demo_pair_sel)

definition demo_read :: "nat \<Rightarrow> aio_kernel" where
  "demo_read a = upd_sched 1 (\<lambda>t. t\<lparr>st_block_object := Null\<rparr>) (upd_cb a (\<lambda>c. c\<lparr>aio_lio_opcode := LIO_READ, aio_nbytes := -1,
     aio_opr := \<lparr>op_tid = 1, op_loc = 0, op_buf = 0x10000400, op_nbyte = 16\<rparr>\<rparr>) demo_aio)"

lemma demo_read_run: "aio_read stack (\<lambda>rd fd opr. (0, opr)) a demo_aio = Some (0, demo_read a)"
  by (simp add: aio_read_def aio_data_transfer_def priv_device_data_transfer_def demo_aio_sel demo_cb_def Let_def demo_read_def
    upd_op_def upd_cb_def)

lemma demo_read_sel:
  "task_total (demo_read a) = 3" "task_current (demo_read a) = 1" "task_enabled (demo_read a) i" "sched_active_asserted (demo_read a) i"
  "in_progress (demo_read a) a" "op_tid (aio_opr (ak_cb (demo_read a) a)) = 1" "sigev_notify (ak_cb (demo_read a) a) = SIGEV_NONE"
  "\<not> suspended (demo_read a) i"
  using demo_aio_sel(4,5) [of i] demo_aio_sel(4,5) [of 1]
  by (simp_all add: demo_read_def demo_aio_sel in_progress_def demo_cb_def suspended_def sched_asserted_def)

lemma demo_read_reach: "aio_reach (demo_read a)"
proof -
  have i: "aio_reach demo_aio" by (rule ar_init) (simp add: suspended_def demo_aio_sel)
  show ?thesis
    by (rule ar_transfer [OF i _ _ demo_read_run [of "\<lambda>_. True" a, unfolded aio_read_def]]) (simp_all add: demo_aio_sel suspended_def)
qed

text \<open>Task 1 has started a read and waits for it.\<close>

lemma demo_waits:
  obtains k where "aio_suspend 9 [Some 5] None (demo_read 5) = (None, k)" "aio_reach k" "suspended k 1"
    "st_block_object (sched_table k 1) = Addr 9" "ak_args k 9 = \<lparr>sp_list = [Some 5], sp_block_on_all = False\<rparr>" "in_progress k 5"
    "op_tid (aio_opr (ak_cb k 5)) = 1" "sigev_notify (ak_cb k 5) = SIGEV_NONE"
proof -
  have w: "must_wait (demo_read 5) \<lparr>sp_list = [Some 5], sp_block_on_all = False\<rparr>" by (simp add: must_wait_def demo_read_sel)
  obtain k where k: "suspend 9 [Some 5] None False (demo_read 5) = (None, k)" "suspended k 1" "st_block_object (sched_table k 1) = Addr 9"
    "ak_args k 9 = \<lparr>sp_list = [Some 5], sp_block_on_all = False\<rparr>" "ak_cb k = ak_cb (demo_read 5)"
    by (rule suspend_sleeps [OF w]) (simp_all add: demo_read_sel)
  have "aio_reach k"
    by (rule ar_suspend [OF demo_read_reach _ _ _ k(1)]) (simp_all add: demo_read_sel owns_def)
  then show thesis
    using that [of k] k demo_read_sel [of 5] by (simp add: aio_suspend_def in_progress_def)
qed

text \<open>
  C29: No wake-up is lost: in every reachable state a task that is suspended in \<open>aio_suspend\<close> or \<open>lio_listio\<close> still has to
  wait. Every transfer of its list is in progress, or, in \<open>lio_listio\<close>, at least one of them is. This holds for every
  order of calls, completions, time-outs and signals, also when a completion comes between the calls that start the
  transfers and the one that waits, as long as a task waits only for transfers it has started itself.
\<close>

theorem aio_no_lost_wakeup:
  assumes "aio_reach k" and "suspended k i"
  shows "\<exists>p. st_block_object (sched_table k i) = Addr p \<and> \<not> sched_active_asserted k i
    \<and> (if sp_block_on_all (ak_args k p) then \<exists>a. Some a \<in> set (sp_list (ak_args k p)) \<and> in_progress k a
       else \<forall>a. Some a \<in> set (sp_list (ak_args k p)) \<longrightarrow> in_progress k a)"
  using aio_reach_inv [OF assms(1)] assms(2) unfolding aio_inv_def waits_def must_wait_def by blast

theorem aio_no_lost_wakeup_witness:
  "\<exists>k. aio_suspend 9 [Some 5] None (demo_read 5) = (None, k) \<and> suspended k 1 \<and> in_progress k 5 \<and> \<not> sched_active_asserted k 1"
proof -
  obtain k where k: "aio_suspend 9 [Some 5] None (demo_read 5) = (None, k)" "aio_reach k" "suspended k 1"
    "st_block_object (sched_table k 1) = Addr 9" "ak_args k 9 = \<lparr>sp_list = [Some 5], sp_block_on_all = False\<rparr>" "in_progress k 5"
    by (rule demo_waits)
  from aio_no_lost_wakeup [OF k(2,3)] k show ?thesis by auto
qed

text \<open>
  C30: When a transfer in progress completes, the callback decides about the task that has suspended on a list with it.
  In \<open>aio_suspend\<close> it wakes the task; in \<open>lio_listio\<close>, on a list without null entries, it wakes the task when no
  other transfer of the list is in progress, and otherwise leaves it suspended, unless the transfer's own signal is to
  be sent. The transfer is no longer in progress and \<open>aio_return\<close> gives the count that the driver stored. But
  \<open>aio_error\<close> is 0 also when that count is a negative error, as the callback clears the field it reads; and without
  a signal the resumed call returns what its argument structure happened to hold, where 0 is documented.
\<close>

theorem aio_completion_wakes:
  assumes "aio_reach k" "suspended k i" "st_block_object (sched_table k i) = Addr p" "in_progress k a"
    and "Some a \<in> set (sp_list (ak_args k p))" "sp_block_on_all (ak_args k p) \<Longrightarrow> None \<notin> set (sp_list (ak_args k p))"
  shows "\<exists>k'. aio_data_transfer_callback stack a (upd_op a (\<lambda>x. x\<lparr>op_nbyte := n\<rparr>) k) = Some k'
    \<and> aio_error k' a = Inr 0 \<and> aio_return k' a = sint (word_of_int n :: u32)
    \<and> (if sp_block_on_all (ak_args k p) \<and> (\<exists>b. b \<noteq> a \<and> Some b \<in> set (sp_list (ak_args k p)) \<and> in_progress k b)
       then sigev_notify (ak_cb k a) \<noteq> SIGEV_SIGNAL \<longrightarrow> suspended k' i
       else sched_active_asserted k' i \<and> \<not> suspended k' i
         \<and> (sigev_notify (ak_cb k a) \<noteq> SIGEV_SIGNAL \<and> task_current k' = i \<longrightarrow> suspend_resume ret k' = (ret, k')))"
proof -
  from aio_reach_inv [OF assms(1)] assms(2,3) have "owns k i (sp_list (ak_args k p))" by (auto simp: aio_inv_def waits_def)
  then have tid: "op_tid (aio_opr (ak_cb k a)) = i" using assms(4,5) by (auto simp: owns_def)
  let ?m = "upd_op a (\<lambda>x. x\<lparr>op_nbyte := n\<rparr>) k" and ?sig = "sigev_notify (ak_cb k a) = SIGEV_SIGNAL"
  let ?k = "completed a ?m" and ?x = "ak_args k p"
  have ip: "in_progress ?m b = in_progress k b" for b by (simp add: in_progress_def)
  have s: "suspended ?k i" "i < task_total ?k" "task_enabled ?k i" "sched_asserted SCHED_AIOSUSPEND ?k i"
    using assms(2) by (simp_all add: suspended_trunc [OF trunc_upd_cb(2)] suspended_def completed_def)
  define w where "w \<longleftrightarrow> \<not> (sp_block_on_all ?x \<and> (\<exists>b. b \<noteq> a \<and> Some b \<in> set (sp_list ?x) \<and> in_progress k b))"
  have dec: "callback_wakes i a ?k = Some w"
    using assms(3,5) all_complete_value [OF assms(6), of ?k True] by (auto simp: callback_wakes_def w_def ip)
  define k2 where "k2 = (if w then wake_aio i ?k else ?k)"
  define k' where "k' = (if ?sig then snd (signal_priv_send stack 0 i (sigev_signo (ak_cb ?k a)) SI_ASYNCIO (sigev_value (ak_cb ?k a)) True k2) else k2)"
  have "sigev_notify (ak_cb ?k a) = sigev_notify (ak_cb k a)" "op_tid (aio_opr (ak_cb ?k a)) = i" using tid by (simp_all add: completed_def)
  then have r: "aio_data_transfer_callback stack a ?m = Some k'"
    using s dec unfolding callback_eq Let_def k'_def k2_def by simp
  have sp: "spares ?k k2" "spares k2 k'" by (simp_all add: k2_def k'_def wake_spares signal_spares)
  then have cb: "ak_cb k' = ak_cb ?k" by (simp add: spares_def)
  have "aio_error k' a = Inr 0" "aio_return k' a = sint (word_of_int n :: u32)"
    using in_progress_cong [OF cb] by (simp_all add: aio_error_def aio_return_def cb)
  moreover have "sched_active_asserted k' i \<and> \<not> suspended k' i \<and> (\<not> ?sig \<and> task_current k' = i \<longrightarrow> suspend_resume ret k' = (ret, k'))" if w
  proof -
    have "sched_active_asserted k2 i" "\<not> suspended k2 i" using that wake_spares(2) [of i ?k] by (simp_all add: k2_def)
    then have "sched_active_asserted k' i" "\<not> suspended k' i" using sp(2) by (auto simp: k'_def signal_keeps_active spares_def)
    moreover have "suspend_resume ret k' = (ret, k')" if "\<not> ?sig" "task_current k' = i"
      using that \<open>w\<close> by (simp add: k'_def k2_def suspend_resume_def)
    ultimately show ?thesis by blast
  qed
  moreover have "\<not> ?sig \<longrightarrow> suspended k' i" if "\<not> w" using that s(1) by (simp add: k'_def k2_def)
  moreover have "(sp_block_on_all ?x \<and> (\<exists>b. b \<noteq> a \<and> Some b \<in> set (sp_list ?x) \<and> in_progress k b)) = (\<not> w)" unfolding w_def by blast
  ultimately show ?thesis using r by (intro exI [of _ k']) (simp only:, cases w; simp)
qed

theorem aio_completion_wakes_witness:
  "\<exists>k k'. aio_suspend 9 [Some 5] None (demo_read 5) = (None, k)
     \<and> aio_data_transfer_callback (\<lambda>_. True) 5 (upd_op 5 (\<lambda>x. x\<lparr>op_nbyte := -5\<rparr>) k) = Some k'
     \<and> sched_active_asserted k' 1 \<and> aio_error k' 5 = Inr 0 \<and> aio_return k' 5 = -5"
proof -
  obtain k where k: "aio_suspend 9 [Some 5] None (demo_read 5) = (None, k)" "aio_reach k" "suspended k 1"
    "st_block_object (sched_table k 1) = Addr 9" "ak_args k 9 = \<lparr>sp_list = [Some 5], sp_block_on_all = False\<rparr>"
    "in_progress k 5" by (rule demo_waits)
  from aio_completion_wakes [OF k(2-4,6), of "\<lambda>_. True" "-5"] k show ?thesis by auto
qed

text \<open>
  C31: A transfer that the driver refuses is reported by \<open>aio_read\<close>, with EIO, but its control block stays in the state
  of a running transfer: \<open>aio_error\<close> answers EINPROGRESS and \<open>aio_return\<close> -1, and \<open>aio_suspend\<close> switches the task out to wait
  for a completion that no driver will report.
\<close>

theorem aio_refused_stays_in_progress:
  assumes "\<And>fd x. fst (drv True fd x) < 0" "\<And>fd x. op_buf (snd (drv True fd x)) = op_buf x" "aio_buf (ak_cb k a) \<noteq> 0"
    and "task_current k < task_total k" "task_enabled k (task_current k)"
  shows "\<exists>k1 k2. aio_read stack drv a k = Some (-1, k1) \<and> ak_errno k1 = EIO \<and> aio_error k1 a = Inl EINPROGRESS \<and> aio_return k1 a = -1
    \<and> aio_suspend p [Some a] timeout k1 = (None, k2) \<and> suspended k2 (task_current k)"
proof -
  let ?op = "\<lparr>op_tid = task_current k, op_loc = aio_offset (ak_cb k a), op_buf = aio_buf (ak_cb k a), op_nbyte = sint (aio_nbytes (ak_cb k a))\<rparr>"
  obtain ret opr where d: "drv True (aio_fildes (ak_cb k a)) ?op = (ret, opr)" by (metis prod.exhaust)
  have r: "ret < 0" "op_buf opr = aio_buf (ak_cb k a)" using assms(1) [of "aio_fildes (ak_cb k a)" ?op] assms(2) [of "aio_fildes (ak_cb k a)" ?op] d by simp_all
  obtain k1 where k1: "aio_read stack drv a k = Some (-1, k1)" "ak_errno k1 = EIO" "op_buf (aio_opr (ak_cb k1 a)) = aio_buf (ak_cb k a)"
    "task_current k1 = task_current k" "task_total k1 = task_total k" "task_enabled k1 i = task_enabled k i" for i
    using d r by (simp add: aio_read_def aio_data_transfer_def priv_device_data_transfer_def Let_def aio_err_def)
  have ip: "in_progress k1 a" using k1(3) assms(3) by (simp add: in_progress_def)
  have w: "must_wait k1 \<lparr>sp_list = [Some a], sp_block_on_all = False\<rparr>" using ip by (simp add: must_wait_def)
  obtain k2 where "suspend p [Some a] timeout False k1 = (None, k2)" "suspended k2 (task_current k1)"
    by (rule suspend_sleeps [OF w]) (use assms(4,5) k1 in simp_all)
  then show ?thesis using k1 ip by (auto simp: aio_error_def aio_return_def aio_suspend_def)
qed

theorem aio_refused_stays_in_progress_witness:
  "\<exists>k1 k2. aio_read (\<lambda>_. True) (\<lambda>rd fd x. (-1, x)) 5 demo_aio = Some (-1, k1) \<and> ak_errno k1 = EIO \<and> aio_error k1 5 = Inl EINPROGRESS
     \<and> aio_suspend 9 [Some 5] None k1 = (None, k2) \<and> suspended k2 1"
  using aio_refused_stays_in_progress [of "\<lambda>rd fd x. (-1, x)" demo_aio 5 "\<lambda>_. True" 9 None]
  by (auto simp: demo_aio_sel demo_cb_def)

end
