(* ===== verification/Sysfs.thy ===== *)
theory Sysfs
  imports Prelude "HOL-Library.Monad_Syntax"
begin

unbundle bit_operations_syntax

section \<open>File systems and paths (sys/sysfs/sysfs.c, include/sysfs.h)\<close>

text \<open>
  The table of the mounted file systems and the functions that take a path to one of them. A file system
  is a record of its operations, as in the code; the operations act on a state of any type \<open>'w\<close> and on the
  error number. \<open>None\<close> is an operation that does not return. The state \<open>cfg\<close> points to is part of \<open>'w\<close>.

  A path that a caller passes is the memory from its first character on, which holds a NUL somewhere;
  \<open>c_str\<close> is the string in it.
\<close>

record 'w sys =
  sys_errno :: errno
  sys_world :: 'w

definition set_errno :: "errno \<Rightarrow> 'w sys \<Rightarrow> 'w sys" where
  "set_errno e s = s\<lparr>sys_errno := e\<rparr>"

text \<open>The flags of an open file, and the part of \<open>struct stat\<close> the system calls look at.\<close>

datatype acc = RDONLY | WRONLY | RDWR | ACC_OTHER

record flags =
  fl_acc :: acc
  fl_creat :: bool
  fl_excl :: bool
  fl_trunc :: bool
  fl_append :: bool
  fl_nonblock :: bool

record stat_t =
  st_mode :: u32
  st_uid :: u32
  st_gid :: u32
  st_size :: int
  st_ino :: u32

text \<open>The request of a control call with its argument: a pointer, or the action that removes a callback.\<close>

datatype ctl = Ctl int u32 | Ctl_SetAction_None

text \<open>
  One transfer to or from a device: what the driver returned, the byte count left in the transfer when the task runs
  again, whether a signal woke it, the bytes read and the state then.
\<close>

record 'w turn =
  tn_by_signal :: bool
  tn_ret :: int
  tn_nbyte :: int
  tn_bytes :: "byte list"
  tn_sys :: "'w sys"

text \<open>
  An operation that stores through a \<open>void **\<close> returns the pointer afterwards; \<open>fs_transfer\<close> stands for
  \<open>priv_read\<close> (\<open>True\<close>) and \<open>priv_write\<close> with the blocking of the caller. An optional operation may be NULL.
\<close>

record 'w sysfs =
  mount_path :: string
  fs_access :: u32
  fs_mkfs :: "'w sys \<Rightarrow> (int \<times> 'w sys) option"
  fs_open :: "u32 \<Rightarrow> string \<Rightarrow> flags \<Rightarrow> u32 \<Rightarrow> 'w sys \<Rightarrow> (int \<times> u32 \<times> 'w sys) option"
  fs_transfer :: "(bool \<Rightarrow> u32 \<Rightarrow> int \<Rightarrow> flags \<Rightarrow> byte list \<Rightarrow> int \<Rightarrow> 'w sys \<Rightarrow> 'w turn option) option"
  fs_ioctl :: "(u32 \<Rightarrow> ctl \<Rightarrow> 'w sys \<Rightarrow> (int \<times> 'w sys) option) option"
  fs_read :: "u32 \<Rightarrow> flags \<Rightarrow> int \<Rightarrow> int \<Rightarrow> 'w sys \<Rightarrow> (int \<times> byte list \<times> 'w sys) option"
  fs_write :: "u32 \<Rightarrow> flags \<Rightarrow> int \<Rightarrow> byte list \<Rightarrow> int \<Rightarrow> 'w sys \<Rightarrow> (int \<times> 'w sys) option"
  fs_close :: "u32 \<Rightarrow> 'w sys \<Rightarrow> (int \<times> u32 \<times> 'w sys) option"
  fs_fstat :: "u32 \<Rightarrow> stat_t \<Rightarrow> 'w sys \<Rightarrow> (int \<times> stat_t \<times> 'w sys) option"
  fs_stat :: "string \<Rightarrow> stat_t \<Rightarrow> 'w sys \<Rightarrow> (int \<times> stat_t \<times> 'w sys) option"
  fs_lstat :: "string \<Rightarrow> stat_t \<Rightarrow> 'w sys \<Rightarrow> (int \<times> stat_t \<times> 'w sys) option"
  fs_rename :: "string \<Rightarrow> string \<Rightarrow> 'w sys \<Rightarrow> (int \<times> 'w sys) option"
  fs_link :: "string \<Rightarrow> string \<Rightarrow> 'w sys \<Rightarrow> (int \<times> 'w sys) option"
  fs_symlink :: "string \<Rightarrow> string \<Rightarrow> 'w sys \<Rightarrow> (int \<times> 'w sys) option"
  fs_unlink :: "string \<Rightarrow> 'w sys \<Rightarrow> (int \<times> 'w sys) option"
  fs_rmdir :: "string \<Rightarrow> 'w sys \<Rightarrow> (int \<times> 'w sys) option"
  fs_mkdir :: "string \<Rightarrow> u32 \<Rightarrow> 'w sys \<Rightarrow> (int \<times> 'w sys) option"
  fs_chmod :: "string \<Rightarrow> u32 \<Rightarrow> 'w sys \<Rightarrow> (int \<times> 'w sys) option"
  fs_chown :: "string \<Rightarrow> u32 \<Rightarrow> u32 \<Rightarrow> 'w sys \<Rightarrow> (int \<times> 'w sys) option"
  fs_opendir :: "u32 \<Rightarrow> string \<Rightarrow> 'w sys \<Rightarrow> (int \<times> u32 \<times> 'w sys) option"
  fs_readdir_r :: "u32 \<Rightarrow> int \<Rightarrow> 'w sys \<Rightarrow> (int \<times> (u32 \<times> string) option \<times> 'w sys) option"
  fs_closedir :: "u32 \<Rightarrow> 'w sys \<Rightarrow> (int \<times> 'w sys) option"

text \<open>
  What is fixed for a program: \<open>sysfs_list\<close> without its terminator, the limits of the C library, the names of the
  standard devices and the numbers of the standard streams.
\<close>

record 'w config =
  sysfs_list :: "'w sysfs list"
  path_max :: nat
  name_max :: nat
  stdin_dev :: string
  stdout_dev :: string
  stderr_dev :: string
  stdio_filenos :: "int list"

subsection \<open>Paths\<close>

definition sysfs_validset :: string where
  "sysfs_validset = ''abcdefghijklmnopqrstuvwxyzABCDEFGHIJKLMNOPQRSTUVWXYZ0123456789-_./''"

text \<open>\<open>strspn\<close>, and the loop of \<open>isinvalid\<close> over the memory behind \<open>p\<close>: is a part of the path too long?\<close>

definition strspn :: "string \<Rightarrow> string \<Rightarrow> nat" where
  "strspn s accept = length (takeWhile (\<lambda>c. c \<in> set accept) s)"

fun component_loop :: "nat \<Rightarrow> nat \<Rightarrow> string \<Rightarrow> bool" where
  "component_loop nmax tmp [] = False"
| "component_loop nmax tmp (c # cs) =
    (if (c = CHR ''/'' \<or> c = NUL) \<and> tmp > nmax then True
     else if c = NUL then False
     else component_loop nmax ((if c = CHR ''/'' then 0 else tmp) + 1) cs)"

definition isinvalid :: "'w config \<Rightarrow> string \<Rightarrow> nat \<Rightarrow> errno option" where
  "isinvalid g p mx =
    (let path = c_str p; len = strnlen path mx
     in if len = mx then Some ENAMETOOLONG
        else if component_loop (name_max g) 0 (tl p) then Some ENAMETOOLONG
        else if len \<noteq> strspn path sysfs_validset then Some EINVAL
        else None)"

text \<open>The result \<open>true\<close> comes with the error number it stores.\<close>

definition sysfs_ispathinvalid :: "'w config \<Rightarrow> string \<Rightarrow> errno option" where
  "sysfs_ispathinvalid g p = isinvalid g p (path_max g)"

definition sysfs_isvalidset :: "string \<Rightarrow> bool" where
  "sysfs_isvalidset path \<longleftrightarrow> length path = strspn path sysfs_validset"

fun get_filename_loop :: "string \<Rightarrow> string \<Rightarrow> nat \<Rightarrow> string \<times> nat" where
  "get_filename_loop name [] tmp = (name, tmp)"
| "get_filename_loop name (c # path) tmp =
    (if c = CHR ''/'' then get_filename_loop path path (tmp + 1) else get_filename_loop name path tmp)"

text \<open>The name behind the last slash and the number of parts.\<close>

definition sysfs_getfilename :: "string \<Rightarrow> string \<times> nat" where
  "sysfs_getfilename path = get_filename_loop path path 1"

subsection \<open>The file system of a path\<close>

fun find_loop :: "nat \<Rightarrow> string \<Rightarrow> bool \<Rightarrow> 'w sysfs list \<Rightarrow> nat option" where
  "find_loop i path needs_parent [] = None"
| "find_loop i path needs_parent (f # fs) =
    (let pathlen = length path; mountlen = length (mount_path f)
     in if strncmp_eq mountlen path (mount_path f) then
          (if needs_parent then
             (if pathlen > mountlen + 1 \<or> pathlen = 1 then Some i else find_loop (i + 1) path needs_parent fs)
           else Some i)
        else find_loop (i + 1) path needs_parent fs)"

text \<open>The pointer to a file system is its index in the table.\<close>

definition sysfs_find :: "'w config \<Rightarrow> string \<Rightarrow> bool \<Rightarrow> nat option" where
  "sysfs_find g path needs_parent = find_loop 0 path needs_parent (sysfs_list g)"

definition sysfs_stripmountpath :: "'w sysfs \<Rightarrow> string \<Rightarrow> string" where
  "sysfs_stripmountpath f path =
    (let p = drop (length (mount_path f)) path
     in if p \<noteq> [] \<and> hd p = CHR ''/'' then tl p else p)"

definition mkfs :: "'w config \<Rightarrow> string \<Rightarrow> 'w sys \<Rightarrow> (int \<times> 'w sys) option" where
  "mkfs g path s =
    (case sysfs_find g path False of
      None \<Rightarrow> Some (-1, set_errno ENOENT s)
    | Some i \<Rightarrow> fs_mkfs (sysfs_list g ! i) s)"

subsection \<open>Permissions\<close>

abbreviation R_OK :: u32 where "R_OK \<equiv> 4"
abbreviation W_OK :: u32 where "W_OK \<equiv> 2"
abbreviation X_OK :: u32 where "X_OK \<equiv> 1"

definition sysfs_getamode :: "flags \<Rightarrow> u32" where
  "sysfs_getamode f =
    (let amode = (case fl_acc f of RDWR \<Rightarrow> R_OK OR W_OK | WRONLY \<Rightarrow> W_OK | RDONLY \<Rightarrow> R_OK | ACC_OTHER \<Rightarrow> 0)
     in if fl_creat f \<or> fl_trunc f then amode OR W_OK else amode)"

text \<open>The bits of one kind of access for others, the owner and the group.\<close>

definition granted_to :: "u32 \<Rightarrow> u32 \<Rightarrow> u32 \<Rightarrow> bool \<Rightarrow> bool \<Rightarrow> u32 \<Rightarrow> bool" where
  "granted_to oth usr grp is_user is_group mode \<longleftrightarrow>
     mode AND oth \<noteq> 0 \<or> (mode AND usr \<noteq> 0 \<and> is_user) \<or> (mode AND grp \<noteq> 0 \<and> is_group)"

definition access_bits :: "u32 \<Rightarrow> bool \<Rightarrow> bool \<Rightarrow> u32 \<Rightarrow> u32" where
  "access_bits mode is_user is_group amode =
    (let r = (if amode AND R_OK \<noteq> 0 \<and> granted_to 0x4 0x100 0x20 is_user is_group mode then R_OK else 0);
         w = (if amode AND W_OK \<noteq> 0 \<and> granted_to 0x2 0x80 0x10 is_user is_group mode then W_OK else 0);
         x = (if amode AND X_OK \<noteq> 0 \<and> granted_to 0x1 0x40 0x8 is_user is_group mode then X_OK else 0)
     in r OR w OR x)"

definition sysfs_access :: "u32 \<Rightarrow> u32 \<Rightarrow> u32 \<Rightarrow> u32 \<Rightarrow> u32 \<Rightarrow> u32 \<Rightarrow> int" where
  "sysfs_access euid egid mode uid gid amode =
    (if access_bits mode (uid = euid) (gid = egid) amode = amode then 0 else -1)"

text \<open>\<open>access.c\<close> has the test once more, with an error number.\<close>

definition check_permissions :: "u32 \<Rightarrow> u32 \<Rightarrow> stat_t \<Rightarrow> u32 \<Rightarrow> 'w sys \<Rightarrow> int \<times> 'w sys" where
  "check_permissions euid egid st amode s =
    (if access_bits (st_mode st) (st_uid st = euid) (st_gid st = egid) amode = amode then (0, s)
     else (-1, set_errno EACCES s))"

subsection \<open>The operations that are not supported\<close>

definition sysfs_notsup :: "'w sys \<Rightarrow> (int \<times> 'w sys) option" where
  "sysfs_notsup s = Some (-1, set_errno ENOTSUP s)"

end
