(* ===== verification/Unistd.thy ===== *)
theory Unistd
  imports Sysfs Thread
begin

section \<open>File descriptors (sys/unistd)\<close>

text \<open>
  The table of open files of a process and the system calls on paths and descriptors. A descriptor is free
  when its handle is NULL; \<open>open\<close> reserves it with the handle 1. The number of descriptors \<open>OPEN_MAX\<close> is the
  length of the table.

  A call on a device that waits is one step here: \<open>Thread\<close> models how the task is blocked and woken, and the
  operation \<open>fs_transfer\<close> stands for the privileged call together with the time until the task runs again.
  The first lines of \<open>read\<close> and \<open>write\<close>, which touch the buffer so that a bad pointer faults in the calling
  process, are left out.
\<close>

record open_file =
  f_fs :: nat
  f_handle :: u32
  f_flags :: flags
  f_loc :: int

record 'w proc =
  pr_sys :: "'w sys"
  pr_files :: "open_file list"
  pr_stdin :: int
  pr_stdout :: int
  pr_stderr :: int

definition err :: "errno \<Rightarrow> 'w proc \<Rightarrow> 'w proc" where
  "err e p = p\<lparr>pr_sys := set_errno e (pr_sys p)\<rparr>"

definition upd_file :: "nat \<Rightarrow> (open_file \<Rightarrow> open_file) \<Rightarrow> 'w proc \<Rightarrow> 'w proc" where
  "upd_file i f p = p\<lparr>pr_files := (pr_files p)[i := f (pr_files p ! i)]\<rparr>"

definition get_handle :: "nat \<Rightarrow> 'w proc \<Rightarrow> u32" where
  "get_handle i p = f_handle (pr_files p ! i)"

definition get_fs :: "'w config \<Rightarrow> nat \<Rightarrow> 'w proc \<Rightarrow> 'w sysfs" where
  "get_fs g i p = sysfs_list g ! f_fs (pr_files p ! i)"

definition set_loc :: "nat \<Rightarrow> int \<Rightarrow> 'w proc \<Rightarrow> 'w proc" where
  "set_loc i l = upd_file i (\<lambda>f. f\<lparr>f_loc := l\<rparr>)"

subsection \<open>Descriptors\<close>

fun new_loop :: "nat \<Rightarrow> nat \<Rightarrow> open_file list \<Rightarrow> nat option" where
  "new_loop i start [] = None"
| "new_loop i start (f # fs) = (if i \<ge> start \<and> f_handle f = 0 then Some i else new_loop (i + 1) start fs)"

definition unistd_new_open_file :: "nat \<Rightarrow> 'w proc \<Rightarrow> int \<times> 'w proc" where
  "unistd_new_open_file start p =
    (case new_loop 0 start (pr_files p) of
      Some i \<Rightarrow> (int i, upd_file i (\<lambda>f. f\<lparr>f_handle := 1\<rparr>) p)
    | None \<Rightarrow> (-1, err EMFILE p))"

definition unistd_reset_fildes :: "nat \<Rightarrow> 'w proc \<Rightarrow> 'w proc" where
  "unistd_reset_fildes i = upd_file i (\<lambda>f. f\<lparr>f_handle := 0\<rparr>)"

definition set_open_file :: "nat \<Rightarrow> nat \<Rightarrow> u32 \<Rightarrow> flags \<Rightarrow> 'w proc \<Rightarrow> 'w proc" where
  "set_open_file i fs h fl = upd_file i (\<lambda>_. \<lparr>f_fs = fs, f_handle = h, f_flags = fl, f_loc = 0\<rparr>)"

text \<open>
  \<open>_open\<close> up to the seek of \<open>O_APPEND\<close>. \<open>mode\<close> is the third argument; \<open>junk\<close> is what the local variable
  \<open>handle\<close> holds before the file system stores the handle. The formats in the mode are \<open>S_IFMT\<close>,
  \<open>S_IFDIR\<close> and \<open>S_IFREG\<close>.
\<close>

abbreviation S_IFMT :: u32 where "S_IFMT \<equiv> 0xF000"
abbreviation S_IFDIR :: u32 where "S_IFDIR \<equiv> 0x4000"
abbreviation S_IFCHR :: u32 where "S_IFCHR \<equiv> 0x2000"
abbreviation S_IFREG :: u32 where "S_IFREG \<equiv> 0x8000"

definition open_at :: "'w config \<Rightarrow> u32 \<Rightarrow> string \<Rightarrow> flags \<Rightarrow> u32 \<Rightarrow> 'w proc \<Rightarrow> (int \<times> 'w proc) option" where
  "open_at g junk name fl mode0 p =
    (case sysfs_ispathinvalid g name of
      Some e \<Rightarrow> Some (-1, err e p)
    | None \<Rightarrow>
        (case sysfs_find g (c_str name) True of
          None \<Rightarrow> Some (-1, err ENOENT p)
        | Some i \<Rightarrow>
            let (fildes, p1) = unistd_new_open_file 0 p; fs = sysfs_list g ! i
            in if fildes < 0 then Some (-1, p1)
               else if fl_creat fl \<and> mode0 AND S_IFMT = S_IFDIR then Some (-1, err EINVAL p1)
               else
                 let mode = (if fl_creat fl then (if mode0 AND S_IFMT = 0 then mode0 OR S_IFREG else mode0) else 0)
                 in do {
                   (r, handle, s) \<leftarrow> fs_open fs junk (sysfs_stripmountpath fs (c_str name)) fl mode (pr_sys p1);
                   let p2 = p1\<lparr>pr_sys := s\<rparr>;
                   Some (if r < 0 then (-1, unistd_reset_fildes (nat fildes) p2)
                         else (fildes, set_open_file (nat fildes) i handle fl p2))
                 }))"

text \<open>
  The standard streams are opened at the first use of one of their numbers, for reading and writing, so
  that no seek follows. All three numbers give the descriptor of the standard input.
\<close>

abbreviation FILDES_STDIO_FLAG :: int where "FILDES_STDIO_FLAG \<equiv> 0x0200"

definition rdwr :: flags where
  "rdwr = \<lparr>fl_acc = RDWR, fl_creat = False, fl_excl = False, fl_trunc = False, fl_append = False, fl_nonblock = False\<rparr>"

definition unistd_init_stdio :: "'w config \<Rightarrow> u32 \<Rightarrow> int \<Rightarrow> 'w proc \<Rightarrow> (int \<times> 'w proc) option" where
  "unistd_init_stdio g junk fildes p =
    (if fildes \<notin> set (stdio_filenos g) then Some (-1, err EBADF p)
     else do {
       (a, p1) \<leftarrow> open_at g junk (stdin_dev g) rdwr 0 p;
       let p1 = p1\<lparr>pr_stdin := a\<rparr>;
       (b, p2) \<leftarrow> open_at g junk (stdout_dev g) rdwr 0 p1;
       let p2 = p2\<lparr>pr_stdout := b\<rparr>;
       (c, p3) \<leftarrow> open_at g junk (stderr_dev g) rdwr 0 p2;
       let p3 = p3\<lparr>pr_stderr := c\<rparr>;
       Some (pr_stdin p3, p3)
     })"

definition unistd_fildes_is_bad :: "'w config \<Rightarrow> u32 \<Rightarrow> int \<Rightarrow> 'w proc \<Rightarrow> (int \<times> 'w proc) option" where
  "unistd_fildes_is_bad g junk fildes p =
    (if fildes < 0 then Some (-1, err EBADF p)
     else if fildes < int (length (pr_files p)) then
       Some (if get_handle (nat fildes) p AND NOT 1 \<noteq> 0 then (fildes, p) else (-1, err EBADF p))
     else if fildes AND FILDES_STDIO_FLAG \<noteq> 0 then unistd_init_stdio g junk fildes p
     else Some (-1, err EBADF p))"

text \<open>How every call on a descriptor begins: a bad one ends the call with -1.\<close>

definition on_fildes :: "'w config \<Rightarrow> u32 \<Rightarrow> int \<Rightarrow> (nat \<Rightarrow> 'w proc \<Rightarrow> (int \<times> 'a \<times> 'w proc) option) \<Rightarrow> 'a \<Rightarrow> 'w proc
    \<Rightarrow> (int \<times> 'a \<times> 'w proc) option" where
  "on_fildes g junk fildes f x p = do {
    (fd, p1) \<leftarrow> unistd_fildes_is_bad g junk fildes p;
    if fd < 0 then Some (-1, x, p1) else f (nat fd) p1
  }"

subsection \<open>Seeking\<close>

datatype whence = SEEK_SET | SEEK_CUR | SEEK_END | SEEK_OTHER

definition empty_stat :: stat_t where
  "empty_stat = \<lparr>st_mode = 0, st_uid = 0, st_gid = 0, st_size = 0, st_ino = 0\<rparr>"

text \<open>\<open>st\<close> is what the local structure holds. A failure of \<open>fstat\<close> leaves the size 0.\<close>

definition get_size :: "'w config \<Rightarrow> stat_t \<Rightarrow> nat \<Rightarrow> 'w proc \<Rightarrow> (int \<times> 'w proc) option" where
  "get_size g st i p = do {
    (_, st1, s) \<leftarrow> fs_fstat (get_fs g i p) (get_handle i p) (st\<lparr>st_size := 0\<rparr>) (pr_sys p);
    Some (st_size st1, p\<lparr>pr_sys := set_errno (sys_errno (pr_sys p)) s\<rparr>)
  }"

definition seek_from :: "'w config \<Rightarrow> stat_t \<Rightarrow> int \<Rightarrow> whence \<Rightarrow> nat \<Rightarrow> 'w proc \<Rightarrow> (int \<times> unit \<times> 'w proc) option" where
  "seek_from g st offset whence i p =
    (case whence of
      SEEK_SET \<Rightarrow> Some (offset, (), set_loc i offset p)
    | SEEK_CUR \<Rightarrow> let tmp = f_loc (pr_files p ! i) + offset in Some (tmp, (), set_loc i tmp p)
    | SEEK_END \<Rightarrow> do {
        (n, p1) \<leftarrow> get_size g st i p;
        Some (n + offset, (), set_loc i (n + offset) p1)
      }
    | SEEK_OTHER \<Rightarrow> Some (-1, (), err EINVAL p))"

definition lseek :: "'w config \<Rightarrow> u32 \<Rightarrow> stat_t \<Rightarrow> int \<Rightarrow> int \<Rightarrow> whence \<Rightarrow> 'w proc \<Rightarrow> (int \<times> unit \<times> 'w proc) option" where
  "lseek g junk st fildes offset whence = on_fildes g junk fildes (seek_from g st offset whence) ()"

definition unistd_open :: "'w config \<Rightarrow> u32 \<Rightarrow> stat_t \<Rightarrow> string \<Rightarrow> flags \<Rightarrow> u32 \<Rightarrow> 'w proc \<Rightarrow> (int \<times> 'w proc) option" where
  "unistd_open g junk st name fl mode p = do {
    (fildes, p1) \<leftarrow> open_at g junk name fl mode p;
    if fildes \<ge> 0 \<and> fl_append fl then do {
      (_, _, p2) \<leftarrow> lseek g junk st fildes 0 SEEK_END p1;
      Some (fildes, p2)
    } else Some (fildes, p1)
  }"

subsection \<open>Devices (ioctl.c, unistd_data_transfer.c)\<close>

definition unistd_device_ioctl :: "'w config \<Rightarrow> nat \<Rightarrow> ctl \<Rightarrow> 'w proc \<Rightarrow> (int \<times> 'w proc) option" where
  "unistd_device_ioctl g i c p =
    (case fs_ioctl (get_fs g i p) of
      None \<Rightarrow> None
    | Some f \<Rightarrow> do {
        (r, s) \<leftarrow> f (get_handle i p) c (pr_sys p);
        Some (r, p\<lparr>pr_sys := s\<rparr>)
      })"

definition ioctl :: "'w config \<Rightarrow> u32 \<Rightarrow> int \<Rightarrow> ctl \<Rightarrow> 'w proc \<Rightarrow> (int \<times> unit \<times> 'w proc) option" where
  "ioctl g junk fildes c = on_fildes g junk fildes (\<lambda>i p.
    if fs_ioctl (get_fs g i p) \<noteq> None then map_option (\<lambda>(r, p1). (r, (), p1)) (unistd_device_ioctl g i c p)
    else Some (-1, (), err ENOTSUP p)) ()"

text \<open>
  The loop of \<open>device_data_transfer\<close>; \<open>mode\<close> is that of the device. The transfer takes its place and flags once,
  before the loop. It waits as long as nothing was transferred, so it need not end.
\<close>

partial_function (option) transfer_loop :: "'w config \<Rightarrow> nat \<Rightarrow> bool \<Rightarrow> byte list \<Rightarrow> int \<Rightarrow> 'w proc
    \<Rightarrow> (int \<times> byte list \<times> 'w proc) option" where
  "transfer_loop g i rd buf nbyte p =
    (let fs = get_fs g i p; f = pr_files p ! i
     in case fs_transfer fs of
       None \<Rightarrow> None
     | Some transfer \<Rightarrow> do {
         t \<leftarrow> transfer rd (f_handle f) (f_loc f) (f_flags f) buf nbyte (pr_sys p);
         let p1 = p\<lparr>pr_sys := tn_sys t\<rparr>;
         case device_transfer_turn (tn_by_signal t) (fl_nonblock (f_flags f)) (tn_ret t) (tn_nbyte t) of
           TT_Done n \<Rightarrow> Some (n, tn_bytes t, p1)
         | TT_Error e \<Rightarrow> Some (-1, tn_bytes t, case e of None \<Rightarrow> p1 | Some e \<Rightarrow> err e p1)
         | TT_Interrupted \<Rightarrow> do {
             (_, p2) \<leftarrow> unistd_device_ioctl g i Ctl_SetAction_None p1;
             Some (-1, tn_bytes t, err EINTR p2)
           }
         | TT_NoData \<Rightarrow> Some (-1, tn_bytes t, err ENODATA p1)
         | TT_Again \<Rightarrow> transfer_loop g i rd buf nbyte p1
       })"

definition device_data_transfer :: "'w config \<Rightarrow> stat_t \<Rightarrow> nat \<Rightarrow> bool \<Rightarrow> byte list \<Rightarrow> int \<Rightarrow> 'w proc
    \<Rightarrow> (int \<times> byte list \<times> 'w proc) option" where
  "device_data_transfer g st i rd buf nbyte p =
    (if nbyte = 0 then Some (0, [], p)
     else do {
       (r, st1, s) \<leftarrow> fs_fstat (get_fs g i p) (get_handle i p) st (pr_sys p);
       let p1 = p\<lparr>pr_sys := s\<rparr>;
       if r < 0 \<or> sint (st_mode st1) < 0 then Some (-1, [], p1)
       else do {
         (tmp, bs, p2) \<leftarrow> transfer_loop g i rd buf nbyte p1;
         Some (tmp, bs, if st_mode st1 AND S_IFMT \<noteq> S_IFCHR \<and> tmp > 0
                        then set_loc i (f_loc (pr_files p2 ! i) + tmp) p2 else p2)
       }
     })"

subsection \<open>Reading, writing, closing\<close>

text \<open>The bytes read are returned with the result. A failed read overwrites the error number with its result.\<close>

definition unistd_read :: "'w config \<Rightarrow> u32 \<Rightarrow> stat_t \<Rightarrow> int \<Rightarrow> int \<Rightarrow> 'w proc \<Rightarrow> (int \<times> byte list \<times> 'w proc) option" where
  "unistd_read g junk st fildes nbyte = on_fildes g junk fildes (\<lambda>i p.
    let f = pr_files p ! i; fs = get_fs g i p
    in if fl_acc (f_flags f) = WRONLY then Some (-1, [], err EACCES p)
       else if fs_transfer fs \<noteq> None then device_data_transfer g st i True [] nbyte p
       else do {
         (n, bs, s) \<leftarrow> fs_read fs (f_handle f) (f_flags f) (f_loc f) nbyte (pr_sys p);
         let p1 = p\<lparr>pr_sys := s\<rparr>;
         Some (n, bs, if n < 0 then err (ERRNO n) p1 else set_loc i (f_loc f + n) p1)
       }) []"

definition unistd_write :: "'w config \<Rightarrow> u32 \<Rightarrow> stat_t \<Rightarrow> int \<Rightarrow> byte list \<Rightarrow> int \<Rightarrow> 'w proc \<Rightarrow> (int \<times> byte list \<times> 'w proc) option" where
  "unistd_write g junk st fildes buf nbyte = on_fildes g junk fildes (\<lambda>i p.
    let f = pr_files p ! i; fs = get_fs g i p
    in if fl_acc (f_flags f) = RDONLY then Some (-1, [], err EACCES p)
       else if fs_transfer fs \<noteq> None then device_data_transfer g st i False buf nbyte p
       else do {
         (n, s) \<leftarrow> fs_write fs (f_handle f) (f_flags f) (f_loc f) buf nbyte (pr_sys p);
         let p1 = p\<lparr>pr_sys := s\<rparr>;
         Some (n, [], if n > 0 then set_loc i (f_loc f + n) p1 else p1)
       }) []"

definition unistd_close :: "'w config \<Rightarrow> u32 \<Rightarrow> int \<Rightarrow> 'w proc \<Rightarrow> (int \<times> unit \<times> 'w proc) option" where
  "unistd_close g junk fildes = on_fildes g junk fildes (\<lambda>i p. do {
    (ret, h, s) \<leftarrow> fs_close (get_fs g i p) (get_handle i p) (pr_sys p);
    Some (ret, (), unistd_reset_fildes i (upd_file i (\<lambda>f. f\<lparr>f_handle := h\<rparr>) (p\<lparr>pr_sys := s\<rparr>)))
  }) ()"

definition unistd_fstat :: "'w config \<Rightarrow> u32 \<Rightarrow> int \<Rightarrow> 'w proc \<Rightarrow> (int \<times> stat_t \<times> 'w proc) option" where
  "unistd_fstat g junk fildes = on_fildes g junk fildes (\<lambda>i p. do {
    (r, st, s) \<leftarrow> fs_fstat (get_fs g i p) (get_handle i p) empty_stat (pr_sys p);
    Some (r, st, p\<lparr>pr_sys := s\<rparr>)
  }) empty_stat"

text \<open>\<open>F_GETFL\<close> gives the flags; the result of \<open>F_SETFL\<close> is -1 as well.\<close>

datatype fcntl_cmd = F_GETFL | F_SETFL flags | F_KNOWN | F_OTHER

definition fcntl :: "'w config \<Rightarrow> u32 \<Rightarrow> int \<Rightarrow> fcntl_cmd \<Rightarrow> 'w proc \<Rightarrow> (int \<times> flags option \<times> 'w proc) option" where
  "fcntl g junk fildes cmd = on_fildes g junk fildes (\<lambda>i p.
    Some (case cmd of
      F_GETFL \<Rightarrow> (0, Some (f_flags (pr_files p ! i)), p)
    | F_SETFL fl \<Rightarrow> (-1, None, upd_file i (\<lambda>f. f\<lparr>f_flags := fl\<rparr>) p)
    | F_KNOWN \<Rightarrow> (-1, None, err ENOTSUP p)
    | F_OTHER \<Rightarrow> (-1, None, err EINVAL p))) None"

definition isatty :: "'w config \<Rightarrow> u32 \<Rightarrow> int \<Rightarrow> 'w proc \<Rightarrow> (int \<times> unit \<times> 'w proc) option" where
  "isatty g junk fildes = on_fildes g junk fildes (\<lambda>i p. Some (0, (), p)) ()"

subsection \<open>Calls on paths\<close>

text \<open>How every call on a path begins and goes on: the file system of the path gets the rest of the path.\<close>

definition on_path :: "'w config \<Rightarrow> string \<Rightarrow> ('w sysfs \<Rightarrow> string \<Rightarrow> 'w sys \<Rightarrow> (int \<times> 'a \<times> 'w sys) option) \<Rightarrow> 'a \<Rightarrow> 'w proc
    \<Rightarrow> (int \<times> 'a \<times> 'w proc) option" where
  "on_path g path f x p =
    (case sysfs_ispathinvalid g path of
      Some e \<Rightarrow> Some (-1, x, err e p)
    | None \<Rightarrow>
        (case sysfs_find g (c_str path) True of
          None \<Rightarrow> Some (-1, x, err ENOENT p)
        | Some i \<Rightarrow> do {
            (r, y, s) \<leftarrow> f (sysfs_list g ! i) (sysfs_stripmountpath (sysfs_list g ! i) (c_str path)) (pr_sys p);
            Some (r, y, p\<lparr>pr_sys := s\<rparr>)
          }))"

definition plain :: "(int \<times> 'w sys) option \<Rightarrow> (int \<times> unit \<times> 'w sys) option" where
  "plain x = map_option (\<lambda>(r, s). (r, (), s)) x"

definition unistd_stat :: "'w config \<Rightarrow> string \<Rightarrow> stat_t \<Rightarrow> 'w proc \<Rightarrow> (int \<times> stat_t \<times> 'w proc) option" where
  "unistd_stat g path st = on_path g path (\<lambda>fs name. fs_stat fs name st) st"

definition unistd_lstat :: "'w config \<Rightarrow> string \<Rightarrow> stat_t \<Rightarrow> 'w proc \<Rightarrow> (int \<times> stat_t \<times> 'w proc) option" where
  "unistd_lstat g path st = on_path g path (\<lambda>fs name. fs_lstat fs name st) st"

definition unistd_unlink :: "'w config \<Rightarrow> string \<Rightarrow> 'w proc \<Rightarrow> (int \<times> unit \<times> 'w proc) option" where
  "unistd_unlink g path = on_path g path (\<lambda>fs name s. plain (fs_unlink fs name s)) ()"

definition unistd_mkdir :: "'w config \<Rightarrow> string \<Rightarrow> u32 \<Rightarrow> 'w proc \<Rightarrow> (int \<times> unit \<times> 'w proc) option" where
  "unistd_mkdir g path mode = on_path g path (\<lambda>fs name s. plain (fs_mkdir fs name mode s)) ()"

definition unistd_rmdir :: "'w config \<Rightarrow> string \<Rightarrow> 'w proc \<Rightarrow> (int \<times> unit \<times> 'w proc) option" where
  "unistd_rmdir g path = on_path g path (\<lambda>fs name s. plain (fs_rmdir fs name s)) ()"

definition unistd_chmod :: "'w config \<Rightarrow> string \<Rightarrow> u32 \<Rightarrow> 'w proc \<Rightarrow> (int \<times> unit \<times> 'w proc) option" where
  "unistd_chmod g path mode = on_path g path (\<lambda>fs name s. plain (fs_chmod fs name mode s)) ()"

definition unistd_chown :: "'w config \<Rightarrow> string \<Rightarrow> u32 \<Rightarrow> u32 \<Rightarrow> 'w proc \<Rightarrow> (int \<times> unit \<times> 'w proc) option" where
  "unistd_chown g path uid gid = on_path g path (\<lambda>fs name s. plain (fs_chown fs name uid gid s)) ()"

text \<open>\<open>st\<close> is the local structure of \<open>access\<close>, which a file system may leave partly unset.\<close>

definition access :: "'w config \<Rightarrow> u32 \<Rightarrow> u32 \<Rightarrow> string \<Rightarrow> u32 \<Rightarrow> stat_t \<Rightarrow> 'w proc \<Rightarrow> (int \<times> unit \<times> 'w proc) option" where
  "access g euid egid path amode st = on_path g path (\<lambda>fs name s. do {
    (r, st1, s1) \<leftarrow> fs_stat fs name st s;
    Some (if r < 0 then (-1, (), s1)
          else case check_permissions euid egid st1 amode s1 of (r2, s2) \<Rightarrow> (r2, (), s2))
  }) ()"

text \<open>Calls with two paths, which must have the same file system.\<close>

definition on_paths :: "'w config \<Rightarrow> string \<Rightarrow> string \<Rightarrow> ('w sysfs \<Rightarrow> string \<Rightarrow> string \<Rightarrow> 'w sys \<Rightarrow> (int \<times> 'w sys) option)
    \<Rightarrow> (nat option \<Rightarrow> nat option \<Rightarrow> errno) \<Rightarrow> 'w proc \<Rightarrow> (int \<times> 'w proc) option" where
  "on_paths g old new f e p =
    (case sysfs_ispathinvalid g old of
      Some e \<Rightarrow> Some (-1, err e p)
    | None \<Rightarrow>
        (case sysfs_ispathinvalid g new of
          Some e \<Rightarrow> Some (-1, err e p)
        | None \<Rightarrow>
            let fs_old = sysfs_find g (c_str old) True; fs_new = sysfs_find g (c_str new) True
            in if fs_old = fs_new \<and> fs_new \<noteq> None then
                 let fs = sysfs_list g ! the fs_new
                 in do {
                   (r, s) \<leftarrow> f fs (sysfs_stripmountpath fs (c_str old)) (sysfs_stripmountpath fs (c_str new)) (pr_sys p);
                   Some (r, p\<lparr>pr_sys := s\<rparr>)
                 }
               else Some (-1, err (e fs_old fs_new) p)))"

definition unistd_rename :: "'w config \<Rightarrow> string \<Rightarrow> string \<Rightarrow> 'w proc \<Rightarrow> (int \<times> 'w proc) option" where
  "unistd_rename g old new = on_paths g old new fs_rename (\<lambda>_ _. ENOTSUP)"

text \<open>\<open>link\<close> and \<open>symlink\<close> pass the address of the member \<open>cfg\<close> where the others pass its value.\<close>

definition unistd_link :: "'w config \<Rightarrow> string \<Rightarrow> string \<Rightarrow> 'w proc \<Rightarrow> (int \<times> 'w proc) option" where
  "unistd_link g old new = on_paths g old new fs_link (\<lambda>a b. if a = None \<or> b = None then ENOENT else ENOTSUP)"

definition unistd_symlink :: "'w config \<Rightarrow> string \<Rightarrow> string \<Rightarrow> 'w proc \<Rightarrow> (int \<times> 'w proc) option" where
  "unistd_symlink g old new = on_paths g old new fs_symlink (\<lambda>_ _. ENOTSUP)"

end
