(* ===== verification/Mounts.thy ===== *)
theory Mounts
  imports Unistd
begin

section \<open>Mounted file systems (rootfs.c, devfs.c, dirent.c)\<close>

text \<open>
  The root directory, which lists the mounts, the device file system, and directory streams. Entries of
  constant tables are numbered; reading outside of a table is \<open>None\<close>.
\<close>

text \<open>The operations of \<open>include/sysfs.h\<close> that every file system here leaves out.\<close>

definition notsup_stat :: "string \<Rightarrow> stat_t \<Rightarrow> 'w sys \<Rightarrow> (int \<times> stat_t \<times> 'w sys) option" where
  "notsup_stat path st s = Some (-1, st, set_errno ENOTSUP s)"

definition sysfs_notsup_all :: "string \<Rightarrow> u32 \<Rightarrow> 'w sysfs" where
  "sysfs_notsup_all mp acc = \<lparr>mount_path = mp, fs_access = acc, fs_mkfs = sysfs_notsup,
    fs_open = (\<lambda>h _ _ _ s. Some (-1, h, set_errno ENOTSUP s)), fs_transfer = None,
    fs_ioctl = Some (\<lambda>_ _. sysfs_notsup), fs_read = (\<lambda>_ _ _ _ s. Some (-1, [], set_errno ENOTSUP s)),
    fs_write = (\<lambda>_ _ _ _ _. sysfs_notsup), fs_close = (\<lambda>h s. Some (-1, h, set_errno ENOTSUP s)),
    fs_fstat = (\<lambda>_ st s. Some (-1, st, set_errno ENOTSUP s)), fs_stat = notsup_stat, fs_lstat = notsup_stat,
    fs_rename = (\<lambda>_ _. sysfs_notsup), fs_link = (\<lambda>_ _. sysfs_notsup), fs_symlink = (\<lambda>_ _. sysfs_notsup),
    fs_unlink = (\<lambda>_. sysfs_notsup), fs_rmdir = (\<lambda>_. sysfs_notsup), fs_mkdir = (\<lambda>_ _. sysfs_notsup),
    fs_chmod = (\<lambda>_ _. sysfs_notsup), fs_chown = (\<lambda>_ _ _. sysfs_notsup),
    fs_opendir = (\<lambda>h _ s. Some (-1, h, set_errno ENOTSUP s)),
    fs_readdir_r = (\<lambda>_ _ s. Some (-1, None, set_errno ENOTSUP s)), fs_closedir = (\<lambda>_. sysfs_notsup)\<rparr>"

subsection \<open>The root directory\<close>

text \<open>\<open>mounts\<close> is the table \<open>sysfs_list\<close>, whose last entry is the root itself.\<close>

definition rootfs_stat :: "'w sysfs list \<Rightarrow> string \<Rightarrow> stat_t \<Rightarrow> 'w sys \<Rightarrow> (int \<times> stat_t \<times> 'w sys) option" where
  "rootfs_stat mounts path st s =
    (case find_loop 0 (CHR ''/'' # path) False mounts of
      None \<Rightarrow> Some (-1, st, set_errno ENOENT s)
    | Some i \<Rightarrow>
        if path \<noteq> [] \<and> length (mount_path (mounts ! i)) \<le> 1 then Some (-1, st, set_errno ENOENT s)
        else Some (0, st\<lparr>st_mode := S_IFDIR OR fs_access (mounts ! i)\<rparr>, s))"

definition rootfs_opendir :: "u32 \<Rightarrow> string \<Rightarrow> 'w sys \<Rightarrow> (int \<times> u32 \<times> 'w sys) option" where
  "rootfs_opendir h path s = Some (if path \<noteq> [] then (-1, h, set_errno ENOENT s) else (0, 0, s))"

definition rootfs_readdir_r :: "'w sysfs list \<Rightarrow> u32 \<Rightarrow> int \<Rightarrow> 'w sys \<Rightarrow> (int \<times> (u32 \<times> string) option \<times> 'w sys) option" where
  "rootfs_readdir_r mounts h loc s =
    (if loc < int (length mounts) - 1 then
       (if loc < 0 then None
        else Some (loc, Some (word_of_int loc, drop 1 (mount_path (mounts ! nat loc))), s))
     else Some (-1, None, s))"

definition sysfs_root :: "string \<Rightarrow> 'w sysfs list \<Rightarrow> u32 \<Rightarrow> 'w sysfs" where
  "sysfs_root mp mounts acc = (sysfs_notsup_all mp acc)
    \<lparr>fs_stat := rootfs_stat mounts, fs_opendir := rootfs_opendir, fs_readdir_r := rootfs_readdir_r mounts,
     fs_closedir := (\<lambda>_ s. Some (0, s))\<rparr>"

subsection \<open>Devices\<close>

text \<open>An entry of the device table: \<open>dev_addr\<close> is its address, \<open>drv_transfer\<close> the driver's read and write.\<close>

record 'w device =
  dev_name :: string
  dev_uid :: byte
  dev_gid :: byte
  dev_mode :: u16
  dev_addr :: u32
  drv_open :: "'w sys \<Rightarrow> (int \<times> 'w sys) option"
  drv_ioctl :: "ctl \<Rightarrow> 'w sys \<Rightarrow> (int \<times> 'w sys) option"
  drv_transfer :: "bool \<Rightarrow> int \<Rightarrow> flags \<Rightarrow> byte list \<Rightarrow> int \<Rightarrow> 'w sys \<Rightarrow> 'w turn option"
  drv_close :: "'w sys \<Rightarrow> (int \<times> 'w sys) option"

fun devfs_load :: "'w device list \<Rightarrow> string \<Rightarrow> 'w device option" where
  "devfs_load [] name = None"
| "devfs_load (d # ds) name = (if name = c_str (dev_name d) then Some d else devfs_load ds name)"

text \<open>The entry a handle points to.\<close>

fun dev_at :: "'w device list \<Rightarrow> u32 \<Rightarrow> 'w device option" where
  "dev_at [] h = None"
| "dev_at (d # ds) h = (if dev_addr d = h then Some d else dev_at ds h)"

definition devfs_open :: "'w device list \<Rightarrow> u32 \<Rightarrow> string \<Rightarrow> flags \<Rightarrow> u32 \<Rightarrow> 'w sys \<Rightarrow> (int \<times> u32 \<times> 'w sys) option" where
  "devfs_open ds h path fl mode s =
    (if fl_append fl \<or> fl_creat fl \<or> fl_trunc fl then Some (-1, h, set_errno ENOTSUP s)
     else case devfs_load ds path of
       None \<Rightarrow> Some (-1, h, set_errno ENOENT s)
     | Some d \<Rightarrow> do {
         (e, s1) \<leftarrow> drv_open d s;
         Some (if e < 0 then (e, h, s1) else (0, dev_addr d, s1))
       })"

definition devfs_fstat :: "'w device list \<Rightarrow> u32 \<Rightarrow> stat_t \<Rightarrow> 'w sys \<Rightarrow> (int \<times> stat_t \<times> 'w sys) option" where
  "devfs_fstat ds h st s = do {
    d \<leftarrow> dev_at ds h;
    Some (0, \<lparr>st_mode = ucast (dev_mode d), st_uid = ucast (dev_uid d), st_gid = ucast (dev_gid d), st_size = 0, st_ino = 0\<rparr>, s)
  }"

definition devfs_stat :: "'w device list \<Rightarrow> string \<Rightarrow> stat_t \<Rightarrow> 'w sys \<Rightarrow> (int \<times> stat_t \<times> 'w sys) option" where
  "devfs_stat ds path st s =
    (case devfs_load ds path of
      None \<Rightarrow> Some (-1, st, set_errno ENOENT s)
    | Some d \<Rightarrow> devfs_fstat ds (dev_addr d) st s)"

definition devfs_transfer :: "'w device list \<Rightarrow> bool \<Rightarrow> u32 \<Rightarrow> int \<Rightarrow> flags \<Rightarrow> byte list \<Rightarrow> int \<Rightarrow> 'w sys \<Rightarrow> 'w turn option" where
  "devfs_transfer ds rd h loc fl buf nbyte s = do {
    d \<leftarrow> dev_at ds h;
    drv_transfer d rd loc fl buf nbyte s
  }"

definition devfs_ioctl :: "'w device list \<Rightarrow> u32 \<Rightarrow> ctl \<Rightarrow> 'w sys \<Rightarrow> (int \<times> 'w sys) option" where
  "devfs_ioctl ds h c s = do {
    d \<leftarrow> dev_at ds h;
    drv_ioctl d c s
  }"

definition devfs_close :: "'w device list \<Rightarrow> u32 \<Rightarrow> 'w sys \<Rightarrow> (int \<times> u32 \<times> 'w sys) option" where
  "devfs_close ds h s = do {
    d \<leftarrow> dev_at ds h;
    (e, s1) \<leftarrow> drv_close d s;
    Some (e, 0, s1)
  }"

definition devfs_opendir :: "'w device list \<Rightarrow> u32 \<Rightarrow> string \<Rightarrow> 'w sys \<Rightarrow> (int \<times> u32 \<times> 'w sys) option" where
  "devfs_opendir ds h path s =
    Some (if path \<noteq> [] then (-1, h, set_errno (if devfs_load ds path = None then ENOENT else ENOTDIR) s) else (0, 0, s))"

definition devfs_readdir_r :: "'w device list \<Rightarrow> u32 \<Rightarrow> int \<Rightarrow> 'w sys \<Rightarrow> (int \<times> (u32 \<times> string) option \<times> 'w sys) option" where
  "devfs_readdir_r ds h loc s =
    (let l = uint (word_of_int loc :: u32)
     in Some (if l < int (length ds) then (0, Some (word_of_int loc, c_str (dev_name (ds ! nat l))), s)
              else (-1, None, set_errno ENOENT s)))"

definition sysfs_dev :: "string \<Rightarrow> 'w device list \<Rightarrow> u32 \<Rightarrow> 'w sysfs" where
  "sysfs_dev mp ds acc = (sysfs_notsup_all mp acc)
    \<lparr>fs_open := devfs_open ds, fs_transfer := Some (devfs_transfer ds), fs_ioctl := Some (devfs_ioctl ds),
     fs_read := (\<lambda>_ _ _ _ _. None), fs_write := (\<lambda>_ _ _ _ _ _. None), fs_close := devfs_close ds,
     fs_opendir := devfs_opendir ds, fs_closedir := (\<lambda>_ s. Some (0, s)), fs_readdir_r := devfs_readdir_r ds,
     fs_stat := devfs_stat ds, fs_fstat := devfs_fstat ds\<rparr>"

subsection \<open>Directory streams\<close>

text \<open>\<open>None\<close> is the pointer NULL. \<open>mem\<close> says whether \<open>malloc\<close> has memory for the stream.\<close>

record dir =
  d_fs :: nat
  d_handle :: u32
  d_loc :: int

definition check_ebadf :: "dir option \<Rightarrow> 'w proc \<Rightarrow> int \<times> 'w proc" where
  "check_ebadf d p =
    (case d of
      None \<Rightarrow> (-1, err EBADF p)
    | Some d \<Rightarrow> if d_loc d > 65535 then (-1, err EBADF p) else (0, p))"

definition opendir :: "'w config \<Rightarrow> u32 \<Rightarrow> bool \<Rightarrow> string \<Rightarrow> 'w proc \<Rightarrow> (dir option \<times> 'w proc) option" where
  "opendir g junk mem name p =
    (case sysfs_ispathinvalid g name of
      Some e \<Rightarrow> Some (None, err e p)
    | None \<Rightarrow>
        (case sysfs_find g (c_str name) False of
          None \<Rightarrow> Some (None, err ENOENT p)
        | Some i \<Rightarrow>
            if \<not> mem then Some (None, err ENOMEM p)
            else do {
              (r, h, s) \<leftarrow> fs_opendir (sysfs_list g ! i) junk (sysfs_stripmountpath (sysfs_list g ! i) (c_str name)) (pr_sys p);
              let p1 = p\<lparr>pr_sys := s\<rparr>;
              Some (if r < 0 then None else Some \<lparr>d_fs = i, d_handle = h, d_loc = 0\<rparr>, p1)
            }))"

definition readdir_r :: "'w config \<Rightarrow> dir option \<Rightarrow> 'w proc \<Rightarrow> (int \<times> (u32 \<times> string) option \<times> dir option \<times> 'w proc) option" where
  "readdir_r g dirp p =
    (let (r, p1) = check_ebadf dirp p
     in case dirp of
       None \<Rightarrow> Some (-1, None, dirp, p1)
     | Some d \<Rightarrow>
         if r < 0 then Some (-1, None, dirp, p1)
         else do {
           (e, entry, s) \<leftarrow> fs_readdir_r (sysfs_list g ! d_fs d) (d_handle d) (d_loc d) (pr_sys p1);
           let p2 = p1\<lparr>pr_sys := s\<rparr>;
           Some (if e < 0 then (-1, None, dirp, p2) else (0, entry, Some (d\<lparr>d_loc := d_loc d + 1\<rparr>), p2))
         })"

definition closedir :: "dir option \<Rightarrow> 'w proc \<Rightarrow> int \<times> 'w proc" where
  "closedir dirp p = (case check_ebadf dirp p of (r, p1) \<Rightarrow> (if r < 0 then -1 else 0, p1))"

definition seekdir :: "dir \<Rightarrow> int \<Rightarrow> dir" where
  "seekdir d loc = d\<lparr>d_loc := loc\<rparr>"

definition rewinddir :: "dir \<Rightarrow> dir" where
  "rewinddir d = seekdir d 0"

definition telldir :: "dir \<Rightarrow> int" where
  "telldir d = d_loc d"

end
