(* ===== verification/Descriptors.thy ===== *)
theory Descriptors
  imports Mounts
begin

section \<open>Paths and descriptors: lemmas and properties\<close>

text \<open>
  Which paths are valid and which mount they belong to, how the descriptors of a process are given out and
  returned, and the interface \<open>file_store\<close> of a file system whose handles stand for sequences of bytes, with
  what the calls on a descriptor make of it.
\<close>

subsection \<open>Valid paths\<close>

text \<open>The parts of a path between the slashes.\<close>

fun parts :: "string \<Rightarrow> string list" where
  "parts [] = [[]]"
| "parts (c # cs) = (if c = CHR ''/'' then [] # parts cs else (c # hd (parts cs)) # tl (parts cs))"

lemma parts_nonempty [simp]: "parts q \<noteq> []"
  by (cases q) auto

lemma component_loop_parts:
  "NUL \<notin> set q \<Longrightarrow> component_loop nmax tmp (q @ NUL # r) \<longleftrightarrow>
     tmp + length (hd (parts q)) > nmax \<or> (\<exists>y\<in>set (tl (parts q)). length y \<ge> nmax)"
proof (induction q arbitrary: tmp)
  case (Cons c q)
  have s: "set (parts q) = insert (hd (parts q)) (set (tl (parts q)))" by (cases "parts q") auto
  show ?case using Cons by (auto simp: s)
qed auto

lemma strspn_all: "length s = strspn s accept \<longleftrightarrow> set s \<subseteq> set accept"
proof
  assume "length s = strspn s accept"
  then have "takeWhile (\<lambda>c. c \<in> set accept) s = s"
    by (metis strspn_def takeWhile_eq_take take_all_iff order_refl)
  then show "set s \<subseteq> set accept" by (metis set_takeWhileD subsetI)
next
  assume "set s \<subseteq> set accept"
  then have "takeWhile (\<lambda>c. c \<in> set accept) s = s" unfolding takeWhile_eq_all_conv by blast
  then show "length s = strspn s accept" by (metis strspn_def)
qed

lemma path_outcome:
  assumes "p = path @ NUL # rest" "NUL \<notin> set path" "path \<noteq> []"
  shows "sysfs_ispathinvalid g p =
    (if path_max g \<le> length path \<or> name_max g < length (hd (parts (tl path)))
        \<or> (\<exists>y\<in>set (tl (parts (tl path))). name_max g \<le> length y) then Some ENAMETOOLONG
     else if set path \<subseteq> set sysfs_validset then None else Some EINVAL)"
proof -
  have c: "c_str p = path" by (simp add: assms(1) c_str_append_NUL [OF assms(2)])
  have t: "tl p = tl path @ NUL # rest" using assms(1,3) by simp
  have n: "NUL \<notin> set (tl path)" using assms(2) by (auto dest: list.set_sel(2) [OF assms(3)])
  show ?thesis
  proof (cases "length path < path_max g")
    case True
    then have l: "strnlen path (path_max g) = length path" by (simp add: strnlen_def)
    show ?thesis
      unfolding sysfs_ispathinvalid_def isinvalid_def Let_def c t component_loop_parts [OF n] l strspn_all
      using True by auto
  next
    case False
    then have "strnlen path (path_max g) = path_max g" by (simp add: strnlen_def)
    then show ?thesis using False by (simp add: sysfs_ispathinvalid_def isinvalid_def c)
  qed
qed

lemma path_valid:
  assumes "p = path @ NUL # rest" "NUL \<notin> set path" "path \<noteq> []"
  shows "sysfs_ispathinvalid g p = None \<longleftrightarrow> length path < path_max g \<and> set path \<subseteq> set sysfs_validset
    \<and> length (hd (parts (tl path))) \<le> name_max g \<and> (\<forall>y\<in>set (tl (parts (tl path))). length y < name_max g)"
  unfolding path_outcome [OF assms] by (auto simp: not_le not_less)

subsection \<open>The mount of a path\<close>

definition takes :: "'w sysfs \<Rightarrow> string \<Rightarrow> bool \<Rightarrow> bool" where
  "takes f path needs_parent \<longleftrightarrow> (\<exists>s. path = mount_path f @ s \<and> (needs_parent \<longrightarrow> length s > 1 \<or> length path = 1))"

lemma takes_strncmp:
  assumes "NUL \<notin> set path"
  shows "strncmp_eq (length (mount_path f)) path (mount_path f) \<and> (np \<longrightarrow> length path > length (mount_path f) + 1 \<or> length path = 1)
    \<longleftrightarrow> takes f path np"
proof -
  let ?m = "mount_path f"
  have "c_str (take (length ?m) path) = take (length ?m) path" using assms by (intro c_str_id) (auto dest: in_set_takeD)
  then have "strncmp_eq (length ?m) path ?m \<longleftrightarrow> take (length ?m) path = ?m" by (simp add: strncmp_eq_def)
  also have "\<dots> \<longleftrightarrow> (\<exists>s. path = ?m @ s)" by (metis append_take_drop_id append_eq_conv_conj)
  finally show ?thesis unfolding takes_def by auto
qed

lemma find_loop_first:
  assumes "NUL \<notin> set path"
  shows "find_loop i path np fs = Some j \<longleftrightarrow>
    (\<exists>k<length fs. j = i + k \<and> takes (fs ! k) path np \<and> (\<forall>l<k. \<not> takes (fs ! l) path np))"
proof (induction fs arbitrary: i)
  case (Cons f fs)
  note m = takes_strncmp [OF assms, of f np]
  show ?case
  proof (cases "takes f path np")
    case True
    then have "find_loop i path np (f # fs) = Some i" using m by (simp add: Let_def)
    moreover have "k = 0" if "\<forall>l<k. \<not> takes ((f # fs) ! l) path np" for k using that True by (cases k) auto
    ultimately show ?thesis using True by auto
  next
    case False
    then have "find_loop i path np (f # fs) = find_loop (i + 1) path np fs" using m by (auto simp: Let_def)
    then have "find_loop i path np (f # fs) = Some j \<longleftrightarrow>
      (\<exists>k<length fs. j = i + Suc k \<and> takes (fs ! k) path np \<and> (\<forall>l<k. \<not> takes (fs ! l) path np))" by (simp add: Cons.IH)
    also have "\<dots> \<longleftrightarrow> (\<exists>k<length (f # fs). j = i + k \<and> takes ((f # fs) ! k) path np \<and> (\<forall>l<k. \<not> takes ((f # fs) ! l) path np))"
      (is "?l \<longleftrightarrow> ?r")
    proof
      assume ?l
      then obtain k where k: "k < length fs" "j = i + Suc k" "takes (fs ! k) path np" "\<forall>l<k. \<not> takes (fs ! l) path np" by blast
      have "\<forall>l<Suc k. \<not> takes ((f # fs) ! l) path np" using k(4) False by (simp add: All_less_Suc2)
      with k show ?r by (intro exI [of _ "Suc k"]) simp
    next
      assume ?r
      then obtain k where k: "k < length (f # fs)" "j = i + k" "takes ((f # fs) ! k) path np" "\<forall>l<k. \<not> takes ((f # fs) ! l) path np" by blast
      then obtain k' where "k = Suc k'" using False by (cases k) auto
      with k show ?l by (intro exI [of _ k']) (auto simp: All_less_Suc2)
    qed
    finally show ?thesis .
  qed
qed simp

lemma NUL_c_str: "NUL \<notin> set (c_str name)"
  by (auto simp: c_str_def dest: set_takeWhileD)

lemma sysfs_find_first:
  assumes "NUL \<notin> set path"
  shows "sysfs_find g path np = Some i \<longleftrightarrow> i < length (sysfs_list g) \<and> takes (sysfs_list g ! i) path np
    \<and> (\<forall>j<i. \<not> takes (sysfs_list g ! j) path np)"
  unfolding sysfs_find_def find_loop_first [OF assms] by auto

lemma strip_mount: "path = mount_path f @ s \<Longrightarrow> sysfs_stripmountpath f path = (if s \<noteq> [] \<and> hd s = CHR ''/'' then tl s else s)"
  by (simp add: sysfs_stripmountpath_def)

subsection \<open>Descriptors\<close>

lemma upd_file_sel [simp]:
  "pr_files (upd_file i f p) = (pr_files p)[i := f (pr_files p ! i)]" "pr_sys (upd_file i f p) = pr_sys p"
  by (simp_all add: upd_file_def)

lemma err_sel [simp]: "pr_files (err e p) = pr_files p" "sys_world (pr_sys (err e p)) = sys_world (pr_sys p)"
  "sys_errno (pr_sys (err e p)) = e"
  by (simp_all add: err_def set_errno_def)

lemma new_loop_Some:
  "new_loop i 0 fs = Some j \<longleftrightarrow> (\<exists>k<length fs. j = i + k \<and> f_handle (fs ! k) = 0 \<and> (\<forall>l<k. f_handle (fs ! l) \<noteq> 0))"
proof (induction fs arbitrary: i)
  case (Cons f fs)
  show ?case
  proof (cases "f_handle f = 0")
    case True
    moreover have "k = 0" if "\<forall>l<k. f_handle ((f # fs) ! l) \<noteq> 0" for k using that True by (cases k) auto
    ultimately show ?thesis by auto
  next
    case False
    then have "new_loop i 0 (f # fs) = Some j \<longleftrightarrow>
      (\<exists>k<length fs. j = i + Suc k \<and> f_handle (fs ! k) = 0 \<and> (\<forall>l<k. f_handle (fs ! l) \<noteq> 0))" by (simp add: Cons.IH)
    also have "\<dots> \<longleftrightarrow> (\<exists>k<length (f # fs). j = i + k \<and> f_handle ((f # fs) ! k) = 0 \<and> (\<forall>l<k. f_handle ((f # fs) ! l) \<noteq> 0))"
      using False by (auto simp: Ex_less_Suc2 All_less_Suc2)
    finally show ?thesis .
  qed
qed simp

text \<open>The first free descriptor.\<close>

definition first_free_fd :: "'w proc \<Rightarrow> nat \<Rightarrow> bool" where
  "first_free_fd p i \<longleftrightarrow> i < length (pr_files p) \<and> f_handle (pr_files p ! i) = 0 \<and> (\<forall>j<i. f_handle (pr_files p ! j) \<noteq> 0)"

lemma new_open_file:
  "unistd_new_open_file 0 p = (r, p1) \<Longrightarrow>
     (r = -1 \<and> p1 = err EMFILE p \<and> (\<forall>i. \<not> first_free_fd p i))
     \<or> (\<exists>i. r = int i \<and> first_free_fd p i \<and> p1 = upd_file i (\<lambda>f. f\<lparr>f_handle := 1\<rparr>) p)"
  using new_loop_Some [of 0 "pr_files p"]
  by (auto simp: unistd_new_open_file_def first_free_fd_def split: option.splits)

lemma new_open_file_first: "first_free_fd p i \<Longrightarrow> unistd_new_open_file 0 p = (int i, upd_file i (\<lambda>f. f\<lparr>f_handle := 1\<rparr>) p)"
proof -
  assume "first_free_fd p i"
  then have "new_loop 0 0 (pr_files p) = Some i" unfolding new_loop_Some first_free_fd_def by simp
  then show ?thesis by (simp add: unistd_new_open_file_def)
qed

lemma reset_reserved: "first_free_fd p i \<Longrightarrow> (pr_files p)[i := (pr_files p ! i)\<lparr>f_handle := 0\<rparr>] = pr_files p"
proof -
  assume "first_free_fd p i"
  then have "(pr_files p ! i)\<lparr>f_handle := 0\<rparr> = pr_files p ! i" by (simp add: first_free_fd_def)
  then show ?thesis by simp
qed

lemma open_at_effect:
  assumes "open_at g junk name fl mode p = Some (r, p')"
  shows "if 0 \<le> r then \<exists>i k h. r = int i \<and> first_free_fd p i \<and> sysfs_find g (c_str name) True = Some k
      \<and> pr_files p' = (pr_files p)[i := \<lparr>f_fs = k, f_handle = h, f_flags = fl, f_loc = 0\<rparr>]
    else r = -1 \<and> (pr_files p' = pr_files p \<or> fl_creat fl \<and> mode AND S_IFMT = S_IFDIR)"
proof -
  obtain n p1 where n: "unistd_new_open_file 0 p = (n, p1)" by fastforce
  from new_open_file [OF this] show ?thesis
  proof (elim disjE exE conjE)
    assume "n = -1" "p1 = err EMFILE p"
    then show ?thesis using assms n by (auto simp: open_at_def split: option.splits if_splits)
  next
    fix i assume i: "n = int i" "first_free_fd p i" "p1 = upd_file i (\<lambda>f. f\<lparr>f_handle := 1\<rparr>) p"
    have l: "i < length (pr_files p)" using i(2) by (simp add: first_free_fd_def)
    show ?thesis using assms i l reset_reserved [OF i(2)]
      by (auto simp: open_at_def n Let_def unistd_reset_fildes_def set_open_file_def
          split: option.splits if_splits Option.bind_splits) (rule exI, rule refl)+
  qed
qed

text \<open>The descriptors a call does not name stay as they are.\<close>

lemma fildes_good:
  "0 \<le> fd \<Longrightarrow> fd < int (length (pr_files p)) \<Longrightarrow> get_handle (nat fd) p AND NOT 1 \<noteq> 0
   \<Longrightarrow> on_fildes g junk fd f x p = f (nat fd) p"
  by (simp add: on_fildes_def unistd_fildes_is_bad_def)

lemma fildes_bad:
  "fd < int (length (pr_files p)) \<Longrightarrow> fd < 0 \<or> get_handle (nat fd) p AND NOT 1 = 0
   \<Longrightarrow> on_fildes g junk fd f x p = Some (-1, x, err EBADF p)"
  by (auto simp: on_fildes_def unistd_fildes_is_bad_def)

lemma close_effect:
  assumes "unistd_close g junk (int i) p = Some (r, u, p')" "i < length (pr_files p)" "get_handle i p AND NOT 1 \<noteq> 0"
  shows "pr_files p' = (pr_files p)[i := (pr_files p ! i)\<lparr>f_handle := 0\<rparr>]"
  using assms by (auto simp: unistd_close_def fildes_good unistd_reset_fildes_def split: Option.bind_splits)


lemma seek_end_files:
  assumes "lseek g x st (int i) 0 SEEK_END p = Some (r, u, p')" "i < length (pr_files p)"
  shows "\<exists>l. pr_files p' = (pr_files p)[i := (pr_files p ! i)\<lparr>f_loc := l\<rparr>]"
proof (cases "get_handle i p AND NOT 1 = 0")
  case True
  then have "pr_files p' = pr_files p" using assms by (auto simp: lseek_def fildes_bad)
  then show ?thesis by (intro exI [of _ "f_loc (pr_files p ! i)"]) simp
next
  case False
  then show ?thesis using assms
    by (auto simp: lseek_def fildes_good seek_from_def get_size_def set_loc_def split: Option.bind_splits)
qed

lemma open_effect:
  assumes "unistd_open g x st name fl mode p = Some (r, p')"
  shows "if 0 \<le> r then \<exists>i k h l. r = int i \<and> first_free_fd p i \<and> sysfs_find g (c_str name) True = Some k
      \<and> pr_files p' = (pr_files p)[i := \<lparr>f_fs = k, f_handle = h, f_flags = fl, f_loc = l\<rparr>]
    else r = -1 \<and> (pr_files p' = pr_files p \<or> fl_creat fl \<and> mode AND S_IFMT = S_IFDIR)"
proof -
  obtain p1 where p1: "open_at g x name fl mode p = Some (r, p1)"
    and p2: "if 0 \<le> r \<and> fl_append fl then \<exists>q u. lseek g x st r 0 SEEK_END p1 = Some (q, u, p') else p' = p1"
    using assms by (auto simp: unistd_open_def split: if_splits Option.bind_splits)
  note e = open_at_effect [OF p1]
  show ?thesis
  proof (cases "0 \<le> r")
    case True
    then obtain i k h where i: "r = int i" "first_free_fd p i" "sysfs_find g (c_str name) True = Some k"
      "pr_files p1 = (pr_files p)[i := \<lparr>f_fs = k, f_handle = h, f_flags = fl, f_loc = 0\<rparr>]" using e by auto
    have l: "i < length (pr_files p)" using i(2) by (simp add: first_free_fd_def)
    have "\<exists>m. pr_files p' = (pr_files p)[i := \<lparr>f_fs = k, f_handle = h, f_flags = fl, f_loc = m\<rparr>]"
    proof (cases "fl_append fl")
      case True
      with p2 \<open>0 \<le> r\<close> i(1) obtain q u where "lseek g x st (int i) 0 SEEK_END p1 = Some (q, u, p')" by auto
      from seek_end_files [OF this] i(4) l show ?thesis by auto
    next
      case False
      then show ?thesis using p2 i(4) by auto
    qed
    with i True show ?thesis by auto
  next
    case False
    then show ?thesis using e p2 by auto
  qed
qed

subsection \<open>Properties\<close>

text \<open>A mount without operations and a configuration with it, for the examples.\<close>

definition plain_config :: "unit config" where
  "plain_config = \<lparr>sysfs_list = [(sysfs_notsup_all ''/home'' 0)\<lparr>fs_open := (\<lambda>x path fl mode s. Some (0, 8, s)),
       fs_close := (\<lambda>h s. Some (0, 0, s)), fs_unlink := (\<lambda>path s. Some (int (length path), s))\<rparr>],
     path_max = 36, name_max = 8, stdin_dev = ''/dev/stdin'', stdout_dev = ''/dev/stdout'', stderr_dev = ''/dev/stderr'',
     stdio_filenos = [512, 513, 514]\<rparr>"

definition plain_proc :: "unit proc" where
  "plain_proc = \<lparr>pr_sys = \<lparr>sys_errno = ENOERR, sys_world = ()\<rparr>,
     pr_files = replicate 4 \<lparr>f_fs = 0, f_handle = 0, f_flags = rdwr, f_loc = 0\<rparr>, pr_stdin = 0, pr_stdout = 0, pr_stderr = 0\<rparr>"

definition a_path :: string where
  "a_path = ''/home/a'' @ NUL # []"

lemma plain_facts:
  "path_max plain_config = 36" "name_max plain_config = 8" "length (sysfs_list plain_config) = 1"
  "mount_path (sysfs_list plain_config ! 0) = ''/home''" "fs_open (sysfs_list plain_config ! 0) x path fl mode s = Some (0, 8, s)"
  "fs_close (sysfs_list plain_config ! 0) h s = Some (0, 0, s)"
  "fs_unlink (sysfs_list plain_config ! 0) path s = Some (int (length path), s)"
  by (simp_all add: plain_config_def sysfs_notsup_all_def)

lemma plain_free: "first_free_fd plain_proc 0"
  by (simp add: first_free_fd_def plain_proc_def)

lemma plain_path:
  "sysfs_ispathinvalid plain_config a_path = None" "c_str a_path = ''/home/a''"
  "sysfs_find plain_config ''/home/a'' True = Some 0"
proof -
  show "sysfs_ispathinvalid plain_config a_path = None"
    by (subst path_outcome [OF a_path_def]) (simp_all add: plain_facts sysfs_validset_def)
  show "c_str a_path = ''/home/a''" unfolding a_path_def by (rule c_str_append_NUL) simp
  have "takes (sysfs_list plain_config ! 0) ''/home/a'' True" by (simp add: takes_def plain_facts)
  then show "sysfs_find plain_config ''/home/a'' True = Some 0" by (simp add: sysfs_find_first plain_facts)
qed

text \<open>
  C7: Which non-empty paths \<open>sysfs_ispathinvalid\<close> refuses, and with which error: a path of PATH_MAX characters or more and a
  component that is too long with ENAMETOOLONG, then a character outside the set with EINVAL. A component may
  have NAME_MAX characters only when it is the first one behind the first character; every later one is
  refused at NAME_MAX, since the loop counts its slash.
\<close>

theorem path_check:
  assumes "p = path @ NUL # rest" "NUL \<notin> set path" "path \<noteq> []"
  shows "sysfs_ispathinvalid g p =
    (if path_max g \<le> length path \<or> name_max g < length (hd (parts (tl path)))
        \<or> (\<exists>y\<in>set (tl (parts (tl path))). name_max g \<le> length y) then Some ENAMETOOLONG
     else if set path \<subseteq> set sysfs_validset then None else Some EINVAL)"
  by (rule path_outcome [OF assms])

theorem path_check_witness:
  "sysfs_ispathinvalid plain_config (''/12345678'' @ NUL # []) = None
   \<and> sysfs_ispathinvalid plain_config (''/a/12345678'' @ NUL # []) = Some ENAMETOOLONG
   \<and> sysfs_ispathinvalid plain_config (''/a b'' @ NUL # []) = Some EINVAL"
proof (intro conjI)
  show "sysfs_ispathinvalid plain_config (''/12345678'' @ NUL # []) = None"
    by (subst path_check [OF refl]) (simp_all add: plain_facts sysfs_validset_def)
  show "sysfs_ispathinvalid plain_config (''/a/12345678'' @ NUL # []) = Some ENAMETOOLONG"
    by (subst path_check [OF refl]) (simp_all add: plain_facts sysfs_validset_def)
  show "sysfs_ispathinvalid plain_config (''/a b'' @ NUL # []) = Some EINVAL"
    by (subst path_check [OF refl]) (simp_all add: plain_facts sysfs_validset_def)
qed

text \<open>
  C6: \<open>open\<close> gives the lowest free descriptor, on the mount that takes the path (its own path is a prefix and
  leaves a name of a file, or the path is one character) with none before it in the table that does, and changes no
  other descriptor. When it fails it returns -1 and all descriptors are as before, unless it was called with O_CREAT
  and the mode of a directory. \<open>close\<close> of a descriptor whose handle is not 0 or 1 makes it free again
  whatever the file system answers, so the next call to \<open>open\<close> can be given the same number.
\<close>

theorem open_close_descriptor:
  assumes "unistd_open g x st name fl mode p = Some (r, p1)"
  shows "if r < 0 then r = -1 \<and> (pr_files p1 = pr_files p \<or> fl_creat fl \<and> mode AND S_IFMT = S_IFDIR)
    else \<exists>i k. r = int i \<and> first_free_fd p i \<and> length (pr_files p1) = length (pr_files p)
      \<and> f_fs (pr_files p1 ! i) = k \<and> k < length (sysfs_list g) \<and> takes (sysfs_list g ! k) (c_str name) True
      \<and> (\<forall>l<k. \<not> takes (sysfs_list g ! l) (c_str name) True) \<and> (\<forall>j. j \<noteq> i \<longrightarrow> pr_files p1 ! j = pr_files p ! j)
      \<and> (get_handle i p1 AND NOT 1 \<noteq> 0 \<longrightarrow> (\<forall>e u p2. unistd_close g x r p1 = Some (e, u, p2) \<longrightarrow>
          first_free_fd p2 i \<and> (\<forall>j. j \<noteq> i \<longrightarrow> pr_files p2 ! j = pr_files p ! j)))"
proof (cases "r < 0")
  case True
  then show ?thesis using open_effect [OF assms] by auto
next
  case False
  then obtain i k h l where i: "r = int i" "first_free_fd p i" "sysfs_find g (c_str name) True = Some k"
    "pr_files p1 = (pr_files p)[i := \<lparr>f_fs = k, f_handle = h, f_flags = fl, f_loc = l\<rparr>]"
    using open_effect [OF assms] by auto
  have len: "i < length (pr_files p)" using i(2) by (simp add: first_free_fd_def)
  have k: "k < length (sysfs_list g) \<and> takes (sysfs_list g ! k) (c_str name) True \<and> (\<forall>l<k. \<not> takes (sysfs_list g ! l) (c_str name) True)"
    using i(3) sysfs_find_first [OF NUL_c_str] by blast
  have "first_free_fd p2 i \<and> (\<forall>j. j \<noteq> i \<longrightarrow> pr_files p2 ! j = pr_files p ! j)"
    if "get_handle i p1 AND NOT 1 \<noteq> 0" "unistd_close g x r p1 = Some (e, u, p2)" for e u p2
    using close_effect [of g x i p1 e u p2] that i len by (simp add: first_free_fd_def)
  with False i len k show ?thesis by auto
qed

theorem open_close_descriptor_witness:
  "\<exists>p1. unistd_open plain_config 0 empty_stat a_path rdwr 0 plain_proc = Some (0, p1)
     \<and> (\<forall>e u p2. unistd_close plain_config 0 0 p1 = Some (e, u, p2) \<longrightarrow> first_free_fd p2 0)"
proof -
  have "\<not> fl_creat rdwr" "\<not> fl_append rdwr" by (simp_all add: rdwr_def)
  then obtain p1 where p1: "unistd_open plain_config 0 empty_stat a_path rdwr 0 plain_proc = Some (0, p1)"
    "get_handle 0 p1 = 8"
    using new_open_file_first [OF plain_free] plain_free [unfolded first_free_fd_def]
    by (simp add: unistd_open_def open_at_def plain_path plain_facts Let_def set_open_file_def get_handle_def)
  from open_close_descriptor [OF p1(1)] p1 show ?thesis by (auto simp: rdwr_def)
qed

text \<open>
  A descriptor is lost when \<open>open\<close> is called with O_CREAT and the mode of a directory: the call fails with EINVAL
  and leaves the descriptor it has reserved with the handle 1. No later \<open>open\<close> is given it, and \<open>close\<close>
  refuses it with EBADF.
\<close>

theorem open_directory_mode_leaks:
  assumes "sysfs_ispathinvalid g name = None" "sysfs_find g (c_str name) True = Some k" "first_free_fd p i"
    and "fl_creat fl" "mode AND S_IFMT = S_IFDIR"
  shows "\<exists>p1. unistd_open g x st name fl mode p = Some (-1, p1) \<and> sys_errno (pr_sys p1) = EINVAL
    \<and> (\<forall>j. f_handle (pr_files p1 ! j) = (if j = i then 1 else f_handle (pr_files p ! j)))
    \<and> unistd_close g y (int i) p1 = Some (-1, (), err EBADF p1)"
proof -
  let ?p1 = "err EINVAL (upd_file i (\<lambda>f. f\<lparr>f_handle := 1\<rparr>) p)"
  have l: "i < length (pr_files p)" using assms(3) by (simp add: first_free_fd_def)
  have "unistd_open g x st name fl mode p = Some (-1, ?p1)"
    using assms by (simp add: unistd_open_def open_at_def new_open_file_first Let_def)
  moreover have "unistd_close g y (int i) ?p1 = Some (-1, (), err EBADF ?p1)"
    using l by (simp add: unistd_close_def fildes_bad get_handle_def)
  ultimately show ?thesis using l by (auto simp: nth_list_update)
qed

theorem open_directory_mode_leaks_witness:
  "\<exists>p1. unistd_open plain_config 0 empty_stat a_path (rdwr\<lparr>fl_creat := True\<rparr>) 0x4000 plain_proc = Some (-1, p1)
     \<and> f_handle (pr_files p1 ! 0) = 1 \<and> unistd_close plain_config 0 0 p1 = Some (-1, (), err EBADF p1)"
proof -
  have f: "sysfs_find plain_config (c_str a_path) True = Some 0" unfolding plain_path(2) by (rule plain_path(3))
  from open_directory_mode_leaks [OF plain_path(1) f plain_free, of "rdwr\<lparr>fl_creat := True\<rparr>" "0x4000" 0 empty_stat 0]
  show ?thesis by auto
qed

text \<open>
  A path belongs to the first mount whose path is a prefix of it, at a component boundary or not. So \<open>unlink\<close> of
  a name that only begins with the path of a mount removes, in that file system, the file whose name is
  what follows.
\<close>

theorem unlink_beside_mount:
  assumes "sysfs_ispathinvalid g (path @ NUL # rest) = None" "NUL \<notin> set path" "k < length (sysfs_list g)"
    and "path = mount_path (sysfs_list g ! k) @ s" "1 < length s" "hd s \<noteq> CHR ''/''"
    and "\<forall>j<k. \<not> takes (sysfs_list g ! j) path True"
  shows "unistd_unlink g (path @ NUL # rest) p =
    map_option (\<lambda>(r, s'). (r, (), p\<lparr>pr_sys := s'\<rparr>)) (fs_unlink (sysfs_list g ! k) s (pr_sys p))"
proof -
  have c: "c_str (path @ NUL # rest) = path" by (rule c_str_append_NUL [OF assms(2)])
  have "takes (sysfs_list g ! k) path True" using assms(4,5) by (auto simp: takes_def)
  then have f: "sysfs_find g path True = Some k" using sysfs_find_first [OF assms(2)] assms(3,7) by blast
  have st: "sysfs_stripmountpath (sysfs_list g ! k) path = s" using strip_mount [OF assms(4)] assms(6) by simp
  show ?thesis
    by (cases "fs_unlink (sysfs_list g ! k) s (pr_sys p)")
       (simp_all add: unistd_unlink_def on_path_def assms(1) c f st plain_def split: prod.split)
qed

theorem unlink_beside_mount_witness:
  "unistd_unlink plain_config (''/homework'' @ NUL # []) plain_proc = Some (4, (), plain_proc)"
proof -
  have v: "sysfs_ispathinvalid plain_config (''/homework'' @ NUL # []) = None"
    by (subst path_outcome [OF refl]) (simp_all add: plain_facts sysfs_validset_def)
  have "unistd_unlink plain_config (''/homework'' @ NUL # []) plain_proc
    = map_option (\<lambda>(r, s'). (r, (), plain_proc\<lparr>pr_sys := s'\<rparr>)) (fs_unlink (sysfs_list plain_config ! 0) ''work'' (pr_sys plain_proc))"
    by (rule unlink_beside_mount [OF v]) (simp_all add: plain_facts)
  then show ?thesis by (simp only: plain_facts) simp
qed

end
