(* ===== verification/FileStore.thy ===== *)
theory FileStore
  imports Descriptors
begin

section \<open>The interface of a file system to the calls on descriptors\<close>

subsection \<open>Calls on a descriptor, and what they do to a file with a place\<close>

datatype fd_call = FRead nat | FWrite "byte list" | FSeek int whence

definition fd_do :: "'w config \<Rightarrow> u32 \<Rightarrow> stat_t \<Rightarrow> int \<Rightarrow> fd_call \<Rightarrow> 'w proc \<Rightarrow> (int \<times> byte list \<times> 'w proc) option" where
  "fd_do g junk st fd k p =
    (case k of
      FRead n \<Rightarrow> unistd_read g junk st fd (int n) p
    | FWrite buf \<Rightarrow> unistd_write g junk st fd buf (int (length buf)) p
    | FSeek off w \<Rightarrow> map_option (\<lambda>(r, _, p1). (r, [], p1)) (lseek g junk st fd off w p))"

fun fd_run :: "'w config \<Rightarrow> u32 \<Rightarrow> stat_t \<Rightarrow> int \<Rightarrow> fd_call list \<Rightarrow> 'w proc \<Rightarrow> ((int \<times> byte list) list \<times> 'w proc) option" where
  "fd_run g junk st fd [] p = Some ([], p)"
| "fd_run g junk st fd (k # ks) p = do {
    (r, bs, p1) \<leftarrow> fd_do g junk st fd k p;
    (rs, p2) \<leftarrow> fd_run g junk st fd ks p1;
    Some ((r, bs) # rs, p2)
  }"

text \<open>The specification: a sequence of bytes \<open>xs\<close> and a place in it.\<close>

definition seek_place :: "int \<Rightarrow> whence \<Rightarrow> byte list \<Rightarrow> nat \<Rightarrow> int" where
  "seek_place off w xs pos = (case w of SEEK_SET \<Rightarrow> off | SEEK_CUR \<Rightarrow> int pos + off | _ \<Rightarrow> int (length xs) + off)"

definition write_place :: "flags \<Rightarrow> byte list \<Rightarrow> nat \<Rightarrow> nat" where
  "write_place fl xs pos = (if fl_append fl then length xs else pos)"

fun fd_spec1 :: "flags \<Rightarrow> fd_call \<Rightarrow> byte list \<Rightarrow> nat \<Rightarrow> (int \<times> byte list) \<times> byte list \<times> nat" where
  "fd_spec1 fl (FRead n) xs pos = (let ys = take n (drop pos xs) in ((int (length ys), ys), xs, pos + length ys))"
| "fd_spec1 fl (FWrite buf) xs pos = ((int (length buf), []), overwritten (write_place fl xs pos) buf xs, pos + length buf)"
| "fd_spec1 fl (FSeek off w) xs pos = ((seek_place off w xs pos, []), xs, nat (seek_place off w xs pos))"

fun fd_spec :: "flags \<Rightarrow> fd_call list \<Rightarrow> byte list \<Rightarrow> nat \<Rightarrow> (int \<times> byte list) list \<times> byte list \<times> nat" where
  "fd_spec fl [] xs pos = ([], xs, pos)"
| "fd_spec fl (k # ks) xs pos =
    (case fd_spec1 fl k xs pos of (r, ys, q) \<Rightarrow> (case fd_spec fl ks ys q of (rs, zs, e) \<Rightarrow> (r # rs, zs, e)))"

text \<open>No transfer starts behind the end or leaves the largest file, and no seek goes before the start.\<close>

fun fd_ok1 :: "nat \<Rightarrow> flags \<Rightarrow> fd_call \<Rightarrow> byte list \<Rightarrow> nat \<Rightarrow> bool" where
  "fd_ok1 mx fl (FRead n) xs pos \<longleftrightarrow> pos \<le> length xs"
| "fd_ok1 mx fl (FWrite buf) xs pos \<longleftrightarrow> write_place fl xs pos \<le> length xs \<and> write_place fl xs pos + length buf \<le> mx"
| "fd_ok1 mx fl (FSeek off w) xs pos \<longleftrightarrow> w \<noteq> SEEK_OTHER \<and> 0 \<le> seek_place off w xs pos"

fun fd_ok :: "nat \<Rightarrow> flags \<Rightarrow> fd_call list \<Rightarrow> byte list \<Rightarrow> nat \<Rightarrow> bool" where
  "fd_ok mx fl [] xs pos = True"
| "fd_ok mx fl (k # ks) xs pos \<longleftrightarrow> fd_ok1 mx fl k xs pos \<and> (case fd_spec1 fl k xs pos of (r, ys, q) \<Rightarrow> fd_ok mx fl ks ys q)"

text \<open>A descriptor of the mount \<open>k\<close> that is open for reading and writing, with its handle and place.\<close>

definition fd_at :: "'w config \<Rightarrow> 'w sysfs \<Rightarrow> 'w proc \<Rightarrow> nat \<Rightarrow> u32 \<Rightarrow> flags \<Rightarrow> nat \<Rightarrow> bool" where
  "fd_at g fs p i h fl pos \<longleftrightarrow> i < length (pr_files p) \<and> h AND NOT 1 \<noteq> 0 \<and> fl_acc fl = RDWR
     \<and> f_handle (pr_files p ! i) = h \<and> f_flags (pr_files p ! i) = fl \<and> f_loc (pr_files p ! i) = int pos
     \<and> sysfs_list g ! f_fs (pr_files p ! i) = fs"

text \<open>Nothing of the process but the place of one descriptor and the state of the file systems changes.\<close>

definition moved :: "'w proc \<Rightarrow> nat \<Rightarrow> nat \<Rightarrow> 'w proc \<Rightarrow> bool" where
  "moved p i q p' \<longleftrightarrow> pr_files p' = (pr_files p)[i := (pr_files p ! i)\<lparr>f_loc := int q\<rparr>]"

lemma moved_trans: "moved p i q p1 \<Longrightarrow> moved p1 i r p2 \<Longrightarrow> i < length (pr_files p) \<Longrightarrow> moved p i r p2"
  by (simp add: moved_def)

lemma moved_at: "fd_at g fs p i h fl pos \<Longrightarrow> moved p i q p' \<Longrightarrow> fd_at g fs p' i h fl q"
  by (simp add: fd_at_def moved_def)

lemma moved_same: "fd_at g fs p i h fl pos \<Longrightarrow> pr_files p' = pr_files p \<Longrightarrow> moved p i pos p'"
proof -
  assume a: "fd_at g fs p i h fl pos" "pr_files p' = pr_files p"
  then have "(pr_files p ! i)\<lparr>f_loc := int pos\<rparr> = pr_files p ! i" by (simp add: fd_at_def)
  with a show ?thesis by (simp add: moved_def)
qed

lemma set_loc_sel [simp]: "pr_files (set_loc i l p) = (pr_files p)[i := (pr_files p ! i)\<lparr>f_loc := l\<rparr>]"
  "pr_sys (set_loc i l p) = pr_sys p"
  by (simp_all add: set_loc_def)

subsection \<open>The interface\<close>

text \<open>
  \<open>holds k h xs ys w\<close>: in the state \<open>w\<close> the handle \<open>h\<close> stands for the bytes \<open>xs\<close>, open for reading and writing, the other open
  handles stand for what \<open>ys\<close> says, and there are \<open>k\<close> blocks left. A read and a write take the blocks they may need.
\<close>

locale file_store =
  fixes fs :: "'w sysfs" and holds :: "nat \<Rightarrow> u32 \<Rightarrow> byte list \<Rightarrow> (u32 \<times> byte list) list \<Rightarrow> 'w \<Rightarrow> bool"
    and read_cost :: nat and write_cost :: "nat \<Rightarrow> nat" and max_size :: nat
  assumes regular: "fs_transfer fs = None"
    and read_law: "holds (read_cost + k) h xs ys (sys_world s) \<Longrightarrow> loc \<le> length xs \<Longrightarrow>
      \<exists>s'. fs_read fs h fl (int loc) (int n) s = Some (int (length (take n (drop loc xs))), take n (drop loc xs), s')
        \<and> holds k h xs ys (sys_world s')"
    and write_law: "holds (write_cost (length buf) + k) h xs ys (sys_world s) \<Longrightarrow> write_place fl xs loc \<le> length xs \<Longrightarrow>
      write_place fl xs loc + length buf \<le> max_size \<Longrightarrow>
      \<exists>s'. fs_write fs h fl (int loc) buf (int (length buf)) s = Some (int (length buf), s')
        \<and> holds k h (overwritten (write_place fl xs loc) buf xs) ys (sys_world s')"
    and size_known: "holds k h xs ys (sys_world s) \<Longrightarrow>
      \<exists>r st' s'. fs_fstat fs h st s = Some (r, st', s') \<and> st_size st' = int (length xs) \<and> sys_world s' = sys_world s"
begin

fun cost :: "fd_call \<Rightarrow> nat" where
  "cost (FRead n) = read_cost"
| "cost (FWrite buf) = write_cost (length buf)"
| "cost (FSeek off w) = 0"

lemma fd_read_effect:
  assumes f: "fd_at g fs p i h fl pos" and w: "holds (read_cost + k) h xs ys (sys_world (pr_sys p))" and l: "pos \<le> length xs"
  shows "\<exists>p'. unistd_read g junk st (int i) (int n) p = Some (int (length (take n (drop pos xs))), take n (drop pos xs), p')
    \<and> moved p i (pos + length (take n (drop pos xs))) p' \<and> holds k h xs ys (sys_world (pr_sys p'))"
proof -
  obtain s' where s: "fs_read fs h fl (int pos) (int n) (pr_sys p) = Some (int (length (take n (drop pos xs))), take n (drop pos xs), s')"
    "holds k h xs ys (sys_world s')" using read_law [OF w l] by blast
  have at: "int i < int (length (pr_files p))" "get_handle (nat (int i)) p AND NOT 1 \<noteq> 0" "get_fs g i p = fs"
    "f_handle (pr_files p ! i) = h" "f_flags (pr_files p ! i) = fl" "f_loc (pr_files p ! i) = int pos" "fl_acc fl = RDWR"
    using f by (simp_all add: fd_at_def get_handle_def get_fs_def)
  have "unistd_read g junk st (int i) (int n) p
    = Some (int (length (take n (drop pos xs))), take n (drop pos xs), set_loc i (int pos + int (length (take n (drop pos xs)))) (p\<lparr>pr_sys := s'\<rparr>))"
    unfolding unistd_read_def by (subst fildes_good) (use at s(1) regular in \<open>simp_all add: Let_def\<close>)
  then show ?thesis using s(2) by (simp add: moved_def del: length_take length_drop)
qed

lemma fd_write_effect:
  assumes f: "fd_at g fs p i h fl pos" and w: "holds (write_cost (length buf) + k) h xs ys (sys_world (pr_sys p))"
    and l: "write_place fl xs pos \<le> length xs" "write_place fl xs pos + length buf \<le> max_size"
  shows "\<exists>p'. unistd_write g junk st (int i) buf (int (length buf)) p = Some (int (length buf), [], p')
    \<and> moved p i (pos + length buf) p' \<and> holds k h (overwritten (write_place fl xs pos) buf xs) ys (sys_world (pr_sys p'))"
proof -
  obtain s' where s: "fs_write fs h fl (int pos) buf (int (length buf)) (pr_sys p) = Some (int (length buf), s')"
    "holds k h (overwritten (write_place fl xs pos) buf xs) ys (sys_world s')" using write_law [OF w l] by blast
  have at: "int i < int (length (pr_files p))" "get_handle (nat (int i)) p AND NOT 1 \<noteq> 0" "get_fs g i p = fs"
    "f_handle (pr_files p ! i) = h" "f_flags (pr_files p ! i) = fl" "f_loc (pr_files p ! i) = int pos" "fl_acc fl = RDWR"
    using f by (simp_all add: fd_at_def get_handle_def get_fs_def)
  let ?p = "if buf = [] then p\<lparr>pr_sys := s'\<rparr> else set_loc i (int pos + int (length buf)) (p\<lparr>pr_sys := s'\<rparr>)"
  have "unistd_write g junk st (int i) buf (int (length buf)) p = Some (int (length buf), [], ?p)"
    unfolding unistd_write_def by (subst fildes_good) (use at s(1) regular in \<open>auto simp: Let_def\<close>)
  moreover have "moved p i (pos + length buf) ?p" using moved_same [OF f, of ?p] by (auto simp: moved_def)
  moreover have "pr_sys ?p = s'" by simp
  ultimately show ?thesis using s(2) by metis
qed

lemma fd_seek_effect:
  assumes f: "fd_at g fs p i h fl pos" and w: "holds k h xs ys (sys_world (pr_sys p))"
    and l: "whence \<noteq> SEEK_OTHER" "0 \<le> seek_place off whence xs pos"
  shows "\<exists>p'. lseek g junk st (int i) off whence p = Some (seek_place off whence xs pos, (), p')
    \<and> moved p i (nat (seek_place off whence xs pos)) p' \<and> holds k h xs ys (sys_world (pr_sys p'))"
proof -
  have at: "int i < int (length (pr_files p))" "get_handle (nat (int i)) p AND NOT 1 \<noteq> 0" "get_fs g i p = fs" "get_handle i p = h"
    "f_loc (pr_files p ! i) = int pos" using f by (simp_all add: fd_at_def get_handle_def get_fs_def)
  obtain r st' s' where s: "fs_fstat fs h (st\<lparr>st_size := 0\<rparr>) (pr_sys p) = Some (r, st', s')" "st_size st' = int (length xs)"
    "sys_world s' = sys_world (pr_sys p)" using size_known [OF w] by blast
  have run: "lseek g junk st (int i) off whence p = seek_from g st off whence i p"
    unfolding lseek_def by (subst fildes_good) (use at in simp_all)
  show ?thesis
  proof (cases whence)
    case SEEK_END
    then show ?thesis unfolding run using s at l w
      by (simp add: seek_from_def get_size_def seek_place_def moved_def set_errno_def)
  next
    case SEEK_SET
    then show ?thesis unfolding run using l w by (simp add: seek_from_def seek_place_def moved_def)
  next
    case SEEK_CUR
    then show ?thesis unfolding run using l w at by (simp add: seek_from_def Let_def seek_place_def moved_def)
  qed (use l in simp)
qed

lemma fd_call_effect:
  assumes f: "fd_at g fs p i h fl pos" and w: "holds (cost c + k) h xs ys (sys_world (pr_sys p))"
    and ok: "fd_ok1 max_size fl c xs pos" and r: "fd_spec1 fl c xs pos = ((r, bs), zs, q)"
  shows "\<exists>p'. fd_do g junk st (int i) c p = Some (r, bs, p') \<and> moved p i q p' \<and> holds k h zs ys (sys_world (pr_sys p'))"
proof (cases c)
  case (FRead n)
  with fd_read_effect [OF f, of k xs ys junk st n] w ok r show ?thesis by (auto simp: fd_do_def Let_def simp del: length_take length_drop)
next
  case (FWrite buf)
  with fd_write_effect [OF f, of buf k xs ys junk st] w ok r show ?thesis by (auto simp: fd_do_def)
next
  case (FSeek off whence)
  with fd_seek_effect [OF f, of k xs ys whence off junk st] w ok r show ?thesis by (auto simp: fd_do_def)
qed

text \<open>A sequence of calls on a descriptor does what it does to a sequence of bytes with a place.\<close>

lemma fd_run_effect:
  "fd_at g fs p i h fl pos \<Longrightarrow> holds (sum_list (map cost cs) + k) h xs ys (sys_world (pr_sys p)) \<Longrightarrow> fd_ok max_size fl cs xs pos
   \<Longrightarrow> fd_spec fl cs xs pos = (rs, zs, q) \<Longrightarrow>
   \<exists>p'. fd_run g junk st (int i) cs p = Some (rs, p') \<and> moved p i q p' \<and> holds k h zs ys (sys_world (pr_sys p'))"
proof (induction cs arbitrary: p xs pos rs)
  case Nil
  then show ?case using moved_same [OF Nil.prems(1) refl] by simp
next
  case (Cons c cs)
  obtain r bs xs1 q1 where s1: "fd_spec1 fl c xs pos = ((r, bs), xs1, q1)" by (metis prod.exhaust)
  obtain rs2 zs2 e2 where s2: "fd_spec fl cs xs1 q1 = (rs2, zs2, e2)" by (metis prod.exhaust)
  have e: "rs = (r, bs) # rs2" "zs2 = zs" "e2 = q" using Cons.prems(4) s1 s2 by simp_all
  have ok: "fd_ok1 max_size fl c xs pos" "fd_ok max_size fl cs xs1 q1" using Cons.prems(3) s1 by simp_all
  have w: "holds (cost c + (sum_list (map cost cs) + k)) h xs ys (sys_world (pr_sys p))" using Cons.prems(2) by (simp add: add.assoc)
  obtain p1 where p1: "fd_do g junk st (int i) c p = Some (r, bs, p1)" "moved p i q1 p1"
    "holds (sum_list (map cost cs) + k) h xs1 ys (sys_world (pr_sys p1))"
    using fd_call_effect [OF Cons.prems(1) w ok(1) s1, of junk st] by blast
  obtain p2 where p2: "fd_run g junk st (int i) cs p1 = Some (rs2, p2)" "moved p1 i q p2" "holds k h zs ys (sys_world (pr_sys p2))"
    using Cons.IH [OF moved_at [OF Cons.prems(1) p1(2)] p1(3) ok(2) s2 [unfolded e(2,3)]] by blast
  have "i < length (pr_files p)" using Cons.prems(1) by (simp add: fd_at_def)
  from moved_trans [OF p1(2) p2(2) this] p1(1) p2(1,3) e(1) show ?case by simp
qed

end

end
