(* ===== verification/Flash.thy ===== *)
theory Flash
  imports Prelude "HOL-Library.Monad_Syntax"
begin

section \<open>The flash device under the CAFS lite file system (sim_dev.c, cafs_lite_dev.h)\<close>

text \<open>
  CAFS lite keeps its blocks in a NOR flash: erasing a section sets its bytes to \<open>0xFF\<close>, and a write
  can only clear bits. The model follows \<open>sim_dev.c\<close>, the device the file system is tested on: a
  write that would set a cleared bit prints a message and calls \<open>exit(1)\<close>. A call that does not come
  back, because the program has exited, is the value \<open>None\<close>; a call that returns is
  \<open>Some (result, device)\<close>. The geometry, which \<open>cl_dev_getsize\<close> and \<open>cl_dev_geterasesize\<close> report,
  is kept in the device, so that the same definitions describe any disk; \<open>sim_device\<close> is the one of
  \<open>sim_dev.c\<close>. Locations and sizes are natural numbers: the code's are never negative.
\<close>

unbundle bit_operations_syntax

record flash =
  fl_mem :: "nat \<Rightarrow> byte"
  fl_size :: nat
  fl_erase :: nat
  dev_list_block :: int
  dev_serialno :: u32

abbreviation MEM_SIZE :: nat where "MEM_SIZE \<equiv> 1 * 1024 * 1024"
abbreviation ERASE_SIZE :: nat where "ERASE_SIZE \<equiv> 4096"

definition sim_device :: "(nat \<Rightarrow> byte) \<Rightarrow> flash" where
  "sim_device m = \<lparr>fl_mem = m, fl_size = MEM_SIZE, fl_erase = ERASE_SIZE, dev_list_block = 0, dev_serialno = 0\<rparr>"

definition cl_dev_getsize :: "flash \<Rightarrow> nat" where
  "cl_dev_getsize d = fl_size d"

definition cl_dev_geterasesize :: "flash \<Rightarrow> nat" where
  "cl_dev_geterasesize d = fl_erase d"

definition cl_dev_getlist_block :: "flash \<Rightarrow> int" where
  "cl_dev_getlist_block d = dev_list_block d"

definition cl_dev_setlist_block :: "int \<Rightarrow> flash \<Rightarrow> flash" where
  "cl_dev_setlist_block b d = d\<lparr>dev_list_block := b\<rparr>"

definition cl_dev_getserialno :: "flash \<Rightarrow> u32" where
  "cl_dev_getserialno d = dev_serialno d"

definition cl_dev_setserialno :: "u32 \<Rightarrow> flash \<Rightarrow> flash" where
  "cl_dev_setserialno sn d = d\<lparr>dev_serialno := sn\<rparr>"

subsection \<open>Write, read and erase\<close>

text \<open>The loop of \<open>cl_dev_write\<close>: bytes before the offending one have been stored when it exits.\<close>

fun write_bytes :: "nat \<Rightarrow> byte list \<Rightarrow> (nat \<Rightarrow> byte) \<Rightarrow> (nat \<Rightarrow> byte) option" where
  "write_bytes loc [] m = Some m"
| "write_bytes loc (src # bs) m =
    (if m loc OR src \<noteq> m loc then None else write_bytes (Suc loc) bs (m(loc := src)))"

definition cl_dev_write :: "nat \<Rightarrow> byte list \<Rightarrow> flash \<Rightarrow> (int \<times> flash) option" where
  "cl_dev_write loc buf d =
    (if loc \<ge> fl_size d then Some (-1, d)
     else let nbyte = if loc + length buf > fl_size d then fl_size d - loc else length buf
          in do {
            m \<leftarrow> write_bytes loc (take nbyte buf) (fl_mem d);
            Some (int nbyte, d\<lparr>fl_mem := m\<rparr>)
          })"

text \<open>\<open>cl_dev_read\<close> returns the number of bytes it copied and the bytes.\<close>

definition cl_dev_read :: "nat \<Rightarrow> nat \<Rightarrow> flash \<Rightarrow> int \<times> byte list" where
  "cl_dev_read loc n d =
    (if loc \<ge> fl_size d then (-1, [])
     else let nbyte = if loc + n > fl_size d then fl_size d - loc else n
          in (int nbyte, map (fl_mem d) [loc ..< loc + nbyte]))"

definition cl_dev_erase :: "flash \<Rightarrow> int \<times> flash" where
  "cl_dev_erase d = (0, d\<lparr>fl_mem := \<lambda>a. if a < fl_size d then 0xFF else fl_mem d a\<rparr>)"

text \<open>\<open>addr = loc & ~(ERASE_SIZE-1)\<close> is the start of the section of \<open>loc\<close>.\<close>

definition cl_dev_erasesection :: "nat \<Rightarrow> flash \<Rightarrow> int \<times> flash" where
  "cl_dev_erasesection loc d =
    (let addr = loc div fl_erase d * fl_erase d
     in (0, d\<lparr>fl_mem := \<lambda>a. if addr \<le> a \<and> a < addr + fl_erase d then 0xFF else fl_mem d a\<rparr>))"

subsection \<open>Bytes that can be written over others\<close>

definition overwrites :: "byte \<Rightarrow> byte \<Rightarrow> bool" where
  "overwrites new old \<longleftrightarrow> old OR new = old"

lemma overwrites_FF [simp]: "overwrites b 0xFF"
proof -
  have eq: "(0xFF :: byte) = -1" by simp
  show ?thesis unfolding overwrites_def eq by (rule bit_word_eqI) (simp add: bit_simps)
qed

lemma overwrites_0 [simp]: "overwrites 0 b"
  by (simp add: overwrites_def)

lemma overwrites_refl [simp]: "overwrites b b"
  by (simp add: overwrites_def)

lemma overwrites_trans: "overwrites a b \<Longrightarrow> overwrites b c \<Longrightarrow> overwrites a c"
  by (auto simp: overwrites_def) (metis or.assoc or.commute)

definition put :: "nat \<Rightarrow> byte list \<Rightarrow> (nat \<Rightarrow> byte) \<Rightarrow> (nat \<Rightarrow> byte)" where
  "put loc bs m = (\<lambda>a. if loc \<le> a \<and> a < loc + length bs then bs ! (a - loc) else m a)"

definition writable :: "nat \<Rightarrow> byte list \<Rightarrow> (nat \<Rightarrow> byte) \<Rightarrow> bool" where
  "writable loc bs m \<longleftrightarrow> (\<forall>i<length bs. overwrites (bs ! i) (m (loc + i)))"

lemma put_Nil [simp]: "put loc [] m = m"
  by (rule ext) (auto simp: put_def)

lemma put_Cons: "put loc (b # bs) m = put (Suc loc) bs (m(loc := b))"
  by (rule ext) (auto simp: put_def nth_Cons' Suc_diff_Suc)

lemma writable_Cons:
  "writable loc (b # bs) m \<longleftrightarrow> overwrites b (m loc) \<and> writable (Suc loc) bs (m(loc := b))"
  by (auto simp: writable_def All_less_Suc2)

lemma write_bytes_put:
  "write_bytes loc bs m = (if writable loc bs m then Some (put loc bs m) else None)"
proof (induction bs arbitrary: loc m)
  case Nil
  then show ?case by (simp add: writable_def)
next
  case (Cons b bs)
  show ?case
    by (simp only: write_bytes.simps Cons.IH writable_Cons put_Cons) (simp add: overwrites_def)
qed

lemma cl_dev_write_put:
  assumes "loc + length bs \<le> fl_size d" "bs \<noteq> []"
  shows "cl_dev_write loc bs d = (if writable loc bs (fl_mem d)
     then Some (int (length bs), d\<lparr>fl_mem := put loc bs (fl_mem d)\<rparr>) else None)"
  using assms by (cases bs) (auto simp: cl_dev_write_def write_bytes_put Let_def)

lemma cl_dev_read_map:
  assumes "loc + n \<le> fl_size d" "0 < n"
  shows "cl_dev_read loc n d = (int n, map (fl_mem d) [loc ..< loc + n])"
  using assms by (auto simp: cl_dev_read_def)

lemma put_outside [simp]: "a < loc \<or> loc + length bs \<le> a \<Longrightarrow> put loc bs m a = m a"
  by (auto simp: put_def)

lemma put_inside: "i < length bs \<Longrightarrow> put loc bs m (loc + i) = bs ! i"
  by (simp add: put_def)

lemma map_put_same [simp]: "map (put loc bs m) [loc ..< loc + length bs] = bs"
  by (rule nth_equalityI) (auto simp: put_def)

lemma map_put_outside:
  "hi \<le> loc \<or> loc + length bs \<le> lo \<Longrightarrow> map (put loc bs m) [lo ..< hi] = map m [lo ..< hi]"
  by auto

subsection \<open>Little-endian fields\<close>

text \<open>\<open>block_t\<close> and the addresses are natural numbers, stored as a little-endian field of \<open>k\<close> bytes.\<close>

fun put_le :: "nat \<Rightarrow> nat \<Rightarrow> byte list" where
  "put_le 0 n = []"
| "put_le (Suc k) n = of_nat n # put_le k (n div 256)"

fun get_le :: "byte list \<Rightarrow> nat" where
  "get_le [] = 0"
| "get_le (b # bs) = unat b + 256 * get_le bs"

lemma length_put_le [simp]: "length (put_le k n) = k"
  by (induction k arbitrary: n) auto

lemma get_put_le: "get_le (put_le k n) = n mod 256 ^ k"
  by (induction k arbitrary: n) (auto simp: unat_of_nat mod_mult2_eq)

lemma get_put_le_id [simp]: "n < 256 ^ k \<Longrightarrow> get_le (put_le k n) = n"
  by (simp add: get_put_le)

lemma get_le_bound: "get_le bs < 256 ^ length bs"
proof (induction bs)
  case (Cons b bs)
  have "unat b < 256" using unsigned_less [of b] by simp
  with Cons show ?case by simp
qed simp

lemma put_get_le: "put_le (length bs) (get_le bs) = bs"
proof (induction bs)
  case (Cons b bs)
  have b: "unat b < 256" using unsigned_less [of b] by simp
  have "(of_nat (unat b + 256 * get_le bs) :: byte) = b"
  proof -
    have z: "(of_nat 256 :: byte) = 0" by simp
    show ?thesis by (simp only: of_nat_add of_nat_mult z mult_zero_left add_0_right) simp
  qed
  moreover have "(unat b + 256 * get_le bs) div 256 = get_le bs" using b by simp
  ultimately show ?case using Cons by simp
qed simp

end
