(* ===== verification/CafsBlock.thy ===== *)
theory CafsBlock
  imports Flash
begin

section \<open>CAFS lite blocks (cafs_lite_block.c, cafs_lite_local.h)\<close>

text \<open>
  The disk is an array of 128-byte blocks; each starts with a header that holds the serial number of
  the file the block belongs to, its type and its status. A block goes from FREE (erased) through
  OPEN and CLOSED to DIRTY by clearing bits of its status byte, and is FREE again when the section it
  lies in is erased. The last section of the disk is the scratch area, which \<open>cl_block_gettotal\<close> does
  not count. Here are the headers, loading and saving, and the allocation of a block; the erasure of
  dirty sections is in \<open>CafsErase\<close>.
\<close>

abbreviation BLOCK_SIZE :: nat where "BLOCK_SIZE \<equiv> 128"
abbreviation BLOCK_INVALID :: nat where "BLOCK_INVALID \<equiv> 0xFFFF"
abbreviation FIRST_BLOCK :: nat where "FIRST_BLOCK \<equiv> 1"
abbreviation CL_SERIALNO_LIST :: u32 where "CL_SERIALNO_LIST \<equiv> 0"
abbreviation SERIALNO_INVALID :: u32 where "SERIALNO_INVALID \<equiv> 0xFFFFFFFF"

abbreviation BLOCK_STATUS_FREE :: byte where "BLOCK_STATUS_FREE \<equiv> 0xFF"
abbreviation BLOCK_STATUS_OPEN :: byte where "BLOCK_STATUS_OPEN \<equiv> 0xFE"
abbreviation BLOCK_STATUS_CLOSED :: byte where "BLOCK_STATUS_CLOSED \<equiv> 0xFC"
abbreviation BLOCK_STATUS_DISCARDING :: byte where "BLOCK_STATUS_DISCARDING \<equiv> 0xF8"
abbreviation BLOCK_STATUS_DIRTY :: byte where "BLOCK_STATUS_DIRTY \<equiv> 0x00"

abbreviation BLOCK_TYPE_LIST_FLAG :: byte where "BLOCK_TYPE_LIST_FLAG \<equiv> 0x80"
abbreviation BLOCK_TYPE_LINKED_LIST_FLAG :: byte where "BLOCK_TYPE_LINKED_LIST_FLAG \<equiv> 0x40"
abbreviation BLOCK_TYPE_SERIALNO_LIST :: byte where "BLOCK_TYPE_SERIALNO_LIST \<equiv> 0x80"
abbreviation BLOCK_TYPE_FILE_HDR :: byte where "BLOCK_TYPE_FILE_HDR \<equiv> 0x04"
abbreviation BLOCK_TYPE_FILE_LIST :: byte where "BLOCK_TYPE_FILE_LIST \<equiv> 0x85"
abbreviation BLOCK_TYPE_FILE_DATA :: byte where "BLOCK_TYPE_FILE_DATA \<equiv> 0x06"

text \<open>A number stored in a \<open>block_t\<close>.\<close>

definition to_block :: "nat \<Rightarrow> nat" where
  "to_block n = n mod 65536"

record cl_block_hdr =
  bh_serialno :: u32
  bh_type :: byte
  bh_status :: byte

record cl_block_data =
  bd_hdr :: cl_block_hdr
  bd_data :: "byte list"

text \<open>The packed layout of the two structures.\<close>

definition hdr_bytes :: "cl_block_hdr \<Rightarrow> byte list" where
  "hdr_bytes h = put_le 4 (unat (bh_serialno h)) @ [bh_type h, bh_status h]"

definition bytes_hdr :: "byte list \<Rightarrow> cl_block_hdr" where
  "bytes_hdr bs = \<lparr>bh_serialno = of_nat (get_le (take 4 bs)), bh_type = bs ! 4, bh_status = bs ! 5\<rparr>"

definition data_bytes :: "cl_block_data \<Rightarrow> byte list" where
  "data_bytes x = hdr_bytes (bd_hdr x) @ bd_data x"

definition bytes_data :: "byte list \<Rightarrow> cl_block_data" where
  "bytes_data bs = \<lparr>bd_hdr = bytes_hdr bs, bd_data = drop 6 bs\<rparr>"

definition get_cl_block_addr :: "nat \<Rightarrow> nat" where
  "get_cl_block_addr block = BLOCK_SIZE * block"

definition cl_block_geteraseable :: "flash \<Rightarrow> nat" where
  "cl_block_geteraseable d = to_block (cl_dev_geterasesize d div BLOCK_SIZE)"

definition cl_block_gettotal :: "flash \<Rightarrow> nat" where
  "cl_block_gettotal d = (cl_dev_getsize d - cl_dev_geterasesize d) div BLOCK_SIZE"

subsection \<open>Loading, saving and changing the status\<close>

text \<open>A function that returns 0 or -1 and fills a buffer returns the buffer as an option.\<close>

definition cl_block_loadhdr :: "nat \<Rightarrow> flash \<Rightarrow> cl_block_hdr option" where
  "cl_block_loadhdr src d =
    (if src = BLOCK_INVALID then None
     else let (r, bs) = cl_dev_read (get_cl_block_addr src) 6 d
          in if r \<noteq> 6 then None else Some (bytes_hdr bs))"

definition cl_block_load :: "nat \<Rightarrow> flash \<Rightarrow> cl_block_data option" where
  "cl_block_load b d =
    (if b = BLOCK_INVALID then None
     else let (r, bs) = cl_dev_read (get_cl_block_addr b) BLOCK_SIZE d
          in if r \<noteq> int BLOCK_SIZE then None else Some (bytes_data bs))"

text \<open>\<open>cl_block_get_serialno\<close> takes the byte count of a successful read for a failure.\<close>

definition cl_block_get_serialno :: "nat \<Rightarrow> flash \<Rightarrow> u32" where
  "cl_block_get_serialno b d =
    (let (r, bs) = cl_dev_read (get_cl_block_addr b) 6 d
     in if r \<noteq> 0 then -1 else bh_serialno (bytes_hdr bs))"

definition cl_block_saveraw :: "nat \<Rightarrow> cl_block_data \<Rightarrow> flash \<Rightarrow> (int \<times> flash) option" where
  "cl_block_saveraw b x d = do {
    (r, d1) \<leftarrow> cl_dev_write (get_cl_block_addr b) (data_bytes x) d;
    Some (if r \<noteq> int BLOCK_SIZE then -1 else 0, d1)
  }"

text \<open>
  \<open>cl_block_save\<close> sets the status of the caller's data to OPEN and writes them from the status byte on. It returns
  the caller's data as it leaves them.
\<close>

definition cl_block_save :: "nat \<Rightarrow> cl_block_data \<Rightarrow> flash \<Rightarrow> (int \<times> cl_block_data \<times> flash) option" where
  "cl_block_save b x d =
    (if b = BLOCK_INVALID then Some (-1, x, d)
     else let y = x\<lparr>bd_hdr := (bd_hdr x)\<lparr>bh_status := BLOCK_STATUS_OPEN\<rparr>\<rparr>
       in do {
         (r, d1) \<leftarrow> cl_dev_write (get_cl_block_addr b + 5) (bh_status (bd_hdr y) # bd_data y) d;
         Some (if r \<noteq> int BLOCK_SIZE - 5 then -1 else 0, y, d1)
       })"

definition cl_block_setstatus :: "nat \<Rightarrow> byte \<Rightarrow> flash \<Rightarrow> (int \<times> flash) option" where
  "cl_block_setstatus b status d =
    (if b = BLOCK_INVALID then Some (-1, d)
     else cl_dev_write (get_cl_block_addr b + 5) [status] d)"

definition cl_block_discard :: "nat \<Rightarrow> flash \<Rightarrow> (int \<times> flash) option" where
  "cl_block_discard b d = cl_block_setstatus b BLOCK_STATUS_DIRTY d"

definition cl_block_close :: "nat \<Rightarrow> flash \<Rightarrow> (int \<times> flash) option" where
  "cl_block_close b d = cl_block_setstatus b BLOCK_STATUS_CLOSED d"

text \<open>The loop of \<open>cl_block_discardopen\<close> from block \<open>i\<close> with \<open>n\<close> blocks to go.\<close>

fun discardopen_loop :: "nat \<Rightarrow> nat \<Rightarrow> flash \<Rightarrow> (int \<times> flash) option" where
  "discardopen_loop i 0 d = Some (0, d)"
| "discardopen_loop i (Suc n) d =
    (case cl_block_loadhdr (to_block i) d of
       None \<Rightarrow> Some (-1, d)
     | Some hdr \<Rightarrow>
         if bh_status hdr = BLOCK_STATUS_OPEN then do {
           (r, d1) \<leftarrow> cl_block_discard (to_block i) d;
           if r < 0 then Some (-1, d1) else discardopen_loop (Suc i) n d1
         } else discardopen_loop (Suc i) n d)"

definition cl_block_discardopen :: "flash \<Rightarrow> (int \<times> flash) option" where
  "cl_block_discardopen d = discardopen_loop FIRST_BLOCK (cl_block_gettotal d - FIRST_BLOCK) d"

subsection \<open>Allocating a block\<close>

definition mark_allocated :: "nat \<Rightarrow> u32 \<Rightarrow> byte \<Rightarrow> flash \<Rightarrow> (int \<times> flash) option" where
  "mark_allocated block serialno ty d =
    cl_dev_write (get_cl_block_addr block)
      (hdr_bytes \<lparr>bh_serialno = serialno, bh_type = ty, bh_status = BLOCK_STATUS_OPEN\<rparr>) d"

text \<open>
  The loops of \<open>alloc_block\<close> return \<open>Some b\<close> when the function returns \<open>b\<close> from within the loop, and
  \<open>None\<close> when the loop ends. \<open>read_hdr\<close> is the test of \<open>cl_dev_read\<close> the loops share.
\<close>

definition read_hdr :: "nat \<Rightarrow> flash \<Rightarrow> cl_block_hdr option" where
  "read_hdr i d = (let (r, bs) = cl_dev_read (get_cl_block_addr i) 6 d
     in if r \<noteq> 6 then None else Some (bytes_hdr bs))"

definition take_block :: "nat \<Rightarrow> u32 \<Rightarrow> byte \<Rightarrow> flash \<Rightarrow> (nat option \<times> flash) option" where
  "take_block i serialno ty d = do {
    (r, d1) \<leftarrow> mark_allocated i serialno ty d;
    Some (Some (if r < 0 then BLOCK_INVALID else to_block i), d1)
  }"

function alloc_scan :: "nat \<Rightarrow> nat \<Rightarrow> u32 \<Rightarrow> byte \<Rightarrow> flash \<Rightarrow> (nat option \<times> flash) option" where
  "alloc_scan i hi serialno ty d =
    (if i < hi then
       case read_hdr i d of
         None \<Rightarrow> Some (Some BLOCK_INVALID, d)
       | Some hdr \<Rightarrow>
           if bh_status hdr = BLOCK_STATUS_FREE then take_block i serialno ty d
           else alloc_scan (i + 1) hi serialno ty d
     else Some (None, d))"
  by pat_completeness auto
termination by (relation "measure (\<lambda>(i, hi, _). hi - i)") auto

text \<open>The loop over \<open>j\<close>: one erasable section, left at the first block another file holds.\<close>

function alloc_section :: "nat \<Rightarrow> nat \<Rightarrow> nat \<Rightarrow> u32 \<Rightarrow> byte \<Rightarrow> flash \<Rightarrow> (nat option \<times> flash) option" where
  "alloc_section i j e serialno ty d =
    (if j < e then
       case read_hdr (i + j) d of
         None \<Rightarrow> Some (Some BLOCK_INVALID, d)
       | Some hdr \<Rightarrow>
           if bh_status hdr = BLOCK_STATUS_CLOSED \<or> bh_status hdr = BLOCK_STATUS_OPEN then
             if bh_serialno hdr \<noteq> serialno then Some (None, d)
             else alloc_section i (j + 1) e serialno ty d
           else if bh_status hdr = BLOCK_STATUS_FREE then take_block (i + j) serialno ty d
           else alloc_section i (j + 1) e serialno ty d
     else Some (None, d))"
  by pat_completeness auto
termination by (relation "measure (\<lambda>(i, j, e, _). e - j)") auto

text \<open>The loop over the sections; with a section size of 0 it would not end.\<close>

function alloc_sections :: "nat \<Rightarrow> nat \<Rightarrow> nat \<Rightarrow> u32 \<Rightarrow> byte \<Rightarrow> flash \<Rightarrow> (nat option \<times> flash) option" where
  "alloc_sections i count e serialno ty d =
    (if i < count then
       if e = 0 then None
       else do {
         (r, d1) \<leftarrow> alloc_section i 0 e serialno ty d;
         case r of Some b \<Rightarrow> Some (Some b, d1) | None \<Rightarrow> alloc_sections (i + e) count e serialno ty d1
       }
     else Some (None, d))"
  by pat_completeness auto
termination by (relation "measure (\<lambda>(i, count, _). count - i)") auto

declare alloc_scan.simps [simp del] alloc_section.simps [simp del] alloc_sections.simps [simp del]

definition alloc_block :: "u32 \<Rightarrow> nat \<Rightarrow> byte \<Rightarrow> flash \<Rightarrow> (nat \<times> flash) option" where
  "alloc_block serialno hint0 ty d =
    (let e = cl_block_geteraseable d; count = cl_block_gettotal d; first = FIRST_BLOCK;
         hint = if hint0 < first then first else hint0;
         first_loop = e - hint mod e + hint
     in do {
       (r1, d1) \<leftarrow> (if hint \<noteq> BLOCK_INVALID then alloc_scan (hint + 1) first_loop serialno ty d
                  else Some (None, d));
       case r1 of Some b \<Rightarrow> Some (b, d1)
       | None \<Rightarrow> do {
           (r2, d2) \<leftarrow> alloc_sections
             (if hint \<noteq> BLOCK_INVALID then max (hint + 1) first_loop else first) count e serialno ty d1;
           case r2 of Some b \<Rightarrow> Some (b, d2)
           | None \<Rightarrow> do {
               (r3, d3) \<leftarrow> alloc_scan first count serialno ty d2;
               case r3 of Some b \<Rightarrow> Some (b, d3) | None \<Rightarrow> Some (BLOCK_INVALID, d3)
             }
         }
     })"


subsection \<open>Geometry and the contents of a block\<close>

text \<open>
  The geometries the file system can use: sections are whole blocks and the disk is whole sections,
  the scratch area has room for its table and its 30 blocks, and the numbers of all blocks fit in a
  \<open>block_t\<close>.
\<close>

definition geometry :: "flash \<Rightarrow> bool" where
  "geometry d \<longleftrightarrow> fl_erase d mod 128 = 0 \<and> fl_size d mod fl_erase d = 0 \<and> 30 * 132 \<le> fl_erase d
     \<and> fl_erase d < fl_size d \<and> fl_size d div 128 < 65535"

text \<open>The two geometry functions by plain arithmetic, and the number of erasable sections in use.\<close>

definition per_section :: "flash \<Rightarrow> nat" where
  "per_section d = fl_erase d div 128"

definition all_blocks :: "flash \<Rightarrow> nat" where
  "all_blocks d = fl_size d div 128"

definition status_of :: "flash \<Rightarrow> nat \<Rightarrow> byte" where
  "status_of d b = fl_mem d (128 * b + 5)"

definition serial_of :: "flash \<Rightarrow> nat \<Rightarrow> u32" where
  "serial_of d b = of_nat (get_le (map (fl_mem d) [128 * b ..< 128 * b + 4]))"

definition type_of :: "flash \<Rightarrow> nat \<Rightarrow> byte" where
  "type_of d b = fl_mem d (128 * b + 4)"

definition hdr_of :: "flash \<Rightarrow> nat \<Rightarrow> cl_block_hdr" where
  "hdr_of d b = \<lparr>bh_serialno = serial_of d b, bh_type = type_of d b, bh_status = status_of d b\<rparr>"

definition blk :: "flash \<Rightarrow> nat \<Rightarrow> byte list" where
  "blk d b = map (fl_mem d) [128 * b ..< 128 * b + 128]"

lemma geometry_pos: "geometry d \<Longrightarrow> 0 < per_section d"
  by (auto simp: geometry_def per_section_def)

lemma geteraseable_eq: "geometry d \<Longrightarrow> cl_block_geteraseable d = per_section d"
  by (auto simp: geometry_def per_section_def cl_block_geteraseable_def to_block_def cl_dev_geterasesize_def
      dest: div_le_mono [of _ _ 128])

lemma geometry_sections:
  assumes "geometry d"
  obtains k where "all_blocks d = (k + 1) * per_section d" "cl_block_gettotal d = k * per_section d" "0 < k"
    "fl_erase d = 128 * per_section d" "fl_size d = 128 * all_blocks d"
proof -
  from assms obtain n where e: "fl_erase d = 128 * n" by (auto simp: geometry_def)
  from assms obtain m where s: "fl_size d = fl_erase d * m" by (auto simp: geometry_def)
  from assms e s have n: "0 < n" and m: "1 < m" by (auto simp: geometry_def)
  then obtain k where k: "m = k + 1" "0 < k" by (metis Suc_eq_plus1 less_imp_Suc_add add_gr_0 zero_less_one less_SucE plus_1_eq_Suc)
  show thesis
    by (rule that [of k])
       (use e s n k in \<open>auto simp: all_blocks_def per_section_def cl_block_gettotal_def cl_dev_getsize_def
          cl_dev_geterasesize_def algebra_simps\<close>)
qed

lemma gettotal_less: "geometry d \<Longrightarrow> cl_block_gettotal d + per_section d = all_blocks d"
  by (erule geometry_sections) (simp add: algebra_simps)

lemma all_blocks_bound: "geometry d \<Longrightarrow> all_blocks d < 65535"
  by (simp add: geometry_def all_blocks_def)

lemma block_in_size: "b < all_blocks d \<Longrightarrow> 128 * b + 128 \<le> fl_size d"
  by (auto simp: all_blocks_def)

lemma read_hdr_hdr_of: "b < all_blocks d \<Longrightarrow> read_hdr b d = Some (hdr_of d b)"
  by (drule block_in_size)
     (simp add: read_hdr_def get_cl_block_addr_def cl_dev_read_map bytes_hdr_def hdr_of_def serial_of_def
        type_of_def status_of_def take_map)

lemma loadhdr_hdr_of: "b < all_blocks d \<Longrightarrow> b \<noteq> BLOCK_INVALID \<Longrightarrow> cl_block_loadhdr b d = Some (hdr_of d b)"
  using read_hdr_hdr_of [of b d] by (simp add: cl_block_loadhdr_def read_hdr_def)

lemma load_blk: "b < all_blocks d \<Longrightarrow> b \<noteq> BLOCK_INVALID \<Longrightarrow> cl_block_load b d = Some (bytes_data (blk d b))"
  by (drule block_in_size) (simp add: cl_block_load_def get_cl_block_addr_def cl_dev_read_map blk_def)


subsection \<open>The order in which blocks are tried\<close>

text \<open>
  \<open>alloc_block\<close> as a reference definition: it takes the first FREE block of a list of candidates, the
  rest of the section of the hint, then the following sections, each up to the first block that
  another file holds, then all blocks.
\<close>

definition held_by_other :: "flash \<Rightarrow> u32 \<Rightarrow> nat \<Rightarrow> bool" where
  "held_by_other d sn b \<longleftrightarrow>
     (status_of d b = BLOCK_STATUS_CLOSED \<or> status_of d b = BLOCK_STATUS_OPEN) \<and> serial_of d b \<noteq> sn"

function section_starts :: "nat \<Rightarrow> nat \<Rightarrow> nat \<Rightarrow> nat list" where
  "section_starts i count e = (if i < count \<and> 0 < e then i # section_starts (i + e) count e else [])"
  by pat_completeness auto
termination by (relation "measure (\<lambda>(i, count, _). count - i)") auto

declare section_starts.simps [simp del]

definition section_candidates :: "flash \<Rightarrow> u32 \<Rightarrow> nat \<Rightarrow> nat list" where
  "section_candidates d sn s = takeWhile (\<lambda>b. \<not> held_by_other d sn b) [s ..< s + per_section d]"

definition candidates :: "flash \<Rightarrow> u32 \<Rightarrow> nat \<Rightarrow> nat list" where
  "candidates d sn hint =
    (let e = per_section d; h = max hint 1; next_section = e * (h div e + 1)
     in (if h = BLOCK_INVALID then [] else [h + 1 ..< next_section])
        @ concat (map (section_candidates d sn)
            (section_starts (if h = BLOCK_INVALID then 1 else next_section) (cl_block_gettotal d) e))
        @ [1 ..< cl_block_gettotal d])"

definition first_free :: "flash \<Rightarrow> nat list \<Rightarrow> nat option" where
  "first_free d bs = List.find (\<lambda>b. status_of d b = BLOCK_STATUS_FREE) bs"

definition take_first :: "nat option \<Rightarrow> u32 \<Rightarrow> byte \<Rightarrow> flash \<Rightarrow> (nat option \<times> flash) option" where
  "take_first c sn ty d = (case c of None \<Rightarrow> Some (None, d) | Some b \<Rightarrow> take_block b sn ty d)"

lemma first_free_append:
  "first_free d (xs @ ys) = (case first_free d xs of None \<Rightarrow> first_free d ys | Some b \<Rightarrow> Some b)"
  by (induction xs) (auto simp: first_free_def)

lemma first_free_Nil [simp]: "first_free d [] = None"
  by (simp add: first_free_def)

lemma first_free_SomeD:
  "first_free d bs = Some b \<Longrightarrow> b \<in> set bs \<and> status_of d b = BLOCK_STATUS_FREE"
  by (auto simp: first_free_def find_Some_iff)

lemma first_free_NoneD: "first_free d bs = None \<Longrightarrow> b \<in> set bs \<Longrightarrow> status_of d b \<noteq> BLOCK_STATUS_FREE"
  by (auto simp: first_free_def find_None_iff)

lemma alloc_scan_first:
  "hi \<le> all_blocks d \<Longrightarrow> alloc_scan lo hi sn ty d = take_first (first_free d [lo ..< hi]) sn ty d"
proof (induction lo hi sn ty d rule: alloc_scan.induct)
  case (1 i hi sn ty d)
  show ?case
  proof (cases "i < hi")
    case True
    then have "read_hdr i d = Some (hdr_of d i)" using 1 by (simp add: read_hdr_hdr_of)
    with True 1 show ?thesis
      by (subst alloc_scan.simps) (simp add: hdr_of_def upt_conv_Cons first_free_def take_first_def)
  qed (simp add: alloc_scan.simps take_first_def)
qed

lemma alloc_section_first:
  "i + e \<le> all_blocks d \<Longrightarrow> alloc_section i j e sn ty d
     = take_first (first_free d (takeWhile (\<lambda>b. \<not> held_by_other d sn b) [i + j ..< i + e])) sn ty d"
proof (induction i j e sn ty d rule: alloc_section.induct)
  case (1 i j e sn ty d)
  show ?case
  proof (cases "j < e")
    case True
    then have "read_hdr (i + j) d = Some (hdr_of d (i + j))" using 1 by (simp add: read_hdr_hdr_of)
    with True 1 show ?thesis
      by (subst alloc_section.simps)
         (auto simp: hdr_of_def held_by_other_def upt_conv_Cons first_free_def take_first_def)
  qed (simp add: alloc_section.simps take_first_def)
qed

lemma take_block_Some: "take_block b sn ty d = Some (r, d') \<Longrightarrow> r \<noteq> None"
  by (auto simp: take_block_def Option.bind_eq_Some_conv)

lemma take_first_None: "take_first c sn ty d = Some (None, d') \<Longrightarrow> c = None \<and> d' = d"
  by (auto simp: take_first_def split: option.splits dest: take_block_Some)

lemma alloc_sections_first:
  "0 < e \<Longrightarrow> e = per_section d \<Longrightarrow> (\<forall>s\<in>set (section_starts i count e). s + e \<le> all_blocks d) \<Longrightarrow>
   alloc_sections i count e sn ty d
     = take_first (first_free d (concat (map (section_candidates d sn) (section_starts i count e)))) sn ty d"
proof (induction i count e rule: section_starts.induct)
  case (1 i count e)
  show ?case
  proof (cases "i < count")
    case True
    have le: "i + e \<le> all_blocks d"
      and ge: "\<forall>s\<in>set (section_starts (i + e) count e). s + e \<le> all_blocks d"
      using "1.prems"(1,3) True by (subst (asm) section_starts.simps [of i count e], simp)+
    have sec: "alloc_section i 0 e sn ty d = take_first (first_free d (section_candidates d sn i)) sn ty d"
      using alloc_section_first [OF le, of 0 sn ty] "1.prems"(2) by (simp add: section_candidates_def)
    have rest: "alloc_sections (i + e) count e sn ty d =
        take_first (first_free d (concat (map (section_candidates d sn) (section_starts (i + e) count e)))) sn ty d"
      by (rule "1.IH") (use True "1.prems" ge in auto)
    show ?thesis
      using True "1.prems"(1) sec rest
      by (subst alloc_sections.simps, subst section_starts.simps)
         (auto simp: first_free_append take_first_def take_block_def split: option.splits Option.bind_splits)
  next
    case False
    then show ?thesis by (simp add: alloc_sections.simps section_starts.simps take_first_def)
  qed
qed


lemma section_startsD: "s \<in> set (section_starts i count e) \<Longrightarrow> i \<le> s \<and> s < count \<and> (\<exists>n. s = i + n * e)"
proof (induction i count e rule: section_starts.induct)
  case (1 i count e)
  show ?case
  proof (cases "s = i")
    case True
    then show ?thesis using "1.prems" by (subst (asm) section_starts.simps) (auto split: if_splits)
  next
    case False
    with "1.prems" have lt: "i < count" "0 < e" "s \<in> set (section_starts (i + e) count e)"
      by (subst (asm) section_starts.simps, auto split: if_splits)+
    with "1.IH" obtain n where "i + e \<le> s" "s < count" "s = i + e + n * e" by auto
    then show ?thesis by (intro conjI exI [of _ "Suc n"]) auto
  qed
qed

lemma next_section_eq:
  fixes e h :: nat
  assumes "0 < e"
  shows "e - h mod e + h = e * (h div e + 1)"
proof -
  from assms have "h mod e < e" by simp
  then have "e - h mod e + h = e + h div e * e" using div_mult_mod_eq [of h e] by linarith
  then show ?thesis by (simp add: algebra_simps)
qed

lemma next_section_gt: "0 < e \<Longrightarrow> h + 1 \<le> e * (h div e + 1)" for e h :: nat
  by (metis Suc_eq_plus1 Suc_leI dividend_less_times_div mult_Suc_right)

lemma next_section_le:
  assumes "geometry d" "h < cl_block_gettotal d"
  shows "per_section d * (h div per_section d + 1) \<le> cl_block_gettotal d"
proof -
  from assms(1) obtain k where k: "cl_block_gettotal d = k * per_section d" by (rule geometry_sections)
  have "h div per_section d < k" using assms(2) k by (simp add: less_mult_imp_div_less)
  then have "per_section d * (h div per_section d + 1) \<le> per_section d * k" by (intro mult_le_mono2) simp
  with k show ?thesis by (simp add: algebra_simps)
qed

lemma total_gt_1:
  assumes "geometry d"
  shows "1 < cl_block_gettotal d"
proof -
  from assms obtain k where k: "cl_block_gettotal d = k * per_section d" "0 < k" "fl_erase d = 128 * per_section d"
    by (rule geometry_sections)
  with assms have "30 \<le> per_section d" by (auto simp: geometry_def)
  moreover have "1 * per_section d \<le> k * per_section d" using k(2) by (intro mult_le_mono1) simp
  ultimately show ?thesis using k(1) by linarith
qed

lemma per_section_ge: "geometry d \<Longrightarrow> 30 \<le> per_section d"
  by (auto simp: geometry_def per_section_def)

lemma max_hint: "(if h < 1 then 1 else h) = max h 1" for h :: nat
  by auto

lemma take_first_Some [simp]: "take_first (Some b) sn ty d = take_block b sn ty d"
  and take_first_None' [simp]: "take_first None sn ty d = Some (None, d)"
  by (simp_all add: take_first_def)

lemma take_block_bind:
  "Option.bind (take_block b sn ty d) (\<lambda>(r, d'). case r of None \<Rightarrow> f d' | Some x \<Rightarrow> Some (x, d'))
   = Option.bind (take_block b sn ty d) (\<lambda>(r, d'). Some (case r of None \<Rightarrow> BLOCK_INVALID | Some x \<Rightarrow> x, d'))"
  by (auto simp: take_block_def split: Option.bind_splits)

lemma alloc_block_candidates:
  assumes geo: "geometry d" and hint: "hint < cl_block_gettotal d \<or> hint = BLOCK_INVALID"
  shows "alloc_block sn hint ty d =
    do {
      (r, d') \<leftarrow> take_first (first_free d (candidates d sn hint)) sn ty d;
      Some (case r of None \<Rightarrow> BLOCK_INVALID | Some b \<Rightarrow> b, d')
    }"
proof -
  define e where "e = per_section d"
  define h where "h = max hint 1"
  have e: "0 < e" using geometry_pos [OF geo] by (simp add: e_def)
  have total: "cl_block_gettotal d + e = all_blocks d" using gettotal_less [OF geo] by (simp add: e_def)
  have bound: "cl_block_gettotal d < 65535" using all_blocks_bound [OF geo] total by simp
  have h: "h < cl_block_gettotal d \<or> h = BLOCK_INVALID"
    using hint total_gt_1 [OF geo] by (auto simp: h_def)
  have fl: "e - h mod e + h = e * (h div e + 1)" using e by (rule next_section_eq)
  have mx: "max (h + 1) (e * (h div e + 1)) = e * (h div e + 1)" using next_section_gt [OF e, of h] by simp
  have s1: "(if h \<noteq> BLOCK_INVALID then alloc_scan (h + 1) (e * (h div e + 1)) sn ty d else Some (None, d)) =
      take_first (first_free d (if h = BLOCK_INVALID then [] else [h + 1 ..< e * (h div e + 1)])) sn ty d"
    using h next_section_le [OF geo, of h] total by (auto simp: alloc_scan_first e_def take_first_def)
  have s2: "alloc_sections s (cl_block_gettotal d) e sn ty d =
      take_first (first_free d (concat (map (section_candidates d sn) (section_starts s (cl_block_gettotal d) e)))) sn ty d"
    for s using total e by (intro alloc_sections_first) (auto simp: e_def dest: section_startsD)
  have s3: "alloc_scan 1 (cl_block_gettotal d) sn ty d = take_first (first_free d [1 ..< cl_block_gettotal d]) sn ty d"
    using total by (intro alloc_scan_first) simp
  let ?c1 = "first_free d (if h = BLOCK_INVALID then [] else [h + 1 ..< e * (h div e + 1)])"
  let ?s = "if h = BLOCK_INVALID then 1 else e * (h div e + 1)"
  let ?c2 = "first_free d (concat (map (section_candidates d sn) (section_starts ?s (cl_block_gettotal d) e)))"
  let ?c3 = "first_free d [1 ..< cl_block_gettotal d]"
  have start: "(if h \<noteq> BLOCK_INVALID then e * (h div e + 1) else 1) = ?s" by simp
  have all: "first_free d (candidates d sn hint) =
      (case ?c1 of None \<Rightarrow> (case ?c2 of None \<Rightarrow> ?c3 | Some b \<Rightarrow> Some b) | Some b \<Rightarrow> Some b)"
    by (simp only: candidates_def Let_def e_def [symmetric] h_def [symmetric] first_free_append)
  note unf = alloc_block_def Let_def geteraseable_eq [OF geo] max_hint e_def [symmetric] h_def [symmetric] fl mx s1
    start s2
  show ?thesis
  proof (cases ?c1)
    case (Some b)
    then show ?thesis
      by (simp only: unf all option.case take_first_Some take_block_bind)
  next
    case None
    note c1 = this
    show ?thesis
    proof (cases ?c2)
      case (Some b)
      with c1 show ?thesis
        by (simp only: unf all option.case take_first_Some take_first_None' Option.bind.simps prod.case take_block_bind)
    next
      case None
      with c1 show ?thesis
        by (simp only: unf s3 all option.case take_first_None' Option.bind.simps prod.case)
           (cases ?c3; simp only: take_first_None' take_first_Some take_block_bind Option.bind.simps prod.case option.case)
    qed
  qed
qed


subsection \<open>Allocation on a disk whose free blocks are erased\<close>

definition erased :: "flash \<Rightarrow> nat \<Rightarrow> bool" where
  "erased d b \<longleftrightarrow> (\<forall>a. 128 * b \<le> a \<and> a < 128 * b + 128 \<longrightarrow> fl_mem d a = 0xFF)"

definition clean :: "flash \<Rightarrow> bool" where
  "clean d \<longleftrightarrow> (\<forall>b<cl_block_gettotal d. status_of d b = BLOCK_STATUS_FREE \<longrightarrow> erased d b)"

definition marked :: "flash \<Rightarrow> nat \<Rightarrow> u32 \<Rightarrow> byte \<Rightarrow> flash" where
  "marked d b sn ty = d\<lparr>fl_mem := put (128 * b)
     (hdr_bytes \<lparr>bh_serialno = sn, bh_type = ty, bh_status = BLOCK_STATUS_OPEN\<rparr>) (fl_mem d)\<rparr>"

lemma length_hdr_bytes [simp]: "length (hdr_bytes h) = 6"
  by (simp add: hdr_bytes_def)

lemma hdr_bytes_nonempty [simp]: "hdr_bytes h \<noteq> []"
  by (simp add: hdr_bytes_def)

lemma bytes_hdr_hdr_bytes [simp]: "bytes_hdr (hdr_bytes h @ xs) = h"
  by (simp add: bytes_hdr_def hdr_bytes_def nth_append get_put_le mod_less unsigned_less [where w = "bh_serialno h", simplified])

lemma bytes_data_data_bytes [simp]: "bytes_data (data_bytes x) = x"
  by (simp add: bytes_data_def data_bytes_def)

lemma hdr_bytes_bytes_hdr:
  assumes "length bs = 128"
  shows "hdr_bytes (bytes_hdr bs) = take 6 bs"
proof -
  have "get_le (take 4 bs) < 2 ^ 32" using get_le_bound [of "take 4 bs"] assms by simp
  then have "put_le 4 (unat (of_nat (get_le (take 4 bs)) :: u32)) = take 4 bs"
    using put_get_le [of "take 4 bs"] assms by (simp add: unat_of_nat)
  moreover have "take 6 bs = take 4 bs @ [bs ! 4, bs ! 5]"
    using assms take_Suc_conv_app_nth [of 5 bs] take_Suc_conv_app_nth [of 4 bs] by simp
  ultimately show ?thesis by (simp add: hdr_bytes_def bytes_hdr_def)
qed

lemma data_bytes_bytes_data: "length bs = 128 \<Longrightarrow> data_bytes (bytes_data bs) = bs"
  by (simp add: data_bytes_def bytes_data_def hdr_bytes_bytes_hdr)

lemma length_blk [simp]: "length (blk d b) = 128"
  by (simp add: blk_def)

lemma data_bytes_load [simp]: "data_bytes (bytes_data (blk d b)) = blk d b"
  by (simp add: data_bytes_bytes_data)

lemma status_blk: "status_of d b = blk d b ! 5"
  and type_blk: "type_of d b = blk d b ! 4"
  and serial_blk: "serial_of d b = of_nat (get_le (take 4 (blk d b)))"
  by (simp_all add: status_of_def type_of_def serial_of_def blk_def take_map)

lemma erased_blk: "erased d b \<longleftrightarrow> blk d b = replicate 128 0xFF"
  by (auto simp: erased_def blk_def list_eq_iff_nth_eq) (metis le_add_diff_inverse less_diff_conv2 add.commute)

lemma blk_marked:
  "blk (marked d b sn ty) b' = (if b' = b
     then hdr_bytes \<lparr>bh_serialno = sn, bh_type = ty, bh_status = BLOCK_STATUS_OPEN\<rparr> @ drop 6 (blk d b) else blk d b')"
proof (cases "b' = b")
  case True
  then show ?thesis
    by (auto simp: blk_def marked_def list_eq_iff_nth_eq put_def nth_append)
next
  case False
  then consider "b' < b" | "b < b'" by linarith
  then have "128 * b' + 128 \<le> 128 * b \<or> 128 * b + 6 \<le> 128 * b'" by cases simp_all
  then have "map (put (128 * b) (hdr_bytes \<lparr>bh_serialno = sn, bh_type = ty, bh_status = BLOCK_STATUS_OPEN\<rparr>) (fl_mem d))
      [128 * b' ..< 128 * b' + 128] = map (fl_mem d) [128 * b' ..< 128 * b' + 128]"
    by (intro map_put_outside) simp
  with False show ?thesis by (simp add: blk_def marked_def)
qed

lemma hdr_marked:
  "hdr_of (marked d b sn ty) b' = (if b' = b
     then \<lparr>bh_serialno = sn, bh_type = ty, bh_status = BLOCK_STATUS_OPEN\<rparr> else hdr_of d b')"
proof -
  have h: "hdr_of e c = bytes_hdr (blk e c)" for e c
    by (simp add: hdr_of_def bytes_hdr_def status_blk type_blk serial_blk)
  show ?thesis by (simp add: h blk_marked)
qed

lemma status_marked: "status_of (marked d b sn ty) b' = (if b' = b then BLOCK_STATUS_OPEN else status_of d b')"
  and serial_marked: "serial_of (marked d b sn ty) b' = (if b' = b then sn else serial_of d b')"
  using hdr_marked [of d b sn ty b'] by (auto simp: hdr_of_def split: if_splits)

lemma marked_geometry [simp]: "geometry (marked d b sn ty) = geometry d"
  "cl_block_gettotal (marked d b sn ty) = cl_block_gettotal d"
  "per_section (marked d b sn ty) = per_section d" "all_blocks (marked d b sn ty) = all_blocks d"
  by (simp_all add: marked_def geometry_def cl_block_gettotal_def cl_dev_getsize_def cl_dev_geterasesize_def
      per_section_def all_blocks_def)

lemma clean_marked: "clean d \<Longrightarrow> clean (marked d b sn ty)"
  by (auto simp: clean_def status_marked erased_blk blk_marked)

lemma mark_allocated_erased:
  assumes "erased d b" "b < all_blocks d"
  shows "mark_allocated b sn ty d = Some (6, marked d b sn ty)"
proof -
  have "writable (128 * b) (hdr_bytes h) (fl_mem d)" for h
    using assms(1) by (auto simp: writable_def erased_def)
  then show ?thesis using block_in_size [OF assms(2)]
    by (simp add: mark_allocated_def get_cl_block_addr_def cl_dev_write_put marked_def)
qed

lemma candidates_range:
  assumes "geometry d" "hint < cl_block_gettotal d" "b \<in> set (candidates d sn hint)"
  shows "1 \<le> b \<and> b < cl_block_gettotal d"
proof -
  let ?e = "per_section d" and ?T = "cl_block_gettotal d"
  define h where "h = max hint 1"
  have e: "0 < ?e" using assms(1) by (rule geometry_pos)
  have T: "?T < BLOCK_INVALID" using gettotal_less [OF assms(1)] all_blocks_bound [OF assms(1)] by simp
  have h: "h < ?T" using assms(2) total_gt_1 [OF assms(1)] by (simp add: h_def)
  have ns: "?e * (h div ?e + 1) \<le> ?T" using next_section_le [OF assms(1) h] .
  from assms(1) obtain k where k: "?T = k * ?e" by (rule geometry_sections)
  have sec: "1 \<le> b \<and> b < ?T" if s: "s \<in> set (section_starts (?e * (h div ?e + 1)) ?T ?e)" and "b \<in> set [s ..< s + ?e]" for s
  proof -
    from section_startsD [OF s] obtain n where n: "s < ?T" "s = ?e * (h div ?e + 1) + n * ?e" by auto
    then have se: "s = (h div ?e + 1 + n) * ?e" by (simp add: algebra_simps)
    have "(h div ?e + 1 + n) * ?e < k * ?e" using n(1) se k by linarith
    then have "h div ?e + 1 + n < k" by (simp only: mult_less_cancel2)
    then have "(h div ?e + 1 + n + 1) * ?e \<le> k * ?e" by (intro mult_le_mono1) simp
    with se k that(2) e show ?thesis by auto
  qed
  have "b \<in> set [h + 1 ..< ?e * (h div ?e + 1)] \<or> b \<in> set [1 ..< ?T]
      \<or> (\<exists>s \<in> set (section_starts (?e * (h div ?e + 1)) ?T ?e). b \<in> set [s ..< s + ?e])"
    using assms(3) h T by (auto simp: candidates_def Let_def h_def section_candidates_def dest!: set_takeWhileD split: if_splits)
  then show ?thesis using ns sec by auto
qed

lemma alloc_block_clean:
  assumes "geometry d" "clean d" "hint < cl_block_gettotal d"
  shows "alloc_block sn hint ty d = Some (case first_free d (candidates d sn hint) of
     None \<Rightarrow> (BLOCK_INVALID, d) | Some b \<Rightarrow> (b, marked d b sn ty))"
proof (cases "first_free d (candidates d sn hint)")
  case None
  then show ?thesis using assms by (simp add: alloc_block_candidates)
next
  case (Some b)
  from first_free_SomeD [OF this] assms have b: "1 \<le> b" "b < cl_block_gettotal d" "erased d b"
    by (auto dest: candidates_range simp: clean_def)
  then have "b < all_blocks d" "b < 65536" using gettotal_less [OF assms(1)] all_blocks_bound [OF assms(1)] by auto
  with b Some assms show ?thesis
    by (simp add: alloc_block_candidates take_block_def mark_allocated_erased to_block_def)
qed


subsection \<open>The disk of the simulator\<close>

text \<open>An erased disk, and one whose blocks are all dirty but a closed block 40 of the file 7.\<close>

definition blank_disk :: flash where
  "blank_disk = sim_device (\<lambda>_. 0xFF)"

definition dirty_disk :: flash where
  "dirty_disk = sim_device (\<lambda>a. if 128 \<le> a \<and> a < 128 * 8160 then
       if a mod 128 = 5 then if a div 128 = 40 then BLOCK_STATUS_CLOSED else BLOCK_STATUS_DIRTY
       else if a mod 128 = 0 then 7 else 0
     else 0xFF)"

lemma sim_device_geometry:
  "geometry (sim_device m)" "per_section (sim_device m) = 32" "cl_block_gettotal (sim_device m) = 8160"
  "all_blocks (sim_device m) = 8192"
  by (simp_all add: geometry_def sim_device_def per_section_def cl_block_gettotal_def cl_dev_getsize_def
      cl_dev_geterasesize_def all_blocks_def)

lemma disk_geometry [simp]:
  "geometry blank_disk" "per_section blank_disk = 32" "cl_block_gettotal blank_disk = 8160" "all_blocks blank_disk = 8192"
  "geometry dirty_disk" "per_section dirty_disk = 32" "cl_block_gettotal dirty_disk = 8160" "all_blocks dirty_disk = 8192"
  by (simp_all add: blank_disk_def dirty_disk_def sim_device_geometry)

lemma blank_disk_erased: "erased blank_disk b"
  by (simp add: erased_def blank_disk_def sim_device_def)

lemma blank_disk_clean: "clean blank_disk"
  by (simp add: clean_def blank_disk_erased)

lemma dirty_disk_status:
  "b < 8160 \<Longrightarrow> status_of dirty_disk b = (if b = 0 then BLOCK_STATUS_FREE else if b = 40 then BLOCK_STATUS_CLOSED else BLOCK_STATUS_DIRTY)"
  by (cases b) (auto simp: status_of_def dirty_disk_def sim_device_def)

lemma dirty_disk_clean: "clean dirty_disk"
proof -
  have "erased dirty_disk 0" by (simp add: erased_def dirty_disk_def sim_device_def)
  then show ?thesis by (auto simp: clean_def dirty_disk_status split: if_splits)
qed

subsection \<open>Properties\<close>

text \<open>
  C34: \<open>alloc_block\<close> tries the blocks in a fixed order (the rest of the section of the hint, the
  following sections up to the first block another file holds, every block) and takes the first
  that is FREE: its header gets the serial number, the type and the status OPEN, no other block
  changes and no write fails; with no free block on the disk it returns \<open>BLOCK_INVALID\<close> and the disk
  is as before.
\<close>

theorem alloc_block_takes_first_free:
  assumes "geometry d" "clean d" "hint < cl_block_gettotal d"
  shows "\<exists>r d'. alloc_block sn hint ty d = Some (r, d') \<and> clean d' \<and>
    (case first_free d (candidates d sn hint) of
       Some b \<Rightarrow> r = b \<and> 1 \<le> b \<and> b < cl_block_gettotal d \<and> status_of d b = BLOCK_STATUS_FREE
         \<and> hdr_of d' b = \<lparr>bh_serialno = sn, bh_type = ty, bh_status = BLOCK_STATUS_OPEN\<rparr>
         \<and> (\<forall>c. c \<noteq> b \<longrightarrow> blk d' c = blk d c)
     | None \<Rightarrow> r = BLOCK_INVALID \<and> d' = d
         \<and> (\<forall>b. 1 \<le> b \<and> b < cl_block_gettotal d \<longrightarrow> status_of d b \<noteq> BLOCK_STATUS_FREE))"
proof (cases "first_free d (candidates d sn hint)")
  case None
  then have "\<forall>b. 1 \<le> b \<and> b < cl_block_gettotal d \<longrightarrow> status_of d b \<noteq> BLOCK_STATUS_FREE"
    by (auto dest!: first_free_NoneD simp: candidates_def Let_def)
  with None assms show ?thesis by (simp add: alloc_block_clean)
next
  case (Some b)
  from first_free_SomeD [OF this] candidates_range [OF assms(1,3)] Some assms show ?thesis
    by (auto simp: alloc_block_clean clean_marked hdr_marked blk_marked)
qed

lemma candidates_hint:
  "max hint 1 \<noteq> BLOCK_INVALID \<Longrightarrow> max hint 1 + 1 < per_section d * (max hint 1 div per_section d + 1) \<Longrightarrow>
   \<exists>xs. candidates d sn hint = (max hint 1 + 1) # xs"
  by (simp add: candidates_def Let_def upt_conv_Cons)

theorem alloc_block_takes_first_free_witness:
  "first_free blank_disk (candidates blank_disk 7 0) = Some 2
   \<and> (\<exists>r d'. alloc_block 7 0 BLOCK_TYPE_FILE_HDR blank_disk = Some (r, d') \<and> clean d' \<and> r = 2
       \<and> hdr_of d' 2 = \<lparr>bh_serialno = 7, bh_type = BLOCK_TYPE_FILE_HDR, bh_status = BLOCK_STATUS_OPEN\<rparr>)"
proof -
  have "\<exists>xs. candidates blank_disk 7 0 = (max 0 1 + 1) # xs"
    by (rule candidates_hint) simp_all
  then obtain xs where "candidates blank_disk 7 0 = 2 # xs" by (auto simp: numeral_2_eq_2)
  moreover have "status_of blank_disk 2 = BLOCK_STATUS_FREE" by (simp add: status_of_def blank_disk_def sim_device_def)
  ultimately have f: "first_free blank_disk (candidates blank_disk 7 0) = Some 2"
    by (simp add: first_free_def)
  with alloc_block_takes_first_free [of blank_disk 0 7 BLOCK_TYPE_FILE_HDR] blank_disk_clean show ?thesis by auto
qed

lemma section_starts_mem: "i + n * e < count \<Longrightarrow> 0 < e \<Longrightarrow> i + n * e \<in> set (section_starts i count e)"
proof (induction n arbitrary: i)
  case 0
  then show ?case by (subst section_starts.simps) simp
next
  case (Suc n)
  then have "i + e + n * e \<in> set (section_starts (i + e) count e)" by (intro Suc.IH) (simp_all add: algebra_simps)
  then show ?case using Suc.prems by (subst section_starts.simps) (auto simp: algebra_simps)
qed

lemma candidates_without_hint:
  assumes geo: "geometry d" and free: "status_of d (cl_block_gettotal d) = BLOCK_STATUS_FREE"
    and used: "\<forall>b\<in>{1 ..< cl_block_gettotal d}. status_of d b \<noteq> BLOCK_STATUS_FREE"
    and own: "\<forall>b\<in>{cl_block_gettotal d - per_section d + 1 ..< cl_block_gettotal d}. \<not> held_by_other d sn b"
  shows "first_free d (candidates d sn BLOCK_INVALID) = Some (cl_block_gettotal d)"
proof -
  let ?E = "per_section d" and ?T = "cl_block_gettotal d"
  from geo obtain k where k: "?T = k * ?E" "0 < k" by (rule geometry_sections)
  have E: "0 < ?E" using geo by (rule geometry_pos)
  have s: "1 + (k - 1) * ?E = ?T - ?E + 1" using k by (cases k) auto
  have le: "?E \<le> ?T" using k by (cases k) auto
  have "1 + (k - 1) * ?E \<in> set (section_starts 1 ?T ?E)"
    by (rule section_starts_mem) (use s le E per_section_ge [OF geo] in linarith)+
  moreover have "?T \<in> set (section_candidates d sn (?T - ?E + 1))"
  proof -
    have "takeWhile (\<lambda>b. \<not> held_by_other d sn b) [?T - ?E + 1 ..< ?T - ?E + 1 + ?E] = [?T - ?E + 1 ..< ?T - ?E + 1 + ?E]"
      using own free le E by (auto simp: takeWhile_eq_all_conv held_by_other_def less_Suc_eq)
    then have "section_candidates d sn (?T - ?E + 1) = [?T - ?E + 1 ..< ?T - ?E + 1 + ?E]"
      by (simp only: section_candidates_def)
    then show ?thesis using E le by (simp only: set_upt atLeastLessThan_iff) linarith
  qed
  ultimately have mem: "?T \<in> set (candidates d sn BLOCK_INVALID)"
    unfolding s by (auto simp: candidates_def Let_def)
  have range: "b < ?T \<or> b = ?T" if "b \<in> set (candidates d sn BLOCK_INVALID)" for b
  proof -
    have "b \<in> set [1 ..< ?T] \<or> (\<exists>s \<in> set (section_starts 1 ?T ?E). b \<in> set [s ..< s + ?E])"
      using that by (auto simp: candidates_def Let_def section_candidates_def dest!: set_takeWhileD)
    moreover have "s + ?E \<le> ?T + 1" if "s \<in> set (section_starts 1 ?T ?E)" for s
    proof -
      from section_startsD [OF that] obtain n where n: "1 + n * ?E < ?T" "s = 1 + n * ?E" by auto
      then have "n * ?E < k * ?E" using k by linarith
      then have "(n + 1) * ?E \<le> k * ?E" by (intro mult_le_mono1) (simp add: mult_less_cancel2)
      with n k show ?thesis by simp
    qed
    ultimately show ?thesis by fastforce
  qed
  have ge: "1 \<le> b" if "b \<in> set (candidates d sn BLOCK_INVALID)" for b
    using that by (auto simp: candidates_def Let_def section_candidates_def dest!: set_takeWhileD section_startsD)
  show ?thesis
  proof (cases "first_free d (candidates d sn BLOCK_INVALID)")
    case None
    with mem free show ?thesis by (auto dest: first_free_NoneD)
  next
    case (Some b)
    with first_free_SomeD [OF Some] range ge used show ?thesis by fastforce
  qed
qed

text \<open>
  Without a hint the search over the sections starts at block 1, so its last section runs one
  block past the disk's last: on a disk with no free block, where no other file holds a block of the
  last section, \<open>alloc_block\<close> hands out the first block of the scratch area and writes the caller's
  header over the scratch table.
\<close>

theorem alloc_without_hint_takes_scratch_block:
  assumes "geometry d" "erased d (cl_block_gettotal d)"
    and "\<forall>b\<in>{1 ..< cl_block_gettotal d}. status_of d b \<noteq> BLOCK_STATUS_FREE"
    and "\<forall>b\<in>{cl_block_gettotal d - per_section d + 1 ..< cl_block_gettotal d}. \<not> held_by_other d sn b"
  shows "\<exists>d'. alloc_block sn BLOCK_INVALID ty d = Some (cl_block_gettotal d, d')
    \<and> take 6 (blk d' (cl_block_gettotal d)) = put_le 4 (unat sn) @ [ty, BLOCK_STATUS_OPEN]"
proof -
  let ?T = "cl_block_gettotal d"
  have "status_of d ?T = BLOCK_STATUS_FREE" using assms(2) by (simp add: erased_def status_of_def)
  then have f: "first_free d (candidates d sn BLOCK_INVALID) = Some ?T"
    using assms by (intro candidates_without_hint) auto
  have T: "?T < all_blocks d" "?T < 65536"
    using gettotal_less [OF assms(1)] geometry_pos [OF assms(1)] all_blocks_bound [OF assms(1)] by auto
  have "alloc_block sn BLOCK_INVALID ty d = Some (?T, marked d ?T sn ty)"
    using f T assms(1,2) by (simp add: alloc_block_candidates take_block_def mark_allocated_erased to_block_def)
  moreover have "take 6 (blk (marked d ?T sn ty) ?T) = put_le 4 (unat sn) @ [ty, BLOCK_STATUS_OPEN]"
    by (simp add: blk_marked hdr_bytes_def)
  ultimately show ?thesis by blast
qed

theorem alloc_without_hint_takes_scratch_block_witness:
  "cl_block_gettotal dirty_disk = 8160 \<and>
   (\<exists>d'. alloc_block 9 BLOCK_INVALID BLOCK_TYPE_FILE_HDR dirty_disk = Some (8160, d')
     \<and> take 6 (blk d' 8160) = [9, 0, 0, 0, BLOCK_TYPE_FILE_HDR, BLOCK_STATUS_OPEN])"
proof -
  have "erased dirty_disk 8160" by (simp add: erased_def dirty_disk_def sim_device_def)
  then have e: "erased dirty_disk (cl_block_gettotal dirty_disk)" by simp
  have p: "put_le 4 9 = [9, 0, 0, 0]" by code_simp
  have u: "\<forall>b\<in>{1 ..< cl_block_gettotal dirty_disk}. status_of dirty_disk b \<noteq> BLOCK_STATUS_FREE"
    by (rule ballI) (simp add: dirty_disk_status)
  have o: "\<forall>b\<in>{cl_block_gettotal dirty_disk - per_section dirty_disk + 1 ..< cl_block_gettotal dirty_disk}.
      \<not> held_by_other dirty_disk 9 b"
    by (rule ballI) (simp add: dirty_disk_status held_by_other_def)
  show ?thesis
    using alloc_without_hint_takes_scratch_block [OF disk_geometry(5) e u o, of BLOCK_TYPE_FILE_HDR] by (simp add: p)
qed

end
