(* ===== verification/CafsScratch.thy ===== *)
theory CafsScratch
  imports CafsBlock
begin

section \<open>The scratch area (cafs_lite_scratch.c)\<close>

text \<open>
  Before a section is erased the blocks in it that are still in use are copied to the scratch area, the
  last section of the disk: a table of 30 entries, each naming the block its copy belongs to, followed
  by 30 blocks. \<open>cl_scratch_restore\<close>, which also runs when the file system starts, writes the copies
  back and strikes their entries.
\<close>

abbreviation SCRATCH_ENTRIES :: nat where "SCRATCH_ENTRIES \<equiv> 30"
abbreviation CAFS_SCRATCH_STATUS_UNUSED :: byte where "CAFS_SCRATCH_STATUS_UNUSED \<equiv> 0xFF"
abbreviation CAFS_SCRATCH_STATUS_COPIED :: byte where "CAFS_SCRATCH_STATUS_COPIED \<equiv> 0xFC"

record cl_scratch_entry =
  se_status :: byte
  se_original_block :: nat
  se_checksum :: byte

definition entry_bytes :: "cl_scratch_entry \<Rightarrow> byte list" where
  "entry_bytes e = [se_status e] @ put_le 2 (se_original_block e) @ [se_checksum e]"

definition bytes_entry :: "byte list \<Rightarrow> cl_scratch_entry" where
  "bytes_entry bs = \<lparr>se_status = bs ! 0, se_original_block = get_le (take 2 (drop 1 bs)), se_checksum = bs ! 3\<rparr>"

definition get_scratch_addr :: "flash \<Rightarrow> nat" where
  "get_scratch_addr d = cl_block_gettotal d * BLOCK_SIZE"

definition get_scratch_entry_addr :: "nat \<Rightarrow> flash \<Rightarrow> nat" where
  "get_scratch_entry_addr n d = get_scratch_addr d + n * 4"

definition get_scratch_block_addr :: "nat \<Rightarrow> flash \<Rightarrow> nat" where
  "get_scratch_block_addr n d = get_scratch_addr d + 4 * SCRATCH_ENTRIES + BLOCK_SIZE * n"

definition save_scratch_entry :: "nat \<Rightarrow> cl_scratch_entry \<Rightarrow> flash \<Rightarrow> (int \<times> flash) option" where
  "save_scratch_entry n entry d = do {
    (r, d1) \<leftarrow> cl_dev_write (get_scratch_entry_addr n d) (entry_bytes entry) d;
    Some (if r \<noteq> 4 then -1 else 0, d1)
  }"

text \<open>The checksum is the sum, in a byte, of the complements of the bytes before it.\<close>

definition scratch_sum :: "cl_scratch_entry \<Rightarrow> byte" where
  "scratch_sum entry = foldl (\<lambda>s b. s + NOT b) 0 (take 3 (entry_bytes entry))"

definition set_checksum :: "cl_scratch_entry \<Rightarrow> cl_scratch_entry" where
  "set_checksum entry = entry\<lparr>se_checksum := scratch_sum entry\<rparr>"

definition validate_checksum :: "cl_scratch_entry \<Rightarrow> int" where
  "validate_checksum entry = uint (scratch_sum entry) - uint (se_checksum entry)"

definition load_scratch_entry :: "nat \<Rightarrow> flash \<Rightarrow> cl_scratch_entry option" where
  "load_scratch_entry n d =
    (let (r, bs) = cl_dev_read (get_scratch_entry_addr n d) 4 d
     in if r \<noteq> 4 then None else Some (bytes_entry bs))"

definition strike_scratch_entry :: "nat \<Rightarrow> flash \<Rightarrow> (int \<times> flash) option" where
  "strike_scratch_entry n d = do {
    (r, d1) \<leftarrow> cl_dev_write (get_scratch_entry_addr n d) [0, 0, 0, 0] d;
    Some (if r \<noteq> 4 then -1 else 0, d1)
  }"

definition scratch_cl_block_is_ready :: "nat \<Rightarrow> flash \<Rightarrow> int" where
  "scratch_cl_block_is_ready n d =
    (let (r, bs) = cl_dev_read (get_scratch_block_addr n d) BLOCK_SIZE d
     in if r \<noteq> int BLOCK_SIZE then -1 else if \<forall>b\<in>set bs. b = 0xFF then 1 else 0)"

definition restore_block :: "nat \<Rightarrow> nat \<Rightarrow> flash \<Rightarrow> (int \<times> flash) option" where
  "restore_block original_block n d =
    (let (r, bs) = cl_dev_read (get_scratch_block_addr n d) BLOCK_SIZE d
     in if r \<noteq> int BLOCK_SIZE then Some (-1, d)
        else do {
          (r2, d1) \<leftarrow> cl_block_saveraw original_block (bytes_data bs) d;
          Some (if r2 < 0 then -1 else 0, d1)
        })"

definition copy_block_to_scratch :: "nat \<Rightarrow> nat \<Rightarrow> flash \<Rightarrow> (int \<times> flash) option" where
  "copy_block_to_scratch cl_block_num n d =
    (case cl_block_load cl_block_num d of
       None \<Rightarrow> Some (-1, d)
     | Some tmp \<Rightarrow> do {
         (r, d1) \<leftarrow> cl_dev_write (get_scratch_block_addr n d) (data_bytes tmp) d;
         Some (if r \<noteq> int BLOCK_SIZE then -1 else 0, d1)
       })"

definition cl_scratch_erase :: "flash \<Rightarrow> int \<times> flash" where
  "cl_scratch_erase d = cl_dev_erasesection (get_scratch_addr d) d"

text \<open>
  The search for an unused entry that \<open>cl_scratch_capacity\<close> and \<open>cl_scratch_saveblock\<close> both make, from
  entry \<open>i\<close> with \<open>n\<close> entries to go: its index, the table's length if there is none, \<open>None\<close> when an
  entry cannot be read.
\<close>

fun first_unused :: "nat \<Rightarrow> nat \<Rightarrow> flash \<Rightarrow> nat option" where
  "first_unused i 0 d = Some i"
| "first_unused i (Suc n) d =
    (case load_scratch_entry i d of
       None \<Rightarrow> None
     | Some entry \<Rightarrow> if se_status entry = CAFS_SCRATCH_STATUS_UNUSED then Some i else first_unused (Suc i) n d)"

definition cl_scratch_capacity :: "flash \<Rightarrow> int" where
  "cl_scratch_capacity d =
    (case first_unused 0 SCRATCH_ENTRIES d of None \<Rightarrow> -1 | Some i \<Rightarrow> int SCRATCH_ENTRIES - int i)"

definition cl_scratch_saveblock :: "nat \<Rightarrow> flash \<Rightarrow> (int \<times> flash) option" where
  "cl_scratch_saveblock cl_block_num d =
    (case first_unused 0 SCRATCH_ENTRIES d of
       None \<Rightarrow> Some (-1, d)
     | Some i \<Rightarrow>
         if i = SCRATCH_ENTRIES then Some (-1, d)
         else if scratch_cl_block_is_ready i d = 0 then do {
           (_, d1) \<leftarrow> strike_scratch_entry i d;
           Some (-1, d1)
         } else do {
           (r, d1) \<leftarrow> copy_block_to_scratch cl_block_num i d;
           if r < 0 then Some (-1, d1)
           else do {
             (r2, d2) \<leftarrow> save_scratch_entry i (set_checksum
               \<lparr>se_status = CAFS_SCRATCH_STATUS_COPIED, se_original_block = cl_block_num, se_checksum = 0\<rparr>) d1;
             Some (if r2 < 0 then -1 else 0, d2)
           }
         })"

fun restore_loop :: "nat \<Rightarrow> nat \<Rightarrow> flash \<Rightarrow> (int \<times> flash) option" where
  "restore_loop i 0 d = Some (0, d)"
| "restore_loop i (Suc n) d =
    (case load_scratch_entry i d of
       None \<Rightarrow> Some (-1, d)
     | Some entry \<Rightarrow>
         if se_status entry = CAFS_SCRATCH_STATUS_UNUSED then Some (0, d)
         else if se_status entry = CAFS_SCRATCH_STATUS_COPIED then do {
           (r, d1) \<leftarrow> (if validate_checksum entry = 0 then restore_block (se_original_block entry) i d
                     else Some (0, d));
           if r < 0 then Some (-1, d1)
           else do {
             (r2, d2) \<leftarrow> strike_scratch_entry i d1;
             if r2 < 0 then Some (-1, d2) else restore_loop (Suc i) n d2
           }
         } else restore_loop (Suc i) n d)"

definition cl_scratch_restore :: "flash \<Rightarrow> (int \<times> flash) option" where
  "cl_scratch_restore d = restore_loop 0 SCRATCH_ENTRIES d"

definition cl_scratch_init :: "flash \<Rightarrow> (int \<times> flash) option" where
  "cl_scratch_init d = cl_scratch_restore d"

subsection \<open>The disk as cells\<close>

text \<open>
  A block, an entry of the scratch table or a block of the scratch area is a cell; the cells of a disk
  do not overlap, so writing one leaves the others as they are.
\<close>

datatype cell = Blk nat | Ent nat | Copy nat

fun cell_len :: "cell \<Rightarrow> nat" where
  "cell_len (Blk b) = 128"
| "cell_len (Ent n) = 4"
| "cell_len (Copy n) = 128"

fun cell_addr :: "nat \<Rightarrow> cell \<Rightarrow> nat" where
  "cell_addr t (Blk b) = 128 * b"
| "cell_addr t (Ent n) = 128 * t + 4 * n"
| "cell_addr t (Copy n) = 128 * t + 120 + 128 * n"

fun cell_ok :: "nat \<Rightarrow> cell \<Rightarrow> bool" where
  "cell_ok t (Blk b) = (b < t)"
| "cell_ok t (Ent n) = (n < SCRATCH_ENTRIES)"
| "cell_ok t (Copy n) = (n < SCRATCH_ENTRIES)"

definition get :: "flash \<Rightarrow> cell \<Rightarrow> byte list" where
  "get d c = (let a = cell_addr (cl_block_gettotal d) c in map (fl_mem d) [a ..< a + cell_len c])"

definition set_cell :: "cell \<Rightarrow> byte list \<Rightarrow> flash \<Rightarrow> flash" where
  "set_cell c bs d = d\<lparr>fl_mem := put (cell_addr (cl_block_gettotal d) c) bs (fl_mem d)\<rparr>"

lemma cells_disjoint:
  "cell_ok t c \<Longrightarrow> cell_ok t c' \<Longrightarrow> c \<noteq> c' \<Longrightarrow>
   cell_addr t c + cell_len c \<le> cell_addr t c' \<or> cell_addr t c' + cell_len c' \<le> cell_addr t c"
  by (cases c; cases c') auto

lemma set_cell_simps [simp]:
  "cl_block_gettotal (set_cell c bs d) = cl_block_gettotal d" "fl_size (set_cell c bs d) = fl_size d"
  "fl_erase (set_cell c bs d) = fl_erase d" "geometry (set_cell c bs d) = geometry d"
  "per_section (set_cell c bs d) = per_section d" "all_blocks (set_cell c bs d) = all_blocks d"
  by (simp_all add: set_cell_def geometry_def cl_block_gettotal_def cl_dev_getsize_def cl_dev_geterasesize_def
      per_section_def all_blocks_def)

lemma get_set_cell:
  assumes "cell_ok (cl_block_gettotal d) c" "cell_ok (cl_block_gettotal d) c'" "length bs = cell_len c"
  shows "get (set_cell c bs d) c' = (if c' = c then bs else get d c')"
proof (cases "c' = c")
  case True
  then show ?thesis using map_put_same [of "cell_addr (cl_block_gettotal d) c" bs "fl_mem d"] assms
    by (simp add: get_def) (simp add: set_cell_def)
next
  case False
  let ?a = "cell_addr (cl_block_gettotal d)"
  have "?a c' + cell_len c' \<le> ?a c \<or> ?a c + length bs \<le> ?a c'"
    using cells_disjoint [of "cl_block_gettotal d" c c'] assms False by auto
  then have "map (put (?a c) bs (fl_mem d)) [?a c' ..< ?a c' + cell_len c'] = map (fl_mem d) [?a c' ..< ?a c' + cell_len c']"
    by (rule map_put_outside)
  with False show ?thesis by (simp add: get_def Let_def) (simp add: set_cell_def)
qed

lemma length_get [simp]: "length (get d c) = cell_len c"
  by (simp add: get_def Let_def)

lemma get_Blk: "get d (Blk b) = blk d b"
  by (simp add: get_def blk_def Let_def)

lemma scratch_room:
  assumes "geometry d"
  shows "128 * cl_block_gettotal d + 3960 \<le> fl_size d"
proof -
  from assms obtain k where k: "all_blocks d = (k + 1) * per_section d" "cl_block_gettotal d = k * per_section d"
    "fl_erase d = 128 * per_section d" "fl_size d = 128 * all_blocks d"
    by (rule geometry_sections)
  have "3960 \<le> fl_erase d" using assms by (simp add: geometry_def)
  with k show ?thesis by (simp add: algebra_simps)
qed

lemma cell_fits:
  assumes "geometry d" "cell_ok (cl_block_gettotal d) c"
  shows "cell_addr (cl_block_gettotal d) c + cell_len c \<le> fl_size d"
  using scratch_room [OF assms(1)] assms(2) by (cases c) auto

lemma read_cell:
  assumes "geometry d" "cell_ok (cl_block_gettotal d) c"
  shows "cl_dev_read (cell_addr (cl_block_gettotal d) c) (cell_len c) d = (int (cell_len c), get d c)"
  using cl_dev_read_map [OF cell_fits [OF assms]] by (cases c) (simp_all add: get_def Let_def)

definition over :: "byte list \<Rightarrow> byte list \<Rightarrow> bool" where
  "over new old \<longleftrightarrow> list_all2 overwrites new old"

lemma write_cell:
  assumes "geometry d" "cell_ok (cl_block_gettotal d) c" "length bs = cell_len c"
  shows "cl_dev_write (cell_addr (cl_block_gettotal d) c) bs d
    = (if over bs (get d c) then Some (int (cell_len c), set_cell c bs d) else None)"
proof -
  have ne: "bs \<noteq> []" using assms(3) by (cases c) auto
  have "writable (cell_addr (cl_block_gettotal d) c) bs (fl_mem d) = over bs (get d c)"
    using assms(3) by (auto simp: writable_def over_def list_all2_conv_all_nth get_def Let_def)
  with cl_dev_write_put [of "cell_addr (cl_block_gettotal d) c" bs d] cell_fits [OF assms(1,2)] ne assms(3)
  show ?thesis by (simp add: set_cell_def)
qed

lemma over_FF [simp]: "length bs = n \<Longrightarrow> over bs (replicate n 0xFF)"
  by (auto simp: over_def list_all2_conv_all_nth)

lemma over_zero [simp]: "length bs = n \<Longrightarrow> over (replicate n 0) bs"
  by (auto simp: over_def list_all2_conv_all_nth)


subsection \<open>The operations on cells\<close>

definition same_dev :: "flash \<Rightarrow> flash \<Rightarrow> bool" where
  "same_dev d d' \<longleftrightarrow> d' = d\<lparr>fl_mem := fl_mem d'\<rparr>"

lemma same_dev_refl [simp]: "same_dev d d"
  by (simp add: same_dev_def)

lemma same_dev_set_cell [simp]: "same_dev d (set_cell c bs d)"
  by (simp add: same_dev_def set_cell_def)

lemma same_dev_set_cell_iff [simp]: "same_dev (set_cell c bs d) d' \<longleftrightarrow> same_dev d d'"
  by (simp add: same_dev_def set_cell_def)

lemma same_dev_marked [simp]: "same_dev d (marked d b sn ty)"
  by (simp add: same_dev_def marked_def)

lemma same_dev_trans: "same_dev d e \<Longrightarrow> same_dev e f \<Longrightarrow> same_dev d f"
  by (auto simp: same_dev_def) (metis flash.unfold_congs(1) flash.update_convs(1) flash.surjective)

lemma same_dev_geometry:
  assumes "same_dev d d'"
  shows "geometry d' = geometry d" "cl_block_gettotal d' = cl_block_gettotal d" "per_section d' = per_section d"
    "all_blocks d' = all_blocks d" "fl_size d' = fl_size d" "fl_erase d' = fl_erase d"
    "dev_list_block d' = dev_list_block d" "dev_serialno d' = dev_serialno d"
proof -
  from assms obtain m where d': "d' = d\<lparr>fl_mem := m\<rparr>" by (auto simp: same_dev_def)
  show "geometry d' = geometry d" "cl_block_gettotal d' = cl_block_gettotal d" "per_section d' = per_section d"
    "all_blocks d' = all_blocks d" "fl_size d' = fl_size d" "fl_erase d' = fl_erase d"
    "dev_list_block d' = dev_list_block d" "dev_serialno d' = dev_serialno d"
    by (simp_all add: d' geometry_def cl_block_gettotal_def cl_dev_getsize_def cl_dev_geterasesize_def
        per_section_def all_blocks_def)
qed

definition copied_entry :: "nat \<Rightarrow> byte list" where
  "copied_entry b = entry_bytes (set_checksum
     \<lparr>se_status = CAFS_SCRATCH_STATUS_COPIED, se_original_block = b, se_checksum = 0\<rparr>)"

lemma length_entry_bytes [simp]: "length (entry_bytes e) = 4"
  by (simp add: entry_bytes_def)

lemma length_copied_entry [simp]: "length (copied_entry b) = 4"
  by (simp add: copied_entry_def)

lemma bytes_entry_bytes [simp]:
  "se_original_block e < 65536 \<Longrightarrow> bytes_entry (entry_bytes e) = e"
  by (simp add: bytes_entry_def entry_bytes_def nth_Cons' nth_append)

lemma set_checksum_simps [simp]:
  "se_status (set_checksum e) = se_status e" "se_original_block (set_checksum e) = se_original_block e"
  by (simp_all add: set_checksum_def)

lemma validate_set_checksum [simp]: "validate_checksum (set_checksum e) = 0"
  by (simp add: validate_checksum_def set_checksum_def scratch_sum_def entry_bytes_def numeral_2_eq_2 numeral_3_eq_3)

lemma load_entry_get:
  assumes "geometry d" "n < SCRATCH_ENTRIES"
  shows "load_scratch_entry n d = Some (bytes_entry (get d (Ent n)))"
  using read_cell [OF assms(1), of "Ent n"] assms(2)
  by (simp add: load_scratch_entry_def get_scratch_entry_addr_def get_scratch_addr_def mult.commute)

lemma strike_cell:
  assumes "geometry d" "n < SCRATCH_ENTRIES"
  shows "strike_scratch_entry n d = Some (0, set_cell (Ent n) (replicate 4 0) d)"
proof -
  have z: "[0, 0, 0, 0] = replicate 4 (0 :: byte)" by (simp add: numeral_eq_Suc)
  show ?thesis
    using write_cell [OF assms(1), of "Ent n" "replicate 4 0"] assms(2)
    by (simp add: strike_scratch_entry_def get_scratch_entry_addr_def get_scratch_addr_def mult.commute z)
qed

lemma save_entry_cell:
  assumes "geometry d" "n < SCRATCH_ENTRIES" "get d (Ent n) = replicate 4 0xFF"
  shows "save_scratch_entry n e d = Some (0, set_cell (Ent n) (entry_bytes e) d)"
  using write_cell [OF assms(1), of "Ent n" "entry_bytes e"] assms(2,3)
  by (simp add: save_scratch_entry_def get_scratch_entry_addr_def get_scratch_addr_def mult.commute)

lemma ready_cell:
  assumes "geometry d" "n < SCRATCH_ENTRIES"
  shows "scratch_cl_block_is_ready n d = (if get d (Copy n) = replicate 128 0xFF then 1 else 0)"
  using read_cell [OF assms(1), of "Copy n"] assms(2) length_get [of d "Copy n"]
  by (simp add: scratch_cl_block_is_ready_def get_scratch_block_addr_def get_scratch_addr_def mult.commute
      del: length_get) (auto simp: list_eq_iff_nth_eq all_set_conv_all_nth)

lemma block_less_invalid: "geometry d \<Longrightarrow> b < cl_block_gettotal d \<Longrightarrow> b < BLOCK_INVALID \<and> b < all_blocks d"
  using gettotal_less [of d] all_blocks_bound [of d] by simp

lemma restore_block_cell:
  assumes "geometry d" "n < SCRATCH_ENTRIES" "b < cl_block_gettotal d" "erased d b"
  shows "restore_block b n d = Some (0, set_cell (Blk b) (get d (Copy n)) d)"
  using read_cell [OF assms(1), of "Copy n"] write_cell [OF assms(1), of "Blk b" "get d (Copy n)"] assms(2-)
  by (simp add: restore_block_def get_scratch_block_addr_def get_scratch_addr_def mult.commute
      cl_block_saveraw_def get_cl_block_addr_def data_bytes_bytes_data get_Blk erased_blk)

lemma copy_block_cell:
  assumes "geometry d" "n < SCRATCH_ENTRIES" "b < cl_block_gettotal d" "get d (Copy n) = replicate 128 0xFF"
  shows "copy_block_to_scratch b n d = Some (0, set_cell (Copy n) (blk d b) d)"
  using write_cell [OF assms(1), of "Copy n" "blk d b"] load_blk [of b d] block_less_invalid [OF assms(1,3)] assms(2,4)
  by (simp add: copy_block_to_scratch_def get_scratch_block_addr_def get_scratch_addr_def mult.commute)

subsection \<open>Saving and restoring\<close>

text \<open>The entries from \<open>n\<close> on, and their blocks, are erased, and no entry before \<open>n\<close> is unused.\<close>

definition free_from :: "flash \<Rightarrow> nat \<Rightarrow> bool" where
  "free_from d n \<longleftrightarrow> n \<le> SCRATCH_ENTRIES
     \<and> (\<forall>i<n. get d (Ent i) ! 0 \<noteq> CAFS_SCRATCH_STATUS_UNUSED)
     \<and> (\<forall>i. n \<le> i \<and> i < SCRATCH_ENTRIES \<longrightarrow>
           get d (Ent i) = replicate 4 0xFF \<and> get d (Copy i) = replicate 128 0xFF)"

text \<open>Moreover no copy is pending.\<close>

definition idle :: "flash \<Rightarrow> nat \<Rightarrow> bool" where
  "idle d n \<longleftrightarrow> free_from d n \<and> (\<forall>i<n. get d (Ent i) ! 0 \<noteq> CAFS_SCRATCH_STATUS_COPIED)"

lemma status_bytes_entry [simp]: "se_status (bytes_entry bs) = bs ! 0"
  by (simp add: bytes_entry_def)

lemma first_unused_eq:
  "geometry d \<Longrightarrow> free_from d n \<Longrightarrow> i \<le> n \<Longrightarrow> i + m = SCRATCH_ENTRIES \<Longrightarrow> first_unused i m d = Some n"
proof (induction i m d rule: first_unused.induct)
  case (1 i d)
  then show ?case by (simp add: free_from_def)
next
  case (2 i m d)
  then have i: "i < SCRATCH_ENTRIES" by simp
  show ?case
  proof (cases "i = n")
    case True
    with 2 i show ?thesis by (simp add: load_entry_get free_from_def)
  next
    case False
    with 2 i show ?thesis by (simp add: load_entry_get free_from_def)
  qed
qed

lemma capacity_free_from: "geometry d \<Longrightarrow> free_from d n \<Longrightarrow> cl_scratch_capacity d = int SCRATCH_ENTRIES - int n"
  by (simp add: cl_scratch_capacity_def first_unused_eq)

lemma saveblock_cells:
  assumes "geometry d" "free_from d n" "n < SCRATCH_ENTRIES" "b < cl_block_gettotal d"
  shows "cl_scratch_saveblock b d = Some (0, set_cell (Ent n) (copied_entry b) (set_cell (Copy n) (blk d b) d))"
proof -
  have "get d (Ent n) = replicate 4 0xFF" "get d (Copy n) = replicate 128 0xFF"
    using assms(2,3) by (auto simp: free_from_def)
  with assms first_unused_eq [OF assms(1,2)] show ?thesis
    by (simp add: cl_scratch_saveblock_def ready_cell copy_block_cell save_entry_cell get_set_cell copied_entry_def)
qed

text \<open>The pending copies of the blocks \<open>bs\<close>, from entry \<open>n\<close> on, with the contents \<open>f\<close>.\<close>

definition pending :: "flash \<Rightarrow> nat \<Rightarrow> nat list \<Rightarrow> (nat \<Rightarrow> byte list) \<Rightarrow> bool" where
  "pending d n bs f \<longleftrightarrow> (\<forall>j<length bs. get d (Ent (n + j)) = copied_entry (bs ! j) \<and> get d (Copy (n + j)) = f (bs ! j))"

lemma pending_Nil [simp]: "pending d n [] f"
  by (simp add: pending_def)

lemma pending_Cons: "pending d n (b # bs) f \<longleftrightarrow>
    get d (Ent n) = copied_entry b \<and> get d (Copy n) = f b \<and> pending d (Suc n) bs f"
  by (auto simp: pending_def All_less_Suc2)

lemma pending_cong: "pending d n bs f \<Longrightarrow> (\<And>b. b \<in> set bs \<Longrightarrow> f b = g b) \<Longrightarrow> pending d n bs g"
  by (auto simp: pending_def)

lemma copied_status [simp]: "copied_entry b ! 0 = CAFS_SCRATCH_STATUS_COPIED"
  by (simp add: copied_entry_def entry_bytes_def)

lemma copied_entry_load [simp]:
  "b < 65536 \<Longrightarrow> bytes_entry (copied_entry b) = set_checksum \<lparr>se_status = CAFS_SCRATCH_STATUS_COPIED, se_original_block = b, se_checksum = 0\<rparr>"
  by (simp add: copied_entry_def)

lemma blk_set_cell:
  assumes "cell_ok (cl_block_gettotal d) c" "length bs = cell_len c" "b < cl_block_gettotal d"
  shows "blk (set_cell c bs d) b = (if c = Blk b then bs else blk d b)"
  using get_set_cell [OF assms(1) _ assms(2), of "Blk b"] assms(3) by (auto simp: get_Blk)

lemma free_from_save:
  assumes "free_from d n" "n < SCRATCH_ENTRIES"
  shows "free_from (set_cell (Ent n) (copied_entry b) (set_cell (Copy n) (blk d c) d)) (Suc n)"
  using assms by (auto simp: free_from_def get_set_cell less_Suc_eq)


lemma restore_skip:
  "geometry d \<Longrightarrow> (\<forall>i<n. get d (Ent i) ! 0 \<notin> {CAFS_SCRATCH_STATUS_UNUSED, CAFS_SCRATCH_STATUS_COPIED}) \<Longrightarrow>
   n \<le> SCRATCH_ENTRIES \<Longrightarrow> i + k = n \<Longrightarrow> restore_loop i (k + m) d = restore_loop n m d"
proof (induction k arbitrary: i)
  case (Suc k)
  then have "get d (Ent i) ! 0 \<notin> {CAFS_SCRATCH_STATUS_UNUSED, CAFS_SCRATCH_STATUS_COPIED}" by auto
  then show ?case using Suc.IH [of "Suc i"] Suc.prems by (simp add: load_entry_get)
qed simp

text \<open>What restoring the pending copies \<open>bs\<close> from entry \<open>n\<close> does to the cells.\<close>

definition restored :: "nat \<Rightarrow> nat list \<Rightarrow> (nat \<Rightarrow> byte list) \<Rightarrow> flash \<Rightarrow> flash \<Rightarrow> bool" where
  "restored n bs f d d' \<longleftrightarrow> same_dev d d'
     \<and> (\<forall>b<cl_block_gettotal d. blk d' b = (if b \<in> set bs then f b else blk d b))
     \<and> (\<forall>i<SCRATCH_ENTRIES. get d' (Ent i) = (if n \<le> i \<and> i < n + length bs then replicate 4 0 else get d (Ent i)))
     \<and> (\<forall>i<SCRATCH_ENTRIES. get d' (Copy i) = get d (Copy i))"

lemma restored_Cons:
  assumes "restored (Suc n) bs f (set_cell (Ent n) (replicate 4 0) (set_cell (Blk b) (f b) d)) d'"
    "b \<notin> set bs" "b < cl_block_gettotal d" "n < SCRATCH_ENTRIES" "length (f b) = 128"
  shows "restored n (b # bs) f d d'"
proof -
  have "same_dev d d'"
    using assms(1) by (simp add: restored_def)
  moreover have "\<forall>c<cl_block_gettotal d. blk d' c = (if c \<in> set (b # bs) then f c else blk d c)"
    using assms by (auto simp: restored_def blk_set_cell)
  moreover have "\<forall>i<SCRATCH_ENTRIES. get d' (Ent i)
      = (if n \<le> i \<and> i < n + length (b # bs) then replicate 4 0 else get d (Ent i))"
    using assms by (auto simp: restored_def get_set_cell)
  moreover have "\<forall>i<SCRATCH_ENTRIES. get d' (Copy i) = get d (Copy i)"
    using assms by (auto simp: restored_def get_set_cell)
  ultimately show ?thesis by (simp only: restored_def simp_thms)
qed

lemma restore_pending:
  "geometry d \<Longrightarrow> pending d n bs f \<Longrightarrow> n + length bs + m = SCRATCH_ENTRIES \<Longrightarrow> distinct bs \<Longrightarrow>
   (\<forall>b\<in>set bs. b < cl_block_gettotal d \<and> erased d b) \<Longrightarrow>
   (0 < m \<Longrightarrow> get d (Ent (n + length bs)) ! 0 = CAFS_SCRATCH_STATUS_UNUSED) \<Longrightarrow>
   \<exists>d'. restore_loop n (length bs + m) d = Some (0, d') \<and> restored n bs f d d'"
proof (induction bs arbitrary: n d)
  case Nil
  then show ?case by (cases m) (auto simp: restored_def load_entry_get)
next
  case (Cons b bs)
  let ?d1 = "set_cell (Blk b) (f b) d"
  let ?d2 = "set_cell (Ent n) (replicate 4 0) ?d1"
  have n: "n < SCRATCH_ENTRIES" and b: "b < cl_block_gettotal d" "erased d b" "b < 65536"
    and p: "get d (Ent n) = copied_entry b" "get d (Copy n) = f b" "pending d (Suc n) bs f"
    using Cons.prems block_less_invalid [of d b] by (auto simp: pending_Cons)
  have len: "length (f b) = 128" using p(2) by (metis cell_len.simps(3) length_get)
  have step: "restore_loop n (Suc (length bs + m)) d = restore_loop (Suc n) (length bs + m) ?d2"
    using Cons.prems(1) n b p by (simp add: load_entry_get restore_block_cell strike_cell)
  have "\<exists>d'. restore_loop (Suc n) (length bs + m) ?d2 = Some (0, d') \<and> restored (Suc n) bs f ?d2 d'"
  proof (rule Cons.IH)
    show "pending ?d2 (Suc n) bs f"
      using p(3) n b len Cons.prems(3) by (auto simp: pending_def get_set_cell)
    show "\<forall>c\<in>set bs. c < cl_block_gettotal ?d2 \<and> erased ?d2 c"
      using Cons.prems(4,5) n b len by (auto simp: erased_blk blk_set_cell)
    show "get ?d2 (Ent (Suc n + length bs)) ! 0 = CAFS_SCRATCH_STATUS_UNUSED" if "0 < m"
      using Cons.prems(3,6) that n b len by (simp add: get_set_cell)
  qed (use Cons.prems in auto)
  then obtain d' where "restore_loop (Suc n) (length bs + m) ?d2 = Some (0, d')" "restored (Suc n) bs f ?d2 d'"
    by blast
  with step Cons.prems(4) b n len show ?case
    by (auto intro!: exI [of _ d'] restored_Cons)
qed

lemma scratch_restore_pending:
  assumes "geometry d" "\<forall>i<n. get d (Ent i) ! 0 \<notin> {CAFS_SCRATCH_STATUS_UNUSED, CAFS_SCRATCH_STATUS_COPIED}"
    "pending d n bs f" "free_from d (n + length bs)" "distinct bs"
    "\<forall>b\<in>set bs. b < cl_block_gettotal d \<and> erased d b"
  shows "\<exists>d'. cl_scratch_restore d = Some (0, d') \<and> restored n bs f d d'"
proof -
  define m where "m = SCRATCH_ENTRIES - (n + length bs)"
  have m: "n + length bs + m = SCRATCH_ENTRIES" using assms(4) by (simp add: m_def free_from_def)
  have u: "get d (Ent (n + length bs)) ! 0 = CAFS_SCRATCH_STATUS_UNUSED" if "0 < m"
    using assms(4) m that by (simp add: free_from_def)
  have "cl_scratch_restore d = restore_loop 0 (n + (length bs + m)) d"
    using m by (simp only: cl_scratch_restore_def add.assoc)
  also have "\<dots> = restore_loop n (length bs + m) d"
    by (rule restore_skip) (use assms(1,2) m in auto)
  finally show ?thesis using restore_pending [OF assms(1,3) m assms(5,6) u] by simp
qed

end
