(* ===== verification/CafsErase.thy ===== *)
theory CafsErase
  imports CafsScratch
begin

section \<open>Erasing dirty sections (cafs_lite_block.c)\<close>

text \<open>
  When \<open>alloc_block\<close> finds no free block, \<open>cl_block_alloc\<close> erases sections that hold few live blocks:
  their live blocks go through the scratch area. The theory shows that no live block is lost on the
  way, and that allocation finds a block whenever a section can be erased.
\<close>

text \<open>The first loop of \<open>erase_dirty_block\<close>, from block \<open>i\<close> with \<open>n\<close> blocks to go.\<close>

fun save_loop :: "nat \<Rightarrow> nat \<Rightarrow> flash \<Rightarrow> (int \<times> flash) option" where
  "save_loop i 0 d = Some (0, d)"
| "save_loop i (Suc n) d =
    (case read_hdr i d of
       None \<Rightarrow> Some (-1, d)
     | Some hdr \<Rightarrow>
         if bh_status hdr = BLOCK_STATUS_CLOSED \<or> bh_status hdr = BLOCK_STATUS_OPEN then do {
           (r, d1) \<leftarrow> cl_scratch_saveblock (to_block i) d;
           if r < 0 then Some (-1, d1) else save_loop (Suc i) n d1
         } else save_loop (Suc i) n d)"

definition erase_dirty_block :: "nat \<Rightarrow> flash \<Rightarrow> (int \<times> flash) option" where
  "erase_dirty_block cl_block_num d = do {
    (r, d1) \<leftarrow> save_loop cl_block_num (cl_block_geteraseable d) d;
    if r < 0 then Some (-1, d1)
    else let (r2, d2) = cl_dev_erasesection (get_cl_block_addr cl_block_num) d1 in
      if r2 < 0 then Some (-1, d2)
      else do {
        (r3, d3) \<leftarrow> cl_scratch_restore d2;
        Some (if r3 < 0 then -1 else 0, d3)
      }
  }"

text \<open>
  The inner loop of \<open>erase_dirty_blocks\<close>: \<open>None\<close> when a header cannot be read, otherwise the number of
  closed blocks counted and whether the section may be erased.
\<close>

function section_check :: "nat \<Rightarrow> nat \<Rightarrow> nat \<Rightarrow> nat \<Rightarrow> flash \<Rightarrow> (nat \<times> bool) option" where
  "section_check i j e written d =
    (if j < e then
       case read_hdr (i + j) d of
         None \<Rightarrow> None
       | Some hdr \<Rightarrow>
           if bh_status hdr = BLOCK_STATUS_CLOSED then
             if bh_serialno hdr = CL_SERIALNO_LIST then Some (written, False)
             else section_check i (j + 1) e (written + 1) d
           else if bh_status hdr = BLOCK_STATUS_OPEN then Some (written, False)
           else if bh_status hdr = BLOCK_STATUS_FREE \<and> i + j \<noteq> 0 then Some (written, False)
           else section_check i (j + 1) e written d
     else Some (written, True))"
  by pat_completeness auto
termination by (relation "measure (\<lambda>(i, j, e, _). e - j)") auto

declare section_check.simps [simp del]

function erase_loop :: "nat \<Rightarrow> nat \<Rightarrow> nat \<Rightarrow> nat \<Rightarrow> flash \<Rightarrow> (int \<times> flash) option" where
  "erase_loop i count e max_written d =
    (if i < count then
       if e = 0 then None
       else case section_check i 0 e 0 d of
         None \<Rightarrow> Some (-1, d)
       | Some (written, do_erase) \<Rightarrow> do {
           (r, d1) \<leftarrow>
             (if do_erase \<and> written < max_written then
                let (r1, d1) = (if int written > cl_scratch_capacity d then cl_scratch_erase d else (0, d))
                in if r1 < 0 then Some (-1, d1) else erase_dirty_block i d1
              else Some (0, d));
           if r < 0 then Some (-1, d1) else erase_loop (i + e) count e max_written d1
         }
     else Some (0, d))"
  by pat_completeness auto
termination by (relation "measure (\<lambda>(i, count, _). count - i)") auto

declare erase_loop.simps [simp del]

definition erase_dirty_blocks :: "nat \<Rightarrow> flash \<Rightarrow> (int \<times> flash) option" where
  "erase_dirty_blocks max_written d =
    erase_loop 0 (cl_block_gettotal d) (cl_block_geteraseable d) max_written d"

text \<open>\<open>cl_block_alloc\<close>: the loop over \<open>i = 3, 2, 1\<close> is \<open>alloc_retry\<close>, which ends with the last result.\<close>

fun alloc_retry :: "nat \<Rightarrow> u32 \<Rightarrow> nat \<Rightarrow> byte \<Rightarrow> flash \<Rightarrow> (nat option \<times> flash) option" where
  "alloc_retry 0 serialno hint ty d = Some (None, d)"
| "alloc_retry (Suc i) serialno hint ty d = do {
     (r, d1) \<leftarrow> erase_dirty_blocks (cl_block_geteraseable d div 2 ^ Suc i) d;
     if r < 0 then Some (Some BLOCK_INVALID, d1)
     else do {
       (b, d2) \<leftarrow> alloc_block serialno hint ty d1;
       if b \<noteq> BLOCK_INVALID then Some (Some b, d2) else alloc_retry i serialno hint ty d2
     }
   }"

definition cl_block_alloc :: "u32 \<Rightarrow> nat \<Rightarrow> byte \<Rightarrow> flash \<Rightarrow> (nat \<times> flash) option" where
  "cl_block_alloc serialno hint ty d = do {
    (ret, d1) \<leftarrow> alloc_block serialno hint ty d;
    if ret \<noteq> BLOCK_INVALID then Some (ret, d1)
    else do {
      (r, d2) \<leftarrow> erase_dirty_blocks (cl_block_geteraseable d1 div 16) d1;
      if r < 0 then Some (BLOCK_INVALID, d2)
      else do {
        (ret2, d3) \<leftarrow> alloc_block serialno hint ty d2;
        if ret2 \<noteq> BLOCK_INVALID then Some (ret2, d3)
        else do {
          (ret3, d4) \<leftarrow> alloc_retry 3 serialno hint ty d3;
          case ret3 of
            Some b \<Rightarrow> Some (b, d4)
          | None \<Rightarrow> do {
              (r5, d5) \<leftarrow> erase_dirty_blocks (cl_block_geteraseable d4 * 3 div 4) d4;
              if r5 < 0 then Some (BLOCK_INVALID, d5) else alloc_block serialno hint ty d5
            }
        }
      }
    }
  }"

subsection \<open>One section\<close>

definition live :: "flash \<Rightarrow> nat \<Rightarrow> bool" where
  "live d b \<longleftrightarrow> status_of d b = BLOCK_STATUS_CLOSED \<or> status_of d b = BLOCK_STATUS_OPEN"

text \<open>What saving the blocks \<open>bs\<close> from entry \<open>n\<close> on does to the cells.\<close>

definition saved :: "nat \<Rightarrow> nat list \<Rightarrow> flash \<Rightarrow> flash \<Rightarrow> bool" where
  "saved n bs d d' \<longleftrightarrow> same_dev d d' \<and> (\<forall>b<cl_block_gettotal d. blk d' b = blk d b)
     \<and> free_from d' (n + length bs) \<and> pending d' n bs (blk d)
     \<and> (\<forall>i<n. get d' (Ent i) = get d (Ent i) \<and> get d' (Copy i) = get d (Copy i))"

lemma live_blk: "blk d' b = blk d b \<Longrightarrow> live d' b = live d b"
  by (simp add: live_def status_blk)

lemma save_loop_saved:
  "geometry d \<Longrightarrow> free_from d n \<Longrightarrow> s + m \<le> cl_block_gettotal d \<Longrightarrow>
   n + length (filter (live d) [s ..< s + m]) \<le> SCRATCH_ENTRIES \<Longrightarrow>
   \<exists>d'. save_loop s m d = Some (0, d') \<and> saved n (filter (live d) [s ..< s + m]) d d'"
proof (induction m arbitrary: s n d)
  case 0
  then show ?case by (simp add: saved_def)
next
  case (Suc m)
  have s: "s < cl_block_gettotal d" "s < all_blocks d" "s < 65536"
    using Suc.prems block_less_invalid [of d s] by auto
  have upt: "[s ..< s + Suc m] = s # [Suc s ..< Suc s + m]" by (simp add: upt_conv_Cons)
  show ?case
  proof (cases "live d s")
    case False
    then have "save_loop s (Suc m) d = save_loop (Suc s) m d"
      using s by (simp add: read_hdr_hdr_of hdr_of_def live_def)
    moreover have "\<exists>d'. save_loop (Suc s) m d = Some (0, d') \<and> saved n (filter (live d) [Suc s ..< Suc s + m]) d d'"
      by (rule Suc.IH) (use Suc.prems False upt in auto)
    ultimately show ?thesis using False by (simp only: upt filter.simps if_False)
  next
    case True
    let ?d1 = "set_cell (Ent n) (copied_entry s) (set_cell (Copy n) (blk d s) d)"
    let ?L = "filter (live d) [Suc s ..< Suc s + m]"
    have n: "n < SCRATCH_ENTRIES" using Suc.prems(4) True by (simp only: upt filter.simps if_True list.size)
    have cnt: "Suc n + length ?L \<le> SCRATCH_ENTRIES"
      using Suc.prems(4) True by (simp only: upt filter.simps if_True list.size)
    have same: "blk ?d1 b = blk d b" if "b < cl_block_gettotal d" for b
      using n that by (simp add: blk_set_cell)
    have L: "filter (live ?d1) [Suc s ..< Suc s + m] = ?L"
      using Suc.prems(3) by (intro filter_cong refl) (auto intro!: live_blk same)
    have step: "save_loop s (Suc m) d = save_loop (Suc s) m ?d1"
      using s True Suc.prems(1,2) n
      by (simp add: read_hdr_hdr_of hdr_of_def live_def to_block_def saveblock_cells)
    have "\<exists>d'. save_loop (Suc s) m ?d1 = Some (0, d') \<and> saved (Suc n) (filter (live ?d1) [Suc s ..< Suc s + m]) ?d1 d'"
      by (rule Suc.IH)
         (use Suc.prems(1-3) cnt n L in \<open>auto intro: free_from_save simp del: upt_Suc\<close>)
    then obtain d' where d': "save_loop (Suc s) m ?d1 = Some (0, d')" "saved (Suc n) ?L ?d1 d'"
      unfolding L by blast
    have "pending d' (Suc n) ?L (blk ?d1)" using d'(2) by (simp add: saved_def)
    then have "pending d' (Suc n) ?L (blk d)"
      by (rule pending_cong) (use Suc.prems(3) in \<open>auto intro: same simp del: upt_Suc\<close>)
    then have "saved n (s # ?L) d d'"
      using d'(2) same n
      by (auto simp: saved_def pending_Cons get_set_cell simp del: upt_Suc)
    with d'(1) step True show ?thesis by (simp only: upt filter.simps if_True) blast
  qed
qed


text \<open>Erasing the section of block \<open>s\<close> on cells.\<close>

definition erase_section :: "nat \<Rightarrow> flash \<Rightarrow> flash" where
  "erase_section s d = snd (cl_dev_erasesection (128 * s) d)"

lemma erasesection_eq: "cl_dev_erasesection (get_cl_block_addr s) d = (0, erase_section s d)"
  by (simp add: erase_section_def cl_dev_erasesection_def get_cl_block_addr_def Let_def)

lemma erase_section_same [simp]: "same_dev d (erase_section s d)"
  by (simp add: same_dev_def erase_section_def cl_dev_erasesection_def Let_def)

lemma erase_section_same_iff [simp]: "same_dev (erase_section s d) d' \<longleftrightarrow> same_dev d d'"
  by (simp add: same_dev_def erase_section_def cl_dev_erasesection_def Let_def)

lemma erase_section_range:
  assumes "geometry d" "per_section d dvd s"
  shows "128 * s div fl_erase d * fl_erase d = 128 * s" "fl_erase d = 128 * per_section d"
proof -
  from assms(1) show e: "fl_erase d = 128 * per_section d" by (rule geometry_sections)
  from assms(2) obtain q where "s = per_section d * q" by (auto simp: dvd_def)
  with e show "128 * s div fl_erase d * fl_erase d = 128 * s" by simp
qed

lemma get_erase_section:
  assumes "geometry d" "per_section d dvd s" "s < cl_block_gettotal d" "cell_ok (cl_block_gettotal d) c"
  shows "get (erase_section s d) c = (case c of Blk b \<Rightarrow>
     if s \<le> b \<and> b < s + per_section d then replicate 128 0xFF else blk d b | _ \<Rightarrow> get d c)"
proof -
  let ?E = "per_section d" and ?T = "cl_block_gettotal d"
  note r = erase_section_range [OF assms(1,2)]
  have mem: "fl_mem (erase_section s d) = (\<lambda>a. if 128 * s \<le> a \<and> a < 128 * s + 128 * ?E then 0xFF else fl_mem d a)"
    by (simp add: erase_section_def cl_dev_erasesection_def Let_def r(1)) (simp add: r(2))
  have tot: "cl_block_gettotal (erase_section s d) = ?T" by (simp add: same_dev_geometry [OF erase_section_same])
  from assms(1) obtain k where k: "?T = k * ?E" by (rule geometry_sections)
  from assms(2) obtain q where q: "s = ?E * q" by (auto simp: dvd_def)
  have "q < k" using assms(3) k q by (simp add: mult.commute)
  then have "(q + 1) * ?E \<le> k * ?E" by (intro mult_le_mono1) simp
  then have top: "s + ?E \<le> ?T" using k q by (simp add: mult.commute)
  show ?thesis
  proof (cases c)
    case (Blk b)
    consider "b < s" | "s \<le> b" "b < s + ?E" | "s + ?E \<le> b" by linarith
    then show ?thesis
      by cases (auto simp: Blk get_def Let_def tot mem blk_def list_eq_iff_nth_eq)
  next
    case (Ent n)
    then show ?thesis using top assms(4) by (simp add: get_def Let_def tot mem)
  next
    case (Copy n)
    then show ?thesis using top assms(4) by (simp add: get_def Let_def tot mem)
  qed
qed

lemma blk_erase_section:
  assumes "geometry d" "per_section d dvd s" "s < cl_block_gettotal d" "b < cl_block_gettotal d"
  shows "blk (erase_section s d) b = (if s \<le> b \<and> b < s + per_section d then replicate 128 0xFF else blk d b)"
  using get_erase_section [OF assms(1-3), of "Blk b"] assms(4) by (simp add: get_Blk)

lemma section_end:
  assumes "geometry d" "per_section d dvd s" "s < cl_block_gettotal d"
  shows "s + per_section d \<le> cl_block_gettotal d"
proof -
  from assms(1) obtain k where k: "cl_block_gettotal d = k * per_section d" by (rule geometry_sections)
  from assms(2) obtain q where q: "s = per_section d * q" by (auto simp: dvd_def)
  have "q < k" using assms(3) k q by (simp add: mult.commute)
  then have "(q + 1) * per_section d \<le> k * per_section d" by (intro mult_le_mono1) simp
  then show ?thesis using k q by (simp add: mult.commute)
qed

definition live_in :: "flash \<Rightarrow> nat \<Rightarrow> nat list" where
  "live_in d s = filter (live d) [s ..< s + per_section d]"

lemma erase_dirty_block_keeps:
  assumes geo: "geometry d" and idle: "idle d n" and s: "per_section d dvd s" "s < cl_block_gettotal d"
    and room: "n + length (live_in d s) \<le> SCRATCH_ENTRIES"
  obtains d' where "erase_dirty_block s d = Some (0, d')" "same_dev d d'" "idle d' (n + length (live_in d s))"
    "\<And>b. b < cl_block_gettotal d \<Longrightarrow> blk d' b =
       (if s \<le> b \<and> b < s + per_section d \<and> \<not> live d b then replicate 128 0xFF else blk d b)"
proof -
  let ?E = "per_section d" and ?T = "cl_block_gettotal d" and ?L = "live_in d s"
  have top: "s + ?E \<le> ?T" using section_end [OF geo s] .
  have free: "free_from d n" using idle by (simp add: idle_def)
  from save_loop_saved [OF geo free top] room obtain d1
    where d1: "save_loop s ?E d = Some (0, d1)" "saved n ?L d d1" by (auto simp: live_in_def)
  have g1: "geometry d1" "cl_block_gettotal d1 = ?T" "per_section d1 = ?E"
    using d1(2) geo by (auto simp: saved_def dest: same_dev_geometry)
  define d2 where "d2 = erase_section s d1"
  have g2: "geometry d2" "cl_block_gettotal d2 = ?T" "per_section d2 = ?E"
    using g1 same_dev_geometry [OF erase_section_same [of d1 s]] by (simp_all add: d2_def)
  have ents: "get d2 (Ent i) = get d1 (Ent i)" "get d2 (Copy i) = get d1 (Copy i)" if "i < SCRATCH_ENTRIES" for i
    using get_erase_section [of d1 s "Ent i"] get_erase_section [of d1 s "Copy i"] g1 s that by (simp_all add: d2_def)
  have blk2: "blk d2 b = (if s \<le> b \<and> b < s + ?E then replicate 128 0xFF else blk d1 b)" if "b < ?T" for b
    using blk_erase_section [of d1 s b] g1 s that by (simp add: d2_def)
  have L: "set ?L \<subseteq> {s ..< s + ?E}" "distinct ?L" by (auto simp: live_in_def)
  have len: "n + length ?L \<le> SCRATCH_ENTRIES" by (rule room)
  have "\<exists>d3. cl_scratch_restore d2 = Some (0, d3) \<and> restored n ?L (blk d) d2 d3"
  proof (rule scratch_restore_pending [OF g2(1)])
    show "\<forall>i<n. get d2 (Ent i) ! 0 \<notin> {CAFS_SCRATCH_STATUS_UNUSED, CAFS_SCRATCH_STATUS_COPIED}"
      using idle d1(2) len by (auto simp: idle_def free_from_def saved_def ents)
    show "pending d2 n ?L (blk d)" using d1(2) len by (auto simp: saved_def pending_def ents)
    show "free_from d2 (n + length ?L)" using d1(2) len by (auto simp: saved_def free_from_def ents)
    show "\<forall>b\<in>set ?L. b < cl_block_gettotal d2 \<and> erased d2 b"
      using L(1) top s by (auto simp: g2 erased_blk blk2 subset_iff)
  qed (rule L(2))
  then obtain d3 where d3: "cl_scratch_restore d2 = Some (0, d3)" "restored n ?L (blk d) d2 d3" by blast
  show thesis
  proof (rule that)
    show "erase_dirty_block s d = Some (0, d3)"
      using d1(1) d3(1) by (simp add: erase_dirty_block_def geteraseable_eq [OF geo] erasesection_eq d2_def Let_def)
    show "same_dev d d3"
      using d1(2) d3(2) by (auto simp: saved_def restored_def d2_def intro: same_dev_trans)
    show "blk d3 b = (if s \<le> b \<and> b < s + ?E \<and> \<not> live d b then replicate 128 0xFF else blk d b)" if "b < ?T" for b
      using d1(2) d3(2) that g1 s
      by (auto simp: restored_def saved_def g2 blk2 live_in_def)
    show "idle d3 (n + length ?L)"
      using d1(2) d3(2) idle len
      by (auto simp: restored_def saved_def idle_def free_from_def ents nth_replicate)
  qed
qed


subsection \<open>All sections\<close>

text \<open>The blocks that forbid erasing their section.\<close>

definition pins :: "flash \<Rightarrow> nat \<Rightarrow> bool" where
  "pins d b \<longleftrightarrow> status_of d b = BLOCK_STATUS_CLOSED \<and> serial_of d b = CL_SERIALNO_LIST
     \<or> status_of d b = BLOCK_STATUS_OPEN \<or> status_of d b = BLOCK_STATUS_FREE \<and> b \<noteq> 0"

definition closed_in :: "flash \<Rightarrow> nat \<Rightarrow> nat \<Rightarrow> nat" where
  "closed_in d lo hi = length (filter (\<lambda>b. status_of d b = BLOCK_STATUS_CLOSED) [lo ..< hi])"

lemma section_check_eq:
  "i + e \<le> all_blocks d \<Longrightarrow> \<exists>x. section_check i j e w d = Some (x, \<forall>b\<in>{i + j ..< i + e}. \<not> pins d b)
     \<and> ((\<forall>b\<in>{i + j ..< i + e}. \<not> pins d b) \<longrightarrow> x = w + closed_in d (i + j) (i + e))"
proof (induction i j e w d rule: section_check.induct)
  case (1 i j e w d)
  show ?case
  proof (cases "j < e")
    case False
    then show ?thesis by (simp add: section_check.simps closed_in_def)
  next
    case True
    then have rd: "read_hdr (i + j) d = Some (hdr_of d (i + j))" using 1 by (simp add: read_hdr_hdr_of)
    have split: "{i + j ..< i + e} = insert (i + j) {i + (j + 1) ..< i + e}" using True by auto
    have cl: "closed_in d (i + j) (i + e) = (if status_of d (i + j) = BLOCK_STATUS_CLOSED then 1 else 0)
        + closed_in d (i + (j + 1)) (i + e)"
      using True by (simp add: closed_in_def upt_conv_Cons)
    show ?thesis
    proof (cases "pins d (i + j)")
      case True
      then show ?thesis using \<open>j < e\<close> rd
        by (subst section_check.simps) (auto simp: hdr_of_def pins_def split)
    next
      case False
      show ?thesis
      proof (cases "status_of d (i + j) = BLOCK_STATUS_CLOSED")
        case True
        with False have step: "section_check i j e w d = section_check i (j + 1) e (w + 1) d"
          using \<open>j < e\<close> rd by (subst section_check.simps) (auto simp: hdr_of_def pins_def)
        from "1.IH"(1) [OF \<open>j < e\<close> rd] True False "1.prems" obtain x where
          "section_check i (j + 1) e (w + 1) d = Some (x, \<forall>b\<in>{i + (j + 1) ..< i + e}. \<not> pins d b)"
          "(\<forall>b\<in>{i + (j + 1) ..< i + e}. \<not> pins d b) \<longrightarrow> x = w + 1 + closed_in d (i + (j + 1)) (i + e)"
          by (auto simp: hdr_of_def pins_def)
        then show ?thesis unfolding step split cl using False True by (intro exI [of _ x]) auto
      next
        case nc: False
        with False have step: "section_check i j e w d = section_check i (j + 1) e w d"
          using \<open>j < e\<close> rd by (subst section_check.simps) (auto simp: hdr_of_def pins_def)
        from "1.IH"(2) [OF \<open>j < e\<close> rd] nc False "1.prems" obtain x where
          "section_check i (j + 1) e w d = Some (x, \<forall>b\<in>{i + (j + 1) ..< i + e}. \<not> pins d b)"
          "(\<forall>b\<in>{i + (j + 1) ..< i + e}. \<not> pins d b) \<longrightarrow> x = w + closed_in d (i + (j + 1)) (i + e)"
          by (auto simp: hdr_of_def pins_def)
        then show ?thesis unfolding step split cl using False nc by (intro exI [of _ x]) auto
      qed
    qed
  qed
qed

definition unpinned :: "flash \<Rightarrow> nat \<Rightarrow> bool" where
  "unpinned d s \<longleftrightarrow> (\<forall>b\<in>{s ..< s + per_section d}. \<not> pins d b)"

lemma live_in_unpinned: "unpinned d s \<Longrightarrow> length (live_in d s) = closed_in d s (s + per_section d)"
  by (auto simp: unpinned_def live_in_def closed_in_def pins_def live_def intro!: arg_cong [of _ _ length] filter_cong)

lemma scratch_erase_idle:
  assumes geo: "geometry d"
  shows "fst (cl_scratch_erase d) = 0" "same_dev d (snd (cl_scratch_erase d))" "idle (snd (cl_scratch_erase d)) 0"
    "b < cl_block_gettotal d \<Longrightarrow> blk (snd (cl_scratch_erase d)) b = blk d b"
proof -
  let ?d = "snd (cl_scratch_erase d)" and ?T = "cl_block_gettotal d"
  from geo obtain k where k: "all_blocks d = (k + 1) * per_section d" "?T = k * per_section d"
    "fl_erase d = 128 * per_section d" by (rule geometry_sections)
  have al: "128 * ?T div fl_erase d * fl_erase d = 128 * ?T"
    using k geometry_pos [OF geo] by (simp add: mult.assoc [symmetric])
  have mem: "fl_mem ?d = (\<lambda>a. if 128 * ?T \<le> a \<and> a < 128 * ?T + fl_erase d then 0xFF else fl_mem d a)"
    using al by (simp add: cl_scratch_erase_def cl_dev_erasesection_def Let_def get_scratch_addr_def mult.commute)
  show r: "fst (cl_scratch_erase d) = 0" and s: "same_dev d ?d"
    by (simp_all add: cl_scratch_erase_def cl_dev_erasesection_def Let_def same_dev_def)
  have big: "3960 \<le> fl_erase d" using geo by (simp add: geometry_def)
  have tot: "cl_block_gettotal ?d = ?T" using s by (rule same_dev_geometry)
  show "idle ?d 0"
    using big by (auto simp: idle_def free_from_def get_def Let_def tot mem list_eq_iff_nth_eq)
  show "blk ?d b = blk d b" if "b < ?T"
    using that by (auto simp: blk_def mem)
qed

text \<open>
  What an erasure may do to a block: a live block stays, another one stays or becomes free. \<open>kept\<close>
  relates the disks before and after.
\<close>

definition kept :: "flash \<Rightarrow> flash \<Rightarrow> bool" where
  "kept d d' \<longleftrightarrow> same_dev d d' \<and> (\<exists>n. idle d' n) \<and> (\<forall>b<cl_block_gettotal d.
     blk d' b = blk d b \<or> \<not> live d b \<and> blk d' b = replicate 128 0xFF)"

lemma kept_refl: "idle d n \<Longrightarrow> kept d d"
  by (auto simp: kept_def)

lemma FF_not_live: "blk d b = replicate 128 0xFF \<Longrightarrow> \<not> live d b"
  by (simp add: live_def status_blk)

lemma kept_trans: "kept d e \<Longrightarrow> kept e f \<Longrightarrow> kept d f"
  unfolding kept_def by (auto simp: same_dev_geometry intro: same_dev_trans) (metis live_blk)+

lemma kept_clean: "kept d d' \<Longrightarrow> clean d \<Longrightarrow> clean d'"
  by (auto simp: kept_def clean_def same_dev_geometry erased_blk status_blk)

text \<open>One turn of the loop.\<close>

definition erase_turn :: "nat \<Rightarrow> nat \<Rightarrow> flash \<Rightarrow> (int \<times> flash) option" where
  "erase_turn i max_written d =
    (case section_check i 0 (per_section d) 0 d of
       None \<Rightarrow> Some (-1, d)
     | Some (written, do_erase) \<Rightarrow>
         if do_erase \<and> written < max_written then
           let (r1, d1) = (if int written > cl_scratch_capacity d then cl_scratch_erase d else (0, d))
           in if r1 < 0 then Some (-1, d1) else erase_dirty_block i d1
         else Some (0, d))"

lemma erase_turn_kept:
  assumes geo: "geometry d" and idle: "idle d n" and s: "per_section d dvd s" "s < cl_block_gettotal d"
    and mx: "max_written \<le> SCRATCH_ENTRIES + 1"
  obtains d' where "erase_turn s max_written d = Some (0, d')" "kept d d'"
    "\<And>b. b < cl_block_gettotal d \<Longrightarrow> blk d' b = (if unpinned d s \<and> length (live_in d s) < max_written
       \<and> s \<le> b \<and> b < s + per_section d \<and> \<not> live d b then replicate 128 0xFF else blk d b)"
proof -
  let ?E = "per_section d" and ?T = "cl_block_gettotal d"
  have top: "s + ?E \<le> all_blocks d" using section_end [OF geo s] gettotal_less [OF geo] by simp
  from section_check_eq [OF this, of 0 0] obtain x where
    chk: "section_check s 0 ?E 0 d = Some (x, unpinned d s)" and x: "unpinned d s \<longrightarrow> x = length (live_in d s)"
    using live_in_unpinned [of d s] by (auto simp: unpinned_def)
  show thesis
  proof (cases "unpinned d s \<and> x < max_written")
    case False
    then have "erase_turn s max_written d = Some (0, d)" by (auto simp: erase_turn_def chk)
    moreover have "\<not> (unpinned d s \<and> length (live_in d s) < max_written)" using False x by auto
    ultimately show thesis using that kept_refl [OF idle] by auto
  next
    case True
    with x have x': "x = length (live_in d s)" by simp
    define e where "e = (if int x > cl_scratch_capacity d then snd (cl_scratch_erase d) else d)"
    have cap: "cl_scratch_capacity d = int SCRATCH_ENTRIES - int n"
      using geo idle by (intro capacity_free_from) (auto simp: idle_def)
    have blk_e: "blk e b = blk d b" if "b < ?T" for b
      using scratch_erase_idle [OF geo] that by (simp add: e_def)
    have dev: "same_dev d e" using scratch_erase_idle [OF geo] by (simp add: e_def)
    note g = same_dev_geometry [OF dev]
    have live_e: "live_in e s = live_in d s"
      unfolding live_in_def g using section_end [OF geo s]
      by (intro filter_cong refl) (auto intro!: live_blk blk_e)
    obtain m where m: "idle e m" "m + length (live_in d s) \<le> SCRATCH_ENTRIES"
      using idle cap scratch_erase_idle [OF geo] True mx x' by (cases "int x > cl_scratch_capacity d") (auto simp: e_def)
    obtain d' where d': "erase_dirty_block s e = Some (0, d')" "same_dev e d'" "idle d' (m + length (live_in e s))"
      "\<And>b. b < ?T \<Longrightarrow> blk d' b = (if s \<le> b \<and> b < s + ?E \<and> \<not> live e b then replicate 128 0xFF else blk e b)"
      by (rule erase_dirty_block_keeps [of e m s]) (use geo s m g live_e in auto)
    have run: "erase_turn s max_written d = Some (0, d')"
      using True d'(1) scratch_erase_idle [OF geo]
      by (auto simp: erase_turn_def chk e_def Let_def split: if_splits prod.splits)
    have blks: "blk d' b = (if s \<le> b \<and> b < s + ?E \<and> \<not> live d b then replicate 128 0xFF else blk d b)" if "b < ?T" for b
      using d'(4) [OF that] blk_e [OF that] live_blk [of e b d] by simp
    have "kept d d'" using dev d'(2,3) blks by (auto simp: kept_def intro: same_dev_trans)
    with run blks show thesis using that True x' by auto
  qed
qed


definition section_of :: "flash \<Rightarrow> nat \<Rightarrow> nat" where
  "section_of d b = b div per_section d * per_section d"

text \<open>The blocks an erasure with the bound \<open>max_written\<close> frees.\<close>

definition erasable :: "nat \<Rightarrow> flash \<Rightarrow> nat \<Rightarrow> bool" where
  "erasable max_written d b \<longleftrightarrow> unpinned d (section_of d b)
     \<and> length (live_in d (section_of d b)) < max_written \<and> \<not> live d b"

lemma section_of_less: "geometry d \<Longrightarrow> section_of d b \<le> b \<and> b < section_of d b + per_section d"
  using geometry_pos [of d] div_mult_mod_eq [of b "per_section d"] mod_less_divisor [of "per_section d" b]
  unfolding section_of_def by linarith

lemma section_of_dvd [simp]: "per_section d dvd section_of d b"
  by (simp add: section_of_def)

lemma section_of_unique:
  assumes "per_section d dvd s" "s \<le> b" "b < s + per_section d"
  shows "section_of d b = s"
proof -
  from assms(1) obtain q where q: "s = q * per_section d" by (auto simp: dvd_def mult.commute)
  have "b div per_section d = q"
    using assms(2,3) q by (intro div_nat_eqI) (simp_all add: algebra_simps)
  with q show ?thesis by (simp add: section_of_def)
qed

lemma pins_blk: "blk d' b = blk d b \<Longrightarrow> pins d' b = pins d b"
  by (simp add: pins_def status_blk serial_blk)

lemma section_cong:
  assumes "per_section d' = per_section d" "\<And>b. s \<le> b \<Longrightarrow> b < s + per_section d \<Longrightarrow> blk d' b = blk d b"
  shows "unpinned d' s = unpinned d s" "live_in d' s = live_in d s"
proof -
  have "pins d' b = pins d b" "live d' b = live d b" if "b \<in> set [s ..< s + per_section d]" for b
    using that by (auto intro!: pins_blk live_blk assms(2))
  then show "unpinned d' s = unpinned d s" "live_in d' s = live_in d s"
    unfolding unpinned_def live_in_def assms(1) by (auto intro!: filter_cong)
qed

lemma erasable_cong:
  assumes "geometry d" "per_section d' = per_section d"
    "\<And>c. section_of d b \<le> c \<Longrightarrow> c < section_of d b + per_section d \<Longrightarrow> blk d' c = blk d c"
  shows "erasable mx d' b = erasable mx d b"
proof -
  have s: "section_of d' b = section_of d b" using assms(2) by (simp add: section_of_def)
  have "live d' b = live d b" using section_of_less [OF assms(1), of b] assms(3) by (intro live_blk) auto
  with section_cong [of d' d "section_of d b", OF assms(2,3)] s show ?thesis by (simp add: erasable_def)
qed

lemma erase_loop_turn:
  "e = per_section d \<Longrightarrow> 0 < e \<Longrightarrow> erase_loop i count e mx d =
     (if i < count then do {
        (r, d1) \<leftarrow> erase_turn i mx d;
        if r < 0 then Some (-1, d1) else erase_loop (i + e) count e mx d1
      } else Some (0, d))"
  by (subst erase_loop.simps) (auto simp: erase_turn_def split: option.splits)

lemma erase_loop_effect:
  assumes "mx \<le> SCRATCH_ENTRIES + 1"
  shows "geometry d \<Longrightarrow> idle d n \<Longrightarrow> per_section d dvd i \<Longrightarrow> cl_block_gettotal d - i = k * per_section d \<Longrightarrow>
   \<exists>d'. erase_loop i (cl_block_gettotal d) (per_section d) mx d = Some (0, d') \<and> kept d d'
     \<and> (\<forall>b<cl_block_gettotal d. blk d' b = (if i \<le> b \<and> erasable mx d b then replicate 128 0xFF else blk d b))"
proof (induction k arbitrary: i d n)
  case 0
  then have "erase_loop i (cl_block_gettotal d) (per_section d) mx d = Some (0, d)"
    using geometry_pos [of d] by (simp add: erase_loop_turn)
  then show ?case using 0 kept_refl by auto
next
  case (Suc k)
  let ?T = "cl_block_gettotal d" and ?E = "per_section d"
  have i: "i < ?T" and E: "0 < ?E" using Suc.prems geometry_pos [of d] by auto
  have "\<exists>d1. erase_turn i mx d = Some (0, d1) \<and> kept d d1
      \<and> (\<forall>b<?T. blk d1 b = (if unpinned d i \<and> length (live_in d i) < mx
           \<and> i \<le> b \<and> b < i + ?E \<and> \<not> live d b then replicate 128 0xFF else blk d b))"
    by (rule erase_turn_kept [OF Suc.prems(1,2,3) i assms]) (rule exI, intro conjI allI impI, assumption, assumption, simp only:)
  then obtain d1 where d1: "erase_turn i mx d = Some (0, d1)" "kept d d1"
    "\<And>b. b < ?T \<Longrightarrow> blk d1 b = (if unpinned d i \<and> length (live_in d i) < mx
       \<and> i \<le> b \<and> b < i + ?E \<and> \<not> live d b then replicate 128 0xFF else blk d b)"
    by blast
  from d1(2) obtain n1 where dev: "same_dev d d1" and n1: "idle d1 n1" by (auto simp: kept_def)
  note g = same_dev_geometry [OF dev]
  have "\<exists>d'. erase_loop (i + ?E) (cl_block_gettotal d1) (per_section d1) mx d1 = Some (0, d') \<and> kept d1 d'
      \<and> (\<forall>b<cl_block_gettotal d1. blk d' b = (if i + ?E \<le> b \<and> erasable mx d1 b then replicate 128 0xFF else blk d1 b))"
    by (rule Suc.IH) (use Suc.prems n1 g i in auto)
  then obtain d' where d': "erase_loop (i + ?E) ?T ?E mx d1 = Some (0, d')" "kept d1 d'"
    "\<And>b. b < ?T \<Longrightarrow> blk d' b = (if i + ?E \<le> b \<and> erasable mx d1 b then replicate 128 0xFF else blk d1 b)"
    unfolding g by auto
  have run: "erase_loop i ?T ?E mx d = Some (0, d')"
    using d1(1) d'(1) i E by (subst erase_loop_turn) simp_all
  have "blk d' b = (if i \<le> b \<and> erasable mx d b then replicate 128 0xFF else blk d b)" if b: "b < ?T" for b
  proof -
    consider "b < i" | "i \<le> b" "b < i + ?E" | "i + ?E \<le> b" by linarith
    then show ?thesis
    proof cases
      case 2
      then have "section_of d b = i" using Suc.prems(3) by (intro section_of_unique)
      with 2 show ?thesis using d'(3) [OF b] d1(3) [OF b] by (simp add: erasable_def)
    next
      case 3
      have s: "section_of d b < ?T" "i + ?E \<le> section_of d b"
      proof -
        show "section_of d b < ?T" using section_of_less [OF Suc.prems(1), of b] b by linarith
        from Suc.prems(3) obtain q where q: "i = q * ?E" by (auto simp: dvd_def mult.commute)
        have "(q + 1) * ?E \<le> b" using 3 q by simp
        then have "q + 1 \<le> b div ?E" using E by (simp add: less_eq_div_iff_mult_less_eq)
        then have "(q + 1) * ?E \<le> b div ?E * ?E" by (rule mult_le_mono1)
        then show "i + ?E \<le> section_of d b" using q by (simp add: section_of_def)
      qed
      have "erasable mx d1 b = erasable mx d b"
        using s section_end [OF Suc.prems(1) section_of_dvd s(1)]
        by (intro erasable_cong Suc.prems(1) g) (auto simp: d1(3))
      with 3 show ?thesis using d'(3) [OF b] d1(3) [OF b] by simp
    qed (use d'(3) [OF b] d1(3) [OF b] in simp)
  qed
  with run d1(2) d'(2) show ?case by (auto intro: kept_trans)
qed

lemma erase_dirty_blocks_keeps:
  assumes "geometry d" "idle d n" "mx \<le> SCRATCH_ENTRIES + 1"
  obtains d' where "erase_dirty_blocks mx d = Some (0, d')" "kept d d'"
    "\<And>b. b < cl_block_gettotal d \<Longrightarrow> blk d' b = (if erasable mx d b then replicate 128 0xFF else blk d b)"
proof -
  from assms(1) obtain k where "cl_block_gettotal d = k * per_section d" by (rule geometry_sections)
  then have "\<exists>d'. erase_loop 0 (cl_block_gettotal d) (per_section d) mx d = Some (0, d') \<and> kept d d'
     \<and> (\<forall>b<cl_block_gettotal d. blk d' b = (if 0 \<le> b \<and> erasable mx d b then replicate 128 0xFF else blk d b))"
    by (intro erase_loop_effect [OF assms(3,1,2)]) auto
  then show thesis using that by (auto simp: erase_dirty_blocks_def geteraseable_eq [OF assms(1)])
qed


subsection \<open>Allocation\<close>

text \<open>The disks the file system leaves: free blocks are erased and no copy is pending.\<close>

definition sound :: "flash \<Rightarrow> bool" where
  "sound d \<longleftrightarrow> geometry d \<and> clean d \<and> (\<exists>n. idle d n)"

text \<open>
  What an allocation that succeeds does: it returns a block that was not in use, now OPEN with the
  caller's header and erased otherwise; a live block keeps its contents, another block keeps them or
  becomes free.
\<close>

definition granted :: "u32 \<Rightarrow> byte \<Rightarrow> flash \<Rightarrow> nat \<Rightarrow> flash \<Rightarrow> bool" where
  "granted sn ty d b d' \<longleftrightarrow> 1 \<le> b \<and> b < cl_block_gettotal d \<and> \<not> live d b
     \<and> hdr_of d' b = \<lparr>bh_serialno = sn, bh_type = ty, bh_status = BLOCK_STATUS_OPEN\<rparr>
     \<and> drop 6 (blk d' b) = replicate 122 0xFF
     \<and> (\<forall>c<cl_block_gettotal d. c \<noteq> b \<longrightarrow> blk d' c = blk d c \<or> \<not> live d c \<and> blk d' c = replicate 128 0xFF)
     \<and> same_dev d d' \<and> sound d'"

lemma marked_set_cell:
  "marked d b sn ty = set_cell (Blk b)
     (hdr_bytes \<lparr>bh_serialno = sn, bh_type = ty, bh_status = BLOCK_STATUS_OPEN\<rparr> @ drop 6 (blk d b)) d"
  by (auto simp: marked_def set_cell_def put_def blk_def nth_append fun_eq_iff intro!: arg_cong [where f = "\<lambda>m. d\<lparr>fl_mem := m\<rparr>"])

lemma idle_marked:
  assumes "idle d n" "b < cl_block_gettotal d"
  shows "idle (marked d b sn ty) n"
proof -
  have "get (marked d b sn ty) (Ent i) = get d (Ent i)" "get (marked d b sn ty) (Copy i) = get d (Copy i)"
    if "i < SCRATCH_ENTRIES" for i
    using that assms(2) by (simp_all add: marked_set_cell get_set_cell)
  with assms(1) show ?thesis by (auto simp: idle_def free_from_def)
qed

lemma alloc_block_granted:
  assumes "sound d" "hint < cl_block_gettotal d"
  shows "alloc_block sn hint ty d = Some (BLOCK_INVALID, d)
       \<and> (\<forall>b. 1 \<le> b \<and> b < cl_block_gettotal d \<longrightarrow> status_of d b \<noteq> BLOCK_STATUS_FREE)
     \<or> (\<exists>b d'. b \<noteq> BLOCK_INVALID \<and> alloc_block sn hint ty d = Some (b, d') \<and> granted sn ty d b d')"
proof (cases "first_free d (candidates d sn hint)")
  case None
  then have "\<forall>b\<in>{1 ..< cl_block_gettotal d}. status_of d b \<noteq> BLOCK_STATUS_FREE"
    by (auto dest!: first_free_NoneD simp: candidates_def Let_def)
  with None assms show ?thesis by (auto simp: sound_def alloc_block_clean)
next
  case (Some b)
  from assms have s: "geometry d" "clean d" by (auto simp: sound_def)
  from first_free_SomeD [OF Some] candidates_range [OF s(1) assms(2)] have
    b: "1 \<le> b" "b < cl_block_gettotal d" "status_of d b = BLOCK_STATUS_FREE" by auto
  then have e: "erased d b" using s(2) by (simp add: clean_def)
  have "granted sn ty d b (marked d b sn ty)"
    using b e assms(1) by (auto simp: granted_def live_def hdr_marked blk_marked erased_blk sound_def
        intro: clean_marked idle_marked)
  moreover have "b \<noteq> BLOCK_INVALID" using block_less_invalid [OF s(1) b(2)] by simp
  ultimately show ?thesis using Some s assms(2) by (auto simp: alloc_block_clean)
qed

lemma kept_sound: "sound d \<Longrightarrow> kept d d' \<Longrightarrow> sound d'"
  using kept_clean by (auto simp: sound_def kept_def same_dev_geometry)

lemma kept_total: "kept d d' \<Longrightarrow> cl_block_gettotal d' = cl_block_gettotal d \<and> per_section d' = per_section d"
  by (auto simp: kept_def same_dev_geometry)

lemma granted_kept:
  assumes "kept d e" "granted sn ty e b d'"
  shows "granted sn ty d b d'"
proof -
  have t: "cl_block_gettotal e = cl_block_gettotal d" using kept_total [OF assms(1)] by simp
  have blk: "blk e c = blk d c \<or> \<not> live d c \<and> blk e c = replicate 128 0xFF" if "c < cl_block_gettotal d" for c
    using assms(1) that by (auto simp: kept_def)
  have lv: "live d c \<Longrightarrow> live e c" if "c < cl_block_gettotal d" for c
    using blk [OF that] live_blk [of e c d] by auto
  have "\<forall>c<cl_block_gettotal d. c \<noteq> b \<longrightarrow> blk d' c = blk d c \<or> \<not> live d c \<and> blk d' c = replicate 128 0xFF"
    using assms(2) blk lv by (auto simp: granted_def t) metis+
  moreover have "\<not> live d b" using assms(2) lv by (auto simp: granted_def t)
  moreover have "same_dev d d'" using assms by (auto simp: granted_def kept_def intro: same_dev_trans)
  ultimately show ?thesis using assms(2) by (simp add: granted_def t)
qed

text \<open>A block can be had: it is free, or the last erasure would free it.\<close>

definition room :: "flash \<Rightarrow> bool" where
  "room d \<longleftrightarrow> (\<exists>b. 1 \<le> b \<and> b < cl_block_gettotal d
     \<and> (status_of d b = BLOCK_STATUS_FREE \<or> erasable (per_section d * 3 div 4) d b))"

lemma erase_dirty_blocks_room:
  assumes "sound d" "mx \<le> SCRATCH_ENTRIES + 1" "mx \<le> per_section d * 3 div 4"
  obtains d' where "erase_dirty_blocks mx d = Some (0, d')" "kept d d'" "sound d'" "room d \<Longrightarrow> room d'"
    "mx = per_section d * 3 div 4 \<Longrightarrow> room d \<Longrightarrow>
       \<exists>b. 1 \<le> b \<and> b < cl_block_gettotal d \<and> status_of d' b = BLOCK_STATUS_FREE"
proof -
  let ?M = "per_section d * 3 div 4" and ?T = "cl_block_gettotal d"
  from assms(1) obtain n where geo: "geometry d" and n: "idle d n" by (auto simp: sound_def)
  have "\<exists>d'. erase_dirty_blocks mx d = Some (0, d') \<and> kept d d'
      \<and> (\<forall>b<?T. blk d' b = (if erasable mx d b then replicate 128 0xFF else blk d b))"
    by (rule erase_dirty_blocks_keeps [OF geo n assms(2)])
       (rule exI, intro conjI allI impI, assumption, assumption, simp only:)
  then obtain d' where d': "erase_dirty_blocks mx d = Some (0, d')" "kept d d'"
    "\<And>b. b < ?T \<Longrightarrow> blk d' b = (if erasable mx d b then replicate 128 0xFF else blk d b)"
    by blast
  have free: "status_of d' b = BLOCK_STATUS_FREE" if "b < ?T" "status_of d b = BLOCK_STATUS_FREE \<or> erasable mx d b" for b
    using d'(3) [OF that(1)] that(2) by (auto simp: status_blk split: if_splits)
  have stays: "status_of d' b = BLOCK_STATUS_FREE \<or> erasable ?M d' b" if "b < ?T" "erasable ?M d b" for b
  proof (cases "erasable mx d b")
    case True
    then show ?thesis using free that by simp
  next
    case False
    have s: "section_of d b < ?T" using section_of_less [OF geo, of b] that(1) by linarith
    have "\<not> length (live_in d (section_of d b)) < mx" using False that(2) by (simp add: erasable_def)
    then have "\<not> erasable mx d c" if "section_of d b \<le> c" "c < section_of d b + per_section d" for c
      using section_of_unique [OF section_of_dvd that] by (simp add: erasable_def)
    then have "blk d' c = blk d c" if "section_of d b \<le> c" "c < section_of d b + per_section d" for c
      using d'(3) [of c] that section_end [OF geo section_of_dvd s] by simp
    then have "erasable ?M d' b = erasable ?M d b"
      using kept_total [OF d'(2)] by (intro erasable_cong geo) auto
    with that show ?thesis by simp
  qed
  show thesis
  proof (rule that [OF d'(1,2) kept_sound [OF assms(1) d'(2)]])
    show "room d'" if "room d"
      using that free stays kept_total [OF d'(2)] by (auto simp: room_def)
    show "\<exists>b. 1 \<le> b \<and> b < ?T \<and> status_of d' b = BLOCK_STATUS_FREE" if "mx = ?M" "room d"
      using that free by (auto simp: room_def)
  qed
qed


lemma room_free: "1 \<le> b \<Longrightarrow> b < cl_block_gettotal d \<Longrightarrow> status_of d b = BLOCK_STATUS_FREE \<Longrightarrow> room d"
  by (auto simp: room_def)

lemma geteraseable_sound: "sound d \<Longrightarrow> cl_block_geteraseable d = per_section d"
  by (simp add: sound_def geteraseable_eq)

lemma alloc_retry_outcome:
  "sound d \<Longrightarrow> hint < cl_block_gettotal d \<Longrightarrow> per_section d \<le> 41 \<Longrightarrow>
   (\<exists>d'. alloc_retry i sn hint ty d = Some (None, d') \<and> kept d d' \<and> sound d' \<and> (room d \<longrightarrow> room d'))
   \<or> (\<exists>b d'. b \<noteq> BLOCK_INVALID \<and> alloc_retry i sn hint ty d = Some (Some b, d') \<and> granted sn ty d b d')"
proof (induction i arbitrary: d)
  case 0
  then show ?case by (auto simp: sound_def intro: kept_refl)
next
  case (Suc i)
  let ?mx = "per_section d div 2 ^ Suc i"
  have "?mx \<le> per_section d div 2" by (simp add: div_mult2_eq div_le_dividend div_le_mono)
  then have mx: "?mx \<le> SCRATCH_ENTRIES + 1" "?mx \<le> per_section d * 3 div 4"
    using Suc.prems(3) by linarith+
  obtain d1 where d1: "erase_dirty_blocks ?mx d = Some (0, d1)" "kept d d1" "sound d1" "room d \<Longrightarrow> room d1"
    using erase_dirty_blocks_room [OF Suc.prems(1) mx] by metis
  note t = kept_total [OF d1(2)]
  note er = geteraseable_sound [OF Suc.prems(1)]
  have "hint < cl_block_gettotal d1" using Suc.prems(2) t by simp
  from alloc_block_granted [OF d1(3) this, of sn ty] show ?case
  proof (elim disjE conjE exE)
    assume "alloc_block sn hint ty d1 = Some (BLOCK_INVALID, d1)"
    then have step: "alloc_retry (Suc i) sn hint ty d = alloc_retry i sn hint ty d1"
      using d1(1) er by simp
    from Suc.IH [OF d1(3)] Suc.prems(2,3) t d1(2,4) show ?thesis
      unfolding step by (auto intro: kept_trans granted_kept)
  next
    fix b d' assume "alloc_block sn hint ty d1 = Some (b, d')" "b \<noteq> BLOCK_INVALID" "granted sn ty d1 b d'"
    then show ?thesis using d1(1,2) er by (auto intro: granted_kept)
  qed
qed

lemma erase_room_ex:
  assumes "sound d" "mx \<le> SCRATCH_ENTRIES + 1" "mx \<le> per_section d * 3 div 4"
  shows "\<exists>d'. erase_dirty_blocks mx d = Some (0, d') \<and> kept d d' \<and> sound d' \<and> (room d \<longrightarrow> room d')
    \<and> (mx = per_section d * 3 div 4 \<and> room d \<longrightarrow>
        (\<exists>b. 1 \<le> b \<and> b < cl_block_gettotal d \<and> status_of d' b = BLOCK_STATUS_FREE))"
  using erase_dirty_blocks_room [OF assms] by metis

text \<open>The last stage: an erasure with the bound three quarters, and the last attempt.\<close>

lemma alloc_last_outcome:
  assumes "sound d" "hint < cl_block_gettotal d" "per_section d \<le> 41"
  obtains d5 b d' where "erase_dirty_blocks (per_section d * 3 div 4) d = Some (0, d5)"
    "alloc_block sn hint ty d5 = Some (b, d')"
    "b \<noteq> BLOCK_INVALID \<and> granted sn ty d b d' \<or> b = BLOCK_INVALID \<and> kept d d' \<and> sound d' \<and> \<not> room d"
proof -
  have mx: "per_section d * 3 div 4 \<le> SCRATCH_ENTRIES + 1" using assms(3) by linarith
  from erase_room_ex [OF assms(1) mx order_refl] obtain d5 where
    d5: "erase_dirty_blocks (per_section d * 3 div 4) d = Some (0, d5)" "kept d d5" "sound d5"
      "room d \<longrightarrow> (\<exists>b. 1 \<le> b \<and> b < cl_block_gettotal d \<and> status_of d5 b = BLOCK_STATUS_FREE)"
    by auto
  note t = kept_total [OF d5(2)]
  have h5: "hint < cl_block_gettotal d5" using assms(2) t by simp
  show thesis using alloc_block_granted [OF d5(3) h5, of sn ty]
  proof (elim disjE conjE exE)
    assume "alloc_block sn hint ty d5 = Some (BLOCK_INVALID, d5)"
      "\<forall>b. 1 \<le> b \<and> b < cl_block_gettotal d5 \<longrightarrow> status_of d5 b \<noteq> BLOCK_STATUS_FREE"
    then show thesis using d5 t that by auto
  next
    fix b d' assume "b \<noteq> BLOCK_INVALID" "alloc_block sn hint ty d5 = Some (b, d')" "granted sn ty d5 b d'"
    then show thesis using d5 that granted_kept by blast
  qed
qed

lemma cl_block_alloc_outcome:
  assumes "sound d" "hint < cl_block_gettotal d" "per_section d \<le> 41"
  obtains b d' where "cl_block_alloc sn hint ty d = Some (b, d')"
    "b \<noteq> BLOCK_INVALID \<and> granted sn ty d b d' \<or> b = BLOCK_INVALID \<and> kept d d' \<and> sound d' \<and> \<not> room d"
  using alloc_block_granted [OF assms(1,2), of sn ty]
proof (elim disjE conjE exE)
  fix b d' assume "b \<noteq> BLOCK_INVALID" "alloc_block sn hint ty d = Some (b, d')" "granted sn ty d b d'"
  then show thesis using that by (simp add: cl_block_alloc_def)
next
  assume a1: "alloc_block sn hint ty d = Some (BLOCK_INVALID, d)"
  have mx: "per_section d div 16 \<le> SCRATCH_ENTRIES + 1" "per_section d div 16 \<le> per_section d * 3 div 4"
    using assms(3) by linarith+
  from erase_room_ex [OF assms(1) mx] obtain d2 where
    d2: "erase_dirty_blocks (per_section d div 16) d = Some (0, d2)" "kept d d2" "sound d2" "room d \<longrightarrow> room d2" by auto
  have h2: "hint < cl_block_gettotal d2" and e2: "per_section d2 \<le> 41" using kept_total [OF d2(2)] assms by auto
  note er = geteraseable_sound [OF assms(1)] geteraseable_sound [OF d2(3)]
  show thesis using alloc_block_granted [OF d2(3) h2, of sn ty]
  proof (elim disjE conjE exE)
    fix b d' assume "b \<noteq> BLOCK_INVALID" "alloc_block sn hint ty d2 = Some (b, d')" "granted sn ty d2 b d'"
    then show thesis using that a1 d2 er granted_kept by (auto simp: cl_block_alloc_def)
  next
    assume a2: "alloc_block sn hint ty d2 = Some (BLOCK_INVALID, d2)"
    show thesis using alloc_retry_outcome [OF d2(3) h2 e2, of 3 sn ty]
    proof (elim disjE conjE exE)
      fix b d' assume "b \<noteq> BLOCK_INVALID" "alloc_retry 3 sn hint ty d2 = Some (Some b, d')" "granted sn ty d2 b d'"
      then show thesis using that a1 a2 d2 er granted_kept by (auto simp: cl_block_alloc_def)
    next
      fix d4 assume d4: "alloc_retry 3 sn hint ty d2 = Some (None, d4)" "kept d2 d4" "sound d4" "room d2 \<longrightarrow> room d4"
      have h4: "hint < cl_block_gettotal d4" and e4: "per_section d4 \<le> 41" using kept_total [OF d4(2)] h2 e2 by auto
      obtain d5 b d' where d5: "erase_dirty_blocks (per_section d4 * 3 div 4) d4 = Some (0, d5)"
        "alloc_block sn hint ty d5 = Some (b, d')"
        "b \<noteq> BLOCK_INVALID \<and> granted sn ty d4 b d' \<or> b = BLOCK_INVALID \<and> kept d4 d' \<and> sound d' \<and> \<not> room d4"
        by (rule alloc_last_outcome [OF d4(3) h4 e4])
      have run: "cl_block_alloc sn hint ty d = Some (b, d')"
        using a1 a2 d2(1) d4(1) d5(1,2) er geteraseable_sound [OF d4(3)] by (simp add: cl_block_alloc_def)
      have "kept d d4" using kept_trans [OF d2(2) d4(2)] .
      with d5(3) d2(4) d4(4) show thesis
        by (intro that [OF run]) (auto intro: granted_kept kept_trans)
    qed
  qed
qed


subsection \<open>Properties\<close>

lemma dirty_disk_sound: "sound dirty_disk"
proof -
  have "free_from dirty_disk 0"
    by (auto simp: free_from_def get_def Let_def list_eq_iff_nth_eq) (simp_all add: dirty_disk_def sim_device_def)
  then show ?thesis using dirty_disk_clean by (auto simp: sound_def idle_def)
qed

lemma dirty_disk_room: "room dirty_disk"
proof -
  have "section_of dirty_disk 1 = 0" by (simp add: section_of_def)
  moreover have "unpinned dirty_disk 0"
    by (simp add: unpinned_def pins_def dirty_disk_status)
  moreover have "live_in dirty_disk 0 = []"
    by (auto simp: live_in_def live_def dirty_disk_status filter_empty_conv)
  moreover have "\<not> live dirty_disk 1" by (simp add: live_def dirty_disk_status)
  ultimately have "erasable 24 dirty_disk 1" by (simp add: erasable_def)
  then show ?thesis unfolding room_def by (intro exI [of _ 1]) simp
qed

text \<open>
  \<open>erase_dirty_blocks\<close> erases exactly the sections that no open, free or serial-number-list block
  pins and that hold fewer than \<open>max_written\<close> live blocks. Its live blocks come back through the scratch
  area byte for byte, its other blocks are free afterwards, and the rest of the disk is untouched; no
  write fails and no copy stays pending in the scratch table, as long as the bound does not exceed the
  scratch area by more than one.
\<close>

theorem erase_dirty_blocks_effect:
  assumes "geometry d" "idle d n" "max_written \<le> SCRATCH_ENTRIES + 1"
  shows "\<exists>d' n'. erase_dirty_blocks max_written d = Some (0, d') \<and> idle d' n' \<and> same_dev d d' \<and>
    (\<forall>b<cl_block_gettotal d.
       blk d' b = (if erasable max_written d b then replicate 128 0xFF else blk d b))"
proof -
  have "\<exists>d'. erase_dirty_blocks max_written d = Some (0, d') \<and> kept d d'
      \<and> (\<forall>b<cl_block_gettotal d. blk d' b = (if erasable max_written d b then replicate 128 0xFF else blk d b))"
    by (rule erase_dirty_blocks_keeps [OF assms])
       (rule exI, intro conjI allI impI, assumption, assumption, simp only:)
  then show ?thesis unfolding kept_def by blast
qed

theorem erase_dirty_blocks_effect_witness:
  "\<exists>d' n'. erase_dirty_blocks 24 dirty_disk = Some (0, d') \<and> idle d' n'
     \<and> blk d' 40 = blk dirty_disk 40 \<and> blk d' 41 = replicate 128 0xFF"
proof -
  obtain n where n: "idle dirty_disk n" using dirty_disk_sound by (auto simp: sound_def)
  have sec: "section_of dirty_disk 41 = 32" by (simp add: section_of_def)
  have st: "status_of dirty_disk b = (if b = 40 then BLOCK_STATUS_CLOSED else BLOCK_STATUS_DIRTY)" if "b \<in> {32 ..< 64}" for b
    using that by (simp add: dirty_disk_status)
  have "serial_of dirty_disk 40 = 7"
    by (simp add: serial_of_def dirty_disk_def sim_device_def upt_conv_Cons)
  then have un: "unpinned dirty_disk 32"
    by (simp add: unpinned_def pins_def st)
  have li: "live_in dirty_disk 32 = filter (\<lambda>b. b = 40) [32 ..< 64]"
    unfolding live_in_def by (intro filter_cong) (auto simp: live_def st)
  have lv: "length (live_in dirty_disk 32) = 1" unfolding li by code_simp
  have "erasable 24 dirty_disk 41" using un lv by (simp add: erasable_def sec live_def dirty_disk_status)
  moreover have "\<not> erasable 24 dirty_disk 40" by (simp add: erasable_def live_def dirty_disk_status)
  ultimately show ?thesis
    using erase_dirty_blocks_effect [OF disk_geometry(5) n, of 24] by auto
qed

text \<open>
  C32: Allocation never loses data. Whatever erasing \<open>cl_block_alloc\<close> has to do before it finds a block,
  every block that is OPEN or CLOSED keeps its 128 bytes; the block it returns was not in use, is now
  OPEN with the caller's serial number and type and erased behind its header; no write of a cleared bit
  is attempted, and the disk stays sound. It needs a hint on the disk and sections of at most 41
  blocks, those of which the scratch area can hold three quarters.
\<close>

theorem block_alloc_keeps_live_blocks:
  assumes "sound d" "hint < cl_block_gettotal d" "per_section d \<le> 41"
  shows "\<exists>b d'. cl_block_alloc sn hint ty d = Some (b, d') \<and> sound d'
    \<and> (\<forall>c<cl_block_gettotal d. live d c \<longrightarrow> blk d' c = blk d c)
    \<and> (b \<noteq> BLOCK_INVALID \<longrightarrow> 1 \<le> b \<and> b < cl_block_gettotal d \<and> \<not> live d b
         \<and> hdr_of d' b = \<lparr>bh_serialno = sn, bh_type = ty, bh_status = BLOCK_STATUS_OPEN\<rparr>
         \<and> drop 6 (blk d' b) = replicate 122 0xFF)"
proof -
  obtain b d' where r: "cl_block_alloc sn hint ty d = Some (b, d')"
    "b \<noteq> BLOCK_INVALID \<and> granted sn ty d b d' \<or> b = BLOCK_INVALID \<and> kept d d' \<and> sound d' \<and> \<not> room d"
    by (rule cl_block_alloc_outcome [OF assms])
  from r(2) have "sound d'" "\<forall>c<cl_block_gettotal d. live d c \<longrightarrow> blk d' c = blk d c"
    by (auto simp: granted_def kept_def)
  with r show ?thesis by (intro exI [of _ b] exI [of _ d']) (auto simp: granted_def)
qed

theorem block_alloc_keeps_live_blocks_witness:
  "\<exists>b d'. cl_block_alloc 9 40 BLOCK_TYPE_FILE_DATA dirty_disk = Some (b, d')
     \<and> live dirty_disk 40 \<and> blk d' 40 = blk dirty_disk 40"
proof -
  have "live dirty_disk 40" by (simp add: live_def dirty_disk_status)
  with block_alloc_keeps_live_blocks [OF dirty_disk_sound, of 40 9 BLOCK_TYPE_FILE_DATA] show ?thesis by auto
qed

text \<open>
  C33: Allocation succeeds whenever it can: if some block is free, or lies in a section that no block
  pins and that is less than three quarters live, \<open>cl_block_alloc\<close> comes back with a block.
\<close>

theorem block_alloc_succeeds:
  assumes "sound d" "hint < cl_block_gettotal d" "per_section d \<le> 41" "room d"
  shows "\<exists>b d'. cl_block_alloc sn hint ty d = Some (b, d') \<and> b \<noteq> BLOCK_INVALID \<and> status_of d' b = BLOCK_STATUS_OPEN"
proof -
  obtain b d' where r: "cl_block_alloc sn hint ty d = Some (b, d')"
    "b \<noteq> BLOCK_INVALID \<and> granted sn ty d b d' \<or> b = BLOCK_INVALID \<and> kept d d' \<and> sound d' \<and> \<not> room d"
    by (rule cl_block_alloc_outcome [OF assms(1-3)])
  with assms(4) show ?thesis by (auto simp: granted_def hdr_of_def)
qed

theorem block_alloc_succeeds_witness:
  "\<exists>b d'. cl_block_alloc 9 0 BLOCK_TYPE_FILE_HDR dirty_disk = Some (b, d') \<and> b \<noteq> BLOCK_INVALID
     \<and> status_of d' b = BLOCK_STATUS_OPEN"
  by (rule block_alloc_succeeds [OF dirty_disk_sound _ _ dirty_disk_room]) simp_all

end
