(* ===== verification/CafsList.thy ===== *)
theory CafsList
  imports CafsErase
begin

section \<open>CAFS lite lists (cafs_lite_list.c)\<close>

text \<open>
  A list is a chain of blocks, doubly linked by block numbers behind the block header, each holding as
  many items of a fixed size as fit; an item is free while its status byte is erased, and the list ends
  at its first free item. \<open>cl_list_t\<close> is a cursor: it keeps a RAM copy of the current block. The loops
  \<open>while ( cl_list_getnext(...) == 0 )\<close> of the file system are instances of \<open>while_next\<close>.
\<close>

record cl_list =
  ls_data :: cl_block_data
  ls_block :: nat
  ls_item :: nat
  ls_total :: nat
  ls_size :: nat
  ls_is_free :: "byte list \<Rightarrow> bool"

definition list_typeisvalid :: "byte \<Rightarrow> bool" where
  "list_typeisvalid ty \<longleftrightarrow> ty AND BLOCK_TYPE_LIST_FLAG \<noteq> 0
     \<and> (ty AND NOT BLOCK_TYPE_LINKED_LIST_FLAG = BLOCK_TYPE_SERIALNO_LIST
        \<or> ty AND NOT BLOCK_TYPE_LINKED_LIST_FLAG = BLOCK_TYPE_FILE_LIST)"

definition calc_total_items :: "nat \<Rightarrow> nat" where
  "calc_total_items item_size = (122 - 4) div item_size"

definition get_item :: "byte list \<Rightarrow> nat \<Rightarrow> nat \<Rightarrow> byte list" where
  "get_item data n item_size = take item_size (drop (4 + item_size * n) data)"

text \<open>\<open>cl_list_hdr_t\<close>: the first four bytes of the data.\<close>

definition list_next :: "byte list \<Rightarrow> nat" where
  "list_next data = get_le (take 2 data)"

definition list_prev :: "byte list \<Rightarrow> nat" where
  "list_prev data = get_le (take 2 (drop 2 data))"

definition get_hdr_addr :: "nat \<Rightarrow> nat" where
  "get_hdr_addr block = block * BLOCK_SIZE + 6"

definition get_item_addr :: "nat \<Rightarrow> nat \<Rightarrow> nat \<Rightarrow> nat" where
  "get_item_addr block item item_size = block * BLOCK_SIZE + 6 + 4 + item * item_size"

definition list_add_block :: "u32 \<Rightarrow> byte \<Rightarrow> nat \<Rightarrow> flash \<Rightarrow> (nat \<times> flash) option" where
  "list_add_block serialno ty list_block d = do {
    (next, d1) \<leftarrow> cl_block_alloc serialno list_block (ty OR BLOCK_TYPE_LINKED_LIST_FLAG) d;
    if next = BLOCK_INVALID then Some (BLOCK_INVALID, d1)
    else do {
      (r2, d2) \<leftarrow> cl_dev_write (get_hdr_addr list_block) (put_le 2 next) d1;
      if r2 \<noteq> 2 then Some (BLOCK_INVALID, d2)
      else do {
        (r3, d3) \<leftarrow> cl_dev_write (get_hdr_addr next + 2) (put_le 2 list_block) d2;
        if r3 \<noteq> 2 then Some (BLOCK_INVALID, d3)
        else if ty = BLOCK_TYPE_SERIALNO_LIST then do {
          (r4, d4) \<leftarrow> cl_block_close next d3;
          Some (if r4 < 0 then BLOCK_INVALID else next, d4)
        } else Some (next, d3)
      }
    }
  }"

definition list_update :: "cl_list \<Rightarrow> nat \<Rightarrow> flash \<Rightarrow> int \<times> cl_list" where
  "list_update l prev_block d =
    (let l1 = l\<lparr>ls_item := 0\<rparr>
     in case cl_block_load (ls_block l) d of
          None \<Rightarrow> (-1, l1)
        | Some x \<Rightarrow>
            (if prev_block \<noteq> list_prev (bd_data x) \<or> \<not> list_typeisvalid (bh_type (bd_hdr x)) then -1 else 0,
             l1\<lparr>ls_data := x\<rparr>))"

definition cl_list_init :: "nat \<Rightarrow> nat \<Rightarrow> (byte list \<Rightarrow> bool) \<Rightarrow> flash \<Rightarrow> int \<times> cl_list" where
  "cl_list_init list_block item_size is_free d =
    list_update \<lparr>ls_data = bytes_data (replicate 128 0), ls_block = list_block, ls_item = 0,
      ls_total = calc_total_items item_size, ls_size = item_size, ls_is_free = is_free\<rparr> BLOCK_INVALID d"

text \<open>
  \<open>cl_list_getnext\<close> returns its result, the cursor, and the item and address it has stored: \<open>None\<close> when
  it stores neither.
\<close>

definition cl_list_getnext :: "cl_list \<Rightarrow> flash \<Rightarrow> int \<times> cl_list \<times> (byte list \<times> nat) option" where
  "cl_list_getnext l d =
    (if ls_item l < ls_total l then
       let addr = get_item_addr (ls_block l) (ls_item l) (ls_size l);
           new_item = get_item (bd_data (ls_data l)) (ls_item l) (ls_size l);
           out = Some (new_item, addr)
       in if ls_is_free l new_item then (1, l, out)
          else let l1 = l\<lparr>ls_item := ls_item l + 1\<rparr>; next = list_next (bd_data (ls_data l1))
            in if ls_item l1 = ls_total l1 \<and> next \<noteq> BLOCK_INVALID then
                 let l2 = l1\<lparr>ls_block := next\<rparr>
                 in if ls_block l1 = next then (-1, l2, out)
                    else let (r, l3) = list_update l2 (ls_block l1) d
                         in (if r < 0 then -1 else 0, l3, out)
               else (0, l1, out)
     else (-1, l, None))"

text \<open>
  The loop \<open>while ( cl_list_getnext(cfg, &list, &item, &addr) == 0 ) body\<close>. The body returns from the
  function (\<open>Inl\<close>) or goes on (\<open>Inr\<close>); the loop's own end gives the last result of \<open>cl_list_getnext\<close>,
  the cursor and what was stored last.
\<close>

partial_function (option) while_next ::
  "(byte list \<Rightarrow> nat \<Rightarrow> cl_list \<Rightarrow> 's \<Rightarrow> flash \<Rightarrow> (('r \<times> flash) + (cl_list \<times> 's \<times> flash)) option)
   \<Rightarrow> cl_list \<Rightarrow> 's \<Rightarrow> flash \<Rightarrow> (('r \<times> flash) + (int \<times> cl_list \<times> (byte list \<times> nat) option \<times> 's \<times> flash)) option"
where
  "while_next body l s d =
    (case cl_list_getnext l d of (r, l1, out) \<Rightarrow>
       if r = 0 then
         case out of
           None \<Rightarrow> None
         | Some (item, addr) \<Rightarrow>
             Option.bind (body item addr l1 s d)
               (\<lambda>x. case x of Inl ret \<Rightarrow> Some (Inl ret) | Inr (l2, s2, d2) \<Rightarrow> while_next body l2 s2 d2)
       else Some (Inr (r, l1, out, s, d)))"

text \<open>
  \<open>cl_list_setblockstatus\<close>: the walk to the last block, which checks the links, and the walk back, which
  sets the statuses.
\<close>

definition read_list_hdr :: "nat \<Rightarrow> flash \<Rightarrow> (nat \<times> nat) option" where
  "read_list_hdr b d =
    (let (r, bs) = cl_dev_read (get_hdr_addr b) 4 d
     in if r \<noteq> 4 then None else Some (list_next bs, list_prev bs))"

partial_function (option) walk_forward :: "nat \<Rightarrow> nat \<Rightarrow> flash \<Rightarrow> (int \<times> nat) option" where
  "walk_forward tmp_block last_block d =
    (if tmp_block = BLOCK_INVALID then Some (0, last_block)
     else case read_list_hdr tmp_block d of
       None \<Rightarrow> Some (-1, last_block)
     | Some (next, prev) \<Rightarrow>
         if prev \<noteq> last_block then Some (-1, last_block) else walk_forward next tmp_block d)"

partial_function (option) walk_back :: "nat \<Rightarrow> byte \<Rightarrow> flash \<Rightarrow> (int \<times> flash) option" where
  "walk_back tmp_block status d =
    (if tmp_block = BLOCK_INVALID then Some (0, d)
     else case read_list_hdr tmp_block d of
       None \<Rightarrow> Some (-1, d)
     | Some (next, prev) \<Rightarrow>
         Option.bind (cl_block_setstatus tmp_block status d)
           (\<lambda>(r, d1). if r < 0 then Some (-1, d1) else walk_back prev status d1))"

definition cl_list_setblockstatus :: "nat \<Rightarrow> byte \<Rightarrow> flash \<Rightarrow> (int \<times> flash) option" where
  "cl_list_setblockstatus list_block status d = do {
    (r, last_block) \<leftarrow> walk_forward list_block BLOCK_INVALID d;
    if r < 0 then Some (-1, d) else walk_back last_block status d
  }"

definition cl_list_discard :: "nat \<Rightarrow> flash \<Rightarrow> (int \<times> flash) option" where
  "cl_list_discard list_block d = cl_list_setblockstatus list_block BLOCK_STATUS_DIRTY d"

definition cl_list_close :: "nat \<Rightarrow> flash \<Rightarrow> (int \<times> flash) option" where
  "cl_list_close list_block d = cl_list_setblockstatus list_block BLOCK_STATUS_CLOSED d"

text \<open>
  \<open>cl_list_append\<close> returns its result, the address it stores (it stores none when the item is already
  in the list) and the disk.
\<close>

definition cl_list_append :: "cl_list \<Rightarrow> byte \<Rightarrow> byte list \<Rightarrow> flash \<Rightarrow> (int \<times> nat option \<times> flash) option" where
  "cl_list_append l ty item d = do {
    w \<leftarrow> while_next (\<lambda>tmp _ l1 s d1. Some (if item = tmp then Inl ((), d1) else Inr (l1, s, d1))) l () d;
    case w of
      Inl (_, d1) \<Rightarrow> Some (0, None, d1)
    | Inr (ret, l1, _, _, d1) \<Rightarrow> do {
        (dev_addr, d2) \<leftarrow>
          (if ret = 1 then Some (get_item_addr (ls_block l1) (ls_item l1) (ls_size l1), d1)
           else do {
             (next_block, d2) \<leftarrow> list_add_block (bh_serialno (bd_hdr (ls_data l1))) ty (ls_block l1) d1;
             Some (get_item_addr next_block 0 (ls_size l1), d2)
           });
        (r, d3) \<leftarrow> cl_dev_write dev_addr item d2;
        Some (if r \<noteq> int (ls_size l1) then -1 else 0, Some dev_addr, d3)
      }
  }"


subsection \<open>Consolidating a list\<close>

text \<open>
  \<open>cl_list_consolidate\<close> copies the items that are not dirty to a new chain of blocks. \<open>consol\<close> is what
  its loops change: the item index \<open>j\<close> in the block being filled, the data of that block, and its number.
\<close>

record consol =
  cs_j :: nat
  cs_data :: "byte list"
  cs_block :: nat

definition overlay :: "nat \<Rightarrow> byte list \<Rightarrow> byte list \<Rightarrow> byte list" where
  "overlay off bs data = take off data @ bs @ drop (off + length bs) data"

text \<open>A block is full: the next one is allocated and linked, and the full one saved.\<close>

definition consol_full :: "u32 \<Rightarrow> byte \<Rightarrow> consol \<Rightarrow> flash \<Rightarrow> (consol option \<times> flash) option" where
  "consol_full serialno ty c d = do {
    (next, d1) \<leftarrow> cl_block_alloc serialno (cs_block c) (ty OR BLOCK_TYPE_LINKED_LIST_FLAG) d;
    (r, _, d2) \<leftarrow> cl_block_save (cs_block c)
      \<lparr>bd_hdr = \<lparr>bh_serialno = serialno, bh_type = ty, bh_status = 0xFF\<rparr>,
       bd_data = overlay 0 (put_le 2 next) (cs_data c)\<rparr> d1;
    if r < 0 then Some (None, d2)
    else Some (Some \<lparr>cs_j = 0, cs_data = overlay 2 (put_le 2 (cs_block c)) (replicate 122 0xFF), cs_block = next\<rparr>, d2)
  }"

text \<open>The loop over the items of one block, from item \<open>i\<close> with \<open>n\<close> to go; \<open>None\<close> is the return of -1.\<close>

fun consol_items :: "(byte list \<Rightarrow> bool) \<Rightarrow> (byte list \<Rightarrow> bool) \<Rightarrow> nat \<Rightarrow> u32 \<Rightarrow> byte \<Rightarrow> byte list
  \<Rightarrow> nat \<Rightarrow> nat \<Rightarrow> consol \<Rightarrow> flash \<Rightarrow> (consol option \<times> flash) option" where
  "consol_items is_dirty is_free z serialno ty data i 0 c d = Some (Some c, d)"
| "consol_items is_dirty is_free z serialno ty data i (Suc n) c d =
    (let item = get_item data i z
     in if is_free item then Some (Some c, d)
        else if \<not> is_dirty item then
          let c1 = c\<lparr>cs_data := overlay (4 + z * cs_j c) item (cs_data c), cs_j := cs_j c + 1\<rparr>
          in if cs_j c1 = calc_total_items z then do {
               (r, d1) \<leftarrow> consol_full serialno ty c1 d;
               case r of None \<Rightarrow> Some (None, d1)
               | Some c2 \<Rightarrow> consol_items is_dirty is_free z serialno ty data (Suc i) n c2 d1
             } else consol_items is_dirty is_free z serialno ty data (Suc i) n c1 d
        else consol_items is_dirty is_free z serialno ty data (Suc i) n c d)"

partial_function (option) consol_loop :: "(byte list \<Rightarrow> bool) \<Rightarrow> (byte list \<Rightarrow> bool) \<Rightarrow> nat \<Rightarrow> u32 \<Rightarrow> byte
  \<Rightarrow> nat \<Rightarrow> nat \<Rightarrow> consol \<Rightarrow> flash \<Rightarrow> (consol option \<times> flash) option" where
  "consol_loop is_dirty is_free z serialno ty cur old_prev c d =
    (if cur = BLOCK_INVALID then Some (Some c, d)
     else case cl_block_load cur d of
       None \<Rightarrow> Some (None, d)
     | Some x \<Rightarrow>
         if list_prev (bd_data x) \<noteq> old_prev \<or> \<not> list_typeisvalid (bh_type (bd_hdr x))
            \<or> serialno \<noteq> bh_serialno (bd_hdr x) \<or> bh_status (bd_hdr x) \<noteq> BLOCK_STATUS_CLOSED
         then Some (Some c, d)
         else Option.bind (consol_items is_dirty is_free z serialno ty (bd_data x) 0 (calc_total_items z) c d)
           (\<lambda>(r, d1). case r of None \<Rightarrow> Some (None, d1)
             | Some c1 \<Rightarrow> consol_loop is_dirty is_free z serialno ty (list_next (bd_data x)) cur c1 d1))"

definition cl_list_consolidate :: "u32 \<Rightarrow> nat \<Rightarrow> byte \<Rightarrow> nat \<Rightarrow> (byte list \<Rightarrow> bool) \<Rightarrow> (byte list \<Rightarrow> bool)
  \<Rightarrow> flash \<Rightarrow> (nat \<times> flash) option" where
  "cl_list_consolidate serialno list_block ty z is_dirty is_free d = do {
    (new_block, d1) \<leftarrow> cl_block_alloc serialno list_block ty d;
    if new_block = BLOCK_INVALID then Some (BLOCK_INVALID, d1)
    else do {
      (r, d2) \<leftarrow> consol_loop is_dirty is_free z serialno ty list_block BLOCK_INVALID
        \<lparr>cs_j = 0, cs_data = overlay 2 (put_le 2 BLOCK_INVALID) (replicate 122 0xFF), cs_block = new_block\<rparr> d1;
      case r of
        None \<Rightarrow> Some (BLOCK_INVALID, d2)
      | Some c \<Rightarrow> do {
          (r3, _, d3) \<leftarrow> cl_block_save (cs_block c)
            \<lparr>bd_hdr = \<lparr>bh_serialno = serialno, bh_type = ty, bh_status = 0xFF\<rparr>,
             bd_data = overlay 0 (put_le 2 BLOCK_INVALID) (cs_data c)\<rparr> d2;
          Some (if r3 < 0 then BLOCK_INVALID else new_block, d3)
        }
    }
  }"

subsection \<open>The scans end on every disk\<close>

text \<open>
  \<open>list_update\<close> accepts a block only when its \<open>prev\<close> field names the block the cursor comes from, so
  a cursor never visits a block twice, whatever the disk holds: \<open>rank d b k\<close> says that following the
  \<open>prev\<close> fields from \<open>b\<close> reaches the head of a list in \<open>k\<close> steps.
\<close>

definition prevs :: "flash \<Rightarrow> nat \<Rightarrow> nat option" where
  "prevs d b = map_option (\<lambda>x. list_prev (bd_data x)) (cl_block_load b d)"

primrec rank :: "flash \<Rightarrow> nat \<Rightarrow> nat \<Rightarrow> bool" where
  "rank d b 0 = (prevs d b = Some BLOCK_INVALID)"
| "rank d b (Suc k) = (\<exists>c. prevs d b = Some c \<and> rank d c k)"

lemma prevs_invalid [simp]: "prevs d BLOCK_INVALID = None"
  by (simp add: prevs_def cl_block_load_def)

lemma list_prev_bound: "list_prev data < 65536"
proof -
  have "get_le (take 2 (drop 2 data)) < 256 ^ length (take 2 (drop 2 data))" by (rule get_le_bound)
  also have "\<dots> \<le> (256 :: nat) ^ 2" by (rule power_increasing) auto
  finally show ?thesis by (simp add: list_prev_def)
qed

lemma prevs_bound: "prevs d b = Some c \<Longrightarrow> c < 65536"
  by (auto simp: prevs_def list_prev_bound)

lemma rank_valid: "rank d b k \<Longrightarrow> b \<noteq> BLOCK_INVALID"
  by (cases k) auto

lemma rank_unique: "rank d b k \<Longrightarrow> rank d b m \<Longrightarrow> k = m"
proof (induction k arbitrary: b m)
  case 0
  then show ?case by (cases m) (auto dest: rank_valid)
next
  case (Suc k)
  then show ?case by (cases m) (auto dest: rank_valid)
qed

lemma rank_down: "rank d b k \<Longrightarrow> i < k \<Longrightarrow> \<exists>c<65535. rank d c i"
proof (induction k arbitrary: b)
  case (Suc k)
  then obtain c where c: "prevs d b = Some c" "rank d c k" by auto
  show ?case
  proof (cases "i = k")
    case True
    have "c < 65536" using c(1) by (rule prevs_bound)
    moreover have "c \<noteq> 65535" using rank_valid [OF c(2)] .
    ultimately have "c < 65535" by linarith
    with c(2) True show ?thesis by blast
  next
    case False
    with Suc.prems(2) show ?thesis by (intro Suc.IH [OF c(2)]) simp
  qed
qed simp

lemma rank_bound:
  assumes "rank d b k"
  shows "k \<le> 65535"
proof -
  have "\<forall>i\<in>{..<k}. \<exists>c. c < 65535 \<and> rank d c i" using rank_down [OF assms] by auto
  then obtain f where f: "\<forall>i\<in>{..<k}. f i < 65535 \<and> rank d (f i) i"
    by (auto dest!: bchoice)
  have "inj_on f {..<k}"
    by (rule inj_onI) (metis f rank_unique)
  then have "card {..<k} \<le> card {..<65535 :: nat}"
    using f by (intro card_inj_on_le [of f]) auto
  then show ?thesis by simp
qed

text \<open>A step of the cursor.\<close>

definition cursor :: "flash \<Rightarrow> cl_list \<Rightarrow> nat \<Rightarrow> bool" where
  "cursor d l k \<longleftrightarrow> rank d (ls_block l) k \<and> ls_item l \<le> ls_total l"

lemma list_update_fields:
  "list_update l p d = (r, l') \<Longrightarrow> ls_block l' = ls_block l \<and> ls_item l' = 0 \<and> ls_total l' = ls_total l
     \<and> ls_size l' = ls_size l \<and> ls_is_free l' = ls_is_free l
     \<and> (0 \<le> r \<longrightarrow> prevs d (ls_block l) = Some p \<and> cl_block_load (ls_block l) d = Some (ls_data l'))"
  by (auto simp: list_update_def prevs_def Let_def split: option.splits if_splits)

lemma getnext_zero:
  assumes "cl_list_getnext l d = (0, l', out)" "cursor d l k"
  shows "out = Some (get_item (bd_data (ls_data l)) (ls_item l) (ls_size l),
           get_item_addr (ls_block l) (ls_item l) (ls_size l))"
    "ls_item l < ls_total l" "ls_total l' = ls_total l" "ls_size l' = ls_size l" "ls_is_free l' = ls_is_free l"
    "cursor d l' k \<and> ls_item l' = ls_item l + 1 \<and> ls_block l' = ls_block l \<and> ls_data l' = ls_data l
     \<or> cursor d l' (Suc k) \<and> ls_item l' = 0 \<and> cl_block_load (ls_block l') d = Some (ls_data l')"
  using assms
  by (auto simp: cl_list_getnext_def cursor_def Let_def split: if_splits prod.splits dest!: list_update_fields)

definition scan_measure :: "nat \<Rightarrow> cl_list \<Rightarrow> nat" where
  "scan_measure k l = (65535 - k) * (ls_total l + 1) + (ls_total l - ls_item l)"

lemma getnext_measure:
  assumes "cl_list_getnext l d = (0, l', out)" "cursor d l k"
  obtains k' where "cursor d l' k'" "scan_measure k' l' < scan_measure k l"
proof -
  note z = getnext_zero [OF assms]
  from z(6) show thesis
  proof (elim disjE conjE)
    assume "cursor d l' k" "ls_item l' = ls_item l + 1"
    then show thesis using that [of k] z(2,3) by (simp add: scan_measure_def)
  next
    assume c: "cursor d l' (Suc k)" "ls_item l' = 0"
    have "Suc k \<le> 65535" using c(1) rank_bound [of d "ls_block l'" "Suc k"] by (simp only: cursor_def)
    then obtain m where m: "65535 - k = Suc m" "65535 - Suc k = m" by (metis Suc_diff_Suc Suc_le_lessD)
    have "scan_measure (Suc k) l' = m * (ls_total l + 1) + ls_total l"
      by (simp only: scan_measure_def m c(2) z(3) diff_zero)
    moreover have "scan_measure k l = Suc m * (ls_total l + 1) + (ls_total l - ls_item l)"
      by (simp only: scan_measure_def m)
    ultimately show thesis using that [OF c(1)] by simp
  qed
qed

text \<open>What a loop body must keep so that the scan goes on where it was.\<close>

definition steady :: "cl_list \<Rightarrow> flash \<Rightarrow> cl_list \<Rightarrow> flash \<Rightarrow> bool" where
  "steady l d l' d' \<longleftrightarrow> ls_block l' = ls_block l \<and> ls_item l' = ls_item l \<and> ls_total l' = ls_total l
     \<and> ls_size l' = ls_size l \<and> ls_is_free l' = ls_is_free l \<and> prevs d' = prevs d"

lemma rank_cong: "prevs d' = prevs d \<Longrightarrow> rank d' b k = rank d b k"
  by (induction k arbitrary: b) auto

lemma while_next_ends:
  assumes body: "\<And>item b i l s d. Q d \<Longrightarrow> prevs d b \<noteq> None \<Longrightarrow> i < ls_total l \<Longrightarrow> ls_total l = t \<Longrightarrow> ls_size l = z \<Longrightarrow>
     \<exists>x. body item (get_item_addr b i z) l s d = Some x
       \<and> (\<forall>l' s' d'. x = Inr (l', s', d') \<longrightarrow> steady l d l' d' \<and> Q d')"
    and "cursor d l k" "ls_total l = t" "ls_size l = z" "Q d"
  shows "\<exists>w. while_next body l s d = Some w"
  using assms(2-)
proof (induction "scan_measure k l" arbitrary: k l s d rule: less_induct)
  case less
  obtain r l1 out where g: "cl_list_getnext l d = (r, l1, out)" by (metis prod_cases3)
  show ?case
  proof (cases "r = 0")
    case False
    with g show ?thesis by (subst while_next.simps) simp
  next
    case True
    with g have g0: "cl_list_getnext l d = (0, l1, out)" by simp
    note z = getnext_zero [OF g0 less.prems(1)]
    from getnext_measure [OF g0 less.prems(1)] obtain k' where
      k': "cursor d l1 k'" "scan_measure k' l1 < scan_measure k l" by metis
    have "prevs d (ls_block l) \<noteq> None" using less.prems(1) by (cases k) (auto simp: cursor_def)
    moreover have "ls_item l < ls_total l1" "ls_total l1 = t" "ls_size l1 = z"
      using z(2-4) less.prems(2,3) by simp_all
    ultimately have "\<exists>x. body (get_item (bd_data (ls_data l)) (ls_item l) (ls_size l)) (get_item_addr (ls_block l) (ls_item l) z) l1 s d = Some x
         \<and> (\<forall>l' s' d'. x = Inr (l', s', d') \<longrightarrow> steady l1 d l' d' \<and> Q d')"
      by (rule body [OF less.prems(4)])
    then obtain y where
      y: "body (get_item (bd_data (ls_data l)) (ls_item l) (ls_size l)) (get_item_addr (ls_block l) (ls_item l) z) l1 s d = Some y"
        "\<forall>l' s' d'. y = Inr (l', s', d') \<longrightarrow> steady l1 d l' d' \<and> Q d'"
      by blast
    show ?thesis
    proof (cases y)
      case (Inl ret)
      with y(1) g0 z(1) less.prems(3) show ?thesis by (subst while_next.simps) simp
    next
      case (Inr q)
      obtain l2 s2 d2 where q: "q = (l2, s2, d2)" by (metis prod_cases3)
      with y(2) Inr have st: "steady l1 d l2 d2" "Q d2" by auto
      have c2: "cursor d2 l2 k'" using k'(1) st(1) rank_cong [of d2 d "ls_block l1" k'] by (simp add: cursor_def steady_def)
      have "scan_measure k' l2 < scan_measure k l" using k'(2) st(1) by (simp add: scan_measure_def steady_def)
      from less.hyps [OF this c2] st z(3,4) less.prems(2,3) have "\<exists>w. while_next body l2 s2 d2 = Some w"
        by (simp add: steady_def)
      with y(1) g0 z(1) less.prems(3) Inr q show ?thesis by (subst while_next.simps) simp
    qed
  qed
qed

lemma list_init_cursor:
  assumes "cl_list_init b z f d = (r, l)" "0 \<le> r"
  shows "cursor d l 0" "ls_total l = calc_total_items z" "ls_size l = z" "ls_is_free l = f" "ls_block l = b" "ls_item l = 0"
    "cl_block_load b d = Some (ls_data l)"
  using assms by (auto simp: cl_list_init_def cursor_def dest!: list_update_fields)

end
