(* ===== verification/CafsChain.thy ===== *)
theory CafsChain
  imports CafsList
begin

section \<open>CAFS lite lists as lists\<close>

text \<open>
  The abstraction of a well-formed list: its blocks form a chain, and its items are the slots of these
  blocks up to the first free one. A scan of the code goes through the slots in this order, and an
  append puts an item in the first free slot or in a block it adds to the chain.
\<close>

definition data_of :: "flash \<Rightarrow> nat \<Rightarrow> byte list" where
  "data_of d b = drop 6 (blk d b)"

fun chain :: "flash \<Rightarrow> nat \<Rightarrow> nat list \<Rightarrow> bool" where
  "chain d p [] = False"
| "chain d p (b # bs) =
    (b < cl_block_gettotal d \<and> list_prev (data_of d b) = p \<and> list_typeisvalid (type_of d b)
     \<and> (case bs of [] \<Rightarrow> list_next (data_of d b) = BLOCK_INVALID
        | c # _ \<Rightarrow> list_next (data_of d b) = c \<and> chain d b bs))"

definition block_slots :: "flash \<Rightarrow> nat \<Rightarrow> nat \<Rightarrow> (byte list \<times> nat) list" where
  "block_slots d z b = map (\<lambda>i. (get_item (data_of d b) i z, get_item_addr b i z)) [0 ..< calc_total_items z]"

definition slots :: "flash \<Rightarrow> nat \<Rightarrow> nat list \<Rightarrow> (byte list \<times> nat) list" where
  "slots d z bs = concat (map (block_slots d z) bs)"

text \<open>A scan whose body only reads, over the slots.\<close>

fun scan_slots :: "(byte list \<Rightarrow> bool) \<Rightarrow> (byte list \<Rightarrow> nat \<Rightarrow> 's \<Rightarrow> 'r + 's) \<Rightarrow> (byte list \<times> nat) list \<Rightarrow> 's
    \<Rightarrow> 'r + (nat option \<times> 's)" where
  "scan_slots fr f [] s = Inr (None, s)"
| "scan_slots fr f ((x, a) # r) s =
    (if fr x then Inr (Some a, s) else case f x a s of Inl v \<Rightarrow> Inl v | Inr s' \<Rightarrow> scan_slots fr f r s')"

definition cursor_at :: "flash \<Rightarrow> nat \<Rightarrow> (byte list \<Rightarrow> bool) \<Rightarrow> cl_list \<Rightarrow> nat list \<Rightarrow> nat \<Rightarrow> bool" where
  "cursor_at d z fr l bs i \<longleftrightarrow> ls_block l = hd bs \<and> ls_data l = bytes_data (blk d (hd bs)) \<and> ls_item l = i
     \<and> ls_total l = calc_total_items z \<and> ls_size l = z \<and> ls_is_free l = fr
     \<and> (i < calc_total_items z \<or> i = calc_total_items z \<and> tl bs = [])"

definition remaining :: "flash \<Rightarrow> nat \<Rightarrow> nat list \<Rightarrow> nat \<Rightarrow> (byte list \<times> nat) list" where
  "remaining d z bs i = drop i (block_slots d z (hd bs)) @ slots d z (tl bs)"

lemma bd_data_blk [simp]: "bd_data (bytes_data (blk d b)) = data_of d b"
  and bd_hdr_blk [simp]: "bd_hdr (bytes_data (blk d b)) = hdr_of d b"
  by (simp_all add: bytes_data_def data_of_def hdr_of_def bytes_hdr_def status_blk type_blk serial_blk)

lemma length_data_of [simp]: "length (data_of d b) = 122"
  by (simp add: data_of_def)

lemma load_total: "geometry d \<Longrightarrow> b < cl_block_gettotal d \<Longrightarrow> cl_block_load b d = Some (bytes_data (blk d b))"
  using block_less_invalid [of d b] by (intro load_blk) auto

lemma hdr_of_type [simp]: "bh_type (hdr_of d b) = type_of d b" "bh_serialno (hdr_of d b) = serial_of d b"
  "bh_status (hdr_of d b) = status_of d b"
  by (simp_all add: hdr_of_def)

lemma list_update_chain:
  assumes "geometry d" "chain d p (ls_block l # bs)"
  shows "list_update l p d = (0, l\<lparr>ls_item := 0, ls_data := bytes_data (blk d (ls_block l))\<rparr>)"
  using assms by (simp add: list_update_def load_total)

lemma chain_prevs: "geometry d \<Longrightarrow> chain d p (b # bs) \<Longrightarrow> prevs d b = Some p"
  by (simp add: prevs_def load_total)

lemma chain_rank:
  "geometry d \<Longrightarrow> chain d p bs \<Longrightarrow> p = BLOCK_INVALID \<and> k = 0 \<or> 0 < k \<and> rank d p (k - 1) \<Longrightarrow> i < length bs \<Longrightarrow> rank d (bs ! i) (k + i)"
proof (induction bs arbitrary: p k i)
  case (Cons b bs)
  have pr: "prevs d b = Some p" using Cons.prems(1,2) by (rule chain_prevs)
  have rb: "rank d b k" using pr Cons.prems(3) by (cases k) auto
  show ?case
  proof (cases i)
    case 0
    with rb show ?thesis by simp
  next
    case (Suc j)
    then obtain c cs where bs: "bs = c # cs" using Cons.prems(4) by (cases bs) auto
    have "rank d (bs ! j) (Suc k + j)"
      by (rule Cons.IH) (use Cons.prems bs rb Suc in auto)
    with Suc show ?thesis by simp
  qed
qed simp

lemma chain_distinct:
  assumes "geometry d" "chain d BLOCK_INVALID bs"
  shows "distinct bs"
proof -
  have r: "rank d (bs ! i) i" if "i < length bs" for i
    using chain_rank [OF assms, of 0 i] that by simp
  have "i = j" if "i < length bs" "j < length bs" "bs ! i = bs ! j" for i j
    using r [OF that(1)] r [OF that(2)] unfolding that(3) by (rule rank_unique)
  then show ?thesis unfolding distinct_conv_nth by blast
qed

lemma chain_less: "chain d p bs \<Longrightarrow> b \<in> set bs \<Longrightarrow> b < cl_block_gettotal d"
proof (induction bs arbitrary: p)
  case (Cons c cs)
  then show ?case by (cases cs) auto
qed simp

lemma chain_nonempty: "chain d p bs \<Longrightarrow> bs \<noteq> []"
  by (cases bs) auto

subsection \<open>One step of the cursor\<close>

lemma block_slots_drop:
  assumes "i < calc_total_items z"
  shows "drop i (block_slots d z b) = (get_item (data_of d b) i z, get_item_addr b i z) # drop (Suc i) (block_slots d z b)"
proof -
  have "drop i (block_slots d z b) = block_slots d z b ! i # drop (Suc i) (block_slots d z b)"
    using assms by (intro Cons_nth_drop_Suc [symmetric]) (simp add: block_slots_def)
  then show ?thesis using assms by (simp add: block_slots_def)
qed

lemma length_block_slots [simp]: "length (block_slots d z b) = calc_total_items z"
  by (simp add: block_slots_def)

lemma getnext_chain:
  assumes geo: "geometry d" and ch: "chain d p (b # bs)" and di: "distinct (b # bs)" and at: "cursor_at d z fr l (b # bs) i"
    and z: "0 < calc_total_items z"
  shows "case remaining d z (b # bs) i of
      [] \<Rightarrow> cl_list_getnext l d = (-1, l, None) \<and> bs = []
    | (x, a) # r \<Rightarrow> x = get_item (data_of d b) i z \<and> a = get_item_addr b i z \<and>
        (if fr x then cl_list_getnext l d = (1, l, Some (x, a))
         else \<exists>l' bs' i' p'. cl_list_getnext l d = (0, l', Some (x, a)) \<and> chain d p' bs' \<and> distinct bs'
           \<and> cursor_at d z fr l' bs' i' \<and> remaining d z bs' i' = r \<and> last bs' = last (b # bs))"
proof (cases "i < calc_total_items z")
  case False
  with at have i: "i = calc_total_items z" "bs = []" by (auto simp: cursor_at_def)
  with at show ?thesis by (simp add: remaining_def slots_def cl_list_getnext_def cursor_at_def)
next
  case True
  let ?x = "get_item (data_of d b) i z" and ?a = "get_item_addr b i z"
  have rem: "remaining d z (b # bs) i = (?x, ?a) # (drop (Suc i) (block_slots d z b) @ slots d z bs)"
    by (simp add: remaining_def block_slots_drop True)
  have l: "ls_block l = b" "bd_data (ls_data l) = data_of d b" "ls_item l = i" "ls_total l = calc_total_items z"
    "ls_size l = z" "ls_is_free l = fr" "ls_data l = bytes_data (blk d b)"
    using at by (auto simp: cursor_at_def)
  show ?thesis
  proof (cases "fr ?x")
    case True
    then show ?thesis using l \<open>i < _\<close> by (simp add: rem cl_list_getnext_def)
  next
    case nf: False
    let ?l1 = "l\<lparr>ls_item := i + 1\<rparr>"
    have nb: "b < BLOCK_INVALID" using block_less_invalid [OF geo, of b] ch by simp
    have "\<exists>l' bs' i' p'. cl_list_getnext l d = (0, l', Some (?x, ?a)) \<and> chain d p' bs' \<and> distinct bs'
           \<and> cursor_at d z fr l' bs' i' \<and> remaining d z bs' i' = drop (Suc i) (block_slots d z b) @ slots d z bs
           \<and> last bs' = last (b # bs)"
    proof (cases "i + 1 = calc_total_items z")
      case False
      have "cl_list_getnext l d = (0, ?l1, Some (?x, ?a))" using l nf True False by (simp add: cl_list_getnext_def Let_def)
      moreover have "cursor_at d z fr ?l1 (b # bs) (i + 1)" using at True False by (auto simp: cursor_at_def)
      moreover have "remaining d z (b # bs) (i + 1) = drop (Suc i) (block_slots d z b) @ slots d z bs"
        by (simp add: remaining_def)
      ultimately show ?thesis using ch di by blast
    next
      case fin: True
      show ?thesis
      proof (cases bs)
        case Nil
        have "cl_list_getnext l d = (0, ?l1, Some (?x, ?a))"
          using l nf True fin ch Nil by (simp add: cl_list_getnext_def Let_def)
        moreover have "cursor_at d z fr ?l1 (b # bs) (i + 1)" using at fin Nil by (auto simp: cursor_at_def)
        moreover have "remaining d z (b # bs) (i + 1) = drop (Suc i) (block_slots d z b) @ slots d z bs"
          by (simp add: remaining_def)
        ultimately show ?thesis using ch di by blast
      next
        case (Cons c cs)
        have c: "chain d b bs" "list_next (data_of d b) = c" "c \<noteq> b" using ch di Cons by auto
        have cl: "c < BLOCK_INVALID" using block_less_invalid [OF geo, of c] c(1) Cons by simp
        let ?l2 = "?l1\<lparr>ls_block := c\<rparr>"
        let ?l3 = "?l2\<lparr>ls_item := 0, ls_data := bytes_data (blk d c)\<rparr>"
        have "list_update ?l2 b d = (0, ?l3)" using list_update_chain [OF geo, of b ?l2 cs] c Cons by simp
        then have "cl_list_getnext l d = (0, ?l3, Some (?x, ?a))"
          using l nf True fin c cl by (simp add: cl_list_getnext_def Let_def)
        moreover have "cursor_at d z fr ?l3 bs 0" using l z Cons by (auto simp: cursor_at_def)
        moreover have "remaining d z bs 0 = drop (Suc i) (block_slots d z b) @ slots d z bs"
          using fin Cons by (simp add: remaining_def slots_def)
        moreover have "last bs = last (b # bs)" using Cons by simp
        ultimately show ?thesis using c(1) di by auto
      qed
    qed
    with nf show ?thesis by (simp add: rem)
  qed
qed


subsection \<open>Scans\<close>

text \<open>How the end of a loop over a chain relates to the scan of its slots.\<close>

definition scan_result :: "flash \<Rightarrow> nat \<Rightarrow> nat \<Rightarrow> 'r + (nat option \<times> 's)
    \<Rightarrow> (('r \<times> flash) + (int \<times> cl_list \<times> (byte list \<times> nat) option \<times> 's \<times> flash)) \<Rightarrow> bool" where
  "scan_result d z b sc w \<longleftrightarrow> (case sc of
      Inl v \<Rightarrow> w = Inl (v, d)
    | Inr (oa, s) \<Rightarrow> \<exists>r l out. w = Inr (r, l, out, s, d) \<and> ls_size l = z
        \<and> (case oa of Some a \<Rightarrow> r = 1 \<and> get_item_addr (ls_block l) (ls_item l) z = a
           | None \<Rightarrow> r = -1 \<and> ls_block l = b \<and> ls_data l = bytes_data (blk d b)))"

lemma while_next_chain:
  assumes body: "\<And>x a l s. (x, a) \<in> set (remaining d z bs i) \<Longrightarrow> \<not> fr x \<Longrightarrow>
      body x a l s d = Some (case f x a s of Inl v \<Rightarrow> Inl (v, d) | Inr s' \<Rightarrow> Inr (l, s', d))"
    and "geometry d" "0 < calc_total_items z" "chain d p bs" "distinct bs" "cursor_at d z fr l bs i"
  shows "\<exists>w. while_next body l s d = Some w \<and> scan_result d z (last bs) (scan_slots fr f (remaining d z bs i) s) w"
  using assms
proof (induction "length (remaining d z bs i)" arbitrary: bs i l s p)
  case 0
  then obtain b cs where bs: "bs = b # cs" by (cases bs) auto
  have r: "remaining d z (b # cs) i = []" using "0.hyps" bs by simp
  from getnext_chain [of d p b cs z fr l i] "0.prems" r bs
  have "cl_list_getnext l d = (-1, l, None)" "cs = []" by auto
  with "0.prems"(6) r bs show ?case
    by (subst while_next.simps) (simp add: scan_result_def cursor_at_def)
next
  case (Suc n)
  then obtain b cs where bs: "bs = b # cs" by (cases bs) auto
  obtain x a r where r: "remaining d z (b # cs) i = (x, a) # r" using Suc.hyps(2) bs
    by (cases "remaining d z (b # cs) i") auto
  note step = getnext_chain [of d p b cs z fr l i, unfolded r list.case prod.case]
  have xa: "a = get_item_addr b i z" using step Suc.prems(2-) bs by auto
  show ?case
  proof (cases "fr x")
    case True
    with step Suc.prems(2-) bs have "cl_list_getnext l d = (1, l, Some (x, a))" by auto
    with True r bs xa Suc.prems(6) show ?thesis
      by (subst while_next.simps) (simp add: scan_result_def cursor_at_def)
  next
    case False
    with step Suc.prems(2-) bs obtain l' bs' i' p' where
      g: "cl_list_getnext l d = (0, l', Some (x, a))" "chain d p' bs'" "distinct bs'"
        "cursor_at d z fr l' bs' i'" "remaining d z bs' i' = r" "last bs' = last (b # cs)" by auto
    have b: "body x a l' s d = Some (case f x a s of Inl v \<Rightarrow> Inl (v, d) | Inr s' \<Rightarrow> Inr (l', s', d))"
      by (rule Suc.prems(1)) (use r bs False in auto)
    show ?thesis
    proof (cases "f x a s")
      case (Inl v)
      with b g(1) False r bs show ?thesis by (subst while_next.simps) (simp add: scan_result_def)
    next
      case (Inr s')
      have "\<exists>w. while_next body l' s' d = Some w \<and> scan_result d z (last bs') (scan_slots fr f (remaining d z bs' i') s') w"
      proof (rule Suc.hyps(1))
        show "n = length (remaining d z bs' i')" using Suc.hyps(2) r bs g(5) by simp
        show "body y c l0 s0 d = Some (case f y c s0 of Inl v \<Rightarrow> Inl (v, d) | Inr s2 \<Rightarrow> Inr (l0, s2, d))"
          if "(y, c) \<in> set (remaining d z bs' i')" "\<not> fr y" for y c l0 s0
          by (rule Suc.prems(1)) (use that r bs g(5) in auto)
      qed (use g Suc.prems in auto)
      with b g(1) False r bs Inr g(5,6) show ?thesis by (subst while_next.simps) simp
    qed
  qed
qed

lemma init_chain:
  assumes "geometry d" "chain d BLOCK_INVALID bs" "0 < calc_total_items z"
  obtains l where "cl_list_init (hd bs) z fr d = (0, l)" "cursor_at d z fr l bs 0" "remaining d z bs 0 = slots d z bs"
proof -
  obtain b cs where bs: "bs = b # cs" using assms(2) by (cases bs) auto
  let ?l = "\<lparr>ls_data = bytes_data (replicate 128 0), ls_block = b, ls_item = 0,
      ls_total = calc_total_items z, ls_size = z, ls_is_free = fr\<rparr>"
  have "cl_list_init (hd bs) z fr d = (0, ?l\<lparr>ls_item := 0, ls_data := bytes_data (blk d b)\<rparr>)"
    using list_update_chain [OF assms(1), of BLOCK_INVALID ?l cs] assms(2) bs by (simp add: cl_list_init_def)
  then show thesis by (rule that) (use assms(3) bs in \<open>auto simp: cursor_at_def remaining_def slots_def\<close>)
qed

text \<open>The items in front of the first free one.\<close>

definition items :: "(byte list \<Rightarrow> bool) \<Rightarrow> (byte list \<times> nat) list \<Rightarrow> byte list list" where
  "items fr sl = takeWhile (\<lambda>x. \<not> fr x) (map fst sl)"

definition list_items :: "flash \<Rightarrow> nat \<Rightarrow> (byte list \<Rightarrow> bool) \<Rightarrow> nat list \<Rightarrow> byte list list" where
  "list_items d z fr bs = items fr (slots d z bs)"

lemma while_next_list:
  assumes "geometry d" "0 < calc_total_items z" "chain d BLOCK_INVALID bs"
    and body: "\<And>x a l s. (x, a) \<in> set (slots d z bs) \<Longrightarrow> \<not> fr x \<Longrightarrow>
      body x a l s d = Some (case f x a s of Inl v \<Rightarrow> Inl (v, d) | Inr s' \<Rightarrow> Inr (l, s', d))"
  obtains l w where "cl_list_init (hd bs) z fr d = (0, l)" "while_next body l s d = Some w"
    "scan_result d z (last bs) (scan_slots fr f (slots d z bs) s) w"
proof -
  obtain l where l: "cl_list_init (hd bs) z fr d = (0, l)" "cursor_at d z fr l bs 0" "remaining d z bs 0 = slots d z bs"
    by (rule init_chain [OF assms(1,3,2)])
  have "\<exists>w. while_next body l s d = Some w \<and> scan_result d z (last bs) (scan_slots fr f (remaining d z bs 0) s) w"
    by (rule while_next_chain [OF _ assms(1,2,3) chain_distinct [OF assms(1,3)] l(2)]) (use body l(3) in auto)
  with l that show thesis by auto
qed

subsection \<open>Writing inside a block\<close>

lemma overlay_length [simp]: "off + length bs \<le> length data \<Longrightarrow> length (overlay off bs data) = length data"
  by (simp add: overlay_def)

lemma nth_overlay: "off + length bs \<le> length data \<Longrightarrow> i < length data \<Longrightarrow>
    overlay off bs data ! i = (if off \<le> i \<and> i < off + length bs then bs ! (i - off) else data ! i)"
  by (auto simp: overlay_def nth_append min_def)

lemma put_overlay:
  assumes "off + length bs \<le> 128"
  shows "put (128 * b + off) bs m = put (128 * b) (overlay off bs (map m [128 * b ..< 128 * b + 128])) m"
proof (rule ext)
  fix a
  show "put (128 * b + off) bs m a = put (128 * b) (overlay off bs (map m [128 * b ..< 128 * b + 128])) m a"
    using assms by (auto simp: put_def nth_overlay)
qed

lemma over_append: "length a = length c \<Longrightarrow> over (a @ b) (c @ e) \<longleftrightarrow> over a c \<and> over b e"
  by (simp add: over_def list_all2_append)

lemma over_refl [simp]: "over bs bs"
  by (simp add: over_def list_all2_conv_all_nth)

lemma writable_blk:
  assumes "off + length bs \<le> 128"
  shows "writable (128 * b + off) bs (fl_mem d) \<longleftrightarrow> over bs (take (length bs) (drop off (blk d b)))"
  using assms by (auto simp: writable_def over_def list_all2_conv_all_nth blk_def nth_append add.assoc)

lemma write_in_block:
  assumes "geometry d" "b < cl_block_gettotal d" "off + length bs \<le> 128" "bs \<noteq> []"
  shows "cl_dev_write (128 * b + off) bs d =
    (if over bs (take (length bs) (drop off (blk d b)))
     then Some (int (length bs), set_cell (Blk b) (overlay off bs (blk d b)) d) else None)"
proof -
  have "128 * b + off + length bs \<le> fl_size d"
    using cell_fits [OF assms(1), of "Blk b"] assms(2,3) by simp
  then show ?thesis
    using assms(4) writable_blk [OF assms(3)] put_overlay [OF assms(3), of b "fl_mem d"]
    by (simp add: cl_dev_write_put set_cell_def blk_def)
qed

lemma blk_set_blk:
  "b < cl_block_gettotal d \<Longrightarrow> c < cl_block_gettotal d \<Longrightarrow> length x = 128 \<Longrightarrow>
   blk (set_cell (Blk b) x d) c = (if c = b then x else blk d c)"
  by (simp add: blk_set_cell)


subsection \<open>Slots by number\<close>

definition slot :: "flash \<Rightarrow> nat \<Rightarrow> nat list \<Rightarrow> nat \<Rightarrow> byte list" where
  "slot d z bs k = get_item (data_of d (bs ! (k div calc_total_items z))) (k mod calc_total_items z) z"

definition slot_addr :: "nat \<Rightarrow> nat list \<Rightarrow> nat \<Rightarrow> nat" where
  "slot_addr z bs k = get_item_addr (bs ! (k div calc_total_items z)) (k mod calc_total_items z) z"

lemma slots_eq:
  assumes "0 < calc_total_items z"
  shows "slots d z bs = map (\<lambda>k. (slot d z bs k, slot_addr z bs k)) [0 ..< calc_total_items z * length bs]"
proof (induction bs)
  case (Cons b bs)
  let ?T = "calc_total_items z"
  have a: "map (\<lambda>k. (slot d z (b # bs) k, slot_addr z (b # bs) k)) [0 ..< ?T] = block_slots d z b"
    by (simp add: block_slots_def slot_def slot_addr_def)
  have b: "map (\<lambda>k. (slot d z (b # bs) k, slot_addr z (b # bs) k)) [?T ..< ?T + ?T * length bs]
      = map (\<lambda>k. (slot d z bs k, slot_addr z bs k)) [0 ..< ?T * length bs]"
    by (rule nth_equalityI) (use assms in \<open>simp_all add: slot_def slot_addr_def div_add_self1\<close>)
  have "[0 ..< ?T + ?T * length bs] = [0 ..< ?T] @ [?T ..< ?T + ?T * length bs]"
    using upt_add_eq_append [of 0 ?T "?T * length bs"] by simp
  with a b Cons show ?case by (simp add: slots_def)
qed (simp add: slots_def)

text \<open>
  A well-formed list with \<open>n\<close> items: the blocks \<open>bs\<close> form a chain and are in use, the first \<open>n\<close> slots
  hold items and the slots behind them are erased.
\<close>

definition wf_list :: "flash \<Rightarrow> nat \<Rightarrow> (byte list \<Rightarrow> bool) \<Rightarrow> nat list \<Rightarrow> nat \<Rightarrow> bool" where
  "wf_list d z fr bs n \<longleftrightarrow> chain d BLOCK_INVALID bs \<and> (\<forall>b\<in>set bs. live d b)
     \<and> n \<le> calc_total_items z * length bs \<and> (\<forall>k<n. \<not> fr (slot d z bs k))
     \<and> (\<forall>k. n \<le> k \<and> k < calc_total_items z * length bs \<longrightarrow> slot d z bs k = replicate z 0xFF)"

definition contents :: "flash \<Rightarrow> nat \<Rightarrow> nat list \<Rightarrow> nat \<Rightarrow> byte list list" where
  "contents d z bs n = map (slot d z bs) [0 ..< n]"

fun scan_items :: "(byte list \<Rightarrow> nat \<Rightarrow> 's \<Rightarrow> 'r + 's) \<Rightarrow> (byte list \<times> nat) list \<Rightarrow> 's \<Rightarrow> 'r + 's" where
  "scan_items f [] s = Inr s"
| "scan_items f ((x, a) # r) s = (case f x a s of Inl v \<Rightarrow> Inl v | Inr s' \<Rightarrow> scan_items f r s')"

lemma scan_slots_items:
  "\<forall>k<n. \<not> fr (fst (sl ! k)) \<Longrightarrow> n < length sl \<Longrightarrow> fr (fst (sl ! n)) \<Longrightarrow>
    scan_slots fr f sl s = (case scan_items f (take n sl) s of Inl v \<Rightarrow> Inl v | Inr s' \<Rightarrow> Inr (Some (snd (sl ! n)), s'))"
proof (induction sl arbitrary: n s)
  case (Cons xa sl)
  obtain x a where xa: "xa = (x, a)" by (cases xa)
  show ?case
  proof (cases n)
    case 0
    with Cons.prems xa show ?thesis by simp
  next
    case (Suc m)
    then have "\<forall>k<m. \<not> fr (fst (sl ! k))" "\<not> fr x" using Cons.prems(1) xa by (auto simp: All_less_Suc2)
    with Suc Cons xa show ?thesis by (auto split: sum.splits)
  qed
qed simp

lemma scan_slots_full:
  "\<forall>x\<in>set sl. \<not> fr (fst x) \<Longrightarrow>
    scan_slots fr f sl s = (case scan_items f sl s of Inl v \<Rightarrow> Inl v | Inr s' \<Rightarrow> Inr (None, s'))"
  by (induction sl arbitrary: s) (auto split: sum.splits)

lemma wf_scan:
  assumes "wf_list d z fr bs n" "0 < calc_total_items z" "fr (replicate z 0xFF)"
  shows "scan_slots fr f (slots d z bs) s =
    (case scan_items f (map (\<lambda>k. (slot d z bs k, slot_addr z bs k)) [0 ..< n]) s of Inl v \<Rightarrow> Inl v
     | Inr s' \<Rightarrow> Inr (if n < calc_total_items z * length bs then Some (slot_addr z bs n) else None, s'))"
proof (cases "n < calc_total_items z * length bs")
  case True
  have "take n (slots d z bs) = map (\<lambda>k. (slot d z bs k, slot_addr z bs k)) [0 ..< n]"
    using True by (simp add: slots_eq [OF assms(2)] take_map)
  with scan_slots_items [of n fr "slots d z bs" f s] True assms show ?thesis
    by (auto simp: slots_eq wf_list_def split: sum.splits)
next
  case False
  then have "n = calc_total_items z * length bs" using assms(1) by (simp add: wf_list_def)
  with scan_slots_full [of "slots d z bs" fr f s] assms show ?thesis
    by (auto simp: slots_eq wf_list_def split: sum.splits)
qed

lemma wf_body_slot:
  assumes "wf_list d z fr bs n" "0 < calc_total_items z" "fr (replicate z 0xFF)" "(x, a) \<in> set (slots d z bs)" "\<not> fr x"
  shows "x \<in> set (contents d z bs n)"
proof -
  from assms(2,4) obtain k where k: "k < calc_total_items z * length bs" "x = slot d z bs k"
    by (auto simp: slots_eq)
  have "k < n" using assms(1,3,5) k by (auto simp: wf_list_def intro: ccontr)
  with k show ?thesis by (simp add: contents_def)
qed

text \<open>Scanning a well-formed list with a body that does not write where an item stands.\<close>

lemma while_next_wf:
  assumes "geometry d" "0 < calc_total_items z" "wf_list d z fr bs n" "fr (replicate z 0xFF)"
    and body: "\<And>x a l s. x \<in> set (contents d z bs n) \<Longrightarrow>
      body x a l s d = Some (case f x a s of Inl v \<Rightarrow> Inl (v, d) | Inr s' \<Rightarrow> Inr (l, s', d))"
  obtains l w where "cl_list_init (hd bs) z fr d = (0, l)" "while_next body l s d = Some w"
    "scan_result d z (last bs) (case scan_items f (map (\<lambda>k. (slot d z bs k, slot_addr z bs k)) [0 ..< n]) s of Inl v \<Rightarrow> Inl v
     | Inr s' \<Rightarrow> Inr (if n < calc_total_items z * length bs then Some (slot_addr z bs n) else None, s')) w"
proof -
  have ch: "chain d BLOCK_INVALID bs" using assms(3) by (simp add: wf_list_def)
  obtain l w where "cl_list_init (hd bs) z fr d = (0, l)" "while_next body l s d = Some w"
    "scan_result d z (last bs) (scan_slots fr f (slots d z bs) s) w"
    by (rule while_next_list [OF assms(1,2) ch, of fr body f s]) (use body wf_body_slot [OF assms(3,2,4)] in blast)+
  then show thesis using that by (simp add: wf_scan [OF assms(3,2,4)])
qed


subsection \<open>Appending an item\<close>

lemma items_fit: "z * calc_total_items z \<le> 118"
  by (simp add: calc_total_items_def)

lemma item_in_block: "i < calc_total_items z \<Longrightarrow> z * i + z \<le> 118"
proof -
  assume "i < calc_total_items z"
  then have "z * (i + 1) \<le> z * calc_total_items z" by (intro mult_le_mono2) simp
  with items_fit [of z] show "z * i + z \<le> 118" by simp
qed

lemma length_get_item: "i < calc_total_items z \<Longrightarrow> length data = 122 \<Longrightarrow> length (get_item data i z) = z"
  using item_in_block [of i z] by (simp add: get_item_def)

lemma get_item_overlay:
  assumes "length x = 128" "length item = z" "i < calc_total_items z" "j < calc_total_items z"
  shows "get_item (drop 6 (overlay (10 + z * i) item x)) j z = (if j = i then item else get_item (drop 6 x) j z)"
proof (rule nth_equalityI)
  note bi = item_in_block [OF assms(3)] and bj = item_in_block [OF assms(4)]
  show "length (get_item (drop 6 (overlay (10 + z * i) item x)) j z) = length (if j = i then item else get_item (drop 6 x) j z)"
    using assms bi bj by (simp add: get_item_def)
  fix k assume "k < length (get_item (drop 6 (overlay (10 + z * i) item x)) j z)"
  then have k: "k < z" using assms bi bj by (simp add: get_item_def)
  have "j \<noteq> i \<Longrightarrow> z * j + z \<le> z * i \<or> z * i + z \<le> z * j"
    using mult_le_mono2 [of "j + 1" i z] mult_le_mono2 [of "i + 1" j z] by (cases "j < i") auto
  then show "get_item (drop 6 (overlay (10 + z * i) item x)) j z ! k = (if j = i then item else get_item (drop 6 x) j z) ! k"
    using assms bi bj k by (auto simp: get_item_def nth_overlay)
qed

lemma take_overlay: "n \<le> off \<Longrightarrow> off + length bs \<le> length x \<Longrightarrow> take n (overlay off bs x) = take n x"
  by (simp add: overlay_def)

lemma links_take:
  "list_next (drop 6 y) = list_next (drop 6 (take 10 y))" "list_prev (drop 6 y) = list_prev (drop 6 (take 10 y))"
  by (simp_all add: list_next_def list_prev_def drop_take min_def)

lemma links_overlay:
  assumes "10 \<le> off" "off + length bs \<le> 128" "length x = 128"
  shows "list_next (drop 6 (overlay off bs x)) = list_next (drop 6 x)" "list_prev (drop 6 (overlay off bs x)) = list_prev (drop 6 x)"
proof -
  have "take 10 (overlay off bs x) = take 10 x" using assms by (intro take_overlay) auto
  then show "list_next (drop 6 (overlay off bs x)) = list_next (drop 6 x)" "list_prev (drop 6 (overlay off bs x)) = list_prev (drop 6 x)"
    using links_take [of x] links_take [of "overlay off bs x"] by simp_all
qed

lemma data_of_set_blk:
  "b < cl_block_gettotal d \<Longrightarrow> c < cl_block_gettotal d \<Longrightarrow> length x = 128 \<Longrightarrow>
   data_of (set_cell (Blk b) x d) c = (if c = b then drop 6 x else data_of d c)"
  by (simp add: data_of_def blk_set_blk)

lemma chain_cong:
  "cl_block_gettotal d' = cl_block_gettotal d \<Longrightarrow> (\<And>b. b \<in> set bs \<Longrightarrow> list_prev (data_of d' b) = list_prev (data_of d b)
     \<and> list_next (data_of d' b) = list_next (data_of d b) \<and> type_of d' b = type_of d b)
   \<Longrightarrow> chain d' p bs = chain d p bs"
proof (induction bs arbitrary: p)
  case (Cons b bs)
  show ?case
  proof (cases bs)
    case Nil
    then show ?thesis using Cons.prems by auto
  next
    case (Cons c cs)
    then have "chain d' b bs = chain d b bs" using Cons.IH Cons.prems by auto
    with Cons Cons.prems show ?thesis by auto
  qed
qed simp

text \<open>Filling slot \<open>n\<close>.\<close>

definition fill_slot :: "nat \<Rightarrow> nat list \<Rightarrow> nat \<Rightarrow> byte list \<Rightarrow> flash \<Rightarrow> flash" where
  "fill_slot z bs n item d = (let b = bs ! (n div calc_total_items z)
     in set_cell (Blk b) (overlay (10 + z * (n mod calc_total_items z)) item (blk d b)) d)"

lemma slot_fill:
  assumes "0 < calc_total_items z" "distinct bs" "\<forall>b\<in>set bs. b < cl_block_gettotal d" "length item = z"
    "n < calc_total_items z * length bs" "k < calc_total_items z * length bs"
  shows "slot (fill_slot z bs n item d) z bs k = (if k = n then item else slot d z bs k)"
proof -
  let ?T = "calc_total_items z"
  have i: "n div ?T < length bs" "k div ?T < length bs" using assms(5,6) by (simp_all add: less_mult_imp_div_less mult.commute)
  have t: "bs ! (n div ?T) < cl_block_gettotal d" "bs ! (k div ?T) < cl_block_gettotal d" using i assms(3) by auto
  have m: "n mod ?T < ?T" "k mod ?T < ?T" using assms(1) by simp_all
  have len: "length (overlay (10 + z * (n mod ?T)) item (blk d (bs ! (n div ?T)))) = 128"
    using item_in_block [OF m(1)] assms(4) by simp
  have eq: "k = n \<longleftrightarrow> k div ?T = n div ?T \<and> k mod ?T = n mod ?T" by (metis div_mult_mod_eq)
  have "bs ! (k div ?T) = bs ! (n div ?T) \<longleftrightarrow> k div ?T = n div ?T" using i assms(2) by (simp add: nth_eq_iff_index_eq)
  with eq t len m assms(4) show ?thesis
    by (auto simp: slot_def fill_slot_def Let_def data_of_set_blk get_item_overlay) (simp_all add: data_of_def)
qed

lemma hdr_set_blk:
  assumes "b < cl_block_gettotal d" "c < cl_block_gettotal d" "length x = 128" "take 6 x = take 6 (blk d b)"
  shows "status_of (set_cell (Blk b) x d) c = status_of d c" "type_of (set_cell (Blk b) x d) c = type_of d c"
    "serial_of (set_cell (Blk b) x d) c = serial_of d c"
proof -
  have "x ! i = blk d b ! i" if "i < 6" for i using assms(4) that by (metis nth_take)
  moreover have "take 4 x = take 4 (blk d b)" proof -
    have "take 4 y = take 4 (take 6 y)" for y :: "byte list" by simp
    then show ?thesis using assms(4) by metis
  qed
  ultimately show "status_of (set_cell (Blk b) x d) c = status_of d c" "type_of (set_cell (Blk b) x d) c = type_of d c"
    "serial_of (set_cell (Blk b) x d) c = serial_of d c"
    using assms(1-3) by (auto simp: status_blk type_blk serial_blk blk_set_blk)
qed


lemma same_dev_set_cell_right [simp]: "same_dev d (set_cell c bs e) \<longleftrightarrow> same_dev d e"
  by (cases d, cases e) (auto simp: same_dev_def set_cell_def)

lemma sound_set_blk:
  assumes "sound d" "b < cl_block_gettotal d" "length x = 128" "x ! 5 \<noteq> BLOCK_STATUS_FREE"
  shows "sound (set_cell (Blk b) x d)"
proof -
  have "clean (set_cell (Blk b) x d)"
    using assms by (auto simp: sound_def clean_def status_blk blk_set_blk erased_blk)
  moreover obtain n where n: "idle d n" using assms(1) by (auto simp: sound_def)
  moreover have "get (set_cell (Blk b) x d) (Ent i) = get d (Ent i)" "get (set_cell (Blk b) x d) (Copy i) = get d (Copy i)"
    if "i < SCRATCH_ENTRIES" for i
    using that assms(2,3) by (simp_all add: get_set_cell)
  ultimately have "idle (set_cell (Blk b) x d) n" by (auto simp: idle_def free_from_def)
  with assms(1) \<open>clean _\<close> show ?thesis by (auto simp: sound_def)
qed

lemma wf_blocks: "wf_list d z fr bs n \<Longrightarrow> b \<in> set bs \<Longrightarrow> b < cl_block_gettotal d \<and> live d b"
  by (auto simp: wf_list_def dest: chain_less)

lemma get_item_addr_eq: "get_item_addr b i z = 128 * b + (10 + z * i)"
  by (simp add: get_item_addr_def algebra_simps)

text \<open>Writing an item over what a slot holds, as far as the flash allows it.\<close>

lemma fill_slot_over:
  assumes snd: "sound d" and wf: "wf_list d z fr bs m" and z: "0 < calc_total_items z" "0 < z"
    and n: "n < calc_total_items z * length bs" and item: "length item = z" "over item (slot d z bs n)"
  shows "cl_dev_write (slot_addr z bs n) item d = Some (int z, fill_slot z bs n item d)"
    "sound (fill_slot z bs n item d)" "chain (fill_slot z bs n item d) BLOCK_INVALID bs"
    "\<And>k. k < calc_total_items z * length bs \<Longrightarrow>
       slot (fill_slot z bs n item d) z bs k = (if k = n then item else slot d z bs k)"
    "same_dev d (fill_slot z bs n item d)"
    "\<And>c. c < cl_block_gettotal d \<Longrightarrow> c \<notin> set bs \<Longrightarrow> blk (fill_slot z bs n item d) c = blk d c"
    "\<And>c. c < cl_block_gettotal d \<Longrightarrow> status_of (fill_slot z bs n item d) c = status_of d c"
    "\<And>c. c < cl_block_gettotal d \<Longrightarrow> take 6 (blk (fill_slot z bs n item d) c) = take 6 (blk d c)"
proof -
  let ?T = "calc_total_items z" and ?d = "fill_slot z bs n item d"
  define b where "b = bs ! (n div ?T)"
  define i where "i = n mod ?T"
  have idx: "n div ?T < length bs" using n by (simp add: less_mult_imp_div_less mult.commute)
  have i: "i < ?T" using z(1) by (simp add: i_def)
  have geo: "geometry d" using snd by (simp add: sound_def)
  have b: "b \<in> set bs" "b < cl_block_gettotal d" "live d b" using idx wf_blocks [OF wf, of b] by (auto simp: b_def)
  note fit = item_in_block [OF i]
  have d: "?d = set_cell (Blk b) (overlay (10 + z * i) item (blk d b)) d"
    by (simp add: fill_slot_def Let_def b_def i_def)
  have len: "length (overlay (10 + z * i) item (blk d b)) = 128" using fit item(1) by simp
  have t6: "take 6 (overlay (10 + z * i) item (blk d b)) = take 6 (blk d b)"
    using fit item(1) by (intro take_overlay) auto
  have "take z (drop (10 + z * i) (blk d b)) = slot d z bs n"
    by (simp add: slot_def get_item_def data_of_def b_def [symmetric] i_def [symmetric] add.commute)
  with item have ov: "over item (take (length item) (drop (10 + z * i) (blk d b)))" by simp
  have "slot_addr z bs n = 128 * b + (10 + z * i)"
    by (simp add: slot_addr_def get_item_addr_eq b_def i_def)
  then show "cl_dev_write (slot_addr z bs n) item d = Some (int z, ?d)"
    using write_in_block [OF geo b(2), of "10 + z * i" item] fit item(1) ov z(2) d by auto
  have st5: "overlay (10 + z * i) item (blk d b) ! 5 = blk d b ! 5"
    using fit item(1) by (simp add: nth_overlay)
  have "blk d b ! 5 \<noteq> BLOCK_STATUS_FREE" using b(3) by (auto simp: live_def status_blk)
  then show "sound ?d" unfolding d by (intro sound_set_blk snd b(2) len) (simp add: st5)
  show dev: "same_dev d ?d" by (simp add: d)
  note g = same_dev_geometry [OF dev]
  note hdr = hdr_set_blk [OF b(2) _ len t6, folded d]
  show "status_of ?d c = status_of d c" if "c < cl_block_gettotal d" for c using hdr(1) [OF that] .
  show "take 6 (blk ?d c) = take 6 (blk d c)" if "c < cl_block_gettotal d" for c
    using that b(2) len t6 by (simp add: d blk_set_blk)
  show "blk ?d c = blk d c" if "c < cl_block_gettotal d" "c \<notin> set bs" for c
    using that b len by (auto simp: d blk_set_blk)
  have all: "\<forall>c\<in>set bs. c < cl_block_gettotal d" using wf_blocks [OF wf] by auto
  have di: "distinct bs" using chain_distinct [OF geo] wf by (simp add: wf_list_def)
  have links: "list_prev (data_of ?d c) = list_prev (data_of d c)" "list_next (data_of ?d c) = list_next (data_of d c)"
    if "c < cl_block_gettotal d" for c
    using that b(2) len fit item(1) links_overlay [of "10 + z * i" item "blk d b"]
    by (auto simp: d data_of_set_blk) (simp_all add: data_of_def)
  show "slot ?d z bs k = (if k = n then item else slot d z bs k)" if "k < ?T * length bs" for k
    by (rule slot_fill [OF z(1) di all item(1) n that])
  have "chain ?d BLOCK_INVALID bs = chain d BLOCK_INVALID bs"
    using links hdr(2) all g(2) by (intro chain_cong) auto
  then show "chain ?d BLOCK_INVALID bs" using wf by (simp add: wf_list_def)
qed

text \<open>Into the first erased slot; and over an item in use.\<close>

lemma fill_slot_wf:
  assumes snd: "sound d" and wf: "wf_list d z fr bs n" and z: "0 < calc_total_items z" "0 < z"
    and n: "n < calc_total_items z * length bs" and item: "length item = z" "\<not> fr item"
  shows "cl_dev_write (slot_addr z bs n) item d = Some (int z, fill_slot z bs n item d)"
    "sound (fill_slot z bs n item d)" "wf_list (fill_slot z bs n item d) z fr bs (Suc n)"
    "contents (fill_slot z bs n item d) z bs (Suc n) = contents d z bs n @ [item]"
    "same_dev d (fill_slot z bs n item d)"
    "\<And>c. c < cl_block_gettotal d \<Longrightarrow> c \<notin> set bs \<Longrightarrow> blk (fill_slot z bs n item d) c = blk d c"
    "\<And>c. c < cl_block_gettotal d \<Longrightarrow> status_of (fill_slot z bs n item d) c = status_of d c"
    "\<And>c. c < cl_block_gettotal d \<Longrightarrow> take 6 (blk (fill_slot z bs n item d) c) = take 6 (blk d c)"
proof -
  have "slot d z bs n = replicate z 0xFF" using wf n by (simp add: wf_list_def)
  then have ov: "over item (slot d z bs n)" using item(1) by (simp add: over_def list_all2_conv_all_nth)
  note f = fill_slot_over [OF snd wf z n item(1) ov]
  show "cl_dev_write (slot_addr z bs n) item d = Some (int z, fill_slot z bs n item d)"
    "sound (fill_slot z bs n item d)" "same_dev d (fill_slot z bs n item d)"
    "\<And>c. c < cl_block_gettotal d \<Longrightarrow> c \<notin> set bs \<Longrightarrow> blk (fill_slot z bs n item d) c = blk d c"
    "\<And>c. c < cl_block_gettotal d \<Longrightarrow> status_of (fill_slot z bs n item d) c = status_of d c"
    "\<And>c. c < cl_block_gettotal d \<Longrightarrow> take 6 (blk (fill_slot z bs n item d) c) = take 6 (blk d c)"
    using f by auto
  have lv: "live (fill_slot z bs n item d) c = live d c" if "c \<in> set bs" for c
    using f(7) wf_blocks [OF wf that] by (simp add: live_def)
  show "wf_list (fill_slot z bs n item d) z fr bs (Suc n)"
    using wf f(3,4) lv item(2) n by (auto simp: wf_list_def less_Suc_eq)
  show "contents (fill_slot z bs n item d) z bs (Suc n) = contents d z bs n @ [item]"
    using f(4) n by (simp add: contents_def)
qed

lemma refill_slot_wf:
  assumes snd: "sound d" and wf: "wf_list d z fr bs n" and z: "0 < calc_total_items z" "0 < z"
    and k: "k < n" and item: "length item = z" "\<not> fr item" "over item (slot d z bs k)"
  shows "sound (fill_slot z bs k item d)" "wf_list (fill_slot z bs k item d) z fr bs n"
    "contents (fill_slot z bs k item d) z bs n = (contents d z bs n)[k := item]"
    "same_dev d (fill_slot z bs k item d)"
    "\<And>c. c < cl_block_gettotal d \<Longrightarrow> c \<notin> set bs \<Longrightarrow> blk (fill_slot z bs k item d) c = blk d c"
    "\<And>c. c < cl_block_gettotal d \<Longrightarrow> status_of (fill_slot z bs k item d) c = status_of d c"
    "\<And>c. c < cl_block_gettotal d \<Longrightarrow> take 6 (blk (fill_slot z bs k item d) c) = take 6 (blk d c)"
proof -
  have n: "n \<le> calc_total_items z * length bs" using wf by (simp add: wf_list_def)
  with k have kk: "k < calc_total_items z * length bs" by simp
  note f = fill_slot_over [OF snd wf z kk item(1,3)]
  show "sound (fill_slot z bs k item d)" "same_dev d (fill_slot z bs k item d)"
    "\<And>c. c < cl_block_gettotal d \<Longrightarrow> c \<notin> set bs \<Longrightarrow> blk (fill_slot z bs k item d) c = blk d c"
    "\<And>c. c < cl_block_gettotal d \<Longrightarrow> status_of (fill_slot z bs k item d) c = status_of d c"
    "\<And>c. c < cl_block_gettotal d \<Longrightarrow> take 6 (blk (fill_slot z bs k item d) c) = take 6 (blk d c)"
    using f by auto
  have lv: "live (fill_slot z bs k item d) c = live d c" if "c \<in> set bs" for c
    using f(7) wf_blocks [OF wf that] by (simp add: live_def)
  show "wf_list (fill_slot z bs k item d) z fr bs n"
    using wf f(3,4) lv item(2) k by (auto simp: wf_list_def)
  show "contents (fill_slot z bs k item d) z bs n = (contents d z bs n)[k := item]"
    using f(4) n k by (auto simp: contents_def list_eq_iff_nth_eq nth_list_update)
qed

text \<open>Changing the first byte of an item, its status.\<close>

lemma overlay_first:
  assumes "off + z \<le> length x" "0 < z"
  shows "overlay off [b] x = overlay off (b # tl (take z (drop off x))) x"
proof -
  obtain m where m: "z = Suc m" using assms(2) by (cases z) auto
  have "take m (drop (Suc off) x) @ drop m (drop (Suc off) x) = drop (Suc off) x" by (rule append_take_drop_id)
  moreover have "tl (take z (drop off x)) = take m (drop (Suc off) x)" by (simp add: m tl_take tl_drop drop_Suc)
  moreover have "length (take m (drop (Suc off) x)) = m" using assms(1) m by simp
  ultimately show ?thesis using m by (simp add: overlay_def add.commute del: append_take_drop_id)
qed

lemma set_first:
  assumes snd: "sound d" and wf: "wf_list d z fr bs n" and z: "0 < calc_total_items z" "0 < z"
    and k: "k < n" and ov: "overwrites st (hd (slot d z bs k))"
  shows "cl_dev_write (slot_addr z bs k) [st] d = Some (1, fill_slot z bs k (st # tl (slot d z bs k)) d)"
proof -
  let ?T = "calc_total_items z"
  define b where "b = bs ! (k div ?T)"
  define i where "i = k mod ?T"
  have "k < ?T * length bs" using wf k by (simp add: wf_list_def)
  then have idx: "k div ?T < length bs" by (simp add: less_mult_imp_div_less mult.commute)
  have i: "i < ?T" using z(1) by (simp add: i_def)
  have geo: "geometry d" using snd by (simp add: sound_def)
  have b: "b < cl_block_gettotal d" using idx wf_blocks [OF wf, of b] by (auto simp: b_def)
  note fit = item_in_block [OF i]
  have sl: "slot d z bs k = take z (drop (10 + z * i) (blk d b))"
    by (simp add: slot_def get_item_def data_of_def b_def [symmetric] i_def [symmetric] add.commute)
  have "over [st] (take (length [st]) (drop (10 + z * i) (blk d b)))"
    using ov fit z(2) unfolding sl by (simp add: over_def hd_take take_Suc drop_eq_Nil)
  moreover have "overlay (10 + z * i) [st] (blk d b) = overlay (10 + z * i) (st # tl (slot d z bs k)) (blk d b)"
    unfolding sl using fit z(2) by (intro overlay_first) auto
  moreover have "slot_addr z bs k = 128 * b + (10 + z * i)"
    by (simp add: slot_addr_def get_item_addr_eq b_def i_def)
  ultimately show ?thesis
    using write_in_block [OF geo b, of "10 + z * i" "[st]"] fit z(2)
    by (simp add: fill_slot_def Let_def b_def [symmetric] i_def [symmetric])
qed

lemma scan_member:
  "scan_items (\<lambda>x a s. if item = x then Inl () else Inr s) (map (\<lambda>k. (g k, h k)) ks) s
    = (if item \<in> set (map g ks) then Inl () else Inr s)"
  by (induction ks) auto

lemma append_scan:
  assumes "geometry d" "0 < calc_total_items z" "wf_list d z fr bs n" "fr (replicate z 0xFF)"
  obtains l w where "cl_list_init (hd bs) z fr d = (0, l)"
    "while_next (\<lambda>tmp _ l1 s d1. Some (if item = tmp then Inl ((), d1) else Inr (l1, s, d1))) l () d = Some w"
    "scan_result d z (last bs) (if item \<in> set (contents d z bs n) then Inl ()
       else Inr (if n < calc_total_items z * length bs then Some (slot_addr z bs n) else None, ())) w"
proof -
  obtain l w where "cl_list_init (hd bs) z fr d = (0, l)"
    "while_next (\<lambda>tmp _ l1 s d1. Some (if item = tmp then Inl ((), d1) else Inr (l1, s, d1))) l () d = Some w"
    "scan_result d z (last bs) (case scan_items (\<lambda>x a s. if item = x then Inl () else Inr s)
        (map (\<lambda>k. (slot d z bs k, slot_addr z bs k)) [0 ..< n]) () of Inl v \<Rightarrow> Inl v
     | Inr s' \<Rightarrow> Inr (if n < calc_total_items z * length bs then Some (slot_addr z bs n) else None, s')) w"
    by (rule while_next_wf [OF assms, where f = "\<lambda>x a s. if item = x then Inl () else Inr s"
          and body = "\<lambda>tmp _ l1 s d1. Some (if item = tmp then Inl ((), d1) else Inr (l1, s, d1))"]) auto
  then show thesis using that by (simp add: scan_member contents_def split: if_splits)
qed

lemma append_duplicate:
  assumes "geometry d" "0 < calc_total_items z" "wf_list d z fr bs n" "fr (replicate z 0xFF)" "item \<in> set (contents d z bs n)"
  obtains l where "cl_list_init (hd bs) z fr d = (0, l)" "cl_list_append l ty item d = Some (0, None, d)"
  by (rule append_scan [OF assms(1-4), of item]) (use that assms(5) in \<open>auto simp: cl_list_append_def scan_result_def\<close>)

lemma append_room:
  assumes "sound d" "wf_list d z fr bs n" "0 < calc_total_items z" "0 < z" "fr (replicate z 0xFF)"
    "n < calc_total_items z * length bs" "length item = z" "\<not> fr item" "item \<notin> set (contents d z bs n)"
  obtains l where "cl_list_init (hd bs) z fr d = (0, l)"
    "cl_list_append l ty item d = Some (0, Some (slot_addr z bs n), fill_slot z bs n item d)"
proof -
  have geo: "geometry d" using assms(1) by (simp add: sound_def)
  obtain l w where lw: "cl_list_init (hd bs) z fr d = (0, l)"
    "while_next (\<lambda>tmp _ l1 s d1. Some (if item = tmp then Inl ((), d1) else Inr (l1, s, d1))) l () d = Some w"
    "scan_result d z (last bs) (if item \<in> set (contents d z bs n) then Inl ()
       else Inr (if n < calc_total_items z * length bs then Some (slot_addr z bs n) else None, ())) w"
    by (rule append_scan [OF geo assms(3,2,5)])
  note w = fill_slot_wf(1) [OF assms(1,2,3,4,6,7,8)]
  show thesis
    by (rule that [OF lw(1)]) (use lw(2,3) assms(6,9) w in \<open>auto simp: cl_list_append_def scan_result_def\<close>)
qed


subsection \<open>Adding a block\<close>

text \<open>A list block as \<open>list_add_block\<close> leaves it.\<close>

definition new_list_block :: "u32 \<Rightarrow> byte \<Rightarrow> byte \<Rightarrow> nat \<Rightarrow> byte list" where
  "new_list_block sn ty st prev = put_le 4 (unat sn) @ [ty, st] @ [0xFF, 0xFF] @ put_le 2 prev @ replicate 118 0xFF"

lemma overlay_mid: "length b = length bs \<Longrightarrow> overlay (length a) bs (a @ b @ c) = a @ bs @ c"
  by (simp add: overlay_def)

lemma list_next_invalid:
  assumes "list_next data = BLOCK_INVALID" "2 \<le> length data"
  shows "take 2 data = [0xFF, 0xFF]"
proof -
  have "take 2 data = put_le (length (take 2 data)) (get_le (take 2 data))" by (rule put_get_le [symmetric])
  also have "\<dots> = put_le 2 65535" using assms by (simp add: list_next_def)
  also have "put_le 2 65535 = put_le (Suc (Suc 0)) 65535" by (simp only: numeral_2_eq_2)
  also have "\<dots> = [0xFF, 0xFF]" by simp
  finally show ?thesis .
qed

lemma new_list_block_fields:
  assumes "prev < 65536"
  shows "length (new_list_block sn ty st prev) = 128" "new_list_block sn ty st prev ! 5 = st"
    "new_list_block sn ty st prev ! 4 = ty"
    "list_next (drop 6 (new_list_block sn ty st prev)) = BLOCK_INVALID" "list_prev (drop 6 (new_list_block sn ty st prev)) = prev"
    "drop 10 (new_list_block sn ty st prev) = replicate 118 0xFF"
proof -
  have d6: "drop 6 (new_list_block sn ty st prev) = [0xFF, 0xFF] @ put_le 2 prev @ replicate 118 0xFF"
    by (simp add: new_list_block_def)
  have "get_le [0xFF, 0xFF] = BLOCK_INVALID" by simp
  then show "list_next (drop 6 (new_list_block sn ty st prev)) = BLOCK_INVALID" unfolding d6 by (simp add: list_next_def)
  show "list_prev (drop 6 (new_list_block sn ty st prev)) = prev" unfolding d6 using assms by (simp add: list_prev_def)
qed (simp_all add: new_list_block_def nth_append)

lemma put_le_empty [simp]: "put_le k n = [] \<longleftrightarrow> k = 0"
  by (cases k) auto

lemma over_FF2: "length bs = 2 \<Longrightarrow> over bs [0xFF, 0xFF]"
  using over_FF [of bs 2] by (simp add: numeral_2_eq_2)

lemma overwrites_close: "overwrites BLOCK_STATUS_CLOSED BLOCK_STATUS_OPEN"
  by code_simp

lemma granted_blk:
  assumes "granted sn ty d b d'"
  shows "blk d' b = put_le 4 (unat sn) @ [ty, BLOCK_STATUS_OPEN] @ [0xFF, 0xFF] @ [0xFF, 0xFF] @ replicate 118 0xFF"
proof -
  have h: "hdr_of d' b = bytes_hdr (blk d' b)" by (simp add: hdr_of_def bytes_hdr_def status_blk type_blk serial_blk)
  have "take 6 (blk d' b) = hdr_bytes (bytes_hdr (blk d' b))" by (simp add: hdr_bytes_bytes_hdr)
  also have "\<dots> = put_le 4 (unat sn) @ [ty, BLOCK_STATUS_OPEN]"
    using assms h by (simp add: granted_def hdr_bytes_def)
  finally have "blk d' b = (put_le 4 (unat sn) @ [ty, BLOCK_STATUS_OPEN]) @ drop 6 (blk d' b)"
    by (metis append_take_drop_id)
  moreover have "drop 6 (blk d' b) = [0xFF, 0xFF] @ [0xFF, 0xFF] @ replicate 118 0xFF"
    using assms replicate_add [of 2 "120" "0xFF :: byte"] replicate_add [of 2 "118" "0xFF :: byte"]
    by (simp add: granted_def numeral_2_eq_2)
  ultimately show ?thesis by simp
qed

text \<open>A block that an operation leaves alone, or erases when it was not in use.\<close>

definition spared :: "flash \<Rightarrow> flash \<Rightarrow> nat \<Rightarrow> bool" where
  "spared d d' c \<longleftrightarrow> blk d' c = blk d c \<or> \<not> live d c \<and> blk d' c = replicate 128 0xFF"

lemma spared_live: "spared d d' c \<Longrightarrow> live d c \<Longrightarrow> blk d' c = blk d c"
  by (auto simp: spared_def)

lemma spared_trans: "spared d e c \<Longrightarrow> spared e f c \<Longrightarrow> spared d f c"
  using live_blk [of e c d] FF_not_live [of e c] by (auto simp: spared_def)

lemma spared_same: "blk d' c = blk d c \<Longrightarrow> spared d d' c"
  by (simp add: spared_def)

lemma kept_spared: "kept d d' \<Longrightarrow> c < cl_block_gettotal d \<Longrightarrow> spared d d' c"
  by (auto simp: kept_def spared_def)

lemma granted_spared: "granted sn ty d b d' \<Longrightarrow> c < cl_block_gettotal d \<Longrightarrow> c \<noteq> b \<Longrightarrow> spared d d' c"
  by (auto simp: granted_def spared_def)

lemma list_add_block_effect:
  assumes snd: "sound d" and lb: "lb < cl_block_gettotal d" "live d lb" "list_next (data_of d lb) = BLOCK_INVALID"
    and ps: "per_section d \<le> 41"
  obtains (full) d' where "list_add_block sn ty lb d = Some (BLOCK_INVALID, d')" "sound d'" "same_dev d d'" "\<not> room d"
      "\<And>c. c < cl_block_gettotal d \<Longrightarrow> spared d d' c"
  | (added) nb d' where "list_add_block sn ty lb d = Some (nb, d')" "sound d'" "same_dev d d'"
      "nb < cl_block_gettotal d" "\<not> live d nb"
      "blk d' lb = overlay 6 (put_le 2 nb) (blk d lb)"
      "blk d' nb = new_list_block sn (ty OR BLOCK_TYPE_LINKED_LIST_FLAG)
         (if ty = BLOCK_TYPE_SERIALNO_LIST then BLOCK_STATUS_CLOSED else BLOCK_STATUS_OPEN) lb"
      "\<And>c. c < cl_block_gettotal d \<Longrightarrow> c \<noteq> lb \<Longrightarrow> c \<noteq> nb \<Longrightarrow> spared d d' c"
proof -
  let ?T = "cl_block_gettotal d" and ?ty = "ty OR BLOCK_TYPE_LINKED_LIST_FLAG"
  obtain nb d1 where a: "cl_block_alloc sn lb ?ty d = Some (nb, d1)"
    "nb \<noteq> BLOCK_INVALID \<and> granted sn ?ty d nb d1 \<or> nb = BLOCK_INVALID \<and> kept d d1 \<and> sound d1 \<and> \<not> room d"
    by (rule cl_block_alloc_outcome [OF snd lb(1) ps])
  show thesis
  proof (cases "nb = BLOCK_INVALID")
    case True
    with a have "kept d d1" "sound d1" "\<not> room d" by auto
    then show thesis by (intro full [of d1]) (use a True kept_spared in \<open>auto simp: list_add_block_def kept_def\<close>)
  next
    case False
    with a(2) have g: "granted sn ?ty d nb d1" by simp
    then have g1: "sound d1" "same_dev d d1" "nb < ?T" "\<not> live d nb" by (auto simp: granted_def)
    note dev = same_dev_geometry [OF g1(2)]
    have geo: "geometry d1" using g1(1) by (simp add: sound_def)
    have ne: "nb \<noteq> lb" using g1(4) lb(2) by auto
    have b1: "blk d1 c = blk d c" if "c < ?T" "live d c" for c
      using g that g1(4) by (auto simp: granted_def)
    note f1 = granted_spared [OF g, unfolded spared_def]
    have bn: "blk d1 nb = (put_le 4 (unat sn) @ [?ty, BLOCK_STATUS_OPEN] @ [0xFF, 0xFF]) @ [0xFF, 0xFF] @ replicate 118 0xFF"
      using granted_blk [OF g] by simp
    define B2 where "B2 = overlay 6 (put_le 2 nb) (blk d lb)"
    define d2 where "d2 = set_cell (Blk lb) B2 d1"
    have lB2: "length B2 = 128" by (simp add: B2_def)
    have "take 2 (data_of d lb) = [0xFF, 0xFF]" using lb(3) by (intro list_next_invalid) simp_all
    then have o2: "over (put_le 2 nb) (take 2 (drop 6 (blk d1 lb)))"
      using b1 [OF lb(1,2)] over_FF2 [of "put_le 2 nb"] by (simp add: data_of_def)
    have w2: "cl_dev_write (get_hdr_addr lb) (put_le 2 nb) d1 = Some (2, d2)"
      using write_in_block [OF geo, of lb 6 "put_le 2 nb"] lb(1) o2 b1 [OF lb(1,2)]
      by (simp add: get_hdr_addr_def dev d2_def B2_def mult.commute)
    have s2: "sound d2"
    proof -
      have "B2 ! 5 = blk d lb ! 5" by (simp add: B2_def nth_overlay)
      then show ?thesis using lb(1,2) lB2 by (auto simp: d2_def dev live_def status_blk intro!: sound_set_blk [OF g1(1)])
    qed
    have t2: "cl_block_gettotal d2 = ?T" "geometry d2" using dev geo by (simp_all add: d2_def)
    have bn2: "blk d2 nb = blk d1 nb" using ne g1(3) lb(1) lB2 by (simp add: d2_def blk_set_blk dev)
    define B3 where "B3 = (put_le 4 (unat sn) @ [?ty, BLOCK_STATUS_OPEN] @ [0xFF, 0xFF]) @ put_le 2 lb @ replicate 118 0xFF"
    define d3 where "d3 = set_cell (Blk nb) B3 d2"
    have lB3: "length B3 = 128" by (simp add: B3_def)
    have ov3: "overlay 8 (put_le 2 lb) (blk d2 nb) = B3"
      using overlay_mid [of "[0xFF, 0xFF]" "put_le 2 lb" "put_le 4 (unat sn) @ [?ty, BLOCK_STATUS_OPEN] @ [0xFF, 0xFF]"]
      by (simp add: bn2 bn B3_def)
    have o3: "over (put_le 2 lb) (take 2 (drop 8 (blk d2 nb)))" by (simp add: bn2 bn over_FF2)
    have ad: "get_hdr_addr nb + 2 = 128 * nb + 8" by (simp add: get_hdr_addr_def)
    have w3: "cl_dev_write (get_hdr_addr nb + 2) (put_le 2 lb) d2 = Some (2, d3)"
      unfolding ad using write_in_block [OF t2(2), of nb 8 "put_le 2 lb"] g1(3) o3 ov3
      by (simp add: t2 d3_def)
    have s3: "sound d3" using g1(3) lB3 by (auto simp: d3_def t2 B3_def nth_append intro!: sound_set_blk [OF s2])
    have t3: "cl_block_gettotal d3 = ?T" "geometry d3" using t2 by (simp_all add: d3_def)
    have bn3: "blk d3 nb = B3" using g1(3) lB3 by (simp add: d3_def blk_set_blk t2)
    have other3: "blk d3 c = (if c = nb then B3 else if c = lb then B2 else blk d1 c)" if "c < ?T" for c
      using that g1(3) lb(1) lB2 lB3 by (simp add: d3_def d2_def blk_set_blk dev)
    show thesis
    proof (cases "ty = BLOCK_TYPE_SERIALNO_LIST")
      case False
      have "list_add_block sn ty lb d = Some (nb, d3)"
        using a(1) \<open>nb \<noteq> BLOCK_INVALID\<close> w2 w3 False by (simp add: list_add_block_def)
      then show thesis
      proof (rule added)
        show "same_dev d d3" by (rule same_dev_trans [OF g1(2)]) (simp add: d3_def d2_def)
        show "blk d3 nb = new_list_block sn ?ty (if ty = BLOCK_TYPE_SERIALNO_LIST then BLOCK_STATUS_CLOSED else BLOCK_STATUS_OPEN) lb"
          using False bn3 by (simp add: B3_def new_list_block_def)
      qed (use s3 g1 lb ne other3 b1 f1 in \<open>auto simp: B2_def spared_def\<close>)
    next
      case True
      define B4 where "B4 = new_list_block sn ?ty BLOCK_STATUS_CLOSED lb"
      define d4 where "d4 = set_cell (Blk nb) B4 d3"
      have lB4: "length B4 = 128" "B4 ! 5 = BLOCK_STATUS_CLOSED" by (simp_all add: B4_def new_list_block_def nth_append)
      have B3': "B3 = (put_le 4 (unat sn) @ [?ty]) @ [BLOCK_STATUS_OPEN] @ ([0xFF, 0xFF] @ put_le 2 lb @ replicate 118 0xFF)"
        by (simp add: B3_def)
      have ov4: "overlay 5 [BLOCK_STATUS_CLOSED] B3 = B4"
        using overlay_mid [of "[BLOCK_STATUS_OPEN]" "[BLOCK_STATUS_CLOSED]" "put_le 4 (unat sn) @ [?ty]"]
        by (simp add: B3' B4_def new_list_block_def)
      have "B3 ! 5 = BLOCK_STATUS_OPEN" by (simp add: B3_def nth_append)
      then have o4: "over [BLOCK_STATUS_CLOSED] (take 1 (drop 5 (blk d3 nb)))"
        using overwrites_close lB3 by (simp add: bn3 over_def take_Suc_conv_app_nth hd_drop_conv_nth take_Suc)
      have w4: "cl_block_close nb d3 = Some (1, d4)"
        using write_in_block [OF t3(2), of nb 5 "[BLOCK_STATUS_CLOSED]"] g1(3) o4 ov4 \<open>nb \<noteq> BLOCK_INVALID\<close>
        by (simp add: cl_block_close_def cl_block_setstatus_def get_cl_block_addr_def t3 d4_def bn3)
      have run: "list_add_block sn ty lb d = Some (nb, d4)"
        using a(1) \<open>nb \<noteq> BLOCK_INVALID\<close> w2 w3 w4 True by (simp add: list_add_block_def)
      have s4: "sound d4" using g1(3) lB4 by (auto simp: d4_def t3 intro!: sound_set_blk [OF s3])
      have other4: "blk d4 c = (if c = nb then B4 else if c = lb then B2 else blk d1 c)" if "c < ?T" for c
        using that g1(3) lB4 other3 by (simp add: d4_def blk_set_blk t3)
      show thesis
      proof (rule added [OF run s4])
        show "same_dev d d4" by (rule same_dev_trans [OF g1(2)]) (simp add: d4_def d3_def d2_def)
      qed (use g1 True lb ne other4 b1 f1 in \<open>auto simp: B2_def B4_def spared_def\<close>)
    qed
  qed
qed


lemma drop_overlay: "off + length bs \<le> m \<Longrightarrow> off + length bs \<le> length x \<Longrightarrow> drop m (overlay off bs x) = drop m x"
  by (simp add: overlay_def)

lemma link_overlay:
  assumes "length x = 128" "nb < 65536"
  shows "list_next (drop 6 (overlay 6 (put_le 2 nb) x)) = nb" "list_prev (drop 6 (overlay 6 (put_le 2 nb) x)) = list_prev (drop 6 x)"
    "get_item (drop 6 (overlay 6 (put_le 2 nb) x)) i z = get_item (drop 6 x) i z"
    "take 6 (overlay 6 (put_le 2 nb) x) = take 6 x"
proof -
  show "list_next (drop 6 (overlay 6 (put_le 2 nb) x)) = nb" using assms by (simp add: list_next_def overlay_def)
  show "list_prev (drop 6 (overlay 6 (put_le 2 nb) x)) = list_prev (drop 6 x)"
    using assms by (simp add: list_prev_def drop_overlay)
  show "get_item (drop 6 (overlay 6 (put_le 2 nb) x)) i z = get_item (drop 6 x) i z"
    using assms by (simp add: get_item_def drop_overlay)
  show "take 6 (overlay 6 (put_le 2 nb) x) = take 6 x" using assms by (intro take_overlay) simp_all
qed

lemma chain_snoc:
  "cl_block_gettotal d' = cl_block_gettotal d \<Longrightarrow> chain d p bs \<Longrightarrow>
   (\<And>b. b \<in> set bs \<Longrightarrow> b \<noteq> last bs \<Longrightarrow> list_prev (data_of d' b) = list_prev (data_of d b)
     \<and> list_next (data_of d' b) = list_next (data_of d b) \<and> type_of d' b = type_of d b) \<Longrightarrow>
   list_prev (data_of d' (last bs)) = list_prev (data_of d (last bs)) \<Longrightarrow> list_next (data_of d' (last bs)) = nb \<Longrightarrow>
   type_of d' (last bs) = type_of d (last bs) \<Longrightarrow> distinct bs \<Longrightarrow> chain d' (last bs) [nb] \<Longrightarrow> chain d' p (bs @ [nb])"
proof (induction bs arbitrary: p)
  case (Cons b bs)
  show ?case
  proof (cases bs)
    case Nil
    then show ?thesis using Cons.prems by auto
  next
    case (Cons c cs)
    have "chain d' b (bs @ [nb])"
      by (rule Cons.IH) (use Cons.prems Cons in auto)
    moreover have "b \<noteq> last bs" using Cons.prems(7) Cons by auto
    ultimately show ?thesis using Cons.prems Cons by auto
  qed
qed simp

lemma chain_last: "chain d p bs \<Longrightarrow> list_next (data_of d (last bs)) = BLOCK_INVALID"
proof (induction bs arbitrary: p)
  case (Cons b bs)
  then show ?case by (cases bs) auto
qed simp

lemma type_set: "take 6 (blk d' b) = take 6 (blk d b) \<Longrightarrow> type_of d' b = type_of d b \<and> status_of d' b = status_of d b"
proof -
  assume a: "take 6 (blk d' b) = take 6 (blk d b)"
  have "blk d' b ! i = blk d b ! i" if "i < 6" for i using a that by (metis nth_take)
  then show ?thesis by (simp add: type_blk status_blk)
qed

lemma extend_wf:
  assumes geo: "geometry d" and wf: "wf_list d z fr bs n" and z: "0 < calc_total_items z" and n: "n = calc_total_items z * length bs"
    and d': "same_dev d d'" "sound d'" and nb: "nb < cl_block_gettotal d" "\<not> live d nb"
    and bl: "blk d' (last bs) = overlay 6 (put_le 2 nb) (blk d (last bs))"
    and bn: "blk d' nb = new_list_block sn ty st (last bs)"
    and st: "st = BLOCK_STATUS_OPEN \<or> st = BLOCK_STATUS_CLOSED" and ty: "list_typeisvalid ty"
    and same: "\<And>c. c < cl_block_gettotal d \<Longrightarrow> live d c \<Longrightarrow> c \<noteq> last bs \<Longrightarrow> blk d' c = blk d c"
  shows "wf_list d' z fr (bs @ [nb]) n" "contents d' z (bs @ [nb]) n = contents d z bs n"
proof -
  let ?T = "calc_total_items z"
  have ch: "chain d BLOCK_INVALID bs" using wf by (simp add: wf_list_def)
  have ne: "bs \<noteq> []" using chain_nonempty [OF ch] .
  have lb: "last bs \<in> set bs" "last bs < cl_block_gettotal d" "live d (last bs)"
    using ne wf_blocks [OF wf, of "last bs"] by auto
  have nn: "nb \<notin> set bs" using wf_blocks [OF wf] nb(2) by auto
  have t: "cl_block_gettotal d' = cl_block_gettotal d" using same_dev_geometry [OF d'(1)] by simp
  have small: "nb < 65536" "last bs < 65536" using block_less_invalid [OF geo] nb(1) lb(2) by fastforce+
  note lk = link_overlay [OF length_blk small(1)]
  note nf = new_list_block_fields [OF small(2)]
  have old: "blk d' b = blk d b" if "b \<in> set bs" "b \<noteq> last bs" for b using same that wf_blocks [OF wf that(1)] by auto
  have hdr: "type_of d' b = type_of d b \<and> status_of d' b = status_of d b" if "b \<in> set bs" for b
    using old [OF that] bl lk(4) by (intro type_set) (cases "b = last bs"; simp)
  have "chain d' (last bs) [nb]"
    using nb(1) nf ty by (simp add: t data_of_def bn type_blk)
  then have c': "chain d' BLOCK_INVALID (bs @ [nb])"
    using t ch hdr lb(1) lk chain_distinct [OF geo ch] old
    by (intro chain_snoc [of d' d]) (auto simp: data_of_def bl)
  have data: "get_item (data_of d' b) i z = get_item (data_of d b) i z" if "b \<in> set bs" for b i
    using old [OF that] bl lk(3) by (cases "b = last bs") (simp_all add: data_of_def)
  have slot_old: "slot d' z (bs @ [nb]) k = slot d z bs k" if "k < n" for k
  proof -
    have "k div ?T < length bs" using that n by (simp add: less_mult_imp_div_less mult.commute)
    then show ?thesis by (simp add: slot_def nth_append data)
  qed
  have slot_new: "slot d' z (bs @ [nb]) k = replicate z 0xFF" if "n \<le> k" "k < ?T * length (bs @ [nb])" for k
  proof -
    have "k div ?T = length bs" using that n z by (intro div_nat_eqI) (simp_all add: algebra_simps)
    then have "slot d' z (bs @ [nb]) k = take z (drop (z * (k mod ?T)) (drop 10 (blk d' nb)))"
      by (simp add: slot_def get_item_def data_of_def add.commute)
    moreover have "z \<le> 118 - z * (k mod ?T)" using item_in_block [of "k mod ?T" z] z by simp
    ultimately have "slot d' z (bs @ [nb]) k = replicate z 0xFF" by (simp add: bn nf min.absorb1)
    then show ?thesis .
  qed
  have "live d' b" if "b \<in> set (bs @ [nb])" for b
    using that hdr wf_blocks [OF wf] st nf by (auto simp: live_def) (auto simp: status_blk bn)
  then show "wf_list d' z fr (bs @ [nb]) n"
    using wf c' slot_old slot_new n by (auto simp: wf_list_def)
  show "contents d' z (bs @ [nb]) n = contents d z bs n"
    using slot_old by (simp add: contents_def)
qed


text \<open>A block that stays in use with the same data, type and serial number; its status may change.\<close>

definition keeps :: "flash \<Rightarrow> flash \<Rightarrow> nat \<Rightarrow> bool" where
  "keeps d d' c \<longleftrightarrow> data_of d' c = data_of d c \<and> type_of d' c = type_of d c \<and> serial_of d' c = serial_of d c \<and> (live d c \<longrightarrow> live d' c)"

lemma keeps_blk: "blk d' c = blk d c \<Longrightarrow> keeps d d' c"
  using live_blk [of d' c d] by (simp add: keeps_def data_of_def type_blk serial_blk)

lemma keeps_refl [simp]: "keeps d d c"
  by (simp add: keeps_def)

lemma keeps_trans: "keeps d d1 c \<Longrightarrow> keeps d1 d2 c \<Longrightarrow> keeps d d2 c"
  by (simp add: keeps_def)

lemma slot_keeps: "k < calc_total_items z * length bs \<Longrightarrow> 0 < calc_total_items z \<Longrightarrow> (\<And>b. b \<in> set bs \<Longrightarrow> keeps d d' b) \<Longrightarrow>
    slot d' z bs k = slot d z bs k"
  by (simp add: slot_def keeps_def less_mult_imp_div_less mult.commute)

lemma wf_list_keeps:
  assumes "wf_list d z fr bs n" "cl_block_gettotal d' = cl_block_gettotal d" "\<And>b. b \<in> set bs \<Longrightarrow> keeps d d' b"
    "0 < calc_total_items z"
  shows "wf_list d' z fr bs n" "contents d' z bs n = contents d z bs n"
proof -
  have n: "n \<le> calc_total_items z * length bs" using assms(1) by (simp add: wf_list_def)
  have sl: "slot d' z bs k = slot d z bs k" if "k < calc_total_items z * length bs" for k
    by (rule slot_keeps [OF that assms(4,3)])
  have "chain d' BLOCK_INVALID bs = chain d BLOCK_INVALID bs"
    by (rule chain_cong [OF assms(2)]) (use assms(3) in \<open>simp add: keeps_def\<close>)
  moreover have "live d b \<Longrightarrow> live d' b" if "b \<in> set bs" for b using assms(3) [OF that] by (simp add: keeps_def)
  ultimately show "wf_list d' z fr bs n" using assms(1) sl n by (auto simp: wf_list_def)
  show "contents d' z bs n = contents d z bs n" using sl n by (simp add: contents_def)
qed

lemma slot_cong: "k < calc_total_items z * length bs \<Longrightarrow> 0 < calc_total_items z \<Longrightarrow> (\<And>b. b \<in> set bs \<Longrightarrow> blk d' b = blk d b) \<Longrightarrow>
    slot d' z bs k = slot d z bs k"
  using slot_keeps [of k z bs d d'] keeps_blk by simp

lemma wf_list_cong:
  assumes "wf_list d z fr bs n" "cl_block_gettotal d' = cl_block_gettotal d" "\<And>b. b \<in> set bs \<Longrightarrow> blk d' b = blk d b"
    "0 < calc_total_items z"
  shows "wf_list d' z fr bs n" "contents d' z bs n = contents d z bs n"
  by (rule wf_list_keeps [OF assms(1,2) keeps_blk [OF assms(3)] assms(4)], assumption)+

lemma geometry_size: "geometry d \<Longrightarrow> fl_size d < 65535 * 128"
proof -
  assume g: "geometry d"
  then obtain k where "fl_size d = 128 * all_blocks d" by (rule geometry_sections)
  with all_blocks_bound [OF g] show ?thesis by simp
qed

text \<open>What an append does to a list, as seen from its contents.\<close>

definition appended :: "flash \<Rightarrow> nat \<Rightarrow> (byte list \<Rightarrow> bool) \<Rightarrow> nat list \<Rightarrow> nat \<Rightarrow> byte list
    \<Rightarrow> int \<Rightarrow> nat option \<Rightarrow> flash \<Rightarrow> nat list \<Rightarrow> nat \<Rightarrow> bool" where
  "appended d z fr bs n item r ao d' bs' n' \<longleftrightarrow> sound d' \<and> same_dev d d' \<and> wf_list d' z fr bs' n'
     \<and> (\<exists>nbs. bs' = bs @ nbs \<and> length nbs \<le> 1 \<and> (\<forall>c\<in>set nbs. \<not> live d c))
     \<and> (\<forall>c<cl_block_gettotal d. c \<notin> set bs' \<longrightarrow> spared d d' c) \<and> (\<forall>c\<in>set bs. take 6 (blk d' c) = take 6 (blk d c))
     \<and> (if item \<in> set (contents d z bs n) then r = 0 \<and> ao = None \<and> d' = d \<and> contents d' z bs' n' = contents d z bs n
        else if r = 0 then ao = Some (slot_addr z bs' n) \<and> n' = Suc n \<and> contents d' z bs' n' = contents d z bs n @ [item]
        else r = -1 \<and> \<not> room d \<and> n = calc_total_items z * length bs \<and> contents d' z bs' n' = contents d z bs n)"

lemma appended_same:
  assumes "appended d z fr bs n item r ao d' bs' n'" "c < cl_block_gettotal d" "live d c" "c \<notin> set bs"
  shows "blk d' c = blk d c"
  using assms by (auto simp: appended_def spared_def)

lemma append_refines:
  assumes snd: "sound d" and ps: "per_section d \<le> 41" and wf: "wf_list d z fr bs n" and z: "0 < calc_total_items z" "0 < z"
    and fr: "fr (replicate z 0xFF)" and item: "length item = z" "\<not> fr item"
    and ty: "list_typeisvalid (ty OR BLOCK_TYPE_LINKED_LIST_FLAG)"
  obtains l r ao d' bs' n' where "cl_list_init (hd bs) z fr d = (0, l)" "cl_list_append l ty item d = Some (r, ao, d')"
    "appended d z fr bs n item r ao d' bs' n'"
proof -
  let ?T = "calc_total_items z"
  have geo: "geometry d" using snd by (simp add: sound_def)
  show thesis
  proof (cases "item \<in> set (contents d z bs n)")
    case True
    obtain l where "cl_list_init (hd bs) z fr d = (0, l)" "cl_list_append l ty item d = Some (0, None, d)"
      by (rule append_duplicate [OF geo z(1) wf fr True])
    then show thesis by (rule that [of l 0 None d bs n]) (use True snd wf spared_same [of d] in \<open>auto simp: appended_def\<close>)
  next
    case new: False
    show thesis
    proof (cases "n < ?T * length bs")
      case True
      note fw = fill_slot_wf [OF snd wf z True item]
      obtain l where "cl_list_init (hd bs) z fr d = (0, l)"
        "cl_list_append l ty item d = Some (0, Some (slot_addr z bs n), fill_slot z bs n item d)"
        by (rule append_room [OF snd wf z fr True item new])
      then show thesis
        by (rule that [of l 0 "Some (slot_addr z bs n)" "fill_slot z bs n item d" bs "Suc n"])
           (use fw new spared_same wf_blocks [OF wf] in \<open>auto simp: appended_def\<close>)
    next
      case False
      then have n: "n = ?T * length bs" using wf by (simp add: wf_list_def)
      have ch: "chain d BLOCK_INVALID bs" using wf by (simp add: wf_list_def)
      have lb: "last bs < cl_block_gettotal d" "live d (last bs)" "list_next (data_of d (last bs)) = BLOCK_INVALID"
        using chain_last [OF ch] chain_nonempty [OF ch] wf_blocks [OF wf, of "last bs"] by auto
      let ?sn = "serial_of d (last bs)"
      obtain l w where lw: "cl_list_init (hd bs) z fr d = (0, l)"
        "while_next (\<lambda>tmp _ l1 s d1. Some (if item = tmp then Inl ((), d1) else Inr (l1, s, d1))) l () d = Some w"
        "scan_result d z (last bs) (if item \<in> set (contents d z bs n) then Inl ()
           else Inr (if n < ?T * length bs then Some (slot_addr z bs n) else None, ())) w"
        by (rule append_scan [OF geo z(1) wf fr])
      then obtain l1 out where w: "w = Inr (-1, l1, out, (), d)" "ls_size l1 = z" "ls_block l1 = last bs"
        "ls_data l1 = bytes_data (blk d (last bs))"
        using new False by (auto simp: scan_result_def)
      show thesis
      proof (rule list_add_block_effect [OF snd lb ps, where sn = ?sn and ty = ty])
        fix d' assume d': "list_add_block ?sn ty (last bs) d = Some (BLOCK_INVALID, d')" "sound d'" "same_dev d d'"
          "\<not> room d" and sp: "\<And>c. c < cl_block_gettotal d \<Longrightarrow> spared d d' c"
        note same = spared_live [OF sp]
        note g = same_dev_geometry [OF d'(3)]
        have "cl_dev_write (get_item_addr BLOCK_INVALID 0 z) item d' = Some (-1, d')"
          using geometry_size [OF geo] by (simp add: cl_dev_write_def get_item_addr_eq g)
        then have run: "cl_list_append l ty item d = Some (-1, Some (get_item_addr BLOCK_INVALID 0 z), d')"
          using lw(2) w d'(1) by (simp add: cl_list_append_def)
        have "wf_list d' z fr bs n" "contents d' z bs n = contents d z bs n"
          by (rule wf_list_cong [OF wf g(2) _ z(1)], use same wf_blocks [OF wf] in blast)+
        then show thesis
          by (intro that [OF lw(1) run, of bs n]) (use d' sp new n same wf_blocks [OF wf] in \<open>auto simp: appended_def\<close>)
      next
        fix nb d1 assume d1: "list_add_block ?sn ty (last bs) d = Some (nb, d1)" "sound d1" "same_dev d d1"
          and nb: "nb < cl_block_gettotal d" "\<not> live d nb"
          and bl: "blk d1 (last bs) = overlay 6 (put_le 2 nb) (blk d (last bs))"
          and bn: "blk d1 nb = new_list_block ?sn (ty OR BLOCK_TYPE_LINKED_LIST_FLAG)
            (if ty = BLOCK_TYPE_SERIALNO_LIST then BLOCK_STATUS_CLOSED else BLOCK_STATUS_OPEN) (last bs)"
          and sp: "\<And>c. c < cl_block_gettotal d \<Longrightarrow> c \<noteq> last bs \<Longrightarrow> c \<noteq> nb \<Longrightarrow> spared d d1 c"
        have same: "blk d1 c = blk d c" if "c < cl_block_gettotal d" "live d c" "c \<noteq> last bs" for c
          using spared_live [OF sp] that nb(2) by metis
        have st: "(if ty = BLOCK_TYPE_SERIALNO_LIST then BLOCK_STATUS_CLOSED else BLOCK_STATUS_OPEN) = BLOCK_STATUS_OPEN
            \<or> (if ty = BLOCK_TYPE_SERIALNO_LIST then BLOCK_STATUS_CLOSED else BLOCK_STATUS_OPEN) = BLOCK_STATUS_CLOSED"
          by simp
        note ext = extend_wf [OF geo wf z(1) n d1(3,2) nb bl bn st ty same]
        have room: "n < ?T * length (bs @ [nb])" using n z(1) by simp
        note fw = fill_slot_wf [OF d1(2) ext(1) z room item]
        let ?d = "fill_slot z (bs @ [nb]) n item d1"
        have ad: "slot_addr z (bs @ [nb]) n = get_item_addr nb 0 z"
          using z(1) by (simp add: slot_addr_def n)
        have run: "cl_list_append l ty item d = Some (0, Some (slot_addr z (bs @ [nb]) n), ?d)"
          using lw(2) w d1(1) fw(1) by (simp add: cl_list_append_def ad)
        have frame: "spared d ?d c" if "c < cl_block_gettotal d" "c \<notin> set (bs @ [nb])" for c
        proof -
          have "c \<noteq> last bs" "c \<noteq> nb" using that chain_nonempty [OF ch] by auto
          then show ?thesis using fw(6) [of c] sp [OF that(1)] that same_dev_geometry [OF d1(3)]
            by (simp add: spared_def)
        qed
        have h6: "take 6 (blk ?d c) = take 6 (blk d c)" if "c \<in> set bs" for c
        proof -
          have c: "c < cl_block_gettotal d" "live d c" using wf_blocks [OF wf that] by auto
          have "take 6 (blk d1 c) = take 6 (blk d c)" using same [OF c] bl by (cases "c = last bs") (simp_all add: take_overlay)
          then show ?thesis using fw(8) [of c] c(1) same_dev_geometry [OF d1(3)] by simp
        qed
        show thesis
          by (rule that [OF lw(1) run, of "bs @ [nb]" "Suc n"])
             (use h6 fw ext(2) frame new nb(2) same_dev_trans [OF d1(3) fw(5)] in \<open>auto simp: appended_def\<close>)
      qed
    qed
  qed
qed

end
