(* ===== verification/CafsSerial.thy ===== *)
theory CafsSerial
  imports CafsChain
begin

section \<open>The list of serial numbers (cafs_lite_serialno.c)\<close>

text \<open>
  A file is known by its serial number; the serial number list maps it to the block of the file's
  header. An entry is found by number and status, and its status byte is cleared step by step as the
  file goes from open to closed and from discarding to dirty. The list's own entry, number 0, records
  whether the list itself is complete.
\<close>

abbreviation CAFS_SNLIST_ITEM_STATUS_FREE :: byte where "CAFS_SNLIST_ITEM_STATUS_FREE \<equiv> 0xFF"
abbreviation CAFS_SNLIST_ITEM_STATUS_OPEN :: byte where "CAFS_SNLIST_ITEM_STATUS_OPEN \<equiv> 0xFE"
abbreviation CAFS_SNLIST_ITEM_STATUS_CLOSING :: byte where "CAFS_SNLIST_ITEM_STATUS_CLOSING \<equiv> 0xFC"
abbreviation CAFS_SNLIST_ITEM_STATUS_CLOSED :: byte where "CAFS_SNLIST_ITEM_STATUS_CLOSED \<equiv> 0xF8"
abbreviation CAFS_SNLIST_ITEM_STATUS_DISCARDING_HDR :: byte where "CAFS_SNLIST_ITEM_STATUS_DISCARDING_HDR \<equiv> 0xF0"
abbreviation CAFS_SNLIST_ITEM_STATUS_DISCARDING_HDR_LIST :: byte where "CAFS_SNLIST_ITEM_STATUS_DISCARDING_HDR_LIST \<equiv> 0xE0"
abbreviation CAFS_SNLIST_ITEM_STATUS_DISCARDING :: byte where "CAFS_SNLIST_ITEM_STATUS_DISCARDING \<equiv> 0xC0"
abbreviation CAFS_SNLIST_ITEM_STATUS_DIRTY :: byte where "CAFS_SNLIST_ITEM_STATUS_DIRTY \<equiv> 0x00"

abbreviation CL_BLOCK_LIST :: nat where "CL_BLOCK_LIST \<equiv> 0x1234"

record cl_snlist_item =
  sn_status :: byte
  sn_serialno :: u32
  sn_block :: nat
  sn_checksum :: byte

definition snitem_bytes :: "cl_snlist_item \<Rightarrow> byte list" where
  "snitem_bytes x = [sn_status x] @ put_le 4 (unat (sn_serialno x)) @ put_le 2 (sn_block x) @ [sn_checksum x]"

definition bytes_snitem :: "byte list \<Rightarrow> cl_snlist_item" where
  "bytes_snitem bs = \<lparr>sn_status = bs ! 0, sn_serialno = of_nat (get_le (take 4 (drop 1 bs))),
     sn_block = get_le (take 2 (drop 5 bs)), sn_checksum = bs ! 7\<rparr>"

definition sn_sum :: "cl_snlist_item \<Rightarrow> byte" where
  "sn_sum x = foldl (\<lambda>s b. s + NOT b) 0 (take 6 (drop 1 (snitem_bytes x)))"

definition sn_set_checksum :: "cl_snlist_item \<Rightarrow> cl_snlist_item" where
  "sn_set_checksum x = x\<lparr>sn_checksum := sn_sum x\<rparr>"

definition sn_validate_checksum :: "cl_snlist_item \<Rightarrow> int" where
  "sn_validate_checksum x = uint (sn_sum x) - uint (sn_checksum x)"

definition cl_serialno_isfree :: "byte list \<Rightarrow> bool" where
  "cl_serialno_isfree bs \<longleftrightarrow> sn_status (bytes_snitem bs) = CAFS_SNLIST_ITEM_STATUS_FREE"

definition sn_is_dirty :: "byte list \<Rightarrow> bool" where
  "sn_is_dirty bs \<longleftrightarrow> sn_status (bytes_snitem bs) = CAFS_SNLIST_ITEM_STATUS_DIRTY"

text \<open>The list block kept in RAM is an \<open>int\<close>; passing it on makes it a \<open>block_t\<close>.\<close>

definition list_block_of :: "flash \<Rightarrow> nat" where
  "list_block_of d = nat (cl_dev_getlist_block d mod 65536)"

definition cl_serialno_getlistblock :: "flash \<Rightarrow> nat" where
  "cl_serialno_getlistblock d = list_block_of d"

definition cl_snlist_init :: "nat \<Rightarrow> flash \<Rightarrow> int \<times> cl_list" where
  "cl_snlist_init list_block d = cl_list_init list_block 8 cl_serialno_isfree d"

definition cl_serialno_setstatus :: "nat \<Rightarrow> byte \<Rightarrow> flash \<Rightarrow> (int \<times> flash) option" where
  "cl_serialno_setstatus addr status d = do {
    (r, d1) \<leftarrow> cl_dev_write addr [status] d;
    Some (if r \<noteq> 1 then -1 else 0, d1)
  }"

text \<open>
  \<open>cl_serialno_get\<close> returns the block, the address of the entry when it stores one, and the disk: an
  entry whose checksum is wrong is marked dirty on the way.
\<close>

definition get_body :: "u32 \<Rightarrow> byte \<Rightarrow> byte list \<Rightarrow> nat \<Rightarrow> cl_list \<Rightarrow> unit \<Rightarrow> flash
    \<Rightarrow> (((nat \<times> nat option) \<times> flash) + (cl_list \<times> unit \<times> flash)) option" where
  "get_body serialno status bs dev_addr l s d =
    (let item = bytes_snitem bs
     in if sn_validate_checksum item = 0 then
          Some (if sn_status item = status \<and> sn_serialno item = serialno
                then Inl ((sn_block item, Some dev_addr), d) else Inr (l, s, d))
        else if sn_status item \<noteq> CAFS_SNLIST_ITEM_STATUS_DIRTY then do {
          (r, d1) \<leftarrow> cl_serialno_setstatus dev_addr CAFS_SNLIST_ITEM_STATUS_DIRTY d;
          Some (if r < 0 then Inl ((BLOCK_INVALID, None), d1) else Inr (l, s, d1))
        } else Some (Inr (l, s, d)))"

definition cl_serialno_get :: "u32 \<Rightarrow> byte \<Rightarrow> flash \<Rightarrow> (nat \<times> nat option \<times> flash) option" where
  "cl_serialno_get serialno status d =
    (let (r, l) = cl_snlist_init (list_block_of d) d
     in if r < 0 then Some (BLOCK_INVALID, None, d)
        else do {
          w \<leftarrow> while_next (get_body serialno status) l () d;
          Some (case w of Inl ((b, a), d1) \<Rightarrow> (b, a, d1) | Inr (_, _, _, _, d1) \<Rightarrow> (BLOCK_INVALID, None, d1))
        })"

definition cl_serialno_append :: "u32 \<Rightarrow> nat \<Rightarrow> byte \<Rightarrow> flash \<Rightarrow> (int \<times> nat option \<times> flash) option" where
  "cl_serialno_append serialno new_block status d =
    (let item = sn_set_checksum \<lparr>sn_status = status, sn_serialno = serialno, sn_block = new_block, sn_checksum = 0\<rparr>;
         (r, l) = cl_snlist_init (list_block_of d) d
     in if r < 0 then Some (-1, None, d)
        else cl_list_append l BLOCK_TYPE_SERIALNO_LIST (snitem_bytes item) d)"

text \<open>What follows the \<open>return sn\<close> of \<open>cl_serialno_new\<close> is never reached.\<close>

definition cl_serialno_new :: "flash \<Rightarrow> u32 \<times> flash" where
  "cl_serialno_new d =
    (let sn = cl_dev_getserialno d + 1
     in if sn = SERIALNO_INVALID then (SERIALNO_INVALID, d) else (sn, cl_dev_setserialno sn d))"

definition cl_serialno_mkfs :: "flash \<Rightarrow> (int \<times> flash) option" where
  "cl_serialno_mkfs d = do {
    (b, d1) \<leftarrow> cl_block_alloc CL_SERIALNO_LIST BLOCK_INVALID BLOCK_TYPE_SERIALNO_LIST d;
    if b = BLOCK_INVALID then Some (-1, d1)
    else do {
      (r, d2) \<leftarrow> cl_block_close b d1;
      if r < 0 then Some (-1, d2)
      else do {
        (r2, _, d3) \<leftarrow> cl_serialno_append CL_SERIALNO_LIST CL_BLOCK_LIST CAFS_SNLIST_ITEM_STATUS_CLOSED
          (cl_dev_setlist_block (int b) d2);
        Some (if r2 < 0 then -1 else 0, d3)
      }
    }
  }"

definition consolidate_list :: "flash \<Rightarrow> (int \<times> flash) option" where
  "consolidate_list d = do {
    let old = list_block_of d;
    (new_block, d1) \<leftarrow> cl_list_consolidate CL_SERIALNO_LIST old BLOCK_TYPE_SERIALNO_LIST 8
      sn_is_dirty cl_serialno_isfree d;
    if new_block = BLOCK_INVALID then Some (-1, d1)
    else do {
      (b, a, d2) \<leftarrow> cl_serialno_get CL_SERIALNO_LIST CAFS_SNLIST_ITEM_STATUS_CLOSED d1;
      case a of
        None \<Rightarrow> Some (-1, d2)
      | Some dev_addr \<Rightarrow>
          if b = BLOCK_INVALID then Some (-1, d2)
          else do {
            (r3, d3) \<leftarrow> cl_serialno_setstatus dev_addr CAFS_SNLIST_ITEM_STATUS_DISCARDING d2;
            if r3 < 0 then Some (-1, d3)
            else do {
              (r4, d4) \<leftarrow> cl_list_close new_block d3;
              if r4 < 0 then Some (-1, d4)
              else do {
                (r5, d5) \<leftarrow> cl_list_discard old d4;
                if r5 < 0 then Some (-1, d5)
                else do {
                  (r6, d6) \<leftarrow> cl_serialno_setstatus dev_addr CAFS_SNLIST_ITEM_STATUS_DIRTY d5;
                  Some (if r6 < 0 then (int BLOCK_INVALID, d6) else (0, cl_dev_setlist_block (int new_block) d6))
                }
              }
            }
          }
    }
  }"

definition cl_serialno_consolidate :: "flash \<Rightarrow> (int \<times> flash) option" where
  "cl_serialno_consolidate d = do {
    (r, d1) \<leftarrow> consolidate_list d;
    Some (if r < 0 then -1 else 0, d1)
  }"

text \<open>
  The loop of \<open>find_list_block\<close> at block \<open>65535 - n\<close>: it ends at the latest at \<open>BLOCK_INVALID\<close>, whose
  header cannot be loaded.
\<close>

fun find_list_loop :: "nat \<Rightarrow> flash \<Rightarrow> (nat \<times> flash) option" where
  "find_list_loop 0 d = Some (BLOCK_INVALID, d)"
| "find_list_loop (Suc n) d =
    (let list_block = BLOCK_INVALID - Suc n
     in case cl_block_loadhdr list_block d of
       None \<Rightarrow> Some (BLOCK_INVALID, d)
     | Some hdr \<Rightarrow>
         if (bh_status hdr = BLOCK_STATUS_OPEN \<or> bh_status hdr = BLOCK_STATUS_CLOSED)
            \<and> bh_type hdr = BLOCK_TYPE_SERIALNO_LIST then do {
           (check, _, d1) \<leftarrow> cl_serialno_get CL_SERIALNO_LIST CAFS_SNLIST_ITEM_STATUS_CLOSED
             (cl_dev_setlist_block (int list_block) d);
           if check = CL_BLOCK_LIST then
             if bh_status hdr = BLOCK_STATUS_OPEN then do {
               (r, d2) \<leftarrow> cl_list_close list_block d1;
               Some (if r < 0 then BLOCK_INVALID else list_block, d2)
             } else Some (list_block, d1)
           else do {
             (check2, a, d2) \<leftarrow> cl_serialno_get CL_SERIALNO_LIST CAFS_SNLIST_ITEM_STATUS_DISCARDING d1;
             case a of
               Some addr \<Rightarrow>
                 if check2 = CL_BLOCK_LIST then do {
                   (r, d3) \<leftarrow> cl_list_discard list_block d2;
                   if r < 0 then Some (BLOCK_INVALID, cl_dev_setlist_block (int BLOCK_INVALID) d3)
                   else do {
                     (r4, d4) \<leftarrow> cl_serialno_setstatus addr CAFS_SNLIST_ITEM_STATUS_DIRTY d3;
                     if r4 < 0 then Some (BLOCK_INVALID, d4)
                     else find_list_loop n (cl_dev_setlist_block (int BLOCK_INVALID) d4)
                   }
                 } else find_list_loop n (cl_dev_setlist_block (int BLOCK_INVALID) d2)
             | None \<Rightarrow> find_list_loop n (cl_dev_setlist_block (int BLOCK_INVALID) d2)
           }
         } else find_list_loop n d)"

definition find_list_block :: "flash \<Rightarrow> (nat \<times> flash) option" where
  "find_list_block d = find_list_loop BLOCK_INVALID d"

text \<open>
  \<open>cl_serialno_init\<close> returns 1 with the first entry that is neither closed nor dirty, or sets the next
  serial number. After consolidating it goes on with the block of the old list.
\<close>

definition max_body :: "byte list \<Rightarrow> nat \<Rightarrow> cl_list \<Rightarrow> u32 \<Rightarrow> flash
    \<Rightarrow> ((cl_snlist_item \<times> flash) + (cl_list \<times> u32 \<times> flash)) option" where
  "max_body bs addr l mx d =
    (let item = bytes_snitem bs
     in Some (if sn_status item = CAFS_SNLIST_ITEM_STATUS_CLOSED then
                Inr (l, (if sn_serialno item > mx then sn_serialno item else mx), d)
              else if sn_status item \<noteq> CAFS_SNLIST_ITEM_STATUS_FREE \<and> sn_status item \<noteq> CAFS_SNLIST_ITEM_STATUS_DIRTY
                then Inl (item, d)
              else Inr (l, mx, d)))"

definition cl_serialno_scan :: "nat \<Rightarrow> flash \<Rightarrow> (int \<times> cl_snlist_item option \<times> flash) option" where
  "cl_serialno_scan sn_list_block d =
    (let (r, l) = cl_snlist_init sn_list_block d
     in if r < 0 then Some (-1, None, d)
        else do {
          w \<leftarrow> while_next max_body l 0 d;
          Some (case w of
            Inl (bad, d1) \<Rightarrow> (1, Some bad, d1)
          | Inr (_, _, _, mx, d1) \<Rightarrow>
              (let mx1 = if mx \<le> 0 then 1 else mx;
                   sn = if mx1 + 1 = SERIALNO_INVALID then CL_SERIALNO_LIST + 1 else mx1 + 1
               in (0, None, cl_dev_setserialno sn d1)))
        })"

definition cl_serialno_init :: "flash \<Rightarrow> (int \<times> cl_snlist_item option \<times> flash) option" where
  "cl_serialno_init d =
    (if list_block_of d = BLOCK_INVALID \<or> list_block_of d = 0 then do {
       (b, d1) \<leftarrow> find_list_block d;
       if cl_dev_getlist_block d1 = int BLOCK_INVALID then Some (-1, None, d1)
       else do {
         (_, d2) \<leftarrow> cl_serialno_consolidate (cl_dev_setlist_block (int b) d1);
         cl_serialno_scan b d2
       }
     } else cl_serialno_scan (list_block_of d) d)"


subsection \<open>Entries\<close>

lemma length_snitem_bytes [simp]: "length (snitem_bytes x) = 8"
  by (simp add: snitem_bytes_def)

lemma bytes_snitem_bytes [simp]: "sn_block x < 65536 \<Longrightarrow> bytes_snitem (snitem_bytes x) = x"
proof -
  assume b: "sn_block x < 65536"
  have s: "unat (sn_serialno x) < 256 ^ 4" using unsigned_less [of "sn_serialno x"] by simp
  have "take 4 (drop 1 (snitem_bytes x)) = put_le 4 (unat (sn_serialno x))"
    "take 2 (drop 5 (snitem_bytes x)) = put_le 2 (sn_block x)" "snitem_bytes x ! 0 = sn_status x" "snitem_bytes x ! 7 = sn_checksum x"
    by (simp_all add: snitem_bytes_def nth_Cons' nth_append)
  then show ?thesis using b s by (simp add: bytes_snitem_def)
qed

lemma sn_set_checksum_simps [simp]:
  "sn_status (sn_set_checksum x) = sn_status x" "sn_serialno (sn_set_checksum x) = sn_serialno x"
  "sn_block (sn_set_checksum x) = sn_block x"
  by (simp_all add: sn_set_checksum_def)

lemma sn_validate_set [simp]: "sn_validate_checksum (sn_set_checksum x) = 0"
proof -
  have "take 6 (drop 1 (snitem_bytes (x\<lparr>sn_checksum := c\<rparr>))) = take 6 (drop 1 (snitem_bytes x))" for c
    by (simp add: snitem_bytes_def)
  then show ?thesis by (simp add: sn_validate_checksum_def sn_set_checksum_def sn_sum_def)
qed

lemma sn_validate_status [simp]: "sn_validate_checksum (x\<lparr>sn_status := s\<rparr>) = sn_validate_checksum x"
  by (simp add: sn_validate_checksum_def sn_sum_def snitem_bytes_def)

lemma isfree_erased [simp]: "cl_serialno_isfree (replicate 8 0xFF)"
  by (simp add: cl_serialno_isfree_def bytes_snitem_def)

lemma isfree_bytes [simp]: "cl_serialno_isfree (snitem_bytes x) \<longleftrightarrow> sn_status x = CAFS_SNLIST_ITEM_STATUS_FREE"
  by (simp add: cl_serialno_isfree_def bytes_snitem_def snitem_bytes_def)

lemma total_8 [simp]: "calc_total_items 8 = 14"
  by (simp add: calc_total_items_def)

lemma sn_type_valid: "list_typeisvalid (BLOCK_TYPE_SERIALNO_LIST OR BLOCK_TYPE_LINKED_LIST_FLAG)"
  by code_simp

subsection \<open>Looking up a serial number ends, whatever the disk holds\<close>

lemma item_in_device:
  assumes "prevs d b \<noteq> None" "i < 14"
  shows "get_item_addr b i 8 < fl_size d"
proof -
  have "cl_block_load b d \<noteq> None" using assms(1) by (auto simp: prevs_def)
  then have "cl_dev_read (128 * b) 128 d = (128, snd (cl_dev_read (128 * b) 128 d))"
    by (auto simp: cl_block_load_def get_cl_block_addr_def split: if_splits prod.splits)
  then have "128 * b + 128 \<le> fl_size d" by (auto simp: cl_dev_read_def Let_def split: if_splits)
  with assms(2) show ?thesis by (simp add: get_item_addr_eq)
qed

lemma prevs_item_write:
  assumes "i < 14"
  shows "prevs (d\<lparr>fl_mem := (fl_mem d)(get_item_addr b i 8 := v)\<rparr>) = prevs d"
proof
  fix c
  let ?d = "d\<lparr>fl_mem := (fl_mem d)(get_item_addr b i 8 := v)\<rparr>"
  have ne: "128 * c + 8 + j \<noteq> get_item_addr b i 8" if "j < 2" for j
  proof
    assume eq: "128 * c + 8 + j = get_item_addr b i 8"
    have "8 + j = (128 * c + (8 + j)) mod 128" using that by simp
    also have "\<dots> = (128 * b + (10 + 8 * i)) mod 128" using eq by (simp only: get_item_addr_eq add.assoc)
    also have "\<dots> = 10 + 8 * i" using assms by simp
    finally show False using that by simp
  qed
  have rd: "fst (cl_dev_read (128 * c) 128 ?d) = fst (cl_dev_read (128 * c) 128 d)"
    by (simp add: cl_dev_read_def Let_def)
  have "list_prev (bd_data (bytes_data (snd (cl_dev_read (128 * c) 128 ?d))))
      = list_prev (bd_data (bytes_data (snd (cl_dev_read (128 * c) 128 d))))"
    if "fst (cl_dev_read (128 * c) 128 d) = 128"
  proof -
    have "128 * c + 128 \<le> fl_size d" using that by (auto simp: cl_dev_read_def Let_def split: if_splits)
    moreover have "take 2 (drop 8 (map (fl_mem ?d) [128 * c ..< 128 * c + 128])) = take 2 (drop 8 (map (fl_mem d) [128 * c ..< 128 * c + 128]))"
      using ne by (auto simp: list_eq_iff_nth_eq add.assoc)
    ultimately show ?thesis by (simp add: cl_dev_read_map list_prev_def bytes_data_def)
  qed
  with rd show "prevs ?d c = prevs d c"
    by (auto simp: prevs_def cl_block_load_def get_cl_block_addr_def split: prod.splits)
qed

lemma serialno_setstatus_zero:
  assumes "addr < fl_size d"
  shows "cl_serialno_setstatus addr 0 d = Some (0, d\<lparr>fl_mem := (fl_mem d)(addr := 0)\<rparr>)"
  using assms by (simp add: cl_serialno_setstatus_def cl_dev_write_def Let_def)

lemma get_body_steady:
  assumes "prevs d b \<noteq> None" "i < ls_total l" "ls_total l = 14"
  shows "\<exists>x. get_body sn st item (get_item_addr b i 8) l s d = Some x
    \<and> (\<forall>l' s' d'. x = Inr (l', s', d') \<longrightarrow> steady l d l' d' \<and> True)"
  using assms item_in_device [of d b i] prevs_item_write [of i d b 0]
  by (auto simp: get_body_def Let_def steady_def serialno_setstatus_zero)

text \<open>
  C36: Looking up a serial number comes back on every disk, however corrupted: the check of the back
  links in \<open>list_update\<close> keeps the scan from visiting a block twice, so it cannot run in a circle, and
  the entries whose checksum is wrong can always be marked dirty.
\<close>

theorem serialno_get_returns:
  "\<exists>r. cl_serialno_get sn st d = Some r"
proof -
  obtain r l where i: "cl_snlist_init (list_block_of d) d = (r, l)" by (metis surj_pair)
  show ?thesis
  proof (cases "r < 0")
    case True
    with i show ?thesis by (simp add: cl_serialno_get_def)
  next
    case False
    have c: "cl_list_init (list_block_of d) 8 cl_serialno_isfree d = (r, l)" using i by (simp add: cl_snlist_init_def)
    have r: "0 \<le> r" using False by simp
    note lc = list_init_cursor [OF c r]
    have "\<exists>w. while_next (get_body sn st) l () d = Some w"
    proof (rule while_next_ends [where Q = "\<lambda>_. True" and t = 14 and z = 8 and k = 0])
      show "\<exists>x. get_body sn st item (get_item_addr b i 8) l s d = Some x
          \<and> (\<forall>l' s' d'. x = Inr (l', s', d') \<longrightarrow> steady l d l' d' \<and> True)"
        if "prevs d b \<noteq> None" "i < ls_total l" "ls_total l = 14" for item b i l s d
        by (rule get_body_steady [OF that])
    qed (use lc in auto)
    with i False show ?thesis by (auto simp: cl_serialno_get_def simp del: split_paired_Ex)
  qed
qed

subsection \<open>The list as a table of entries\<close>

text \<open>
  A serial number list with \<open>n\<close> entries in the blocks \<open>bs\<close>: a well-formed list whose head is the list
  block in RAM, and whose entries have a valid checksum unless they are dirty.
\<close>

definition sn_list :: "flash \<Rightarrow> nat list \<Rightarrow> nat \<Rightarrow> bool" where
  "sn_list d bs n \<longleftrightarrow> wf_list d 8 cl_serialno_isfree bs n \<and> list_block_of d = hd bs
     \<and> (\<forall>x\<in>set (contents d 8 bs n). sn_validate_checksum (bytes_snitem x) = 0
          \<or> sn_status (bytes_snitem x) = CAFS_SNLIST_ITEM_STATUS_DIRTY)"

definition sn_entries :: "flash \<Rightarrow> nat list \<Rightarrow> nat \<Rightarrow> cl_snlist_item list" where
  "sn_entries d bs n = map bytes_snitem (contents d 8 bs n)"

definition sn_matches :: "u32 \<Rightarrow> byte \<Rightarrow> cl_snlist_item \<Rightarrow> bool" where
  "sn_matches sn st e \<longleftrightarrow> sn_validate_checksum e = 0 \<and> sn_status e = st \<and> sn_serialno e = sn"

text \<open>The first valid entry with the number and the status.\<close>

definition sn_lookup :: "u32 \<Rightarrow> byte \<Rightarrow> cl_snlist_item list \<Rightarrow> nat option" where
  "sn_lookup sn st es = map_option sn_block (List.find (sn_matches sn st) es)"

lemma sn_lookup_append:
  "sn_lookup sn st (es @ [e]) = (case sn_lookup sn st es of
     None \<Rightarrow> if sn_matches sn st e then Some (sn_block e) else None | Some b \<Rightarrow> Some b)"
  by (induction es) (auto simp: sn_lookup_def)

definition get_step :: "u32 \<Rightarrow> byte \<Rightarrow> byte list \<Rightarrow> nat \<Rightarrow> unit \<Rightarrow> (nat \<times> nat option) + unit" where
  "get_step sn st x a s = (if sn_matches sn st (bytes_snitem x) then Inl (sn_block (bytes_snitem x), Some a) else Inr s)"

lemma scan_lookup:
  "case scan_items (get_step sn st) (map (\<lambda>k. (g k, h k)) ks) s of
     Inl v \<Rightarrow> (\<exists>b a. v = (b, Some a) \<and> sn_lookup sn st (map bytes_snitem (map g ks)) = Some b)
   | Inr _ \<Rightarrow> sn_lookup sn st (map bytes_snitem (map g ks)) = None"
proof (induction ks)
  case Nil
  then show ?case by (simp add: sn_lookup_def)
next
  case (Cons k ks)
  have c: "sn_lookup sn st (map bytes_snitem (map g (k # ks))) = (if sn_matches sn st (bytes_snitem (g k))
      then Some (sn_block (bytes_snitem (g k))) else sn_lookup sn st (map bytes_snitem (map g ks)))"
    by (simp add: sn_lookup_def)
  show ?case
  proof (cases "sn_matches sn st (bytes_snitem (g k))")
    case True
    then show ?thesis unfolding c by (simp add: get_step_def)
  next
    case False
    then have "scan_items (get_step sn st) (map (\<lambda>k. (g k, h k)) (k # ks)) s
        = scan_items (get_step sn st) (map (\<lambda>k. (g k, h k)) ks) s"
      by (simp add: get_step_def)
    with False Cons show ?thesis unfolding c by simp
  qed
qed

lemma serialno_get_lookup:
  assumes "geometry d" "sn_list d bs n"
  shows "\<exists>a. cl_serialno_get sn st d = Some (case sn_lookup sn st (sn_entries d bs n) of
     Some b \<Rightarrow> (b, Some a, d) | None \<Rightarrow> (BLOCK_INVALID, None, d))"
proof -
  from assms(2) have wf: "wf_list d 8 cl_serialno_isfree bs n" and lb: "list_block_of d = hd bs" by (auto simp: sn_list_def)
  have body: "get_body sn st x a l s d = Some (case get_step sn st x a s of Inl v \<Rightarrow> Inl (v, d) | Inr s' \<Rightarrow> Inr (l, s', d))"
    if "x \<in> set (contents d 8 bs n)" for x a l s
    using assms(2) that by (auto simp: sn_list_def get_body_def get_step_def sn_matches_def Let_def)
  obtain l w where lw: "cl_list_init (hd bs) 8 cl_serialno_isfree d = (0, l)" "while_next (get_body sn st) l () d = Some w"
    "scan_result d 8 (last bs) (case scan_items (get_step sn st) (map (\<lambda>k. (slot d 8 bs k, slot_addr 8 bs k)) [0 ..< n]) () of Inl v \<Rightarrow> Inl v
       | Inr s' \<Rightarrow> Inr (if n < calc_total_items 8 * length bs then Some (slot_addr 8 bs n) else None, s')) w"
    by (rule while_next_wf [OF assms(1) _ wf, where f = "get_step sn st" and body = "get_body sn st" and s = "()"])
       (use body in simp_all)
  have init: "cl_snlist_init (list_block_of d) d = (0, l)" using lw(1) lb by (simp add: cl_snlist_init_def)
  note sl = scan_lookup [where sn = sn and st = st and g = "slot d 8 bs" and h = "slot_addr 8 bs" and ks = "[0 ..< n]" and s = "()"]
  show ?thesis
  proof (cases "scan_items (get_step sn st) (map (\<lambda>k. (slot d 8 bs k, slot_addr 8 bs k)) [0 ..< n]) ()")
    case (Inl v)
    with sl obtain b a where v: "v = (b, Some a)" "sn_lookup sn st (sn_entries d bs n) = Some b"
      by (auto simp: sn_entries_def contents_def)
    with Inl lw(3) have "w = Inl ((b, Some a), d)" by (simp add: scan_result_def)
    with init lw(2) v show ?thesis by (auto simp: cl_serialno_get_def)
  next
    case (Inr u)
    with sl have "sn_lookup sn st (sn_entries d bs n) = None" by (simp add: sn_entries_def contents_def)
    with init lw(2,3) Inr show ?thesis by (auto simp: cl_serialno_get_def scan_result_def)
  qed
qed

lemma serialno_append_entries:
  assumes snd: "sound d" and ps: "per_section d \<le> 41" and sl: "sn_list d bs n" and b: "b < 65536"
    and st: "st \<noteq> CAFS_SNLIST_ITEM_STATUS_FREE" and new: "sn_lookup sn st (sn_entries d bs n) = None"
  obtains r ao d' bs' n' where "cl_serialno_append sn b st d = Some (r, ao, d')" "sound d'" "same_dev d d'" "sn_list d' bs' n'"
    "if r = 0 then sn_entries d' bs' n' = sn_entries d bs n @ [sn_set_checksum
         \<lparr>sn_status = st, sn_serialno = sn, sn_block = b, sn_checksum = 0\<rparr>]
     else r = -1 \<and> \<not> room d \<and> n = calc_total_items 8 * length bs \<and> sn_entries d' bs' n' = sn_entries d bs n"
    "\<And>c. c < cl_block_gettotal d \<Longrightarrow> live d c \<Longrightarrow> c \<notin> set bs \<Longrightarrow> blk d' c = blk d c"
    "\<exists>nbs. bs' = bs @ nbs \<and> length nbs \<le> 1 \<and> (\<forall>c\<in>set nbs. \<not> live d c) \<and> (\<forall>c<cl_block_gettotal d. c \<notin> set bs' \<longrightarrow> spared d d' c)"
    "r = 0 \<Longrightarrow> ao = Some (slot_addr 8 bs' n) \<and> n' = Suc n"
proof -
  define e where "e = sn_set_checksum \<lparr>sn_status = st, sn_serialno = sn, sn_block = b, sn_checksum = 0\<rparr>"
  have eb: "bytes_snitem (snitem_bytes e) = e" using b by (simp add: e_def)
  have m: "sn_matches sn st e" by (simp add: sn_matches_def e_def)
  from sl have wf: "wf_list d 8 cl_serialno_isfree bs n" and lb: "list_block_of d = hd bs" by (auto simp: sn_list_def)
  have fresh: "snitem_bytes e \<notin> set (contents d 8 bs n)"
  proof
    assume "snitem_bytes e \<in> set (contents d 8 bs n)"
    then have "e \<in> set (sn_entries d bs n)" using eb by (force simp: sn_entries_def)
    with m new show False by (auto simp: sn_lookup_def find_None_iff)
  qed
  obtain l r ao d' bs' n' where a: "cl_list_init (hd bs) 8 cl_serialno_isfree d = (0, l)"
    "cl_list_append l BLOCK_TYPE_SERIALNO_LIST (snitem_bytes e) d = Some (r, ao, d')"
    "appended d 8 cl_serialno_isfree bs n (snitem_bytes e) r ao d' bs' n'"
    by (rule append_refines [OF snd ps wf _ _ _ _ _ sn_type_valid, of "snitem_bytes e"]) (simp_all add: e_def st)
  have run: "cl_serialno_append sn b st d = Some (r, ao, d')"
    using a(1,2) lb by (simp add: cl_serialno_append_def cl_snlist_init_def e_def)
  have ap: "sound d'" "same_dev d d'" "wf_list d' 8 cl_serialno_isfree bs' n'" "hd bs' = hd bs"
    "if r = 0 then contents d' 8 bs' n' = contents d 8 bs n @ [snitem_bytes e]
     else r = -1 \<and> \<not> room d \<and> n = calc_total_items 8 * length bs \<and> contents d' 8 bs' n' = contents d 8 bs n"
    using a(3) fresh chain_nonempty [of d BLOCK_INVALID bs] wf by (auto simp: appended_def wf_list_def split: if_splits)
  have lb': "list_block_of d' = list_block_of d"
    using same_dev_geometry [OF ap(2)] by (simp add: list_block_of_def cl_dev_getlist_block_def)
  have sl': "sn_list d' bs' n'"
    using sl ap lb lb' m eb by (auto simp: sn_list_def sn_matches_def split: if_splits)
  have es: "if r = 0 then sn_entries d' bs' n' = sn_entries d bs n @ [e]
     else r = -1 \<and> \<not> room d \<and> n = calc_total_items 8 * length bs \<and> sn_entries d' bs' n' = sn_entries d bs n"
    using ap(5) eb by (simp add: sn_entries_def split: if_splits)
  have nbs: "\<exists>nbs. bs' = bs @ nbs \<and> length nbs \<le> 1 \<and> (\<forall>c\<in>set nbs. \<not> live d c)
      \<and> (\<forall>c<cl_block_gettotal d. c \<notin> set bs' \<longrightarrow> spared d d' c)"
    using a(3) by (auto simp: appended_def)
  have at: "r = 0 \<Longrightarrow> ao = Some (slot_addr 8 bs' n) \<and> n' = Suc n" using a(3) fresh by (simp add: appended_def)
  show thesis by (rule that [OF run ap(1,2) sl' es [unfolded e_def] appended_same [OF a(3)] nbs at])
qed

subsection \<open>An interface for tables\<close>

text \<open>
  What the rest of the file system relies on: a table of blocks by serial number and status, in which a
  new entry is found and the others stay. \<open>valid\<close> and the abstraction \<open>look\<close> are the provider's.
\<close>

locale block_table =
  fixes valid :: "'d \<Rightarrow> bool"
    and look :: "'d \<Rightarrow> 'k \<Rightarrow> nat option"
    and insert :: "'k \<Rightarrow> nat \<Rightarrow> 'd \<Rightarrow> (bool \<times> 'd) option"
  assumes insert_ok: "valid d \<Longrightarrow> look d k = None \<Longrightarrow> b < 65536 \<Longrightarrow> \<exists>r d'. insert k b d = Some (r, d') \<and> valid d'
      \<and> (if r then look d' = (look d)(k := Some b) else look d' = look d)"
begin

lemma insert_found: "valid d \<Longrightarrow> look d k = None \<Longrightarrow> b < 65536 \<Longrightarrow> insert k b d = Some (True, d') \<Longrightarrow> look d' k = Some b"
  using insert_ok [of d k b] by auto

lemma insert_other: "valid d \<Longrightarrow> look d k = None \<Longrightarrow> b < 65536 \<Longrightarrow> insert k b d = Some (r, d') \<Longrightarrow> k' \<noteq> k \<Longrightarrow> look d' k' = look d k'"
  using insert_ok [of d k b] by (auto split: if_splits)

lemma insert_both:
  assumes "valid d" "look d k = None" "look d k' = None" "k' \<noteq> k" "b < 65536" "b' < 65536"
    "insert k b d = Some (True, d1)" "insert k' b' d1 = Some (True, d2)"
  shows "look d2 k = Some b \<and> look d2 k' = Some b'"
proof -
  have d1: "valid d1" "look d1 = (look d)(k := Some b)" using insert_ok [OF assms(1,2,5)] assms(7) by auto
  have "look d1 k' = None" using d1(2) assms(3,4) by simp
  from insert_ok [OF d1(1) this assms(6)] assms(8) have "look d2 = (look d1)(k' := Some b')" by auto
  with d1(2) assms(4) show ?thesis by simp
qed

end

text \<open>
  The code provides it: the disks that carry a serial number list, \<open>cl_serialno_get\<close> and
  \<open>cl_serialno_append\<close>. A block number of \<open>0xFFFF\<close> in an entry cannot be told from no entry, and the
  status FREE cannot be stored.
\<close>

definition sn_valid :: "flash \<Rightarrow> bool" where
  "sn_valid d \<longleftrightarrow> sound d \<and> per_section d \<le> 41 \<and> (\<exists>bs n. sn_list d bs n)"

definition sn_look :: "flash \<Rightarrow> (u32 \<times> byte) \<Rightarrow> nat option" where
  "sn_look d k = (if snd k = CAFS_SNLIST_ITEM_STATUS_FREE then None
     else case cl_serialno_get (fst k) (snd k) d of Some (b, Some _, _) \<Rightarrow> Some b | _ \<Rightarrow> None)"

definition sn_insert :: "(u32 \<times> byte) \<Rightarrow> nat \<Rightarrow> flash \<Rightarrow> (bool \<times> flash) option" where
  "sn_insert k b d = (if snd k = CAFS_SNLIST_ITEM_STATUS_FREE then Some (False, d)
     else do { (r, _, d') \<leftarrow> cl_serialno_append (fst k) b (snd k) d; Some (r = 0, d') })"

lemma sn_look_lookup:
  "geometry d \<Longrightarrow> sn_list d bs n \<Longrightarrow> st \<noteq> CAFS_SNLIST_ITEM_STATUS_FREE \<Longrightarrow> sn_look d (sn, st) = sn_lookup sn st (sn_entries d bs n)"
  using serialno_get_lookup [of d bs n sn st] by (auto simp: sn_look_def split: option.splits)

lemma sn_insert_ok:
  assumes v: "sn_valid d" and new: "sn_look d k = None" and b: "b < 65536"
  shows "\<exists>r d'. sn_insert k b d = Some (r, d') \<and> sn_valid d' \<and> (if r then sn_look d' = (sn_look d)(k := Some b) else sn_look d' = sn_look d)"
proof (cases "snd k = CAFS_SNLIST_ITEM_STATUS_FREE")
  case True
  then show ?thesis using v by (intro exI [of _ False] exI [of _ d]) (simp add: sn_insert_def)
next
  case False
  obtain sn st where k: "k = (sn, st)" by (cases k)
  from v obtain bs n where d: "sound d" "per_section d \<le> 41" "sn_list d bs n" by (auto simp: sn_valid_def)
  have geo: "geometry d" using d(1) by (simp add: sound_def)
  have st: "st \<noteq> CAFS_SNLIST_ITEM_STATUS_FREE" using False k by simp
  have "sn_lookup sn st (sn_entries d bs n) = None" using new sn_look_lookup [OF geo d(3) st] k by simp
  then obtain r ao d' bs' n' where
    a: "cl_serialno_append sn b st d = Some (r, ao, d')" "sound d'" "same_dev d d'" "sn_list d' bs' n'"
      "if r = 0 then sn_entries d' bs' n' = sn_entries d bs n @ [sn_set_checksum
           \<lparr>sn_status = st, sn_serialno = sn, sn_block = b, sn_checksum = 0\<rparr>]
       else r = -1 \<and> \<not> room d \<and> n = calc_total_items 8 * length bs \<and> sn_entries d' bs' n' = sn_entries d bs n"
    using serialno_append_entries [OF d b st, of sn thesis] by simp
  have geo': "geometry d'" and v': "sn_valid d'"
    using a(2-4) d(2) same_dev_geometry [OF a(3)] by (auto simp: sn_valid_def sound_def)
  have free: "sn_look e (sn', CAFS_SNLIST_ITEM_STATUS_FREE) = None" for e sn' by (simp add: sn_look_def)
  have "sn_look d' k' = (if r = 0 then (sn_look d)(k := Some b) else sn_look d) k'" for k'
  proof (cases "snd k' = CAFS_SNLIST_ITEM_STATUS_FREE")
    case True
    then show ?thesis using free st k by (cases k') auto
  next
    case False
    obtain sn' st' where k': "k' = (sn', st')" by (cases k')
    have l: "sn_look d' k' = sn_lookup sn' st' (sn_entries d' bs' n')" "sn_look d k' = sn_lookup sn' st' (sn_entries d bs n)"
      using sn_look_lookup [OF geo' a(4)] sn_look_lookup [OF geo d(3)] False k' by auto
    show ?thesis
    proof (cases "r = 0")
      case True
      then show ?thesis using a(5) l k k' new
        by (auto simp: sn_lookup_append sn_matches_def split: option.splits)
    next
      case False
      then show ?thesis using a(5) l by simp
    qed
  qed
  then show ?thesis using a(1) v' False k by (auto simp: sn_insert_def fun_eq_iff)
qed

interpretation sn_table: block_table sn_valid sn_look sn_insert
  by unfold_locales (rule sn_insert_ok)


subsection \<open>Formatting\<close>

lemma setlist_block_simps [simp]:
  "blk (cl_dev_setlist_block x d) b = blk d b" "cl_block_gettotal (cl_dev_setlist_block x d) = cl_block_gettotal d"
  "geometry (cl_dev_setlist_block x d) = geometry d" "per_section (cl_dev_setlist_block x d) = per_section d"
  "get (cl_dev_setlist_block x d) c = get d c" "status_of (cl_dev_setlist_block x d) b = status_of d b"
  by (simp_all add: cl_dev_setlist_block_def blk_def cl_block_gettotal_def cl_dev_getsize_def cl_dev_geterasesize_def
      geometry_def per_section_def get_def status_of_def)

lemma setlist_block_sound [simp]: "sound (cl_dev_setlist_block x d) = sound d"
  by (simp add: sound_def clean_def idle_def free_from_def erased_blk)

lemma list_block_setlist [simp]: "b < 65536 \<Longrightarrow> list_block_of (cl_dev_setlist_block (int b) d) = b"
  by (simp add: list_block_of_def cl_dev_setlist_block_def cl_dev_getlist_block_def)

definition erased_device :: "flash \<Rightarrow> flash" where
  "erased_device d = snd (cl_dev_erase d)"

lemma erased_device_facts:
  assumes "geometry d"
  shows "geometry (erased_device d)" "cl_block_gettotal (erased_device d) = cl_block_gettotal d"
    "per_section (erased_device d) = per_section d"
    "b < all_blocks d \<Longrightarrow> erased (erased_device d) b" "sound (erased_device d)"
proof -
  let ?d = "erased_device d"
  have dev: "same_dev d ?d" by (simp add: same_dev_def erased_device_def cl_dev_erase_def)
  note g = same_dev_geometry [OF dev]
  show geo: "geometry ?d" "cl_block_gettotal ?d = cl_block_gettotal d" "per_section ?d = per_section d"
    using assms g by simp_all
  have mem: "fl_mem ?d a = 0xFF" if "a < fl_size d" for a using that by (simp add: erased_device_def cl_dev_erase_def)
  show er: "erased ?d b" if "b < all_blocks d" for b
    using block_in_size [OF that] mem by (auto simp: erased_def)
  have cell: "get ?d c = replicate (cell_len c) 0xFF" if "cell_ok (cl_block_gettotal d) c" for c
    using cell_fits [OF assms that] mem by (auto simp: get_def Let_def geo list_eq_iff_nth_eq)
  have "clean ?d" using er gettotal_less [OF assms] by (auto simp: clean_def geo)
  moreover have "idle ?d 0" using cell by (auto simp: idle_def free_from_def)
  ultimately show "sound ?d" using geo(1) by (auto simp: sound_def)
qed

lemma alloc_first_block:
  assumes "geometry d" "erased d 1"
  shows "alloc_block sn BLOCK_INVALID ty d = Some (1, marked d 1 sn ty)"
proof -
  have T: "1 < cl_block_gettotal d" "0 < per_section d" using total_gt_1 [OF assms(1)] geometry_pos [OF assms(1)] by auto
  have st: "status_of d 1 = BLOCK_STATUS_FREE" using assms(2) by (simp add: erased_def status_of_def)
  have starts: "section_starts 1 (cl_block_gettotal d) (per_section d)
      = 1 # section_starts (1 + per_section d) (cl_block_gettotal d) (per_section d)"
    using T by (subst section_starts.simps) simp
  have own: "\<not> held_by_other d sn 1" using st by (simp add: held_by_other_def)
  have "[1 ..< 1 + per_section d] = 1 # [Suc 1 ..< 1 + per_section d]" using T by (intro upt_conv_Cons) simp
  then obtain xs where sc: "section_candidates d sn 1 = 1 # xs"
    using own by (auto simp only: section_candidates_def takeWhile.simps not_False_eq_True if_True)
  have c: "candidates d sn BLOCK_INVALID = concat (map (section_candidates d sn)
      (section_starts 1 (cl_block_gettotal d) (per_section d))) @ [1 ..< cl_block_gettotal d]"
    by (simp add: candidates_def Let_def)
  have cc: "concat (map (section_candidates d sn) (section_starts 1 (cl_block_gettotal d) (per_section d)))
      = 1 # (xs @ concat (map (section_candidates d sn) (section_starts (1 + per_section d) (cl_block_gettotal d) (per_section d))))"
    by (simp only: starts list.map concat.simps sc append_Cons)
  have "first_free d (candidates d sn BLOCK_INVALID) = Some 1"
    unfolding c cc using st by (simp add: first_free_def)
  moreover have "1 < all_blocks d" using T gettotal_less [OF assms(1)] by simp
  ultimately show ?thesis
    using assms by (simp add: alloc_block_candidates take_block_def mark_allocated_erased to_block_def)
qed

lemma mkfs_first_block:
  assumes geo: "geometry d" and e: "erased d 1"
  shows "cl_block_close 1 (marked d 1 0 BLOCK_TYPE_SERIALNO_LIST)
    = Some (1, set_cell (Blk 1) (new_list_block 0 BLOCK_TYPE_SERIALNO_LIST BLOCK_STATUS_CLOSED BLOCK_INVALID)
        (marked d 1 0 BLOCK_TYPE_SERIALNO_LIST))"
proof -
  let ?m = "marked d 1 0 BLOCK_TYPE_SERIALNO_LIST"
  have T: "1 < cl_block_gettotal ?m" using total_gt_1 [OF geo] by simp
  have inv: "put_le 2 65535 = [0xFF, 0xFF]"
  proof -
    have "put_le 2 65535 = put_le (Suc (Suc 0)) 65535" by (simp only: numeral_2_eq_2)
    then show ?thesis by simp
  qed
  have r: "drop 6 (replicate 128 (0xFF :: byte)) = [0xFF, 0xFF] @ [0xFF, 0xFF] @ replicate 118 0xFF"
    using replicate_add [of 2 "120" "0xFF :: byte"] replicate_add [of 2 "118" "0xFF :: byte"]
    by (simp add: numeral_2_eq_2)
  have b: "blk ?m 1 = (put_le 4 0 @ [BLOCK_TYPE_SERIALNO_LIST]) @ [BLOCK_STATUS_OPEN] @ ([0xFF, 0xFF] @ [0xFF, 0xFF] @ replicate 118 0xFF)"
    using e r by (simp add: blk_marked hdr_bytes_def erased_blk)
  have ov: "overlay 5 [BLOCK_STATUS_CLOSED] (blk ?m 1) = new_list_block 0 BLOCK_TYPE_SERIALNO_LIST BLOCK_STATUS_CLOSED BLOCK_INVALID"
    unfolding b using overlay_mid [of "[BLOCK_STATUS_OPEN]" "[BLOCK_STATUS_CLOSED]" "put_le 4 0 @ [BLOCK_TYPE_SERIALNO_LIST]"]
    by (simp add: new_list_block_def inv)
  have "over [BLOCK_STATUS_CLOSED] (take 1 (drop 5 (blk ?m 1)))"
    unfolding b using overwrites_close by (simp add: over_def)
  with write_in_block [of ?m 1 5 "[BLOCK_STATUS_CLOSED]"] T ov geo show ?thesis
    by (simp add: cl_block_close_def cl_block_setstatus_def get_cl_block_addr_def)
qed

lemma new_list_wf:
  assumes "geometry d" "b < cl_block_gettotal d" "blk d b = new_list_block sn BLOCK_TYPE_SERIALNO_LIST BLOCK_STATUS_CLOSED BLOCK_INVALID"
  shows "wf_list d 8 cl_serialno_isfree [b] 0"
proof -
  note nf = new_list_block_fields [of BLOCK_INVALID sn BLOCK_TYPE_SERIALNO_LIST BLOCK_STATUS_CLOSED]
  have "list_typeisvalid BLOCK_TYPE_SERIALNO_LIST" by code_simp
  then have "chain d BLOCK_INVALID [b]" using assms nf by (simp add: data_of_def type_blk)
  moreover have "live d b" using assms nf by (simp add: live_def status_blk)
  moreover have "slot d 8 [b] k = replicate 8 0xFF" if "k < 14" for k
  proof -
    have "slot d 8 [b] k = take 8 (drop (8 * k) (drop 10 (blk d b)))"
      using that by (simp add: slot_def get_item_def data_of_def add.commute)
    also have "\<dots> = replicate 8 0xFF" using that nf(6) by (simp add: assms(3) min_def)
    finally show ?thesis .
  qed
  ultimately show ?thesis by (simp add: wf_list_def)
qed

lemma mkfs_effect:
  assumes geo: "geometry d" and ps: "per_section d \<le> 41"
  obtains d' bs where "cl_serialno_mkfs (erased_device d) = Some (0, d')" "sound d'" "per_section d' \<le> 41"
    "sn_list d' bs 1" "list_block_of d' = 1"
    "sn_entries d' bs 1 = [sn_set_checksum
       \<lparr>sn_status = CAFS_SNLIST_ITEM_STATUS_CLOSED, sn_serialno = 0, sn_block = CL_BLOCK_LIST, sn_checksum = 0\<rparr>]"
proof -
  let ?d0 = "erased_device d"
  note e0 = erased_device_facts [OF geo]
  define B where "B = new_list_block 0 BLOCK_TYPE_SERIALNO_LIST BLOCK_STATUS_CLOSED BLOCK_INVALID"
  define d1 where "d1 = marked ?d0 1 0 BLOCK_TYPE_SERIALNO_LIST"
  define d2 where "d2 = set_cell (Blk 1) B d1"
  define d3 where "d3 = cl_dev_setlist_block (int 1) d2"
  have T: "1 < cl_block_gettotal d" "2 < cl_block_gettotal d"
  proof -
    obtain k where k: "cl_block_gettotal d = k * per_section d" "0 < k" using geo by (rule geometry_sections)
    then have "per_section d \<le> cl_block_gettotal d" by (cases k) auto
    with per_section_ge [OF geo] show "1 < cl_block_gettotal d" "2 < cl_block_gettotal d" by auto
  qed
  have er: "erased ?d0 1" "erased ?d0 2" using e0(4) T gettotal_less [OF geo] by auto
  have al: "alloc_block 0 BLOCK_INVALID BLOCK_TYPE_SERIALNO_LIST ?d0 = Some (1, d1)"
    unfolding d1_def by (rule alloc_first_block [OF e0(1) er(1)])
  have ca: "cl_block_alloc 0 BLOCK_INVALID BLOCK_TYPE_SERIALNO_LIST ?d0 = Some (1, d1)"
    using al by (simp add: cl_block_alloc_def)
  have cl: "cl_block_close 1 d1 = Some (1, d2)"
    unfolding d1_def d2_def B_def by (rule mkfs_first_block [OF e0(1) er(1)])
  have lB: "length B = 128" "B ! 5 = BLOCK_STATUS_CLOSED" by (simp_all add: B_def new_list_block_fields)
  have t1: "cl_block_gettotal d1 = cl_block_gettotal d" using e0(2) by (simp add: d1_def)
  obtain n where n: "idle ?d0 n" "clean ?d0" using e0(5) by (auto simp: sound_def)
  have "idle d1 n" unfolding d1_def by (rule idle_marked [OF n(1)]) (use T e0(2) in simp)
  moreover have "clean d1" unfolding d1_def by (rule clean_marked [OF n(2)])
  ultimately have s1: "sound d1" using e0(1) by (auto simp: sound_def d1_def)
  have s2: "sound d2" unfolding d2_def by (rule sound_set_blk [OF s1]) (use T t1 lB in simp_all)
  have t3: "cl_block_gettotal d3 = cl_block_gettotal d" "per_section d3 = per_section d" "geometry d3"
    using t1 e0(1-3) by (simp_all add: d3_def d2_def d1_def)
  have b3: "blk d3 1 = B" using T t1 lB by (simp add: d3_def d2_def blk_set_blk)
  have s3: "sound d3" using s2 by (simp add: d3_def)
  have l3: "list_block_of d3 = 1" unfolding d3_def by (rule list_block_setlist) simp
  have w3: "wf_list d3 8 cl_serialno_isfree [1] 0"
    by (rule new_list_wf [OF t3(3)]) (use T t3 b3 in \<open>simp_all add: B_def\<close>)
  have sl3: "sn_list d3 [1] 0" using w3 l3 by (simp add: sn_list_def contents_def)
  have "status_of d3 2 = BLOCK_STATUS_FREE"
  proof -
    have "blk d3 2 = blk ?d0 2" using T t1 lB by (simp add: d3_def d2_def blk_set_blk) (simp add: d1_def blk_marked)
    with er(2) show ?thesis by (simp add: status_blk erased_blk)
  qed
  then have room: "room d3" using T t3 by (intro room_free [of 2]) simp_all
  have none: "sn_lookup 0 CAFS_SNLIST_ITEM_STATUS_CLOSED (sn_entries d3 [1] 0) = None"
    by (simp add: sn_entries_def contents_def sn_lookup_def)
  have ps3: "per_section d3 \<le> 41" using ps t3 by simp
  show thesis
  proof (rule serialno_append_entries [OF s3 ps3 sl3 _ _ none, of CL_BLOCK_LIST])
    fix r ao d' bs' n'
    assume a: "cl_serialno_append 0 CL_BLOCK_LIST CAFS_SNLIST_ITEM_STATUS_CLOSED d3 = Some (r, ao, d')" "sound d'"
      "same_dev d3 d'" "sn_list d' bs' n'"
      and e: "if r = 0 then sn_entries d' bs' n' = sn_entries d3 [1] 0 @ [sn_set_checksum
         \<lparr>sn_status = CAFS_SNLIST_ITEM_STATUS_CLOSED, sn_serialno = 0, sn_block = CL_BLOCK_LIST, sn_checksum = 0\<rparr>]
       else r = -1 \<and> \<not> room d3 \<and> 0 = calc_total_items 8 * length [1 :: nat] \<and> sn_entries d' bs' n' = sn_entries d3 [1] 0"
    have r: "r = 0" using e room by (auto split: if_splits)
    with e have ent: "sn_entries d' bs' n' = [sn_set_checksum
         \<lparr>sn_status = CAFS_SNLIST_ITEM_STATUS_CLOSED, sn_serialno = 0, sn_block = CL_BLOCK_LIST, sn_checksum = 0\<rparr>]"
      by (simp add: sn_entries_def contents_def)
    then have "length (sn_entries d' bs' n') = 1" by simp
    then have n': "n' = 1" by (simp add: sn_entries_def contents_def)
    have run: "cl_serialno_mkfs ?d0 = Some (0, d')"
    proof -
      have "cl_dev_setlist_block 1 d2 = d3" by (simp add: d3_def)
      then show ?thesis using ca cl a(1) r by (simp add: cl_serialno_mkfs_def)
    qed
    note g = same_dev_geometry [OF a(3)]
    show thesis
      by (rule that [OF run a(2), of bs'])
         (use a(4) ent n' g ps t3 l3 in \<open>simp_all add: list_block_of_def cl_dev_getlist_block_def\<close>)
  qed simp_all
qed

text \<open>
  Formatting an erased disk leaves an empty file system: the serial number list starts in block 1,
  holds its own entry and nothing else, and the disk is sound.
\<close>

theorem mkfs_formats:
  assumes "geometry d" "per_section d \<le> 41"
  shows "\<exists>d'. cl_serialno_mkfs (erased_device d) = Some (0, d') \<and> sn_valid d' \<and> list_block_of d' = 1
    \<and> sn_look d' = [(CL_SERIALNO_LIST, CAFS_SNLIST_ITEM_STATUS_CLOSED) \<mapsto> CL_BLOCK_LIST]"
proof (rule mkfs_effect [OF assms])
  fix d' bs
  assume m: "cl_serialno_mkfs (erased_device d) = Some (0, d')" "sound d'" "per_section d' \<le> 41" "sn_list d' bs 1"
    "list_block_of d' = 1" and e: "sn_entries d' bs 1 = [sn_set_checksum
       \<lparr>sn_status = CAFS_SNLIST_ITEM_STATUS_CLOSED, sn_serialno = 0, sn_block = CL_BLOCK_LIST, sn_checksum = 0\<rparr>]"
  have geo: "geometry d'" using m(2) by (simp add: sound_def)
  have "sn_look d' (sn, st) = (if sn = 0 \<and> st = CAFS_SNLIST_ITEM_STATUS_CLOSED then Some CL_BLOCK_LIST else None)" for sn st
  proof (cases "st = CAFS_SNLIST_ITEM_STATUS_FREE")
    case True
    then show ?thesis by (simp add: sn_look_def)
  next
    case False
    with sn_look_lookup [OF geo m(4)] e show ?thesis by (auto simp: sn_lookup_def sn_matches_def)
  qed
  then have "sn_look d' = [(CL_SERIALNO_LIST, CAFS_SNLIST_ITEM_STATUS_CLOSED) \<mapsto> CL_BLOCK_LIST]"
    by (auto simp: fun_eq_iff)
  with m show ?thesis by (auto simp: sn_valid_def)
qed

theorem mkfs_formats_witness:
  "\<exists>d'. cl_serialno_mkfs (erased_device dirty_disk) = Some (0, d') \<and> list_block_of d' = 1"
  using mkfs_formats [of dirty_disk] by auto

text \<open>Every slot of every block of the list holds an entry.\<close>

definition sn_full :: "flash \<Rightarrow> bool" where
  "sn_full d \<longleftrightarrow> (\<exists>bs n. sn_list d bs n \<and> n = calc_total_items 8 * length bs)"

text \<open>
  C35: The serial number list is a table. An entry appended for a number and status that the list does not
  hold is found afterwards, with its block, and every other number and status is found as before; when
  the append fails, every slot of the list's blocks is taken, no block can be had even by erasing, and every
  number and status is found as before.
\<close>

theorem serialno_append_then_get:
  assumes "sn_valid d" "sn_look d (sn, st) = None" "st \<noteq> CAFS_SNLIST_ITEM_STATUS_FREE" "b < 65536"
  shows "\<exists>r ao d'. cl_serialno_append sn b st d = Some (r, ao, d') \<and> sn_valid d' \<and>
    (if r = 0 then (\<exists>a. cl_serialno_get sn st d' = Some (b, Some a, d')) \<and> (\<forall>k. k \<noteq> (sn, st) \<longrightarrow> sn_look d' k = sn_look d k)
     else r = -1 \<and> \<not> room d \<and> sn_full d \<and> sn_look d' = sn_look d)"
proof -
  from assms(1) obtain bs n where d: "sound d" "per_section d \<le> 41" "sn_list d bs n" by (auto simp: sn_valid_def)
  have geo: "geometry d" using d(1) by (simp add: sound_def)
  have new: "sn_lookup sn st (sn_entries d bs n) = None" using assms(2) sn_look_lookup [OF geo d(3) assms(3)] by simp
  show ?thesis
  proof (rule serialno_append_entries [OF d assms(4,3) new])
    fix r ao d' bs' n'
    assume a: "cl_serialno_append sn b st d = Some (r, ao, d')" "sound d'" "same_dev d d'" "sn_list d' bs' n'"
      and e: "if r = 0 then sn_entries d' bs' n' = sn_entries d bs n @ [sn_set_checksum
         \<lparr>sn_status = st, sn_serialno = sn, sn_block = b, sn_checksum = 0\<rparr>]
       else r = -1 \<and> \<not> room d \<and> n = calc_total_items 8 * length bs \<and> sn_entries d' bs' n' = sn_entries d bs n"
    have ins: "sn_insert (sn, st) b d = Some (r = 0, d')" using a(1) assms(3) by (simp add: sn_insert_def)
    from sn_table.insert_ok [OF assms(1,2,4)] ins have
      v: "sn_valid d'" "if r = 0 then sn_look d' = (sn_look d)((sn, st) := Some b) else sn_look d' = sn_look d" by auto
    have geo': "geometry d'" using a(2) by (simp add: sound_def)
    have "\<exists>a. cl_serialno_get sn st d' = Some (b, Some a, d')" if "r = 0"
      using serialno_get_lookup [OF geo' a(4), of sn st] e that new
      by (auto simp: sn_lookup_append sn_matches_def)
    moreover have "sn_full d" if "r \<noteq> 0" using e d(3) that by (auto simp: sn_full_def)
    ultimately show ?thesis using a(1) v e by auto
  qed
qed

theorem serialno_append_then_get_witness:
  "\<exists>d r ao d'. cl_serialno_mkfs (erased_device blank_disk) = Some (0, d)
     \<and> cl_serialno_append 7 3 CAFS_SNLIST_ITEM_STATUS_OPEN d = Some (r, ao, d')
     \<and> (r = 0 \<longrightarrow> (\<exists>a. cl_serialno_get 7 CAFS_SNLIST_ITEM_STATUS_OPEN d' = Some (3, Some a, d')))"
proof -
  obtain d bs where
    d: "cl_serialno_mkfs (erased_device blank_disk) = Some (0, d)" "sound d" "per_section d \<le> 41" "sn_list d bs 1"
      "sn_entries d bs 1 = [sn_set_checksum
       \<lparr>sn_status = CAFS_SNLIST_ITEM_STATUS_CLOSED, sn_serialno = 0, sn_block = CL_BLOCK_LIST, sn_checksum = 0\<rparr>]"
    by (rule mkfs_effect [of blank_disk], simp, simp, rule that, assumption+)
  have "sn_look d (7, CAFS_SNLIST_ITEM_STATUS_OPEN) = None"
    using sn_look_lookup [OF _ d(4), of CAFS_SNLIST_ITEM_STATUS_OPEN 7] d(2,5) by (simp add: sound_def sn_lookup_def sn_matches_def)
  moreover have "sn_valid d" using d by (auto simp: sn_valid_def)
  ultimately show ?thesis
    using serialno_append_then_get [of d 7 CAFS_SNLIST_ITEM_STATUS_OPEN 3] d(1) by (auto split: if_splits)
qed

end
