(* ===== verification/CafsFilelist.thy ===== *)
theory CafsFilelist
  imports CafsSerial
begin

section \<open>The list of a file's blocks (cafs_lite_filelist.c)\<close>

text \<open>
  A file is cut into segments of 122 bytes, each in a block of its own; the file list maps the number
  of a segment to its block. A segment that is written again gets a new block and a new entry, and the
  old entry becomes obsolete; when the file is closed the block of an obsolete entry is discarded and
  the entry marked dirty.
\<close>

abbreviation CAFS_FILELIST_STATUS_FREE :: byte where "CAFS_FILELIST_STATUS_FREE \<equiv> 0xFF"
abbreviation CAFS_FILELIST_STATUS_CURRENT :: byte where "CAFS_FILELIST_STATUS_CURRENT \<equiv> 0xFE"
abbreviation CAFS_FILELIST_STATUS_OBSOLETE :: byte where "CAFS_FILELIST_STATUS_OBSOLETE \<equiv> 0xFC"
abbreviation CAFS_FILELIST_STATUS_DIRTY :: byte where "CAFS_FILELIST_STATUS_DIRTY \<equiv> 0x00"

record cl_filelist_item =
  fi_status :: byte
  fi_resd :: byte
  fi_block :: nat
  fi_segment :: u32

definition filelist_item_bytes :: "cl_filelist_item \<Rightarrow> byte list" where
  "filelist_item_bytes x = [fi_status x, fi_resd x] @ put_le 2 (fi_block x) @ put_le 4 (unat (fi_segment x))"

definition bytes_filelist_item :: "byte list \<Rightarrow> cl_filelist_item" where
  "bytes_filelist_item bs = \<lparr>fi_status = bs ! 0, fi_resd = bs ! 1, fi_block = get_le (take 2 (drop 2 bs)),
     fi_segment = of_nat (get_le (take 4 (drop 4 bs)))\<rparr>"

definition cl_filelist_isfree :: "byte list \<Rightarrow> bool" where
  "cl_filelist_isfree bs \<longleftrightarrow> fi_status (bytes_filelist_item bs) = CAFS_FILELIST_STATUS_FREE"

definition fl_is_dirty :: "byte list \<Rightarrow> bool" where
  "fl_is_dirty bs \<longleftrightarrow> fi_status (bytes_filelist_item bs) = CAFS_FILELIST_STATUS_DIRTY"

definition cl_filelist_init :: "nat \<Rightarrow> flash \<Rightarrow> int \<times> cl_list" where
  "cl_filelist_init list_block d = cl_list_init list_block 8 cl_filelist_isfree d"

definition cl_filelist_setstatus :: "byte \<Rightarrow> nat \<Rightarrow> flash \<Rightarrow> (int \<times> flash) option" where
  "cl_filelist_setstatus status addr d = do {
    (r, d1) \<leftarrow> cl_dev_write addr [status] d;
    Some (if r \<noteq> 1 then -1 else 0, d1)
  }"

text \<open>The segment, an \<open>int\<close>, is compared with the \<open>serial_t\<close> of the item.\<close>

definition filelist_get_body :: "int \<Rightarrow> byte \<Rightarrow> byte list \<Rightarrow> nat \<Rightarrow> cl_list \<Rightarrow> unit \<Rightarrow> flash
    \<Rightarrow> (((nat \<times> nat) \<times> flash) + (cl_list \<times> unit \<times> flash)) option" where
  "filelist_get_body segment status bs addr l s d =
    (let item = bytes_filelist_item bs
     in Some (if fi_status item = status \<and> fi_segment item = of_int segment
              then Inl ((fi_block item, addr), d) else Inr (l, s, d)))"

text \<open>The block, and the address of its entry when one is found.\<close>

definition cl_filelist_get :: "nat \<Rightarrow> int \<Rightarrow> byte \<Rightarrow> flash \<Rightarrow> (nat \<times> nat option) option" where
  "cl_filelist_get list_block segment status d =
    (let (r, l) = cl_filelist_init list_block d
     in if r < 0 then Some (BLOCK_INVALID, None)
        else do {
          w \<leftarrow> while_next (filelist_get_body segment status) l () d;
          Some (case w of Inl ((b, a), _) \<Rightarrow> (b, Some a) | Inr _ \<Rightarrow> (BLOCK_INVALID, None))
        })"

definition makeobsolete_body :: "byte list \<Rightarrow> nat \<Rightarrow> cl_list \<Rightarrow> unit \<Rightarrow> flash
    \<Rightarrow> ((int \<times> flash) + (cl_list \<times> unit \<times> flash)) option" where
  "makeobsolete_body bs addr l s d =
    (if fi_status (bytes_filelist_item bs) = CAFS_FILELIST_STATUS_CURRENT then do {
       (r, d1) \<leftarrow> cl_filelist_setstatus CAFS_FILELIST_STATUS_OBSOLETE addr d;
       Some (if r < 0 then Inl (-1, d1) else Inr (l, s, d1))
     } else Some (Inr (l, s, d)))"

text \<open>A list that cannot be read makes it return \<open>BLOCK_INVALID\<close>, which is not negative.\<close>

definition cl_filelist_makeobsolete :: "nat \<Rightarrow> flash \<Rightarrow> (int \<times> flash) option" where
  "cl_filelist_makeobsolete list_block d =
    (let (r, l) = cl_filelist_init list_block d
     in if r < 0 then Some (int BLOCK_INVALID, d)
        else do {
          w \<leftarrow> while_next makeobsolete_body l () d;
          Some (case w of Inl v \<Rightarrow> v | Inr (_, _, _, _, d1) \<Rightarrow> (0, d1))
        })"

text \<open>
  The first loop of \<open>cl_filelist_update\<close> leaves at the entry to strike with its address, the item and
  the cursor. The new item keeps the \<open>resd\<close> byte of the last item that was read (0 here where none was
  read and the code stores what the variable happens to hold; nothing reads it). A call of
  \<open>cl_list_getnext\<close> that fails after reading an item has stored it.
\<close>

definition strike_body :: "u32 \<Rightarrow> byte list \<Rightarrow> nat \<Rightarrow> cl_list \<Rightarrow> byte list \<Rightarrow> flash
    \<Rightarrow> (((byte list \<times> nat \<times> cl_list) \<times> flash) + (cl_list \<times> byte list \<times> flash)) option" where
  "strike_body segment bs addr l s d =
    (let item = bytes_filelist_item bs
     in Some (if fi_segment item = segment \<and> fi_status item = CAFS_FILELIST_STATUS_CURRENT
              then Inl ((bs, addr, l), d) else Inr (l, bs, d)))"

definition find_strike :: "u32 \<Rightarrow> cl_list \<Rightarrow> flash \<Rightarrow> (byte list \<times> nat option \<times> cl_list) option" where
  "find_strike segment l d = do {
    w \<leftarrow> while_next (strike_body segment) l (replicate 8 0) d;
    Some (case w of
      Inl ((bs, addr, l1), _) \<Rightarrow> (bs, Some addr, l1)
    | Inr (_, l1, out, s, _) \<Rightarrow> ((case out of Some (bs, _) \<Rightarrow> bs | None \<Rightarrow> s), None, l1))
  }"

definition cl_filelist_update :: "nat \<Rightarrow> u32 \<Rightarrow> nat \<Rightarrow> flash \<Rightarrow> (int \<times> flash) option" where
  "cl_filelist_update list_block segment new_block d =
    (let (r, l) = cl_filelist_init list_block d
     in if r < 0 then Some (-1, d)
        else do {
          (bs, strike_addr, l1) \<leftarrow> find_strike segment l d;
          (r1, _, d1) \<leftarrow> cl_list_append l1 BLOCK_TYPE_FILE_LIST
            (filelist_item_bytes ((bytes_filelist_item bs)\<lparr>fi_status := CAFS_FILELIST_STATUS_CURRENT,
               fi_block := new_block, fi_segment := segment\<rparr>)) d;
          if r1 < 0 then Some (-1, d1)
          else case strike_addr of
            None \<Rightarrow> Some (0, d1)
          | Some addr \<Rightarrow> do {
              (r2, d2) \<leftarrow> cl_filelist_setstatus CAFS_FILELIST_STATUS_OBSOLETE addr d1;
              Some (if r2 < 0 then -1 else 0, d2)
            }
        })"

definition cl_filelist_consolidate :: "u32 \<Rightarrow> nat \<Rightarrow> flash \<Rightarrow> (nat \<times> flash) option" where
  "cl_filelist_consolidate serialno list_block d =
    cl_list_consolidate serialno list_block BLOCK_TYPE_FILE_LIST 8 fl_is_dirty cl_filelist_isfree d"

end
