(* ===== verification/CafsSegments.thy ===== *)
theory CafsSegments
  imports CafsFilelist
begin

section \<open>The file list as a map from segments to blocks\<close>

subsection \<open>A scan that keeps its cursor\<close>

lemma while_next_leave:
  assumes body: "\<And>x a l s. (x, a) \<in> set (remaining d z bs i) \<Longrightarrow> \<not> fr x \<Longrightarrow>
      body x a l s d = Some (if P x then Inl ((x, a, l), d) else Inr (l, x, d))"
    and "geometry d" "0 < calc_total_items z" "chain d p bs" "distinct bs" "cursor_at d z fr l bs i"
  shows "\<exists>l' bs' i' p' pre. chain d p' bs' \<and> distinct bs' \<and> cursor_at d z fr l' bs' i' \<and> last bs' = last bs
    \<and> (\<forall>x\<in>set pre. \<not> fr (fst x) \<and> \<not> P (fst x))
    \<and> ((\<exists>x a. remaining d z bs i = pre @ (x, a) # remaining d z bs' i' \<and> \<not> fr x \<and> P x
          \<and> while_next body l s d = Some (Inl ((x, a, l'), d)))
       \<or> remaining d z bs i = pre @ remaining d z bs' i'
          \<and> (remaining d z bs' i' \<noteq> [] \<longrightarrow> fr (fst (hd (remaining d z bs' i'))))
          \<and> (\<exists>r out s'. while_next body l s d = Some (Inr (r, l', out, s', d))))"
  using assms
proof (induction "length (remaining d z bs i)" arbitrary: bs i l s p)
  case 0
  then obtain b cs where bs: "bs = b # cs" by (cases bs) auto
  have r: "remaining d z (b # cs) i = []" using "0.hyps" bs by simp
  from getnext_chain [of d p b cs z fr l i] "0.prems" r bs
  have "cl_list_getnext l d = (-1, l, None)" by auto
  then have "while_next body l s d = Some (Inr (-1, l, None, s, d))" by (subst while_next.simps) simp
  with "0.prems" r bs show ?case by (intro exI [of _ l] exI [of _ bs] exI [of _ i] exI [of _ p] exI [of _ "[]"]) auto
next
  case (Suc n)
  then obtain b cs where bs: "bs = b # cs" by (cases bs) auto
  obtain x a r where r: "remaining d z (b # cs) i = (x, a) # r" using Suc.hyps(2) bs
    by (cases "remaining d z (b # cs) i") auto
  note step = getnext_chain [of d p b cs z fr l i, unfolded r list.case prod.case]
  show ?case
  proof (cases "fr x")
    case True
    with step Suc.prems(2-) bs have "cl_list_getnext l d = (1, l, Some (x, a))" by auto
    then have "while_next body l s d = Some (Inr (1, l, Some (x, a), s, d))" by (subst while_next.simps) simp
    with Suc.prems True r bs show ?thesis
      by (intro exI [of _ l] exI [of _ bs] exI [of _ i] exI [of _ p] exI [of _ "[]"]) auto
  next
    case False
    with step Suc.prems(2-) bs obtain l1 bs1 i1 p1 where
      g: "cl_list_getnext l d = (0, l1, Some (x, a))" "chain d p1 bs1" "distinct bs1"
        "cursor_at d z fr l1 bs1 i1" "remaining d z bs1 i1 = r" "last bs1 = last (b # cs)" by auto
    have b: "body x a l1 s d = Some (if P x then Inl ((x, a, l1), d) else Inr (l1, x, d))"
      by (rule Suc.prems(1)) (use r bs False in auto)
    show ?thesis
    proof (cases "P x")
      case True
      with b g(1) have "while_next body l s d = Some (Inl ((x, a, l1), d))" by (subst while_next.simps) simp
      with g True False r bs show ?thesis
        by (intro exI [of _ l1] exI [of _ bs1] exI [of _ i1] exI [of _ p1] exI [of _ "[]"]) auto
    next
      case nP: False
      with b g(1) have run: "while_next body l s d = while_next body l1 x d" by (subst while_next.simps) simp
      have "\<exists>l' bs' i' p' pre. chain d p' bs' \<and> distinct bs' \<and> cursor_at d z fr l' bs' i' \<and> last bs' = last bs1
        \<and> (\<forall>x\<in>set pre. \<not> fr (fst x) \<and> \<not> P (fst x))
        \<and> ((\<exists>y c. remaining d z bs1 i1 = pre @ (y, c) # remaining d z bs' i' \<and> \<not> fr y \<and> P y
              \<and> while_next body l1 x d = Some (Inl ((y, c, l'), d)))
           \<or> remaining d z bs1 i1 = pre @ remaining d z bs' i'
              \<and> (remaining d z bs' i' \<noteq> [] \<longrightarrow> fr (fst (hd (remaining d z bs' i'))))
              \<and> (\<exists>r out s'. while_next body l1 x d = Some (Inr (r, l', out, s', d))))"
      proof (rule Suc.hyps(1))
        show "n = length (remaining d z bs1 i1)" using Suc.hyps(2) r bs g(5) by simp
        show "body y c l0 s0 d = Some (if P y then Inl ((y, c, l0), d) else Inr (l0, y, d))"
          if "(y, c) \<in> set (remaining d z bs1 i1)" "\<not> fr y" for y c l0 s0
          by (rule Suc.prems(1)) (use that r bs g(5) in auto)
      qed (use g Suc.prems in auto)
      then obtain l' bs' i' p' pre where
        ih: "chain d p' bs'" "distinct bs'" "cursor_at d z fr l' bs' i'" "last bs' = last bs1"
          "\<forall>x\<in>set pre. \<not> fr (fst x) \<and> \<not> P (fst x)"
        and alt: "(\<exists>y c. remaining d z bs1 i1 = pre @ (y, c) # remaining d z bs' i' \<and> \<not> fr y \<and> P y
              \<and> while_next body l1 x d = Some (Inl ((y, c, l'), d)))
           \<or> remaining d z bs1 i1 = pre @ remaining d z bs' i'
              \<and> (remaining d z bs' i' \<noteq> [] \<longrightarrow> fr (fst (hd (remaining d z bs' i'))))
              \<and> (\<exists>r out s'. while_next body l1 x d = Some (Inr (r, l', out, s', d)))"
        by blast
      have rem: "remaining d z bs i = (x, a) # remaining d z bs1 i1" using r bs g(5) by simp
      have pre: "\<forall>y\<in>set ((x, a) # pre). \<not> fr (fst y) \<and> \<not> P (fst y)" using ih(5) False nP by simp
      have la: "last bs' = last bs" using ih(4) g(6) bs by simp
      show ?thesis
        unfolding rem run
        by (intro exI [of _ l'] exI [of _ bs'] exI [of _ i'] exI [of _ p'] exI [of _ "(x, a) # pre"])
           (use ih(1-3) la pre alt in auto)
    qed
  qed
qed

abbreviation dup_body :: "byte list \<Rightarrow> byte list \<Rightarrow> nat \<Rightarrow> cl_list \<Rightarrow> unit \<Rightarrow> flash
    \<Rightarrow> ((unit \<times> flash) + (cl_list \<times> unit \<times> flash)) option" where
  "dup_body item \<equiv> \<lambda>tmp _ l1 s d1. Some (if item = tmp then Inl ((), d1) else Inr (l1, s, d1))"

text \<open>An append depends on its cursor only through the first free slot the scan finds.\<close>

lemma append_cong:
  assumes "while_next (dup_body item) l () d = Some w" "while_next (dup_body item) l0 () d = Some w0"
    "scan_result d z b (Inr (oa, ())) w" "scan_result d z b (Inr (oa, ())) w0"
  shows "cl_list_append l ty item d = cl_list_append l0 ty item d"
  using assms by (cases oa) (auto simp: cl_list_append_def scan_result_def)

lemma scan_slots_skip:
  "\<forall>x\<in>set pre. \<not> fr (fst x) \<and> f (fst x) (snd x) s = Inr s \<Longrightarrow> scan_slots fr f (pre @ r) s = scan_slots fr f r s"
  by (induction pre) auto


subsection \<open>Items\<close>

lemma length_filelist_item_bytes [simp]: "length (filelist_item_bytes x) = 8"
  by (simp add: filelist_item_bytes_def)

lemma bytes_filelist_item_bytes [simp]:
  "fi_block x < 65536 \<Longrightarrow> bytes_filelist_item (filelist_item_bytes x) = x"
proof -
  assume b: "fi_block x < 65536"
  have s: "unat (fi_segment x) < 256 ^ 4" using unsigned_less [of "fi_segment x"] by simp
  have "take 2 (drop 2 (filelist_item_bytes x)) = put_le 2 (fi_block x)"
    "take 4 (drop 4 (filelist_item_bytes x)) = put_le 4 (unat (fi_segment x))"
    "filelist_item_bytes x ! 0 = fi_status x" "filelist_item_bytes x ! 1 = fi_resd x"
    by (simp_all add: filelist_item_bytes_def nth_Cons')
  then show ?thesis using b s by (simp add: bytes_filelist_item_def)
qed

lemma filelist_isfree_erased [simp]: "cl_filelist_isfree (replicate 8 0xFF)"
  by (simp add: cl_filelist_isfree_def bytes_filelist_item_def)

lemma filelist_isfree_bytes [simp]:
  "cl_filelist_isfree (filelist_item_bytes x) \<longleftrightarrow> fi_status x = CAFS_FILELIST_STATUS_FREE"
  by (simp add: cl_filelist_isfree_def bytes_filelist_item_def filelist_item_bytes_def)

lemma file_list_type_valid: "list_typeisvalid (BLOCK_TYPE_FILE_LIST OR BLOCK_TYPE_LINKED_LIST_FLAG)"
  by code_simp

lemma item_status: "fi_status (bytes_filelist_item (st # bs)) = st"
  by (simp add: bytes_filelist_item_def)

lemma item_set_status:
  "bs \<noteq> [] \<Longrightarrow> bytes_filelist_item (st # tl bs) = (bytes_filelist_item bs)\<lparr>fi_status := st\<rparr>"
  by (cases bs) (simp_all add: bytes_filelist_item_def)

subsection \<open>Lookup\<close>

definition seg_entries :: "flash \<Rightarrow> nat list \<Rightarrow> nat \<Rightarrow> cl_filelist_item list" where
  "seg_entries d bs n = map bytes_filelist_item (contents d 8 bs n)"

definition seg_matches :: "u32 \<Rightarrow> byte \<Rightarrow> cl_filelist_item \<Rightarrow> bool" where
  "seg_matches s st e \<longleftrightarrow> fi_status e = st \<and> fi_segment e = s"

definition seg_lookup :: "u32 \<Rightarrow> byte \<Rightarrow> cl_filelist_item list \<Rightarrow> nat option" where
  "seg_lookup s st es = map_option fi_block (List.find (seg_matches s st) es)"

definition seg_step :: "u32 \<Rightarrow> byte \<Rightarrow> byte list \<Rightarrow> nat \<Rightarrow> unit \<Rightarrow> (nat \<times> nat) + unit" where
  "seg_step s st x a u = (if seg_matches s st (bytes_filelist_item x) then Inl (fi_block (bytes_filelist_item x), a) else Inr u)"

lemma scan_seg_lookup:
  "case scan_items (seg_step s st) (map (\<lambda>k. (g k, h k)) ks) u of
     Inl v \<Rightarrow> (\<exists>b a. v = (b, a) \<and> seg_lookup s st (map bytes_filelist_item (map g ks)) = Some b)
   | Inr _ \<Rightarrow> seg_lookup s st (map bytes_filelist_item (map g ks)) = None"
  by (induction ks arbitrary: u) (auto simp: seg_step_def seg_lookup_def split: sum.splits)

lemma filelist_get_lookup:
  assumes "geometry d" "wf_list d 8 cl_filelist_isfree bs n"
  shows "\<exists>a. cl_filelist_get (hd bs) seg st d = Some (case seg_lookup (of_int seg) st (seg_entries d bs n) of
     Some b \<Rightarrow> (b, Some a) | None \<Rightarrow> (BLOCK_INVALID, None))"
proof -
  obtain l w where lw: "cl_list_init (hd bs) 8 cl_filelist_isfree d = (0, l)"
    "while_next (filelist_get_body seg st) l () d = Some w"
    "scan_result d 8 (last bs) (case scan_items (seg_step (of_int seg) st)
        (map (\<lambda>k. (slot d 8 bs k, slot_addr 8 bs k)) [0 ..< n]) () of Inl v \<Rightarrow> Inl v
     | Inr s' \<Rightarrow> Inr (if n < calc_total_items 8 * length bs then Some (slot_addr 8 bs n) else None, s')) w"
    by (rule while_next_wf [OF assms(1) _ assms(2), where f = "seg_step (of_int seg) st" and body = "filelist_get_body seg st"])
       (auto simp: filelist_get_body_def seg_step_def seg_matches_def Let_def)
  have "case scan_items (seg_step (of_int seg) st) (map (\<lambda>k. (slot d 8 bs k, slot_addr 8 bs k)) [0 ..< n]) () of
     Inl v \<Rightarrow> (\<exists>b a. v = (b, a) \<and> seg_lookup (of_int seg) st (seg_entries d bs n) = Some b)
   | Inr _ \<Rightarrow> seg_lookup (of_int seg) st (seg_entries d bs n) = None"
    unfolding seg_entries_def contents_def by (rule scan_seg_lookup)
  with lw show ?thesis
    by (auto simp: cl_filelist_get_def cl_filelist_init_def scan_result_def split: sum.splits)
qed

subsection \<open>Update\<close>

fun strike :: "u32 \<Rightarrow> cl_filelist_item list \<Rightarrow> cl_filelist_item list" where
  "strike s [] = []"
| "strike s (e # es) = (if seg_matches s CAFS_FILELIST_STATUS_CURRENT e
     then e\<lparr>fi_status := CAFS_FILELIST_STATUS_OBSOLETE\<rparr> # es else e # strike s es)"

lemma strike_nth:
  "\<forall>i<k. \<not> seg_matches s CAFS_FILELIST_STATUS_CURRENT (es ! i) \<Longrightarrow> k < length es \<Longrightarrow>
   seg_matches s CAFS_FILELIST_STATUS_CURRENT (es ! k) \<Longrightarrow>
   strike s es = es[k := (es ! k)\<lparr>fi_status := CAFS_FILELIST_STATUS_OBSOLETE\<rparr>]"
proof (induction es arbitrary: k)
  case (Cons e es)
  show ?case
  proof (cases k)
    case (Suc j)
    with Cons.prems have "\<forall>i<j. \<not> seg_matches s CAFS_FILELIST_STATUS_CURRENT (es ! i)"
      "\<not> seg_matches s CAFS_FILELIST_STATUS_CURRENT e" by (auto simp: All_less_Suc2)
    with Cons.IH [of j] Cons.prems Suc show ?thesis by simp
  qed (use Cons.prems in simp)
qed simp

lemma strike_none: "\<forall>e\<in>set es. \<not> seg_matches s CAFS_FILELIST_STATUS_CURRENT e \<Longrightarrow> strike s es = es"
  by (induction es) auto

lemma slots_split:
  assumes "slots d z bs = pre @ (x, a) # rest" "0 < calc_total_items z"
  shows "x = slot d z bs (length pre)" "a = slot_addr z bs (length pre)" "length pre < calc_total_items z * length bs"
    "\<forall>k<length pre. fst (pre ! k) = slot d z bs k"
proof -
  let ?N = "calc_total_items z * length bs"
  have s: "map (\<lambda>k. (slot d z bs k, slot_addr z bs k)) [0 ..< ?N] = pre @ (x, a) # rest"
    using assms by (simp add: slots_eq)
  then have "length (map (\<lambda>k. (slot d z bs k, slot_addr z bs k)) [0 ..< ?N]) = length (pre @ (x, a) # rest)" by (rule arg_cong)
  then show n: "length pre < ?N" by simp
  have e: "(pre @ (x, a) # rest) ! k = (slot d z bs k, slot_addr z bs k)" if "k < ?N" for k
    using that unfolding s [symmetric] by simp
  show "x = slot d z bs (length pre)" "a = slot_addr z bs (length pre)" using e [OF n] by simp_all
  show "\<forall>k<length pre. fst (pre ! k) = slot d z bs k"
  proof (intro allI impI)
    fix k assume "k < length pre"
    then show "fst (pre ! k) = slot d z bs k" using e [of k] n by (simp add: nth_append)
  qed
qed

text \<open>What the two loops of \<open>cl_filelist_update\<close> find.\<close>

lemma strike_then_append:
  assumes geo: "geometry d" and wf: "wf_list d 8 cl_filelist_isfree bs n"
  obtains l x sa l1 where "cl_list_init (hd bs) 8 cl_filelist_isfree d = (0, l)" "find_strike s l d = Some (x, sa, l1)"
    "\<And>item ty. item \<notin> set (contents d 8 bs n) \<Longrightarrow> cl_list_append l1 ty item d = cl_list_append l ty item d"
    "case sa of None \<Rightarrow> \<forall>k<n. \<not> seg_matches s CAFS_FILELIST_STATUS_CURRENT (seg_entries d bs n ! k)
     | Some a \<Rightarrow> \<exists>k<n. a = slot_addr 8 bs k \<and> seg_matches s CAFS_FILELIST_STATUS_CURRENT (seg_entries d bs n ! k)
         \<and> (\<forall>j<k. \<not> seg_matches s CAFS_FILELIST_STATUS_CURRENT (seg_entries d bs n ! j))"
proof -
  let ?fr = cl_filelist_isfree and ?sl = "slots d 8 bs"
  define P where "P x = seg_matches s CAFS_FILELIST_STATUS_CURRENT (bytes_filelist_item x)" for x
  have ch: "chain d BLOCK_INVALID bs" using wf by (simp add: wf_list_def)
  have di: "distinct bs" by (rule chain_distinct [OF geo ch])
  have en: "seg_entries d bs n ! k = bytes_filelist_item (slot d 8 bs k)" if "k < n" for k
    using that by (simp add: seg_entries_def contents_def)
  have nle: "n \<le> 14 * length bs" using wf by (simp add: wf_list_def)
  have fr: "k < n \<longleftrightarrow> \<not> ?fr (slot d 8 bs k)" if "k < 14 * length bs" for k
    using wf that by (cases "k < n") (auto simp: wf_list_def)
  obtain l where l: "cl_list_init (hd bs) 8 ?fr d = (0, l)" "cursor_at d 8 ?fr l bs 0" "remaining d 8 bs 0 = ?sl"
    by (rule init_chain [OF geo ch]) auto
  have body: "strike_body s x a l s' d = Some (if P x then Inl ((x, a, l), d) else Inr (l, x, d))" for x a l s'
    by (auto simp: strike_body_def P_def seg_matches_def Let_def)
  obtain l1 bs1 i1 p1 pre where
    c: "chain d p1 bs1" "distinct bs1" "cursor_at d 8 ?fr l1 bs1 i1" "last bs1 = last bs"
      "\<forall>x\<in>set pre. \<not> ?fr (fst x) \<and> \<not> P (fst x)"
    and alt: "(\<exists>x a. ?sl = pre @ (x, a) # remaining d 8 bs1 i1 \<and> \<not> ?fr x \<and> P x
          \<and> while_next (strike_body s) l (replicate 8 0) d = Some (Inl ((x, a, l1), d)))
       \<or> ?sl = pre @ remaining d 8 bs1 i1
          \<and> (remaining d 8 bs1 i1 \<noteq> [] \<longrightarrow> ?fr (fst (hd (remaining d 8 bs1 i1))))
          \<and> (\<exists>r out s'. while_next (strike_body s) l (replicate 8 0) d = Some (Inr (r, l1, out, s', d)))"
    using while_next_leave [where body = "strike_body s" and P = P and fr = ?fr and z = 8 and d = d and bs = bs and i = 0
        and p = BLOCK_INVALID and l = l and s = "replicate 8 0", OF body geo _ ch di l(2), unfolded l(3)] by fastforce
  obtain pre' where pre': "?sl = pre' @ remaining d 8 bs1 i1" "\<forall>x\<in>set pre'. \<not> ?fr (fst x)"
    using alt c(5) by (force intro: that [of pre] that [of "pre @ [x]" for x])
  have app: "cl_list_append l1 ty item d = cl_list_append l ty item d" if new: "item \<notin> set (contents d 8 bs n)" for item ty
  proof -
    let ?f = "\<lambda>x a s. if item = x then Inl () else Inr s"
    have nd: "x \<noteq> item" if "(x, a) \<in> set ?sl" "\<not> ?fr x" for x a
      using wf_body_slot [OF wf _ _ that] new by auto
    have "\<forall>x\<in>set pre'. \<not> ?fr (fst x) \<and> ?f (fst x) (snd x) () = Inr ()"
    proof
      fix x assume x: "x \<in> set pre'"
      then have "\<not> ?fr (fst x)" using pre'(2) by blast
      moreover have "(fst x, snd x) \<in> set ?sl" using x pre'(1) by simp
      ultimately show "\<not> ?fr (fst x) \<and> ?f (fst x) (snd x) () = Inr ()" using nd [of "fst x" "snd x"] by simp
    qed
    then have skip: "scan_slots ?fr ?f ?sl () = scan_slots ?fr ?f (remaining d 8 bs1 i1) ()"
      unfolding pre'(1) by (rule scan_slots_skip)
    obtain oa where oa: "scan_slots ?fr ?f ?sl () = Inr (oa, ())"
      using new by (simp add: wf_scan [OF wf] scan_member contents_def)
    have db: "dup_body item x a l2 u d = Some (case ?f x a u of Inl v \<Rightarrow> Inl (v, d) | Inr s' \<Rightarrow> Inr (l2, s', d))"
      for x a l2 and u :: unit by simp
    obtain w0 where w0: "while_next (dup_body item) l () d = Some w0" "scan_result d 8 (last bs) (Inr (oa, ())) w0"
      using while_next_chain [where f = ?f and body = "dup_body item" and fr = ?fr and s = "()", OF db geo _ ch di l(2)] l(3) oa
      by auto
    obtain w where w: "while_next (dup_body item) l1 () d = Some w" "scan_result d 8 (last bs) (Inr (oa, ())) w"
      using while_next_chain [where f = ?f and body = "dup_body item" and fr = ?fr and s = "()", OF db geo _ c(1-3)] c(4) oa skip
      by auto
    show ?thesis by (rule append_cong [OF w(1) w0(1) w(2) w0(2)])
  qed
  from alt show thesis
  proof (elim disjE conjE exE)
    fix x a assume x: "?sl = pre @ (x, a) # remaining d 8 bs1 i1" "\<not> ?fr x" "P x"
      and run: "while_next (strike_body s) l (replicate 8 0) d = Some (Inl ((x, a, l1), d))"
    note sp = slots_split [OF x(1)]
    let ?k = "length pre"
    have k: "x = slot d 8 bs ?k" "a = slot_addr 8 bs ?k" "?k < n" using sp x(2) fr [of ?k] by simp_all
    have "\<forall>j<?k. \<not> P (slot d 8 bs j)" using sp(4) c(5) by (metis nth_mem total_8 zero_less_numeral)
    then have "\<exists>k<n. a = slot_addr 8 bs k \<and> seg_matches s CAFS_FILELIST_STATUS_CURRENT (seg_entries d bs n ! k)
         \<and> (\<forall>j<k. \<not> seg_matches s CAFS_FILELIST_STATUS_CURRENT (seg_entries d bs n ! j))"
      using k x(3) en by (intro exI [of _ ?k]) (auto simp: P_def)
    then show thesis
      by (intro that [OF l(1), of x "Some a" l1] app) (use run in \<open>simp_all add: find_strike_def\<close>)
  next
    fix r out s' assume x: "?sl = pre @ remaining d 8 bs1 i1"
      "remaining d 8 bs1 i1 \<noteq> [] \<longrightarrow> ?fr (fst (hd (remaining d 8 bs1 i1)))"
      and run: "while_next (strike_body s) l (replicate 8 0) d = Some (Inr (r, l1, out, s', d))"
    have "\<not> P (slot d 8 bs k)" if "k < n" for k
    proof -
      have sl: "?sl ! k = (slot d 8 bs k, slot_addr 8 bs k)" "k < length ?sl" if "k < n" for k
        using that nle by (simp_all add: slots_eq)
      have "n \<le> length pre"
      proof (rule ccontr)
        assume "\<not> n \<le> length pre"
        then have lp: "length pre < n" by simp
        with sl(2) [OF lp] x(1) have ne: "remaining d 8 bs1 i1 \<noteq> []" by auto
        then have "hd (remaining d 8 bs1 i1) = ?sl ! length pre" by (simp add: x(1) nth_append hd_conv_nth)
        with sl(1) [OF lp] have "?fr (slot d 8 bs (length pre))" using x(2) ne by simp
        with fr [of "length pre"] lp nle show False by simp
      qed
      with that have "k < length pre" by simp
      then have "pre ! k = ?sl ! k" "pre ! k \<in> set pre" by (simp_all add: x(1) nth_append)
      with sl(1) [OF that] c(5) show ?thesis by (metis fst_conv)
    qed
    then have "\<forall>k<n. \<not> seg_matches s CAFS_FILELIST_STATUS_CURRENT (seg_entries d bs n ! k)" using en by (simp add: P_def)
    then show thesis
      by (intro that [OF l(1), of "case out of Some (bs, _) \<Rightarrow> bs | None \<Rightarrow> s'" None l1] app)
         (use run in \<open>simp_all add: find_strike_def\<close>)
  qed
qed

lemma seg_entries_fresh:
  assumes "\<And>e. e \<in> set (seg_entries d bs n) \<Longrightarrow> fi_status e = CAFS_FILELIST_STATUS_CURRENT \<Longrightarrow> fi_block e \<noteq> b"
    "fi_block e = b" "fi_status e = CAFS_FILELIST_STATUS_CURRENT" "b < 65536"
  shows "filelist_item_bytes e \<notin> set (contents d 8 bs n)"
proof
  assume "filelist_item_bytes e \<in> set (contents d 8 bs n)"
  then have "bytes_filelist_item (filelist_item_bytes e) \<in> set (seg_entries d bs n)"
    unfolding seg_entries_def by (simp only: set_map) blast
  with assms show False by auto
qed

text \<open>
  A block more in the list, the old entry of the segment obsolete, and nothing else changed; or a disk
  that is full.
\<close>

definition updated :: "flash \<Rightarrow> nat list \<Rightarrow> nat \<Rightarrow> u32 \<Rightarrow> nat \<Rightarrow> int \<Rightarrow> flash \<Rightarrow> nat list \<Rightarrow> nat \<Rightarrow> bool" where
  "updated d bs n s b r d' bs' n' \<longleftrightarrow> sound d' \<and> same_dev d d' \<and> wf_list d' 8 cl_filelist_isfree bs' n'
     \<and> (\<exists>nbs. bs' = bs @ nbs \<and> length nbs \<le> 1 \<and> (\<forall>c\<in>set nbs. \<not> live d c))
     \<and> (\<forall>c<cl_block_gettotal d. c \<notin> set bs' \<longrightarrow> spared d d' c) \<and> (\<forall>c\<in>set bs. take 6 (blk d' c) = take 6 (blk d c))
     \<and> (if r = 0 then \<exists>resd. seg_entries d' bs' n' = strike s (seg_entries d bs n)
            @ [\<lparr>fi_status = CAFS_FILELIST_STATUS_CURRENT, fi_resd = resd, fi_block = b, fi_segment = s\<rparr>]
        else r = -1 \<and> \<not> room d)"

lemma filelist_update_effect:
  assumes snd: "sound d" and ps: "per_section d \<le> 41" and wf: "wf_list d 8 cl_filelist_isfree bs n" and b: "b < 65536"
    and fresh: "\<And>e. e \<in> set (seg_entries d bs n) \<Longrightarrow> fi_status e = CAFS_FILELIST_STATUS_CURRENT \<Longrightarrow> fi_block e \<noteq> b"
  obtains r d' bs' n' where "cl_filelist_update (hd bs) s b d = Some (r, d')" "updated d bs n s b r d' bs' n'"
proof -
  let ?fr = cl_filelist_isfree and ?es = "seg_entries d bs n" and ?C = CAFS_FILELIST_STATUS_CURRENT
  have geo: "geometry d" using snd by (simp add: sound_def)
  obtain l x sa l1 where l: "cl_list_init (hd bs) 8 ?fr d = (0, l)" "find_strike s l d = Some (x, sa, l1)"
    and same: "\<And>item ty. item \<notin> set (contents d 8 bs n) \<Longrightarrow> cl_list_append l1 ty item d = cl_list_append l ty item d"
    and sa: "case sa of None \<Rightarrow> \<forall>k<n. \<not> seg_matches s ?C (?es ! k)
     | Some a \<Rightarrow> \<exists>k<n. a = slot_addr 8 bs k \<and> seg_matches s ?C (?es ! k) \<and> (\<forall>j<k. \<not> seg_matches s ?C (?es ! j))"
    by (rule strike_then_append [OF geo wf, of s thesis]) (rule that, assumption+)
  define e where "e = (bytes_filelist_item x)\<lparr>fi_status := ?C, fi_block := b, fi_segment := s\<rparr>"
  have e: "fi_block e = b" "fi_status e = ?C" by (simp_all add: e_def)
  have ex: "\<exists>resd. e = \<lparr>fi_status = ?C, fi_resd = resd, fi_block = b, fi_segment = s\<rparr>"
    by (simp add: e_def exI [of _ "fi_resd (bytes_filelist_item x)"])
  have new: "filelist_item_bytes e \<notin> set (contents d 8 bs n)" by (rule seg_entries_fresh [OF fresh e b])
  obtain l0 r ao d1 bs' n' where a: "cl_list_init (hd bs) 8 ?fr d = (0, l0)"
    "cl_list_append l0 BLOCK_TYPE_FILE_LIST (filelist_item_bytes e) d = Some (r, ao, d1)"
    "appended d 8 ?fr bs n (filelist_item_bytes e) r ao d1 bs' n'"
    by (rule append_refines [OF snd ps wf _ _ _ _ _ file_list_type_valid, of "filelist_item_bytes e"]) (simp_all add: e)
  have run: "cl_list_append l1 BLOCK_TYPE_FILE_LIST (filelist_item_bytes e) d = Some (r, ao, d1)"
    using same [OF new] a(1,2) l(1) by simp
  have ap: "sound d1" "same_dev d d1" "wf_list d1 8 ?fr bs' n'"
    "\<exists>nbs. bs' = bs @ nbs \<and> length nbs \<le> 1 \<and> (\<forall>c\<in>set nbs. \<not> live d c)"
    "\<And>c. c < cl_block_gettotal d \<Longrightarrow> c \<notin> set bs' \<Longrightarrow> spared d d1 c"
    "\<And>c. c \<in> set bs \<Longrightarrow> take 6 (blk d1 c) = take 6 (blk d c)"
    using a(3) by (auto simp: appended_def)
  show thesis
  proof (cases "r = 0")
    case False
    then have "r = -1" "\<not> room d" using a(3) new by (auto simp: appended_def)
    then show thesis
      by (intro that [of "-1" d1 bs' n'])
         (use l run ap in \<open>auto simp: cl_filelist_update_def cl_filelist_init_def e_def [symmetric] updated_def\<close>)
  next
    case True
    then have n': "n' = Suc n" and ct: "contents d1 8 bs' n' = contents d 8 bs n @ [filelist_item_bytes e]"
      using a(3) new by (auto simp: appended_def)
    have es1: "seg_entries d1 bs' n' = ?es @ [e]" using b e(1) by (simp add: seg_entries_def ct)
    show thesis
    proof (cases sa)
      case None
      then have "strike s ?es = ?es" using sa by (intro strike_none) (auto simp: in_set_conv_nth seg_entries_def contents_def)
      then show thesis
        by (intro that [of 0 d1 bs' n'])
           (use l run ap True None es1 ex in \<open>auto simp: cl_filelist_update_def cl_filelist_init_def e_def [symmetric] updated_def\<close>)
    next
      case (Some addr)
      with sa obtain k where k: "k < n" "addr = slot_addr 8 bs k" "seg_matches s ?C (?es ! k)"
        "\<forall>j<k. \<not> seg_matches s ?C (?es ! j)" by auto
      have idx: "k div 14 < length bs" using k(1) wf by (simp add: wf_list_def less_mult_imp_div_less mult.commute)
      have ad: "addr = slot_addr 8 bs' k" using k(2) idx ap(4) by (auto simp: slot_addr_def nth_append)
      have ks: "contents d1 8 bs' n' ! k = slot d1 8 bs' k" "contents d 8 bs n ! k = slot d 8 bs k"
        using k(1) n' by (simp_all add: contents_def nth_append)
      have "contents d1 8 bs' n' ! k = contents d 8 bs n ! k"
        unfolding ct using k(1) by (simp add: nth_append contents_def)
      then have sl: "slot d1 8 bs' k = slot d 8 bs k" by (simp only: ks)
      have len: "length (slot d1 8 bs' k) = 8" by (simp add: slot_def length_get_item)
      have st: "fi_status (bytes_filelist_item (slot d1 8 bs' k)) = ?C"
        using k(1,3) ks(2) by (simp add: sl seg_entries_def contents_def seg_matches_def)
      then have hd: "hd (slot d1 8 bs' k) = ?C" using len by (cases "slot d1 8 bs' k") (simp_all add: bytes_filelist_item_def)
      let ?it = "CAFS_FILELIST_STATUS_OBSOLETE # tl (slot d1 8 bs' k)"
      have ow: "overwrites CAFS_FILELIST_STATUS_OBSOLETE ?C" by (simp add: overwrites_def)
      have k': "k < n'" using k(1) n' by simp
      have w: "cl_dev_write addr [CAFS_FILELIST_STATUS_OBSOLETE] d1 = Some (1, fill_slot 8 bs' k ?it d1)"
        unfolding ad by (rule set_first [OF ap(1,3) _ _ k']) (simp_all add: hd ow)
      have "over ?it (slot d1 8 bs' k)" using hd len ow
        by (cases "slot d1 8 bs' k") (simp_all add: over_def list.rel_refl)
      moreover have it: "\<not> ?fr ?it" "length ?it = 8" using len by (simp_all add: cl_filelist_isfree_def item_status)
      ultimately have f: "sound (fill_slot 8 bs' k ?it d1)" "wf_list (fill_slot 8 bs' k ?it d1) 8 ?fr bs' n'"
        "contents (fill_slot 8 bs' k ?it d1) 8 bs' n' = (contents d1 8 bs' n')[k := ?it]" "same_dev d1 (fill_slot 8 bs' k ?it d1)"
        "\<And>c. c < cl_block_gettotal d1 \<Longrightarrow> c \<notin> set bs' \<Longrightarrow> blk (fill_slot 8 bs' k ?it d1) c = blk d1 c"
        "\<And>c. c < cl_block_gettotal d1 \<Longrightarrow> take 6 (blk (fill_slot 8 bs' k ?it d1) c) = take 6 (blk d1 c)"
        using refill_slot_wf [OF ap(1,3) _ _ k'] by simp_all
      let ?d = "fill_slot 8 bs' k ?it d1"
      have "seg_entries ?d bs' n' = (?es @ [e])[k := (?es ! k)\<lparr>fi_status := CAFS_FILELIST_STATUS_OBSOLETE\<rparr>]"
      proof -
        have "bytes_filelist_item ?it = (bytes_filelist_item (slot d1 8 bs' k))\<lparr>fi_status := CAFS_FILELIST_STATUS_OBSOLETE\<rparr>"
          using len by (intro item_set_status) auto
        moreover have "bytes_filelist_item (slot d1 8 bs' k) = ?es ! k" using k(1) ks(2) sl by (simp add: seg_entries_def contents_def)
        ultimately show ?thesis
          using es1 unfolding seg_entries_def f(3) map_update by simp
      qed
      also have "\<dots> = strike s ?es @ [e]"
        using strike_nth [OF k(4) _ k(3)] k(1) by (simp add: list_update_append seg_entries_def contents_def)
      finally have es: "seg_entries ?d bs' n' = strike s ?es @ [e]" .
      have sp: "spared d ?d c" if "c < cl_block_gettotal d" "c \<notin> set bs'" for c
        using ap(5) [OF that] f(5) it that same_dev_geometry [OF ap(2)] by (simp add: spared_def)
      have h6: "take 6 (blk ?d c) = take 6 (blk d c)" if "c \<in> set bs" for c
        using ap(6) [OF that] f(6) [of c] wf_blocks [OF wf that] same_dev_geometry [OF ap(2)] by simp
      show thesis
        by (rule that [of 0 ?d bs' n'])
           (use h6 l run True Some w f(1,2,4) it same_dev_trans [OF ap(2)] ap(4) sp es ex in
            \<open>auto simp: cl_filelist_update_def cl_filelist_init_def e_def [symmetric] updated_def cl_filelist_setstatus_def\<close>)
    qed
  qed
qed

end
