(* ===== verification/CafsFile.thy ===== *)
theory CafsFile
  imports CafsFilelist
begin

section \<open>Files (cafs_lite_file.c, cafs_lite_local.h)\<close>

text \<open>
  An open file is a handle with one segment in RAM. A read or write works on this segment when it can,
  and otherwise saves it and loads the ones it needs. A segment in RAM is dirty when the status of its
  RAM header is CLOSED. A modified file gets a new header, list and entry in the serial number list,
  and replaces the old ones only when it is closed.

  The model keeps the transfer \<open>op\<close> in the handle. Its buffer is the list of the bytes still to be
  written, or of the bytes read so far. Every caller sets the callback to NULL, so it is left out.
\<close>

abbreviation SEGMENT_INVALID :: nat where "SEGMENT_INVALID \<equiv> 0xFFFF"
abbreviation BLOCK_DATA_SIZE :: nat where "BLOCK_DATA_SIZE \<equiv> 122"
abbreviation R_OK :: byte where "R_OK \<equiv> 4"
abbreviation W_OK :: byte where "W_OK \<equiv> 2"

record device_transfer =
  op_loc :: int
  op_nbyte :: int
  op_buf :: "byte list"

record cl_handle =
  h_hdr_block :: nat
  h_list_block :: nat
  h_serialno_addr :: nat
  h_op :: "device_transfer option"
  h_bytes_left :: int
  h_size :: int
  h_amode :: byte
  h_segment :: nat
  h_mtime :: u32
  h_data :: cl_block_data

subsection \<open>The header of a file\<close>

text \<open>
  \<open>cl_hdr_open_t\<close> is the name (25 bytes), a byte of padding and the first block of the list;
  \<open>cl_hdr_close_t\<close>, behind it, is the size.
\<close>

definition hdr_content_block :: "byte list \<Rightarrow> nat" where
  "hdr_content_block data = get_le (take 2 (drop 26 data))"

definition hdr_size :: "byte list \<Rightarrow> int" where
  "hdr_size data = sint (of_nat (get_le (take 4 (drop 28 data))) :: u32)"

definition hdr_name :: "byte list \<Rightarrow> byte list" where
  "hdr_name data = takeWhile (\<lambda>c. c \<noteq> 0) data"

definition set_content_block :: "nat \<Rightarrow> byte list \<Rightarrow> byte list" where
  "set_content_block b data = overlay 26 (put_le 2 b) data"

definition size_bytes :: "int \<Rightarrow> byte list" where
  "size_bytes n = put_le 4 (unat (of_int n :: u32))"

definition get_cl_block_data_addr :: "nat \<Rightarrow> nat" where
  "get_cl_block_data_addr block = block * BLOCK_SIZE + 6"

subsection \<open>Copying from and to the segment in RAM\<close>

text \<open>
  \<open>BLOCK_DATA_SIZE\<close> is a \<open>size_t\<close> (32 bits on the target), so the other operand of a division or a
  comparison with it is converted to unsigned.
\<close>

definition unsigned_int :: "int \<Rightarrow> int" where
  "unsigned_int n = n mod 2 ^ 32"

definition segment_of_loc :: "int \<Rightarrow> int" where
  "segment_of_loc loc = unsigned_int loc div int BLOCK_DATA_SIZE"

definition op_of :: "cl_handle \<Rightarrow> device_transfer" where
  "op_of h = the (h_op h)"

definition set_op :: "(device_transfer \<Rightarrow> device_transfer) \<Rightarrow> cl_handle \<Rightarrow> cl_handle" where
  "set_op f h = h\<lparr>h_op := map_option f (h_op h)\<rparr>"

text \<open>The page size and the offset.\<close>

definition calc_page_size :: "cl_handle \<Rightarrow> int \<times> nat" where
  "calc_page_size h =
    (let offset = unsigned_int (op_loc (op_of h)) mod int BLOCK_DATA_SIZE
     in (if unsigned_int (h_bytes_left h) > int BLOCK_DATA_SIZE - offset
         then int BLOCK_DATA_SIZE - offset else h_bytes_left h, nat offset))"

definition read_current_segment :: "cl_handle \<Rightarrow> cl_handle" where
  "read_current_segment h =
    (let (page_size, offset) = calc_page_size h
     in if page_size > 0 then
          set_op (\<lambda>p. p\<lparr>op_loc := op_loc p + page_size,
              op_buf := op_buf p @ take (nat page_size) (drop offset (bd_data (h_data h)))\<rparr>)
            (h\<lparr>h_bytes_left := h_bytes_left h - page_size\<rparr>)
        else h)"

definition set_data :: "byte list \<Rightarrow> cl_handle \<Rightarrow> cl_handle" where
  "set_data data h = h\<lparr>h_data := (h_data h)\<lparr>bd_data := data\<rparr>\<rparr>"

definition set_ram_status :: "byte \<Rightarrow> cl_handle \<Rightarrow> cl_handle" where
  "set_ram_status st h = h\<lparr>h_data := (h_data h)\<lparr>bd_hdr := (bd_hdr (h_data h))\<lparr>bh_status := st\<rparr>\<rparr>\<rparr>"

definition grow :: "cl_handle \<Rightarrow> cl_handle" where
  "grow h = (if op_loc (op_of h) > h_size h then h\<lparr>h_size := op_loc (op_of h)\<rparr> else h)"

definition write_current_segment :: "cl_handle \<Rightarrow> cl_handle" where
  "write_current_segment h =
    (let (page_size, offset) = calc_page_size h
     in if page_size > 0 then
          grow (set_op (\<lambda>p. p\<lparr>op_loc := op_loc p + page_size, op_buf := drop (nat page_size) (op_buf p)\<rparr>)
            (set_ram_status BLOCK_STATUS_CLOSED
              (set_data (overlay offset (take (nat page_size) (op_buf (op_of h))) (bd_data (h_data h)))
                (h\<lparr>h_bytes_left := h_bytes_left h - page_size\<rparr>))))
        else h)"

subsection \<open>Segments on the disk\<close>

definition cl_file_savesegment :: "cl_handle \<Rightarrow> flash \<Rightarrow> (int \<times> cl_handle \<times> flash) option" where
  "cl_file_savesegment h d =
    (if bh_status (bd_hdr (h_data h)) = BLOCK_STATUS_CLOSED then
       let h1 = h\<lparr>h_mtime := 0\<rparr>
       in do {
         (block, d1) \<leftarrow> cl_block_alloc (bh_serialno (bd_hdr (h_data h))) (h_list_block h) BLOCK_TYPE_FILE_DATA d;
         if block = BLOCK_INVALID then Some (-1, h1, d1)
         else do {
           (r, data, d2) \<leftarrow> cl_block_save block (h_data h1) d1;
           let h2 = h1\<lparr>h_data := data\<rparr>;
           if r < 0 then Some (-1, h2, d2)
           else do {
             (r3, d3) \<leftarrow> cl_filelist_update (h_list_block h2) (of_nat (h_segment h2)) block d2;
             Some (if r3 < 0 then -1 else 0, h2, d3)
           }
         }
       }
     else Some (0, h, d))"

text \<open>A segment that is not in the list is a segment of zeros; the header in RAM stays.\<close>

definition cl_file_loadsegment :: "int \<Rightarrow> cl_handle \<Rightarrow> flash \<Rightarrow> (int \<times> cl_handle) option" where
  "cl_file_loadsegment segment h d = do {
    (block, _) \<leftarrow> cl_filelist_get (h_list_block h) segment CAFS_FILELIST_STATUS_CURRENT d;
    let loaded = (if block = BLOCK_INVALID then Some (set_data (replicate BLOCK_DATA_SIZE 0) h)
       else map_option (\<lambda>x. h\<lparr>h_data := x\<rparr>) (cl_block_load block d));
    Some (case loaded of
      None \<Rightarrow> (-1, h)
    | Some h1 \<Rightarrow> (0, set_ram_status BLOCK_STATUS_OPEN (h1\<lparr>h_segment := nat (segment mod 65536)\<rparr>)))
  }"

definition cl_file_swapsegment :: "int \<Rightarrow> cl_handle \<Rightarrow> flash \<Rightarrow> (int \<times> cl_handle \<times> flash) option" where
  "cl_file_swapsegment new_segment h d =
    (if new_segment = int (h_segment h) then Some (0, h, d)
     else do {
       (r, h1, d1) \<leftarrow> cl_file_savesegment h d;
       if r \<noteq> 0 then Some (-1, h1, d1)
       else do {
         (block, _) \<leftarrow> cl_filelist_get (h_list_block h1) new_segment CAFS_FILELIST_STATUS_CURRENT d1;
         let h2 = h1\<lparr>h_segment := nat (new_segment mod 65536)\<rparr>;
         let h3 = (if block = BLOCK_INVALID then set_data (replicate BLOCK_DATA_SIZE 0) h2
           else case cl_block_load block d1 of None \<Rightarrow> h2 | Some x \<Rightarrow> h2\<lparr>h_data := x\<rparr>);
         Some (0, set_ram_status BLOCK_STATUS_OPEN h3, d1)
       }
     })"

text \<open>The loops of \<open>cl_file_write\<close> and \<open>cl_file_read\<close>, with \<open>n\<close> segments to go.\<close>

fun file_write_loop :: "nat \<Rightarrow> cl_handle \<Rightarrow> flash \<Rightarrow> (int \<times> cl_handle \<times> flash) option" where
  "file_write_loop 0 h d = Some (0, h, d)"
| "file_write_loop (Suc n) h d =
    (let h1 = set_ram_status BLOCK_STATUS_CLOSED (set_data (take BLOCK_DATA_SIZE (op_buf (op_of h))) h)
     in do {
       (r, h2, d1) \<leftarrow> cl_file_savesegment h1 d;
       if r < 0 then Some (-1, h2, d1)
       else file_write_loop n
         (set_op (\<lambda>p. p\<lparr>op_buf := drop BLOCK_DATA_SIZE (op_buf p)\<rparr>)
           (h2\<lparr>h_segment := (h_segment h2 + 1) mod 65536\<rparr>)) d1
     })"

definition cl_file_write :: "int \<Rightarrow> int \<Rightarrow> cl_handle \<Rightarrow> flash \<Rightarrow> (int \<times> cl_handle \<times> flash) option" where
  "cl_file_write start_segment nsegments h d =
    (if nsegments > 0 then do {
       (r, h1, d1) \<leftarrow> file_write_loop (nat nsegments) (h\<lparr>h_segment := nat (start_segment mod 65536)\<rparr>) d;
       if r < 0 then Some (-1, h1, d1)
       else Some (0, grow (set_op (\<lambda>p. p\<lparr>op_loc := op_loc p + int BLOCK_DATA_SIZE * nsegments\<rparr>)
         (h1\<lparr>h_bytes_left := h_bytes_left h1 - int BLOCK_DATA_SIZE * nsegments\<rparr>)), d1)
     } else Some (0, h, d))"

fun file_read_loop :: "int \<Rightarrow> nat \<Rightarrow> cl_handle \<Rightarrow> flash \<Rightarrow> (int \<times> cl_handle) option" where
  "file_read_loop segment 0 h d = Some (0, h)"
| "file_read_loop segment (Suc n) h d = do {
    (r, h1) \<leftarrow> cl_file_loadsegment segment h d;
    if r < 0 then Some (-1, h1)
    else file_read_loop (segment + 1) n
      (set_op (\<lambda>p. p\<lparr>op_buf := op_buf p @ bd_data (h_data h1)\<rparr>) h1) d
  }"

definition cl_file_read :: "int \<Rightarrow> int \<Rightarrow> cl_handle \<Rightarrow> flash \<Rightarrow> (int \<times> cl_handle) option" where
  "cl_file_read start_segment nsegments h d =
    (if nsegments > 0 then do {
       (r, h1) \<leftarrow> file_read_loop start_segment (nat nsegments) h d;
       if r < 0 then Some (-1, h1)
       else Some (0, set_op (\<lambda>p. p\<lparr>op_loc := op_loc p + int BLOCK_DATA_SIZE * nsegments\<rparr>)
         (h1\<lparr>h_bytes_left := h_bytes_left h1 - int BLOCK_DATA_SIZE * nsegments\<rparr>))
     } else Some (0, h))"

subsection \<open>Reading\<close>

definition cl_file_startread :: "cl_handle \<Rightarrow> int \<times> cl_handle" where
  "cl_file_startread h =
    (let h1 = h\<lparr>h_bytes_left := op_nbyte (op_of h)\<rparr>;
         h2 = (if h_bytes_left h1 + op_loc (op_of h1) > h_size h1
               then let left = h_size h1 - op_loc (op_of h1)
                 in set_op (\<lambda>p. p\<lparr>op_nbyte := left\<rparr>) (h1\<lparr>h_bytes_left := left\<rparr>)
               else h1)
     in if segment_of_loc (op_loc (op_of h)) = int (h_segment h2) then
          let h3 = read_current_segment h2
          in (if h_bytes_left h3 = 0 then op_nbyte (op_of h3) else 0, h3)
        else (0, h2))"

definition cl_file_finishread :: "cl_handle \<Rightarrow> flash \<Rightarrow> (int \<times> cl_handle \<times> flash) option" where
  "cl_file_finishread h d = do {
    (r, h1, d1) \<leftarrow> cl_file_savesegment h d;
    if r < 0 then Some (-1, h1, d1)
    else do {
      (r2, h2) \<leftarrow> cl_file_loadsegment (segment_of_loc (op_loc (op_of h1))) h1 d1;
      if r2 < 0 then Some (-1, h2, d1)
      else let h3 = read_current_segment h2
        in if h_bytes_left h3 > 0 then do {
             (r4, h4) \<leftarrow> cl_file_read (int (h_segment h3) + 1)
               (unsigned_int (h_bytes_left h3) div int BLOCK_DATA_SIZE) h3 d1;
             if r4 < 0 then Some (-1, h4, d1)
             else do {
               (r5, h5) \<leftarrow> cl_file_loadsegment (int (h_segment h4) + 1) h4 d1;
               if r5 < 0 then Some (-1, h5, d1) else Some (0, read_current_segment h5, d1)
             }
           } else Some (0, h3, d1)
    }
  }"

subsection \<open>Writing\<close>

definition cl_file_startwrite :: "cl_handle \<Rightarrow> int \<times> cl_handle" where
  "cl_file_startwrite h =
    (let segment = segment_of_loc (op_loc (op_of h))
     in if op_loc (op_of h) > h_size h then (-1, h)
        else let h1 = h\<lparr>h_bytes_left := op_nbyte (op_of h)\<rparr>
          in if segment = int (h_segment h1) then
               let h2 = write_current_segment h1
               in (if h_bytes_left h2 = 0 then op_nbyte (op_of h2) else 0, h2)
             else (0, h1))"

definition cl_file_finishwrite :: "cl_handle \<Rightarrow> flash \<Rightarrow> (int \<times> cl_handle \<times> flash) option" where
  "cl_file_finishwrite h d = do {
    (r, h1, d1) \<leftarrow> cl_file_savesegment h d;
    if r < 0 then Some (-1, h1, d1)
    else do {
      (r2, h2) \<leftarrow> cl_file_loadsegment (segment_of_loc (op_loc (op_of h1))) h1 d1;
      if r2 < 0 then Some (-1, h2, d1)
      else let h3 = write_current_segment h2
        in if h_bytes_left h3 > 0 then do {
             (r4, h4, d4) \<leftarrow> cl_file_savesegment h3 d1;
             if r4 < 0 then Some (-1, h4, d4)
             else let h5 = h4\<lparr>h_segment := (h_segment h4 + 1) mod 65536\<rparr>
               in do {
                 (r6, h6, d6) \<leftarrow> cl_file_write (int (h_segment h5))
                   (unsigned_int (h_bytes_left h5) div int BLOCK_DATA_SIZE) h5 d4;
                 if r6 < 0 then Some (-1, h6, d6)
                 else do {
                   (r7, h7) \<leftarrow> cl_file_loadsegment (int (h_segment h6)) h6 d6;
                   if r7 < 0 then Some (-1, h7, d6) else Some (0, write_current_segment h7, d6)
                 }
               }
           } else Some (0, h3, d1)
    }
  }"

end
