(* ===== verification/CafsStore.thy ===== *)
theory CafsStore
  imports CafsSegments CafsFile
begin

section \<open>The segments of a file on the disk\<close>

text \<open>
  The disk part of an open file is a well-formed list whose current entries name live blocks, one for
  each segment. Saving the segment in RAM changes this map in one place.
\<close>

subsection \<open>Current entries\<close>

definition currents :: "cl_filelist_item list \<Rightarrow> cl_filelist_item list" where
  "currents es = filter (\<lambda>e. fi_status e = CAFS_FILELIST_STATUS_CURRENT) es"

lemma lookup_currents:
  "seg_lookup s CAFS_FILELIST_STATUS_CURRENT es = map_option fi_block (List.find (\<lambda>e. fi_segment e = s) (currents es))"
  by (induction es) (auto simp: seg_lookup_def currents_def seg_matches_def)

lemma currents_append [simp]: "currents (es @ fs) = currents es @ currents fs"
  by (simp add: currents_def)

lemma currents_simps [simp]:
  "currents [] = []"
  "currents (e # es) = (if fi_status e = CAFS_FILELIST_STATUS_CURRENT then e # currents es else currents es)"
  by (simp_all add: currents_def)

lemma filter_segment_id: "s \<notin> fi_segment ` set es \<Longrightarrow> filter (\<lambda>e. fi_segment e \<noteq> s) es = es"
  by (induction es) auto

lemma currents_strike:
  "distinct (map fi_segment (currents es)) \<Longrightarrow> currents (strike s es) = filter (\<lambda>e. fi_segment e \<noteq> s) (currents es)"
proof (induction es)
  case (Cons e es)
  show ?case
  proof (cases "seg_matches s CAFS_FILELIST_STATUS_CURRENT e")
    case True
    then have "s \<notin> fi_segment ` set (currents es)" using Cons.prems by (auto simp: seg_matches_def)
    from filter_segment_id [OF this] True show ?thesis by (simp add: seg_matches_def)
  qed (use Cons in \<open>auto simp: seg_matches_def split: if_splits\<close>)
qed simp

lemma find_filter_other: "t \<noteq> s \<Longrightarrow> List.find (\<lambda>e. fi_segment e = t) (filter (\<lambda>e. fi_segment e \<noteq> s) es)
    = List.find (\<lambda>e. fi_segment e = t) es"
  by (induction es) auto

lemma find_append: "List.find P (xs @ ys) = (case List.find P xs of None \<Rightarrow> List.find P ys | Some x \<Rightarrow> Some x)"
  by (induction xs) auto

lemma lookup_update:
  assumes "distinct (map fi_segment (currents es))"
  shows "seg_lookup t CAFS_FILELIST_STATUS_CURRENT (strike s es
      @ [\<lparr>fi_status = CAFS_FILELIST_STATUS_CURRENT, fi_resd = r, fi_block = b, fi_segment = s\<rparr>])
    = (if t = s then Some b else seg_lookup t CAFS_FILELIST_STATUS_CURRENT es)"
proof (cases "t = s")
  case True
  have "List.find (\<lambda>e. fi_segment e = s) (filter (\<lambda>e. fi_segment e \<noteq> s) (currents es)) = None"
    by (simp add: find_None_iff)
  with True show ?thesis by (simp add: lookup_currents currents_strike [OF assms] find_append)
next
  case False
  then show ?thesis
    by (simp add: lookup_currents currents_strike [OF assms] find_append find_filter_other split: option.split)
qed

subsection \<open>Entries that hold a block\<close>

text \<open>
  The block of an obsolete entry is in use until the file is closed. Every entry has a block of its own, whose header
  names the same file as that of the list.
\<close>

definition held :: "cl_filelist_item list \<Rightarrow> cl_filelist_item list" where
  "held es = filter (\<lambda>e. fi_status e = CAFS_FILELIST_STATUS_CURRENT \<or> fi_status e = CAFS_FILELIST_STATUS_OBSOLETE) es"

lemma held_simps [simp]:
  "held [] = []" "held (es @ fs) = held es @ held fs"
  "held (e # es) = (if fi_status e = CAFS_FILELIST_STATUS_CURRENT \<or> fi_status e = CAFS_FILELIST_STATUS_OBSOLETE then e # held es else held es)"
  by (simp_all add: held_def)

lemma currents_held: "e \<in> set (currents es) \<Longrightarrow> e \<in> set (held es)"
  by (auto simp: currents_def held_def)

lemma held_strike: "map fi_block (held (strike s es)) = map fi_block (held es)"
  by (induction es) (auto simp: seg_matches_def)

definition owned :: "flash \<Rightarrow> nat list \<Rightarrow> cl_filelist_item list \<Rightarrow> bool" where
  "owned d bs es \<longleftrightarrow> distinct (map fi_block (held es)) \<and> (\<forall>b\<in>set (map fi_block (held es)). b < cl_block_gettotal d \<and> live d b
     \<and> type_of d b = BLOCK_TYPE_FILE_DATA \<and> serial_of d b = serial_of d (hd bs))"

lemma owned_block:
  assumes "owned d bs es" "e \<in> set (held es)"
  shows "fi_block e < cl_block_gettotal d" "live d (fi_block e)" "type_of d (fi_block e) = BLOCK_TYPE_FILE_DATA"
    "serial_of d (fi_block e) = serial_of d (hd bs)"
  using assms by (auto simp: owned_def)

lemma owned_keeps:
  assumes o: "owned d bs es" and T: "cl_block_gettotal d' = cl_block_gettotal d"
    and head: "serial_of d' (hd bs') = serial_of d (hd bs)" and same: "\<And>e. e \<in> set (held es) \<Longrightarrow> keeps d d' (fi_block e)"
  shows "owned d' bs' es"
  using o T head same by (auto simp: owned_def keeps_def)

lemma owned_cong:
  assumes o: "owned d bs es" and T: "cl_block_gettotal d' = cl_block_gettotal d"
    and head: "serial_of d' (hd bs') = serial_of d (hd bs)"
    and same: "\<And>e. e \<in> set (held es) \<Longrightarrow> blk d' (fi_block e) = blk d (fi_block e)"
  shows "owned d' bs' es"
  by (rule owned_keeps [OF o T head keeps_blk [OF same]])

lemma list_type:
  assumes "wf_list d z fr bs n" "b \<in> set bs"
  shows "type_of d b \<noteq> BLOCK_TYPE_FILE_DATA" "type_of d b \<noteq> BLOCK_TYPE_FILE_HDR"
proof -
  have "list_typeisvalid (type_of d b)" if "chain d p bs" for p
    using that assms(2)
  proof (induction bs arbitrary: p)
    case (Cons c cs)
    then show ?case by (cases cs) auto
  qed simp
  then have "list_typeisvalid (type_of d b)" using assms(1) by (auto simp: wf_list_def)
  then show "type_of d b \<noteq> BLOCK_TYPE_FILE_DATA" "type_of d b \<noteq> BLOCK_TYPE_FILE_HDR" by (auto simp: list_typeisvalid_def)
qed

subsection \<open>Free blocks\<close>

definition free_blocks :: "flash \<Rightarrow> nat set" where
  "free_blocks d = {b. 1 \<le> b \<and> b < cl_block_gettotal d \<and> status_of d b = BLOCK_STATUS_FREE}"

lemma finite_free_blocks [simp]: "finite (free_blocks d)"
  by (rule finite_subset [of _ "{..<cl_block_gettotal d}"]) (auto simp: free_blocks_def)

lemma free_blocks_room: "free_blocks d \<noteq> {} \<Longrightarrow> room d"
  by (auto simp: free_blocks_def intro: room_free)

lemma spared_free: "spared d d' c \<Longrightarrow> status_of d c = BLOCK_STATUS_FREE \<Longrightarrow> status_of d' c = BLOCK_STATUS_FREE"
  by (auto simp: spared_def status_blk)

lemma free_blocks_left:
  assumes "cl_block_gettotal d' = cl_block_gettotal d" "\<And>c. c < cl_block_gettotal d \<Longrightarrow> \<not> live d c \<Longrightarrow> c \<notin> set us \<Longrightarrow> spared d d' c"
  shows "card (free_blocks d) \<le> card (free_blocks d') + length us"
proof -
  have "free_blocks d \<subseteq> free_blocks d' \<union> set us"
    using assms spared_free by (force simp: free_blocks_def live_def)
  then have "card (free_blocks d) \<le> card (free_blocks d' \<union> set us)" by (intro card_mono) auto
  also have "\<dots> \<le> card (free_blocks d') + card (set us)" by (rule card_Un_le)
  finally show ?thesis using card_length [of us] by linarith
qed

subsection \<open>The invariant\<close>

definition file_disk :: "flash \<Rightarrow> nat list \<Rightarrow> nat \<Rightarrow> bool" where
  "file_disk d bs n \<longleftrightarrow> sound d \<and> per_section d \<le> 41 \<and> wf_list d 8 cl_filelist_isfree bs n
     \<and> owned d bs (seg_entries d bs n)
     \<and> distinct (map fi_segment (currents (seg_entries d bs n)))"

definition seg_data :: "flash \<Rightarrow> nat list \<Rightarrow> nat \<Rightarrow> u32 \<Rightarrow> byte list" where
  "seg_data d bs n s = (case seg_lookup s CAFS_FILELIST_STATUS_CURRENT (seg_entries d bs n) of
     None \<Rightarrow> replicate BLOCK_DATA_SIZE 0 | Some b \<Rightarrow> data_of d b)"

lemma held_block:
  assumes "file_disk d bs n" "e \<in> set (held (seg_entries d bs n))"
  shows "fi_block e < cl_block_gettotal d" "live d (fi_block e)" "fi_block e \<notin> set bs"
proof -
  have o: "owned d bs (seg_entries d bs n)" and wf: "wf_list d 8 cl_filelist_isfree bs n" using assms(1) by (auto simp: file_disk_def)
  show "fi_block e < cl_block_gettotal d" "live d (fi_block e)" "fi_block e \<notin> set bs"
    using owned_block [OF o assms(2)] list_type(1) [OF wf] by auto
qed

lemma lookup_current_block:
  assumes "file_disk d bs n" "seg_lookup s CAFS_FILELIST_STATUS_CURRENT (seg_entries d bs n) = Some b"
  shows "b < cl_block_gettotal d" "live d b" "b \<notin> set bs" "serial_of d b = serial_of d (hd bs)"
proof -
  have o: "owned d bs (seg_entries d bs n)" using assms(1) by (simp add: file_disk_def)
  from assms(2) obtain e where "e \<in> set (currents (seg_entries d bs n))" "fi_block e = b"
    by (auto simp: lookup_currents find_Some_iff dest: nth_mem)
  with held_block [OF assms(1) currents_held] owned_block(4) [OF o currents_held]
  show "b < cl_block_gettotal d" "live d b" "b \<notin> set bs" "serial_of d b = serial_of d (hd bs)" by auto
qed

lemma length_seg_data [simp]: "length (seg_data d bs n s) = 122"
  by (simp add: seg_data_def split: option.split)

lemma file_disk_facts:
  assumes "file_disk d bs n"
  shows "sound d" "geometry d" "per_section d \<le> 41" "wf_list d 8 cl_filelist_isfree bs n" "bs \<noteq> []"
    "hd bs < cl_block_gettotal d" "live d (hd bs)" "hd bs \<in> set bs"
proof -
  show s: "sound d" "geometry d" "per_section d \<le> 41" and wf: "wf_list d 8 cl_filelist_isfree bs n"
    using assms by (auto simp: file_disk_def sound_def)
  show ne: "bs \<noteq> []" using chain_nonempty wf by (auto simp: wf_list_def)
  then show "hd bs \<in> set bs" by simp
  with wf_blocks [OF wf] show "hd bs < cl_block_gettotal d" "live d (hd bs)" by auto
qed

text \<open>A change that keeps the list and the blocks it holds.\<close>

lemma file_disk_keeps:
  assumes fd: "file_disk d bs n" and d': "sound d'" "cl_block_gettotal d' = cl_block_gettotal d" "per_section d' \<le> 41"
    and keep: "\<And>c. c \<in> set bs \<Longrightarrow> keeps d d' c" "\<And>e. e \<in> set (held (seg_entries d bs n)) \<Longrightarrow> keeps d d' (fi_block e)"
  shows "file_disk d' bs n" "seg_entries d' bs n = seg_entries d bs n" "seg_data d' bs n = seg_data d bs n"
proof -
  note f = file_disk_facts [OF fd]
  note w = wf_list_keeps [OF f(4) d'(2) keep(1), simplified]
  show es: "seg_entries d' bs n = seg_entries d bs n" by (simp add: seg_entries_def w)
  show "seg_data d' bs n = seg_data d bs n"
  proof
    fix s
    show "seg_data d' bs n s = seg_data d bs n s"
    proof (cases "seg_lookup s CAFS_FILELIST_STATUS_CURRENT (seg_entries d bs n)")
      case (Some b)
      then obtain e where "e \<in> set (currents (seg_entries d bs n))" "fi_block e = b"
        by (auto simp: lookup_currents find_Some_iff dest: nth_mem)
      with keep(2) [OF currents_held] have "data_of d' b = data_of d b" by (auto simp: keeps_def)
      with Some show ?thesis by (simp add: seg_data_def es)
    qed (simp add: seg_data_def es)
  qed
  have head: "serial_of d' (hd bs) = serial_of d (hd bs)" using keep(1) [OF f(8)] by (simp add: keeps_def)
  have "owned d bs (seg_entries d bs n)" using fd by (simp add: file_disk_def)
  then have "owned d' bs (seg_entries d bs n)" by (rule owned_keeps [OF _ d'(2) head keep(2)])
  moreover have "distinct (map fi_segment (currents (seg_entries d bs n)))" using fd by (simp add: file_disk_def)
  ultimately show "file_disk d' bs n" unfolding file_disk_def es using d'(1,3) w(1) by simp
qed

lemma file_disk_cong:
  assumes fd: "file_disk d bs n" and d': "sound d'" "same_dev d d'"
    and same: "\<And>c. c < cl_block_gettotal d \<Longrightarrow> live d c \<Longrightarrow> blk d' c = blk d c"
  shows "file_disk d' bs n" "seg_entries d' bs n = seg_entries d bs n" "seg_data d' bs n = seg_data d bs n"
proof -
  note g = same_dev_geometry [OF d'(2)]
  have k: "keeps d d' b" if "b \<in> set bs" for b using wf_blocks [OF file_disk_facts(4) [OF fd] that] same by (simp add: keeps_blk)
  have e: "keeps d d' (fi_block e)" if "e \<in> set (held (seg_entries d bs n))" for e
    using held_block [OF fd that] same by (simp add: keeps_blk)
  have "per_section d' \<le> 41" using file_disk_facts(3) [OF fd] g(3) by simp
  note f = file_disk_keeps [OF fd d'(1) g(2) this]
  show "file_disk d' bs n" "seg_entries d' bs n = seg_entries d bs n" "seg_data d' bs n = seg_data d bs n"
    using f k e by simp_all
qed

subsection \<open>Saving a segment\<close>

lemma four_more: "[x, x] @ [x, x] @ replicate n x = replicate (n + 4) x"
proof -
  have "n + 4 = Suc (Suc (Suc (Suc n)))" by simp
  then show ?thesis by (simp only: replicate_Suc append.simps)
qed

lemma save_granted:
  assumes g: "granted sn ty d b d1" and len: "length (bd_data x) = 122" and nb: "b \<noteq> BLOCK_INVALID"
  obtains d2 where "cl_block_save b x d1 = Some (0, x\<lparr>bd_hdr := (bd_hdr x)\<lparr>bh_status := BLOCK_STATUS_OPEN\<rparr>\<rparr>, d2)" "sound d2" "same_dev d d2" "live d2 b"
    "data_of d2 b = bd_data x" "\<And>c. c < cl_block_gettotal d \<Longrightarrow> c \<noteq> b \<Longrightarrow> spared d d2 c"
    "type_of d2 b = ty" "serial_of d2 b = sn"
proof -
  have g1: "sound d1" "same_dev d d1" "b < cl_block_gettotal d" using g by (auto simp: granted_def)
  note dev = same_dev_geometry [OF g1(2)]
  have geo: "geometry d1" using g1(1) by (simp add: sound_def)
  let ?w = "BLOCK_STATUS_OPEN # bd_data x"
  define B where "B = overlay 5 ?w (blk d1 b)"
  define d2 where "d2 = set_cell (Blk b) B d1"
  have lB: "length B = 128" using len by (simp add: B_def)
  have bb: "blk d1 b = (put_le 4 (unat sn) @ [ty]) @ ([BLOCK_STATUS_OPEN] @ replicate 122 0xFF)"
    using granted_blk [OF g] four_more [of "0xFF :: byte" 118] by simp
  have B: "B = (put_le 4 (unat sn) @ [ty]) @ ?w"
    using overlay_mid [of "[BLOCK_STATUS_OPEN] @ replicate 122 0xFF" ?w "put_le 4 (unat sn) @ [ty]" "[]"] len
    by (simp add: B_def bb)
  have ov: "over ?w (take (length ?w) (drop 5 (blk d1 b)))"
  proof -
    have "list_all2 overwrites (bd_data x) (replicate 122 0xFF)" using len by (simp add: list_all2_conv_all_nth)
    with len show ?thesis by (simp add: bb over_def)
  qed
  have w: "cl_dev_write (128 * b + 5) ?w d1 = Some (123, d2)"
    using write_in_block [OF geo, of b 5 ?w] g1(3) ov len by (simp add: dev d2_def B_def)
  have run: "cl_block_save b x d1 = Some (0, x\<lparr>bd_hdr := (bd_hdr x)\<lparr>bh_status := BLOCK_STATUS_OPEN\<rparr>\<rparr>, d2)"
    using w nb by (simp add: cl_block_save_def get_cl_block_addr_def Let_def)
  have b2: "blk d2 c = (if c = b then B else blk d1 c)" if "c < cl_block_gettotal d" for c
    using that g1(3) lB by (simp add: d2_def blk_set_blk dev)
  show thesis
  proof (rule that [OF run])
    show "sound d2" using g1 lB by (auto simp: d2_def dev B nth_append intro!: sound_set_blk)
    show "same_dev d d2" using g1(2) by (simp add: d2_def)
    show "live d2 b" using b2 [OF g1(3)] by (simp add: live_def status_blk B nth_append)
    show "data_of d2 b = bd_data x" using b2 [OF g1(3)] by (simp add: data_of_def B)
    show "type_of d2 b = ty" using b2 [OF g1(3)] by (simp add: type_blk B nth_append)
    show "serial_of d2 b = sn" using b2 [OF g1(3)] by (simp add: serial_blk B get_put_le mod_less unsigned_less [where w = sn, simplified])
    show "spared d d2 c" if "c < cl_block_gettotal d" "c \<noteq> b" for c
      using granted_spared [OF g that] b2 [OF that(1)] that(2) by (simp add: spared_def)
  qed
qed

text \<open>What saving the segment in RAM does: its data is the segment's, and no block in use changes outside the list.\<close>

definition stored :: "flash \<Rightarrow> nat list \<Rightarrow> nat \<Rightarrow> u32 \<Rightarrow> byte list \<Rightarrow> flash \<Rightarrow> nat list \<Rightarrow> nat \<Rightarrow> bool" where
  "stored d bs n s data d' bs' n' \<longleftrightarrow> file_disk d' bs' n' \<and> same_dev d d' \<and> hd bs' = hd bs
     \<and> serial_of d' (hd bs) = serial_of d (hd bs) \<and> seg_data d' bs' n' = (seg_data d bs n)(s := data)
     \<and> (\<forall>c<cl_block_gettotal d. live d c \<and> c \<notin> set bs \<longrightarrow> blk d' c = blk d c \<and> c \<notin> set bs')
     \<and> card (free_blocks d) \<le> card (free_blocks d') + 2"

lemma stored_update:
  assumes fd: "file_disk d bs n" and d2: "sound d2" "same_dev d d2" and b: "b < cl_block_gettotal d" "\<not> live d b" "live d2 b"
    and hdr: "type_of d2 b = BLOCK_TYPE_FILE_DATA" "serial_of d2 b = serial_of d (hd bs)"
    and dat: "data_of d2 b = data" and sp2: "\<And>c. c < cl_block_gettotal d \<Longrightarrow> c \<noteq> b \<Longrightarrow> spared d d2 c"
    and up: "updated d2 bs n s b 0 d3 bs' n'"
  shows "stored d bs n s data d3 bs' n'"
proof -
  let ?C = CAFS_FILELIST_STATUS_CURRENT and ?T = "cl_block_gettotal d"
  note f = file_disk_facts [OF fd]
  note g2 = same_dev_geometry [OF d2(2)]
  have same2: "blk d2 c = blk d c" if "c < ?T" "live d c" for c using that b(2) sp2 spared_live by metis
  note c2 = file_disk_cong [OF fd d2 same2]
  from up obtain nbs r where nbs: "bs' = bs @ nbs" "length nbs \<le> 1" "\<forall>c\<in>set nbs. \<not> live d2 c"
    and d3: "sound d3" "same_dev d2 d3" "wf_list d3 8 cl_filelist_isfree bs' n'"
    and sp3: "\<And>c. c < ?T \<Longrightarrow> c \<notin> set bs' \<Longrightarrow> spared d2 d3 c"
    and es: "seg_entries d3 bs' n' = strike s (seg_entries d bs n)
      @ [\<lparr>fi_status = ?C, fi_resd = r, fi_block = b, fi_segment = s\<rparr>]"
    using g2 c2(2) by (auto simp: updated_def)
  have dev: "same_dev d d3" by (rule same_dev_trans [OF d2(2) d3(2)])
  note g3 = same_dev_geometry [OF dev]
  have notin: "c \<notin> set bs'" if "live d2 c" "c \<notin> set bs" for c using nbs that by auto
  have same3: "blk d3 c = blk d2 c" if "c < ?T" "live d2 c" "c \<notin> set bs" for c
    using spared_live [OF sp3] notin that by metis
  have lv2: "live d2 c" if "c < ?T" "live d c" for c using live_blk same2 that by metis
  have b_bs: "b \<notin> set bs" using b(2) wf_blocks [OF f(4)] by auto
  have frame: "blk d3 c = blk d c" if "c < ?T" "live d c" "c \<notin> set bs" for c
    using same3 same2 lv2 that by metis
  have cur: "set (currents (seg_entries d3 bs' n'))
      \<subseteq> insert \<lparr>fi_status = ?C, fi_resd = r, fi_block = b, fi_segment = s\<rparr> (set (currents (seg_entries d bs n)))"
    "currents (seg_entries d3 bs' n') = filter (\<lambda>e. fi_segment e \<noteq> s) (currents (seg_entries d bs n))
      @ [\<lparr>fi_status = ?C, fi_resd = r, fi_block = b, fi_segment = s\<rparr>]"
    using fd by (auto simp: es currents_strike file_disk_def)
  have head: "serial_of d3 (hd bs') = serial_of d (hd bs)"
  proof -
    have "take 6 (blk d3 (hd bs)) = take 6 (blk d2 (hd bs))" using up f(8) by (simp add: updated_def)
    moreover have "blk d2 (hd bs) = blk d (hd bs)" using same2 f(6,7) by simp
    moreover have "take 4 x = take 4 (take 6 x)" for x :: "byte list" by simp
    ultimately have "take 4 (blk d3 (hd bs)) = take 4 (blk d (hd bs))" by metis
    then show ?thesis using nbs(1) f(5) by (simp add: serial_blk)
  qed
  have "file_disk d3 bs' n'"
  proof -
    have ow: "owned d bs (seg_entries d bs n)" using fd by (simp add: file_disk_def)
    have h3: "map fi_block (held (seg_entries d3 bs' n')) = map fi_block (held (seg_entries d bs n)) @ [b]"
      by (simp add: es held_strike)
    have "owned d3 bs' (seg_entries d3 bs' n')"
      unfolding owned_def h3
    proof (intro conjI ballI)
      show "distinct (map fi_block (held (seg_entries d bs n)) @ [b])" using ow b(2) by (auto simp: owned_def)
      fix c assume "c \<in> set (map fi_block (held (seg_entries d bs n)) @ [b])"
      then have c: "c < ?T" "live d2 c" "c \<notin> set bs" "type_of d2 c = BLOCK_TYPE_FILE_DATA" "serial_of d2 c = serial_of d (hd bs)"
        using held_block [OF fd] owned_block [OF ow] lv2 same2 b b_bs hdr by (auto simp: type_blk serial_blk)
      have e: "blk d3 c = blk d2 c" by (rule same3 [OF c(1-3)])
      show "c < cl_block_gettotal d3" "live d3 c" "type_of d3 c = BLOCK_TYPE_FILE_DATA" "serial_of d3 c = serial_of d3 (hd bs')"
        using c e live_blk [OF e] g3 head by (simp_all add: type_blk serial_blk)
    qed
    moreover have "distinct (map fi_segment (currents (seg_entries d3 bs' n')))"
      using fd by (auto simp: cur(2) file_disk_def distinct_map intro: inj_on_subset)
    ultimately show ?thesis using d3(1,3) f(3) g3 by (simp add: file_disk_def)
  qed
  moreover have "seg_data d3 bs' n' = (seg_data d bs n)(s := data)"
  proof
    fix t
    have di: "distinct (map fi_segment (currents (seg_entries d bs n)))" using fd by (simp add: file_disk_def)
    show "seg_data d3 bs' n' t = ((seg_data d bs n)(s := data)) t"
    proof (cases "t = s")
      case True
      have "data_of d3 b = data" using same3 [OF b(1,3) b_bs] dat by (simp add: data_of_def)
      then show ?thesis using True by (simp add: seg_data_def es lookup_update [OF di])
    next
      case False
      then show ?thesis
        using frame lookup_current_block [OF fd]
        by (auto simp: seg_data_def es lookup_update [OF di] data_of_def split: option.split)
    qed
  qed
  moreover have "card (free_blocks d) \<le> card (free_blocks d3) + length (b # nbs)"
  proof (rule free_blocks_left)
    show "cl_block_gettotal d3 = ?T" by (rule g3)
    fix c assume c: "c < ?T" "\<not> live d c" "c \<notin> set (b # nbs)"
    then have "c \<notin> set bs" using wf_blocks [OF f(4)] by auto
    with c nbs(1) show "spared d d3 c" by (intro spared_trans [OF sp2 sp3]) auto
  qed
  moreover have "hd bs' = hd bs" using nbs(1) f(5) by simp
  ultimately show ?thesis using dev frame nbs f(5) notin lv2 head by (auto simp: stored_def)
qed

text \<open>Saving succeeds when two blocks are free, one for the data and one for the list.\<close>

lemma savesegment_effect:
  assumes fd: "file_disk d bs n" and h: "h_list_block h = hd bs" "bh_status (bd_hdr (h_data h)) = BLOCK_STATUS_CLOSED"
      "length (bd_data (h_data h)) = 122" "bh_serialno (bd_hdr (h_data h)) = serial_of d (hd bs)"
    and room: "2 \<le> card (free_blocks d)"
  obtains d' bs' n' where "cl_file_savesegment h d = Some (0, set_ram_status BLOCK_STATUS_OPEN (h\<lparr>h_mtime := 0\<rparr>), d')"
    "stored d bs n (of_nat (h_segment h)) (bd_data (h_data h)) d' bs' n'"
proof -
  note f = file_disk_facts [OF fd]
  let ?sn = "bh_serialno (bd_hdr (h_data h))" and ?T = "cl_block_gettotal d"
  obtain b d1 where a: "cl_block_alloc ?sn (hd bs) BLOCK_TYPE_FILE_DATA d = Some (b, d1)"
    "b \<noteq> BLOCK_INVALID \<and> granted ?sn BLOCK_TYPE_FILE_DATA d b d1 \<or> b = BLOCK_INVALID \<and> kept d d1 \<and> sound d1 \<and> \<not> room d"
    by (rule cl_block_alloc_outcome [OF f(1,6,3)])
  have "free_blocks d \<noteq> {}" using room by auto
  then have nb: "b \<noteq> BLOCK_INVALID" and g: "granted ?sn BLOCK_TYPE_FILE_DATA d b d1"
    using a(2) free_blocks_room by auto
  from g have b: "b < ?T" "\<not> live d b" by (auto simp: granted_def)
  obtain d2 where d2: "cl_block_save b (h_data h) d1 = Some (0, (h_data h)\<lparr>bd_hdr := (bd_hdr (h_data h))\<lparr>bh_status := BLOCK_STATUS_OPEN\<rparr>\<rparr>, d2)" "sound d2" "same_dev d d2" "live d2 b"
    "data_of d2 b = bd_data (h_data h)" "\<And>c. c < ?T \<Longrightarrow> c \<noteq> b \<Longrightarrow> spared d d2 c"
    "type_of d2 b = BLOCK_TYPE_FILE_DATA" "serial_of d2 b = ?sn"
    by (rule save_granted [OF g h(3) nb]) blast
  note g2 = same_dev_geometry [OF d2(3)]
  have same2: "blk d2 c = blk d c" if "c < ?T" "live d c" for c using that b(2) d2(6) spared_live by metis
  note c2 = file_disk_cong [OF fd d2(2,3) same2]
  have b16: "b < 65536" using b(1) gettotal_less [OF f(2)] all_blocks_bound [OF f(2)] by simp
  have fresh: "fi_block e \<noteq> b" if "e \<in> set (seg_entries d2 bs n)" "fi_status e = CAFS_FILELIST_STATUS_CURRENT" for e
    using held_block(2) [OF fd, of e] b(2) that by (auto simp: c2(2) held_def)
  obtain r d3 bs' n' where u: "cl_filelist_update (hd bs) (of_nat (h_segment h)) b d2 = Some (r, d3)"
    "updated d2 bs n (of_nat (h_segment h)) b r d3 bs' n'"
    by (rule filelist_update_effect [OF d2(2) _ _ b16 fresh, of bs n "of_nat (h_segment h)"])
       (use c2(1) in \<open>auto dest: file_disk_facts\<close>)
  have "card (free_blocks d) \<le> card (free_blocks d2) + length [b]"
    by (rule free_blocks_left) (use d2(6) g2 in auto)
  then have "free_blocks d2 \<noteq> {}" using room by auto
  then have "room d2" by (rule free_blocks_room)
  then have r: "r = 0" using u(2) by (auto simp: updated_def split: if_splits)
  show thesis
  proof (rule that)
    show "cl_file_savesegment h d = Some (0, set_ram_status BLOCK_STATUS_OPEN (h\<lparr>h_mtime := 0\<rparr>), d3)"
      using a(1) nb d2(1) u(1) r h by (simp add: cl_file_savesegment_def set_ram_status_def Let_def)
    show "stored d bs n (of_nat (h_segment h)) (bd_data (h_data h)) d3 bs' n'"
      by (rule stored_update [OF fd d2(2,3) b d2(4) d2(7) _ d2(5,6)]) (use u(2) r d2(8) h(4) in auto)
  qed
qed

lemma savesegment_clean:
  "bh_status (bd_hdr (h_data h)) \<noteq> BLOCK_STATUS_CLOSED \<Longrightarrow> cl_file_savesegment h d = Some (0, h, d)"
  by (simp add: cl_file_savesegment_def)

text \<open>Loading a segment never fails.\<close>

lemma loadsegment_effect:
  assumes fd: "file_disk d bs n" and h: "h_list_block h = hd bs"
  obtains h' where "cl_file_loadsegment seg h d = Some (0, h')"
    "bd_data (h_data h') = seg_data d bs n (of_int seg)" "bh_status (bd_hdr (h_data h')) = BLOCK_STATUS_OPEN"
    "h_segment h' = nat (seg mod 65536)" "h_list_block h' = h_list_block h" "h_op h' = h_op h"
    "h_bytes_left h' = h_bytes_left h" "h_size h' = h_size h" "h_amode h' = h_amode h"
    "h_hdr_block h' = h_hdr_block h" "h_serialno_addr h' = h_serialno_addr h"
    "bh_serialno (bd_hdr (h_data h')) \<in> {serial_of d (hd bs), bh_serialno (bd_hdr (h_data h))}"
proof -
  note f = file_disk_facts [OF fd]
  obtain a where g: "cl_filelist_get (hd bs) seg CAFS_FILELIST_STATUS_CURRENT d = Some (case seg_lookup (of_int seg) CAFS_FILELIST_STATUS_CURRENT
      (seg_entries d bs n) of Some b \<Rightarrow> (b, Some a) | None \<Rightarrow> (BLOCK_INVALID, None))"
    using filelist_get_lookup [OF f(2,4)] by blast
  show thesis
  proof (cases "seg_lookup (of_int seg) CAFS_FILELIST_STATUS_CURRENT (seg_entries d bs n)")
    case None
    then show thesis
      by (intro that [of "set_ram_status BLOCK_STATUS_OPEN ((set_data (replicate BLOCK_DATA_SIZE 0) h)\<lparr>h_segment := nat (seg mod 65536)\<rparr>)"])
         (use g h in \<open>simp_all add: cl_file_loadsegment_def set_ram_status_def set_data_def seg_data_def\<close>)
  next
    case (Some b)
    note b = lookup_current_block [OF fd Some]
    have nb: "b \<noteq> BLOCK_INVALID" using b(1) gettotal_less [OF f(2)] all_blocks_bound [OF f(2)] by simp
    from Some show thesis
      by (intro that [of "set_ram_status BLOCK_STATUS_OPEN (h\<lparr>h_data := bytes_data (blk d b), h_segment := nat (seg mod 65536)\<rparr>)"])
         (use g h nb load_total [OF f(2) b(1)] b(4) in \<open>simp_all add: cl_file_loadsegment_def set_ram_status_def seg_data_def\<close>)
  qed
qed

end
