(* ===== verification/CafsData.thy ===== *)
theory CafsData
  imports CafsStore
begin

section \<open>Reading and writing a file refine reading and writing a sequence of bytes\<close>

text \<open>
  A file is a function from segment numbers to 122 bytes, of which the list on the disk holds all but
  the one in RAM when that is dirty; its contents are the first \<open>size\<close> bytes. Segment numbers are below
  65535, the number the handle uses for no segment.
\<close>

definition byte_at :: "(nat \<Rightarrow> byte list) \<Rightarrow> nat \<Rightarrow> byte" where
  "byte_at V i = V (i div 122) ! (i mod 122)"

definition file_bytes :: "(nat \<Rightarrow> byte list) \<Rightarrow> nat \<Rightarrow> byte list" where
  "file_bytes V n = map (byte_at V) [0 ..< n]"

definition segments_ok :: "(nat \<Rightarrow> byte list) \<Rightarrow> bool" where
  "segments_ok V \<longleftrightarrow> (\<forall>s<65535. length (V s) = 122)"

definition wrote :: "(nat \<Rightarrow> byte list) \<Rightarrow> nat \<Rightarrow> byte list \<Rightarrow> (nat \<Rightarrow> byte list) \<Rightarrow> bool" where
  "wrote V loc bs V' \<longleftrightarrow> segments_ok V' \<and> (\<forall>i<65535 * 122. byte_at V' i =
     (if loc \<le> i \<and> i < loc + length bs then bs ! (i - loc) else byte_at V i))"

lemma wrote_Nil [simp]: "segments_ok V \<Longrightarrow> wrote V loc [] V"
  by (auto simp: wrote_def)

lemma wrote_append:
  assumes "wrote V loc a V1" "wrote V1 (loc + length a) b V2"
  shows "wrote V loc (a @ b) V2"
  using assms by (auto simp: wrote_def nth_append)

lemma file_bytes_wrote:
  assumes "wrote V loc bs V'" "loc \<le> n" "n \<le> 65535 * 122" "loc + length bs \<le> 65535 * 122"
  shows "file_bytes V' (max n (loc + length bs)) = overwritten loc bs (file_bytes V n)"
proof (rule nth_equalityI)
  show "length (file_bytes V' (max n (loc + length bs))) = length (overwritten loc bs (file_bytes V n))"
    using assms(2) by (simp add: file_bytes_def overwritten_def max_def)
  fix i assume "i < length (file_bytes V' (max n (loc + length bs)))"
  then have i: "i < n \<or> i < loc + length bs" by (auto simp: file_bytes_def)
  then have "byte_at V' i = (if loc \<le> i \<and> i < loc + length bs then bs ! (i - loc) else byte_at V i)"
    using assms by (auto simp: wrote_def)
  with i assms(2) show "file_bytes V' (max n (loc + length bs)) ! i = overwritten loc bs (file_bytes V n) ! i"
    by (auto simp: file_bytes_def overwritten_def nth_append)
qed

lemma file_bytes_take_drop:
  "take k (drop loc (file_bytes V n)) = map (byte_at V) [loc ..< min n (loc + k)]"
  by (simp add: file_bytes_def take_map drop_map min_def)

text \<open>Part of one segment.\<close>

lemma byte_at_segment:
  assumes "loc mod 122 + k \<le> 122" "length (V (loc div 122)) = 122"
  shows "take k (drop (loc mod 122) (V (loc div 122))) = map (byte_at V) [loc ..< loc + k]"
proof (rule nth_equalityI)
  fix i assume "i < length (take k (drop (loc mod 122) (V (loc div 122))))"
  then have i: "i < k" using assms by simp
  have "loc + i = 122 * (loc div 122) + (loc mod 122 + i)" by simp
  moreover have "loc mod 122 + i < 122" using assms(1) i by simp
  ultimately have "(loc + i) div 122 = loc div 122" "(loc + i) mod 122 = loc mod 122 + i"
    by (metis div_mult_self4 div_less add.right_neutral zero_neq_numeral, metis mod_mult_self4 mod_less)
  with i assms show "take k (drop (loc mod 122) (V (loc div 122))) ! i = map (byte_at V) [loc ..< loc + k] ! i"
    by (simp add: byte_at_def)
qed (use assms in simp)

lemma wrote_segment:
  assumes V: "segments_ok V" and k: "loc mod 122 + length a \<le> 122" and loc: "loc div 122 < 65535"
  shows "wrote V loc a (V(loc div 122 := overlay (loc mod 122) a (V (loc div 122))))" (is "wrote V loc a ?V")
proof -
  have len: "length (V (loc div 122)) = 122" using V loc by (simp add: segments_ok_def)
  have "byte_at ?V i = (if loc \<le> i \<and> i < loc + length a then a ! (i - loc) else byte_at V i)" for i
  proof (cases "i div 122 = loc div 122")
    case True
    have i: "i = 122 * (loc div 122) + i mod 122" "loc = 122 * (loc div 122) + loc mod 122"
      using div_mult_mod_eq [of i 122] True by simp_all
    have "loc \<le> i \<longleftrightarrow> loc mod 122 \<le> i mod 122" "i < loc + length a \<longleftrightarrow> i mod 122 < loc mod 122 + length a"
      "i - loc = i mod 122 - loc mod 122" using i by linarith+
    with True k len show ?thesis by (simp add: byte_at_def nth_overlay)
  next
    case False
    have "\<not> (loc \<le> i \<and> i < loc + length a)"
    proof
      assume a: "loc \<le> i \<and> i < loc + length a"
      have "loc = 122 * (loc div 122) + loc mod 122" by simp
      with a k have "122 * (loc div 122) \<le> i" "i < 122 * (loc div 122) + 122" by linarith+
      then have "i div 122 = loc div 122" by (simp add: div_nat_eqI mult.commute)
      with False show False ..
    qed
    with False show ?thesis by (auto simp: byte_at_def)
  qed
  with V k len show ?thesis by (auto simp: wrote_def segments_ok_def)
qed

subsection \<open>An open file\<close>

definition on_disk :: "flash \<Rightarrow> nat list \<Rightarrow> nat \<Rightarrow> (nat \<Rightarrow> byte list) \<Rightarrow> bool" where
  "on_disk d bs n V \<longleftrightarrow> file_disk d bs n \<and> (\<forall>s<65535. seg_data d bs n (of_nat s) = V s)"

text \<open>The handle is that of the list: the serial number it writes blocks with is that of the file.\<close>

definition listed :: "cl_handle \<Rightarrow> flash \<Rightarrow> nat list \<Rightarrow> bool" where
  "listed h d bs \<longleftrightarrow> h_list_block h = hd bs \<and> bh_serialno (bd_hdr (h_data h)) = serial_of d (hd bs)"

lemma listed_cong:
  "listed h d bs \<Longrightarrow> h_list_block h' = h_list_block h \<Longrightarrow> bh_serialno (bd_hdr (h_data h')) = bh_serialno (bd_hdr (h_data h)) \<Longrightarrow> listed h' d bs"
  by (simp add: listed_def)

definition opened :: "cl_handle \<Rightarrow> flash \<Rightarrow> nat list \<Rightarrow> nat \<Rightarrow> (nat \<Rightarrow> byte list) \<Rightarrow> bool" where
  "opened h d bs n V \<longleftrightarrow> file_disk d bs n \<and> listed h d bs \<and> h_segment h < 65536 \<and> length (bd_data (h_data h)) = 122
     \<and> (h_segment h < 65535 \<longrightarrow> bd_data (h_data h) = V (h_segment h))
     \<and> (\<forall>s<65535. s \<noteq> h_segment h \<or> bh_status (bd_hdr (h_data h)) \<noteq> BLOCK_STATUS_CLOSED
          \<longrightarrow> seg_data d bs n (of_nat s) = V s)"

text \<open>
  Blocks in use outside the list stay as they are, and the list takes over none of them. The list also keeps its
  head and the serial number in it, and the list of serial numbers its place.
\<close>

definition passes :: "flash \<Rightarrow> nat list \<Rightarrow> flash \<Rightarrow> nat list \<Rightarrow> bool" where
  "passes d bs d' bs' \<longleftrightarrow> cl_block_gettotal d' = cl_block_gettotal d
     \<and> (\<forall>c<cl_block_gettotal d. live d c \<and> c \<notin> set bs \<longrightarrow> blk d' c = blk d c \<and> c \<notin> set bs')"

definition leaves :: "flash \<Rightarrow> nat list \<Rightarrow> flash \<Rightarrow> nat list \<Rightarrow> bool" where
  "leaves d bs d' bs' \<longleftrightarrow> passes d bs d' bs' \<and> hd bs' = hd bs \<and> serial_of d' (hd bs) = serial_of d (hd bs) \<and> dev_list_block d' = dev_list_block d"

lemma leaves_passes: "leaves d bs d' bs' \<Longrightarrow> passes d bs d' bs'"
  by (simp add: leaves_def)

lemma leaves_refl [simp]: "leaves d bs d bs"
  by (simp add: leaves_def passes_def)

lemma leaves_listed: "listed h d bs \<Longrightarrow> leaves d bs d' bs' \<Longrightarrow> listed h d' bs'"
  by (simp add: listed_def leaves_def)

lemma leaves_trans:
  assumes "leaves d bs d1 bs1" "leaves d1 bs1 d2 bs2"
  shows "leaves d bs d2 bs2"
proof -
  have "live d1 c" if "c < cl_block_gettotal d" "live d c" "c \<notin> set bs" for c
    using assms(1) that live_blk [of d1 c d] by (simp add: leaves_def passes_def)
  with assms show ?thesis by (simp add: leaves_def passes_def)
qed

lemma opened_segments: "opened h d bs n V \<Longrightarrow> segments_ok V"
  unfolding segments_ok_def
proof (intro allI impI)
  fix s assume o: "opened h d bs n V" "s < (65535 :: nat)"
  show "length (V s) = 122"
  proof (cases "s = h_segment h")
    case True
    then show ?thesis using o by (auto simp: opened_def)
  next
    case False
    then have "seg_data d bs n (of_nat s) = V s" using o by (auto simp: opened_def)
    then show ?thesis by (metis length_seg_data)
  qed
qed

lemma of_nat_segment:
  assumes "s < 65536" "t < 65536"
  shows "(of_nat s :: u32) = of_nat t \<longleftrightarrow> s = t"
proof
  assume "(of_nat s :: u32) = of_nat t"
  then have "unat (of_nat s :: u32) = unat (of_nat t :: u32)" by simp
  with assms show "s = t" by (simp add: unat_of_nat)
qed simp

text \<open>Saving brings the disk up to date.\<close>

lemma save_opened:
  assumes o: "opened h d bs n V" and room: "2 \<le> card (free_blocks d)"
  obtains t m d' bs' n' where "cl_file_savesegment h d = Some (0, set_ram_status t (h\<lparr>h_mtime := m\<rparr>), d')" "on_disk d' bs' n' V"
    "hd bs' = h_list_block h" "leaves d bs d' bs'" "card (free_blocks d) \<le> card (free_blocks d') + 2"
proof (cases "bh_status (bd_hdr (h_data h)) = BLOCK_STATUS_CLOSED")
  case False
  then show thesis
    by (intro that [of "bh_status (bd_hdr (h_data h))" "h_mtime h" d bs n]) (use o in \<open>auto simp: set_ram_status_def savesegment_clean opened_def on_disk_def listed_def\<close>)
next
  case True
  obtain d' bs' n' where s: "cl_file_savesegment h d = Some (0, set_ram_status BLOCK_STATUS_OPEN (h\<lparr>h_mtime := 0\<rparr>), d')"
    "stored d bs n (of_nat (h_segment h)) (bd_data (h_data h)) d' bs' n'"
    by (rule savesegment_effect [OF _ _ True _ _ room, of bs n]) (use o in \<open>auto simp: opened_def listed_def\<close>)
  have "seg_data d' bs' n' (of_nat s) = V s" if "s < 65535" for s
    using s(2) o that of_nat_segment [of s "h_segment h"] by (auto simp: stored_def opened_def)
  then show thesis
    by (intro that [OF s(1), of bs' n']) (use s(2) o in \<open>auto simp: stored_def on_disk_def opened_def leaves_def passes_def listed_def same_dev_geometry\<close>)
qed

lemma load_opened:
  assumes o: "on_disk d bs n V" and h: "listed h d bs" and seg: "seg < 65536"
  obtains h' where "cl_file_loadsegment (int seg) h d = Some (0, h')" "opened h' d bs n V" "h_segment h' = seg"
    "h_op h' = h_op h" "h_bytes_left h' = h_bytes_left h" "h_size h' = h_size h" "h_amode h' = h_amode h"
    "h_list_block h' = h_list_block h"
proof -
  have fd: "file_disk d bs n" using o by (simp add: on_disk_def)
  obtain h' where l: "cl_file_loadsegment (int seg) h d = Some (0, h')"
    "bd_data (h_data h') = seg_data d bs n (of_int (int seg))" "bh_status (bd_hdr (h_data h')) = BLOCK_STATUS_OPEN"
    "h_segment h' = nat (int seg mod 65536)" "h_list_block h' = h_list_block h" "h_op h' = h_op h"
    "h_bytes_left h' = h_bytes_left h" "h_size h' = h_size h" "h_amode h' = h_amode h"
    "bh_serialno (bd_hdr (h_data h')) \<in> {serial_of d (hd bs), bh_serialno (bd_hdr (h_data h))}"
    by (rule loadsegment_effect [OF fd, of h "int seg"]) (use h in \<open>auto simp: listed_def\<close>)
  have "h_segment h' = seg" using l(4) seg by simp
  then show thesis
    by (intro that [OF l(1)]) (use o h seg l in \<open>auto simp: opened_def on_disk_def listed_def\<close>)
qed

subsection \<open>Copying from and to the segment in RAM\<close>

lemma set_op_simps [simp]:
  "h_op (set_op f h) = map_option f (h_op h)" "h_data (set_op f h) = h_data h" "h_segment (set_op f h) = h_segment h"
  "h_list_block (set_op f h) = h_list_block h" "h_bytes_left (set_op f h) = h_bytes_left h" "h_size (set_op f h) = h_size h"
  "h_amode (set_op f h) = h_amode h"
  by (simp_all add: set_op_def)

lemma set_data_simps [simp]:
  "h_op (set_data x h) = h_op h" "bd_data (h_data (set_data x h)) = x" "bd_hdr (h_data (set_data x h)) = bd_hdr (h_data h)"
  "h_segment (set_data x h) = h_segment h" "h_list_block (set_data x h) = h_list_block h"
  "h_bytes_left (set_data x h) = h_bytes_left h" "h_size (set_data x h) = h_size h" "h_amode (set_data x h) = h_amode h"
  by (simp_all add: set_data_def)

lemma set_ram_status_simps [simp]:
  "h_op (set_ram_status st h) = h_op h" "bd_data (h_data (set_ram_status st h)) = bd_data (h_data h)"
  "bh_status (bd_hdr (h_data (set_ram_status st h))) = st" "h_segment (set_ram_status st h) = h_segment h"
  "h_list_block (set_ram_status st h) = h_list_block h" "h_bytes_left (set_ram_status st h) = h_bytes_left h"
  "h_size (set_ram_status st h) = h_size h" "h_amode (set_ram_status st h) = h_amode h"
  "bh_serialno (bd_hdr (h_data (set_ram_status st h))) = bh_serialno (bd_hdr (h_data h))"
  "h_hdr_block (set_ram_status st h) = h_hdr_block h" "h_serialno_addr (set_ram_status st h) = h_serialno_addr h"
  by (simp_all add: set_ram_status_def)

lemma grow_simps [simp]:
  "h_op (grow h) = h_op h" "h_data (grow h) = h_data h" "h_segment (grow h) = h_segment h"
  "h_list_block (grow h) = h_list_block h" "h_bytes_left (grow h) = h_bytes_left h"
  "h_size (grow h) = max (h_size h) (op_loc (op_of h))" "h_amode (grow h) = h_amode h"
  by (simp_all add: grow_def)

lemma op_of_Some: "h_op h = Some p \<Longrightarrow> op_of h = p"
  by (simp add: op_of_def)

lemma op_buf_update: "op_buf (q\<lparr>op_loc := x, op_buf := y\<rparr>) = y"
  by simp

lemma page_size:
  assumes "h_op h = Some p" "op_loc p = int loc" "h_bytes_left h = int left" "loc + left \<le> 65535 * 122"
  shows "calc_page_size h = (int (min left (122 - loc mod 122)), loc mod 122)"
proof -
  have u: "unsigned_int (int loc) = int loc" "unsigned_int (int left) = int left"
    using assms(4) by (simp_all add: unsigned_int_def)
  have m: "int loc mod 122 = int (loc mod 122)" by (simp add: zmod_int)
  obtain r where r: "loc mod 122 = r" "r < 122" by simp
  have c: "(if int left > 122 - int r then 122 - int r else int left) = int (min left (122 - r))" using r(2) by auto
  show ?thesis using assms r c by (simp add: calc_page_size_def op_of_Some u m Let_def)
qed

lemma page_bounds:
  assumes "left \<noteq> 0"
  shows "0 < min left (122 - loc mod 122)" "min left (122 - loc mod 122) \<le> left"
    "loc mod 122 + min left (122 - loc mod 122) \<le> (122 :: nat)"
proof -
  obtain r where r: "loc mod 122 = r" "r < (122 :: nat)" by simp
  then show "0 < min left (122 - loc mod 122)" "min left (122 - loc mod 122) \<le> left"
    "loc mod 122 + min left (122 - loc mod 122) \<le> (122 :: nat)"
    using assms by simp_all
qed

text \<open>The transfer after \<open>k\<close> bytes; \<open>opened\<close> does not depend on it.\<close>

lemma opened_cong:
  "h_list_block h' = h_list_block h \<Longrightarrow> h_segment h' = h_segment h \<Longrightarrow> h_data h' = h_data h \<Longrightarrow> opened h' d bs n V = opened h d bs n V"
  by (simp add: opened_def listed_def)

lemma write_current:
  assumes o: "opened h d bs n V" and p: "h_op h = Some p" "op_loc p = int loc" "h_bytes_left h = int left" "length (op_buf p) = left"
    and b: "loc + left \<le> 65535 * 122" and seg: "left = 0 \<or> h_segment h = loc div 122" and sz: "int loc \<le> h_size h"
  obtains h' V' k where "write_current_segment h = h'" "k = min left (122 - loc mod 122)" "opened h' d bs n V'"
    "wrote V loc (take k (op_buf p)) V'" "h_op h' = Some (p\<lparr>op_loc := int (loc + k), op_buf := drop k (op_buf p)\<rparr>)"
    "h_bytes_left h' = int (left - k)" "h_size h' = max (h_size h) (int (loc + k))" "h_list_block h' = h_list_block h"
    "h_segment h' = h_segment h" "h_amode h' = h_amode h"
proof -
  define k where "k = min left (122 - loc mod 122)"
  have ps: "calc_page_size h = (int k, loc mod 122)" unfolding k_def by (rule page_size [OF p(1-3) b])
  have so: "segments_ok V" by (rule opened_segments [OF o])
  show thesis
  proof (cases "left = 0")
    case True
    then have "k = 0" by (simp add: k_def)
    then show thesis using True p sz
      by (intro that [OF _ k_def, of h V]) (use o ps so in \<open>simp_all add: write_current_segment_def\<close>)
  next
    case False
    then have s: "h_segment h = loc div 122" using seg by simp
    have k0: "0 < k" "k \<le> left" "loc mod 122 + k \<le> 122" using page_bounds [of left loc] False by (simp_all only: k_def)
    have "loc < 122 * 65535" using False b by simp
    then have q: "loc div 122 < 65535" by (simp add: less_mult_imp_div_less mult.commute)
    define V' where "V' = V(loc div 122 := overlay (loc mod 122) (take k (op_buf p)) (V (loc div 122)))"
    have w: "wrote V loc (take k (op_buf p)) V'" unfolding V'_def
      by (rule wrote_segment [OF so _ q]) (use k0 p(4) in simp)
    have len: "length (V (loc div 122)) = 122" using so q by (simp add: segments_ok_def)
    have ram: "bd_data (h_data h) = V (loc div 122)" using o s q by (simp add: opened_def)
    define h' where "h' = write_current_segment h"
    have h': "h' = grow (set_op (\<lambda>p. p\<lparr>op_loc := op_loc p + int k, op_buf := drop k (op_buf p)\<rparr>)
            (set_ram_status BLOCK_STATUS_CLOSED
              (set_data (overlay (loc mod 122) (take k (op_buf p)) (V (loc div 122)))
                (h\<lparr>h_bytes_left := h_bytes_left h - int k\<rparr>))))"
      using k0 p ps ram by (simp add: h'_def write_current_segment_def op_of_Some)
    have op: "h_op h' = Some (p\<lparr>op_loc := int (loc + k), op_buf := drop k (op_buf p)\<rparr>)" using p by (simp add: h')
    have "opened h' d bs n V'"
      using o s k0 len p(4) by (auto simp: opened_def listed_def h' V'_def)
    then show thesis
      by (rule that [OF h'_def [symmetric] k_def _ w op]) (use p k0(2) in \<open>simp_all add: h' op_of_def of_nat_diff\<close>)
  qed
qed

lemma read_current:
  assumes o: "opened h d bs n V" and p: "h_op h = Some p" "op_loc p = int loc" "h_bytes_left h = int left"
    and b: "loc + left \<le> 65535 * 122" and seg: "left = 0 \<or> h_segment h = loc div 122"
  obtains h' k where "read_current_segment h = h'" "k = min left (122 - loc mod 122)" "opened h' d bs n V"
    "h_op h' = Some (p\<lparr>op_loc := int (loc + k), op_buf := op_buf p @ map (byte_at V) [loc ..< loc + k]\<rparr>)"
    "h_bytes_left h' = int (left - k)" "h_size h' = h_size h" "h_list_block h' = h_list_block h"
    "h_segment h' = h_segment h" "h_amode h' = h_amode h"
proof -
  define k where "k = min left (122 - loc mod 122)"
  have ps: "calc_page_size h = (int k, loc mod 122)" unfolding k_def by (rule page_size [OF p(1-3) b])
  show thesis
  proof (cases "left = 0")
    case True
    then have "k = 0" by (simp add: k_def)
    then show thesis using True p
      by (intro that [OF _ k_def, of h]) (use o ps in \<open>simp_all add: read_current_segment_def\<close>)
  next
    case False
    then have s: "h_segment h = loc div 122" using seg by simp
    have k0: "0 < k" "k \<le> left" "loc mod 122 + k \<le> 122" using page_bounds [of left loc] False by (simp_all only: k_def)
    have "loc < 122 * 65535" using False b by simp
    then have q: "loc div 122 < 65535" by (simp add: less_mult_imp_div_less mult.commute)
    have ram: "bd_data (h_data h) = V (loc div 122)" using o s q by (simp add: opened_def)
    have len: "length (V (loc div 122)) = 122" using opened_segments [OF o] q by (simp add: segments_ok_def)
    have bya: "take k (drop (loc mod 122) (V (loc div 122))) = map (byte_at V) [loc ..< loc + k]"
      by (rule byte_at_segment [of loc k V, OF k0(3) len])
    define h' where "h' = read_current_segment h"
    have h': "h' = set_op (\<lambda>p. p\<lparr>op_loc := op_loc p + int k, op_buf := op_buf p @ map (byte_at V) [loc ..< loc + k]\<rparr>)
            (h\<lparr>h_bytes_left := h_bytes_left h - int k\<rparr>)"
      using k0 p ps ram by (simp add: h'_def read_current_segment_def bya)
    have "opened h' d bs n V" using o by (subst opened_cong [of h' h]) (simp_all add: h')
    then show thesis
      by (rule that [OF h'_def [symmetric] k_def]) (use p k0(2) in \<open>simp_all add: h' of_nat_diff\<close>)
  qed
qed

subsection \<open>Writing\<close>

lemma on_disk_segments: "on_disk d bs n V \<Longrightarrow> segments_ok V"
  by (auto simp: on_disk_def segments_ok_def) (metis length_seg_data)

lemma on_disk_opened:
  assumes "on_disk d bs n V" "listed h d bs" "h_segment h < 65535" "length data = 122"
  shows "opened (set_ram_status BLOCK_STATUS_CLOSED (set_data data h)) d bs n (V(h_segment h := data))"
  using assms by (simp add: opened_def on_disk_def listed_def)

lemma write_loop:
  "on_disk d bs n V \<Longrightarrow> listed h d bs \<Longrightarrow> h_op h = Some p \<Longrightarrow> 122 * m \<le> length (op_buf p) \<Longrightarrow>
   h_segment h + m \<le> 65535 \<Longrightarrow> 2 * m \<le> card (free_blocks d) \<Longrightarrow>
   \<exists>h' d' bs' n' V'. file_write_loop m h d = Some (0, h', d') \<and> on_disk d' bs' n' V' \<and> hd bs' = hd bs
     \<and> wrote V (122 * h_segment h) (take (122 * m) (op_buf p)) V' \<and> leaves d bs d' bs' \<and> listed h' d' bs'
     \<and> card (free_blocks d) \<le> card (free_blocks d') + 2 * m
     \<and> h_op h' = Some (p\<lparr>op_buf := drop (122 * m) (op_buf p)\<rparr>) \<and> h_segment h' = h_segment h + m
     \<and> h_list_block h' = h_list_block h \<and> h_bytes_left h' = h_bytes_left h \<and> h_size h' = h_size h \<and> h_amode h' = h_amode h"
proof (induction m arbitrary: d bs n V h p)
  case 0
  then show ?case using on_disk_segments [OF "0.prems"(1)]
    by (intro exI [of _ h] exI [of _ d] exI [of _ bs] exI [of _ n] exI [of _ V]) simp
next
  case (Suc m)
  define data where "data = take 122 (op_buf p)"
  have len: "length data = 122" using Suc.prems(4) by (simp add: data_def)
  let ?h = "set_ram_status BLOCK_STATUS_CLOSED (set_data data h)"
  have o: "opened ?h d bs n (V(h_segment h := data))"
    by (rule on_disk_opened [OF Suc.prems(1,2) _ len]) (use Suc.prems(5) in simp)
  obtain t mt d1 bs1 n1 where s: "cl_file_savesegment ?h d = Some (0, set_ram_status t (?h\<lparr>h_mtime := mt\<rparr>), d1)"
    "on_disk d1 bs1 n1 (V(h_segment h := data))" "hd bs1 = h_list_block ?h" "leaves d bs d1 bs1"
    "card (free_blocks d) \<le> card (free_blocks d1) + 2"
    by (rule save_opened [OF o]) (use Suc.prems(6) in auto)
  define h1 where "h1 = set_op (\<lambda>p. p\<lparr>op_buf := drop 122 (op_buf p)\<rparr>)
    ((set_ram_status t (?h\<lparr>h_mtime := mt\<rparr>))\<lparr>h_segment := (h_segment h + 1) mod 65536\<rparr>)"
  let ?p = "p\<lparr>op_buf := drop 122 (op_buf p)\<rparr>"
  have h1: "h_op h1 = Some ?p" "h_segment h1 = h_segment h + 1" "h_list_block h1 = h_list_block h"
    "h_bytes_left h1 = h_bytes_left h" "h_size h1 = h_size h" "h_amode h1 = h_amode h"
    using Suc.prems(3,5) by (simp_all add: h1_def)
  have ls: "listed h1 d1 bs1"
    by (rule leaves_listed [OF listed_cong [OF Suc.prems(2)] s(4)]) (simp_all add: h1_def)
  have step: "file_write_loop (Suc m) h d = file_write_loop m h1 d1"
    using s(1) Suc.prems(3) by (simp add: h1_def op_of_Some data_def [symmetric] Let_def)
  have w1: "wrote V (122 * h_segment h) data (V(h_segment h := data))"
  proof -
    have "length (V (h_segment h)) = 122" using on_disk_segments [OF Suc.prems(1)] Suc.prems(5) by (simp add: segments_ok_def)
    then have "overlay 0 data (V (h_segment h)) = data" using len by (simp add: overlay_def)
    then show ?thesis
      using wrote_segment [OF on_disk_segments [OF Suc.prems(1)], of "122 * h_segment h" data] len Suc.prems(5) by simp
  qed
  have "\<exists>h' d' bs' n' V'. file_write_loop m h1 d1 = Some (0, h', d') \<and> on_disk d' bs' n' V' \<and> hd bs' = hd bs1
     \<and> wrote (V(h_segment h := data)) (122 * h_segment h1) (take (122 * m) (op_buf ?p)) V' \<and> leaves d1 bs1 d' bs' \<and> listed h' d' bs'
     \<and> card (free_blocks d1) \<le> card (free_blocks d') + 2 * m
     \<and> h_op h' = Some (?p\<lparr>op_buf := drop (122 * m) (op_buf ?p)\<rparr>) \<and> h_segment h' = h_segment h1 + m
     \<and> h_list_block h' = h_list_block h1 \<and> h_bytes_left h' = h_bytes_left h1 \<and> h_size h' = h_size h1 \<and> h_amode h' = h_amode h1"
    by (rule Suc.IH [OF s(2) ls]) (use h1 s(3,5) Suc.prems in \<open>simp_all\<close>)
  then obtain h' d' bs' n' V' where ih: "file_write_loop m h1 d1 = Some (0, h', d')" "on_disk d' bs' n' V'" "hd bs' = hd bs1"
     "wrote (V(h_segment h := data)) (122 * h_segment h1) (take (122 * m) (op_buf ?p)) V'" "leaves d1 bs1 d' bs'" "listed h' d' bs'"
     "card (free_blocks d1) \<le> card (free_blocks d') + 2 * m"
     "h_op h' = Some (?p\<lparr>op_buf := drop (122 * m) (op_buf ?p)\<rparr>)" "h_segment h' = h_segment h1 + m"
     "h_list_block h' = h_list_block h1" "h_bytes_left h' = h_bytes_left h1" "h_size h' = h_size h1" "h_amode h' = h_amode h1"
    by blast
  have "take (122 * Suc m) (op_buf p) = data @ take (122 * m) (op_buf ?p)"
    using take_add [of 122 "122 * m" "op_buf p"] by (simp add: data_def)
  then have "wrote V (122 * h_segment h) (take (122 * Suc m) (op_buf p)) V'"
    using wrote_append [OF w1, of "take (122 * m) (op_buf ?p)" V'] ih(4) len h1(2) by (simp add: algebra_simps)
  moreover have "drop (122 * Suc m) (op_buf p) = drop (122 * m) (op_buf ?p)" by (simp add: add.commute)
  ultimately show ?case
    using ih h1 s(3-5) Suc.prems(2) [unfolded listed_def] step leaves_trans [OF s(4) ih(5)]
    by (intro exI [of _ h'] exI [of _ d'] exI [of _ bs'] exI [of _ n'] exI [of _ V']) simp
qed

lemma unsigned_div:
  assumes "n < 2 ^ 32"
  shows "unsigned_int (int n) div int BLOCK_DATA_SIZE = int (n div 122)"
proof -
  have "unsigned_int (int n) = int n" using assms by (simp add: unsigned_int_def)
  then show ?thesis by (simp add: zdiv_int)
qed

lemma segment_of_nat: "n < 2 ^ 32 \<Longrightarrow> segment_of_loc (int n) = int (n div 122)"
  unfolding segment_of_loc_def by (rule unsigned_div)

lemma file_write_effect:
  assumes o: "on_disk d bs n V" and h: "listed h d bs" "h_op h = Some p" "h_segment h = s"
    and p: "op_loc p = int (122 * s)" "h_bytes_left h = int left" "length (op_buf p) = left" "int (122 * s) \<le> h_size h"
    and b: "122 * s + left \<le> 65535 * 122" and room: "2 * (left div 122) \<le> card (free_blocks d)"
  obtains h' d' bs' n' V' where
    "cl_file_write (int s) (unsigned_int (int left) div int BLOCK_DATA_SIZE) h d = Some (0, h', d')" "on_disk d' bs' n' V'"
    "hd bs' = hd bs" "wrote V (122 * s) (take (122 * (left div 122)) (op_buf p)) V'" "leaves d bs d' bs'"
    "card (free_blocks d) \<le> card (free_blocks d') + 2 * (left div 122)"
    "h_op h' = Some (p\<lparr>op_loc := int (122 * (s + left div 122)), op_buf := drop (122 * (left div 122)) (op_buf p)\<rparr>)"
    "h_segment h' = s + left div 122" "h_list_block h' = h_list_block h" "h_bytes_left h' = int (left mod 122)"
    "h_size h' = max (h_size h) (int (122 * (s + left div 122)))" "h_amode h' = h_amode h" "listed h' d' bs'"
proof -
  let ?m = "left div 122"
  have nseg: "unsigned_int (int left) div int BLOCK_DATA_SIZE = int ?m" using b by (intro unsigned_div) simp
  have ml: "122 * ?m \<le> left" by simp
  have s: "s + ?m \<le> 65535" using b ml by simp
  show thesis
  proof (cases "?m = 0")
    case True
    then have "left mod 122 = left" by simp
    then show thesis using True nseg
      by (intro that [of h d bs n V])
         (use o h p on_disk_segments [OF o] in \<open>simp_all add: cl_file_write_def\<close>)
  next
    case False
    let ?h = "h\<lparr>h_segment := nat (int s mod 65536)\<rparr>"
    have seg: "nat (int s mod 65536) = s" using s by simp
    obtain h1 d' bs' n' V' where l: "file_write_loop ?m ?h d = Some (0, h1, d')" "on_disk d' bs' n' V'" "hd bs' = hd bs"
      "wrote V (122 * s) (take (122 * ?m) (op_buf p)) V'" "leaves d bs d' bs'"
      "card (free_blocks d) \<le> card (free_blocks d') + 2 * ?m"
      "h_op h1 = Some (p\<lparr>op_buf := drop (122 * ?m) (op_buf p)\<rparr>)" "h_segment h1 = s + ?m"
      "h_list_block h1 = h_list_block h" "h_bytes_left h1 = h_bytes_left h" "h_size h1 = h_size h" "h_amode h1 = h_amode h"
      "listed h1 d' bs'"
      using write_loop [OF o, of ?h p ?m] h listed_cong [OF h(1), of ?h] p ml s room seg by auto
    define h' where "h' = grow (set_op (\<lambda>p. p\<lparr>op_loc := op_loc p + int BLOCK_DATA_SIZE * int ?m\<rparr>)
         (h1\<lparr>h_bytes_left := h_bytes_left h1 - int BLOCK_DATA_SIZE * int ?m\<rparr>))"
    have run: "cl_file_write (int s) (unsigned_int (int left) div int BLOCK_DATA_SIZE) h d = Some (0, h', d')"
      unfolding nseg using l(1) False by (simp add: cl_file_write_def h'_def)
    have op: "h_op h' = Some (p\<lparr>op_loc := int (122 * (s + ?m)), op_buf := drop (122 * ?m) (op_buf p)\<rparr>)"
      using l(7) p(1) by (simp add: h'_def algebra_simps)
    have left: "h_bytes_left h' = int (left mod 122)"
    proof -
      have "left = 122 * ?m + left mod 122" by simp
      then have "int left = int BLOCK_DATA_SIZE * int ?m + int (left mod 122)" by (metis of_nat_add of_nat_mult)
      then show ?thesis using l(10) p(2) by (simp add: h'_def)
    qed
    have size: "h_size h' = max (h_size h) (int (122 * (s + ?m)))"
      using l(7,11) p(1) by (simp add: h'_def op_of_def algebra_simps)
    have ls: "listed h' d' bs'" by (rule listed_cong [OF l(13)]) (simp_all add: h'_def)
    have "h_segment h' = s + ?m" "h_list_block h' = h_list_block h" "h_amode h' = h_amode h"
      using l by (simp_all add: h'_def)
    then show thesis using ls by (rule that [OF run l(2-6) op _ _ left size])
  qed
qed

lemma next_segment:
  assumes "k + loc mod 122 = (122 :: nat)"
  shows "loc + k = 122 * (loc div 122 + 1)"
proof -
  have "a + k = 122 * (q + 1)" if "a = 122 * q + r" "k + r = 122" for a q r :: nat using that by simp
  from this [OF _ assms, of loc "loc div 122"] show ?thesis by simp
qed

text \<open>The full segments and the last one, from a segment boundary.\<close>

lemma write_rest:
  assumes o: "on_disk d bs n V" and h: "listed h d bs" "h_op h = Some p" "h_segment h = s"
    and p: "op_loc p = int (122 * s)" "h_bytes_left h = int left" "length (op_buf p) = left" "int (122 * s) \<le> h_size h"
    and b: "122 * s + left \<le> 65535 * 122" and room: "2 * (left div 122) \<le> card (free_blocks d)"
  obtains h6 d6 h7 h8 bs6 n6 V8 where
    "cl_file_write (int s) (unsigned_int (int left) div int BLOCK_DATA_SIZE) h d = Some (0, h6, d6)"
    "cl_file_loadsegment (int (h_segment h6)) h6 d6 = Some (0, h7)" "write_current_segment h7 = h8"
    "opened h8 d6 bs6 n6 V8" "wrote V (122 * s) (op_buf p) V8" "leaves d bs d6 bs6" "hd bs6 = hd bs"
    "h_size h8 = max (h_size h) (int (122 * s + left))" "h_amode h8 = h_amode h" "op_nbyte (op_of h8) = op_nbyte p"
    "card (free_blocks d) \<le> card (free_blocks d6) + 2 * (left div 122)"
proof -
  let ?m = "left div 122"
  obtain h6 d6 bs6 n6 V6 where w6:
    "cl_file_write (int s) (unsigned_int (int left) div int BLOCK_DATA_SIZE) h d = Some (0, h6, d6)" "on_disk d6 bs6 n6 V6"
    "hd bs6 = hd bs" "wrote V (122 * s) (take (122 * ?m) (op_buf p)) V6" "leaves d bs d6 bs6"
    "card (free_blocks d) \<le> card (free_blocks d6) + 2 * ?m"
    "h_op h6 = Some (p\<lparr>op_loc := int (122 * (s + ?m)), op_buf := drop (122 * ?m) (op_buf p)\<rparr>)"
    "h_segment h6 = s + ?m" "h_list_block h6 = h_list_block h" "h_bytes_left h6 = int (left mod 122)"
    "h_size h6 = max (h_size h) (int (122 * (s + ?m)))" "h_amode h6 = h_amode h" "listed h6 d6 bs6"
    by (rule file_write_effect [OF o h p b room]) (rule that, assumption+)
  define s7 r7 where "s7 = s + ?m" and "r7 = left mod 122"
  have lr: "122 * s7 + r7 = 122 * s + left" by (simp add: s7_def r7_def algebra_simps)
  then have b7: "122 * s7 + r7 \<le> 65535 * 122" using b by simp
  then have s7: "s7 < 65536" by simp
  obtain h7 where l7: "cl_file_loadsegment (int s7) h6 d6 = Some (0, h7)" "opened h7 d6 bs6 n6 V6" "h_segment h7 = s7"
    "h_op h7 = h_op h6" "h_bytes_left h7 = h_bytes_left h6" "h_size h7 = h_size h6" "h_amode h7 = h_amode h6"
    "h_list_block h7 = h_list_block h6"
    by (rule load_opened [OF w6(2,13) s7])
  let ?p7 = "p\<lparr>op_loc := int (122 * s7), op_buf := drop (122 * ?m) (op_buf p)\<rparr>"
  have len7: "length (op_buf ?p7) = r7" using p(3) by (simp add: r7_def minus_mult_div_eq_mod)
  have p7: "h_op h7 = Some ?p7" "op_loc ?p7 = int (122 * s7)" "h_bytes_left h7 = int r7" "int (122 * s7) \<le> h_size h7"
    "h_segment h7 = 122 * s7 div 122"
    using l7 w6(7,10,11) by (simp_all add: s7_def r7_def)
  obtain h8 V8 k8 where w8: "write_current_segment h7 = h8" "k8 = min r7 (122 - (122 * s7) mod 122)" "opened h8 d6 bs6 n6 V8"
    "wrote V6 (122 * s7) (take k8 (op_buf ?p7)) V8" "h_op h8 = Some (?p7\<lparr>op_loc := int (122 * s7 + k8), op_buf := drop k8 (op_buf ?p7)\<rparr>)"
    "h_bytes_left h8 = int (r7 - k8)" "h_size h8 = max (h_size h7) (int (122 * s7 + k8))" "h_list_block h8 = h_list_block h7"
    "h_segment h8 = h_segment h7" "h_amode h8 = h_amode h7"
    by (rule write_current [OF l7(2) p7(1-3) len7 b7 disjI2 [OF p7(5)] p7(4)]) (rule that, assumption+)
  have k8: "k8 = r7" using w8(2) by (simp add: r7_def)
  have "wrote V (122 * s) (take (122 * ?m) (op_buf p) @ op_buf ?p7) V8"
  proof (rule wrote_append [OF w6(4)])
    have l: "122 * s + length (take (122 * ?m) (op_buf p)) = 122 * s7" using p(3) by (simp add: s7_def)
    have t: "take k8 (op_buf ?p7) = op_buf ?p7" using len7 k8 by (intro take_all) simp
    show "wrote V6 (122 * s + length (take (122 * ?m) (op_buf p))) (op_buf ?p7) V8"
      unfolding l using w8(4) [unfolded t] .
  qed
  then have w: "wrote V (122 * s) (op_buf p) V8" by simp
  have "h_size h8 = max (h_size h) (int (122 * s + left))"
  proof -
    have "max (max a y) z = max a z" if "y \<le> z" for a y z :: int using that by simp
    from this [of "int (122 * s7)" "int (122 * s + left)" "h_size h"] show ?thesis
      using w8(7) l7(6) w6(11) lr unfolding k8 s7_def [symmetric] by simp
  qed
  moreover have "op_nbyte (op_of h8) = op_nbyte p" "h_amode h8 = h_amode h"
    using w8(5,10) l7(7) w6(12) by (simp_all add: op_of_def)
  ultimately show thesis
    using that [OF w6(1) _ w8(1,3) w w6(5,3) _ _ _ w6(6)] l7(1) w6(8) unfolding s7_def by simp
qed

text \<open>
  From the transfer as \<open>cl_file_startwrite\<close> leaves it: the rest of the bytes goes to the following
  segments.
\<close>

lemma finishwrite_effect:
  assumes o: "opened h d bs n V" and p: "h_op h = Some p" "op_loc p = int loc" "h_bytes_left h = int left" "length (op_buf p) = left"
    and b: "loc + left \<le> 65535 * 122" and sz: "int loc \<le> h_size h"
    and room: "2 * (left div 122) + 4 \<le> card (free_blocks d)"
  obtains h' d' bs' n' V' where "cl_file_finishwrite h d = Some (0, h', d')" "opened h' d' bs' n' V'" "wrote V loc (op_buf p) V'"
    "leaves d bs d' bs'" "h_size h' = max (h_size h) (int (loc + left))" "h_amode h' = h_amode h"
    "op_nbyte (op_of h') = op_nbyte p" "hd bs' = hd bs"
    "card (free_blocks d) \<le> card (free_blocks d') + (2 * (left div 122) + 4)"
proof -
  obtain t m d1 bs1 n1 where s1: "cl_file_savesegment h d = Some (0, set_ram_status t (h\<lparr>h_mtime := m\<rparr>), d1)" "on_disk d1 bs1 n1 V"
    "hd bs1 = h_list_block h" "leaves d bs d1 bs1" "card (free_blocks d) \<le> card (free_blocks d1) + 2"
    by (rule save_opened [OF o]) (use room in auto)
  let ?h1 = "set_ram_status t (h\<lparr>h_mtime := m\<rparr>)"
  have ls: "listed h d bs" using o by (simp add: opened_def)
  have ls1: "listed ?h1 d1 bs1" by (rule leaves_listed [OF listed_cong [OF ls] s1(4)]) simp_all
  have seg: "segment_of_loc (op_loc (op_of ?h1)) = int (loc div 122)"
    using p b by (simp add: op_of_def segment_of_nat)
  have "loc div 122 \<le> (65535 * 122) div 122" using b by (intro div_le_mono) simp
  then have q: "loc div 122 < 65536" by simp
  obtain h2 where l2: "cl_file_loadsegment (int (loc div 122)) ?h1 d1 = Some (0, h2)" "opened h2 d1 bs1 n1 V" "h_segment h2 = loc div 122"
    "h_op h2 = h_op ?h1" "h_bytes_left h2 = h_bytes_left ?h1" "h_size h2 = h_size ?h1" "h_amode h2 = h_amode ?h1"
    "h_list_block h2 = h_list_block ?h1"
    by (rule load_opened [OF s1(2) ls1 q])
  have p2: "h_op h2 = Some p" "h_bytes_left h2 = int left" and sz2: "int loc \<le> h_size h2" using l2(4-6) p sz by simp_all
  obtain h3 V3 k where w3: "write_current_segment h2 = h3" "k = min left (122 - loc mod 122)" "opened h3 d1 bs1 n1 V3"
    "wrote V loc (take k (op_buf p)) V3" "h_op h3 = Some (p\<lparr>op_loc := int (loc + k), op_buf := drop k (op_buf p)\<rparr>)"
    "h_bytes_left h3 = int (left - k)" "h_size h3 = max (h_size h2) (int (loc + k))" "h_list_block h3 = h_list_block h2"
    "h_segment h3 = h_segment h2" "h_amode h3 = h_amode h2"
    by (rule write_current [OF l2(2) p2(1) p(2) p2(2) p(4) b disjI2 [OF l2(3)] sz2])
  have hd1: "hd bs1 = hd bs" using s1(3) o by (simp add: opened_def listed_def)
  note run = s1(1) seg l2(1) w3(1)
  show thesis
  proof (cases "left \<le> k")
    case True
    then have k: "k = left" using w3(2) by simp
    show thesis
      by (rule that [of h3 d1 bs1 n1 V3])
         (use run w3(3-) k p(4) l2(6,7) s1(4,5) hd1 in \<open>simp_all add: cl_file_finishwrite_def Let_def op_of_def\<close>)
  next
    case False
    then have k: "k = 122 - loc mod 122" using w3(2) by simp
    define s where "s = loc div 122 + 1"
    have mm: "loc mod 122 < 122" by simp
    have "k + loc mod 122 = 122" using k mm by simp
    then have lk: "loc + k = 122 * s" unfolding s_def by (rule next_segment)
    obtain t4 m4 d4 bs4 n4 where s4: "cl_file_savesegment h3 d1 = Some (0, set_ram_status t4 (h3\<lparr>h_mtime := m4\<rparr>), d4)" "on_disk d4 bs4 n4 V3"
      "hd bs4 = h_list_block h3" "leaves d1 bs1 d4 bs4" "card (free_blocks d1) \<le> card (free_blocks d4) + 2"
      by (rule save_opened [OF w3(3)]) (use room s1(5) in auto)
    have sb: "122 * s + (left - k) \<le> 65535 * 122" using b lk False by simp
    then have s16: "s < 65536" by simp
    let ?h5 = "(set_ram_status t4 (h3\<lparr>h_mtime := m4\<rparr>))\<lparr>h_segment := (h_segment h3 + 1) mod 65536\<rparr>"
    have "listed h3 d1 bs1" using w3(3) by (simp add: opened_def)
    from listed_cong [OF this, of ?h5] s4(4) have "listed ?h5 d4 bs4" by (auto intro: leaves_listed)
    then have h5: "h_segment ?h5 = s" "listed ?h5 d4 bs4" using w3(9) l2(3) s16 by (simp_all add: s_def)
    let ?p5 = "p\<lparr>op_loc := int (loc + k), op_buf := drop k (op_buf p)\<rparr>"
    have p5: "h_op ?h5 = Some ?p5" "op_loc ?p5 = int (122 * s)" "h_bytes_left ?h5 = int (left - k)"
      "length (op_buf ?p5) = left - k" "int (122 * s) \<le> h_size ?h5"
      using w3(5-7) p(4) lk by simp_all
    have less: "(left - k) div 122 \<le> left div 122" by (intro div_le_mono) simp
    then have room4: "2 * ((left - k) div 122) \<le> card (free_blocks d4)" using room s1(5) s4(5) by linarith
    obtain h6 d6 h7 h8 bs6 n6 V8 where r:
      "cl_file_write (int s) (unsigned_int (int (left - k)) div int BLOCK_DATA_SIZE) ?h5 d4 = Some (0, h6, d6)"
      "cl_file_loadsegment (int (h_segment h6)) h6 d6 = Some (0, h7)" "write_current_segment h7 = h8"
      "opened h8 d6 bs6 n6 V8" "wrote V3 (122 * s) (op_buf ?p5) V8" "leaves d4 bs4 d6 bs6" "hd bs6 = hd bs4"
      "h_size h8 = max (h_size ?h5) (int (122 * s + (left - k)))" "h_amode h8 = h_amode ?h5" "op_nbyte (op_of h8) = op_nbyte ?p5"
      "card (free_blocks d4) \<le> card (free_blocks d6) + 2 * ((left - k) div 122)"
      by (rule write_rest [OF s4(2) h5(2) p5(1) h5(1) p5(2-5) sb room4]) (rule that, assumption+)
    have w: "wrote V loc (op_buf p) V8"
    proof -
      have "loc + length (take k (op_buf p)) = 122 * s" using p(4) lk False by simp
      then have "wrote V loc (take k (op_buf p) @ op_buf ?p5) V8" using wrote_append [OF w3(4), of "op_buf ?p5" V8] r(5) by simp
      then show ?thesis by simp
    qed
    show thesis
    proof (rule that [OF _ r(4) w])
      show "cl_file_finishwrite h d = Some (0, h8, d6)"
        using run s4(1) r(1-3) False w3(6) h5(1) by (simp add: cl_file_finishwrite_def Let_def)
      show "leaves d bs d6 bs6" by (rule leaves_trans [OF s1(4) leaves_trans [OF s4(4) r(6)]])
      have "max (max a y) z = max a z" if "y \<le> z" for a y z :: int using that by simp
      from this [of "int (loc + k)" "int (loc + left)" "h_size h"]
      show "h_size h8 = max (h_size h) (int (loc + left))" using r(8) w3(7) l2(6) lk False by simp
      show "h_amode h8 = h_amode h" using r(9) w3(10) l2(7) by simp
      show "op_nbyte (op_of h8) = op_nbyte p" using r(10) by simp
      show "hd bs6 = hd bs" using r(7) s4(3) w3(8) l2(8) s1(3) hd1 by simp
      show "card (free_blocks d) \<le> card (free_blocks d6) + (2 * (left div 122) + 4)"
        using s1(5) s4(5) r(11) less by linarith
    qed
  qed
qed

subsection \<open>Reading\<close>

lemma segment_bytes:
  assumes "segments_ok V" "s < 65535"
  shows "V s = map (byte_at V) [122 * s ..< 122 * s + 122]"
proof -
  have l: "length (V s) = 122" using assms by (simp add: segments_ok_def)
  then show ?thesis using byte_at_segment [of "122 * s" 122 V] by simp
qed

lemma map_upt_append: "i \<le> j \<Longrightarrow> j \<le> k \<Longrightarrow> map f [i ..< j] @ map f [j ..< k] = map f [i ..< k]"
  by (metis le_iff_add map_append upt_add_eq_append)

lemma read_loop:
  "on_disk d bs n V \<Longrightarrow> listed h d bs \<Longrightarrow> h_op h = Some p \<Longrightarrow> s + m \<le> 65535 \<Longrightarrow>
   \<exists>h'. file_read_loop (int s) m h d = Some (0, h')
     \<and> h_op h' = Some (p\<lparr>op_buf := op_buf p @ map (byte_at V) [122 * s ..< 122 * (s + m)]\<rparr>)
     \<and> h_segment h' = (if m = 0 then h_segment h else s + m - 1) \<and> listed h' d bs
     \<and> h_list_block h' = h_list_block h \<and> h_bytes_left h' = h_bytes_left h \<and> h_size h' = h_size h \<and> h_amode h' = h_amode h"
proof (induction m arbitrary: h p s)
  case (Suc m)
  have s: "s < 65536" "s < 65535" using Suc.prems(4) by simp_all
  obtain h1 where l: "cl_file_loadsegment (int s) h d = Some (0, h1)" "opened h1 d bs n V" "h_segment h1 = s"
    "h_op h1 = h_op h" "h_bytes_left h1 = h_bytes_left h" "h_size h1 = h_size h" "h_amode h1 = h_amode h"
    "h_list_block h1 = h_list_block h"
    by (rule load_opened [OF Suc.prems(1,2) s(1)])
  have dat: "bd_data (h_data h1) = map (byte_at V) [122 * s ..< 122 * s + 122]"
    using l(2,3) s(2) segment_bytes [OF on_disk_segments [OF Suc.prems(1)] s(2)] by (simp add: opened_def)
  define h2 where "h2 = set_op (\<lambda>p. p\<lparr>op_buf := op_buf p @ bd_data (h_data h1)\<rparr>) h1"
  let ?p = "p\<lparr>op_buf := op_buf p @ map (byte_at V) [122 * s ..< 122 * s + 122]\<rparr>"
  have h2: "h_op h2 = Some ?p" "h_segment h2 = s" "h_list_block h2 = h_list_block h"
    "h_bytes_left h2 = h_bytes_left h" "h_size h2 = h_size h" "h_amode h2 = h_amode h"
    using l Suc.prems(3) dat by (simp_all add: h2_def)
  have "listed h1 d bs" using l(2) by (simp add: opened_def)
  then have ls2: "listed h2 d bs" by (rule listed_cong) (simp_all add: h2_def)
  have "\<exists>h'. file_read_loop (int (s + 1)) m h2 d = Some (0, h')
     \<and> h_op h' = Some (?p\<lparr>op_buf := op_buf ?p @ map (byte_at V) [122 * (s + 1) ..< 122 * (s + 1 + m)]\<rparr>)
     \<and> h_segment h' = (if m = 0 then h_segment h2 else s + 1 + m - 1) \<and> listed h' d bs
     \<and> h_list_block h' = h_list_block h2 \<and> h_bytes_left h' = h_bytes_left h2 \<and> h_size h' = h_size h2 \<and> h_amode h' = h_amode h2"
    by (rule Suc.IH [OF Suc.prems(1) ls2]) (use h2 Suc.prems in simp_all)
  then obtain h' where ih: "file_read_loop (int (s + 1)) m h2 d = Some (0, h')"
     "h_op h' = Some (?p\<lparr>op_buf := op_buf ?p @ map (byte_at V) [122 * (s + 1) ..< 122 * (s + 1 + m)]\<rparr>)"
     "h_segment h' = (if m = 0 then h_segment h2 else s + 1 + m - 1)" "listed h' d bs"
     "h_list_block h' = h_list_block h2" "h_bytes_left h' = h_bytes_left h2" "h_size h' = h_size h2" "h_amode h' = h_amode h2"
    by blast
  have "map (byte_at V) [122 * s ..< 122 * s + 122] @ map (byte_at V) [122 * (s + 1) ..< 122 * (s + 1 + m)]
      = map (byte_at V) [122 * s ..< 122 * (s + Suc m)]"
    using map_upt_append [of "122 * s" "122 * s + 122" "122 * (s + Suc m)" "byte_at V"] by (simp add: add.commute)
  then have "h_op h' = Some (p\<lparr>op_buf := op_buf p @ map (byte_at V) [122 * s ..< 122 * (s + Suc m)]\<rparr>)"
    using ih(2) by simp
  moreover have "file_read_loop (int s) (Suc m) h d = Some (0, h')"
    using l(1) ih(1) by (simp add: h2_def add.commute)
  ultimately show ?case using ih(3-) h2 by (intro exI [of _ h']) auto
qed (auto intro!: exI)

lemma file_read_effect:
  assumes o: "on_disk d bs n V" and h: "listed h d bs" "h_op h = Some p" "h_segment h + 1 = s"
    and p: "op_loc p = int (122 * s)" "h_bytes_left h = int left" and b: "122 * s + left \<le> 65535 * 122"
  obtains h' where "cl_file_read (int s) (unsigned_int (int left) div int BLOCK_DATA_SIZE) h d = Some (0, h')"
    "h_op h' = Some (p\<lparr>op_loc := int (122 * (s + left div 122)),
       op_buf := op_buf p @ map (byte_at V) [122 * s ..< 122 * (s + left div 122)]\<rparr>)"
    "h_segment h' + 1 = s + left div 122" "h_list_block h' = h_list_block h" "h_bytes_left h' = int (left mod 122)"
    "h_size h' = h_size h" "h_amode h' = h_amode h" "listed h' d bs"
proof -
  let ?m = "left div 122"
  have nseg: "unsigned_int (int left) div int BLOCK_DATA_SIZE = int ?m" using b by (intro unsigned_div) simp
  have ml: "122 * ?m \<le> left" by simp
  have s: "s + ?m \<le> 65535" using b ml by simp
  show thesis
  proof (cases "?m = 0")
    case True
    then have "left mod 122 = left" by simp
    then show thesis using True nseg
      by (intro that [of h]) (use h p in \<open>simp_all add: cl_file_read_def\<close>)
  next
    case False
    from read_loop [OF o h(1,2) s] obtain h1 where l: "file_read_loop (int s) ?m h d = Some (0, h1)"
      "h_op h1 = Some (p\<lparr>op_buf := op_buf p @ map (byte_at V) [122 * s ..< 122 * (s + ?m)]\<rparr>)"
      "h_segment h1 = (if ?m = 0 then h_segment h else s + ?m - 1)"
      "h_list_block h1 = h_list_block h" "h_bytes_left h1 = h_bytes_left h" "h_size h1 = h_size h" "h_amode h1 = h_amode h"
      "listed h1 d bs"
      by blast
    define h' where "h' = set_op (\<lambda>p. p\<lparr>op_loc := op_loc p + int BLOCK_DATA_SIZE * int ?m\<rparr>)
         (h1\<lparr>h_bytes_left := h_bytes_left h1 - int BLOCK_DATA_SIZE * int ?m\<rparr>)"
    have run: "cl_file_read (int s) (unsigned_int (int left) div int BLOCK_DATA_SIZE) h d = Some (0, h')"
      unfolding nseg using l(1) False by (simp add: cl_file_read_def h'_def)
    have op: "h_op h' = Some (p\<lparr>op_loc := int (122 * (s + ?m)), op_buf := op_buf p @ map (byte_at V) [122 * s ..< 122 * (s + ?m)]\<rparr>)"
      using l(2) p(1) by (simp add: h'_def algebra_simps)
    have left: "h_bytes_left h' = int (left mod 122)"
    proof -
      have "left = 122 * ?m + left mod 122" by simp
      then have "int left = int BLOCK_DATA_SIZE * int ?m + int (left mod 122)" by (metis of_nat_add of_nat_mult)
      then show ?thesis using l(5) p(2) by (simp add: h'_def)
    qed
    have ls: "listed h' d bs" by (rule listed_cong [OF l(8)]) (simp_all add: h'_def)
    show thesis by (rule that [OF run op _ _ left _ _ ls]) (use l False in \<open>simp_all add: h'_def\<close>)
  qed
qed

lemma finishread_effect:
  assumes o: "opened h d bs n V" and p: "h_op h = Some p" "op_loc p = int loc" "h_bytes_left h = int left"
    and b: "loc + left \<le> 65535 * 122" and room: "2 \<le> card (free_blocks d)"
  obtains h' d' bs' n' where "cl_file_finishread h d = Some (0, h', d')" "opened h' d' bs' n' V" "leaves d bs d' bs'"
    "op_buf (op_of h') = op_buf p @ map (byte_at V) [loc ..< loc + left]" "h_size h' = h_size h" "h_amode h' = h_amode h"
    "op_nbyte (op_of h') = op_nbyte p" "hd bs' = hd bs" "card (free_blocks d) \<le> card (free_blocks d') + 2"
proof -
  obtain t m d1 bs1 n1 where s1: "cl_file_savesegment h d = Some (0, set_ram_status t (h\<lparr>h_mtime := m\<rparr>), d1)" "on_disk d1 bs1 n1 V"
    "hd bs1 = h_list_block h" "leaves d bs d1 bs1" "card (free_blocks d) \<le> card (free_blocks d1) + 2"
    by (rule save_opened [OF o room])
  let ?h1 = "set_ram_status t (h\<lparr>h_mtime := m\<rparr>)"
  have ls: "listed h d bs" using o by (simp add: opened_def)
  have ls1: "listed ?h1 d1 bs1" by (rule leaves_listed [OF listed_cong [OF ls] s1(4)]) simp_all
  have seg: "segment_of_loc (op_loc (op_of ?h1)) = int (loc div 122)"
    using p b by (simp add: op_of_def segment_of_nat)
  have "loc div 122 \<le> (65535 * 122) div 122" using b by (intro div_le_mono) simp
  then have q: "loc div 122 < 65536" by simp
  obtain h2 where l2: "cl_file_loadsegment (int (loc div 122)) ?h1 d1 = Some (0, h2)" "opened h2 d1 bs1 n1 V" "h_segment h2 = loc div 122"
    "h_op h2 = h_op ?h1" "h_bytes_left h2 = h_bytes_left ?h1" "h_size h2 = h_size ?h1" "h_amode h2 = h_amode ?h1"
    "h_list_block h2 = h_list_block ?h1"
    by (rule load_opened [OF s1(2) ls1 q])
  have p2: "h_op h2 = Some p" "h_bytes_left h2 = int left" using l2(4,5) p by simp_all
  obtain h3 k where w3: "read_current_segment h2 = h3" "k = min left (122 - loc mod 122)" "opened h3 d1 bs1 n1 V"
    "h_op h3 = Some (p\<lparr>op_loc := int (loc + k), op_buf := op_buf p @ map (byte_at V) [loc ..< loc + k]\<rparr>)"
    "h_bytes_left h3 = int (left - k)" "h_size h3 = h_size h2" "h_list_block h3 = h_list_block h2"
    "h_segment h3 = h_segment h2" "h_amode h3 = h_amode h2"
    by (rule read_current [OF l2(2) p2(1) p(2) p2(2) b disjI2 [OF l2(3)]])
  have hd1: "hd bs1 = hd bs" using s1(3) o by (simp add: opened_def listed_def)
  note run = s1(1) seg l2(1) w3(1)
  show thesis
  proof (cases "left \<le> k")
    case True
    then have k: "k = left" using w3(2) by simp
    show thesis
      by (rule that [of h3 d1 bs1 n1])
         (use run w3(3-) k l2(6,7) s1(4,5) hd1 in \<open>simp_all add: cl_file_finishread_def Let_def op_of_def\<close>)
  next
    case False
    then have k: "k = 122 - loc mod 122" using w3(2) by simp
    define s where "s = loc div 122 + 1"
    have mm: "loc mod 122 < 122" by simp
    have "k + loc mod 122 = 122" using k mm by simp
    then have lk: "loc + k = 122 * s" unfolding s_def by (rule next_segment)
    have sb: "122 * s + (left - k) \<le> 65535 * 122" using b lk False by simp
    let ?p3 = "p\<lparr>op_loc := int (loc + k), op_buf := op_buf p @ map (byte_at V) [loc ..< loc + k]\<rparr>"
    have p3: "listed h3 d1 bs1" "h_segment h3 + 1 = s" "op_loc ?p3 = int (122 * s)"
      using w3(3,8) l2(3) lk by (simp_all add: s_def opened_def)
    obtain h4 where r4: "cl_file_read (int s) (unsigned_int (int (left - k)) div int BLOCK_DATA_SIZE) h3 d1 = Some (0, h4)"
      "h_op h4 = Some (?p3\<lparr>op_loc := int (122 * (s + (left - k) div 122)),
         op_buf := op_buf ?p3 @ map (byte_at V) [122 * s ..< 122 * (s + (left - k) div 122)]\<rparr>)"
      "h_segment h4 + 1 = s + (left - k) div 122" "h_list_block h4 = h_list_block h3" "h_bytes_left h4 = int ((left - k) mod 122)"
      "h_size h4 = h_size h3" "h_amode h4 = h_amode h3" "listed h4 d1 bs1"
      by (rule file_read_effect [OF s1(2) p3(1) w3(4) p3(2,3) w3(5) sb])
    define s5 r5 where "s5 = s + (left - k) div 122" and "r5 = (left - k) mod 122"
    have lr: "122 * s5 + r5 = 122 * s + (left - k)" by (simp add: s5_def r5_def algebra_simps)
    then have b5: "122 * s5 + r5 \<le> 65535 * 122" using sb by simp
    then have s5: "s5 < 65536" by simp
    obtain h5 where l5: "cl_file_loadsegment (int s5) h4 d1 = Some (0, h5)" "opened h5 d1 bs1 n1 V" "h_segment h5 = s5"
      "h_op h5 = h_op h4" "h_bytes_left h5 = h_bytes_left h4" "h_size h5 = h_size h4" "h_amode h5 = h_amode h4"
      "h_list_block h5 = h_list_block h4"
      by (rule load_opened [OF s1(2) r4(8) s5])
    let ?p5 = "?p3\<lparr>op_loc := int (122 * s5), op_buf := op_buf ?p3 @ map (byte_at V) [122 * s ..< 122 * s5]\<rparr>"
    have p5: "h_op h5 = Some ?p5" "op_loc ?p5 = int (122 * s5)" "h_bytes_left h5 = int r5" "h_segment h5 = 122 * s5 div 122"
      using l5 r4(2,5) by (simp_all add: s5_def r5_def)
    obtain h6 k6 where w6: "read_current_segment h5 = h6" "k6 = min r5 (122 - (122 * s5) mod 122)" "opened h6 d1 bs1 n1 V"
      "h_op h6 = Some (?p5\<lparr>op_loc := int (122 * s5 + k6), op_buf := op_buf ?p5 @ map (byte_at V) [122 * s5 ..< 122 * s5 + k6]\<rparr>)"
      "h_bytes_left h6 = int (r5 - k6)" "h_size h6 = h_size h5" "h_list_block h6 = h_list_block h5"
      "h_segment h6 = h_segment h5" "h_amode h6 = h_amode h5"
      by (rule read_current [OF l5(2) p5(1-3) b5 disjI2 [OF p5(4)]])
    have e: "122 * s5 + k6 = loc + left" using lr lk False w6(2) by (simp add: r5_def)
    have le: "loc \<le> 122 * s" "122 * s \<le> 122 * s5" "122 * s5 \<le> loc + left" using lk e by (simp_all add: s5_def)
    have buf: "op_buf (op_of h6) = op_buf p @ map (byte_at V) [loc ..< loc + left]"
    proof -
      have "op_buf (op_of h6) = op_buf p @ map (byte_at V) [loc ..< 122 * s] @ map (byte_at V) [122 * s ..< 122 * s5]
          @ map (byte_at V) [122 * s5 ..< loc + left]"
        unfolding op_of_Some [OF w6(4)] op_buf_update lk e append_assoc ..
      also have "\<dots> = op_buf p @ map (byte_at V) [loc ..< loc + left]"
        using map_upt_append [OF le(2,3)] map_upt_append [OF le(1) order_trans [OF le(2,3)]] by metis
      finally show ?thesis .
    qed
    have nb: "op_nbyte (op_of h6) = op_nbyte p" using w6(4) by (simp add: op_of_def)
    have "int (h_segment h3) + 1 = int s" "int (h_segment h4) + 1 = int s5" using p3(2) r4(3) by (simp_all add: s5_def)
    then have go: "cl_file_finishread h d = Some (0, h6, d1)"
      using run r4(1) l5(1) w6(1) False w3(5) by (simp add: cl_file_finishread_def Let_def)
    have "h_size h6 = h_size h" "h_amode h6 = h_amode h"
      using w6(6,9) l5(6,7) r4(6,7) w3(6,9) l2(6,7) by simp_all
    then show thesis by (rule that [OF go w6(3) s1(4) buf _ _ nb hd1 s1(5)])
  qed
qed

end
