(* ===== verification/CafsOpen.thy ===== *)
theory CafsOpen
  imports CafsFile
begin

section \<open>Opening, closing, removing and repairing files (cafs_lite_file.c)\<close>

text \<open>
  A file that is opened for writing gets a new header, a consolidated copy of its list and a new entry
  (OPEN) in the serial number list; the old entry stays CLOSED until the new one is closed. Closing
  goes from the data blocks up: data, list, header; then the old entry is marked as being discarded,
  the new one CLOSED, and the old header and list are discarded. The statuses of the two entries tell
  \<open>cl_file_clean\<close>, at the next start, how far an interrupted close has come.
\<close>

subsection \<open>Opening\<close>

text \<open>\<open>h\<close> is the handle to fill, as the allocator returned it.\<close>

definition file_open_write :: "u32 \<Rightarrow> nat \<Rightarrow> bool \<Rightarrow> cl_handle \<Rightarrow> flash \<Rightarrow> (int \<times> nat \<times> cl_handle \<times> flash) option" where
  "file_open_write serialno old_block trunc h d = do {
    (block, d1) \<leftarrow> cl_block_alloc serialno old_block BLOCK_TYPE_FILE_HDR d;
    if block = BLOCK_INVALID then Some (-1, block, h, d1)
    else do {
      (r2, a, d2) \<leftarrow> cl_serialno_append serialno block CAFS_SNLIST_ITEM_STATUS_OPEN d1;
      let h2 = (case a of None \<Rightarrow> h | Some addr \<Rightarrow> h\<lparr>h_serialno_addr := addr\<rparr>);
      if r2 < 0 then Some (-1, block, h2, d2)
      else do {
        (content, d3) \<leftarrow> cl_filelist_consolidate serialno (hdr_content_block (bd_data (h_data h2))) d2;
        let h3 = set_data (set_content_block content (bd_data (h_data h2))) h2;
        if content = BLOCK_INVALID then Some (-1, block, h3, d3)
        else do {
          (h4, d4) \<leftarrow> (if trunc then do {
              (_, d4) \<leftarrow> cl_filelist_makeobsolete content d3;
              Some (set_data (overlay 28 (size_bytes 0) (bd_data (h_data h3))) h3, d4)
            } else Some (h3, d3));
          (r5, d5) \<leftarrow> cl_dev_write (get_cl_block_data_addr block) (take 28 (bd_data (h_data h4))) d4;
          Some (if r5 \<noteq> 28 then -1 else 0, block, h4, d5)
        }
      }
    }
  }"

text \<open>A block of another type leaves the handle unfilled, and the call still returns 0.\<close>

definition cl_file_open :: "u32 \<Rightarrow> byte \<Rightarrow> bool \<Rightarrow> cl_handle \<Rightarrow> flash \<Rightarrow> (int \<times> cl_handle \<times> flash) option" where
  "cl_file_open serialno amode trunc h d = do {
    (block, a, d1) \<leftarrow> cl_serialno_get serialno CAFS_SNLIST_ITEM_STATUS_CLOSED d;
    let h1 = (case a of None \<Rightarrow> h | Some addr \<Rightarrow> h\<lparr>h_serialno_addr := addr\<rparr>);
    if block = BLOCK_INVALID then Some (-1, h1, d1)
    else case cl_block_load block d1 of
      None \<Rightarrow> Some (-1, h1, d1)
    | Some x \<Rightarrow>
        let h2 = h1\<lparr>h_data := x\<rparr>
        in if bh_type (bd_hdr x) = BLOCK_TYPE_FILE_HDR then do {
             (r3, block3, h3, d3) \<leftarrow>
               (if amode AND W_OK \<noteq> 0 then file_open_write serialno block trunc h2 d1 else Some (0, block, h2, d1));
             if r3 < 0 then Some (-1, h3, d3)
             else let data = bd_data (h_data h3);
                      h4 = h3\<lparr>h_amode := amode, h_hdr_block := block3, h_list_block := hdr_content_block data, h_op := None\<rparr>;
                      h5 = (if hdr_size data < 0 then h4\<lparr>h_size := 0, h_mtime := 0\<rparr> else h4\<lparr>h_size := hdr_size data\<rparr>)
               in do {
                 (r6, h6) \<leftarrow> cl_file_loadsegment 0 h5 d3;
                 Some (if r6 < 0 then -1 else 0, h6, d3)
               }
           } else Some (0, h2, d1)
  }"

text \<open>
  \<open>junk\<close> is what the 28 bytes of the header on the stack hold before \<open>strcpy\<close> stores the name and its
  terminating 0; the length of the name is not checked.
\<close>

definition new_hdr_bytes :: "byte list \<Rightarrow> byte list \<Rightarrow> nat \<Rightarrow> byte list" where
  "new_hdr_bytes junk name content = set_content_block content (take 28 (overlay 0 (name @ [0]) junk))"

definition cl_file_new :: "byte list \<Rightarrow> byte list \<Rightarrow> u32 \<Rightarrow> byte \<Rightarrow> byte \<Rightarrow> cl_handle \<Rightarrow> flash
    \<Rightarrow> (int \<times> cl_handle \<times> flash) option" where
  "cl_file_new junk name serialno ty amode h d = do {
    (block, d1) \<leftarrow> cl_block_alloc serialno BLOCK_INVALID ty d;
    if block = BLOCK_INVALID then Some (-1, h, d1)
    else do {
      (r2, a, d2) \<leftarrow> cl_serialno_append serialno block CAFS_SNLIST_ITEM_STATUS_OPEN d1;
      let h2 = (case a of None \<Rightarrow> h | Some addr \<Rightarrow> h\<lparr>h_serialno_addr := addr\<rparr>);
      if r2 < 0 then Some (-1, h2, d2)
      else do {
        (list_block, d3) \<leftarrow> cl_block_alloc serialno block BLOCK_TYPE_FILE_LIST d2;
        if list_block = BLOCK_INVALID then Some (-1, h2, d3)
        else
          let h3 = h2\<lparr>h_hdr_block := block, h_list_block := list_block, h_size := 0, h_segment := SEGMENT_INVALID,
                h_data := \<lparr>bd_hdr = \<lparr>bh_serialno = serialno, bh_type = BLOCK_TYPE_FILE_DATA, bh_status = BLOCK_STATUS_FREE\<rparr>,
                  bd_data = bd_data (h_data h2)\<rparr>, h_mtime := 0, h_amode := amode, h_op := None\<rparr>
          in do {
            (r4, d4) \<leftarrow> cl_dev_write (get_cl_block_data_addr block) (new_hdr_bytes junk name list_block) d3;
            Some (if r4 \<noteq> 28 then -1 else 0, h3, d4)
          }
      }
    }
  }"

subsection \<open>Closing the blocks of a file\<close>

text \<open>
  The loop of \<open>mark_file_closed\<close> also closes the block the cursor is in, in the RAM copy too, when it
  is open; it ignores the result of that call.
\<close>

definition close_item :: "cl_filelist_item \<Rightarrow> nat \<Rightarrow> flash \<Rightarrow> (int \<times> flash) option" where
  "close_item item addr d =
    (if fi_status item = CAFS_FILELIST_STATUS_CURRENT then do {
       (r, d1) \<leftarrow> cl_block_close (fi_block item) d;
       Some (if r < 0 then -1 else 0, d1)
     } else if fi_status item = CAFS_FILELIST_STATUS_OBSOLETE then do {
       (r, d1) \<leftarrow> cl_block_discard (fi_block item) d;
       if r < 0 then Some (-1, d1)
       else do {
         (r2, d2) \<leftarrow> cl_filelist_setstatus CAFS_FILELIST_STATUS_DIRTY addr d1;
         Some (if r2 < 0 then -1 else 0, d2)
       }
     } else Some (0, d))"

definition mark_closed_body :: "byte list \<Rightarrow> nat \<Rightarrow> cl_list \<Rightarrow> unit \<Rightarrow> flash
    \<Rightarrow> ((int \<times> flash) + (cl_list \<times> unit \<times> flash)) option" where
  "mark_closed_body bs addr l s d = do {
    (r, d1) \<leftarrow> close_item (bytes_filelist_item bs) addr d;
    if r < 0 then Some (Inl (-1, d1))
    else if bh_status (bd_hdr (ls_data l)) = BLOCK_STATUS_OPEN then do {
      (_, d2) \<leftarrow> cl_block_close (ls_block l) d1;
      Some (Inr (l\<lparr>ls_data := (ls_data l)\<lparr>bd_hdr := (bd_hdr (ls_data l))\<lparr>bh_status := BLOCK_STATUS_CLOSED\<rparr>\<rparr>\<rparr>, s, d2))
    } else Some (Inr (l, s, d1))
  }"

definition mark_file_closed :: "nat \<Rightarrow> flash \<Rightarrow> (int \<times> flash) option" where
  "mark_file_closed hdr_block d =
    (case cl_block_load hdr_block d of
       None \<Rightarrow> Some (-1, d)
     | Some tmp \<Rightarrow>
         if bh_status (bd_hdr tmp) = BLOCK_STATUS_CLOSED then Some (0, d)
         else if bh_type (bd_hdr tmp) \<noteq> BLOCK_TYPE_FILE_HDR then Some (-1, d)
         else let content = hdr_content_block (bd_data tmp); (r, l) = cl_filelist_init content d
           in if r < 0 then Some (-1, d)
              else do {
                w \<leftarrow> while_next mark_closed_body l () d;
                case w of
                  Inl v \<Rightarrow> Some v
                | Inr (_, _, _, _, d1) \<Rightarrow> do {
                    (r2, d2) \<leftarrow> cl_list_close content d1;
                    if r2 \<noteq> 0 then Some (-1, d2)
                    else do {
                      (r3, d3) \<leftarrow> cl_block_close hdr_block d2;
                      Some (if r3 < 0 then -1 else 0, d3)
                    }
                  }
              })"

subsection \<open>Discarding a file\<close>

definition discard_body :: "byte list \<Rightarrow> nat \<Rightarrow> cl_list \<Rightarrow> unit \<Rightarrow> flash
    \<Rightarrow> ((int \<times> flash) + (cl_list \<times> unit \<times> flash)) option" where
  "discard_body bs addr l s d =
    (let item = bytes_filelist_item bs
     in if fi_status item = CAFS_FILELIST_STATUS_CURRENT \<or> fi_status item = CAFS_FILELIST_STATUS_OBSOLETE then do {
          (r, d1) \<leftarrow> cl_block_discard (fi_block item) d;
          if r < 0 then Some (Inl (-1, d1))
          else do {
            (r2, d2) \<leftarrow> cl_filelist_setstatus CAFS_FILELIST_STATUS_DIRTY addr d1;
            Some (if r2 < 0 then Inl (-1, d2) else Inr (l, s, d2))
          }
        } else Some (Inr (l, s, d)))"

text \<open>The cases of the switch fall through: the data, the list, the header.\<close>

definition discard_data :: "nat \<Rightarrow> flash \<Rightarrow> (int \<times> flash) option" where
  "discard_data content d =
    (let (r, l) = cl_filelist_init content d
     in if r < 0 then Some (-1, d)
        else do {
          w \<leftarrow> while_next discard_body l () d;
          Some (case w of Inl v \<Rightarrow> v | Inr (_, _, _, _, d1) \<Rightarrow> (0, d1))
        })"

definition cleanup_file :: "nat \<Rightarrow> nat \<Rightarrow> byte \<Rightarrow> flash \<Rightarrow> (int \<times> flash) option" where
  "cleanup_file hdr_block addr status d =
    (case cl_block_load hdr_block d of
       None \<Rightarrow> Some (-1, d)
     | Some tmp \<Rightarrow>
         if bh_type (bd_hdr tmp) \<noteq> BLOCK_TYPE_FILE_HDR then Some (-1, d)
         else let content = hdr_content_block (bd_data tmp) in do {
           (r1, d1) \<leftarrow> (if status = CAFS_SNLIST_ITEM_STATUS_DISCARDING then discard_data content d else Some (0, d));
           if r1 < 0 then Some (-1, d1)
           else do {
             (r2, d2) \<leftarrow> (if status = CAFS_SNLIST_ITEM_STATUS_DISCARDING \<or> status = CAFS_SNLIST_ITEM_STATUS_DISCARDING_HDR_LIST
               then cl_list_discard content d1 else Some (0, d1));
             if r2 \<noteq> 0 then Some (-1, d2)
             else do {
               (r3, d3) \<leftarrow> (if status = CAFS_SNLIST_ITEM_STATUS_DISCARDING \<or> status = CAFS_SNLIST_ITEM_STATUS_DISCARDING_HDR_LIST
                   \<or> status = CAFS_SNLIST_ITEM_STATUS_DISCARDING_HDR
                 then cl_block_discard hdr_block d2 else Some (0, d2));
               if r3 < 0 then Some (-1, d3)
               else do {
                 (r4, d4) \<leftarrow> cl_serialno_setstatus addr CAFS_SNLIST_ITEM_STATUS_DIRTY d3;
                 Some (if r4 < 0 then -1 else 0, d4)
               }
             }
           }
         })"

text \<open>
  The address of the entry is uninitialised when \<open>cl_serialno_get\<close> fails; \<open>cl_file_remove\<close> does not use
  it then.
\<close>

definition cl_file_remove :: "u32 \<Rightarrow> flash \<Rightarrow> (int \<times> flash) option" where
  "cl_file_remove serialno d = do {
    (block, a, d1) \<leftarrow> cl_serialno_get serialno CAFS_SNLIST_ITEM_STATUS_CLOSED d;
    case a of
      None \<Rightarrow> Some (-1, d1)
    | Some addr \<Rightarrow>
        if block = BLOCK_INVALID then Some (-1, d1)
        else do {
          (r2, d2) \<leftarrow> cl_serialno_setstatus addr CAFS_SNLIST_ITEM_STATUS_DISCARDING d1;
          if r2 < 0 then Some (-1, d2) else cleanup_file block addr CAFS_SNLIST_ITEM_STATUS_DISCARDING d2
        }
  }"

subsection \<open>Closing a file\<close>

text \<open>When the blocks of the new file cannot be closed, \<open>finish_close\<close> leaves the old file alone and returns 0.\<close>

definition finish_close :: "byte \<Rightarrow> nat \<Rightarrow> nat \<Rightarrow> nat \<Rightarrow> nat \<Rightarrow> bool \<Rightarrow> flash \<Rightarrow> (int \<times> flash) option" where
  "finish_close discard_status new_block old_block new_addr old_addr already_closed d = do {
    (r1, close_failed, d1) \<leftarrow>
      (if already_closed then Some (0 :: int, False, d)
       else do {
         (r1, d1) \<leftarrow> cl_serialno_setstatus new_addr CAFS_SNLIST_ITEM_STATUS_CLOSING d;
         if r1 < 0 then Some (-1, False, d1)
         else do {
           (r2, d2) \<leftarrow> mark_file_closed new_block d1;
           if r2 < 0 then Some (0, True, d2)
           else do {
             (r3, d3) \<leftarrow> cl_serialno_setstatus old_addr discard_status d2;
             if r3 < 0 then Some (-1, False, d3)
             else do {
               (r4, d4) \<leftarrow> cl_serialno_setstatus new_addr CAFS_SNLIST_ITEM_STATUS_CLOSED d3;
               Some (if r4 < 0 then -1 else 0, False, d4)
             }
           }
         }
       });
    if r1 < 0 then Some (-1, d1)
    else if close_failed then Some (0, d1)
    else do {
      (r5, d5) \<leftarrow> cleanup_file old_block old_addr discard_status d1;
      Some (if r5 < 0 then -1 else 0, d5)
    }
  }"

text \<open>A file that did not exist before; a closing entry of the list is closed in two steps.\<close>

definition close_new_file :: "cl_handle \<Rightarrow> flash \<Rightarrow> (int \<times> cl_handle \<times> flash) option" where
  "close_new_file h d = do {
    (r1, d1) \<leftarrow> cl_serialno_setstatus (h_serialno_addr h) CAFS_SNLIST_ITEM_STATUS_CLOSING d;
    if r1 < 0 then Some (-1, h, d1)
    else do {
      (r2, d2) \<leftarrow> mark_file_closed (h_hdr_block h) d1;
      if r2 < 0 then Some (-1, h, d2)
      else do {
        (r3, d3) \<leftarrow> cl_serialno_setstatus (h_serialno_addr h) CAFS_SNLIST_ITEM_STATUS_CLOSED d2;
        Some (if r3 < 0 then -1 else 0, h, d3)
      }
    }
  }"

definition cl_file_close :: "cl_handle \<Rightarrow> flash \<Rightarrow> (int \<times> cl_handle \<times> flash) option" where
  "cl_file_close h d =
    (if h_amode h AND W_OK = 0 then Some (0, h, d)
     else do {
       (r1, h1, d1) \<leftarrow> cl_file_savesegment h d;
       if r1 \<noteq> 0 then Some (-1, h1, d1)
       else do {
         (r2, d2) \<leftarrow> cl_dev_write (get_cl_block_data_addr (h_hdr_block h1) + 28) (size_bytes (h_size h1)) d1;
         if r2 \<noteq> 4 then Some (-1, h1, d2)
         else do {
           (block, a, d3) \<leftarrow> cl_serialno_get (bh_serialno (bd_hdr (h_data h1))) CAFS_SNLIST_ITEM_STATUS_CLOSED d2;
           case a of
             Some old_addr \<Rightarrow>
               if block \<noteq> BLOCK_INVALID then do {
                 (r4, d4) \<leftarrow> finish_close CAFS_SNLIST_ITEM_STATUS_DISCARDING_HDR_LIST (h_hdr_block h1) block
                   (h_serialno_addr h1) old_addr False d3;
                 Some (if r4 < 0 then -1 else 0, h1, d4)
               } else close_new_file h1 d3
           | None \<Rightarrow> close_new_file h1 d3
         }
       }
     })"

subsection \<open>Repairing a file at start-up\<close>

text \<open>
  \<open>status\<close> and \<open>hdr_block\<close> are those of the entry that \<open>cl_serialno_init\<close> stopped at. The result 1 means
  that open blocks may be left over. The loads of blocks whose contents are not used are kept: a failing
  one ends the call.
\<close>

definition clean_closing :: "u32 \<Rightarrow> nat \<Rightarrow> nat \<Rightarrow> nat \<Rightarrow> flash \<Rightarrow> (int \<times> flash) option" where
  "clean_closing serialno hdr_block old_block old_addr d = do {
    (new_block, _, d1) \<leftarrow> cl_serialno_get serialno CAFS_SNLIST_ITEM_STATUS_CLOSED d;
    if new_block = BLOCK_INVALID then
      case cl_block_load old_block d1 of
        None \<Rightarrow> Some (-1, d1)
      | Some _ \<Rightarrow> do {
          (r2, d2) \<leftarrow> mark_file_closed hdr_block d1;
          if r2 < 0 then Some (-1, d2)
          else do {
            (r3, d3) \<leftarrow> cl_serialno_setstatus old_addr CAFS_SNLIST_ITEM_STATUS_CLOSED d2;
            Some (if r3 < 0 then -1 else 0, d3)
          }
        }
    else do {
      (r2, d2) \<leftarrow> cleanup_file old_block old_addr CAFS_SNLIST_ITEM_STATUS_DISCARDING_HDR d1;
      Some (if r2 < 0 then -1 else 1, d2)
    }
  }"

definition clean_discarding :: "byte \<Rightarrow> u32 \<Rightarrow> nat \<Rightarrow> nat \<Rightarrow> flash \<Rightarrow> (int \<times> flash) option" where
  "clean_discarding status serialno old_block old_addr d = do {
    (closing, a1, d1) \<leftarrow> cl_serialno_get serialno CAFS_SNLIST_ITEM_STATUS_CLOSING d;
    (new_block, a, already_closed, d2) \<leftarrow>
      (if closing = BLOCK_INVALID then do {
         (closed, a2, d2) \<leftarrow> cl_serialno_get serialno CAFS_SNLIST_ITEM_STATUS_CLOSED d1;
         Some (closed, a2, True, d2)
       } else Some (closing, a1, False, d1));
    case a of
      None \<Rightarrow> Some (-1, d2)
    | Some new_addr \<Rightarrow>
        if new_block = BLOCK_INVALID then Some (-1, d2)
        else case cl_block_load new_block d2 of
          None \<Rightarrow> Some (-1, d2)
        | Some _ \<Rightarrow> do {
            (r3, d3) \<leftarrow> finish_close status new_block old_block new_addr old_addr already_closed d2;
            Some (if r3 < 0 then -1 else 0, d3)
          }
  }"

text \<open>\<open>hdr_block\<close> is never \<open>BLOCK_INVALID\<close> in a valid entry; with it the address would be uninitialised.\<close>

definition cl_file_clean :: "u32 \<Rightarrow> nat \<Rightarrow> byte \<Rightarrow> flash \<Rightarrow> (int \<times> flash) option" where
  "cl_file_clean serialno hdr_block status d = do {
    (old_block, a, d1) \<leftarrow> cl_serialno_get serialno status d;
    if hdr_block \<noteq> old_block then Some (-1, d1)
    else case a of
      None \<Rightarrow> Some (-1, d1)
    | Some old_addr \<Rightarrow>
        if status = CAFS_SNLIST_ITEM_STATUS_DISCARDING then do {
          (r2, d2) \<leftarrow> cleanup_file old_block old_addr status d1;
          Some (if r2 < 0 then -1 else 0, d2)
        }
        else if status = CAFS_SNLIST_ITEM_STATUS_DISCARDING_HDR_LIST \<or> status = CAFS_SNLIST_ITEM_STATUS_DISCARDING_HDR
          then clean_discarding status serialno old_block old_addr d1
        else if status = CAFS_SNLIST_ITEM_STATUS_CLOSING then clean_closing serialno hdr_block old_block old_addr d1
        else if status = CAFS_SNLIST_ITEM_STATUS_OPEN then do {
          (r2, d2) \<leftarrow> cl_serialno_setstatus old_addr CAFS_SNLIST_ITEM_STATUS_DIRTY d1;
          Some (if r2 < 0 then -1 else 1, d2)
        }
        else Some (-1, d1)
  }"

end
