(* ===== verification/CafsFs.thy ===== *)
theory CafsFs
  imports CafsOpen
begin

section \<open>The system calls of the file system (cafs_lite.c, cafs_lite_dir.c, sysfs.c)\<close>

text \<open>
  The state adds to the disk the error number and whether the file system is accessible
  (\<open>open_file->fs\<close> is not NULL). The mutex that the calls hold exists only outside the simulator and is
  left out: a call is one step. A directory is the serial number list itself; the name of a file is in
  the block of its header.
\<close>

record cafs =
  cf_dev :: flash
  cf_errno :: errno
  cf_open :: bool

definition set_errno :: "errno \<Rightarrow> cafs \<Rightarrow> cafs" where
  "set_errno e c = c\<lparr>cf_errno := e\<rparr>"

text \<open>The flags of an open call: the access mode and the bits.\<close>

datatype accmode = O_RDONLY | O_WRONLY | O_RDWR | O_OTHER

record oflags =
  of_accmode :: accmode
  of_creat :: bool
  of_excl :: bool
  of_trunc :: bool
  of_append :: bool

definition sysfs_getamode :: "oflags \<Rightarrow> byte" where
  "sysfs_getamode flags =
    (let amode = (case of_accmode flags of O_RDWR \<Rightarrow> R_OK OR W_OK | O_WRONLY \<Rightarrow> W_OK | O_RDONLY \<Rightarrow> R_OK | O_OTHER \<Rightarrow> 0)
     in if of_creat flags \<or> of_trunc flags then amode OR W_OK else amode)"

text \<open>Strings are lists of bytes without the terminating 0; 47 is \<open>'/'\<close>.\<close>

fun getfilename_loop :: "byte list \<Rightarrow> byte list \<Rightarrow> byte list" where
  "getfilename_loop name [] = name"
| "getfilename_loop name (c # path) = getfilename_loop (if c = 47 then path else name) path"

definition sysfs_getfilename :: "byte list \<Rightarrow> byte list" where
  "sysfs_getfilename path = getfilename_loop path path"

text \<open>\<open>strncmp(a, b, n) == 0\<close>\<close>

definition strncmp_eq :: "nat \<Rightarrow> byte list \<Rightarrow> byte list \<Rightarrow> bool" where
  "strncmp_eq n a b \<longleftrightarrow> take n a = take n b"

abbreviation FS_NAME_MAX :: nat where "FS_NAME_MAX \<equiv> 24"

subsection \<open>Looking up a name\<close>

text \<open>
  The result of \<open>cl_dir_lookup\<close> is its return value with the serial number it stores, \<open>SERIALNO_INVALID\<close>
  when no closed file has the name. The two error numbers it stores on failure, 1 and 2, are EPERM and
  ENOENT.
\<close>

definition lookup_body :: "byte list \<Rightarrow> byte list \<Rightarrow> nat \<Rightarrow> cl_list \<Rightarrow> unit \<Rightarrow> flash
    \<Rightarrow> ((u32 option \<times> flash) + (cl_list \<times> unit \<times> flash)) option" where
  "lookup_body path bs addr l s d =
    (let item = bytes_snitem bs
     in Some (if sn_serialno item \<noteq> CL_SERIALNO_LIST \<and> sn_status item = CAFS_SNLIST_ITEM_STATUS_CLOSED then
                case cl_block_load (sn_block item) d of
                  None \<Rightarrow> Inl (None, d)
                | Some x \<Rightarrow> if strncmp_eq FS_NAME_MAX path (hdr_name (bd_data x))
                            then Inl (Some (sn_serialno item), d) else Inr (l, s, d)
              else Inr (l, s, d)))"

definition cl_dir_lookup :: "byte list \<Rightarrow> cafs \<Rightarrow> (int \<times> u32 \<times> cafs) option" where
  "cl_dir_lookup path c =
    (let d = cf_dev c; (r, l) = cl_snlist_init (cl_serialno_getlistblock d) d
     in if r < 0 then Some (-1, SERIALNO_INVALID, set_errno EPERM c)
        else do {
          w \<leftarrow> while_next (lookup_body path) l () d;
          Some (case w of
            Inl (Some sn, _) \<Rightarrow> (0, sn, c)
          | Inl (None, _) \<Rightarrow> (-1, SERIALNO_INVALID, set_errno ENOENT c)
          | Inr _ \<Rightarrow> (0, SERIALNO_INVALID, c))
        })"

abbreviation CAFS_DIR_PARENT_EXISTS :: int where "CAFS_DIR_PARENT_EXISTS \<equiv> 1"
abbreviation CAFS_DIR_PATH_EXISTS :: int where "CAFS_DIR_PATH_EXISTS \<equiv> 2"

definition cl_dir_exists :: "byte list \<Rightarrow> cafs \<Rightarrow> (int \<times> u32 \<times> cafs) option" where
  "cl_dir_exists path c = do {
    (r, sn, c1) \<leftarrow> cl_dir_lookup path c;
    Some (if r < 0 then -1 else if sn \<noteq> SERIALNO_INVALID then CAFS_DIR_PATH_EXISTS else CAFS_DIR_PARENT_EXISTS, sn, c1)
  }"

subsection \<open>Start-up and formatting\<close>

text \<open>
  The loop of \<open>cafs_lite_init\<close>, with the number of files that were repaired: the result of the last
  \<open>cl_serialno_init\<close> (-1 after five of them), whether open blocks are to be discarded, and the disk;
  \<open>None\<close> inside is the return of -1 after a failed repair.
\<close>

function init_loop :: "nat \<Rightarrow> bool \<Rightarrow> flash \<Rightarrow> ((int \<times> bool) option \<times> flash) option" where
  "init_loop bad_files clean_open d = do {
    (err, bad, d1) \<leftarrow> cl_serialno_init d;
    case bad of
      None \<Rightarrow> Some (Some (err, clean_open), d1)
    | Some e \<Rightarrow> do {
        (tmp, d2) \<leftarrow> cl_file_clean (sn_serialno e) (sn_block e) (sn_status e) d1;
        if tmp < 0 then Some (None, d2)
        else if bad_files + 1 > 4 then Some (Some (-1, clean_open \<or> tmp = 1), d2)
        else init_loop (bad_files + 1) (clean_open \<or> tmp = 1) d2
      }
  }"
  by pat_completeness auto
termination by (relation "measure (\<lambda>(n, _). 5 - n)") auto

declare init_loop.simps [simp del]

definition cafs_lite_init :: "cafs \<Rightarrow> (int \<times> cafs) option" where
  "cafs_lite_init c = do {
    (r, d1) \<leftarrow> init_loop 0 False (cf_dev c);
    let c1 = c\<lparr>cf_dev := d1\<rparr>;
    case r of
      None \<Rightarrow> Some (-1, c1)
    | Some (err, clean_open) \<Rightarrow>
        if err = -1 then Some (-1, c1\<lparr>cf_open := False\<rparr>)
        else do {
          (r2, d2) \<leftarrow> cl_scratch_init d1;
          if r2 < 0 then Some (-1, c\<lparr>cf_dev := d2\<rparr>)
          else if clean_open then do {
            (r3, d3) \<leftarrow> cl_block_discardopen d2;
            Some (if r3 < 0 then -1 else 0, c\<lparr>cf_dev := d3\<rparr>)
          } else Some (0, c\<lparr>cf_dev := d2\<rparr>)
        }
  }"

definition cafs_lite_mkfs :: "cafs \<Rightarrow> (int \<times> cafs) option" where
  "cafs_lite_mkfs c =
    (let c1 = c\<lparr>cf_open := True\<rparr>; (ret, d1) = cl_dev_erase (cf_dev c1)
     in if ret < 0 then Some (ret, set_errno ENOSPC (c1\<lparr>cf_dev := d1, cf_open := False\<rparr>))
        else do {
          (ret2, d2) \<leftarrow> cl_serialno_mkfs d1;
          Some (ret2, if ret2 < 0 then set_errno EIO (c1\<lparr>cf_dev := d2, cf_open := False\<rparr>) else c1\<lparr>cf_dev := d2\<rparr>)
        })"

subsection \<open>Status and removal\<close>

record stat =
  st_ino :: u32
  st_size :: int
  st_blocks :: int
  st_blksize :: int

definition cafs_lite_fstat :: "cl_handle \<Rightarrow> cafs \<Rightarrow> int \<times> stat option \<times> cafs" where
  "cafs_lite_fstat h c =
    (case cl_block_load (h_hdr_block h) (cf_dev c) of
       None \<Rightarrow> (-1, None, set_errno EIO c)
     | Some _ \<Rightarrow> (0, Some \<lparr>st_ino = bh_serialno (bd_hdr (h_data h)), st_size = h_size h,
         st_blocks = unsigned_int (h_size h + int BLOCK_DATA_SIZE - 1) div int BLOCK_DATA_SIZE,
         st_blksize = int BLOCK_DATA_SIZE\<rparr>, c))"

text \<open>\<open>h\<close> is the handle on the stack; a failure of \<open>cafs_lite_fstat\<close> is overwritten by \<open>ret = 0\<close>.\<close>

definition cafs_lite_stat :: "cl_handle \<Rightarrow> byte list \<Rightarrow> cafs \<Rightarrow> (int \<times> stat option \<times> cafs) option" where
  "cafs_lite_stat h path c = do {
    (ret, sn, c1) \<leftarrow> cl_dir_exists path c;
    if ret < 0 then Some (ret, None, c1)
    else if ret \<noteq> CAFS_DIR_PATH_EXISTS then Some (-1, None, set_errno ENOENT c1)
    else do {
      (r2, h2, d2) \<leftarrow> cl_file_open sn R_OK False h (cf_dev c1);
      let c2 = c1\<lparr>cf_dev := d2\<rparr>;
      if r2 < 0 then Some (-1, None, c2)
      else let (_, st, c3) = cafs_lite_fstat h2 c2 in Some (0, st, c3)
    }
  }"

definition cafs_lite_unlink :: "byte list \<Rightarrow> cafs \<Rightarrow> (int \<times> cafs) option" where
  "cafs_lite_unlink path c = do {
    (ret, sn, c1) \<leftarrow> cl_dir_exists path c;
    if ret < 0 then Some (-1, c1)
    else if ret \<noteq> CAFS_DIR_PATH_EXISTS then Some (-1, set_errno ENOENT c1)
    else do {
      (b, _, d2) \<leftarrow> cl_serialno_get sn CAFS_SNLIST_ITEM_STATUS_OPEN (cf_dev c1);
      if b \<noteq> BLOCK_INVALID then Some (-1, set_errno EACCES (c1\<lparr>cf_dev := d2\<rparr>))
      else do {
        (r3, d3) \<leftarrow> cl_file_remove sn d2;
        Some (if r3 < 0 then -1 else 0, c1\<lparr>cf_dev := d3\<rparr>)
      }
    }
  }"

definition cafs_lite_remove :: "byte list \<Rightarrow> cafs \<Rightarrow> (int \<times> cafs) option" where
  "cafs_lite_remove path c = cafs_lite_unlink path c"

subsection \<open>Open, read, write, close\<close>

text \<open>
  \<open>mem\<close> is what \<open>malloc\<close> returns for the handle (\<open>None\<close>: NULL, with its own error number), \<open>junk\<close> as
  in \<open>cl_file_new\<close>. The result carries the handle that \<open>*handle\<close> is set to.
\<close>

definition cafs_lite_open :: "cl_handle option \<Rightarrow> byte list \<Rightarrow> byte list \<Rightarrow> oflags \<Rightarrow> cafs
    \<Rightarrow> (int \<times> cl_handle option \<times> cafs) option" where
  "cafs_lite_open mem junk path flags c = do {
    let amode = sysfs_getamode flags;
    (err, sn, c1) \<leftarrow> cl_dir_exists path c;
    if err < 0 then Some (-1, None, set_errno ENOTDIR c1)
    else case mem of
      None \<Rightarrow> Some (-1, None, set_errno ENOMEM c1)
    | Some h \<Rightarrow>
        if err = CAFS_DIR_PATH_EXISTS then
          if of_excl flags \<and> of_creat flags then Some (-1, None, set_errno EEXIST c1)
          else do {
            (r, h2, d2) \<leftarrow> cl_file_open sn amode (of_trunc flags) h (cf_dev c1);
            let c2 = c1\<lparr>cf_dev := d2\<rparr>;
            Some (if r < 0 then (-1, None, set_errno ENOSPC c2)
                  else if \<not> of_trunc flags \<and> h_size h2 < 0 then (-1, None, set_errno EFBIG c2)
                  else (0, Some h2, c2))
          }
        else if err = CAFS_DIR_PARENT_EXISTS then
          if of_creat flags then do {
            let (sn2, d2) = cl_serialno_new (cf_dev c1);
            (r, h3, d3) \<leftarrow> cl_file_new junk (sysfs_getfilename path) sn2 BLOCK_TYPE_FILE_HDR amode h d2;
            let c3 = c1\<lparr>cf_dev := d3\<rparr>;
            Some (if r < 0 then (-1, None, set_errno ENOSPC c3) else (0, Some h3, c3))
          } else Some (-1, None, set_errno ENOENT c1)
        else Some (-1, None, set_errno ENOENT c1)
  }"

text \<open>A read returns the bytes it has stored at \<open>buf\<close> with its result.\<close>

definition cafs_lite_read :: "int \<Rightarrow> int \<Rightarrow> cl_handle \<Rightarrow> cafs \<Rightarrow> (int \<times> byte list \<times> cl_handle \<times> cafs) option" where
  "cafs_lite_read loc nbyte h c =
    (let h1 = h\<lparr>h_op := Some \<lparr>op_loc = loc, op_nbyte = nbyte, op_buf = []\<rparr>\<rparr>
     in if h_amode h1 AND R_OK = 0 then Some (-1, [], h1, set_errno EACCES c)
        else let (r, h2) = cl_file_startread h1
          in if r = nbyte then Some (op_nbyte (op_of h2), op_buf (op_of h2), h2, c)
             else do {
               (r3, h3, d3) \<leftarrow> cl_file_finishread h2 (cf_dev c);
               Some (if r3 < 0 then -1 else op_nbyte (op_of h3), op_buf (op_of h3), h3, c\<lparr>cf_dev := d3\<rparr>)
             })"

definition cafs_lite_write :: "oflags \<Rightarrow> int \<Rightarrow> byte list \<Rightarrow> int \<Rightarrow> cl_handle \<Rightarrow> cafs
    \<Rightarrow> (int \<times> cl_handle \<times> cafs) option" where
  "cafs_lite_write flags loc0 buf nbyte h c =
    (let loc = (if of_append flags then h_size h else loc0);
         h1 = h\<lparr>h_op := Some \<lparr>op_loc = loc, op_nbyte = nbyte, op_buf = buf\<rparr>\<rparr>
     in if h_amode h1 AND W_OK = 0 then Some (-1, h1, set_errno EACCES c)
        else let (r, h2) = cl_file_startwrite h1
          in if r = nbyte then Some (op_nbyte (op_of h2), h2, c)
             else do {
               (r3, h3, d3) \<leftarrow> cl_file_finishwrite h2 (cf_dev c);
               Some (if r3 < 0 then -1 else op_nbyte (op_of h3), h3, c\<lparr>cf_dev := d3\<rparr>)
             })"

definition cafs_lite_close :: "cl_handle \<Rightarrow> cafs \<Rightarrow> (int \<times> cafs) option" where
  "cafs_lite_close h c = do {
    (r, _, d1) \<leftarrow> cl_file_close h (cf_dev c);
    Some (r, c\<lparr>cf_dev := d1\<rparr>)
  }"

subsection \<open>Reading the directory\<close>

text \<open>
  A directory handle is the constant \<open>OPENDIR_HANDLE\<close>; the argument says whether the call is given it.
\<close>

definition cafs_lite_opendir :: "byte list \<Rightarrow> cafs \<Rightarrow> int \<times> bool \<times> cafs" where
  "cafs_lite_opendir path c = (if path \<noteq> [] then (-1, False, set_errno ENOTDIR c) else (0, True, c))"

definition readdir_body :: "nat \<Rightarrow> byte list \<Rightarrow> nat \<Rightarrow> cl_list \<Rightarrow> nat \<Rightarrow> flash
    \<Rightarrow> (((byte list \<times> u32) option \<times> flash) + (cl_list \<times> nat \<times> flash)) option" where
  "readdir_body loc bs addr l count d =
    (let item = bytes_snitem bs
     in Some (if sn_status item = CAFS_SNLIST_ITEM_STATUS_CLOSED \<and> sn_serialno item \<noteq> CL_SERIALNO_LIST then
                if count = loc then
                  case cl_block_load (sn_block item) d of
                    None \<Rightarrow> Inl (None, d)
                  | Some x \<Rightarrow> Inl (Some (hdr_name (bd_data x), sn_serialno item), d)
                else Inr (l, count + 1, d)
              else Inr (l, count, d)))"

definition cafs_lite_readdir_r :: "bool \<Rightarrow> nat \<Rightarrow> cafs \<Rightarrow> (int \<times> (byte list \<times> u32) option \<times> cafs) option" where
  "cafs_lite_readdir_r handle loc c =
    (if \<not> handle then Some (-1, None, set_errno EBADF c)
     else let d = cf_dev c; (r, l) = cl_snlist_init (cl_serialno_getlistblock d) d
       in if r < 0 then Some (-1, None, c)
          else do {
            w \<leftarrow> while_next (readdir_body loc) l 0 d;
            Some (case w of
              Inl (Some e, _) \<Rightarrow> (0, Some e, c)
            | _ \<Rightarrow> (-1, None, c))
          })"

definition cafs_lite_closedir :: "bool \<Rightarrow> cafs \<Rightarrow> int \<times> cafs" where
  "cafs_lite_closedir handle c = (if \<not> handle then (-1, set_errno EBADF c) else (0, c))"

end
