(* ===== verification/CafsIo.thy ===== *)
theory CafsIo
  imports CafsData CafsFs
begin

section \<open>The read and write calls\<close>

text \<open>
  An open file with list blocks \<open>bs\<close> has the contents \<open>xs\<close>.
\<close>

definition open_file :: "nat list \<Rightarrow> cl_handle \<Rightarrow> cafs \<Rightarrow> byte list \<Rightarrow> bool" where
  "open_file bs h c xs \<longleftrightarrow> (\<exists>n V. opened h (cf_dev c) bs n V \<and> 0 \<le> h_size h \<and> h_size h \<le> 65535 * 122
     \<and> xs = file_bytes V (nat (h_size h)))"

abbreviation MAX_FILE :: nat where "MAX_FILE \<equiv> 65535 * 122"

lemma length_file_bytes [simp]: "length (file_bytes V n) = n"
  by (simp add: file_bytes_def)

lemma open_fileE:
  assumes "open_file bs h c xs"
  obtains n V where "opened h (cf_dev c) bs n V" "h_size h = int (length xs)" "length xs \<le> MAX_FILE" "xs = file_bytes V (length xs)"
  using assms by (auto simp: open_file_def)

lemma open_fileI:
  "opened h (cf_dev c) bs n V \<Longrightarrow> h_size h = int k \<Longrightarrow> k \<le> MAX_FILE \<Longrightarrow> open_file bs h c (file_bytes V k)"
  by (auto simp: open_file_def)

subsection \<open>Writing\<close>

lemma startwrite_effect:
  assumes o: "opened h d bs n V" and p: "h_op h = Some p" "op_loc p = int loc" "op_nbyte p = int len" "length (op_buf p) = len"
    and b: "loc + len \<le> MAX_FILE" and sz: "int loc \<le> h_size h"
  obtains k h' V' where "k \<le> len" "cl_file_startwrite h = (if h_segment h = loc div 122 \<and> k = len then int len else 0, h')"
    "opened h' d bs n V'" "wrote V loc (take k (op_buf p)) V'"
    "h_op h' = Some (p\<lparr>op_loc := int (loc + k), op_buf := drop k (op_buf p)\<rparr>)" "h_bytes_left h' = int (len - k)"
    "h_size h' = max (h_size h) (int (loc + k))" "h_amode h' = h_amode h" "h_segment h \<noteq> loc div 122 \<longrightarrow> k = 0"
proof -
  let ?h = "h\<lparr>h_bytes_left := int len\<rparr>"
  have seg: "segment_of_loc (op_loc (op_of h)) = int (loc div 122)" using p b by (simp add: op_of_def segment_of_nat)
  have le: "\<not> op_loc (op_of h) > h_size h" using p sz by (simp add: op_of_def)
  have o1: "opened ?h d bs n V" using o by (subst opened_cong [of ?h h]) simp_all
  show thesis
  proof (cases "h_segment h = loc div 122")
    case False
    have nb: "op_nbyte (op_of h) = int len" using p by (simp add: op_of_def)
    have r: "cl_file_startwrite h = (0, ?h)"
      unfolding cl_file_startwrite_def Let_def seg nb using le False by simp
    have w: "wrote V loc (take 0 (op_buf p)) V" using opened_segments [OF o] by simp
    have op: "h_op ?h = Some (p\<lparr>op_loc := int (loc + 0), op_buf := drop 0 (op_buf p)\<rparr>)" using p by simp
    have sz': "h_size ?h = max (h_size h) (int (loc + 0))" using sz by simp
    have r': "cl_file_startwrite h = (if h_segment h = loc div 122 \<and> 0 = len then int len else 0, ?h)" using False r by simp
    show thesis by (rule that [OF _ r' o1 w op _ sz']) simp_all
  next
    case True
    have q: "h_op ?h = Some p" "op_loc p = int loc" "h_bytes_left ?h = int len" and sz1: "int loc \<le> h_size ?h" using p sz by simp_all
    have s1: "len = 0 \<or> h_segment ?h = loc div 122" using True by simp
    obtain h' V' k where w: "write_current_segment ?h = h'" "k = min len (122 - loc mod 122)" "opened h' d bs n V'"
      "wrote V loc (take k (op_buf p)) V'" "h_op h' = Some (p\<lparr>op_loc := int (loc + k), op_buf := drop k (op_buf p)\<rparr>)"
      "h_bytes_left h' = int (len - k)" "h_size h' = max (h_size ?h) (int (loc + k))" "h_list_block h' = h_list_block ?h"
      "h_segment h' = h_segment ?h" "h_amode h' = h_amode ?h"
      by (rule write_current [OF o1 q p(4) b s1 sz1]) (rule that, assumption+)
    have k: "k \<le> len" using w(2) by simp
    have "cl_file_startwrite h = (if k = len then int len else 0, h')"
    proof -
      have nb: "op_nbyte (op_of h) = int len" "op_nbyte (op_of h') = int len" using p w(5) by (simp_all add: op_of_def)
      show ?thesis unfolding cl_file_startwrite_def Let_def seg nb using le True w(1,6) k by (simp add: nb)
    qed
    then have r: "cl_file_startwrite h = (if h_segment h = loc div 122 \<and> k = len then int len else 0, h')" using True by simp
    have sz': "h_size h' = max (h_size h) (int (loc + k))" "h_amode h' = h_amode h" using w(7,10) by simp_all
    show thesis by (rule that [OF k r w(3-6) sz']) (use True in simp)
  qed
qed

lemma write_effect:
  assumes f: "open_file bs h c xs" and a: "h_amode h AND W_OK \<noteq> 0"
    and loc: "loc = (if of_append flags then length xs else loc0)" "loc \<le> length xs"
    and b: "loc + length buf \<le> MAX_FILE" and room: "2 * (length buf div 122) + 4 \<le> card (free_blocks (cf_dev c))"
  obtains h' c' bs' where "cafs_lite_write flags (int loc0) buf (int (length buf)) h c = Some (int (length buf), h', c')"
    "open_file bs' h' c' (overwritten loc buf xs)" "h_amode h' = h_amode h" "leaves (cf_dev c) bs (cf_dev c') bs'"
    "card (free_blocks (cf_dev c)) \<le> card (free_blocks (cf_dev c')) + (2 * (length buf div 122) + 4)"
proof -
  from open_fileE [OF f] obtain n V where o: "opened h (cf_dev c) bs n V" and sz: "h_size h = int (length xs)"
    and mx: "length xs \<le> MAX_FILE" and xs: "xs = file_bytes V (length xs)" by blast
  let ?len = "length buf"
  define p where "p = \<lparr>op_loc = int loc, op_nbyte = int ?len, op_buf = buf\<rparr>"
  define h1 where "h1 = h\<lparr>h_op := Some p\<rparr>"
  have lc: "(if of_append flags then h_size h else int loc0) = int loc" using loc sz by simp
  have o1: "opened h1 (cf_dev c) bs n V" using o by (subst opened_cong [of h1 h]) (simp_all add: h1_def)
  have p1: "h_op h1 = Some p" "op_loc p = int loc" "op_nbyte p = int ?len" "length (op_buf p) = ?len" "int loc \<le> h_size h1"
    using loc sz by (simp_all add: h1_def p_def)
  obtain k h2 V2 where s: "k \<le> ?len" "cl_file_startwrite h1 = (if h_segment h1 = loc div 122 \<and> k = ?len then int ?len else 0, h2)"
    "opened h2 (cf_dev c) bs n V2" "wrote V loc (take k (op_buf p)) V2"
    "h_op h2 = Some (p\<lparr>op_loc := int (loc + k), op_buf := drop k (op_buf p)\<rparr>)" "h_bytes_left h2 = int (?len - k)"
    "h_size h2 = max (h_size h1) (int (loc + k))" "h_amode h2 = h_amode h1" "h_segment h1 \<noteq> loc div 122 \<longrightarrow> k = 0"
    by (rule startwrite_effect [OF o1 p1(1-4) b p1(5)])
  have fin: "open_file bs' h' c' (overwritten loc buf xs)"
    if "opened h' (cf_dev c') bs' n' V'" "wrote V loc buf V'" "h_size h' = max (h_size h1) (int (loc + ?len))" for bs' h' c' n' V'
  proof -
    have "overwritten loc buf xs = file_bytes V' (max (length xs) (loc + ?len))"
      using file_bytes_wrote [OF that(2) loc(2) mx b] xs by simp
    moreover have "h_size h' = int (max (length xs) (loc + ?len))" using that(3) sz by (simp add: h1_def)
    ultimately show ?thesis using open_fileI [OF that(1)] mx b by simp
  qed
  have run: "cafs_lite_write flags (int loc0) buf (int ?len) h c =
      (let (r, h2) = cl_file_startwrite h1 in if r = int ?len then Some (op_nbyte (op_of h2), h2, c)
         else do {
           (r3, h3, d3) \<leftarrow> cl_file_finishwrite h2 (cf_dev c);
           Some (if r3 < 0 then -1 else op_nbyte (op_of h3), h3, c\<lparr>cf_dev := d3\<rparr>)
         })"
    using a by (simp add: cafs_lite_write_def lc h1_def p_def Let_def)
  show thesis
  proof (cases "k = ?len")
    case True
    have "fst (cl_file_startwrite h1) = int ?len" using s(2,9) True by auto
    then have "cafs_lite_write flags (int loc0) buf (int ?len) h c = Some (int ?len, h2, c)"
      using s(2,5) p1(3) unfolding run by (simp add: op_of_def)
    moreover have "open_file bs h2 c (overwritten loc buf xs)" by (rule fin [OF s(3)]) (use s(4,7) True p1(4) in \<open>simp_all add: p_def\<close>)
    ultimately show thesis by (rule that) (simp_all add: s(8) h1_def)
  next
    case False
    let ?p = "p\<lparr>op_loc := int (loc + k), op_buf := drop k (op_buf p)\<rparr>"
    have p2: "op_loc ?p = int (loc + k)" "length (op_buf ?p) = ?len - k" "loc + k + (?len - k) \<le> MAX_FILE" "int (loc + k) \<le> h_size h2"
      using p1(4) s(1,7) b by simp_all
    have less: "(?len - k) div 122 \<le> ?len div 122" by (intro div_le_mono) simp
    then have room2: "2 * ((?len - k) div 122) + 4 \<le> card (free_blocks (cf_dev c))" using room by linarith
    obtain h3 d3 bs3 n3 V3 where w: "cl_file_finishwrite h2 (cf_dev c) = Some (0, h3, d3)" "opened h3 d3 bs3 n3 V3" "wrote V2 (loc + k) (op_buf ?p) V3"
      "leaves (cf_dev c) bs d3 bs3" "h_size h3 = max (h_size h2) (int (loc + k + (?len - k)))" "h_amode h3 = h_amode h2"
      "op_nbyte (op_of h3) = op_nbyte ?p" "hd bs3 = hd bs"
      "card (free_blocks (cf_dev c)) \<le> card (free_blocks d3) + (2 * ((?len - k) div 122) + 4)"
      by (rule finishwrite_effect [OF s(3,5) p2(1) s(6) p2(2,3,4) room2])
    have "fst (cl_file_startwrite h1) = 0" "int ?len \<noteq> 0" using s(1,2) False by auto
    then have go: "cafs_lite_write flags (int loc0) buf (int ?len) h c = Some (int ?len, h3, c\<lparr>cf_dev := d3\<rparr>)"
      using s(2) w(1,7) p1(3) unfolding run by simp
    have wr: "wrote V loc buf V3"
    proof -
      have "loc + length (take k (op_buf p)) = loc + k" using p1(4) s(1) by simp
      then have "wrote V loc (take k (op_buf p) @ op_buf ?p) V3" using wrote_append [OF s(4), of "op_buf ?p" V3] w(3) by simp
      then show ?thesis by (simp add: p_def)
    qed
    have sz3: "h_size h3 = max (h_size h1) (int (loc + ?len))" using w(5) s(1,7) by simp
    have opn: "open_file bs3 h3 (c\<lparr>cf_dev := d3\<rparr>) (overwritten loc buf xs)"
      by (rule fin [OF _ wr sz3]) (use w(2) in simp)
    have "card (free_blocks (cf_dev c)) \<le> card (free_blocks d3) + (2 * (?len div 122) + 4)" using w(9) less by linarith
    then show thesis by (intro that [OF go opn]) (use w(4,6) s(8) in \<open>simp_all add: h1_def\<close>)
  qed
qed

subsection \<open>Reading\<close>

text \<open>The number of bytes that a read at \<open>loc\<close> gets.\<close>

lemma startread_effect:
  assumes o: "opened h d bs n V" and p: "h_op h = Some p" "op_loc p = int loc" "op_nbyte p = int len" "op_buf p = []"
    and sz: "h_size h = int fsize" "loc \<le> fsize" "fsize \<le> MAX_FILE"
  obtains k got h' where "got = min len (fsize - loc)" "k \<le> got"
    "cl_file_startread h = (if h_segment h = loc div 122 \<and> k = got then int got else 0, h')" "opened h' d bs n V"
    "h_op h' = Some (p\<lparr>op_nbyte := int got, op_loc := int (loc + k), op_buf := map (byte_at V) [loc ..< loc + k]\<rparr>)"
    "h_bytes_left h' = int (got - k)" "h_size h' = h_size h" "h_amode h' = h_amode h"
    "h_segment h \<noteq> loc div 122 \<longrightarrow> k = 0"
proof -
  define got where "got = min len (fsize - loc)"
  let ?p = "p\<lparr>op_nbyte := int got\<rparr>"
  define h2 where "h2 = h\<lparr>h_bytes_left := int got, h_op := Some ?p\<rparr>"
  have o2: "opened h2 d bs n V" using o by (subst opened_cong [of h2 h]) (simp_all add: h2_def)
  have seg: "segment_of_loc (op_loc (op_of h)) = int (loc div 122)" using p sz by (simp add: op_of_def segment_of_nat)
  have gl: "loc + got \<le> MAX_FILE" using sz by (simp add: got_def)
  have cut: "(if int len + int loc > int fsize then int fsize - int loc else int len) = int got"
    using sz(2) unfolding got_def min_def by (auto simp: of_nat_diff)
  have op: "op_of h = p" "op_nbyte p = int len" "op_loc p = int loc" using p by (simp_all add: op_of_def)
  have start: "cl_file_startread h = (if int (loc div 122) = int (h_segment h2) then
       (if h_bytes_left (read_current_segment h2) = 0 then op_nbyte (op_of (read_current_segment h2)) else 0, read_current_segment h2)
     else (0, h2))"
  proof -
    have "(let h1 = h\<lparr>h_bytes_left := op_nbyte (op_of h)\<rparr>
       in if h_bytes_left h1 + op_loc (op_of h1) > h_size h1
          then let left = h_size h1 - op_loc (op_of h1) in set_op (\<lambda>p. p\<lparr>op_nbyte := left\<rparr>) (h1\<lparr>h_bytes_left := left\<rparr>)
          else h1) = h2"
    proof (cases "int len + int loc > int fsize")
      case True
      then have g: "int fsize - int loc = int got" using cut by simp
      show ?thesis using True p sz(1) g by (simp add: h2_def op_of_def set_op_def Let_def)
    next
      case False
      then have g: "len = got" using cut by simp
      show ?thesis using False p sz(1) unfolding h2_def g by (cases p) (simp add: op_of_def g)
    qed
    then show ?thesis unfolding cl_file_startread_def Let_def seg by simp
  qed
  show thesis
  proof (cases "h_segment h = loc div 122")
    case False
    have r: "cl_file_startread h = (if h_segment h = loc div 122 \<and> 0 = got then int got else 0, h2)"
      using start False by (simp add: h2_def)
    have q: "h_op h2 = Some (p\<lparr>op_nbyte := int got, op_loc := int (loc + 0), op_buf := map (byte_at V) [loc ..< loc + 0]\<rparr>)"
      "h_bytes_left h2 = int (got - 0)" "h_size h2 = h_size h" "h_amode h2 = h_amode h"
      using p by (cases p; simp add: h2_def)+
    show thesis by (rule that [OF got_def _ r o2 q]) simp_all
  next
    case True
    have q: "h_op h2 = Some ?p" "op_loc ?p = int loc" "h_bytes_left h2 = int got" using p by (simp_all add: h2_def)
    have s1: "got = 0 \<or> h_segment h2 = loc div 122" using True by (simp add: h2_def)
    obtain h' k where r: "read_current_segment h2 = h'" "k = min got (122 - loc mod 122)" "opened h' d bs n V"
      "h_op h' = Some (?p\<lparr>op_loc := int (loc + k), op_buf := op_buf ?p @ map (byte_at V) [loc ..< loc + k]\<rparr>)"
      "h_bytes_left h' = int (got - k)" "h_size h' = h_size h2" "h_list_block h' = h_list_block h2"
      "h_segment h' = h_segment h2" "h_amode h' = h_amode h2"
      by (rule read_current [OF o2 q gl s1]) (rule that, assumption+)
    have k: "k \<le> got" using r(2) by simp
    have nb: "op_nbyte (op_of h') = int got" using r(4) by (simp add: op_of_def)
    have st: "cl_file_startread h = (if h_segment h = loc div 122 \<and> k = got then int got else 0, h')"
      using start True r(1,5) k nb by (simp add: h2_def)
    have op': "h_op h' = Some (p\<lparr>op_nbyte := int got, op_loc := int (loc + k), op_buf := map (byte_at V) [loc ..< loc + k]\<rparr>)"
      using r(4) p(4) by simp
    have rest: "h_size h' = h_size h" "h_amode h' = h_amode h" using r(6,9) by (simp_all add: h2_def)
    show thesis by (rule that [OF got_def k st r(3) op' r(5) rest]) (use True in simp)
  qed
qed

lemma read_effect:
  assumes f: "open_file bs h c xs" and a: "h_amode h AND R_OK \<noteq> 0" and loc: "loc \<le> length xs"
    and room: "2 \<le> card (free_blocks (cf_dev c))"
  obtains h' c' bs' where "cafs_lite_read (int loc) (int len) h c = Some (int (length (take len (drop loc xs))), take len (drop loc xs), h', c')"
    "open_file bs' h' c' xs" "h_amode h' = h_amode h" "leaves (cf_dev c) bs (cf_dev c') bs'"
    "card (free_blocks (cf_dev c)) \<le> card (free_blocks (cf_dev c')) + 2"
proof -
  from open_fileE [OF f] obtain n V where o: "opened h (cf_dev c) bs n V" and sz: "h_size h = int (length xs)"
    and mx: "length xs \<le> MAX_FILE" and xs: "xs = file_bytes V (length xs)" by blast
  define p where "p = \<lparr>op_loc = int loc, op_nbyte = int len, op_buf = []\<rparr>"
  define h1 where "h1 = h\<lparr>h_op := Some p\<rparr>"
  have o1: "opened h1 (cf_dev c) bs n V" using o by (subst opened_cong [of h1 h]) (simp_all add: h1_def)
  have p1: "h_op h1 = Some p" "op_loc p = int loc" "op_nbyte p = int len" "op_buf p = []" "h_size h1 = int (length xs)"
    using sz by (simp_all add: h1_def p_def)
  obtain k got h2 where s: "got = min len (length xs - loc)" "k \<le> got"
    "cl_file_startread h1 = (if h_segment h1 = loc div 122 \<and> k = got then int got else 0, h2)" "opened h2 (cf_dev c) bs n V"
    "h_op h2 = Some (p\<lparr>op_nbyte := int got, op_loc := int (loc + k), op_buf := map (byte_at V) [loc ..< loc + k]\<rparr>)"
    "h_bytes_left h2 = int (got - k)" "h_size h2 = h_size h1" "h_amode h2 = h_amode h1" "h_segment h1 \<noteq> loc div 122 \<longrightarrow> k = 0"
    by (rule startread_effect [OF o1 p1 loc mx])
  have ys: "take len (drop loc xs) = map (byte_at V) [loc ..< loc + got]"
  proof -
    have "min (length xs) (loc + len) = loc + got" using loc s(1) by simp
    then show ?thesis by (metis xs file_bytes_take_drop)
  qed
  have fin: "open_file bs' h' c' xs" if "opened h' (cf_dev c') bs' n' V" "h_size h' = h_size h1" for bs' h' c' n'
    using open_fileI [OF that(1) _ mx] that(2) p1(5) xs by simp
  have run: "cafs_lite_read (int loc) (int len) h c =
      (let (r, h2) = cl_file_startread h1 in if r = int len then Some (op_nbyte (op_of h2), op_buf (op_of h2), h2, c)
         else do {
           (r3, h3, d3) \<leftarrow> cl_file_finishread h2 (cf_dev c);
           Some (if r3 < 0 then -1 else op_nbyte (op_of h3), op_buf (op_of h3), h3, c\<lparr>cf_dev := d3\<rparr>)
         })"
    using a by (simp add: cafs_lite_read_def h1_def p_def Let_def)
  show thesis
  proof (cases "fst (cl_file_startread h1) = int len")
    case True
    have k: "k = got"
    proof (rule ccontr)
      assume n: "k \<noteq> got"
      then have "len = 0" using True s(3) by simp
      then show False using n s(1,2) by simp
    qed
    have "cafs_lite_read (int loc) (int len) h c = Some (int got, map (byte_at V) [loc ..< loc + got], h2, c)"
      using True s(3,5) k unfolding run by (auto simp: op_of_def Let_def split: if_splits)
    then have r: "cafs_lite_read (int loc) (int len) h c = Some (int (length (take len (drop loc xs))), take len (drop loc xs), h2, c)"
      unfolding ys by simp
    show thesis by (rule that [OF r fin [OF s(4,7)]]) (simp_all add: s(8) h1_def)
  next
    case False
    let ?p = "p\<lparr>op_nbyte := int got, op_loc := int (loc + k), op_buf := map (byte_at V) [loc ..< loc + k]\<rparr>"
    have b: "loc + k + (got - k) \<le> MAX_FILE" using s(1,2) loc mx by linarith
    have p2: "op_loc ?p = int (loc + k)" by simp
    obtain h3 d3 bs3 n3 where w: "cl_file_finishread h2 (cf_dev c) = Some (0, h3, d3)" "opened h3 d3 bs3 n3 V" "leaves (cf_dev c) bs d3 bs3"
      "op_buf (op_of h3) = op_buf ?p @ map (byte_at V) [loc + k ..< loc + k + (got - k)]" "h_size h3 = h_size h2" "h_amode h3 = h_amode h2"
      "op_nbyte (op_of h3) = op_nbyte ?p" "hd bs3 = hd bs" "card (free_blocks (cf_dev c)) \<le> card (free_blocks d3) + 2"
      by (rule finishread_effect [OF s(4,5) p2 s(6) b room]) (rule that, assumption+)
    have buf: "op_buf (op_of h3) = map (byte_at V) [loc ..< loc + got]"
      using w(4) s(2) map_upt_append [of loc "loc + k" "loc + got" "byte_at V"] by simp
    have "cafs_lite_read (int loc) (int len) h c = Some (int got, op_buf (op_of h3), h3, c\<lparr>cf_dev := d3\<rparr>)"
      using False s(3) w(1,7) unfolding run by (auto simp: Let_def)
    then have r: "cafs_lite_read (int loc) (int len) h c = Some (int (length (take len (drop loc xs))), take len (drop loc xs), h3, c\<lparr>cf_dev := d3\<rparr>)"
      unfolding ys buf by simp
    have sz3: "h_size h3 = h_size h1" using w(5) s(7) by simp
    have o3: "opened h3 (cf_dev (c\<lparr>cf_dev := d3\<rparr>)) bs3 n3 V" using w(2) by simp
    show thesis by (rule that [OF r fin [OF o3 sz3]]) (use w(3,6,9) s(8) in \<open>simp_all add: h1_def\<close>)
  qed
qed

subsection \<open>Other open files\<close>

text \<open>
  The file \<open>h\<close> uses none of the list blocks \<open>bs\<close> of another one, neither for its own list nor for a
  segment.
\<close>

definition open_apart :: "nat list \<Rightarrow> nat list \<Rightarrow> cl_handle \<Rightarrow> cafs \<Rightarrow> byte list \<Rightarrow> bool" where
  "open_apart bs cs h c xs \<longleftrightarrow> (\<exists>n V. opened h (cf_dev c) cs n V \<and> 0 \<le> h_size h \<and> h_size h \<le> int MAX_FILE
     \<and> xs = file_bytes V (nat (h_size h)) \<and> set bs \<inter> set cs = {}
     \<and> (\<forall>e\<in>set (held (seg_entries (cf_dev c) cs n)). fi_block e \<notin> set bs))"

lemma open_apart_open: "open_apart bs cs h c xs \<Longrightarrow> open_file cs h c xs"
  by (auto simp: open_apart_def open_file_def)

lemma opened_frame:
  assumes o: "opened h d cs n V" and l: "passes d bs d' bs'" and fd: "file_disk d' bs' n'"
    and ap: "set bs \<inter> set cs = {}" "\<forall>e\<in>set (held (seg_entries d cs n)). fi_block e \<notin> set bs"
  shows "opened h d' cs n V" "set bs' \<inter> set cs = {}" "seg_entries d' cs n = seg_entries d cs n"
    "\<forall>e\<in>set (held (seg_entries d cs n)). fi_block e \<notin> set bs'"
proof -
  have f: "file_disk d cs n" using o by (simp add: opened_def)
  note w = file_disk_facts [OF f]
  have tot: "cl_block_gettotal d' = cl_block_gettotal d" using l by (simp add: passes_def)
  have safe: "blk d' c = blk d c" "c \<notin> set bs'" if "c < cl_block_gettotal d" "live d c" "c \<notin> set bs" for c
    using l that by (auto simp: passes_def)
  have cs: "blk d' c = blk d c" "c \<notin> set bs'" if "c \<in> set cs" for c
    using safe [of c] wf_blocks [OF w(4) that] ap(1) that by auto
  have dt: "blk d' (fi_block e) = blk d (fi_block e)" "fi_block e \<notin> set bs'"
    if "e \<in> set (held (seg_entries d cs n))" for e using held_block [OF f that] safe that ap(2) by blast+
  note k = file_disk_keeps [OF f file_disk_facts(1) [OF fd] tot file_disk_facts(3) [OF fd] keeps_blk [OF cs(1)] keeps_blk [OF dt(1)]]
  show "seg_entries d' cs n = seg_entries d cs n" by (rule k(2))
  have head: "serial_of d' (hd cs) = serial_of d (hd cs)" using cs(1) [OF w(8)] by (simp add: serial_blk)
  show "opened h d' cs n V" using o head k by (auto simp: opened_def listed_def)
  show "set bs' \<inter> set cs = {}" using cs(2) by auto
  show "\<forall>e\<in>set (held (seg_entries d cs n)). fi_block e \<notin> set bs'" using dt(2) by blast
qed

lemma open_apart_kept:
  assumes "open_apart bs cs h c xs" "passes (cf_dev c) bs (cf_dev c') bs'" "open_file bs' g c' ys"
  shows "open_apart bs' cs h c' xs"
proof -
  from assms(1) obtain n V where o: "opened h (cf_dev c) cs n V" "0 \<le> h_size h" "h_size h \<le> int MAX_FILE"
    "xs = file_bytes V (nat (h_size h))" "set bs \<inter> set cs = {}"
    "\<forall>e\<in>set (held (seg_entries (cf_dev c) cs n)). fi_block e \<notin> set bs" by (auto simp: open_apart_def)
  from assms(3) obtain n' where "file_disk (cf_dev c') bs' n'" by (auto simp: open_file_def opened_def)
  note f = opened_frame [OF o(1) assms(2) this o(5,6)]
  show ?thesis unfolding open_apart_def by (intro exI [of _ n] exI [of _ V] conjI) (use f o(2-4) in simp_all)
qed

subsection \<open>The identity of a handle\<close>

text \<open>The header block of a file and the address of its entry stay what they are.\<close>

definition handle_id :: "cl_handle \<Rightarrow> nat \<times> nat" where
  "handle_id h = (h_hdr_block h, h_serialno_addr h)"

lemma handle_id_update [simp]:
  "handle_id (h\<lparr>h_op := x\<rparr>) = handle_id h" "handle_id (h\<lparr>h_bytes_left := i\<rparr>) = handle_id h" "handle_id (h\<lparr>h_size := i\<rparr>) = handle_id h"
  "handle_id (h\<lparr>h_segment := n\<rparr>) = handle_id h" "handle_id (h\<lparr>h_mtime := m\<rparr>) = handle_id h" "handle_id (h\<lparr>h_data := y\<rparr>) = handle_id h"
  by (simp_all add: handle_id_def)

lemma id_sel [simp]:
  "handle_id (set_op f h) = handle_id h" "handle_id (set_data x h) = handle_id h"
  "handle_id (set_ram_status y h) = handle_id h" "handle_id (grow h) = handle_id h"
  by (simp_all add: set_op_def set_data_def set_ram_status_def grow_def)

lemma id_current [simp]:
  "handle_id (read_current_segment h) = handle_id h" "handle_id (write_current_segment h) = handle_id h"
  by (simp_all add: read_current_segment_def write_current_segment_def Let_def split: prod.split)

lemma id_save: "cl_file_savesegment h d = Some (r, h', d') \<Longrightarrow> handle_id h' = handle_id h"
  by (auto simp: cl_file_savesegment_def Let_def split: if_splits Option.bind_splits)

lemma id_load: "cl_file_loadsegment s h d = Some (r, h') \<Longrightarrow> handle_id h' = handle_id h"
  by (auto simp: cl_file_loadsegment_def Let_def split: if_splits Option.bind_splits option.splits)

lemma id_write_loop: "file_write_loop n h d = Some (r, h', d') \<Longrightarrow> handle_id h' = handle_id h"
proof (induction n arbitrary: h d)
  case (Suc n)
  define h1 where "h1 = set_ram_status BLOCK_STATUS_CLOSED (set_data (take BLOCK_DATA_SIZE (op_buf (op_of h))) h)"
  obtain r2 h2 d2 where 2: "cl_file_savesegment h1 d = Some (r2, h2, d2)"
    using Suc.prems by (cases "cl_file_savesegment h1 d") (auto simp: h1_def)
  have k2: "handle_id h2 = handle_id h" using id_save [OF 2] by (simp add: h1_def)
  show ?case
  proof (cases "r2 < 0")
    case True
    then show ?thesis using Suc.prems 2 k2 by (simp add: h1_def)
  next
    case False
    then have "file_write_loop n (set_op (\<lambda>p. p\<lparr>op_buf := drop BLOCK_DATA_SIZE (op_buf p)\<rparr>)
        (h2\<lparr>h_segment := (h_segment h2 + 1) mod 65536\<rparr>)) d2 = Some (r, h', d')" using Suc.prems 2 by (simp add: h1_def)
    from Suc.IH [OF this] k2 show ?thesis by simp
  qed
qed simp

lemma id_read_loop: "file_read_loop s n h d = Some (r, h') \<Longrightarrow> handle_id h' = handle_id h"
proof (induction n arbitrary: s h)
  case (Suc n)
  obtain r1 h1 where 1: "cl_file_loadsegment s h d = Some (r1, h1)"
    using Suc.prems by (cases "cl_file_loadsegment s h d") auto
  note k1 = id_load [OF 1]
  show ?case
  proof (cases "r1 < 0")
    case True
    then show ?thesis using Suc.prems 1 k1 by simp
  next
    case False
    then have "file_read_loop (s + 1) n (set_op (\<lambda>p. p\<lparr>op_buf := op_buf p @ bd_data (h_data h1)\<rparr>) h1) d = Some (r, h')"
      using Suc.prems 1 by simp
    from Suc.IH [OF this] k1 show ?thesis by simp
  qed
qed simp

lemma id_write: "cl_file_write s n h d = Some (r, h', d') \<Longrightarrow> handle_id h' = handle_id h"
  by (auto simp: cl_file_write_def split: if_splits Option.bind_splits dest!: id_write_loop)

lemma id_read: "cl_file_read s n h d = Some (r, h') \<Longrightarrow> handle_id h' = handle_id h"
  by (auto simp: cl_file_read_def split: if_splits Option.bind_splits dest!: id_read_loop)

lemmas id_dest = id_save id_load id_write id_read

lemma id_startread: "cl_file_startread h = (r, h') \<Longrightarrow> handle_id h' = handle_id h"
  by (auto simp: cl_file_startread_def Let_def split: if_splits)

lemma id_startwrite: "cl_file_startwrite h = (r, h') \<Longrightarrow> handle_id h' = handle_id h"
  by (auto simp: cl_file_startwrite_def Let_def split: if_splits)

lemma id_finishread: "cl_file_finishread h d = Some (r, h', d') \<Longrightarrow> handle_id h' = handle_id h"
  by (auto simp: cl_file_finishread_def Let_def split: if_splits Option.bind_splits dest!: id_dest)

lemma id_finishwrite: "cl_file_finishwrite h d = Some (r, h', d') \<Longrightarrow> handle_id h' = handle_id h"
  by (auto simp: cl_file_finishwrite_def Let_def split: if_splits Option.bind_splits dest!: id_dest)

lemma id_lite_read: "cafs_lite_read loc n h c = Some (r, bs, h', c') \<Longrightarrow> handle_id h' = handle_id h"
  by (auto simp: cafs_lite_read_def Let_def split: if_splits Option.bind_splits prod.splits
      dest!: id_startread id_finishread)

lemma id_lite_write: "cafs_lite_write fl loc buf n h c = Some (r, h', c') \<Longrightarrow> handle_id h' = handle_id h"
  by (auto simp: cafs_lite_write_def Let_def split: if_splits Option.bind_splits prod.splits
      dest!: id_startwrite id_finishwrite)

subsection \<open>Sequences of calls\<close>

text \<open>Calls on one open file, and what they do to a sequence of bytes.\<close>

datatype file_call = Read nat nat | Write nat "byte list"

fun run_calls :: "oflags \<Rightarrow> file_call list \<Rightarrow> cl_handle \<Rightarrow> cafs \<Rightarrow> ((int \<times> byte list) list \<times> cl_handle \<times> cafs) option" where
  "run_calls flags [] h c = Some ([], h, c)"
| "run_calls flags (Read loc n # ks) h c = do {
    (r, ys, h1, c1) \<leftarrow> cafs_lite_read (int loc) (int n) h c;
    (rs, h2, c2) \<leftarrow> run_calls flags ks h1 c1;
    Some ((r, ys) # rs, h2, c2)
  }"
| "run_calls flags (Write loc buf # ks) h c = do {
    (r, h1, c1) \<leftarrow> cafs_lite_write flags (int loc) buf (int (length buf)) h c;
    (rs, h2, c2) \<leftarrow> run_calls flags ks h1 c1;
    Some ((r, []) # rs, h2, c2)
  }"

definition write_loc :: "oflags \<Rightarrow> nat \<Rightarrow> byte list \<Rightarrow> nat" where
  "write_loc flags loc xs = (if of_append flags then length xs else loc)"

fun spec_calls :: "oflags \<Rightarrow> file_call list \<Rightarrow> byte list \<Rightarrow> (int \<times> byte list) list \<times> byte list" where
  "spec_calls flags [] xs = ([], xs)"
| "spec_calls flags (Read loc n # ks) xs =
    (let ys = take n (drop loc xs); (rs, zs) = spec_calls flags ks xs in ((int (length ys), ys) # rs, zs))"
| "spec_calls flags (Write loc buf # ks) xs =
    (let (rs, zs) = spec_calls flags ks (overwritten (write_loc flags loc xs) buf xs) in ((int (length buf), []) # rs, zs))"

text \<open>No call starts behind the end of the file, or leaves the largest file.\<close>

fun calls_ok :: "oflags \<Rightarrow> file_call list \<Rightarrow> byte list \<Rightarrow> bool" where
  "calls_ok flags [] xs = True"
| "calls_ok flags (Read loc n # ks) xs \<longleftrightarrow> loc \<le> length xs \<and> calls_ok flags ks xs"
| "calls_ok flags (Write loc0 buf # ks) xs \<longleftrightarrow> (let loc = write_loc flags loc0 xs
     in loc \<le> length xs \<and> loc + length buf \<le> MAX_FILE \<and> calls_ok flags ks (overwritten loc buf xs))"

text \<open>The blocks that the calls can take.\<close>

fun calls_blocks :: "file_call list \<Rightarrow> nat" where
  "calls_blocks [] = 0"
| "calls_blocks (Read loc n # ks) = 2 + calls_blocks ks"
| "calls_blocks (Write loc buf # ks) = 2 * (length buf div 122) + 4 + calls_blocks ks"

lemma run_calls_effect:
  assumes "open_file bs h c xs" "h_amode h AND R_OK \<noteq> 0" "h_amode h AND W_OK \<noteq> 0" "calls_ok flags ks xs"
    and "calls_blocks ks \<le> card (free_blocks (cf_dev c))"
  shows "\<exists>h' c' bs'. run_calls flags ks h c = Some (fst (spec_calls flags ks xs), h', c')
    \<and> open_file bs' h' c' (snd (spec_calls flags ks xs)) \<and> leaves (cf_dev c) bs (cf_dev c') bs'"
  using assms
proof (induction flags ks h c arbitrary: bs xs rule: run_calls.induct)
  case (1 flags h c)
  then show ?case by (intro exI [of _ h] exI [of _ c] exI [of _ bs]) simp
next
  case (2 flags loc n ks h c)
  have p: "loc \<le> length xs" "calls_ok flags ks xs" "2 \<le> card (free_blocks (cf_dev c))" using "2.prems" by simp_all
  obtain h1 c1 bs1 where r: "cafs_lite_read (int loc) (int n) h c = Some (int (length (take n (drop loc xs))), take n (drop loc xs), h1, c1)"
    "open_file bs1 h1 c1 xs" "h_amode h1 = h_amode h" "leaves (cf_dev c) bs (cf_dev c1) bs1"
    "card (free_blocks (cf_dev c)) \<le> card (free_blocks (cf_dev c1)) + 2"
    by (rule read_effect [OF "2.prems"(1,2) p(1,3), of n]) (rule that, assumption+)
  have room: "calls_blocks ks \<le> card (free_blocks (cf_dev c1))" using "2.prems"(5) r(5) by simp
  have am: "h_amode h1 AND R_OK \<noteq> 0" "h_amode h1 AND W_OK \<noteq> 0" using "2.prems"(2,3) unfolding r(3) .
  from "2.IH" [OF r(1) refl refl refl r(2) am p(2) room] obtain h2 c2 bs2 where
    k: "run_calls flags ks h1 c1 = Some (fst (spec_calls flags ks xs), h2, c2)"
      "open_file bs2 h2 c2 (snd (spec_calls flags ks xs))" "leaves (cf_dev c1) bs1 (cf_dev c2) bs2" by blast
  show ?case
    by (intro exI [of _ h2] exI [of _ c2] exI [of _ bs2])
       (use r(1) k(1,2) leaves_trans [OF r(4) k(3)] in \<open>simp add: case_prod_beta Let_def\<close>)
next
  case (3 flags loc0 buf ks h c)
  let ?loc = "write_loc flags loc0 xs" and ?xs = "overwritten (write_loc flags loc0 xs) buf xs"
  have p: "?loc \<le> length xs" "?loc + length buf \<le> MAX_FILE" "calls_ok flags ks ?xs"
    "2 * (length buf div 122) + 4 \<le> card (free_blocks (cf_dev c))" using "3.prems" by (simp_all add: Let_def)
  obtain h1 c1 bs1 where r: "cafs_lite_write flags (int loc0) buf (int (length buf)) h c = Some (int (length buf), h1, c1)"
    "open_file bs1 h1 c1 ?xs" "h_amode h1 = h_amode h" "leaves (cf_dev c) bs (cf_dev c1) bs1"
    "card (free_blocks (cf_dev c)) \<le> card (free_blocks (cf_dev c1)) + (2 * (length buf div 122) + 4)"
    by (rule write_effect [OF "3.prems"(1,3) write_loc_def p(1,2,4)]) (rule that, assumption+)
  have room: "calls_blocks ks \<le> card (free_blocks (cf_dev c1))" using "3.prems"(5) r(5) by simp
  have am: "h_amode h1 AND R_OK \<noteq> 0" "h_amode h1 AND W_OK \<noteq> 0" using "3.prems"(2,3) unfolding r(3) .
  from "3.IH" [OF r(1) refl refl r(2) am p(3) room] obtain h2 c2 bs2 where
    k: "run_calls flags ks h1 c1 = Some (fst (spec_calls flags ks ?xs), h2, c2)"
      "open_file bs2 h2 c2 (snd (spec_calls flags ks ?xs))" "leaves (cf_dev c1) bs1 (cf_dev c2) bs2" by blast
  show ?case
    by (intro exI [of _ h2] exI [of _ c2] exI [of _ bs2])
       (use r(1) k(1,2) leaves_trans [OF r(4) k(3)] in \<open>simp add: case_prod_beta Let_def\<close>)
qed

end
