(* ===== verification/CafsNew.thy ===== *)
theory CafsNew
  imports CafsIo
begin

section \<open>New files\<close>

text \<open>A block that the allocation has just handed out for a file list is an empty list.\<close>

lemma granted_empty_list:
  assumes g: "granted sn BLOCK_TYPE_FILE_LIST d b d'" and ps: "per_section d \<le> 41"
  shows "file_disk d' [b] 0" "seg_entries d' [b] 0 = []" "seg_data d' [b] 0 = (\<lambda>s. replicate 122 0)"
proof -
  have s: "sound d'" "same_dev d d'" and b: "b < cl_block_gettotal d" using g by (auto simp: granted_def)
  note dev = same_dev_geometry [OF s(2)]
  note bb = granted_blk [OF g]
  have st: "status_of d' b = BLOCK_STATUS_OPEN" "type_of d' b = BLOCK_TYPE_FILE_LIST"
    using g by (auto simp: granted_def hdr_of_def)
  have d6: "data_of d' b = [0xFF, 0xFF] @ [0xFF, 0xFF] @ replicate 118 0xFF" by (simp add: data_of_def bb)
  have ff: "get_le [0xFF, 0xFF] = BLOCK_INVALID" by simp
  have "list_typeisvalid BLOCK_TYPE_FILE_LIST" by code_simp
  moreover have "list_next (data_of d' b) = BLOCK_INVALID" "list_prev (data_of d' b) = BLOCK_INVALID"
    unfolding d6 list_next_def list_prev_def using ff by simp_all
  ultimately have "chain d' BLOCK_INVALID [b]" using b dev st(2) by simp
  moreover have "slot d' 8 [b] k = replicate 8 0xFF" if "k < 14" for k
  proof -
    have "slot d' 8 [b] k = take 8 (drop (8 * k) (drop 4 (data_of d' b)))"
      using that by (simp add: slot_def get_item_def add.commute)
    also have "drop 4 (data_of d' b) = replicate 118 0xFF" by (simp add: d6)
    also have "take 8 (drop (8 * k) (replicate 118 0xFF)) = replicate 8 (0xFF :: byte)" using that by simp
    finally show ?thesis .
  qed
  ultimately have "wf_list d' 8 cl_filelist_isfree [b] 0" using st(1) by (simp add: wf_list_def live_def)
  moreover show es: "seg_entries d' [b] 0 = []" by (simp add: seg_entries_def contents_def)
  ultimately show "file_disk d' [b] 0" using s(1) ps dev by (simp add: file_disk_def currents_def owned_def)
  show "seg_data d' [b] 0 = (\<lambda>s. replicate 122 0)" by (rule ext) (simp add: seg_data_def es seg_lookup_def)
qed

lemma granted_opened:
  assumes "granted sn BLOCK_TYPE_FILE_LIST d b d'" "per_section d \<le> 41" "h_list_block h = b" "h_segment h = SEGMENT_INVALID"
    and "length (bd_data (h_data h)) = 122" "h_size h = 0" "bh_serialno (bd_hdr (h_data h)) = sn"
  shows "open_file [b] h \<lparr>cf_dev = d', cf_errno = e, cf_open = p\<rparr> []"
proof -
  have "serial_of d' b = sn" using assms(1) by (simp add: granted_def hdr_of_def)
  then have "opened h d' [b] 0 (\<lambda>s. replicate 122 0)"
    using granted_empty_list [OF assms(1,2)] assms(3-5,7) by (simp add: opened_def listed_def)
  from open_fileI [of h "\<lparr>cf_dev = d', cf_errno = e, cf_open = p\<rparr>" "[b]" 0 "\<lambda>s. replicate 122 0" 0] this assms(6)
  show ?thesis by (simp add: file_bytes_def)
qed

lemma granted_free_left:
  assumes "granted sn ty d b d'"
  shows "card (free_blocks d) \<le> card (free_blocks d') + 1"
proof -
  have "card (free_blocks d) \<le> card (free_blocks d') + length [b]"
    by (rule free_blocks_left) (use assms granted_spared in \<open>auto simp: granted_def same_dev_geometry\<close>)
  then show ?thesis by simp
qed

text \<open>An allocation without a hint that finds a free block inside the disk.\<close>

lemma alloc_first_granted:
  assumes "sound d" "first_free d (candidates d sn BLOCK_INVALID) = Some b" "1 \<le> b" "b < cl_block_gettotal d"
  shows "b \<noteq> BLOCK_INVALID" "\<exists>d'. cl_block_alloc sn BLOCK_INVALID ty d = Some (b, d') \<and> granted sn ty d b d'"
proof -
  have s: "geometry d" "clean d" using assms(1) by (auto simp: sound_def)
  show nb: "b \<noteq> BLOCK_INVALID" using block_less_invalid [OF s(1) assms(4)] by simp
  have st: "status_of d b = BLOCK_STATUS_FREE" using first_free_SomeD [OF assms(2)] by simp
  then have e: "erased d b" using s(2) assms(3,4) by (simp add: clean_def)
  have T: "b < all_blocks d" "b < 65536" using gettotal_less [OF s(1)] all_blocks_bound [OF s(1)] assms(4) by auto
  have "alloc_block sn BLOCK_INVALID ty d = Some (b, marked d b sn ty)"
    using assms(2) T e s by (simp add: alloc_block_candidates take_block_def mark_allocated_erased to_block_def take_first_def)
  moreover have "granted sn ty d b (marked d b sn ty)"
    using assms e st by (auto simp: granted_def live_def hdr_marked blk_marked erased_blk sound_def
        intro: clean_marked idle_marked)
  ultimately show "\<exists>d'. cl_block_alloc sn BLOCK_INVALID ty d = Some (b, d') \<and> granted sn ty d b d'"
    using nb by (simp add: cl_block_alloc_def)
qed

lemma sn_list_keeps:
  assumes "sn_list d bs n" "cl_block_gettotal d' = cl_block_gettotal d" "dev_list_block d' = dev_list_block d"
    and "\<And>b. b \<in> set bs \<Longrightarrow> keeps d d' b"
  shows "sn_list d' bs n" "sn_entries d' bs n = sn_entries d bs n"
proof -
  have wf: "wf_list d 8 cl_serialno_isfree bs n" using assms(1) by (simp add: sn_list_def)
  note w = wf_list_keeps [OF wf assms(2,4), simplified]
  have "list_block_of d' = list_block_of d" using assms(3) by (simp add: list_block_of_def cl_dev_getlist_block_def)
  with assms(1) w show "sn_list d' bs n" by (simp add: sn_list_def)
  show "sn_entries d' bs n = sn_entries d bs n" by (simp add: sn_entries_def w)
qed

lemma sn_list_cong:
  assumes "sn_list d bs n" "same_dev d d'" "\<And>b. b \<in> set bs \<Longrightarrow> blk d' b = blk d b"
  shows "sn_list d' bs n" "sn_entries d' bs n = sn_entries d bs n"
  using sn_list_keeps [OF assms(1) _ _ keeps_blk [OF assms(3)]] same_dev_geometry [OF assms(2)] by simp_all

lemma new_hdr_bytes_parts:
  assumes "length junk = 28" "length name < 26" "b < 65536"
  shows "length (new_hdr_bytes junk name b) = 28" "take (length name + 1) (new_hdr_bytes junk name b) = name @ [0]"
    "take 2 (drop 26 (new_hdr_bytes junk name b)) = put_le 2 b"
proof -
  let ?x = "overlay 0 (name @ [0]) junk"
  have l: "length ?x = 28" using assms by (simp add: overlay_def)
  have e: "new_hdr_bytes junk name b = take 26 ?x @ put_le 2 b"
    using l by (simp add: new_hdr_bytes_def set_content_block_def overlay_def)
  show "length (new_hdr_bytes junk name b) = 28" "take 2 (drop 26 (new_hdr_bytes junk name b)) = put_le 2 b"
    using l by (simp_all add: e)
  have x: "?x = (name @ [0]) @ drop (length name + 1) junk" by (simp add: overlay_def)
  have "take (length name + 1) (take 26 ?x) = take (length name + 1) ?x" using assms(2) by (simp add: min_def)
  then show "take (length name + 1) (new_hdr_bytes junk name b) = name @ [0]" using assms l by (simp add: e x)
qed

lemma hdr_name_stored:
  assumes "take (length name + 1) data = name @ [0]" "0 \<notin> set name"
  shows "hdr_name data = name"
proof -
  have "data = name @ 0 # drop (length name + 1) data"
    using assms(1) by (metis append_take_drop_id append.assoc append_Cons append_Nil)
  then show ?thesis using assms(2) unfolding hdr_name_def
    by (metis (mono_tags, lifting) takeWhile_append2 takeWhile.simps(2) append_Nil2)
qed

definition new_handle :: "cl_handle \<Rightarrow> u32 \<Rightarrow> byte \<Rightarrow> nat \<Rightarrow> nat \<Rightarrow> nat option \<Rightarrow> cl_handle" where
  "new_handle h sn amode b lb ao =
    (case ao of None \<Rightarrow> h | Some addr \<Rightarrow> h\<lparr>h_serialno_addr := addr\<rparr>)
      \<lparr>h_hdr_block := b, h_list_block := lb, h_size := 0, h_segment := SEGMENT_INVALID,
       h_data := \<lparr>bd_hdr = \<lparr>bh_serialno = sn, bh_type = BLOCK_TYPE_FILE_DATA, bh_status = BLOCK_STATUS_FREE\<rparr>,
         bd_data = bd_data (h_data h)\<rparr>, h_mtime := 0, h_amode := amode, h_op := None\<rparr>"

lemma file_new_effect:
  assumes snd: "sound d" and ps: "per_section d \<le> 41" and sl: "sn_list d bs n"
    and new: "sn_lookup sn CAFS_SNLIST_ITEM_STATUS_OPEN (sn_entries d bs n) = None"
    and first: "first_free d (candidates d sn BLOCK_INVALID) = Some b" "1 \<le> b" "b < cl_block_gettotal d"
    and room: "3 \<le> card (free_blocks d)"
    and data: "length (bd_data (h_data h)) = 122" and name: "length junk = 28" "length name < 26"
  obtains ao lb d' bs' n' where "cl_file_new junk name sn ty amode h d = Some (0, new_handle h sn amode b lb ao, d')"
    "\<And>e p. open_file [lb] (new_handle h sn amode b lb ao) \<lparr>cf_dev = d', cf_errno = e, cf_open = p\<rparr> []"
    "sound d'" "sn_list d' bs' n'" "sn_entries d' bs' n' = sn_entries d bs n @ [sn_set_checksum
       \<lparr>sn_status = CAFS_SNLIST_ITEM_STATUS_OPEN, sn_serialno = sn, sn_block = b, sn_checksum = 0\<rparr>]"
    "take (length name + 1) (data_of d' b) = name @ [0]" "hdr_content_block (data_of d' b) = lb"
    "passes d bs d' [lb]" "card (free_blocks d) \<le> card (free_blocks d') + 3"
    "ao = Some (slot_addr 8 bs' n)" "n' = Suc n" "lb \<notin> set bs'" "b \<notin> set bs'"
    "hdr_of d' b = \<lparr>bh_serialno = sn, bh_type = ty, bh_status = BLOCK_STATUS_OPEN\<rparr>"
    "data_of d' b = new_hdr_bytes junk name lb @ replicate 94 0xFF" "\<And>c. c < cl_block_gettotal d \<Longrightarrow> live d c \<Longrightarrow> c \<notin> set bs \<Longrightarrow> c \<noteq> b \<and> c \<notin> set bs'" "same_dev d d'"
proof -
  let ?T = "cl_block_gettotal d" and ?st = CAFS_SNLIST_ITEM_STATUS_OPEN
  have geo: "geometry d" using snd by (simp add: sound_def)
  obtain d1 where a1: "cl_block_alloc sn BLOCK_INVALID ty d = Some (b, d1)" and g1: "granted sn ty d b d1"
    using alloc_first_granted(2) [OF snd first] by blast
  have nb: "b \<noteq> BLOCK_INVALID" by (rule alloc_first_granted(1) [OF snd first])
  have s1: "sound d1" "same_dev d d1" "\<not> live d b" using g1 by (auto simp: granted_def)
  note dev1 = same_dev_geometry [OF s1(2)]
  have wf: "wf_list d 8 cl_serialno_isfree bs n" using sl by (simp add: sn_list_def)
  have b_bs: "b \<notin> set bs" using s1(3) wf_blocks [OF wf] by auto
  have keep1: "blk d1 c = blk d c" if "c < ?T" "live d c" for c using g1 that s1(3) by (auto simp: granted_def)
  note sl1 = sn_list_cong [OF sl s1(2) keep1]
  have sl1: "sn_list d1 bs n" "sn_entries d1 bs n = sn_entries d bs n" using sl1 wf_blocks [OF wf] by auto
  have f1: "card (free_blocks d) \<le> card (free_blocks d1) + 1" by (rule granted_free_left [OF g1])
  then have "free_blocks d1 \<noteq> {}" using room by auto
  then have r1: "room d1" by (rule free_blocks_room)
  have ps1: "per_section d1 \<le> 41" using ps dev1 by simp
  have b16: "b < 65536" using first(3) gettotal_less [OF geo] all_blocks_bound [OF geo] by simp
  have st: "?st \<noteq> CAFS_SNLIST_ITEM_STATUS_FREE" by simp
  have new1: "sn_lookup sn ?st (sn_entries d1 bs n) = None" using new sl1(2) by simp
  let ?e = "sn_set_checksum \<lparr>sn_status = ?st, sn_serialno = sn, sn_block = b, sn_checksum = 0\<rparr>"
  obtain r ao d2 bs' n' where ap: "cl_serialno_append sn b ?st d1 = Some (r, ao, d2)" "sound d2" "same_dev d1 d2" "sn_list d2 bs' n'"
    "if r = 0 then sn_entries d2 bs' n' = sn_entries d1 bs n @ [?e] else r = -1 \<and> \<not> room d1 \<and> n = calc_total_items 8 * length bs \<and> sn_entries d2 bs' n' = sn_entries d1 bs n"
    "\<And>c. c < cl_block_gettotal d1 \<Longrightarrow> live d1 c \<Longrightarrow> c \<notin> set bs \<Longrightarrow> blk d2 c = blk d1 c"
    "\<exists>nbs. bs' = bs @ nbs \<and> length nbs \<le> 1 \<and> (\<forall>c\<in>set nbs. \<not> live d1 c) \<and> (\<forall>c<cl_block_gettotal d1. c \<notin> set bs' \<longrightarrow> spared d1 d2 c)"
    "r = 0 \<Longrightarrow> ao = Some (slot_addr 8 bs' n) \<and> n' = Suc n"
    by (rule serialno_append_entries [OF s1(1) ps1 sl1(1) b16 st new1]) (rule that, assumption+)
  have r: "r = 0" and es2: "sn_entries d2 bs' n' = sn_entries d bs n @ [?e]" using ap(5) r1 sl1(2) by (auto split: if_splits)
  obtain nbs where nbs: "bs' = bs @ nbs" "length nbs \<le> 1" "\<forall>c\<in>set nbs. \<not> live d1 c"
    "\<forall>c<cl_block_gettotal d1. c \<notin> set bs' \<longrightarrow> spared d1 d2 c" using ap(7) by blast
  note dev2 = same_dev_geometry [OF ap(3)]
  have wf1: "wf_list d1 8 cl_serialno_isfree bs n" using sl1(1) by (simp add: sn_list_def)
  have f2: "card (free_blocks d1) \<le> card (free_blocks d2) + length nbs"
    by (rule free_blocks_left) (use nbs dev2 wf_blocks [OF wf1] in auto)
  have ne2: "free_blocks d2 \<noteq> {}"
  proof
    assume "free_blocks d2 = {}"
    then show False using f1 f2 nbs(2) room by simp
  qed
  have lb1: "live d1 b" using g1 by (auto simp: granted_def live_def hdr_of_def)
  have b_bs': "b \<notin> set bs'" using nbs(1,3) b_bs lb1 by auto
  have b2: "blk d2 b = blk d1 b" using ap(6) [of b] lb1 b_bs first(3) dev1 by simp
  have lb2: "live d2 b" using live_blk [OF b2] lb1 by simp
  have T2: "cl_block_gettotal d2 = ?T" using dev1 dev2 by simp
  have ps2: "per_section d2 \<le> 41" using ps1 dev2 by simp
  have bT2: "b < cl_block_gettotal d2" using first(3) T2 by simp
  obtain lb d3 where a3: "cl_block_alloc sn b BLOCK_TYPE_FILE_LIST d2 = Some (lb, d3)"
    "lb \<noteq> BLOCK_INVALID \<and> granted sn BLOCK_TYPE_FILE_LIST d2 lb d3 \<or> lb = BLOCK_INVALID \<and> kept d2 d3 \<and> sound d3 \<and> \<not> room d2"
    by (rule cl_block_alloc_outcome [OF ap(2) bT2 ps2])
  have nlb: "lb \<noteq> BLOCK_INVALID" and g3: "granted sn BLOCK_TYPE_FILE_LIST d2 lb d3"
    using a3(2) free_blocks_room [OF ne2] by auto
  have s3: "sound d3" "same_dev d2 d3" "\<not> live d2 lb" "lb < ?T" using g3 T2 by (auto simp: granted_def)
  note dev3 = same_dev_geometry [OF s3(2)]
  have keep3: "blk d3 c = blk d2 c" if "c < ?T" "live d2 c" for c using g3 that s3(3) T2 by (auto simp: granted_def)
  have lbb: "lb \<noteq> b" using lb2 s3(3) by auto
  have b3: "blk d3 b = blk d1 b" using keep3 [OF first(3) lb2] b2 by simp
  have lb16: "lb < 65536" using s3(4) gettotal_less [OF geo] all_blocks_bound [OF geo] by simp
  let ?w = "new_hdr_bytes junk name lb"
  note w = new_hdr_bytes_parts [OF name lb16]
  define B where "B = overlay 6 ?w (blk d3 b)"
  define d4 where "d4 = set_cell (Blk b) B d3"
  have bb: "blk d3 b = (put_le 4 (unat sn) @ [ty, BLOCK_STATUS_OPEN]) @ replicate 122 0xFF"
    using granted_blk [OF g1] four_more [of "0xFF :: byte" 118] by (simp add: b3)
  have ov: "over ?w (take (length ?w) (drop 6 (blk d3 b)))"
    using w(1) by (simp add: bb over_def list_all2_conv_all_nth)
  have ne: "?w \<noteq> []" using w(1) by auto
  have wr: "cl_dev_write (128 * b + 6) ?w d3 = Some (28, d4)"
    using ne write_in_block [of d3 b 6 ?w] s3(1) first(3) T2 dev3 ov w(1) by (auto simp: sound_def d4_def B_def)
  let ?h = "new_handle h sn amode b lb ao"
  have run: "cl_file_new junk name sn ty amode h d = Some (0, ?h, d4)"
    using a1 nb ap(1) r a3(1) nlb wr
    by (simp add: cl_file_new_def new_handle_def Let_def get_cl_block_data_addr_def mult.commute split: option.split)
  have B: "B = (put_le 4 (unat sn) @ [ty, BLOCK_STATUS_OPEN]) @ ?w @ replicate 94 0xFF"
    by (simp add: B_def bb overlay_def w(1))
  then have lB: "length B = 128" using w(1) by simp
  have b4: "blk d4 c = (if c = b then B else blk d3 c)" if "c < ?T" for c
    using that first(3) T2 dev3 lB by (simp add: d4_def blk_set_blk)
  have s4: "sound d4" using s3(1) first(3) T2 dev3 lB by (auto simp: d4_def B nth_append intro!: sound_set_blk)
  have dev34: "same_dev d3 d4" by (simp add: d4_def)
  note dev4 = same_dev_geometry [OF dev34]
  note e3 = granted_empty_list [OF g3 ps2]
  have "blk d4 c = blk d3 c" if "c \<in> set [lb]" for c using that b4 [OF s3(4)] lbb by simp
  note w4 = wf_list_cong [OF file_disk_facts(4) [OF e3(1)] dev4(2) this, simplified]
  have es4: "seg_entries d4 [lb] 0 = []" by (simp add: seg_entries_def contents_def)
  then have "file_disk d4 [lb] 0" using s4 w4(1) ps2 dev3 dev4 by (simp add: file_disk_def currents_def owned_def)
  moreover have "seg_data d4 [lb] 0 t = replicate 122 0" for t by (simp add: seg_data_def es4 seg_lookup_def)
  moreover have hf: "h_list_block ?h = lb" "h_segment ?h = SEGMENT_INVALID" "bd_data (h_data ?h) = bd_data (h_data h)" "h_size ?h = int 0"
    by (simp_all add: new_handle_def)
  moreover have "listed ?h d4 [lb]"
    using g3 b4 [OF s3(4)] lbb by (simp add: listed_def new_handle_def granted_def hdr_of_def serial_blk [of d4] flip: serial_blk [of d3])
  ultimately have "opened ?h d4 [lb] 0 (\<lambda>s. replicate 122 0)" using data by (simp add: opened_def)
  then have op: "open_file [lb] ?h \<lparr>cf_dev = d4, cf_errno = e, cf_open = p\<rparr> []" for e p
    using open_fileI [OF _ hf(4), of "\<lparr>cf_dev = d4, cf_errno = e, cf_open = p\<rparr>" "[lb]" 0 "\<lambda>s. replicate 122 0"] by (simp add: file_bytes_def)
  have keep4: "blk d4 c = blk d2 c" if "c < ?T" "live d2 c" "c \<noteq> b" for c using b4 keep3 that by simp
  have wf2: "wf_list d2 8 cl_serialno_isfree bs' n'" using ap(4) by (simp add: sn_list_def)
  have sd24: "same_dev d2 d4" by (rule same_dev_trans [OF s3(2) dev34])
  have bs4: "blk d4 c = blk d2 c" if "c \<in> set bs'" for c
    by (rule keep4) (use that wf_blocks [OF wf2 that] T2 b_bs' in auto)
  note sl4 = sn_list_cong [OF ap(4) sd24 bs4, simplified]
  have keep: "blk d4 c = blk d c" if c: "c < ?T" "live d c" "c \<notin> set bs" for c
  proof -
    have l1: "live d1 c" using keep1 [OF c(1,2)] live_blk c(2) by metis
    have k2: "blk d2 c = blk d1 c" using ap(6) [of c] c l1 dev1 by simp
    then have "live d2 c" using l1 live_blk by metis
    then show ?thesis using keep4 [OF c(1)] c(2) s1(3) k2 keep1 [OF c(1,2)] by auto
  qed
  have away: "lb \<noteq> c" if c: "c < ?T" "live d c" "c \<notin> set bs" for c
  proof -
    have l1: "live d1 c" using keep1 [OF c(1,2)] live_blk c(2) by metis
    have "blk d2 c = blk d1 c" using ap(6) [of c] c l1 dev1 by simp
    then have "live d2 c" using l1 live_blk by metis
    then show ?thesis using s3(3) by auto
  qed
  have lv: "passes d bs d4 [lb]" using keep away dev3 dev4 T2 by (auto simp: passes_def)
  have "card (free_blocks d3) \<le> card (free_blocks d4) + length ([] :: nat list)"
    by (rule free_blocks_left) (use b4 b3 lb1 T2 dev3 dev4 live_blk [OF b3] in \<open>auto intro: spared_same\<close>)
  then have fr: "card (free_blocks d) \<le> card (free_blocks d4) + 3"
    using f1 f2 nbs(2) granted_free_left [OF g3] by simp
  have d6: "data_of d4 b = ?w @ replicate 94 0xFF" using b4 [OF first(3)] by (simp add: data_of_def B)
  have nm: "take (length name + 1) (data_of d4 b) = name @ [0]" using w(1,2) name(2) by (simp add: d6)
  have cb: "hdr_content_block (data_of d4 b) = lb" using w(1,3) lb16 by (simp add: d6 hdr_content_block_def)
  have at: "ao = Some (slot_addr 8 bs' n)" "n' = Suc n" using ap(8) [OF r] by simp_all
  have lb_bs: "lb \<notin> set bs'" using s3(3) wf_blocks [OF wf2] by auto
  have hd4: "hdr_of d4 b = \<lparr>bh_serialno = sn, bh_type = ty, bh_status = BLOCK_STATUS_OPEN\<rparr>"
    using b4 [OF first(3)]
    by (simp add: hdr_of_def status_blk type_blk serial_blk B nth_append get_put_le mod_less unsigned_less [where w = sn, simplified])
  have out: "c \<noteq> b \<and> c \<notin> set bs'" if c: "c < ?T" "live d c" "c \<notin> set bs" for c
    using c s1(3) keep1 [OF c(1,2)] live_blk [of d1 c d] nbs(1,3) by auto
  have es4': "sn_entries d4 bs' n' = sn_entries d bs n @ [?e]" using sl4(2) es2 by simp
  show thesis
    by (rule that [OF run op s4 sl4(1) es4' nm cb lv fr at lb_bs b_bs' hd4 d6 out same_dev_trans [OF same_dev_trans [OF s1(2) ap(3)] sd24]])
qed

subsection \<open>Reading and writing behind the end\<close>

lemma unsigned_int_negative:
  assumes "m < n" "n < 2 ^ 32"
  shows "unsigned_int (int m - int n) = 2 ^ 32 + int m - int n"
proof -
  have "unsigned_int (int m - int n) = (int m - int n + 2 ^ 32) mod 2 ^ 32" by (simp add: unsigned_int_def)
  also have "\<dots> = int m - int n + 2 ^ 32" by (rule mod_pos_pos_trivial) (use assms in simp_all)
  finally show ?thesis by simp
qed

lemma calc_page_size_behind:
  assumes "h_op h = Some p" "op_loc p = int loc" "loc \<le> MAX_FILE" "h_bytes_left h = int m - int loc" "m < loc"
  shows "calc_page_size h = (int (122 - loc mod 122), loc mod 122)"
proof -
  have u: "unsigned_int (int loc) = int loc" using assms(3) by (simp add: unsigned_int_def)
  have v: "unsigned_int (h_bytes_left h) = 2 ^ 32 + int m - int loc"
    unfolding assms(4) by (rule unsigned_int_negative [OF assms(5)]) (use assms(3) in simp)
  have big: "int BLOCK_DATA_SIZE - int (loc mod 122) < 2 ^ 32 + int m - int loc" using assms(3) by simp
  have m: "int loc mod int BLOCK_DATA_SIZE = int (loc mod 122)" by (simp add: zmod_int)
  have le: "loc mod 122 \<le> 122" by (simp add: less_imp_le)
  show ?thesis unfolding calc_page_size_def Let_def op_of_Some [OF assms(1)] assms(2) u v m
    using big le by (simp add: of_nat_diff)
qed

text \<open>The file stays what it is when the segment in RAM is saved and another one loaded.\<close>

lemma save_load_effect:
  assumes o: "opened h d bs n V" and room: "2 \<le> card (free_blocks d)" and seg: "seg < 65535"
  obtains t m d1 bs1 n1 h2 where "cl_file_savesegment h d = Some (0, set_ram_status t (h\<lparr>h_mtime := m\<rparr>), d1)"
    "cl_file_loadsegment (int seg) (set_ram_status t (h\<lparr>h_mtime := m\<rparr>)) d1 = Some (0, h2)" "opened h2 d1 bs1 n1 V" "leaves d bs d1 bs1"
    "bd_data (h_data h2) = V seg" "length (V seg) = 122" "h_op h2 = h_op h" "h_bytes_left h2 = h_bytes_left h" "h_size h2 = h_size h"
proof -
  obtain t m d1 bs1 n1 where s1: "cl_file_savesegment h d = Some (0, set_ram_status t (h\<lparr>h_mtime := m\<rparr>), d1)" "on_disk d1 bs1 n1 V"
    "hd bs1 = h_list_block h" "leaves d bs d1 bs1" "card (free_blocks d) \<le> card (free_blocks d1) + 2"
    by (rule save_opened [OF o room])
  let ?h1 = "set_ram_status t (h\<lparr>h_mtime := m\<rparr>)"
  have "listed h d1 bs1" using o by (intro leaves_listed [OF _ s1(4)]) (simp add: opened_def)
  then have hl: "listed ?h1 d1 bs1" and s16: "seg < 65536" using seg by (simp_all add: listed_def)
  obtain h2 where l2: "cl_file_loadsegment (int seg) ?h1 d1 = Some (0, h2)" "opened h2 d1 bs1 n1 V" "h_segment h2 = seg"
    "h_op h2 = h_op ?h1" "h_bytes_left h2 = h_bytes_left ?h1" "h_size h2 = h_size ?h1" "h_amode h2 = h_amode ?h1"
    "h_list_block h2 = h_list_block ?h1"
    by (rule load_opened [OF s1(2) hl s16]) (rule that, assumption+)
  have dat: "bd_data (h_data h2) = V seg" "length (V seg) = 122"
    using l2(2,3) seg opened_segments [OF l2(2)] by (simp_all add: opened_def segments_ok_def)
  have rest: "h_op h2 = h_op h" "h_bytes_left h2 = h_bytes_left h" "h_size h2 = h_size h" using l2(4-6) by simp_all
  show thesis by (rule that [OF s1(1) l2(1,2) s1(4) dat rest])
qed

lemma finishread_behind:
  assumes o: "opened h d bs nn V" and p: "h_op h = Some p" "op_loc p = int loc" "h_bytes_left h = int m - int loc"
    and loc: "m < loc" "loc < MAX_FILE" and room: "2 \<le> card (free_blocks d)"
  obtains h' d' bs' n' ys where "cl_file_finishread h d = Some (0, h', d')" "opened h' d' bs' n' V" "h_size h' = h_size h"
    "op_of h' = p\<lparr>op_loc := int loc + int (122 - loc mod 122), op_buf := op_buf p @ ys\<rparr>" "length ys = 122 - loc mod 122"
proof -
  define s where "s = loc div 122"
  have s: "s < 65535" unfolding s_def using loc(2) by (simp add: less_mult_imp_div_less mult.commute)
  have sl: "segment_of_loc (int loc) = int s" unfolding s_def using loc(2) by (intro segment_of_nat) simp
  obtain t mt d1 bs1 n1 h3 where e: "cl_file_savesegment h d = Some (0, set_ram_status t (h\<lparr>h_mtime := mt\<rparr>), d1)"
    "cl_file_loadsegment (int s) (set_ram_status t (h\<lparr>h_mtime := mt\<rparr>)) d1 = Some (0, h3)" "opened h3 d1 bs1 n1 V" "leaves d bs d1 bs1"
    "bd_data (h_data h3) = V s" "length (V s) = 122" "h_op h3 = h_op h" "h_bytes_left h3 = h_bytes_left h" "h_size h3 = h_size h"
    by (rule save_load_effect [OF o room s]) (rule that, assumption+)
  have q: "h_op h3 = Some p" "h_bytes_left h3 = int m - int loc" using e(7,8) p by simp_all
  have ps: "calc_page_size h3 = (int (122 - loc mod 122), loc mod 122)"
    by (rule calc_page_size_behind [OF q(1) p(2) _ q(2) loc(1)]) (use loc(2) in simp)
  define k where "k = 122 - loc mod 122"
  define ys where "ys = take k (drop (loc mod 122) (V s))"
  have k: "0 < k" "loc mod 122 + k = 122" by (simp_all add: k_def less_imp_le)
  define h4 where "h4 = read_current_segment h3"
  have h4: "h4 = set_op (\<lambda>p. p\<lparr>op_loc := op_loc p + int k, op_buf := op_buf p @ ys\<rparr>) (h3\<lparr>h_bytes_left := h_bytes_left h3 - int k\<rparr>)"
    using k(1) unfolding h4_def read_current_segment_def ps k_def [symmetric] by (simp add: e(5) ys_def)
  have op4: "op_of h4 = p\<lparr>op_loc := int loc + int k, op_buf := op_buf p @ ys\<rparr>" using q(1) p(2) by (simp add: h4 op_of_def)
  have neg: "\<not> h_bytes_left h4 > 0" using q(2) loc(1) by (simp add: h4)
  have fin: "cl_file_finishread h d = Some (0, h4, d1)"
    using e(1,2) sl neg h4_def p by (simp add: cl_file_finishread_def op_of_def Let_def)
  have opn: "opened h4 d1 bs1 n1 V" using e(3) by (subst opened_cong [of h4 h3]) (simp_all add: h4)
  have len: "length ys = 122 - loc mod 122" using e(6) k by (simp add: ys_def k_def)
  have size: "h_size h4 = h_size h" using e(9) by (simp add: h4)
  show thesis by (rule that [OF fin opn size op4 [unfolded k_def] len])
qed

text \<open>
  The transfer starts in the segment in RAM when \<open>loc\<close> lies in it, and one more segment is then copied by
  \<open>cl_file_finishread\<close>, since the bytes left are not zero.
\<close>

lemma read_behind_effect:
  assumes f: "open_file bs h c xs" and a: "h_amode h AND R_OK \<noteq> 0" and loc: "length xs < loc" "loc + 122 < MAX_FILE"
    and n: "0 < len" and room: "2 \<le> card (free_blocks (cf_dev c))"
  obtains h' c' bs' ys where "cafs_lite_read (int loc) (int len) h c = Some (int (length xs) - int loc, ys, h', c')"
    "length ys = (if h_segment h = loc div 122 then 122 - loc mod 122 + 122 else 122 - loc mod 122)" "open_file bs' h' c' xs"
proof -
  from open_fileE [OF f] obtain nn V where o: "opened h (cf_dev c) bs nn V" and sz: "h_size h = int (length xs)"
    and mx: "length xs \<le> MAX_FILE" and xs: "xs = file_bytes V (length xs)" by blast
  let ?left = "int (length xs) - int loc"
  define p where "p = \<lparr>op_loc = int loc, op_nbyte = ?left, op_buf = []\<rparr>"
  define h2 where "h2 = h\<lparr>h_op := Some p, h_bytes_left := ?left\<rparr>"
  have sl: "segment_of_loc (int loc) = int (loc div 122)" using loc(2) by (intro segment_of_nat) simp
  have o2: "opened h2 (cf_dev c) bs nn V" using o by (subst opened_cong [of h2 h]) (simp_all add: h2_def)
  have q: "h_op h2 = Some p" "op_loc p = int loc" "h_bytes_left h2 = ?left" by (simp_all add: h2_def p_def)
  let ?h0 = "h\<lparr>h_op := Some \<lparr>op_loc = int loc, op_nbyte = int len, op_buf = []\<rparr>\<rparr>"
  note result = that
  have read: thesis
    if "cl_file_startread ?h0 = (0, g)" "cl_file_finishread g (cf_dev c) = Some (0, h', d')" "opened h' d' bs' n' V"
      "h_size h' = h_size h" "op_nbyte (op_of h') = ?left"
      "length (op_buf (op_of h')) = (if h_segment h = loc div 122 then 122 - loc mod 122 + 122 else 122 - loc mod 122)" for g h' d' bs' n'
  proof -
    have run: "cafs_lite_read (int loc) (int len) h c = Some (?left, op_buf (op_of h'), h', c\<lparr>cf_dev := d'\<rparr>)"
      using a that(1,2,5) n by (simp add: cafs_lite_read_def Let_def)
    have "open_file bs' h' (c\<lparr>cf_dev := d'\<rparr>) xs"
      using open_fileI [of h' "c\<lparr>cf_dev := d'\<rparr>" bs' n' V, OF _ _ mx] sz that(3,4) xs by simp
    with run that(6) show thesis by (rule result)
  qed
  show thesis
  proof (cases "h_segment h = loc div 122")
    case False
    have start: "cl_file_startread ?h0 = (0, h2)"
      using False loc sz unfolding cl_file_startread_def by (simp add: op_of_def set_op_def sl h2_def p_def Let_def)
    have lm: "loc < MAX_FILE" using loc(2) by simp
    obtain h' d' bs' n' ys where f: "cl_file_finishread h2 (cf_dev c) = Some (0, h', d')" "opened h' d' bs' n' V" "h_size h' = h_size h2"
      "op_of h' = p\<lparr>op_loc := int loc + int (122 - loc mod 122), op_buf := op_buf p @ ys\<rparr>" "length ys = 122 - loc mod 122"
      by (rule finishread_behind [OF o2 q loc(1) lm room]) (rule that, assumption+)
    show thesis by (rule read [OF start f(1,2)]) (use f(3-) False in \<open>simp_all add: h2_def p_def\<close>)
  next
    case True
    define k where "k = 122 - loc mod 122"
    define V0 where "V0 = bd_data (h_data h)"
    define ys where "ys = take k (drop (loc mod 122) V0)"
    have k: "0 < k" "loc mod 122 + k = 122" by (simp_all add: k_def less_imp_le)
    have ps: "calc_page_size h2 = (int (122 - loc mod 122), loc mod 122)"
      by (rule calc_page_size_behind [OF q(1,2) _ q(3) loc(1)]) (use loc(2) in simp)
    have len: "length ys = k" using o k by (simp add: ys_def V0_def opened_def)
    define r where "r = p\<lparr>op_loc := int (loc + k), op_buf := ys\<rparr>"
    define h3 where "h3 = read_current_segment h2"
    have h3: "h3 = h2\<lparr>h_op := Some r, h_bytes_left := ?left - int k\<rparr>"
      using k(1) unfolding h3_def read_current_segment_def ps k_def [symmetric] by (simp add: h2_def p_def set_op_def r_def ys_def V0_def)
    have "h2 = h\<lparr>h_bytes_left := ?left, h_op := Some p\<rparr>" by (simp add: h2_def)
    then have cur: "read_current_segment (h\<lparr>h_bytes_left := ?left, h_op := Some p\<rparr>) = h2\<lparr>h_op := Some r, h_bytes_left := ?left - int k\<rparr>"
      using h3 by (simp add: h3_def)
    have start: "cl_file_startread ?h0 = (0, h3)"
      using True loc sz cur k(1) unfolding cl_file_startread_def h3 p_def
      by (simp add: op_of_def set_op_def sl Let_def)
    have o3: "opened h3 (cf_dev c) bs nn V" using o2 by (subst opened_cong [of h3 h2]) (simp_all add: h3)
    have q3: "h_op h3 = Some r" "op_loc r = int (loc + k)" "h_bytes_left h3 = int (length xs) - int (loc + k)"
      by (simp_all add: h3 r_def)
    have lm: "length xs < loc + k" "loc + k < MAX_FILE" using loc k(2) by simp_all
    have "loc + k = 122 * (loc div 122) + 122" using k(2) mult_div_mod_eq [of 122 loc] by linarith
    then have m0: "(loc + k) mod 122 = 0" by simp
    obtain h' d' bs' n' zs where f: "cl_file_finishread h3 (cf_dev c) = Some (0, h', d')" "opened h' d' bs' n' V" "h_size h' = h_size h3"
      "op_of h' = r\<lparr>op_loc := int (loc + k) + int (122 - (loc + k) mod 122), op_buf := op_buf r @ zs\<rparr>" "length zs = 122 - (loc + k) mod 122"
      by (rule finishread_behind [OF o3 q3 lm room]) (rule that, assumption+)
    show thesis by (rule read [OF start f(1,2)]) (use f(3-) m0 True len in \<open>simp_all add: h3 h2_def r_def p_def k_def\<close>)
  qed
qed

lemma write_behind_effect:
  assumes f: "open_file bs h c xs" and a: "h_amode h AND W_OK \<noteq> 0" and loc: "length xs < loc" "loc < MAX_FILE"
    and fl: "\<not> of_append flags" "h_bytes_left h = 0" and room: "2 \<le> card (free_blocks (cf_dev c))"
  obtains h' c' bs' where "cafs_lite_write flags (int loc) buf (int (length buf)) h c = Some (int (length buf), h', c')"
    "open_file bs' h' c' xs"
proof -
  from open_fileE [OF f] obtain n V where o: "opened h (cf_dev c) bs n V" and sz: "h_size h = int (length xs)"
    and mx: "length xs \<le> MAX_FILE" and xs: "xs = file_bytes V (length xs)" by blast
  define p where "p = \<lparr>op_loc = int loc, op_nbyte = int (length buf), op_buf = buf\<rparr>"
  define h2 where "h2 = h\<lparr>h_op := Some p\<rparr>"
  define s where "s = loc div 122"
  have s: "s < 65535" unfolding s_def using loc(2) by (simp add: less_mult_imp_div_less mult.commute)
  have sl: "segment_of_loc (int loc) = int s" unfolding s_def using loc(2) by (intro segment_of_nat) simp
  have o2: "opened h2 (cf_dev c) bs n V" using o by (subst opened_cong [of h2 h]) (simp_all add: h2_def)
  have start: "cl_file_startwrite h2 = (-1, h2)"
    using loc sz by (simp add: cl_file_startwrite_def op_of_def h2_def p_def Let_def)
  obtain t m d1 bs1 n1 h3 where e: "cl_file_savesegment h2 (cf_dev c) = Some (0, set_ram_status t (h2\<lparr>h_mtime := m\<rparr>), d1)"
    "cl_file_loadsegment (int s) (set_ram_status t (h2\<lparr>h_mtime := m\<rparr>)) d1 = Some (0, h3)" "opened h3 d1 bs1 n1 V" "leaves (cf_dev c) bs d1 bs1"
    "bd_data (h_data h3) = V s" "length (V s) = 122" "h_op h3 = h_op h2" "h_bytes_left h3 = h_bytes_left h2" "h_size h3 = h_size h2"
    by (rule save_load_effect [OF o2 room s]) (rule that, assumption+)
  have q: "h_op h3 = Some p" "op_loc p = int loc" "h_bytes_left h3 = int 0" using e(7,8) fl(2) by (simp_all add: h2_def p_def)
  have ps: "calc_page_size h3 = (int (min 0 (122 - loc mod 122)), loc mod 122)"
    by (rule page_size [OF q]) (use loc(2) in simp)
  have wc: "write_current_segment h3 = h3" unfolding write_current_segment_def ps by simp
  have fin: "cl_file_finishwrite h2 (cf_dev c) = Some (0, h3, d1)"
    using e(1,2) sl wc q(3) by (simp add: cl_file_finishwrite_def h2_def p_def op_of_def Let_def)
  have run: "cafs_lite_write flags (int loc) buf (int (length buf)) h c = Some (int (length buf), h3, c\<lparr>cf_dev := d1\<rparr>)"
    using a fl(1) start fin q(1) by (simp add: cafs_lite_write_def Let_def h2_def p_def op_of_def)
  have sz3: "h_size h3 = int (length xs)" using e(9) sz by (simp add: h2_def)
  have "opened h3 (cf_dev (c\<lparr>cf_dev := d1\<rparr>)) bs1 n1 V" using e(3) by simp
  from open_fileI [OF this sz3 mx] xs have "open_file bs1 h3 (c\<lparr>cf_dev := d1\<rparr>) xs" by simp
  with run show thesis by (rule that)
qed

subsection \<open>Disks for the witnesses\<close>

lemma blank_status: "status_of blank_disk b = BLOCK_STATUS_FREE"
  by (simp add: status_of_def blank_disk_def sim_device_def)

lemma blank_sound: "sound blank_disk"
proof -
  have "free_from blank_disk 0"
    by (auto simp: free_from_def get_def Let_def list_eq_iff_nth_eq) (simp_all add: blank_disk_def sim_device_def)
  then show ?thesis using blank_disk_clean by (auto simp: sound_def idle_def)
qed

lemma free_blank: "free_blocks blank_disk = {1 ..< 8160}"
  by (auto simp: free_blocks_def blank_status)

text \<open>Two empty file lists on the blank disk.\<close>

lemma demo_lists:
  obtains b1 d1 b2 d2 where "cl_block_alloc 7 1 BLOCK_TYPE_FILE_LIST blank_disk = Some (b1, d1)"
    "cl_block_alloc 8 1 BLOCK_TYPE_FILE_LIST d1 = Some (b2, d2)"
    "granted 7 BLOCK_TYPE_FILE_LIST blank_disk b1 d1" "granted 8 BLOCK_TYPE_FILE_LIST d1 b2 d2"
    "per_section d1 \<le> 41" "100 \<le> card (free_blocks d1)" "100 \<le> card (free_blocks d2)"
proof -
  have n0: "free_blocks blank_disk \<noteq> {}" by (auto simp: free_blank)
  obtain b1 d1 where a1: "cl_block_alloc 7 1 BLOCK_TYPE_FILE_LIST blank_disk = Some (b1, d1)"
    "b1 \<noteq> BLOCK_INVALID \<and> granted 7 BLOCK_TYPE_FILE_LIST blank_disk b1 d1
      \<or> b1 = BLOCK_INVALID \<and> kept blank_disk d1 \<and> sound d1 \<and> \<not> room blank_disk"
    by (rule cl_block_alloc_outcome [OF blank_sound, of 1 7 BLOCK_TYPE_FILE_LIST]) simp_all
  have g1: "granted 7 BLOCK_TYPE_FILE_LIST blank_disk b1 d1" using a1(2) free_blocks_room [OF n0] by auto
  then have s1: "sound d1" "same_dev blank_disk d1" by (auto simp: granted_def)
  note dev1 = same_dev_geometry [OF s1(2)]
  have c1: "101 \<le> card (free_blocks d1)" using granted_free_left [OF g1] by (simp add: free_blank)
  then have n1: "free_blocks d1 \<noteq> {}" by auto
  have h1: "1 < cl_block_gettotal d1" and p1: "per_section d1 \<le> 41" using dev1 by simp_all
  obtain b2 d2 where a2: "cl_block_alloc 8 1 BLOCK_TYPE_FILE_LIST d1 = Some (b2, d2)"
    "b2 \<noteq> BLOCK_INVALID \<and> granted 8 BLOCK_TYPE_FILE_LIST d1 b2 d2 \<or> b2 = BLOCK_INVALID \<and> kept d1 d2 \<and> sound d2 \<and> \<not> room d1"
    by (rule cl_block_alloc_outcome [OF s1(1) h1 p1])
  have g2: "granted 8 BLOCK_TYPE_FILE_LIST d1 b2 d2" using a2(2) free_blocks_room [OF n1] by auto
  have "100 \<le> card (free_blocks d2)" using granted_free_left [OF g2] c1 by simp
  then show thesis using that [OF a1(1) a2(1) g1 g2 p1] c1 by simp
qed

definition demo_handle :: "u32 \<Rightarrow> nat \<Rightarrow> cl_handle" where
  "demo_handle sn b = \<lparr>h_hdr_block = 0, h_list_block = b, h_serialno_addr = 0, h_op = None, h_bytes_left = 0, h_size = 0,
     h_amode = R_OK OR W_OK, h_segment = SEGMENT_INVALID, h_mtime = 0,
     h_data = \<lparr>bd_hdr = \<lparr>bh_serialno = sn, bh_type = BLOCK_TYPE_FILE_DATA, bh_status = BLOCK_STATUS_FREE\<rparr>,
       bd_data = replicate 122 0\<rparr>\<rparr>"

definition demo_cafs :: "flash \<Rightarrow> cafs" where
  "demo_cafs d = \<lparr>cf_dev = d, cf_errno = EIO, cf_open = True\<rparr>"

lemma demo_handle_simps [simp]:
  "h_list_block (demo_handle sn b) = b" "h_segment (demo_handle sn b) = 65535" "h_size (demo_handle sn b) = 0"
  "h_bytes_left (demo_handle sn b) = 0" "length (bd_data (h_data (demo_handle sn b))) = 122" "cf_dev (demo_cafs d) = d"
  by (simp_all add: demo_handle_def demo_cafs_def)

lemma demo_modes: "h_amode (demo_handle sn b) AND R_OK \<noteq> 0" "h_amode (demo_handle sn b) AND W_OK \<noteq> 0"
  by (simp_all add: demo_handle_def)

lemma demo_opened: "granted sn BLOCK_TYPE_FILE_LIST d b d' \<Longrightarrow> per_section d \<le> 41 \<Longrightarrow> open_file [b] (demo_handle sn b) (demo_cafs d') []"
  unfolding demo_cafs_def by (rule granted_opened) (simp_all add: demo_handle_def)

lemma demo_one:
  obtains b d where "cl_block_alloc 7 1 BLOCK_TYPE_FILE_LIST blank_disk = Some (b, d)"
    "open_file [b] (demo_handle 7 b) (demo_cafs d) []" "100 \<le> card (free_blocks (cf_dev (demo_cafs d)))"
  by (rule demo_lists) (rule that, assumption, rule demo_opened, assumption, simp, simp)

lemma demo_two:
  obtains b1 d1 b2 d2 where "cl_block_alloc 7 1 BLOCK_TYPE_FILE_LIST blank_disk = Some (b1, d1)"
    "cl_block_alloc 8 1 BLOCK_TYPE_FILE_LIST d1 = Some (b2, d2)" "open_file [b2] (demo_handle 8 b2) (demo_cafs d2) []"
    "open_apart [b2] [b1] (demo_handle 7 b1) (demo_cafs d2) []" "100 \<le> card (free_blocks (cf_dev (demo_cafs d2)))"
proof (rule demo_lists)
  fix b1 d1 b2 d2
  assume a: "cl_block_alloc 7 1 BLOCK_TYPE_FILE_LIST blank_disk = Some (b1, d1)"
    "cl_block_alloc 8 1 BLOCK_TYPE_FILE_LIST d1 = Some (b2, d2)"
    and g: "granted 7 BLOCK_TYPE_FILE_LIST blank_disk b1 d1" "granted 8 BLOCK_TYPE_FILE_LIST d1 b2 d2"
    and p: "per_section d1 \<le> 41" "100 \<le> card (free_blocks d2)"
  have p0: "per_section blank_disk \<le> 41" by simp
  note e1 = granted_empty_list [OF g(1) p0]
  have s2: "sound d2" "same_dev d1 d2" "\<not> live d1 b2" using g(2) by (auto simp: granted_def)
  have same: "blk d2 c = blk d1 c" if "c < cl_block_gettotal d1" "live d1 c" for c
    using g(2) that s2(3) by (auto simp: granted_def)
  note e2 = file_disk_cong [OF e1(1) s2(1,2) same]
  have "live d1 b1" using g(1) by (auto simp: granted_def live_def hdr_of_def)
  then have ne: "b1 \<noteq> b2" using s2(3) by auto
  have "opened (demo_handle 7 b1) d2 [b1] 0 (\<lambda>s. replicate 122 0)" using e1 e2 same [OF _ \<open>live d1 b1\<close>] g(1) same_dev_geometry [of blank_disk d1]
    by (auto simp: opened_def listed_def granted_def hdr_of_def serial_blk [of d2] demo_handle_def simp flip: serial_blk [of d1])
  then have ap: "open_apart [b2] [b1] (demo_handle 7 b1) (demo_cafs d2) []"
    unfolding open_apart_def using ne e1(2) e2(2)
    by (intro exI [of _ 0] exI [of _ "\<lambda>s. replicate 122 0"]) (simp add: file_bytes_def)
  have room: "100 \<le> card (free_blocks (cf_dev (demo_cafs d2)))" using p(2) by simp
  show thesis by (rule that [OF a demo_opened [OF g(2) p(1)] ap room])
qed

text \<open>A disk with an empty list of serial numbers in block 1.\<close>

definition listed_disk :: flash where
  "listed_disk = cl_dev_setlist_block (int 1)
     (set_cell (Blk 1) (new_list_block 0 BLOCK_TYPE_SERIALNO_LIST BLOCK_STATUS_CLOSED BLOCK_INVALID) blank_disk)"

lemma listed_disk_dev [simp]: "cl_block_gettotal listed_disk = 8160" "per_section listed_disk = 32" "geometry listed_disk"
  by (simp_all add: listed_disk_def)

lemma listed_blk: "c < 8160 \<Longrightarrow> blk listed_disk c =
   (if c = 1 then new_list_block 0 BLOCK_TYPE_SERIALNO_LIST BLOCK_STATUS_CLOSED BLOCK_INVALID else blk blank_disk c)"
  by (simp add: listed_disk_def blk_set_blk new_list_block_fields)

lemma listed_status: "c < 8160 \<Longrightarrow> status_of listed_disk c = (if c = 1 then BLOCK_STATUS_CLOSED else BLOCK_STATUS_FREE)"
  using blank_status [of c] by (simp add: status_blk listed_blk new_list_block_fields)

lemma listed_sound: "sound listed_disk"
  unfolding listed_disk_def using sound_set_blk [OF blank_sound, of 1 "new_list_block 0 BLOCK_TYPE_SERIALNO_LIST BLOCK_STATUS_CLOSED BLOCK_INVALID"]
  by (simp add: new_list_block_fields)

lemma listed_sn_list: "sn_list listed_disk [1] 0" "sn_entries listed_disk [1] 0 = []"
proof -
  have "wf_list listed_disk 8 cl_serialno_isfree [1] 0" by (rule new_list_wf) (simp_all add: listed_blk)
  moreover have "list_block_of listed_disk = 1" unfolding listed_disk_def by (rule list_block_setlist) simp
  ultimately show "sn_list listed_disk [1] 0" by (simp add: sn_list_def contents_def)
  show "sn_entries listed_disk [1] 0 = []" by (simp add: sn_entries_def contents_def)
qed

lemma listed_first: "first_free listed_disk (candidates listed_disk 7 BLOCK_INVALID) = Some 33"
proof -
  have "serial_of listed_disk 1 = 0" by (simp add: serial_blk listed_blk new_list_block_def)
  then have h1: "held_by_other listed_disk 7 1" by (simp add: held_by_other_def listed_status)
  have h33: "\<not> held_by_other listed_disk 7 33" by (simp add: held_by_other_def listed_status)
  have "section_candidates listed_disk 7 1 = []" using h1 by (simp add: section_candidates_def upt_conv_Cons)
  moreover have "\<exists>xs. section_candidates listed_disk 7 33 = 33 # xs"
    using h33 by (simp add: section_candidates_def upt_conv_Cons)
  moreover have "\<exists>ss. section_starts 1 8160 32 = 1 # 33 # ss"
    by (subst section_starts.simps, subst section_starts.simps) simp
  ultimately have "\<exists>xs. candidates listed_disk 7 BLOCK_INVALID = 33 # xs" by (auto simp: candidates_def Let_def)
  then show ?thesis by (auto simp: first_free_def listed_status)
qed

lemma listed_room: "3 \<le> card (free_blocks listed_disk)"
proof -
  have "card {2 ..< 8160 :: nat} \<le> card (free_blocks listed_disk)"
    by (rule card_mono) (auto simp: free_blocks_def listed_status)
  then show ?thesis by simp
qed

subsection \<open>Properties\<close>

text \<open>
  C3: Calls on an open file refine operations on a sequence of bytes. Any sequence of \<open>cafs_lite_read\<close> and
  \<open>cafs_lite_write\<close> calls that starts each transfer inside the file or at its end, and for which enough
  blocks are free, succeeds: every call returns what the same operation on the contents returns, bytes
  and count, and the handle and the disk then stand for the contents the operations leave. Blocks in use
  outside the file's list keep their 128 bytes.
\<close>

theorem file_calls_refine:
  assumes "open_file bs h c xs" "h_amode h AND R_OK \<noteq> 0" "h_amode h AND W_OK \<noteq> 0" "calls_ok flags ks xs"
    and "calls_blocks ks \<le> card (free_blocks (cf_dev c))"
  shows "\<exists>h' c' bs'. run_calls flags ks h c = Some (fst (spec_calls flags ks xs), h', c')
    \<and> open_file bs' h' c' (snd (spec_calls flags ks xs)) \<and> leaves (cf_dev c) bs (cf_dev c') bs'"
  by (rule run_calls_effect [OF assms])

theorem file_calls_refine_witness:
  "\<exists>b d h' c'. cl_block_alloc 7 1 BLOCK_TYPE_FILE_LIST blank_disk = Some (b, d)
     \<and> run_calls \<lparr>of_accmode = O_RDWR, of_creat = False, of_excl = False, of_trunc = False, of_append = True\<rparr>
         [Write 9 [1, 2, 3], Write 0 [4], Read 1 5] (demo_handle 7 b) (demo_cafs d)
       = Some ([(3, []), (1, []), (3, [2, 3, 4])], h', c')"
proof (rule demo_one)
  fix b d
  assume a: "cl_block_alloc 7 1 BLOCK_TYPE_FILE_LIST blank_disk = Some (b, d)"
    "open_file [b] (demo_handle 7 b) (demo_cafs d) []" "100 \<le> card (free_blocks (cf_dev (demo_cafs d)))"
  let ?f = "\<lparr>of_accmode = O_RDWR, of_creat = False, of_excl = False, of_trunc = False, of_append = True\<rparr>"
  let ?ks = "[Write 9 [1, 2, 3], Write 0 [4], Read 1 5]"
  have ok: "calls_ok ?f ?ks []" by (simp add: write_loc_def overwritten_def)
  have sp: "fst (spec_calls ?f ?ks []) = [(3, []), (1, []), (3, [2, 3, 4])]" by code_simp
  have bl: "calls_blocks ?ks \<le> card (free_blocks (cf_dev (demo_cafs d)))" using a(3) by simp
  show ?thesis using file_calls_refine [OF a(2) demo_modes ok bl] a(1) unfolding sp by blast
qed

text \<open>
  C4: A write does what it says and harms no other file. Inside the file or at its end, below the largest file and
  with two free blocks for every whole segment of the data and four more (\<open>O_APPEND\<close> always
  means the end) \<open>cafs_lite_write\<close> returns the number of bytes, and they replace or extend the contents
  at that place and nothing else. Any other open file whose list and segments avoid this one's list
  keeps its contents, and keeps avoiding it.
\<close>

theorem file_write_refines:
  assumes "open_file bs h c xs" "h_amode h AND W_OK \<noteq> 0" "loc = (if of_append flags then length xs else loc0)" "loc \<le> length xs"
    and "loc + length buf \<le> MAX_FILE" "2 * (length buf div 122) + 4 \<le> card (free_blocks (cf_dev c))"
    and "open_apart bs cs g c ys"
  shows "\<exists>h' c' bs'. cafs_lite_write flags (int loc0) buf (int (length buf)) h c = Some (int (length buf), h', c')
    \<and> open_file bs' h' c' (overwritten loc buf xs) \<and> open_file cs g c' ys \<and> open_apart bs' cs g c' ys"
proof -
  obtain h' c' bs' where w: "cafs_lite_write flags (int loc0) buf (int (length buf)) h c = Some (int (length buf), h', c')"
    "open_file bs' h' c' (overwritten loc buf xs)" "h_amode h' = h_amode h" "leaves (cf_dev c) bs (cf_dev c') bs'"
    "card (free_blocks (cf_dev c)) \<le> card (free_blocks (cf_dev c')) + (2 * (length buf div 122) + 4)"
    by (rule write_effect [OF assms(1-6)]) (rule that, assumption+)
  have "open_apart bs' cs g c' ys" by (rule open_apart_kept [OF assms(7) leaves_passes [OF w(4)] w(2)])
  with w(1,2) open_apart_open show ?thesis by blast
qed

theorem file_write_refines_witness:
  "\<exists>b1 d1 b2 d2 bs h' c'. cl_block_alloc 7 1 BLOCK_TYPE_FILE_LIST blank_disk = Some (b1, d1)
     \<and> cl_block_alloc 8 1 BLOCK_TYPE_FILE_LIST d1 = Some (b2, d2)
     \<and> cafs_lite_write \<lparr>of_accmode = O_RDWR, of_creat = False, of_excl = False, of_trunc = False, of_append = False\<rparr>
         0 [1, 2, 3] 3 (demo_handle 8 b2) (demo_cafs d2) = Some (3, h', c')
     \<and> open_file bs h' c' [1, 2, 3] \<and> open_file [b1] (demo_handle 7 b1) c' []"
proof (rule demo_two)
  fix b1 d1 b2 d2
  assume a: "cl_block_alloc 7 1 BLOCK_TYPE_FILE_LIST blank_disk = Some (b1, d1)"
    "cl_block_alloc 8 1 BLOCK_TYPE_FILE_LIST d1 = Some (b2, d2)" "open_file [b2] (demo_handle 8 b2) (demo_cafs d2) []"
    "open_apart [b2] [b1] (demo_handle 7 b1) (demo_cafs d2) []" "100 \<le> card (free_blocks (cf_dev (demo_cafs d2)))"
  let ?f = "\<lparr>of_accmode = O_RDWR, of_creat = False, of_excl = False, of_trunc = False, of_append = False\<rparr>"
  have l: "0 = (if of_append ?f then length ([] :: byte list) else 0)" by simp
  have room: "2 * (length [1, 2, 3 :: byte] div 122) + 4 \<le> card (free_blocks (cf_dev (demo_cafs d2)))" using a(5) by simp
  have "overwritten 0 [1, 2, 3] [] = [1, 2, 3 :: byte]" by (simp add: overwritten_def)
  then show ?thesis using file_write_refines [OF a(3) demo_modes(2) l _ _ room a(4)] a(1,2) by fastforce
qed

text \<open>
  C5: From a place inside the file or at its end, and with two blocks free for the segment in RAM, \<open>cafs_lite_read\<close>
  returns the bytes of the file from \<open>loc\<close> on, as many as asked for or as there are, and their number; the
  contents stay, although the segment in RAM may have to be written to new blocks on the way.
\<close>

theorem file_read_refines:
  assumes "open_file bs h c xs" "h_amode h AND R_OK \<noteq> 0" "loc \<le> length xs" "2 \<le> card (free_blocks (cf_dev c))"
  shows "\<exists>h' c' bs'. cafs_lite_read (int loc) (int n) h c
      = Some (int (length (take n (drop loc xs))), take n (drop loc xs), h', c') \<and> open_file bs' h' c' xs"
  by (rule read_effect [OF assms, of n]) blast

theorem file_read_refines_witness:
  "\<exists>b d h' c'. cl_block_alloc 7 1 BLOCK_TYPE_FILE_LIST blank_disk = Some (b, d)
     \<and> cafs_lite_read 0 5 (demo_handle 7 b) (demo_cafs d) = Some (0, [], h', c')"
proof (rule demo_one)
  fix b d
  assume a: "cl_block_alloc 7 1 BLOCK_TYPE_FILE_LIST blank_disk = Some (b, d)"
    "open_file [b] (demo_handle 7 b) (demo_cafs d) []" "100 \<le> card (free_blocks (cf_dev (demo_cafs d)))"
  have "2 \<le> card (free_blocks (cf_dev (demo_cafs d)))" using a(3) by simp
  then show ?thesis using file_read_refines [OF a(2) demo_modes(1), of 0 5] a(1) by auto
qed

text \<open>
  C37: On a disk with a sound list of serial numbers, \<open>cl_file_new\<close> succeeds when three blocks are free and
  the first free one of its search lies on the disk: the file is empty and ready for the calls above,
  its entry is found under its serial number as OPEN, its header block holds the name and the first
  block of its list, and no block in use outside the list of serial numbers changes.
\<close>

theorem file_new_opens_empty:
  assumes "sound d" "per_section d \<le> 41" "sn_list d bs n"
    and "sn_lookup sn CAFS_SNLIST_ITEM_STATUS_OPEN (sn_entries d bs n) = None"
    and "first_free d (candidates d sn BLOCK_INVALID) = Some b" "1 \<le> b" "b < cl_block_gettotal d"
    and "3 \<le> card (free_blocks d)" "length (bd_data (h_data h)) = 122" "length junk = 28" "length name < 26" "0 \<notin> set name"
  shows "\<exists>h' d' lb bs' n'. cl_file_new junk name sn ty amode h d = Some (0, h', d')
    \<and> open_file [lb] h' \<lparr>cf_dev = d', cf_errno = e, cf_open = p\<rparr> [] \<and> h_amode h' = amode
    \<and> sn_list d' bs' n' \<and> sn_lookup sn CAFS_SNLIST_ITEM_STATUS_OPEN (sn_entries d' bs' n') = Some b
    \<and> hdr_name (data_of d' b) = name \<and> hdr_content_block (data_of d' b) = lb
    \<and> (\<forall>c<cl_block_gettotal d. live d c \<and> c \<notin> set bs \<longrightarrow> blk d' c = blk d c)"
proof -
  obtain ao lb d' bs' n' where f: "cl_file_new junk name sn ty amode h d = Some (0, new_handle h sn amode b lb ao, d')"
    "\<And>e p. open_file [lb] (new_handle h sn amode b lb ao) \<lparr>cf_dev = d', cf_errno = e, cf_open = p\<rparr> []"
    "sound d'" "sn_list d' bs' n'" "sn_entries d' bs' n' = sn_entries d bs n @ [sn_set_checksum
       \<lparr>sn_status = CAFS_SNLIST_ITEM_STATUS_OPEN, sn_serialno = sn, sn_block = b, sn_checksum = 0\<rparr>]"
    "take (length name + 1) (data_of d' b) = name @ [0]" "hdr_content_block (data_of d' b) = lb"
    "passes d bs d' [lb]" "card (free_blocks d) \<le> card (free_blocks d') + 3"
    by (rule file_new_effect [OF assms(1-11)]) blast
  have "sn_lookup sn CAFS_SNLIST_ITEM_STATUS_OPEN (sn_entries d' bs' n') = Some b"
    using assms(4) by (auto simp: f(5) sn_lookup_def sn_matches_def find_append split: option.splits)
  moreover have "hdr_name (data_of d' b) = name" by (rule hdr_name_stored [OF f(6) assms(12)])
  moreover have "h_amode (new_handle h sn amode b lb ao) = amode" by (simp add: new_handle_def)
  moreover have "\<forall>c<cl_block_gettotal d. live d c \<and> c \<notin> set bs \<longrightarrow> blk d' c = blk d c" using f(8) by (simp add: passes_def)
  ultimately show ?thesis using f(1,2,4,7) by blast
qed

theorem file_new_opens_empty_witness:
  "\<exists>h' d' lb. cl_file_new (replicate 28 0) [97] 7 BLOCK_TYPE_FILE_HDR (R_OK OR W_OK) (demo_handle 7 0) listed_disk = Some (0, h', d')
     \<and> open_file [lb] h' \<lparr>cf_dev = d', cf_errno = EIO, cf_open = True\<rparr> [] \<and> hdr_name (data_of d' 33) = [97]"
proof -
  have p: "per_section listed_disk \<le> 41" by simp
  have none: "sn_lookup 7 CAFS_SNLIST_ITEM_STATUS_OPEN (sn_entries listed_disk [1] 0) = None"
    unfolding listed_sn_list(2) by (simp add: sn_lookup_def)
  from file_new_opens_empty [OF listed_sound p listed_sn_list(1) none listed_first _ _ listed_room, of "demo_handle 7 0" "replicate 28 0" "[97]"
      BLOCK_TYPE_FILE_HDR "R_OK OR W_OK" EIO True]
  show ?thesis by auto
qed

text \<open>
  C38: A write that starts behind the end of the file reports success and stores nothing:
  \<open>cl_file_startwrite\<close> refuses it with -1, which \<open>cafs_lite_write\<close> takes for a transfer still to be finished,
  and \<open>cl_file_finishwrite\<close> finds no byte left from the transfer before.
\<close>

theorem write_behind_end_lost:
  assumes "open_file bs h c xs" "h_amode h AND W_OK \<noteq> 0" "length xs < loc" "loc < MAX_FILE"
    and "\<not> of_append flags" "h_bytes_left h = 0" "2 \<le> card (free_blocks (cf_dev c))"
  shows "\<exists>h' c' bs'. cafs_lite_write flags (int loc) buf (int (length buf)) h c = Some (int (length buf), h', c')
    \<and> open_file bs' h' c' xs"
  by (rule write_behind_effect [OF assms]) blast

theorem write_behind_end_lost_witness:
  "\<exists>b d bs h' c'. cl_block_alloc 7 1 BLOCK_TYPE_FILE_LIST blank_disk = Some (b, d)
     \<and> cafs_lite_write \<lparr>of_accmode = O_RDWR, of_creat = False, of_excl = False, of_trunc = False, of_append = False\<rparr>
         10 [1, 2, 3] 3 (demo_handle 7 b) (demo_cafs d) = Some (3, h', c')
     \<and> open_file bs h' c' []"
proof (rule demo_one)
  fix b d
  assume a: "cl_block_alloc 7 1 BLOCK_TYPE_FILE_LIST blank_disk = Some (b, d)"
    "open_file [b] (demo_handle 7 b) (demo_cafs d) []" "100 \<le> card (free_blocks (cf_dev (demo_cafs d)))"
  have room: "2 \<le> card (free_blocks (cf_dev (demo_cafs d)))" using a(3) by simp
  have l: "length ([] :: byte list) < 10" "10 < MAX_FILE" by simp_all
  let ?f = "\<lparr>of_accmode = O_RDWR, of_creat = False, of_excl = False, of_trunc = False, of_append = False\<rparr>"
  have fl: "\<not> of_append ?f" "h_bytes_left (demo_handle 7 b) = 0" by simp_all
  show ?thesis using write_behind_end_lost [OF a(2) demo_modes(2) l fl room, of "[1, 2, 3]"] a(1) by fastforce
qed

text \<open>
  C39: A read of at least one byte that starts behind the end of the file, with a segment's room below the largest
  file and two free blocks for the segment in RAM, overruns the caller's buffer. The bytes left are negative, the
  comparison with the unsigned size of a segment takes them for a large number, and the call stores the rest of the
  segment of \<open>loc\<close>, \<open>122 - loc mod 122\<close> bytes, whatever the number asked for; when that segment is the one in
  RAM it stores the whole next segment as well. It returns the negative distance from the end, and no error number;
  the file keeps its bytes.
\<close>

theorem read_behind_end_overruns:
  assumes "open_file bs h c xs" "h_amode h AND R_OK \<noteq> 0" "length xs < loc" "loc + 122 < MAX_FILE"
    and "0 < n" "2 \<le> card (free_blocks (cf_dev c))"
  shows "\<exists>h' c' bs' ys. cafs_lite_read (int loc) (int n) h c = Some (int (length xs) - int loc, ys, h', c')
    \<and> length ys = (if h_segment h = loc div 122 then 122 - loc mod 122 + 122 else 122 - loc mod 122) \<and> open_file bs' h' c' xs"
  by (rule read_behind_effect [OF assms]) blast

theorem read_behind_end_overruns_witness:
  "\<exists>b d h' c' ys. cl_block_alloc 7 1 BLOCK_TYPE_FILE_LIST blank_disk = Some (b, d)
     \<and> cafs_lite_read 10 4 (demo_handle 7 b) (demo_cafs d) = Some (-10, ys, h', c') \<and> length ys = 112"
proof (rule demo_one)
  fix b d
  assume a: "cl_block_alloc 7 1 BLOCK_TYPE_FILE_LIST blank_disk = Some (b, d)"
    "open_file [b] (demo_handle 7 b) (demo_cafs d) []" "100 \<le> card (free_blocks (cf_dev (demo_cafs d)))"
  have room: "2 \<le> card (free_blocks (cf_dev (demo_cafs d)))" using a(3) by simp
  have l: "length ([] :: byte list) < 10" "10 + 122 < MAX_FILE" "(0 :: nat) < 4" by simp_all
  have "h_segment (demo_handle 7 b) \<noteq> 10 div 122" by simp
  then show ?thesis using read_behind_end_overruns [OF a(2) demo_modes(1) l room] a(1) by fastforce
qed

end
