(* ===== verification/CafsClose.thy ===== *)
theory CafsClose
  imports CafsNew
begin

section \<open>Closing a new file and opening it again\<close>

text \<open>
  Closing writes to the list it walks through: it closes the blocks of the list, and strikes the obsolete
  entries. The first part is about such loops, the second about what closing does to the disk, the third
  about finding the file again by its name.
\<close>

subsection \<open>A loop whose body changes the disk\<close>

text \<open>
  The cursor stands at slot \<open>k\<close> of a list that the disk \<open>d\<close> held when the loop started: its RAM copy has the
  later items of the block and the link to the next one.
\<close>

definition at_slot :: "flash \<Rightarrow> nat \<Rightarrow> (byte list \<Rightarrow> bool) \<Rightarrow> nat list \<Rightarrow> cl_list \<Rightarrow> nat \<Rightarrow> bool" where
  "at_slot d z fr bs l k \<longleftrightarrow> (\<exists>q i. k = calc_total_items z * q + i \<and> q < length bs
     \<and> (i < calc_total_items z \<or> i = calc_total_items z \<and> Suc q = length bs)
     \<and> ls_block l = bs ! q \<and> ls_item l = i \<and> ls_total l = calc_total_items z \<and> ls_size l = z \<and> ls_is_free l = fr
     \<and> list_next (bd_data (ls_data l)) = list_next (data_of d (bs ! q))
     \<and> (\<forall>j. i \<le> j \<and> j < calc_total_items z \<longrightarrow> get_item (bd_data (ls_data l)) j z = slot d z bs (calc_total_items z * q + j)))"

lemma chain_links:
  "chain d p bs \<Longrightarrow> q < length bs \<Longrightarrow> list_next (data_of d (bs ! q)) = (if Suc q < length bs then bs ! Suc q else BLOCK_INVALID)
     \<and> list_prev (data_of d (bs ! q)) = (if q = 0 then p else bs ! (q - 1)) \<and> list_typeisvalid (type_of d (bs ! q))"
proof (induction bs arbitrary: p q)
  case (Cons b bs)
  then show ?case
    by (cases bs; cases q) (auto simp: nth_Cons' split: if_splits)
qed simp

lemma slot_in_block: "j < calc_total_items z \<Longrightarrow> slot d z bs (calc_total_items z * q + j) = get_item (data_of d (bs ! q)) j z"
  by (simp add: slot_def)

lemma at_slot_start:
  assumes "geometry d" "chain d BLOCK_INVALID bs" "0 < calc_total_items z"
  obtains l where "cl_list_init (hd bs) z fr d = (0, l)" "at_slot d z fr bs l 0"
proof -
  obtain l where l: "cl_list_init (hd bs) z fr d = (0, l)" "cursor_at d z fr l bs 0"
    by (rule init_chain [OF assms(1-3)])
  have bs: "bs \<noteq> []" by (rule chain_nonempty [OF assms(2)])
  have "at_slot d z fr bs l 0" unfolding at_slot_def
    by (intro exI [of _ 0]) (use l(2) bs assms(3) in \<open>auto simp: cursor_at_def hd_conv_nth slot_def\<close>)
  with l(1) show thesis by (rule that)
qed

lemma at_slot_end:
  assumes "at_slot d0 z fr bs l n" "wf_list d0 z fr bs n" "fr (replicate z 0xFF)"
  obtains r out where "cl_list_getnext l d = (r, l, out)" "r \<noteq> 0"
proof -
  let ?T = "calc_total_items z"
  obtain q i where q: "n = ?T * q + i" "q < length bs" "i < ?T \<or> i = ?T \<and> Suc q = length bs"
    "ls_item l = i" "ls_total l = ?T" "ls_size l = z" "ls_is_free l = fr"
    "\<forall>j. i \<le> j \<and> j < ?T \<longrightarrow> get_item (bd_data (ls_data l)) j z = slot d0 z bs (?T * q + j)"
    using assms(1) unfolding at_slot_def by blast
  show thesis
  proof (cases "i < ?T")
    case True
    have "Suc q \<le> length bs" using q(2) by simp
    then have "?T * Suc q \<le> ?T * length bs" by (rule mult_le_mono2)
    then have "n < ?T * length bs" using q(1) True by simp
    then have "fr (get_item (bd_data (ls_data l)) i z)" using q(1,8) True assms(2,3) by (simp add: wf_list_def)
    then show thesis using that [of 1] q True by (simp add: cl_list_getnext_def)
  next
    case False
    then show thesis using that [of "-1" None] q by (simp add: cl_list_getnext_def)
  qed
qed

lemma at_slot_step:
  assumes geo: "geometry d" "chain d BLOCK_INVALID bs" and at: "at_slot d0 z fr bs l k" and wf: "wf_list d0 z fr bs n" and k: "k < n"
    and same: "\<And>j. k \<le> j \<Longrightarrow> j < calc_total_items z * length bs \<Longrightarrow> slot d z bs j = slot d0 z bs j" and z: "0 < calc_total_items z"
  obtains l' where "cl_list_getnext l d = (0, l', Some (slot d0 z bs k, slot_addr z bs k))" "at_slot d0 z fr bs l' (Suc k)"
    "ls_block l' \<in> set bs"
proof -
  let ?T = "calc_total_items z"
  obtain q i where q: "k = ?T * q + i" "q < length bs" "i < ?T \<or> i = ?T \<and> Suc q = length bs"
    "ls_block l = bs ! q" "ls_item l = i" "ls_total l = ?T" "ls_size l = z" "ls_is_free l = fr"
    "list_next (bd_data (ls_data l)) = list_next (data_of d0 (bs ! q))"
    "\<forall>j. i \<le> j \<and> j < ?T \<longrightarrow> get_item (bd_data (ls_data l)) j z = slot d0 z bs (?T * q + j)"
    using at unfolding at_slot_def by blast
  have n: "n \<le> ?T * length bs" and nf: "\<not> fr (slot d0 z bs k)" and ch: "chain d0 BLOCK_INVALID bs"
    using wf k by (auto simp: wf_list_def)
  have i: "i < ?T"
  proof (rule ccontr)
    assume "\<not> i < ?T"
    then have "k = ?T * length bs" using q(1,3) by (metis add.commute mult_Suc_right)
    with k n show False by simp
  qed
  have out: "get_item (bd_data (ls_data l)) i z = slot d0 z bs k" "get_item_addr (bs ! q) i z = slot_addr z bs k"
    using q(1,10) i z by (simp_all add: slot_addr_def)
  note lk = chain_links [OF ch q(2)]
  let ?l1 = "l\<lparr>ls_item := i + 1\<rparr>"
  show thesis
  proof (cases "i + 1 = ?T \<and> Suc q < length bs")
    case False
    then have "cl_list_getnext l d = (0, ?l1, Some (slot d0 z bs k, slot_addr z bs k))"
      using q i out nf lk by (auto simp: cl_list_getnext_def Let_def)
    moreover have "at_slot d0 z fr bs ?l1 (Suc k)" unfolding at_slot_def
      by (rule exI [of _ q], rule exI [of _ "i + 1"]) (use False q i in auto)
    ultimately show thesis by (rule that) (use q(2,4) in simp)
  next
    case True
    define c where "c = bs ! Suc q"
    have di: "distinct bs" by (rule chain_distinct [OF geo])
    have c: "c \<noteq> bs ! q" "c < cl_block_gettotal d" using True di geo(2) chain_less [of d BLOCK_INVALID bs c]
      by (simp_all add: c_def nth_eq_iff_index_eq)
    have cl: "c < BLOCK_INVALID" using block_less_invalid [OF geo(1) c(2)] by simp
    note lc = chain_links [OF geo(2), of "Suc q"] chain_links [OF ch, of "Suc q"]
    let ?l2 = "?l1\<lparr>ls_block := c\<rparr>"
    let ?l3 = "?l2\<lparr>ls_item := 0, ls_data := bytes_data (blk d c)\<rparr>"
    have "list_update ?l2 (bs ! q) d = (0, ?l3)"
      using lc True load_total [OF geo(1) c(2)] by (simp add: list_update_def c_def)
    then have "cl_list_getnext l d = (0, ?l3, Some (slot d0 z bs k, slot_addr z bs k))"
      using q i out nf lk True c cl by (auto simp: cl_list_getnext_def Let_def c_def)
    moreover have "at_slot d0 z fr bs ?l3 (Suc k)" unfolding at_slot_def
    proof (rule exI [of _ "Suc q"], rule exI [of _ 0], intro conjI allI impI)
      show "Suc k = ?T * Suc q + 0" using q(1) True by simp
      show "list_next (bd_data (ls_data ?l3)) = list_next (data_of d0 (bs ! Suc q))" using lc True by (simp add: c_def)
    next
      fix j assume j: "0 \<le> j \<and> j < ?T"
      have "Suc (Suc q) \<le> length bs" using True by simp
      then have "?T * Suc (Suc q) \<le> ?T * length bs" by (rule mult_le_mono2)
      then have "?T * Suc q + j < ?T * length bs" using j by simp
      moreover have "k \<le> ?T * Suc q + j" using q(1) i by simp
      ultimately have "slot d z bs (?T * Suc q + j) = slot d0 z bs (?T * Suc q + j)" by (intro same)
      then show "get_item (bd_data (ls_data ?l3)) j z = slot d0 z bs (?T * Suc q + j)"
        unfolding slot_in_block [OF conjunct2 [OF j]] by (simp add: c_def)
    qed (use q True z in \<open>simp_all add: c_def\<close>)
    ultimately show thesis by (rule that) (use True in \<open>simp add: c_def\<close>)
  qed
qed

text \<open>
  A loop over all items: \<open>I k s d\<close> holds after \<open>k\<close> of them, and says that the chain and the items to come are
  still what they were. The body may change the header in the cursor's RAM copy.
\<close>

lemma while_next_steps:
  assumes wf: "wf_list d0 z fr bs n" "fr (replicate z 0xFF)" "0 < calc_total_items z"
    and I: "\<And>k s d. I k s d \<Longrightarrow> geometry d \<and> chain d BLOCK_INVALID bs
      \<and> (\<forall>j. k \<le> j \<and> j < calc_total_items z * length bs \<longrightarrow> slot d z bs j = slot d0 z bs j)"
    and body: "\<And>k l s d. k < n \<Longrightarrow> I k s d \<Longrightarrow> ls_block l \<in> set bs \<Longrightarrow>
      \<exists>x s' d'. body (slot d0 z bs k) (slot_addr z bs k) l s d
        = Some (Inr (l\<lparr>ls_data := (ls_data l)\<lparr>bd_hdr := x\<rparr>\<rparr>, s', d')) \<and> I (Suc k) s' d'"
    and "at_slot d0 z fr bs l k" "k \<le> n" "I k s d"
  shows "\<exists>r l' out s' d'. while_next body l s d = Some (Inr (r, l', out, s', d')) \<and> I n s' d'"
  using assms(6-)
proof (induction "n - k" arbitrary: k l s d)
  case 0
  then have k: "k = n" by simp
  obtain r out where "cl_list_getnext l d = (r, l, out)" "r \<noteq> 0"
    by (rule at_slot_end [OF _ wf(1,2), of l d]) (use 0 k in simp)
  then have "while_next body l s d = Some (Inr (r, l, out, s, d))" by (subst while_next.simps) simp
  with "0.prems"(3) k show ?case by blast
next
  case (Suc m)
  then have k: "k < n" by simp
  note i = I [OF Suc.prems(3)]
  obtain l1 where g: "cl_list_getnext l d = (0, l1, Some (slot d0 z bs k, slot_addr z bs k))" "at_slot d0 z fr bs l1 (Suc k)"
    "ls_block l1 \<in> set bs"
    by (rule at_slot_step [OF _ _ Suc.prems(1) wf(1) k _ wf(3), of d]) (use i in auto)
  obtain x s1 d1 where b: "body (slot d0 z bs k) (slot_addr z bs k) l1 s d
      = Some (Inr (l1\<lparr>ls_data := (ls_data l1)\<lparr>bd_hdr := x\<rparr>\<rparr>, s1, d1))" "I (Suc k) s1 d1"
    using body [OF k Suc.prems(3) g(3)] by blast
  let ?l2 = "l1\<lparr>ls_data := (ls_data l1)\<lparr>bd_hdr := x\<rparr>\<rparr>"
  have "at_slot d0 z fr bs ?l2 (Suc k)" using g(2) by (simp add: at_slot_def)
  from Suc.hyps(1) [OF _ this _ b(2)] Suc.hyps(2) k have "\<exists>r l' out s' d'. while_next body ?l2 s1 d1 = Some (Inr (r, l', out, s', d')) \<and> I n s' d'"
    by simp
  with g(1) b(1) show ?case by (subst while_next.simps) simp
qed


subsection \<open>Changing the status of a block\<close>

definition with_status :: "byte \<Rightarrow> nat \<Rightarrow> flash \<Rightarrow> flash" where
  "with_status st b d = set_cell (Blk b) (overlay 5 [st] (blk d b)) d"

lemma with_status_dev [simp]: "same_dev d (with_status st b d)"
  by (simp add: with_status_def)

lemma with_status_total [simp]: "cl_block_gettotal (with_status st b d) = cl_block_gettotal d" "geometry (with_status st b d) = geometry d"
  "per_section (with_status st b d) = per_section d"
  using same_dev_geometry [OF with_status_dev] by simp_all

lemma setstatus_effect:
  assumes "sound d" "b < cl_block_gettotal d" "overwrites st (status_of d b)"
  shows "cl_block_setstatus b st d = Some (1, with_status st b d)"
proof -
  have geo: "geometry d" using assms(1) by (simp add: sound_def)
  have "b \<noteq> BLOCK_INVALID" using block_less_invalid [OF geo assms(2)] by simp
  moreover have "over [st] (take 1 (drop 5 (blk d b)))" using assms(3) by (simp add: over_def status_blk hd_drop_conv_nth take_Suc)
  ultimately show ?thesis
    using write_in_block [OF geo assms(2), of 5 "[st]"] by (simp add: cl_block_setstatus_def with_status_def get_cl_block_addr_def mult.commute)
qed

lemma blk_with_status:
  "b < cl_block_gettotal d \<Longrightarrow> c < cl_block_gettotal d \<Longrightarrow> blk (with_status st b d) c = (if c = b then overlay 5 [st] (blk d b) else blk d c)"
  by (simp add: with_status_def blk_set_blk)

lemma with_status_fields:
  assumes "b < cl_block_gettotal d" "c < cl_block_gettotal d"
  shows "data_of (with_status st b d) c = data_of d c" "type_of (with_status st b d) c = type_of d c"
    "serial_of (with_status st b d) c = serial_of d c" "status_of (with_status st b d) c = (if c = b then st else status_of d c)"
  using assms by (simp_all add: data_of_def type_blk serial_blk status_blk blk_with_status overlay_def nth_append)

lemma with_status_sound: "sound d \<Longrightarrow> b < cl_block_gettotal d \<Longrightarrow> st \<noteq> BLOCK_STATUS_FREE \<Longrightarrow> sound (with_status st b d)"
  unfolding with_status_def by (rule sound_set_blk) (simp_all add: nth_overlay)

lemma overwrites_live: "live d b \<Longrightarrow> overwrites BLOCK_STATUS_CLOSED (status_of d b)"
  by (auto simp: live_def overwrites_close)

text \<open>Closing a block that is in use keeps every block.\<close>

abbreviation closed :: "nat \<Rightarrow> flash \<Rightarrow> flash" where
  "closed b d \<equiv> with_status BLOCK_STATUS_CLOSED b d"

lemma closed_keeps: "b < cl_block_gettotal d \<Longrightarrow> c < cl_block_gettotal d \<Longrightarrow> keeps d (closed b d) c"
  by (simp add: keeps_def with_status_fields live_def)

lemma block_close_effect:
  assumes "sound d" "b < cl_block_gettotal d" "live d b"
  shows "cl_block_close b d = Some (1, closed b d)" "sound (closed b d)"
  using setstatus_effect [OF assms(1,2) overwrites_live [OF assms(3)]] with_status_sound [OF assms(1,2)] by (simp_all add: cl_block_close_def)

text \<open>A block that another status is written to keeps all other blocks.\<close>

lemma other_status_keeps:
  "b < cl_block_gettotal d \<Longrightarrow> c < cl_block_gettotal d \<Longrightarrow> c \<noteq> b \<Longrightarrow> keeps d (with_status st b d) c"
  by (simp add: keeps_blk blk_with_status)

subsection \<open>Closing the blocks of a file\<close>

text \<open>
  The disk after the first \<open>k\<close> entries of the list \<open>bs\<close> of \<open>d0\<close>: the bytes of the file are the same, the later
  entries are what they were, the blocks of the current entries are closed, and the obsolete ones struck.
\<close>

definition shut :: "flash \<Rightarrow> cl_filelist_item \<Rightarrow> cl_filelist_item \<Rightarrow> bool" where
  "shut d e e' \<longleftrightarrow> (if fi_status e = CAFS_FILELIST_STATUS_CURRENT then e' = e \<and> status_of d (fi_block e) = BLOCK_STATUS_CLOSED
     else fi_status e' \<noteq> CAFS_FILELIST_STATUS_CURRENT \<and> fi_status e' \<noteq> CAFS_FILELIST_STATUS_OBSOLETE)"

definition closing :: "flash \<Rightarrow> nat list \<Rightarrow> nat \<Rightarrow> nat \<Rightarrow> flash \<Rightarrow> bool" where
  "closing d0 bs n k d \<longleftrightarrow> k \<le> n \<and> file_disk d bs n \<and> same_dev d0 d \<and> seg_data d bs n = seg_data d0 bs n
     \<and> (\<forall>j. k \<le> j \<and> j < 14 * length bs \<longrightarrow> slot d 8 bs j = slot d0 8 bs j)
     \<and> (\<forall>c<cl_block_gettotal d0. c \<notin> set bs \<and> c \<notin> fi_block ` set (held (seg_entries d0 bs n)) \<longrightarrow> blk d c = blk d0 c)
     \<and> (\<forall>c\<in>set bs. serial_of d c = serial_of d0 c)
     \<and> (\<forall>j<k. shut d (seg_entries d0 bs n ! j) (seg_entries d bs n ! j))"

lemma closing_start: "file_disk d bs n \<Longrightarrow> closing d bs n 0 d"
  by (simp add: closing_def)

lemma entry_nth: "k < n \<Longrightarrow> seg_entries d bs n ! k = bytes_filelist_item (slot d 8 bs k)"
  by (simp add: seg_entries_def contents_def)

lemma length_seg_entries [simp]: "length (seg_entries d bs n) = n"
  by (simp add: seg_entries_def contents_def)

lemma closing_entry:
  assumes "closing d0 bs n k d" "k \<le> j" "j < n"
  shows "seg_entries d bs n ! j = seg_entries d0 bs n ! j"
proof -
  have "n \<le> 14 * length bs" using assms(1) file_disk_facts(4) [of d bs n] by (simp add: closing_def wf_list_def)
  with assms show ?thesis by (simp add: closing_def entry_nth)
qed

text \<open>Closing a block of the file changes none of this.\<close>

lemma closing_closed:
  assumes c: "closing d0 bs n k d" and b: "b \<in> set bs \<or> b \<in> fi_block ` set (held (seg_entries d0 bs n))"
    and live: "b < cl_block_gettotal d" "live d b"
  shows "cl_block_close b d = Some (1, closed b d)" "closing d0 bs n k (closed b d)"
    "seg_entries (closed b d) bs n = seg_entries d bs n" "status_of (closed b d) b = BLOCK_STATUS_CLOSED"
proof -
  have fd: "file_disk d bs n" and dev: "same_dev d0 d" using c by (auto simp: closing_def)
  note f = file_disk_facts [OF fd] and g = same_dev_geometry [OF dev]
  show "cl_block_close b d = Some (1, closed b d)" by (rule block_close_effect(1) [OF f(1) live])
  have s: "sound (closed b d)" by (rule block_close_effect(2) [OF f(1) live])
  have kb: "keeps d (closed b d) x" if "x \<in> set bs" for x using closed_keeps [OF live(1)] wf_blocks [OF f(4) that] by simp
  have ke: "keeps d (closed b d) (fi_block e)" if "e \<in> set (held (seg_entries d bs n))" for e
    using closed_keeps [OF live(1)] held_block [OF fd that] by simp
  have ps: "per_section (closed b d) \<le> 41" using f(3) by simp
  note k = file_disk_keeps [OF fd s with_status_total(1) ps kb ke]
  show es: "seg_entries (closed b d) bs n = seg_entries d bs n" by (rule k(2))
  have sl: "slot (closed b d) 8 bs j = slot d 8 bs j" if "j < 14 * length bs" for j
    by (rule slot_keeps) (use that kb in simp_all)
  show "status_of (closed b d) b = BLOCK_STATUS_CLOSED" using live(1) by (simp add: with_status_fields)
  have shut: "shut (closed b d) e e'" if "shut d e e'" "e' \<in> set (seg_entries d bs n)" for e e'
  proof -
    have "fi_block e < cl_block_gettotal d" if "fi_status e = CAFS_FILELIST_STATUS_CURRENT" "e' = e"
      using held_block(1) [OF fd, of e] \<open>e' \<in> _\<close> that by (simp add: held_def)
    with that(1) live(1) show ?thesis by (auto simp: shut_def with_status_fields)
  qed
  have serial: "serial_of (closed b d) x = serial_of d x" if "x \<in> set bs" for x using kb [OF that] by (simp add: keeps_def)
  have rest: "blk (closed b d) x = blk d0 x" if "x < cl_block_gettotal d0" "x \<notin> set bs \<and> x \<notin> fi_block ` set (held (seg_entries d0 bs n))" for x
  proof -
    have "x \<noteq> b" using b that(2) by blast
    then have "blk (closed b d) x = blk d x" using that(1) live(1) g(2) by (simp add: blk_with_status)
    then show ?thesis using c that by (simp add: closing_def)
  qed
  have "shut (closed b d) (seg_entries d0 bs n ! j) (seg_entries d bs n ! j)" if "j < k" for j
    by (rule shut) (use c that in \<open>simp_all add: closing_def\<close>)
  then show "closing d0 bs n k (closed b d)"
    using c k(1,3) sl serial rest same_dev_trans [OF dev with_status_dev] unfolding closing_def es by simp
qed

text \<open>The block of an obsolete entry is discarded, and the entry struck.\<close>

lemma serial_take:
  assumes "take 6 (blk d' c) = take 6 (blk d c)"
  shows "serial_of d' c = serial_of d c"
proof -
  have "take 4 (take 6 (blk d' c)) = take 4 (take 6 (blk d c))" unfolding assms ..
  then show ?thesis by (simp add: serial_blk)
qed

lemma nth_held:
  "k < length es \<Longrightarrow> fi_status (es ! k) = CAFS_FILELIST_STATUS_CURRENT \<or> fi_status (es ! k) = CAFS_FILELIST_STATUS_OBSOLETE \<Longrightarrow> es ! k \<in> set (held es)"
  by (simp add: held_def)

lemma held_update:
  assumes "k < length es" "fi_status (es ! k) = CAFS_FILELIST_STATUS_OBSOLETE"
  shows "held es = held (take k es) @ es ! k # held (drop (Suc k) es)"
    "held (es[k := (es ! k)\<lparr>fi_status := 0\<rparr>]) = held (take k es) @ held (drop (Suc k) es)"
proof -
  have h: "es = take k es @ es ! k # drop (Suc k) es" using assms(1) by (simp add: id_take_nth_drop)
  show "held es = held (take k es) @ es ! k # held (drop (Suc k) es)" using assms(2) by (subst h) simp
  show "held (es[k := (es ! k)\<lparr>fi_status := 0\<rparr>]) = held (take k es) @ held (drop (Suc k) es)"
    using assms(1) by (simp add: upd_conv_take_nth_drop)
qed

lemma held_update_distinct:
  assumes "distinct (map fi_block (held es))" "k < length es" "fi_status (es ! k) = CAFS_FILELIST_STATUS_OBSOLETE"
  shows "distinct (map fi_block (held (es[k := (es ! k)\<lparr>fi_status := 0\<rparr>])))"
    "e \<in> set (held (es[k := (es ! k)\<lparr>fi_status := 0\<rparr>])) \<Longrightarrow> e \<in> set (held es) \<and> fi_block e \<noteq> fi_block (es ! k)"
  using assms(1) unfolding held_update [OF assms(2,3)] by (auto simp: image_iff)

lemma currents_update:
  "k < length es \<Longrightarrow> fi_status (es ! k) = CAFS_FILELIST_STATUS_OBSOLETE \<Longrightarrow> currents (es[k := (es ! k)\<lparr>fi_status := 0\<rparr>]) = currents es"
  by (induction es arbitrary: k) (auto simp: nth_Cons split: nat.splits)

lemma closing_struck:
  assumes c: "closing d0 bs n k d" and k: "k < n" and e: "e = seg_entries d0 bs n ! k" "fi_status e = CAFS_FILELIST_STATUS_OBSOLETE"
  obtains d1 d2 where "cl_block_discard (fi_block e) d = Some (1, d1)"
    "cl_filelist_setstatus CAFS_FILELIST_STATUS_DIRTY (slot_addr 8 bs k) d1 = Some (0, d2)" "closing d0 bs n (Suc k) d2"
proof -
  let ?b = "fi_block e" and ?es = "seg_entries d bs n"
  have fd: "file_disk d bs n" and dev: "same_dev d0 d" using c by (auto simp: closing_def)
  note f = file_disk_facts [OF fd] and g = same_dev_geometry [OF dev]
  have ek: "?es ! k = e" using closing_entry [OF c _ k] e(1) by simp
  have ow: "owned d bs ?es" using fd by (simp add: file_disk_def)
  have "e \<in> set ?es" using k ek by (metis length_seg_entries nth_mem)
  then have "e \<in> set (held ?es)" using e(2) by (simp add: held_def)
  note hb = held_block [OF fd this]
  define d1 where "d1 = with_status BLOCK_STATUS_DIRTY ?b d"
  have dis: "cl_block_discard ?b d = Some (1, d1)"
    using setstatus_effect [OF f(1) hb(1), of BLOCK_STATUS_DIRTY] by (simp add: cl_block_discard_def d1_def)
  have s1: "sound d1" unfolding d1_def by (rule with_status_sound [OF f(1) hb(1)]) simp
  have T1: "cl_block_gettotal d1 = cl_block_gettotal d" "same_dev d d1" by (simp_all add: d1_def)
  have kb1: "keeps d d1 x" if "x < cl_block_gettotal d" "x \<noteq> ?b" for x
    unfolding d1_def by (rule other_status_keeps [OF hb(1) that])
  have bs1: "keeps d d1 x" if "x \<in> set bs" for x using wf_blocks [OF f(4) that] hb(3) that kb1 by auto
  note w1 = wf_list_keeps [OF f(4) T1(1) bs1, simplified]
  have sl1: "slot d1 8 bs j = slot d 8 bs j" if "j < 14 * length bs" for j by (rule slot_keeps) (use that bs1 in simp_all)
  have nle: "n \<le> 14 * length bs" using f(4) by (simp add: wf_list_def)
  let ?it = "CAFS_FILELIST_STATUS_DIRTY # tl (slot d1 8 bs k)"
  define d2 where "d2 = fill_slot 8 bs k ?it d1"
  have z: "0 < calc_total_items 8" "(0 :: nat) < 8" by simp_all
  have sk: "length (slot d1 8 bs k) = 8" by (simp add: slot_def length_get_item)
  have st: "cl_filelist_setstatus CAFS_FILELIST_STATUS_DIRTY (slot_addr 8 bs k) d1 = Some (0, d2)"
    using set_first [OF s1 w1(1) z k, of CAFS_FILELIST_STATUS_DIRTY] by (simp add: cl_filelist_setstatus_def d2_def)
  have lit: "length ?it = 8" using sk by simp
  have nf: "\<not> cl_filelist_isfree ?it" by (simp add: cl_filelist_isfree_def item_status)
  have ov: "over ?it (slot d1 8 bs k)"
    using sk by (cases "slot d1 8 bs k") (simp_all add: over_def list.rel_refl)
  note r = refill_slot_wf [OF s1 w1(1) z k lit nf ov, folded d2_def]
  note T2 = same_dev_geometry [OF r(4)]
  have kk: "k < calc_total_items 8 * length bs" using k nle by simp
  note sl2 = fill_slot_over(4) [OF s1 w1(1) z kk lit ov, folded d2_def]
  have es1: "seg_entries d1 bs n = ?es" by (simp add: seg_entries_def w1)
  have es2: "seg_entries d2 bs n = ?es[k := (?es ! k)\<lparr>fi_status := 0\<rparr>]"
  proof -
    have "bytes_filelist_item ?it = (?es ! k)\<lparr>fi_status := 0\<rparr>"
      using item_set_status [of "slot d1 8 bs k" 0] sk es1 entry_nth [OF k, of d1 bs] by (metis length_0_conv zero_neq_numeral)
    then show ?thesis using r(3) es1 by (simp add: seg_entries_def map_update)
  qed
  have l: "k < length ?es" using k by simp
  have sts: "fi_status (?es ! k) = CAFS_FILELIST_STATUS_OBSOLETE" using ek e(2) by simp
  have di: "distinct (map fi_block (held ?es))" using ow by (simp add: owned_def)
  have bs2: "serial_of d2 x = serial_of d x" if "x \<in> set bs" for x
    using serial_take [OF r(7) [of x]] bs1 [OF that] wf_blocks [OF w1(1) that] by (simp add: keeps_def)
  have ke: "keeps d d2 (fi_block x)" if "x \<in> set (held (seg_entries d2 bs n))" for x
  proof -
    have h: "x \<in> set (held ?es)" "fi_block x \<noteq> ?b"
      using held_update_distinct(2) [OF di l sts] that unfolding es2 ek by auto
    note hx = held_block [OF fd h(1)]
    have "blk d2 (fi_block x) = blk d1 (fi_block x)" using r(5) hx T1 by simp
    from keeps_trans [OF kb1 [OF hx(1) h(2)] keeps_blk [OF this]] show ?thesis .
  qed
  have fd2: "file_disk d2 bs n" unfolding file_disk_def
  proof (intro conjI)
    show "owned d2 bs (seg_entries d2 bs n)" unfolding owned_def
    proof (intro conjI ballI)
      show "distinct (map fi_block (held (seg_entries d2 bs n)))" unfolding es2 by (rule held_update_distinct(1) [OF di l sts])
      fix b assume "b \<in> set (map fi_block (held (seg_entries d2 bs n)))"
      then obtain x where x: "x \<in> set (held (seg_entries d2 bs n))" "b = fi_block x" by auto
      then have "x \<in> set (held ?es)" using held_update_distinct(2) [OF di l sts] unfolding es2 by auto
      note o = owned_block [OF ow this]
      show "b < cl_block_gettotal d2" "live d2 b" "type_of d2 b = BLOCK_TYPE_FILE_DATA" "serial_of d2 b = serial_of d2 (hd bs)"
        using o ke [OF x(1)] x(2) T1 T2 bs2 [OF f(8)] by (simp_all add: keeps_def)
    qed
    show "distinct (map fi_segment (currents (seg_entries d2 bs n)))"
      using fd unfolding es2 currents_update [OF l sts] by (simp add: file_disk_def)
  qed (use r(1,2) f(3) T1 T2 in \<open>simp_all add: d1_def\<close>)
  have sd: "seg_data d2 bs n s = seg_data d bs n s" for s
  proof -
    have lk: "seg_lookup s CAFS_FILELIST_STATUS_CURRENT (seg_entries d2 bs n) = seg_lookup s CAFS_FILELIST_STATUS_CURRENT ?es"
      unfolding lookup_currents es2 currents_update [OF l sts] ..
    show ?thesis
    proof (cases "seg_lookup s CAFS_FILELIST_STATUS_CURRENT ?es")
      case (Some b)
      then obtain x where "x \<in> set (currents (seg_entries d2 bs n))" "fi_block x = b"
        unfolding es2 currents_update [OF l sts] by (auto simp: lookup_currents find_Some_iff dest: nth_mem)
      with ke [OF currents_held] have "data_of d2 b = data_of d b" by (auto simp: keeps_def)
      with Some lk show ?thesis by (simp add: seg_data_def)
    qed (simp add: seg_data_def lk)
  qed
  have "closing d0 bs n (Suc k) d2" unfolding closing_def
  proof (intro conjI allI impI ballI)
    show "same_dev d0 d2" using same_dev_trans [OF same_dev_trans [OF dev T1(2)] r(4)] .
    show "seg_data d2 bs n = seg_data d0 bs n" using sd c by (auto simp: closing_def)
  next
    fix j assume "Suc k \<le> j \<and> j < 14 * length bs"
    then show "slot d2 8 bs j = slot d0 8 bs j" using sl2 [of j] sl1 [of j] c by (simp add: closing_def)
  next
    fix x assume "x < cl_block_gettotal d0" "x \<notin> set bs \<and> x \<notin> fi_block ` set (held (seg_entries d0 bs n))"
    moreover have "?b \<in> fi_block ` set (held (seg_entries d0 bs n))"
      using e nth_held [of k "seg_entries d0 bs n"] k by simp
    ultimately have "blk d2 x = blk d1 x" "blk d1 x = blk d x" "blk d x = blk d0 x"
      using r(5) [of x] T1 g hb(1) c by (auto simp: d1_def blk_with_status closing_def)
    then show "blk d2 x = blk d0 x" by simp
  next
    fix x assume "x \<in> set bs"
    then show "serial_of d2 x = serial_of d0 x" using bs2 c by (simp add: closing_def)
  next
    fix j assume "j < Suc k"
    show "shut d2 (seg_entries d0 bs n ! j) (seg_entries d2 bs n ! j)"
    proof (cases "j = k")
      case True
      then show ?thesis using e l ek by (simp add: shut_def es2)
    next
      case False
      then have j: "j < k" using \<open>j < Suc k\<close> by simp
      then have sh: "shut d (seg_entries d0 bs n ! j) (?es ! j)" using c by (simp add: closing_def)
      have en: "seg_entries d2 bs n ! j = ?es ! j" using False by (simp add: es2)
      have "status_of d2 (fi_block (?es ! j)) = status_of d (fi_block (?es ! j))" if cu: "fi_status (?es ! j) = CAFS_FILELIST_STATUS_CURRENT"
      proof -
        have "seg_entries d2 bs n ! j \<in> set (held (seg_entries d2 bs n))"
          by (rule nth_held) (use cu j k en in simp_all)
        then have m: "?es ! j \<in> set (held ?es)" "fi_block (?es ! j) \<noteq> ?b"
          using held_update_distinct(2) [OF di l sts, of "?es ! j"] en ek by (simp_all add: es2)
        note hj = held_block [OF fd m(1)]
        show ?thesis using r(5) [of "fi_block (?es ! j)"] T1 hj m(2) hb(1) by (simp add: status_blk d1_def blk_with_status)
      qed
      with sh en show ?thesis by (auto simp: shut_def)
    qed
  qed (use k fd2 in simp_all)
  with dis st show thesis by (rule that)
qed

text \<open>One entry.\<close>

lemma closing_item:
  assumes c: "closing d0 bs n k d" and k: "k < n"
  obtains d1 where "close_item (bytes_filelist_item (slot d0 8 bs k)) (slot_addr 8 bs k) d = Some (0, d1)" "closing d0 bs n (Suc k) d1"
proof -
  define e where "e = seg_entries d0 bs n ! k"
  have it: "bytes_filelist_item (slot d0 8 bs k) = e" using k by (simp add: e_def entry_nth)
  have fd: "file_disk d bs n" using c by (simp add: closing_def)
  have ek: "seg_entries d bs n ! k = e" using closing_entry [OF c _ k] by (simp add: e_def)
  have later: "closing d0 bs n (Suc k) d'" if "closing d0 bs n k d'" "shut d' e (seg_entries d' bs n ! k)" for d'
    using that k unfolding closing_def e_def by (auto simp: less_Suc_eq)
  consider (current) "fi_status e = CAFS_FILELIST_STATUS_CURRENT" | (obsolete) "fi_status e = CAFS_FILELIST_STATUS_OBSOLETE"
    | (other) "fi_status e \<noteq> CAFS_FILELIST_STATUS_CURRENT" "fi_status e \<noteq> CAFS_FILELIST_STATUS_OBSOLETE" by blast
  then show thesis
  proof cases
    case current
    have h: "e \<in> set (held (seg_entries d bs n))" using nth_held [of k "seg_entries d bs n"] k ek current by simp
    have h0: "fi_block e \<in> fi_block ` set (held (seg_entries d0 bs n))"
      using nth_held [of k "seg_entries d0 bs n"] k current by (simp add: e_def)
    note cl = closing_closed [OF c disjI2 [OF h0] held_block(1,2) [OF fd h]]
    have "close_item e (slot_addr 8 bs k) d = Some (0, closed (fi_block e) d)" using cl(1) current by (simp add: close_item_def)
    moreover have "shut (closed (fi_block e) d) e (seg_entries (closed (fi_block e) d) bs n ! k)"
      using cl(3,4) current ek by (simp add: shut_def)
    ultimately show thesis using that later [OF cl(2)] it by simp
  next
    case obsolete
    obtain d1 d2 where s: "cl_block_discard (fi_block e) d = Some (1, d1)"
      "cl_filelist_setstatus CAFS_FILELIST_STATUS_DIRTY (slot_addr 8 bs k) d1 = Some (0, d2)" "closing d0 bs n (Suc k) d2"
      by (rule closing_struck [OF c k e_def obsolete])
    then have "close_item e (slot_addr 8 bs k) d = Some (0, d2)" using obsolete by (simp add: close_item_def)
    with s(3) it that show thesis by simp
  next
    case other
    then have "close_item e (slot_addr 8 bs k) d = Some (0, d)" by (simp add: close_item_def)
    moreover have "shut d e (seg_entries d bs n ! k)" using other ek by (simp add: shut_def)
    ultimately show thesis using that later [OF c] it by simp
  qed
qed

lemma closing_body:
  assumes c: "closing d0 bs n k d" and k: "k < n" and l: "ls_block l \<in> set bs"
  shows "\<exists>x d'. mark_closed_body (slot d0 8 bs k) (slot_addr 8 bs k) l () d
    = Some (Inr (l\<lparr>ls_data := (ls_data l)\<lparr>bd_hdr := x\<rparr>\<rparr>, (), d')) \<and> closing d0 bs n (Suc k) d'"
proof -
  obtain d1 where d1: "close_item (bytes_filelist_item (slot d0 8 bs k)) (slot_addr 8 bs k) d = Some (0, d1)" "closing d0 bs n (Suc k) d1"
    by (rule closing_item [OF c k])
  show ?thesis
  proof (cases "bh_status (bd_hdr (ls_data l)) = BLOCK_STATUS_OPEN")
    case False
    have "l\<lparr>ls_data := (ls_data l)\<lparr>bd_hdr := bd_hdr (ls_data l)\<rparr>\<rparr> = l" by simp
    with False d1 show ?thesis by (intro exI [of _ "bd_hdr (ls_data l)"] exI [of _ d1]) (simp add: mark_closed_body_def)
  next
    case True
    have "wf_list d1 8 cl_filelist_isfree bs n" using d1(2) file_disk_facts(4) by (simp add: closing_def)
    note cl = closing_closed [OF d1(2) disjI1 [OF l], OF conjunct1 [OF wf_blocks [OF this l]] conjunct2 [OF wf_blocks [OF this l]]]
    with True d1 show ?thesis
      by (intro exI [of _ "(bd_hdr (ls_data l))\<lparr>bh_status := BLOCK_STATUS_CLOSED\<rparr>"] exI [of _ "closed (ls_block l) d1"])
         (simp add: mark_closed_body_def)
  qed
qed

lemma closing_loop:
  assumes fd: "file_disk d bs n"
  obtains l r l' out d' where "cl_filelist_init (hd bs) d = (0, l)"
    "while_next mark_closed_body l () d = Some (Inr (r, l', out, (), d'))" "closing d bs n n d'"
proof -
  note f = file_disk_facts [OF fd]
  have ch: "chain d BLOCK_INVALID bs" using f(4) by (simp add: wf_list_def)
  have z: "0 < calc_total_items 8" by simp
  obtain l where l: "cl_list_init (hd bs) 8 cl_filelist_isfree d = (0, l)" "at_slot d 8 cl_filelist_isfree bs l 0"
    by (rule at_slot_start [OF f(2) ch z])
  have inv: "geometry d1 \<and> chain d1 BLOCK_INVALID bs \<and> (\<forall>j. k \<le> j \<and> j < calc_total_items 8 * length bs \<longrightarrow> slot d1 8 bs j = slot d 8 bs j)"
    if "closing d bs n k d1" for k d1
    using that file_disk_facts(2,4) [of d1 bs n] by (simp add: closing_def wf_list_def)
  have "\<exists>r l' out s' d'. while_next mark_closed_body l () d = Some (Inr (r, l', out, s', d')) \<and> closing d bs n n d'"
    by (rule while_next_steps [where I = "\<lambda>k s d1. closing d bs n k d1", OF f(4) filelist_isfree_erased z inv _ l(2) _ closing_start [OF fd]])
       (use closing_body in auto)
  with l(1) that show thesis by (auto simp: cl_filelist_init_def)
qed

text \<open>The blocks of the list, forward and back.\<close>

lemma read_list_hdr_chain:
  assumes "geometry d" "b < cl_block_gettotal d"
  shows "read_list_hdr b d = Some (list_next (data_of d b), list_prev (data_of d b))"
proof -
  have "128 * b + 128 \<le> fl_size d" using cell_fits [OF assms(1), of "Blk b"] assms(2) by simp
  then have r: "cl_dev_read (get_hdr_addr b) 4 d = (4, map (fl_mem d) [128 * b + 6 ..< 128 * b + 6 + 4])"
    unfolding get_hdr_addr_def mult.commute [of b] by (subst cl_dev_read_map) simp_all
  have "map (fl_mem d) [128 * b + 6 ..< 128 * b + 6 + 4] = take 4 (data_of d b)"
    by (simp add: data_of_def blk_def drop_map take_map)
  then show ?thesis unfolding read_list_hdr_def r by (simp add: list_next_def list_prev_def drop_take min_def)
qed

lemma walk_forward_chain: "geometry d \<Longrightarrow> chain d p bs \<Longrightarrow> walk_forward (hd bs) p d = Some (0, last bs)"
proof (induction bs arbitrary: p)
  case (Cons b bs)
  have b: "b < cl_block_gettotal d" "b \<noteq> BLOCK_INVALID" using Cons.prems block_less_invalid [of d b] by auto
  have "walk_forward b p d = walk_forward (list_next (data_of d b)) b d"
    using Cons.prems b by (subst walk_forward.simps) (simp add: read_list_hdr_chain)
  moreover have "walk_forward BLOCK_INVALID b d = Some (0, b)" by (subst walk_forward.simps) simp
  ultimately show ?case using Cons by (cases bs) auto
qed simp

lemma walk_back_step:
  assumes c: "closing d0 bs n n d" and i: "i < length bs"
  shows "walk_back (bs ! i) BLOCK_STATUS_CLOSED d
      = walk_back (if i = 0 then BLOCK_INVALID else bs ! (i - 1)) BLOCK_STATUS_CLOSED (closed (bs ! i) d)"
    "closing d0 bs n n (closed (bs ! i) d)" "status_of (closed (bs ! i) d) (bs ! i) = BLOCK_STATUS_CLOSED"
    "\<And>x. x < cl_block_gettotal d \<Longrightarrow> status_of d x = BLOCK_STATUS_CLOSED \<Longrightarrow> status_of (closed (bs ! i) d) x = BLOCK_STATUS_CLOSED"
proof -
  have fd: "file_disk d bs n" using c by (simp add: closing_def)
  note f = file_disk_facts [OF fd]
  have ch: "chain d BLOCK_INVALID bs" using f(4) by (simp add: wf_list_def)
  have b: "bs ! i < cl_block_gettotal d" "live d (bs ! i)" "bs ! i \<in> set bs" using i wf_blocks [OF f(4)] by auto
  note cl = closing_closed [OF c disjI1 [OF b(3)] b(1,2)]
  note lk = chain_links [OF ch i]
  have nb: "bs ! i \<noteq> BLOCK_INVALID" using block_less_invalid [OF f(2) b(1)] by simp
  show "walk_back (bs ! i) BLOCK_STATUS_CLOSED d
      = walk_back (if i = 0 then BLOCK_INVALID else bs ! (i - 1)) BLOCK_STATUS_CLOSED (closed (bs ! i) d)"
    using nb lk cl(1) read_list_hdr_chain [OF f(2) b(1)] by (subst walk_back.simps) (simp add: cl_block_close_def)
  show "closing d0 bs n n (closed (bs ! i) d)" "status_of (closed (bs ! i) d) (bs ! i) = BLOCK_STATUS_CLOSED" by (rule cl(2), rule cl(4))
  show "status_of (closed (bs ! i) d) x = BLOCK_STATUS_CLOSED" if "x < cl_block_gettotal d" "status_of d x = BLOCK_STATUS_CLOSED" for x
    using that b(1) by (simp add: with_status_fields)
qed

lemma walk_back_closes:
  "closing d0 bs n n d \<Longrightarrow> i < length bs \<Longrightarrow> \<exists>d'. walk_back (bs ! i) BLOCK_STATUS_CLOSED d = Some (0, d') \<and> closing d0 bs n n d'
    \<and> cl_block_gettotal d' = cl_block_gettotal d \<and> (\<forall>j\<le>i. status_of d' (bs ! j) = BLOCK_STATUS_CLOSED)
    \<and> (\<forall>c<cl_block_gettotal d. status_of d c = BLOCK_STATUS_CLOSED \<longrightarrow> status_of d' c = BLOCK_STATUS_CLOSED)"
proof (induction i arbitrary: d)
  case 0
  note s = walk_back_step [OF 0]
  have "walk_back BLOCK_INVALID BLOCK_STATUS_CLOSED (closed (bs ! 0) d) = Some (0, closed (bs ! 0) d)" by (subst walk_back.simps) simp
  with s show ?case by (intro exI [of _ "closed (bs ! 0) d"]) simp
next
  case (Suc i)
  note s = walk_back_step [OF Suc.prems]
  have i: "i < length bs" using Suc.prems(2) by simp
  from Suc.IH [OF s(2) i] obtain d' where d': "walk_back (bs ! i) BLOCK_STATUS_CLOSED (closed (bs ! Suc i) d) = Some (0, d')"
    "closing d0 bs n n d'" "cl_block_gettotal d' = cl_block_gettotal d" "\<forall>j\<le>i. status_of d' (bs ! j) = BLOCK_STATUS_CLOSED"
    "\<forall>c<cl_block_gettotal d. status_of (closed (bs ! Suc i) d) c = BLOCK_STATUS_CLOSED \<longrightarrow> status_of d' c = BLOCK_STATUS_CLOSED"
    by auto
  have "bs ! Suc i < cl_block_gettotal d" using Suc.prems file_disk_facts(4) wf_blocks by (metis closing_def nth_mem)
  then have "status_of d' (bs ! Suc i) = BLOCK_STATUS_CLOSED" using d'(5) s(3) by simp
  with d' s(1,4) show ?case by (intro exI [of _ d']) (auto simp: le_Suc_eq)
qed

lemma list_close_effect:
  assumes c: "closing d0 bs n n d"
  obtains d' where "cl_list_close (hd bs) d = Some (0, d')" "closing d0 bs n n d'" "\<forall>b\<in>set bs. status_of d' b = BLOCK_STATUS_CLOSED"
proof -
  have fd: "file_disk d bs n" using c by (simp add: closing_def)
  note f = file_disk_facts [OF fd]
  have ch: "chain d BLOCK_INVALID bs" using f(4) by (simp add: wf_list_def)
  have l: "length bs - 1 < length bs" "last bs = bs ! (length bs - 1)" using f(5) by (simp_all add: last_conv_nth)
  from walk_back_closes [OF c l(1)] obtain d' where d': "walk_back (last bs) BLOCK_STATUS_CLOSED d = Some (0, d')" "closing d0 bs n n d'"
    "\<forall>j\<le>length bs - 1. status_of d' (bs ! j) = BLOCK_STATUS_CLOSED" unfolding l(2) by blast
  have "\<forall>b\<in>set bs. status_of d' b = BLOCK_STATUS_CLOSED"
  proof
    fix b assume "b \<in> set bs"
    then obtain j where "j < length bs" "b = bs ! j" by (metis in_set_conv_nth)
    with d'(3) show "status_of d' b = BLOCK_STATUS_CLOSED" by simp
  qed
  with d' show thesis
    by (intro that [of d']) (simp_all add: cl_list_close_def cl_list_setblockstatus_def walk_forward_chain [OF f(2) ch])
qed

text \<open>
  The whole file: every block it still uses is closed, its bytes are the same, and other blocks are not touched
  but for the superseded ones.
\<close>

definition all_closed :: "flash \<Rightarrow> nat list \<Rightarrow> nat \<Rightarrow> nat \<Rightarrow> bool" where
  "all_closed d bs n hb \<longleftrightarrow> (\<forall>b\<in>insert hb (set bs). status_of d b = BLOCK_STATUS_CLOSED)
     \<and> (\<forall>e\<in>set (held (seg_entries d bs n)). status_of d (fi_block e) = BLOCK_STATUS_CLOSED)"

definition shut_file :: "flash \<Rightarrow> nat list \<Rightarrow> nat \<Rightarrow> nat \<Rightarrow> flash \<Rightarrow> bool" where
  "shut_file d bs n hb d' \<longleftrightarrow> file_disk d' bs n \<and> same_dev d d' \<and> seg_data d' bs n = seg_data d bs n
     \<and> (\<forall>c<cl_block_gettotal d. c \<notin> set bs \<and> c \<notin> fi_block ` set (held (seg_entries d bs n)) \<and> c \<noteq> hb \<longrightarrow> blk d' c = blk d c)
     \<and> keeps d d' hb \<and> serial_of d' (hd bs) = serial_of d (hd bs) \<and> all_closed d' bs n hb"

lemma file_closed_effect:
  assumes fd: "file_disk d bs n" and hb: "hb < cl_block_gettotal d" "status_of d hb = BLOCK_STATUS_OPEN" "type_of d hb = BLOCK_TYPE_FILE_HDR"
    "hdr_content_block (data_of d hb) = hd bs"
  obtains d' where "mark_file_closed hb d = Some (0, d')" "shut_file d bs n hb d'"
proof -
  note f = file_disk_facts [OF fd]
  have ow: "owned d bs (seg_entries d bs n)" using fd by (simp add: file_disk_def)
  have out: "hb \<notin> set bs" "hb \<notin> fi_block ` set (held (seg_entries d bs n))"
    using list_type(2) [OF f(4)] owned_block(3) [OF ow] hb(3) by auto
  obtain l r l' out1 d1 where lp: "cl_filelist_init (hd bs) d = (0, l)"
    "while_next mark_closed_body l () d = Some (Inr (r, l', out1, (), d1))" "closing d bs n n d1"
    by (rule closing_loop [OF fd])
  obtain d2 where d2: "cl_list_close (hd bs) d1 = Some (0, d2)" "closing d bs n n d2" "\<forall>b\<in>set bs. status_of d2 b = BLOCK_STATUS_CLOSED"
    by (rule list_close_effect [OF lp(3)])
  have fd2: "file_disk d2 bs n" and dev2: "same_dev d d2" using d2(2) by (auto simp: closing_def)
  note f2 = file_disk_facts [OF fd2] and g2 = same_dev_geometry [OF dev2]
  have b2: "blk d2 hb = blk d hb" using d2(2) hb(1) out by (simp add: closing_def)
  have hb2: "hb < cl_block_gettotal d2" "live d2 hb" using hb(1,2) g2 live_blk [OF b2] by (simp_all add: live_def)
  note cl = block_close_effect [OF f2(1) hb2]
  let ?d3 = "closed hb d2"
  have k3: "keeps d2 ?d3 x" if "x < cl_block_gettotal d2" for x by (rule closed_keeps [OF hb2(1) that])
  have ps: "per_section ?d3 \<le> 41" using f2(3) by simp
  note k = file_disk_keeps [OF fd2 cl(2) with_status_total(1) ps k3 k3]
  have kk: "file_disk ?d3 bs n" "seg_entries ?d3 bs n = seg_entries d2 bs n" "seg_data ?d3 bs n = seg_data d2 bs n"
    using k wf_blocks [OF f2(4)] held_block [OF fd2] by simp_all
  have run: "mark_file_closed hb d = Some (0, ?d3)"
    using load_total [OF f(2) hb(1)] hb(2-4) lp(1,2) d2(1) cl(1) by (simp add: mark_file_closed_def Let_def)
  have st3: "status_of ?d3 x = (if x = hb then BLOCK_STATUS_CLOSED else status_of d2 x)" if "x < cl_block_gettotal d2" for x
    using that hb2(1) by (simp add: with_status_fields)
  have "status_of d2 (fi_block e) = BLOCK_STATUS_CLOSED" if "e \<in> set (held (seg_entries d2 bs n))" for e
  proof -
    have e: "e \<in> set (seg_entries d2 bs n)" "fi_status e = CAFS_FILELIST_STATUS_CURRENT \<or> fi_status e = CAFS_FILELIST_STATUS_OBSOLETE"
      using that by (auto simp: held_def)
    from e(1) obtain j where j: "j < n" "e = seg_entries d2 bs n ! j" by (metis in_set_conv_nth length_seg_entries)
    have "shut d2 (seg_entries d bs n ! j) e" using d2(2) j by (simp add: closing_def)
    with e(2) show ?thesis by (auto simp: shut_def split: if_splits)
  qed
  then have "all_closed ?d3 bs n hb"
    unfolding all_closed_def kk(2) using d2(3) st3 hb2(1) wf_blocks [OF f2(4)] held_block [OF fd2] by auto
  moreover have "keeps d ?d3 hb" by (rule keeps_trans [OF keeps_blk [OF b2] k3 [OF hb2(1)]])
  moreover have "serial_of ?d3 (hd bs) = serial_of d (hd bs)"
    using k3 [OF f2(6)] d2(2) f(8) by (simp add: keeps_def closing_def)
  moreover have "blk ?d3 c = blk d c" if "c < cl_block_gettotal d" "c \<notin> set bs \<and> c \<notin> fi_block ` set (held (seg_entries d bs n)) \<and> c \<noteq> hb" for c
    using that d2(2) hb2(1) g2 by (simp add: closing_def blk_with_status)
  moreover have "seg_data ?d3 bs n = seg_data d bs n" using kk(3) d2(2) by (simp add: closing_def)
  ultimately have "shut_file d bs n hb ?d3"
    using kk(1) same_dev_trans [OF dev2 with_status_dev] by (simp add: shut_file_def)
  with run show thesis by (rule that)
qed

subsection \<open>The entry and the header of a file\<close>

text \<open>
  Entry \<open>k\<close> of the list of serial numbers is the only one with the number \<open>sn\<close>; it has the status \<open>st\<close> and
  names the block \<open>b\<close>.
\<close>

definition in_table :: "flash \<Rightarrow> nat list \<Rightarrow> nat \<Rightarrow> nat \<Rightarrow> byte \<Rightarrow> u32 \<Rightarrow> nat \<Rightarrow> bool" where
  "in_table d sbs m k st sn b \<longleftrightarrow> sn_list d sbs m \<and> k < m
     \<and> (let e = sn_entries d sbs m ! k in sn_validate_checksum e = 0 \<and> sn_status e = st \<and> sn_serialno e = sn \<and> sn_block e = b)
     \<and> (\<forall>j<m. j \<noteq> k \<longrightarrow> sn_serialno (sn_entries d sbs m ! j) \<noteq> sn)"

definition is_header :: "flash \<Rightarrow> nat \<Rightarrow> u32 \<Rightarrow> byte list \<Rightarrow> nat \<Rightarrow> bool" where
  "is_header d b sn name lb \<longleftrightarrow> b < cl_block_gettotal d \<and> live d b \<and> type_of d b = BLOCK_TYPE_FILE_HDR \<and> serial_of d b = sn
     \<and> hdr_name (data_of d b) = name \<and> hdr_content_block (data_of d b) = lb"

text \<open>No other closed file has the name.\<close>

definition only_name :: "flash \<Rightarrow> nat list \<Rightarrow> nat \<Rightarrow> nat \<Rightarrow> nat \<Rightarrow> byte list \<Rightarrow> bool" where
  "only_name d sbs m k b name \<longleftrightarrow> (\<forall>j<m. let e = sn_entries d sbs m ! j in
     j \<noteq> k \<and> sn_serialno e \<noteq> CL_SERIALNO_LIST \<and> sn_status e = CAFS_SNLIST_ITEM_STATUS_CLOSED \<longrightarrow>
       sn_block e < cl_block_gettotal d \<and> live d (sn_block e) \<and> type_of d (sn_block e) = BLOCK_TYPE_FILE_HDR \<and> sn_block e \<noteq> b
       \<and> \<not> CafsFs.strncmp_eq FS_NAME_MAX name (hdr_name (data_of d (sn_block e))))"

lemma length_sn_entries [simp]: "length (sn_entries d sbs m) = m"
  by (simp add: sn_entries_def contents_def)

lemma in_table_keeps:
  assumes "in_table d sbs m k st sn b" "cl_block_gettotal d' = cl_block_gettotal d" "dev_list_block d' = dev_list_block d"
    and "\<And>c. c \<in> set sbs \<Longrightarrow> keeps d d' c"
  shows "in_table d' sbs m k st sn b" "sn_entries d' sbs m = sn_entries d sbs m"
proof -
  have sl: "sn_list d sbs m" using assms(1) by (simp add: in_table_def)
  note s = sn_list_keeps [OF sl assms(2-4)]
  show "in_table d' sbs m k st sn b" "sn_entries d' sbs m = sn_entries d sbs m"
    using assms(1) s by (simp_all add: in_table_def)
qed

lemma is_header_keeps: "is_header d b sn name lb \<Longrightarrow> cl_block_gettotal d' = cl_block_gettotal d \<Longrightarrow> keeps d d' b \<Longrightarrow> is_header d' b sn name lb"
  by (simp add: is_header_def keeps_def)

lemma only_name_keeps:
  assumes "only_name d sbs m k b name" "cl_block_gettotal d' = cl_block_gettotal d"
    and "\<And>j. j < m \<Longrightarrow> j \<noteq> k \<Longrightarrow> sn_entries d' sbs m ! j = sn_entries d sbs m ! j"
    and "\<And>c. c < cl_block_gettotal d \<Longrightarrow> live d c \<Longrightarrow> type_of d c = BLOCK_TYPE_FILE_HDR \<Longrightarrow> c \<noteq> b \<Longrightarrow> keeps d d' c"
  shows "only_name d' sbs m k b name"
  unfolding only_name_def Let_def
proof (intro allI impI, elim conjE)
  fix j let ?e = "sn_entries d' sbs m ! j"
  assume j: "j < m" "j \<noteq> k" "sn_serialno ?e \<noteq> CL_SERIALNO_LIST" "sn_status ?e = CAFS_SNLIST_ITEM_STATUS_CLOSED"
  note e = assms(3) [OF j(1,2)]
  have o: "sn_block ?e < cl_block_gettotal d" "live d (sn_block ?e)" "type_of d (sn_block ?e) = BLOCK_TYPE_FILE_HDR" "sn_block ?e \<noteq> b"
    "\<not> CafsFs.strncmp_eq FS_NAME_MAX name (hdr_name (data_of d (sn_block ?e)))"
    using assms(1) j unfolding only_name_def Let_def e by blast+
  with assms(4) [OF o(1-4)] assms(2) show "sn_block ?e < cl_block_gettotal d' \<and> live d' (sn_block ?e)
      \<and> type_of d' (sn_block ?e) = BLOCK_TYPE_FILE_HDR \<and> sn_block ?e \<noteq> b
      \<and> \<not> CafsFs.strncmp_eq FS_NAME_MAX name (hdr_name (data_of d' (sn_block ?e)))"
    by (simp add: keeps_def)
qed

lemma sn_item_set_status: "x \<noteq> [] \<Longrightarrow> bytes_snitem (st # tl x) = (bytes_snitem x)\<lparr>sn_status := st\<rparr>"
  by (cases x) (simp_all add: bytes_snitem_def)

text \<open>Writing a status to the entry.\<close>

lemma table_setstatus:
  assumes snd: "sound d" and t: "in_table d sbs m k st sn b" and st: "overwrites st' st" "st' \<noteq> CAFS_SNLIST_ITEM_STATUS_FREE"
  obtains d' where "cl_serialno_setstatus (slot_addr 8 sbs k) st' d = Some (0, d')" "sound d'" "same_dev d d'"
    "in_table d' sbs m k st' sn b" "\<And>j. j < m \<Longrightarrow> j \<noteq> k \<Longrightarrow> sn_entries d' sbs m ! j = sn_entries d sbs m ! j"
    "\<And>c. c < cl_block_gettotal d \<Longrightarrow> c \<notin> set sbs \<Longrightarrow> blk d' c = blk d c"
proof -
  have sl: "sn_list d sbs m" and k: "k < m" using t by (auto simp: in_table_def)
  have wf: "wf_list d 8 cl_serialno_isfree sbs m" and lb: "list_block_of d = hd sbs" using sl by (auto simp: sn_list_def)
  let ?x = "slot d 8 sbs k"
  let ?it = "st' # tl ?x"
  define d' where "d' = fill_slot 8 sbs k ?it d"
  have z: "0 < calc_total_items 8" "(0 :: nat) < 8" by simp_all
  have lx: "length ?x = 8" by (simp add: slot_def length_get_item)
  then have ne: "?x \<noteq> []" by auto
  have ek: "sn_entries d sbs m ! k = bytes_snitem ?x" using k by (simp add: sn_entries_def contents_def)
  have hx: "hd ?x = st" using t ek ne by (simp add: in_table_def Let_def bytes_snitem_def hd_conv_nth)
  have w: "cl_dev_write (slot_addr 8 sbs k) [st'] d = Some (1, d')"
    unfolding d'_def by (rule set_first [OF snd wf z k]) (simp add: hx st(1))
  have lit: "length ?it = 8" using lx by simp
  have nf: "\<not> cl_serialno_isfree ?it" using st(2) by (simp add: cl_serialno_isfree_def bytes_snitem_def)
  have ov: "over ?it ?x" using ne hx st(1) by (cases ?x) (simp_all add: over_def list.rel_refl)
  note r = refill_slot_wf [OF snd wf z k lit nf ov, folded d'_def]
  note g = same_dev_geometry [OF r(4)]
  note it = sn_item_set_status [OF ne, of st']
  have es: "sn_entries d' sbs m = (sn_entries d sbs m)[k := (sn_entries d sbs m ! k)\<lparr>sn_status := st'\<rparr>]"
    using r(3) ek it by (simp add: sn_entries_def map_update)
  have v: "sn_validate_checksum (bytes_snitem ?it) = 0" using t ek it by (simp add: in_table_def Let_def)
  have sl': "sn_list d' sbs m"
    unfolding sn_list_def
  proof (intro conjI ballI)
    show "list_block_of d' = hd sbs" using lb g by (simp add: list_block_of_def cl_dev_getlist_block_def)
    fix x assume "x \<in> set (contents d' 8 sbs m)"
    then have "x = ?it \<or> x \<in> set (contents d 8 sbs m)" unfolding r(3) using set_update_subset_insert by fastforce
    with v sl show "sn_validate_checksum (bytes_snitem x) = 0 \<or> sn_status (bytes_snitem x) = CAFS_SNLIST_ITEM_STATUS_DIRTY"
      by (auto simp: sn_list_def)
  qed (rule r(2))
  have "in_table d' sbs m k st' sn b" using t sl' by (simp add: in_table_def es Let_def)
  moreover have "sn_entries d' sbs m ! j = sn_entries d sbs m ! j" if "j < m" "j \<noteq> k" for j using that by (simp add: es)
  moreover have "cl_serialno_setstatus (slot_addr 8 sbs k) st' d = Some (0, d')" using w by (simp add: cl_serialno_setstatus_def)
  ultimately show thesis using that [of d'] r(1,4,5) by blast
qed

text \<open>Looking the number up.\<close>

lemma table_lookup:
  assumes "geometry d" "in_table d sbs m k st sn b"
  shows "\<exists>a. cl_serialno_get sn st' d = Some (if st' = st then (b, Some a, d) else (BLOCK_INVALID, None, d))"
proof -
  have sl: "sn_list d sbs m" and k: "k < m" using assms(2) by (auto simp: in_table_def)
  let ?es = "sn_entries d sbs m"
  have m: "sn_matches sn st' (?es ! j) \<longleftrightarrow> j = k \<and> st' = st" if "j < m" for j
    using assms(2) that by (cases "j = k") (auto simp: in_table_def sn_matches_def Let_def)
  have "sn_lookup sn st' ?es = (if st' = st then Some b else None)"
  proof (cases "st' = st")
    case True
    have "List.find (sn_matches sn st') ?es = Some (?es ! k)"
      unfolding find_Some_iff using m k True by (intro exI [of _ k]) auto
    then show ?thesis using assms(2) True by (simp add: sn_lookup_def in_table_def Let_def)
  next
    case False
    then have "List.find (sn_matches sn st') ?es = None" unfolding find_None_iff using m by (auto simp: in_set_conv_nth)
    with False show ?thesis by (simp add: sn_lookup_def)
  qed
  with serialno_get_lookup [OF assms(1) sl, of sn st'] show ?thesis by (auto split: if_splits)
qed

lemma takeWhile_cong_take:
  assumes "length (takeWhile P xs) < n" "take n ys = take n xs" "n \<le> length xs"
  shows "takeWhile P ys = takeWhile P xs"
proof -
  have "\<exists>x\<in>set (take n xs). \<not> P x"
  proof (rule ccontr)
    assume "\<not> (\<exists>x\<in>set (take n xs). \<not> P x)"
    then have "takeWhile P (take n xs @ drop n xs) = take n xs @ takeWhile P (drop n xs)" by (intro takeWhile_append2) blast
    then show False using assms(1,3) by simp
  qed
  then obtain x where x: "x \<in> set (take n xs)" "\<not> P x" by blast
  have "takeWhile P (take n xs @ drop n xs) = takeWhile P (take n xs)" by (rule takeWhile_append1) (rule x)+
  moreover have "takeWhile P (take n ys @ drop n ys) = takeWhile P (take n ys)" by (rule takeWhile_append1 [of x]) (use x assms(2) in simp_all)
  ultimately have "takeWhile P xs = takeWhile P (take n xs)" "takeWhile P ys = takeWhile P (take n ys)" by simp_all
  then show ?thesis using assms(2) by simp
qed

lemma sint_small: "n < 2 ^ 31 \<Longrightarrow> sint (of_nat n :: u32) = int n"
  by (simp add: signed_of_nat signed_take_bit_int_eq_self)

text \<open>The size, behind the name and the first block of the list.\<close>

lemma header_size_effect:
  assumes snd: "sound d" and h: "is_header d b sn name lb" and new: "take 4 (drop 28 (data_of d b)) = replicate 4 0xFF"
    and name: "length name < 26" and sz: "sz < 2 ^ 31"
  obtains d' where "cl_dev_write (get_cl_block_data_addr b + 28) (size_bytes (int sz)) d = Some (4, d')" "sound d'" "same_dev d d'"
    "is_header d' b sn name lb" "hdr_size (data_of d' b) = int sz" "status_of d' b = status_of d b"
    "\<And>c. c < cl_block_gettotal d \<Longrightarrow> c \<noteq> b \<Longrightarrow> blk d' c = blk d c"
proof -
  have geo: "geometry d" using snd by (simp add: sound_def)
  have b: "b < cl_block_gettotal d" "live d b" using h by (auto simp: is_header_def)
  let ?s = "size_bytes (int sz)"
  let ?x = "overlay 34 ?s (blk d b)"
  define d' where "d' = set_cell (Blk b) ?x d"
  have ls: "length ?s = 4" by (simp add: size_bytes_def)
  then have ne: "?s \<noteq> []" by auto
  have "take 4 (drop 34 (blk d b)) = replicate 4 0xFF" using new by (simp add: data_of_def)
  then have ov: "over ?s (take (length ?s) (drop 34 (blk d b)))" using over_FF [OF ls] by (simp add: ls)
  have w: "cl_dev_write (get_cl_block_data_addr b + 28) ?s d = Some (4, d')"
    using write_in_block [OF geo b(1), of 34 ?s] ls ov ne by (auto simp: get_cl_block_data_addr_def d'_def mult.commute add.commute)
  have lx: "length ?x = 128" using ls by simp
  have t6: "take 6 ?x = take 6 (blk d b)" using ls by (intro take_overlay) auto
  have dat: "data_of d' b = overlay 28 ?s (data_of d b)"
    using b(1) lx by (simp add: d'_def data_of_set_blk) (simp add: data_of_def overlay_def drop_take)
  have "?x ! 5 = blk d b ! 5" using ls by (simp add: nth_overlay)
  then have s': "sound d'" unfolding d'_def using b by (intro sound_set_blk snd lx) (auto simp: live_def status_blk)
  have dev: "same_dev d d'" by (simp add: d'_def)
  note hd = hdr_set_blk [OF b(1) b(1) lx t6, folded d'_def]
  have t28: "take 28 (data_of d' b) = take 28 (data_of d b)" unfolding dat using ls by (intro take_overlay) auto
  have "take 4 (drop 28 (data_of d' b)) = ?s" unfolding dat using ls by (simp add: overlay_def)
  moreover have "get_le ?s = sz"
  proof -
    have "unat (of_nat sz :: u32) = sz" using sz by (simp add: unat_of_nat)
    then have "?s = put_le 4 sz" by (simp add: size_bytes_def)
    then show ?thesis using sz by (simp only:) simp
  qed
  ultimately have hs: "hdr_size (data_of d' b) = int sz" unfolding hdr_size_def using sz by (simp add: sint_small)
  have "length (takeWhile (\<lambda>c. c \<noteq> 0) (data_of d b)) < 28" using h name by (simp add: is_header_def hdr_name_def)
  from takeWhile_cong_take [OF this, of "data_of d' b"] have nm: "hdr_name (data_of d' b) = name"
    using h t28 by (simp add: hdr_name_def is_header_def)
  have "take 2 (drop 26 x) = drop 26 (take 28 x)" for x :: "byte list" by (simp add: drop_take)
  then have cb: "hdr_content_block (data_of d' b) = lb" using h t28 by (simp add: hdr_content_block_def is_header_def)
  have h': "is_header d' b sn name lb"
    using h hd nm cb same_dev_geometry [OF dev] by (simp add: is_header_def live_def)
  show thesis by (rule that [OF w s' dev h' hs hd(1)]) (use b(1) lx in \<open>simp add: d'_def blk_set_blk\<close>)
qed

subsection \<open>A new file while it is open, and after it is closed\<close>

definition entered :: "byte list \<Rightarrow> cl_handle \<Rightarrow> nat list \<Rightarrow> flash \<Rightarrow> bool" where
  "entered name h bs d \<longleftrightarrow> (\<exists>sbs m k. let b = h_hdr_block h; sn = serial_of d (hd bs) in
     in_table d sbs m k CAFS_SNLIST_ITEM_STATUS_OPEN sn b \<and> h_serialno_addr h = slot_addr 8 sbs k \<and> set sbs \<inter> set bs = {}
     \<and> is_header d b sn name (hd bs) \<and> status_of d b = BLOCK_STATUS_OPEN \<and> take 4 (drop 28 (data_of d b)) = replicate 4 0xFF
     \<and> only_name d sbs m k b name \<and> length name < 26 \<and> sn \<noteq> SERIALNO_INVALID \<and> sn \<noteq> CL_SERIALNO_LIST)"

definition filed :: "byte list \<Rightarrow> byte list \<Rightarrow> flash \<Rightarrow> bool" where
  "filed name xs d \<longleftrightarrow> (\<exists>bs n V sbs m k b. let sn = serial_of d (hd bs) in
     on_disk d bs n V \<and> xs = file_bytes V (length xs) \<and> length xs \<le> MAX_FILE
     \<and> in_table d sbs m k CAFS_SNLIST_ITEM_STATUS_CLOSED sn b \<and> is_header d b sn name (hd bs) \<and> hdr_size (data_of d b) = int (length xs)
     \<and> only_name d sbs m k b name \<and> all_closed d bs n b \<and> sn \<noteq> SERIALNO_INVALID \<and> sn \<noteq> CL_SERIALNO_LIST)"

text \<open>The kinds of blocks are distinct.\<close>

lemma table_blocks:
  assumes "in_table d sbs m k st sn b" "c \<in> set sbs"
  shows "c < cl_block_gettotal d" "live d c" "type_of d c \<noteq> BLOCK_TYPE_FILE_DATA" "type_of d c \<noteq> BLOCK_TYPE_FILE_HDR"
proof -
  have wf: "wf_list d 8 cl_serialno_isfree sbs m" using assms(1) by (simp add: in_table_def sn_list_def)
  show "c < cl_block_gettotal d" "live d c" "type_of d c \<noteq> BLOCK_TYPE_FILE_DATA" "type_of d c \<noteq> BLOCK_TYPE_FILE_HDR"
    using wf_blocks [OF wf assms(2)] list_type [OF wf assms(2)] by simp_all
qed

lemma file_blocks:
  assumes "file_disk d bs n"
  shows "c \<in> set bs \<Longrightarrow> type_of d c \<noteq> BLOCK_TYPE_FILE_DATA \<and> type_of d c \<noteq> BLOCK_TYPE_FILE_HDR"
    "c \<in> fi_block ` set (held (seg_entries d bs n)) \<Longrightarrow> type_of d c = BLOCK_TYPE_FILE_DATA"
  using list_type [OF file_disk_facts(4) [OF assms]] owned_block(3) [of d bs "seg_entries d bs n"] assms by (auto simp: file_disk_def)

lemma header_type: "is_header d b sn name lb \<Longrightarrow> b < cl_block_gettotal d \<and> live d b \<and> type_of d b = BLOCK_TYPE_FILE_HDR"
  by (simp add: is_header_def)

lemma entered_next:
  assumes e: "entered name h bs d" and fd: "file_disk d bs n" and lv: "leaves d bs d' bs'" and id: "handle_id h' = handle_id h"
  shows "entered name h' bs' d'"
proof -
  from e obtain sbs m k where t: "in_table d sbs m k CAFS_SNLIST_ITEM_STATUS_OPEN (serial_of d (hd bs)) (h_hdr_block h)"
    "h_serialno_addr h = slot_addr 8 sbs k" "set sbs \<inter> set bs = {}"
    "is_header d (h_hdr_block h) (serial_of d (hd bs)) name (hd bs)" "status_of d (h_hdr_block h) = BLOCK_STATUS_OPEN"
    "take 4 (drop 28 (data_of d (h_hdr_block h))) = replicate 4 0xFF" "only_name d sbs m k (h_hdr_block h) name" "length name < 26"
    "serial_of d (hd bs) \<noteq> SERIALNO_INVALID" "serial_of d (hd bs) \<noteq> CL_SERIALNO_LIST"
    unfolding entered_def Let_def by blast
  have l: "cl_block_gettotal d' = cl_block_gettotal d" "hd bs' = hd bs" "serial_of d' (hd bs) = serial_of d (hd bs)"
    "dev_list_block d' = dev_list_block d" using lv by (simp_all add: leaves_def passes_def)
  have same: "blk d' c = blk d c" "c \<notin> set bs'" if "c < cl_block_gettotal d" "live d c" "c \<notin> set bs" for c
    using lv that by (auto simp: leaves_def passes_def)
  have ids: "h_hdr_block h' = h_hdr_block h" "h_serialno_addr h' = h_serialno_addr h" using id by (simp_all add: handle_id_def)
  have hdr: "keeps d d' c" if "c < cl_block_gettotal d" "live d c" "type_of d c = BLOCK_TYPE_FILE_HDR" for c
    using same(1) [OF that(1,2)] that(3) file_blocks(1) [OF fd, of c] by (auto intro: keeps_blk)
  have tab: "keeps d d' c" "c \<notin> set bs'" if "c \<in> set sbs" for c
    using same [of c] table_blocks [OF t(1) that] that t(3) by (auto intro: keeps_blk)
  note t' = in_table_keeps [OF t(1) l(1,4) tab(1)]
  note hb = header_type [OF t(4)]
  have kb: "keeps d d' (h_hdr_block h)" using hdr hb by blast
  have "h_hdr_block h \<notin> set bs" using hb file_blocks(1) [OF fd] by blast
  then have sb: "status_of d' (h_hdr_block h) = status_of d (h_hdr_block h)"
    using same(1) [of "h_hdr_block h"] hb by (simp add: status_blk)
  have "only_name d' sbs m k (h_hdr_block h) name"
    by (rule only_name_keeps [OF t(7) l(1)]) (use t'(2) hdr in auto)
  moreover have "is_header d' (h_hdr_block h) (serial_of d (hd bs)) name (hd bs)" by (rule is_header_keeps [OF t(4) l(1) kb])
  ultimately show ?thesis unfolding entered_def Let_def l(2,3) ids
    using t'(1) t(2,5,6,8-10) tab(2) kb sb by (intro exI [of _ sbs] exI [of _ m] exI [of _ k]) (auto simp: keeps_def)
qed
lemma on_disk_keeps:
  assumes o: "on_disk d bs n V" and d': "sound d'" "same_dev d d'"
    and keep: "\<And>c. c \<in> set bs \<Longrightarrow> keeps d d' c" "\<And>e. e \<in> set (held (seg_entries d bs n)) \<Longrightarrow> keeps d d' (fi_block e)"
  shows "on_disk d' bs n V" "seg_entries d' bs n = seg_entries d bs n"
proof -
  have fd: "file_disk d bs n" using o by (simp add: on_disk_def)
  note g = same_dev_geometry [OF d'(2)]
  have ps: "per_section d' \<le> 41" using file_disk_facts(3) [OF fd] g by simp
  note k = file_disk_keeps [OF fd d'(1) g(2) ps keep]
  show "on_disk d' bs n V" "seg_entries d' bs n = seg_entries d bs n" using o k by (auto simp: on_disk_def)
qed

text \<open>The bytes, the entry with its status, the header and the name of a file together.\<close>

definition stands :: "flash \<Rightarrow> nat list \<Rightarrow> nat \<Rightarrow> (nat \<Rightarrow> byte list) \<Rightarrow> nat list \<Rightarrow> nat \<Rightarrow> nat \<Rightarrow> byte \<Rightarrow> u32 \<Rightarrow> nat \<Rightarrow> byte list \<Rightarrow> bool" where
  "stands d bs n V sbs m k st sn b name \<longleftrightarrow> on_disk d bs n V \<and> serial_of d (hd bs) = sn \<and> in_table d sbs m k st sn b \<and> set sbs \<inter> set bs = {}
     \<and> is_header d b sn name (hd bs) \<and> only_name d sbs m k b name"

lemma standsD:
  assumes "stands d bs n V sbs m k st sn b name"
  shows "on_disk d bs n V" "file_disk d bs n" "in_table d sbs m k st sn b" "set sbs \<inter> set bs = {}"
    "is_header d b sn name (hd bs)" "only_name d sbs m k b name" "b \<notin> set sbs" "b \<notin> set bs"
    "\<And>c. c \<in> set sbs \<Longrightarrow> c \<notin> fi_block ` set (held (seg_entries d bs n))" "serial_of d (hd bs) = sn"
proof -
  show "serial_of d (hd bs) = sn" using assms by (simp add: stands_def)
  show s: "on_disk d bs n V" "file_disk d bs n" "in_table d sbs m k st sn b" "set sbs \<inter> set bs = {}"
    "is_header d b sn name (hd bs)" "only_name d sbs m k b name"
    using assms by (simp_all add: stands_def on_disk_def)
  show "b \<notin> set sbs" using table_blocks(4) [OF s(3)] header_type [OF s(5)] by blast
  show "b \<notin> set bs" using file_blocks(1) [OF s(2)] header_type [OF s(5)] by blast
  show "c \<notin> fi_block ` set (held (seg_entries d bs n))" if "c \<in> set sbs" for c
    using table_blocks(3) [OF s(3) that] file_blocks(2) [OF s(2)] by blast
qed

text \<open>A step of the entry.\<close>

lemma stands_setstatus:
  assumes s: "stands d bs n V sbs m k st sn b name" and st: "overwrites st' st" "st' \<noteq> CAFS_SNLIST_ITEM_STATUS_FREE"
  obtains d' where "cl_serialno_setstatus (slot_addr 8 sbs k) st' d = Some (0, d')" "stands d' bs n V sbs m k st' sn b name" "same_dev d d'"
    "seg_entries d' bs n = seg_entries d bs n" "\<And>c. c < cl_block_gettotal d \<Longrightarrow> c \<notin> set sbs \<Longrightarrow> blk d' c = blk d c"
proof -
  note p = standsD [OF s]
  note f = file_disk_facts [OF p(2)]
  obtain d' where d: "cl_serialno_setstatus (slot_addr 8 sbs k) st' d = Some (0, d')" "sound d'" "same_dev d d'"
    "in_table d' sbs m k st' sn b" "\<And>j. j < m \<Longrightarrow> j \<noteq> k \<Longrightarrow> sn_entries d' sbs m ! j = sn_entries d sbs m ! j"
    "\<And>c. c < cl_block_gettotal d \<Longrightarrow> c \<notin> set sbs \<Longrightarrow> blk d' c = blk d c"
    by (rule table_setstatus [OF f(1) p(3) st]) (rule that, assumption+)
  note g = same_dev_geometry [OF d(3)]
  have e: "blk d' (fi_block e) = blk d (fi_block e)" if "e \<in> set (held (seg_entries d bs n))" for e
    using d(6) held_block(1) [OF p(2) that] p(9) that by blast
  have b: "blk d' c = blk d c" if "c \<in> set bs" for c using d(6) wf_blocks [OF f(4) that] p(4) that by blast
  note o = on_disk_keeps [OF p(1) d(2,3) keeps_blk [OF b] keeps_blk [OF e]]
  have hb: "blk d' b = blk d b" using d(6) header_type [OF p(5)] p(7) by simp
  have h: "is_header d' b sn name (hd bs)" by (rule is_header_keeps [OF p(5) g(2) keeps_blk [OF hb]])
  have nm: "only_name d' sbs m k b name"
    by (rule only_name_keeps [OF p(6) g(2) d(5)]) (use d(6) table_blocks(4) [OF p(3)] in \<open>auto intro: keeps_blk\<close>)
  have "serial_of d' (hd bs) = serial_of d (hd bs)" using b [OF f(8)] by (simp add: serial_blk)
  then have "stands d' bs n V sbs m k st' sn b name" using o(1) d(4) p(4,10) h nm by (simp add: stands_def)
  from that [OF d(1) this d(3) o(2) d(6)] show thesis .
qed

text \<open>The step of the blocks.\<close>

lemma stands_shut:
  assumes s: "stands d bs n V sbs m k st sn b name" and opn: "status_of d b = BLOCK_STATUS_OPEN"
  obtains d' where "mark_file_closed b d = Some (0, d')" "stands d' bs n V sbs m k st sn b name" "same_dev d d'" "all_closed d' bs n b"
    "data_of d' b = data_of d b"
    "\<And>c. c < cl_block_gettotal d \<Longrightarrow> c \<notin> set bs \<Longrightarrow> c \<notin> fi_block ` set (held (seg_entries d bs n)) \<Longrightarrow> c \<noteq> b \<Longrightarrow> blk d' c = blk d c"
proof -
  note p = standsD [OF s]
  have hb: "b < cl_block_gettotal d" "type_of d b = BLOCK_TYPE_FILE_HDR" "hdr_content_block (data_of d b) = hd bs"
    using p(5) by (simp_all add: is_header_def)
  obtain d' where d: "mark_file_closed b d = Some (0, d')" "shut_file d bs n b d'" by (rule file_closed_effect [OF p(2) hb(1) opn hb(2,3)])
  have f: "file_disk d' bs n" "same_dev d d'" "seg_data d' bs n = seg_data d bs n" "keeps d d' b"
    "serial_of d' (hd bs) = serial_of d (hd bs)" "all_closed d' bs n b" using d(2) by (simp_all add: shut_file_def)
  note g = same_dev_geometry [OF f(2)]
  have k: "blk d' c = blk d c" if "c < cl_block_gettotal d" "c \<notin> set bs" "c \<notin> fi_block ` set (held (seg_entries d bs n))" "c \<noteq> b" for c
    using d(2) that by (simp add: shut_file_def)
  have tb: "keeps d d' c" if "c \<in> set sbs" for c
    by (rule keeps_blk, rule k) (use table_blocks(1) [OF p(3) that] p(4,7,9) that in auto)
  note t = in_table_keeps [OF p(3) g(2) g(7) tb]
  have hk: "keeps d d' c" if "c < cl_block_gettotal d" "live d c" "type_of d c = BLOCK_TYPE_FILE_HDR" "c \<noteq> b" for c
    by (rule keeps_blk, rule k) (use that file_blocks [OF p(2), of c] in auto)
  have h: "is_header d' b sn name (hd bs)" by (rule is_header_keeps [OF p(5) g(2) f(4)])
  have nm: "only_name d' sbs m k b name" by (rule only_name_keeps [OF p(6) g(2) _ hk]) (simp_all add: t(2))
  have "stands d' bs n V sbs m k st sn b name" using p(1,4,10) f(1,3,5) t(1) h nm by (simp add: stands_def on_disk_def)
  moreover have "data_of d' b = data_of d b" using f(4) by (simp add: keeps_def)
  ultimately show thesis using that [OF d(1) _ f(2,6) _ k] by blast
qed

text \<open>Closing a file that was new: the two steps of its entry with the blocks in between.\<close>

lemma close_new_effect:
  assumes s: "stands d bs n V sbs m k CAFS_SNLIST_ITEM_STATUS_OPEN sn b name" and opn: "status_of d b = BLOCK_STATUS_OPEN"
    and h: "h_hdr_block h = b" "h_serialno_addr h = slot_addr 8 sbs k"
  obtains d' where "close_new_file h d = Some (0, h, d')" "stands d' bs n V sbs m k CAFS_SNLIST_ITEM_STATUS_CLOSED sn b name"
    "data_of d' b = data_of d b" "all_closed d' bs n b" "same_dev d d'"
    "\<And>c. c < cl_block_gettotal d \<Longrightarrow> c \<notin> set bs \<Longrightarrow> c \<notin> fi_block ` set (held (seg_entries d bs n)) \<Longrightarrow> c \<noteq> b \<Longrightarrow> c \<notin> set sbs
      \<Longrightarrow> blk d' c = blk d c"
proof -
  note p = standsD [OF s]
  have ow: "overwrites CAFS_SNLIST_ITEM_STATUS_CLOSING CAFS_SNLIST_ITEM_STATUS_OPEN"
    "overwrites CAFS_SNLIST_ITEM_STATUS_CLOSED CAFS_SNLIST_ITEM_STATUS_CLOSING" by (simp_all add: overwrites_def)
  obtain d1 where d1: "cl_serialno_setstatus (slot_addr 8 sbs k) CAFS_SNLIST_ITEM_STATUS_CLOSING d = Some (0, d1)"
    "stands d1 bs n V sbs m k CAFS_SNLIST_ITEM_STATUS_CLOSING sn b name" "same_dev d d1" "seg_entries d1 bs n = seg_entries d bs n"
    "\<And>c. c < cl_block_gettotal d \<Longrightarrow> c \<notin> set sbs \<Longrightarrow> blk d1 c = blk d c"
    by (rule stands_setstatus [OF s ow(1)]) (simp, rule that, assumption+)
  note g1 = same_dev_geometry [OF d1(3)]
  have b1: "blk d1 b = blk d b" using d1(5) header_type [OF p(5)] p(7) by simp
  have opn1: "status_of d1 b = BLOCK_STATUS_OPEN" using opn b1 by (simp add: status_blk)
  obtain d2 where d2: "mark_file_closed b d1 = Some (0, d2)" "stands d2 bs n V sbs m k CAFS_SNLIST_ITEM_STATUS_CLOSING sn b name" "same_dev d1 d2"
    "all_closed d2 bs n b" "data_of d2 b = data_of d1 b"
    "\<And>c. c < cl_block_gettotal d1 \<Longrightarrow> c \<notin> set bs \<Longrightarrow> c \<notin> fi_block ` set (held (seg_entries d1 bs n)) \<Longrightarrow> c \<noteq> b \<Longrightarrow> blk d2 c = blk d1 c"
    by (rule stands_shut [OF d1(2) opn1]) (rule that, assumption+)
  note g2 = same_dev_geometry [OF d2(3)] and p2 = standsD [OF d2(2)]
  obtain d3 where d3: "cl_serialno_setstatus (slot_addr 8 sbs k) CAFS_SNLIST_ITEM_STATUS_CLOSED d2 = Some (0, d3)"
    "stands d3 bs n V sbs m k CAFS_SNLIST_ITEM_STATUS_CLOSED sn b name" "same_dev d2 d3" "seg_entries d3 bs n = seg_entries d2 bs n"
    "\<And>c. c < cl_block_gettotal d2 \<Longrightarrow> c \<notin> set sbs \<Longrightarrow> blk d3 c = blk d2 c"
    by (rule stands_setstatus [OF d2(2) ow(2)]) (simp, rule that, assumption+)
  have k3: "status_of d3 c = status_of d2 c" if "c < cl_block_gettotal d2" "c \<notin> set sbs" for c using d3(5) [OF that] by (simp add: status_blk)
  have hb2: "b < cl_block_gettotal d2" using header_type [OF p2(5)] by simp
  have "status_of d3 c = BLOCK_STATUS_CLOSED" if "c \<in> set bs" for c
    using d2(4) k3 [of c] p2(4) wf_blocks [OF file_disk_facts(4) [OF p2(2)] that] that by (auto simp: all_closed_def)
  moreover have "status_of d3 (fi_block e) = BLOCK_STATUS_CLOSED" if "e \<in> set (held (seg_entries d2 bs n))" for e
    using d2(4) k3 [of "fi_block e"] p2(9) [of "fi_block e"] held_block(1) [OF p2(2) that] that by (auto simp: all_closed_def)
  ultimately have a3: "all_closed d3 bs n b"
    using d2(4) k3 [OF hb2 p2(7)] by (simp add: all_closed_def d3(4))
  have dat: "data_of d3 b = data_of d b" using d3(5) [OF hb2 p2(7)] d2(5) b1 by (simp add: data_of_def)
  have run: "close_new_file h d = Some (0, h, d3)" using d1(1) d2(1) d3(1) h by (simp add: close_new_file_def)
  have out: "blk d3 c = blk d c" if "c < cl_block_gettotal d" "c \<notin> set bs" "c \<notin> fi_block ` set (held (seg_entries d bs n))" "c \<noteq> b" "c \<notin> set sbs" for c
    using d3(5) [of c] d2(6) [of c] d1(5) [of c] that g1 g2 d1(4) by simp
  show thesis by (rule that [OF run d3(2) dat a3 same_dev_trans [OF same_dev_trans [OF d1(3) d2(3)] d3(3)] out])
qed

text \<open>From the handle: the segment in RAM is saved and the size written before.\<close>

lemma MAX_FILE_small: "MAX_FILE < 2 ^ 31"
  by simp

definition tail_free :: "flash \<Rightarrow> nat \<Rightarrow> bool" where
  "tail_free d b \<longleftrightarrow> status_of d b = BLOCK_STATUS_OPEN \<and> take 4 (drop 28 (data_of d b)) = replicate 4 0xFF"

lemma stands_size:
  assumes s: "stands d bs n V sbs m k st sn b name" and b: "tail_free d b" and name: "length name < 26" and sz: "sz \<le> MAX_FILE"
  obtains d' where "cl_dev_write (get_cl_block_data_addr b + 28) (size_bytes (int sz)) d = Some (4, d')" "stands d' bs n V sbs m k st sn b name"
    "hdr_size (data_of d' b) = int sz" "status_of d' b = BLOCK_STATUS_OPEN" "same_dev d d'" "seg_entries d' bs n = seg_entries d bs n"
    "\<And>c. c < cl_block_gettotal d \<Longrightarrow> c \<noteq> b \<Longrightarrow> blk d' c = blk d c"
proof -
  note p = standsD [OF s]
  note f = file_disk_facts [OF p(2)]
  have t: "take 4 (drop 28 (data_of d b)) = replicate 4 0xFF" and st: "status_of d b = BLOCK_STATUS_OPEN" using b by (simp_all add: tail_free_def)
  have sz31: "sz < 2 ^ 31" using sz MAX_FILE_small by simp
  obtain d' where d: "cl_dev_write (get_cl_block_data_addr b + 28) (size_bytes (int sz)) d = Some (4, d')" "sound d'" "same_dev d d'"
    "is_header d' b sn name (hd bs)" "hdr_size (data_of d' b) = int sz" "status_of d' b = status_of d b"
    "\<And>c. c < cl_block_gettotal d \<Longrightarrow> c \<noteq> b \<Longrightarrow> blk d' c = blk d c"
    by (rule header_size_effect [OF f(1) p(5) t name sz31]) (rule that, assumption+)
  note g = same_dev_geometry [OF d(3)]
  have e: "blk d' (fi_block e) = blk d (fi_block e)" if "e \<in> set (held (seg_entries d bs n))" for e
  proof -
    have "type_of d (fi_block e) = BLOCK_TYPE_FILE_DATA" using file_blocks(2) [OF p(2)] that by blast
    then have "fi_block e \<noteq> b" using header_type [OF p(5)] by auto
    with d(7) [OF held_block(1) [OF p(2) that]] show ?thesis by simp
  qed
  have bb: "blk d' c = blk d c" if "c \<in> set bs" for c using d(7) wf_blocks [OF f(4) that] p(8) that by blast
  note o = on_disk_keeps [OF p(1) d(2,3) keeps_blk [OF bb] keeps_blk [OF e]]
  have tb: "keeps d d' c" if "c \<in> set sbs" for c using d(7) table_blocks(1) [OF p(3) that] p(7) that by (auto intro!: keeps_blk)
  note tab = in_table_keeps [OF p(3) g(2) g(7) tb]
  have nm: "only_name d' sbs m k b name"
    by (rule only_name_keeps [OF p(6) g(2)]) (use d(7) tab(2) in \<open>auto intro: keeps_blk\<close>)
  have "serial_of d' (hd bs) = serial_of d (hd bs)" using bb [OF f(8)] by (simp add: serial_blk)
  then have "stands d' bs n V sbs m k st sn b name" using o(1) p(4,10) tab(1) d(4) nm by (simp add: stands_def)
  from that [OF d(1) this d(5) _ d(3) o(2) d(7)] d(6) st show thesis by simp
qed

lemma close_file_effect:
  assumes o: "opened h d bs n V" and sz: "h_size h = int len" "len \<le> MAX_FILE" and e: "entered name h bs d"
    and a: "h_amode h AND W_OK \<noteq> 0" and room: "2 \<le> card (free_blocks d)"
  obtains h' d1 bs1 n1 sbs m d' where "cl_file_close h d = Some (0, h', d')" "filed name (file_bytes V len) d'"
    "leaves d bs d1 bs1" "file_disk d1 bs1 n1" "sn_list d1 sbs m" "same_dev d1 d'" "sound d'"
    "\<And>c. c < cl_block_gettotal d1 \<Longrightarrow> c \<notin> set bs1 \<Longrightarrow> c \<notin> fi_block ` set (held (seg_entries d1 bs1 n1))
      \<Longrightarrow> c \<noteq> h_hdr_block h \<Longrightarrow> c \<notin> set sbs \<Longrightarrow> blk d' c = blk d1 c"
    "live d1 (h_hdr_block h)" "type_of d1 (h_hdr_block h) = BLOCK_TYPE_FILE_HDR" "card (free_blocks d) \<le> card (free_blocks d') + 2"
proof -
  have fd: "file_disk d bs n" using o by (simp add: opened_def)
  obtain t x d1 bs1 n1 where s: "cl_file_savesegment h d = Some (0, set_ram_status t (h\<lparr>h_mtime := x\<rparr>), d1)" "on_disk d1 bs1 n1 V"
    "hd bs1 = h_list_block h" "leaves d bs d1 bs1" "card (free_blocks d) \<le> card (free_blocks d1) + 2"
    by (rule save_opened [OF o room])
  let ?h = "set_ram_status t (h\<lparr>h_mtime := x\<rparr>)" and ?b = "h_hdr_block h"
  have "listed h d bs" using o by (simp add: opened_def)
  from leaves_listed [OF this s(4)] have ls: "listed ?h d1 bs1" by (simp add: listed_def)
  define sn where "sn = serial_of d1 (hd bs1)"
  have "entered name ?h bs1 d1" by (rule entered_next [OF e fd s(4)]) simp
  then obtain sbs m k where t: "in_table d1 sbs m k CAFS_SNLIST_ITEM_STATUS_OPEN sn ?b"
    "h_serialno_addr h = slot_addr 8 sbs k" "set sbs \<inter> set bs1 = {}" "is_header d1 ?b sn name (hd bs1)" "tail_free d1 ?b"
    "only_name d1 sbs m k ?b name" "length name < 26" "sn \<noteq> SERIALNO_INVALID" "sn \<noteq> CL_SERIALNO_LIST"
    unfolding entered_def Let_def tail_free_def sn_def [symmetric] by auto
  have st1: "stands d1 bs1 n1 V sbs m k CAFS_SNLIST_ITEM_STATUS_OPEN sn ?b name" using s(2) t by (simp add: stands_def sn_def)
  obtain d2 where d2: "cl_dev_write (get_cl_block_data_addr ?b + 28) (size_bytes (int len)) d1 = Some (4, d2)"
    "stands d2 bs1 n1 V sbs m k CAFS_SNLIST_ITEM_STATUS_OPEN sn ?b name"
    "hdr_size (data_of d2 ?b) = int len" "status_of d2 ?b = BLOCK_STATUS_OPEN" "same_dev d1 d2" "seg_entries d2 bs1 n1 = seg_entries d1 bs1 n1"
    "\<And>c. c < cl_block_gettotal d1 \<Longrightarrow> c \<noteq> ?b \<Longrightarrow> blk d2 c = blk d1 c"
    by (rule stands_size [OF st1 t(5,7) sz(2)]) (rule that, assumption+)
  note p1 = standsD [OF st1] and p2 = standsD [OF d2(2)] and g2 = same_dev_geometry [OF d2(5)]
  have get: "cl_serialno_get sn CAFS_SNLIST_ITEM_STATUS_CLOSED d2 = Some (BLOCK_INVALID, None, d2)"
    using table_lookup [OF file_disk_facts(2) [OF p2(2)] p2(3), of CAFS_SNLIST_ITEM_STATUS_CLOSED] by simp
  obtain d3 where d3: "close_new_file ?h d2 = Some (0, ?h, d3)" "stands d3 bs1 n1 V sbs m k CAFS_SNLIST_ITEM_STATUS_CLOSED sn ?b name"
    "data_of d3 ?b = data_of d2 ?b" "all_closed d3 bs1 n1 ?b" "same_dev d2 d3"
    "\<And>c. c < cl_block_gettotal d2 \<Longrightarrow> c \<notin> set bs1 \<Longrightarrow> c \<notin> fi_block ` set (held (seg_entries d2 bs1 n1)) \<Longrightarrow> c \<noteq> ?b \<Longrightarrow> c \<notin> set sbs
      \<Longrightarrow> blk d3 c = blk d2 c"
    by (rule close_new_effect [OF d2(2,4), of ?h]) (simp, simp add: t(2), rule that, assumption+)
  note p3 = standsD [OF d3(2)]
  have run: "cl_file_close h d = Some (0, ?h, d3)"
    using a s(1) sz(1) d2(1) get d3(1) ls by (simp add: cl_file_close_def listed_def sn_def)
  have fl: "filed name (file_bytes V len) d3"
    unfolding filed_def Let_def
    using p3 d3(3,4) d2(3) sz(2) t(8,9)
    by (intro exI [of _ bs1] exI [of _ n1] exI [of _ V] exI [of _ sbs] exI [of _ m] exI [of _ k] exI [of _ ?b])
       (simp add: file_bytes_def)
  have out: "blk d3 c = blk d1 c" if "c < cl_block_gettotal d1" "c \<notin> set bs1" "c \<notin> fi_block ` set (held (seg_entries d1 bs1 n1))"
      "c \<noteq> ?b" "c \<notin> set sbs" for c
    using d3(6) [of c] d2(6,7) g2 that by simp
  have hb: "live d1 ?b" "type_of d1 ?b = BLOCK_TYPE_FILE_HDR" using header_type [OF t(4)] by simp_all
  have "card (free_blocks d1) \<le> card (free_blocks d3) + length ([] :: nat list)"
  proof (rule free_blocks_left)
    show "cl_block_gettotal d3 = cl_block_gettotal d1" using same_dev_geometry [OF d3(5)] g2 by simp
    fix c assume c: "c < cl_block_gettotal d1" "\<not> live d1 c"
    have "c \<notin> set bs1" "c \<notin> fi_block ` set (held (seg_entries d1 bs1 n1))" "c \<noteq> ?b" "c \<notin> set sbs"
      using c(2) wf_blocks [OF file_disk_facts(4) [OF p1(2)]] held_block(2) [OF p1(2)] hb(1) table_blocks(2) [OF t(1)] by auto
    then show "spared d1 d3 c" using out [OF c(1)] by (simp add: spared_same)
  qed
  then have fr: "card (free_blocks d) \<le> card (free_blocks d3) + 2" using s(5) by simp
  have sl: "sn_list d1 sbs m" using t(1) by (simp add: in_table_def)
  show thesis by (rule that [OF run fl s(4) p1(2) sl same_dev_trans [OF d2(5) d3(5)] file_disk_facts(1) [OF p3(2)] out hb fr])
qed

subsection \<open>Other open files\<close>

text \<open>Two lists with different heads share no block.\<close>

lemma chains_apart:
  assumes geo: "geometry d" and ch: "chain d BLOCK_INVALID bs" "chain d BLOCK_INVALID cs" and heads: "hd bs \<noteq> hd cs"
  shows "set bs \<inter> set cs = {}"
proof (rule ccontr)
  assume "set bs \<inter> set cs \<noteq> {}"
  then obtain i j where ij: "i < length bs" "j < length cs" "bs ! i = cs ! j" by (metis disjoint_iff in_set_conv_nth)
  have "rank d (bs ! i) i" "rank d (cs ! j) j" using chain_rank [OF geo ch(1), of 0 i] chain_rank [OF geo ch(2), of 0 j] ij by simp_all
  then have "i = j" unfolding ij(3) by (rule rank_unique)
  have "bs ! i = cs ! i \<Longrightarrow> i < length bs \<Longrightarrow> i < length cs \<Longrightarrow> bs ! 0 = cs ! 0" for i
  proof (induction i)
    case (Suc i)
    then have "bs ! i = cs ! i" using chain_links [OF ch(1), of "Suc i"] chain_links [OF ch(2), of "Suc i"] by simp
    with Suc show ?case by simp
  qed simp
  then have "bs ! 0 = cs ! 0" using ij \<open>i = j\<close> by blast
  with heads chain_nonempty [OF ch(1)] chain_nonempty [OF ch(2)] show False by (simp add: hd_conv_nth)
qed

lemma close_spares:
  assumes g: "opened g d cs l W" and ap: "set bs \<inter> set cs = {}" "\<forall>e\<in>set (held (seg_entries d cs l)). fi_block e \<notin> set bs"
    and other: "hd cs \<noteq> list_block_of d" "serial_of d (hd cs) \<noteq> serial_of d (hd bs)"
    and lv: "leaves d bs d1 bs1" and fd1: "file_disk d1 bs1 n1" and sl: "sn_list d1 sbs m" and d': "same_dev d1 d'" "sound d'"
    and out: "\<And>c. c < cl_block_gettotal d1 \<Longrightarrow> c \<notin> set bs1 \<Longrightarrow> c \<notin> fi_block ` set (held (seg_entries d1 bs1 n1))
      \<Longrightarrow> c \<noteq> b \<Longrightarrow> c \<notin> set sbs \<Longrightarrow> blk d' c = blk d1 c"
    and b: "live d1 b" "type_of d1 b = BLOCK_TYPE_FILE_HDR"
  shows "opened g d' cs l W"
proof -
  note o = opened_frame [OF g leaves_passes [OF lv] fd1 ap]
  have fc: "file_disk d1 cs l" using o(1) by (simp add: opened_def)
  note f = file_disk_facts [OF fc] and dv = same_dev_geometry [OF d'(1)]
  have wf: "wf_list d1 8 cl_serialno_isfree sbs m" and hs: "hd sbs = list_block_of d1" using sl by (simp_all add: sn_list_def)
  have cs0: "hd cs < cl_block_gettotal d" "live d (hd cs)" "hd cs \<notin> set bs"
    using file_disk_facts(6-8) [of d cs l] g ap(1) by (auto simp: opened_def)
  have b0: "blk d1 (hd cs) = blk d (hd cs)" using lv cs0 by (simp add: leaves_def passes_def)
  have "list_block_of d1 = list_block_of d" using lv by (simp add: leaves_def list_block_of_def cl_dev_getlist_block_def)
  then have "set sbs \<inter> set cs = {}"
    using chains_apart [OF f(2), of sbs cs] wf f(4) hs other(1) by (auto simp: wf_list_def)
  then have "keeps d1 d' c" if "c \<in> set cs" for c
    using out [of c] wf_blocks [OF f(4) that] o(2) file_blocks [OF fd1, of c] file_blocks(1) [OF fc that] b(2) that by (auto intro!: keeps_blk)
  moreover have "keeps d1 d' (fi_block e)" if e: "e \<in> set (held (seg_entries d1 cs l))" for e
  proof -
    note h = held_block [OF fc e]
    have ow: "owned d1 cs (seg_entries d1 cs l)" "owned d1 bs1 (seg_entries d1 bs1 n1)" using fc fd1 by (simp_all add: file_disk_def)
    note oe = owned_block [OF ow(1) e]
    have "serial_of d1 (hd cs) \<noteq> serial_of d1 (hd bs1)" using other(2) b0 lv by (simp add: leaves_def serial_blk)
    then have "fi_block e \<notin> fi_block ` set (held (seg_entries d1 bs1 n1))" using owned_block(4) [OF ow(2)] oe(4) by auto
    moreover have "fi_block e \<notin> set bs1" using o(3,4) e by simp
    moreover have "fi_block e \<notin> set sbs" using list_type(1) [OF wf] oe(3) by blast
    moreover have "fi_block e \<noteq> b" using oe(3) b(2) by force
    ultimately show ?thesis using out [OF h(1)] by (auto intro!: keeps_blk)
  qed
  moreover have "per_section d' \<le> 41" using f(3) dv by simp
  ultimately have k: "file_disk d' cs l" "seg_data d' cs l = seg_data d1 cs l"
    using file_disk_keeps [OF fc d'(2) dv(2)] by blast+
  have "serial_of d' (hd cs) = serial_of d1 (hd cs)" using \<open>\<And>c. c \<in> set cs \<Longrightarrow> keeps d1 d' c\<close> f(8) by (simp add: keeps_def)
  with o(1) k show ?thesis by (simp add: opened_def listed_def)
qed

subsection \<open>Opening it again\<close>

lemma lookup_filed:
  assumes geo: "geometry (cf_dev c)" and t: "in_table (cf_dev c) sbs m k CAFS_SNLIST_ITEM_STATUS_CLOSED sn b"
    and h: "is_header (cf_dev c) b sn name lb" and nm: "only_name (cf_dev c) sbs m k b name"
    and sn: "sn \<noteq> SERIALNO_INVALID" "sn \<noteq> CL_SERIALNO_LIST"
  shows "cl_dir_exists name c = Some (CAFS_DIR_PATH_EXISTS, sn, c)"
proof -
  let ?d = "cf_dev c"
  have sl: "sn_list ?d sbs m" and k: "k < m" using t by (auto simp: in_table_def)
  from sl have wf: "wf_list ?d 8 cl_serialno_isfree sbs m" and lb: "list_block_of ?d = hd sbs" by (auto simp: sn_list_def)
  let ?f = "\<lambda>x a s. if sn_serialno (bytes_snitem x) = sn then Inl (Some sn) else Inr s :: (u32 option) + unit"
  have body: "lookup_body name x a l s ?d = Some (case ?f x a s of Inl v \<Rightarrow> Inl (v, ?d) | Inr s' \<Rightarrow> Inr (l, s', ?d))"
    if x: "x \<in> set (contents ?d 8 sbs m)" for x a l s
  proof -
    obtain j where j: "j < m" "bytes_snitem x = sn_entries ?d sbs m ! j"
      using x by (auto simp: sn_entries_def contents_def)
    have load: "cl_block_load y ?d = Some (bytes_data (blk ?d y))" if "y < cl_block_gettotal ?d" for y by (rule load_total [OF geo that])
    show ?thesis
    proof (cases "j = k")
      case True
      then have e: "sn_status (bytes_snitem x) = CAFS_SNLIST_ITEM_STATUS_CLOSED" "sn_serialno (bytes_snitem x) = sn" "sn_block (bytes_snitem x) = b"
        using t j(2) by (simp_all add: in_table_def Let_def)
      have "CafsFs.strncmp_eq FS_NAME_MAX name (hdr_name (data_of ?d b))" using h by (simp add: is_header_def CafsFs.strncmp_eq_def)
      with e sn(2) load [of b] h show ?thesis by (simp add: lookup_body_def Let_def is_header_def)
    next
      case False
      then have ne: "sn_serialno (bytes_snitem x) \<noteq> sn" using t j by (simp add: in_table_def)
      have o: "sn_block (bytes_snitem x) < cl_block_gettotal ?d \<and> \<not> CafsFs.strncmp_eq FS_NAME_MAX name (hdr_name (data_of ?d (sn_block (bytes_snitem x))))"
        if "sn_serialno (bytes_snitem x) \<noteq> CL_SERIALNO_LIST" "sn_status (bytes_snitem x) = CAFS_SNLIST_ITEM_STATUS_CLOSED"
        using nm False that j unfolding only_name_def Let_def by simp
      show ?thesis using ne o load by (auto simp: lookup_body_def Let_def)
    qed
  qed
  obtain l w where lw: "cl_list_init (hd sbs) 8 cl_serialno_isfree ?d = (0, l)" "while_next (lookup_body name) l () ?d = Some w"
    "scan_result ?d 8 (last sbs) (case scan_items ?f (map (\<lambda>k. (slot ?d 8 sbs k, slot_addr 8 sbs k)) [0 ..< m]) () of Inl v \<Rightarrow> Inl v
       | Inr s' \<Rightarrow> Inr (if m < calc_total_items 8 * length sbs then Some (slot_addr 8 sbs m) else None, s')) w"
    by (rule while_next_wf [OF geo _ wf, where f = ?f and body = "lookup_body name" and s = "()"]) (use body in simp_all)
  have hit: "x \<in> set xs \<Longrightarrow> sn_serialno (bytes_snitem (fst x)) = sn \<Longrightarrow> scan_items ?f xs () = Inl (Some sn)" for x xs
    by (induction xs) auto
  have "sn_serialno (bytes_snitem (slot ?d 8 sbs k)) = sn" using t k by (simp add: in_table_def Let_def sn_entries_def contents_def)
  then have "scan_items ?f (map (\<lambda>k. (slot ?d 8 sbs k, slot_addr 8 sbs k)) [0 ..< m]) () = Inl (Some sn)"
    using k by (intro hit [of "(slot ?d 8 sbs k, slot_addr 8 sbs k)"]) auto
  with lw(3) have "w = Inl (Some sn, ?d)" by (simp add: scan_result_def)
  moreover have "cl_snlist_init (cl_serialno_getlistblock ?d) ?d = (0, l)"
    using lw(1) lb by (simp add: cl_snlist_init_def cl_serialno_getlistblock_def)
  ultimately show ?thesis using lw(2) sn(1) by (simp add: cl_dir_exists_def cl_dir_lookup_def Let_def)
qed

lemma file_open_effect:
  assumes o: "on_disk d bs n V" and t: "in_table d sbs m k CAFS_SNLIST_ITEM_STATUS_CLOSED sn b"
    and h: "is_header d b sn name (hd bs)" and sz: "hdr_size (data_of d b) = int len" and ser: "serial_of d (hd bs) = sn"
    and am: "amode AND W_OK = 0"
  obtains h' where "cl_file_open sn amode tr g d = Some (0, h', d)" "opened h' d bs n V" "h_size h' = int len" "h_amode h' = amode"
proof -
  have fd: "file_disk d bs n" using o by (simp add: on_disk_def)
  note f = file_disk_facts [OF fd]
  from table_lookup [OF f(2) t, of CAFS_SNLIST_ITEM_STATUS_CLOSED] obtain a where
    get: "cl_serialno_get sn CAFS_SNLIST_ITEM_STATUS_CLOSED d = Some (b, Some a, d)" by auto
  have b: "b < cl_block_gettotal d" "b \<noteq> BLOCK_INVALID" using h block_less_invalid [OF f(2), of b] by (auto simp: is_header_def)
  let ?x = "bytes_data (blk d b)"
  define h5 where "h5 = g\<lparr>h_serialno_addr := a, h_data := ?x, h_amode := amode, h_hdr_block := b, h_list_block := hd bs, h_op := None, h_size := int len\<rparr>"
  have l: "listed h5 d bs" using h ser by (simp add: listed_def h5_def is_header_def)
  obtain h6 where h6: "cl_file_loadsegment (int 0) h5 d = Some (0, h6)" "opened h6 d bs n V" "h_segment h6 = 0"
    "h_op h6 = h_op h5" "h_bytes_left h6 = h_bytes_left h5" "h_size h6 = h_size h5" "h_amode h6 = h_amode h5" "h_list_block h6 = h_list_block h5"
    by (rule load_opened [OF o l, of 0]) (simp, rule that, assumption+)
  have "cl_file_open sn amode tr g d = Some (0, h6, d)"
    using get b load_total [OF f(2) b(1)] h sz am h6(1) by (simp add: cl_file_open_def Let_def is_header_def h5_def)
  then show thesis by (rule that [OF _ h6(2)]) (simp_all add: h6(6,7) h5_def)
qed

subsection \<open>The system calls\<close>

text \<open>The closed files name header blocks that are in use, and none of them has the name.\<close>

definition name_unused :: "flash \<Rightarrow> nat list \<Rightarrow> nat \<Rightarrow> byte list \<Rightarrow> bool" where
  "name_unused d bs n path \<longleftrightarrow> (\<forall>e\<in>set (sn_entries d bs n).
     sn_serialno e \<noteq> CL_SERIALNO_LIST \<and> sn_status e = CAFS_SNLIST_ITEM_STATUS_CLOSED \<longrightarrow>
       sn_block e < cl_block_gettotal d \<and> live d (sn_block e) \<and> type_of d (sn_block e) = BLOCK_TYPE_FILE_HDR
       \<and> \<not> CafsFs.strncmp_eq FS_NAME_MAX path (hdr_name (data_of d (sn_block e))))"

lemma file_new_entered:
  assumes snd: "sound d" and ps: "per_section d \<le> 41" and sl: "sn_list d bs n" and un: "name_unused d bs n name"
    and new: "sn \<notin> sn_serialno ` set (sn_entries d bs n)" "sn \<noteq> SERIALNO_INVALID" "sn \<noteq> CL_SERIALNO_LIST"
    and first: "first_free d (candidates d sn BLOCK_INVALID) = Some b" "1 \<le> b" "b < cl_block_gettotal d"
    and room: "3 \<le> card (free_blocks d)" and data: "length (bd_data (h_data h)) = 122"
    and name: "length junk = 28" "length name < 26" "0 \<notin> set name"
  obtains lb d' h' where "cl_file_new junk name sn BLOCK_TYPE_FILE_HDR amode h d = Some (0, h', d')"
    "\<And>e p. open_file [lb] h' \<lparr>cf_dev = d', cf_errno = e, cf_open = p\<rparr> []" "entered name h' [lb] d'"
    "passes d bs d' [lb]" "card (free_blocks d) \<le> card (free_blocks d') + 3" "h_amode h' = amode" "h_hdr_block h' = b"
    "serial_of d' lb = sn" "dev_list_block d' = dev_list_block d"
proof -
  have none: "sn_lookup sn CAFS_SNLIST_ITEM_STATUS_OPEN (sn_entries d bs n) = None"
    using new(1) by (auto simp: sn_lookup_def find_None_iff sn_matches_def)
  obtain ao lb d' bs' n' where f: "cl_file_new junk name sn BLOCK_TYPE_FILE_HDR amode h d = Some (0, new_handle h sn amode b lb ao, d')"
    "\<And>e p. open_file [lb] (new_handle h sn amode b lb ao) \<lparr>cf_dev = d', cf_errno = e, cf_open = p\<rparr> []"
    "sound d'" "sn_list d' bs' n'" "sn_entries d' bs' n' = sn_entries d bs n @ [sn_set_checksum
       \<lparr>sn_status = CAFS_SNLIST_ITEM_STATUS_OPEN, sn_serialno = sn, sn_block = b, sn_checksum = 0\<rparr>]"
    "take (length name + 1) (data_of d' b) = name @ [0]" "hdr_content_block (data_of d' b) = lb"
    "passes d bs d' [lb]" "card (free_blocks d) \<le> card (free_blocks d') + 3" "ao = Some (slot_addr 8 bs' n)" "n' = Suc n" "lb \<notin> set bs'" "b \<notin> set bs'"
    "hdr_of d' b = \<lparr>bh_serialno = sn, bh_type = BLOCK_TYPE_FILE_HDR, bh_status = BLOCK_STATUS_OPEN\<rparr>"
    "data_of d' b = new_hdr_bytes junk name lb @ replicate 94 0xFF" "\<And>c. c < cl_block_gettotal d \<Longrightarrow> live d c \<Longrightarrow> c \<notin> set bs \<Longrightarrow> c \<noteq> b \<and> c \<notin> set bs'" "same_dev d d'"
    by (rule file_new_effect [OF snd ps sl none first room data name(1,2)]) (rule that, assumption+)
  let ?h = "new_handle h sn amode b lb ao"
  have tot: "cl_block_gettotal d' = cl_block_gettotal d" using f(8) by (simp add: passes_def)
  obtain n0 V where "opened ?h (cf_dev \<lparr>cf_dev = d', cf_errno = EIO, cf_open = True\<rparr>) [lb] n0 V" by (rule open_fileE [OF f(2) [of EIO True]])
  then have ser: "serial_of d' lb = sn" and lb: "file_disk d' [lb] n0" by (simp_all add: opened_def listed_def new_handle_def)
  have lb16: "lb < 65536" using block_less_invalid [OF file_disk_facts(2) [OF lb], of lb] file_disk_facts(6) [OF lb] by simp
  have tab: "in_table d' bs' n' n CAFS_SNLIST_ITEM_STATUS_OPEN sn b"
    using f(4,11) new(1) unfolding in_table_def f(5) Let_def by (auto simp: nth_append less_Suc_eq)
  have hdr: "status_of d' b = BLOCK_STATUS_OPEN" "type_of d' b = BLOCK_TYPE_FILE_HDR" "serial_of d' b = sn" using f(14) by (simp_all add: hdr_of_def)
  have "hdr_name (data_of d' b) = name" by (rule hdr_name_stored [OF f(6) name(3)])
  then have ih: "is_header d' b sn name lb" using first(3) tot hdr f(7) by (simp add: is_header_def live_def)
  note ln = new_hdr_bytes_parts(1) [OF name(1,2) lb16]
  have tl: "take 4 (drop 28 (data_of d' b)) = replicate 4 0xFF" unfolding f(15) by (simp add: ln)
  have wf: "wf_list d 8 cl_serialno_isfree bs n" using sl by (simp add: sn_list_def)
  have nm: "only_name d' bs' n' n b name" unfolding only_name_def Let_def f(5)
  proof (intro allI impI, elim conjE)
    fix j let ?e = "(sn_entries d bs n @ [sn_set_checksum
       \<lparr>sn_status = CAFS_SNLIST_ITEM_STATUS_OPEN, sn_serialno = sn, sn_block = b, sn_checksum = 0\<rparr>]) ! j"
    assume j: "j < n'" "j \<noteq> n" "sn_serialno ?e \<noteq> CL_SERIALNO_LIST" "sn_status ?e = CAFS_SNLIST_ITEM_STATUS_CLOSED"
    then have "j < n" using f(11) by simp
    then have m: "?e \<in> set (sn_entries d bs n)" by (simp add: nth_append)
    with un j(3,4) have o: "sn_block ?e < cl_block_gettotal d" "live d (sn_block ?e)" "type_of d (sn_block ?e) = BLOCK_TYPE_FILE_HDR"
      "\<not> CafsFs.strncmp_eq FS_NAME_MAX name (hdr_name (data_of d (sn_block ?e)))" unfolding name_unused_def by blast+
    have "sn_block ?e \<notin> set bs" using list_type(2) [OF wf] o(3) by blast
    with o f(8) f(16) [OF o(1,2)] have "blk d' (sn_block ?e) = blk d (sn_block ?e)" "sn_block ?e \<noteq> b" by (simp_all add: passes_def)
    with o tot live_blk [of d' "sn_block ?e" d] show "sn_block ?e < cl_block_gettotal d' \<and> live d' (sn_block ?e) \<and> type_of d' (sn_block ?e) = BLOCK_TYPE_FILE_HDR
        \<and> sn_block ?e \<noteq> b \<and> \<not> CafsFs.strncmp_eq FS_NAME_MAX name (hdr_name (data_of d' (sn_block ?e)))"
      by (simp add: type_blk data_of_def)
  qed
  have hs: "h_hdr_block ?h = b" "h_serialno_addr ?h = slot_addr 8 bs' n" "h_amode ?h = amode" by (simp_all add: new_handle_def f(10))
  have en: "entered name ?h [lb] d'"
    unfolding entered_def Let_def hs list.sel ser using tab ih hdr(1) tl nm name(2) new(2,3) f(12)
    by (intro exI [of _ bs'] exI [of _ n'] exI [of _ n]) simp
  show thesis by (rule that [OF f(1,2) en f(8,9) hs(3,1) ser same_dev_geometry(7) [OF f(17)]])
qed

lemma lite_close_effect:
  assumes f: "open_file bs h c xs" and e: "entered name h bs (cf_dev c)" and a: "h_amode h AND W_OK \<noteq> 0"
    and room: "2 \<le> card (free_blocks (cf_dev c))"
  obtains d' where "cafs_lite_close h c = Some (0, c\<lparr>cf_dev := d'\<rparr>)" "filed name xs d'"
    "\<And>g cs zs. open_apart bs cs g c zs \<Longrightarrow> hd cs \<noteq> list_block_of (cf_dev c) \<Longrightarrow> serial_of (cf_dev c) (hd cs) \<noteq> serial_of (cf_dev c) (hd bs)
      \<Longrightarrow> open_file cs g (c\<lparr>cf_dev := d'\<rparr>) zs"
    "card (free_blocks (cf_dev c)) \<le> card (free_blocks d') + 2"
proof -
  from open_fileE [OF f] obtain n V where o: "opened h (cf_dev c) bs n V" and sz: "h_size h = int (length xs)"
    and mx: "length xs \<le> MAX_FILE" and xs: "xs = file_bytes V (length xs)" by blast
  obtain h' d1 bs1 n1 sbs m d' where c: "cl_file_close h (cf_dev c) = Some (0, h', d')" "filed name (file_bytes V (length xs)) d'"
    "leaves (cf_dev c) bs d1 bs1" "file_disk d1 bs1 n1" "sn_list d1 sbs m" "same_dev d1 d'" "sound d'"
    "\<And>x. x < cl_block_gettotal d1 \<Longrightarrow> x \<notin> set bs1 \<Longrightarrow> x \<notin> fi_block ` set (held (seg_entries d1 bs1 n1))
      \<Longrightarrow> x \<noteq> h_hdr_block h \<Longrightarrow> x \<notin> set sbs \<Longrightarrow> blk d' x = blk d1 x"
    "live d1 (h_hdr_block h)" "type_of d1 (h_hdr_block h) = BLOCK_TYPE_FILE_HDR" "card (free_blocks (cf_dev c)) \<le> card (free_blocks d') + 2"
    by (rule close_file_effect [OF o sz mx e a room]) (rule that, assumption+)
  have "open_file cs g (c\<lparr>cf_dev := d'\<rparr>) zs"
    if ap: "open_apart bs cs g c zs" "hd cs \<noteq> list_block_of (cf_dev c)" "serial_of (cf_dev c) (hd cs) \<noteq> serial_of (cf_dev c) (hd bs)" for g cs zs
  proof -
    from ap(1) obtain l W where g: "opened g (cf_dev c) cs l W" "0 \<le> h_size g" "h_size g \<le> int MAX_FILE" "zs = file_bytes W (nat (h_size g))"
      "set bs \<inter> set cs = {}" "\<forall>e\<in>set (held (seg_entries (cf_dev c) cs l)). fi_block e \<notin> set bs" by (auto simp: open_apart_def)
    have "opened g d' cs l W" by (rule close_spares [OF g(1,5,6) ap(2,3) c(3-10)])
    with g(2-4) show ?thesis by (auto simp: open_file_def)
  qed
  moreover have "cafs_lite_close h c = Some (0, c\<lparr>cf_dev := d'\<rparr>)" using c(1) by (simp add: cafs_lite_close_def)
  ultimately show thesis using that c(2,11) xs by metis
qed

text \<open>Opening it for reading writes nothing.\<close>

lemma lite_reopen_effect:
  assumes f: "filed name xs (cf_dev c)" and fl: "of_accmode flags = O_RDONLY" "\<not> of_creat flags" "\<not> of_trunc flags"
  obtains h bs where "cafs_lite_open (Some g) junk name flags c = Some (0, Some h, c)" "open_file bs h c xs" "h_amode h = R_OK"
proof -
  from f obtain bs n V sbs m k b where o: "on_disk (cf_dev c) bs n V" "xs = file_bytes V (length xs)" "length xs \<le> MAX_FILE"
    "in_table (cf_dev c) sbs m k CAFS_SNLIST_ITEM_STATUS_CLOSED (serial_of (cf_dev c) (hd bs)) b"
    "is_header (cf_dev c) b (serial_of (cf_dev c) (hd bs)) name (hd bs)" "hdr_size (data_of (cf_dev c) b) = int (length xs)"
    "only_name (cf_dev c) sbs m k b name" "serial_of (cf_dev c) (hd bs) \<noteq> SERIALNO_INVALID" "serial_of (cf_dev c) (hd bs) \<noteq> CL_SERIALNO_LIST"
    unfolding filed_def Let_def by blast
  have geo: "geometry (cf_dev c)" using o(1) file_disk_facts(2) by (auto simp: on_disk_def)
  have am: "sysfs_getamode flags = R_OK" using fl by (simp add: sysfs_getamode_def)
  have ro: "R_OK AND W_OK = 0" by simp
  obtain h' where h: "cl_file_open (serial_of (cf_dev c) (hd bs)) R_OK (of_trunc flags) g (cf_dev c) = Some (0, h', cf_dev c)"
    "opened h' (cf_dev c) bs n V" "h_size h' = int (length xs)" "h_amode h' = R_OK"
    by (rule file_open_effect [OF o(1,4,5,6) refl ro]) (rule that, assumption+)
  have "cafs_lite_open (Some g) junk name flags c = Some (0, Some h', c)"
    using lookup_filed [OF geo o(4,5,7,8,9)] fl h(1,3) by (simp add: cafs_lite_open_def am Let_def)
  moreover have "open_file bs h' c xs" using open_fileI [OF h(2,3) o(3)] o(2) by simp
  ultimately show thesis using h(4) by (rule that)
qed

end
