(* ===== verification/CafsMount.thy ===== *)
theory CafsMount
  imports FileStore CafsClose
begin

section \<open>CAFS lite as a mounted file system\<close>

text \<open>
  The entry of \<open>include/cafs_lite.h\<close> for the table of file systems: the operations of \<open>CafsFs\<close> on handles that
  are addresses. The state holds the disk and what the memory of each open handle contains.
\<close>

record cafs_mount =
  cm_dev :: flash
  cm_open :: bool
  cm_handles :: "u32 \<Rightarrow> cl_handle option"

definition to_cafs :: "cafs_mount sys \<Rightarrow> cafs" where
  "to_cafs s = \<lparr>cf_dev = cm_dev (sys_world s), cf_errno = sys_errno s, cf_open = cm_open (sys_world s)\<rparr>"

definition of_cafs :: "cafs \<Rightarrow> cafs_mount sys \<Rightarrow> cafs_mount sys" where
  "of_cafs c s = s\<lparr>sys_errno := cf_errno c, sys_world := (sys_world s)\<lparr>cm_dev := cf_dev c, cm_open := cf_open c\<rparr>\<rparr>"

definition set_handle :: "u32 \<Rightarrow> cl_handle option \<Rightarrow> cafs_mount sys \<Rightarrow> cafs_mount sys" where
  "set_handle a h s = s\<lparr>sys_world := (sys_world s)\<lparr>cm_handles := (cm_handles (sys_world s))(a := h)\<rparr>\<rparr>"

definition to_oflags :: "flags \<Rightarrow> oflags" where
  "to_oflags fl = \<lparr>of_accmode = (case fl_acc fl of RDONLY \<Rightarrow> O_RDONLY | WRONLY \<Rightarrow> O_WRONLY | RDWR \<Rightarrow> O_RDWR | ACC_OTHER \<Rightarrow> O_OTHER),
     of_creat = fl_creat fl, of_excl = fl_excl fl, of_trunc = fl_trunc fl, of_append = fl_append fl\<rparr>"

definition to_bytes :: "string \<Rightarrow> byte list" where
  "to_bytes s = map of_char s"

definition of_bytes :: "byte list \<Rightarrow> string" where
  "of_bytes bs = map (\<lambda>b. char_of (unat b)) bs"

subsection \<open>The operations\<close>

text \<open>
  \<open>alloc\<close> is what \<open>malloc\<close> returns for a handle, with the contents of the memory; \<open>junk\<close> is as in \<open>cl_file_new\<close>, \<open>stack\<close> the
  handle on the stack of \<open>cafs_lite_stat\<close>.
\<close>

type_synonym alloc = "cafs_mount \<Rightarrow> (u32 \<times> cl_handle) option"

definition cm_open_op :: "alloc \<Rightarrow> byte list \<Rightarrow> u32 \<Rightarrow> string \<Rightarrow> flags \<Rightarrow> u32 \<Rightarrow> cafs_mount sys
    \<Rightarrow> (int \<times> u32 \<times> cafs_mount sys) option" where
  "cm_open_op alloc junk p path fl mode s = do {
    let mem = alloc (sys_world s);
    (r, h, c) \<leftarrow> cafs_lite_open (map_option snd mem) junk (to_bytes path) (to_oflags fl) (to_cafs s);
    Some (case (h, mem) of
      (Some x, Some (a, _)) \<Rightarrow> (r, a, set_handle a (Some x) (of_cafs c s))
    | _ \<Rightarrow> (r, p, of_cafs c s))
  }"

definition cm_read_op :: "u32 \<Rightarrow> flags \<Rightarrow> int \<Rightarrow> int \<Rightarrow> cafs_mount sys \<Rightarrow> (int \<times> byte list \<times> cafs_mount sys) option" where
  "cm_read_op a fl loc nbyte s = do {
    h \<leftarrow> cm_handles (sys_world s) a;
    (r, bs, h1, c) \<leftarrow> cafs_lite_read loc nbyte h (to_cafs s);
    Some (r, bs, set_handle a (Some h1) (of_cafs c s))
  }"

definition cm_write_op :: "u32 \<Rightarrow> flags \<Rightarrow> int \<Rightarrow> byte list \<Rightarrow> int \<Rightarrow> cafs_mount sys \<Rightarrow> (int \<times> cafs_mount sys) option" where
  "cm_write_op a fl loc buf nbyte s = do {
    h \<leftarrow> cm_handles (sys_world s) a;
    (r, h1, c) \<leftarrow> cafs_lite_write (to_oflags fl) loc buf nbyte h (to_cafs s);
    Some (r, set_handle a (Some h1) (of_cafs c s))
  }"

definition cm_close_op :: "u32 \<Rightarrow> cafs_mount sys \<Rightarrow> (int \<times> u32 \<times> cafs_mount sys) option" where
  "cm_close_op a s = do {
    h \<leftarrow> cm_handles (sys_world s) a;
    (r, c) \<leftarrow> cafs_lite_close h (to_cafs s);
    Some (r, 0, set_handle a None (of_cafs c s))
  }"

text \<open>The owner is not set.\<close>

definition to_stat :: "stat \<Rightarrow> stat_t \<Rightarrow> stat_t" where
  "to_stat x st = st\<lparr>st_mode := S_IFREG OR 0x1B6, Sysfs.st_size := CafsFs.st_size x, Sysfs.st_ino := CafsFs.st_ino x\<rparr>"

definition stat_result :: "int \<times> stat option \<times> cafs \<Rightarrow> stat_t \<Rightarrow> cafs_mount sys \<Rightarrow> int \<times> stat_t \<times> cafs_mount sys" where
  "stat_result x st s = (case x of (r, y, c) \<Rightarrow> (r, case y of None \<Rightarrow> st | Some y \<Rightarrow> to_stat y st, of_cafs c s))"

definition cm_fstat_op :: "u32 \<Rightarrow> stat_t \<Rightarrow> cafs_mount sys \<Rightarrow> (int \<times> stat_t \<times> cafs_mount sys) option" where
  "cm_fstat_op a st s = do {
    h \<leftarrow> cm_handles (sys_world s) a;
    Some (stat_result (cafs_lite_fstat h (to_cafs s)) st s)
  }"

definition cm_stat_op :: "cl_handle \<Rightarrow> string \<Rightarrow> stat_t \<Rightarrow> cafs_mount sys \<Rightarrow> (int \<times> stat_t \<times> cafs_mount sys) option" where
  "cm_stat_op stack path st s = do {
    x \<leftarrow> cafs_lite_stat stack (to_bytes path) (to_cafs s);
    Some (stat_result x st s)
  }"

definition cm_call :: "(cafs \<Rightarrow> (int \<times> cafs) option) \<Rightarrow> cafs_mount sys \<Rightarrow> (int \<times> cafs_mount sys) option" where
  "cm_call f s = do {
    (r, c) \<leftarrow> f (to_cafs s);
    Some (r, of_cafs c s)
  }"

abbreviation OPENDIR_HANDLE :: u32 where "OPENDIR_HANDLE \<equiv> 0x1234567"

definition cm_opendir_op :: "u32 \<Rightarrow> string \<Rightarrow> cafs_mount sys \<Rightarrow> (int \<times> u32 \<times> cafs_mount sys) option" where
  "cm_opendir_op p path s =
    (case cafs_lite_opendir (to_bytes path) (to_cafs s) of
      (r, ok, c) \<Rightarrow> Some (r, if ok then OPENDIR_HANDLE else p, of_cafs c s))"

text \<open>A negative place is never counted up to, so no entry is found.\<close>

definition cm_readdir_op :: "u32 \<Rightarrow> int \<Rightarrow> cafs_mount sys \<Rightarrow> (int \<times> (u32 \<times> string) option \<times> cafs_mount sys) option" where
  "cm_readdir_op a loc s =
    (if loc < 0 \<and> a = OPENDIR_HANDLE then Some (-1, None, s)
     else do {
       (r, e, c) \<leftarrow> cafs_lite_readdir_r (a = OPENDIR_HANDLE) (nat loc) (to_cafs s);
       Some (r, map_option (\<lambda>(name, ino). (ino, of_bytes name)) e, of_cafs c s)
     })"

definition cm_closedir_op :: "u32 \<Rightarrow> cafs_mount sys \<Rightarrow> (int \<times> cafs_mount sys) option" where
  "cm_closedir_op a s = (case cafs_lite_closedir (a = OPENDIR_HANDLE) (to_cafs s) of (r, c) \<Rightarrow> Some (r, of_cafs c s))"

definition cafs_lite :: "string \<Rightarrow> u32 \<Rightarrow> alloc \<Rightarrow> byte list \<Rightarrow> cl_handle \<Rightarrow> cafs_mount sysfs" where
  "cafs_lite mp acc alloc junk stack = (sysfs_notsup_all mp acc)
    \<lparr>fs_mkfs := cm_call cafs_lite_mkfs, fs_open := cm_open_op alloc junk, fs_read := cm_read_op, fs_write := cm_write_op,
     fs_close := cm_close_op, fs_unlink := (\<lambda>path. cm_call (cafs_lite_unlink (to_bytes path))),
     fs_opendir := cm_opendir_op, fs_closedir := cm_closedir_op, fs_readdir_r := cm_readdir_op,
     fs_stat := cm_stat_op stack, fs_fstat := cm_fstat_op\<rparr>"

lemma cafs_lite_simps [simp]:
  "mount_path (cafs_lite mp acc alloc junk stack) = mp" "fs_transfer (cafs_lite mp acc alloc junk stack) = None"
  "fs_open (cafs_lite mp acc alloc junk stack) = cm_open_op alloc junk" "fs_read (cafs_lite mp acc alloc junk stack) = cm_read_op"
  "fs_write (cafs_lite mp acc alloc junk stack) = cm_write_op" "fs_fstat (cafs_lite mp acc alloc junk stack) = cm_fstat_op"
  "fs_close (cafs_lite mp acc alloc junk stack) = cm_close_op"
  by (simp_all add: cafs_lite_def sysfs_notsup_all_def)

subsection \<open>The interface\<close>

abbreviation mounted :: "cafs_mount \<Rightarrow> cafs" where
  "mounted w \<equiv> \<lparr>cf_dev = cm_dev w, cf_errno = ENOERR, cf_open = cm_open w\<rparr>"

text \<open>
  \<open>nm\<close> is the name under which the file has been entered in the list of serial numbers, when it has been. Then no other open
  handle has its serial number or stands for the list of serial numbers.
\<close>

definition beside :: "byte list option \<Rightarrow> nat list \<Rightarrow> cl_handle \<Rightarrow> cafs \<Rightarrow> byte list \<Rightarrow> bool" where
  "beside nm bs g c zs \<longleftrightarrow> (\<exists>cs. open_apart bs cs g c zs
     \<and> (nm \<noteq> None \<longrightarrow> hd cs \<noteq> list_block_of (cf_dev c) \<and> serial_of (cf_dev c) (hd cs) \<noteq> serial_of (cf_dev c) (hd bs)))"

definition cafs_holds :: "byte list option \<Rightarrow> nat \<Rightarrow> u32 \<Rightarrow> byte list \<Rightarrow> (u32 \<times> byte list) list \<Rightarrow> cafs_mount \<Rightarrow> bool" where
  "cafs_holds nm k a xs ys w \<longleftrightarrow> (\<exists>h bs. cm_handles w a = Some h \<and> open_file bs h (mounted w) xs
     \<and> h_amode h AND CafsFile.R_OK \<noteq> 0 \<and> h_amode h AND CafsFile.W_OK \<noteq> 0 \<and> h_hdr_block h < cl_block_gettotal (cm_dev w)
     \<and> (\<forall>name. nm = Some name \<longrightarrow> entered name h bs (cm_dev w)) \<and> k \<le> card (free_blocks (cm_dev w))
     \<and> (\<forall>(b, zs)\<in>set ys. b \<noteq> a \<and> (\<exists>g. cm_handles w b = Some g \<and> beside nm bs g (mounted w) zs)))"

lemma open_file_dev: "cf_dev c = cf_dev c' \<Longrightarrow> open_file bs h c xs \<Longrightarrow> open_file bs h c' xs"
  by (simp add: open_file_def)

lemma open_apart_dev: "cf_dev c = cf_dev c' \<Longrightarrow> open_apart bs cs h c xs \<Longrightarrow> open_apart bs cs h c' xs"
  by (simp add: open_apart_def)

lemma beside_kept:
  assumes b: "beside nm bs g c zs" and p: "passes (cf_dev c) bs (cf_dev c') bs'" and o: "open_file bs' h' c' xs'"
    and same: "nm \<noteq> None \<Longrightarrow> serial_of (cf_dev c') (hd bs') = serial_of (cf_dev c) (hd bs)"
      "nm \<noteq> None \<Longrightarrow> dev_list_block (cf_dev c') = dev_list_block (cf_dev c)"
  shows "beside nm bs' g c' zs"
proof -
  from b obtain cs where cs: "open_apart bs cs g c zs"
    "nm \<noteq> None \<Longrightarrow> hd cs \<noteq> list_block_of (cf_dev c) \<and> serial_of (cf_dev c) (hd cs) \<noteq> serial_of (cf_dev c) (hd bs)"
    by (auto simp: beside_def)
  note k = open_apart_kept [OF cs(1) p o]
  have "serial_of (cf_dev c') (hd cs) = serial_of (cf_dev c) (hd cs)" using k cs(1) by (auto simp: open_apart_def opened_def listed_def)
  moreover have "nm \<noteq> None \<Longrightarrow> list_block_of (cf_dev c') = list_block_of (cf_dev c)"
    using same(2) by (simp add: list_block_of_def cl_dev_getlist_block_def)
  ultimately show ?thesis unfolding beside_def using k cs(2) same(1) by auto
qed

lemma beside_dev: "cf_dev c = cf_dev c' \<Longrightarrow> beside nm bs g c zs \<Longrightarrow> beside nm bs g c' zs"
  unfolding beside_def using open_apart_dev by metis

lemma to_cafs_dev [simp]: "cf_dev (to_cafs s) = cm_dev (sys_world s)"
  by (simp add: to_cafs_def)

lemma after_call [simp]:
  "cm_dev (sys_world (set_handle a h (of_cafs c s))) = cf_dev c"
  "cm_handles (sys_world (set_handle a h (of_cafs c s))) = (cm_handles (sys_world s))(a := h)"
  "cm_open (sys_world (set_handle a h (of_cafs c s))) = cf_open c"
  by (simp_all add: set_handle_def of_cafs_def)

lemma holds_next:
  assumes h: "cm_handles (sys_world s) a = Some h" "\<forall>name. nm = Some name \<longrightarrow> entered name h bs (cm_dev (sys_world s))"
    and ap: "\<forall>(b, zs)\<in>set ys. b \<noteq> a \<and> (\<exists>g. cm_handles (sys_world s) b = Some g \<and> beside nm bs g (mounted (sys_world s)) zs)"
    and o: "open_file bs h (mounted (sys_world s)) xs"
    and op: "open_file bs' h' c' xs'" and am: "h_amode h' = h_amode h" "h_amode h AND CafsFile.R_OK \<noteq> 0" "h_amode h AND CafsFile.W_OK \<noteq> 0"
    and lv: "leaves (cm_dev (sys_world s)) bs (cf_dev c') bs'"
    and hb: "handle_id h' = handle_id h" "h_hdr_block h < cl_block_gettotal (cm_dev (sys_world s))"
    and k: "k \<le> card (free_blocks (cf_dev c'))"
  shows "cafs_holds nm k a xs' ys (sys_world (set_handle a (Some h') (of_cafs c' s)))"
  unfolding cafs_holds_def
proof (intro exI conjI)
  let ?w = "sys_world (set_handle a (Some h') (of_cafs c' s))"
  obtain n where fd: "file_disk (cm_dev (sys_world s)) bs n" using o by (auto simp: open_file_def opened_def)
  have o': "open_file bs' h' (mounted ?w) xs'" by (rule open_file_dev [OF _ op]) simp
  show "cm_handles ?w a = Some h'" by simp
  show "open_file bs' h' (mounted ?w) xs'" by (rule o')
  show "h_hdr_block h' < cl_block_gettotal (cm_dev ?w)" using lv hb by (simp add: leaves_def passes_def handle_id_def)
  show "\<forall>name. nm = Some name \<longrightarrow> entered name h' bs' (cm_dev ?w)" using h(2) entered_next [OF _ fd lv hb(1)] by simp
  have p: "passes (cf_dev (mounted (sys_world s))) bs (cf_dev (mounted ?w)) bs'" using leaves_passes [OF lv] by simp
  have "beside nm bs' g (mounted ?w) zs" if "beside nm bs g (mounted (sys_world s)) zs" for g zs
    by (rule beside_kept [OF that p o']) (use lv in \<open>simp_all add: leaves_def\<close>)
  with ap show "\<forall>(b, zs)\<in>set ys. b \<noteq> a \<and> (\<exists>g. cm_handles ?w b = Some g \<and> beside nm bs' g (mounted ?w) zs)" by fastforce
qed (use am k in simp_all)

interpretation cm: file_store "cafs_lite mp acc alloc junk stack" "cafs_holds nm" 2 "\<lambda>n. 2 * (n div 122) + 4" MAX_FILE
  for nm mp acc alloc junk stack
proof unfold_locales
  fix k a xs ys loc fl n and s :: "cafs_mount sys"
  assume w: "cafs_holds nm (2 + k) a xs ys (sys_world s)" and l: "loc \<le> length xs"
  from w obtain h bs where h: "cm_handles (sys_world s) a = Some h" "open_file bs h (mounted (sys_world s)) xs"
    "h_amode h AND CafsFile.R_OK \<noteq> 0" "h_amode h AND CafsFile.W_OK \<noteq> 0" "h_hdr_block h < cl_block_gettotal (cm_dev (sys_world s))"
    "2 + k \<le> card (free_blocks (cm_dev (sys_world s)))"
    "\<forall>(b, zs)\<in>set ys. b \<noteq> a \<and> (\<exists>g. cm_handles (sys_world s) b = Some g \<and> beside nm bs g (mounted (sys_world s)) zs)"
    "\<forall>name. nm = Some name \<longrightarrow> entered name h bs (cm_dev (sys_world s))"
    unfolding cafs_holds_def by blast
  have f: "open_file bs h (to_cafs s) xs" by (rule open_file_dev [OF _ h(2)]) simp
  have room: "2 \<le> card (free_blocks (cf_dev (to_cafs s)))" using h(6) by simp
  obtain h' c' bs' where r: "cafs_lite_read (int loc) (int n) h (to_cafs s) = Some (int (length (take n (drop loc xs))), take n (drop loc xs), h', c')"
    "open_file bs' h' c' xs" "h_amode h' = h_amode h" "leaves (cf_dev (to_cafs s)) bs (cf_dev c') bs'"
    "card (free_blocks (cf_dev (to_cafs s))) \<le> card (free_blocks (cf_dev c')) + 2"
    by (rule read_effect [OF f h(3) l room, of n]) (rule that, assumption+)
  have "cafs_holds nm k a xs ys (sys_world (set_handle a (Some h') (of_cafs c' s)))"
    by (rule holds_next [OF h(1,8,7,2) r(2,3) h(3,4) _ id_lite_read [OF r(1)] h(5)]) (use r(4,5) h(6) in simp_all)
  with r(1) h(1) show "\<exists>s'. fs_read (cafs_lite mp acc alloc junk stack) a fl (int loc) (int n) s
      = Some (int (length (take n (drop loc xs))), take n (drop loc xs), s') \<and> cafs_holds nm k a xs ys (sys_world s')"
    by (simp add: cm_read_op_def del: length_take length_drop)
next
  fix buf :: "byte list" and k a xs ys fl loc and s :: "cafs_mount sys"
  assume w: "cafs_holds nm (2 * (length buf div 122) + 4 + k) a xs ys (sys_world s)"
    and l: "write_place fl xs loc \<le> length xs" "write_place fl xs loc + length buf \<le> MAX_FILE"
  from w obtain h bs where h: "cm_handles (sys_world s) a = Some h" "open_file bs h (mounted (sys_world s)) xs"
    "h_amode h AND CafsFile.R_OK \<noteq> 0" "h_amode h AND CafsFile.W_OK \<noteq> 0" "h_hdr_block h < cl_block_gettotal (cm_dev (sys_world s))"
    "2 * (length buf div 122) + 4 + k \<le> card (free_blocks (cm_dev (sys_world s)))"
    "\<forall>(b, zs)\<in>set ys. b \<noteq> a \<and> (\<exists>g. cm_handles (sys_world s) b = Some g \<and> beside nm bs g (mounted (sys_world s)) zs)"
    "\<forall>name. nm = Some name \<longrightarrow> entered name h bs (cm_dev (sys_world s))"
    unfolding cafs_holds_def by blast
  have f: "open_file bs h (to_cafs s) xs" by (rule open_file_dev [OF _ h(2)]) simp
  have wl: "write_place fl xs loc = (if of_append (to_oflags fl) then length xs else loc)" by (simp add: write_place_def to_oflags_def)
  have room: "2 * (length buf div 122) + 4 \<le> card (free_blocks (cf_dev (to_cafs s)))" using h(6) by simp
  obtain h' c' bs' where r: "cafs_lite_write (to_oflags fl) (int loc) buf (int (length buf)) h (to_cafs s) = Some (int (length buf), h', c')"
    "open_file bs' h' c' (overwritten (write_place fl xs loc) buf xs)" "h_amode h' = h_amode h" "leaves (cf_dev (to_cafs s)) bs (cf_dev c') bs'"
    "card (free_blocks (cf_dev (to_cafs s))) \<le> card (free_blocks (cf_dev c')) + (2 * (length buf div 122) + 4)"
    by (rule write_effect [OF f h(4) wl l room]) (rule that, assumption+)
  have "cafs_holds nm k a (overwritten (write_place fl xs loc) buf xs) ys (sys_world (set_handle a (Some h') (of_cafs c' s)))"
    by (rule holds_next [OF h(1,8,7,2) r(2,3) h(3,4) _ id_lite_write [OF r(1)] h(5)]) (use r(4,5) h(6) in simp_all)
  with r(1) h(1) show "\<exists>s'. fs_write (cafs_lite mp acc alloc junk stack) a fl (int loc) buf (int (length buf)) s = Some (int (length buf), s')
      \<and> cafs_holds nm k a (overwritten (write_place fl xs loc) buf xs) ys (sys_world s')"
    by (simp add: cm_write_op_def)
next
  fix k a xs ys st and s :: "cafs_mount sys"
  assume "cafs_holds nm k a xs ys (sys_world s)"
  then obtain h bs where h: "cm_handles (sys_world s) a = Some h" "open_file bs h (mounted (sys_world s)) xs"
    "h_hdr_block h < cl_block_gettotal (cm_dev (sys_world s))" by (auto simp: cafs_holds_def)
  obtain n V where o: "opened h (cf_dev (mounted (sys_world s))) bs n V" "h_size h = int (length xs)"
    by (rule open_fileE [OF h(2)]) blast
  have "geometry (cm_dev (sys_world s))" using o(1) file_disk_facts(2) by (auto simp: opened_def)
  from load_total [OF this h(3)] show "\<exists>r st' s'. fs_fstat (cafs_lite mp acc alloc junk stack) a st s = Some (r, st', s')
      \<and> Sysfs.st_size st' = int (length xs) \<and> sys_world s' = sys_world s"
    by (simp add: cm_fstat_op_def h(1) cafs_lite_fstat_def stat_result_def to_stat_def of_cafs_def to_cafs_def o(2))
qed simp

subsection \<open>A closed file\<close>

text \<open>The disk has the file of the name \<open>name\<close> with the bytes \<open>xs\<close>; the open handles stand for what \<open>ys\<close> says.\<close>

definition cafs_stores :: "byte list \<Rightarrow> nat \<Rightarrow> byte list \<Rightarrow> (u32 \<times> byte list) list \<Rightarrow> cafs_mount \<Rightarrow> bool" where
  "cafs_stores name k xs ys w \<longleftrightarrow> filed name xs (cm_dev w) \<and> k \<le> card (free_blocks (cm_dev w))
     \<and> (\<forall>(b, zs)\<in>set ys. \<exists>g cs. cm_handles w b = Some g \<and> open_file cs g (mounted w) zs)"

text \<open>The handle stands for the bytes \<open>xs\<close> and is open for reading alone.\<close>

definition cafs_reads :: "nat \<Rightarrow> u32 \<Rightarrow> byte list \<Rightarrow> cafs_mount \<Rightarrow> bool" where
  "cafs_reads k a xs w \<longleftrightarrow> (\<exists>h bs. cm_handles w a = Some h \<and> open_file bs h (mounted w) xs \<and> h_amode h = CafsFile.R_OK
     \<and> k \<le> card (free_blocks (cm_dev w)))"

lemma cafs_close_effect:
  assumes w: "cafs_holds (Some name) (2 + k) a xs ys (sys_world s)"
  shows "\<exists>s'. cm_close_op a s = Some (0, 0, s') \<and> cafs_stores name k xs ys (sys_world s')"
proof -
  from w obtain h bs where h: "cm_handles (sys_world s) a = Some h" "open_file bs h (mounted (sys_world s)) xs"
    "h_amode h AND CafsFile.W_OK \<noteq> 0" "entered name h bs (cm_dev (sys_world s))" "2 + k \<le> card (free_blocks (cm_dev (sys_world s)))"
    "\<forall>(b, zs)\<in>set ys. b \<noteq> a \<and> (\<exists>g. cm_handles (sys_world s) b = Some g \<and> beside (Some name) bs g (mounted (sys_world s)) zs)"
    unfolding cafs_holds_def by blast
  let ?c = "to_cafs s"
  have f: "open_file bs h ?c xs" by (rule open_file_dev [OF _ h(2)]) simp
  have e: "entered name h bs (cf_dev ?c)" and room: "2 \<le> card (free_blocks (cf_dev ?c))" using h(4,5) by simp_all
  obtain d' where d: "cafs_lite_close h ?c = Some (0, ?c\<lparr>cf_dev := d'\<rparr>)" "filed name xs d'"
    "\<And>g cs zs. open_apart bs cs g ?c zs \<Longrightarrow> hd cs \<noteq> list_block_of (cf_dev ?c) \<Longrightarrow> serial_of (cf_dev ?c) (hd cs) \<noteq> serial_of (cf_dev ?c) (hd bs)
      \<Longrightarrow> open_file cs g (?c\<lparr>cf_dev := d'\<rparr>) zs" "card (free_blocks (cf_dev ?c)) \<le> card (free_blocks d') + 2"
    by (rule lite_close_effect [OF f e h(3) room]) (rule that, assumption+)
  define s' where "s' = set_handle a None (of_cafs (?c\<lparr>cf_dev := d'\<rparr>) s)"
  have w: "cm_dev (sys_world s') = d'" "cm_handles (sys_world s') = (cm_handles (sys_world s))(a := None)" by (simp_all add: s'_def)
  have "\<exists>g cs. cm_handles (sys_world s') b = Some g \<and> open_file cs g (mounted (sys_world s')) zs" if "(b, zs) \<in> set ys" for b zs
  proof -
    from h(6) that obtain g where g: "b \<noteq> a" "cm_handles (sys_world s) b = Some g" "beside (Some name) bs g (mounted (sys_world s)) zs" by blast
    have "beside (Some name) bs g ?c zs" by (rule beside_dev [OF _ g(3)]) simp
    then obtain cs where "open_file cs g (?c\<lparr>cf_dev := d'\<rparr>) zs" using d(3) by (auto simp: beside_def)
    then have "open_file cs g (mounted (sys_world s')) zs" by (rule open_file_dev [rotated]) (simp add: w)
    with g w show ?thesis by auto
  qed
  then have "cafs_stores name k xs ys (sys_world s')" using d(2,4) h(5) by (auto simp: cafs_stores_def w)
  moreover have "cm_close_op a s = Some (0, 0, s')" using h(1) d(1) by (simp add: cm_close_op_def s'_def)
  ultimately show ?thesis by blast
qed

lemma cafs_reopen_effect:
  assumes w: "cafs_stores (to_bytes path) k xs ys (sys_world s)" and mem: "alloc (sys_world s) = Some (a, m)"
    and fl: "fl_acc fl = RDONLY" "\<not> fl_creat fl" "\<not> fl_trunc fl"
  shows "\<exists>s'. (\<forall>p mode. cm_open_op alloc junk p path fl mode s = Some (0, a, s')) \<and> cafs_reads k a xs (sys_world s')"
proof -
  let ?c = "to_cafs s"
  have f: "filed (to_bytes path) xs (cf_dev ?c)" using w by (simp add: cafs_stores_def)
  have of: "of_accmode (to_oflags fl) = O_RDONLY" "\<not> of_creat (to_oflags fl)" "\<not> of_trunc (to_oflags fl)" using fl by (simp_all add: to_oflags_def)
  obtain h bs where h: "cafs_lite_open (Some m) junk (to_bytes path) (to_oflags fl) ?c = Some (0, Some h, ?c)" "open_file bs h ?c xs"
    "h_amode h = CafsFile.R_OK" by (rule lite_reopen_effect [OF f of]) (rule that, assumption+)
  define s' where "s' = set_handle a (Some h) (of_cafs ?c s)"
  have "open_file bs h (mounted (sys_world s')) xs" by (rule open_file_dev [OF _ h(2)]) (simp add: s'_def)
  then have "cafs_reads k a xs (sys_world s')" using h(3) w by (auto simp: cafs_reads_def cafs_stores_def s'_def)
  moreover have "cm_open_op alloc junk p path fl mode s = Some (0, a, s')" for p mode using h(1) mem by (simp add: cm_open_op_def s'_def)
  ultimately show ?thesis by blast
qed

lemma cafs_read_effect:
  assumes w: "cafs_reads 2 a xs (sys_world s)"
  shows "\<exists>s'. cm_read_op a fl 0 (int n) s = Some (int (length (take n xs)), take n xs, s')"
proof -
  from w obtain h bs where h: "cm_handles (sys_world s) a = Some h" "open_file bs h (mounted (sys_world s)) xs" "h_amode h = CafsFile.R_OK"
    "2 \<le> card (free_blocks (cm_dev (sys_world s)))" by (auto simp: cafs_reads_def)
  have f: "open_file bs h (to_cafs s) xs" by (rule open_file_dev [OF _ h(2)]) simp
  have am: "h_amode h AND CafsFile.R_OK \<noteq> 0" and room: "2 \<le> card (free_blocks (cf_dev (to_cafs s)))" using h(3,4) by simp_all
  obtain h' c' where "cafs_lite_read (int 0) (int n) h (to_cafs s) = Some (int (length (take n (drop 0 xs))), take n (drop 0 xs), h', c')"
    by (rule read_effect [OF f am _ room, of 0 n]) simp
  then show ?thesis using h(1) by (simp add: cm_read_op_def del: length_take)
qed

end
