(* ===== verification/CafsPath.thy ===== *)
theory CafsPath
  imports CafsMount
begin

section \<open>From a path to the bytes of a file\<close>

subsection \<open>The next serial number\<close>

text \<open>Setting it changes nothing that is on the disk.\<close>

lemma serial_dev [simp]:
  "fl_mem (cl_dev_setserialno sn d) = fl_mem d" "fl_size (cl_dev_setserialno sn d) = fl_size d"
  "fl_erase (cl_dev_setserialno sn d) = fl_erase d" "dev_list_block (cl_dev_setserialno sn d) = dev_list_block d"
  by (simp_all add: cl_dev_setserialno_def)

lemma serial_geometry [simp]:
  "geometry (cl_dev_setserialno sn d) = geometry d" "per_section (cl_dev_setserialno sn d) = per_section d"
  "cl_block_gettotal (cl_dev_setserialno sn d) = cl_block_gettotal d" "all_blocks (cl_dev_setserialno sn d) = all_blocks d"
  by (simp_all add: geometry_def per_section_def cl_block_gettotal_def all_blocks_def cl_dev_getsize_def cl_dev_geterasesize_def)

lemma serial_blk [simp]: "blk (cl_dev_setserialno sn d) b = blk d b"
  by (simp add: blk_def)

lemma serial_parts [simp]:
  "status_of (cl_dev_setserialno sn d) = status_of d" "erased (cl_dev_setserialno sn d) = erased d"
  "get (cl_dev_setserialno sn d) = get d" "serial_of (cl_dev_setserialno sn d) = serial_of d"
  "live (cl_dev_setserialno sn d) = live d" "type_of (cl_dev_setserialno sn d) = type_of d" "data_of (cl_dev_setserialno sn d) = data_of d"
  by (rule ext, simp add: status_of_def erased_def get_def serial_of_def live_def type_of_def data_of_def)+

lemma serial_sound [simp]: "sound (cl_dev_setserialno sn d) = sound d"
  by (simp add: sound_def clean_def idle_def free_from_def)

lemma serial_free [simp]: "free_blocks (cl_dev_setserialno sn d) = free_blocks d"
  by (simp add: free_blocks_def)

lemma serial_first_free [simp]:
  "first_free (cl_dev_setserialno sn d) (candidates (cl_dev_setserialno sn d) k h) = first_free d (candidates d k h)"
proof -
  have "section_candidates (cl_dev_setserialno sn d) k = section_candidates d k"
    by (rule ext) (simp add: section_candidates_def held_by_other_def)
  then show ?thesis by (simp add: first_free_def candidates_def)
qed

lemma serial_list:
  assumes "sn_list d bs n"
  shows "sn_list (cl_dev_setserialno sn d) bs n" "sn_entries (cl_dev_setserialno sn d) bs n = sn_entries d bs n"
proof -
  have wf: "wf_list d 8 cl_serialno_isfree bs n" using assms by (simp add: sn_list_def)
  note w = wf_list_cong [OF wf, of "cl_dev_setserialno sn d", simplified]
  have "list_block_of (cl_dev_setserialno sn d) = list_block_of d" by (simp add: list_block_of_def cl_dev_getlist_block_def)
  with assms w show "sn_list (cl_dev_setserialno sn d) bs n" by (simp add: sn_list_def)
  show "sn_entries (cl_dev_setserialno sn d) bs n = sn_entries d bs n" by (simp add: sn_entries_def w)
qed

subsection \<open>Looking up a name\<close>

lemma scan_items_skip: "(\<And>x a s. f x a s = Inr s) \<Longrightarrow> scan_items f xs s = Inr s"
  by (induction xs) auto

lemma dir_lookup_unused:
  assumes geo: "geometry (cf_dev c)" and sl: "sn_list (cf_dev c) bs n" and un: "name_unused (cf_dev c) bs n path"
  shows "cl_dir_exists path c = Some (CAFS_DIR_PARENT_EXISTS, SERIALNO_INVALID, c)"
proof -
  let ?d = "cf_dev c"
  from sl have wf: "wf_list ?d 8 cl_serialno_isfree bs n" and lb: "list_block_of ?d = hd bs" by (auto simp: sn_list_def)
  have body: "lookup_body path x a l s ?d = Some (Inr (l, s, ?d))" if "x \<in> set (contents ?d 8 bs n)" for x a l s
  proof -
    let ?e = "bytes_snitem x"
    have e: "?e \<in> set (sn_entries ?d bs n)" using that by (simp add: sn_entries_def)
    show ?thesis
    proof (cases "sn_serialno ?e \<noteq> CL_SERIALNO_LIST \<and> sn_status ?e = CAFS_SNLIST_ITEM_STATUS_CLOSED")
      case True
      with un e have b: "sn_block ?e < cl_block_gettotal ?d" "\<not> CafsFs.strncmp_eq FS_NAME_MAX path (hdr_name (data_of ?d (sn_block ?e)))"
        by (auto simp: name_unused_def)
      have "bd_data (bytes_data (blk ?d (sn_block ?e))) = data_of ?d (sn_block ?e)" by (simp add: bytes_data_def data_of_def)
      with load_total [OF geo b(1)] b(2) True show ?thesis by (simp add: lookup_body_def Let_def)
    qed (auto simp: lookup_body_def Let_def)
  qed
  obtain l w where lw: "cl_list_init (hd bs) 8 cl_serialno_isfree ?d = (0, l)" "while_next (lookup_body path) l () ?d = Some w"
    "scan_result ?d 8 (last bs) (case scan_items (\<lambda>x a s. Inr s :: (u32 option) + unit) (map (\<lambda>k. (slot ?d 8 bs k, slot_addr 8 bs k)) [0 ..< n]) () of Inl v \<Rightarrow> Inl v
       | Inr s' \<Rightarrow> Inr (if n < calc_total_items 8 * length bs then Some (slot_addr 8 bs n) else None, s')) w"
    by (rule while_next_wf [OF geo _ wf, where f = "\<lambda>x a s. Inr s" and body = "lookup_body path" and s = "()"])
       (use body in simp_all)
  have "\<exists>r. w = Inr r" using lw(3) by (auto simp: scan_items_skip scan_result_def)
  moreover have "cl_snlist_init (cl_serialno_getlistblock ?d) ?d = (0, l)"
    using lw(1) lb by (simp add: cl_snlist_init_def cl_serialno_getlistblock_def)
  ultimately show ?thesis using lw(2) by (auto simp: cl_dir_exists_def cl_dir_lookup_def Let_def)
qed


subsection \<open>Creating a file\<close>

text \<open>
  The disk is sound, no closed file has the name, the next serial number has never been used, three blocks are free beside \<open>k\<close>
  others and the first of them lies on the disk. The name is no path: what the header keeps is what a lookup compares. The
  other open handles stand for what \<open>ys\<close> says.
\<close>

definition plain_name :: "byte list \<Rightarrow> bool" where
  "plain_name nm \<longleftrightarrow> length nm < 26 \<and> 0 \<notin> set nm \<and> of_char CHR ''/'' \<notin> set nm"

definition cafs_ready :: "nat \<Rightarrow> u32 \<Rightarrow> string \<Rightarrow> (u32 \<times> byte list) list \<Rightarrow> cafs_mount \<Rightarrow> bool" where
  "cafs_ready k a name ys w \<longleftrightarrow> (\<exists>bs n b sn. let d = cm_dev w in
     sound d \<and> per_section d \<le> 41 \<and> sn_list d bs n \<and> name_unused d bs n (to_bytes name)
     \<and> sn = cl_dev_getserialno d + 1 \<and> sn \<noteq> SERIALNO_INVALID \<and> sn \<noteq> CL_SERIALNO_LIST
     \<and> sn \<notin> sn_serialno ` set (sn_entries d bs n)
     \<and> first_free d (candidates d sn BLOCK_INVALID) = Some b \<and> 1 \<le> b \<and> b < cl_block_gettotal d
     \<and> 3 + k \<le> card (free_blocks d) \<and> plain_name (to_bytes name)
     \<and> (\<forall>(c, zs)\<in>set ys. c \<noteq> a \<and> (\<exists>g cs. cm_handles w c = Some g \<and> open_apart bs cs g (mounted w) zs \<and> serial_of d (hd cs) \<noteq> sn)))"

lemma getfilename_plain: "of_char CHR ''/'' \<notin> set xs \<Longrightarrow> CafsFs.sysfs_getfilename xs = xs"
proof -
  have "of_char CHR ''/'' \<notin> set ys \<Longrightarrow> getfilename_loop acc ys = acc" for ys acc by (induction ys arbitrary: acc) auto
  then show "of_char CHR ''/'' \<notin> set xs \<Longrightarrow> CafsFs.sysfs_getfilename xs = xs" by (simp add: CafsFs.sysfs_getfilename_def)
qed

lemma amode_creat:
  "fl_acc fl = RDWR \<Longrightarrow> CafsFs.sysfs_getamode (to_oflags fl) AND CafsFile.R_OK \<noteq> 0"
  "fl_acc fl = RDWR \<Longrightarrow> CafsFs.sysfs_getamode (to_oflags fl) AND CafsFile.W_OK \<noteq> 0"
  by (auto simp: CafsFs.sysfs_getamode_def to_oflags_def Let_def)

lemma cafs_create_effect:
  assumes r: "cafs_ready k a name ys (sys_world s)" and mem: "alloc (sys_world s) = Some (a, h)" "length (bd_data (h_data h)) = 122"
    and junk: "length junk = 28" and fl: "fl_creat fl" "fl_acc fl = RDWR"
  shows "\<exists>s'. (\<forall>p mode. cm_open_op alloc junk p name fl mode s = Some (0, a, s')) \<and> cafs_holds (Some (to_bytes name)) k a [] ys (sys_world s')"
proof -
  let ?d = "cm_dev (sys_world s)" and ?c = "to_cafs s" and ?am = "CafsFs.sysfs_getamode (to_oflags fl)" and ?nm = "to_bytes name"
  obtain bs n b sn where c: "sound ?d" "per_section ?d \<le> 41" "sn_list ?d bs n" "name_unused ?d bs n ?nm"
    "sn = cl_dev_getserialno ?d + 1" "sn \<noteq> SERIALNO_INVALID" "sn \<noteq> CL_SERIALNO_LIST" "sn \<notin> sn_serialno ` set (sn_entries ?d bs n)"
    "first_free ?d (candidates ?d sn BLOCK_INVALID) = Some b" "1 \<le> b" "b < cl_block_gettotal ?d" "3 + k \<le> card (free_blocks ?d)"
    "plain_name ?nm"
    "\<forall>(c, zs)\<in>set ys. c \<noteq> a \<and> (\<exists>g cs. cm_handles (sys_world s) c = Some g \<and> open_apart bs cs g (mounted (sys_world s)) zs \<and> serial_of ?d (hd cs) \<noteq> sn)"
    using r unfolding cafs_ready_def Let_def by blast
  let ?d1 = "cl_dev_setserialno sn ?d"
  note sl = serial_list [OF c(3), of sn]
  have nm: "length ?nm < 26" "0 \<notin> set ?nm" "CafsFs.sysfs_getfilename ?nm = ?nm" using c(13) getfilename_plain by (simp_all add: plain_name_def)
  have new: "cl_serialno_new (cf_dev ?c) = (sn, ?d1)" using c(5,6) by (simp add: cl_serialno_new_def Let_def)
  have geo: "geometry (cf_dev ?c)" using c(1) by (simp add: sound_def)
  have look: "cl_dir_exists ?nm ?c = Some (CAFS_DIR_PARENT_EXISTS, SERIALNO_INVALID, ?c)"
    by (rule dir_lookup_unused [OF geo, of bs n]) (use c(3,4) in simp_all)
  have f: "sound ?d1" "per_section ?d1 \<le> 41" "name_unused ?d1 bs n ?nm" "sn \<notin> sn_serialno ` set (sn_entries ?d1 bs n)"
    "first_free ?d1 (candidates ?d1 sn BLOCK_INVALID) = Some b" "b < cl_block_gettotal ?d1" "3 \<le> card (free_blocks ?d1)"
    using c sl by (simp_all add: name_unused_def)
  obtain lb d' h' where n: "cl_file_new junk ?nm sn BLOCK_TYPE_FILE_HDR ?am h ?d1 = Some (0, h', d')"
    "\<And>e p. open_file [lb] h' \<lparr>cf_dev = d', cf_errno = e, cf_open = p\<rparr> []" "entered ?nm h' [lb] d'"
    "passes ?d1 bs d' [lb]" "card (free_blocks ?d1) \<le> card (free_blocks d') + 3" "h_amode h' = ?am" "h_hdr_block h' = b"
    "serial_of d' lb = sn" "dev_list_block d' = dev_list_block ?d1"
    by (rule file_new_entered [OF f(1,2) sl(1) f(3,4) c(6,7) f(5) c(10) f(6,7) mem(2) junk nm(1,2)]) (rule that, assumption+)
  have cr: "of_creat (to_oflags fl)" using fl(1) by (simp add: to_oflags_def)
  define c' where "c' = ?c\<lparr>cf_dev := d'\<rparr>"
  have run: "cafs_lite_open (Some h) junk ?nm (to_oflags fl) ?c = Some (0, Some h', c')"
    unfolding cafs_lite_open_def Let_def look using new n(1) cr by (simp add: c'_def nm(3))
  define s' where "s' = set_handle a (Some h') (of_cafs c' s)"
  have w: "cm_dev (sys_world s') = d'" "cm_handles (sys_world s') = (cm_handles (sys_world s))(a := Some h')"
    by (simp_all add: s'_def c'_def)
  have lv: "passes (cf_dev (mounted (sys_world s))) bs (cf_dev (mounted (sys_world s'))) [lb]" using n(4) w(1) by (simp add: passes_def live_def)
  have o: "open_file [lb] h' (mounted (sys_world s')) []" using n(2) w(1) by simp
  have lst: "list_block_of d' = hd bs" "bs \<noteq> []" using n(9) c(3) by (auto simp: sn_list_def wf_list_def list_block_of_def cl_dev_getlist_block_def)
  have "cafs_holds (Some ?nm) k a [] ys (sys_world s')"
    unfolding cafs_holds_def
  proof (intro exI conjI)
    show "cm_handles (sys_world s') a = Some h'" by (simp add: w)
    show "open_file [lb] h' (mounted (sys_world s')) []" by (rule o)
    show "h_hdr_block h' < cl_block_gettotal (cm_dev (sys_world s'))" using c(11) n(4,7) w(1) by (simp add: passes_def)
    show "k \<le> card (free_blocks (cm_dev (sys_world s')))" using c(12) n(5) w(1) by simp
    show "\<forall>(b, zs)\<in>set ys. b \<noteq> a \<and> (\<exists>g. cm_handles (sys_world s') b = Some g \<and> beside (Some ?nm) [lb] g (mounted (sys_world s')) zs)"
    proof clarify
      fix b zs assume b: "(b, zs) \<in> set ys"
      with c(14) obtain g cs where g: "b \<noteq> a" "cm_handles (sys_world s) b = Some g" "open_apart bs cs g (mounted (sys_world s)) zs"
        "serial_of ?d (hd cs) \<noteq> sn" by blast
      note k = open_apart_kept [OF g(3) lv o]
      have "serial_of d' (hd cs) \<noteq> sn" using k g(3,4) w(1) by (auto simp: open_apart_def opened_def listed_def)
      moreover have "hd cs \<noteq> hd bs"
      proof -
        from g(3) obtain l where "file_disk ?d cs l" "set bs \<inter> set cs = {}" by (auto simp: open_apart_def opened_def)
        with file_disk_facts(8) [of ?d cs l] hd_in_set [OF lst(2)] show ?thesis by (auto simp: disjoint_iff)
      qed
      ultimately have "beside (Some ?nm) [lb] g (mounted (sys_world s')) zs" using k n(8) w(1) lst(1) by (auto simp: beside_def)
      with g(1,2) w(2) show "b \<noteq> a \<and> (\<exists>g. cm_handles (sys_world s') b = Some g \<and> beside (Some ?nm) [lb] g (mounted (sys_world s')) zs)" by auto
    qed
  qed (use amode_creat [OF fl(2)] n(3,6) w(1) in simp_all)
  moreover have "cm_open_op alloc junk p name fl mode s = Some (0, a, s')" for p mode
    using run mem(1) by (simp add: cm_open_op_def s'_def)
  ultimately show ?thesis by blast
qed

text \<open>The path leads to a mounted CAFS disk on which the file can be created, and a descriptor is free.\<close>

definition can_create :: "'w config \<Rightarrow> 'w sysfs \<Rightarrow> nat \<Rightarrow> string \<Rightarrow> 'w proc \<Rightarrow> bool" where
  "can_create g fs i path p \<longleftrightarrow> sysfs_ispathinvalid g path = None \<and> first_free_fd p i
     \<and> (\<exists>j. sysfs_find g (c_str path) True = Some j \<and> sysfs_list g ! j = fs)"

definition new_file_flags :: "flags \<Rightarrow> u32 \<Rightarrow> bool" where
  "new_file_flags fl mode \<longleftrightarrow> fl_creat fl \<and> fl_acc fl = RDWR \<and> mode AND S_IFMT \<noteq> S_IFDIR"

text \<open>Opening by a path, as far as it does not depend on the file system.\<close>

lemma opened_by_path:
  assumes can: "can_create g fs i path p" and fl: "fl_creat fl \<Longrightarrow> mode AND S_IFMT \<noteq> S_IFDIR"
    and run: "\<And>m. fs_open fs x (sysfs_stripmountpath fs (c_str path)) fl m (pr_sys p) = Some (0, a, s')"
  obtains j p' where "open_at g x path fl mode p = Some (int i, p')" "sysfs_list g ! j = fs" "pr_sys p' = s'"
    "pr_files p' = (pr_files p)[i := \<lparr>f_fs = j, f_handle = a, f_flags = fl, f_loc = 0\<rparr>]"
proof -
  obtain j where j: "sysfs_ispathinvalid g path = None" "first_free_fd p i" "sysfs_find g (c_str path) True = Some j" "sysfs_list g ! j = fs"
    using can by (auto simp: can_create_def)
  have l: "i < length (pr_files p)" using j(2) by (simp add: first_free_fd_def)
  let ?p1 = "upd_file i (\<lambda>f. f\<lparr>f_handle := 1\<rparr>) p"
  define p2 where "p2 = set_open_file i j a fl (?p1\<lparr>pr_sys := s'\<rparr>)"
  have "open_at g x path fl mode p = Some (int i, p2)"
    unfolding open_at_def j(1,3) option.case new_open_file_first [OF j(2)] Let_def prod.case j(4)
    using run fl by (simp add: p2_def)
  moreover have "pr_files p2 = (pr_files p)[i := \<lparr>f_fs = j, f_handle = a, f_flags = fl, f_loc = 0\<rparr>]" "pr_sys p2 = s'"
    by (simp_all add: p2_def set_open_file_def)
  ultimately show thesis using that j(4) by blast
qed

lemma created_by_path:
  fixes g :: "cafs_mount config"
  assumes fs_def: "fs = cafs_lite mp acc alloc junk stack"
    and can: "can_create g fs i path p" and fl: "new_file_flags fl mode"
    and name: "name = sysfs_stripmountpath fs (c_str path)" and ready: "cafs_ready k a name ys (sys_world (pr_sys p))"
    and mem: "alloc (sys_world (pr_sys p)) = Some (a, h)" "length (bd_data (h_data h)) = 122" "a AND NOT 1 \<noteq> 0"
    and junk: "length junk = 28"
  shows "\<exists>p' j. unistd_open g x st path fl mode p = Some (int i, p') \<and> fd_at g fs p' i a fl 0
    \<and> cafs_holds (Some (to_bytes name)) k a [] ys (sys_world (pr_sys p')) \<and> pr_files p' = (pr_files p)[i := \<lparr>f_fs = j, f_handle = a, f_flags = fl, f_loc = 0\<rparr>]"
proof -
  have flags: "fl_creat fl" "fl_acc fl = RDWR" "fl_creat fl \<Longrightarrow> mode AND S_IFMT \<noteq> S_IFDIR" using fl by (simp_all add: new_file_flags_def)
  have l: "i < length (pr_files p)" using can by (simp add: can_create_def first_free_fd_def)
  obtain s' where s: "\<And>q m. cm_open_op alloc junk q name fl m (pr_sys p) = Some (0, a, s')" "cafs_holds (Some (to_bytes name)) k a [] ys (sys_world s')"
    using cafs_create_effect [where s = "pr_sys p" and alloc = alloc, OF ready mem(1,2) junk flags(1,2)] by blast
  obtain j p2 where o: "open_at g x path fl mode p = Some (int i, p2)" "sysfs_list g ! j = fs" "pr_sys p2 = s'"
    and files: "pr_files p2 = (pr_files p)[i := \<lparr>f_fs = j, f_handle = a, f_flags = fl, f_loc = 0\<rparr>]"
    by (rule opened_by_path [OF can flags(3)]) (use s(1) in \<open>simp_all add: fs_def name\<close>)
  have w: "cafs_holds (Some (to_bytes name)) k a [] ys (sys_world (pr_sys p2))" using s(2) o(3) by simp
  have at: "fd_at g fs p2 i a fl 0" using l mem(3) flags(2) o(2) by (simp add: fd_at_def files)
  show ?thesis
  proof (cases "fl_append fl")
    case False
    then show ?thesis using o(1) at w files by (auto simp: unistd_open_def)
  next
    case True
    have e: "seek_place 0 SEEK_END [] 0 = 0" by (simp add: seek_place_def)
    obtain p3 where p3: "lseek g x st (int i) 0 SEEK_END p2 = Some (0, (), p3)" "moved p2 i 0 p3"
      "cafs_holds (Some (to_bytes name)) k a [] ys (sys_world (pr_sys p3))"
      using cm.fd_seek_effect [OF at [unfolded fs_def] w, where whence = SEEK_END and off = 0 and junk = x and st = st] e by auto
    have "pr_files p3 = pr_files p2" using p3(2) l by (simp add: moved_def files)
    then show ?thesis using o(1) True p3 moved_at [OF at p3(2)] files by (auto simp: unistd_open_def)
  qed
qed

text \<open>Closing through the descriptor, and opening the file again.\<close>

lemma close_by_descriptor:
  assumes f: "fd_at g fs p i a fl pos" and run: "fs_close fs a (pr_sys p) = Some (0, b, s')"
  obtains p' where "unistd_close g x (int i) p = Some (0, (), p')" "pr_sys p' = s'" "pr_files p' = (pr_files p)[i := (pr_files p ! i)\<lparr>f_handle := 0\<rparr>]"
proof -
  have at: "int i < int (length (pr_files p))" "get_handle (nat (int i)) p AND NOT 1 \<noteq> 0" "get_fs g i p = fs" "get_handle i p = a"
    using f by (simp_all add: fd_at_def get_handle_def get_fs_def)
  have "unistd_close g x (int i) p = Some (0, (), unistd_reset_fildes i (upd_file i (\<lambda>f. f\<lparr>f_handle := b\<rparr>) (p\<lparr>pr_sys := s'\<rparr>)))"
    unfolding unistd_close_def by (subst fildes_good) (use at run in simp_all)
  then show thesis by (rule that) (use at in \<open>simp_all add: unistd_reset_fildes_def\<close>)
qed

definition read_only_flags :: "flags \<Rightarrow> bool" where
  "read_only_flags fl \<longleftrightarrow> fl_acc fl = RDONLY \<and> \<not> fl_creat fl \<and> \<not> fl_trunc fl \<and> \<not> fl_append fl"

lemma reopened_by_path:
  fixes g :: "cafs_mount config"
  assumes fs_def: "fs = cafs_lite mp acc alloc junk stack" and can: "can_create g fs i path p" and fl: "read_only_flags fl"
    and name: "name = sysfs_stripmountpath fs (c_str path)" and w: "cafs_stores (to_bytes name) 2 xs ys (sys_world (pr_sys p))"
    and mem: "alloc (sys_world (pr_sys p)) = Some (a, h)" "a AND NOT 1 \<noteq> 0"
  obtains p1 p2 where "unistd_open g x st path fl 0 p = Some (int i, p1)"
    "unistd_read g x st (int i) (int n) p1 = Some (int (length (take n xs)), take n xs, p2)"
    "\<And>l. l \<noteq> i \<Longrightarrow> pr_files p2 ! l = pr_files p ! l"
proof -
  have flags: "fl_acc fl = RDONLY" "\<not> fl_creat fl" "\<not> fl_trunc fl" "\<not> fl_append fl" using fl by (simp_all add: read_only_flags_def)
  have nc: "fl_creat fl \<Longrightarrow> 0 AND S_IFMT \<noteq> S_IFDIR" using flags(2) by simp
  have l: "i < length (pr_files p)" using can by (simp add: can_create_def first_free_fd_def)
  obtain s' where s: "\<And>q m. cm_open_op alloc junk q name fl m (pr_sys p) = Some (0, a, s')" "cafs_reads 2 a xs (sys_world s')"
    using cafs_reopen_effect [where s = "pr_sys p" and alloc = alloc, OF w mem(1) flags(1-3)] by blast
  obtain j p1 where o: "open_at g x path fl 0 p = Some (int i, p1)" "sysfs_list g ! j = fs" "pr_sys p1 = s'"
    and files: "pr_files p1 = (pr_files p)[i := \<lparr>f_fs = j, f_handle = a, f_flags = fl, f_loc = 0\<rparr>]"
    by (rule opened_by_path [OF can nc]) (use s(1) in \<open>simp_all add: fs_def name\<close>)
  obtain s2 where s2: "cm_read_op a fl 0 (int n) s' = Some (int (length (take n xs)), take n xs, s2)"
    using cafs_read_effect [OF s(2)] by blast
  have at: "int i < int (length (pr_files p1))" "get_handle (nat (int i)) p1 AND NOT 1 \<noteq> 0" "get_fs g i p1 = fs"
    using l mem(2) o(2) by (simp_all add: get_handle_def get_fs_def files)
  have "unistd_read g x st (int i) (int n) p1
    = Some (int (length (take n xs)), take n xs, set_loc i (int (length (take n xs))) (p1\<lparr>pr_sys := s2\<rparr>))"
    unfolding unistd_read_def
    by (subst fildes_good) (use at s2 l flags(1) o(3) in \<open>simp_all add: Let_def files fs_def del: length_take\<close>)
  moreover have "unistd_open g x st path fl 0 p = Some (int i, p1)" using o(1) flags(4) by (simp add: unistd_open_def)
  ultimately show thesis using that files by (simp del: length_take)
qed

subsection \<open>Concrete mounts\<close>

text \<open>A disk mounted at \<open>/home\<close>, a process with four descriptors, and the memory of a path.\<close>

definition home_mount :: "u32 \<Rightarrow> cafs_mount sysfs" where
  "home_mount a = cafs_lite ''/home'' 0 (\<lambda>w. Some (a, demo_handle 7 0)) (replicate 28 0) (demo_handle 7 0)"

definition home_config :: "u32 \<Rightarrow> cafs_mount config" where
  "home_config a = \<lparr>sysfs_list = [home_mount a], path_max = 64, name_max = 24, stdin_dev = ''/dev/stdin'', stdout_dev = ''/dev/stdout'',
     stderr_dev = ''/dev/stderr'', stdio_filenos = [512, 513, 514]\<rparr>"

definition create_rdwr :: flags where
  "create_rdwr = rdwr\<lparr>fl_creat := True\<rparr>"

definition home_proc :: "flash \<Rightarrow> (u32 \<Rightarrow> cl_handle option) \<Rightarrow> u32 \<Rightarrow> cafs_mount proc" where
  "home_proc d hs a = \<lparr>pr_sys = \<lparr>sys_errno = ENOERR, sys_world = \<lparr>cm_dev = d, cm_open = True, cm_handles = hs\<rparr>\<rparr>,
     pr_files = \<lparr>f_fs = 0, f_handle = a, f_flags = rdwr, f_loc = 0\<rparr> # replicate 3 \<lparr>f_fs = 0, f_handle = 0, f_flags = rdwr, f_loc = 0\<rparr>,
     pr_stdin = 0, pr_stdout = 0, pr_stderr = 0\<rparr>"

lemma listed_free: "8158 \<le> card (free_blocks listed_disk)"
proof -
  have "card {2 ..< 8160 :: nat} \<le> card (free_blocks listed_disk)"
    by (rule card_mono) (auto simp: free_blocks_def listed_status)
  then show ?thesis by simp
qed

lemma home_ready: "cafs_ready 10 a ''a'' [] (sys_world (pr_sys (home_proc (cl_dev_setserialno 6 listed_disk) hs x)))"
proof -
  have e: "sn_entries (cl_dev_setserialno 6 listed_disk) [1] 0 = []"
    by (simp only: serial_list(2) [OF listed_sn_list(1)] listed_sn_list(2))
  have n: "name_unused (cl_dev_setserialno 6 listed_disk) [1] 0 (to_bytes ''a'')"
    unfolding name_unused_def e by simp
  have none: "7 \<notin> sn_serialno ` set (sn_entries (cl_dev_setserialno 6 listed_disk) [1] 0)" unfolding e by simp
  have "plain_name (to_bytes ''a'')" by (simp add: plain_name_def to_bytes_def of_char_def)
  moreover have "cl_dev_getserialno (cl_dev_setserialno 6 listed_disk) + 1 = 7"
    by (simp add: cl_dev_getserialno_def cl_dev_setserialno_def)
  ultimately show ?thesis unfolding cafs_ready_def Let_def home_proc_def
    by (intro exI [of _ "[1]"] exI [of _ 0] exI [of _ 33] exI [of _ 7])
       (use n none listed_free listed_sound serial_list(1) [OF listed_sn_list(1)] listed_first in simp_all)
qed

subsection \<open>Properties\<close>

text \<open>The blocks a call on a descriptor may take.\<close>

fun fd_blocks :: "fd_call \<Rightarrow> nat" where
  "fd_blocks (FRead n) = 2"
| "fd_blocks (FWrite buf) = 2 * (length buf div 122) + 4"
| "fd_blocks (FSeek off w) = 0"

lemma fd_blocks_cost: "fd_blocks c = cm.cost c"
  by (cases c) simp_all

text \<open>
  C2: The calls on a descriptor of a CAFS file refine operations on a sequence of bytes with a place. Any
  sequence of \<open>read\<close>, \<open>write\<close> and \<open>lseek\<close> calls that starts each transfer inside the file or at its end,
  writes below the largest file, seeks to no place before the start and finds the free blocks it may need
  gives the results of the specification and leaves the bytes and the place it leaves; with O_APPEND every
  write goes to the end of the bytes. The other descriptors of the process do not change, and the files open
  beside it keep their bytes.
\<close>

theorem descriptor_calls_refine:
  assumes "fd_at g (cafs_lite mp acc alloc junk stack) p i a fl pos"
    and "cafs_holds nm (sum_list (map fd_blocks cs) + k) a xs ys (sys_world (pr_sys p))" "fd_ok MAX_FILE fl cs xs pos"
    and "fd_spec fl cs xs pos = (rs, zs, q)"
  shows "\<exists>p'. fd_run g x st (int i) cs p = Some (rs, p') \<and> cafs_holds nm k a zs ys (sys_world (pr_sys p'))
    \<and> pr_files p' = (pr_files p)[i := (pr_files p ! i)\<lparr>f_loc := int q\<rparr>]"
proof -
  have "cafs_holds nm (sum_list (map cm.cost cs) + k) a xs ys (sys_world (pr_sys p))"
    using assms(2) by (simp add: fd_blocks_cost cong: map_cong)
  from cm.fd_run_effect [OF assms(1) this assms(3,4), of x st] show ?thesis by (auto simp: moved_def)
qed

theorem descriptor_calls_refine_witness:
  "\<exists>b1 d1 b2 d2 p'. cl_block_alloc 7 1 BLOCK_TYPE_FILE_LIST blank_disk = Some (b1, d1)
     \<and> cl_block_alloc 8 1 BLOCK_TYPE_FILE_LIST d1 = Some (b2, d2)
     \<and> fd_run (home_config 8) 0 empty_stat 0 [FWrite [1, 2, 3], FSeek 1 SEEK_SET, FRead 5]
         (home_proc d2 [8 \<mapsto> demo_handle 8 b2, 16 \<mapsto> demo_handle 7 b1] 8) = Some ([(3, []), (1, []), (2, [2, 3])], p')
     \<and> cafs_holds None 94 8 [1, 2, 3] [(16, [])] (sys_world (pr_sys p'))"
proof -
  obtain b1 d1 b2 d2 where a: "cl_block_alloc 7 1 BLOCK_TYPE_FILE_LIST blank_disk = Some (b1, d1)"
    "cl_block_alloc 8 1 BLOCK_TYPE_FILE_LIST d1 = Some (b2, d2)" "open_file [b2] (demo_handle 8 b2) (demo_cafs d2) []"
    "open_apart [b2] [b1] (demo_handle 7 b1) (demo_cafs d2) []" "100 \<le> card (free_blocks (cf_dev (demo_cafs d2)))"
    by (rule demo_two)
  let ?p = "home_proc d2 [8 \<mapsto> demo_handle 8 b2, 16 \<mapsto> demo_handle 7 b1] 8" and ?cs = "[FWrite [1, 2, 3], FSeek 1 SEEK_SET, FRead 5] :: fd_call list"
  have at: "fd_at (home_config 8) (home_mount 8) ?p 0 8 rdwr 0"
    by (simp add: fd_at_def home_proc_def home_config_def rdwr_def)
  have o: "open_file [b2] (demo_handle 8 b2) (mounted (sys_world (pr_sys ?p))) []"
    by (rule open_file_dev [OF _ a(3)]) (simp add: home_proc_def)
  have ap: "open_apart [b2] [b1] (demo_handle 7 b1) (mounted (sys_world (pr_sys ?p))) []"
    by (rule open_apart_dev [OF _ a(4)]) (simp add: home_proc_def)
  obtain n V where "opened (demo_handle 8 b2) (cf_dev (demo_cafs d2)) [b2] n V" by (rule open_fileE [OF a(3)])
  then have "b2 < cl_block_gettotal d2" using file_disk_facts(6) [of d2 "[b2]" n] by (simp add: opened_def)
  then have h: "cafs_holds None (sum_list (map fd_blocks ?cs) + 94) 8 [] [(16, [])] (sys_world (pr_sys ?p))"
    unfolding cafs_holds_def using o ap a(5) demo_modes [of 8 b2]
    by (intro exI [of _ "demo_handle 8 b2"] exI [of _ "[b2]"]) (auto simp: home_proc_def demo_handle_def beside_def)
  from descriptor_calls_refine [OF at [unfolded home_mount_def] h, of "[(3, []), (1, []), (2, [2, 3])]" "[1, 2, 3]" 3 0 empty_stat]
  show ?thesis using a(1,2) by (auto simp: write_place_def seek_place_def overwritten_def rdwr_def Let_def)
qed

lemma created_file_run:
  fixes g :: "cafs_mount config"
  assumes fs_def: "fs = cafs_lite mp acc alloc junk stack" and can: "can_create g fs i path p" and fl: "new_file_flags fl mode"
    and name: "name = sysfs_stripmountpath fs (c_str path)"
    and ready: "cafs_ready (sum_list (map fd_blocks cs) + k) a name ys (sys_world (pr_sys p))"
    and mem: "alloc (sys_world (pr_sys p)) = Some (a, h)" "length (bd_data (h_data h)) = 122" "a AND NOT 1 \<noteq> 0" "length junk = 28"
    and ok: "fd_ok MAX_FILE fl cs [] 0" "fd_spec fl cs [] 0 = (rs, zs, q)"
  obtains p1 p2 where "unistd_open g x st path fl mode p = Some (int i, p1)" "fd_run g x st (int i) cs p1 = Some (rs, p2)"
    "cafs_holds (Some (to_bytes name)) k a zs ys (sys_world (pr_sys p2))" "fd_at g fs p2 i a fl q"
    "length (pr_files p2) = length (pr_files p)" "\<And>l. l \<noteq> i \<Longrightarrow> pr_files p2 ! l = pr_files p ! l"
proof -
  obtain p1 j where p1: "unistd_open g x st path fl mode p = Some (int i, p1)" "fd_at g fs p1 i a fl 0"
    "cafs_holds (Some (to_bytes name)) (sum_list (map fd_blocks cs) + k) a [] ys (sys_world (pr_sys p1))"
    "pr_files p1 = (pr_files p)[i := \<lparr>f_fs = j, f_handle = a, f_flags = fl, f_loc = 0\<rparr>]"
    using created_by_path [OF fs_def can fl name ready mem] by blast
  have "cafs_holds (Some (to_bytes name)) (sum_list (map cm.cost cs) + k) a [] ys (sys_world (pr_sys p1))"
    using p1(3) by (simp add: fd_blocks_cost cong: map_cong)
  from cm.fd_run_effect [OF p1(2) [unfolded fs_def] this ok, of x st] obtain p2 where
    p2: "fd_run g x st (int i) cs p1 = Some (rs, p2)" "moved p1 i q p2" "cafs_holds (Some (to_bytes name)) k a zs ys (sys_world (pr_sys p2))"
    by blast
  show thesis by (rule that [OF p1(1) p2(1,3) moved_at [OF p1(2) p2(2)]]) (use p1(4) p2(2) in \<open>simp_all add: moved_def\<close>)
qed

text \<open>
  C1: From a path to the bytes and back, on a mounted disk whose next serial number is unused and which has the free
  blocks the calls may need (2 a read, 2 * (n div 122) + 4 a write of n bytes, 7 more): \<open>open\<close> with O_CREAT and O_RDWR (no directory mode) of a valid path whose plain name, under 26
  bytes, no file has gives the lowest free descriptor. The \<open>read\<close>, \<open>write\<close> and \<open>lseek\<close> calls that follow,
  each transfer starting inside the file or at its end and staying below the largest file, no seek before the start,
  give what they give on an empty sequence of bytes. \<open>close\<close> succeeds, and a second \<open>open\<close> for reading alone
  (no O_CREAT, O_TRUNC or O_APPEND) gives the same descriptor, on which \<open>read\<close> returns the bytes the calls
  left. The allocator of handles is assumed never to fail. No other descriptor changes, and the files that were open
  beside it still have their bytes after the close.
\<close>

theorem file_survives_close:
  fixes g :: "cafs_mount config"
  assumes "can_create g (cafs_lite mp acc alloc junk stack) i path p" "new_file_flags fl mode"
    and "cafs_ready (sum_list (map fd_blocks cs) + 4) a (sysfs_stripmountpath (cafs_lite mp acc alloc junk stack) (c_str path)) ys
      (sys_world (pr_sys p))"
    and "alloc (sys_world (pr_sys p)) = Some (a, h)" "length junk = 28"
    and "\<And>w. \<exists>b m. alloc w = Some (b, m) \<and> b AND NOT 1 \<noteq> 0 \<and> length (bd_data (h_data m)) = 122"
    and "fd_ok MAX_FILE fl cs [] 0" "fd_spec fl cs [] 0 = (rs, zs, q)" "read_only_flags rfl"
  shows "\<exists>p1 p2 p3 p4 p5. unistd_open g x st path fl mode p = Some (int i, p1) \<and> fd_run g x st (int i) cs p1 = Some (rs, p2)
    \<and> unistd_close g x (int i) p2 = Some (0, (), p3) \<and> unistd_open g x st path rfl 0 p3 = Some (int i, p4)
    \<and> unistd_read g x st (int i) (int n) p4 = Some (int (length (take n zs)), take n zs, p5)
    \<and> (\<forall>l. l \<noteq> i \<longrightarrow> pr_files p5 ! l = pr_files p ! l)
    \<and> (\<forall>(b, vs)\<in>set ys. \<exists>e bs. cm_handles (sys_world (pr_sys p3)) b = Some e \<and> open_file bs e (mounted (sys_world (pr_sys p3))) vs)"
proof -
  define fs where "fs = cafs_lite mp acc alloc junk stack"
  define name where "name = sysfs_stripmountpath fs (c_str path)"
  have h: "length (bd_data (h_data h)) = 122" "a AND NOT 1 \<noteq> 0" using assms(4) assms(6) [of "sys_world (pr_sys p)"] by auto
  obtain p1 p2 where p: "unistd_open g x st path fl mode p = Some (int i, p1)" "fd_run g x st (int i) cs p1 = Some (rs, p2)"
    "cafs_holds (Some (to_bytes name)) 4 a zs ys (sys_world (pr_sys p2))" "fd_at g fs p2 i a fl q"
    "length (pr_files p2) = length (pr_files p)" "\<And>l. l \<noteq> i \<Longrightarrow> pr_files p2 ! l = pr_files p ! l"
    by (rule created_file_run [OF fs_def assms(1,2) [folded fs_def] name_def assms(3) [folded fs_def, folded name_def] assms(4) h assms(5,7,8)])
       (rule that, assumption+)
  have "cafs_holds (Some (to_bytes name)) (2 + 2) a zs ys (sys_world (pr_sys p2))" using p(3) by simp
  from cafs_close_effect [OF this] obtain s' where
    c: "cm_close_op a (pr_sys p2) = Some (0, 0, s')" "cafs_stores (to_bytes name) 2 zs ys (sys_world s')" by blast
  have "fs_close fs a (pr_sys p2) = Some (0, 0, s')" using c(1) by (simp add: fs_def)
  then obtain p3 where p3: "unistd_close g x (int i) p2 = Some (0, (), p3)" "pr_sys p3 = s'"
    "pr_files p3 = (pr_files p2)[i := (pr_files p2 ! i)\<lparr>f_handle := 0\<rparr>]" by (rule close_by_descriptor [OF p(4)])
  have can: "can_create g fs i path p3" using assms(1) p(5,6) p3(3) by (simp add: can_create_def first_free_fd_def fs_def)
  have st: "cafs_stores (to_bytes name) 2 zs ys (sys_world (pr_sys p3))" using c(2) p3(2) by simp
  obtain b m where m: "alloc (sys_world (pr_sys p3)) = Some (b, m)" "b AND NOT 1 \<noteq> 0" using assms(6) by blast
  obtain p4 p5 where r: "unistd_open g x st path rfl 0 p3 = Some (int i, p4)"
    "unistd_read g x st (int i) (int n) p4 = Some (int (length (take n zs)), take n zs, p5)"
    "\<And>l. l \<noteq> i \<Longrightarrow> pr_files p5 ! l = pr_files p3 ! l" by (rule reopened_by_path [OF fs_def can assms(9) name_def st m]) (rule that, assumption+)
  have "pr_files p5 ! l = pr_files p ! l" if "l \<noteq> i" for l using r(3) p(6) p3(3) that by simp
  moreover have "\<forall>(b, vs)\<in>set ys. \<exists>e bs. cm_handles (sys_world (pr_sys p3)) b = Some e \<and> open_file bs e (mounted (sys_world (pr_sys p3))) vs"
    using st unfolding cafs_stores_def by blast
  ultimately show ?thesis using p(1,2) p3(1) r(1,2) by blast
qed

theorem file_survives_close_witness:
  "\<exists>p1 p2 p3 p4 p5. unistd_open (home_config 8) 0 empty_stat (''/home/a'' @ [NUL]) create_rdwr 0
       (home_proc (cl_dev_setserialno 6 listed_disk) (\<lambda>_. None) 0) = Some (0, p1)
     \<and> fd_run (home_config 8) 0 empty_stat 0 [FWrite [1, 2, 3], FSeek 1 SEEK_SET, FRead 5] p1
       = Some ([(3, []), (1, []), (2, [2, 3])], p2)
     \<and> unistd_close (home_config 8) 0 0 p2 = Some (0, (), p3)
     \<and> unistd_open (home_config 8) 0 empty_stat (''/home/a'' @ [NUL]) (rdwr\<lparr>fl_acc := RDONLY\<rparr>) 0 p3 = Some (0, p4)
     \<and> unistd_read (home_config 8) 0 empty_stat 0 9 p4 = Some (3, [1, 2, 3], p5)"
proof -
  let ?p = "home_proc (cl_dev_setserialno 6 listed_disk) (\<lambda>_. None) 0" and ?path = "''/home/a'' @ [NUL]"
    and ?cs = "[FWrite [1, 2, 3], FSeek 1 SEEK_SET, FRead 5] :: fd_call list"
  have str: "c_str ?path = ''/home/a''" by (rule c_str_append_NUL) simp
  have valid: "sysfs_ispathinvalid (home_config 8) ?path = None"
    by (subst path_valid [where path = "''/home/a''" and rest = "[]"]) (simp_all add: home_config_def sysfs_validset_def)
  have found: "sysfs_find (home_config 8) (c_str ?path) True = Some 0" unfolding str
    by (simp add: sysfs_find_def home_config_def home_mount_def Let_def Prelude.strncmp_eq_def c_str_def)
  have mount: "sysfs_list (home_config 8) ! 0 = home_mount 8" by (simp add: home_config_def)
  have free: "first_free_fd ?p 0" by (simp add: first_free_fd_def home_proc_def)
  from valid found mount free have c: "can_create (home_config 8) (home_mount 8) 0 ?path ?p" unfolding can_create_def by blast
  have fl: "new_file_flags create_rdwr 0" "read_only_flags (rdwr\<lparr>fl_acc := RDONLY\<rparr>)"
    by (simp_all add: new_file_flags_def read_only_flags_def create_rdwr_def rdwr_def)
  have strip: "sysfs_stripmountpath (home_mount 8) ''/home/a'' = ''a''" by (simp add: sysfs_stripmountpath_def home_mount_def)
  have r: "cafs_ready (sum_list (map fd_blocks ?cs) + 4) 8 (sysfs_stripmountpath (home_mount 8) (c_str ?path)) [] (sys_world (pr_sys ?p))"
    unfolding str strip using home_ready by simp
  have ok: "fd_ok MAX_FILE create_rdwr ?cs [] 0" "fd_spec create_rdwr ?cs [] 0 = ([(3, []), (1, []), (2, [2, 3])], [1, 2, 3], 3)"
    by (simp_all add: write_place_def seek_place_def overwritten_def create_rdwr_def rdwr_def Let_def)
  have mem: "\<exists>b m. Some (8 :: u32, demo_handle 7 0) = Some (b, m) \<and> b AND NOT 1 \<noteq> 0 \<and> length (bd_data (h_data m)) = 122"
    by (simp add: demo_handle_def)
  from file_survives_close [OF c [unfolded home_mount_def] fl(1) r [unfolded home_mount_def] refl _ mem ok fl(2), of 0 empty_stat 9]
  show ?thesis by (simp del: fd_run.simps) blast
qed

end
