(* ===== verification/Malloc.thy ===== *)
theory Malloc
  imports Prelude "HOL-Library.Monad_Syntax"
begin

section \<open>The memory allocator\<close>

text \<open>
  The heap of a process (\<open>sys/syscalls/mallocr.c\<close>, \<open>_realloc.c\<close>, \<open>_sbrk.c\<close>, \<open>mallinfo.c\<close>): slots of 64 bytes, each of
  the form \<open>malloc_chunk_t\<close>. A chunk is a run of slots whose first one carries the header; the header fields of
  the other slots of the run are bytes of the caller. The heap ends at a slot with 0 chunks.
  Slots are numbered from the base of the heap. Where the header of a chunk does not bear its signature the
  code kills the process and spins, which is the value \<open>None\<close> of an operation, as is a loop that does
  not end; in a build for a single task (\<open>single\<close>) it returns -1 instead. The tests of the reentrancy structure and of
  its \<open>procmem_base\<close> for null, and the allocator's lock, are left out: an operation is one step.
\<close>

abbreviation MALLOC_CHUNK_SIZE :: int where "MALLOC_CHUNK_SIZE \<equiv> 64"
abbreviation MALLOC_SBRK_JUMP_SIZE :: int where "MALLOC_SBRK_JUMP_SIZE \<equiv> 128"
abbreviation MALLOC_DATA_SIZE :: u32 where "MALLOC_DATA_SIZE \<equiv> 56"
abbreviation MALLOC_HDR_SIZE :: int where "MALLOC_HDR_SIZE \<equiv> 8"

record malloc_chunk =
  mc_task_id :: byte
  mc_signature :: byte
  mc_num_chunks :: u16
  mc_actual_size :: u32
  mc_memory :: "byte list"

text \<open>\<open>hp_size\<close> is the size of \<open>procmem_base\<close>.\<close>

record heap =
  hp_mem :: "int \<Rightarrow> malloc_chunk"
  hp_size :: int
  hp_errno :: errno

subsection \<open>Headers\<close>

definition malloc_calc_num_chunks :: "u32 \<Rightarrow> u16" where
  "malloc_calc_num_chunks nbytes =
    ucast (if nbytes > MALLOC_DATA_SIZE then (nbytes - MALLOC_DATA_SIZE + 64 - 1) div 64 + 1 else 1)"

text \<open>\<open>~(num_chunks ^ actual_size)\<close>, truncated to the byte it is stored in or compared with\<close>

definition signature_of :: "u16 \<Rightarrow> u32 \<Rightarrow> byte" where
  "signature_of n a = NOT (ucast n XOR ucast a)"

definition malloc_set_chunk_used :: "byte \<Rightarrow> u16 \<Rightarrow> u32 \<Rightarrow> malloc_chunk \<Rightarrow> malloc_chunk" where
  "malloc_set_chunk_used tid n a c =
    c\<lparr>mc_num_chunks := n, mc_actual_size := a, mc_signature := signature_of n a, mc_task_id := tid\<rparr>"

definition malloc_set_chunk_free :: "malloc_chunk \<Rightarrow> malloc_chunk" where
  "malloc_set_chunk_free c = c\<lparr>mc_actual_size := 0, mc_signature := signature_of (mc_num_chunks c) 0\<rparr>"

definition set_last_chunk :: "malloc_chunk \<Rightarrow> malloc_chunk" where
  "set_last_chunk c = c\<lparr>mc_num_chunks := 0, mc_actual_size := 0, mc_signature := signature_of 0 0\<rparr>"

definition malloc_chunk_is_free :: "bool \<Rightarrow> malloc_chunk \<Rightarrow> int option" where
  "malloc_chunk_is_free single c =
    (if mc_signature c \<noteq> signature_of (mc_num_chunks c) (mc_actual_size c) then (if single then Some (-1) else None)
     else Some (if mc_actual_size c = 0 then 1 else 0))"

definition next_chunk :: "(int \<Rightarrow> malloc_chunk) \<Rightarrow> int \<Rightarrow> int" where
  "next_chunk m c = c + uint (mc_num_chunks (m c))"

subsection \<open>Walking the heap\<close>

partial_function (option) find_free_chunk :: "bool \<Rightarrow> (int \<Rightarrow> malloc_chunk) \<Rightarrow> int \<Rightarrow> u16 \<Rightarrow> int option option" where
  "find_free_chunk single m c n =
    (if mc_num_chunks (m c) = 0 then Some None
     else do {
       is_free \<leftarrow> malloc_chunk_is_free single (m c);
       if is_free = -1 then Some None
       else if is_free = 1 \<and> mc_num_chunks (m c) \<ge> n then Some (Some c)
       else find_free_chunk single m (next_chunk m c) n
     })"

partial_function (option) memory_corrupt_loop :: "bool \<Rightarrow> (int \<Rightarrow> malloc_chunk) \<Rightarrow> int \<Rightarrow> int option" where
  "memory_corrupt_loop single m c =
    (if mc_num_chunks (m c) = 0 then Some 0
     else do {
       is_free \<leftarrow> malloc_chunk_is_free single (m c);
       if is_free = -1 then Some (-1) else memory_corrupt_loop single m (next_chunk m c)
     })"

definition is_memory_corrupt :: "bool \<Rightarrow> heap \<Rightarrow> int option" where
  "is_memory_corrupt single h = memory_corrupt_loop single (hp_mem h) 0"

partial_function (option) cleanup_loop
    :: "bool \<Rightarrow> (int \<Rightarrow> malloc_chunk) \<Rightarrow> int \<Rightarrow> int \<Rightarrow> (int \<Rightarrow> malloc_chunk) option" where
  "cleanup_loop single m cur nxt =
    (if mc_num_chunks (m nxt) = 0 then Some m
     else do {
       current_free \<leftarrow> malloc_chunk_is_free single (m cur);
       next_free \<leftarrow> malloc_chunk_is_free single (m nxt);
       if next_free = -1 then Some m
       else let (m1, cur1) =
           (if current_free = 1 \<and> next_free = 1 then
              (m(cur := malloc_set_chunk_free ((m cur)\<lparr>mc_num_chunks := mc_num_chunks (m cur) + mc_num_chunks (m nxt)\<rparr>)), cur)
            else (m, nxt))
         in cleanup_loop single m1 cur1 (next_chunk m1 nxt)
     })"

definition cleanup_memory :: "bool \<Rightarrow> (int \<Rightarrow> malloc_chunk) \<Rightarrow> (int \<Rightarrow> malloc_chunk) option" where
  "cleanup_memory single m = cleanup_loop single m 0 (next_chunk m 0)"

subsection \<open>More memory\<close>

text \<open>
  \<open>stack\<close> is the stack pointer of the thread the heap may not run into, if there is one, relative to the
  base. The result of \<open>_sbrk_r\<close> is relative to the base too.
\<close>

definition sbrk_r :: "int option \<Rightarrow> int \<Rightarrow> heap \<Rightarrow> int option \<times> heap" where
  "sbrk_r stack incr h =
    (case stack of
      Some s \<Rightarrow> if hp_size h + incr > s - MALLOC_SBRK_JUMP_SIZE then (None, h)
        else (Some (hp_size h), h\<lparr>hp_size := hp_size h + incr\<rparr>)
    | None \<Rightarrow> (Some (hp_size h), h\<lparr>hp_size := hp_size h + incr\<rparr>))"

definition get_more_memory :: "int option \<Rightarrow> heap \<Rightarrow> int \<times> heap" where
  "get_more_memory stack h =
    (case sbrk_r stack MALLOC_SBRK_JUMP_SIZE h of
      (None, h1) \<Rightarrow> (-1, h1)
    | (Some addr, h1) \<Rightarrow>
        let c = addr div MALLOC_CHUNK_SIZE; m = hp_mem h1;
            m1 = m(c := malloc_set_chunk_free ((m c)\<lparr>mc_num_chunks := 2\<rparr>));
            l = next_chunk m1 c
        in (0, h1\<lparr>hp_mem := m1(l := set_last_chunk (m1 l))\<rparr>))"

subsection \<open>malloc\<close>

text \<open>An address is relative to the base; \<open>tid\<close> is the id of the running task when it is a thread, or 0.\<close>

definition memory_addr :: "int \<Rightarrow> int" where
  "memory_addr c = c * MALLOC_CHUNK_SIZE + MALLOC_HDR_SIZE"

definition take_chunk :: "byte \<Rightarrow> u16 \<Rightarrow> u32 \<Rightarrow> int \<Rightarrow> (int \<Rightarrow> malloc_chunk) \<Rightarrow> (int \<Rightarrow> malloc_chunk)" where
  "take_chunk tid n nbytes c m =
    (let nx = c + uint n;
         m1 = (if mc_num_chunks (m c) > n
               then m(nx := malloc_set_chunk_free ((m nx)\<lparr>mc_num_chunks := mc_num_chunks (m c) - n\<rparr>)) else m)
     in m1(c := malloc_set_chunk_used tid n nbytes (m1 c)))"

partial_function (option) malloc_loop
    :: "bool \<Rightarrow> byte \<Rightarrow> int option \<Rightarrow> u16 \<Rightarrow> u32 \<Rightarrow> heap \<Rightarrow> (int option \<times> heap) option" where
  "malloc_loop single tid stack n nbytes h = do {
    f \<leftarrow> find_free_chunk single (hp_mem h) 0 n;
    case f of
      None \<Rightarrow> do {
        corrupt \<leftarrow> is_memory_corrupt single h;
        if corrupt \<noteq> 0 then Some (None, h\<lparr>hp_errno := ENOMEM\<rparr>)
        else let (r, h1) = get_more_memory stack h
          in if r < 0 then Some (None, h1\<lparr>hp_errno := ENOMEM\<rparr>)
             else do {
               m \<leftarrow> cleanup_memory single (hp_mem h1);
               malloc_loop single tid stack n nbytes (h1\<lparr>hp_mem := m\<rparr>)
             }
      }
    | Some c \<Rightarrow>
        if mc_num_chunks (hp_mem h c) < n then Some (None, h\<lparr>hp_errno := ENOMEM\<rparr>)
        else Some (Some (memory_addr c), h\<lparr>hp_mem := take_chunk tid n nbytes c (hp_mem h)\<rparr>)
  }"

definition malloc_r :: "bool \<Rightarrow> byte \<Rightarrow> int option \<Rightarrow> u32 \<Rightarrow> heap \<Rightarrow> (int option \<times> heap) option" where
  "malloc_r single tid stack nbytes h =
    (let (r, h1) = (if hp_size h = 0 then get_more_memory stack h else (0, h))
     in if r < 0 then Some (None, h1\<lparr>hp_errno := ENOMEM\<rparr>)
        else malloc_loop single tid stack (malloc_calc_num_chunks nbytes) nbytes h1)"

subsection \<open>free\<close>

definition malloc_chunk_from_addr :: "int \<Rightarrow> int" where
  "malloc_chunk_from_addr addr = addr - MALLOC_HDR_SIZE"

text \<open>\<open>None\<close> is the null pointer. The test of the alignment makes the address one of a slot.\<close>

definition free_r :: "bool \<Rightarrow> int option \<Rightarrow> heap \<Rightarrow> heap option" where
  "free_r single addr h =
    (case addr of
      None \<Rightarrow> Some h
    | Some a \<Rightarrow>
        let chunk = malloc_chunk_from_addr a; c = chunk div MALLOC_CHUNK_SIZE
        in if chunk mod MALLOC_CHUNK_SIZE \<noteq> 0 then Some h
           else do {
             is_free \<leftarrow> malloc_chunk_is_free single (hp_mem h c);
             if is_free \<noteq> 0 then Some h
             else do {
               m \<leftarrow> cleanup_memory single ((hp_mem h)(c := malloc_set_chunk_free (hp_mem h c)));
               Some (h\<lparr>hp_mem := m\<rparr>)
             }
           })"

partial_function (option) free_task_loop :: "bool \<Rightarrow> byte \<Rightarrow> int \<Rightarrow> heap \<Rightarrow> heap option" where
  "free_task_loop single task_id c h =
    (if mc_num_chunks (hp_mem h c) = 0 then Some h
     else let nx = next_chunk (hp_mem h) c
       in do {
         h1 \<leftarrow> (if mc_task_id (hp_mem h c) = task_id then free_r single (Some (memory_addr c)) h else Some h);
         free_task_loop single task_id nx h1
       })"

definition malloc_free_task_r :: "bool \<Rightarrow> byte \<Rightarrow> heap \<Rightarrow> heap option" where
  "malloc_free_task_r single task_id h = free_task_loop single task_id 0 h"

subsection \<open>realloc\<close>

text \<open>
  The address is not tested for its alignment here; the model takes one that belongs to a slot. The tests
  compare the unsigned 16-bit counts as \<open>int\<close>, and the stores truncate.
\<close>

definition realloc_r :: "bool \<Rightarrow> byte \<Rightarrow> int option \<Rightarrow> int option \<Rightarrow> u32 \<Rightarrow> heap \<Rightarrow> (int option \<times> heap) option" where
  "realloc_r single tid stack addr nbytes h =
    (if nbytes = 0 then map_option (\<lambda>h1. (None, h1)) (free_r single addr h)
     else case addr of
       None \<Rightarrow> malloc_r single tid stack nbytes h
     | Some a \<Rightarrow>
         if hp_size h = 0 then Some (None, h\<lparr>hp_errno := ENOMEM\<rparr>)
         else let n = malloc_calc_num_chunks nbytes; c = malloc_chunk_from_addr a div MALLOC_CHUNK_SIZE; m = hp_mem h
           in do {
             is_free \<leftarrow> malloc_chunk_is_free single (m c);
             if is_free \<noteq> 0 then Some (None, h\<lparr>hp_errno := EINVAL\<rparr>)
             else if n < mc_num_chunks (m c) then
               let free_chunks = mc_num_chunks (m c) - n; m1 = m(c := malloc_set_chunk_used tid n nbytes (m c));
                   nx = c + uint n
               in Some (addr, h\<lparr>hp_mem := m1(nx := malloc_set_chunk_free ((m1 nx)\<lparr>mc_num_chunks := free_chunks\<rparr>))\<rparr>)
             else let nx = next_chunk m c in do {
               next_free \<leftarrow> malloc_chunk_is_free single (m nx);
               let free_chunks = mc_num_chunks (m nx) + mc_num_chunks (m c);
               if next_free = 1 \<and> free_chunks < n then
                 let m1 = m(c := malloc_set_chunk_used tid n nbytes (m c)); nx1 = next_chunk m1 c
                 in Some (addr, h\<lparr>hp_mem := m1(nx1 := malloc_set_chunk_free ((m1 nx1)\<lparr>mc_num_chunks := n - free_chunks\<rparr>))\<rparr>)
               else if next_free = 1 \<and> free_chunks = n then
                 Some (addr, h\<lparr>hp_mem := m(c := malloc_set_chunk_used tid n nbytes (m c))\<rparr>)
               else do {
                 (alloc, h1) \<leftarrow> malloc_r single tid stack nbytes h;
                 h2 \<leftarrow> (if alloc \<noteq> None then free_r single addr h1 else Some h1);
                 Some (alloc, h2)
               }
             }
           })"

subsection \<open>mallinfo\<close>

record mallinfo =
  mi_arena :: int
  mi_ordblks :: int
  mi_fordblks :: int
  mi_uordblks :: int

partial_function (option) mallinfo_loop
    :: "bool \<Rightarrow> (int \<Rightarrow> malloc_chunk) \<Rightarrow> int \<Rightarrow> int \<Rightarrow> int \<Rightarrow> int \<Rightarrow> (int \<times> int \<times> int) option option" where
  "mallinfo_loop single m c total_chunks free_chunks used =
    (if mc_num_chunks (m c) = 0 then Some (Some (total_chunks, free_chunks, used))
     else do {
       is_free \<leftarrow> malloc_chunk_is_free single (m c);
       if is_free = -1 then Some None
       else let n = uint (mc_num_chunks (m c))
         in mallinfo_loop single m (next_chunk m c) (total_chunks + n)
              (if is_free = 1 then free_chunks + n else free_chunks)
              (if is_free = 1 then used else used + uint (mc_actual_size (m c)))
     })"

definition mallinfo_r :: "bool \<Rightarrow> heap \<Rightarrow> mallinfo option" where
  "mallinfo_r single h = do {
    t \<leftarrow> mallinfo_loop single (hp_mem h) 0 0 0 0;
    Some (case t of
      None \<Rightarrow> \<lparr>mi_arena = 0, mi_ordblks = 0, mi_fordblks = 0, mi_uordblks = 0\<rparr>
    | Some (total_chunks, free_chunks, used) \<Rightarrow>
        \<lparr>mi_arena = total_chunks * MALLOC_CHUNK_SIZE + MALLOC_HDR_SIZE, mi_ordblks = free_chunks,
         mi_fordblks = free_chunks * MALLOC_CHUNK_SIZE, mi_uordblks = used\<rparr>)
  }"

end
