(* ===== verification/Heap.thy ===== *)
theory Heap
  imports Malloc
begin

section \<open>The heap as a sequence of chunks\<close>

text \<open>
  The abstraction of the heap of \<open>Malloc\<close> to the list of its chunks, what each operation does to the list,
  and the properties of the allocator.
\<close>

subsection \<open>The chunks of a heap\<close>

text \<open>A heap as the list of its chunks: the number of slots and the size asked for, 0 for a free chunk.\<close>

type_synonym tile = "u16 \<times> u32"

fun tiles :: "(int \<Rightarrow> malloc_chunk) \<Rightarrow> int \<Rightarrow> tile list \<Rightarrow> bool" where
  "tiles m c [] \<longleftrightarrow> mc_num_chunks (m c) = 0"
| "tiles m c ((n, a) # ts) \<longleftrightarrow> n \<noteq> 0 \<and> mc_num_chunks (m c) = n \<and> mc_actual_size (m c) = a
     \<and> mc_signature (m c) = signature_of n a \<and> tiles m (c + uint n) ts"

fun slots :: "tile list \<Rightarrow> int" where
  "slots [] = 0"
| "slots ((n, a) # ts) = uint n + slots ts"

fun place :: "int \<Rightarrow> tile list \<Rightarrow> (int \<times> u16 \<times> u32) list" where
  "place c [] = []"
| "place c ((n, a) # ts) = (c, n, a) # place (c + uint n) ts"

definition blocks :: "int \<Rightarrow> tile list \<Rightarrow> (int \<times> u16 \<times> u32) set" where
  "blocks c ts = {(s, n, a). (s, n, a) \<in> set (place c ts) \<and> a \<noteq> 0}"

definition free_slots :: "int \<Rightarrow> tile list \<Rightarrow> int set" where
  "free_slots c ts = {i. \<exists>s n. (s, n, 0) \<in> set (place c ts) \<and> s \<le> i \<and> i < s + uint n}"

lemma uint_pos: "n \<noteq> (0 :: 'a::len word) \<Longrightarrow> 0 < uint n"
  by (simp add: less_le uint_0_iff eq_commute [of 0])

lemma slots_nonneg [simp]: "0 \<le> slots ts"
  by (induction ts rule: slots.induct) auto

lemma slots_append [simp]: "slots (ts @ us) = slots ts + slots us"
  by (induction ts rule: slots.induct) auto

lemma place_append: "place c (ts @ us) = place c ts @ place (c + slots ts) us"
  by (induction c ts rule: place.induct) (auto simp: add.assoc)

lemma blocks_Nil [simp]: "blocks c [] = {}"
  by (simp add: blocks_def)

lemma blocks_Cons [simp]: "blocks c ((n, a) # ts) = (if a = 0 then {} else {(c, n, a)}) \<union> blocks (c + uint n) ts"
  by (auto simp: blocks_def)

lemma blocks_append [simp]: "blocks c (ts @ us) = blocks c ts \<union> blocks (c + slots ts) us"
  by (auto simp: blocks_def place_append)

lemma free_slots_Nil [simp]: "free_slots c [] = {}"
  by (simp add: free_slots_def)

lemma free_slots_Cons [simp]:
  "free_slots c ((n, a) # ts) = (if a = 0 then {c ..< c + uint n} else {}) \<union> free_slots (c + uint n) ts"
  by (simp add: free_slots_def) force

lemma free_slots_append [simp]: "free_slots c (ts @ us) = free_slots c ts \<union> free_slots (c + slots ts) us"
  by (induction c ts rule: place.induct) (auto simp: add.assoc)

lemma place_range: "(s, n, a) \<in> set (place c ts) \<Longrightarrow> c \<le> s \<and> s + uint n \<le> c + slots ts"
proof (induction c ts rule: place.induct)
  case (2 c k e ts)
  note nn = uint_ge_0 [of k] slots_nonneg [of ts]
  show ?case
  proof (cases "(s, n, a) = (c, k, e)")
    case True
    then show ?thesis using nn by simp
  next
    case False
    then have "(s, n, a) \<in> set (place (c + uint k) ts)" using "2.prems" by auto
    from "2.IH" [OF this] have "c + uint k \<le> s \<and> s + uint n \<le> c + uint k + slots ts" .
    then show ?thesis using nn unfolding slots.simps by linarith
  qed
qed simp

lemma blocks_range: "(s, n, a) \<in> blocks c ts \<Longrightarrow> c \<le> s \<and> s + uint n \<le> c + slots ts \<and> a \<noteq> 0"
  by (auto simp: blocks_def dest: place_range)

lemma free_slots_range: "i \<in> free_slots c ts \<Longrightarrow> c \<le> i \<and> i < c + slots ts"
  by (auto simp: free_slots_def dest: place_range)

text \<open>Chunks do not overlap each other or the free slots.\<close>

lemma blocks_disjoint:
  "b \<in> blocks c ts \<Longrightarrow> b' \<in> blocks c ts \<Longrightarrow> b = (s, n, a) \<Longrightarrow> b' = (s', n', a') \<Longrightarrow> b \<noteq> b' \<Longrightarrow> s + uint n \<le> s' \<or> s' + uint n' \<le> s"
proof (induction c ts rule: place.induct)
  case (2 c k e ts)
  then show ?case using blocks_range [of s n a "c + uint k" ts] blocks_range [of s' n' a' "c + uint k" ts]
    by (auto split: if_splits)
qed simp

lemma blocks_not_free: "(s, n, a) \<in> blocks c ts \<Longrightarrow> s \<le> i \<Longrightarrow> i < s + uint n \<Longrightarrow> i \<notin> free_slots c ts"
proof (induction c ts rule: place.induct)
  case (2 c k e ts)
  then show ?case using blocks_range [of s n a "c + uint k" ts] free_slots_range [of i "c + uint k" ts]
    by (auto split: if_splits)
qed simp

lemma tiles_frame:
  "tiles m c ts \<Longrightarrow> (\<And>i. c \<le> i \<Longrightarrow> i \<le> c + slots ts \<Longrightarrow> m' i = m i) \<Longrightarrow> tiles m' c ts"
proof (induction m c ts rule: tiles.induct)
  case (2 m c n a ts)
  have "m' i = m i" if "c + uint n \<le> i" "i \<le> c + uint n + slots ts" for i
    by (rule "2.prems"(2)) (use that uint_ge_0 [of n] in \<open>unfold slots.simps, linarith+\<close>)
  then have "tiles m' (c + uint n) ts" using "2.prems"(1) by (intro "2.IH") simp_all
  moreover have "m' c = m c" using "2.prems"(2) [of c] by simp
  ultimately show ?case using "2.prems"(1) by simp
qed simp

text \<open>The part before the last slot determines the tiles; the end may be written anew.\<close>

lemma tiles_append:
  "tiles m c ts \<Longrightarrow> (\<And>i. c \<le> i \<Longrightarrow> i < c + slots ts \<Longrightarrow> m' i = m i) \<Longrightarrow> tiles m' (c + slots ts) us \<Longrightarrow> tiles m' c (ts @ us)"
proof (induction m c ts rule: tiles.induct)
  case (2 m c n a ts)
  have n: "0 < uint n" using "2.prems"(1) by (intro uint_pos) simp
  have "m' i = m i" if "c + uint n \<le> i" "i < c + uint n + slots ts" for i
    by (rule "2.prems"(2)) (use that uint_ge_0 [of n] in \<open>unfold slots.simps, linarith+\<close>)
  then have "tiles m' (c + uint n) (ts @ us)"
    using "2.prems"(1,3) by (intro "2.IH") (simp_all add: add.assoc)
  moreover have "m' c = m c" using "2.prems"(2) [of c] n by (simp add: add_pos_nonneg)
  ultimately show ?case using "2.prems"(1) by simp
qed simp

subsection \<open>Walking the chunks\<close>

lemma tiles_free: "tiles m c ((n, a) # ts) \<Longrightarrow> malloc_chunk_is_free single (m c) = Some (if a = 0 then 1 else 0)"
  by (auto simp: malloc_chunk_is_free_def)

fun first_fit :: "int \<Rightarrow> tile list \<Rightarrow> u16 \<Rightarrow> int option" where
  "first_fit c [] k = None"
| "first_fit c ((n, a) # ts) k = (if a = 0 \<and> k \<le> n then Some c else first_fit (c + uint n) ts k)"

lemma find_free_chunk_tiles: "tiles m c ts \<Longrightarrow> find_free_chunk single m c k = Some (first_fit c ts k)"
proof (induction c ts k rule: first_fit.induct)
  case (1 c k)
  then show ?case by (simp add: find_free_chunk.simps)
next
  case (2 c n a ts k)
  then have "find_free_chunk single m (next_chunk m c) k = Some (first_fit (c + uint n) ts k)" if "\<not> (a = 0 \<and> k \<le> n)"
    using that by (simp add: next_chunk_def)
  then show ?case using 2(2) tiles_free [OF 2(2)] by (subst find_free_chunk.simps) auto
qed

lemma memory_corrupt_tiles: "tiles m c ts \<Longrightarrow> memory_corrupt_loop single m c = Some 0"
proof (induction m c ts rule: tiles.induct)
  case (1 m c)
  then show ?case by (simp add: memory_corrupt_loop.simps)
next
  case (2 m c n a ts)
  then show ?case using tiles_free [OF "2.prems"] by (subst memory_corrupt_loop.simps) (auto simp: next_chunk_def)
qed

text \<open>Neighbouring free chunks become one.\<close>

fun coalesce :: "tile list \<Rightarrow> tile list" where
  "coalesce [] = []"
| "coalesce [t] = [t]"
| "coalesce ((n, a) # (k, b) # ts) =
    (if a = 0 \<and> b = 0 then coalesce ((n + k, 0) # ts) else (n, a) # coalesce ((k, b) # ts))"

lemma uint_add_16: "uint (n :: u16) + uint k < 65536 \<Longrightarrow> uint (n + k) = uint n + uint k"
  by (simp add: uint_word_ariths)

lemma ivl_join: "0 \<le> x \<Longrightarrow> 0 \<le> y \<Longrightarrow> {c ..< c + x} \<union> ({c + x ..< c + (x + y)} \<union> S) = {c ..< c + (x + y)} \<union> S" for c :: int
  by auto

lemma coalesce_facts:
  "slots ts < 65536 \<Longrightarrow> slots (coalesce ts) = slots ts \<and> blocks c (coalesce ts) = blocks c ts \<and> free_slots c (coalesce ts) = free_slots c ts"
proof (induction ts arbitrary: c rule: coalesce.induct)
  case (3 n a k b ts)
  have s: "uint n + uint k < 65536" using "3.prems" slots_nonneg [of ts] unfolding slots.simps by linarith
  show ?case
  proof (cases "a = 0 \<and> b = 0")
    case True
    have "slots ((n + k, 0) # ts) < 65536" using "3.prems" uint_add_16 [OF s] by simp
    from "3.IH"(1) [OF True this, of c] True show ?thesis
      using uint_add_16 [OF s] ivl_join [of "uint n" "uint k" c] by (simp add: add.assoc)
  next
    case False
    have "slots ((k, b) # ts) < 65536" using "3.prems" uint_ge_0 [of n] unfolding slots.simps by linarith
    from "3.IH"(2) [OF False this, of "c + uint n"] False show ?thesis by auto
  qed
qed auto

lemma cleanup_loop_tiles:
  "tiles m c ((n, a) # ts) \<Longrightarrow> slots ((n, a) # ts) < 65536 \<Longrightarrow>
   \<exists>m'. cleanup_loop single m c (c + uint n) = Some m' \<and> tiles m' c (coalesce ((n, a) # ts))
     \<and> (\<forall>i. i \<notin> free_slots c ((n, a) # ts) \<longrightarrow> m' i = m i)
     \<and> (\<forall>i. m' i = m i \<or> malloc_chunk_is_free single (m' i) = Some 1)"
proof (induction ts arbitrary: m c n a)
  case Nil
  then show ?case by (intro exI [of _ m]) (simp add: cleanup_loop.simps)
next
  case (Cons t ts)
  obtain k b where t: "t = (k, b)" by (cases t)
  have T: "tiles m (c + uint n) ((k, b) # ts)" and hd: "n \<noteq> 0" "mc_num_chunks (m c) = n" using Cons.prems(1) t by simp_all
  have k: "k \<noteq> 0" "mc_num_chunks (m (c + uint n)) = k" using T by simp_all
  have s: "uint n + uint k < 65536" "slots ((k, b) # ts) < 65536"
    using Cons.prems(2) slots_nonneg [of ts] uint_ge_0 [of n] unfolding t slots.simps by linarith+
  have ne: "c \<noteq> c + uint n" using uint_pos [OF hd(1)] by simp
  have f1: "malloc_chunk_is_free single (m c) = Some (if a = 0 then 1 else 0)" by (rule tiles_free [OF Cons.prems(1)])
  have f2: "malloc_chunk_is_free single (m (c + uint n)) = Some (if b = 0 then 1 else 0)" by (rule tiles_free [OF T])
  show ?case
  proof (cases "a = 0 \<and> b = 0")
    case True
    let ?m = "m(c := malloc_set_chunk_free ((m c)\<lparr>mc_num_chunks := n + k\<rparr>))"
    have u: "uint (n + k) = uint n + uint k" by (rule uint_add_16 [OF s(1)])
    have "0 < uint (n + k)" unfolding u using uint_pos [OF hd(1)] uint_ge_0 [of k] by linarith
    then have nz: "n + k \<noteq> 0" by auto
    have "tiles ?m (c + uint n + uint k) ts"
    proof (rule tiles_frame [of m])
      show "tiles m (c + uint n + uint k) ts" using T by simp
      fix i assume "c + uint n + uint k \<le> i"
      then have "i \<noteq> c" using uint_pos [OF hd(1)] uint_ge_0 [of k] by linarith
      then show "?m i = m i" by simp
    qed
    then have T': "tiles ?m c ((n + k, 0) # ts)" using nz u by (simp add: malloc_set_chunk_free_def add.assoc)
    have st: "slots ((n + k, 0) # ts) < 65536" using Cons.prems(2) t u by simp
    from Cons.IH [OF T' st] obtain m' where m': "cleanup_loop single ?m c (c + uint (n + k)) = Some m'"
      "tiles m' c (coalesce ((n + k, 0) # ts))" "\<forall>i. i \<notin> free_slots c ((n + k, 0) # ts) \<longrightarrow> m' i = ?m i"
      "\<forall>i. m' i = ?m i \<or> malloc_chunk_is_free single (m' i) = Some 1" by blast
    have run: "cleanup_loop single m c (c + uint n) = cleanup_loop single ?m c (c + uint (n + k))"
      using True f1 f2 k ne hd(2) by (subst cleanup_loop.simps) (simp add: next_chunk_def u add.assoc)
    have "c \<in> free_slots c ((n, a) # t # ts)" using True uint_pos [OF hd(1)] by simp
    moreover have "free_slots c ((n + k, 0) # ts) \<subseteq> free_slots c ((n, a) # t # ts)" using True t u by (auto simp: add.assoc)
    ultimately have ic: "i \<noteq> c" "i \<notin> free_slots c ((n + k, 0) # ts)" if "i \<notin> free_slots c ((n, a) # t # ts)" for i
      using that by blast+
    have fr: "m' i = m i" if "i \<notin> free_slots c ((n, a) # t # ts)" for i
      using m'(3) [rule_format, OF ic(2) [OF that]] ic(1) [OF that] by simp
    have "malloc_chunk_is_free single (?m c) = Some 1" by (simp add: malloc_set_chunk_free_def malloc_chunk_is_free_def)
    then have wh: "m' i = m i \<or> malloc_chunk_is_free single (m' i) = Some 1" for i
      using m'(4) [rule_format, of i] by (cases "i = c") auto
    have "coalesce ((n, a) # t # ts) = coalesce ((n + k, 0) # ts)" using True t by simp
    with m'(1,2) fr wh run show ?thesis by metis
  next
    case False
    from Cons.IH [OF T s(2)] obtain m' where m': "cleanup_loop single m (c + uint n) (c + uint n + uint k) = Some m'"
      "tiles m' (c + uint n) (coalesce ((k, b) # ts))" "\<forall>i. i \<notin> free_slots (c + uint n) ((k, b) # ts) \<longrightarrow> m' i = m i"
      "\<forall>i. m' i = m i \<or> malloc_chunk_is_free single (m' i) = Some 1" by blast
    have run: "cleanup_loop single m c (c + uint n) = cleanup_loop single m (c + uint n) (c + uint n + uint k)"
      using False f1 f2 k by (subst cleanup_loop.simps) (auto simp: next_chunk_def)
    have "c \<notin> free_slots (c + uint n) ((k, b) # ts)" using free_slots_range [of c "c + uint n" "(k, b) # ts"] uint_pos [OF hd(1)] by linarith
    then have "m' c = m c" using m'(3) by simp
    then have "tiles m' c (coalesce ((n, a) # t # ts))" using False t m'(2) Cons.prems(1) by auto
    moreover have "\<forall>i. i \<notin> free_slots c ((n, a) # t # ts) \<longrightarrow> m' i = m i" using m'(3) t by auto
    ultimately show ?thesis using run m'(1,4) by simp
  qed
qed

lemma cleanup_memory_tiles:
  assumes "tiles m 0 ts" "ts \<noteq> []" "slots ts < 65536"
  obtains m' where "cleanup_memory single m = Some m'" "tiles m' 0 (coalesce ts)" "\<And>i. i \<notin> free_slots 0 ts \<Longrightarrow> m' i = m i"
    "\<And>i. m' i = m i \<or> malloc_chunk_is_free single (m' i) = Some 1"
proof -
  obtain n a us where ts: "ts = (n, a) # us" using assms(2) by (cases ts) auto
  have "next_chunk m 0 = 0 + uint n" using assms(1) ts by (simp add: next_chunk_def)
  then show thesis using that cleanup_loop_tiles [of m 0 n a us single] assms(1,3) unfolding ts cleanup_memory_def by metis
qed

subsection \<open>Well-formed heaps\<close>

text \<open>Before the first allocation the memory holds anything.\<close>

definition heap_ok :: "heap \<Rightarrow> tile list \<Rightarrow> bool" where
  "heap_ok h ts \<longleftrightarrow> hp_size h = MALLOC_CHUNK_SIZE * slots ts \<and> slots ts < 65536 \<and> (ts \<noteq> [] \<longrightarrow> tiles (hp_mem h) 0 ts)"

text \<open>The slots of the chunks in use, and what has not changed.\<close>

definition keeps_used :: "tile list \<Rightarrow> heap \<Rightarrow> heap \<Rightarrow> bool" where
  "keeps_used ts h h' \<longleftrightarrow> (\<forall>(s, n, a)\<in>blocks 0 ts. \<forall>i. s \<le> i \<and> i < s + uint n \<longrightarrow> hp_mem h' i = hp_mem h i)"

lemma keeps_usedI:
  assumes "\<And>i. 0 \<le> i \<Longrightarrow> i < slots ts \<Longrightarrow> i \<notin> free_slots 0 ts \<Longrightarrow> hp_mem h' i = hp_mem h i"
  shows "keeps_used ts h h'"
  unfolding keeps_used_def
proof (clarify)
  fix s n a i assume b: "(s, n, a) \<in> blocks 0 ts" "s \<le> i" "i < s + uint n"
  from blocks_range [OF b(1)] blocks_not_free [OF b] b(2,3) assms show "hp_mem h' i = hp_mem h i" by simp
qed

lemma keeps_used_trans:
  "keeps_used ts h h1 \<Longrightarrow> keeps_used us h1 h2 \<Longrightarrow> blocks 0 ts \<subseteq> blocks 0 us \<Longrightarrow> keeps_used ts h h2"
  unfolding keeps_used_def by fastforce

lemma keeps_used_refl [simp]: "keeps_used ts h h"
  by (simp add: keeps_used_def)

subsection \<open>More memory\<close>

definition sbrk_refuses :: "int option \<Rightarrow> heap \<Rightarrow> bool" where
  "sbrk_refuses stack h \<longleftrightarrow> (\<exists>s. stack = Some s \<and> hp_size h + 128 > s - 128)"

lemma get_more_memory_refused: "sbrk_refuses stack h \<Longrightarrow> get_more_memory stack h = (-1, h)"
  by (auto simp: sbrk_refuses_def get_more_memory_def sbrk_r_def)

lemma get_more_memory_effect:
  assumes ok: "heap_ok h ts" and room: "\<not> sbrk_refuses stack h" "slots ts + 2 < 65536"
  obtains h' where "get_more_memory stack h = (0, h')" "heap_ok h' (ts @ [(2, 0)])" "hp_size h' = hp_size h + 128"
    "keeps_used ts h h'" "hp_errno h' = hp_errno h"
proof -
  let ?c = "slots ts"
  have dv: "hp_size h div MALLOC_CHUNK_SIZE = ?c" using ok by (simp add: heap_ok_def)
  define m1 where "m1 = (hp_mem h)(?c := malloc_set_chunk_free ((hp_mem h ?c)\<lparr>mc_num_chunks := 2\<rparr>))"
  define m2 where "m2 = m1(?c + 2 := set_last_chunk (m1 (?c + 2)))"
  define h' where "h' = h\<lparr>hp_size := hp_size h + 128, hp_mem := m2\<rparr>"
  have nx: "next_chunk m1 ?c = ?c + 2" by (simp add: next_chunk_def m1_def malloc_set_chunk_free_def)
  have mx: "m1 (?c + 2) = hp_mem h (?c + 2)" by (simp add: m1_def)
  have run: "get_more_memory stack h = (0, h')"
    using room(1) dv nx mx by (auto simp: get_more_memory_def sbrk_r_def sbrk_refuses_def Let_def m1_def [symmetric] m2_def h'_def
        split: option.splits)
  have "tiles m2 ?c [(2, 0)]"
    by (simp add: m2_def m1_def malloc_set_chunk_free_def set_last_chunk_def)
  then have "tiles m2 (0 + ?c) [(2, 0)]" by simp
  moreover have old: "m2 i = hp_mem h i" if "i < ?c" for i using that by (simp add: m2_def m1_def)
  ultimately have "tiles m2 0 (ts @ [(2, 0)])"
    using ok tiles_append [of "hp_mem h" 0 ts m2 "[(2, 0)]"] by (cases "ts = []") (auto simp: heap_ok_def)
  then have "heap_ok h' (ts @ [(2, 0)])" using ok room(2) by (simp add: heap_ok_def h'_def)
  moreover have "keeps_used ts h h'" by (rule keeps_usedI) (use old in \<open>simp add: h'_def\<close>)
  ultimately show thesis by (intro that [OF run]) (simp_all add: h'_def)
qed

lemma cleanup_heap:
  assumes "heap_ok h ts" "ts \<noteq> []"
  obtains m where "cleanup_memory single (hp_mem h) = Some m" "heap_ok (h\<lparr>hp_mem := m\<rparr>) (coalesce ts)"
    "keeps_used ts h (h\<lparr>hp_mem := m\<rparr>)" "\<And>i. i \<notin> free_slots 0 ts \<Longrightarrow> m i = hp_mem h i"
    "\<And>i. m i = hp_mem h i \<or> malloc_chunk_is_free single (m i) = Some 1"
proof -
  from assms have t: "tiles (hp_mem h) 0 ts" "slots ts < 65536" by (auto simp: heap_ok_def)
  obtain m where m: "cleanup_memory single (hp_mem h) = Some m" "tiles m 0 (coalesce ts)" "\<And>i. i \<notin> free_slots 0 ts \<Longrightarrow> m i = hp_mem h i"
    "\<And>i. m i = hp_mem h i \<or> malloc_chunk_is_free single (m i) = Some 1"
    by (rule cleanup_memory_tiles [OF t(1) assms(2) t(2)]) blast
  have "heap_ok (h\<lparr>hp_mem := m\<rparr>) (coalesce ts)" using assms(1) m(2) coalesce_facts [OF t(2)] by (simp add: heap_ok_def)
  moreover have "keeps_used ts h (h\<lparr>hp_mem := m\<rparr>)" by (rule keeps_usedI) (use m(3) in simp)
  ultimately show thesis using that m by blast
qed

subsection \<open>Taking a chunk\<close>

text \<open>First fit, with the rest of the chunk free.\<close>

fun allot :: "u16 \<Rightarrow> u32 \<Rightarrow> tile list \<Rightarrow> tile list" where
  "allot k x [] = []"
| "allot k x ((n, a) # ts) =
    (if a = 0 \<and> k \<le> n then (k, x) # (if k < n then [(n - k, 0)] else []) @ ts else (n, a) # allot k x ts)"

lemma uint_diff_16: "(k :: u16) \<le> n \<Longrightarrow> uint (n - k) = uint n - uint k"
  by (simp add: uint_minus_simple_alt word_le_def)

lemma allot_facts:
  "first_fit c ts k = Some s \<Longrightarrow> k \<noteq> 0 \<Longrightarrow> slots (allot k x ts) = slots ts
     \<and> blocks c (allot k x ts) = (if x = 0 then {} else {(s, k, x)}) \<union> blocks c ts
     \<and> c \<le> s \<and> s + uint k \<le> c + slots ts \<and> {s ..< s + uint k} \<subseteq> free_slots c ts"
proof (induction c ts k rule: first_fit.induct)
  case (2 c n a ts k)
  show ?case
  proof (cases "a = 0 \<and> k \<le> n")
    case True
    then have s: "s = c" using "2.prems" by simp
    have le: "uint k \<le> uint n" using True by (simp add: word_le_def)
    have kn: "k = n" if "\<not> k < n" using that True by simp
    show ?thesis using True s le kn uint_diff_16 [of k n] add_increasing2 [OF slots_nonneg [of ts] le]
      by (cases "k < n") (auto simp: add.assoc)
  next
    case False
    then have f: "first_fit (c + uint n) ts k = Some s" using "2.prems" by (auto split: if_splits)
    have "c \<le> s" if "c + uint n \<le> s" using that uint_ge_0 [of n] by linarith
    with "2.IH" [OF False f "2.prems"(2)] False show ?thesis by (auto simp: add.assoc)
  qed
qed simp

lemma take_chunk_tiles:
  "tiles m c ts \<Longrightarrow> first_fit c ts k = Some s \<Longrightarrow> k \<noteq> 0 \<Longrightarrow> tiles (take_chunk tid k x s m) c (allot k x ts)
     \<and> (\<forall>i. i \<notin> free_slots c ts \<longrightarrow> take_chunk tid k x s m i = m i) \<and> k \<le> mc_num_chunks (m s)"
proof (induction c ts k rule: first_fit.induct)
  case (2 c n a ts k)
  have T: "tiles m (c + uint n) ts" and hd: "n \<noteq> 0" "mc_num_chunks (m c) = n" using "2.prems"(1) by simp_all
  show ?case
  proof (cases "a = 0 \<and> k \<le> n")
    case True
    then have s: "s = c" using "2.prems" by simp
    have le: "uint k \<le> uint n" using True by (simp add: word_le_def)
    have k: "0 < uint k" by (rule uint_pos [OF "2.prems"(3)])
    let ?m = "take_chunk tid k x c m"
    have fr: "?m i = m i" if "i \<notin> {c ..< c + uint n}" for i
    proof -
      have "i \<noteq> c" using that k le by auto
      moreover have "i \<noteq> c + uint k" if "n > k" using \<open>i \<notin> _\<close> that k by (auto simp: word_less_def)
      ultimately show ?thesis using hd(2) by (auto simp: take_chunk_def Let_def)
    qed
    have tl: "tiles ?m (c + uint n) ts"
      by (rule tiles_frame [OF T]) (use fr in auto)
    have "tiles ?m c (allot k x ((n, a) # ts))"
    proof (cases "k < n")
      case True
      have "n - k \<noteq> 0" using True by auto
      moreover have e: "c + uint k + uint (n - k) = c + uint n" using uint_diff_16 [of k n] True by simp
      moreover have "tiles ?m (c + uint k + uint (n - k)) ts" using tl unfolding e .
      moreover have "?m c = malloc_set_chunk_used tid k x (m c)"
        "?m (c + uint k) = malloc_set_chunk_free ((m (c + uint k))\<lparr>mc_num_chunks := n - k\<rparr>)"
        using True hd(2) k by (simp_all add: take_chunk_def Let_def)
      ultimately show ?thesis using True \<open>a = 0 \<and> k \<le> n\<close> "2.prems"(3)
        by (simp add: malloc_set_chunk_used_def malloc_set_chunk_free_def)
    next
      case False
      then have "k = n" using \<open>a = 0 \<and> k \<le> n\<close> by simp
      then show ?thesis using hd tl \<open>a = 0 \<and> k \<le> n\<close>
        by (auto simp: take_chunk_def Let_def malloc_set_chunk_used_def)
    qed
    moreover have "\<forall>i. i \<notin> free_slots c ((n, a) # ts) \<longrightarrow> ?m i = m i" using fr True by auto
    ultimately show ?thesis using s hd(2) True by simp
  next
    case False
    then have f: "first_fit (c + uint n) ts k = Some s" using "2.prems" by (auto split: if_splits)
    note ih = "2.IH" [OF False T f "2.prems"(3)]
    have "c \<notin> free_slots (c + uint n) ts" using free_slots_range [of c "c + uint n" ts] uint_pos [OF hd(1)] by linarith
    then have "take_chunk tid k x s m c = m c" using ih by simp
    with ih False "2.prems"(1) show ?thesis by auto
  qed
qed simp

lemma malloc_loop_hit:
  assumes "tiles (hp_mem h) 0 ts" "first_fit 0 ts k = Some c" "k \<noteq> 0"
  shows "malloc_loop single tid stack k x h = Some (Some (memory_addr c), h\<lparr>hp_mem := take_chunk tid k x c (hp_mem h)\<rparr>)"
  using find_free_chunk_tiles [OF assms(1), of single k] take_chunk_tiles [OF assms, of tid x] assms(2)
  by (subst malloc_loop.simps) (simp add: not_less)

lemma coalesce_Nil [simp]: "coalesce ts = [] \<longleftrightarrow> ts = []"
  by (induction ts rule: coalesce.induct) auto

text \<open>A run of free slots is apart from the chunks in use.\<close>

lemma free_run_apart:
  assumes "{c ..< c + uint k} \<subseteq> free_slots 0 ts" "k \<noteq> 0" "(s, n, a) \<in> blocks 0 ts" "n \<noteq> 0"
  shows "s + uint n \<le> c \<or> c + uint k \<le> s"
proof (rule ccontr)
  assume "\<not> ?thesis"
  then have "max c s \<in> {c ..< c + uint k}" "s \<le> max c s" "max c s < s + uint n"
    using uint_pos [OF assms(2)] uint_pos [OF assms(4)] by auto
  with assms(1) blocks_not_free [OF assms(3)] show False by blast
qed

lemma tiles_nonzero: "tiles m c ts \<Longrightarrow> (s, n, a) \<in> set (place c ts) \<Longrightarrow> n \<noteq> 0"
  by (induction m c ts rule: tiles.induct) auto

text \<open>What a call of malloc does, as seen from the chunks.\<close>

definition served :: "int option \<Rightarrow> u16 \<Rightarrow> u32 \<Rightarrow> tile list \<Rightarrow> heap \<Rightarrow> int option \<Rightarrow> heap \<Rightarrow> bool" where
  "served stack k x ts h r h' \<longleftrightarrow> (\<exists>ts'. heap_ok h' ts' \<and> keeps_used ts h h' \<and>
     (case r of
       None \<Rightarrow> blocks 0 ts' = blocks 0 ts \<and> first_fit 0 ts' k = None \<and> sbrk_refuses stack h' \<and> hp_errno h' = ENOMEM
     | Some p \<Rightarrow> \<exists>c. p = memory_addr c \<and> 0 \<le> c \<and> MALLOC_CHUNK_SIZE * (c + uint k) \<le> hp_size h'
         \<and> blocks 0 ts' = (if x = 0 then {} else {(c, k, x)}) \<union> blocks 0 ts
         \<and> (\<forall>(s, n, a)\<in>blocks 0 ts. s + uint n \<le> c \<or> c + uint k \<le> s)))"

lemma served_more:
  assumes "served stack k x us h1 r h'" "blocks 0 us = blocks 0 ts" "keeps_used ts h h1"
  shows "served stack k x ts h r h'"
proof -
  from assms(1) obtain ts' where t: "heap_ok h' ts'" "keeps_used us h1 h'" "case r of
       None \<Rightarrow> blocks 0 ts' = blocks 0 us \<and> first_fit 0 ts' k = None \<and> sbrk_refuses stack h' \<and> hp_errno h' = ENOMEM
     | Some p \<Rightarrow> \<exists>c. p = memory_addr c \<and> 0 \<le> c \<and> MALLOC_CHUNK_SIZE * (c + uint k) \<le> hp_size h'
         \<and> blocks 0 ts' = (if x = 0 then {} else {(c, k, x)}) \<union> blocks 0 us
         \<and> (\<forall>(s, n, a)\<in>blocks 0 us. s + uint n \<le> c \<or> c + uint k \<le> s)" unfolding served_def by blast
  have "keeps_used ts h h'" using keeps_used_trans [OF assms(3) t(2)] assms(2) by simp
  with t(1,3) show ?thesis unfolding served_def assms(2) by blast
qed

lemma malloc_loop_effect:
  assumes st: "stack = Some limit" "limit \<le> MALLOC_CHUNK_SIZE * 65535 + 128" and k: "k \<noteq> 0"
  shows "heap_ok h ts \<Longrightarrow> ts \<noteq> [] \<Longrightarrow> \<exists>r h'. malloc_loop single tid stack k x h = Some (r, h') \<and> served stack k x ts h r h'"
proof (induction "nat (limit - hp_size h)" arbitrary: h ts rule: less_induct)
  case less
  from less.prems have t: "tiles (hp_mem h) 0 ts" "slots ts < 65536" "hp_size h = MALLOC_CHUNK_SIZE * slots ts" by (auto simp: heap_ok_def)
  have find: "find_free_chunk single (hp_mem h) 0 k = Some (first_fit 0 ts k)" by (rule find_free_chunk_tiles [OF t(1)])
  show ?case
  proof (cases "first_fit 0 ts k")
    case (Some c)
    note tk = take_chunk_tiles [OF t(1) Some k, of tid x] and al = allot_facts [OF Some k, of x]
    let ?h = "h\<lparr>hp_mem := take_chunk tid k x c (hp_mem h)\<rparr>"
    have run: "malloc_loop single tid stack k x h = Some (Some (memory_addr c), ?h)" by (rule malloc_loop_hit [OF t(1) Some k])
    have "allot k x ts \<noteq> [] \<longrightarrow> tiles (hp_mem ?h) 0 (allot k x ts)" using tk by simp
    then have ok: "heap_ok ?h (allot k x ts)" using t(2,3) al by (simp add: heap_ok_def)
    have fr: "{c ..< c + uint k} \<subseteq> free_slots 0 ts" using al by blast
    have "keeps_used ts h ?h" by (rule keeps_usedI) (use tk in simp)
    moreover have "s + uint n \<le> c \<or> c + uint k \<le> s" if "(s, n, a) \<in> blocks 0 ts" for s n a
      by (rule free_run_apart [OF fr k that]) (use tiles_nonzero [OF t(1)] that in \<open>auto simp: blocks_def\<close>)
    moreover have "blocks 0 (allot k x ts) = (if x = 0 then {} else {(c, k, x)}) \<union> blocks 0 ts" "0 \<le> c" "c + uint k \<le> slots ts"
      using al by simp_all
    ultimately have "served stack k x ts h (Some (memory_addr c)) ?h"
      unfolding served_def option.case using ok t(3)
      by (intro exI [of _ "allot k x ts"] conjI exI [of _ c]) auto
    with run show ?thesis by blast
  next
    case None
    have c0: "is_memory_corrupt single h = Some 0" by (simp add: is_memory_corrupt_def memory_corrupt_tiles [OF t(1)])
    show ?thesis
    proof (cases "sbrk_refuses stack h")
      case True
      let ?h = "h\<lparr>hp_errno := ENOMEM\<rparr>"
      have run: "malloc_loop single tid stack k x h = Some (None, ?h)"
        using find None c0 get_more_memory_refused [OF True] by (subst malloc_loop.simps) simp
      have "heap_ok ?h ts" "keeps_used ts h ?h" "sbrk_refuses stack ?h"
        using less.prems(1) True by (auto simp: heap_ok_def keeps_used_def sbrk_refuses_def)
      then have "served stack k x ts h None ?h" unfolding served_def using None by (intro exI [of _ ts]) simp
      with run show ?thesis by blast
    next
      case False
      have sz: "hp_size h + 128 \<le> limit - 128" using False st(1) by (auto simp: sbrk_refuses_def)
      then have "slots ts + 2 < 65536" using st(2) t(3) by linarith
      from get_more_memory_effect [OF less.prems(1) False this] obtain h1 where
        g: "get_more_memory stack h = (0, h1)" "heap_ok h1 (ts @ [(2, 0)])" "hp_size h1 = hp_size h + 128" "keeps_used ts h h1" by blast
      have ne: "ts @ [(2, 0)] \<noteq> []" by simp
      obtain m where m: "cleanup_memory single (hp_mem h1) = Some m" "heap_ok (h1\<lparr>hp_mem := m\<rparr>) (coalesce (ts @ [(2, 0)]))"
        "keeps_used (ts @ [(2, 0)]) h1 (h1\<lparr>hp_mem := m\<rparr>)"
        by (rule cleanup_heap [OF g(2) ne]) blast
      let ?h = "h1\<lparr>hp_mem := m\<rparr>"
      have bl: "blocks 0 (coalesce (ts @ [(2, 0)])) = blocks 0 ts" using coalesce_facts [of "ts @ [(2, 0)]" 0] g(2) by (simp add: heap_ok_def)
      have lt: "nat (limit - hp_size ?h) < nat (limit - hp_size h)" using sz g(3) by simp
      have ne2: "coalesce (ts @ [(2, 0)]) \<noteq> []" by simp
      from less.hyps [OF lt m(2) ne2] obtain r h' where
        ih: "malloc_loop single tid stack k x ?h = Some (r, h')" "served stack k x (coalesce (ts @ [(2, 0)])) ?h r h'" by blast
      have "keeps_used ts h ?h" by (rule keeps_used_trans [OF g(4) m(3)]) simp
      from served_more [OF ih(2) bl this] have sv: "served stack k x ts h r h'" .
      have "malloc_loop single tid stack k x h = Some (r, h')"
        using find None c0 g(1) m(1) ih(1) by (subst malloc_loop.simps) simp
      with sv show ?thesis by blast
    qed
  qed
qed

lemma malloc_effect:
  assumes ok: "heap_ok h ts" and st: "stack = Some limit" "limit \<le> MALLOC_CHUNK_SIZE * 65535 + 128" and k: "malloc_calc_num_chunks x \<noteq> 0"
  shows "\<exists>r h'. malloc_r single tid stack x h = Some (r, h') \<and> served stack (malloc_calc_num_chunks x) x ts h r h'"
proof (cases "ts = []")
  case False
  have "0 < slots ts" if "tiles (hp_mem h) 0 ts"
  proof -
    obtain n a us where "ts = (n, a) # us" using False by (cases ts) auto
    with that uint_pos [of n] slots_nonneg [of us] show ?thesis by (simp add: add_pos_nonneg)
  qed
  then have "hp_size h \<noteq> 0" using ok False by (auto simp: heap_ok_def)
  then show ?thesis using malloc_loop_effect [OF st k ok False] by (simp add: malloc_r_def)
next
  case True
  then have z: "hp_size h = 0" using ok by (simp add: heap_ok_def)
  show ?thesis
  proof (cases "sbrk_refuses stack h")
    case ref: True
    let ?h = "h\<lparr>hp_errno := ENOMEM\<rparr>"
    have run: "malloc_r single tid stack x h = Some (None, ?h)"
      using z get_more_memory_refused [OF ref] by (simp add: malloc_r_def)
    have "heap_ok ?h ts" "keeps_used ts h ?h" "sbrk_refuses stack ?h"
      using ok ref by (auto simp: heap_ok_def keeps_used_def sbrk_refuses_def)
    then have "served stack (malloc_calc_num_chunks x) x ts h None ?h"
      unfolding served_def using True by (intro exI [of _ ts]) simp
    with run show ?thesis by blast
  next
    case False
    have "slots ts + 2 < 65536" using True by simp
    from get_more_memory_effect [OF ok False this] obtain h1 where
      g: "get_more_memory stack h = (0, h1)" "heap_ok h1 (ts @ [(2, 0)])" "keeps_used ts h h1" by blast
    from malloc_loop_effect [OF st k g(2), of single tid x] obtain r h' where
      ih: "malloc_loop single tid stack (malloc_calc_num_chunks x) x h1 = Some (r, h')"
      "served stack (malloc_calc_num_chunks x) x (ts @ [(2, 0)]) h1 r h'" by auto
    have "served stack (malloc_calc_num_chunks x) x ts h r h'" by (rule served_more [OF ih(2) _ g(3)]) simp
    with ih(1) g(1) z show ?thesis by (simp add: malloc_r_def)
  qed
qed

text \<open>A count that is not cut down to 16 bits is enough, and no slot too many.\<close>

lemma calc_num_chunks_word:
  assumes "uint x \<le> 4194232"
  shows "uint (malloc_calc_num_chunks x) = (if uint x > 56 then (uint x + 7) div 64 + 1 else 1)"
proof (cases "uint x > 56")
  case False
  then have "\<not> x > MALLOC_DATA_SIZE" by (simp add: word_less_def)
  then show ?thesis using False by (simp add: malloc_calc_num_chunks_def)
next
  case True
  then have g: "x > MALLOC_DATA_SIZE" by (simp add: word_less_def)
  have a: "x - MALLOC_DATA_SIZE + 64 - 1 = x + 7" by simp
  have b: "uint (x + 7) = uint x + 7" using assms by (simp add: uint_word_ariths)
  have c: "uint ((x + 7) div 64) = (uint x + 7) div 64" by (simp add: uint_div b)
  have "(uint x + 7) div 64 \<le> 4194239 div 64" using assms by (intro zdiv_mono1) simp_all
  then have d: "0 \<le> (uint x + 7) div 64" "(uint x + 7) div 64 \<le> 65534" using True by simp_all
  have e: "uint ((x + 7) div 64 + 1) = (uint x + 7) div 64 + 1" unfolding uint_word_ariths c using d by simp
  have "uint (malloc_calc_num_chunks x) = uint ((x + 7) div 64 + 1) mod 2 ^ 16"
    using g unfolding malloc_calc_num_chunks_def a by (simp add: unsigned_ucast_eq take_bit_eq_mod)
  then show ?thesis using True d unfolding e by simp
qed

subsection \<open>Giving a chunk back\<close>

fun release :: "int \<Rightarrow> int \<Rightarrow> tile list \<Rightarrow> tile list" where
  "release c s [] = []"
| "release c s ((n, a) # ts) = (if c = s then (n, 0) # ts else (n, a) # release (c + uint n) s ts)"

fun coalesced :: "tile list \<Rightarrow> bool" where
  "coalesced ((n, a) # (k, b) # ts) \<longleftrightarrow> \<not> (a = 0 \<and> b = 0) \<and> coalesced ((k, b) # ts)"
| "coalesced ts = True"

lemma coalesced_Cons: "coalesced ((n, a) # ts) \<longleftrightarrow> (case ts of [] \<Rightarrow> True | (k, b) # _ \<Rightarrow> \<not> (a = 0 \<and> b = 0)) \<and> coalesced ts"
  by (cases ts) auto

lemma coalesce_head: "coalesce ((n, a) # ts) \<noteq> [] \<and> (snd (hd (coalesce ((n, a) # ts))) = 0 \<longleftrightarrow> a = 0)"
  by (induction "(n, a) # ts" arbitrary: n ts rule: coalesce.induct) auto

lemma coalesced_coalesce: "coalesced (coalesce ts)"
proof (induction ts rule: coalesce.induct)
  case (3 n a k b ts)
  show ?case
  proof (cases "a = 0 \<and> b = 0")
    case False
    with "3.IH"(2) coalesce_head [of k b ts] show ?thesis by (auto simp: coalesced_Cons split: list.splits)
  qed (use "3.IH"(1) in auto)
qed auto

lemma release_facts:
  "tiles m c ts \<Longrightarrow> (s, n, a) \<in> blocks c ts \<Longrightarrow> tiles (m(s := malloc_set_chunk_free (m s))) c (release c s ts)
     \<and> slots (release c s ts) = slots ts \<and> blocks c (release c s ts) = blocks c ts - {(s, n, a)}
     \<and> mc_num_chunks (m s) = n \<and> mc_actual_size (m s) = a \<and> mc_signature (m s) = signature_of n a \<and> release c s ts \<noteq> []"
proof (induction c s ts rule: release.induct)
  case (2 c s k e ts)
  have T: "tiles m (c + uint k) ts" and k: "k \<noteq> 0" using "2.prems"(1) by simp_all
  have far: "c + uint k \<le> s' \<and> s' \<noteq> c" if "(s', n', a') \<in> blocks (c + uint k) ts" for s' n' a'
    using blocks_range [OF that] uint_pos [OF k] by auto
  show ?case
  proof (cases "c = s")
    case True
    then have e: "k = n" "e = a" "a \<noteq> 0" using "2.prems"(2) far by (auto split: if_splits)
    have "tiles (m(s := malloc_set_chunk_free (m s))) (c + uint k) ts"
    proof (rule tiles_frame [OF T])
      fix i assume "c + uint k \<le> i"
      then show "(m(s := malloc_set_chunk_free (m s))) i = m i" using True uint_pos [OF k] by auto
    qed
    then have tl: "tiles (m(s := malloc_set_chunk_free (m s))) c (release c s ((k, e) # ts))"
      using True k "2.prems"(1) by (simp add: malloc_set_chunk_free_def del: fun_upd_apply add: fun_upd_same)
    have bl: "blocks c (release c s ((k, e) # ts)) = blocks c ((k, e) # ts) - {(s, n, a)}" using True e far by auto
    show ?thesis by (intro conjI tl bl) (use True e "2.prems"(1) in simp_all)
  next
    case False
    then have b: "(s, n, a) \<in> blocks (c + uint k) ts" using "2.prems"(2) by (auto split: if_splits)
    from "2.IH" [OF False T b] False "2.prems"(1) show ?thesis by auto
  qed
qed simp

lemma memory_addr_back [simp]: "malloc_chunk_from_addr (memory_addr c) = c * MALLOC_CHUNK_SIZE"
  by (simp add: malloc_chunk_from_addr_def memory_addr_def)

lemma free_effect:
  assumes ok: "heap_ok h ts" and b: "(s, n, a) \<in> blocks 0 ts"
  obtains h' ts' where "free_r single (Some (memory_addr s)) h = Some h'" "heap_ok h' ts'" "blocks 0 ts' = blocks 0 ts - {(s, n, a)}"
    "keeps_used ts' h h'" "coalesced ts'" "malloc_chunk_is_free single (hp_mem h' s) = Some 1" "hp_size h' = hp_size h"
proof -
  have "ts \<noteq> []" using b by auto
  then have t: "tiles (hp_mem h) 0 ts" using ok by (simp add: heap_ok_def)
  define h1 where "h1 = h\<lparr>hp_mem := (hp_mem h)(s := malloc_set_chunk_free (hp_mem h s))\<rparr>"
  note r = release_facts [OF t b]
  have a: "a \<noteq> 0" using b by (simp add: blocks_def)
  have fr: "malloc_chunk_is_free single (hp_mem h s) = Some 0" using r a by (simp add: malloc_chunk_is_free_def)
  have ok1: "heap_ok h1 (release 0 s ts)" using ok r by (simp add: heap_ok_def h1_def)
  have ne: "release 0 s ts \<noteq> []" using r by blast
  obtain m where m: "cleanup_memory single (hp_mem h1) = Some m" "heap_ok (h1\<lparr>hp_mem := m\<rparr>) (coalesce (release 0 s ts))"
    "keeps_used (release 0 s ts) h1 (h1\<lparr>hp_mem := m\<rparr>)" "\<And>i. i \<notin> free_slots 0 (release 0 s ts) \<Longrightarrow> m i = hp_mem h1 i"
    "\<And>i. m i = hp_mem h1 i \<or> malloc_chunk_is_free single (m i) = Some 1"
    by (rule cleanup_heap [OF ok1 ne]) blast
  let ?h = "h1\<lparr>hp_mem := m\<rparr>"
  have run: "free_r single (Some (memory_addr s)) h = Some ?h"
    using fr m(1) by (simp add: free_r_def h1_def)
  have sl: "slots (release 0 s ts) < 65536" using ok1 by (simp add: heap_ok_def)
  have bl: "blocks 0 (coalesce (release 0 s ts)) = blocks 0 ts - {(s, n, a)}" using coalesce_facts [OF sl, of 0] r by simp
  have "keeps_used (release 0 s ts) h h1"
    unfolding keeps_used_def
  proof (clarify)
    fix s' n' a' i assume b': "(s', n', a') \<in> blocks 0 (release 0 s ts)" "s' \<le> i" "i < s' + uint n'"
    then have "(s', n', a') \<in> blocks 0 ts" "(s', n', a') \<noteq> (s, n, a)" using r by auto
    then have "s' + uint n' \<le> s \<or> s + uint n \<le> s'" using blocks_disjoint b by blast
    moreover have "0 < uint n" using tiles_nonzero [OF t, of s n a] b by (intro uint_pos) (simp add: blocks_def)
    ultimately show "hp_mem h1 i = hp_mem h i" using b'(2,3) by (auto simp: h1_def)
  qed
  then have "keeps_used (release 0 s ts) h ?h" using keeps_used_trans [OF _ m(3)] by blast
  then have ku: "keeps_used (coalesce (release 0 s ts)) h ?h" using bl r by (simp add: keeps_used_def)
  have "malloc_chunk_is_free single (hp_mem h1 s) = Some 1"
    by (simp add: h1_def malloc_set_chunk_free_def malloc_chunk_is_free_def)
  then have "malloc_chunk_is_free single (hp_mem ?h s) = Some 1" using m(5) [of s] by auto
  then show thesis by (intro that [OF run m(2) bl ku coalesced_coalesce]) (simp_all add: h1_def)
qed

subsection \<open>The contents of the chunks\<close>

text \<open>No operation of the allocator writes behind the header of a slot.\<close>

definition same_memory :: "(int \<Rightarrow> malloc_chunk) \<Rightarrow> (int \<Rightarrow> malloc_chunk) \<Rightarrow> bool" where
  "same_memory m m' \<longleftrightarrow> (\<forall>i. mc_memory (m' i) = mc_memory (m i))"

lemma same_memory_refl [simp]: "same_memory m m"
  by (simp add: same_memory_def)

lemma same_memory_trans: "same_memory m m1 \<Longrightarrow> same_memory m1 m2 \<Longrightarrow> same_memory m m2"
  by (simp add: same_memory_def)

lemma same_memory_upd: "same_memory m m1 \<Longrightarrow> mc_memory x = mc_memory (m c) \<Longrightarrow> same_memory m (m1(c := x))"
  by (simp add: same_memory_def)

lemma hdr_memory [simp]: "mc_memory (malloc_set_chunk_free c) = mc_memory c" "mc_memory (malloc_set_chunk_used tid n x c) = mc_memory c"
  "mc_memory (set_last_chunk c) = mc_memory c" "mc_memory (c\<lparr>mc_num_chunks := n\<rparr>) = mc_memory c"
  by (simp_all add: malloc_set_chunk_free_def malloc_set_chunk_used_def set_last_chunk_def)

lemma cleanup_loop_memory:
  assumes "cleanup_loop single m cur nxt = Some m'"
  shows "same_memory m m'"
proof (rule cleanup_loop.raw_induct [where P = "\<lambda>single m cur nxt m'. same_memory m m'", OF _ assms])
  fix rec :: "bool \<Rightarrow> (int \<Rightarrow> malloc_chunk) \<Rightarrow> int \<Rightarrow> int \<Rightarrow> (int \<Rightarrow> malloc_chunk) option"
    and single and m m' :: "int \<Rightarrow> malloc_chunk" and cur nxt :: int
  assume ih: "\<And>single m cur nxt y. rec single m cur nxt = Some y \<Longrightarrow> same_memory m y"
  let ?m = "m(cur := malloc_set_chunk_free ((m cur)\<lparr>mc_num_chunks := mc_num_chunks (m cur) + mc_num_chunks (m nxt)\<rparr>))"
  assume eq: "(if mc_num_chunks (m nxt) = 0 then Some m
     else do {
       current_free \<leftarrow> malloc_chunk_is_free single (m cur);
       next_free \<leftarrow> malloc_chunk_is_free single (m nxt);
       if next_free = -1 then Some m
       else let (m1, cur1) = (if current_free = 1 \<and> next_free = 1 then (?m, cur) else (m, nxt))
         in rec single m1 cur1 (next_chunk m1 nxt)
     }) = Some m'"
  have "same_memory m ?m" by (rule same_memory_upd) simp_all
  with eq show "same_memory m m'"
    by (auto split: if_splits Option.bind_splits simp: Let_def dest!: ih intro: same_memory_trans)
qed

lemma get_more_memory_memory: "get_more_memory stack h = (r, h') \<Longrightarrow> same_memory (hp_mem h) (hp_mem h')"
  by (auto simp: get_more_memory_def sbrk_r_def Let_def same_memory_def split: option.splits if_splits)

lemma take_chunk_memory: "same_memory m (take_chunk tid n x c m)"
  by (auto simp: take_chunk_def Let_def same_memory_def)

lemma cleanup_memory_memory: "cleanup_memory single m = Some m' \<Longrightarrow> same_memory m m'"
  unfolding cleanup_memory_def by (rule cleanup_loop_memory)

lemma malloc_loop_memory:
  assumes "malloc_loop single tid stack n x h = Some y"
  shows "same_memory (hp_mem h) (hp_mem (snd y))"
proof (rule malloc_loop.raw_induct [where P = "\<lambda>single tid stack n x h y. same_memory (hp_mem h) (hp_mem (snd y))", OF _ assms])
  fix rec :: "bool \<Rightarrow> byte \<Rightarrow> int option \<Rightarrow> u16 \<Rightarrow> u32 \<Rightarrow> heap \<Rightarrow> (int option \<times> heap) option"
    and single and tid :: byte and stack :: "int option" and n :: u16 and x :: u32 and h :: heap and y :: "int option \<times> heap"
  assume ih: "\<And>single tid stack n x h y. rec single tid stack n x h = Some y \<Longrightarrow> same_memory (hp_mem h) (hp_mem (snd y))"
  assume eq: "do {
    f \<leftarrow> find_free_chunk single (hp_mem h) 0 n;
    case f of
      None \<Rightarrow> do {
        corrupt \<leftarrow> is_memory_corrupt single h;
        if corrupt \<noteq> 0 then Some (None, h\<lparr>hp_errno := ENOMEM\<rparr>)
        else let (r, h1) = get_more_memory stack h
          in if r < 0 then Some (None, h1\<lparr>hp_errno := ENOMEM\<rparr>)
             else do {
               m \<leftarrow> cleanup_memory single (hp_mem h1);
               rec single tid stack n x (h1\<lparr>hp_mem := m\<rparr>)
             }
      }
    | Some c \<Rightarrow>
        if mc_num_chunks (hp_mem h c) < n then Some (None, h\<lparr>hp_errno := ENOMEM\<rparr>)
        else Some (Some (memory_addr c), h\<lparr>hp_mem := take_chunk tid n x c (hp_mem h)\<rparr>)
  } = Some y"
  obtain r h1 where g: "get_more_memory stack h = (r, h1)" by fastforce
  have more: "same_memory (hp_mem h) (hp_mem h1)" by (rule get_more_memory_memory [OF g])
  have rest: "same_memory (hp_mem h) (hp_mem (snd y))"
    if "cleanup_memory single (hp_mem h1) = Some m" "rec single tid stack n x (h1\<lparr>hp_mem := m\<rparr>) = Some y" for m
    using same_memory_trans [OF more same_memory_trans [OF cleanup_memory_memory [OF that(1)]]] ih [OF that(2)] by simp
  from eq show "same_memory (hp_mem h) (hp_mem (snd y))"
    using more take_chunk_memory by (auto simp: g split: if_splits Option.bind_splits option.splits intro: rest)
qed

lemma malloc_memory: "malloc_r single tid stack x h = Some (r, h') \<Longrightarrow> same_memory (hp_mem h) (hp_mem h')"
  using get_more_memory_memory [of stack h]
  by (auto simp: malloc_r_def Let_def split: if_splits prod.splits dest!: malloc_loop_memory intro: same_memory_trans)

lemma free_memory: "free_r single addr h = Some h' \<Longrightarrow> same_memory (hp_mem h) (hp_mem h')"
  by (auto simp: free_r_def Let_def same_memory_def split: if_splits option.splits Option.bind_splits
      dest!: cleanup_memory_memory)

subsection \<open>Empty allocations\<close>

lemma allot_zero_again: "first_fit c ts k = Some s \<Longrightarrow> k \<noteq> 0 \<Longrightarrow> first_fit c (allot k 0 ts) k = Some s"
  by (induction c ts k rule: first_fit.induct) (auto split: if_splits)

lemma malloc_loop_zero:
  "malloc_loop single tid stack k 0 h = Some (Some p, h') \<Longrightarrow> heap_ok h ts \<Longrightarrow> ts \<noteq> [] \<Longrightarrow> k \<noteq> 0
   \<Longrightarrow> stack = Some limit \<Longrightarrow> limit \<le> MALLOC_CHUNK_SIZE * 65535 + 128
   \<Longrightarrow> \<exists>c us. p = memory_addr c \<and> heap_ok h' us \<and> us \<noteq> [] \<and> first_fit 0 us k = Some c"
proof (induction "nat (limit - hp_size h)" arbitrary: h ts rule: less_induct)
  case less
  from less.prems(2,3) have t: "tiles (hp_mem h) 0 ts" "slots ts < 65536" "hp_size h = MALLOC_CHUNK_SIZE * slots ts" by (auto simp: heap_ok_def)
  have find: "find_free_chunk single (hp_mem h) 0 k = Some (first_fit 0 ts k)" by (rule find_free_chunk_tiles [OF t(1)])
  show ?case
  proof (cases "first_fit 0 ts k")
    case (Some c)
    note tk = take_chunk_tiles [OF t(1) Some less.prems(4), of tid 0] and al = allot_facts [OF Some less.prems(4), of 0]
    have p: "p = memory_addr c" "h' = h\<lparr>hp_mem := take_chunk tid k 0 c (hp_mem h)\<rparr>"
      using less.prems(1) malloc_loop_hit [OF t(1) Some less.prems(4), of single tid stack 0] by simp_all
    have "allot k 0 ts \<noteq> []" using Some by (cases ts) (auto split: if_splits)
    then show ?thesis using p tk al t allot_zero_again [OF Some less.prems(4)]
      by (intro exI [of _ c] exI [of _ "allot k 0 ts"]) (simp add: heap_ok_def)
  next
    case None
    have c0: "is_memory_corrupt single h = Some 0" by (simp add: is_memory_corrupt_def memory_corrupt_tiles [OF t(1)])
    have nr: "\<not> sbrk_refuses stack h"
      using less.prems(1) find None c0 get_more_memory_refused [of stack h] by (subst (asm) malloc_loop.simps) auto
    have sz: "hp_size h + 128 \<le> limit - 128" using nr less.prems(5) by (auto simp: sbrk_refuses_def)
    then have "slots ts + 2 < 65536" using less.prems(6) t(3) by linarith
    from get_more_memory_effect [OF less.prems(2) nr this] obtain h1 where
      g: "get_more_memory stack h = (0, h1)" "heap_ok h1 (ts @ [(2, 0)])" "hp_size h1 = hp_size h + 128" by blast
    have ne: "ts @ [(2, 0)] \<noteq> []" by simp
    obtain m where m: "cleanup_memory single (hp_mem h1) = Some m" "heap_ok (h1\<lparr>hp_mem := m\<rparr>) (coalesce (ts @ [(2, 0)]))"
      by (rule cleanup_heap [OF g(2) ne]) blast
    have rec: "malloc_loop single tid stack k 0 (h1\<lparr>hp_mem := m\<rparr>) = Some (Some p, h')"
      using less.prems(1) find None c0 g(1) m(1) by (subst (asm) malloc_loop.simps) simp
    have ne2: "coalesce (ts @ [(2, 0)]) \<noteq> []" by simp
    have lt: "nat (limit - hp_size (h1\<lparr>hp_mem := m\<rparr>)) < nat (limit - hp_size h)" using sz g(3) by simp
    show ?thesis by (rule less.hyps [OF lt rec m(2) ne2 less.prems(4-6)])
  qed
qed

lemma heap_size_pos: "heap_ok h ts \<Longrightarrow> ts \<noteq> [] \<Longrightarrow> 0 < hp_size h"
proof -
  assume ok: "heap_ok h ts" "ts \<noteq> []"
  then obtain n a us where ts: "ts = (n, a) # us" by (cases ts) auto
  with ok have "0 < uint n" by (intro uint_pos) (simp add: heap_ok_def)
  with ok ts slots_nonneg [of us] show "0 < hp_size h" by (simp add: heap_ok_def add_pos_nonneg)
qed

lemma malloc_zero_first:
  assumes "heap_ok h ts" "limit \<le> MALLOC_CHUNK_SIZE * 65535 + 128" "malloc_r single tid (Some limit) 0 h = Some (Some p, h')"
  obtains c us where "p = memory_addr c" "heap_ok h' us" "us \<noteq> []" "first_fit 0 us 1 = Some c"
proof -
  have one: "malloc_calc_num_chunks 0 = 1" by (simp add: malloc_calc_num_chunks_def)
  show thesis
  proof (cases "ts = []")
    case False
    have "malloc_loop single tid (Some limit) 1 0 h = Some (Some p, h')"
      using assms(3) heap_size_pos [OF assms(1) False] one by (simp add: malloc_r_def)
    from malloc_loop_zero [OF this assms(1) False _ refl assms(2)] show thesis using that by auto
  next
    case True
    then have z: "hp_size h = 0" using assms(1) by (simp add: heap_ok_def)
    then have nr: "\<not> sbrk_refuses (Some limit) h" using assms(3) get_more_memory_refused by (auto simp: malloc_r_def)
    have "slots ts + 2 < 65536" using True by simp
    from get_more_memory_effect [OF assms(1) nr this] obtain h1 where
      g: "get_more_memory (Some limit) h = (0, h1)" "heap_ok h1 (ts @ [(2, 0)])" by blast
    have "malloc_loop single tid (Some limit) 1 0 h1 = Some (Some p, h')" using assms(3) z g(1) one by (simp add: malloc_r_def)
    from malloc_loop_zero [OF this g(2) _ _ refl assms(2)] show thesis using that by auto
  qed
qed

subsection \<open>Resizing\<close>

lemma realloc_in_use:
  assumes ok: "heap_ok h ts" and b: "(s, n, a) \<in> blocks 0 ts"
  shows "hp_size h \<noteq> 0" "malloc_chunk_is_free single (hp_mem h s) = Some 0" "mc_num_chunks (hp_mem h s) = n" "n \<noteq> 0"
    "next_chunk (hp_mem h) s = s + uint n"
proof -
  have ne: "ts \<noteq> []" using b by auto
  then have t: "tiles (hp_mem h) 0 ts" using ok by (simp add: heap_ok_def)
  note r = release_facts [OF t b]
  have "a \<noteq> 0" using b by (simp add: blocks_def)
  then show "malloc_chunk_is_free single (hp_mem h s) = Some 0" using r by (simp add: malloc_chunk_is_free_def)
  show n: "mc_num_chunks (hp_mem h s) = n" "next_chunk (hp_mem h) s = s + uint n" using r by (simp_all add: next_chunk_def)
  show nz: "n \<noteq> 0" using tiles_nonzero [OF t] b by (auto simp: blocks_def)
  show "hp_size h \<noteq> 0" using blocks_range [OF b] uint_pos [OF nz] ok by (auto simp: heap_ok_def)
qed

text \<open>A chunk whose neighbour is in use is moved.\<close>

lemma realloc_move_effect:
  assumes ok: "heap_ok h ts" and b: "(s, n, a) \<in> blocks 0 ts" and nb: "(s + uint n, n2, a2) \<in> blocks 0 ts"
    and x: "x \<noteq> 0" "n \<le> malloc_calc_num_chunks x" and st: "stack = Some limit" "limit \<le> MALLOC_CHUNK_SIZE * 65535 + 128"
  shows "\<exists>r h1 h2. realloc_r single tid stack (Some (memory_addr s)) x h = Some (r, h2)
    \<and> malloc_r single tid stack x h = Some (r, h1) \<and> served stack (malloc_calc_num_chunks x) x ts h r h1
    \<and> (if r = None then h2 = h1 else free_r single (Some (memory_addr s)) h1 = Some h2) \<and> same_memory (hp_mem h) (hp_mem h2)"
proof -
  note u = realloc_in_use [OF ok b] and v = realloc_in_use [OF ok nb]
  have k: "malloc_calc_num_chunks x \<noteq> 0" using x(2) u(4) by (auto simp: word_le_def uint_0_iff dest: uint_pos)
  obtain r h1 where m: "malloc_r single tid stack x h = Some (r, h1)" "served stack (malloc_calc_num_chunks x) x ts h r h1"
    using malloc_effect [OF ok st k] by blast
  obtain h2 where f: "if r = None then h2 = h1 else free_r single (Some (memory_addr s)) h1 = Some h2"
  proof (cases r)
    case None
    then show thesis using that by simp
  next
    case (Some p)
    from m(2) Some obtain ts' where t': "heap_ok h1 ts'" "(s, n, a) \<in> blocks 0 ts'" using b by (auto simp: served_def)
    obtain h2 where "free_r single (Some (memory_addr s)) h1 = Some h2" by (rule free_effect [OF t']) blast
    then show thesis using that Some by simp
  qed
  have "realloc_r single tid stack (Some (memory_addr s)) x h = Some (r, h2)"
    using x u v m(1) f by (auto simp: realloc_r_def Let_def not_less split: if_splits)
  moreover have "same_memory (hp_mem h) (hp_mem h2)"
    using malloc_memory [OF m(1)] free_memory [of single "Some (memory_addr s)" h1 h2] f by (auto split: if_splits intro: same_memory_trans)
  ultimately show ?thesis using m f by blast
qed

lemma tiles_place: "tiles m c ts \<Longrightarrow> (s, n, a) \<in> set (place c ts) \<Longrightarrow>
    mc_num_chunks (m s) = n \<and> mc_actual_size (m s) = a \<and> mc_signature (m s) = signature_of n a"
  by (induction m c ts rule: tiles.induct) auto

text \<open>A chunk with a free neighbour that is too small is enlarged in place.\<close>

lemma realloc_grow_effect:
  assumes ok: "heap_ok h ts" and b: "(s, n, a) \<in> blocks 0 ts" and nb: "(s + uint n, k, 0) \<in> set (place 0 ts)"
    and x: "x \<noteq> 0" "uint n + uint k < uint (malloc_calc_num_chunks x)"
  shows "\<exists>h'. realloc_r single tid stack (Some (memory_addr s)) x h = Some (Some (memory_addr s), h')
    \<and> mc_num_chunks (hp_mem h' s) = malloc_calc_num_chunks x \<and> mc_actual_size (hp_mem h' s) = x
    \<and> mc_num_chunks (hp_mem h' (s + uint (malloc_calc_num_chunks x))) = malloc_calc_num_chunks x - (k + n)
    \<and> malloc_chunk_is_free single (hp_mem h' (s + uint (malloc_calc_num_chunks x))) = Some 1"
proof -
  note u = realloc_in_use [OF ok b]
  have t: "tiles (hp_mem h) 0 ts" using ok b by (auto simp: heap_ok_def)
  from tiles_place [OF t nb] have v: "mc_num_chunks (hp_mem h (s + uint n)) = k"
    "malloc_chunk_is_free single (hp_mem h (s + uint n)) = Some 1" by (auto simp: malloc_chunk_is_free_def)
  let ?N = "malloc_calc_num_chunks x"
  have ge: "\<not> ?N < n" using x(2) uint_ge_0 [of k] unfolding word_less_def by linarith
  have s16: "uint k + uint n < 65536" using x(2) uint_lt2p [of ?N] by simp
  have le: "k + n < ?N" using x(2) uint_add_16 [OF s16] by (simp add: word_less_def)
  have N: "0 < uint ?N" using x(2) uint_ge_0 [of n] uint_ge_0 [of k] by linarith
  define m1 where "m1 = (hp_mem h)(s := malloc_set_chunk_used tid ?N x (hp_mem h s))"
  have nx: "next_chunk m1 s = s + uint ?N" by (simp add: next_chunk_def m1_def malloc_set_chunk_used_def)
  define m2 where "m2 = m1(s + uint ?N := malloc_set_chunk_free ((m1 (s + uint ?N))\<lparr>mc_num_chunks := ?N - (k + n)\<rparr>))"
  have run: "realloc_r single tid stack (Some (memory_addr s)) x h = Some (Some (memory_addr s), h\<lparr>hp_mem := m2\<rparr>)"
    using x(1) u v ge le unfolding m2_def nx [symmetric] m1_def by (simp add: realloc_r_def Let_def)
  have "m2 s = m1 s" using N by (simp add: m2_def)
  then show ?thesis unfolding run
    by (intro exI [of _ "h\<lparr>hp_mem := m2\<rparr>"])
       (simp add: m1_def malloc_set_chunk_used_def, simp add: m2_def malloc_set_chunk_free_def malloc_chunk_is_free_def)
qed

subsection \<open>Statistics\<close>

fun free_total :: "tile list \<Rightarrow> int" where
  "free_total [] = 0"
| "free_total ((n, a) # ts) = (if a = 0 then uint n else 0) + free_total ts"

fun used_total :: "tile list \<Rightarrow> int" where
  "used_total [] = 0"
| "used_total ((n, a) # ts) = uint a + used_total ts"

lemma mallinfo_loop_tiles:
  "tiles m c ts \<Longrightarrow> mallinfo_loop single m c t f u = Some (Some (t + slots ts, f + free_total ts, u + used_total ts))"
proof (induction m c ts arbitrary: t f u rule: tiles.induct)
  case (1 m c)
  then show ?case by (simp add: mallinfo_loop.simps)
next
  case (2 m c n a ts)
  then show ?case using tiles_free [OF "2.prems"]
    by (subst mallinfo_loop.simps) (auto simp: next_chunk_def add.assoc Let_def)
qed

lemma mallinfo_effect:
  assumes "heap_ok h ts" "ts \<noteq> []"
  shows "mallinfo_r single h = Some \<lparr>mi_arena = hp_size h + MALLOC_HDR_SIZE, mi_ordblks = free_total ts,
      mi_fordblks = free_total ts * MALLOC_CHUNK_SIZE, mi_uordblks = used_total ts\<rparr>"
  using assms mallinfo_loop_tiles [of "hp_mem h" 0 ts single 0 0 0] by (simp add: mallinfo_r_def heap_ok_def)

subsection \<open>Requests above 4 MB\<close>

text \<open>The count is cut down to 16 bits, and a request for 4 MB is served with one slot.\<close>

lemma calc_num_chunks_wraps: "malloc_calc_num_chunks 4194304 = 1" "malloc_calc_num_chunks 4194240 = 0"
  by (simp_all add: malloc_calc_num_chunks_def)

lemma malloc_huge_served:
  assumes "heap_ok h ts" "first_fit 0 ts 1 = Some c"
  shows "\<exists>h'. malloc_r single tid stack 4194304 h = Some (Some (memory_addr c), h')"
proof -
  have ne: "ts \<noteq> []" using assms(2) by auto
  then have "tiles (hp_mem h) 0 ts" using assms(1) by (simp add: heap_ok_def)
  from malloc_loop_hit [OF this assms(2), of single tid stack 4194304] heap_size_pos [OF assms(1) ne]
  show ?thesis by (simp add: malloc_r_def calc_num_chunks_wraps)
qed

subsection \<open>Reachable heaps\<close>

inductive heap_reach :: "bool \<Rightarrow> int \<Rightarrow> heap \<Rightarrow> bool" for single limit where
  heap_start: "hp_size h = 0 \<Longrightarrow> heap_reach single limit h"
| heap_malloc: "heap_reach single limit h \<Longrightarrow> uint x \<le> 4194232 \<Longrightarrow> malloc_r single tid (Some limit) x h = Some (r, h')
    \<Longrightarrow> heap_reach single limit h'"
| heap_free: "heap_reach single limit h \<Longrightarrow> heap_ok h ts \<Longrightarrow> (s, n, a) \<in> blocks 0 ts
    \<Longrightarrow> free_r single (Some (memory_addr s)) h = Some h' \<Longrightarrow> heap_reach single limit h'"
| heap_store: "heap_reach single limit h \<Longrightarrow> heap_ok h ts \<Longrightarrow> (s, n, a) \<in> blocks 0 ts \<Longrightarrow> s \<le> i \<Longrightarrow> i < s + uint n
    \<Longrightarrow> (i = s \<Longrightarrow> x = (hp_mem h s)\<lparr>mc_memory := d\<rparr>) \<Longrightarrow> heap_reach single limit (h\<lparr>hp_mem := (hp_mem h)(i := x)\<rparr>)"

lemma tiles_store:
  "tiles m c ts \<Longrightarrow> (s, n, a) \<in> set (place c ts) \<Longrightarrow> s \<le> i \<Longrightarrow> i < s + uint n \<Longrightarrow> (i = s \<Longrightarrow> x = (m s)\<lparr>mc_memory := d\<rparr>)
   \<Longrightarrow> tiles (m(i := x)) c ts"
proof (induction m c ts rule: tiles.induct)
  case (2 m c k e ts)
  have T: "tiles m (c + uint k) ts" using "2.prems"(1) by simp
  show ?case
  proof (cases "(s, n, a) \<in> set (place (c + uint k) ts)")
    case True
    have "c + uint k \<le> i" using place_range [OF True] "2.prems"(3) by linarith
    then have "i \<noteq> c" using uint_pos [of k] "2.prems"(1) by auto
    then show ?thesis using "2.IH" [OF T True "2.prems"(3,4,5)] "2.prems"(1) by simp
  next
    case False
    then have e: "s = c" "n = k" using "2.prems"(2) by auto
    have "tiles (m(i := x)) (c + uint k) ts" by (rule tiles_frame [OF T]) (use "2.prems"(4) e in simp)
    then show ?thesis using "2.prems"(1,5) e by (cases "i = c") (simp_all add: fun_upd_def)
  qed
qed simp

lemma calc_nonzero: "uint x \<le> 4194232 \<Longrightarrow> malloc_calc_num_chunks x \<noteq> 0"
proof
  assume x: "uint x \<le> 4194232" "malloc_calc_num_chunks x = 0"
  then have "(if uint x > 56 then (uint x + 7) div 64 + 1 else 1) = 0" using calc_num_chunks_word [OF x(1)] by simp
  moreover have "0 \<le> (uint x + 7) div 64" by (intro div_int_pos_iff [THEN iffD2]) simp
  ultimately show False by (simp split: if_splits)
qed

lemma calc_room:
  assumes "uint x \<le> 4194232"
  shows "uint x + 8 \<le> 64 * uint (malloc_calc_num_chunks x)"
proof (cases "uint x > 56")
  case True
  have "uint x + 7 = 64 * ((uint x + 7) div 64) + (uint x + 7) mod 64" "(uint x + 7) mod 64 < 64" by simp_all
  then show ?thesis using calc_num_chunks_word [OF assms] True by simp
qed (use calc_num_chunks_word [OF assms] in simp)

lemma heap_reach_heap_ok:
  assumes "heap_reach single limit h" "limit \<le> MALLOC_CHUNK_SIZE * 65535 + 128"
  shows "\<exists>ts. heap_ok h ts"
  using assms(1)
proof (induction rule: heap_reach.induct)
  case (heap_start h)
  then show ?case by (intro exI [of _ "[]"]) (simp add: heap_ok_def)
next
  case (heap_malloc h x tid r h')
  then obtain ts where "heap_ok h ts" by blast
  from malloc_effect [OF this refl assms(2) calc_nonzero [OF heap_malloc.hyps(2)], of single tid] heap_malloc.hyps(3)
  show ?case by (auto simp: served_def)
next
  case (heap_free h ts s n a h')
  obtain h'' ts' where "free_r single (Some (memory_addr s)) h = Some h''" "heap_ok h'' ts'"
    by (rule free_effect [OF heap_free.hyps(2,3), of single]) blast
  then show ?case using heap_free.hyps(4) by auto
next
  case (heap_store h ts s n a i x d)
  have "tiles (hp_mem h) 0 ts" using heap_store.hyps(2,3) by (auto simp: heap_ok_def)
  moreover have "(s, n, a) \<in> set (place 0 ts)" using heap_store.hyps(3) by (simp add: blocks_def)
  ultimately have "tiles ((hp_mem h)(i := x)) 0 ts" by (rule tiles_store) (rule heap_store.hyps)+
  then have "heap_ok (h\<lparr>hp_mem := (hp_mem h)(i := x)\<rparr>) ts" using heap_store.hyps(2) by (simp add: heap_ok_def)
  then show ?case by blast
qed

subsection \<open>A heap for the witnesses\<close>

definition demo_chunk :: "u16 \<Rightarrow> u32 \<Rightarrow> malloc_chunk" where
  "demo_chunk n a = \<lparr>mc_task_id = 0, mc_signature = signature_of n a, mc_num_chunks = n, mc_actual_size = a, mc_memory = replicate 56 0\<rparr>"

text \<open>Two slots in use, a free one, one in use.\<close>

definition demo_heap :: heap where
  "demo_heap = \<lparr>hp_mem = (\<lambda>i. if i = 0 then demo_chunk 2 100 else if i = 2 then demo_chunk 1 0 else if i = 3 then demo_chunk 1 20
     else demo_chunk 0 0), hp_size = 256, hp_errno = ENOERR\<rparr>"

lemma demo_heap_ok: "heap_ok demo_heap [(2, 100), (1, 0), (1, 20)]"
  by (simp add: heap_ok_def demo_heap_def demo_chunk_def)

lemma demo_blocks: "blocks 0 [(2, 100), (1, 0), (1, 20)] = {(0, 2, 100), (3, 1, 20)}"
  by auto

definition empty_heap :: heap where
  "empty_heap = \<lparr>hp_mem = (\<lambda>i. demo_chunk 0 0), hp_size = 0, hp_errno = ENOERR\<rparr>"

lemma empty_heap_ok: "heap_ok empty_heap []"
  by (simp add: heap_ok_def empty_heap_def)

subsection \<open>Properties\<close>



text \<open>
  C10: \<open>free\<close> takes back exactly the chunk it is given: the other chunks in use stay, with their contents, and no
  two neighbouring chunks are free afterwards. Giving the same address back once more changes nothing.
\<close>

theorem free_gives_back:
  assumes "heap_ok h ts" "(s, n, a) \<in> blocks 0 ts"
  shows "\<exists>h' ts'. free_r single (Some (memory_addr s)) h = Some h' \<and> heap_ok h' ts' \<and> blocks 0 ts' = blocks 0 ts - {(s, n, a)}
    \<and> keeps_used ts' h h' \<and> coalesced ts' \<and> free_r single (Some (memory_addr s)) h' = Some h'"
proof -
  obtain h' ts' where f: "free_r single (Some (memory_addr s)) h = Some h'" "heap_ok h' ts'" "blocks 0 ts' = blocks 0 ts - {(s, n, a)}"
    "keeps_used ts' h h'" "coalesced ts'" "malloc_chunk_is_free single (hp_mem h' s) = Some 1"
    by (rule free_effect [OF assms, of single]) blast
  have "free_r single (Some (memory_addr s)) h' = Some h'" using f(6) by (simp add: free_r_def)
  with f show ?thesis by blast
qed

theorem free_gives_back_witness:
  "\<exists>h' ts'. free_r False (Some 8) demo_heap = Some h' \<and> heap_ok h' ts' \<and> blocks 0 ts' = {(3, 1, 20)} \<and> free_r False (Some 8) h' = Some h'"
proof -
  have b: "(0, 2, 100) \<in> blocks 0 [(2, 100), (1, 0), (1, 20)]" by simp
  have d: "blocks 0 [(2, 100), (1, 0), (1, 20)] - {(0, 2, 100)} = {(3, 1, 20)}" unfolding demo_blocks by auto
  have a: "memory_addr 0 = 8" by (simp add: memory_addr_def)
  from free_gives_back [OF demo_heap_ok b, of False] show ?thesis unfolding d a by blast
qed



text \<open>
  \<open>malloc(0)\<close> gives out a chunk that still counts as free: the next call for up to 56 bytes gives out
  the same address.
\<close>

theorem malloc_zero_shared:
  assumes "heap_ok h ts" "limit \<le> MALLOC_CHUNK_SIZE * 65535 + 128" "malloc_r single tid (Some limit) 0 h = Some (Some p, h')"
    and "uint x \<le> 56"
  shows "\<exists>h''. malloc_r single tid' (Some limit) x h' = Some (Some p, h'')"
proof -
  have one: "malloc_calc_num_chunks 0 = 1" "malloc_calc_num_chunks x = 1"
    using assms(4) by (simp_all add: malloc_calc_num_chunks_def word_less_def)
  obtain c us where c: "p = memory_addr c" "heap_ok h' us" "us \<noteq> []" "first_fit 0 us 1 = Some c"
    by (rule malloc_zero_first [OF assms(1,2,3)]) blast
  then have t: "tiles (hp_mem h') 0 us" by (simp add: heap_ok_def)
  have "0 < hp_size h'" by (rule heap_size_pos [OF c(2,3)])
  then show ?thesis using malloc_loop_hit [OF t c(4), of single tid' "Some limit" x] one(2) c(1) by (simp add: malloc_r_def)
qed

theorem malloc_zero_shared_witness:
  "\<exists>h' h''. malloc_r False 0 (Some 10000) 0 demo_heap = Some (Some 136, h') \<and> malloc_r False 0 (Some 10000) 40 h' = Some (Some 136, h'')"
proof -
  have t: "tiles (hp_mem demo_heap) 0 [(2, 100), (1, 0), (1, 20)]" and l: "10000 \<le> MALLOC_CHUNK_SIZE * 65535 + 128"
    using demo_heap_ok by (simp_all add: heap_ok_def)
  have f: "first_fit 0 [(2, 100), (1, 0), (1, 20)] 1 = Some 2" by simp
  have "0 < hp_size demo_heap" by (rule heap_size_pos [OF demo_heap_ok]) simp
  then have "malloc_r False 0 (Some 10000) 0 demo_heap = Some (Some 136, demo_heap\<lparr>hp_mem := take_chunk 0 1 0 2 (hp_mem demo_heap)\<rparr>)"
    using malloc_loop_hit [OF t f, of False 0 "Some 10000" 0] by (simp add: malloc_r_def malloc_calc_num_chunks_def memory_addr_def)
  from malloc_zero_shared [OF demo_heap_ok l this, of 40 0] this show ?thesis by auto
qed

text \<open>
  C40: \<open>realloc\<close> of a chunk whose free neighbour is too small succeeds all the same, in place: the header now
  claims the slots of the chunk behind the neighbour, which is in use, and a header of a free chunk is written
  behind the claimed slots. The comparison of the free slots with the slots needed is the wrong way round.
\<close>

theorem realloc_overruns_neighbour:
  assumes "heap_ok h ts" "(s, n, a) \<in> blocks 0 ts" "(s + uint n, k, 0) \<in> set (place 0 ts)"
    and "(s + uint n + uint k, m, b) \<in> blocks 0 ts" "x \<noteq> 0" "uint n + uint k < uint (malloc_calc_num_chunks x)"
  shows "\<exists>h'. realloc_r single tid stack (Some (memory_addr s)) x h = Some (Some (memory_addr s), h')
    \<and> mc_actual_size (hp_mem h' s) = x \<and> s + uint n + uint k < s + uint (mc_num_chunks (hp_mem h' s))
    \<and> malloc_chunk_is_free single (hp_mem h' (s + uint (mc_num_chunks (hp_mem h' s)))) = Some 1"
  using realloc_grow_effect [OF assms(1,2,3,5,6), of single tid stack] assms(6) by auto

theorem realloc_overruns_neighbour_witness:
  "\<exists>h'. realloc_r False 0 None (Some 8) 200 demo_heap = Some (Some 8, h') \<and> (3, 1, 20) \<in> blocks 0 [(2, 100), (1, 0), (1, 20)]
    \<and> 3 < uint (mc_num_chunks (hp_mem h' 0))"
proof -
  have n: "malloc_calc_num_chunks 200 = 4" by (simp add: malloc_calc_num_chunks_def)
  have b: "(0, 2, 100) \<in> blocks 0 [(2, 100), (1, 0), (1, 20)]" "(0 + uint (2 :: u16), 1, 0) \<in> set (place 0 [(2, 100), (1, 0), (1, 20)])"
    "(0 + uint (2 :: u16) + uint (1 :: u16), 1, 20) \<in> blocks 0 [(2, 100), (1, 0), (1, 20)]"
    "uint (2 :: u16) + uint (1 :: u16) < uint (malloc_calc_num_chunks 200)" by (simp_all add: n)
  have a: "memory_addr 0 = 8" by (simp add: memory_addr_def)
  from realloc_overruns_neighbour [OF demo_heap_ok b(1,2,3) _ b(4), of False 0 None] b(3) show ?thesis unfolding a by auto
qed

text \<open>
  \<open>realloc\<close> of a chunk whose neighbour is in use moves it without its contents: the new chunk is a fresh one,
  the old one is given back, and the bytes of every slot are those from before the call. When there is no memory
  the old chunk stays.
\<close>

theorem realloc_moves_without_contents:
  assumes "heap_ok h ts" "(s, n, a) \<in> blocks 0 ts" "(s + uint n, m, b) \<in> blocks 0 ts" "limit \<le> MALLOC_CHUNK_SIZE * 65535 + 128"
    and "x \<noteq> 0" "k = malloc_calc_num_chunks x" "n \<le> k"
  shows "\<exists>r h' ts'. realloc_r single tid (Some limit) (Some (memory_addr s)) x h = Some (r, h') \<and> heap_ok h' ts'
    \<and> (case r of None \<Rightarrow> blocks 0 ts' = blocks 0 ts
       | Some p \<Rightarrow> \<exists>c. p = memory_addr c \<and> c \<noteq> s \<and> blocks 0 ts' = insert (c, k, x) (blocks 0 ts - {(s, n, a)}))
    \<and> (\<forall>i. mc_memory (hp_mem h' i) = mc_memory (hp_mem h i))"
proof -
  note u = realloc_in_use [OF assms(1,2)]
  have k: "0 < uint k" using assms(7) uint_pos [OF u(4)] by (simp add: word_le_def)
  obtain r h1 h2 where re: "realloc_r single tid (Some limit) (Some (memory_addr s)) x h = Some (r, h2)" "served (Some limit) k x ts h r h1"
    "if r = None then h2 = h1 else free_r single (Some (memory_addr s)) h1 = Some h2" "same_memory (hp_mem h) (hp_mem h2)"
    using realloc_move_effect [OF assms(1-3,5) assms(7) [unfolded assms(6)] refl assms(4), of single tid] unfolding assms(6) by blast
  have mem: "\<forall>i. mc_memory (hp_mem h2 i) = mc_memory (hp_mem h i)" using re(4) by (simp add: same_memory_def)
  show ?thesis
  proof (cases r)
    case None
    with re(2) obtain ts' where "heap_ok h1 ts'" "blocks 0 ts' = blocks 0 ts" by (auto simp: served_def)
    with None re(1,3) mem show ?thesis by (intro exI [of _ r] exI [of _ h2] exI [of _ ts']) simp
  next
    case (Some p)
    with re(2) assms(5) obtain ts1 c where c: "heap_ok h1 ts1" "p = memory_addr c" "blocks 0 ts1 = insert (c, k, x) (blocks 0 ts)"
      "\<forall>(s, n, a)\<in>blocks 0 ts. s + uint n \<le> c \<or> c + uint k \<le> s" by (auto simp: served_def)
    have ne: "c \<noteq> s" using c(4) assms(2) k uint_pos [OF u(4)] by fastforce
    have "(s, n, a) \<in> blocks 0 ts1" using c(3) assms(2) by simp
    from free_effect [OF c(1) this, of single] obtain h3 ts3 where
      f: "free_r single (Some (memory_addr s)) h1 = Some h3" "heap_ok h3 ts3" "blocks 0 ts3 = blocks 0 ts1 - {(s, n, a)}" by blast
    have "blocks 0 ts3 = insert (c, k, x) (blocks 0 ts - {(s, n, a)})" using f(3) c(3) ne by auto
    with f re(1,3) Some c(2) ne mem show ?thesis by (intro exI [of _ r] exI [of _ h2] exI [of _ ts3]) auto
  qed
qed

text \<open>A heap of two chunks in use, with no free slot between them.\<close>

definition full_heap :: heap where
  "full_heap = \<lparr>hp_mem = (\<lambda>i. if i = 0 then demo_chunk 1 50 else if i = 1 then demo_chunk 1 20 else demo_chunk 0 0),
     hp_size = 128, hp_errno = ENOERR\<rparr>"

lemma full_heap_ok: "heap_ok full_heap [(1, 50), (1, 20)]"
  by (simp add: heap_ok_def full_heap_def demo_chunk_def)

theorem realloc_moves_without_contents_witness:
  "\<exists>r h'. realloc_r False 0 (Some 10000) (Some 8) 60 full_heap = Some (r, h')
    \<and> (\<forall>i. mc_memory (hp_mem h' i) = mc_memory (hp_mem full_heap i))"
proof -
  have b: "(0, 1, 50) \<in> blocks 0 [(1, 50), (1, 20)]" "(0 + uint (1 :: u16), 1, 20) \<in> blocks 0 [(1, 50), (1, 20)]" by simp_all
  have a: "memory_addr 0 = 8" by (simp add: memory_addr_def)
  have n: "1 \<le> malloc_calc_num_chunks 60" by (simp add: malloc_calc_num_chunks_def)
  from realloc_moves_without_contents [OF full_heap_ok b _ _ refl n, of 10000 False 0] show ?thesis unfolding a by auto
qed

end
