(* ===== verification/Spec2Isabelle.thy ===== *)
theory Spec2Isabelle
  imports Fifo RxFifo Sem Cond Mqueue Aio CafsPath Heap
begin

text \<open>
  CoActionOS is a small real-time operating system for Cortex-M microcontrollers. Its sources are
  under \<open>src/CoActionOS/src\<close> (directories \<open>hwdl\<close>, \<open>hwpl\<close> and \<open>sys\<close>) and \<open>src/CoActionOS/include\<close>.
  The development models six of its parts, each as a group of theories.

  \<^bold>\<open>Common ground.\<close> \<open>Prelude\<close> has the error numbers, the conversions between the integer types of C
  and the facts on lists, functions and words the components share. Integers are \<open>int\<close> or \<open>nat\<close> where
  the code cannot leave the range of their C type, and words (\<open>32 word\<close>, \<open>16 word\<close>, \<open>8 word\<close>) or
  explicit conversions where the wrap-around matters. A call that stores \<open>errno\<close> stores it in the
  state; results are the integers of the code.

  \<^bold>\<open>Character devices\<close> (\<open>hwdl/sys\<close>). \<open>Ring\<close> models the transfer record \<open>device_transfer_t\<close> and
  the ring buffer with its head and tail; the locales \<open>drainable_queue\<close> and \<open>overwriting_queue\<close> are the
  interface of a ring to the drivers. \<open>Fifo\<close> is \<open>fifo.c\<close>: every ioctl request, reads and writes in both modes, the waiting
  reader and writer and their callbacks. \<open>RxFifo\<close> is \<open>uartfifo.c\<close>, \<open>usbfifo.c\<close> and \<open>devfifo.c\<close>,
  where an interrupt fills the ring. The lemmas show that a device is a queue of bytes (an
  abstraction of the ring to a list), and that no reader or writer is left waiting when it could go on.
  The port driver below a receive FIFO and the callback of a transfer are parameters.

  \<^bold>\<open>Kernel.\<close> \<open>Kernel\<close> holds the state: the task table (\<open>hwpl/core_cm3/task.c\<close>), the
  scheduler table (\<open>sys/sched/sched_flags.h\<close>) and the current priority, with the operations of
  \<open>task.c\<close> and the choice of the next task in the context switcher. \<open>Sched\<close> is \<open>sched.c\<close> and
  \<open>sched_priv.c\<close>; \<open>Timing\<close> is \<open>sched_timing.c\<close>, \<open>sleep.c\<close> and \<open>usleep.c\<close>; \<open>Thread\<close> is
  \<open>sched_thread.c\<close>, thread creation, joining, waiting, stopping and exiting, and the
  blocking device transfers. The step relation in \<open>Thread\<close> composes these operations, and its
  invariant says that exactly the runnable tasks of the highest priority execute.
  An operation that runs in a privileged call is one step, as on the machine, where a privileged
  call is not interrupted by a task switch. A blocking call is split where its task is switched out: one
  definition up to the block and one for what is left when the task runs again. Where the code looks something up in user
  code before its privileged call, it can be preempted in between: \<open>sem_post\<close> and \<open>pthread_cond_wait\<close> have a
  definition for each part, and \<open>sem_post_overtaken\<close> and \<open>cond_wait_overtaken\<close> show what another task can do
  between the parts. The composed calls are those in which nothing runs in between.

  \<^bold>\<open>Synchronisation\<close> (\<open>sys/semaphore\<close>, \<open>sys/pthread\<close>, \<open>sys/mqueue\<close>). \<open>Objects\<close> has the locale
  \<open>waker\<close>, the contract of a privileged call that wakes the waiting task of the highest priority,
  and the facts on tasks that wait for an object. \<open>Sem\<close> is \<open>sem.c\<close>, \<open>Mutex\<close> is
  \<open>pthread_mutex.c\<close>, \<open>Cond\<close> is \<open>pthread_cond.c\<close> and \<open>Mqueue\<close> is \<open>mqueue.c\<close>. The kernel record is
  extended by the objects, by address. Semaphores and mutexes have invariants over their histories (\<open>sem_hist\<close> in
  \<open>Sem\<close>; \<open>mutex_hist\<close> in \<open>Cond\<close>, since a wait for a condition releases the mutex), whose introduction
  rules say what may happen between the calls; in both no call is preempted between its parts. A message queue refines a sequence of messages, sending and receiving
  being stable in the priority (the locale \<open>message_queue\<close>), for messages that are not empty and with priorities below
  \<open>2^31\<close>, as long as the running age of the queue, 32 bits that each send increments, does not
  overflow (\<open>mq_age_wraps\<close> shows what happens then); several lemmas state what the code does where POSIX asks for something else.
  The answers of the allocator are parameters.
  \<open>Aio\<close> is \<open>sys/aio/aio.c\<close> with the part of \<open>pthread_kill.c\<close> that sends a signal from privileged code: the control blocks
  of transfers, the completion callback and the calls that wait for one or all of a list. Its step relation
  interleaves calls, completions, time-outs and signals; the invariant says that a suspended task has something to wait for.

  \<^bold>\<open>The memory allocator\<close> (\<open>sys/syscalls\<close>). \<open>Malloc\<close> is \<open>mallocr.c\<close>, \<open>_realloc.c\<close>, \<open>_sbrk.c\<close> and
  \<open>mallinfo.c\<close>: the heap of a process as slots of 64 bytes, the chunks with their signed headers, and the
  operations on them; its loops follow the headers and are \<open>partial_function\<close>s. \<open>Heap\<close> relates a well-formed heap to the list of its
  chunks (\<open>tiles\<close>), on which searching, splitting and merging are functions, and shows that
  \<open>malloc\<close> and \<open>free\<close> return, keep the chunks apart and the heap well-formed, whatever the callers store in their
  memory. Counts have 16 bits, so the theorems take sizes up to 4 MB and a stack not further away. \<open>realloc\<close> does not
  keep the chunks apart, and the last property says when.

  \<^bold>\<open>The flash file system CAFS lite\<close> (\<open>sys/cafs_lite\<close>). \<open>Flash\<close> is the simulated device
  \<open>sim_dev.c\<close>: a byte array whose bits a write can only clear; a write that would set a bit ends the
  program, which is the value \<open>None\<close> of an operation. An operation that changes the caller's block in RAM returns it beside
  the disk. So a result \<open>Some\<close> in a theorem says that the
  code keeps the discipline of the flash. \<open>CafsBlock\<close> is \<open>cafs_lite_block.c\<close> (headers, statuses,
  the search for a free block), \<open>CafsScratch\<close> is \<open>cafs_lite_scratch.c\<close> (the copies of live blocks of a section that
  is going to be erased), \<open>CafsErase\<close> is the part of \<open>cafs_lite_block.c\<close> that erases sections
  and allocates with a retry, \<open>CafsList\<close> is \<open>cafs_lite_list.c\<close> and \<open>CafsSerial\<close> is
  \<open>cafs_lite_serialno.c\<close>. \<open>CafsChain\<close> abstracts a well-formed list to the sequence of its
  items and shows that the operations of the cursor refine operations on this sequence; the
  locale \<open>block_table\<close> in \<open>CafsSerial\<close> is what a client of a list with keyed entries relies on. The lemmas show that an
  allocation gives a free block and loses no live block, also when it erases, that scanning a
  list ends on every disk, corrupted or not, and that a serial number is found where it was stored.

  \<^bold>\<open>Files\<close> stand on these parts. \<open>CafsFilelist\<close> is \<open>cafs_lite_filelist.c\<close>, the list that maps the
  122-byte segments of a file to blocks; \<open>CafsFile\<close> is the part of \<open>cafs_lite_file.c\<close> that transfers
  bytes through the one segment a handle keeps in RAM; \<open>CafsOpen\<close> is its other part, which opens, creates,
  closes, removes and recovers files; \<open>CafsFs\<close> holds the system calls (\<open>cafs_lite.c\<close>,
  \<open>cafs_lite_dir.c\<close> and the \<open>sysfs.c\<close> beside them). The proofs go up in four steps: \<open>CafsSegments\<close> shows what
  looking up and updating do to the entries of a list, \<open>CafsStore\<close> that saving a segment updates a function
  from segments to data and harms no other block in use, \<open>CafsData\<close> that the pages of a transfer write or read
  the bytes of the file in order, with the RAM segment taken into account, and \<open>CafsIo\<close> that
  \<open>cafs_lite_read\<close> and \<open>cafs_lite_write\<close> act on the sequence of bytes a handle stands for (\<open>open_file\<close>).
  \<open>CafsNew\<close> starts from a new file and states the properties, with the two cases behind the end of the
  file where the code goes wrong. \<open>CafsClose\<close> follows a new file through \<open>close\<close>: the loop that closes its blocks changes the
  list it walks through, the entry of the file goes from open over closing to closed, and a lookup by the name then leads to the
  bytes the handle stood for; \<open>entered\<close> is what holds of the disk while the file is open, \<open>filed\<close> what holds afterwards. A call succeeds when enough blocks are free: two for every segment saved, one
  for the data and one for the list. The largest file has 65535 segments, as segment numbers have 16 bits.

  \<^bold>\<open>Mounts and descriptors\<close> (\<open>sys/sysfs\<close>, \<open>sys/unistd\<close>, \<open>sys/dirent\<close>). \<open>Sysfs\<close> is \<open>sysfs.c\<close> with the record of
  operations of \<open>include/sysfs.h\<close>; a mount is a value of this record, over any state. \<open>Unistd\<close> is the table of open
  files of a process and the calls on descriptors and paths, with the loop of \<open>unistd_data_transfer.c\<close>;
  \<open>Mounts\<close> is \<open>rootfs.c\<close>, \<open>devfs.c\<close> and \<open>dirent.c\<close>. \<open>Descriptors\<close> shows which paths are valid, which mount takes a
  path and how descriptors are given out and come back. The locale \<open>file_store\<close> in \<open>FileStore\<close> is what the calls on
  descriptors rely on in a file system whose handles stand for sequences of bytes; inside it \<open>read\<close>, \<open>write\<close> and
  \<open>lseek\<close> are shown to act on a sequence of bytes with a place. \<open>CafsMount\<close> makes CAFS lite an entry of the
  table of mounts, with the handles at addresses, and interprets the locale on it; \<open>CafsPath\<close> adds the
  creation of a file by its path, so that its last property reaches from the path to the bytes, over the close, and back to them
  by the same path. A place is an
  unbounded integer, where the code has 32 bits and no file is that long.

  \<^bold>\<open>Bounds and termination.\<close> The loops over tables and blocks are structural recursions or have a
  measure. The loop over the items of a list, which follows links on the disk, is a
  \<open>partial_function\<close>, and \<open>while_next_ends\<close> shows that it ends: the back link
  that the code checks makes the visited blocks distinct. The search for the start of a list at start-up reads
  block after block; its bound 65535 is that of the 16-bit block numbers of the code. The theorems on erasing need
  sections of at most 41 blocks, since the scratch table has 30 entries and a section is erased when less than
  three quarters of it are live; with a larger section the code can lose blocks.

  \<^bold>\<open>Not modelled.\<close> Register-level drivers (\<open>hwpl\<close>) and chip drivers (\<open>hwdl\<close>), whose behaviour
  is that of hardware; stack frames, the MPU and the register context of a thread, which are
  assembly; signals delivered to handlers; the wrappers of the allocator for the C library; the file system of application images; the lock of the file
  system, whose calls are taken one at a time, its device glue and its tests; replacing a file that
  was closed before and recovering one after an interruption are modelled in \<open>CafsOpen\<close> without theorems;
  the host file behind the simulated flash; the C++ application library and the vendored DSP library.
\<close>

end
